(* ===== verification/Prelude.thy ===== *)
theory Prelude
  imports Main "HOL-Library.Word"
begin

text \<open>
  Shared ground of the development: the machine types of the C sources, the outcome of a C call
  (a value, or the reason why the call does not return a value), sequencing of calls, the C string
  operations the sources use, and the generic lemmas on words and lists.

  A call that dereferences a null or stale pointer, writes past a buffer, blocks for ever or exits the
  process has the outcome \<open>Fault\<close>; so that a call returns at all is part of every theorem about it.
\<close>

unbundle bit_operations_syntax

named_theorems outcome_simps \<open>unfolding of sequenced calls\<close>
named_theorems store_simps \<open>reading the object store after an update\<close>

section \<open>Machine types\<close>

type_synonym u8 = "8 word"
type_synonym u16 = "16 word"
type_synonym u32 = "32 word"
type_synonym u64 = "64 word"
type_synonym addr = "64 word"   \<comment> \<open>pointers of the LP64 targets; 0 is NULL\<close>
type_synonym fnptr = "64 word"  \<comment> \<open>function pointers\<close>

section \<open>The outcome of a call\<close>

datatype fault =
    NullDeref     \<comment> \<open>a null pointer is dereferenced\<close>
  | BadPtr        \<comment> \<open>a freed, foreign or mistyped block is accessed\<close>
  | OutOfBounds   \<comment> \<open>an access past the end of an array\<close>
  | Blocked       \<comment> \<open>the calling thread waits for a lock or a signal that does not come\<close>
  | Diverges      \<comment> \<open>a loop that never ends\<close>
  | Uninit_Read   \<comment> \<open>an uninitialised variable is read\<close>
  | Bad_Unlock    \<comment> \<open>a pthread mutex that nobody holds is unlocked\<close>
  | Exits         \<comment> \<open>exit() is called\<close>

datatype 'a outcome = Ret 'a | Fault fault

fun obind :: "'a outcome \<Rightarrow> ('a \<Rightarrow> 'b outcome) \<Rightarrow> 'b outcome" where
  "obind (Ret x) f = f x"
| "obind (Fault e) f = Fault e"

lemma obind_eq_Ret [outcome_simps]: "obind m f = Ret y \<longleftrightarrow> (\<exists>x. m = Ret x \<and> f x = Ret y)"
  by (cases m) auto

lemma obind_eq_Fault:
  "obind m f = Fault e \<longleftrightarrow> m = Fault e \<or> (\<exists>x. m = Ret x \<and> f x = Fault e)"
  by (cases m) auto

lemma obind_assoc: "obind (obind m f) g = obind m (\<lambda>x. obind (f x) g)"
  by (cases m) auto

lemma obind_cong [fundef_cong]:
  "m = m' \<Longrightarrow> (\<And>x. m' = Ret x \<Longrightarrow> f x = f' x) \<Longrightarrow> obind m f = obind m' f'"
  by (cases m') auto

text \<open>
  A C loop \<open>while (b) c\<close> over the variables it changes: a partial function, for which not ending
  is the fault \<open>Diverges\<close>.
\<close>

partial_function (option) loop_opt :: "('a \<Rightarrow> bool) \<Rightarrow> ('a \<Rightarrow> 'a outcome) \<Rightarrow> 'a \<Rightarrow> 'a outcome option" where
  "loop_opt b c x =
     (if b x then (case c x of Fault e \<Rightarrow> Some (Fault e) | Ret y \<Rightarrow> loop_opt b c y) else Some (Ret x))"

declare loop_opt.simps [code]

fun run_loop :: "'a outcome option \<Rightarrow> 'a outcome" where
  "run_loop None = Fault Diverges"
| "run_loop (Some r) = r"

definition while_o :: "('a \<Rightarrow> bool) \<Rightarrow> ('a \<Rightarrow> 'a outcome) \<Rightarrow> 'a \<Rightarrow> 'a outcome" where
  "while_o b c x = run_loop (loop_opt b c x)"

lemma while_o_unfold: "while_o b c x = (if b x then obind (c x) (while_o b c) else Ret x)"
  by (cases "c x") (simp_all add: while_o_def loop_opt.simps [of b c x])

lemma while_o_done [simp]: "\<not> b x \<Longrightarrow> while_o b c x = Ret x"
  by (simp add: while_o_unfold [of b c x])

lemma while_o_step: "b x \<Longrightarrow> while_o b c x = obind (c x) (while_o b c)"
  by (simp add: while_o_unfold [of b c x])

lemma while_o_Ret: "b x \<Longrightarrow> c x = Ret y \<Longrightarrow> while_o b c x = while_o b c y"
  by (simp add: while_o_step)

text \<open>Total correctness of a loop: an invariant and a measure that every round makes smaller.\<close>

lemma while_o_total:
  fixes m :: "'a \<Rightarrow> nat"
  assumes "I x" and "\<And>x. I x \<Longrightarrow> b x \<Longrightarrow> \<exists>y. c x = Ret y \<and> I y \<and> m y < m x"
  obtains y where "while_o b c x = Ret y" "I y" "\<not> b y"
proof -
  have "\<exists>y. while_o b c x = Ret y \<and> I y \<and> \<not> b y"
    using assms(1)
  proof (induction "m x" arbitrary: x rule: less_induct)
    case less
    show ?case
    proof (cases "b x")
      case True
      then obtain y where y: "c x = Ret y" "I y" "m y < m x" using assms(2) less.prems by blast
      then show ?thesis using less.hyps [of y] while_o_Ret [of b x c y] True by simp
    qed (use less.prems in simp)
  qed
  with that show thesis by blast
qed

text \<open>
  A recursive C function is a partial function to an outcome: \<open>None\<close> for a recursion that does not
  end, which on a store with a cycle is the case.
\<close>

definition rbind :: "'a outcome option \<Rightarrow> ('a \<Rightarrow> 'b outcome option) \<Rightarrow> 'b outcome option" where
  "rbind m f = Option.bind m (\<lambda>r. case r of Ret x \<Rightarrow> f x | Fault e \<Rightarrow> Some (Fault e))"

lemma rbind_simps [simp]:
  "rbind (Some (Ret x)) f = f x" "rbind (Some (Fault e)) f = Some (Fault e)" "rbind None f = None"
  by (simp_all add: rbind_def)

lemma rbind_mono [partial_function_mono]:
  assumes "mono_option B" and "\<And>y. mono_option (C y)"
  shows "mono_option (\<lambda>f. rbind (B f) (\<lambda>y. C y f))"
  unfolding rbind_def
  by (rule bind_mono [OF assms(1)], case_tac y) (simp_all add: assms(2) option.const_mono)

definition returns :: "'a outcome \<Rightarrow> bool" where
  "returns m \<longleftrightarrow> (\<exists>x. m = Ret x)"

lemma returns_Ret [simp]: "returns (Ret x)"
  by (simp add: returns_def)

lemma returns_Fault [simp]: "\<not> returns (Fault e)"
  by (simp add: returns_def)

section \<open>C strings\<close>

text \<open>
  A C string is the list of its characters before the terminating NUL, so comparing at most
  \<open>n\<close> characters compares the prefixes of that length.
\<close>

definition strncmp_eq :: "string \<Rightarrow> string \<Rightarrow> nat \<Rightarrow> bool" where
  "strncmp_eq a b n \<longleftrightarrow> take n a = take n b"

definition strncpy :: "string \<Rightarrow> nat \<Rightarrow> string" where
  "strncpy src n = take n src"

text \<open>
  \<open>strcpy(buf, a); strncat(buf, b, n)\<close> into a buffer of \<open>cap\<close> bytes: the characters and
  the terminating NUL have to fit.
\<close>

definition strcpy_strncat :: "string \<Rightarrow> string \<Rightarrow> nat \<Rightarrow> nat \<Rightarrow> string outcome" where
  "strcpy_strncat a b n cap =
     (let r = a @ take n b in if length r < cap then Ret r else Fault OutOfBounds)"

fun hex_digit :: "nat \<Rightarrow> char" where
  "hex_digit n = ''0123456789abcdef'' ! (n mod 16)"

text \<open>\<open>%08x\<close> of an unsigned int: exactly eight lower case digits.\<close>

definition fmt_08x :: "u32 \<Rightarrow> string" where
  "fmt_08x w = map (\<lambda>i. hex_digit (unat (drop_bit (4 * i) w AND 0xF))) (rev [0..<8])"

lemma length_fmt_08x [simp]: "length (fmt_08x w) = 8"
  by (simp add: fmt_08x_def)

text \<open>Decimal numbers: \<open>%d\<close> and \<open>%ld\<close>.\<close>

fun fmt_dec :: "nat \<Rightarrow> string" where
  "fmt_dec n = (if n < 10 then [hex_digit n] else fmt_dec (n div 10) @ [hex_digit (n mod 10)])"

declare fmt_dec.simps [simp del]

definition fmt_ld :: "int \<Rightarrow> string" where
  "fmt_ld i = (if i < 0 then CHR ''-'' # fmt_dec (nat (- i)) else fmt_dec (nat i))"

text \<open>\<open>sprintf\<close> into a buffer of \<open>cap\<close> bytes.\<close>

definition sprintf_into :: "string \<Rightarrow> nat \<Rightarrow> string outcome" where
  "sprintf_into txt cap = (if length txt < cap then Ret txt else Fault OutOfBounds)"

section \<open>Words and lists\<close>

lemma word_Suc_less:
  fixes k c :: "'a::len word"
  assumes "k < c"
  shows "unat (k + 1) = Suc (unat k)"
proof -
  have "unat k < unat c" using assms by (simp add: word_less_nat_alt)
  then have "Suc (unat k) < 2 ^ LENGTH('a)" using unsigned_less [of c, where 'a = nat] by linarith
  then show ?thesis by (simp add: unat_word_ariths)
qed

lemma unat_ucast_u64 [simp]: "unat (ucast (w :: u32) :: u64) = unat w"
  using unsigned_less [of w, where 'a = nat] by (simp add: unsigned_ucast_eq take_bit_nat_eq_self)

lemma ucast_u64_pos [simp]: "0 < (ucast (w :: u32) :: u64) \<longleftrightarrow> 0 < w"
  by (simp add: word_less_nat_alt)

lemma nth_take_while_first:
  "i < length xs \<Longrightarrow> P (xs ! i) \<Longrightarrow> (\<forall>j<i. \<not> P (xs ! j)) \<Longrightarrow> find P xs = Some (xs ! i)"
  by (auto simp: find_Some_iff)

lemma map_of_append_None: "map_of xs k = None \<Longrightarrow> map_of (xs @ ys) k = map_of ys k"
  by (simp add: map_add_def)

end
