(* ===== verification/Kit_Types.thy ===== *)
theory Kit_Types
  imports Prelude
begin

text \<open>
  The data of libs/sos: the constants of inc/const.h and inc/error.h, the structures of the headers
  as records, the objects a memory block can hold, the state of the process (the object store and the
  static variables of the source files), and the environment: what the library calls outside itself
  (the memory regions of the vendored dlmalloc, libc malloc, the clock, the POSIX threads, the
  callbacks its users register) as functions the operations take as an argument.
\<close>

section \<open>Constants\<close>

abbreviation ERROR :: u32 where "ERROR \<equiv> 0"
abbreviation OKAY :: u32 where "OKAY \<equiv> 1"

definition STR_LEN :: nat where "STR_LEN = 32"
definition OS_RES_NUM :: nat where "OS_RES_NUM = 20"
definition OS_MAX_RES :: nat where "OS_MAX_RES = 4000"
definition OS_SYSMEM_SIZE :: u32 where "OS_SYSMEM_SIZE = 9 * 4096"

definition THREAD_NAME :: string where "THREAD_NAME = ''sysTHRD''"
definition COND_NAME :: string where "COND_NAME = ''sysCOND''"
definition MUTEX_NAME :: string where "MUTEX_NAME = ''sysMUTX''"
definition QUEUE_NAME :: string where "QUEUE_NAME = ''sysQUEU''"
definition BUFFER_NAME :: string where "BUFFER_NAME = ''sysBUFF''"
definition MSGQ_NAME :: string where "MSGQ_NAME = ''sysMSGQ''"
definition BUFFER_CLASS_NAME :: string where "BUFFER_CLASS_NAME = ''sysBCLS''"
definition NET_PORT_CLASS_NAME :: string where "NET_PORT_CLASS_NAME = ''sysNETP''"
definition NET_CHAN_CLASS_NAME :: string where "NET_CHAN_CLASS_NAME = ''sysNETC''"
definition NET_CHAN_NAME :: string where "NET_CHAN_NAME = ''sysCHAN''"
definition NET_SEL_NAME :: string where "NET_SEL_NAME = ''sysSELT''"
definition ORDER_LIST_NAME :: string where "ORDER_LIST_NAME = ''sysOLST''"
definition WIN32_THREAD_NAME :: string where "WIN32_THREAD_NAME = ''sysWTHR''"
definition NO_RES_NAME :: string where "NO_RES_NAME = ''UNKNOWN''"

lemmas res_name_defs = THREAD_NAME_def COND_NAME_def MUTEX_NAME_def QUEUE_NAME_def BUFFER_NAME_def
  MSGQ_NAME_def BUFFER_CLASS_NAME_def NET_PORT_CLASS_NAME_def NET_CHAN_CLASS_NAME_def
  NET_CHAN_NAME_def NET_SEL_NAME_def ORDER_LIST_NAME_def WIN32_THREAD_NAME_def NO_RES_NAME_def

text \<open>\<open>(long)(0xffffffff)\<close>, the key of an item that was inserted without one.\<close>

definition OS_LIST_NO_KEY :: u64 where "OS_LIST_NO_KEY = 0xffffffff"

definition OS_MUTEX_FREE :: u8 where "OS_MUTEX_FREE = 1"
definition OS_MUTEX_LOCKED :: u8 where "OS_MUTEX_LOCKED = 2"

definition OS_THREAD_SIG_START :: u32 where "OS_THREAD_SIG_START = 1"

section \<open>Structures\<close>

text \<open>A pthread mutex is the flag whether it is held.\<close>

record OS_LIST_DATA =
  ld_data :: addr
  ld_key :: u64
  ld_resid :: u32
  ld_next :: addr
  ld_prev :: addr

record OS_LIST =
  ol_name :: string
  ol_data :: addr
  ol_mut :: bool
  ol_counter :: u32

record OS_MUTEX =
  mx_name :: string
  mx_owner :: u32
  mx_validity :: u8
  mx_status :: u8
  mx_osid :: bool
  mx_counter :: u32

record OS_COND =
  cv_name :: string
  cv_owner :: u32
  cv_mutex :: bool
  cv_sigtime :: u64
  cv_waittime :: u64
  cv_lock :: bool

record OS_THREAD =
  th_name :: string
  th_func :: fnptr
  th_dfunc :: fnptr
  th_runthr :: u64
  th_monthr :: u64
  th_arg :: addr
  th_sig :: u32
  th_restartable :: u32
  th_restartcnt :: u32
  th_id :: u32

record OS_QNODE =
  qn_data :: addr
  qn_size :: u32
  qn_tail :: u32
  qn_unused :: u32
  qn_next :: addr

record OS_QHEAD =
  qh_channel :: u32
  qh_current_size :: u32
  qh_list :: addr
  qh_lock :: u32
  qh_pool :: u32
  qh_delfunc :: fnptr
  qh_next :: addr

record OS_MESG =
  ms_command :: u32
  ms_data :: addr
  ms_size :: u32

record OS_MESG_HEAD =
  mh_id :: u32
  mh_qbuff :: u32
  mh_cond :: u32
  mh_counter :: u32

record buff_history_st =
  bh_oname :: string
  bh_size :: u32
  bh_data :: addr
  bh_next :: addr

record buff_class_node =
  bc_id :: u32
  bc_objectid :: u32
  bc_name :: string
  bc_osize :: u32
  bc_totsize :: u32
  bc_availsize :: u32
  bc_numblocks :: u32
  bc_lock :: u32
  bc_data :: addr
  bc_base :: addr
  bc_system_base :: addr
  bc_fixedbase :: u8
  bc_h_start :: u8
  bc_h_lock :: u32
  bc_h :: addr

text \<open>
  The bookkeeping bytes buff.c keeps in front of and behind the bytes it hands out: the beginning
  marker, the requested size, the class id, the history pointer, and the ending marker.
\<close>

record buff_hdr =
  bb_magic :: u64
  bb_size :: u32
  bb_id :: u32
  bb_hloc :: addr
  bb_end :: u32

text \<open>
  The network module: the part of a \<open>struct sockaddr_in\<close> in network byte order, addresses, packets,
  channels and ports. The protocol of a port is one of the two static protocol blocks or NULL.
\<close>

record sockaddr_in =
  sin_family :: u16
  sin_port :: u16
  sin_addr :: u32

record net_addrinfo_t =
  ai_ip :: u32
  ai_port :: u32
  ai_addr :: sockaddr_in
  ai_addrsize :: u32

record net_packet_hdr =
  hd_preamble :: "u8 list"
  hd_type :: u32
  hd_size :: u32
  hd_vsport :: u16
  hd_vdport :: u16
  hd_option :: u32
  hd_checksum :: u32

record net_packet =
  pk_h :: net_packet_hdr
  pk_payload :: addr
  pk_priv :: addr

record net_channel_st =
  ch_name :: string
  ch_buff :: u32
  ch_cnum :: u32
  ch_total_bytes :: u32
  ch_packets :: u32
  ch_msgq :: u32
  ch_lock :: u32
  ch_disabled :: u8
  ch_port :: addr

datatype net_protocol = NULL_PROTO | UDP_PROTO | TCP_PROTO

record net_port_st =
  np_id :: u32
  np_name :: string
  np_type :: u32
  np_addr :: net_addrinfo_t
  np_status :: u8
  np_fd :: u32
  np_chanlist :: addr
  np_copycount :: u32
  np_sig :: u32
  np_lock :: u32
  np_proto :: net_protocol
  np_func :: u32
  np_pktfunc :: fnptr
  np_upcall :: fnptr
  np_option :: u32
  np_interface_packet :: addr
  np_port_errno :: u32
  np_block_mode :: u8
  np_payload_size :: u32
  np_catchup_delay :: u32

section \<open>The object store\<close>

text \<open>
  A block from an allocator that zeroes it is \<open>Zeroed\<close>, one from an allocator that does not is
  \<open>Uninit\<close>; storing a structure or bytes gives it a type.
\<close>

datatype obj =
    Zeroed u64
  | Uninit u64
  | ListObj OS_LIST
  | DataObj OS_LIST_DATA
  | MutexObj OS_MUTEX
  | CondObj OS_COND
  | ThreadObj OS_THREAD
  | QNodeObj OS_QNODE
  | QHeadObj OS_QHEAD
  | BytesObj "u8 list"
  | MesgObj OS_MESG
  | MesgHeadObj OS_MESG_HEAD
  | HistObj buff_history_st
  | ClassObj buff_class_node
  | BuffHdrObj buff_hdr
  | PacketObj net_packet
  | ChanObj net_channel_st
  | PortObj net_port_st

type_synonym heap = "addr \<Rightarrow> obj option"

fun the_list :: "obj \<Rightarrow> OS_LIST option" where
  "the_list (ListObj x) = Some x" | "the_list _ = None"

fun the_data :: "obj \<Rightarrow> OS_LIST_DATA option" where
  "the_data (DataObj x) = Some x" | "the_data _ = None"

fun the_mutex :: "obj \<Rightarrow> OS_MUTEX option" where
  "the_mutex (MutexObj x) = Some x" | "the_mutex _ = None"

fun the_cond :: "obj \<Rightarrow> OS_COND option" where
  "the_cond (CondObj x) = Some x" | "the_cond _ = None"

fun the_thread :: "obj \<Rightarrow> OS_THREAD option" where
  "the_thread (ThreadObj x) = Some x" | "the_thread _ = None"

fun the_qnode :: "obj \<Rightarrow> OS_QNODE option" where
  "the_qnode (QNodeObj x) = Some x" | "the_qnode _ = None"

fun the_qhead :: "obj \<Rightarrow> OS_QHEAD option" where
  "the_qhead (QHeadObj x) = Some x" | "the_qhead _ = None"

fun the_bytes :: "obj \<Rightarrow> u8 list option" where
  "the_bytes (BytesObj x) = Some x" | "the_bytes _ = None"

fun the_mesg :: "obj \<Rightarrow> OS_MESG option" where
  "the_mesg (MesgObj x) = Some x" | "the_mesg _ = None"

fun the_mesg_head :: "obj \<Rightarrow> OS_MESG_HEAD option" where
  "the_mesg_head (MesgHeadObj x) = Some x" | "the_mesg_head _ = None"

fun the_hist :: "obj \<Rightarrow> buff_history_st option" where
  "the_hist (HistObj x) = Some x" | "the_hist _ = None"

fun the_class :: "obj \<Rightarrow> buff_class_node option" where
  "the_class (ClassObj x) = Some x" | "the_class _ = None"

fun the_buff_hdr :: "obj \<Rightarrow> buff_hdr option" where
  "the_buff_hdr (BuffHdrObj x) = Some x" | "the_buff_hdr _ = None"

fun the_packet :: "obj \<Rightarrow> net_packet option" where
  "the_packet (PacketObj x) = Some x" | "the_packet _ = None"

fun the_chan :: "obj \<Rightarrow> net_channel_st option" where
  "the_chan (ChanObj x) = Some x" | "the_chan _ = None"

fun the_port :: "obj \<Rightarrow> net_port_st option" where
  "the_port (PortObj x) = Some x" | "the_port _ = None"

lemma the_obj_Some [simp]:
  "the_list x = Some l \<longleftrightarrow> x = ListObj l"
  "the_data x = Some d \<longleftrightarrow> x = DataObj d"
  "the_mutex x = Some m \<longleftrightarrow> x = MutexObj m"
  "the_cond x = Some c \<longleftrightarrow> x = CondObj c"
  "the_thread x = Some t \<longleftrightarrow> x = ThreadObj t"
  "the_qnode x = Some n \<longleftrightarrow> x = QNodeObj n"
  "the_qhead x = Some q \<longleftrightarrow> x = QHeadObj q"
  "the_bytes x = Some bs \<longleftrightarrow> x = BytesObj bs"
  "the_mesg x = Some ms \<longleftrightarrow> x = MesgObj ms"
  "the_mesg_head x = Some mh \<longleftrightarrow> x = MesgHeadObj mh"
  "the_hist x = Some hs \<longleftrightarrow> x = HistObj hs"
  "the_class x = Some k \<longleftrightarrow> x = ClassObj k"
  "the_buff_hdr x = Some bh \<longleftrightarrow> x = BuffHdrObj bh"
  "the_packet x = Some pk \<longleftrightarrow> x = PacketObj pk"
  "the_chan x = Some ch \<longleftrightarrow> x = ChanObj ch"
  "the_port x = Some po \<longleftrightarrow> x = PortObj po"
  by (cases x; simp)+

section \<open>The state of the process\<close>

text \<open>One entry of \<open>os_res_pool\<close> (res.c).\<close>

record res_pool =
  rp_name :: string
  rp_base :: u32
  rp_counter :: u32
  rp_usevec :: "u8 list"
  rp_used :: u32
  rp_lock :: bool

record os_state =
  heap :: heap
  calls :: nat                 \<comment> \<open>calls made to the environment so far\<close>
  os_res_pool :: "res_pool list"
  os_mem_initialized :: bool
  os_mem_lock :: bool
  os_sys_space :: addr
  os_sys_region :: addr
  os_system_pool_size :: u32
  mutex_list :: addr
  cond_list :: addr
  thread_list :: addr
  queue_list :: addr
  msgq_list :: addr
  buffer_class_list :: addr
  os_errno_var :: u32
  os_network_pool_size :: u32
  net_channel_pool :: addr
  net_port_pool :: addr
  net_proto_ready :: bool      \<comment> \<open>the protocol blocks are filled in\<close>
  net_out :: "u32 \<Rightarrow> u8 list"    \<comment> \<open>the bytes the kernel has accepted on a descriptor\<close>

type_synonym 'a os = "os_state \<Rightarrow> ('a \<times> os_state) outcome"

section \<open>The environment\<close>

datatype ctype =
    T_OS_LIST | T_OS_LIST_DATA | T_OS_MUTEX | T_OS_COND | T_OS_THREAD
  | T_OS_QNODE | T_OS_QHEAD | T_OS_MESG | T_OS_MESG_HEAD
  | T_buff_history_st | T_buff_class_node
  | T_net_packet | T_net_channel_st | T_net_port_st

text \<open>
  Every call of an allocator or of the clock gets the number of the call, so that the answers may
  depend on everything that happened before; \<open>e_sizeof\<close> is the size of a structure, which the
  C implementation fixes; \<open>e_call\<close> runs a registered callback; \<open>e_cond_wait\<close> is what the
  other threads do to the state until the waiting thread is woken up. POSIX leaves the unlock of a
  pthread mutex that is not locked undefined for the default kind of mutex; \<open>e_unlock_free\<close> says
  that on this platform such an unlock has no effect, and where it does not hold the model faults.
\<close>

record os_env =
  e_region_alloc :: "nat \<Rightarrow> addr \<Rightarrow> u64 \<Rightarrow> heap \<Rightarrow> addr"
  e_region_create :: "nat \<Rightarrow> addr \<Rightarrow> u64 \<Rightarrow> addr"
  e_malloc :: "nat \<Rightarrow> u64 \<Rightarrow> heap \<Rightarrow> addr"
  e_sizeof :: "ctype \<Rightarrow> u32"
  e_time :: "nat \<Rightarrow> u64"
  e_call :: "fnptr \<Rightarrow> addr \<Rightarrow> u32 os"
  e_cond_wait :: "addr \<Rightarrow> unit os"
  e_thread_create :: "nat \<Rightarrow> u64 option"
  e_thread_self :: u64
  e_unlock_free :: bool

section \<open>Access to the store\<close>

definition load :: "(obj \<Rightarrow> 'a option) \<Rightarrow> addr \<Rightarrow> os_state \<Rightarrow> 'a outcome" where
  "load sel p s =
     (if p = 0 then Fault NullDeref
      else case heap s p of
        None \<Rightarrow> Fault BadPtr
      | Some x \<Rightarrow> (case sel x of None \<Rightarrow> Fault BadPtr | Some v \<Rightarrow> Ret v))"

definition hput :: "addr \<Rightarrow> obj \<Rightarrow> os_state \<Rightarrow> os_state" where
  "hput p x s = s\<lparr>heap := (heap s)(p \<mapsto> x)\<rparr>"

definition hdel :: "addr \<Rightarrow> os_state \<Rightarrow> os_state" where
  "hdel p s = s\<lparr>heap := (heap s)(p := None)\<rparr>"

definition tick :: "os_state \<Rightarrow> os_state" where
  "tick s = s\<lparr>calls := Suc (calls s)\<rparr>"

lemma load_eq_Ret: "load sel p s = Ret v \<longleftrightarrow> p \<noteq> 0 \<and> (\<exists>x. heap s p = Some x \<and> sel x = Some v)"
  by (auto simp: load_def split: option.splits)

lemma load_Some [store_simps]:
  "p \<noteq> 0 \<Longrightarrow> heap s p = Some x \<Longrightarrow> sel x = Some v \<Longrightarrow> load sel p s = Ret v"
  by (simp add: load_def)

lemma load_null [simp]: "load sel 0 s = Fault NullDeref"
  by (simp add: load_def)

lemma load_cong: "heap s p = heap s' p \<Longrightarrow> load sel p s = load sel p s'"
  by (simp add: load_def)

lemma heap_hput [simp, store_simps]: "heap (hput p x s) = (heap s)(p \<mapsto> x)"
  by (simp add: hput_def)

lemma heap_hdel [simp, store_simps]: "heap (hdel p s) = (heap s)(p := None)"
  by (simp add: hdel_def)

lemma heap_tick [simp, store_simps]: "heap (tick s) = heap s"
  by (simp add: tick_def)

lemma os_res_pool_store [simp]:
  "os_res_pool (hput p x s) = os_res_pool s"
  "os_res_pool (hdel p s) = os_res_pool s"
  "os_res_pool (tick s) = os_res_pool s"
  by (simp_all add: hput_def hdel_def tick_def)

lemma os_mem_store [simp]:
  "os_mem_initialized (hput p x s) = os_mem_initialized s"
  "os_mem_initialized (hdel p s) = os_mem_initialized s"
  "os_mem_initialized (tick s) = os_mem_initialized s"
  "os_mem_lock (hput p x s) = os_mem_lock s"
  "os_mem_lock (hdel p s) = os_mem_lock s"
  "os_mem_lock (tick s) = os_mem_lock s"
  "os_sys_region (hput p x s) = os_sys_region s"
  "os_sys_region (hdel p s) = os_sys_region s"
  "os_sys_region (tick s) = os_sys_region s"
  by (simp_all add: hput_def hdel_def tick_def)

lemma calls_store [simp]:
  "calls (hput p x s) = calls s"
  "calls (hdel p s) = calls s"
  "calls (tick s) = Suc (calls s)"
  by (simp_all add: hput_def hdel_def tick_def)

lemma lists_store [simp]:
  "mutex_list (hput p x s) = mutex_list s" "mutex_list (hdel p s) = mutex_list s"
  "mutex_list (tick s) = mutex_list s"
  "cond_list (hput p x s) = cond_list s" "cond_list (hdel p s) = cond_list s"
  "cond_list (tick s) = cond_list s"
  "thread_list (hput p x s) = thread_list s" "thread_list (hdel p s) = thread_list s"
  "thread_list (tick s) = thread_list s"
  "queue_list (hput p x s) = queue_list s" "queue_list (hdel p s) = queue_list s"
  "queue_list (tick s) = queue_list s"
  "msgq_list (hput p x s) = msgq_list s" "msgq_list (hdel p s) = msgq_list s"
  "msgq_list (tick s) = msgq_list s"
  "buffer_class_list (hput p x s) = buffer_class_list s"
  "buffer_class_list (hdel p s) = buffer_class_list s"
  "buffer_class_list (tick s) = buffer_class_list s"
  "net_port_pool (hput p x s) = net_port_pool s" "net_port_pool (hdel p s) = net_port_pool s"
  "net_port_pool (tick s) = net_port_pool s"
  "net_channel_pool (hput p x s) = net_channel_pool s" "net_channel_pool (hdel p s) = net_channel_pool s"
  "net_channel_pool (tick s) = net_channel_pool s"
  by (simp_all add: hput_def hdel_def tick_def)

lemma net_store [simp]:
  "net_out (hput p x s) = net_out s" "net_out (hdel p s) = net_out s" "net_out (tick s) = net_out s"
  "net_proto_ready (hput p x s) = net_proto_ready s" "net_proto_ready (hdel p s) = net_proto_ready s"
  "net_proto_ready (tick s) = net_proto_ready s"
  by (simp_all add: hput_def hdel_def tick_def)

lemma os_res_pool_update_frame [simp]:
  "heap (s\<lparr>os_res_pool := r\<rparr>) = heap s"
  by simp

lemma hput_hput [simp]: "hput p x (hput p y s) = hput p x s"
  by (simp add: hput_def)

lemma hput_same: "heap s p = Some x \<Longrightarrow> hput p x s = s"
  by (simp add: hput_def fun_upd_idem)

lemma hput_pool [simp]: "hput p x (s\<lparr>os_res_pool := r\<rparr>) = (hput p x s)\<lparr>os_res_pool := r\<rparr>"
  by (simp add: hput_def)

lemma hput_commute: "p \<noteq> q \<Longrightarrow> hput p x (hput q y s) = hput q y (hput p x s)"
  by (simp add: hput_def fun_upd_twist)

lemma load_pool [simp]: "load sel p (s\<lparr>os_res_pool := r\<rparr>) = load sel p s"
  by (simp add: load_def)

lemma load_hput [simp]:
  "p \<noteq> 0 \<Longrightarrow> sel x = Some v \<Longrightarrow> load sel p (hput p x s) = Ret v"
  "p \<noteq> q \<Longrightarrow> load sel p (hput q x s) = load sel p s"
  by (simp_all add: load_def)

end
