(* ===== verification/Os_Res.thy ===== *)
theory Os_Res
  imports Kit_Types
begin

text \<open>
  src/res.c: the resource ids. Every kind of object has a pool with a base number and a use vector of
  OS\_MAX\_RES cells; an id is the base plus the number of a cell, the first free cell is taken, and
  freeing an id clears its cell. The lemmas show which id an allocation returns, that ids in use are
  never handed out twice, that a free returns the cell, and that the ids of different pools differ.
\<close>

section \<open>Operations\<close>

definition mk_pool :: "string \<Rightarrow> u32 \<Rightarrow> u32 \<Rightarrow> res_pool" where
  "mk_pool nm base used =
     \<lparr>rp_name = nm, rp_base = base, rp_counter = 0, rp_usevec = replicate OS_MAX_RES 0,
      rp_used = used, rp_lock = False\<rparr>"

definition os_res_pool_table :: "res_pool list" where
  "os_res_pool_table =
     [mk_pool THREAD_NAME 0x10000000 1,
      mk_pool MUTEX_NAME 0x20000000 1,
      mk_pool COND_NAME 0x30000000 1,
      mk_pool BUFFER_NAME 0x40000000 1,
      mk_pool QUEUE_NAME 0x50000000 1,
      mk_pool MSGQ_NAME 0x60000000 1,
      mk_pool BUFFER_CLASS_NAME 0x70000000 1,
      mk_pool NET_PORT_CLASS_NAME 0x80000000 1,
      mk_pool NET_CHAN_CLASS_NAME 0x90000000 1,
      mk_pool NET_CHAN_NAME 0xa0000000 1,
      mk_pool NET_SEL_NAME 0xb0000000 1,
      mk_pool ORDER_LIST_NAME 0xc0000000 1,
      mk_pool WIN32_THREAD_NAME 0xd0000000 1,
      mk_pool NO_RES_NAME 0xe0000000 0,
      mk_pool NO_RES_NAME 0xf0000000 0,
      mk_pool NO_RES_NAME 0x11000000 0,
      mk_pool NO_RES_NAME 0x12000000 0,
      mk_pool NO_RES_NAME 0x14000000 0,
      mk_pool NO_RES_NAME 0x15000000 0,
      mk_pool NO_RES_NAME 0x16000000 0]"

definition os_res_init :: "u32 os" where
  "os_res_init s =
     Ret (OKAY, s\<lparr>os_res_pool :=
       map (\<lambda>p. p\<lparr>rp_usevec := replicate OS_MAX_RES 0, rp_lock := False\<rparr>) (os_res_pool s)\<rparr>)"

text \<open>\<open>sizeof(unsigned char)\<close> is 1: every id has a byte of its own, of which the top bit is used.\<close>

definition res_nth :: "nat \<Rightarrow> nat" where "res_nth indx = indx div 1"
definition res_val :: "nat \<Rightarrow> u8" where "res_val indx = drop_bit (indx mod 1) 0x80"

definition cell_used :: "u8 list \<Rightarrow> nat \<Rightarrow> bool" where
  "cell_used v indx \<longleftrightarrow> v ! res_nth indx AND res_val indx \<noteq> 0"

function newid_scan :: "u8 list \<Rightarrow> nat \<Rightarrow> nat option" where
  "newid_scan v indx =
     (if indx < OS_MAX_RES
      then if \<not> cell_used v indx then Some indx else newid_scan v (Suc indx)
      else None)"
  by pat_completeness auto
termination
  by (relation "measure (\<lambda>(v, indx). OS_MAX_RES - indx)") auto

declare newid_scan.simps [simp del]

text \<open>Both functions compare the pool number with OS\_MAX\_RES, the number of cells of one pool.\<close>

definition os_res_newid_gen :: "nat \<Rightarrow> nat os" where
  "os_res_newid_gen vector s =
     (if \<not> vector < OS_MAX_RES then Ret (0, s)
      else if \<not> vector < length (os_res_pool s) then Fault OutOfBounds
      else let rp = os_res_pool s ! vector in
        if rp_lock rp then Fault Blocked
        else case newid_scan (rp_usevec rp) 0 of
          None \<Rightarrow> Ret (OS_MAX_RES, s)
        | Some indx \<Rightarrow>
            Ret (indx, s\<lparr>os_res_pool := (os_res_pool s)
              [vector := rp\<lparr>rp_usevec := (rp_usevec rp)
                 [res_nth indx := rp_usevec rp ! res_nth indx OR res_val indx]\<rparr>]\<rparr>))"

definition os_res_newid_ret :: "nat \<Rightarrow> u32 \<Rightarrow> u32 os" where
  "os_res_newid_ret vector indx s =
     (if \<not> vector < OS_MAX_RES then Ret (ERROR, s)
      else if \<not> vector < length (os_res_pool s) then Fault OutOfBounds
      else let rp = os_res_pool s ! vector in
        if rp_lock rp then Fault Blocked
        else let i = unat indx in
          if \<not> res_nth i < length (rp_usevec rp) then Fault OutOfBounds
          else if \<not> cell_used (rp_usevec rp) i then Ret (ERROR, s)
          else Ret (OKAY, s\<lparr>os_res_pool := (os_res_pool s)
              [vector := rp\<lparr>rp_usevec := (rp_usevec rp)
                 [res_nth i := rp_usevec rp ! res_nth i AND NOT (res_val i)]\<rparr>]\<rparr>))"

text \<open>The loops over the pools: the first pool whose name agrees on seven characters.\<close>

fun pool_find :: "string \<Rightarrow> res_pool list \<Rightarrow> nat \<Rightarrow> nat option" where
  "pool_find nm [] ii = None"
| "pool_find nm (rp # rps) ii =
     (if strncmp_eq (rp_name rp) nm 7 then Some ii else pool_find nm rps (Suc ii))"

fun pool_unused :: "res_pool list \<Rightarrow> nat \<Rightarrow> nat option" where
  "pool_unused [] ii = None"
| "pool_unused (rp # rps) ii = (if rp_used rp = 0 then Some ii else pool_unused rps (Suc ii))"

definition os_res_register :: "string \<Rightarrow> u32 os" where
  "os_res_register nm s =
     (case pool_find nm (os_res_pool s) 0 of
        Some ii \<Rightarrow> Ret (ERROR, s)
      | None \<Rightarrow>
          (case pool_unused (os_res_pool s) 0 of
             None \<Rightarrow> Ret (ERROR, s)
           | Some ii \<Rightarrow>
               Ret (OKAY, s\<lparr>os_res_pool := (os_res_pool s)
                 [ii := (os_res_pool s ! ii)\<lparr>rp_name := strncpy nm STR_LEN, rp_used := 1\<rparr>]\<rparr>)))"

definition os_res_id_alloc :: "addr \<Rightarrow> u32 os" where
  "os_res_id_alloc h s =
     obind (load the_list h s) (\<lambda>l.
     case pool_find (ol_name l) (os_res_pool s) 0 of
       None \<Rightarrow> Ret (ERROR, s)
     | Some ii \<Rightarrow>
         obind (os_res_newid_gen ii s) (\<lambda>(newval, s').
         if newval = OS_MAX_RES then Ret (ERROR, s')
         else Ret (rp_base (os_res_pool s' ! ii) + of_nat newval, s')))"

definition os_res_id_free :: "addr \<Rightarrow> u32 \<Rightarrow> u32 os" where
  "os_res_id_free h rid s =
     obind (load the_list h s) (\<lambda>l.
     case pool_find (ol_name l) (os_res_pool s) 0 of
       None \<Rightarrow> Ret (ERROR, s)
     | Some ii \<Rightarrow>
         obind (os_res_newid_ret ii (rid - rp_base (os_res_pool s ! ii)) s) (\<lambda>(newval, s').
         if newval = ERROR then Ret (ERROR, s') else Ret (OKAY, s')))"

definition os_res_id_make_inuse :: "addr \<Rightarrow> u32 \<Rightarrow> u32" where
  "os_res_id_make_inuse h newid = OKAY"

definition os_res_make_name :: "string \<Rightarrow> u32 \<Rightarrow> string" where
  "os_res_make_name nm rid = nm @ fmt_08x rid"

record os_res_info_t =
  ri_thread :: u32
  ri_mutex :: u32
  ri_cond :: u32
  ri_buffer :: u32
  ri_queue :: u32
  ri_msgq :: u32
  ri_bclass :: u32
  ri_nport :: u32
  ri_nchannel :: u32

definition os_res_info :: "os_state \<Rightarrow> os_res_info_t" where
  "os_res_info s =
     \<lparr>ri_thread = rp_counter (os_res_pool s ! 0), ri_mutex = rp_counter (os_res_pool s ! 1),
      ri_cond = rp_counter (os_res_pool s ! 2), ri_buffer = rp_counter (os_res_pool s ! 3),
      ri_queue = rp_counter (os_res_pool s ! 4), ri_msgq = rp_counter (os_res_pool s ! 5),
      ri_bclass = rp_counter (os_res_pool s ! 6), ri_nport = rp_counter (os_res_pool s ! 7),
      ri_nchannel = rp_counter (os_res_pool s ! 8)\<rparr>"

section \<open>Well-formed pools\<close>

definition pool_ok :: "res_pool \<Rightarrow> bool" where
  "pool_ok rp \<longleftrightarrow> length (rp_usevec rp) = OS_MAX_RES \<and> \<not> rp_lock rp"

definition pools_ok :: "res_pool list \<Rightarrow> bool" where
  "pools_ok rps \<longleftrightarrow>
     map rp_base rps = map rp_base os_res_pool_table \<and> (\<forall>rp \<in> set rps. pool_ok rp)"

text \<open>
  The cells in use, as pairs of a pool number and a cell number; the id a cell stands for; the ids in
  use of the pool a name belongs to, and of all pools.
\<close>

definition used_cells :: "res_pool list \<Rightarrow> (nat \<times> nat) set" where
  "used_cells rps =
     {(ii, i). ii < length rps \<and> i < OS_MAX_RES \<and> cell_used (rp_usevec (rps ! ii)) i}"

definition cell_id :: "res_pool list \<Rightarrow> nat \<times> nat \<Rightarrow> u32" where
  "cell_id rps c = rp_base (rps ! fst c) + of_nat (snd c)"

definition ids_used :: "string \<Rightarrow> res_pool list \<Rightarrow> u32 set" where
  "ids_used nm rps = cell_id rps ` {c \<in> used_cells rps. pool_find nm rps 0 = Some (fst c)}"

definition all_ids :: "res_pool list \<Rightarrow> u32 set" where
  "all_ids rps = cell_id rps ` used_cells rps"

lemma res_nth_id [simp]: "res_nth i = i"
  by (simp add: res_nth_def)

lemma res_val_exp: "res_val i = 2 ^ 7"
  by (simp add: res_val_def)

lemma cell_used_bit: "cell_used v i \<longleftrightarrow> bit (v ! i) 7"
  by (simp only: cell_used_def res_nth_id res_val_exp and_exp_eq_0_iff_not_bit not_not)

lemma bit_res_val: "bit (res_val i) 7"
  unfolding res_val_exp by (simp only: bit_exp_iff) simp

lemma cell_used_set [simp]:
  "j < length v \<Longrightarrow> cell_used (v[i := v ! i OR res_val i]) j \<longleftrightarrow> j = i \<or> cell_used v j"
  by (cases "i = j") (auto simp: cell_used_bit bit_or_iff bit_res_val)

lemma cell_used_clear [simp]:
  "j < length v \<Longrightarrow> cell_used (v[i := v ! i AND NOT (res_val i)]) j \<longleftrightarrow> j \<noteq> i \<and> cell_used v j"
  by (cases "i = j") (auto simp: cell_used_bit bit_and_iff bit_not_iff bit_res_val)

lemma cell_used_replicate [simp]: "i < n \<Longrightarrow> \<not> cell_used (replicate n 0) i"
  by (simp add: cell_used_bit)

lemma newid_scan_Some:
  assumes "newid_scan v k = Some i"
  shows "k \<le> i \<and> i < OS_MAX_RES \<and> \<not> cell_used v i \<and> (\<forall>j. k \<le> j \<and> j < i \<longrightarrow> cell_used v j)"
  using assms
proof (induction v k rule: newid_scan.induct)
  case (1 v k)
  show ?case
  proof (cases "k < OS_MAX_RES \<and> cell_used v k")
    case True
    with "1.prems" have "newid_scan v (Suc k) = Some i" by (simp add: newid_scan.simps [of v k])
    with "1.IH" True have "Suc k \<le> i \<and> i < OS_MAX_RES \<and> \<not> cell_used v i
        \<and> (\<forall>j. Suc k \<le> j \<and> j < i \<longrightarrow> cell_used v j)" by blast
    with True show ?thesis by (metis Suc_leI le_antisym not_less_eq_eq Suc_leD)
  next
    case False
    with "1.prems" show ?thesis by (auto simp: newid_scan.simps [of v k] split: if_splits)
  qed
qed

lemma newid_scan_None:
  assumes "newid_scan v k = None"
  shows "\<forall>j. k \<le> j \<and> j < OS_MAX_RES \<longrightarrow> cell_used v j"
  using assms
proof (induction v k rule: newid_scan.induct)
  case (1 v k)
  show ?case
  proof (cases "k < OS_MAX_RES \<and> cell_used v k")
    case True
    with "1.prems" have "newid_scan v (Suc k) = None" by (simp add: newid_scan.simps [of v k])
    with "1.IH" True have "\<forall>j. Suc k \<le> j \<and> j < OS_MAX_RES \<longrightarrow> cell_used v j" by blast
    with True show ?thesis by (metis le_eq_less_or_eq Suc_leI)
  next
    case False
    with "1.prems" show ?thesis by (auto simp: newid_scan.simps [of v k] split: if_splits)
  qed
qed

section \<open>The ids of the pools\<close>

lemma table_bases:
  "rp \<in> set os_res_pool_table \<Longrightarrow>
     unat (rp_base rp) mod 2 ^ 24 = 0 \<and> unat (rp_base rp) + OS_MAX_RES < 2 ^ 32 \<and> 0 < unat (rp_base rp)"
  by (auto simp: os_res_pool_table_def mk_pool_def OS_MAX_RES_def)

lemma table_bases_distinct: "distinct (map rp_base os_res_pool_table)"
  by (simp add: os_res_pool_table_def mk_pool_def)

lemma pools_ok_base:
  assumes "pools_ok rps" and "ii < length rps"
  shows "unat (rp_base (rps ! ii)) mod 2 ^ 24 = 0"
    and "unat (rp_base (rps ! ii)) + OS_MAX_RES < 2 ^ 32"
    and "0 < unat (rp_base (rps ! ii))"
proof -
  from assms have "rp_base (rps ! ii) \<in> rp_base ` set os_res_pool_table"
    by (metis list.set_map nth_map nth_mem length_map pools_ok_def)
  with table_bases show "unat (rp_base (rps ! ii)) mod 2 ^ 24 = 0"
    and "unat (rp_base (rps ! ii)) + OS_MAX_RES < 2 ^ 32"
    and "0 < unat (rp_base (rps ! ii))" by auto
qed

lemma unat_id:
  assumes "pools_ok rps" and "ii < length rps" and "i < OS_MAX_RES"
  shows "unat (rp_base (rps ! ii) + of_nat i) = unat (rp_base (rps ! ii)) + i"
  using pools_ok_base(2) [OF assms(1,2)] assms(3)
  by (simp add: unat_word_ariths unat_of_nat OS_MAX_RES_def)

lemma id_inj:
  assumes "pools_ok rps" and "ii < length rps" and "jj < length rps"
    and "i < OS_MAX_RES" and "j < OS_MAX_RES"
    and eq: "rp_base (rps ! ii) + of_nat i = rp_base (rps ! jj) + of_nat j"
  shows "ii = jj \<and> i = j"
proof -
  let ?a = "unat (rp_base (rps ! ii))" and ?b = "unat (rp_base (rps ! jj))"
  have sum: "?a + i = ?b + j"
    using arg_cong [OF eq, of unat] unat_id [OF assms(1,2,4)] unat_id [OF assms(1,3,5)] by simp
  have "i < 2 ^ 24" "j < 2 ^ 24" using assms(4,5) by (simp_all add: OS_MAX_RES_def)
  moreover have "(?a + i) mod 2 ^ 24 = (?b + j) mod 2 ^ 24" using sum by simp
  ultimately have ij: "i = j"
    using pools_ok_base(1) [OF assms(1,2)] pools_ok_base(1) [OF assms(1,3)]
    by (metis add.left_neutral mod_add_left_eq mod_less)
  with sum have "rp_base (rps ! ii) = rp_base (rps ! jj)" by (simp add: word_unat_eq_iff)
  moreover have "distinct (map rp_base rps)"
    using assms(1) table_bases_distinct by (simp add: pools_ok_def)
  ultimately show ?thesis
    using ij assms(2,3) by (metis distinct_conv_nth length_map nth_map)
qed

lemma id_nonzero:
  assumes "pools_ok rps" and "ii < length rps" and "i < OS_MAX_RES"
  shows "rp_base (rps ! ii) + of_nat i \<noteq> 0"
  using unat_id [OF assms] pools_ok_base(3) [OF assms(1,2)]
  by (metis add_is_0 less_numeral_extra(3) unat_0)

lemma pool_find_bound: "pool_find nm rps k = Some ii \<Longrightarrow> k \<le> ii \<and> ii < k + length rps"
  by (induction rps arbitrary: k) (auto split: if_splits, fastforce+)

lemma pool_find_names: "map rp_name rps = map rp_name rps' \<Longrightarrow> pool_find nm rps k = pool_find nm rps' k"
proof (induction rps arbitrary: rps' k)
  case (Cons rp rps)
  then show ?case by (cases rps') auto
qed simp

lemma ids_used_all: "ids_used nm rps \<subseteq> all_ids rps"
  by (auto simp: ids_used_def all_ids_def)

text \<open>Replacing the use vector of one pool.\<close>

definition set_usevec :: "nat \<Rightarrow> u8 list \<Rightarrow> res_pool list \<Rightarrow> res_pool list" where
  "set_usevec ii v rps = rps[ii := (rps ! ii)\<lparr>rp_usevec := v\<rparr>]"

lemma nth_set_usevec:
  "jj < length rps \<Longrightarrow>
     set_usevec ii v rps ! jj = (if jj = ii then (rps ! jj)\<lparr>rp_usevec := v\<rparr> else rps ! jj)"
  by (auto simp: set_usevec_def)

lemma length_set_usevec [simp]: "length (set_usevec ii v rps) = length rps"
  by (simp add: set_usevec_def)

lemma set_usevec_names [simp]:
  "map rp_name (set_usevec ii v rps) = map rp_name rps"
  "map rp_base (set_usevec ii v rps) = map rp_base rps"
  by (rule nth_equalityI; simp add: nth_set_usevec)+

lemma pool_find_set_usevec [simp]: "pool_find nm (set_usevec ii v rps) k = pool_find nm rps k"
  by (rule pool_find_names) simp

lemma rp_base_set_usevec [simp]:
  "jj < length rps \<Longrightarrow> rp_base (set_usevec ii v rps ! jj) = rp_base (rps ! jj)"
  by (simp add: nth_set_usevec)

lemma pools_ok_set_usevec:
  assumes "pools_ok rps" and "length v = OS_MAX_RES"
  shows "pools_ok (set_usevec ii v rps)"
proof (cases "ii < length rps")
  case True
  with assms have "pool_ok ((rps ! ii)\<lparr>rp_usevec := v\<rparr>)"
    by (auto simp: pools_ok_def pool_ok_def)
  moreover have "set (set_usevec ii v rps) \<subseteq> insert ((rps ! ii)\<lparr>rp_usevec := v\<rparr>) (set rps)"
    by (simp add: set_usevec_def set_update_subset_insert)
  ultimately show ?thesis using assms(1) by (auto simp: pools_ok_def)
next
  case False
  with assms show ?thesis by (simp add: set_usevec_def list_update_beyond)
qed

section \<open>What allocating and freeing an id does\<close>

lemma os_res_newid_gen_eq:
  assumes "pools_ok (os_res_pool s)" and "ii < length (os_res_pool s)"
  shows "os_res_newid_gen ii s =
     (case newid_scan (rp_usevec (os_res_pool s ! ii)) 0 of
        None \<Rightarrow> Ret (OS_MAX_RES, s)
      | Some i \<Rightarrow> Ret (i, s\<lparr>os_res_pool := set_usevec ii
          ((rp_usevec (os_res_pool s ! ii))[i := rp_usevec (os_res_pool s ! ii) ! i OR res_val i])
          (os_res_pool s)\<rparr>))"
proof -
  from assms have "pool_ok (os_res_pool s ! ii)" "length (os_res_pool s) = 20"
    by (auto simp: pools_ok_def os_res_pool_table_def dest: map_eq_imp_length_eq)
  with assms show ?thesis
    by (simp add: os_res_newid_gen_def set_usevec_def pool_ok_def OS_MAX_RES_def Let_def
        split: option.splits)
qed

lemma os_res_newid_ret_eq:
  assumes "pools_ok (os_res_pool s)" and "ii < length (os_res_pool s)"
    and "i < OS_MAX_RES" and "cell_used (rp_usevec (os_res_pool s ! ii)) i"
  shows "os_res_newid_ret ii (of_nat i) s =
     Ret (OKAY, s\<lparr>os_res_pool := set_usevec ii
          ((rp_usevec (os_res_pool s ! ii))[i := rp_usevec (os_res_pool s ! ii) ! i AND NOT (res_val i)])
          (os_res_pool s)\<rparr>)"
proof -
  from assms have "pool_ok (os_res_pool s ! ii)" "length (os_res_pool s) = 20"
    by (auto simp: pools_ok_def os_res_pool_table_def dest: map_eq_imp_length_eq)
  moreover have "unat (of_nat i :: u32) = i" using assms(3) by (simp add: unat_of_nat OS_MAX_RES_def)
  ultimately show ?thesis using assms
    by (simp add: os_res_newid_ret_def set_usevec_def pool_ok_def OS_MAX_RES_def Let_def)
qed

text \<open>Setting and clearing a cell, seen from the sets of ids.\<close>

definition mark :: "nat \<Rightarrow> nat \<Rightarrow> res_pool list \<Rightarrow> res_pool list" where
  "mark ii i rps =
     set_usevec ii ((rp_usevec (rps ! ii))[i := rp_usevec (rps ! ii) ! i OR res_val i]) rps"

definition unmark :: "nat \<Rightarrow> nat \<Rightarrow> res_pool list \<Rightarrow> res_pool list" where
  "unmark ii i rps =
     set_usevec ii ((rp_usevec (rps ! ii))[i := rp_usevec (rps ! ii) ! i AND NOT (res_val i)]) rps"

lemma usevec_length:
  "pools_ok rps \<Longrightarrow> ii < length rps \<Longrightarrow> length (rp_usevec (rps ! ii)) = OS_MAX_RES"
  by (auto simp: pools_ok_def pool_ok_def)

lemma mark_frame [simp]:
  "pool_find nm (mark ii i rps) k = pool_find nm rps k"
  "pool_find nm (unmark ii i rps) k = pool_find nm rps k"
  "length (mark ii i rps) = length rps"
  "length (unmark ii i rps) = length rps"
  by (simp_all add: mark_def unmark_def)

lemma pools_ok_mark:
  "pools_ok rps \<Longrightarrow> ii < length rps \<Longrightarrow> pools_ok (mark ii i rps)"
  "pools_ok rps \<Longrightarrow> ii < length rps \<Longrightarrow> pools_ok (unmark ii i rps)"
  by (simp_all add: mark_def unmark_def pools_ok_set_usevec usevec_length)

lemma used_cells_mark:
  assumes "pools_ok rps" and "ii < length rps" and "i < OS_MAX_RES"
  shows "used_cells (mark ii i rps) = insert (ii, i) (used_cells rps)"
    and "used_cells (unmark ii i rps) = used_cells rps - {(ii, i)}"
  using assms usevec_length [OF assms(1,2)]
  by (auto simp: used_cells_def mark_def unmark_def nth_set_usevec split: if_splits)

lemma cell_id_cong:
  assumes "map rp_base rps = map rp_base rps'" and "C \<subseteq> {..<length rps} \<times> UNIV"
  shows "cell_id rps ` C = cell_id rps' ` C"
proof (rule image_cong)
  fix c assume "c \<in> C"
  with assms(2) have "fst c < length rps" by auto
  with assms(1) show "cell_id rps c = cell_id rps' c"
    by (metis cell_id_def length_map nth_map)
qed simp

lemma cell_id_mark:
  "C \<subseteq> {..<length rps} \<times> UNIV \<Longrightarrow> cell_id (mark ii i rps) ` C = cell_id rps ` C"
  "C \<subseteq> {..<length rps} \<times> UNIV \<Longrightarrow> cell_id (unmark ii i rps) ` C = cell_id rps ` C"
  by (rule cell_id_cong; simp add: mark_def unmark_def)+

lemma used_cells_bound: "used_cells rps \<subseteq> {..<length rps} \<times> {..<OS_MAX_RES}"
  by (auto simp: used_cells_def)

lemma cell_id_inj:
  assumes "pools_ok rps"
  shows "inj_on (cell_id rps) ({..<length rps} \<times> {..<OS_MAX_RES})"
  using id_inj [OF assms] by (fastforce simp: inj_on_def cell_id_def)

lemma ids_mark:
  assumes "pools_ok rps" and "ii < length rps" and "i < OS_MAX_RES"
  shows "all_ids (mark ii i rps) = insert (cell_id rps (ii, i)) (all_ids rps)"
    and "ids_used nm (mark ii i rps) =
      (if pool_find nm rps 0 = Some ii then insert (cell_id rps (ii, i)) (ids_used nm rps)
       else ids_used nm rps)"
proof -
  let ?U = "used_cells rps" and ?P = "\<lambda>c. pool_find nm rps 0 = Some (fst c)"
  have sub: "insert (ii, i) ?U \<subseteq> {..<length rps} \<times> UNIV"
    using used_cells_bound [of rps] assms(2) by auto
  show "all_ids (mark ii i rps) = insert (cell_id rps (ii, i)) (all_ids rps)"
    unfolding all_ids_def used_cells_mark(1) [OF assms] cell_id_mark(1) [OF sub] by simp
  have "ids_used nm (mark ii i rps) = cell_id (mark ii i rps) ` {c \<in> insert (ii, i) ?U. ?P c}"
    by (simp add: ids_used_def used_cells_mark(1) [OF assms])
  also have "\<dots> = cell_id rps ` {c \<in> insert (ii, i) ?U. ?P c}"
    by (rule cell_id_mark(1)) (use sub in auto)
  also have "\<dots> = (if pool_find nm rps 0 = Some ii
      then insert (cell_id rps (ii, i)) (ids_used nm rps) else ids_used nm rps)"
    by (auto simp: ids_used_def)
  finally show "ids_used nm (mark ii i rps) =
      (if pool_find nm rps 0 = Some ii then insert (cell_id rps (ii, i)) (ids_used nm rps)
       else ids_used nm rps)" .
qed

lemma ids_unmark:
  assumes "pools_ok rps" and "ii < length rps" and "i < OS_MAX_RES"
  shows "all_ids (unmark ii i rps) = all_ids rps - {cell_id rps (ii, i)}"
    and "ids_used nm (unmark ii i rps) = ids_used nm rps - {cell_id rps (ii, i)}"
proof -
  let ?U = "used_cells rps" and ?P = "\<lambda>c. pool_find nm rps 0 = Some (fst c)"
  have diff: "cell_id rps ` (C - {(ii, i)}) = cell_id rps ` C - {cell_id rps (ii, i)}" if "C \<subseteq> ?U" for C
  proof -
    have "cell_id rps ` (C - {(ii, i)}) = cell_id rps ` C - cell_id rps ` {(ii, i)}"
      by (rule inj_on_image_set_diff [OF cell_id_inj [OF assms(1)]])
        (use that used_cells_bound [of rps] assms in auto)
    then show ?thesis by simp
  qed
  have sub: "?U - {(ii, i)} \<subseteq> {..<length rps} \<times> UNIV"
    using used_cells_bound [of rps] by auto
  show "all_ids (unmark ii i rps) = all_ids rps - {cell_id rps (ii, i)}"
    unfolding all_ids_def used_cells_mark(2) [OF assms] cell_id_mark(2) [OF sub] by (rule diff) simp
  have "{c \<in> used_cells (unmark ii i rps). ?P c} = {c \<in> ?U. ?P c} - {(ii, i)}"
    by (auto simp: used_cells_mark(2) [OF assms])
  then have "ids_used nm (unmark ii i rps) = cell_id (unmark ii i rps) ` ({c \<in> ?U. ?P c} - {(ii, i)})"
    by (simp add: ids_used_def)
  also have "\<dots> = cell_id rps ` ({c \<in> ?U. ?P c} - {(ii, i)})"
    by (rule cell_id_mark(2)) (use sub in auto)
  finally show "ids_used nm (unmark ii i rps) = ids_used nm rps - {cell_id rps (ii, i)}"
    by (simp add: ids_used_def diff)
qed

lemma cell_id_fresh:
  assumes "pools_ok rps" and "ii < length rps" and "i < OS_MAX_RES" and "(ii, i) \<notin> used_cells rps"
  shows "cell_id rps (ii, i) \<notin> all_ids rps"
proof
  assume "cell_id rps (ii, i) \<in> all_ids rps"
  then obtain c where c: "c \<in> used_cells rps" "cell_id rps (ii, i) = cell_id rps c"
    by (auto simp: all_ids_def)
  have "(ii, i) = c"
    by (rule inj_onD [OF cell_id_inj [OF assms(1)] c(2)])
      (use assms c(1) used_cells_bound [of rps] in auto)
  with c assms(4) show False by simp
qed

text \<open>
  Allocation either finds every cell of the pool taken (or no pool) and returns ERROR with nothing
  changed, or returns an id nobody holds, which is then in use.
\<close>

lemma os_res_id_alloc_cases:
  assumes ok: "pools_ok (os_res_pool s)" and l: "load the_list h s = Ret l"
  obtains (exhausted) "os_res_id_alloc h s = Ret (ERROR, s)"
      "\<And>ii i. pool_find (ol_name l) (os_res_pool s) 0 = Some ii \<Longrightarrow> i < OS_MAX_RES \<Longrightarrow>
         (ii, i) \<in> used_cells (os_res_pool s)"
  | (fresh) ii i where
      "pool_find (ol_name l) (os_res_pool s) 0 = Some ii" "ii < length (os_res_pool s)" "i < OS_MAX_RES"
      "(ii, i) \<notin> used_cells (os_res_pool s)" "\<And>j. j < i \<Longrightarrow> (ii, j) \<in> used_cells (os_res_pool s)"
      "os_res_id_alloc h s =
         Ret (cell_id (os_res_pool s) (ii, i), s\<lparr>os_res_pool := mark ii i (os_res_pool s)\<rparr>)"
proof (cases "pool_find (ol_name l) (os_res_pool s) 0")
  case None
  then show ?thesis using l by (intro exhausted) (simp_all add: os_res_id_alloc_def)
next
  case (Some ii)
  have ii: "ii < length (os_res_pool s)" using pool_find_bound [OF Some] by simp
  let ?v = "rp_usevec (os_res_pool s ! ii)"
  show ?thesis
  proof (cases "newid_scan ?v 0")
    case None
    with newid_scan_None [OF None] Some ii l ok show ?thesis
      by (intro exhausted) (auto simp: os_res_id_alloc_def os_res_newid_gen_eq used_cells_def)
  next
    case (Some i)
    note i = newid_scan_Some [OF Some]
    have "os_res_id_alloc h s = Ret (cell_id (os_res_pool s) (ii, i), s\<lparr>os_res_pool := mark ii i (os_res_pool s)\<rparr>)"
      using i Some \<open>pool_find _ _ _ = _\<close> ii l ok
      by (simp add: os_res_id_alloc_def os_res_newid_gen_eq mark_def cell_id_def)
    then show ?thesis using i ii \<open>pool_find _ _ _ = _\<close>
      by (intro fresh [of ii i]) (auto simp: used_cells_def)
  qed
qed

lemma os_res_id_free_used:
  assumes ok: "pools_ok (os_res_pool s)" and l: "load the_list h s = Ret l"
    and used: "r \<in> ids_used (ol_name l) (os_res_pool s)"
  obtains ii i where "ii < length (os_res_pool s)" "i < OS_MAX_RES"
    "r = cell_id (os_res_pool s) (ii, i)"
    "os_res_id_free h r s = Ret (OKAY, s\<lparr>os_res_pool := unmark ii i (os_res_pool s)\<rparr>)"
proof -
  from used obtain ii i where c: "pool_find (ol_name l) (os_res_pool s) 0 = Some ii"
      "(ii, i) \<in> used_cells (os_res_pool s)" "r = cell_id (os_res_pool s) (ii, i)"
    by (auto simp: ids_used_def)
  have "os_res_id_free h r s = Ret (OKAY, s\<lparr>os_res_pool := unmark ii i (os_res_pool s)\<rparr>)"
    using c l ok by (simp add: os_res_id_free_def os_res_newid_ret_eq used_cells_def cell_id_def unmark_def)
  with c show ?thesis by (intro that [of ii i]) (auto simp: used_cells_def)
qed

end
