(* ===== verification/Os_Mem.thy ===== *)
theory Os_Mem
  imports Os_Res
begin

text \<open>
  src/mem.c, src/errno.c, src/time.c and src/linux/os\_specific.c: the system memory region, the error
  number, the clock. The region functions themselves (src/malloc.c, Doug Lea's allocator) are the
  environment; \<open>env_ok\<close> states what the callers rely on: a block that is returned does not
  overlap a live one, and structures have a positive size.
\<close>

section \<open>libc memory\<close>

definition os_malloc :: "os_env \<Rightarrow> u64 \<Rightarrow> addr os" where
  "os_malloc E sz s =
     (let p = e_malloc E (calls s) sz (heap s); s = tick s in
      Ret (p, if p \<noteq> 0 then hput p (Uninit sz) s else s))"

definition os_free :: "addr \<Rightarrow> os_state \<Rightarrow> os_state outcome" where
  "os_free p s = (if p = 0 then Ret s else if heap s p = None then Fault BadPtr else Ret (hdel p s))"

text \<open>Freeing a block of libc memory that has been handed out to a region takes everything that lies in
  it: the block is known by the size it was allocated with.\<close>

definition os_free_space :: "addr \<Rightarrow> os_state \<Rightarrow> os_state outcome" where
  "os_free_space a s =
     (if a = 0 then Ret s
      else case heap s a of
        Some (Uninit n) \<Rightarrow> Ret (s\<lparr>heap := (\<lambda>p. if p - a < n then None else heap s p)\<rparr>)
      | _ \<Rightarrow> Fault BadPtr)"

section \<open>Operations\<close>

definition os_region_init :: "u32 os" where
  "os_region_init s = Ret (OKAY, s)"

definition os_mem_init :: "os_env \<Rightarrow> u32 os" where
  "os_mem_init E s =
     obind (os_malloc E (ucast (os_system_pool_size s)) s) (\<lambda>(p, s).
     let s = s\<lparr>os_sys_space := p\<rparr> in
     if p = 0 then Ret (ERROR, s)
     else obind (os_region_init s) (\<lambda>(res, s).
     if res = ERROR then obind (os_free_space (os_sys_space s) s) (\<lambda>s. Ret (ERROR, s))
     else let r = e_region_create E (calls s) (os_sys_space s) (ucast (os_system_pool_size s));
              s = (tick s)\<lparr>os_sys_region := r\<rparr> in
     if r = 0 then obind (os_free_space (os_sys_space s) s) (\<lambda>s. Ret (ERROR, s))
     else Ret (OKAY, s\<lparr>os_mem_initialized := True, os_mem_lock := False\<rparr>)))"

definition os_mem_delete :: "os_state \<Rightarrow> os_state outcome" where
  "os_mem_delete s = os_free_space (os_sys_space s) (s\<lparr>os_mem_initialized := False\<rparr>)"

definition os_mem_alloc :: "os_env \<Rightarrow> u32 \<Rightarrow> addr os" where
  "os_mem_alloc E sz s =
     (if \<not> os_mem_initialized s then Ret (0, s)
      else if os_mem_lock s then Fault Blocked
      else let p = e_region_alloc E (calls s) (os_sys_region s) (ucast sz) (heap s); s = tick s in
        Ret (p, if p \<noteq> 0 then hput p (Zeroed (ucast sz)) s else s))"

text \<open>
  The region reallocates (the environment says where the block is now), and then the whole new block
  is zeroed, whatever it held.
\<close>

definition os_mem_realloc :: "os_env \<Rightarrow> addr \<Rightarrow> u32 \<Rightarrow> addr os" where
  "os_mem_realloc E mem nsize s =
     (if \<not> os_mem_initialized s then Ret (0, s)
      else if os_mem_lock s then Fault Blocked
      else if mem \<noteq> 0 \<and> heap s mem = None then Fault BadPtr
      else let p = e_region_alloc E (calls s) (os_sys_region s) (ucast nsize) (heap (hdel mem s)); s = tick s in
        if p = 0 then Ret (0, s)
        else Ret (p, hput p (Zeroed (ucast nsize)) (if mem = 0 then s else hdel mem s)))"

text \<open>The region's calloc computes the product in size\_t and zeroes the block itself.\<close>

definition os_mem_calloc :: "os_env \<Rightarrow> u32 \<Rightarrow> u32 \<Rightarrow> addr os" where
  "os_mem_calloc E esize ecount s =
     (if \<not> os_mem_initialized s then Ret (0, s)
      else if os_mem_lock s then Fault Blocked
      else let p = e_region_alloc E (calls s) (os_sys_region s) (ucast esize * ucast ecount) (heap s); s = tick s in
        Ret (p, if p \<noteq> 0 then hput p (Zeroed (ucast esize * ucast ecount)) s else s))"

definition bytes_of_string :: "string \<Rightarrow> u8 list" where
  "bytes_of_string str = map (\<lambda>c. of_nat (of_char c)) str @ [0]"

definition os_mem_strdup :: "os_env \<Rightarrow> string \<Rightarrow> addr os" where
  "os_mem_strdup E str s =
     (if \<not> os_mem_initialized s then Ret (0, s)
      else if os_mem_lock s then Fault Blocked
      else let p = e_region_alloc E (calls s) (os_sys_region s) (of_nat (length str + 1)) (heap s);
               s = tick s in
        Ret (p, if p \<noteq> 0 then hput p (BytesObj (bytes_of_string str)) s else s))"

text \<open>Freeing NULL does nothing; freeing what is not a live block is an error of the caller.\<close>

definition os_mem_free :: "addr \<Rightarrow> u32 os" where
  "os_mem_free mem s =
     (if \<not> os_mem_initialized s then Ret (ERROR, s)
      else if os_mem_lock s then Fault Blocked
      else if mem = 0 then Ret (OKAY, s)
      else if heap s mem = None then Fault BadPtr
      else Ret (OKAY, hdel mem s))"

definition os_errno_set :: "u32 \<Rightarrow> os_state \<Rightarrow> os_state" where
  "os_errno_set num s = s\<lparr>os_errno_var := num\<rparr>"

definition os_errno_get :: "os_state \<Rightarrow> u32" where
  "os_errno_get s = os_errno_var s"

definition os_time_get :: "os_env \<Rightarrow> u64 os" where
  "os_time_get E s = Ret (e_time E (calls s), tick s)"

definition os_time_init :: "u32 os" where
  "os_time_init s = Ret (OKAY, tick s)"

definition os_specific_init :: "u32 os" where
  "os_specific_init s = Ret (OKAY, s)"

definition os_post_init :: "u32 os" where
  "os_post_init s = Ret (OKAY, s)"

section \<open>What the allocators promise\<close>

definition region_fresh :: "os_env \<Rightarrow> bool" where
  "region_fresh E \<longleftrightarrow>
     (\<forall>n r sz h. let p = e_region_alloc E n r sz h in
        p \<noteq> 0 \<longrightarrow> (\<forall>i < unat sz. p + of_nat i \<noteq> 0 \<and> h (p + of_nat i) = None))"

definition malloc_fresh :: "os_env \<Rightarrow> bool" where
  "malloc_fresh E \<longleftrightarrow>
     (\<forall>n sz h. let p = e_malloc E n sz h in
        p \<noteq> 0 \<longrightarrow> (\<forall>i < unat sz. p + of_nat i \<noteq> 0 \<and> h (p + of_nat i) = None))"

definition sizes_ok :: "os_env \<Rightarrow> bool" where
  "sizes_ok E \<longleftrightarrow> (\<forall>t. 0 < e_sizeof E t)"

definition env_ok :: "os_env \<Rightarrow> bool" where
  "env_ok E \<longleftrightarrow> region_fresh E \<and> malloc_fresh E \<and> sizes_ok E"

text \<open>The memory system is up and nobody holds its lock.\<close>

definition mem_ok :: "os_state \<Rightarrow> bool" where
  "mem_ok s \<longleftrightarrow> os_mem_initialized s \<and> \<not> os_mem_lock s"

lemma mem_ok_store [simp]:
  "mem_ok (hput p x s) = mem_ok s" "mem_ok (hdel p s) = mem_ok s" "mem_ok (tick s) = mem_ok s"
  "mem_ok (s\<lparr>os_res_pool := r\<rparr>) = mem_ok s"
  by (simp_all add: mem_ok_def)

lemma region_fresh_block:
  assumes "region_fresh E" and "e_region_alloc E n r sz h \<noteq> 0" and "0 < sz"
  shows "h (e_region_alloc E n r sz h) = None"
proof -
  have "0 < unat sz" using assms(3) by (simp add: unat_gt_0)
  with assms(1,2) have "h (e_region_alloc E n r sz h + of_nat 0) = None"
    unfolding region_fresh_def Let_def by blast
  then show ?thesis by simp
qed

text \<open>The region has no block for a structure.\<close>

definition no_room :: "os_env \<Rightarrow> ctype \<Rightarrow> os_state \<Rightarrow> bool" where
  "no_room E t s \<longleftrightarrow> e_region_alloc E (calls s) (os_sys_region s) (ucast (e_sizeof E t)) (heap s) = 0"

text \<open>An allocation for a structure fails with NULL, or returns a block that was not in use.\<close>

lemma os_mem_alloc_cases:
  assumes "env_ok E" and "mem_ok s" and "0 < sz"
  obtains (no_memory) "os_mem_alloc E sz s = Ret (0, tick s)"
  | (block) p where "p \<noteq> 0" "heap s p = None"
      "os_mem_alloc E sz s = Ret (p, hput p (Zeroed (ucast sz)) (tick s))"
proof (cases "e_region_alloc E (calls s) (os_sys_region s) (ucast sz) (heap s) = 0")
  case True
  then show ?thesis using assms by (intro no_memory) (simp add: os_mem_alloc_def mem_ok_def Let_def)
next
  case False
  let ?p = "e_region_alloc E (calls s) (os_sys_region s) (ucast sz) (heap s)"
  from assms False have "heap s ?p = None"
    by (intro region_fresh_block) (simp_all add: env_ok_def)
  with False assms show ?thesis
    by (intro block [of ?p]) (simp_all add: os_mem_alloc_def mem_ok_def Let_def)
qed

lemma sizes_ok_pos: "env_ok E \<Longrightarrow> 0 < e_sizeof E t"
  by (simp add: env_ok_def sizes_ok_def)

lemma os_mem_free_live [simp]:
  "mem_ok s \<Longrightarrow> p \<noteq> 0 \<Longrightarrow> heap s p = Some x \<Longrightarrow> os_mem_free p s = Ret (OKAY, hdel p s)"
  by (simp add: os_mem_free_def mem_ok_def)

lemma os_mem_alloc_no_room:
  assumes "mem_ok s" and "os_mem_alloc E (e_sizeof E t) s = Ret (0, s')"
  shows "no_room E t s"
  using assms by (auto simp: os_mem_alloc_def mem_ok_def no_room_def Let_def)

end
