(* ===== verification/Os_List.thy ===== *)
theory Os_List
  imports Os_Mem
begin

text \<open>
  src/list.c: the doubly linked lists every other part of the library keeps its objects in. The
  operations are translated on the object store, pointer assignment by pointer assignment;
  \<open>Os_List_Ref\<close> shows what they do to the list a header represents.
\<close>

section \<open>Field access and the lock of a list\<close>

definition upd_data :: "addr \<Rightarrow> (OS_LIST_DATA \<Rightarrow> OS_LIST_DATA) \<Rightarrow> os_state \<Rightarrow> os_state outcome" where
  "upd_data p f s = obind (load the_data p s) (\<lambda>d. Ret (hput p (DataObj (f d)) s))"

definition upd_list :: "addr \<Rightarrow> (OS_LIST \<Rightarrow> OS_LIST) \<Rightarrow> os_state \<Rightarrow> os_state outcome" where
  "upd_list h f s = obind (load the_list h s) (\<lambda>l. Ret (hput h (ListObj (f l)) s))"

definition list_lock :: "addr \<Rightarrow> os_state \<Rightarrow> os_state outcome" where
  "list_lock h s = obind (load the_list h s) (\<lambda>l.
     if ol_mut l then Fault Blocked else Ret (hput h (ListObj (l\<lparr>ol_mut := True\<rparr>)) s))"

definition list_unlock :: "addr \<Rightarrow> os_state \<Rightarrow> os_state outcome" where
  "list_unlock h s = upd_list h (ol_mut_update (\<lambda>_. False)) s"

section \<open>Operations\<close>

definition os_list_create :: "os_env \<Rightarrow> string \<Rightarrow> addr os" where
  "os_list_create E nm s =
     obind (os_mem_alloc E (e_sizeof E T_OS_LIST) s) (\<lambda>(os_c, s).
     if os_c = 0 then Ret (0, s)
     else Ret (os_c, hput os_c (ListObj \<lparr>ol_name = strncpy nm STR_LEN, ol_data = 0,
                                        ol_mut = False, ol_counter = 0\<rparr>) s))"

definition list_delete_body :: "addr \<Rightarrow> addr \<times> os_state \<Rightarrow> (addr \<times> os_state) outcome" where
  "list_delete_body h = (\<lambda>(p, s).
     obind (load the_data p s) (\<lambda>d.
     obind (os_res_id_free h (ld_resid d) s) (\<lambda>(r, s).
     obind (os_mem_free p s) (\<lambda>(r, s). Ret (ld_next d, s)))))"

definition os_list_delete :: "addr \<Rightarrow> u32 os" where
  "os_list_delete h s =
     obind (list_lock h s) (\<lambda>s.
     obind (load the_list h s) (\<lambda>l.
     obind (while_o (\<lambda>(p, s). p \<noteq> 0) (list_delete_body h) (ol_data l, s)) (\<lambda>(p, s).
     obind (list_unlock h s) (\<lambda>s.
     obind (os_mem_free h s) (\<lambda>(r, s). Ret (OKAY, s))))))"

definition list_flush_body ::
    "os_env \<Rightarrow> addr \<Rightarrow> fnptr \<Rightarrow> addr \<times> os_state \<Rightarrow> (addr \<times> os_state) outcome" where
  "list_flush_body E h delf = (\<lambda>(p, s).
     obind (load the_data p s) (\<lambda>d.
     let nxt = ld_next d in
     obind (if ld_data d \<noteq> 0 \<and> delf \<noteq> 0
            then obind (e_call E delf (ld_data d) s) (\<lambda>(res, s).
                 upd_data p (\<lambda>d. d\<lparr>ld_data := (if res = OKAY then 0 else ld_data d)\<rparr>) s)
            else Ret s) (\<lambda>s.
     obind (load the_data p s) (\<lambda>d.
     obind (os_res_id_free h (ld_resid d) s) (\<lambda>(r, s).
     obind (os_mem_free p s) (\<lambda>(r, s). Ret (nxt, s)))))))"

definition os_list_flush :: "os_env \<Rightarrow> addr \<Rightarrow> fnptr \<Rightarrow> u32 os" where
  "os_list_flush E h delf s =
     obind (list_lock h s) (\<lambda>s.
     obind (load the_list h s) (\<lambda>l.
     obind (while_o (\<lambda>(p, s). p \<noteq> 0) (list_flush_body E h delf) (ol_data l, s)) (\<lambda>(p, s).
     obind (list_unlock h s) (\<lambda>s.
     obind (upd_list h (\<lambda>l. l\<lparr>ol_data := 0, ol_counter := 0\<rparr>) s) (\<lambda>s. Ret (OKAY, s))))))"

text \<open>The comparator gets the node; the loop stops at the first node it accepts.\<close>

definition list_find_body ::
    "(addr \<Rightarrow> os_state \<Rightarrow> u32 outcome) \<Rightarrow> os_state \<Rightarrow> bool \<times> addr \<Rightarrow> (bool \<times> addr) outcome" where
  "list_find_body cmp s = (\<lambda>(found, d).
     obind (cmp d s) (\<lambda>r.
     if r = OKAY then Ret (True, d)
     else obind (load the_data d s) (\<lambda>n. Ret (False, ld_next n))))"

definition os_list_find ::
    "addr \<Rightarrow> (addr \<Rightarrow> os_state \<Rightarrow> u32 outcome) \<Rightarrow> os_state \<Rightarrow> addr outcome" where
  "os_list_find h cmp s =
     obind (load the_list h s) (\<lambda>l.
     obind (while_o (\<lambda>(found, d). \<not> found \<and> d \<noteq> 0) (list_find_body cmp s) (False, ol_data l))
       (\<lambda>(found, d). Ret (if found then d else 0)))"

definition os_list_navigate ::
    "addr \<Rightarrow> (addr \<Rightarrow> os_state \<Rightarrow> os_state outcome) option
      \<Rightarrow> (addr \<Rightarrow> os_state \<Rightarrow> os_state outcome) option \<Rightarrow> os_state \<Rightarrow> os_state outcome" where
  "os_list_navigate h haction action s =
     (if h = 0 then Ret s
      else obind (list_lock h s) (\<lambda>s.
      obind (case haction of None \<Rightarrow> Ret s | Some f \<Rightarrow> f h s) (\<lambda>s.
      obind (load the_list h s) (\<lambda>l.
      obind (while_o (\<lambda>(d, s). d \<noteq> 0)
              (\<lambda>(d, s). obind (case action of None \<Rightarrow> Ret s | Some f \<Rightarrow> f d s) (\<lambda>s.
                        obind (load the_data d s) (\<lambda>n. Ret (ld_next n, s))))
              (ol_data l, s)) (\<lambda>(d, s). list_unlock h s)))))"

text \<open>\<open>_list_item_insert\<close>: the walk to the last node, bounded by the number of items.\<close>

function insert_walk :: "os_state \<Rightarrow> u32 \<Rightarrow> u32 \<Rightarrow> u32 \<Rightarrow> addr \<Rightarrow> addr option outcome" where
  "insert_walk s resid cnt trace_t t =
     obind (load the_data t s) (\<lambda>n.
     if ld_next n \<noteq> 0 \<and> trace_t < cnt
     then if ld_resid n = resid then Ret None
          else insert_walk s resid cnt (trace_t + 1) (ld_next n)
     else Ret (Some t))"
  by pat_completeness auto
termination
  by (relation "measure (\<lambda>(s, resid, cnt, trace_t, t). unat cnt - unat trace_t)")
    (auto simp: word_Suc_less word_less_nat_alt)

declare insert_walk.simps [simp del]

definition list_item_insert :: "addr \<Rightarrow> addr \<Rightarrow> u32 os" where
  "list_item_insert h d s =
     (if h = 0 \<or> d = 0 then Ret (ERROR, s)
      else obind (list_lock h s) (\<lambda>s.
      obind (os_res_id_alloc h s) (\<lambda>(resid, s).
      if resid = 0 then obind (list_unlock h s) (\<lambda>s. Ret (ERROR, s))
      else obind (load the_list h s) (\<lambda>l.
      obind (if ol_counter l = 0
             then obind (upd_list h (\<lambda>l. l\<lparr>ol_data := d\<rparr>) s) (\<lambda>s. Ret (True, s))
             else obind (insert_walk s resid (ol_counter l) 0 (ol_data l)) (\<lambda>w.
               case w of
                 None \<Rightarrow>
                   obind (list_unlock h s) (\<lambda>s.
                   obind (os_list_navigate h None (Some (\<lambda>p s. obind (load the_data p s) (\<lambda>n. Ret s))) s)
                     (\<lambda>s. Ret (False, s)))
               | Some t \<Rightarrow>
                   obind (upd_data t (\<lambda>n. n\<lparr>ld_next := d\<rparr>) s) (\<lambda>s.
                   obind (upd_data d (\<lambda>n. n\<lparr>ld_prev := t\<rparr>) s) (\<lambda>s. Ret (True, s))))) (\<lambda>(linked, s).
      if \<not> linked then Ret (ERROR, s)
      else if os_res_id_make_inuse h resid = ERROR then Ret (ERROR, s)
      else obind (upd_data d (\<lambda>n. n\<lparr>ld_resid := resid\<rparr>) s) (\<lambda>s.
      obind (upd_list h (\<lambda>l. l\<lparr>ol_counter := ol_counter l + 1\<rparr>) s) (\<lambda>s.
      obind (list_unlock h s) (\<lambda>s. Ret (resid, s)))))))))"

text \<open>The node both inserting functions allocate and fill in.\<close>

definition os_list_item_insert_hash :: "os_env \<Rightarrow> addr \<Rightarrow> u64 \<Rightarrow> addr \<Rightarrow> u32 os" where
  "os_list_item_insert_hash E h key data s =
     obind (os_mem_alloc E (e_sizeof E T_OS_LIST_DATA) s) (\<lambda>(d, s).
     if d = 0 then Ret (ERROR, s)
     else list_item_insert h d
       (hput d (DataObj \<lparr>ld_data = data, ld_key = key, ld_resid = 0, ld_next = 0, ld_prev = 0\<rparr>) s))"

definition os_list_item_insert :: "os_env \<Rightarrow> addr \<Rightarrow> addr \<Rightarrow> u32 os" where
  "os_list_item_insert E h data s =
     obind (os_mem_alloc E (e_sizeof E T_OS_LIST_DATA) s) (\<lambda>(d, s).
     if d = 0 then Ret (ERROR, s)
     else list_item_insert h d
       (hput d (DataObj \<lparr>ld_data = data, ld_key = OS_LIST_NO_KEY, ld_resid = 0, ld_next = 0, ld_prev = 0\<rparr>) s))"

text \<open>\<open>_list_item_delete\<close>: unlink the node, give its id back, free it.\<close>

definition list_item_delete :: "addr \<Rightarrow> addr \<Rightarrow> u32 os" where
  "list_item_delete h t s =
     (if t = 0 then Ret (ERROR, s)
      else obind (load the_data t s) (\<lambda>n.
      if ld_data n = 0 then Ret (ERROR, s)
      else obind (list_lock h s) (\<lambda>s.
      obind (if ld_prev n \<noteq> 0
             then upd_data (ld_prev n) (\<lambda>p. p\<lparr>ld_next := ld_next n\<rparr>) s
             else obind (load the_list h s) (\<lambda>l.
               if ol_data l = t
               then obind (upd_list h (\<lambda>l. l\<lparr>ol_data := ld_next n\<rparr>) s) (\<lambda>s.
                    if ld_next n \<noteq> 0 then upd_data (ld_next n) (\<lambda>p. p\<lparr>ld_prev := 0\<rparr>) s else Ret s)
               else Ret s)) (\<lambda>s.
      obind (if ld_next n \<noteq> 0
             then upd_data (ld_next n) (\<lambda>p. p\<lparr>ld_prev := ld_prev n\<rparr>) s else Ret s) (\<lambda>s.
      obind (os_res_id_free h (ld_resid n) s) (\<lambda>(r, s).
      obind (os_mem_free t s) (\<lambda>(r, s).
      obind (upd_list h (\<lambda>l. l\<lparr>ol_counter := ol_counter l - 1\<rparr>) s) (\<lambda>s.
      obind (list_unlock h s) (\<lambda>s. Ret (OKAY, s))))))))))"

text \<open>\<open>while (t && P(t)) t = t->next\<close>\<close>

definition list_seek :: "(OS_LIST_DATA \<Rightarrow> bool) \<Rightarrow> addr \<Rightarrow> os_state \<Rightarrow> addr outcome" where
  "list_seek P t s =
     obind (while_o (\<lambda>(found, d). \<not> found \<and> d \<noteq> 0)
             (\<lambda>(found, d). obind (load the_data d s) (\<lambda>n.
                if P n then Ret (True, d) else Ret (False, ld_next n))) (False, t))
       (\<lambda>(found, d). Ret (if found then d else 0))"

definition os_list_item_delete :: "addr \<Rightarrow> u32 \<Rightarrow> u32 os" where
  "os_list_item_delete h rid s =
     obind (load the_list h s) (\<lambda>l.
     if ol_data l = 0 then Ret (ERROR, s)
     else obind (list_seek (\<lambda>n. ld_resid n = rid) (ol_data l) s) (\<lambda>t. list_item_delete h t s))"

definition os_list_item_deletebykey :: "addr \<Rightarrow> u64 \<Rightarrow> u32 os" where
  "os_list_item_deletebykey h key s =
     obind (load the_list h s) (\<lambda>l.
     if ol_data l = 0 then Ret (ERROR, s)
     else obind (list_seek (\<lambda>n. ld_key n = key) (ol_data l) s) (\<lambda>t. list_item_delete h t s))"

definition os_list_item_pop :: "addr \<Rightarrow> addr os" where
  "os_list_item_pop h s =
     obind (load the_list h s) (\<lambda>l.
     let t = ol_data l in
     if t = 0 then Ret (0, s)
     else obind (load the_data t s) (\<lambda>n.
     if ld_data n = 0 then Ret (0, s)
     else obind (list_lock h s) (\<lambda>s.
     obind (upd_list h (\<lambda>l. l\<lparr>ol_data := ld_next n\<rparr>) s) (\<lambda>s.
     obind (if ld_next n \<noteq> 0 then upd_data (ld_next n) (\<lambda>p. p\<lparr>ld_prev := 0\<rparr>) s else Ret s) (\<lambda>s.
     obind (os_res_id_free h (ld_resid n) s) (\<lambda>(r, s).
     obind (os_mem_free t s) (\<lambda>(r, s).
     obind (upd_list h (\<lambda>l. l\<lparr>ol_counter := ol_counter l - 1\<rparr>) s) (\<lambda>s.
     obind (list_unlock h s) (\<lambda>s. Ret (ld_data n, s))))))))))"

text \<open>
  The loop of the sanity check: the counter is stepped, the node pointer is not.
\<close>

function sanity_loop :: "os_state \<Rightarrow> addr \<Rightarrow> addr \<Rightarrow> u32 \<Rightarrow> u32 \<Rightarrow> u32 outcome" where
  "sanity_loop s first d c ix =
     (if ix < c \<and> d \<noteq> 0
      then obind (load the_data d s) (\<lambda>n.
        if ld_data n = 0 then Ret ERROR
        else if ix = 0
        then if ld_prev n \<noteq> first then Ret ERROR else sanity_loop s first d c (ix + 1)
        else if ld_next n \<noteq> 0
        then obind (load the_data (ld_next n) s) (\<lambda>nn.
             if ld_prev nn \<noteq> d then Ret ERROR
             else obind (load the_data (ld_prev n) s) (\<lambda>pn.
                  if ld_next pn \<noteq> d then Ret ERROR else sanity_loop s first d c (ix + 1)))
        else obind (load the_data (ld_prev n) s) (\<lambda>pn.
             if ld_next pn \<noteq> d then Ret ERROR else sanity_loop s first d c (ix + 1)))
      else Ret OKAY)"
  by pat_completeness auto
termination
  by (relation "measure (\<lambda>(s, first, d, c, ix). unat c - unat ix)")
    (auto simp: word_Suc_less word_less_nat_alt)

declare sanity_loop.simps [simp del]

definition os_list_item_sanity_check :: "addr \<Rightarrow> u32 os" where
  "os_list_item_sanity_check h s =
     (if h = 0 then Ret (ERROR, s)
      else obind (list_lock h s) (\<lambda>s.
      obind (load the_list h s) (\<lambda>l.
      obind (sanity_loop s (ol_data l) (ol_data l) (ol_counter l) 0) (\<lambda>r.
      obind (list_unlock h s) (\<lambda>s. Ret (r, s))))))"

definition os_list_findbykey :: "addr \<Rightarrow> u64 \<Rightarrow> os_state \<Rightarrow> addr outcome" where
  "os_list_findbykey h key s =
     obind (load the_list h s) (\<lambda>l.
     obind (list_seek (\<lambda>n. ld_key n = key) (ol_data l) s) (\<lambda>d.
     if d = 0 then Ret 0 else obind (load the_data d s) (\<lambda>n. Ret (ld_data n))))"

definition os_list_firstkey :: "addr \<Rightarrow> os_state \<Rightarrow> u64 outcome" where
  "os_list_firstkey h s =
     (if h = 0 then Ret (- 1)
      else obind (load the_list h s) (\<lambda>l.
      if ol_data l \<noteq> 0 then obind (load the_data (ol_data l) s) (\<lambda>n. Ret (ld_key n))
      else Ret (- 1)))"

text \<open>Keys are signed longs. The walk stops before the first node with a greater key.\<close>

function order_walk :: "os_state \<Rightarrow> u64 \<Rightarrow> u32 \<Rightarrow> u32 \<Rightarrow> addr \<Rightarrow> addr outcome" where
  "order_walk s key cnt trace_t t =
     obind (load the_data t s) (\<lambda>n.
     if ld_next n \<noteq> 0 \<and> trace_t < cnt
     then obind (load the_data (ld_next n) s) (\<lambda>nn.
          if sint (ld_key nn) \<le> sint key then order_walk s key cnt (trace_t + 1) (ld_next n)
          else Ret t)
     else Ret t)"
  by pat_completeness auto
termination
  by (relation "measure (\<lambda>(s, key, cnt, trace_t, t). unat cnt - unat trace_t)")
    (auto simp: word_Suc_less word_less_nat_alt)

declare order_walk.simps [simp del]

definition os_list_item_insert_order :: "os_env \<Rightarrow> addr \<Rightarrow> u64 \<Rightarrow> addr \<Rightarrow> u32 os" where
  "os_list_item_insert_order E h key data s =
     obind (os_mem_alloc E (e_sizeof E T_OS_LIST_DATA) s) (\<lambda>(d, s).
     if d = 0 then Ret (ERROR, s)
     else let s = hput d (DataObj \<lparr>ld_data = data, ld_key = key, ld_resid = 0,
                                  ld_next = 0, ld_prev = 0\<rparr>) s in
     obind (list_lock h s) (\<lambda>s.
     obind (os_res_id_alloc h s) (\<lambda>(resid, s).
     if resid = 0 then obind (list_unlock h s) (\<lambda>s. Ret (ERROR, s))
     else obind (load the_list h s) (\<lambda>l.
     obind (if ol_counter l = 0 then upd_list h (\<lambda>l. l\<lparr>ol_data := d\<rparr>) s
            else obind (load the_data (ol_data l) s) (\<lambda>n.
              if sint key < sint (ld_key n)
              then obind (upd_data d (\<lambda>n. n\<lparr>ld_next := ol_data l\<rparr>) s) (\<lambda>s.
                   obind (upd_data (ol_data l) (\<lambda>n. n\<lparr>ld_prev := d\<rparr>) s) (\<lambda>s.
                   upd_list h (\<lambda>l. l\<lparr>ol_data := d\<rparr>) s))
              else obind (order_walk s key (ol_counter l) 0 (ol_data l)) (\<lambda>t.
                   obind (load the_data t s) (\<lambda>tn.
                   obind (upd_data d (\<lambda>n. n\<lparr>ld_next := ld_next tn\<rparr>) s) (\<lambda>s.
                   obind (if ld_next tn \<noteq> 0
                          then upd_data (ld_next tn) (\<lambda>n. n\<lparr>ld_prev := d\<rparr>) s else Ret s) (\<lambda>s.
                   obind (upd_data t (\<lambda>n. n\<lparr>ld_next := d\<rparr>) s) (\<lambda>s.
                   upd_data d (\<lambda>n. n\<lparr>ld_prev := t\<rparr>) s))))))) (\<lambda>s.
     if os_res_id_make_inuse h resid = ERROR then Ret (ERROR, s)
     else obind (upd_data d (\<lambda>n. n\<lparr>ld_resid := resid\<rparr>) s) (\<lambda>s.
     obind (upd_list h (\<lambda>l. l\<lparr>ol_counter := ol_counter l + 1\<rparr>) s) (\<lambda>s.
     obind (list_unlock h s) (\<lambda>s. Ret (resid, s)))))))))"

end
