(* ===== verification/Os_Var.thy ===== *)
theory Os_Var
  imports Os_List
begin

text \<open>
  src/var.c: mutexes and condition variables, objects of the memory region that are registered in two
  lists and addressed by their resource ids. A pthread mutex is the flag whether it is held; waiting on
  a condition variable releases its mutex, lets the environment run and takes the mutex again. The
  build does not define MUTEX\_OWNER\_CHECK, so the owner field is not used.
\<close>

section \<open>Both kinds\<close>

definition os_var_init :: "os_env \<Rightarrow> u32 os" where
  "os_var_init E s =
     obind (os_list_create E MUTEX_NAME s) (\<lambda>(l, s).
     let s = s\<lparr>mutex_list := l\<rparr> in
     if l = 0 then Ret (ERROR, s)
     else obind (os_list_create E COND_NAME s) (\<lambda>(l, s).
       let s = s\<lparr>cond_list := l\<rparr> in
       if l = 0 then obind (os_list_delete (mutex_list s) s) (\<lambda>(r, s). Ret (ERROR, s))
       else Ret (OKAY, s)))"

definition os_obj_find_with_id :: "u32 \<Rightarrow> addr \<Rightarrow> os_state \<Rightarrow> u32 outcome" where
  "os_obj_find_with_id arg d s =
     obind (load the_data d s) (\<lambda>n.
     if ld_data n = 0 then Ret ERROR
     else if ld_resid n = arg then Ret OKAY else Ret ERROR)"

definition os_obj_find :: "addr \<Rightarrow> u32 \<Rightarrow> os_state \<Rightarrow> addr outcome" where
  "os_obj_find h rid s =
     obind (os_list_find h (os_obj_find_with_id rid) s) (\<lambda>d.
     if d = 0 then Ret 0 else obind (load the_data d s) (\<lambda>n. Ret (ld_data n)))"

section \<open>Mutexes\<close>

definition upd_mutex :: "addr \<Rightarrow> (OS_MUTEX \<Rightarrow> OS_MUTEX) \<Rightarrow> os_state \<Rightarrow> os_state outcome" where
  "upd_mutex p f s = obind (load the_mutex p s) (\<lambda>m. Ret (hput p (MutexObj (f m)) s))"

definition os_mutex_create :: "os_env \<Rightarrow> string \<Rightarrow> u32 os" where
  "os_mutex_create E nm s =
     obind (os_mem_alloc E (e_sizeof E T_OS_MUTEX) s) (\<lambda>(newmut, s).
     if newmut = 0 then Ret (ERROR, s)
     else obind (strcpy_strncat MUTEX_NAME nm STR_LEN STR_LEN) (\<lambda>full.
     let s = hput newmut (MutexObj \<lparr>mx_name = full, mx_owner = 0, mx_validity = 0,
               mx_status = OS_MUTEX_FREE, mx_osid = False, mx_counter = 0\<rparr>) s in
     obind (os_list_item_insert E (mutex_list s) newmut s) (\<lambda>(res, s).
     if res = ERROR then obind (os_mem_free newmut s) (\<lambda>(r, s). Ret (ERROR, s))
     else obind (upd_mutex newmut (\<lambda>m. m\<lparr>mx_osid := False\<rparr>) s) (\<lambda>s. Ret (res, s)))))"

definition os_mutex_find :: "u32 \<Rightarrow> os_state \<Rightarrow> addr outcome" where
  "os_mutex_find rid s =
     obind (os_list_find (mutex_list s) (os_obj_find_with_id rid) s) (\<lambda>d.
     if d = 0 then Ret 0 else obind (load the_data d s) (\<lambda>n. Ret (ld_data n)))"

definition os_mutex_delete :: "u32 \<Rightarrow> u32 os" where
  "os_mutex_delete rid s =
     obind (os_mutex_find rid s) (\<lambda>mut.
     if mut = 0 then Ret (ERROR, s)
     else obind (os_mem_free mut s) (\<lambda>(r, s).
     obind (os_list_item_delete (mutex_list s) rid s) (\<lambda>(res, s).
     if res \<noteq> OKAY then Ret (ERROR, s) else Ret (OKAY, s))))"

text \<open>
  With a time limit the lock is tried once; when it is not free, the thread sleeps and then adds to a
  total that was never initialised.
\<close>

definition os_mutex_lock :: "u32 \<Rightarrow> u32 \<Rightarrow> u32 os" where
  "os_mutex_lock rid t s =
     obind (os_mutex_find rid s) (\<lambda>p.
     if p = 0 then Ret (ERROR, s)
     else obind (load the_mutex p s) (\<lambda>m.
     obind (if t \<noteq> 0
            then (if mx_osid m then Fault Uninit_Read
                  else Ret (hput p (MutexObj (m\<lparr>mx_osid := True\<rparr>)) (tick s)))
            else (if mx_osid m then Fault Blocked
                  else Ret (hput p (MutexObj (m\<lparr>mx_osid := True\<rparr>)) s))) (\<lambda>s.
     obind (upd_mutex p (\<lambda>m. m\<lparr>mx_validity := mx_validity m + 1\<rparr>) s) (\<lambda>s.
     obind (load the_mutex p s) (\<lambda>m.
     if mx_validity m \<noteq> 1
     then obind (upd_mutex p (\<lambda>m. m\<lparr>mx_osid := False\<rparr>) s) (\<lambda>s. Ret (ERROR, s))
     else if mx_status m = OS_MUTEX_LOCKED
     then obind (upd_mutex p (\<lambda>m. m\<lparr>mx_osid := False\<rparr>) s) (\<lambda>s. Ret (ERROR, s))
     else obind (upd_mutex p (\<lambda>m. m\<lparr>mx_status := OS_MUTEX_LOCKED\<rparr>) s) (\<lambda>s. Ret (OKAY, s)))))))"

text \<open>For an unknown id the error path unlocks through the null pointer.\<close>

definition os_mutex_unlock :: "u32 \<Rightarrow> u32 os" where
  "os_mutex_unlock rid s =
     obind (os_mutex_find rid s) (\<lambda>p.
     if p = 0 then obind (upd_mutex p (\<lambda>m. m\<lparr>mx_osid := False\<rparr>) s) (\<lambda>s. Ret (ERROR, s))
     else obind (upd_mutex p (\<lambda>m. m\<lparr>mx_validity := mx_validity m - 1\<rparr>) s) (\<lambda>s.
     obind (load the_mutex p s) (\<lambda>m.
     if mx_validity m \<noteq> 0 \<or> mx_status m \<noteq> OS_MUTEX_LOCKED
     then obind (upd_mutex p (\<lambda>m. m\<lparr>mx_osid := False\<rparr>) s) (\<lambda>s. Ret (ERROR, s))
     else obind (upd_mutex p (\<lambda>m. m\<lparr>mx_status := OS_MUTEX_FREE\<rparr>) s) (\<lambda>s.
     obind (upd_mutex p (\<lambda>m. m\<lparr>mx_osid := False\<rparr>) s) (\<lambda>s. Ret (OKAY, s))))))"

section \<open>Condition variables\<close>

definition upd_cond :: "addr \<Rightarrow> (OS_COND \<Rightarrow> OS_COND) \<Rightarrow> os_state \<Rightarrow> os_state outcome" where
  "upd_cond p f s = obind (load the_cond p s) (\<lambda>c. Ret (hput p (CondObj (f c)) s))"

definition cond_mutex_lock :: "addr \<Rightarrow> os_state \<Rightarrow> os_state outcome" where
  "cond_mutex_lock p s =
     obind (load the_cond p s) (\<lambda>c.
     if cv_mutex c then Fault Blocked else Ret (hput p (CondObj (c\<lparr>cv_mutex := True\<rparr>)) s))"

definition os_cond_create :: "os_env \<Rightarrow> string \<Rightarrow> u32 os" where
  "os_cond_create E nm s =
     obind (os_mem_alloc E (e_sizeof E T_OS_COND) s) (\<lambda>(newcond, s).
     if newcond = 0 then Ret (ERROR, s)
     else obind (strcpy_strncat COND_NAME nm STR_LEN STR_LEN) (\<lambda>full.
     let s = hput newcond (CondObj \<lparr>cv_name = full, cv_owner = 0, cv_mutex = False,
               cv_sigtime = 0, cv_waittime = 0, cv_lock = False\<rparr>) s in
     obind (os_list_item_insert E (cond_list s) newcond s) (\<lambda>(res, s).
     if res = ERROR then obind (os_mem_free newcond s) (\<lambda>(r, s). Ret (ERROR, s))
     else obind (upd_cond newcond (\<lambda>c. c\<lparr>cv_lock := False, cv_mutex := False\<rparr>) s) (\<lambda>s. Ret (res, s)))))"

definition os_cond_find :: "u32 \<Rightarrow> os_state \<Rightarrow> addr outcome" where
  "os_cond_find rid s =
     obind (os_list_find (cond_list s) (os_obj_find_with_id rid) s) (\<lambda>d.
     if d = 0 then Ret 0 else obind (load the_data d s) (\<lambda>n. Ret (ld_data n)))"

definition os_cond_delete :: "u32 \<Rightarrow> u32 os" where
  "os_cond_delete rid s =
     obind (os_cond_find rid s) (\<lambda>d.
     if d = 0 then Ret (ERROR, s)
     else obind (os_mem_free d s) (\<lambda>(r, s).
     obind (os_list_item_delete (cond_list s) rid s) (\<lambda>(res, s).
     if res \<noteq> OKAY then Ret (ERROR, s) else Ret (OKAY, s))))"

text \<open>Signalling is stateless: a signal nobody waits for is lost.\<close>

definition os_cond_signal :: "os_env \<Rightarrow> u32 \<Rightarrow> u32 os" where
  "os_cond_signal E rid s =
     obind (os_cond_find rid s) (\<lambda>d.
     if d = 0 then Ret (ERROR, s)
     else obind (cond_mutex_lock d s) (\<lambda>s.
     obind (os_time_get E s) (\<lambda>(now, s).
     obind (upd_cond d (\<lambda>c. c\<lparr>cv_sigtime := now\<rparr>) s) (\<lambda>s.
     obind (upd_cond d (\<lambda>c. c\<lparr>cv_mutex := False\<rparr>) s) (\<lambda>s. Ret (OKAY, s))))))"

text \<open>\<open>pthread_cond_wait\<close>: the mutex is released, the others run, the mutex is taken again.\<close>

definition cond_wait :: "os_env \<Rightarrow> addr \<Rightarrow> os_state \<Rightarrow> os_state outcome" where
  "cond_wait E d s =
     obind (upd_cond d (\<lambda>c. c\<lparr>cv_mutex := False\<rparr>) s) (\<lambda>s.
     obind (e_cond_wait E d s) (\<lambda>(u, s). cond_mutex_lock d s))"

definition os_cond_acquire :: "os_env \<Rightarrow> u32 \<Rightarrow> u32 os" where
  "os_cond_acquire E rid s =
     obind (os_cond_find rid s) (\<lambda>d.
     if d = 0 then Ret (ERROR, s)
     else obind (cond_mutex_lock d s) (\<lambda>s.
     obind (os_time_get E s) (\<lambda>(now, s).
     obind (upd_cond d (\<lambda>c. c\<lparr>cv_waittime := now\<rparr>) s) (\<lambda>s.
     obind (cond_wait E d s) (\<lambda>s.
     obind (os_time_get E s) (\<lambda>(now, s).
     obind (upd_cond d (\<lambda>c. c\<lparr>cv_waittime := now - cv_waittime c\<rparr>) s) (\<lambda>s. Ret (OKAY, s))))))))"

text \<open>
  The clock gives microseconds. \<open>pthread_cond_timedwait\<close> refuses a time whose nanoseconds are
  not below a thousand million and returns at once, the mutex still held.
\<close>

definition timespec_nsec :: "u64 \<Rightarrow> u64 \<Rightarrow> u64" where
  "timespec_nsec now tm = (now mod 1000000 + tm mod 1000000) * 1000"

definition cond_timedwait :: "os_env \<Rightarrow> addr \<Rightarrow> u64 \<Rightarrow> os_state \<Rightarrow> os_state outcome" where
  "cond_timedwait E d nsec s = (if nsec < 1000000000 then cond_wait E d s else Ret s)"

definition os_cond_acquire_timeout :: "os_env \<Rightarrow> u32 \<Rightarrow> u64 \<Rightarrow> u32 os" where
  "os_cond_acquire_timeout E rid tm s =
     obind (os_cond_find rid s) (\<lambda>d.
     if d = 0 then Ret (ERROR, s)
     else obind (cond_mutex_lock d s) (\<lambda>s.
     obind (os_time_get E s) (\<lambda>(tv, s).
     obind (os_time_get E s) (\<lambda>(now, s).
     obind (upd_cond d (\<lambda>c. c\<lparr>cv_waittime := now\<rparr>) s) (\<lambda>s.
     obind (cond_timedwait E d (timespec_nsec tv tm) s) (\<lambda>s.
     obind (os_time_get E s) (\<lambda>(now, s).
     obind (upd_cond d (\<lambda>c. c\<lparr>cv_waittime := now - cv_waittime c\<rparr>) s) (\<lambda>s. Ret (OKAY, s)))))))))"

definition os_cond_wait_time_get :: "u32 \<Rightarrow> os_state \<Rightarrow> u64 outcome" where
  "os_cond_wait_time_get rid s =
     obind (os_cond_find rid s) (\<lambda>d.
     if d = 0 then Ret 0 else obind (load the_cond d s) (\<lambda>c. Ret (cv_waittime c)))"

text \<open>\<open>pthread_mutex_unlock\<close> on the mutex of a condition variable.\<close>

definition cond_mutex_unlock :: "os_env \<Rightarrow> addr \<Rightarrow> os_state \<Rightarrow> os_state outcome" where
  "cond_mutex_unlock E p s =
     obind (load the_cond p s) (\<lambda>c.
     if cv_mutex c then Ret (hput p (CondObj (c\<lparr>cv_mutex := False\<rparr>)) s)
     else if e_unlock_free E then Ret s else Fault Bad_Unlock)"

definition os_cond_release :: "os_env \<Rightarrow> u32 \<Rightarrow> u32 os" where
  "os_cond_release E rid s =
     obind (os_cond_find rid s) (\<lambda>d.
     if d = 0 then Ret (ERROR, s)
     else obind (cond_mutex_unlock E d s) (\<lambda>s. Ret (OKAY, s)))"

end
