(* ===== verification/Os_List_Ref.thy ===== *)
theory Os_List_Ref
  imports Os_List
begin

text \<open>
  What a list header represents, and what the operations of src/list.c do to it. A ghost map \<open>M\<close>
  gives for the address of every list its name and its nodes, each with the item it carries: the
  resource id, the key and the data pointer. \<open>kit_ok s M\<close> is the invariant of the library: memory
  and id pools are sound, every header of \<open>M\<close> heads a well-linked list of exactly these nodes, it
  is unlocked and its counter is right, and no two lists share a node or an id. The lemmas give the
  result and the new ghost map of every operation.
\<close>

section \<open>Items and linked segments\<close>

type_synonym item = "u32 \<times> u64 \<times> addr"

abbreviation it_id :: "item \<Rightarrow> u32" where "it_id it \<equiv> fst it"
abbreviation it_key :: "item \<Rightarrow> u64" where "it_key it \<equiv> fst (snd it)"
abbreviation it_data :: "item \<Rightarrow> addr" where "it_data it \<equiv> snd (snd it)"

type_synonym nodes = "(addr \<times> item) list"

definition node :: "item \<Rightarrow> addr \<Rightarrow> addr \<Rightarrow> OS_LIST_DATA" where
  "node it nx pv = \<lparr>ld_data = it_data it, ld_key = it_key it, ld_resid = it_id it,
                    ld_next = nx, ld_prev = pv\<rparr>"

lemma node_sel [simp]:
  "ld_data (node it nx pv) = it_data it" "ld_key (node it nx pv) = it_key it"
  "ld_resid (node it nx pv) = it_id it" "ld_next (node it nx pv) = nx" "ld_prev (node it nx pv) = pv"
  by (simp_all add: node_def)

lemma node_upd [simp]:
  "(node it nx pv)\<lparr>ld_next := x\<rparr> = node it x pv"
  "(node it nx pv)\<lparr>ld_prev := x\<rparr> = node it nx x"
  "(node it nx pv)\<lparr>ld_resid := r\<rparr> = node (r, it_key it, it_data it) nx pv"
  by (simp_all add: node_def)

definition nxt :: "nodes \<Rightarrow> addr \<Rightarrow> addr" where
  "nxt xs nx = (case xs of [] \<Rightarrow> nx | x # _ \<Rightarrow> fst x)"

definition prv :: "addr \<Rightarrow> nodes \<Rightarrow> addr" where
  "prv pv xs = (if xs = [] then pv else fst (last xs))"

lemma nxt_simps [simp]: "nxt [] nx = nx" "nxt (x # xs) nx = fst x"
  by (simp_all add: nxt_def)

lemma prv_simps [simp]: "prv pv [] = pv" "prv pv (xs @ [x]) = fst x"
  by (simp_all add: prv_def)

lemma prv_Cons [simp]: "prv pv (x # xs) = prv (fst x) xs"
  by (simp add: prv_def)

lemma nxt_append [simp]: "nxt (xs @ ys) nx = nxt xs (nxt ys nx)"
  by (cases xs) simp_all

fun seg :: "heap \<Rightarrow> addr \<Rightarrow> nodes \<Rightarrow> addr \<Rightarrow> bool" where
  "seg h pv [] nx = True"
| "seg h pv ((a, it) # xs) nx \<longleftrightarrow>
     a \<noteq> 0 \<and> h a = Some (DataObj (node it (nxt xs nx) pv)) \<and> seg h a xs nx"

lemma seg_append: "seg h pv (xs @ ys) nx \<longleftrightarrow> seg h pv xs (nxt ys nx) \<and> seg h (prv pv xs) ys nx"
  by (induction h pv xs nx rule: seg.induct) auto

lemma seg_cong:
  "(\<And>a. a \<in> fst ` set xs \<Longrightarrow> h a = h' a) \<Longrightarrow> seg h pv xs nx = seg h' pv xs nx"
  by (induction h pv xs nx rule: seg.induct) auto

lemma seg_upd [simp]: "a \<notin> fst ` set xs \<Longrightarrow> seg (h(a := v)) pv xs nx = seg h pv xs nx"
  by (rule seg_cong) auto

lemma seg_dom: "seg h pv xs nx \<Longrightarrow> a \<in> fst ` set xs \<Longrightarrow> \<exists>d. h a = Some (DataObj d)"
  by (induction h pv xs nx rule: seg.induct) auto

lemma seg_nonnull: "seg h pv xs nx \<Longrightarrow> 0 \<notin> fst ` set xs"
  by (induction h pv xs nx rule: seg.induct) auto

lemma seg_nxt_null: "seg h pv xs 0 \<Longrightarrow> nxt xs 0 = 0 \<longleftrightarrow> xs = []"
  by (cases xs) auto

text \<open>Redirecting the last node, or the back pointer of the first.\<close>

lemma seg_last_next:
  assumes "seg h pv (xs @ [(a, it)]) nx" and "a \<notin> fst ` set xs"
  shows "seg (h(a \<mapsto> DataObj (node it nx' (prv pv xs)))) pv (xs @ [(a, it)]) nx'"
  using assms by (auto simp: seg_append)

lemma seg_first_prev:
  assumes "seg h pv ((a, it) # xs) nx" and "a \<notin> fst ` set xs"
  shows "seg (h(a \<mapsto> DataObj (node it (nxt xs nx) pv'))) pv' ((a, it) # xs) nx"
  using assms by auto

section \<open>The library invariant\<close>

definition list_rec :: "string \<Rightarrow> bool \<Rightarrow> nodes \<Rightarrow> OS_LIST" where
  "list_rec nm lk xs = \<lparr>ol_name = nm, ol_data = nxt xs 0, ol_mut = lk, ol_counter = of_nat (length xs)\<rparr>"

lemma list_rec_sel [simp]:
  "ol_name (list_rec nm lk xs) = nm" "ol_data (list_rec nm lk xs) = nxt xs 0"
  "ol_mut (list_rec nm lk xs) = lk" "ol_counter (list_rec nm lk xs) = of_nat (length xs)"
  by (simp_all add: list_rec_def)

lemma list_rec_lock [simp]: "(list_rec nm lk xs)\<lparr>ol_mut := b\<rparr> = list_rec nm b xs"
  by (simp add: list_rec_def)

abbreviation ids :: "nodes \<Rightarrow> u32 list" where "ids xs \<equiv> map (\<lambda>x. it_id (snd x)) xs"
abbreviation addrs :: "nodes \<Rightarrow> addr list" where "addrs xs \<equiv> map fst xs"

definition list_at :: "os_state \<Rightarrow> addr \<Rightarrow> string \<Rightarrow> bool \<Rightarrow> nodes \<Rightarrow> bool" where
  "list_at s hp nm lk xs \<longleftrightarrow>
     hp \<noteq> 0 \<and> heap s hp = Some (ListObj (list_rec nm lk xs)) \<and> seg (heap s) 0 xs 0
     \<and> distinct (addrs xs) \<and> distinct (ids xs) \<and> set (ids xs) \<subseteq> ids_used nm (os_res_pool s)"

type_synonym ghost = "addr \<Rightarrow> (string \<times> nodes) option"

definition sep :: "nodes \<Rightarrow> nodes \<Rightarrow> bool" where
  "sep xs ys \<longleftrightarrow> set (addrs xs) \<inter> set (addrs ys) = {} \<and> set (ids xs) \<inter> set (ids ys) = {}"

lemma sep_sym: "sep xs ys \<Longrightarrow> sep ys xs"
  by (simp add: sep_def Int_commute)

definition lists_ok :: "os_state \<Rightarrow> ghost \<Rightarrow> bool" where
  "lists_ok s M \<longleftrightarrow>
     (\<forall>hp nm xs. M hp = Some (nm, xs) \<longrightarrow> list_at s hp nm False xs) \<and>
     (\<forall>hp nm xs hp' nm' xs'. M hp = Some (nm, xs) \<and> M hp' = Some (nm', xs') \<and> hp \<noteq> hp' \<longrightarrow>
        sep xs xs')"

definition kit_ok :: "os_state \<Rightarrow> ghost \<Rightarrow> bool" where
  "kit_ok s M \<longleftrightarrow> mem_ok s \<and> pools_ok (os_res_pool s) \<and> lists_ok s M"

text \<open>Client blocks: everything in the store but list headers and list nodes.\<close>

fun list_obj :: "obj \<Rightarrow> bool" where
  "list_obj (ListObj _) = True"
| "list_obj (DataObj _) = True"
| "list_obj _ = False"

text \<open>Nothing but the store, the call counter and the pools changed.\<close>

definition same_statics :: "os_state \<Rightarrow> os_state \<Rightarrow> bool" where
  "same_statics s s' \<longleftrightarrow>
     s' = s\<lparr>heap := heap s', calls := calls s', os_res_pool := os_res_pool s'\<rparr>"

lemma same_statics_refl [simp]: "same_statics s s"
  by (simp add: same_statics_def)

lemma same_statics_trans: "same_statics s t \<Longrightarrow> same_statics t u \<Longrightarrow> same_statics s u"
  by (cases s; cases t; cases u) (simp add: same_statics_def)

lemma same_statics_store [simp]:
  "same_statics s (hput p x s') = same_statics s s'"
  "same_statics s (hdel p s') = same_statics s s'"
  "same_statics s (tick s') = same_statics s s'"
  "same_statics s (s'\<lparr>os_res_pool := r\<rparr>) = same_statics s s'"
  "same_statics (hput p x s) s' = same_statics s s'"
  "same_statics (hdel p s) s' = same_statics s s'"
  "same_statics (tick s) s' = same_statics s s'"
  "same_statics (s\<lparr>os_res_pool := r\<rparr>) s' = same_statics s s'"
  by (cases s; cases s'; simp add: same_statics_def hput_def hdel_def tick_def)+

lemma same_statics_fields:
  assumes "same_statics s s'"
  shows "mutex_list s' = mutex_list s" "cond_list s' = cond_list s" "thread_list s' = thread_list s"
    "queue_list s' = queue_list s" "msgq_list s' = msgq_list s"
    "buffer_class_list s' = buffer_class_list s"
    "os_mem_initialized s' = os_mem_initialized s" "os_mem_lock s' = os_mem_lock s"
    "os_sys_region s' = os_sys_region s" "mem_ok s' = mem_ok s"
    "net_port_pool s' = net_port_pool s" "net_channel_pool s' = net_channel_pool s" "net_out s' = net_out s"
  by (subst assms [unfolded same_statics_def]; simp add: mem_ok_def)+

lemma kit_ok_mem: "kit_ok s M \<Longrightarrow> mem_ok s"
  by (simp add: kit_ok_def)

lemma kit_ok_pools: "kit_ok s M \<Longrightarrow> pools_ok (os_res_pool s)"
  by (simp add: kit_ok_def)

lemma kit_okD:
  assumes "kit_ok s M" and "M hp = Some (nm, xs)"
  shows "mem_ok s" "pools_ok (os_res_pool s)" "list_at s hp nm False xs"
  using assms by (auto simp: kit_ok_def lists_ok_def)

lemma ids_used_card:
  assumes "pools_ok rps"
  shows "finite (ids_used nm rps) \<and> card (ids_used nm rps) \<le> OS_MAX_RES"
proof -
  let ?C = "{c \<in> used_cells rps. pool_find nm rps 0 = Some (fst c)}"
  let ?D = "{the (pool_find nm rps 0)} \<times> {..<OS_MAX_RES}"
  have sub: "?C \<subseteq> ?D" by (auto simp: used_cells_def)
  moreover have fin: "finite ?D" by simp
  ultimately have "finite ?C" by (rule finite_subset)
  moreover have "card ?C \<le> OS_MAX_RES"
    using card_mono [OF fin sub] by (simp add: card_cartesian_product)
  ultimately show ?thesis
    unfolding ids_used_def using card_image_le [of ?C "cell_id rps"] by simp
qed

text \<open>No list is longer than its pool, so its 32-bit counter never wraps.\<close>

lemma list_length_bound:
  assumes "pools_ok (os_res_pool s)" and "list_at s hp nm lk xs"
  shows "length xs \<le> OS_MAX_RES"
proof -
  have "distinct (ids xs)" using assms(2) by (simp add: list_at_def)
  from distinct_card [OF this] have "length xs = card (set (ids xs))" by simp
  also have "\<dots> \<le> card (ids_used nm (os_res_pool s))"
    using assms(2) ids_used_card [OF assms(1), of nm] by (intro card_mono) (simp_all add: list_at_def)
  also have "\<dots> \<le> OS_MAX_RES" using ids_used_card [OF assms(1), of nm] by simp
  finally show ?thesis .
qed

lemma list_counter:
  assumes "pools_ok (os_res_pool s)" and "list_at s hp nm lk xs"
  shows "unat (of_nat (length xs) :: u32) = length xs"
  using list_length_bound [OF assms] by (simp add: unat_of_nat OS_MAX_RES_def)

text \<open>
  Replacing the nodes of one list: whatever the operation did, the other lists are untouched when the
  store changed only at the header, at old nodes of the list and at blocks that were free, and when no
  id of another list was given back.
\<close>

lemma list_at_addr:
  assumes "list_at s hp nm lk xs"
  shows "hp \<notin> set (addrs xs)" "0 \<notin> set (addrs xs)"
    "a \<in> set (addrs xs) \<Longrightarrow> \<exists>d. heap s a = Some (DataObj d)"
proof -
  from assms have sg: "seg (heap s) 0 xs 0" and hh: "heap s hp = Some (ListObj (list_rec nm lk xs))"
    by (simp_all add: list_at_def)
  show "a \<in> set (addrs xs) \<Longrightarrow> \<exists>d. heap s a = Some (DataObj d)" for a
    using seg_dom [OF sg] by simp
  then show "hp \<notin> set (addrs xs)" using hh by fastforce
  show "0 \<notin> set (addrs xs)" using seg_nonnull [OF sg] by simp
qed

lemma kit_ok_update:
  assumes ok: "kit_ok s M" and Mh: "M hp = Some (nm, xs)"
    and ok': "mem_ok s'" "pools_ok (os_res_pool s')" "list_at s' hp nm False xs'"
    and frame: "\<And>a x. a \<noteq> hp \<Longrightarrow> a \<notin> set (addrs xs) \<Longrightarrow> heap s a = Some x \<Longrightarrow> list_obj x \<Longrightarrow>
      heap s' a = Some x"
    and new: "\<And>a. a \<in> set (addrs xs') \<Longrightarrow> a \<notin> set (addrs xs) \<Longrightarrow> heap s a = None"
    and new_ids: "\<And>r. r \<in> set (ids xs') \<Longrightarrow> r \<notin> set (ids xs) \<Longrightarrow> r \<notin> all_ids (os_res_pool s)"
    and pool: "\<And>nm'. ids_used nm' (os_res_pool s) - set (ids xs) \<subseteq> ids_used nm' (os_res_pool s')"
  shows "kit_ok s' (M(hp \<mapsto> (nm, xs')))"
proof -
  have other: "list_at s' hp2 nm2 False ys \<and> sep xs' ys"
    if M2: "M hp2 = Some (nm2, ys)" and ne: "hp2 \<noteq> hp" for hp2 nm2 ys
  proof -
    have at: "list_at s hp nm False xs" and at2: "list_at s hp2 nm2 False ys"
      using kit_okD(3) [OF ok] Mh M2 by blast+
    have dis: "set (addrs ys) \<inter> set (addrs xs) = {}" "set (ids ys) \<inter> set (ids xs) = {}"
      using ok M2 Mh ne unfolding kit_ok_def lists_ok_def sep_def by metis+
    have l2: "heap s hp2 = Some (ListObj (list_rec nm2 False ys))" using at2 by (simp add: list_at_def)
    then have "hp2 \<notin> set (addrs xs)" using list_at_addr(3) [OF at, of hp2] by auto
    then have hp2: "heap s' hp2 = heap s hp2" using frame [OF ne _ l2] l2 by simp
    have nodes: "heap s' a = heap s a" if a: "a \<in> set (addrs ys)" for a
    proof -
      obtain d where d: "heap s a = Some (DataObj d)" using list_at_addr(3) [OF at2 a] by blast
      then have "a \<noteq> hp" using at by (auto simp: list_at_def)
      moreover have "a \<notin> set (addrs xs)" using dis a by blast
      ultimately show ?thesis using frame [of a] d by simp
    qed
    have "seg (heap s') 0 ys 0 = seg (heap s) 0 ys 0"
      by (rule seg_cong) (use nodes in auto)
    moreover have "set (ids ys) \<subseteq> ids_used nm2 (os_res_pool s)"
      using at2 by (simp add: list_at_def)
    then have "set (ids ys) \<subseteq> ids_used nm2 (os_res_pool s')"
      using pool [of nm2] dis(2) by blast
    ultimately have 1: "list_at s' hp2 nm2 False ys" using at2 hp2 by (simp add: list_at_def)
    have 2: "set (addrs xs') \<inter> set (addrs ys) = {}"
    proof (rule ccontr)
      assume "set (addrs xs') \<inter> set (addrs ys) \<noteq> {}"
      then obtain a where a: "a \<in> set (addrs xs')" "a \<in> set (addrs ys)" by blast
      with dis have "heap s a = None" by (intro new) blast+
      with list_at_addr(3) [OF at2 a(2)] show False by simp
    qed
    have "set (ids ys) \<subseteq> all_ids (os_res_pool s)"
      using at2 ids_used_all by (fastforce simp: list_at_def)
    with new_ids dis(2) have 3: "set (ids xs') \<inter> set (ids ys) = {}" by blast
    from 1 2 3 show ?thesis by (simp add: sep_def)
  qed
  have old: "sep xs1 xs2"
    if "M h1 = Some (nm1, xs1)" "M h2 = Some (nm2, xs2)" "h1 \<noteq> h2" for h1 nm1 xs1 h2 nm2 xs2
    using ok that unfolding kit_ok_def lists_ok_def by metis
  show ?thesis
    unfolding kit_ok_def lists_ok_def
    using ok' other old by (auto intro: sep_sym split: if_splits)
qed

section \<open>Reading a list\<close>

lemma load_node:
  "seg (heap s) pv ((a, it) # xs) nx \<Longrightarrow> load the_data a s = Ret (node it (nxt xs nx) pv)"
  by (simp add: load_def)

lemma load_head: "list_at s hp nm lk xs \<Longrightarrow> load the_list hp s = Ret (list_rec nm lk xs)"
  by (simp add: list_at_def load_def)

lemma list_seek_seg:
  assumes "seg (heap s) pv xs 0"
    and that: "\<And>it nx pv. P (node it nx pv) = P (node it 0 0)"
  shows "list_seek P (nxt xs 0) s =
     Ret (case find (\<lambda>x. P (node (snd x) 0 0)) xs of None \<Rightarrow> 0 | Some x \<Rightarrow> fst x)"
  using assms(1)
proof (induction xs arbitrary: pv)
  case Nil
  then show ?case by (simp add: list_seek_def)
next
  case (Cons x xs)
  obtain a it where x: "x = (a, it)" by (cases x)
  let ?b = "\<lambda>(found, d). \<not> found \<and> d \<noteq> (0 :: addr)"
  let ?c = "\<lambda>(found :: bool, d). obind (load the_data d s) (\<lambda>n.
                if P n then Ret (True, d) else Ret (False, ld_next n))"
  have a: "a \<noteq> 0" and ld: "load the_data a s = Ret (node it (nxt xs 0) pv)"
    and sg: "seg (heap s) a xs 0"
    using Cons.prems x load_node by auto
  have P: "P (node it (nxt xs 0) pv) = P (node it 0 0)" by (rule that)
  show ?case
  proof (cases "P (node it 0 0)")
    case True
    then have "while_o ?b ?c (False, a) = while_o ?b ?c (True, a)"
      using a ld P by (subst while_o_unfold) simp
    then show ?thesis using True x by (simp add: list_seek_def)
  next
    case False
    then have "while_o ?b ?c (False, a) = while_o ?b ?c (False, nxt xs 0)"
      using a ld P by (subst while_o_unfold) simp
    then show ?thesis using False x Cons.IH [OF sg] by (simp add: list_seek_def)
  qed
qed

lemma os_list_find_seg:
  assumes "seg (heap s) pv xs 0"
    and "\<And>a it. (a, it) \<in> set xs \<Longrightarrow> cmp a s = Ret (if Q it then OKAY else ERROR)"
  shows "obind (while_o (\<lambda>(found, d). \<not> found \<and> d \<noteq> 0) (list_find_body cmp s) (False, nxt xs 0))
       (\<lambda>(found, d). Ret (if found then d else 0)) =
     Ret (case find (\<lambda>x. Q (snd x)) xs of None \<Rightarrow> 0 | Some x \<Rightarrow> fst x)"
  using assms
proof (induction xs arbitrary: pv)
  case Nil
  then show ?case by simp
next
  case (Cons x xs)
  obtain a it where x: "x = (a, it)" by (cases x)
  let ?b = "\<lambda>(found, d). \<not> found \<and> d \<noteq> (0 :: addr)"
  have a: "a \<noteq> 0" and ld: "load the_data a s = Ret (node it (nxt xs 0) pv)"
    and sg: "seg (heap s) a xs 0"
    using Cons.prems x load_node by auto
  have cmp: "cmp a s = Ret (if Q it then OKAY else ERROR)" using Cons.prems(2) x by simp
  have IH: "obind (while_o ?b (list_find_body cmp s) (False, nxt xs 0))
       (\<lambda>(found, d). Ret (if found then d else 0)) =
     Ret (case find (\<lambda>x. Q (snd x)) xs of None \<Rightarrow> 0 | Some x \<Rightarrow> fst x)"
    using Cons.prems(2) by (intro Cons.IH [OF sg]) simp
  show ?case
  proof (cases "Q it")
    case True
    then have "while_o ?b (list_find_body cmp s) (False, a) = while_o ?b (list_find_body cmp s) (True, a)"
      using a cmp by (subst while_o_unfold) (simp add: list_find_body_def)
    then show ?thesis using True x by simp
  next
    case False
    then have "while_o ?b (list_find_body cmp s) (False, a)
        = while_o ?b (list_find_body cmp s) (False, nxt xs 0)"
      using a cmp ld by (subst while_o_unfold) (simp add: list_find_body_def)
    then show ?thesis using False x IH by simp
  qed
qed

lemma os_list_find_eq:
  assumes "list_at s hp nm lk xs"
    and "\<And>a it. (a, it) \<in> set xs \<Longrightarrow> cmp a s = Ret (if Q it then OKAY else ERROR)"
  shows "os_list_find hp cmp s = Ret (case find (\<lambda>x. Q (snd x)) xs of None \<Rightarrow> 0 | Some x \<Rightarrow> fst x)"
  using os_list_find_seg [of s 0 xs cmp Q] assms load_head [OF assms(1)]
  by (simp add: os_list_find_def list_at_def)

text \<open>A node of a list and what it points to.\<close>

lemma list_node:
  assumes at: "list_at s hp nm lk xs" and x: "(a, it) \<in> set xs"
  shows "\<exists>nx pv. load the_data a s = Ret (node it nx pv) \<and> a \<noteq> 0"
proof -
  obtain ys zs where "xs = ys @ (a, it) # zs" using x by (meson split_list)
  then show ?thesis using at by (auto simp: list_at_def seg_append load_def)
qed


section \<open>Appending an item\<close>

lemma insert_walk_seg:
  assumes "seg (heap s) pv (x # xs) 0" and "resid \<notin> set (ids (x # xs))"
    and "unat k + length xs \<le> unat cnt"
  shows "insert_walk s resid cnt k (fst x) = Ret (Some (fst (last (x # xs))))"
  using assms
proof (induction xs arbitrary: x pv k)
  case Nil
  then show ?case by (cases x) (simp add: insert_walk.simps load_def)
next
  case (Cons y ys)
  obtain a it where x: "x = (a, it)" by (cases x)
  have ld: "load the_data a s = Ret (node it (fst y) pv)" and y: "fst y \<noteq> 0"
    using Cons.prems(1) x by (cases y; simp add: load_def)+
  have k: "k < cnt" using Cons.prems(3) by (simp add: word_less_nat_alt)
  have "insert_walk s resid cnt (k + 1) (fst y) = Ret (Some (fst (last (y # ys))))"
  proof (rule Cons.IH)
    show "seg (heap s) a (y # ys) 0" using Cons.prems(1) x by simp
    show "resid \<notin> set (ids (y # ys))" using Cons.prems(2) by simp
    show "unat (k + 1) + length ys \<le> unat cnt" using Cons.prems(3) word_Suc_less [OF k] by simp
  qed
  then show ?case
    using ld y k Cons.prems(2) x by (auto simp add: insert_walk.simps [of s resid cnt k a])
qed

text \<open>The effect of an insertion that got cell \<open>i\<close> of pool \<open>ii\<close>, on the store and the pools.\<close>

definition linked ::
    "os_state \<Rightarrow> os_state \<Rightarrow> addr \<Rightarrow> string \<Rightarrow> nodes \<Rightarrow> nodes \<Rightarrow> addr \<Rightarrow> nat \<Rightarrow> nat \<Rightarrow> bool" where
  "linked s s' hp nm xs xs' d ii i \<longleftrightarrow>
     os_res_pool s' = mark ii i (os_res_pool s) \<and> same_statics s s' \<and> calls s' = calls s
     \<and> heap s' hp = Some (ListObj (list_rec nm False xs')) \<and> seg (heap s') 0 xs' 0
     \<and> (\<forall>a. a \<noteq> hp \<longrightarrow> a \<noteq> d \<longrightarrow> a \<notin> set (addrs xs) \<longrightarrow> heap s' a = heap s a)"

lemmas insert_exec = list_item_insert_def upd_list_def upd_data_def list_unlock_def os_res_id_make_inuse_def

lemma insert_first:
  assumes hp: "hp \<noteq> 0" "heap s hp = Some (ListObj (list_rec nm False []))"
    and d: "d \<noteq> 0" "heap s d = Some (DataObj (node (0, key, data) 0 0))"
    and alloc: "os_res_id_alloc hp (hput hp (ListObj (list_rec nm True [])) s) =
      Ret (r, (hput hp (ListObj (list_rec nm True [])) s)\<lparr>os_res_pool := mark ii i (os_res_pool s)\<rparr>)"
    and r: "r \<noteq> 0"
  shows "\<exists>s'. list_item_insert hp d s = Ret (r, s') \<and> linked s s' hp nm [] [(d, r, key, data)] d ii i"
proof -
  have hd: "hp \<noteq> d" using hp d by auto
  have lock: "list_lock hp s = Ret (hput hp (ListObj (list_rec nm True [])) s)"
    using hp by (simp add: list_lock_def load_def)
  have ld: "load the_data d s = Ret (node (0, key, data) 0 0)" using d by (simp add: load_def)
  have "list_item_insert hp d s = Ret (r, hput hp (ListObj (list_rec nm False [(d, r, key, data)]))
     (hput d (DataObj (node (r, key, data) 0 0)) (s\<lparr>os_res_pool := mark ii i (os_res_pool s)\<rparr>)))"
    using alloc lock hp d hd r ld
    by (simp add: insert_exec hput_commute [OF hd [symmetric]] list_rec_def)
  then show ?thesis using hd d by (simp add: linked_def)
qed

lemma insert_last:
  assumes pok: "pools_ok (os_res_pool s)" and at: "list_at s hp nm False xs" and ne: "xs \<noteq> []"
    and d: "d \<noteq> 0" "heap s d = Some (DataObj (node (0, key, data) 0 0))" "d \<notin> set (addrs xs)"
    and alloc: "os_res_id_alloc hp (hput hp (ListObj (list_rec nm True xs)) s) =
      Ret (r, (hput hp (ListObj (list_rec nm True xs)) s)\<lparr>os_res_pool := mark ii i (os_res_pool s)\<rparr>)"
    and r: "r \<noteq> 0" "r \<notin> set (ids xs)"
  shows "\<exists>s'. list_item_insert hp d s = Ret (r, s') \<and> linked s s' hp nm xs (xs @ [(d, r, key, data)]) d ii i"
proof -
  let ?P = "mark ii i (os_res_pool s)" and ?s1 = "hput hp (ListObj (list_rec nm True xs)) s"
  from at have hp: "hp \<noteq> 0" "heap s hp = Some (ListObj (list_rec nm False xs))"
    and sg: "seg (heap s) 0 xs 0" and dist: "distinct (addrs xs)"
    by (simp_all add: list_at_def)
  obtain ys t it where xs: "xs = ys @ [(t, it)]" using ne by (metis rev_exhaust surj_pair)
  have hd: "hp \<noteq> d" using hp d by auto
  have lock: "list_lock hp s = Ret ?s1" using hp by (simp add: list_lock_def load_def)
  have ldd: "load the_data d s = Ret (node (0, key, data) 0 0)" using d by (simp add: load_def)
  have t: "t \<noteq> 0" "t \<noteq> hp" "t \<noteq> d" "heap s t = Some (DataObj (node it 0 (prv 0 ys)))"
    using sg xs hp d by (auto simp: seg_append)
  then have ldt: "load the_data t s = Ret (node it 0 (prv 0 ys))" by (simp add: load_def)
  obtain x zs where xz: "xs = x # zs" using ne by (meson neq_Nil_conv)
  have cnt: "unat (of_nat (length xs) :: u32) = length xs" by (rule list_counter [OF pok at])
  then have c0: "(of_nat (length xs) :: u32) \<noteq> 0" using xz by auto
  have "insert_walk (?s1\<lparr>os_res_pool := ?P\<rparr>) r (of_nat (length xs)) 0 (fst x) = Ret (Some (fst (last (x # zs))))"
    by (rule insert_walk_seg [where pv = 0]) (use xz sg hp r cnt list_at_addr(1) [OF at] in auto)
  then have walk: "insert_walk (?s1\<lparr>os_res_pool := ?P\<rparr>) r (of_nat (length xs)) 0 (nxt xs 0) = Ret (Some t)"
    using xz xs by (metis fst_conv last_snoc nxt_simps(2))
  have "\<exists>s'. list_item_insert hp d s = Ret (r, s') \<and> os_res_pool s' = ?P \<and> same_statics s s'
      \<and> calls s' = calls s \<and> heap s' = (heap s)(t \<mapsto> DataObj (node it d (prv 0 ys)),
         d \<mapsto> DataObj (node (r, key, data) 0 t), hp \<mapsto> ListObj (list_rec nm False (xs @ [(d, r, key, data)])))"
    using alloc lock hp d hd r ldd t ldt c0 walk
    by (auto simp: insert_exec hput_commute [OF hd [symmetric]] list_rec_def xz fun_upd_twist)
  moreover have "t \<notin> fst ` set ys" "d \<notin> fst ` set ys" "hp \<notin> fst ` set ys"
    using dist d(3) list_at_addr(1) [OF at] xs by auto
  ultimately show ?thesis
    using sg t d hd unfolding linked_def by (auto simp: xs seg_append)
qed

text \<open>
  Inserting a node into a sound list: the pool is exhausted and nothing happens, or the node is linked
  at the end with the first free id.
\<close>

lemma list_item_insert_cases:
  assumes pok: "pools_ok (os_res_pool s)" and at: "list_at s hp nm False xs"
    and d: "d \<noteq> 0" "heap s d = Some (DataObj (node (0, key, data) 0 0))" "d \<notin> set (addrs xs)"
  obtains (exhausted) "list_item_insert hp d s = Ret (ERROR, s)"
      "\<And>ii i. pool_find nm (os_res_pool s) 0 = Some ii \<Longrightarrow> i < OS_MAX_RES \<Longrightarrow>
         (ii, i) \<in> used_cells (os_res_pool s)"
  | (inserted) ii i s' where
      "pool_find nm (os_res_pool s) 0 = Some ii" "ii < length (os_res_pool s)" "i < OS_MAX_RES"
      "(ii, i) \<notin> used_cells (os_res_pool s)" "\<And>j. j < i \<Longrightarrow> (ii, j) \<in> used_cells (os_res_pool s)"
      "list_item_insert hp d s = Ret (cell_id (os_res_pool s) (ii, i), s')"
      "linked s s' hp nm xs (xs @ [(d, cell_id (os_res_pool s) (ii, i), key, data)]) d ii i"
proof -
  let ?s1 = "hput hp (ListObj (list_rec nm True xs)) s"
  from at have hp: "hp \<noteq> 0" "heap s hp = Some (ListObj (list_rec nm False xs))"
    and sub: "set (ids xs) \<subseteq> ids_used nm (os_res_pool s)"
    by (simp_all add: list_at_def)
  have l1: "load the_list hp ?s1 = Ret (list_rec nm True xs)" using hp by simp
  have lock: "list_lock hp s = Ret ?s1" using hp by (simp add: list_lock_def load_def)
  have unlock: "list_unlock hp ?s1 = Ret s"
    using hp by (simp add: list_unlock_def upd_list_def hput_same)
  have pok1: "pools_ok (os_res_pool ?s1)" using pok by simp
  show ?thesis
  proof (rule os_res_id_alloc_cases [OF pok1 l1], goal_cases exhausted fresh)
    case exhausted
    with lock unlock hp d show ?thesis by (intro that(1)) (simp_all add: list_item_insert_def)
  next
    case (fresh ii i)
    note fresh = fresh [simplified]
    let ?r = "cell_id (os_res_pool s) (ii, i)"
    have r: "?r \<noteq> 0" using id_nonzero [OF pok] fresh by (simp add: cell_id_def)
    have rx: "?r \<notin> set (ids xs)"
      using cell_id_fresh [OF pok fresh(2,3,4)] sub ids_used_all by blast
    obtain s' where "list_item_insert hp d s = Ret (?r, s')"
        "linked s s' hp nm xs (xs @ [(d, ?r, key, data)]) d ii i"
    proof (cases "xs = []")
      case True
      with insert_first [OF hp [unfolded True] d(1,2) _ r] fresh(6) that show ?thesis by auto
    next
      case False
      with insert_last [OF pok at False d fresh(6) r rx] that show ?thesis by blast
    qed
    with fresh show ?thesis by (intro that(2) [of ii i s']) auto
  qed
qed

end
