(* ===== verification/Os_List_Laws.thy ===== *)
theory Os_List_Laws
  imports Os_List_Ref
begin

text \<open>
  The contract of src/list.c towards the components that keep their objects in lists: for every
  operation its result, the new contents of the list in the ghost map, that the invariant
  \<open>kit_ok\<close> is kept, and that no block of a client is touched.
\<close>

section \<open>Frames\<close>

definition keeps :: "os_state \<Rightarrow> os_state \<Rightarrow> bool" where
  "keeps s s' \<longleftrightarrow> same_statics s s' \<and> (\<forall>a x. heap s a = Some x \<and> \<not> list_obj x \<longrightarrow> heap s' a = Some x)"

lemma keeps_refl [simp]: "keeps s s"
  by (simp add: keeps_def)

lemma keeps_trans: "keeps s t \<Longrightarrow> keeps t u \<Longrightarrow> keeps s u"
  unfolding keeps_def using same_statics_trans by blast

lemma keeps_tick [simp]: "keeps s (tick s)"
  by (simp add: keeps_def)

lemma keeps_hput_free: "keeps s t \<Longrightarrow> heap s p = None \<Longrightarrow> keeps s (hput p x t)"
  by (auto simp: keeps_def)

lemma keepsD: "keeps s s' \<Longrightarrow> heap s a = Some x \<Longrightarrow> \<not> list_obj x \<Longrightarrow> heap s' a = Some x"
  by (auto simp: keeps_def)

lemma keeps_statics: "keeps s s' \<Longrightarrow> same_statics s s'"
  by (simp add: keeps_def)

lemma keeps_load:
  assumes "keeps s s'" and "load sel a s = Ret v" and "\<And>x. sel x = Some v \<Longrightarrow> \<not> list_obj x"
  shows "load sel a s' = Ret v"
  using assms keepsD [OF assms(1)] by (fastforce simp: load_eq_Ret)

section \<open>Growth\<close>

text \<open>At most \<open>k\<close> more blocks and at most \<open>k\<close> more ids in use than before.\<close>

definition adds :: "nat \<Rightarrow> os_state \<Rightarrow> os_state \<Rightarrow> bool" where
  "adds k s s' \<longleftrightarrow> card (dom (heap s')) \<le> card (dom (heap s)) + k
     \<and> card (used_cells (os_res_pool s')) \<le> card (used_cells (os_res_pool s)) + k
     \<and> map rp_name (os_res_pool s') = map rp_name (os_res_pool s)"

lemma adds_refl [simp]: "adds k s s"
  by (simp add: adds_def)

lemma adds_trans: "adds j s t \<Longrightarrow> adds k t u \<Longrightarrow> j + k \<le> n \<Longrightarrow> adds n s u"
  by (simp add: adds_def)

lemma adds_same: "heap s' = heap s \<Longrightarrow> os_res_pool s' = os_res_pool s \<Longrightarrow> adds k s s'"
  by (simp add: adds_def)

lemma card_insert_Suc: "card (insert x A) \<le> Suc (card A)"
  by (cases "finite A") (simp_all add: card_insert_if)

lemma adds_one:
  assumes "dom (heap s') \<subseteq> insert d (dom (heap s))" and "os_res_pool s' = os_res_pool s"
  shows "adds (Suc 0) s s'"
  using card_mono [OF _ assms(1)] card_insert_Suc [of d "dom (heap s)"] assms(2) by (simp add: adds_def)

lemma rp_name_mark [simp]: "map rp_name (mark ii i rps) = map rp_name rps"
  by (cases "ii < length rps") (auto simp: mark_def set_usevec_def map_update list_eq_iff_nth_eq nth_list_update)

text \<open>Changes that leave every live block of the lists alone (a new block, an update of a client block)
  keep the invariant.
\<close>

lemma kit_ok_frame:
  assumes ok: "kit_ok s M" and mem: "mem_ok s'" and pool: "os_res_pool s' = os_res_pool s"
    and frame: "\<And>a x. heap s a = Some x \<Longrightarrow> list_obj x \<Longrightarrow> heap s' a = Some x"
  shows "kit_ok s' M"
proof -
  have "list_at s' hp nm False xs" if "M hp = Some (nm, xs)" for hp nm xs
  proof -
    have at: "list_at s hp nm False xs" using ok that by (rule kit_okD)
    have "seg (heap s') 0 xs 0 = seg (heap s) 0 xs 0"
    proof (rule seg_cong)
      fix a assume "a \<in> fst ` set xs"
      then obtain d where "heap s a = Some (DataObj d)" using list_at_addr(3) [OF at, of a] by auto
      with frame [of a] show "heap s' a = heap s a" by simp
    qed
    with at frame [of hp] show ?thesis by (simp add: list_at_def pool)
  qed
  moreover have "\<forall>hp nm xs hp' nm' xs'. M hp = Some (nm, xs) \<and> M hp' = Some (nm', xs') \<and> hp \<noteq> hp' \<longrightarrow>
        sep xs xs'" using ok unfolding kit_ok_def lists_ok_def by blast
  ultimately show ?thesis using kit_ok_pools [OF ok] mem pool by (simp only: kit_ok_def lists_ok_def) blast
qed

lemma kit_ok_tick [simp]: "kit_ok s M \<Longrightarrow> kit_ok (tick s) M"
  by (rule kit_ok_frame) (simp_all add: kit_ok_mem)

lemma kit_ok_hput:
  assumes "kit_ok s M" and "\<And>x. heap s p = Some x \<Longrightarrow> \<not> list_obj x"
  shows "kit_ok (hput p y s) M"
  using assms by (intro kit_ok_frame [OF assms(1)]) (auto simp: kit_ok_mem)

lemma kit_ok_hdel:
  assumes "kit_ok s M" and "\<And>x. heap s p = Some x \<Longrightarrow> \<not> list_obj x"
  shows "kit_ok (hdel p s) M"
  using assms by (intro kit_ok_frame [OF assms(1)]) (auto simp: kit_ok_mem)

section \<open>Insertion\<close>

lemma kit_ok_linked:
  assumes ok: "kit_ok s M" and Mh: "M hp = Some (nm, xs)"
    and cell: "pool_find nm (os_res_pool s) 0 = Some ii" "ii < length (os_res_pool s)"
      "i < OS_MAX_RES" "(ii, i) \<notin> used_cells (os_res_pool s)"
    and d: "d \<noteq> 0" "heap s d = None"
    and xs': "set xs' = insert (d, cell_id (os_res_pool s) (ii, i), key, data) (set xs)"
      "length xs' = Suc (length xs)"
    and lk: "linked t s' hp nm xs xs' d ii i"
    and t: "t = hput d x (tick s)"
  shows "kit_ok s' (M(hp \<mapsto> (nm, xs')))" and "keeps s s'" and "adds (Suc 0) s s'"
proof -
  let ?r = "cell_id (os_res_pool s) (ii, i)"
  note at = kit_okD(3) [OF ok Mh] and pok = kit_okD(2) [OF ok Mh]
  have fresh: "?r \<notin> all_ids (os_res_pool s)" by (rule cell_id_fresh [OF pok cell(2-4)])
  have pool': "os_res_pool s' = mark ii i (os_res_pool s)" using lk t by (simp add: linked_def)
  have sub: "set (ids xs) \<subseteq> ids_used nm (os_res_pool s)" using at by (simp add: list_at_def)
  have dx: "d \<notin> set (addrs xs)" using list_at_addr(3) [OF at, of d] d by auto
  have rx: "?r \<notin> set (ids xs)" using fresh sub ids_used_all by blast
  have sets: "set (addrs xs') = insert d (set (addrs xs))" "set (ids xs') = insert ?r (set (ids xs))"
    using xs'(1) by auto
  have dis: "distinct (addrs xs')" "distinct (ids xs')"
  proof -
    have c: "distinct (addrs xs)" "distinct (ids xs)" using at by (simp_all add: list_at_def)
    from distinct_card [OF c(1)] dx show "distinct (addrs xs')"
      by (intro card_distinct) (simp only: sets card_insert_if finite_set length_map xs'(2) if_False)
    from distinct_card [OF c(2)] rx show "distinct (ids xs')"
      by (intro card_distinct) (simp only: sets card_insert_if finite_set length_map xs'(2) if_False)
  qed
  have stat: "same_statics s s'" using lk t by (simp add: linked_def)
  have hf: "heap s' a = heap s a" if "a \<noteq> hp" "a \<noteq> d" "a \<notin> set (addrs xs)" for a
    using lk t that by (simp add: linked_def)
  show "kit_ok s' (M(hp \<mapsto> (nm, xs')))"
  proof (rule kit_ok_update [OF ok Mh])
    show "mem_ok s'" using same_statics_fields(10) [OF stat] kit_okD(1) [OF ok Mh] by simp
    show "pools_ok (os_res_pool s')" using pools_ok_mark(1) [OF pok cell(2)] pool' by simp
    have "set (ids xs') \<subseteq> ids_used nm (os_res_pool s')"
      unfolding sets pool' ids_mark(2) [OF pok cell(2,3)] using sub cell(1) by auto
    then show "list_at s' hp nm False xs'" using lk at dis unfolding linked_def list_at_def by blast
    show "heap s' a = Some y" if "a \<noteq> hp" "a \<notin> set (addrs xs)" "heap s a = Some y" for a y
      by (subst hf) (use that d in auto)
    show "heap s a = None" if "a \<in> set (addrs xs')" "a \<notin> set (addrs xs)" for a
      using that d sets by auto
    show "r \<notin> all_ids (os_res_pool s)" if "r \<in> set (ids xs')" "r \<notin> set (ids xs)" for r
      using that fresh sets by auto
    show "ids_used nm' (os_res_pool s) - set (ids xs) \<subseteq> ids_used nm' (os_res_pool s')" for nm'
      by (auto simp: pool' ids_mark(2) [OF pok cell(2,3)])
  qed
  have "heap s' a = Some y" if "heap s a = Some y" "\<not> list_obj y" for a y
  proof -
    have "a \<noteq> hp" using that at by (auto simp: list_at_def)
    moreover have "a \<notin> set (addrs xs)" using that list_at_addr(3) [OF at, of a] by fastforce
    ultimately have "heap s' a = heap s a" by (intro hf) (use that d in auto)
    then show ?thesis using that by simp
  qed
  with stat show "keeps s s'" by (simp add: keeps_def)
  have live: "heap s a \<noteq> None" if "a = hp \<or> a \<in> set (addrs xs)" for a
    using that at list_at_addr(3) [OF at, of a] by (auto simp: list_at_def)
  have sub': "dom (heap s') \<subseteq> insert d (dom (heap s))"
  proof
    fix a assume "a \<in> dom (heap s')"
    then show "a \<in> insert d (dom (heap s))" using live [of a] hf [of a] by (cases "a = d"; cases "a = hp \<or> a \<in> set (addrs xs)") auto
  qed
  have "card (dom (heap s')) \<le> Suc (card (dom (heap s)))"
    by (rule order_trans [OF card_mono [OF _ sub'] card_insert_Suc]) simp
  then show "adds (Suc 0) s s'"
    using card_insert_Suc [of "(ii, i)" "used_cells (os_res_pool s)"] by (simp add: adds_def pool' used_cells_mark [OF pok cell(2,3)])
qed

text \<open>
  What inserting an item promises: ERROR, when memory or ids run out, changes no list and no block of
  a client; otherwise the item is at the end of its list, with the first free id of the pool.
\<close>

definition out_of_ids :: "string \<Rightarrow> os_state \<Rightarrow> bool" where
  "out_of_ids nm s \<longleftrightarrow>
     (\<forall>ii. pool_find nm (os_res_pool s) 0 = Some ii \<longrightarrow> (\<forall>i < OS_MAX_RES. (ii, i) \<in> used_cells (os_res_pool s)))"

definition first_free_id :: "string \<Rightarrow> os_state \<Rightarrow> u32 \<Rightarrow> bool" where
  "first_free_id nm s r \<longleftrightarrow>
     (\<exists>ii i. pool_find nm (os_res_pool s) 0 = Some ii \<and> i < OS_MAX_RES \<and> (ii, i) \<notin> used_cells (os_res_pool s)
        \<and> (\<forall>j < i. (ii, j) \<in> used_cells (os_res_pool s)) \<and> r = cell_id (os_res_pool s) (ii, i))"

text \<open>No room for an object, or no entry of the list for it.\<close>

definition short :: "os_env \<Rightarrow> ctype \<Rightarrow> string \<Rightarrow> os_state \<Rightarrow> bool" where
  "short E t nm s \<longleftrightarrow> no_room E t s \<or> out_of_ids nm s
     \<or> (\<exists>p x. heap s p = None \<and> no_room E T_OS_LIST_DATA (hput p x (tick s)))"

text \<open>Room for \<open>n\<close> more blocks and ids.\<close>

definition roomy :: "os_env \<Rightarrow> nat \<Rightarrow> os_state \<Rightarrow> bool" where
  "roomy E n s \<longleftrightarrow> (\<forall>k r t h. card (dom h) < card (dom (heap s)) + n \<longrightarrow> e_region_alloc E k r (ucast (e_sizeof E t)) h \<noteq> 0)
     \<and> card (used_cells (os_res_pool s)) + n \<le> OS_MAX_RES \<and> map rp_name (os_res_pool s) = map rp_name os_res_pool_table"

lemma roomy_adds: "roomy E n s \<Longrightarrow> adds k s s' \<Longrightarrow> k \<le> n \<Longrightarrow> roomy E (n - k) s'"
  by (fastforce simp: roomy_def adds_def)

lemma roomy_less: "roomy E n s \<Longrightarrow> k \<le> n \<Longrightarrow> roomy E k s"
  by (fastforce simp: roomy_def)

lemma roomy_room: "roomy E n s \<Longrightarrow> 0 < n \<Longrightarrow> \<not> no_room E t s"
  by (simp add: roomy_def no_room_def)

lemma roomy_ids:
  assumes r: "roomy E n s" and n: "0 < n" and nm: "pool_find nm os_res_pool_table 0 = Some ii"
  shows "\<not> out_of_ids nm s"
proof
  assume "out_of_ids nm s"
  moreover have "pool_find nm (os_res_pool s) 0 = Some ii" using pool_find_names [of "os_res_pool s" os_res_pool_table nm 0] r nm by (simp add: roomy_def)
  ultimately have "Pair ii ` {..<OS_MAX_RES} \<subseteq> used_cells (os_res_pool s)" by (auto simp: out_of_ids_def)
  then have "card (Pair ii ` {..<OS_MAX_RES}) \<le> card (used_cells (os_res_pool s))"
    by (rule card_mono [rotated]) (rule finite_subset [OF used_cells_bound], simp)
  then have "OS_MAX_RES \<le> card (used_cells (os_res_pool s))" by (simp add: card_image inj_on_def)
  then show False using r n by (simp add: roomy_def)
qed

lemma roomy_not_short:
  assumes "roomy E n s" and "2 \<le> n" and "pool_find nm os_res_pool_table 0 = Some ii"
  shows "\<not> short E t nm s"
proof -
  have "adds (Suc 0) s (hput p x (tick s))" for p x by (rule adds_one [of _ p]) auto
  then have "roomy E (n - 1) (hput p x (tick s))" for p x using roomy_adds [OF assms(1)] assms(2) by fastforce
  then show ?thesis
    using roomy_room [OF assms(1)] roomy_ids [OF assms(1) _ assms(3)] roomy_room [of E "n - 1"] assms(2) by (auto simp: short_def)
qed

lemma os_list_item_insert_hash_cases:
  assumes E: "env_ok E" and ok: "kit_ok s M" and Mh: "M hp = Some (nm, xs)"
  obtains (failed) s' where "os_list_item_insert_hash E hp key data s = Ret (ERROR, s')"
      "kit_ok s' M" "keeps s s'" "no_room E T_OS_LIST_DATA s \<or> out_of_ids nm s"
  | (inserted) d r s' where "os_list_item_insert_hash E hp key data s = Ret (r, s')"
      "r \<noteq> 0" "d \<noteq> 0" "heap s d = None" "r \<notin> all_ids (os_res_pool s)" "first_free_id nm s r"
      "kit_ok s' (M(hp \<mapsto> (nm, xs @ [(d, r, key, data)])))" "keeps s s'"
      "heap s' d = Some (DataObj (node (r, key, data) 0 (prv 0 xs)))" "adds (Suc 0) s s'"
      "calls s' = Suc (calls s)"
proof (rule os_mem_alloc_cases [OF E kit_ok_mem [OF ok] sizes_ok_pos [OF E, of T_OS_LIST_DATA]])
  assume "os_mem_alloc E (e_sizeof E T_OS_LIST_DATA) s = Ret (0, tick s)"
  then show ?thesis using ok os_mem_alloc_no_room [OF kit_ok_mem [OF ok]]
    by (intro failed [of "tick s"]) (simp_all add: os_list_item_insert_hash_def)
next
  fix d assume block: "d \<noteq> 0" "heap s d = None" "os_mem_alloc E (e_sizeof E T_OS_LIST_DATA) s =
      Ret (d, hput d (Zeroed (ucast (e_sizeof E T_OS_LIST_DATA))) (tick s))"
  let ?t = "hput d (DataObj (node (0, key, data) 0 0)) (tick s)"
  have ok': "kit_ok ?t M" using ok block by (intro kit_ok_hput) simp_all
  note at = kit_okD(3) [OF ok' Mh] and pok = kit_okD(2) [OF ok' Mh]
  have dx: "d \<notin> set (addrs xs)" using list_at_addr(3) [OF kit_okD(3) [OF ok Mh], of d] block by auto
  have ins: "os_list_item_insert_hash E hp key data s = list_item_insert hp d ?t"
    using block by (simp add: os_list_item_insert_hash_def node_def)
  have dd: "heap ?t d = Some (DataObj (node (0, key, data) 0 0))" by simp
  show ?thesis
  proof (rule list_item_insert_cases [OF pok at block(1) dd dx], goal_cases exhausted inserted)
    case exhausted
    then have "out_of_ids nm s" by (simp add: out_of_ids_def)
    with exhausted show ?thesis
      using ins ok' block keeps_hput_free [of s "tick s"] by (intro failed [of ?t]) simp_all
  next
    case (inserted ii i s')
    note c = inserted [simplified]
    note linked = kit_ok_linked [OF ok Mh c(1-4) block(1,2) _ _ c(7) refl, of key data, simplified]
    have "seg (heap s') 0 (xs @ [(d, cell_id (os_res_pool s) (ii, i), key, data)]) 0"
      using c(7) by (simp add: linked_def)
    then have nd: "heap s' d = Some (DataObj (node (cell_id (os_res_pool s) (ii, i), key, data) 0 (prv 0 xs)))"
      by (simp add: seg_append)
    show ?thesis
    proof (rule that(2))
      show "os_list_item_insert_hash E hp key data s = Ret (cell_id (os_res_pool s) (ii, i), s')"
        using c(6) ins by simp
      show "cell_id (os_res_pool s) (ii, i) \<noteq> 0"
        using id_nonzero [OF kit_ok_pools [OF ok] c(2,3)] by (simp add: cell_id_def)
      show "cell_id (os_res_pool s) (ii, i) \<notin> all_ids (os_res_pool s)"
        by (rule cell_id_fresh [OF kit_ok_pools [OF ok] c(2-4)])
      show "first_free_id nm s (cell_id (os_res_pool s) (ii, i))"
        using c(1,3-5) by (auto simp: first_free_id_def)
      show "calls s' = Suc (calls s)" using c(7) by (simp add: linked_def)
    qed (use block linked nd in simp_all)
  qed
qed

lemma os_list_item_insert_hash: "os_list_item_insert E hp data = os_list_item_insert_hash E hp OS_LIST_NO_KEY data"
  by (simp add: os_list_item_insert_def os_list_item_insert_hash_def fun_eq_iff)

lemmas os_list_item_insert_cases [consumes 3, case_names failed inserted] =
  os_list_item_insert_hash_cases [where key = OS_LIST_NO_KEY, folded os_list_item_insert_hash]

section \<open>Removal\<close>

text \<open>The last part of both removing functions: the id and the node are given back.\<close>

lemma unlink_tail:
  assumes pok: "pools_ok (os_res_pool s)" and mem: "mem_ok s" and hp: "hp \<noteq> 0" "hp \<noteq> t" "t \<noteq> 0"
    and h: "heap s hp = Some (ListObj ((list_rec nm True xs)\<lparr>ol_data := nxt xs' 0\<rparr>))"
    and len: "length xs = Suc (length xs')" and t: "heap s t = Some x"
    and r: "r \<in> ids_used nm (os_res_pool s)"
  obtains ii i where "ii < length (os_res_pool s)" "i < OS_MAX_RES" "r = cell_id (os_res_pool s) (ii, i)"
    "obind (os_res_id_free hp r s) (\<lambda>(r, s).
     obind (os_mem_free t s) (\<lambda>(r, s).
     obind (upd_list hp (\<lambda>l. l\<lparr>ol_counter := ol_counter l - 1\<rparr>) s) (\<lambda>s.
     obind (list_unlock hp s) (\<lambda>s. Ret (v, s))))) =
     Ret (v, hput hp (ListObj (list_rec nm False xs'))
       (hdel t (s\<lparr>os_res_pool := unmark ii i (os_res_pool s)\<rparr>)))"
proof -
  have ld: "load the_list hp s = Ret ((list_rec nm True xs)\<lparr>ol_data := nxt xs' 0\<rparr>)"
    using h hp by (simp add: load_def)
  have r': "r \<in> ids_used (ol_name ((list_rec nm True xs)\<lparr>ol_data := nxt xs' 0\<rparr>)) (os_res_pool s)"
    using r by simp
  show ?thesis
  proof (rule os_res_id_free_used [OF pok ld r'], goal_cases freed)
    case (freed ii i)
    let ?s = "s\<lparr>os_res_pool := unmark ii i (os_res_pool s)\<rparr>"
    have "os_mem_free t ?s = Ret (OKAY, hdel t ?s)" using mem hp t by simp
    moreover have "load the_list hp (hdel t ?s) = Ret ((list_rec nm True xs)\<lparr>ol_data := nxt xs' 0\<rparr>)"
      using h hp by (simp add: load_def)
    ultimately show ?thesis
      using freed hp len
      by (intro that [of ii i]) (simp_all add: upd_list_def list_unlock_def list_rec_def)
  qed
qed

definition unlink :: "addr \<Rightarrow> addr \<Rightarrow> OS_LIST_DATA \<Rightarrow> os_state \<Rightarrow> os_state outcome" where
  "unlink h t n s =
     obind (if ld_prev n \<noteq> 0
            then upd_data (ld_prev n) (\<lambda>p. p\<lparr>ld_next := ld_next n\<rparr>) s
            else obind (load the_list h s) (\<lambda>l.
               if ol_data l = t
               then obind (upd_list h (\<lambda>l. l\<lparr>ol_data := ld_next n\<rparr>) s) (\<lambda>s.
                    if ld_next n \<noteq> 0 then upd_data (ld_next n) (\<lambda>p. p\<lparr>ld_prev := 0\<rparr>) s else Ret s)
               else Ret s)) (\<lambda>s.
     if ld_next n \<noteq> 0 then upd_data (ld_next n) (\<lambda>p. p\<lparr>ld_prev := ld_prev n\<rparr>) s else Ret s)"

definition unlinked :: "os_state \<Rightarrow> os_state \<Rightarrow> addr \<Rightarrow> string \<Rightarrow> nodes \<Rightarrow> nodes \<Rightarrow> addr \<Rightarrow> bool" where
  "unlinked s s' hp nm xs xs' t \<longleftrightarrow>
     os_res_pool s' = os_res_pool s \<and> same_statics s s' \<and> calls s' = calls s
     \<and> heap s' hp = Some (ListObj ((list_rec nm True xs)\<lparr>ol_data := nxt xs' 0\<rparr>))
     \<and> seg (heap s') 0 xs' 0 \<and> heap s' t = heap s t
     \<and> (\<forall>a. a \<noteq> hp \<longrightarrow> a \<notin> set (addrs xs) \<longrightarrow> heap s' a = heap s a)"

lemma list_rec_same [simp]: "(list_rec nm lk xs)\<lparr>ol_data := nxt xs 0\<rparr> = list_rec nm lk xs"
  by (simp add: list_rec_def)

lemma unlink_first:
  assumes hp: "hp \<noteq> 0" "heap s hp = Some (ListObj (list_rec nm True ((t, it) # zs)))"
    and sg: "seg (heap s) 0 ((t, it) # zs) 0" and dist: "distinct (addrs ((t, it) # zs))"
  shows "\<exists>s'. unlink hp t (node it (nxt zs 0) 0) s = Ret s' \<and> unlinked s s' hp nm ((t, it) # zs) zs t"
proof (cases zs)
  case Nil
  then show ?thesis using hp sg
    by (auto simp: unlink_def upd_list_def load_def unlinked_def)
next
  case (Cons z zs')
  obtain n nit where z: "z = (n, nit)" by (cases z)
  with Cons hp sg dist have n: "n \<noteq> 0" "n \<noteq> hp" "n \<noteq> t" "t \<noteq> 0" "t \<noteq> hp" "n \<notin> fst ` set zs'" "hp \<notin> fst ` set zs'"
     "heap s n = Some (DataObj (node nit (nxt zs' 0) t))" "seg (heap s) n zs' 0"
    using seg_dom [of "heap s" n zs' 0 hp] by auto
  have "unlink hp t (node it (nxt zs 0) 0) s =
     Ret (hput n (DataObj (node nit (nxt zs' 0) 0))
       (hput hp (ListObj ((list_rec nm True ((t, it) # zs))\<lparr>ol_data := n\<rparr>)) s))"
    using hp n Cons z by (simp add: unlink_def upd_list_def upd_data_def load_def)
  then show ?thesis using hp n Cons z by (auto simp: unlinked_def)
qed

lemma unlink_inner:
  assumes hp: "hp \<noteq> 0" "heap s hp = Some (ListObj (list_rec nm True xs))"
    and xs: "xs = ws @ (p, pit) # (t, it) # zs"
    and sg: "seg (heap s) 0 xs 0" and dist: "distinct (addrs xs)"
  shows "\<exists>s'. unlink hp t (node it (nxt zs 0) p) s = Ret s' \<and> unlinked s s' hp nm xs (ws @ (p, pit) # zs) t"
proof -
  have hx: "hp \<notin> fst ` set xs" using seg_dom [OF sg, of hp] hp by auto
  have p: "p \<noteq> 0" "p \<noteq> hp" "p \<noteq> t" "t \<noteq> 0" "t \<noteq> hp" "p \<notin> fst ` set ws" "t \<notin> fst ` set ws"
      "heap s p = Some (DataObj (node pit t (prv 0 ws)))" "seg (heap s) 0 ws p"
      "seg (heap s) t zs 0" "p \<notin> fst ` set zs" "t \<notin> fst ` set zs"
    using sg hx dist xs by (auto simp: seg_append)
  have nx: "nxt (ws @ (p, pit) # zs) 0 = nxt xs 0" by (simp add: xs)
  show ?thesis
  proof (cases zs)
    case Nil
    have "unlink hp t (node it (nxt zs 0) p) s = Ret (hput p (DataObj (node pit 0 (prv 0 ws))) s)"
      using Nil p by (simp add: unlink_def upd_data_def load_def)
    then show ?thesis using Nil p hp hx by (auto simp: unlinked_def nx seg_append xs)
  next
    case (Cons z zs')
    obtain n nit where z: "z = (n, nit)" by (cases z)
    have n: "n \<noteq> 0" "n \<noteq> hp" "n \<noteq> t" "n \<noteq> p" "n \<notin> fst ` set zs'" "n \<notin> fst ` set ws"
       "heap s n = Some (DataObj (node nit (nxt zs' 0) t))" "seg (heap s) n zs' 0"
      using p(10) hx dist xs Cons z by auto
    have "unlink hp t (node it (nxt zs 0) p) s =
       Ret (hput n (DataObj (node nit (nxt zs' 0) p)) (hput p (DataObj (node pit n (prv 0 ws))) s))"
      using p n Cons z by (simp add: unlink_def upd_data_def load_def)
    then show ?thesis using Cons z n p hp hx by (auto simp: unlinked_def nx seg_append xs)
  qed
qed

lemma unlink_seg:
  assumes hp: "hp \<noteq> 0" "heap s hp = Some (ListObj (list_rec nm True xs))"
    and xs: "xs = ys @ (t, it) # zs" and sg: "seg (heap s) 0 xs 0" and dist: "distinct (addrs xs)"
  shows "\<exists>s'. unlink hp t (node it (nxt zs 0) (prv 0 ys)) s = Ret s' \<and> unlinked s s' hp nm xs (ys @ zs) t"
proof (cases ys rule: rev_cases)
  case Nil
  then show ?thesis using unlink_first [of hp s nm t it zs] assms by simp
next
  case (snoc ws p)
  obtain a pit where "p = (a, pit)" by (cases p)
  with snoc show ?thesis using unlink_inner [OF hp, of ws a pit t it zs] assms by simp
qed

lemma kit_ok_unlinked:
  assumes ok: "kit_ok s M" and Mh: "M hp = Some (nm, xs)" and xs: "xs = ys @ (t, it) # zs"
    and s1: "s1 = hput hp (ListObj (list_rec nm True xs)) s"
    and ul: "unlinked s1 s2 hp nm xs (ys @ zs) t"
    and cell: "ii < length (os_res_pool s)" "i < OS_MAX_RES" "it_id it = cell_id (os_res_pool s) (ii, i)"
    and s': "s' = hput hp (ListObj (list_rec nm False (ys @ zs))) (hdel t (s2\<lparr>os_res_pool := unmark ii i (os_res_pool s2)\<rparr>))"
  shows "kit_ok s' (M(hp \<mapsto> (nm, ys @ zs)))" and "keeps s s'" and "heap s' t = None"
    and "os_res_pool s' = unmark ii i (os_res_pool s)" and "\<And>a. heap s a = None \<Longrightarrow> heap s' a = None"
proof -
  note at = kit_okD(3) [OF ok Mh] and pok = kit_okD(2) [OF ok Mh]
  have th: "t \<noteq> hp" using list_at_addr(1) [OF at] xs by auto
  show "heap s' t = None" using s' th by simp
  show pool: "os_res_pool s' = unmark ii i (os_res_pool s)" using s' ul s1 by (simp add: unlinked_def)
  have stat: "same_statics s s'" using ul s1 s' by (simp add: unlinked_def)
  have hf: "heap s' a = heap s a" if "a \<noteq> hp" "a \<notin> set (addrs xs)" for a
  proof -
    have "heap s2 a = heap s1 a" using ul that unfolding unlinked_def by blast
    moreover have "a \<noteq> t" using that xs by auto
    ultimately show ?thesis using s' s1 that by simp
  qed
  show "heap s' a = None" if none: "heap s a = None" for a
  proof -
    have "a \<noteq> hp" using none at by (auto simp: list_at_def)
    moreover have "a \<notin> set (addrs xs)" using none list_at_addr(3) [OF at, of a] by auto
    ultimately show ?thesis using hf none by simp
  qed
  have d: "distinct (addrs xs)" "distinct (ids xs)" "set (ids xs) \<subseteq> ids_used nm (os_res_pool s)"
    using at by (simp_all add: list_at_def)
  have hx: "hp \<notin> fst ` set xs" using list_at_addr(1) [OF at] by simp
  have used: "ids_used nm' (os_res_pool s') = ids_used nm' (os_res_pool s) - {it_id it}" for nm'
    unfolding pool cell(3) by (rule ids_unmark(2) [OF pok cell(1,2)])
  show "kit_ok s' (M(hp \<mapsto> (nm, ys @ zs)))"
  proof (rule kit_ok_update [OF ok Mh])
    show "mem_ok s'" using same_statics_fields(10) [OF stat] kit_okD(1) [OF ok Mh] by simp
    show "pools_ok (os_res_pool s')" using pools_ok_mark(2) [OF pok cell(1)] pool by simp
    have "seg (heap s2) 0 (ys @ zs) 0" using ul by (simp only: unlinked_def)
    moreover have "t \<notin> fst ` set (ys @ zs)" "hp \<notin> fst ` set (ys @ zs)" using d(1) hx xs by auto
    ultimately have "seg (heap s') 0 (ys @ zs) 0" using s' by simp
    moreover have "set (ids (ys @ zs)) \<subseteq> ids_used nm (os_res_pool s')"
      unfolding used using d(2,3) xs by (simp add: subset_Diff_insert)
    moreover have "heap s' hp = Some (ListObj (list_rec nm False (ys @ zs)))" using s' by simp
    ultimately show "list_at s' hp nm False (ys @ zs)"
      using at d(1,2) xs by (simp add: list_at_def)
    show "heap s' a = Some y" if "a \<noteq> hp" "a \<notin> set (addrs xs)" "heap s a = Some y" for a y
      using hf [OF that(1,2)] that(3) by simp
    show "heap s a = None" if "a \<in> set (addrs (ys @ zs))" "a \<notin> set (addrs xs)" for a
      using that xs by auto
    show "r \<notin> all_ids (os_res_pool s)" if "r \<in> set (ids (ys @ zs))" "r \<notin> set (ids xs)" for r
      using that xs by auto
    show "ids_used nm' (os_res_pool s) - set (ids xs) \<subseteq> ids_used nm' (os_res_pool s')" for nm'
      unfolding used using xs by auto
  qed
  have "heap s' a = Some y" if "heap s a = Some y" "\<not> list_obj y" for a y
  proof -
    have "a \<noteq> hp" using that at by (auto simp: list_at_def)
    moreover have "a \<notin> set (addrs xs)" using that list_at_addr(3) [OF at, of a] by fastforce
    ultimately show ?thesis using hf that by simp
  qed
  with stat show "keeps s s'" by (simp add: keeps_def)
qed

text \<open>
  What removing the item of node \<open>t\<close> promises: the rest of the list in the old order, the node's
  memory and its id free again.
\<close>

definition removed :: "os_state \<Rightarrow> ghost \<Rightarrow> addr \<Rightarrow> string \<Rightarrow> nodes \<Rightarrow> addr \<Rightarrow> item \<Rightarrow> os_state \<Rightarrow> bool" where
  "removed s M hp nm xs' t it s' \<longleftrightarrow>
     kit_ok s' (M(hp \<mapsto> (nm, xs'))) \<and> keeps s s' \<and> heap s' t = None
     \<and> all_ids (os_res_pool s') = all_ids (os_res_pool s) - {it_id it}
     \<and> (\<forall>a. heap s a = None \<longrightarrow> heap s' a = None)"

lemma list_item_delete_removed:
  assumes ok: "kit_ok s M" and Mh: "M hp = Some (nm, xs)" and xs: "xs = ys @ (t, it) # zs"
    and data: "it_data it \<noteq> 0"
  shows "\<exists>s'. list_item_delete hp t s = Ret (OKAY, s') \<and> removed s M hp nm (ys @ zs) t it s'"
proof -
  note at = kit_okD(3) [OF ok Mh] and pok = kit_okD(2) [OF ok Mh]
  let ?s1 = "hput hp (ListObj (list_rec nm True xs)) s" and ?n = "node it (nxt zs 0) (prv 0 ys)"
  from at have hp: "hp \<noteq> 0" "heap s hp = Some (ListObj (list_rec nm False xs))" and sg: "seg (heap s) 0 xs 0"
    and d: "distinct (addrs xs)" by (simp_all add: list_at_def)
  have lock: "list_lock hp s = Ret ?s1" using hp by (simp add: list_lock_def load_def)
  have hx: "hp \<notin> fst ` set xs" using list_at_addr(1) [OF at] by simp
  have t: "t \<noteq> 0" "t \<noteq> hp" "load the_data t s = Ret ?n" "heap s t = Some (DataObj ?n)"
    using sg xs hx by (auto simp: seg_append load_def)
  obtain s2 where s2: "unlink hp t ?n ?s1 = Ret s2" "unlinked ?s1 s2 hp nm xs (ys @ zs) t"
    using unlink_seg [of hp ?s1 nm xs ys t it zs] hp xs sg d hx by auto
  have s2': "heap s2 hp = Some (ListObj ((list_rec nm True xs)\<lparr>ol_data := nxt (ys @ zs) 0\<rparr>))"
    "heap s2 t = Some (DataObj ?n)" "os_res_pool s2 = os_res_pool s" "mem_ok s2"
    using s2(2) t kit_ok_mem [OF ok] same_statics_fields(10) [of ?s1 s2] by (simp_all add: unlinked_def)
  have r: "it_id it \<in> ids_used nm (os_res_pool s2)" using at xs s2'(3) by (auto simp: list_at_def)
  have pok2: "pools_ok (os_res_pool s2)" using pok s2'(3) by simp
  obtain ii i where c: "ii < length (os_res_pool s2)" "i < OS_MAX_RES" "it_id it = cell_id (os_res_pool s2) (ii, i)"
    "obind (os_res_id_free hp (it_id it) s2) (\<lambda>(r, s).
     obind (os_mem_free t s) (\<lambda>(r, s).
     obind (upd_list hp (\<lambda>l. l\<lparr>ol_counter := ol_counter l - 1\<rparr>) s) (\<lambda>s.
     obind (list_unlock hp s) (\<lambda>s. Ret (OKAY, s))))) =
     Ret (OKAY, hput hp (ListObj (list_rec nm False (ys @ zs)))
       (hdel t (s2\<lparr>os_res_pool := unmark ii i (os_res_pool s2)\<rparr>)))"
    by (rule unlink_tail [OF pok2 s2'(4) hp(1) t(2) [symmetric] t(1) s2'(1) _ s2'(2) r])
      (use xs in auto)
  let ?s' = "hput hp (ListObj (list_rec nm False (ys @ zs))) (hdel t (s2\<lparr>os_res_pool := unmark ii i (os_res_pool s2)\<rparr>))"
  have "list_item_delete hp t s = obind (unlink hp t ?n ?s1) (\<lambda>s.
     obind (os_res_id_free hp (it_id it) s) (\<lambda>(r, s).
     obind (os_mem_free t s) (\<lambda>(r, s).
     obind (upd_list hp (\<lambda>l. l\<lparr>ol_counter := ol_counter l - 1\<rparr>) s) (\<lambda>s.
     obind (list_unlock hp s) (\<lambda>s. Ret (OKAY, s))))))"
    using t lock data by (simp add: list_item_delete_def unlink_def obind_assoc)
  then have run: "list_item_delete hp t s = Ret (OKAY, ?s')" using s2(1) c(4) by simp
  note c' = c(1-3) [unfolded s2'(3)]
  note k = kit_ok_unlinked [OF ok Mh xs refl s2(2) c' refl]
  then have "removed s M hp nm (ys @ zs) t it ?s'"
    unfolding removed_def using ids_unmark(1) [OF pok c'(1,2)] c'(3) by simp
  with run show ?thesis by blast
qed

lemma id_notin: "r \<notin> set (ids xs) \<longleftrightarrow> (\<forall>x \<in> set xs. it_id (snd x) \<noteq> r)"
  by (induction xs) auto

lemma find_split:
  assumes "find P xs = Some x"
  obtains ys zs where "xs = ys @ x # zs" "P x" "\<forall>y \<in> set ys. \<not> P y"
proof -
  from assms obtain i where i: "i < length xs" "P (xs ! i)" "x = xs ! i" "\<forall>j<i. \<not> P (xs ! j)"
    by (auto simp: find_Some_iff)
  then have "xs = take i xs @ x # drop (Suc i) xs" by (simp add: id_take_nth_drop)
  moreover have "\<forall>y \<in> set (take i xs). \<not> P y" using i by (auto simp: in_set_conv_nth)
  ultimately show ?thesis using i by (intro that) auto
qed

text \<open>Removal by id: the list without the item of that id, or ERROR and nothing changed.\<close>

lemma os_list_item_delete_present:
  assumes ok: "kit_ok s M" and Mh: "M hp = Some (nm, xs)" and x: "(t, it) \<in> set xs"
    and data: "it_data it \<noteq> 0"
  shows "\<exists>s'. os_list_item_delete hp (it_id it) s = Ret (OKAY, s') \<and>
     removed s M hp nm (filter (\<lambda>x. it_id (snd x) \<noteq> it_id it) xs) t it s'"
proof -
  note at = kit_okD(3) [OF ok Mh]
  from at have sg: "seg (heap s) 0 xs 0" and d: "distinct (ids xs)" by (simp_all add: list_at_def)
  obtain ys zs where xs: "xs = ys @ (t, it) # zs" using x by (meson split_list)
  have ne: "\<forall>y \<in> set (ys @ zs). it_id (snd y) \<noteq> it_id it" proof -
    have "it_id it \<notin> set (ids (ys @ zs))" using d xs by simp
    then show ?thesis by (simp only: id_notin)
  qed
  have "find (\<lambda>x. it_id (snd x) = it_id it) (ys @ (t, it) # zs) = Some (t, it)"
    using ne by (induction ys) auto
  then have seek: "list_seek (\<lambda>n. ld_resid n = it_id it) (nxt xs 0) s = Ret t"
    using list_seek_seg [OF sg, of "\<lambda>n. ld_resid n = it_id it"] xs by simp
  have "nxt xs 0 \<noteq> 0" using seg_nxt_null [OF sg] xs by simp
  with seek have "os_list_item_delete hp (it_id it) s = list_item_delete hp t s"
    by (simp add: os_list_item_delete_def load_head [OF at])
  moreover have "filter (\<lambda>x. it_id (snd x) \<noteq> it_id it) xs = ys @ zs" using ne xs by simp
  ultimately show ?thesis using list_item_delete_removed [OF ok Mh xs data] by simp
qed

lemma os_list_item_delete_absent:
  assumes ok: "kit_ok s M" and Mh: "M hp = Some (nm, xs)" and r: "r \<notin> set (ids xs)"
  shows "os_list_item_delete hp r s = Ret (ERROR, s)"
proof -
  note at = kit_okD(3) [OF ok Mh]
  from at have sg: "seg (heap s) 0 xs 0" by (simp add: list_at_def)
  have "find (\<lambda>x. it_id (snd x) = r) xs = None" using r by (simp only: id_notin find_None_iff) blast
  then have "list_seek (\<lambda>n. ld_resid n = r) (nxt xs 0) s = Ret 0"
    using list_seek_seg [OF sg, of "\<lambda>n. ld_resid n = r"] by simp
  then show ?thesis by (simp add: os_list_item_delete_def load_head [OF at] list_item_delete_def)
qed

text \<open>Removal by key takes the first item with the key.\<close>

lemma os_list_item_deletebykey_first:
  assumes ok: "kit_ok s M" and Mh: "M hp = Some (nm, xs)" and xs: "xs = ys @ (t, it) # zs"
    and key: "\<forall>y \<in> set ys. it_key (snd y) \<noteq> it_key it" and data: "it_data it \<noteq> 0"
  shows "\<exists>s'. os_list_item_deletebykey hp (it_key it) s = Ret (OKAY, s') \<and> removed s M hp nm (ys @ zs) t it s'"
proof -
  note at = kit_okD(3) [OF ok Mh]
  from at have sg: "seg (heap s) 0 xs 0" by (simp add: list_at_def)
  have "find (\<lambda>x. it_key (snd x) = it_key it) (ys @ (t, it) # zs) = Some (t, it)"
    using key by (induction ys) auto
  then have "list_seek (\<lambda>n. ld_key n = it_key it) (nxt xs 0) s = Ret t"
    using list_seek_seg [OF sg, of "\<lambda>n. ld_key n = it_key it"] xs by simp
  moreover have "nxt xs 0 \<noteq> 0" using seg_nxt_null [OF sg] xs by simp
  ultimately show ?thesis
    using list_item_delete_removed [OF ok Mh xs data]
    by (simp add: os_list_item_deletebykey_def load_head [OF at])
qed

text \<open>Popping takes the first item and returns its data pointer; an empty list gives NULL.\<close>

lemma os_list_item_pop_first:
  assumes ok: "kit_ok s M" and Mh: "M hp = Some (nm, (t, it) # zs)" and data: "it_data it \<noteq> 0"
  shows "\<exists>s'. os_list_item_pop hp s = Ret (it_data it, s') \<and> removed s M hp nm zs t it s'"
proof -
  let ?xs = "(t, it) # zs"
  note at = kit_okD(3) [OF ok Mh] and pok = kit_okD(2) [OF ok Mh]
  let ?s1 = "hput hp (ListObj (list_rec nm True ?xs)) s" and ?n = "node it (nxt zs 0) 0"
  from at have hp: "hp \<noteq> 0" "heap s hp = Some (ListObj (list_rec nm False ?xs))" and sg: "seg (heap s) 0 ?xs 0"
    and d: "distinct (addrs ?xs)" unfolding list_at_def by blast+
  have lock: "list_lock hp s = Ret ?s1" using hp by (simp add: list_lock_def load_def)
  have hx: "hp \<notin> fst ` set ?xs" using list_at_addr(1) [OF at] by simp
  have t: "t \<noteq> 0" "t \<noteq> hp" "load the_data t s = Ret ?n" "heap s t = Some (DataObj ?n)"
    using sg hx by (auto simp: load_def)
  have ex: "\<exists>s2. unlink hp t ?n ?s1 = Ret s2 \<and> unlinked ?s1 s2 hp nm ?xs zs t"
    by (rule unlink_first) (use hp sg d hx in \<open>auto simp: seg_upd\<close>)
  then obtain s2 where s2: "unlink hp t ?n ?s1 = Ret s2" "unlinked ?s1 s2 hp nm ?xs zs t" by blast
  have s2': "heap s2 hp = Some (ListObj ((list_rec nm True ?xs)\<lparr>ol_data := nxt zs 0\<rparr>))"
    "heap s2 t = Some (DataObj ?n)" "os_res_pool s2 = os_res_pool s" "mem_ok s2"
    using s2(2) t kit_ok_mem [OF ok] same_statics_fields(10) [of ?s1 s2] by (simp_all add: unlinked_def)
  have r: "it_id it \<in> ids_used nm (os_res_pool s2)" using at s2'(3) by (auto simp: list_at_def)
  have pok2: "pools_ok (os_res_pool s2)" using pok s2'(3) by simp
  obtain ii i where c: "ii < length (os_res_pool s2)" "i < OS_MAX_RES" "it_id it = cell_id (os_res_pool s2) (ii, i)"
    "obind (os_res_id_free hp (it_id it) s2) (\<lambda>(r, s).
     obind (os_mem_free t s) (\<lambda>(r, s).
     obind (upd_list hp (\<lambda>l. l\<lparr>ol_counter := ol_counter l - 1\<rparr>) s) (\<lambda>s.
     obind (list_unlock hp s) (\<lambda>s. Ret (it_data it, s))))) =
     Ret (it_data it, hput hp (ListObj (list_rec nm False zs))
       (hdel t (s2\<lparr>os_res_pool := unmark ii i (os_res_pool s2)\<rparr>)))"
    by (rule unlink_tail [OF pok2 s2'(4) hp(1) t(2) [symmetric] t(1) s2'(1) _ s2'(2) r]) auto
  let ?s' = "hput hp (ListObj (list_rec nm False zs)) (hdel t (s2\<lparr>os_res_pool := unmark ii i (os_res_pool s2)\<rparr>))"
  have un: "unlink hp t ?n ?s1 = obind (upd_list hp (\<lambda>l. l\<lparr>ol_data := nxt zs 0\<rparr>) ?s1) (\<lambda>s.
     if nxt zs 0 \<noteq> 0 then upd_data (nxt zs 0) (\<lambda>p. p\<lparr>ld_prev := 0\<rparr>) s else Ret s)"
    using hp hx sg by (auto simp: unlink_def upd_list_def upd_data_def load_def obind_assoc neq_Nil_conv nxt_def split: list.splits)
  have "os_list_item_pop hp s = obind (unlink hp t ?n ?s1) (\<lambda>s.
     obind (os_res_id_free hp (it_id it) s) (\<lambda>(r, s).
     obind (os_mem_free t s) (\<lambda>(r, s).
     obind (upd_list hp (\<lambda>l. l\<lparr>ol_counter := ol_counter l - 1\<rparr>) s) (\<lambda>s.
     obind (list_unlock hp s) (\<lambda>s. Ret (it_data it, s))))))"
    unfolding un using t lock data
    by (cases "nxt zs 0 = 0") (simp_all add: os_list_item_pop_def load_head [OF at] obind_assoc)
  then have run: "os_list_item_pop hp s = Ret (it_data it, ?s')" using s2(1) c(4) by simp
  note c' = c(1-3) [unfolded s2'(3)]
  have xs: "?xs = [] @ (t, it) # zs" by simp
  have ul: "unlinked ?s1 s2 hp nm ?xs ([] @ zs) t" using s2(2) by simp
  note k = kit_ok_unlinked [OF ok Mh xs refl ul c' refl]
  then have "removed s M hp nm zs t it ?s'"
    unfolding removed_def using ids_unmark(1) [OF pok c'(1,2)] c'(3) by simp
  with run show ?thesis by blast
qed

lemma os_list_item_pop_empty:
  "kit_ok s M \<Longrightarrow> M hp = Some (nm, []) \<Longrightarrow> os_list_item_pop hp s = Ret (0, s)"
  using load_head [OF kit_okD(3)] by (fastforce simp: os_list_item_pop_def)

section \<open>Ordered insertion\<close>

abbreviation key_le :: "u64 \<Rightarrow> addr \<times> item \<Rightarrow> bool" where
  "key_le key x \<equiv> sint (it_key (snd x)) \<le> sint key"

lemma order_walk_seg:
  assumes "seg (heap s) pv (x # xs) 0" and "unat k + length xs \<le> unat cnt"
  shows "order_walk s key cnt k (fst x) = Ret (fst (last (x # takeWhile (key_le key) xs)))"
  using assms
proof (induction xs arbitrary: x pv k)
  case Nil
  then show ?case by (cases x) (simp add: order_walk.simps load_def)
next
  case (Cons y ys)
  obtain a it where x: "x = (a, it)" by (cases x)
  obtain b jt where y: "y = (b, jt)" by (cases y)
  have ld: "load the_data a s = Ret (node it b pv)" "b \<noteq> 0" "load the_data b s = Ret (node jt (nxt ys 0) a)"
    using Cons.prems(1) x y by (auto simp: load_def)
  have k: "k < cnt" using Cons.prems(2) by (simp add: word_less_nat_alt)
  have "order_walk s key cnt (k + 1) (fst y) = Ret (fst (last (y # takeWhile (key_le key) ys)))"
  proof (rule Cons.IH)
    show "seg (heap s) a (y # ys) 0" using Cons.prems(1) x by simp
    show "unat (k + 1) + length ys \<le> unat cnt" using Cons.prems(2) word_Suc_less [OF k] by simp
  qed
  then show ?case
    using ld k x y by (simp add: order_walk.simps [of s key cnt k a])
qed

text \<open>The pointer assignments of the three places an item can go to.\<close>

definition order_link :: "addr \<Rightarrow> addr \<Rightarrow> u64 \<Rightarrow> OS_LIST \<Rightarrow> os_state \<Rightarrow> os_state outcome" where
  "order_link h d key l s =
     (if ol_counter l = 0 then upd_list h (\<lambda>l. l\<lparr>ol_data := d\<rparr>) s
      else obind (load the_data (ol_data l) s) (\<lambda>n.
        if sint key < sint (ld_key n)
        then obind (upd_data d (\<lambda>n. n\<lparr>ld_next := ol_data l\<rparr>) s) (\<lambda>s.
             obind (upd_data (ol_data l) (\<lambda>n. n\<lparr>ld_prev := d\<rparr>) s) (\<lambda>s.
             upd_list h (\<lambda>l. l\<lparr>ol_data := d\<rparr>) s))
        else obind (order_walk s key (ol_counter l) 0 (ol_data l)) (\<lambda>t.
             obind (load the_data t s) (\<lambda>tn.
             obind (upd_data d (\<lambda>n. n\<lparr>ld_next := ld_next tn\<rparr>) s) (\<lambda>s.
             obind (if ld_next tn \<noteq> 0
                    then upd_data (ld_next tn) (\<lambda>n. n\<lparr>ld_prev := d\<rparr>) s else Ret s) (\<lambda>s.
             obind (upd_data t (\<lambda>n. n\<lparr>ld_next := d\<rparr>) s) (\<lambda>s.
             upd_data d (\<lambda>n. n\<lparr>ld_prev := t\<rparr>) s)))))))"

definition order_linked ::
    "os_state \<Rightarrow> os_state \<Rightarrow> addr \<Rightarrow> string \<Rightarrow> nodes \<Rightarrow> nodes \<Rightarrow> addr \<Rightarrow> item \<Rightarrow> nodes \<Rightarrow> bool" where
  "order_linked s s' hp nm xs ys d it zs \<longleftrightarrow>
     os_res_pool s' = os_res_pool s \<and> same_statics s s' \<and> calls s' = calls s
     \<and> heap s' hp = Some (ListObj ((list_rec nm True xs)\<lparr>ol_data := nxt (ys @ (d, it) # zs) 0\<rparr>))
     \<and> seg (heap s') 0 (ys @ (d, it) # zs) 0
     \<and> (\<forall>a. a \<noteq> hp \<longrightarrow> a \<noteq> d \<longrightarrow> a \<notin> set (addrs xs) \<longrightarrow> heap s' a = heap s a)"

lemma order_link_front:
  assumes hp: "hp \<noteq> 0" "heap s hp = Some (ListObj (list_rec nm True xs))"
    and sg: "seg (heap s) 0 xs 0" and dist: "distinct (addrs xs)"
    and d: "d \<noteq> 0" "heap s d = Some (DataObj (node it 0 0))" "d \<notin> set (addrs xs)"
    and cnt: "unat (of_nat (length xs) :: u32) = length xs"
    and key: "takeWhile (key_le (it_key it)) xs = []"
  shows "\<exists>s'. order_link hp d (it_key it) (list_rec nm True xs) s = Ret s' \<and> order_linked s s' hp nm xs [] d it xs"
proof (cases xs)
  case Nil
  then show ?thesis using hp d
    by (auto simp: order_link_def upd_list_def load_def order_linked_def)
next
  case (Cons z zs)
  obtain n nit where z: "z = (n, nit)" by (cases z)
  have hx: "hp \<notin> fst ` set xs" using seg_dom [OF sg, of hp] hp by auto
  have c0: "(of_nat (length xs) :: u32) \<noteq> 0" using cnt Cons by auto
  have hd: "hp \<noteq> d" using hp d by auto
  have n: "n \<noteq> 0" "n \<noteq> hp" "n \<noteq> d" "n \<notin> fst ` set zs" "d \<notin> fst ` set zs" "hp \<notin> fst ` set zs"
     "heap s n = Some (DataObj (node nit (nxt zs 0) 0))" "seg (heap s) n zs 0"
     "sint (it_key it) < sint (it_key nit)"
    using sg Cons z hx d dist key by (auto split: if_splits)
  have "order_link hp d (it_key it) (list_rec nm True xs) s =
     Ret (hput hp (ListObj ((list_rec nm True xs)\<lparr>ol_data := d\<rparr>))
        (hput n (DataObj (node nit (nxt zs 0) d)) (hput d (DataObj (node it n 0)) s)))"
    using hp hd n d c0 Cons z by (simp add: order_link_def upd_list_def upd_data_def load_def)
  then show ?thesis using hp hd n d Cons z by (auto simp: order_linked_def)
qed

lemma order_link_after:
  assumes hp: "hp \<noteq> 0" "heap s hp = Some (ListObj (list_rec nm True xs))"
    and sg: "seg (heap s) 0 xs 0" and dist: "distinct (addrs xs)"
    and d: "d \<noteq> 0" "heap s d = Some (DataObj (node it 0 0))" "d \<notin> set (addrs xs)"
    and cnt: "unat (of_nat (length xs) :: u32) = length xs"
    and key: "takeWhile (key_le (it_key it)) xs = ys @ [(t, tit)]" and zs: "dropWhile (key_le (it_key it)) xs = zs"
  shows "\<exists>s'. order_link hp d (it_key it) (list_rec nm True xs) s = Ret s'
      \<and> order_linked s s' hp nm xs (ys @ [(t, tit)]) d it zs"
proof -
  have xs: "xs = ys @ (t, tit) # zs" using takeWhile_dropWhile_id [of "key_le (it_key it)" xs] key zs by simp
  obtain x xs2 where xc: "xs = x # xs2" using xs by (cases xs; blast)
  obtain a ait where x: "x = (a, ait)" by (cases x)
  have hx: "hp \<notin> fst ` set xs" using seg_dom [OF sg, of hp] hp by auto
  have c0: "(of_nat (length xs) :: u32) \<noteq> 0" using cnt xc by auto
  have hd: "hp \<noteq> d" using hp d by auto
  have le: "\<not> sint (it_key it) < sint (it_key ait)" using key xc x by (auto split: if_splits)
  have lda: "load the_data a s = Ret (node ait (nxt xs2 0) 0)" using sg xc x by (auto simp: load_def)
  have "order_walk s (it_key it) (of_nat (length xs)) 0 (fst x) = Ret (fst (last (x # takeWhile (key_le (it_key it)) xs2)))"
    by (rule order_walk_seg [where pv = 0]) (use sg xc cnt in auto)
  moreover have "x # takeWhile (key_le (it_key it)) xs2 = ys @ [(t, tit)]"
    using key xc le x by (simp split: if_splits)
  ultimately have walk: "order_walk s (it_key it) (of_nat (length xs)) 0 a = Ret t"
    using x by (metis fst_conv last_snoc)
  have t: "t \<noteq> 0" "t \<noteq> hp" "t \<noteq> d" "heap s t = Some (DataObj (node tit (nxt zs 0) (prv 0 ys)))"
      "t \<notin> fst ` set ys" "t \<notin> fst ` set zs" "seg (heap s) 0 ys t" "seg (heap s) t zs 0"
    using sg xs hx d dist by (auto simp: seg_append)
  have dy: "d \<notin> fst ` set ys" "d \<notin> fst ` set zs" using d(3) xs by auto
  have nx: "nxt ((ys @ [(t, tit)]) @ (d, it) # zs) 0 = nxt xs 0" by (simp add: xs)
  show ?thesis
  proof (cases zs)
    case Nil
    have "order_link hp d (it_key it) (list_rec nm True xs) s =
       Ret (hput d (DataObj (node it 0 t)) (hput t (DataObj (node tit d (prv 0 ys))) s))"
      using hp hd t d c0 le lda walk xc x Nil
      by (simp add: order_link_def upd_data_def load_def hput_commute [of t d])
    then show ?thesis using hp hd t d hx dy Nil by (auto simp: order_linked_def nx seg_append xs)
  next
    case (Cons z zs')
    obtain n nit where z: "z = (n, nit)" by (cases z)
    have n: "n \<noteq> 0" "n \<noteq> hp" "n \<noteq> t" "n \<noteq> d" "n \<notin> fst ` set zs'" "n \<notin> fst ` set ys"
       "heap s n = Some (DataObj (node nit (nxt zs' 0) t))" "seg (heap s) n zs' 0"
      using t(8) hx dist xs Cons z d by auto
    have "order_link hp d (it_key it) (list_rec nm True xs) s =
       Ret (hput d (DataObj (node it n t)) (hput t (DataObj (node tit d (prv 0 ys)))
         (hput n (DataObj (node nit (nxt zs' 0) d)) s)))"
      using hp hd t d n c0 le lda walk xc x Cons z
      by (simp add: order_link_def upd_data_def load_def hput_commute [of t d] hput_commute [of n d])
    then show ?thesis using hp hd t d n hx dy Cons z by (auto simp: order_linked_def nx seg_append xs)
  qed
qed

lemma order_link_seg:
  assumes hp: "hp \<noteq> 0" "heap s hp = Some (ListObj (list_rec nm True xs))"
    and sg: "seg (heap s) 0 xs 0" and dist: "distinct (addrs xs)"
    and d: "d \<noteq> 0" "heap s d = Some (DataObj (node it 0 0))" "d \<notin> set (addrs xs)"
    and cnt: "unat (of_nat (length xs) :: u32) = length xs"
  shows "\<exists>s'. order_link hp d (it_key it) (list_rec nm True xs) s = Ret s'
      \<and> order_linked s s' hp nm xs (takeWhile (key_le (it_key it)) xs) d it (dropWhile (key_le (it_key it)) xs)"
proof (cases "takeWhile (key_le (it_key it)) xs" rule: rev_cases)
  case Nil
  then have "dropWhile (key_le (it_key it)) xs = xs" by (cases xs) (auto split: if_splits)
  with order_link_front [OF assms Nil] Nil show ?thesis by simp
next
  case (snoc ys x)
  obtain t tit where "x = (t, tit)" by (cases x)
  with order_link_after [OF assms, of ys t tit] snoc show ?thesis by simp
qed

definition order_xs :: "nodes \<Rightarrow> addr \<Rightarrow> u32 \<Rightarrow> u64 \<Rightarrow> addr \<Rightarrow> nodes" where
  "order_xs xs d r key data = takeWhile (key_le key) xs @ (d, r, key, data) # dropWhile (key_le key) xs"

lemma set_order_xs: "set (order_xs xs d r key data) = insert (d, r, key, data) (set xs)"
proof -
  have "set (takeWhile (key_le key) xs) \<union> set (dropWhile (key_le key) xs) = set xs"
    by (metis set_append takeWhile_dropWhile_id)
  then show ?thesis by (simp add: order_xs_def)
qed

lemma length_order_xs: "length (order_xs xs d r key data) = Suc (length xs)"
proof -
  have "length (takeWhile (key_le key) xs) + length (dropWhile (key_le key) xs) = length xs"
    by (metis length_append takeWhile_dropWhile_id)
  then show ?thesis by (simp add: order_xs_def)
qed

lemma order_xs_sorted:
  assumes "sorted (map (\<lambda>x. sint (it_key (snd x))) xs)"
  shows "sorted (map (\<lambda>x. sint (it_key (snd x))) (order_xs xs d r key data))"
proof -
  let ?k = "\<lambda>x :: addr \<times> item. sint (it_key (snd x))"
  have a: "\<forall>x \<in> set (takeWhile (key_le key) xs). ?k x \<le> sint key"
    using set_takeWhileD by fastforce
  have b: "\<forall>x \<in> set (dropWhile (key_le key) xs). sint key < ?k x"
    using assms
  proof (induction xs)
    case (Cons x xs)
    then show ?case by (cases "key_le key x") auto
  qed simp
  have ab: "?k x \<le> ?k y" if "x \<in> set (takeWhile (key_le key) xs)" "y \<in> set (dropWhile (key_le key) xs)" for x y
    using a b that by (meson less_imp_le order_trans)
  have "sorted (map ?k (takeWhile (key_le key) xs @ dropWhile (key_le key) xs))" using assms by simp
  then have "sorted (map ?k (takeWhile (key_le key) xs))" "sorted (map ?k (dropWhile (key_le key) xs))"
    by (simp_all only: map_append sorted_append)
  with a b ab show ?thesis by (simp add: order_xs_def sorted_append less_imp_le)
qed

lemma order_linked_final:
  assumes ol: "order_linked s s2 hp nm xs ys d (0, key, data) zs" and len: "length xs = length ys + length zs"
    and dist: "d \<notin> set (addrs (ys @ zs))" "hp \<notin> set (addrs (ys @ zs))" and hd: "hp \<noteq> d" "hp \<noteq> 0"
    and s: "s = (hput hp (ListObj (list_rec nm True xs)) s0)\<lparr>os_res_pool := mark ii i (os_res_pool s0)\<rparr>"
  shows "\<exists>s'. obind (upd_data d (\<lambda>n. n\<lparr>ld_resid := r\<rparr>) s2) (\<lambda>s.
     obind (upd_list hp (\<lambda>l. l\<lparr>ol_counter := ol_counter l + 1\<rparr>) s) (\<lambda>s.
     obind (list_unlock hp s) (\<lambda>s. Ret (r, s)))) = Ret (r, s')
     \<and> linked s0 s' hp nm xs (ys @ (d, r, key, data) # zs) d ii i"
proof -
  let ?xs' = "ys @ (d, r, key, data) # zs"
  from ol have sg: "seg (heap s2) 0 (ys @ (d, 0, key, data) # zs) 0" by (simp only: order_linked_def)
  then have dn: "d \<noteq> 0" "heap s2 d = Some (DataObj (node (0, key, data) (nxt zs 0) (prv 0 ys)))"
    by (simp_all add: seg_append)
  have hh: "heap s2 hp = Some (ListObj ((list_rec nm True xs)\<lparr>ol_data := nxt ?xs' 0\<rparr>))"
    using ol by (simp add: order_linked_def)
  let ?s' = "hput hp (ListObj (list_rec nm False ?xs')) (hput d (DataObj (node (r, key, data) (nxt zs 0) (prv 0 ys)))
     s2)"
  have "seg (heap ?s') 0 ?xs' 0" using sg dn dist hd by (simp add: seg_append)
  then have "linked s0 ?s' hp nm xs ?xs' d ii i"
    using ol s by (auto simp: linked_def order_linked_def)
  moreover have "obind (upd_data d (\<lambda>n. n\<lparr>ld_resid := r\<rparr>) s2) (\<lambda>s.
     obind (upd_list hp (\<lambda>l. l\<lparr>ol_counter := ol_counter l + 1\<rparr>) s) (\<lambda>s.
     obind (list_unlock hp s) (\<lambda>s. Ret (r, s)))) = Ret (r, ?s')"
    using hh dn hd len by (simp add: upd_data_def upd_list_def list_unlock_def load_def list_rec_def ac_simps)
  ultimately show ?thesis by blast
qed

text \<open>Ordered insertion puts the item behind the items with a key that is not greater.\<close>

lemma os_list_item_insert_order_cases:
  assumes E: "env_ok E" and ok: "kit_ok s M" and Mh: "M hp = Some (nm, xs)"
  obtains (failed) s' where "os_list_item_insert_order E hp key data s = Ret (ERROR, s')"
      "kit_ok s' M" "keeps s s'" "no_room E T_OS_LIST_DATA s \<or> out_of_ids nm s"
  | (inserted) d r s' where "os_list_item_insert_order E hp key data s = Ret (r, s')"
      "r \<noteq> 0" "d \<noteq> 0" "heap s d = None" "r \<notin> all_ids (os_res_pool s)" "first_free_id nm s r"
      "kit_ok s' (M(hp \<mapsto> (nm, order_xs xs d r key data)))" "keeps s s'"
proof (rule os_mem_alloc_cases [OF E kit_ok_mem [OF ok] sizes_ok_pos [OF E, of T_OS_LIST_DATA]])
  assume "os_mem_alloc E (e_sizeof E T_OS_LIST_DATA) s = Ret (0, tick s)"
  then show ?thesis using ok os_mem_alloc_no_room [OF kit_ok_mem [OF ok]]
    by (intro failed [of "tick s"]) (simp_all add: os_list_item_insert_order_def)
next
  fix d assume block: "d \<noteq> 0" "heap s d = None" "os_mem_alloc E (e_sizeof E T_OS_LIST_DATA) s =
      Ret (d, hput d (Zeroed (ucast (e_sizeof E T_OS_LIST_DATA))) (tick s))"
  let ?t = "hput d (DataObj (node (0, key, data) 0 0)) (tick s)"
  let ?t1 = "hput hp (ListObj (list_rec nm True xs)) ?t"
  have ok': "kit_ok ?t M" using ok block by (intro kit_ok_hput) simp_all
  note at = kit_okD(3) [OF ok' Mh] and pok = kit_ok_pools [OF ok]
  from at have hp: "hp \<noteq> 0" "heap ?t hp = Some (ListObj (list_rec nm False xs))"
    and sg: "seg (heap ?t) 0 xs 0" and dist: "distinct (addrs xs)" unfolding list_at_def by blast+
  have hx: "hp \<notin> fst ` set xs" using list_at_addr(1) [OF at] by simp
  have hd: "hp \<noteq> d" using hp by auto
  have dx: "d \<notin> set (addrs xs)" using list_at_addr(3) [OF kit_okD(3) [OF ok Mh], of d] block by auto
  have lock: "list_lock hp ?t = Ret ?t1" using hp by (simp add: list_lock_def load_def)
  have unlock: "list_unlock hp ?t1 = Ret ?t"
    using hp by (simp add: list_unlock_def upd_list_def hput_same)
  have l1: "load the_list hp ?t1 = Ret (list_rec nm True xs)" using hp by simp
  have pok1: "pools_ok (os_res_pool ?t1)" using pok by simp
  have cnt: "unat (of_nat (length xs) :: u32) = length xs"
    by (rule list_counter [OF kit_ok_pools [OF ok'] at])
  show ?thesis
  proof (rule os_res_id_alloc_cases [OF pok1 l1])
    assume ex: "os_res_id_alloc hp ?t1 = Ret (ERROR, ?t1)"
      "\<And>ii i. pool_find (ol_name (list_rec nm True xs)) (os_res_pool ?t1) 0 = Some ii \<Longrightarrow> i < OS_MAX_RES \<Longrightarrow>
         (ii, i) \<in> used_cells (os_res_pool ?t1)"
    then have "out_of_ids nm s" by (simp add: out_of_ids_def)
    with ex(1) show ?thesis using lock unlock ok' block keeps_hput_free [of s "tick s" d]
      by (intro failed [of ?t]) (simp_all add: os_list_item_insert_order_def node_def)
  next
    fix ii i
    assume "pool_find (ol_name (list_rec nm True xs)) (os_res_pool ?t1) 0 = Some ii"
      "ii < length (os_res_pool ?t1)" "i < OS_MAX_RES" "(ii, i) \<notin> used_cells (os_res_pool ?t1)"
      "\<And>j. j < i \<Longrightarrow> (ii, j) \<in> used_cells (os_res_pool ?t1)"
      "os_res_id_alloc hp ?t1 = Ret (cell_id (os_res_pool ?t1) (ii, i), ?t1\<lparr>os_res_pool := mark ii i (os_res_pool ?t1)\<rparr>)"
    note c = this [simplified]
    let ?r = "cell_id (os_res_pool s) (ii, i)"
    let ?t2 = "?t1\<lparr>os_res_pool := mark ii i (os_res_pool ?t)\<rparr>"
    let ?ys = "takeWhile (key_le key) xs" and ?zs = "dropWhile (key_le key) xs"
    have "\<exists>s2. order_link hp d (it_key (0, key, data)) (list_rec nm True xs) ?t2 = Ret s2 \<and>
        order_linked ?t2 s2 hp nm xs (takeWhile (key_le (it_key (0, key, data))) xs) d (0, key, data)
          (dropWhile (key_le (it_key (0, key, data))) xs)"
      by (rule order_link_seg) (use hp hd block dx sg hx dist cnt in simp_all)
    then obtain s2 where s2: "order_link hp d key (list_rec nm True xs) ?t2 = Ret s2"
        "order_linked ?t2 s2 hp nm xs ?ys d (0, key, data) ?zs" by auto
    have xs: "?ys @ ?zs = xs" by (rule takeWhile_dropWhile_id)
    have fin: "\<exists>s'. obind (upd_data d (\<lambda>n. n\<lparr>ld_resid := ?r\<rparr>) s2) (\<lambda>s.
        obind (upd_list hp (\<lambda>l. l\<lparr>ol_counter := ol_counter l + 1\<rparr>) s) (\<lambda>s.
        obind (list_unlock hp s) (\<lambda>s. Ret (?r, s)))) = Ret (?r, s')
        \<and> linked ?t s' hp nm xs (?ys @ (d, ?r, key, data) # ?zs) d ii i"
    proof (rule order_linked_final [OF s2(2) _ _ _ hd hp(1) refl])
      show "length xs = length ?ys + length ?zs" using xs by (metis length_append)
    qed (use hx dx xs in simp_all)
    then obtain s' where s': "obind (upd_data d (\<lambda>n. n\<lparr>ld_resid := ?r\<rparr>) s2) (\<lambda>s.
        obind (upd_list hp (\<lambda>l. l\<lparr>ol_counter := ol_counter l + 1\<rparr>) s) (\<lambda>s.
        obind (list_unlock hp s) (\<lambda>s. Ret (?r, s)))) = Ret (?r, s')"
        "linked ?t s' hp nm xs (order_xs xs d ?r key data) d ii i"
      unfolding order_xs_def by blast
    have r0: "?r \<noteq> 0" using id_nonzero [OF pok c(2,3)] by (simp add: cell_id_def)
    have "os_list_item_insert_order E hp key data s =
        obind (order_link hp d key (list_rec nm True xs) ?t2) (\<lambda>s.
        obind (upd_data d (\<lambda>n. n\<lparr>ld_resid := ?r\<rparr>) s) (\<lambda>s.
        obind (upd_list hp (\<lambda>l. l\<lparr>ol_counter := ol_counter l + 1\<rparr>) s) (\<lambda>s.
        obind (list_unlock hp s) (\<lambda>s. Ret (?r, s)))))"
      using block lock c(6) r0 hp(1)
      by (simp add: os_list_item_insert_order_def order_link_def node_def os_res_id_make_inuse_def
          del: list_rec_sel hput_pool)
    then have run: "os_list_item_insert_order E hp key data s = Ret (?r, s')" using s2(1) s'(1) by simp
    note k = kit_ok_linked [OF ok Mh c(1-4) block(1,2) set_order_xs length_order_xs s'(2) refl]
    have "first_free_id nm s ?r" using c(1,3-5) by (auto simp: first_free_id_def)
    with run r0 k cell_id_fresh [OF pok c(2-4)] block show ?thesis by (intro inserted [of ?r s' d])
  qed
qed

section \<open>Creating, emptying and deleting a list\<close>

lemma os_list_create_cases:
  assumes E: "env_ok E" and ok: "kit_ok s M"
  obtains (failed) "os_list_create E nm s = Ret (0, tick s)" "no_room E T_OS_LIST s"
  | (created) hp s' where "os_list_create E nm s = Ret (hp, s')" "hp \<noteq> 0" "heap s hp = None" "M hp = None"
      "kit_ok s' (M(hp \<mapsto> (take STR_LEN nm, [])))" "keeps s s'" "all_ids (os_res_pool s') = all_ids (os_res_pool s)"
      "adds (Suc 0) s s'"
proof (rule os_mem_alloc_cases [OF E kit_ok_mem [OF ok] sizes_ok_pos [OF E, of T_OS_LIST]])
  assume "os_mem_alloc E (e_sizeof E T_OS_LIST) s = Ret (0, tick s)"
  then show ?thesis using os_mem_alloc_no_room [OF kit_ok_mem [OF ok]] by (intro failed) (simp_all add: os_list_create_def)
next
  fix hp assume block: "hp \<noteq> 0" "heap s hp = None" "os_mem_alloc E (e_sizeof E T_OS_LIST) s =
      Ret (hp, hput hp (Zeroed (ucast (e_sizeof E T_OS_LIST))) (tick s))"
  let ?nm = "take STR_LEN nm"
  let ?s' = "hput hp (ListObj (list_rec ?nm False [])) (tick s)"
  have M: "M hp = None"
  proof (cases "M hp")
    case (Some v)
    then have "list_at s hp (fst v) False (snd v)" using kit_okD(3) [OF ok, of hp "fst v" "snd v"] by simp
    with block show ?thesis by (simp add: list_at_def)
  qed
  have ok': "kit_ok ?s' M" using ok block by (intro kit_ok_hput) simp_all
  have "lists_ok ?s' (M(hp \<mapsto> (?nm, [])))"
    unfolding lists_ok_def
  proof (intro conjI allI impI)
    fix h n x assume "(M(hp \<mapsto> (?nm, []))) h = Some (n, x)"
    then show "list_at ?s' h n False x"
      using kit_okD(3) [OF ok', of h n x] block by (cases "h = hp") (auto simp: list_at_def)
  next
    fix h n x h' n' x'
    assume "(M(hp \<mapsto> (?nm, []))) h = Some (n, x) \<and> (M(hp \<mapsto> (?nm, []))) h' = Some (n', x') \<and> h \<noteq> h'"
    then show "sep x x'" using ok unfolding kit_ok_def lists_ok_def
      by (cases "h = hp"; cases "h' = hp") (simp_all add: sep_def, metis)
  qed
  then have "kit_ok ?s' (M(hp \<mapsto> (?nm, [])))" using ok' by (simp add: kit_ok_def)
  moreover have "os_list_create E nm s = Ret (hp, ?s')"
    using block by (simp add: os_list_create_def list_rec_def strncpy_def)
  moreover have "adds (Suc 0) s ?s'" by (rule adds_one [of _ hp]) auto
  ultimately show ?thesis using block M keeps_hput_free [OF keeps_tick]
    by (intro created [of hp ?s']) simp_all
qed

text \<open>
  A deletion callback that minds its own business: it returns, and it neither changes a list nor the
  id pools nor holds the memory lock.
\<close>

definition list_frame :: "os_state \<Rightarrow> os_state \<Rightarrow> bool" where
  "list_frame s s' \<longleftrightarrow> os_res_pool s' = os_res_pool s \<and> mem_ok s' = mem_ok s
     \<and> (\<forall>a x. list_obj x \<longrightarrow> heap s' a = Some x \<longleftrightarrow> heap s a = Some x)"

definition quiet_call :: "os_env \<Rightarrow> fnptr \<Rightarrow> bool" where
  "quiet_call E f \<longleftrightarrow> f = 0 \<or> (\<forall>data s. mem_ok s \<longrightarrow> (\<exists>r s'. e_call E f data s = Ret (r, s') \<and> list_frame s s'))"

lemma list_frame_load:
  assumes "list_frame s s'" and "load sel a s = Ret v" and "\<And>x. sel x = Some v \<Longrightarrow> list_obj x"
  shows "load sel a s' = Ret v"
  using assms unfolding list_frame_def load_eq_Ret by blast

definition flushed :: "os_state \<Rightarrow> os_state \<Rightarrow> nodes \<Rightarrow> bool" where
  "flushed s s' xs \<longleftrightarrow>
     mem_ok s' \<and> pools_ok (os_res_pool s')
     \<and> (\<forall>nm. ids_used nm (os_res_pool s') = ids_used nm (os_res_pool s) - set (ids xs))
     \<and> all_ids (os_res_pool s') = all_ids (os_res_pool s) - set (ids xs)
     \<and> (\<forall>a x. list_obj x \<longrightarrow> heap s' a = Some x \<longleftrightarrow> heap s a = Some x \<and> a \<notin> set (addrs xs))"

lemma flush_step:
  assumes q: "quiet_call E f" and sg: "seg (heap s) pv ((a, it) # xs) 0" and pok: "pools_ok (os_res_pool s)"
    and mem: "mem_ok s" and l: "load the_list hp s = Ret l" and r: "it_id it \<in> ids_used (ol_name l) (os_res_pool s)"
  shows "\<exists>s'. list_flush_body E hp f (a, s) = Ret (nxt xs 0, s') \<and> flushed s s' [(a, it)]"
proof -
  let ?n = "node it (nxt xs 0) pv"
  have a: "a \<noteq> 0" "load the_data a s = Ret ?n" "heap s a = Some (DataObj ?n)"
    using sg by (auto simp: load_def)
  have "\<exists>s1 n1. (if ld_data ?n \<noteq> 0 \<and> f \<noteq> 0
            then obind (e_call E f (ld_data ?n) s) (\<lambda>(res, s).
                 upd_data a (\<lambda>d. d\<lparr>ld_data := (if res = OKAY then 0 else ld_data d)\<rparr>) s)
            else Ret s) = Ret s1 \<and> load the_data a s1 = Ret n1 \<and> ld_resid n1 = it_id it
        \<and> os_res_pool s1 = os_res_pool s \<and> mem_ok s1
        \<and> (\<forall>b x. b \<noteq> a \<longrightarrow> list_obj x \<longrightarrow> heap s1 b = Some x \<longleftrightarrow> heap s b = Some x)"
  proof (cases "ld_data ?n \<noteq> 0 \<and> f \<noteq> 0")
    case True
    with q mem obtain res s0 where c: "e_call E f (ld_data ?n) s = Ret (res, s0)" "list_frame s s0"
      unfolding quiet_call_def by blast
    have "load the_data a s0 = Ret ?n" by (rule list_frame_load [OF c(2) a(2)]) simp
    with True c a mem show ?thesis by (simp add: upd_data_def list_frame_def)
  next
    case False
    with a mem show ?thesis by auto
  qed
  then obtain s1 n1 where s1: "(if ld_data ?n \<noteq> 0 \<and> f \<noteq> 0
            then obind (e_call E f (ld_data ?n) s) (\<lambda>(res, s).
                 upd_data a (\<lambda>d. d\<lparr>ld_data := (if res = OKAY then 0 else ld_data d)\<rparr>) s)
            else Ret s) = Ret s1" "load the_data a s1 = Ret n1" "ld_resid n1 = it_id it"
        "os_res_pool s1 = os_res_pool s" "mem_ok s1"
        "\<And>b x. b \<noteq> a \<Longrightarrow> list_obj x \<Longrightarrow> heap s1 b = Some x \<longleftrightarrow> heap s b = Some x" by blast
  have ha: "hp \<noteq> a" using a l by (auto simp: load_eq_Ret)
  have l1: "load the_list hp s1 = Ret l" using l s1(6) [of hp] ha by (auto simp: load_eq_Ret)
  have pok1: "pools_ok (os_res_pool s1)" and r1: "it_id it \<in> ids_used (ol_name l) (os_res_pool s1)"
    using pok r s1(4) by simp_all
  obtain ii i where c: "ii < length (os_res_pool s1)" "i < OS_MAX_RES" "it_id it = cell_id (os_res_pool s1) (ii, i)"
    "os_res_id_free hp (it_id it) s1 = Ret (OKAY, s1\<lparr>os_res_pool := unmark ii i (os_res_pool s1)\<rparr>)"
    by (rule os_res_id_free_used [OF pok1 l1 r1])
  let ?s' = "hdel a (s1\<lparr>os_res_pool := unmark ii i (os_res_pool s1)\<rparr>)"
  have ra: "heap s1 a = Some (DataObj n1)" using s1(2) by (auto simp: load_eq_Ret)
  have "list_flush_body E hp f (a, s) = Ret (nxt xs 0, ?s')"
    unfolding list_flush_body_def using a s1(1,2,3,5) c(4) ra
    by (simp del: if_split split del: if_split add: Let_def)
  moreover have "flushed s ?s' [(a, it)]"
    using s1 c ids_unmark [OF pok1 c(1,2)] pools_ok_mark(2) [OF pok1 c(1)] by (auto simp: flushed_def)
  ultimately show ?thesis by blast
qed

lemma flushed_trans:
  "flushed s t [x] \<Longrightarrow> flushed t u xs \<Longrightarrow> flushed s u (x # xs)"
  by (auto simp: flushed_def)

lemma flush_loop:
  assumes "quiet_call E f" and "seg (heap s) pv xs 0" and "pools_ok (os_res_pool s)" and "mem_ok s"
    and "load the_list hp s = Ret l" and "set (ids xs) \<subseteq> ids_used (ol_name l) (os_res_pool s)"
    and "distinct (addrs xs)" and "distinct (ids xs)"
  shows "\<exists>s'. while_o (\<lambda>(p, s). p \<noteq> 0) (list_flush_body E hp f) (nxt xs 0, s) = Ret (0, s') \<and> flushed s s' xs"
  using assms
proof (induction xs arbitrary: s pv)
  case Nil
  then show ?case by (auto simp: flushed_def)
next
  case (Cons x xs)
  obtain a it where x: "x = (a, it)" by (cases x)
  from flush_step [of E f s pv a it xs hp l] Cons.prems x obtain t where
    t: "list_flush_body E hp f (a, s) = Ret (nxt xs 0, t)" "flushed s t [(a, it)]" by auto
  have a: "a \<noteq> 0" and sg: "seg (heap s) a xs 0" and ax: "a \<notin> fst ` set xs" using Cons.prems x by auto
  have "seg (heap t) a xs 0 = seg (heap s) a xs 0"
  proof (rule seg_cong)
    fix b assume b: "b \<in> fst ` set xs"
    then obtain d where "heap s b = Some (DataObj d)" using seg_dom [OF sg] by blast
    moreover have "b \<noteq> a" using b ax by auto
    ultimately show "heap t b = heap s b" using t(2) by (simp add: flushed_def)
  qed
  moreover have "load the_list hp t = Ret l"
  proof -
    have "heap s a = Some (DataObj (node it (nxt xs 0) pv))" using Cons.prems x by simp
    then have "hp \<noteq> a" using Cons.prems(5) by (auto simp: load_eq_Ret)
    then show ?thesis using Cons.prems(5) t(2) by (auto simp: load_eq_Ret flushed_def)
  qed
  moreover have "set (ids xs) \<subseteq> ids_used (ol_name l) (os_res_pool t)"
    using Cons.prems(6,8) t(2) x by (auto simp: flushed_def subset_Diff_insert)
  ultimately obtain s' where s': "while_o (\<lambda>(p, s). p \<noteq> 0) (list_flush_body E hp f) (nxt xs 0, t) = Ret (0, s')"
      "flushed t s' xs"
    using Cons.IH [of t a] Cons.prems sg t(2) by (auto simp: flushed_def)
  have "while_o (\<lambda>(p, s). p \<noteq> 0) (list_flush_body E hp f) (a, s) = Ret (0, s')"
    using a t(1) s'(1) by (subst while_o_unfold) simp
  then show ?case using x flushed_trans [OF t(2) s'(2)] by auto
qed

lemma list_flush_body_0: "list_flush_body E hp 0 = list_delete_body hp"
proof
  fix x show "list_flush_body E hp 0 x = list_delete_body hp x"
    by (cases x; cases "load the_data (fst x) (snd x)") (simp_all add: list_flush_body_def list_delete_body_def)
qed

lemma locked_flush_loop:
  assumes q: "quiet_call E f" and ok: "kit_ok s M" and Mh: "M hp = Some (nm, xs)"
  shows "\<exists>s2. list_lock hp s = Ret (hput hp (ListObj (list_rec nm True xs)) s)
     \<and> while_o (\<lambda>(p, s). p \<noteq> 0) (list_flush_body E hp f)
         (nxt xs 0, hput hp (ListObj (list_rec nm True xs)) s) = Ret (0, s2)
     \<and> flushed (hput hp (ListObj (list_rec nm True xs)) s) s2 xs
     \<and> hp \<noteq> 0 \<and> heap s2 hp = Some (ListObj (list_rec nm True xs)) \<and> hp \<notin> set (addrs xs)"
proof -
  note at = kit_okD(3) [OF ok Mh]
  let ?s1 = "hput hp (ListObj (list_rec nm True xs)) s"
  from at have hp: "hp \<noteq> 0" "heap s hp = Some (ListObj (list_rec nm False xs))" and sg: "seg (heap s) 0 xs 0"
    and d: "distinct (addrs xs)" "distinct (ids xs)" "set (ids xs) \<subseteq> ids_used nm (os_res_pool s)"
    unfolding list_at_def by blast+
  have hx: "hp \<notin> set (addrs xs)" using list_at_addr(1) [OF at] .
  have "\<exists>s2. while_o (\<lambda>(p, s). p \<noteq> 0) (list_flush_body E hp f) (nxt xs 0, ?s1) = Ret (0, s2) \<and> flushed ?s1 s2 xs"
    by (rule flush_loop [OF q, where pv = 0 and l = "list_rec nm True xs"])
      (use sg hp hx d kit_ok_mem [OF ok] kit_ok_pools [OF ok] in simp_all)
  then obtain s2 where s2: "while_o (\<lambda>(p, s). p \<noteq> 0) (list_flush_body E hp f) (nxt xs 0, ?s1) = Ret (0, s2)"
      "flushed ?s1 s2 xs" by blast
  moreover have "heap s2 hp = Some (ListObj (list_rec nm True xs))"
    using s2(2) hx by (simp add: flushed_def)
  ultimately show ?thesis using hp hx by (simp add: list_lock_def load_def)
qed

lemma os_list_flush_empties:
  assumes q: "quiet_call E f" and ok: "kit_ok s M" and Mh: "M hp = Some (nm, xs)"
  shows "\<exists>s'. os_list_flush E hp f s = Ret (OKAY, s') \<and> kit_ok s' (M(hp \<mapsto> (nm, [])))
     \<and> all_ids (os_res_pool s') = all_ids (os_res_pool s) - set (ids xs)"
proof -
  let ?s1 = "hput hp (ListObj (list_rec nm True xs)) s"
  obtain s2 where s2: "list_lock hp s = Ret ?s1"
     "while_o (\<lambda>(p, s). p \<noteq> 0) (list_flush_body E hp f) (nxt xs 0, ?s1) = Ret (0, s2)" "flushed ?s1 s2 xs"
     "hp \<noteq> 0" "heap s2 hp = Some (ListObj (list_rec nm True xs))" "hp \<notin> set (addrs xs)"
    using locked_flush_loop [OF assms] by blast
  let ?s' = "hput hp (ListObj (list_rec nm False [])) s2"
  have "os_list_flush E hp f s = Ret (OKAY, ?s')"
    using s2 by (simp add: os_list_flush_def list_unlock_def upd_list_def load_def list_rec_def)
  moreover have "kit_ok ?s' (M(hp \<mapsto> (nm, [])))"
  proof (rule kit_ok_update [OF ok Mh])
    show "list_at ?s' hp nm False []" using s2(4) by (simp add: list_at_def)
    show "heap ?s' a = Some x" if "a \<noteq> hp" "a \<notin> set (addrs xs)" "heap s a = Some x" "list_obj x" for a x
      using that s2(3) by (simp add: flushed_def)
  qed (use s2(3) in \<open>simp_all add: flushed_def\<close>)
  moreover have "all_ids (os_res_pool ?s') = all_ids (os_res_pool s) - set (ids xs)"
    using s2(3) by (simp add: flushed_def)
  ultimately show ?thesis by blast
qed

lemma kit_ok_drop:
  assumes "kit_ok s M"
  shows "kit_ok s (M(hp := None))"
proof -
  have "M h = Some v" if "(M(hp := None)) h = Some v" for h v using that by (simp split: if_splits)
  with assms show ?thesis unfolding kit_ok_def lists_ok_def by blast
qed

lemma kit_ok_hdel_list:
  assumes ok: "kit_ok s M" and hp: "heap s hp = Some (ListObj l)" and M: "M hp = None"
  shows "kit_ok (hdel hp s) M"
proof -
  have "list_at (hdel hp s) h nm False xs" if "M h = Some (nm, xs)" for h nm xs
  proof -
    have at: "list_at s h nm False xs" using ok that by (rule kit_okD)
    have "h \<noteq> hp" using that M by auto
    moreover have "hp \<notin> fst ` set xs" using list_at_addr(3) [OF at, of hp] hp by auto
    ultimately show ?thesis using at by (simp add: list_at_def)
  qed
  then show ?thesis using ok unfolding kit_ok_def lists_ok_def by simp
qed

lemma os_list_delete_frees:
  assumes ok: "kit_ok s M" and Mh: "M hp = Some (nm, xs)"
  shows "\<exists>s'. os_list_delete hp s = Ret (OKAY, s') \<and> kit_ok s' (M(hp := None)) \<and> heap s' hp = None
     \<and> all_ids (os_res_pool s') = all_ids (os_res_pool s) - set (ids xs)"
proof -
  let ?s1 = "hput hp (ListObj (list_rec nm True xs)) s" and ?E = "undefined :: os_env"
  have q: "quiet_call ?E 0" by (simp add: quiet_call_def)
  obtain s2 where s2: "list_lock hp s = Ret ?s1"
     "while_o (\<lambda>(p, s). p \<noteq> 0) (list_delete_body hp) (nxt xs 0, ?s1) = Ret (0, s2)" "flushed ?s1 s2 xs"
     "hp \<noteq> 0" "heap s2 hp = Some (ListObj (list_rec nm True xs))" "hp \<notin> set (addrs xs)"
    using locked_flush_loop [OF q assms] unfolding list_flush_body_0 by blast
  let ?s' = "hdel hp (hput hp (ListObj (list_rec nm False xs)) s2)"
  have mem: "mem_ok s2" using s2(3) by (simp add: flushed_def)
  have "os_list_delete hp s = Ret (OKAY, ?s')"
    using s2 mem by (simp add: os_list_delete_def list_unlock_def upd_list_def load_def)
  moreover have "kit_ok (hput hp (ListObj (list_rec nm False [])) s2) (M(hp \<mapsto> (nm, [])))"
  proof (rule kit_ok_update [OF ok Mh])
    show "list_at (hput hp (ListObj (list_rec nm False [])) s2) hp nm False []" using s2(4) by (simp add: list_at_def)
    show "heap (hput hp (ListObj (list_rec nm False [])) s2) a = Some x"
      if "a \<noteq> hp" "a \<notin> set (addrs xs)" "heap s a = Some x" "list_obj x" for a x
      using that s2(3) by (simp add: flushed_def)
  qed (use s2(3) in \<open>simp_all add: flushed_def\<close>)
  then have "kit_ok (hput hp (ListObj (list_rec nm False [])) s2) (M(hp := None))"
    using kit_ok_drop [of _ "M(hp \<mapsto> (nm, []))" hp] by simp
  from kit_ok_hdel_list [OF this, of hp] have "kit_ok ?s' (M(hp := None))" by (simp add: hdel_def hput_def)
  moreover have "all_ids (os_res_pool ?s') = all_ids (os_res_pool s) - set (ids xs)"
    using s2(3) by (simp add: flushed_def)
  ultimately show ?thesis by auto
qed

section \<open>The sanity check\<close>

lemma sanity_check_nonempty:
  assumes ok: "kit_ok s M" and Mh: "M hp = Some (nm, x # xs)"
  shows "os_list_item_sanity_check hp s = Ret (ERROR, s)"
proof -
  note at = kit_okD(3) [OF ok Mh] and cnt = list_counter [OF kit_ok_pools [OF ok] kit_okD(3) [OF ok Mh]]
  obtain a it where x: "x = (a, it)" by (cases x)
  let ?s1 = "hput hp (ListObj (list_rec nm True (x # xs))) s"
  have a: "a \<noteq> 0" "load the_data a ?s1 = Ret (node it (nxt xs 0) 0)"
    using at list_at_addr(1) [OF at] x by (auto simp: list_at_def load_def)
  have hp: "hp \<noteq> 0" "heap s hp = Some (ListObj (list_rec nm False (x # xs)))"
    using at unfolding list_at_def by blast+
  have "(0 :: u32) < of_nat (length (x # xs))" using cnt by (simp add: word_less_nat_alt)
  then have "sanity_loop ?s1 a a (of_nat (length (x # xs))) 0 = Ret ERROR"
    using a by (subst sanity_loop.simps) simp
  then show ?thesis
    using hp x by (simp add: os_list_item_sanity_check_def list_lock_def list_unlock_def upd_list_def
        load_def hput_same del: of_nat_Suc)
qed

lemma sanity_check_empty:
  assumes ok: "kit_ok s M" and Mh: "M hp = Some (nm, [])"
  shows "os_list_item_sanity_check hp s = Ret (OKAY, s)"
proof -
  have hp: "hp \<noteq> 0" "heap s hp = Some (ListObj (list_rec nm False []))"
    using kit_okD(3) [OF ok Mh] unfolding list_at_def by blast+
  then show ?thesis
    by (simp add: os_list_item_sanity_check_def list_lock_def list_unlock_def upd_list_def
        load_def hput_same sanity_loop.simps)
qed

end
