(* ===== verification/Registry.thy ===== *)
theory Registry
  imports Os_List_Laws
begin

text \<open>
  The interface the components see of src/list.c: a registry that hands out an id for a data pointer
  and forgets it again. The locale states what the components rely on and derives what holds for every
  sequence of calls; the interpretation shows that the lists of list.c keep these promises.
\<close>

section \<open>Calls and what they may answer\<close>

datatype reg_cmd = Ins addr | Del u32

type_synonym entries = "(u32 \<times> addr) list"

text \<open>
  The specification: an insertion is refused (answer 0) or appends the pointer under a new id; a
  removal of a known id answers OKAY and forgets it, of an unknown one answers ERROR.
\<close>

inductive reg_step :: "entries \<Rightarrow> reg_cmd \<Rightarrow> u32 \<Rightarrow> entries \<Rightarrow> bool" where
  refused: "reg_step xs (Ins d) ERROR xs"
| inserted: "r \<noteq> 0 \<Longrightarrow> r \<notin> fst ` set xs \<Longrightarrow> reg_step xs (Ins d) r (xs @ [(r, d)])"
| deleted: "r \<in> fst ` set xs \<Longrightarrow> reg_step xs (Del r) OKAY (filter (\<lambda>x. fst x \<noteq> r) xs)"
| unknown: "r \<notin> fst ` set xs \<Longrightarrow> reg_step xs (Del r) ERROR xs"

inductive reg_steps :: "entries \<Rightarrow> reg_cmd list \<Rightarrow> u32 list \<Rightarrow> entries \<Rightarrow> bool" where
  none: "reg_steps xs [] [] xs"
| more: "reg_step xs c r ys \<Longrightarrow> reg_steps ys cs rs zs \<Longrightarrow> reg_steps xs (c # cs) (r # rs) zs"

inductive_cases reg_step_InsE: "reg_step xs (Ins d) r ys"
inductive_cases reg_step_DelE: "reg_step xs (Del i) r ys"
inductive_simps reg_steps_simps [simp]: "reg_steps xs [] rs ys" "reg_steps xs (c # cs) rs ys"

fun cmd_ok :: "reg_cmd \<Rightarrow> bool" where
  "cmd_ok (Ins d) \<longleftrightarrow> d \<noteq> 0"
| "cmd_ok (Del r) = True"

definition entries_ok :: "entries \<Rightarrow> bool" where
  "entries_ok xs \<longleftrightarrow> distinct (map fst xs) \<and> 0 \<notin> fst ` set xs \<and> 0 \<notin> snd ` set xs"

lemma entries_ok_step:
  assumes "reg_step xs c r ys" and "cmd_ok c" and "entries_ok xs"
  shows "entries_ok ys"
  using assms
proof cases
  case (deleted i)
  then show ?thesis using assms(3) by (auto simp: entries_ok_def distinct_map_filter)
qed (auto simp: entries_ok_def)

lemma entries_ok_steps:
  "reg_steps xs cs rs ys \<Longrightarrow> list_all cmd_ok cs \<Longrightarrow> entries_ok xs \<Longrightarrow> entries_ok ys"
  by (induction rule: reg_steps.induct) (auto intro: entries_ok_step)

section \<open>The interface\<close>

locale registry =
  fixes rep :: "'s \<Rightarrow> entries \<Rightarrow> bool"
    and ins :: "addr \<Rightarrow> 's \<Rightarrow> (u32 \<times> 's) outcome"
    and del :: "u32 \<Rightarrow> 's \<Rightarrow> (u32 \<times> 's) outcome"
  assumes rep_ok: "rep s xs \<Longrightarrow> entries_ok xs"
    and ins_ok: "rep s xs \<Longrightarrow> d \<noteq> 0 \<Longrightarrow> \<exists>r s' ys. ins d s = Ret (r, s') \<and> rep s' ys \<and> reg_step xs (Ins d) r ys"
    and del_ok: "rep s xs \<Longrightarrow> \<exists>r s' ys. del i s = Ret (r, s') \<and> rep s' ys \<and> reg_step xs (Del i) r ys"
begin

fun call :: "reg_cmd \<Rightarrow> 's \<Rightarrow> (u32 \<times> 's) outcome" where
  "call (Ins d) s = ins d s"
| "call (Del r) s = del r s"

fun calls_run :: "reg_cmd list \<Rightarrow> 's \<Rightarrow> (u32 list \<times> 's) outcome" where
  "calls_run [] s = Ret ([], s)"
| "calls_run (c # cs) s = obind (call c s) (\<lambda>(r, s). obind (calls_run cs s) (\<lambda>(rs, s). Ret (r # rs, s)))"

lemma call_simulates:
  assumes "rep s xs" and "cmd_ok c"
  shows "\<exists>r s' ys. call c s = Ret (r, s') \<and> rep s' ys \<and> reg_step xs c r ys"
  using assms ins_ok del_ok by (cases c) auto

text \<open>Every sequence of calls returns, with answers and a final content the specification allows.\<close>

lemma calls_simulate:
  assumes "rep s xs" and "list_all cmd_ok cs"
  shows "\<exists>rs s' ys. calls_run cs s = Ret (rs, s') \<and> rep s' ys \<and> reg_steps xs cs rs ys"
  using assms
proof (induction cs arbitrary: s xs)
  case Nil
  then show ?case by auto
next
  case (Cons c cs)
  then obtain r t ys where t: "call c s = Ret (r, t)" "rep t ys" "reg_step xs c r ys"
    using call_simulates [of s xs c] by auto
  moreover obtain rs s' zs where "calls_run cs t = Ret (rs, s')" "rep s' zs" "reg_steps ys cs rs zs"
    using Cons.IH [OF t(2)] Cons.prems(2) by auto
  ultimately show ?case by fastforce
qed

lemma insert_delete_roundtrip:
  assumes "rep s xs" and "d \<noteq> 0" and "ins d s = Ret (r, s')" and "r \<noteq> 0"
  shows "\<exists>s''. del r s' = Ret (OKAY, s'') \<and> rep s'' xs"
proof -
  have "rep s' (xs @ [(r, d)])" and r: "r \<notin> fst ` set xs"
    using ins_ok [OF assms(1,2)] assms(3,4) by (auto elim!: reg_step_InsE)
  from del_ok [OF this(1), of r] obtain u t ys where
    t: "del r s' = Ret (u, t)" "rep t ys" "reg_step (xs @ [(r, d)]) (Del r) u ys" by blast
  moreover have "filter (\<lambda>x. fst x \<noteq> r) (xs @ [(r, d)]) = xs" using r by (force simp: filter_id_conv)
  ultimately show ?thesis using t(3) by (cases rule: reg_step_DelE) auto
qed

lemma delete_twice:
  assumes "rep s xs" and "del r s = Ret (OKAY, s')"
  shows "\<exists>s''. del r s' = Ret (ERROR, s'')"
proof -
  from del_ok [OF assms(1), of r] assms(2) obtain ys where t: "rep s' ys" "reg_step xs (Del r) OKAY ys" by auto
  have r: "r \<notin> fst ` set ys" by (rule reg_step_DelE [OF t(2)]) auto
  from del_ok [OF t(1), of r] obtain u s'' zs where u: "del r s' = Ret (u, s'')" "reg_step ys (Del r) u zs" by blast
  have "u = ERROR" by (rule reg_step_DelE [OF u(2)]) (use r in auto)
  with u(1) show ?thesis by blast
qed

end

section \<open>The lists keep these promises\<close>

definition entry :: "addr \<times> item \<Rightarrow> u32 \<times> addr" where
  "entry x = (it_id (snd x), it_data (snd x))"

text \<open>List \<open>hp\<close> of a sound state, in an environment whose allocators can be relied on.\<close>

definition list_rep :: "os_env \<Rightarrow> addr \<Rightarrow> os_state \<Rightarrow> entries \<Rightarrow> bool" where
  "list_rep E hp s es \<longleftrightarrow> env_ok E \<and> entries_ok es
     \<and> (\<exists>M nm xs. kit_ok s M \<and> M hp = Some (nm, xs) \<and> es = map entry xs)"

lemma entry_ids: "map fst (map entry xs) = ids xs"
  by (simp add: entry_def)

lemma list_rep_insert:
  assumes "list_rep E hp s es" and d: "d \<noteq> 0"
  shows "\<exists>r s' es'. os_list_item_insert E hp d s = Ret (r, s') \<and> list_rep E hp s' es' \<and> reg_step es (Ins d) r es'"
proof -
  from assms obtain M nm xs where E: "env_ok E" and ok: "kit_ok s M" "M hp = Some (nm, xs)" "es = map entry xs"
    and es: "entries_ok es" by (auto simp: list_rep_def)
  from E ok(1,2) show ?thesis
  proof (cases rule: os_list_item_insert_cases [where data = d])
    case (failed s')
    then show ?thesis using E ok es by (auto simp: list_rep_def intro: reg_step.refused)
  next
    case (inserted b r s')
    have "r \<notin> set (ids xs)"
      using inserted(5) kit_okD(3) [OF ok(1,2)] ids_used_all unfolding list_at_def by blast
    then have "r \<notin> fst ` set es" using ok(3) entry_ids [of xs] by (metis list.set_map)
    with inserted(2) have st: "reg_step es (Ins d) r (es @ [(r, d)])" by (rule reg_step.inserted)
    moreover have "entries_ok (es @ [(r, d)])" by (rule entries_ok_step [OF st _ es]) (simp add: d)
    moreover have "es @ [(r, d)] = map entry (xs @ [(b, r, OS_LIST_NO_KEY, d)])" using ok(3) by (simp add: entry_def)
    then have "\<exists>M nm xs. kit_ok s' M \<and> M hp = Some (nm, xs) \<and> es @ [(r, d)] = map entry xs"
      using inserted(7) by fastforce
    ultimately show ?thesis using inserted(1) E unfolding list_rep_def by blast
  qed
qed

lemma list_rep_delete:
  assumes "list_rep E hp s es"
  shows "\<exists>r s' es'. os_list_item_delete hp i s = Ret (r, s') \<and> list_rep E hp s' es' \<and> reg_step es (Del i) r es'"
proof -
  from assms obtain M nm xs where E: "env_ok E" and ok: "kit_ok s M" "M hp = Some (nm, xs)" "es = map entry xs"
    and es: "entries_ok es" by (auto simp: list_rep_def)
  have ids: "fst ` set es = set (ids xs)" using ok(3) entry_ids [of xs] by (metis list.set_map)
  show ?thesis
  proof (cases "i \<in> set (ids xs)")
    case True
    then obtain t it where x: "(t, it) \<in> set xs" "i = it_id it" by auto
    then have "it_data it \<in> snd ` set es" using ok(3) by (force simp: entry_def)
    then have "it_data it \<noteq> 0" using es unfolding entries_ok_def by metis
    from os_list_item_delete_present [OF ok(1,2) x(1) this] x(2) obtain s' where
      s': "os_list_item_delete hp i s = Ret (OKAY, s')"
        "removed s M hp nm (filter (\<lambda>x. it_id (snd x) \<noteq> i) xs) t it s'" by auto
    let ?es' = "filter (\<lambda>x. fst x \<noteq> i) es"
    have st: "reg_step es (Del i) OKAY ?es'" using True ids by (intro reg_step.deleted) simp
    moreover have "entries_ok ?es'" by (rule entries_ok_step [OF st _ es]) simp
    moreover have "?es' = map entry (filter (\<lambda>x. it_id (snd x) \<noteq> i) xs)"
      using ok(3) by (simp add: filter_map o_def entry_def)
    then have "\<exists>M nm xs. kit_ok s' M \<and> M hp = Some (nm, xs) \<and> ?es' = map entry xs"
      using s'(2) unfolding removed_def by fastforce
    ultimately show ?thesis using s'(1) E unfolding list_rep_def by blast
  next
    case False
    have "reg_step es (Del i) ERROR es" using False ids by (intro reg_step.unknown) simp
    with os_list_item_delete_absent [OF ok(1,2) False] assms show ?thesis by blast
  qed
qed

interpretation list_reg: registry "list_rep E hp" "os_list_item_insert E hp" "os_list_item_delete hp" for E hp
proof
  show "list_rep E hp s xs \<Longrightarrow> entries_ok xs" for s xs by (simp add: list_rep_def)
qed (fact list_rep_insert, fact list_rep_delete)

end
