(* ===== verification/Obj_Table.thy ===== *)
theory Obj_Table
  imports Os_Var Registry
begin

text \<open>
  Objects kept in a list and addressed by id, the pattern of var.c, thread.c and msgq.c: the lemmas on
  finding, creating and deleting such an object are proved once here, for every kind of object.
\<close>

section \<open>Tables\<close>

abbreviation datas :: "nodes \<Rightarrow> addr list" where "datas xs \<equiv> map (\<lambda>x. it_data (snd x)) xs"

text \<open>
  The items of list \<open>hp\<close> point to pairwise different live objects of kind \<open>K\<close>, none of them
  a block of the lists.
\<close>

definition table :: "os_state \<Rightarrow> ghost \<Rightarrow> addr \<Rightarrow> string \<Rightarrow> (obj \<Rightarrow> bool) \<Rightarrow> nodes \<Rightarrow> bool" where
  "table s M hp nm K xs \<longleftrightarrow>
     M hp = Some (nm, xs) \<and> distinct (datas xs) \<and>
     (\<forall>x \<in> set xs. it_data (snd x) \<noteq> 0 \<and>
        (\<exists>ob. heap s (it_data (snd x)) = Some ob \<and> K ob \<and> \<not> list_obj ob))"

definition lookup :: "nodes \<Rightarrow> u32 \<Rightarrow> addr option" where
  "lookup xs r = map_of (map entry xs) r"

lemma lookup_Nil [simp]: "lookup [] r = None"
  by (simp add: lookup_def)

lemma lookup_Cons: "lookup (x # xs) r = (if it_id (snd x) = r then Some (it_data (snd x)) else lookup xs r)"
  by (simp add: lookup_def entry_def)

lemma lookup_None: "lookup xs r = None \<longleftrightarrow> r \<notin> set (ids xs)"
  by (induction xs) (auto simp: lookup_Cons)

lemma lookup_append:
  "lookup (xs @ ys) r = (case lookup xs r of None \<Rightarrow> lookup ys r | Some p \<Rightarrow> Some p)"
  by (induction xs) (auto simp: lookup_Cons)

lemma lookup_Some_in:
  "lookup xs r = Some p \<Longrightarrow> \<exists>x \<in> set xs. it_id (snd x) = r \<and> it_data (snd x) = p"
  by (induction xs) (auto simp: lookup_Cons split: if_splits)

lemma lookup_in:
  "distinct (ids xs) \<Longrightarrow> x \<in> set xs \<Longrightarrow> lookup xs (it_id (snd x)) = Some (it_data (snd x))"
  by (induction xs) (auto simp: lookup_Cons image_iff)

lemma lookup_filter: "lookup (filter (\<lambda>x. it_id (snd x) \<noteq> i) xs) r = (if r = i then None else lookup xs r)"
  by (induction xs) (auto simp: lookup_Cons)

lemma table_lookup:
  assumes "table s M hp nm K xs" and "lookup xs r = Some p"
  shows "p \<noteq> 0" "\<exists>ob. heap s p = Some ob \<and> K ob \<and> \<not> list_obj ob"
  using assms lookup_Some_in [OF assms(2)] by (auto simp: table_def)

lemma table_inj:
  assumes "table s M hp nm K xs" and "lookup xs r = Some p" and "lookup xs q = Some p"
  shows "r = q"
proof -
  obtain x y where xy: "x \<in> set xs" "it_id (snd x) = r" "it_data (snd x) = p"
      "y \<in> set xs" "it_id (snd y) = q" "it_data (snd y) = p"
    using lookup_Some_in [OF assms(2)] lookup_Some_in [OF assms(3)] by blast
  have "inj_on (\<lambda>x. it_data (snd x)) (set xs)" using assms(1) by (auto simp: table_def distinct_map)
  then have "x = y" by (rule inj_onD) (use xy in auto)
  then show ?thesis using xy by simp
qed

lemma table_frame:
  assumes "table s M hp nm K xs"
    and "\<And>p x. heap s p = Some x \<Longrightarrow> K x \<Longrightarrow> \<not> list_obj x \<Longrightarrow> \<exists>x'. heap s' p = Some x' \<and> K x' \<and> \<not> list_obj x'"
  shows "table s' M hp nm K xs"
  using assms unfolding table_def by meson

lemma table_keeps: "table s M hp nm K xs \<Longrightarrow> keeps s s' \<Longrightarrow> table s' M hp nm K xs"
  by (rule table_frame) (auto dest: keepsD)

lemma table_ghost: "table s M hp nm K xs \<Longrightarrow> hp' \<noteq> hp \<Longrightarrow> table s (M(hp' := v)) hp nm K xs"
  by (simp add: table_def)

section \<open>Finding an object\<close>

lemma os_list_find_id:
  assumes ok: "kit_ok s M" and M: "M hp = Some (nm, xs)" and nz: "\<forall>x \<in> set xs. it_data (snd x) \<noteq> 0"
  shows "obind (os_list_find hp (os_obj_find_with_id r) s) (\<lambda>d.
     if d = 0 then Ret 0 else obind (load the_data d s) (\<lambda>n. Ret (ld_data n)))
     = Ret (case lookup xs r of None \<Rightarrow> 0 | Some p \<Rightarrow> p)"
proof -
  have at: "list_at s hp nm False xs" using kit_okD(3) [OF ok M] .
  have sg: "seg (heap s) 0 xs 0" using at by (simp add: list_at_def)
  have nd: "\<exists>nx pv. load the_data a s = Ret (node it nx pv) \<and> a \<noteq> 0" if x: "(a, it) \<in> set xs" for a it
  proof -
    obtain ys zs where "xs = ys @ (a, it) # zs" using x by (meson split_list)
    then show ?thesis using sg by (auto simp: seg_append load_def)
  qed
  have cmp: "os_obj_find_with_id r a s = Ret (if it_id it = r then OKAY else ERROR)" if "(a, it) \<in> set xs" for a it
    using nd [OF that] nz that by (fastforce simp: os_obj_find_with_id_def)
  have f: "os_list_find hp (os_obj_find_with_id r) s =
     Ret (case find (\<lambda>x. it_id (snd x) = r) xs of None \<Rightarrow> 0 | Some x \<Rightarrow> fst x)"
    by (rule os_list_find_eq [OF at]) (rule cmp)
  have lk: "lookup xs r = map_option (\<lambda>x. it_data (snd x)) (find (\<lambda>x. it_id (snd x) = r) xs)"
    by (induction xs) (auto simp: lookup_Cons)
  show ?thesis
  proof (cases "find (\<lambda>x. it_id (snd x) = r) xs")
    case None
    then show ?thesis using f lk by simp
  next
    case (Some x)
    then have "x \<in> set xs" by (auto simp: find_Some_iff)
    then obtain nx pv where "load the_data (fst x) s = Ret (node (snd x) nx pv)" "fst x \<noteq> 0"
      using nd [of "fst x" "snd x"] by auto
    then show ?thesis using Some f lk by simp
  qed
qed

lemma table_find:
  assumes ok: "kit_ok s M" and tb: "table s M hp nm K xs"
  shows "obind (os_list_find hp (os_obj_find_with_id r) s) (\<lambda>d.
     if d = 0 then Ret 0 else obind (load the_data d s) (\<lambda>n. Ret (ld_data n)))
     = Ret (case lookup xs r of None \<Rightarrow> 0 | Some p \<Rightarrow> p)"
  using tb by (intro os_list_find_id [OF ok]) (auto simp: table_def)

section \<open>Creating and deleting an object\<close>

lemma table_insert_cases:
  assumes E: "env_ok E" and ok: "kit_ok s M" and tb: "table s M hp nm K xs"
    and p: "p \<noteq> 0" "heap s p = Some ob" "K ob" "\<not> list_obj ob" "p \<notin> set (datas xs)"
  obtains (failed) s' where "os_list_item_insert E hp p s = Ret (ERROR, s')" "kit_ok s' M" "keeps s s'"
      "table s' M hp nm K xs" "no_room E T_OS_LIST_DATA s \<or> out_of_ids nm s"
  | (inserted) d r s' where "os_list_item_insert E hp p s = Ret (r, s')" "r \<noteq> 0" "lookup xs r = None"
      "first_free_id nm s r"
      "kit_ok s' (M(hp \<mapsto> (nm, xs @ [(d, r, OS_LIST_NO_KEY, p)])))" "keeps s s'"
      "table s' (M(hp \<mapsto> (nm, xs @ [(d, r, OS_LIST_NO_KEY, p)]))) hp nm K (xs @ [(d, r, OS_LIST_NO_KEY, p)])"
      "adds (Suc 0) s s'" "calls s' = Suc (calls s)"
proof -
  have M: "M hp = Some (nm, xs)" using tb by (simp add: table_def)
  from E ok M show ?thesis
  proof (cases rule: os_list_item_insert_cases [where data = p])
    case (failed s')
    then show ?thesis using table_keeps [OF tb] by (intro that(1)) auto
  next
    case (inserted d r s')
    have "set (ids xs) \<subseteq> all_ids (os_res_pool s)"
      using kit_okD(3) [OF ok M] ids_used_all unfolding list_at_def by blast
    then have "lookup xs r = None" using inserted(5) lookup_None [of xs r] by blast
    moreover have "table s' (M(hp \<mapsto> (nm, xs @ [(d, r, OS_LIST_NO_KEY, p)]))) hp nm K (xs @ [(d, r, OS_LIST_NO_KEY, p)])"
      using table_keeps [OF tb inserted(8)] keepsD [OF inserted(8) p(2,4)] p by (auto simp: table_def)
    ultimately show ?thesis using inserted by (intro that(2)) auto
  qed
qed

text \<open>The allocation in front: a new block is in no table.\<close>

lemma new_block_not_data:
  assumes "table s M hp nm K xs" and "heap s p = None"
  shows "p \<notin> set (datas xs)"
  using assms by (fastforce simp: table_def)

text \<open>The table without one entry, in a state that has every other object.\<close>

lemma table_filter:
  assumes tb: "table s M hp nm K xs" and r: "lookup xs r = Some p"
    and keep: "\<And>a ob. a \<noteq> p \<Longrightarrow> heap s a = Some ob \<Longrightarrow> \<not> list_obj ob \<Longrightarrow> heap s' a = Some ob"
  shows "table s' (M(hp \<mapsto> (nm, filter (\<lambda>x. it_id (snd x) \<noteq> r) xs))) hp nm K (filter (\<lambda>x. it_id (snd x) \<noteq> r) xs)"
  unfolding table_def
proof (intro conjI ballI)
  have inj: "inj_on (\<lambda>x. it_data (snd x)) (set xs)" and d: "distinct (datas xs)"
    using tb by (auto simp: table_def distinct_map)
  obtain x where x: "x \<in> set xs" "it_id (snd x) = r" "it_data (snd x) = p" using lookup_Some_in [OF r] by blast
  show "distinct (datas (filter (\<lambda>x. it_id (snd x) \<noteq> r) xs))" using d by (rule distinct_map_filter)
  fix y assume "y \<in> set (filter (\<lambda>x. it_id (snd x) \<noteq> r) xs)"
  then have yx: "y \<in> set xs" "it_id (snd y) \<noteq> r" by simp_all
  then have "it_data (snd y) \<noteq> p" using inj_onD [OF inj, of x y] x by metis
  moreover obtain ob where "heap s (it_data (snd y)) = Some ob" "K ob" "\<not> list_obj ob" "it_data (snd y) \<noteq> 0"
    using tb yx(1) unfolding table_def by blast
  ultimately show "it_data (snd y) \<noteq> 0"
    "\<exists>ob. heap s' (it_data (snd y)) = Some ob \<and> K ob \<and> \<not> list_obj ob" using keep by blast+
qed simp

lemma table_item_removed:
  assumes ok: "kit_ok s M" and tb: "table s' M hp nm K xs" and r: "lookup xs r = Some p"
  shows "\<exists>t it u. os_list_item_delete hp r s = Ret (OKAY, u)
     \<and> removed s M hp nm (filter (\<lambda>x. it_id (snd x) \<noteq> r) xs) t it u"
proof -
  have M: "M hp = Some (nm, xs)" using tb by (simp add: table_def)
  obtain x where x: "x \<in> set xs" "it_id (snd x) = r" "it_data (snd x) = p" using lookup_Some_in [OF r] by blast
  obtain t it where tx: "x = (t, it)" by (cases x)
  have tin: "(t, it) \<in> set xs" and nz: "it_data it \<noteq> 0" and rid: "it_id it = r"
    using x table_lookup(1) [OF tb r] tx by auto
  then show ?thesis using os_list_item_delete_present [OF ok M tin nz] by blast
qed

lemma table_delete:
  assumes ok: "kit_ok s M" and tb: "table s M hp nm K xs" and r: "lookup xs r = Some p"
  shows "\<exists>s'. os_list_item_delete hp r (hdel p s) = Ret (OKAY, s') \<and> keeps (hdel p s) s' \<and> heap s' p = None
     \<and> kit_ok s' (M(hp \<mapsto> (nm, filter (\<lambda>x. it_id (snd x) \<noteq> r) xs)))
     \<and> table s' (M(hp \<mapsto> (nm, filter (\<lambda>x. it_id (snd x) \<noteq> r) xs))) hp nm K (filter (\<lambda>x. it_id (snd x) \<noteq> r) xs)"
proof -
  let ?xs' = "filter (\<lambda>x. it_id (snd x) \<noteq> r) xs"
  obtain ob where p: "p \<noteq> 0" "heap s p = Some ob" "\<not> list_obj ob" using table_lookup [OF tb r] by blast
  have ok': "kit_ok (hdel p s) M" using p by (intro kit_ok_hdel [OF ok]) simp
  from table_item_removed [OF ok' tb r] obtain t it s' where s': "os_list_item_delete hp r (hdel p s) = Ret (OKAY, s')"
      "removed (hdel p s) M hp nm ?xs' t it s'" by blast
  have k: "keeps (hdel p s) s'" "kit_ok s' (M(hp \<mapsto> (nm, ?xs')))"
      "\<And>a. heap (hdel p s) a = None \<Longrightarrow> heap s' a = None"
    using s'(2) unfolding removed_def by blast+
  have "table s' (M(hp \<mapsto> (nm, ?xs'))) hp nm K ?xs'"
    by (rule table_filter [OF tb r]) (use keepsD [OF k(1)] in auto)
  moreover have "heap s' p = None" by (rule k(3)) simp
  ultimately show ?thesis using s'(1) k(1,2) by blast
qed

text \<open>The other order: the entry first, the object after it.\<close>

lemma table_delete_free:
  assumes ok: "kit_ok s M" and tb: "table s M hp nm K xs" and r: "lookup xs r = Some p"
  shows "\<exists>s'. os_list_item_delete hp r s = Ret (OKAY, s') \<and> keeps s s' \<and> os_mem_free p s' = Ret (OKAY, hdel p s')
     \<and> kit_ok (hdel p s') (M(hp \<mapsto> (nm, filter (\<lambda>x. it_id (snd x) \<noteq> r) xs)))
     \<and> table (hdel p s') (M(hp \<mapsto> (nm, filter (\<lambda>x. it_id (snd x) \<noteq> r) xs))) hp nm K (filter (\<lambda>x. it_id (snd x) \<noteq> r) xs)"
proof -
  let ?xs' = "filter (\<lambda>x. it_id (snd x) \<noteq> r) xs"
  from table_item_removed [OF ok tb r] obtain t it s' where s': "os_list_item_delete hp r s = Ret (OKAY, s')"
      "removed s M hp nm ?xs' t it s'" by blast
  have k: "keeps s s'" "kit_ok s' (M(hp \<mapsto> (nm, ?xs')))" using s'(2) unfolding removed_def by blast+
  obtain ob where p: "p \<noteq> 0" "heap s p = Some ob" "\<not> list_obj ob" using table_lookup [OF tb r] by blast
  have p': "heap s' p = Some ob" by (rule keepsD [OF k(1) p(2,3)])
  have "os_mem_free p s' = Ret (OKAY, hdel p s')" using kit_ok_mem [OF k(2)] p' p(1) by simp
  moreover have "kit_ok (hdel p s') (M(hp \<mapsto> (nm, ?xs')))" using p' p(3) by (intro kit_ok_hdel [OF k(2)]) simp
  moreover have "table (hdel p s') (M(hp \<mapsto> (nm, ?xs'))) hp nm K ?xs'"
    by (rule table_filter [OF tb r]) (use keepsD [OF k(1)] in auto)
  ultimately show ?thesis using s'(1) k(1) by blast
qed

lemma table_delete_absent:
  assumes ok: "kit_ok s M" and tb: "table s M hp nm K xs" and r: "lookup xs r = None"
  shows "os_list_item_delete hp r s = Ret (ERROR, s)"
  using tb r by (intro os_list_item_delete_absent [OF ok]) (auto simp: table_def lookup_None)

lemma keeps_hdel_new: "keeps s t \<Longrightarrow> heap s p = None \<Longrightarrow> keeps s (hdel p t)"
  by (auto simp: keeps_def)

text \<open>
  Allocating an object, filling it in and inserting it: no memory; no room in the list, and the object
  is freed again; or the object is in the table under a new id.
\<close>

lemma obj_create_cases:
  assumes E: "env_ok E" and ok: "kit_ok s M" and tb: "table s M hp nm K xs" and ob: "K ob" "\<not> list_obj ob"
  obtains (no_memory) "os_mem_alloc E (e_sizeof E t) s = Ret (0, tick s)" "short E t nm s"
  | (no_entry) p s1 s2 where "os_mem_alloc E (e_sizeof E t) s = Ret (p, s1)" "p \<noteq> 0" "keeps s s1"
      "os_list_item_insert E hp p (hput p ob s1) = Ret (ERROR, s2)"
      "os_mem_free p s2 = Ret (OKAY, hdel p s2)"
      "kit_ok (hdel p s2) M" "keeps s (hdel p s2)" "table (hdel p s2) M hp nm K xs"
      "short E t nm s"
  | (created) p s1 d r s' where "os_mem_alloc E (e_sizeof E t) s = Ret (p, s1)" "p \<noteq> 0" "heap s p = None" "keeps s s1"
      "os_list_item_insert E hp p (hput p ob s1) = Ret (r, s')" "r \<noteq> 0" "lookup xs r = None" "first_free_id nm s r"
      "kit_ok s' (M(hp \<mapsto> (nm, xs @ [(d, r, OS_LIST_NO_KEY, p)])))" "keeps s s'"
      "table s' (M(hp \<mapsto> (nm, xs @ [(d, r, OS_LIST_NO_KEY, p)]))) hp nm K (xs @ [(d, r, OS_LIST_NO_KEY, p)])"
      "heap s' p = Some ob" "adds 2 s s'" "calls s' = calls s + 2"
proof (rule os_mem_alloc_cases [OF E kit_ok_mem [OF ok] sizes_ok_pos [OF E, of t]])
  assume a: "os_mem_alloc E (e_sizeof E t) s = Ret (0, tick s)"
  with os_mem_alloc_no_room [OF kit_ok_mem [OF ok]] show ?thesis by (intro no_memory) (auto simp: short_def)
next
  fix p assume p: "p \<noteq> 0" "heap s p = None" "os_mem_alloc E (e_sizeof E t) s =
      Ret (p, hput p (Zeroed (ucast (e_sizeof E t))) (tick s))"
  let ?s1 = "hput p (Zeroed (ucast (e_sizeof E t))) (tick s)" and ?t = "hput p ob (tick s)"
  have k1: "keeps s ?s1" "keeps s ?t" using p by (simp_all add: keeps_hput_free)
  have ok': "kit_ok ?t M" using ok p by (intro kit_ok_hput) simp_all
  have tb': "table ?t M hp nm K xs" by (rule table_keeps [OF tb k1(2)])
  have pt: "heap ?t p = Some ob" by simp
  have px: "p \<notin> set (datas xs)" by (rule new_block_not_data [OF tb p(2)])
  have e: "hput p ob ?s1 = ?t" by simp
  show ?thesis
  proof (rule table_insert_cases [OF E ok' tb' p(1) pt ob px])
    fix s2 assume f: "os_list_item_insert E hp p ?t = Ret (ERROR, s2)" "kit_ok s2 M" "keeps ?t s2"
      "no_room E T_OS_LIST_DATA ?t \<or> out_of_ids nm ?t"
    have p2: "heap s2 p = Some ob" by (rule keepsD [OF f(3) pt ob(2)])
    then have "os_mem_free p s2 = Ret (OKAY, hdel p s2)" using kit_ok_mem [OF f(2)] p(1) by simp
    moreover have "kit_ok (hdel p s2) M" using f(2) p2 ob by (intro kit_ok_hdel) auto
    moreover have "keeps s (hdel p s2)" by (rule keeps_hdel_new [OF keeps_trans [OF k1(2) f(3)] p(2)])
    moreover from this have "table (hdel p s2) M hp nm K xs" by (rule table_keeps [OF tb])
    moreover have "short E t nm s" using f(4) p(2) by (auto simp: short_def out_of_ids_def)
    ultimately show ?thesis using p f(1) e k1(1) by (intro no_entry [of p ?s1 s2]) simp_all
  next
    fix d r s' assume i: "os_list_item_insert E hp p ?t = Ret (r, s')" "r \<noteq> 0" "lookup xs r = None"
      "first_free_id nm ?t r"
      "kit_ok s' (M(hp \<mapsto> (nm, xs @ [(d, r, OS_LIST_NO_KEY, p)])))" "keeps ?t s'"
      "table s' (M(hp \<mapsto> (nm, xs @ [(d, r, OS_LIST_NO_KEY, p)]))) hp nm K (xs @ [(d, r, OS_LIST_NO_KEY, p)])"
      "adds (Suc 0) ?t s'" "calls s' = Suc (calls ?t)"
    have "adds (Suc 0) s ?t" by (rule adds_one [of _ p]) auto
    then have "adds 2 s s'" by (rule adds_trans [OF _ i(8)]) simp
    moreover have "heap s' p = Some ob" by (rule keepsD [OF i(6) pt ob(2)])
    moreover have "first_free_id nm s r" using i(4) by (simp add: first_free_id_def)
    ultimately show ?thesis using p i e k1 keeps_trans [OF k1(2) i(6)]
      by (intro created [of p ?s1 r s' d]) simp_all
  qed
qed

end
