(* ===== verification/Var_Laws.thy ===== *)
theory Var_Laws
  imports Obj_Table
begin

text \<open>
  What the operations of src/var.c do, seen from the mutexes and condition variables by id: creation,
  deletion, locking and unlocking with every error branch, waiting and signalling.
\<close>

section \<open>The two tables\<close>

definition is_mutex :: "obj \<Rightarrow> bool" where "is_mutex ob \<longleftrightarrow> the_mutex ob \<noteq> None"
definition is_cond :: "obj \<Rightarrow> bool" where "is_cond ob \<longleftrightarrow> the_cond ob \<noteq> None"

lemma is_mutex_simps [simp]: "is_mutex (MutexObj m)" "is_mutex ob \<Longrightarrow> \<not> list_obj ob" "is_mutex ob \<Longrightarrow> \<not> is_cond ob"
  by (cases ob; simp add: is_mutex_def is_cond_def)+

lemma is_cond_simps [simp]: "is_cond (CondObj c)" "is_cond ob \<Longrightarrow> \<not> list_obj ob" "is_cond ob \<Longrightarrow> \<not> is_mutex ob"
  by (cases ob; simp add: is_mutex_def is_cond_def)+

lemma is_mutexE: "is_mutex ob \<Longrightarrow> \<exists>m. ob = MutexObj m"
  by (cases ob) (simp_all add: is_mutex_def)

lemma is_condE: "is_cond ob \<Longrightarrow> \<exists>c. ob = CondObj c"
  by (cases ob) (simp_all add: is_cond_def)

definition var_ok :: "os_state \<Rightarrow> ghost \<Rightarrow> nodes \<Rightarrow> nodes \<Rightarrow> bool" where
  "var_ok s M ms cs \<longleftrightarrow> kit_ok s M \<and> mutex_list s \<noteq> cond_list s
     \<and> table s M (mutex_list s) MUTEX_NAME is_mutex ms
     \<and> table s M (cond_list s) COND_NAME is_cond cs"

definition mutex_of :: "os_state \<Rightarrow> nodes \<Rightarrow> u32 \<Rightarrow> OS_MUTEX option" where
  "mutex_of s ms r = Option.bind (lookup ms r) (\<lambda>p. Option.bind (heap s p) the_mutex)"

definition cond_of :: "os_state \<Rightarrow> nodes \<Rightarrow> u32 \<Rightarrow> OS_COND option" where
  "cond_of s cs r = Option.bind (lookup cs r) (\<lambda>p. Option.bind (heap s p) the_cond)"

lemma mutex_of_Some:
  "mutex_of s ms r = Some m \<longleftrightarrow> (\<exists>p. lookup ms r = Some p \<and> heap s p = Some (MutexObj m))"
  by (auto simp: mutex_of_def Option.bind_eq_Some_conv)

lemma cond_of_Some:
  "cond_of s cs r = Some c \<longleftrightarrow> (\<exists>p. lookup cs r = Some p \<and> heap s p = Some (CondObj c))"
  by (auto simp: cond_of_def Option.bind_eq_Some_conv)

lemma var_okD:
  assumes "var_ok s M ms cs"
  shows "kit_ok s M" "mutex_list s \<noteq> cond_list s" "table s M (mutex_list s) MUTEX_NAME is_mutex ms"
    "table s M (cond_list s) COND_NAME is_cond cs"
  using assms by (simp_all add: var_ok_def)

lemma mutex_of_None:
  assumes "var_ok s M ms cs"
  shows "mutex_of s ms r = None \<longleftrightarrow> lookup ms r = None"
proof (cases "lookup ms r")
  case (Some p)
  with table_lookup(2) [OF var_okD(3) [OF assms] Some] show ?thesis
    by (auto simp: mutex_of_def dest!: is_mutexE)
qed (simp add: mutex_of_def)

lemma os_mutex_find_eq:
  "var_ok s M ms cs \<Longrightarrow> os_mutex_find r s = Ret (case lookup ms r of None \<Rightarrow> 0 | Some p \<Rightarrow> p)"
  unfolding os_mutex_find_def by (rule table_find [OF var_okD(1,3)])

lemma os_cond_find_eq:
  "var_ok s M ms cs \<Longrightarrow> os_cond_find r s = Ret (case lookup cs r of None \<Rightarrow> 0 | Some p \<Rightarrow> p)"
  unfolding os_cond_find_def by (rule table_find [OF var_okD(1,4)])

text \<open>Updating a mutex or a condition variable in place, or any block outside the two tables.\<close>

lemma var_ok_hput:
  assumes v: "var_ok s M ms cs"
    and x: "\<And>x. heap s p = Some x \<Longrightarrow> \<not> list_obj x \<and> (is_mutex x \<longrightarrow> is_mutex y) \<and> (is_cond x \<longrightarrow> is_cond y)"
  shows "var_ok (hput p y s) M ms cs"
proof -
  have "kit_ok (hput p y s) M" using x by (intro kit_ok_hput [OF var_okD(1) [OF v]]) simp
  moreover have "table (hput p y s) M (mutex_list s) MUTEX_NAME is_mutex ms"
    using x by (intro table_frame [OF var_okD(3) [OF v]]) auto
  moreover have "table (hput p y s) M (cond_list s) COND_NAME is_cond cs"
    using x by (intro table_frame [OF var_okD(4) [OF v]]) auto
  ultimately show ?thesis using var_okD(2) [OF v] by (simp add: var_ok_def)
qed

lemma var_ok_tick [simp]: "var_ok s M ms cs \<Longrightarrow> var_ok (tick s) M ms cs"
  unfolding var_ok_def by (auto intro: table_keeps)

lemma mutex_of_hput:
  assumes v: "var_ok s M ms cs" and p: "lookup ms r = Some p"
  shows "mutex_of (hput p (MutexObj m) s) ms = (mutex_of s ms)(r \<mapsto> m)"
proof
  fix q show "mutex_of (hput p (MutexObj m) s) ms q = ((mutex_of s ms)(r \<mapsto> m)) q"
    using p table_inj [OF var_okD(3) [OF v] p, of q]
    by (cases "lookup ms q") (auto simp: mutex_of_def)
qed

section \<open>Locking and unlocking\<close>

definition mutex_free :: "OS_MUTEX \<Rightarrow> bool" where
  "mutex_free m \<longleftrightarrow> \<not> mx_osid m \<and> mx_validity m = 0 \<and> mx_status m = OS_MUTEX_FREE"

definition mutex_held :: "OS_MUTEX \<Rightarrow> bool" where
  "mutex_held m \<longleftrightarrow> mx_osid m \<and> mx_validity m = 1 \<and> mx_status m = OS_MUTEX_LOCKED"

definition lock_rec :: "OS_MUTEX \<Rightarrow> OS_MUTEX" where
  "lock_rec m = m\<lparr>mx_osid := True, mx_validity := 1, mx_status := OS_MUTEX_LOCKED\<rparr>"

definition unlock_rec :: "OS_MUTEX \<Rightarrow> OS_MUTEX" where
  "unlock_rec m = m\<lparr>mx_osid := False, mx_validity := 0, mx_status := OS_MUTEX_FREE\<rparr>"

lemma mutex_status_neq [simp]: "OS_MUTEX_FREE \<noteq> OS_MUTEX_LOCKED" "OS_MUTEX_LOCKED \<noteq> OS_MUTEX_FREE"
  by (simp_all add: OS_MUTEX_FREE_def OS_MUTEX_LOCKED_def)

lemma lock_rec_held [simp]: "mutex_held (lock_rec m)"
  by (simp add: mutex_held_def lock_rec_def)

lemma unlock_rec_free [simp]: "mutex_free (unlock_rec m)"
  by (simp add: mutex_free_def unlock_rec_def)

lemma unlock_lock_rec: "mutex_free m \<Longrightarrow> unlock_rec (lock_rec m) = m"
  by (simp add: mutex_free_def unlock_rec_def lock_rec_def)

lemma mutex_lock_step:
  assumes v: "var_ok s M ms cs" and p: "lookup ms r = Some p" "heap s p = Some (MutexObj m)"
    and free: "mutex_free m"
  shows "os_mutex_lock r 0 s = Ret (OKAY, hput p (MutexObj (lock_rec m)) s)"
proof -
  have p0: "p \<noteq> 0" using table_lookup(1) [OF var_okD(3) [OF v] p(1)] .
  then show ?thesis
    using p free by (simp add: os_mutex_lock_def os_mutex_find_eq [OF v] load_def upd_mutex_def mutex_free_def lock_rec_def)
qed

lemma mutex_unlock_step:
  assumes v: "var_ok s M ms cs" and p: "lookup ms r = Some p" "heap s p = Some (MutexObj m)"
    and held: "mutex_held m"
  shows "os_mutex_unlock r s = Ret (OKAY, hput p (MutexObj (unlock_rec m)) s)"
proof -
  have p0: "p \<noteq> 0" using table_lookup(1) [OF var_okD(3) [OF v] p(1)] .
  then show ?thesis
    using p held by (cases m) (simp add: os_mutex_unlock_def os_mutex_find_eq [OF v] load_def upd_mutex_def mutex_held_def unlock_rec_def)
qed

lemma mutex_lock_blocks:
  assumes v: "var_ok s M ms cs" and p: "lookup ms r = Some p" "heap s p = Some (MutexObj m)"
    and held: "mx_osid m"
  shows "os_mutex_lock r 0 s = Fault Blocked" and "t \<noteq> 0 \<Longrightarrow> os_mutex_lock r t s = Fault Uninit_Read"
proof -
  have p0: "p \<noteq> 0" using table_lookup(1) [OF var_okD(3) [OF v] p(1)] .
  then show "os_mutex_lock r 0 s = Fault Blocked" and "t \<noteq> 0 \<Longrightarrow> os_mutex_lock r t s = Fault Uninit_Read"
    using p held by (simp_all add: os_mutex_lock_def os_mutex_find_eq [OF v] load_def)
qed

lemma mutex_unlock_free_step:
  assumes v: "var_ok s M ms cs" and p: "lookup ms r = Some p" "heap s p = Some (MutexObj m)"
    and free: "mutex_free m"
  shows "os_mutex_unlock r s = Ret (ERROR, hput p (MutexObj (m\<lparr>mx_validity := - 1\<rparr>)) s)"
proof -
  have p0: "p \<noteq> 0" using table_lookup(1) [OF var_okD(3) [OF v] p(1)] .
  then show ?thesis
    using p free by (cases m) (simp add: os_mutex_unlock_def os_mutex_find_eq [OF v] load_def upd_mutex_def mutex_free_def)
qed

lemma mutex_lock_poisoned_step:
  assumes v: "var_ok s M ms cs" and p: "lookup ms r = Some p" "heap s p = Some (MutexObj m)"
    and m: "\<not> mx_osid m" "mx_validity m = - 1"
  shows "os_mutex_lock r 0 s = Ret (ERROR, hput p (MutexObj (m\<lparr>mx_validity := 0\<rparr>)) s)"
proof -
  have p0: "p \<noteq> 0" using table_lookup(1) [OF var_okD(3) [OF v] p(1)] .
  then show ?thesis
    using p m by (cases m) (simp add: os_mutex_lock_def os_mutex_find_eq [OF v] load_def upd_mutex_def)
qed

section \<open>Creation and deletion\<close>

lemma keeps_lists:
  assumes "keeps s s'"
  shows "mutex_list s' = mutex_list s" "cond_list s' = cond_list s" "thread_list s' = thread_list s"
    "queue_list s' = queue_list s" "msgq_list s' = msgq_list s" "buffer_class_list s' = buffer_class_list s"
    "mem_ok s' = mem_ok s"
  using same_statics_fields [OF keeps_statics [OF assms]] by simp_all

lemma var_ok_keeps:
  assumes v: "var_ok s M ms cs" and k: "keeps s s'" and ok: "kit_ok s' M'"
    and M: "M' (mutex_list s) = M (mutex_list s)" "M' (cond_list s) = M (cond_list s)"
  shows "var_ok s' M' ms cs"
  using table_keeps [OF var_okD(3) [OF v] k] table_keeps [OF var_okD(4) [OF v] k] ok M var_okD(2) [OF v]
  by (simp add: var_ok_def keeps_lists [OF k] table_def)

lemma mutex_of_keeps:
  assumes v: "var_ok s M ms cs" and k: "keeps s s'"
  shows "mutex_of s' ms = mutex_of s ms"
proof
  fix r
  show "mutex_of s' ms r = mutex_of s ms r"
  proof (cases "lookup ms r")
    case (Some p)
    then obtain ob where "heap s p = Some ob" "is_mutex ob" "\<not> list_obj ob"
      using table_lookup(2) [OF var_okD(3) [OF v] Some] by blast
    then show ?thesis using Some keepsD [OF k] by (simp add: mutex_of_def)
  qed (simp add: mutex_of_def)
qed

text \<open>The name has to fit: seven characters of the kind, the given name, and the terminating NUL.\<close>

definition name_fits :: "string \<Rightarrow> bool" where
  "name_fits nm \<longleftrightarrow> 7 + length nm < STR_LEN"

lemma name_fits_mutex [simp]: "name_fits nm \<Longrightarrow> strcpy_strncat MUTEX_NAME nm STR_LEN STR_LEN = Ret (MUTEX_NAME @ nm)"
  by (simp add: name_fits_def strcpy_strncat_def MUTEX_NAME_def STR_LEN_def)

lemma name_fits_cond [simp]: "name_fits nm \<Longrightarrow> strcpy_strncat COND_NAME nm STR_LEN STR_LEN = Ret (COND_NAME @ nm)"
  by (simp add: name_fits_def strcpy_strncat_def COND_NAME_def STR_LEN_def)

definition new_mutex :: "string \<Rightarrow> OS_MUTEX" where
  "new_mutex nm = \<lparr>mx_name = MUTEX_NAME @ nm, mx_owner = 0, mx_validity = 0,
                   mx_status = OS_MUTEX_FREE, mx_osid = False, mx_counter = 0\<rparr>"

lemma new_mutex_free [simp]: "mutex_free (new_mutex nm)"
  by (simp add: mutex_free_def new_mutex_def)

lemma os_mutex_create_cases:
  assumes E: "env_ok E" and v: "var_ok s M ms cs" and nm: "name_fits nm"
  obtains (failed) s' where "os_mutex_create E nm s = Ret (ERROR, s')" "var_ok s' M ms cs" "keeps s s'"
      "short E T_OS_MUTEX MUTEX_NAME s"
  | (created) p d r s' ms' where "os_mutex_create E nm s = Ret (r, s')" "r \<noteq> 0" "lookup ms r = None"
      "ms' = ms @ [(d, r, OS_LIST_NO_KEY, p)]" "heap s p = None"
      "var_ok s' (M(mutex_list s \<mapsto> (MUTEX_NAME, ms'))) ms' cs" "keeps s s'"
      "mutex_of s' ms' = (mutex_of s ms)(r \<mapsto> new_mutex nm)" "adds 2 s s'"
proof (rule obj_create_cases [OF E var_okD(1,3) [OF v], of "MutexObj (new_mutex nm)" T_OS_MUTEX])
  show "is_mutex (MutexObj (new_mutex nm))" "\<not> list_obj (MutexObj (new_mutex nm))" by simp_all
next
  assume "os_mem_alloc E (e_sizeof E T_OS_MUTEX) s = Ret (0, tick s)" "short E T_OS_MUTEX MUTEX_NAME s"
  then show ?thesis using v by (intro failed [of "tick s"]) (simp_all add: os_mutex_create_def)
next
  fix p s1 s2
  assume a: "os_mem_alloc E (e_sizeof E T_OS_MUTEX) s = Ret (p, s1)" "p \<noteq> 0" "keeps s s1"
    "os_list_item_insert E (mutex_list s) p (hput p (MutexObj (new_mutex nm)) s1) = Ret (ERROR, s2)"
    "os_mem_free p s2 = Ret (OKAY, hdel p s2)" "kit_ok (hdel p s2) M" "keeps s (hdel p s2)"
    "short E T_OS_MUTEX MUTEX_NAME s"
  have "os_mutex_create E nm s = Ret (ERROR, hdel p s2)"
    using a nm keeps_lists(1) [OF a(3)] by (simp add: os_mutex_create_def Let_def new_mutex_def)
  then show ?thesis using var_ok_keeps [OF v a(7,6)] a(7,8) by (intro failed) simp_all
next
  fix p s1 d r s'
  assume a: "os_mem_alloc E (e_sizeof E T_OS_MUTEX) s = Ret (p, s1)" "p \<noteq> 0" "heap s p = None" "keeps s s1"
      "os_list_item_insert E (mutex_list s) p (hput p (MutexObj (new_mutex nm)) s1) = Ret (r, s')" "r \<noteq> 0" "lookup ms r = None"
      "kit_ok s' (M(mutex_list s \<mapsto> (MUTEX_NAME, ms @ [(d, r, OS_LIST_NO_KEY, p)])))" "keeps s s'"
      "table s' (M(mutex_list s \<mapsto> (MUTEX_NAME, ms @ [(d, r, OS_LIST_NO_KEY, p)]))) (mutex_list s) MUTEX_NAME is_mutex
         (ms @ [(d, r, OS_LIST_NO_KEY, p)])"
      "heap s' p = Some (MutexObj (new_mutex nm))" "adds 2 s s'"
  let ?ms' = "ms @ [(d, r, OS_LIST_NO_KEY, p)]"
  have "upd_mutex p (\<lambda>m. m\<lparr>mx_osid := False\<rparr>) s' = Ret s'"
    using a(2,11) by (simp add: upd_mutex_def load_def hput_same new_mutex_def)
  then have run: "os_mutex_create E nm s = Ret (r, s')"
    using a nm keeps_lists(1) [OF a(4)] by (simp add: os_mutex_create_def Let_def new_mutex_def)
  have "table s' (M(mutex_list s \<mapsto> (MUTEX_NAME, ?ms'))) (cond_list s) COND_NAME is_cond cs"
    using table_ghost [OF table_keeps [OF var_okD(4) [OF v] a(9)] var_okD(2) [OF v]] .
  then have "var_ok s' (M(mutex_list s \<mapsto> (MUTEX_NAME, ?ms'))) ?ms' cs"
    using a(8,10) var_okD(2) [OF v] by (simp add: var_ok_def keeps_lists [OF a(9)])
  moreover have "mutex_of s' ?ms' = (mutex_of s ms)(r \<mapsto> new_mutex nm)"
  proof
    fix q show "mutex_of s' ?ms' q = ((mutex_of s ms)(r \<mapsto> new_mutex nm)) q"
      using a(7,11) fun_cong [OF mutex_of_keeps [OF v a(9)], of q]
      by (auto simp: mutex_of_def lookup_append lookup_Cons split: option.splits)
  qed
  ultimately show ?thesis using run a by (intro created [of r s' ?ms' d p]) simp_all
qed

lemma os_mutex_delete_found:
  assumes v: "var_ok s M ms cs" and p: "lookup ms r = Some p"
  shows "\<exists>s' ms'. os_mutex_delete r s = Ret (OKAY, s') \<and> ms' = filter (\<lambda>x. it_id (snd x) \<noteq> r) ms
     \<and> var_ok s' (M(mutex_list s \<mapsto> (MUTEX_NAME, ms'))) ms' cs
     \<and> mutex_of s' ms' = (mutex_of s ms)(r := None) \<and> keeps (hdel p s) s'"
proof -
  let ?ms' = "filter (\<lambda>x. it_id (snd x) \<noteq> r) ms"
  note t = var_okD(3) [OF v]
  obtain ob where ob: "p \<noteq> 0" "heap s p = Some ob" "is_mutex ob" using table_lookup [OF t p] by blast
  obtain s' where s': "os_list_item_delete (mutex_list s) r (hdel p s) = Ret (OKAY, s')" "keeps (hdel p s) s'"
      "heap s' p = None" "kit_ok s' (M(mutex_list s \<mapsto> (MUTEX_NAME, ?ms')))"
      "table s' (M(mutex_list s \<mapsto> (MUTEX_NAME, ?ms'))) (mutex_list s) MUTEX_NAME is_mutex ?ms'"
    using table_delete [OF var_okD(1) [OF v] t p] by blast
  have run: "os_mutex_delete r s = Ret (OKAY, s')"
    using ob p s'(1) kit_ok_mem [OF var_okD(1) [OF v]]
    by (simp add: os_mutex_delete_def os_mutex_find_eq [OF v])
  have kd: "heap s' a = Some x" if "heap s a = Some x" "\<not> list_obj x" "a \<noteq> p" for a x
    using keepsD [OF s'(2), of a x] that by simp
  have "table s' M (cond_list s) COND_NAME is_cond cs"
    by (rule table_frame [OF var_okD(4) [OF v]]) (use kd ob in \<open>metis is_cond_simps(3) option.inject\<close>)
  from table_ghost [OF this var_okD(2) [OF v]]
  have "var_ok s' (M(mutex_list s \<mapsto> (MUTEX_NAME, ?ms'))) ?ms' cs"
    using s'(4,5) keeps_lists [OF s'(2)] var_okD(2) [OF v] by (simp add: var_ok_def)
  moreover have "mutex_of s' ?ms' q = ((mutex_of s ms)(r := None)) q" for q
  proof (cases "q = r \<or> lookup ms q = None")
    case True
    then show ?thesis by (auto simp: mutex_of_def lookup_filter)
  next
    case False
    then obtain b where b: "lookup ms q = Some b" by auto
    with False table_inj [OF t p, of q] have "b \<noteq> p" by auto
    moreover obtain x where "heap s b = Some x" "\<not> list_obj x" using table_lookup(2) [OF t b] by blast
    ultimately show ?thesis using False b kd by (simp add: mutex_of_def lookup_filter)
  qed
  ultimately show ?thesis using run s'(2) by blast
qed

lemma os_mutex_unknown:
  assumes v: "var_ok s M ms cs" and r: "lookup ms r = None"
  shows "os_mutex_lock r t s = Ret (ERROR, s)" "os_mutex_delete r s = Ret (ERROR, s)"
    "os_mutex_unlock r s = Fault NullDeref"
  using r by (simp_all add: os_mutex_lock_def os_mutex_delete_def os_mutex_unlock_def os_mutex_find_eq [OF v]
      upd_mutex_def)

section \<open>Condition variables\<close>

definition new_cond :: "string \<Rightarrow> OS_COND" where
  "new_cond nm = \<lparr>cv_name = COND_NAME @ nm, cv_owner = 0, cv_mutex = False,
                  cv_sigtime = 0, cv_waittime = 0, cv_lock = False\<rparr>"

lemma os_cond_create_cases:
  assumes E: "env_ok E" and v: "var_ok s M ms cs" and nm: "name_fits nm"
  obtains (failed) s' where "os_cond_create E nm s = Ret (ERROR, s')" "var_ok s' M ms cs" "keeps s s'"
  | (created) p d r s' cs' where "os_cond_create E nm s = Ret (r, s')" "r \<noteq> 0" "lookup cs r = None"
      "cs' = cs @ [(d, r, OS_LIST_NO_KEY, p)]" "heap s p = None" "heap s' p = Some (CondObj (new_cond nm))"
      "var_ok s' (M(cond_list s \<mapsto> (COND_NAME, cs'))) ms cs'" "keeps s s'"
proof (rule obj_create_cases [OF E var_okD(1,4) [OF v], of "CondObj (new_cond nm)" T_OS_COND])
  show "is_cond (CondObj (new_cond nm))" "\<not> list_obj (CondObj (new_cond nm))" by simp_all
next
  assume "os_mem_alloc E (e_sizeof E T_OS_COND) s = Ret (0, tick s)"
  then show ?thesis using v by (intro failed [of "tick s"]) (simp_all add: os_cond_create_def)
next
  fix p s1 s2
  assume a: "os_mem_alloc E (e_sizeof E T_OS_COND) s = Ret (p, s1)" "p \<noteq> 0" "keeps s s1"
    "os_list_item_insert E (cond_list s) p (hput p (CondObj (new_cond nm)) s1) = Ret (ERROR, s2)"
    "os_mem_free p s2 = Ret (OKAY, hdel p s2)" "kit_ok (hdel p s2) M" "keeps s (hdel p s2)"
  have "os_cond_create E nm s = Ret (ERROR, hdel p s2)"
    using a nm keeps_lists(2) [OF a(3)] by (simp add: os_cond_create_def Let_def new_cond_def)
  then show ?thesis using var_ok_keeps [OF v a(7,6)] a(7) by (intro failed) simp_all
next
  fix p s1 d r s'
  assume a: "os_mem_alloc E (e_sizeof E T_OS_COND) s = Ret (p, s1)" "p \<noteq> 0" "heap s p = None" "keeps s s1"
      "os_list_item_insert E (cond_list s) p (hput p (CondObj (new_cond nm)) s1) = Ret (r, s')" "r \<noteq> 0" "lookup cs r = None"
      "kit_ok s' (M(cond_list s \<mapsto> (COND_NAME, cs @ [(d, r, OS_LIST_NO_KEY, p)])))" "keeps s s'"
      "table s' (M(cond_list s \<mapsto> (COND_NAME, cs @ [(d, r, OS_LIST_NO_KEY, p)]))) (cond_list s) COND_NAME is_cond
         (cs @ [(d, r, OS_LIST_NO_KEY, p)])"
      "heap s' p = Some (CondObj (new_cond nm))"
  let ?cs' = "cs @ [(d, r, OS_LIST_NO_KEY, p)]"
  have "upd_cond p (\<lambda>c. c\<lparr>cv_lock := False, cv_mutex := False\<rparr>) s' = Ret s'"
    using a(2,11) by (simp add: upd_cond_def load_def hput_same new_cond_def)
  then have run: "os_cond_create E nm s = Ret (r, s')"
    using a nm keeps_lists(2) [OF a(4)] by (simp add: os_cond_create_def Let_def new_cond_def)
  have "table s' (M(cond_list s \<mapsto> (COND_NAME, ?cs'))) (mutex_list s) MUTEX_NAME is_mutex ms"
    using table_ghost [OF table_keeps [OF var_okD(3) [OF v] a(9)] var_okD(2) [OF v, symmetric]] .
  then have "var_ok s' (M(cond_list s \<mapsto> (COND_NAME, ?cs'))) ms ?cs'"
    using a(8,10) var_okD(2) [OF v] by (simp add: var_ok_def keeps_lists [OF a(9)])
  then show ?thesis using run a by (intro created [of r s' ?cs' d p]) simp_all
qed

text \<open>
  A signal leaves nothing behind but its time; a release opens the mutex; waiting ends with the mutex
  held, when the environment comes back with the object in place and its mutex free.
\<close>

lemma cond_signal_step:
  assumes v: "var_ok s M ms cs" and p: "lookup cs r = Some p" "heap s p = Some (CondObj c)" "\<not> cv_mutex c"
  shows "os_cond_signal E r s =
     Ret (OKAY, hput p (CondObj (c\<lparr>cv_sigtime := e_time E (calls s)\<rparr>)) (tick s))"
proof -
  have p0: "p \<noteq> 0" using table_lookup(1) [OF var_okD(4) [OF v] p(1)] .
  then show ?thesis
    using p by (cases c) (simp add: os_cond_signal_def os_cond_find_eq [OF v] cond_mutex_lock_def load_def upd_cond_def
        os_time_get_def hput_def tick_def)
qed

lemma cond_release_step:
  assumes v: "var_ok s M ms cs" and p: "lookup cs r = Some p" "heap s p = Some (CondObj c)"
  shows "os_cond_release E r s =
     (if cv_mutex c then Ret (OKAY, hput p (CondObj (c\<lparr>cv_mutex := False\<rparr>)) s)
      else if e_unlock_free E then Ret (OKAY, s) else Fault Bad_Unlock)"
proof -
  have p0: "p \<noteq> 0" using table_lookup(1) [OF var_okD(4) [OF v] p(1)] .
  then show ?thesis
    using p by (simp add: os_cond_release_def os_cond_find_eq [OF v] load_def cond_mutex_unlock_def)
qed

lemma cond_acquire_step:
  assumes v: "var_ok s M ms cs" and p: "lookup cs r = Some p" "heap s p = Some (CondObj c)" "\<not> cv_mutex c"
  shows "os_cond_acquire E r s =
     obind (e_cond_wait E p (hput p (CondObj (c\<lparr>cv_waittime := e_time E (calls s)\<rparr>)) (tick s))) (\<lambda>(u, t).
     obind (cond_mutex_lock p t) (\<lambda>t.
     obind (upd_cond p (\<lambda>c. c\<lparr>cv_waittime := e_time E (calls t) - cv_waittime c\<rparr>) (tick t)) (\<lambda>t. Ret (OKAY, t))))"
proof -
  have p0: "p \<noteq> 0" using table_lookup(1) [OF var_okD(4) [OF v] p(1)] .
  have l: "cond_mutex_lock p s = Ret (hput p (CondObj (c\<lparr>cv_mutex := True\<rparr>)) s)"
    using p p0 by (simp add: cond_mutex_lock_def load_def)
  have t: "tick (hput p x s) = hput p x (tick s)" for x by (simp add: hput_def tick_def)
  have c: "c\<lparr>cv_mutex := False, cv_waittime := w\<rparr> = c\<lparr>cv_waittime := w\<rparr>" for w using p(3) by simp
  have u: "upd_cond p f (hput p (CondObj x) u) = Ret (hput p (CondObj (f x)) u)" for f x u
    using p0 by (simp add: upd_cond_def)
  show ?thesis
    using p p0 l by (cases c) (simp add: os_cond_acquire_def os_cond_find_eq [OF v] cond_wait_def t u
        os_time_get_def obind_assoc case_prod_unfold)
qed

end
