(* ===== verification/Mutex_Threads.thy ===== *)
theory Mutex_Threads
  imports Var_Laws
begin

text \<open>
  Several threads that lock and unlock one mutex of src/var.c, interleaved at every access to the
  mutex object. \<open>mutex_exec\<close> is one such access of \<open>os_mutex_lock(id,0)\<close> and
  \<open>os_mutex_unlock(id)\<close>; run to the end by a single thread the accesses are the functions of
  \<open>Os_Var\<close>, and interleaved they keep every other thread out.
\<close>

section \<open>Accesses\<close>

datatype mutex_pc =
    Idle      \<comment> \<open>outside, the next thing is \<open>_os_mutex_lock\<close>\<close>
  | L_validity | L_status | L_error
  | Holding   \<comment> \<open>the lock function has returned OKAY\<close>
  | U_status | U_release | U_error

fun mutex_exec :: "mutex_pc \<Rightarrow> OS_MUTEX \<Rightarrow> (mutex_pc \<times> OS_MUTEX) option" where
  "mutex_exec Idle m = (if mx_osid m then None else Some (L_validity, m\<lparr>mx_osid := True\<rparr>))"
| "mutex_exec L_validity m =
     (let m = m\<lparr>mx_validity := mx_validity m + 1\<rparr> in
      Some (if mx_validity m \<noteq> 1 then L_error else L_status, m))"
| "mutex_exec L_status m =
     (if mx_status m = OS_MUTEX_LOCKED then Some (L_error, m)
      else Some (Holding, m\<lparr>mx_status := OS_MUTEX_LOCKED\<rparr>))"
| "mutex_exec L_error m = Some (Idle, m\<lparr>mx_osid := False\<rparr>)"
| "mutex_exec Holding m =
     (let m = m\<lparr>mx_validity := mx_validity m - 1\<rparr> in
      Some (if mx_validity m \<noteq> 0 \<or> mx_status m \<noteq> OS_MUTEX_LOCKED then U_error else U_status, m))"
| "mutex_exec U_status m = Some (U_release, m\<lparr>mx_status := OS_MUTEX_FREE\<rparr>)"
| "mutex_exec U_release m = Some (Idle, m\<lparr>mx_osid := False\<rparr>)"
| "mutex_exec U_error m = Some (Idle, m\<lparr>mx_osid := False\<rparr>)"

definition mutex_exec_o :: "mutex_pc \<times> OS_MUTEX \<Rightarrow> (mutex_pc \<times> OS_MUTEX) outcome" where
  "mutex_exec_o x = (case mutex_exec (fst x) (snd x) of None \<Rightarrow> Fault Blocked | Some y \<Rightarrow> Ret y)"

text \<open>A thread that is not interrupted: from its first access until the function returns.\<close>

definition mutex_run :: "mutex_pc \<Rightarrow> OS_MUTEX \<Rightarrow> (mutex_pc \<times> OS_MUTEX) outcome" where
  "mutex_run pc m = obind (mutex_exec_o (pc, m))
     (while_o (\<lambda>x. fst x \<noteq> Idle \<and> fst x \<noteq> Holding) mutex_exec_o)"

lemmas mutex_run_simps = mutex_run_def mutex_exec_o_def while_o_unfold Let_def

lemma os_mutex_lock_run:
  assumes v: "var_ok s M ms cs" and p: "lookup ms r = Some p" "heap s p = Some (MutexObj m)"
  shows "os_mutex_lock r 0 s = obind (mutex_run Idle m) (\<lambda>(pc, m).
     Ret (if pc = Holding then OKAY else ERROR, hput p (MutexObj m) s))"
proof -
  have p0: "p \<noteq> 0" using table_lookup(1) [OF var_okD(3) [OF v] p(1)] .
  then show ?thesis
    using p by (simp add: os_mutex_lock_def os_mutex_find_eq [OF v] load_def upd_mutex_def mutex_run_simps)
qed

lemma os_mutex_unlock_run:
  assumes v: "var_ok s M ms cs" and p: "lookup ms r = Some p" "heap s p = Some (MutexObj m)"
  shows "os_mutex_unlock r s = obind (mutex_run Holding m) (\<lambda>(pc, m').
     Ret (if mx_validity m = 1 \<and> mx_status m = OS_MUTEX_LOCKED then OKAY else ERROR, hput p (MutexObj m') s))"
proof -
  have p0: "p \<noteq> 0" using table_lookup(1) [OF var_okD(3) [OF v] p(1)] .
  have "mx_validity m - 1 = 0 \<longleftrightarrow> mx_validity m = 1" by simp
  with p0 show ?thesis
    using p by (simp add: os_mutex_unlock_def os_mutex_find_eq [OF v] load_def upd_mutex_def mutex_run_simps)
qed

section \<open>Interleaving\<close>

inductive mutex_step :: "OS_MUTEX \<times> (nat \<Rightarrow> mutex_pc) \<Rightarrow> OS_MUTEX \<times> (nat \<Rightarrow> mutex_pc) \<Rightarrow> bool" where
  access: "mutex_exec (pcs t) m = Some (pc', m') \<Longrightarrow> mutex_step (m, pcs) (m', pcs(t := pc'))"

inductive mutex_reach :: "OS_MUTEX \<Rightarrow> OS_MUTEX \<times> (nat \<Rightarrow> mutex_pc) \<Rightarrow> bool" for m0 where
  start: "mutex_reach m0 (m0, \<lambda>_. Idle)"
| more: "mutex_reach m0 x \<Longrightarrow> mutex_step x y \<Longrightarrow> mutex_reach m0 y"

inductive_cases mutex_stepE: "mutex_step (m, pcs) y"

text \<open>What the object looks like while one thread is inside.\<close>

fun inside_ok :: "mutex_pc \<Rightarrow> OS_MUTEX \<Rightarrow> bool" where
  "inside_ok Idle m = mutex_free m"
| "inside_ok L_validity m \<longleftrightarrow> mx_osid m \<and> mx_validity m = 0 \<and> mx_status m = OS_MUTEX_FREE"
| "inside_ok L_status m \<longleftrightarrow> mx_osid m \<and> mx_validity m = 1 \<and> mx_status m = OS_MUTEX_FREE"
| "inside_ok Holding m = mutex_held m"
| "inside_ok U_status m \<longleftrightarrow> mx_osid m \<and> mx_validity m = 0 \<and> mx_status m = OS_MUTEX_LOCKED"
| "inside_ok U_release m \<longleftrightarrow> mx_osid m \<and> mx_validity m = 0 \<and> mx_status m = OS_MUTEX_FREE"
| "inside_ok L_error m = False"
| "inside_ok U_error m = False"

definition threads_ok :: "OS_MUTEX \<times> (nat \<Rightarrow> mutex_pc) \<Rightarrow> bool" where
  "threads_ok x \<longleftrightarrow> (\<exists>t. inside_ok (snd x t) (fst x) \<and> (\<forall>u. u \<noteq> t \<longrightarrow> snd x u = Idle))"

lemma inside_step:
  assumes "inside_ok pc m" and "mutex_exec pc m = Some (pc', m')"
  shows "inside_ok pc' m'"
  using assms by (cases pc) (auto simp: Let_def mutex_free_def mutex_held_def split: if_splits)

lemma inside_busy: "inside_ok pc m \<Longrightarrow> pc \<noteq> Idle \<Longrightarrow> mx_osid m"
  by (cases pc) (auto simp: mutex_held_def)

lemma threads_step:
  assumes "threads_ok x" and "mutex_step x y"
  shows "threads_ok y"
  using assms(2)
proof cases
  case (access pcs u m pc' m')
  from assms(1) access obtain t where t: "inside_ok (pcs t) m" "\<And>v. v \<noteq> t \<Longrightarrow> pcs v = Idle"
    by (auto simp: threads_ok_def)
  show ?thesis
  proof (cases "u = t \<or> pcs t = Idle")
    case True
    then have "inside_ok (pcs u) m" using t by (cases "u = t") auto
    moreover have "pcs v = Idle" if "v \<noteq> u" for v using True t(2) that by (cases "v = t") auto
    ultimately show ?thesis
      using inside_step access unfolding threads_ok_def by (intro exI [of _ u]) auto
  next
    case False
    then have "pcs u = Idle" "mx_osid m" using t inside_busy [OF t(1)] by auto
    with access show ?thesis by simp
  qed
qed

lemma reach_ok: "mutex_reach m0 x \<Longrightarrow> mutex_free m0 \<Longrightarrow> threads_ok x"
  by (induction rule: mutex_reach.induct) (auto simp: threads_ok_def intro: threads_step [unfolded threads_ok_def])

lemma threads_ok_enabled:
  assumes "threads_ok (m, pcs)"
  shows "\<exists>t y. mutex_exec (pcs t) m = Some y"
proof -
  from assms obtain t where t: "inside_ok (pcs t) m" by (auto simp: threads_ok_def)
  then show ?thesis by (intro exI [of _ t]) (cases "pcs t"; auto simp: mutex_free_def Let_def)
qed

end
