(* ===== verification/Demo.thy ===== *)
theory Demo
  imports Mutex_Threads
begin

text \<open>
  A concrete environment and a concrete state, for the theorems to be applied to: a bump allocator that
  refuses what does not fit, structures of 16 bytes, a clock that counts the calls, a free and a held
  mutex and a condition variable. \<open>strict_env\<close> is the same environment by the
  letter of POSIX: an unlock of a free pthread mutex is undefined. \<open>gap_env\<close> has an allocator that
  always finds room.
\<close>

definition demo_alloc :: "nat \<Rightarrow> u64 \<Rightarrow> heap \<Rightarrow> addr" where
  "demo_alloc n sz h =
     (let p = 0x10000 + of_nat n * 0x1000 in
      if list_all (\<lambda>i. p + of_nat i \<noteq> 0 \<and> h (p + of_nat i) = None) [0..<unat sz] then p else 0)"

definition demo_env :: os_env where
  "demo_env = \<lparr>e_region_alloc = (\<lambda>n r sz h. demo_alloc n sz h), e_region_create = (\<lambda>n p sz. p),
     e_malloc = demo_alloc, e_sizeof = (\<lambda>_. 16), e_time = of_nat,
     e_call = (\<lambda>f p s. Ret (OKAY, s)), e_cond_wait = (\<lambda>p s. Ret ((), s)),
     e_thread_create = (\<lambda>n. Some (of_nat n + 1)), e_thread_self = 1, e_unlock_free = True\<rparr>"

definition strict_env :: os_env where
  "strict_env = demo_env\<lparr>e_unlock_free := False\<rparr>"

lemma demo_alloc_fresh:
  "demo_alloc n sz h \<noteq> 0 \<Longrightarrow> i < unat sz \<Longrightarrow>
     demo_alloc n sz h + of_nat i \<noteq> 0 \<and> h (demo_alloc n sz h + of_nat i) = None"
  by (auto simp: demo_alloc_def Let_def list_all_iff split: if_splits)

lemma demo_env_ok [simp]: "env_ok demo_env" "env_ok strict_env"
  using demo_alloc_fresh
  by (auto simp: env_ok_def region_fresh_def malloc_fresh_def sizes_ok_def strict_env_def demo_env_def Let_def)

section \<open>An allocator that always finds room\<close>

text \<open>The first free place among the multiples of 2 MiB; there are more of them than objects.\<close>

definition gap_count :: nat where "gap_count = 2 ^ 20 + 2"

definition gap_at :: "nat \<Rightarrow> addr" where "gap_at j = of_nat (j * 2 ^ 21)"

definition gap_free :: "u64 \<Rightarrow> heap \<Rightarrow> addr \<Rightarrow> bool" where
  "gap_free sz h p \<longleftrightarrow> list_all (\<lambda>i. p + of_nat i \<noteq> 0 \<and> h (p + of_nat i) = None) [0..<unat sz]"

definition gap_alloc :: "u64 \<Rightarrow> heap \<Rightarrow> addr" where
  "gap_alloc sz h = (case find (gap_free sz h) (map gap_at [1..<gap_count]) of None \<Rightarrow> 0 | Some p \<Rightarrow> p)"

definition gap_env :: os_env where
  "gap_env = demo_env\<lparr>e_region_alloc := (\<lambda>n r sz h. gap_alloc sz h), e_malloc := (\<lambda>n sz h. gap_alloc sz h)\<rparr>"

lemma gap_alloc_fresh:
  assumes "gap_alloc sz h \<noteq> 0" "i < unat sz"
  shows "gap_alloc sz h + of_nat i \<noteq> 0 \<and> h (gap_alloc sz h + of_nat i) = None"
proof -
  from assms(1) obtain p where p: "find (gap_free sz h) (map gap_at [1..<gap_count]) = Some p" "gap_alloc sz h = p"
    by (auto simp: gap_alloc_def split: option.splits)
  then have "gap_free sz h p" by (auto simp: find_Some_iff)
  then show ?thesis using assms(2) p(2) by (simp add: gap_free_def list_all_iff)
qed

lemma unat_gap: "j < gap_count \<Longrightarrow> i < 2 ^ 21 \<Longrightarrow> unat (gap_at j + of_nat i) = j * 2 ^ 21 + i"
proof -
  assume a: "j < gap_count" "i < 2 ^ 21"
  then have "j * 2 ^ 21 + i < 2 ^ 64" by (simp add: gap_count_def)
  then have "unat (of_nat (j * 2 ^ 21 + i) :: u64) = j * 2 ^ 21 + i"
    by (simp add: unat_of_nat take_bit_nat_eq_self del: of_nat_add of_nat_mult)
  moreover have "gap_at j + of_nat i = of_nat (j * 2 ^ 21 + i)" by (simp add: gap_at_def)
  ultimately show ?thesis by (simp only:)
qed

lemma gap_alloc_finds:
  assumes "unat sz \<le> 2 ^ 20" "card (dom h) \<le> 2 ^ 20"
  shows "gap_alloc sz h \<noteq> 0"
proof (cases "find (gap_free sz h) (map gap_at [1..<gap_count])")
  case (Some p)
  then obtain j where "1 \<le> j" "j < gap_count" "p = gap_at j" by (fastforce simp: find_Some_iff)
  then have "unat p \<noteq> 0" using unat_gap [of j 0] by simp
  then show ?thesis using Some by (auto simp: gap_alloc_def)
next
  case None
  have ex: "\<exists>i < unat sz. gap_at j + of_nat i \<in> dom h" if j: "j \<in> {1..<gap_count}" for j
  proof -
    have "\<not> gap_free sz h (gap_at j)" using None j by (auto simp: find_None_iff)
    then obtain i where i: "i < unat sz" "gap_at j + of_nat i = 0 \<or> h (gap_at j + of_nat i) \<noteq> None" by (auto simp: gap_free_def list_all_iff)
    have "unat (gap_at j + of_nat i) \<noteq> 0" using unat_gap [of j i] j i(1) assms(1) by simp
    then have "gap_at j + of_nat i \<noteq> 0" by (metis unsigned_0)
    then show ?thesis using i by blast
  qed
  then obtain f where f: "\<And>j. j \<in> {1..<gap_count} \<Longrightarrow> f j < unat sz \<and> gap_at j + of_nat (f j) \<in> dom h" by metis
  have "inj_on (\<lambda>j. gap_at j + of_nat (f j)) {1..<gap_count}"
  proof (rule inj_onI)
    fix j k assume jk: "j \<in> {1..<gap_count}" "k \<in> {1..<gap_count}" "gap_at j + of_nat (f j) = gap_at k + of_nat (f k)"
    then have "j * 2 ^ 21 + f j = k * 2 ^ 21 + f k" using unat_gap [of j "f j"] unat_gap [of k "f k"] f [of j] f [of k] assms(1) by simp
    moreover have "f j < 2 ^ 21" "f k < 2 ^ 21" using f [OF jk(1)] f [OF jk(2)] assms(1) by simp_all
    ultimately show "j = k" by (metis add_left_imp_eq div_mult_self3 div_less add.commute add_0_right less_nat_zero_code zero_neq_numeral power_not_zero)
  qed
  then have "card {1..<gap_count} \<le> card (dom h)" by (rule card_inj_on_le) (use f in blast, simp)
  then show ?thesis using assms(2) by (simp add: gap_count_def)
qed

lemma gap_env_ok: "env_ok gap_env"
  using gap_alloc_fresh demo_env_ok(1) by (auto simp: env_ok_def region_fresh_def malloc_fresh_def sizes_ok_def gap_env_def Let_def)

section \<open>A state\<close>

lemma quiet_demo [simp]: "quiet_call demo_env f"
  by (simp add: quiet_call_def demo_env_def list_frame_def)

lemma pools_ok_table [simp]: "pools_ok os_res_pool_table"
  by (auto simp: pools_ok_def pool_ok_def os_res_pool_table_def mk_pool_def)

lemma used_table [simp]: "used_cells os_res_pool_table = {}"
proof -
  have "rp_usevec rp = replicate OS_MAX_RES 0" if "rp \<in> set os_res_pool_table" for rp
    using that by (auto simp: os_res_pool_table_def mk_pool_def)
  then show ?thesis by (auto simp: used_cells_def)
qed

lemma table_find_pool [simp]:
  "pool_find MUTEX_NAME os_res_pool_table 0 = Some 1" "pool_find COND_NAME os_res_pool_table 0 = Some 2"
  "length os_res_pool_table = 20"
  by (simp_all add: os_res_pool_table_def mk_pool_def res_name_defs strncmp_eq_def)

definition demo_items :: nodes where
  "demo_items = [(0x200, 0x20000000, 7, 0x900), (0x300, 0x20000001, 9, 0xa00)]"

definition demo_conds :: nodes where
  "demo_conds = [(0x400, 0x30000000, 5, 0xb00)]"

definition demo_heap :: heap where
  "demo_heap = [0x100 \<mapsto> ListObj (list_rec MUTEX_NAME False demo_items),
     0x180 \<mapsto> ListObj (list_rec COND_NAME False demo_conds),
     0x200 \<mapsto> DataObj (node (0x20000000, 7, 0x900) 0x300 0),
     0x300 \<mapsto> DataObj (node (0x20000001, 9, 0xa00) 0 0x200),
     0x400 \<mapsto> DataObj (node (0x30000000, 5, 0xb00) 0 0),
     0x900 \<mapsto> MutexObj (new_mutex ''one''), 0xa00 \<mapsto> MutexObj (lock_rec (new_mutex ''two'')),
     0xb00 \<mapsto> CondObj (new_cond ''one'')]"

definition demo_state :: os_state where
  "demo_state = \<lparr>heap = demo_heap, calls = 0, os_res_pool = mark 2 0 (mark 1 1 (mark 1 0 os_res_pool_table)),
     os_mem_initialized = True, os_mem_lock = False, os_sys_space = 0x1000, os_sys_region = 0x1000,
     os_system_pool_size = OS_SYSMEM_SIZE, mutex_list = 0x100, cond_list = 0x180, thread_list = 0,
     queue_list = 0, msgq_list = 0, buffer_class_list = 0, os_errno_var = 0,
     os_network_pool_size = 2048 * 1024, net_channel_pool = 0, net_port_pool = 0, net_proto_ready = True,
     net_out = (\<lambda>fd. [])\<rparr>"

definition demo_ghost :: ghost where
  "demo_ghost = [0x100 \<mapsto> (MUTEX_NAME, demo_items), 0x180 \<mapsto> (COND_NAME, demo_conds)]"

lemma demo_ghost_simps [simp]:
  "demo_ghost 0x100 = Some (MUTEX_NAME, demo_items)" "demo_ghost 0x180 = Some (COND_NAME, demo_conds)"
  by (simp_all add: demo_ghost_def)

lemma demo_state_simps [simp]:
  "heap demo_state = demo_heap" "mutex_list demo_state = 0x100" "cond_list demo_state = 0x180"
  by (simp_all add: demo_state_def)

lemma OS_MAX_RES_gt [simp]: "0 < OS_MAX_RES" "Suc 0 < OS_MAX_RES"
  by (simp_all add: OS_MAX_RES_def)

lemma demo_pools [simp]: "pools_ok (os_res_pool demo_state)"
  by (simp add: demo_state_def pools_ok_mark)

lemma demo_ids:
  "ids_used MUTEX_NAME (os_res_pool demo_state) = {0x20000000, 0x20000001}"
  "ids_used COND_NAME (os_res_pool demo_state) = {0x30000000}"
  "all_ids (os_res_pool demo_state) = {0x20000000, 0x20000001, 0x30000000}"
proof -
  have b: "rp_base (os_res_pool_table ! 1) = 0x20000000" "rp_base (os_res_pool_table ! 2) = 0x30000000"
    by (simp_all add: os_res_pool_table_def mk_pool_def)
  have b': "rp_base (mark (Suc 0) 0 os_res_pool_table ! 1) = 0x20000000"
    "rp_base (mark (Suc 0) (Suc 0) (mark (Suc 0) 0 os_res_pool_table) ! 2) = 0x30000000"
    using b by (simp_all add: mark_def)
  have u: "ids_used nm os_res_pool_table = {}" "all_ids os_res_pool_table = {}" for nm
    by (simp_all add: ids_used_def all_ids_def)
  show "ids_used MUTEX_NAME (os_res_pool demo_state) = {0x20000000, 0x20000001}"
    "ids_used COND_NAME (os_res_pool demo_state) = {0x30000000}"
    "all_ids (os_res_pool demo_state) = {0x20000000, 0x20000001, 0x30000000}"
    using b b' u by (auto simp: demo_state_def ids_mark pools_ok_mark cell_id_def)
qed

lemma demo_ok [simp]: "kit_ok demo_state demo_ghost"
proof -
  have "list_at demo_state 0x100 MUTEX_NAME False demo_items"
    unfolding list_at_def demo_state_simps
    by (simp add: demo_heap_def demo_items_def) (use demo_ids in simp)
  moreover have "list_at demo_state 0x180 COND_NAME False demo_conds"
    unfolding list_at_def demo_state_simps
    by (simp add: demo_heap_def demo_conds_def) (use demo_ids in simp)
  ultimately have "lists_ok demo_state demo_ghost"
    by (auto simp: lists_ok_def demo_ghost_def sep_def demo_items_def demo_conds_def split: if_splits)
  then show ?thesis by (simp add: kit_ok_def) (simp add: demo_state_def mem_ok_def)
qed

lemma demo_var_ok [simp]: "var_ok demo_state demo_ghost demo_items demo_conds"
proof -
  have "table demo_state demo_ghost 0x100 MUTEX_NAME is_mutex demo_items"
    by (simp add: table_def demo_items_def demo_heap_def)
  moreover have "table demo_state demo_ghost 0x180 COND_NAME is_cond demo_conds"
    by (simp add: table_def demo_conds_def demo_heap_def)
  ultimately show ?thesis by (simp add: var_ok_def)
qed

lemma demo_mutexes:
  "lookup demo_items 0x20000000 = Some 0x900" "lookup demo_items 0x20000001 = Some 0xa00"
  "demo_heap 0x900 = Some (MutexObj (new_mutex ''one''))"
  "demo_heap 0xa00 = Some (MutexObj (lock_rec (new_mutex ''two'')))"
  "mutex_of demo_state demo_items 0x20000000 = Some (new_mutex ''one'')"
  "mutex_of demo_state demo_items 0x20000001 = Some (lock_rec (new_mutex ''two''))"
  by (simp_all add: mutex_of_def lookup_Cons demo_items_def demo_heap_def)

lemma demo_cond:
  "lookup demo_conds 0x30000000 = Some 0xb00" "demo_heap 0xb00 = Some (CondObj (new_cond ''one''))"
  by (simp_all add: lookup_Cons demo_conds_def demo_heap_def)

end
