(* ===== verification/List_Props.thy ===== *)
theory List_Props
  imports Demo
begin

text \<open>
  The properties of src/res.c and src/list.c: what ids are handed out, and what every operation on a
  list does to its contents, the id pools and the blocks of the clients. Each property is applied to
  the concrete state of \<open>Demo\<close>.
\<close>

section \<open>Resource ids\<close>

text \<open>An id is allocated for a list: the pool of the list's name is exhausted, ERROR is returned
  and nothing changes; or the first free cell of the pool is taken, and its id is not null, was used
  in no pool before and is used now, along with all the ids used before.\<close>

theorem os_res_id_alloc_first_free:
  assumes "pools_ok (os_res_pool s)" and "load the_list h s = Ret l"
  shows "\<exists>r s'. os_res_id_alloc h s = Ret (r, s') \<and> pools_ok (os_res_pool s') \<and>
     (r = ERROR \<and> s' = s \<and> out_of_ids (ol_name l) s \<or>
      r \<noteq> 0 \<and> first_free_id (ol_name l) s r \<and> r \<notin> all_ids (os_res_pool s)
      \<and> r \<in> ids_used (ol_name l) (os_res_pool s') \<and> all_ids (os_res_pool s') = insert r (all_ids (os_res_pool s)))"
proof (rule os_res_id_alloc_cases [OF assms])
  fix ii i
  assume c: "pool_find (ol_name l) (os_res_pool s) 0 = Some ii" "ii < length (os_res_pool s)" "i < OS_MAX_RES"
      "(ii, i) \<notin> used_cells (os_res_pool s)" "\<And>j. j < i \<Longrightarrow> (ii, j) \<in> used_cells (os_res_pool s)"
      "os_res_id_alloc h s =
         Ret (cell_id (os_res_pool s) (ii, i), s\<lparr>os_res_pool := mark ii i (os_res_pool s)\<rparr>)"
  let ?r = "cell_id (os_res_pool s) (ii, i)"
  have "first_free_id (ol_name l) s ?r" using c(1,3-5) by (auto simp: first_free_id_def)
  moreover have "?r \<noteq> 0" using id_nonzero [OF assms(1) c(2,3)] by (simp add: cell_id_def)
  ultimately show ?thesis
    using c cell_id_fresh [OF assms(1) c(2-4)] ids_mark [OF assms(1) c(2,3)] pools_ok_mark(1) [OF assms(1) c(2)]
    by simp
qed (use assms in \<open>simp add: out_of_ids_def\<close>)

theorem os_res_id_alloc_witness:
  "pools_ok (os_res_pool demo_state) \<and> (\<exists>r s'. os_res_id_alloc 0x100 demo_state = Ret (r, s'))"
proof -
  have l: "load the_list 0x100 demo_state = Ret (list_rec MUTEX_NAME False demo_items)"
    by (simp add: load_def demo_state_def demo_heap_def)
  from os_res_id_alloc_first_free [OF demo_pools l] show ?thesis by auto
qed

text \<open>An id that is in use for a list's name is given back: OKAY, and of all the ids in use
  exactly this one is free again, so that the next allocation may hand it out.\<close>

theorem os_res_id_free_returns:
  assumes "pools_ok (os_res_pool s)" and "load the_list h s = Ret l" and "r \<in> ids_used (ol_name l) (os_res_pool s)"
  shows "\<exists>s'. os_res_id_free h r s = Ret (OKAY, s') \<and> pools_ok (os_res_pool s') \<and> heap s' = heap s
     \<and> all_ids (os_res_pool s') = all_ids (os_res_pool s) - {r}"
proof (rule os_res_id_free_used [OF assms])
  fix ii i
  assume c: "ii < length (os_res_pool s)" "i < OS_MAX_RES" "r = cell_id (os_res_pool s) (ii, i)"
    "os_res_id_free h r s = Ret (OKAY, s\<lparr>os_res_pool := unmark ii i (os_res_pool s)\<rparr>)"
  show ?thesis
    using c(3,4) ids_unmark(1) [OF assms(1) c(1,2)] pools_ok_mark(2) [OF assms(1) c(1)] by simp
qed

theorem os_res_id_free_witness:
  "\<exists>s'. os_res_id_free 0x100 0x20000001 demo_state = Ret (OKAY, s') \<and> all_ids (os_res_pool s') = {0x20000000, 0x30000000}"
proof -
  have l: "load the_list 0x100 demo_state = Ret (list_rec MUTEX_NAME False demo_items)"
    by (simp add: load_def demo_state_def demo_heap_def)
  have "0x20000001 \<in> ids_used (ol_name (list_rec MUTEX_NAME False demo_items)) (os_res_pool demo_state)"
    using demo_ids by simp
  from os_res_id_free_returns [OF demo_pools l this] show ?thesis using demo_ids by auto
qed

section \<open>Lists\<close>

text \<open>Appending an item to a sound list: when the memory for the node or the ids have run out,
  ERROR is returned and no list and no client block has changed; otherwise the item stands at the end
  of the list under a new id, the first free one, and the library invariant holds again.\<close>

theorem os_list_item_insert_appends:
  assumes "env_ok E" and "kit_ok s M" and "M hp = Some (nm, xs)"
  shows "\<exists>r s'. os_list_item_insert E hp data s = Ret (r, s') \<and> keeps s s' \<and>
     (r = ERROR \<and> kit_ok s' M \<and> (no_room E T_OS_LIST_DATA s \<or> out_of_ids nm s) \<or>
      (\<exists>d. r \<noteq> 0 \<and> heap s d = None \<and> first_free_id nm s r \<and> r \<notin> all_ids (os_res_pool s)
         \<and> kit_ok s' (M(hp \<mapsto> (nm, xs @ [(d, r, OS_LIST_NO_KEY, data)])))))"
  using assms
proof (cases rule: os_list_item_insert_cases [where data = data])
  case (failed s')
  then show ?thesis by blast
next
  case (inserted d r s')
  then show ?thesis by blast
qed

theorem os_list_item_insert_witness:
  "kit_ok demo_state demo_ghost \<and>
     (\<exists>r s'. os_list_item_insert demo_env 0x100 0xb00 demo_state = Ret (r, s') \<and> keeps demo_state s')"
  using os_list_item_insert_appends [OF demo_env_ok(1) demo_ok, of "0x100" MUTEX_NAME demo_items "0xb00"] by auto

text \<open>Removing an item by its id: the item leaves its list, the order of the others is kept, the
  node's memory and the id are free again and no client block has changed.\<close>

theorem os_list_item_delete_removes:
  assumes "kit_ok s M" and "M hp = Some (nm, xs)" and "(t, it) \<in> set xs" and "it_data it \<noteq> 0"
  shows "\<exists>s'. os_list_item_delete hp (it_id it) s = Ret (OKAY, s') \<and> keeps s s' \<and> heap s' t = None
     \<and> kit_ok s' (M(hp \<mapsto> (nm, filter (\<lambda>x. it_id (snd x) \<noteq> it_id it) xs)))
     \<and> all_ids (os_res_pool s') = all_ids (os_res_pool s) - {it_id it}"
  using os_list_item_delete_present [OF assms] by (auto simp: removed_def)

theorem os_list_item_delete_witness:
  "\<exists>s'. os_list_item_delete 0x100 0x20000001 demo_state = Ret (OKAY, s') \<and> heap s' 0x300 = None"
proof -
  have x: "(0x300, 0x20000001, 9, 0xa00) \<in> set demo_items" by (simp add: demo_items_def)
  from os_list_item_delete_removes [OF demo_ok demo_ghost_simps(1) x] show ?thesis by auto
qed

text \<open>C23. An ordered insertion puts the item behind all the items with a key that is not greater
  (keys compared as signed numbers), so a list sorted by key stays sorted.\<close>

theorem os_list_item_insert_order_sorted:
  assumes "env_ok E" and "kit_ok s M" and "M hp = Some (nm, xs)"
    and "sorted (map (\<lambda>x. sint (it_key (snd x))) xs)"
  shows "\<exists>r s'. os_list_item_insert_order E hp key data s = Ret (r, s') \<and> keeps s s' \<and>
     (r = ERROR \<and> kit_ok s' M \<and> (no_room E T_OS_LIST_DATA s \<or> out_of_ids nm s) \<or>
      (\<exists>d xs'. r \<noteq> 0 \<and> r \<notin> all_ids (os_res_pool s) \<and> kit_ok s' (M(hp \<mapsto> (nm, xs')))
         \<and> xs' = takeWhile (key_le key) xs @ (d, r, key, data) # dropWhile (key_le key) xs
         \<and> sorted (map (\<lambda>x. sint (it_key (snd x))) xs')))"
proof -
  note sorted = order_xs_sorted [OF assms(4)]
  from assms(1-3) show ?thesis
  proof (cases rule: os_list_item_insert_order_cases [where data = data and key = key])
    case (failed s')
    then show ?thesis by blast
  next
    case (inserted d r s')
    with sorted [of d r key data] show ?thesis unfolding order_xs_def by blast
  qed
qed

theorem os_list_item_insert_order_witness:
  "\<exists>r s'. os_list_item_insert_order demo_env 0x100 8 0xb00 demo_state = Ret (r, s') \<and> keeps demo_state s'"
proof -
  have "sorted (map (\<lambda>x. sint (it_key (snd x))) demo_items)" by (simp add: demo_items_def)
  from os_list_item_insert_order_sorted [OF demo_env_ok(1) demo_ok demo_ghost_simps(1) this]
  show ?thesis by blast
qed

text \<open>Popping a list returns the data pointer of its first item and leaves the rest; the node and
  the id of the item are free again.\<close>

theorem os_list_item_pop_takes_first:
  assumes "kit_ok s M" and "M hp = Some (nm, (t, it) # xs)" and "it_data it \<noteq> 0"
  shows "\<exists>s'. os_list_item_pop hp s = Ret (it_data it, s') \<and> keeps s s' \<and> heap s' t = None
     \<and> kit_ok s' (M(hp \<mapsto> (nm, xs))) \<and> all_ids (os_res_pool s') = all_ids (os_res_pool s) - {it_id it}"
  using os_list_item_pop_first [OF assms] by (auto simp: removed_def)

theorem os_list_item_pop_witness:
  "\<exists>s'. os_list_item_pop 0x100 demo_state = Ret (0x900, s') \<and> heap s' 0x200 = None"
proof -
  have "demo_ghost 0x100 = Some (MUTEX_NAME, (0x200, 0x20000000, 7, 0x900) # [(0x300, 0x20000001, 9, 0xa00)])"
    by (simp add: demo_items_def)
  from os_list_item_pop_takes_first [OF demo_ok this] show ?thesis by auto
qed

text \<open>Flushing a list, with a deletion callback that leaves the lists alone, empties it and gives
  every id of its items back; the other lists are as they were.\<close>

theorem os_list_flush_frees_all:
  assumes "quiet_call E f" and "kit_ok s M" and "M hp = Some (nm, xs)"
  shows "\<exists>s'. os_list_flush E hp f s = Ret (OKAY, s') \<and> kit_ok s' (M(hp \<mapsto> (nm, [])))
     \<and> all_ids (os_res_pool s') = all_ids (os_res_pool s) - set (ids xs)"
  by (rule os_list_flush_empties [OF assms])

theorem os_list_flush_witness:
  "\<exists>s'. os_list_flush demo_env 0x100 5 demo_state = Ret (OKAY, s') \<and> all_ids (os_res_pool s') = {0x30000000}"
  using os_list_flush_frees_all [OF quiet_demo demo_ok demo_ghost_simps(1), of 5] demo_ids
  by (auto simp: demo_items_def)

text \<open>The sanity check answers ERROR for every sound list that is not empty: it compares the back
  pointer of the first node with the node itself, and that pointer is NULL in a sound list.\<close>

theorem sanity_check_rejects_sound_lists:
  assumes "kit_ok s M" and "M hp = Some (nm, xs)"
  shows "os_list_item_sanity_check hp s = Ret (if xs = [] then OKAY else ERROR, s)"
  using sanity_check_nonempty [OF assms(1)] sanity_check_empty [OF assms(1)] assms(2)
  by (cases xs) auto

theorem sanity_check_witness:
  "os_list_item_sanity_check 0x100 demo_state = Ret (ERROR, demo_state)"
  using sanity_check_rejects_sound_lists [OF demo_ok demo_ghost_simps(1)] by (simp add: demo_items_def)

section \<open>The lists as a registry\<close>

text \<open>C1. Every sequence of insertions and removals on a list returns, the answers and the final
  contents are those of the specification \<open>reg_steps\<close>, and the ids of the entries are distinct.\<close>

theorem list_calls_refine_registry:
  assumes "list_rep E hp s xs" and "list_all cmd_ok cs"
  shows "\<exists>rs s' ys. registry.calls_run (os_list_item_insert E hp) (os_list_item_delete hp) cs s = Ret (rs, s')
     \<and> list_rep E hp s' ys \<and> reg_steps xs cs rs ys \<and> distinct (map fst ys)"
  using list_reg.calls_simulate [OF assms] list_reg.rep_ok unfolding entries_ok_def by blast

theorem list_calls_witness:
  "\<exists>rs s' ys. registry.calls_run (os_list_item_insert demo_env 0x100) (os_list_item_delete 0x100)
      [Ins 0xb00, Del 0x20000000, Del 3] demo_state = Ret (rs, s')
     \<and> reg_steps [(0x20000000, 0x900), (0x20000001, 0xa00)] [Ins 0xb00, Del 0x20000000, Del 3] rs ys"
proof -
  have "list_rep demo_env 0x100 demo_state [(0x20000000, 0x900), (0x20000001, 0xa00)]"
    unfolding list_rep_def using demo_ok demo_ghost_simps(1)
    by (auto simp: entries_ok_def entry_def demo_items_def intro!: exI [of _ demo_ghost])
  from list_calls_refine_registry [OF this, of "[Ins 0xb00, Del 0x20000000, Del 3]"]
  show ?thesis by (auto simp del: reg_steps_simps)
qed

end
