(* ===== verification/Var_Props.thy ===== *)
theory Var_Props
  imports Demo
begin

text \<open>
  The properties of src/var.c: what a mutex promises to one thread and to several, and what the error
  branches of the functions do.
\<close>

section \<open>Mutexes\<close>

text \<open>Creating a mutex with a name that fits: ERROR when memory or ids run out, with every mutex
  and every other block as before; otherwise a free mutex under a new id, next to the old ones.\<close>

theorem os_mutex_create_adds:
  assumes "env_ok E" and "var_ok s M ms cs" and "name_fits nm"
  shows "\<exists>r s'. os_mutex_create E nm s = Ret (r, s') \<and> keeps s s' \<and>
     (r = ERROR \<and> var_ok s' M ms cs \<or>
      (\<exists>M' ms'. r \<noteq> 0 \<and> mutex_of s ms r = None \<and> var_ok s' M' ms' cs
         \<and> mutex_of s' ms' = (mutex_of s ms)(r \<mapsto> new_mutex nm)))"
  using assms
proof (cases rule: os_mutex_create_cases)
  case (failed s')
  then show ?thesis by blast
next
  case (created p d r s' ms')
  moreover have "mutex_of s ms r = None" using created(3) by (simp add: mutex_of_def)
  ultimately show ?thesis by blast
qed

theorem os_mutex_create_witness:
  "\<exists>r s'. os_mutex_create demo_env ''abc'' demo_state = Ret (r, s') \<and> keeps demo_state s'"
proof -
  have "name_fits ''abc''" by (simp add: name_fits_def STR_LEN_def)
  from os_mutex_create_adds [OF demo_env_ok(1) demo_var_ok this] show ?thesis by blast
qed

text \<open>Locking a free mutex answers OKAY and leaves it held; unlocking it then answers OKAY and
  gives back exactly the state before; no other mutex is touched in between.\<close>

theorem mutex_lock_unlock_roundtrip:
  assumes "var_ok s M ms cs" and "mutex_of s ms r = Some m" and "mutex_free m"
  shows "\<exists>s'. os_mutex_lock r 0 s = Ret (OKAY, s') \<and> var_ok s' M ms cs
     \<and> mutex_of s' ms = (mutex_of s ms)(r \<mapsto> lock_rec m) \<and> mutex_held (lock_rec m)
     \<and> os_mutex_unlock r s' = Ret (OKAY, s)"
proof -
  from assms(2) obtain p where p: "lookup ms r = Some p" "heap s p = Some (MutexObj m)"
    by (auto simp: mutex_of_Some)
  let ?s' = "hput p (MutexObj (lock_rec m)) s"
  have v: "var_ok ?s' M ms cs" by (rule var_ok_hput [OF assms(1)]) (use p in auto)
  have "os_mutex_unlock r ?s' = Ret (OKAY, hput p (MutexObj (unlock_rec (lock_rec m))) ?s')"
    by (rule mutex_unlock_step [OF v p(1)]) simp_all
  then have "os_mutex_unlock r ?s' = Ret (OKAY, s)"
    using p(2) by (simp add: unlock_lock_rec [OF assms(3)] hput_same)
  then show ?thesis
    using mutex_lock_step [OF assms(1) p assms(3)] v mutex_of_hput [OF assms(1) p(1)] by simp
qed

theorem mutex_lock_unlock_witness:
  "\<exists>s'. os_mutex_lock 0x20000000 0 demo_state = Ret (OKAY, s') \<and> os_mutex_unlock 0x20000000 s' = Ret (OKAY, demo_state)"
  using mutex_lock_unlock_roundtrip [OF demo_var_ok demo_mutexes(5)] by auto

text \<open>C3. Threads that lock and unlock a mutex, interleaved at every access: at most one is inside at
  any moment, the object then says that it is held, no call ever ends in an error branch, and some
  thread can always go on.\<close>

theorem mutex_mutual_exclusion:
  assumes "mutex_free m0" and "mutex_reach m0 (m, pcs)"
  shows "(pcs t \<noteq> Idle \<and> pcs u \<noteq> Idle \<longrightarrow> t = u) \<and> (pcs t = Holding \<longrightarrow> mutex_held m)
     \<and> pcs t \<noteq> L_error \<and> pcs t \<noteq> U_error \<and> (\<exists>v y. mutex_exec (pcs v) m = Some y)"
proof -
  have ok: "threads_ok (m, pcs)" using reach_ok [OF assms(2,1)] .
  then obtain v where v: "inside_ok (pcs v) m" "\<And>w. w \<noteq> v \<Longrightarrow> pcs w = Idle" by (auto simp: threads_ok_def)
  have "pcs t \<noteq> Idle \<and> pcs u \<noteq> Idle \<longrightarrow> t = u" using v(2) [of t] v(2) [of u] by metis
  moreover have "(pcs t = Holding \<longrightarrow> mutex_held m) \<and> pcs t \<noteq> L_error \<and> pcs t \<noteq> U_error"
    using v by (cases "t = v") auto
  ultimately show ?thesis using threads_ok_enabled [OF ok] by blast
qed

theorem mutex_mutual_exclusion_witness:
  "mutex_reach (new_mutex ''a'') ((new_mutex ''a'')\<lparr>mx_osid := True\<rparr>, (\<lambda>_. Idle)(3 := L_validity))
     \<and> (\<exists>v y. mutex_exec (((\<lambda>_. Idle)(3 := L_validity)) (v :: nat)) ((new_mutex ''a'')\<lparr>mx_osid := True\<rparr>) = Some y)"
proof -
  have "mutex_step (new_mutex ''a'', \<lambda>_. Idle) ((new_mutex ''a'')\<lparr>mx_osid := True\<rparr>, (\<lambda>_. Idle)(3 := L_validity))"
    by (rule mutex_step.access) (simp add: new_mutex_def)
  note r = mutex_reach.more [OF mutex_reach.start this]
  then show ?thesis using mutex_mutual_exclusion [OF new_mutex_free r] by blast
qed

text \<open>The accesses that are interleaved there are those of the two functions: run without
  interruption they give the result and the new object of \<open>os_mutex_lock\<close> and of
  \<open>os_mutex_unlock\<close>, whatever the state of the mutex.\<close>

theorem mutex_functions_are_runs:
  assumes "var_ok s M ms cs" and "lookup ms r = Some p" and "heap s p = Some (MutexObj m)"
  shows "os_mutex_lock r 0 s = obind (mutex_run Idle m) (\<lambda>(pc, m').
       Ret (if pc = Holding then OKAY else ERROR, hput p (MutexObj m') s)) \<and>
     os_mutex_unlock r s = obind (mutex_run Holding m) (\<lambda>(pc, m').
       Ret (if mx_validity m = 1 \<and> mx_status m = OS_MUTEX_LOCKED then OKAY else ERROR, hput p (MutexObj m') s))"
  using os_mutex_lock_run [OF assms] os_mutex_unlock_run [OF assms] by blast

theorem mutex_functions_witness:
  "os_mutex_lock 0x20000000 0 demo_state = obind (mutex_run Idle (new_mutex ''one'')) (\<lambda>(pc, m').
       Ret (if pc = Holding then OKAY else ERROR, hput 0x900 (MutexObj m') demo_state))"
  using mutex_functions_are_runs [OF demo_var_ok demo_mutexes(1)] demo_mutexes(3) by simp

text \<open>Deleting a mutex that exists removes it and only it, and frees its block; no other client
  block changes.\<close>

theorem os_mutex_delete_removes:
  assumes "var_ok s M ms cs" and "lookup ms r = Some p"
  shows "\<exists>s' M' ms'. os_mutex_delete r s = Ret (OKAY, s') \<and> var_ok s' M' ms' cs
     \<and> mutex_of s' ms' = (mutex_of s ms)(r := None) \<and> keeps (hdel p s) s'"
  using os_mutex_delete_found [OF assms] by blast

theorem os_mutex_delete_witness:
  "\<exists>s'. os_mutex_delete 0x20000001 demo_state = Ret (OKAY, s')"
  using os_mutex_delete_removes [OF demo_var_ok demo_mutexes(2)] by blast

section \<open>Error branches\<close>

text \<open>An id no mutex has: locking and deleting answer ERROR and change nothing, but unlocking
  dereferences the null pointer it has just tested.\<close>

theorem mutex_unknown_id:
  assumes "var_ok s M ms cs" and "mutex_of s ms r = None"
  shows "os_mutex_lock r t s = Ret (ERROR, s) \<and> os_mutex_delete r s = Ret (ERROR, s)
     \<and> os_mutex_unlock r s = Fault NullDeref"
  using os_mutex_unknown [OF assms(1)] mutex_of_None [OF assms(1)] assms(2) by simp

theorem mutex_unknown_witness: "os_mutex_unlock 5 demo_state = Fault NullDeref"
proof -
  have "mutex_of demo_state demo_items 5 = None" by (simp add: mutex_of_def lookup_Cons demo_items_def)
  from mutex_unknown_id [OF demo_var_ok this] show ?thesis by blast
qed

text \<open>Locking with a time limit a mutex that is held reads a variable that was never initialised;
  without a limit the caller blocks.\<close>

theorem mutex_timed_lock_uninitialised:
  assumes "var_ok s M ms cs" and "mutex_of s ms r = Some m" and "mx_osid m" and "t \<noteq> 0"
  shows "os_mutex_lock r t s = Fault Uninit_Read \<and> os_mutex_lock r 0 s = Fault Blocked"
  using mutex_lock_blocks [OF assms(1)] assms(2-4) by (auto simp: mutex_of_Some)

theorem mutex_timed_lock_witness: "os_mutex_lock 0x20000001 50 demo_state = Fault Uninit_Read"
  using mutex_timed_lock_uninitialised [OF demo_var_ok demo_mutexes(6), of 50] by (simp add: lock_rec_def)

text \<open>Unlocking a mutex that is free answers ERROR and leaves its validity counter at 255, so
  that the next attempt to lock it answers ERROR although nobody holds it; the one after succeeds.\<close>

theorem mutex_unlock_free_poisons:
  assumes "var_ok s M ms cs" and "mutex_of s ms r = Some m" and "mutex_free m"
  shows "\<exists>s1 s2. os_mutex_unlock r s = Ret (ERROR, s1) \<and> os_mutex_lock r 0 s1 = Ret (ERROR, s) \<and>
     os_mutex_lock r 0 s = Ret (OKAY, s2)"
proof -
  from assms(2) obtain p where p: "lookup ms r = Some p" "heap s p = Some (MutexObj m)"
    by (auto simp: mutex_of_Some)
  let ?m1 = "m\<lparr>mx_validity := - 1\<rparr>"
  let ?s1 = "hput p (MutexObj ?m1) s"
  have v: "var_ok ?s1 M ms cs" by (rule var_ok_hput [OF assms(1)]) (use p in auto)
  have "os_mutex_lock r 0 ?s1 = Ret (ERROR, hput p (MutexObj (?m1\<lparr>mx_validity := 0\<rparr>)) ?s1)"
    by (rule mutex_lock_poisoned_step [OF v p(1)]) (use assms(3) in \<open>simp_all add: mutex_free_def\<close>)
  moreover have "?m1\<lparr>mx_validity := 0\<rparr> = m" using assms(3) by (cases m) (simp add: mutex_free_def)
  ultimately have "os_mutex_lock r 0 ?s1 = Ret (ERROR, s)" using p(2) by (simp add: hput_same)
  with mutex_unlock_free_step [OF assms(1) p assms(3)] mutex_lock_step [OF assms(1) p assms(3)]
  show ?thesis by blast
qed

theorem mutex_unlock_free_witness:
  "\<exists>s1. os_mutex_unlock 0x20000000 demo_state = Ret (ERROR, s1) \<and> os_mutex_lock 0x20000000 0 s1 = Ret (ERROR, demo_state)"
  using mutex_unlock_free_poisons [OF demo_var_ok demo_mutexes(5)] by auto

section \<open>Condition variables\<close>

text \<open>A timed wait whose microseconds add up to a second or more gives a nanosecond count the
  system refuses: the call answers OKAY without having waited for the other threads at all.\<close>

theorem cond_timeout_without_wait:
  assumes "var_ok s M ms cs" and "lookup cs r = Some p" and "heap s p = Some (CondObj c)" and "\<not> cv_mutex c"
    and "1000000 \<le> e_time E (calls s) mod 1000000 + tm mod 1000000"
  shows "\<exists>s'. os_cond_acquire_timeout E r tm s = Ret (OKAY, s') \<and>
     heap s' p = Some (CondObj (c\<lparr>cv_mutex := True, cv_waittime := e_time E (calls s + 2) - e_time E (calls s + 1)\<rparr>))"
proof -
  have p0: "p \<noteq> 0" using table_lookup(1) [OF var_okD(4) [OF assms(1)] assms(2)] .
  have "\<not> timespec_nsec (e_time E (calls s)) tm < 1000000000"
  proof -
    let ?a = "e_time E (calls s) mod 1000000" and ?b = "tm mod 1000000"
    have "unat ?a < 1000000" "unat ?b < 1000000" by (simp_all add: unat_mod)
    moreover have "1000000 \<le> unat (?a + ?b)" using assms(5) by (simp add: word_le_nat_alt)
    ultimately have "unat ((?a + ?b) * 1000) = unat (?a + ?b) * 1000"
      by (simp add: unat_word_ariths)
    then show ?thesis using \<open>1000000 \<le> unat (?a + ?b)\<close> by (simp add: timespec_nsec_def word_less_nat_alt)
  qed
  then show ?thesis
    using assms(2-4) p0 by (cases c) (simp add: os_cond_acquire_timeout_def os_cond_find_eq [OF assms(1)]
        cond_mutex_lock_def load_def upd_cond_def os_time_get_def cond_timedwait_def)
qed

theorem cond_timeout_witness:
  "\<exists>s'. os_cond_acquire_timeout (demo_env\<lparr>e_time := (\<lambda>n. 999999)\<rparr>) 0x30000000 500 demo_state = Ret (OKAY, s')"
proof -
  have "heap demo_state 0xb00 = Some (CondObj (new_cond ''one''))" "\<not> cv_mutex (new_cond ''one'')"
    using demo_cond(2) by (simp_all add: new_cond_def)
  from cond_timeout_without_wait [OF demo_var_ok demo_cond(1) this, of "demo_env\<lparr>e_time := (\<lambda>n. 999999)\<rparr>" 500]
  show ?thesis by auto
qed

end
