(* ===== verification/Os_Buff.thy ===== *)
theory Os_Buff
  imports Os_Var
begin

text \<open>
  src/buff.c: buffer classes, pools of memory from which blocks are handed out. In front of the bytes a
  caller gets there are 24 bytes of bookkeeping (a magic number, the requested size, the class id, the
  history node of the block), behind them an ending marker; the store holds them as one
  \<open>BuffHdrObj\<close> at the start of the block and the caller's bytes as an object 24 bytes further.
\<close>

section \<open>Sizes\<close>

definition BOUNDARY_MAGIC_NUM :: u32 where "BOUNDARY_MAGIC_NUM = 0x5a5aefe5"
definition BUFF_OFFSET_SIZE :: u64 where "BUFF_OFFSET_SIZE = 24"
definition BUFF_GET_ID :: u32 where "BUFF_GET_ID = 0x11"
definition BUFF_GET_SIZE :: u32 where "BUFF_GET_SIZE = 0x22"

definition MEM_ALIGN :: "u64 \<Rightarrow> u64 \<Rightarrow> u64" where
  "MEM_ALIGN sz ab = (sz AND NOT (ab - 1)) + ab"

definition CALC_ACTUAL_BUFF_SIZE :: "u32 \<Rightarrow> u32" where
  "CALC_ACTUAL_BUFF_SIZE sz = ucast (MEM_ALIGN (ucast sz + BUFF_OFFSET_SIZE + 32) 8)"

section \<open>libc memory\<close>

text \<open>Freeing a pool frees everything that lies in it.\<close>

definition os_free_pool :: "addr \<Rightarrow> u64 \<Rightarrow> os_state \<Rightarrow> os_state outcome" where
  "os_free_pool a n s =
     (if heap s a = None then Fault BadPtr
      else Ret (s\<lparr>heap := (\<lambda>p. if p - a < n then None else heap s p)\<rparr>))"

section \<open>Classes\<close>

definition upd_class :: "addr \<Rightarrow> (buff_class_node \<Rightarrow> buff_class_node) \<Rightarrow> os_state \<Rightarrow> os_state outcome" where
  "upd_class p f s = obind (load the_class p s) (\<lambda>c. Ret (hput p (ClassObj (f c)) s))"

definition buff_init :: "os_env \<Rightarrow> u32 os" where
  "buff_init E s =
     obind (os_list_create E BUFFER_CLASS_NAME s) (\<lambda>(l, s).
     let s = s\<lparr>buffer_class_list := l\<rparr> in
     if l = 0 then Ret (ERROR, s) else Ret (OKAY, s))"

definition buff_class_comparator :: "u32 \<Rightarrow> addr \<Rightarrow> os_state \<Rightarrow> u32 outcome" where
  "buff_class_comparator arg d s =
     obind (load the_data d s) (\<lambda>n.
     if ld_data n = 0 then Ret ERROR
     else obind (load the_class (ld_data n) s) (\<lambda>cls.
       if bc_id cls = arg then Ret OKAY else Ret ERROR))"

definition buff_class_find :: "u32 \<Rightarrow> os_state \<Rightarrow> addr outcome" where
  "buff_class_find rid s =
     obind (os_list_find (buffer_class_list s) (buff_class_comparator rid) s) (\<lambda>d.
     if d = 0 then Ret 0 else obind (load the_data d s) (\<lambda>n. Ret (ld_data n)))"

definition buff_history_class :: "u32 \<Rightarrow> u32 \<Rightarrow> u32 os" where
  "buff_history_class rid flag s =
     obind (buff_class_find rid s) (\<lambda>p.
     if p = 0 then Ret (ERROR, s)
     else obind (load the_class p s) (\<lambda>cls.
     if flag = 1
     then if bc_h_start cls \<noteq> 0 then Ret (ERROR, s)
          else obind (upd_class p (\<lambda>c. c\<lparr>bc_h_start := 1\<rparr>) s) (\<lambda>s. Ret (OKAY, s))
     else if flag = 0
     then if bc_h_start cls = 0 then Ret (ERROR, s)
          else obind (upd_class p (\<lambda>c. c\<lparr>bc_h_start := 0\<rparr>) s) (\<lambda>s. Ret (OKAY, s))
     else Ret (ERROR, s)))"

text \<open>
  The error paths of the creation: they delete the class lock and free the class node, none of them
  deletes the history lock; \<open>pool\<close> is the memory that is freed too.
\<close>

definition class_abort :: "u32 \<Rightarrow> addr \<Rightarrow> (addr \<times> u64) option \<Rightarrow> u32 os" where
  "class_abort lock p pool s =
     obind (case pool of None \<Rightarrow> Ret s | Some (a, n) \<Rightarrow> os_free_pool a n s) (\<lambda>s.
     obind (os_mutex_delete lock s) (\<lambda>(r, s).
     obind (os_mem_free p s) (\<lambda>(r, s). Ret (ERROR, s))))"

text \<open>The part after the locks: from the memory of the pool to the registered class.\<close>

definition buff_create_pool ::
    "os_env \<Rightarrow> u32 \<Rightarrow> u32 \<Rightarrow> addr \<Rightarrow> u32 \<Rightarrow> u32 \<Rightarrow> u32 \<Rightarrow> addr \<Rightarrow> u8 \<Rightarrow> u32 os" where
  "buff_create_pool E rid sz p lock h_lock init_size system_base fixedbase s =
     (let s = hput system_base (Zeroed (ucast init_size)) s;
          pool = (if fixedbase = 0 then Some (system_base, ucast init_size) else None);
          base = MEM_ALIGN system_base 0x20 in
      if base = 0 \<or> base < system_base then class_abort lock p pool s
      else let real_size = init_size - ucast (base - system_base);
               data = e_region_create E (calls s) base (ucast real_size); s = tick s in
        if data = 0 then class_abort lock p pool s
        else obind (sprintf_into (os_res_make_name BUFFER_NAME rid) STR_LEN) (\<lambda>tname.
        let s = hput p (ClassObj \<lparr>bc_id = rid, bc_objectid = 0, bc_name = strncpy tname STR_LEN,
                  bc_osize = sz, bc_totsize = real_size, bc_availsize = real_size, bc_numblocks = 0,
                  bc_lock = lock, bc_data = data, bc_base = base, bc_system_base = system_base,
                  bc_fixedbase = fixedbase, bc_h_start = 0, bc_h_lock = h_lock, bc_h = 0\<rparr>) s in
        obind (os_list_item_insert E (buffer_class_list s) p s) (\<lambda>(res, s).
        if res = ERROR then class_abort lock p (Some (system_base, ucast init_size)) s
        else obind (upd_class p (\<lambda>c. c\<lparr>bc_objectid := res, bc_h_start := 0, bc_h := 0\<rparr>) s) (\<lambda>s.
          obind (buff_history_class rid 1 s) (\<lambda>(r, s). Ret (OKAY, s))))))"

definition buff_create_class :: "os_env \<Rightarrow> u32 \<Rightarrow> addr \<Rightarrow> u32 \<Rightarrow> u32 os" where
  "buff_create_class E rid baseaddr sz s =
     obind (os_mem_alloc E (e_sizeof E T_buff_class_node) s) (\<lambda>(p, s).
     if p = 0 then Ret (ERROR, s)
     else obind (sprintf_into (os_res_make_name MUTEX_NAME rid) STR_LEN) (\<lambda>tname.
     obind (os_mutex_create E tname s) (\<lambda>(lock, s).
     if lock = ERROR then obind (os_mem_free p s) (\<lambda>(r, s). Ret (ERROR, s))
     else obind (sprintf_into (os_res_make_name MUTEX_NAME (rid + 1)) STR_LEN) (\<lambda>tname.
     obind (os_mutex_create E tname s) (\<lambda>(h_lock, s).
     if h_lock = ERROR then obind (os_mem_free p s) (\<lambda>(r, s). Ret (ERROR, s))
     else if baseaddr \<noteq> 0
     then if sz < 2 * 4096 then class_abort lock p None s
          else if heap s baseaddr = None then Fault BadPtr
          else buff_create_pool E rid sz p lock h_lock sz baseaddr 1 s
     else if sz < 4096 then class_abort lock p None s
     else let init_size = sz + 4096 in
       obind (os_malloc E (ucast init_size) s) (\<lambda>(system_base, s).
       if system_base = 0 then class_abort lock p None s
       else buff_create_pool E rid sz p lock h_lock init_size system_base 0 s))))))"

text \<open>The chain of history nodes.\<close>

definition hist_delete_body :: "addr \<times> os_state \<Rightarrow> (addr \<times> os_state) outcome" where
  "hist_delete_body = (\<lambda>(trace, s).
     obind (load the_hist trace s) (\<lambda>n. obind (os_free trace s) (\<lambda>s. Ret (bh_next n, s))))"

definition buff_delete_class :: "u32 \<Rightarrow> u32 os" where
  "buff_delete_class rid s =
     obind (buff_class_find rid s) (\<lambda>p.
     if p = 0 then Ret (ERROR, s)
     else obind (load the_class p s) (\<lambda>cls.
     obind (if bc_h_start cls \<noteq> 0 then buff_history_class rid 0 s else Ret (OKAY, s)) (\<lambda>(r, s).
     obind (os_mutex_lock (bc_h_lock cls) 0 s) (\<lambda>(r, s).
     obind (while_o (\<lambda>(trace, s). trace \<noteq> 0) hist_delete_body (bc_h cls, s)) (\<lambda>(trace, s).
     obind (os_mutex_unlock (bc_h_lock cls) s) (\<lambda>(r, s).
     obind (os_mutex_delete (bc_h_lock cls) s) (\<lambda>(r, s).
     obind (os_mutex_delete (bc_lock cls) s) (\<lambda>(r, s).
     obind (if bc_fixedbase cls = 0
            then os_free_pool (bc_system_base cls)
                   (bc_base cls - bc_system_base cls + ucast (bc_totsize cls)) s
            else Ret s) (\<lambda>s.
     obind (os_list_item_delete (buffer_class_list s) (bc_objectid cls) s) (\<lambda>(res, s).
     if res = ERROR then Ret (ERROR, s)
     else obind (os_mem_free p s) (\<lambda>(r, s). Ret (OKAY, s))))))))))))"

section \<open>Blocks\<close>

definition hist_last_body :: "os_state \<Rightarrow> addr \<times> addr \<Rightarrow> (addr \<times> addr) outcome" where
  "hist_last_body s = (\<lambda>(pivot, nx). obind (load the_hist nx s) (\<lambda>n. Ret (nx, bh_next n)))"

definition hist_append :: "addr \<Rightarrow> addr \<Rightarrow> os_state \<Rightarrow> os_state outcome" where
  "hist_append p h_temp s =
     obind (load the_class p s) (\<lambda>cls.
     if bc_h cls \<noteq> 0
     then obind (load the_hist (bc_h cls) s) (\<lambda>first.
          obind (while_o (\<lambda>(pivot, nx). nx \<noteq> 0) (hist_last_body s) (bc_h cls, bh_next first)) (\<lambda>(pivot, nx).
          obind (load the_hist pivot s) (\<lambda>n. Ret (hput pivot (HistObj (n\<lparr>bh_next := h_temp\<rparr>)) s))))
     else upd_class p (\<lambda>c. c\<lparr>bc_h := h_temp\<rparr>) s)"

definition set_hloc :: "addr \<Rightarrow> addr \<Rightarrow> os_state \<Rightarrow> os_state outcome" where
  "set_hloc b v s = obind (load the_buff_hdr b s) (\<lambda>x. Ret (hput b (BuffHdrObj (x\<lparr>bb_hloc := v\<rparr>)) s))"

definition buff_alloc_data :: "os_env \<Rightarrow> u32 \<Rightarrow> u32 \<Rightarrow> addr os" where
  "buff_alloc_data E rid sz s =
     obind (buff_class_find rid s) (\<lambda>p.
     if p = 0 then Ret (0, s)
     else if sz = 0 then Ret (0, s)
     else obind (load the_class p s) (\<lambda>cls.
     let refuse = (\<lambda>s. obind (os_mutex_unlock (bc_lock cls) s) (\<lambda>(r, s). Ret (0, s))) in
     obind (os_mutex_lock (bc_lock cls) 0 s) (\<lambda>(r, s).
     if bc_osize cls < sz then refuse s
     else let real_len = CALC_ACTUAL_BUFF_SIZE sz in
     if bc_totsize cls \<le> real_len then refuse s
     else if bc_availsize cls \<le> real_len then refuse s
     else let b = e_region_alloc E (calls s) (bc_data cls) (ucast real_len) (heap s); s = tick s in
     if b = 0 then refuse s
     else let s = hput (b + BUFF_OFFSET_SIZE) (Uninit (ucast sz))
               (hput b (BuffHdrObj \<lparr>bb_magic = ucast BOUNDARY_MAGIC_NUM, bb_size = sz, bb_id = rid,
                                    bb_hloc = 0, bb_end = BOUNDARY_MAGIC_NUM\<rparr>) s) in
     obind (upd_class p (\<lambda>c. c\<lparr>bc_availsize := bc_availsize c - real_len,
                               bc_numblocks := bc_numblocks c + 1\<rparr>) s) (\<lambda>s.
     obind (if bc_h_start cls \<noteq> 0
            then obind (os_malloc E (ucast (e_sizeof E T_buff_history_st)) s) (\<lambda>(h_temp, s).
                 if h_temp = 0 then set_hloc b 0 s
                 else let s = hput h_temp (HistObj \<lparr>bh_oname = '''', bh_size = sz, bh_data = b, bh_next = 0\<rparr>) s in
                   obind (os_mutex_lock (bc_h_lock cls) 0 s) (\<lambda>(r, s).
                   obind (hist_append p h_temp s) (\<lambda>s.
                   obind (set_hloc b h_temp s) (\<lambda>s.
                   obind (os_mutex_unlock (bc_h_lock cls) s) (\<lambda>(r, s). Ret s)))))
            else set_hloc b 0 s) (\<lambda>s.
     obind (os_mutex_unlock (bc_lock cls) s) (\<lambda>(r, s). Ret (b + BUFF_OFFSET_SIZE, s)))))))"

text \<open>Looking a block up in the history, and the walk that also remembers the predecessor.\<close>

definition hist_search_body :: "os_state \<Rightarrow> addr \<Rightarrow> bool \<times> addr \<Rightarrow> (bool \<times> addr) outcome" where
  "hist_search_body s b = (\<lambda>(found, hst). obind (load the_hist hst s) (\<lambda>n.
     if bh_data n = b then Ret (True, hst) else Ret (False, bh_next n)))"

definition hist_prev_body :: "os_state \<Rightarrow> addr \<times> addr \<Rightarrow> (addr \<times> addr) outcome" where
  "hist_prev_body s = (\<lambda>(prev, trace). obind (load the_hist trace s) (\<lambda>n. Ret (trace, bh_next n)))"

definition hist_remove :: "addr \<Rightarrow> addr \<Rightarrow> u32 \<Rightarrow> addr \<Rightarrow> bool option \<Rightarrow> os_state \<Rightarrow> os_state outcome" where
  "hist_remove p hst sz b block_found s =
     obind (load the_class p s) (\<lambda>cls.
     obind (if bc_h cls = hst
            then obind (load the_hist hst s) (\<lambda>n.
                 obind (upd_class p (\<lambda>c. c\<lparr>bc_h := bh_next n\<rparr>) s) (\<lambda>s. Ret (hst, s)))
            else obind (while_o (\<lambda>(prev, trace). trace \<noteq> hst \<and> trace \<noteq> 0) (hist_prev_body s) (0, bc_h cls))
                   (\<lambda>(prev, trace).
                 if trace = 0 then Ret (0, s)
                 else obind (load the_hist trace s) (\<lambda>n.
                      obind (load the_hist prev s) (\<lambda>pn.
                      Ret (trace, hput prev (HistObj (pn\<lparr>bh_next := bh_next n\<rparr>)) s))))) (\<lambda>(trace, s).
     obind (load the_hist trace s) (\<lambda>n.
     if bh_size n = sz \<and> bh_data n = b \<and> block_found = None then Fault Uninit_Read
     else os_free trace s)))"

definition buff_free_data :: "u32 \<Rightarrow> addr \<Rightarrow> u32 os" where
  "buff_free_data rid buff s =
     (if buff = 0 then Ret (ERROR, s)
      else let b = buff - BUFF_OFFSET_SIZE in
      obind (buff_class_find rid s) (\<lambda>p.
      if p = 0 then Ret (ERROR, s)
      else obind (load the_class p s) (\<lambda>cls.
      obind (os_mutex_lock (bc_lock cls) 0 s) (\<lambda>(r, s).
      obind (if bc_h_start cls \<noteq> 0
             then obind (os_mutex_lock (bc_h_lock cls) 0 s) (\<lambda>(r, s).
                  obind (while_o (\<lambda>(found, hst). \<not> found \<and> hst \<noteq> 0) (hist_search_body s b) (False, bc_h cls))
                    (\<lambda>(found, hst).
                  obind (os_mutex_unlock (bc_h_lock cls) s) (\<lambda>(r, s). Ret (Some found, s))))
             else Ret (None, s)) (\<lambda>(block_found, s).
      if block_found = Some False
      then obind (os_mutex_unlock (bc_lock cls) s) (\<lambda>(r, s). Ret (ERROR, s))
      else obind (load the_buff_hdr b s) (\<lambda>hdr.
      obind (if bb_hloc hdr \<noteq> 0
             then obind (os_mutex_lock (bc_h_lock cls) 0 s) (\<lambda>(r, s).
                  obind (hist_remove p (bb_hloc hdr) (bb_size hdr) b block_found s) (\<lambda>s.
                  obind (os_mutex_unlock (bc_h_lock cls) s) (\<lambda>(r, s). Ret s)))
             else Ret s) (\<lambda>s.
      let real_len = CALC_ACTUAL_BUFF_SIZE (bb_size hdr);
          s = hdel (b + BUFF_OFFSET_SIZE) (hdel b s) in
      obind (upd_class p (\<lambda>c. c\<lparr>bc_availsize := bc_availsize c + real_len,
                                bc_numblocks := bc_numblocks c - 1\<rparr>) s) (\<lambda>s.
      obind (os_mutex_unlock (bc_lock cls) s) (\<lambda>(r, s). Ret (OKAY, s))))))))))"

definition buff_current_availsize :: "u32 \<Rightarrow> os_state \<Rightarrow> u32 outcome" where
  "buff_current_availsize rid s =
     obind (buff_class_find rid s) (\<lambda>p.
     if p = 0 then Ret ERROR else obind (load the_class p s) (\<lambda>cls. Ret (bc_availsize cls)))"

definition buff_get_info :: "u32 \<Rightarrow> addr \<Rightarrow> os_state \<Rightarrow> u32 outcome" where
  "buff_get_info command buff s =
     (if buff = 0 then Ret ERROR
      else if command = BUFF_GET_ID
      then obind (load the_buff_hdr (buff - BUFF_OFFSET_SIZE) s) (\<lambda>h. Ret (bb_id h))
      else if command = BUFF_GET_SIZE
      then obind (load the_buff_hdr (buff - BUFF_OFFSET_SIZE) s) (\<lambda>h. Ret (bb_size h))
      else Ret ERROR)"

text \<open>
  The report on a class takes both locks and reads every block of the history; what it prints is left
  out.
\<close>

definition hist_report_body :: "os_state \<Rightarrow> addr \<Rightarrow> addr outcome" where
  "hist_report_body s trace =
     obind (load the_hist trace s) (\<lambda>n. obind (load the_buff_hdr (bh_data n) s) (\<lambda>h. Ret (bh_next n)))"

definition buff_printout_stats :: "addr \<Rightarrow> os_state \<Rightarrow> os_state outcome" where
  "buff_printout_stats p s =
     (if p = 0 then Ret s
      else obind (load the_class p s) (\<lambda>cls.
      obind (os_mutex_lock (bc_lock cls) 0 s) (\<lambda>(r, s).
      obind (if bc_h_start cls \<noteq> 0
             then obind (os_mutex_lock (bc_h_lock cls) 0 s) (\<lambda>(r, s).
                  obind (while_o (\<lambda>trace. trace \<noteq> 0) (hist_report_body s) (bc_h cls)) (\<lambda>_.
                  obind (os_mutex_unlock (bc_h_lock cls) s) (\<lambda>(r, s). Ret s)))
             else Ret s) (\<lambda>s.
      obind (os_mutex_unlock (bc_lock cls) s) (\<lambda>(r, s). Ret s)))))"

definition buff_verbose :: "u32 \<Rightarrow> u32 os" where
  "buff_verbose rid s =
     (if rid = - 1
      then obind (os_list_navigate (buffer_class_list s) None
                   (Some (\<lambda>d s. obind (load the_data d s) (\<lambda>n. buff_printout_stats (ld_data n) s))) s)
             (\<lambda>s. Ret (OKAY, s))
      else obind (buff_class_find rid s) (\<lambda>p.
        if p = 0 then Ret (ERROR, s)
        else obind (buff_printout_stats p s) (\<lambda>s. Ret (OKAY, s))))"

end
