(* ===== verification/Os_Qbuff.thy ===== *)
theory Os_Qbuff
  imports Os_Buff
begin

text \<open>
  src/qbuff.c: byte queues. A queue is a head with a singly linked chain of nodes, each with a copy of
  the bytes of one \<open>os_qbuff_put\<close> and the position up to which they have been read;
  \<open>os_qbuff_get\<close> reads across the borders of the nodes. The caller's buffer is the list of its
  bytes (\<open>None\<close> for NULL); what \<open>os_qbuff_get\<close> writes into it is returned beside the count.
\<close>

section \<open>Access\<close>

definition upd_qhead :: "addr \<Rightarrow> (OS_QHEAD \<Rightarrow> OS_QHEAD) \<Rightarrow> os_state \<Rightarrow> os_state outcome" where
  "upd_qhead p f s = obind (load the_qhead p s) (\<lambda>q. Ret (hput p (QHeadObj (f q)) s))"

definition upd_qnode :: "addr \<Rightarrow> (OS_QNODE \<Rightarrow> OS_QNODE) \<Rightarrow> os_state \<Rightarrow> os_state outcome" where
  "upd_qnode p f s = obind (load the_qnode p s) (\<lambda>n. Ret (hput p (QNodeObj (f n)) s))"

section \<open>Operations\<close>

definition os_qbuff_init :: "os_env \<Rightarrow> u32 os" where
  "os_qbuff_init E s =
     obind (os_list_create E QUEUE_NAME s) (\<lambda>(l, s).
     let s = s\<lparr>queue_list := l\<rparr> in
     if l = 0 then Ret (ERROR, s) else Ret (OKAY, s))"

definition os_qbuff_create :: "os_env \<Rightarrow> string \<Rightarrow> u32 \<Rightarrow> fnptr \<Rightarrow> u32 os" where
  "os_qbuff_create E nm pool delf s =
     obind (os_mem_alloc E (e_sizeof E T_OS_QHEAD) s) (\<lambda>(newq, s).
     if newq = 0 then Ret (ERROR, s)
     else let s = hput newq (QHeadObj \<lparr>qh_channel = 0, qh_current_size = 0, qh_list = 0, qh_lock = 0,
                 qh_pool = pool, qh_delfunc = delf, qh_next = 0\<rparr>) s in
     obind (os_mutex_create E nm s) (\<lambda>(lock, s).
     obind (upd_qhead newq (\<lambda>q. q\<lparr>qh_lock := lock\<rparr>) s) (\<lambda>s.
     if lock = ERROR then obind (os_mem_free newq s) (\<lambda>(r, s). Ret (ERROR, s))
     else obind (os_list_item_insert E (queue_list s) newq s) (\<lambda>(res, s).
     if res = ERROR then obind (os_mem_free newq s) (\<lambda>(r, s). Ret (ERROR, s))
     else Ret (res, s)))))"

definition os_qnode_mem_alloc :: "os_env \<Rightarrow> addr \<Rightarrow> u32 \<Rightarrow> addr os" where
  "os_qnode_mem_alloc E qh sz s =
     (if qh = 0 then Ret (0, s)
      else obind (load the_qhead qh s) (\<lambda>q.
        if qh_pool q \<noteq> 0 then buff_alloc_data E (qh_pool q) sz s else os_mem_alloc E sz s))"

definition os_qnode_mem_free :: "addr \<Rightarrow> addr \<Rightarrow> os_state \<Rightarrow> os_state outcome" where
  "os_qnode_mem_free qh buf s =
     (if qh = 0 then Ret s
      else obind (load the_qhead qh s) (\<lambda>q.
        obind (if qh_pool q \<noteq> 0 then buff_free_data (qh_pool q) buf s else os_mem_free buf s)
          (\<lambda>(r, s). Ret s)))"

definition os_qbuff_delete_node :: "os_env \<Rightarrow> addr \<Rightarrow> addr \<Rightarrow> fnptr \<Rightarrow> os_state \<Rightarrow> os_state outcome" where
  "os_qbuff_delete_node E qhead qnode del_f s =
     (if qhead = 0 \<or> qnode = 0 then Ret s
      else obind (load the_qnode qnode s) (\<lambda>n.
      if qn_data n = 0 then Ret s
      else obind (if del_f \<noteq> 0 then obind (e_call E del_f (qn_data n) s) (\<lambda>(r, s). Ret s) else Ret s) (\<lambda>s.
      obind (os_qnode_mem_free qhead (qn_data n) s) (\<lambda>s.
      os_qnode_mem_free qhead qnode s))))"

definition flush_body :: "os_env \<Rightarrow> addr \<Rightarrow> fnptr \<Rightarrow> addr \<times> os_state \<Rightarrow> (addr \<times> os_state) outcome" where
  "flush_body E qhead del_f = (\<lambda>(trace, s).
     obind (load the_qnode trace s) (\<lambda>n.
     obind (os_qbuff_delete_node E qhead trace del_f s) (\<lambda>s. Ret (qn_next n, s))))"

text \<open>The first node is known to exist, so the do-while loop is a while loop.\<close>

definition os_qbuff_flush :: "os_env \<Rightarrow> u32 \<Rightarrow> u32 os" where
  "os_qbuff_flush E rid s =
     obind (os_obj_find (queue_list s) rid s) (\<lambda>qhead.
     if qhead = 0 then Ret (ERROR, s)
     else obind (load the_qhead qhead s) (\<lambda>q.
     if qh_list q = 0 then Ret (OKAY, s)
     else obind (os_mutex_lock (qh_lock q) 0 s) (\<lambda>(r, s).
     obind (load the_qhead qhead s) (\<lambda>q.
     obind (while_o (\<lambda>(trace, s). trace \<noteq> 0) (flush_body E qhead (qh_delfunc q)) (qh_list q, s)) (\<lambda>(trace, s).
     obind (upd_qhead qhead (\<lambda>q. q\<lparr>qh_list := 0, qh_current_size := 0\<rparr>) s) (\<lambda>s.
     obind (os_mutex_unlock (qh_lock q) s) (\<lambda>(r, s). Ret (OKAY, s))))))))"

definition os_qbuff_delete :: "os_env \<Rightarrow> u32 \<Rightarrow> u32 os" where
  "os_qbuff_delete E rid s =
     obind (os_obj_find (queue_list s) rid s) (\<lambda>qhead.
     if qhead = 0 then Ret (ERROR, s)
     else obind (os_qbuff_flush E rid s) (\<lambda>(res, s).
     if res = ERROR then Ret (ERROR, s)
     else obind (load the_qhead qhead s) (\<lambda>q.
     obind (os_mutex_delete (qh_lock q) s) (\<lambda>(res, s).
     if res = ERROR then Ret (ERROR, s)
     else obind (os_mem_free qhead s) (\<lambda>(res, s).
     if res = ERROR then Ret (ERROR, s)
     else obind (os_list_item_delete (queue_list s) rid s) (\<lambda>(res, s).
     if res = ERROR then Ret (ERROR, s) else Ret (OKAY, s)))))))"

text \<open>\<open>while (trace->next) trace = trace->next;\<close>\<close>

definition qnode_last_body :: "os_state \<Rightarrow> addr \<times> addr \<Rightarrow> (addr \<times> addr) outcome" where
  "qnode_last_body s = (\<lambda>(trace, nx). obind (load the_qnode nx s) (\<lambda>n. Ret (nx, qn_next n)))"

definition qnode_append :: "addr \<Rightarrow> addr \<Rightarrow> os_state \<Rightarrow> os_state outcome" where
  "qnode_append qhead qnode s =
     obind (load the_qhead qhead s) (\<lambda>q.
     if qh_list q = 0 then upd_qhead qhead (\<lambda>q. q\<lparr>qh_list := qnode\<rparr>) s
     else obind (load the_qnode (qh_list q) s) (\<lambda>first.
       obind (while_o (\<lambda>(trace, nx). nx \<noteq> 0) (qnode_last_body s) (qh_list q, qn_next first)) (\<lambda>(trace, nx).
       upd_qnode trace (\<lambda>n. n\<lparr>qn_next := qnode\<rparr>) s)))"

definition os_qbuff_put :: "os_env \<Rightarrow> u32 \<Rightarrow> u8 list option \<Rightarrow> u32 \<Rightarrow> u32 os" where
  "os_qbuff_put E rid buff sz s =
     (if rid = 0 then Ret (ERROR, s)
      else case buff of None \<Rightarrow> Ret (ERROR, s)
      | Some bytes \<Rightarrow>
      if sint sz \<le> 0 then Ret (ERROR, s)
      else obind (os_obj_find (queue_list s) rid s) (\<lambda>qhead.
      if qhead = 0 then Ret (ERROR, s)
      else obind (load the_qhead qhead s) (\<lambda>q.
      obind (os_mutex_lock (qh_lock q) 0 s) (\<lambda>(r, s).
      obind (os_qnode_mem_alloc E qhead (e_sizeof E T_OS_QNODE) s) (\<lambda>(qnode, s).
      if qnode = 0 then obind (os_mutex_unlock (qh_lock q) s) (\<lambda>(r, s). Ret (ERROR, s))
      else obind (os_qnode_mem_alloc E qhead sz s) (\<lambda>(qbuff, s).
      if qbuff = 0
      then obind (os_mutex_unlock (qh_lock q) s) (\<lambda>(r, s).
           obind (os_qnode_mem_free qhead qnode s) (\<lambda>s. Ret (ERROR, s)))
      else if length bytes < unat sz then Fault OutOfBounds
      else let s = hput qnode (QNodeObj \<lparr>qn_data = qbuff, qn_size = sz, qn_tail = 0, qn_unused = 0, qn_next = 0\<rparr>)
                    (hput qbuff (BytesObj (take (unat sz) bytes)) s) in
      obind (qnode_append qhead qnode s) (\<lambda>s.
      obind (upd_qhead qhead (\<lambda>q. q\<lparr>qh_current_size := qh_current_size q + sz\<rparr>) s) (\<lambda>s.
      obind (os_mutex_unlock (qh_lock q) s) (\<lambda>(r, s). Ret (OKAY, s))))))))))"

text \<open>
  One round of the reading loop: the flag, the amount copied so far, the bytes copied so far.
\<close>

type_synonym get_vars = "bool \<times> u32 \<times> u8 list \<times> os_state"

definition get_body :: "os_env \<Rightarrow> addr \<Rightarrow> u32 \<Rightarrow> get_vars \<Rightarrow> get_vars outcome" where
  "get_body E qhead sz = (\<lambda>(continue_flag, total, out, s).
     obind (load the_qhead qhead s) (\<lambda>q.
     let nd = qh_list q in
     if nd = 0 then Ret (False, total, out, s)
     else obind (load the_qnode nd s) (\<lambda>n.
     if qn_data n = 0 then Ret (False, total, out, s)
     else let avail = qn_size n - qn_tail n; still = sz - total;
              copy_amount = (if sint still < sint avail then still else avail) in
     obind (load the_bytes (qn_data n) s) (\<lambda>bs.
     if sint copy_amount < 0 \<or> length bs < unat (qn_tail n) + unat copy_amount then Fault OutOfBounds
     else let out = out @ take (unat copy_amount) (drop (unat (qn_tail n)) bs) in
     obind (upd_qnode nd (\<lambda>n. n\<lparr>qn_tail := qn_tail n + copy_amount\<rparr>) s) (\<lambda>s.
     obind (if qn_tail n + copy_amount = qn_size n
            then obind (load the_qhead qhead s) (\<lambda>q.
                 if qh_list q \<noteq> nd then Ret (True, s)
                 else obind (upd_qhead qhead (\<lambda>q. q\<lparr>qh_list := qn_next n\<rparr>) s) (\<lambda>s.
                      obind (os_qbuff_delete_node E qhead nd 0 s) (\<lambda>s. Ret (False, s))))
            else Ret (False, s)) (\<lambda>(break_loop, s).
     if break_loop then Ret (False, total, out, s)
     else
     obind (load the_qhead qhead s) (\<lambda>q.
     let total = total + copy_amount;
         flag = (if qh_list q = 0 \<or> sint sz \<le> sint total then False else continue_flag) in
     obind (upd_qhead qhead (\<lambda>q. q\<lparr>qh_current_size := qh_current_size q - copy_amount\<rparr>) s) (\<lambda>s.
     Ret (flag, total, out, s))))))))) "

definition os_qbuff_get :: "os_env \<Rightarrow> u32 \<Rightarrow> bool \<Rightarrow> u32 \<Rightarrow> (u32 \<times> u8 list) os" where
  "os_qbuff_get E rid buff sz s =
     (if \<not> buff then Ret ((ERROR, []), s)
      else if sint sz \<le> 0 then Ret ((ERROR, []), s)
      else obind (os_obj_find (queue_list s) rid s) (\<lambda>qhead.
      if qhead = 0 then Ret ((ERROR, []), s)
      else obind (load the_qhead qhead s) (\<lambda>q.
      obind (os_mutex_lock (qh_lock q) 0 s) (\<lambda>(r, s).
      obind (while_o (\<lambda>(flag, total, out, s). flag) (get_body E qhead sz) (True, 0, [], s)) (\<lambda>(flag, total, out, s).
      obind (os_mutex_unlock (qh_lock q) s) (\<lambda>(r, s). Ret ((total, out), s)))))))"

definition os_qbuff_current_size :: "u32 \<Rightarrow> u32 os" where
  "os_qbuff_current_size rid s =
     obind (os_obj_find (queue_list s) rid s) (\<lambda>qhead.
     if qhead = 0 then Ret (0, s)
     else obind (load the_qhead qhead s) (\<lambda>q.
     obind (os_mutex_lock (qh_lock q) 0 s) (\<lambda>(r, s).
     obind (load the_qhead qhead s) (\<lambda>q.
     obind (os_mutex_unlock (qh_lock q) s) (\<lambda>(r, s). Ret (qh_current_size q, s))))))"

text \<open>The report on a queue reads its head.\<close>

definition qbuff_printout_stats :: "addr \<Rightarrow> os_state \<Rightarrow> os_state outcome" where
  "qbuff_printout_stats p s = obind (load the_qhead p s) (\<lambda>q. Ret s)"

definition qbuff_verbose :: "u32 \<Rightarrow> u32 os" where
  "qbuff_verbose rid s =
     (if rid = - 1
      then obind (os_list_navigate (queue_list s) None
                   (Some (\<lambda>d s. obind (load the_data d s) (\<lambda>n. qbuff_printout_stats (ld_data n) s))) s)
             (\<lambda>s. Ret (OKAY, s))
      else obind (os_obj_find (queue_list s) rid s) (\<lambda>qh.
        if qh = 0 then Ret (ERROR, s)
        else obind (qbuff_printout_stats qh s) (\<lambda>s. Ret (OKAY, s))))"

text \<open>
  The sanity check walks a chain of heads; the unlock behind the loop goes through the variable that
  has just become NULL.
\<close>

definition sanity_count_body :: "os_state \<Rightarrow> u32 \<times> addr \<Rightarrow> (u32 \<times> addr) outcome" where
  "sanity_count_body s = (\<lambda>(cnt, qn). obind (load the_qnode qn s) (\<lambda>n.
     Ret (cnt + (qn_size n - qn_tail n), qn_next n)))"

definition sanity_head_body :: "os_state \<Rightarrow> bool \<times> addr \<Rightarrow> (bool \<times> addr) outcome" where
  "sanity_head_body s = (\<lambda>(crashed, qh).
     obind (load the_qhead qh s) (\<lambda>q.
     obind (while_o (\<lambda>(cnt, qn). qn \<noteq> 0) (sanity_count_body s) (0, qh_list q)) (\<lambda>(cnt, qn).
     Ret (crashed \<or> cnt \<noteq> qh_current_size q, qh_next q))))"

definition os_qbuff_sanity_check :: "u32 \<Rightarrow> u32 os" where
  "os_qbuff_sanity_check rid s =
     obind (os_obj_find (queue_list s) rid s) (\<lambda>queueh.
     if queueh = 0 then Ret (ERROR, s)
     else obind (load the_qhead queueh s) (\<lambda>q.
     obind (os_mutex_lock (qh_lock q) 0 s) (\<lambda>(r, s).
     obind (while_o (\<lambda>(crashed, qh). qh \<noteq> 0) (sanity_head_body s) (False, queueh)) (\<lambda>(crashed, qh).
     obind (load the_qhead qh s) (\<lambda>q.
     obind (os_mutex_unlock (qh_lock q) s) (\<lambda>(r, s).
     Ret (if \<not> crashed then OKAY else ERROR, s)))))))"

end
