(* ===== verification/Os_Msgq.thy ===== *)
theory Os_Msgq
  imports Os_Qbuff
begin

text \<open>
  src/msgq.c: message queues. A queue is a byte queue of qbuff.c, through which the addresses of the
  messages go, and a condition variable that is signalled for every message.
\<close>

section \<open>Pointers as bytes\<close>

text \<open>An \<open>unsigned long\<close> in the memory of the little endian LP64 targets.\<close>

definition ulong_bytes :: "addr \<Rightarrow> u8 list" where
  "ulong_bytes a = map (\<lambda>i. ucast (drop_bit (8 * i) a)) [0..<8]"

definition bytes_ulong :: "u8 list \<Rightarrow> addr" where
  "bytes_ulong bs = fold (OR) (map (\<lambda>i. push_bit (8 * i) (ucast (bs ! i))) [0..<8]) 0"

section \<open>Operations\<close>

definition upd_mesg_head :: "addr \<Rightarrow> (OS_MESG_HEAD \<Rightarrow> OS_MESG_HEAD) \<Rightarrow> os_state \<Rightarrow> os_state outcome" where
  "upd_mesg_head p f s = obind (load the_mesg_head p s) (\<lambda>m. Ret (hput p (MesgHeadObj (f m)) s))"

definition os_msgq_init :: "os_env \<Rightarrow> u32 os" where
  "os_msgq_init E s =
     obind (os_list_create E MSGQ_NAME s) (\<lambda>(l, s).
     let s = s\<lparr>msgq_list := l\<rparr> in
     if l = 0 then Ret (ERROR, s) else Ret (OKAY, s))"

definition os_msgq_create :: "os_env \<Rightarrow> string \<Rightarrow> u32 \<Rightarrow> fnptr \<Rightarrow> u32 os" where
  "os_msgq_create E nm pool f s =
     obind (os_mem_alloc E (e_sizeof E T_OS_MESG_HEAD) s) (\<lambda>(msgh, s).
     if msgh = 0 then Ret (ERROR, s)
     else obind (sprintf_into (nm @ ''c'') STR_LEN) (\<lambda>tname.
     obind (os_cond_create E tname s) (\<lambda>(cond, s).
     if cond = ERROR then obind (os_mem_free msgh s) (\<lambda>(r, s). Ret (ERROR, s))
     else obind (sprintf_into (nm @ ''q'') STR_LEN) (\<lambda>tname.
     obind (os_qbuff_create E tname pool f s) (\<lambda>(qbuff, s).
     if qbuff = ERROR
     then obind (os_cond_delete cond s) (\<lambda>(r, s).
          obind (os_mem_free msgh s) (\<lambda>(r, s). Ret (ERROR, s)))
     else let s = hput msgh (MesgHeadObj \<lparr>mh_id = 0, mh_qbuff = qbuff, mh_cond = cond, mh_counter = 0\<rparr>) s in
     obind (os_list_item_insert E (msgq_list s) msgh s) (\<lambda>(res, s).
     if res = ERROR
     then obind (os_cond_delete cond s) (\<lambda>(r, s).
          obind (os_qbuff_delete E qbuff s) (\<lambda>(r, s).
          obind (os_mem_free msgh s) (\<lambda>(r, s). Ret (ERROR, s))))
     else obind (upd_mesg_head msgh (\<lambda>m. m\<lparr>mh_counter := 0\<rparr>) s) (\<lambda>s. Ret (res, s))))))))"

definition os_msgq_delete :: "os_env \<Rightarrow> u32 \<Rightarrow> u32 os" where
  "os_msgq_delete E rid s =
     obind (os_obj_find (msgq_list s) rid s) (\<lambda>mh.
     if mh = 0 then Ret (ERROR, s)
     else obind (load the_mesg_head mh s) (\<lambda>m.
     obind (os_qbuff_delete E (mh_qbuff m) s) (\<lambda>(res, s).
     if res = ERROR then Ret (ERROR, s)
     else obind (os_cond_delete (mh_cond m) s) (\<lambda>(res, s).
     if res = ERROR then Ret (ERROR, s)
     else obind (os_mem_free mh s) (\<lambda>(res, s).
     if res = ERROR then Ret (ERROR, s)
     else obind (os_list_item_delete (msgq_list s) rid s) (\<lambda>(res, s).
     if res = ERROR then Ret (ERROR, s) else Ret (OKAY, s)))))))"

definition os_msgq_flush :: "os_env \<Rightarrow> u32 \<Rightarrow> u32 os" where
  "os_msgq_flush E rid s =
     obind (os_obj_find (msgq_list s) rid s) (\<lambda>mh.
     if mh = 0 then Ret (ERROR, s)
     else obind (load the_mesg_head mh s) (\<lambda>m.
     obind (os_qbuff_flush E (mh_qbuff m) s) (\<lambda>(res, s).
     if res = ERROR then Ret (ERROR, s) else Ret (OKAY, s))))"

definition os_msgq_message :: "addr \<Rightarrow> u32 \<Rightarrow> addr \<Rightarrow> u32 \<Rightarrow> u32 os" where
  "os_msgq_message msg command buff sz s =
     (if msg = 0 then Ret (ERROR, s)
      else if heap s msg = None then Fault BadPtr
      else Ret (OKAY, hput msg (MesgObj \<lparr>ms_command = command, ms_data = buff, ms_size = sz\<rparr>) s))"

definition os_msgq_send :: "os_env \<Rightarrow> u32 \<Rightarrow> addr \<Rightarrow> u32 os" where
  "os_msgq_send E rid msg s =
     (if msg = 0 then Ret (ERROR, s)
      else obind (os_obj_find (msgq_list s) rid s) (\<lambda>mh.
      if mh = 0 then Ret (ERROR, s)
      else obind (load the_mesg_head mh s) (\<lambda>m.
      obind (os_qbuff_put E (mh_qbuff m) (Some (ulong_bytes msg)) 8 s) (\<lambda>(res, s).
      if res = ERROR then Ret (ERROR, s)
      else obind (os_cond_signal E (mh_cond m) s) (\<lambda>(r, s).
      obind (upd_mesg_head mh (\<lambda>m. m\<lparr>mh_counter := mh_counter m + 1\<rparr>) s) (\<lambda>s. Ret (OKAY, s)))))))"

definition os_msgq_recv_internal :: "os_env \<Rightarrow> addr \<Rightarrow> addr os" where
  "os_msgq_recv_internal E mh s =
     (if mh = 0 then Ret (0, s)
      else obind (load the_mesg_head mh s) (\<lambda>m.
      obind (os_qbuff_get E (mh_qbuff m) True 8 s) (\<lambda>((res, out), s).
      if res \<noteq> 8 then Ret (0, s)
      else let a = bytes_ulong out in
        if a = 0 then Ret (0, s) else Ret (a, s))))"

definition os_msgq_recv :: "os_env \<Rightarrow> u32 \<Rightarrow> u32 \<Rightarrow> addr os" where
  "os_msgq_recv E rid bmode s =
     obind (os_obj_find (msgq_list s) rid s) (\<lambda>mh.
     if mh = 0 then Ret (0, s)
     else obind (load the_mesg_head mh s) (\<lambda>m.
     obind (if bmode \<noteq> 0
            then obind (os_qbuff_current_size (mh_qbuff m) s) (\<lambda>(n, s). Ret (n = 0, s))
            else Ret (False, s)) (\<lambda>(empty, s).
     if empty then Ret (0, s)
     else obind (os_cond_acquire E (mh_cond m) s) (\<lambda>(r, s).
     obind (os_msgq_recv_internal E mh s) (\<lambda>(msg, s).
     if msg = 0 then obind (os_cond_release E (mh_cond m) s) (\<lambda>(r, s). Ret (0, s))
     else obind (upd_mesg_head mh (\<lambda>m. m\<lparr>mh_counter := mh_counter m - 1\<rparr>) s) (\<lambda>s.
     obind (os_cond_release E (mh_cond m) s) (\<lambda>(r, s). Ret (msg, s))))))))"

definition os_msgq_recv_timeout :: "os_env \<Rightarrow> u32 \<Rightarrow> u64 \<Rightarrow> addr os" where
  "os_msgq_recv_timeout E rid tm s =
     obind (os_obj_find (msgq_list s) rid s) (\<lambda>mh.
     if mh = 0 then Ret (0, s)
     else obind (load the_mesg_head mh s) (\<lambda>m.
     obind (os_qbuff_current_size (mh_qbuff m) s) (\<lambda>(n, s).
     obind (if n = 0
            then obind (os_cond_acquire_timeout E (mh_cond m) tm s) (\<lambda>(r, s).
                 obind (os_qbuff_current_size (mh_qbuff m) s) (\<lambda>(n, s). Ret (n = 0, s)))
            else Ret (False, s)) (\<lambda>(timeout, s).
     if timeout then obind (os_cond_release E (mh_cond m) s) (\<lambda>(r, s). Ret (0, s))
     else obind (os_msgq_recv_internal E mh s) (\<lambda>(msg, s).
     if msg = 0 then obind (os_cond_release E (mh_cond m) s) (\<lambda>(r, s). Ret (0, s))
     else obind (upd_mesg_head mh (\<lambda>m. m\<lparr>mh_counter := mh_counter m - 1\<rparr>) s) (\<lambda>s.
     obind (os_cond_release E (mh_cond m) s) (\<lambda>(r, s). Ret (msg, s))))))))"

definition msgq_printout_stats :: "addr \<Rightarrow> os_state \<Rightarrow> os_state outcome" where
  "msgq_printout_stats p s = obind (load the_mesg_head p s) (\<lambda>m. Ret s)"

definition msgq_verbose :: "u32 \<Rightarrow> u32 os" where
  "msgq_verbose rid s =
     (if rid = - 1
      then obind (os_list_navigate (msgq_list s) None
                   (Some (\<lambda>d s. obind (load the_data d s) (\<lambda>n. msgq_printout_stats (ld_data n) s))) s)
             (\<lambda>s. Ret (OKAY, s))
      else obind (os_obj_find (msgq_list s) rid s) (\<lambda>mh.
        if mh = 0 then Ret (ERROR, s)
        else obind (msgq_printout_stats mh s) (\<lambda>s. Ret (OKAY, s))))"

section \<open>Reading a pointer back\<close>

lemma bit_fold_or: "bit (fold (OR) ws (w :: addr)) n \<longleftrightarrow> bit w n \<or> (\<exists>x \<in> set ws. bit x n)"
  by (induction ws arbitrary: w) (auto simp: bit_or_iff)

lemma bytes_ulong_bytes: "bytes_ulong (ulong_bytes a) = a"
proof (rule bit_word_eqI)
  fix n assume n: "n < LENGTH(64)"
  have byte: "bit (push_bit (8 * i) (ucast (ulong_bytes a ! i)) :: addr) n \<longleftrightarrow> 8 * i \<le> n \<and> n < 8 * i + 8 \<and> bit a n"
    if "i < 8" for i
    using that n by (auto simp: ulong_bytes_def bit_push_bit_iff bit_ucast_iff bit_drop_bit_eq)
  have "bit (bytes_ulong (ulong_bytes a)) n \<longleftrightarrow> (\<exists>i<8. 8 * i \<le> n \<and> n < 8 * i + 8 \<and> bit a n)"
    using byte by (auto simp: bytes_ulong_def bit_fold_or)
  also have "\<dots> \<longleftrightarrow> bit a n"
  proof -
    have "n div 8 < 8" "8 * (n div 8) \<le> n" "n < 8 * (n div 8) + 8" using n by auto
    then show ?thesis by blast
  qed
  finally show "bit (bytes_ulong (ulong_bytes a)) n = bit a n" .
qed

lemma length_ulong_bytes [simp]: "length (ulong_bytes a) = 8"
  by (simp add: ulong_bytes_def)

end
