(* ===== verification/Qbuff_Laws.thy ===== *)
theory Qbuff_Laws
  imports Os_Qbuff Var_Laws
begin

text \<open>
  What src/qbuff.c promises for a queue in system memory (no buffer class): its nodes hold a list of
  bytes, \<open>os_qbuff_put\<close> appends to it and \<open>os_qbuff_get\<close> takes from its front, across the
  borders of the nodes, with the size of the queue always the number of bytes in it.
\<close>

section \<open>Frames\<close>

text \<open>Only the store changed, and only at the addresses of \<open>X\<close>.\<close>

definition fr :: "addr set \<Rightarrow> os_state \<Rightarrow> os_state \<Rightarrow> bool" where
  "fr X s s' \<longleftrightarrow> s' = s\<lparr>heap := heap s'\<rparr> \<and> (\<forall>a. a \<notin> X \<longrightarrow> heap s' a = heap s a)"

lemma fr_refl [simp]: "fr X s s"
  by (simp add: fr_def)

lemma fr_heap_eq: "s' = s\<lparr>heap := h\<rparr> \<Longrightarrow> s' = s\<lparr>heap := heap s'\<rparr>"
  by simp

lemma fr_hput [simp]: "p \<in> X \<Longrightarrow> fr X s (hput p x s) "
  by (simp add: fr_def hput_def)

lemma fr_hdel [simp]: "p \<in> X \<Longrightarrow> fr X s (hdel p s)"
  by (simp add: fr_def hdel_def)

lemma fr_trans:
  assumes "fr X s t" and "fr X t u"
  shows "fr X s u"
proof -
  from assms have "u = t\<lparr>heap := heap u\<rparr>" "t = s\<lparr>heap := heap t\<rparr>" by (simp_all add: fr_def)
  then have "u = s\<lparr>heap := heap u\<rparr>" by (metis os_state.surjective os_state.update_convs(1))
  then show ?thesis using assms by (simp add: fr_def)
qed

lemma fr_mono: "fr X s t \<Longrightarrow> X \<subseteq> Y \<Longrightarrow> fr Y s t"
  by (auto simp: fr_def)

lemma fr_fields:
  assumes "fr X s s'"
  shows "mutex_list s' = mutex_list s" "cond_list s' = cond_list s" "queue_list s' = queue_list s"
    "msgq_list s' = msgq_list s" "os_res_pool s' = os_res_pool s" "mem_ok s' = mem_ok s" "calls s' = calls s"
  by (subst assms [unfolded fr_def, THEN conjunct1]; simp add: mem_ok_def)+

definition plain :: "obj \<Rightarrow> bool" where
  "plain x \<longleftrightarrow> \<not> list_obj x \<and> \<not> is_mutex x \<and> \<not> is_cond x"

lemma plain_simps [simp]:
  "plain (QNodeObj n)" "plain (BytesObj b)" "plain (QHeadObj q)" "plain (Zeroed k)" "plain (Uninit k)"
  "plain (MesgHeadObj mh)" "plain (ClassObj c)" "plain (HistObj h)" "plain (BuffHdrObj bh)" "plain (MesgObj mg)"
  "plain (PacketObj pk)" "plain (ChanObj ch)" "plain (PortObj po)"
  by (simp_all add: plain_def is_mutex_def is_cond_def)

lemma var_ok_fr:
  assumes v: "var_ok s M ms cs" and f: "fr X s s'" and X: "\<And>a x. a \<in> X \<Longrightarrow> heap s a = Some x \<Longrightarrow> plain x"
  shows "var_ok s' M ms cs"
proof -
  have keep: "heap s' a = Some x" if "heap s a = Some x" "\<not> plain x" for a x
    using that X f by (metis fr_def)
  have "kit_ok s' M"
    by (rule kit_ok_frame [OF var_okD(1) [OF v]])
      (use keep kit_ok_mem [OF var_okD(1) [OF v]] in \<open>auto simp: fr_fields [OF f] plain_def\<close>)
  moreover have "table s' M (mutex_list s) MUTEX_NAME is_mutex ms"
    by (rule table_frame [OF var_okD(3) [OF v]]) (use keep in \<open>auto simp: plain_def\<close>)
  moreover have "table s' M (cond_list s) COND_NAME is_cond cs"
    by (rule table_frame [OF var_okD(4) [OF v]]) (use keep in \<open>auto simp: plain_def\<close>)
  ultimately show ?thesis using var_okD(2) [OF v] by (simp add: var_ok_def fr_fields [OF f])
qed

section \<open>Chains of nodes\<close>

text \<open>A node: its address, the address of its bytes, the bytes, and how many of them have been read.\<close>

type_synonym qitems = "(addr \<times> addr \<times> u8 list \<times> nat) list"

definition first :: "qitems \<Rightarrow> addr" where
  "first ns = (case ns of [] \<Rightarrow> 0 | n # _ \<Rightarrow> fst n)"

lemma first_simps [simp]: "first [] = 0" "first (n # ns) = fst n"
  by (simp_all add: first_def)

definition qnode :: "addr \<Rightarrow> u8 list \<Rightarrow> nat \<Rightarrow> addr \<Rightarrow> OS_QNODE" where
  "qnode d bs t nx = \<lparr>qn_data = d, qn_size = of_nat (length bs), qn_tail = of_nat t, qn_unused = 0, qn_next = nx\<rparr>"

lemma qnode_simps [simp]:
  "qn_data (qnode d bs t nx) = d" "qn_size (qnode d bs t nx) = of_nat (length bs)"
  "qn_tail (qnode d bs t nx) = of_nat t" "qn_next (qnode d bs t nx) = nx"
  "(qnode d bs t nx)\<lparr>qn_next := x\<rparr> = qnode d bs t x" "(qnode d bs t nx)\<lparr>qn_tail := of_nat u\<rparr> = qnode d bs u nx"
  by (simp_all add: qnode_def)

definition node_ok :: "heap \<Rightarrow> addr \<times> addr \<times> u8 list \<times> nat \<Rightarrow> addr \<Rightarrow> bool" where
  "node_ok h n nx = (case n of (a, d, bs, t) \<Rightarrow>
     a \<noteq> 0 \<and> d \<noteq> 0 \<and> t < length bs \<and> length bs < 2 ^ 31
     \<and> h a = Some (QNodeObj (qnode d bs t nx)) \<and> h d = Some (BytesObj bs))"

fun qseg :: "heap \<Rightarrow> qitems \<Rightarrow> addr \<Rightarrow> bool" where
  "qseg h [] e = True"
| "qseg h (n # ns) e \<longleftrightarrow> node_ok h n (if ns = [] then e else first ns) \<and> qseg h ns e"

definition blocks :: "qitems \<Rightarrow> addr list" where
  "blocks ns = concat (map (\<lambda>(a, d, bs, t). [a, d]) ns)"

definition content :: "qitems \<Rightarrow> u8 list" where
  "content ns = concat (map (\<lambda>(a, d, bs, t). drop t bs) ns)"

lemma blocks_simps [simp]: "blocks [] = []" "blocks ((a, d, bs, t) # ns) = a # d # blocks ns"
  "blocks (ns @ ns') = blocks ns @ blocks ns'"
  by (simp_all add: blocks_def)

lemma content_simps [simp]: "content [] = []" "content ((a, d, bs, t) # ns) = drop t bs @ content ns"
  "content (ns @ ns') = content ns @ content ns'"
  by (simp_all add: content_def)

lemma qseg_cong:
  "(\<And>a. a \<in> set (blocks ns) \<Longrightarrow> h' a = h a) \<Longrightarrow> qseg h' ns e = qseg h ns e"
  by (induction h ns e rule: qseg.induct) (auto simp: node_ok_def split: prod.splits)

lemma qseg_dom: "qseg h ns e \<Longrightarrow> a \<in> set (blocks ns) \<Longrightarrow> \<exists>x. h a = Some x \<and> plain x \<and> the_qhead x = None"
  by (induction h ns e rule: qseg.induct) (auto simp: node_ok_def split: prod.splits)

lemma qseg_first: "qseg h ns 0 \<Longrightarrow> first ns = 0 \<longleftrightarrow> ns = []"
  by (cases ns) (auto simp: node_ok_def)

lemma qseg_append:
  "qseg h (ns @ ns') e \<longleftrightarrow> qseg h ns (if ns' = [] then e else first ns') \<and> qseg h ns' e"
  by (induction ns) (auto simp: first_def split: list.splits)

text \<open>
  The chain a head carries, for a queue in system memory: a head with a buffer class (\<open>qh_pool\<close> not
  0, as net.c creates its message queues) is not covered by the laws of this theory.
\<close>

definition qhead_rec :: "OS_QHEAD \<Rightarrow> qitems \<Rightarrow> bool" where
  "qhead_rec Q ns \<longleftrightarrow> qh_pool Q = 0 \<and> qh_next Q = 0 \<and> qh_list Q = first ns
     \<and> qh_current_size Q = of_nat (length (content ns))"

definition chain :: "os_state \<Rightarrow> addr \<Rightarrow> qitems \<Rightarrow> bool" where
  "chain s q ns \<longleftrightarrow> q \<noteq> 0 \<and> (\<exists>Q. heap s q = Some (QHeadObj Q) \<and> qhead_rec Q ns)
     \<and> qseg (heap s) ns 0 \<and> distinct (blocks ns)"

lemma chain_notin: "chain s q ns \<Longrightarrow> q \<notin> set (blocks ns)"
  using qseg_dom [of "heap s" ns 0 q] by (auto simp: chain_def)

section \<open>Words\<close>

lemma sint_small: "k < 2 ^ 31 \<Longrightarrow> sint (of_nat k :: u32) = int k"
  by (simp add: signed_of_nat signed_take_bit_int_eq_self)

lemma unat_small: "k < 2 ^ 31 \<Longrightarrow> unat (of_nat k :: u32) = k"
  by (simp add: unat_of_nat)

lemma of_nat_sub: "k \<le> n \<Longrightarrow> (of_nat n :: u32) - of_nat k = of_nat (n - k)"
  by (simp add: of_nat_diff)

section \<open>Reading\<close>

text \<open>Of the head, only the chain and the size change.\<close>

definition same_head :: "os_state \<Rightarrow> os_state \<Rightarrow> addr \<Rightarrow> bool" where
  "same_head s s' q \<longleftrightarrow> (\<exists>Q Q'. heap s q = Some (QHeadObj Q) \<and> heap s' q = Some (QHeadObj Q')
     \<and> Q' = Q\<lparr>qh_list := qh_list Q', qh_current_size := qh_current_size Q'\<rparr>)"

lemma same_head_trans:
  assumes "same_head s t q" and "same_head t u q"
  shows "same_head s u q"
proof -
  from assms obtain Q R T where *: "heap s q = Some (QHeadObj Q)" "heap u q = Some (QHeadObj T)"
      "R = Q\<lparr>qh_list := qh_list R, qh_current_size := qh_current_size R\<rparr>"
      "T = R\<lparr>qh_list := qh_list T, qh_current_size := qh_current_size T\<rparr>"
    by (auto simp: same_head_def)
  then have "T = Q\<lparr>qh_list := qh_list T, qh_current_size := qh_current_size T\<rparr>"
    by (cases Q; cases R; cases T) simp
  with * show ?thesis by (auto simp: same_head_def)
qed

lemma delete_node_step:
  assumes mem: "mem_ok s" and q: "q \<noteq> 0" "heap s q = Some (QHeadObj Q)" "qh_pool Q = 0"
    and a: "a \<noteq> 0" "heap s a = Some (QNodeObj n)" "qn_data n = d" "d \<noteq> 0" "heap s d = Some x" "a \<noteq> d" "q \<noteq> d"
  shows "os_qbuff_delete_node E q a 0 s = Ret (hdel a (hdel d s))"
  using assms by (simp add: os_qbuff_delete_node_def load_def os_qnode_mem_free_def)

lemma get_body_whole:
  assumes mem: "mem_ok s" and ch: "chain s q ((a, d, bs, t) # ns)"
    and N: "N < 2 ^ 31" "T < N" "length bs - t \<le> N - T"
  shows "\<exists>s'. get_body E q (of_nat N) (True, of_nat T, out, s) =
       Ret (ns \<noteq> [] \<and> T + (length bs - t) < N, of_nat (T + (length bs - t)), out @ drop t bs, s')
     \<and> chain s' q ns \<and> fr {q, a, d} s s' \<and> heap s' a = None \<and> heap s' d = None
     \<and> same_head s s' q"
proof -
  define A S where "A = length bs - t" and "S = N - T"
  from ch obtain Q where Q: "heap s q = Some (QHeadObj Q)" "q \<noteq> 0" "qh_pool Q = 0" "qh_next Q = 0" "qh_list Q = a"
      "qh_current_size Q = of_nat (A + length (content ns))"
    by (auto simp: chain_def qhead_rec_def A_def)
  from ch have nd: "a \<noteq> 0" "d \<noteq> 0" "t < length bs" "length bs < 2 ^ 31"
      "heap s a = Some (QNodeObj (qnode d bs t (first ns)))" "heap s d = Some (BytesObj bs)" "qseg (heap s) ns 0"
      "a \<noteq> d" "a \<notin> set (blocks ns)" "d \<notin> set (blocks ns)" "distinct (blocks ns)"
    by (auto simp: chain_def node_ok_def first_def split: list.splits)
  have qb: "q \<noteq> a" "q \<noteq> d" "q \<notin> set (blocks ns)" using chain_notin [OF ch] by auto
  have tA: "t + A = length bs" and AS: "A \<le> S" using nd N by (simp_all add: A_def S_def)
  have sub: "(of_nat (length bs) :: u32) - of_nat t = of_nat A" using nd(3) by (simp add: A_def of_nat_diff)
  have still: "(of_nat N :: u32) - of_nat T = of_nat S" using N by (simp add: S_def of_nat_diff)
  have bounds: "A < 2 ^ 31" "S < 2 ^ 31" "t < 2 ^ 31" "T + A < 2 ^ 31" using nd N by (auto simp: A_def S_def)
  note sA = sint_small [OF bounds(1)] unat_small [OF bounds(1)] unat_small [OF bounds(3)] sint_small [OF bounds(2)]
    sint_small [OF N(1)] sint_small [OF bounds(4)]
  have end_eq: "(of_nat t :: u32) + of_nat A = of_nat (length bs)" using tA by (metis of_nat_add)
  define Q1 where "Q1 = Q\<lparr>qh_list := first ns\<rparr>"
  define Q2 where "Q2 = Q\<lparr>qh_list := first ns, qh_current_size := of_nat (length (content ns))\<rparr>"
  have cs: "Q1\<lparr>qh_current_size := qh_current_size Q1 - of_nat A\<rparr> = Q2" using Q(6) by (simp add: Q1_def Q2_def)
  let ?s1 = "hput q (QHeadObj Q1) (hput a (QNodeObj (qnode d bs (t + A) (first ns))) s)"
  let ?s2 = "hdel a (hdel d ?s1)"
  let ?s3 = "hput q (QHeadObj Q2) ?s2"
  have del: "os_qbuff_delete_node E q a 0 ?s1 = Ret ?s2"
    by (rule delete_node_step [where Q = Q1 and n = "qnode d bs (t + A) (first ns)" and x = "BytesObj bs"])
      (use mem Q nd qb in \<open>simp_all add: Q1_def\<close>)
  have ld: "load the_qhead q s = Ret Q" "load the_qnode a s = Ret (qnode d bs t (first ns))"
      "load the_bytes d s = Ret bs" using Q nd by (simp_all add: load_def)
  have u1: "upd_qnode a (\<lambda>n. n\<lparr>qn_tail := qn_tail n + of_nat A\<rparr>) s = Ret (hput a (QNodeObj (qnode d bs (t + A) (first ns))) s)"
    using ld by (simp add: upd_qnode_def end_eq [symmetric] qnode_def)
  have u2: "upd_qhead q (\<lambda>q. q\<lparr>qh_list := first ns\<rparr>) (hput a y s) = Ret (hput q (QHeadObj Q1) (hput a y s))" for y
    using ld Q qb by (simp add: upd_qhead_def Q1_def)
  have ldq: "load the_qhead q ?s2 = Ret Q1" "load the_qhead q (hput a y s) = Ret Q" for y
    using Q qb ld by (simp_all add: load_def)
  have u3: "upd_qhead q (\<lambda>q. q\<lparr>qh_current_size := qh_current_size q - of_nat A\<rparr>) ?s2 = Ret ?s3"
    using ldq cs by (simp add: upd_qhead_def)
  have fl: "qh_list Q1 = 0 \<longleftrightarrow> ns = []" using qseg_first [OF nd(7)] by (simp add: Q1_def)
  have "get_body E q (of_nat N) (True, of_nat T, out, s) =
      Ret (ns \<noteq> [] \<and> T + A < N, of_nat (T + A), out @ drop t bs, ?s3)"
    using ld Q nd(1,2,3) u1 u2 del ldq u3 fl AS tA end_eq
    by (simp add: get_body_def sub still sA Let_def of_nat_add [symmetric] del: of_nat_add)
  moreover have "qseg (heap ?s3) ns 0 = qseg (heap s) ns 0" by (rule qseg_cong) (use qb nd in auto)
  then have "chain ?s3 q ns" using Q nd by (simp add: chain_def qhead_rec_def Q2_def)
  moreover have "fr {q, a, d} s ?s3" by (auto simp: fr_def hput_def hdel_def)
  moreover have "heap ?s3 a = None" "heap ?s3 d = None" using qb nd by auto
  moreover have "same_head s ?s3 q" using Q(1) by (simp add: same_head_def Q2_def)
  ultimately show ?thesis unfolding A_def by blast
qed

lemma get_body_part:
  assumes ch: "chain s q ((a, d, bs, t) # ns)"
    and N: "N < 2 ^ 31" "T < N" "N - T < length bs - t"
  shows "\<exists>s'. get_body E q (of_nat N) (True, of_nat T, out, s) =
       Ret (False, of_nat N, out @ take (N - T) (drop t bs), s')
     \<and> chain s' q ((a, d, bs, t + (N - T)) # ns) \<and> fr {q, a, d} s s'
     \<and> same_head s s' q"
proof -
  define A S where "A = length bs - t" and "S = N - T"
  from ch obtain Q where Q: "heap s q = Some (QHeadObj Q)" "q \<noteq> 0" "qh_pool Q = 0" "qh_next Q = 0" "qh_list Q = a"
      "qh_current_size Q = of_nat (A + length (content ns))"
    by (auto simp: chain_def qhead_rec_def A_def)
  from ch have nd: "a \<noteq> 0" "d \<noteq> 0" "t < length bs" "length bs < 2 ^ 31"
      "heap s a = Some (QNodeObj (qnode d bs t (first ns)))" "heap s d = Some (BytesObj bs)" "qseg (heap s) ns 0"
      "a \<noteq> d" "a \<notin> set (blocks ns)" "d \<notin> set (blocks ns)" "distinct (blocks ns)"
    by (auto simp: chain_def node_ok_def first_def split: list.splits)
  have qb: "q \<noteq> a" "q \<noteq> d" "q \<notin> set (blocks ns)" using chain_notin [OF ch] by auto
  have tA: "t + A = length bs" and AS: "S < A" "T + S = N" using nd N by (simp_all add: A_def S_def)
  have sub: "(of_nat (length bs) :: u32) - of_nat t = of_nat A" using nd(3) by (simp add: A_def of_nat_diff)
  have still: "(of_nat N :: u32) - of_nat T = of_nat S" using N by (simp add: S_def of_nat_diff)
  have bounds: "A < 2 ^ 31" "S < 2 ^ 31" "t < 2 ^ 31" "t + S < 2 ^ 31" using nd N by (auto simp: A_def S_def)
  note sA = sint_small [OF bounds(1)] unat_small [OF bounds(2)] unat_small [OF bounds(3)] sint_small [OF bounds(2)]
    sint_small [OF N(1)]
  have "unat (of_nat (t + S) :: u32) \<noteq> unat (of_nat (length bs) :: u32)"
    unfolding unat_small [OF bounds(4)] unat_small [OF nd(4)] using AS tA by simp
  then have not_end: "(of_nat (t + S) :: u32) \<noteq> of_nat (length bs)" by metis
  have end_eq: "(of_nat t :: u32) + of_nat S = of_nat (t + S)" "(of_nat T :: u32) + of_nat S = of_nat N"
    using AS(2) by (metis of_nat_add)+
  define Q2 where "Q2 = Q\<lparr>qh_current_size := of_nat (A - S + length (content ns))\<rparr>"
  have sz: "A + length (content ns) - S = A - S + length (content ns)" using AS by simp
  have cs: "Q\<lparr>qh_current_size := qh_current_size Q - of_nat S\<rparr> = Q2"
    unfolding Q2_def Q(6) sz [symmetric] using AS by (subst of_nat_sub) simp_all
  let ?s1 = "hput a (QNodeObj (qnode d bs (t + S) (first ns))) s"
  let ?s3 = "hput q (QHeadObj Q2) ?s1"
  have ld: "load the_qhead q s = Ret Q" "load the_qnode a s = Ret (qnode d bs t (first ns))"
      "load the_bytes d s = Ret bs" using Q nd by (simp_all add: load_def)
  have u1: "upd_qnode a (\<lambda>n. n\<lparr>qn_tail := qn_tail n + of_nat S\<rparr>) s = Ret ?s1"
    using ld by (simp add: upd_qnode_def end_eq qnode_def del: of_nat_add)
  have ldq: "load the_qhead q (hput a y s) = Ret Q" for y using qb ld by simp
  have u3: "upd_qhead q (\<lambda>q. q\<lparr>qh_current_size := qh_current_size q - of_nat S\<rparr>) ?s1 = Ret ?s3"
    using ldq cs by (simp add: upd_qhead_def)
  have "get_body E q (of_nat N) (True, of_nat T, out, s) =
      Ret (False, of_nat N, out @ take S (drop t bs), ?s3)"
    using ld Q nd(1,2,3) u1 ldq u3 AS tA not_end
    by (simp add: get_body_def sub still sA end_eq Let_def del: of_nat_add)
  moreover have "qseg (heap ?s3) ns 0 = qseg (heap s) ns 0" by (rule qseg_cong) (use qb nd in auto)
  then have "chain ?s3 q ((a, d, bs, t + S) # ns)"
    using Q nd qb AS tA by (simp add: chain_def qhead_rec_def Q2_def node_ok_def A_def)
  moreover have "fr {q, a, d} s ?s3" by (auto simp: fr_def hput_def)
  moreover have "same_head s ?s3 q" using Q(1) by (simp add: same_head_def Q2_def)
  ultimately show ?thesis unfolding S_def by blast
qed

text \<open>The whole loop.\<close>

lemma get_loop:
  assumes "mem_ok s" and "chain s q ns" and "N < 2 ^ 31" and "T < N"
  shows "\<exists>flag s' ns'. while_o (\<lambda>(flag, total, out, s). flag) (get_body E q (of_nat N)) (True, of_nat T, out, s) =
       Ret (flag, of_nat (T + min (N - T) (length (content ns))), out @ take (N - T) (content ns), s')
     \<and> chain s' q ns' \<and> content ns' = drop (N - T) (content ns)
     \<and> fr (insert q (set (blocks ns))) s s' \<and> same_head s s' q"
  using assms
proof (induction ns arbitrary: s T out)
  case Nil
  then obtain Q where "heap s q = Some (QHeadObj Q)" "q \<noteq> 0" "qh_list Q = 0" by (auto simp: chain_def qhead_rec_def)
  then have "get_body E q (of_nat N) (True, of_nat T, out, s) = Ret (False, of_nat T, out, s)"
    by (simp add: get_body_def load_def)
  then have "while_o (\<lambda>(flag, total, out, s). flag) (get_body E q (of_nat N)) (True, of_nat T, out, s)
      = Ret (False, of_nat T, out, s)"
    by (subst while_o_unfold) simp
  moreover have "same_head s s q" using Nil.prems(2) by (auto simp: same_head_def chain_def)
  ultimately have "while_o (\<lambda>(flag, total, out, s). flag) (get_body E q (of_nat N)) (True, of_nat T, out, s) =
       Ret (False, of_nat (T + min (N - T) (length (content []))), out @ take (N - T) (content []), s)
     \<and> chain s q [] \<and> content [] = drop (N - T) (content []) \<and> fr (insert q (set (blocks []))) s s \<and> same_head s s q"
    using Nil.prems by simp
  then show ?case by blast
next
  case (Cons n ns)
  obtain a d bs t where n: "n = (a, d, bs, t)" by (cases n)
  note ch = Cons.prems(2) [unfolded n]
  show ?case
  proof (cases "length bs - t \<le> N - T")
    case True
    let ?A = "length bs - t"
    obtain s1 where s1: "get_body E q (of_nat N) (True, of_nat T, out, s) =
         Ret (ns \<noteq> [] \<and> T + ?A < N, of_nat (T + ?A), out @ drop t bs, s1)"
       "chain s1 q ns" "fr {q, a, d} s s1" "same_head s s1 q"
      using get_body_whole [OF Cons.prems(1) ch Cons.prems(3,4) True] by blast
    show ?thesis
    proof (cases "ns \<noteq> [] \<and> T + ?A < N")
      case go: True
      have mem: "mem_ok s1" using fr_fields(6) [OF s1(3)] Cons.prems(1) by simp
      obtain flag s' ns' where s': "while_o (\<lambda>(flag, total, out, s). flag) (get_body E q (of_nat N))
           (True, of_nat (T + ?A), out @ drop t bs, s1) =
         Ret (flag, of_nat (T + ?A + min (N - (T + ?A)) (length (content ns))),
              (out @ drop t bs) @ take (N - (T + ?A)) (content ns), s')"
         "chain s' q ns'" "content ns' = drop (N - (T + ?A)) (content ns)"
         "fr (insert q (set (blocks ns))) s1 s'" "same_head s1 s' q"
        using Cons.IH [OF mem s1(2) Cons.prems(3), of "T + ?A" "out @ drop t bs"] go by blast
      have "fr (insert q (set (blocks (n # ns)))) s s'"
        by (rule fr_trans [OF fr_mono [OF s1(3)] fr_mono [OF s'(4)]]) (auto simp: n)
      moreover have "T + min (N - T) (length (content (n # ns))) = T + ?A + min (N - (T + ?A)) (length (content ns))"
        using True by (simp add: n)
      moreover have "take (N - T) (content (n # ns)) = drop t bs @ take (N - (T + ?A)) (content ns)"
          "drop (N - T) (content (n # ns)) = drop (N - (T + ?A)) (content ns)"
        using True by (simp_all add: n)
      moreover have "while_o (\<lambda>(flag, total, out, s). flag) (get_body E q (of_nat N)) (True, of_nat T, out, s) =
          while_o (\<lambda>(flag, total, out, s). flag) (get_body E q (of_nat N)) (True, of_nat (T + ?A), out @ drop t bs, s1)"
        using s1(1) go by (subst while_o_unfold) simp
      ultimately show ?thesis
        using s'(1,2,3) same_head_trans [OF s1(4) s'(5)] by (metis append_assoc)
    next
      case False
      have "take (N - T) (content (n # ns)) = drop t bs" "drop (N - T) (content (n # ns)) = content ns"
          "min (N - T) (length (content (n # ns))) = ?A"
        using True False by (auto simp: n)
      moreover have "fr (insert q (set (blocks (n # ns)))) s s1" by (rule fr_mono [OF s1(3)]) (auto simp: n)
      moreover have "while_o (\<lambda>(flag, total, out, s). flag) (get_body E q (of_nat N)) (True, of_nat T, out, s) =
          Ret (False, of_nat (T + ?A), out @ drop t bs, s1)"
        using s1(1) False by (subst while_o_unfold) auto
      ultimately show ?thesis using s1(2,4) by metis
    qed
  next
    case False
    then have N: "N - T < length bs - t" by simp
    obtain s1 where s1: "get_body E q (of_nat N) (True, of_nat T, out, s) =
         Ret (False, of_nat N, out @ take (N - T) (drop t bs), s1)"
       "chain s1 q ((a, d, bs, t + (N - T)) # ns)" "fr {q, a, d} s s1" "same_head s s1 q"
      using get_body_part [OF ch Cons.prems(3,4) N] by blast
    have "while_o (\<lambda>(flag, total, out, s). flag) (get_body E q (of_nat N)) (True, of_nat T, out, s) =
        Ret (False, of_nat N, out @ take (N - T) (drop t bs), s1)"
      using s1(1) by (subst while_o_unfold) simp
    moreover have "take (N - T) (content (n # ns)) = take (N - T) (drop t bs)"
        "content ((a, d, bs, t + (N - T)) # ns) = drop (N - T) (content (n # ns))"
        "T + min (N - T) (length (content (n # ns))) = N"
      using N Cons.prems(4) by (simp_all add: n add.commute)
    moreover have "fr (insert q (set (blocks (n # ns)))) s s1" by (rule fr_mono [OF s1(3)]) (auto simp: n)
    ultimately show ?thesis using s1(2,4) by metis
  qed
qed

section \<open>The table of queues\<close>

definition is_qhead :: "obj \<Rightarrow> bool" where "is_qhead ob \<longleftrightarrow> the_qhead ob \<noteq> None"

lemma is_qhead_simps [simp]: "is_qhead (QHeadObj Q)" "is_qhead ob \<Longrightarrow> \<not> list_obj ob"
  by (cases ob; simp add: is_qhead_def)+

definition q_ok :: "os_state \<Rightarrow> ghost \<Rightarrow> nodes \<Rightarrow> nodes \<Rightarrow> nodes \<Rightarrow> bool" where
  "q_ok s M ms cs qs \<longleftrightarrow> var_ok s M ms cs \<and> queue_list s \<noteq> mutex_list s \<and> queue_list s \<noteq> cond_list s
     \<and> table s M (queue_list s) QUEUE_NAME is_qhead qs"

lemma q_okD:
  assumes "q_ok s M ms cs qs"
  shows "var_ok s M ms cs" "kit_ok s M" "mem_ok s" "queue_list s \<noteq> mutex_list s" "queue_list s \<noteq> cond_list s"
    "table s M (queue_list s) QUEUE_NAME is_qhead qs"
  using assms kit_ok_mem [of s M] by (simp_all add: q_ok_def var_ok_def)

lemma queue_find:
  "q_ok s M ms cs qs \<Longrightarrow> os_obj_find (queue_list s) r s = Ret (case lookup qs r of None \<Rightarrow> 0 | Some p \<Rightarrow> p)"
  unfolding os_obj_find_def by (rule table_find [OF q_okD(2,6)])

lemma q_ok_fr:
  assumes ok: "q_ok s M ms cs qs" and f: "fr X s s'" and X: "\<And>a x. a \<in> X \<Longrightarrow> heap s a = Some x \<Longrightarrow> plain x"
    and qh: "\<And>a x. a \<in> X \<Longrightarrow> heap s a = Some x \<Longrightarrow> is_qhead x \<Longrightarrow> \<exists>x'. heap s' a = Some x' \<and> is_qhead x'"
  shows "q_ok s' M ms cs qs"
proof -
  have "var_ok s' M ms cs" using var_ok_fr [OF q_okD(1) [OF ok] f] X by blast
  moreover have "table s' M (queue_list s) QUEUE_NAME is_qhead qs"
  proof (rule table_frame [OF q_okD(6) [OF ok]])
    fix p x assume p: "heap s p = Some x" "is_qhead x"
    show "\<exists>x'. heap s' p = Some x' \<and> is_qhead x' \<and> \<not> list_obj x'"
    proof (cases "p \<in> X")
      case True
      then show ?thesis using qh [OF True p] by auto
    next
      case False
      then show ?thesis using f p by (simp add: fr_def)
    qed
  qed
  ultimately show ?thesis using q_okD(4,5) [OF ok] by (simp add: q_ok_def fr_fields [OF f])
qed

lemma q_ok_mutex:
  assumes ok: "q_ok s M ms cs qs" and p: "heap s p = Some (MutexObj m)"
  shows "q_ok (hput p (MutexObj m') s) M ms cs qs"
proof -
  have "var_ok (hput p (MutexObj m') s) M ms cs" by (rule var_ok_hput [OF q_okD(1) [OF ok]]) (use p in auto)
  moreover have "table (hput p (MutexObj m') s) M (queue_list s) QUEUE_NAME is_qhead qs"
    by (rule table_frame [OF q_okD(6) [OF ok]]) (use p in \<open>auto simp: is_qhead_def\<close>)
  ultimately show ?thesis using q_okD(4,5) [OF ok] by (simp add: q_ok_def)
qed

lemma chain_mutex:
  assumes ch: "chain s q ns" and p: "heap s p = Some (MutexObj m)"
  shows "chain (hput p (MutexObj m') s) q ns"
proof -
  have "p \<noteq> q" using ch p by (auto simp: chain_def)
  moreover have pb: "p \<notin> set (blocks ns)" using qseg_dom [of "heap s" ns 0 p] ch p by (auto simp: chain_def plain_def)
  moreover have "qseg (heap (hput p (MutexObj m') s)) ns 0 = qseg (heap s) ns 0"
    by (rule qseg_cong) (use pb in auto)
  ultimately show ?thesis using ch by (auto simp: chain_def)
qed

text \<open>
  Queue \<open>r\<close> with head \<open>q\<close> and nodes \<open>ns\<close>; its lock \<open>l\<close> is the mutex at \<open>p\<close>.
\<close>

definition queue_at ::
    "os_state \<Rightarrow> ghost \<Rightarrow> nodes \<Rightarrow> nodes \<Rightarrow> nodes \<Rightarrow> u32 \<Rightarrow> addr \<Rightarrow> u32 \<Rightarrow> addr \<Rightarrow> OS_MUTEX \<Rightarrow> qitems \<Rightarrow> bool" where
  "queue_at s M ms cs qs r q l p m ns \<longleftrightarrow>
     q_ok s M ms cs qs \<and> lookup qs r = Some q \<and> chain s q ns
     \<and> (\<exists>Q. heap s q = Some (QHeadObj Q) \<and> qh_lock Q = l)
     \<and> lookup ms l = Some p \<and> heap s p = Some (MutexObj m)"

lemma queue_at_lock:
  assumes "queue_at s M ms cs qs r q l p m ns" and "mutex_free m"
  shows "os_mutex_lock l 0 s = Ret (OKAY, hput p (MutexObj (lock_rec m)) s)"
    and "queue_at (hput p (MutexObj m') s) M ms cs qs r q l p m' ns"
proof -
  note * = assms(1) [unfolded queue_at_def]
  show "os_mutex_lock l 0 s = Ret (OKAY, hput p (MutexObj (lock_rec m)) s)"
    using * assms(2) by (intro mutex_lock_step [OF q_okD(1)]) auto
  show "queue_at (hput p (MutexObj m') s) M ms cs qs r q l p m' ns"
    using * q_ok_mutex chain_mutex by (auto simp: queue_at_def)
qed

lemma queue_at_unlock:
  assumes "queue_at s M ms cs qs r q l p (lock_rec m) ns" and "mutex_free m"
  shows "os_mutex_unlock l s = Ret (OKAY, hput p (MutexObj m) s)"
    and "queue_at (hput p (MutexObj m) s) M ms cs qs r q l p m ns"
proof -
  note * = assms(1) [unfolded queue_at_def]
  have "os_mutex_unlock l s = Ret (OKAY, hput p (MutexObj (unlock_rec (lock_rec m))) s)"
    using * by (intro mutex_unlock_step [OF q_okD(1)]) auto
  then show "os_mutex_unlock l s = Ret (OKAY, hput p (MutexObj m) s)" using unlock_lock_rec [OF assms(2)] by simp
  show "queue_at (hput p (MutexObj m) s) M ms cs qs r q l p m ns"
    using * q_ok_mutex chain_mutex by (auto simp: queue_at_def)
qed

text \<open>Work on the head and the nodes of the queue, and on blocks that were free.\<close>

lemma queue_at_fr:
  assumes qa: "queue_at s M ms cs qs r q l p m ns" and f: "fr X s s'"
    and X: "\<And>a x. a \<in> X \<Longrightarrow> heap s a = Some x \<Longrightarrow> a = q \<or> plain x \<and> \<not> is_qhead x"
    and ch: "chain s' q ns'" and hd: "same_head s s' q"
  shows "queue_at s' M ms cs qs r q l p m ns'"
proof -
  note * = qa [unfolded queue_at_def]
  have pl: "plain x" if "a \<in> X" "heap s a = Some x" for a x
    using X [OF that] that(2) * by auto
  have "q_ok s' M ms cs qs"
  proof (rule q_ok_fr [OF _ f pl])
    show "q_ok s M ms cs qs" using * by simp
    show "\<exists>x'. heap s' a = Some x' \<and> is_qhead x'" if "a \<in> X" "heap s a = Some x" "is_qhead x" for a x
      using X [OF that(1,2)] that hd by (auto simp: same_head_def is_qhead_def)
  qed
  moreover have "p \<notin> X"
  proof
    assume "p \<in> X"
    then have "plain (MutexObj m)" using pl * by blast
    then show False by (simp add: plain_def)
  qed
  then have "heap s' p = Some (MutexObj m)" using * f by (simp add: fr_def)
  moreover have "\<exists>Q. heap s' q = Some (QHeadObj Q) \<and> qh_lock Q = l"
  proof -
    obtain Q Q' where "heap s q = Some (QHeadObj Q)" "heap s' q = Some (QHeadObj Q')"
        "Q' = Q\<lparr>qh_list := qh_list Q', qh_current_size := qh_current_size Q'\<rparr>"
      using hd by (auto simp: same_head_def)
    moreover from this(3) have "qh_lock Q' = qh_lock Q" by (cases Q; cases Q') simp
    ultimately show ?thesis using * by auto
  qed
  ultimately show ?thesis using * ch by (simp add: queue_at_def)
qed

section \<open>Getting and putting\<close>

text \<open>
  What the queue operations leave alone: every block that is not a queue head, a node or the bytes of a
  node, but for the lock at \<open>p\<close> while it is held.
\<close>

fun q_obj :: "obj \<Rightarrow> bool" where
  "q_obj (QHeadObj _) = True"
| "q_obj (QNodeObj _) = True"
| "q_obj (BytesObj _) = True"
| "q_obj _ = False"

definition qk :: "addr set \<Rightarrow> os_state \<Rightarrow> os_state \<Rightarrow> bool" where
  "qk P s s' \<longleftrightarrow> same_statics s s' \<and> os_res_pool s' = os_res_pool s
     \<and> (\<forall>a x. heap s a = Some x \<longrightarrow> a \<notin> P \<longrightarrow> \<not> q_obj x \<longrightarrow> heap s' a = Some x)"

abbreviation qkeeps :: "os_state \<Rightarrow> os_state \<Rightarrow> bool" where "qkeeps \<equiv> qk {}"

lemma qk_refl [simp]: "qk P s s"
  by (simp add: qk_def)

lemma qk_tick [simp]: "qk P s t \<Longrightarrow> qk P s (tick t)"
  by (simp add: qk_def)

lemma qk_hput_new: "qk P s t \<Longrightarrow> heap s a = None \<Longrightarrow> qk P s (hput a y t)"
  by (auto simp: qk_def)

lemma qk_hdel_new: "qk P s t \<Longrightarrow> heap s a = None \<Longrightarrow> qk P s (hdel a t)"
  by (auto simp: qk_def)

lemma qk_hput_ex: "qk P s t \<Longrightarrow> a \<in> P \<Longrightarrow> qk P s (hput a y t)"
  by (auto simp: qk_def)

lemma qk_fr:
  assumes "qk P s t" and "fr X t u" and "\<And>a x. a \<in> X \<Longrightarrow> heap s a = Some x \<Longrightarrow> q_obj x"
  shows "qk P s u"
proof -
  have "u = t\<lparr>heap := heap u\<rparr>" using assms(2) by (simp add: fr_def)
  then have "same_statics t u" by (metis os_state.surjective os_state.update_convs(1,2,3) same_statics_def
      fr_fields(5,7) [OF assms(2)])
  then have "same_statics s u" using assms(1) same_statics_trans by (auto simp: qk_def)
  then show ?thesis using assms fr_fields(5) [OF assms(2)] unfolding qk_def fr_def by metis
qed

lemma qk_close: "qk {p} s t \<Longrightarrow> heap s p = Some x \<Longrightarrow> heap t p = Some x \<Longrightarrow> qkeeps s t"
  unfolding qk_def by (metis emptyE insertE)

lemma qkeeps_trans: "qkeeps s t \<Longrightarrow> qkeeps t u \<Longrightarrow> qkeeps s u"
  unfolding qk_def using same_statics_trans by auto

lemma queue_at_q_obj:
  assumes "queue_at s M ms cs qs r q l p m ns" and "a \<in> insert q (set (blocks ns))" and "heap s a = Some x"
  shows "q_obj x"
proof -
  have "a \<in> set (blocks ns) \<Longrightarrow> qseg h ns e \<Longrightarrow> h a = Some x \<Longrightarrow> q_obj x" for h e
    by (induction h ns e rule: qseg.induct) (auto simp: node_ok_def split: prod.splits)
  then show ?thesis using assms by (auto simp: queue_at_def chain_def)
qed

lemma queue_at_mem: "queue_at s M ms cs qs r q l p m ns \<Longrightarrow> mem_ok s"
  using q_okD(3) by (auto simp: queue_at_def)

lemma queue_at_head:
  assumes "queue_at s M ms cs qs r q l p m ns"
  shows "q \<noteq> 0" "os_obj_find (queue_list s) r s = Ret q" "\<exists>Q. load the_qhead q s = Ret Q \<and> qh_lock Q = l \<and> qh_pool Q = 0"
  using assms queue_find by (auto simp: queue_at_def chain_def load_def qhead_rec_def)

lemma queue_at_blocks:
  assumes "queue_at s M ms cs qs r q l p m ns" and "a \<in> insert q (set (blocks ns))" and "heap s a = Some x"
  shows "a = q \<or> plain x \<and> \<not> is_qhead x"
  using assms qseg_dom [of "heap s" ns 0 a] by (auto simp: queue_at_def chain_def is_qhead_def)

lemma os_qbuff_get_law:
  assumes qa: "queue_at s M ms cs qs r q l p m ns" and free: "mutex_free m" and N: "0 < N" "N < 2 ^ 31"
  shows "\<exists>s' ns'. os_qbuff_get E r True (of_nat N) s =
       Ret ((of_nat (min N (length (content ns))), take N (content ns)), s')
     \<and> queue_at s' M ms cs qs r q l p m ns' \<and> content ns' = drop N (content ns) \<and> qkeeps s s'"
proof -
  let ?s1 = "hput p (MutexObj (lock_rec m)) s"
  note lk = queue_at_lock [OF qa free]
  have qa1: "queue_at ?s1 M ms cs qs r q l p (lock_rec m) ns" by (rule lk(2))
  have ch1: "chain ?s1 q ns" using qa1 by (simp add: queue_at_def)
  obtain flag s2 ns' where s2: "while_o (\<lambda>(flag, total, out, s). flag) (get_body E q (of_nat N)) (True, of_nat 0, [], ?s1) =
       Ret (flag, of_nat (0 + min (N - 0) (length (content ns))), [] @ take (N - 0) (content ns), s2)"
      "chain s2 q ns'" "content ns' = drop (N - 0) (content ns)"
      "fr (insert q (set (blocks ns))) ?s1 s2" "same_head ?s1 s2 q"
    using get_loop [OF queue_at_mem [OF qa1] ch1 N(2,1), of E "[]"] by blast
  have qa2: "queue_at s2 M ms cs qs r q l p (lock_rec m) ns'"
    by (rule queue_at_fr [OF qa1 s2(4) queue_at_blocks [OF qa1] s2(2,5)])
  note ul = queue_at_unlock [OF qa2 free]
  have sz: "\<not> sint (of_nat N :: u32) \<le> 0" using sint_small [OF N(2)] N(1) by simp
  obtain Q where Q: "load the_qhead q s = Ret Q" "qh_lock Q = l" using queue_at_head(3) [OF qa] by blast
  have "os_qbuff_get E r True (of_nat N) s =
      Ret ((of_nat (min N (length (content ns))), take N (content ns)), hput p (MutexObj m) s2)"
    using queue_at_head(1,2) [OF qa] Q lk(1) s2(1) ul(1) sz by (simp add: os_qbuff_get_def)
  moreover have "qkeeps s (hput p (MutexObj m) s2)"
  proof (rule qk_close [of p])
    have "qk {p} s ?s1" by (rule qk_hput_ex) simp_all
    then have "qk {p} s s2" by (rule qk_fr [OF _ s2(4) queue_at_q_obj [OF qa]])
    then show "qk {p} s (hput p (MutexObj m) s2)" by (rule qk_hput_ex) simp
  qed (use qa in \<open>simp_all add: queue_at_def\<close>)
  ultimately show ?thesis using ul(2) s2(3) by auto
qed

lemma qnode_walk:
  assumes "qseg (heap s) (n # ns) 0"
  shows "while_o (\<lambda>(trace, nx). nx \<noteq> 0) (qnode_last_body s) (fst n, first ns) = Ret (fst (last (n # ns)), 0)"
  using assms
proof (induction ns arbitrary: n)
  case (Cons k ns)
  obtain a d bs t where k: "k = (a, d, bs, t)" by (cases k)
  have a: "a \<noteq> 0" "load the_qnode a s = Ret (qnode d bs t (first ns))" and sg: "qseg (heap s) (k # ns) 0"
    using Cons.prems k by (auto simp: node_ok_def load_def first_def split: list.splits)
  have "while_o (\<lambda>(trace, nx). nx \<noteq> 0) (qnode_last_body s) (fst n, fst k) =
      while_o (\<lambda>(trace, nx). nx \<noteq> 0) (qnode_last_body s) (fst k, first ns)"
    using a k by (subst while_o_unfold) (simp add: qnode_last_body_def)
  then show ?case using Cons.IH [OF sg] by simp
qed simp

lemma qnode_append_chain:
  assumes ch: "chain s q ns" and Q: "heap s q = Some (QHeadObj Q)"
    and new: "node_ok (heap s) (qn, qb, bs, 0) 0" "qn \<noteq> qb" "qn \<notin> set (blocks ns)" "qb \<notin> set (blocks ns)"
      "qn \<noteq> q" "qb \<noteq> q"
  shows "\<exists>s'. qnode_append q qn s = Ret s' \<and> fr (insert q (set (blocks ns))) s s'
     \<and> qseg (heap s') (ns @ [(qn, qb, bs, 0)]) 0 \<and> heap s' q = Some (QHeadObj (Q\<lparr>qh_list := first (ns @ [(qn, qb, bs, 0)])\<rparr>))"
proof -
  have q: "q \<noteq> 0" "load the_qhead q s = Ret Q" "qh_list Q = first ns" and sg: "qseg (heap s) ns 0"
    and dist: "distinct (blocks ns)"
    using ch Q by (auto simp: chain_def load_def qhead_rec_def)
  have qbl: "q \<notin> set (blocks ns)" by (rule chain_notin [OF ch])
  show ?thesis
  proof (cases ns rule: rev_cases)
    case Nil
    then have "qnode_append q qn s = Ret (hput q (QHeadObj (Q\<lparr>qh_list := qn\<rparr>)) s)"
      using q by (simp add: qnode_append_def upd_qhead_def)
    then show ?thesis using Nil new by (auto simp: node_ok_def)
  next
    case (snoc ks k)
    obtain a d cs t where k: "k = (a, d, cs, t)" by (cases k)
    obtain n ns2 where n: "ns = n # ns2" using snoc by (cases ns; blast)
    obtain a0 d0 cs0 t0 where n0: "n = (a0, d0, cs0, t0)" by (cases n)
    have f: "load the_qnode (first ns) s = Ret (qnode d0 cs0 t0 (first ns2))" "first ns \<noteq> 0"
      using sg n n0 by (auto simp: node_ok_def load_def first_def split: list.splits)
    have w: "while_o (\<lambda>(trace, nx). nx \<noteq> 0) (qnode_last_body s) (first ns, first ns2) = Ret (a, 0)"
      using qnode_walk [of s n ns2] sg n snoc k by simp (metis fst_conv last_snoc last.simps)
    have nk: "node_ok (heap s) k 0" and sk: "qseg (heap s) ks a" using sg snoc k by (auto simp: qseg_append)
    then have a: "a \<noteq> 0" "load the_qnode a s = Ret (qnode d cs t 0)" using k by (auto simp: node_ok_def load_def)
    let ?s' = "hput a (QNodeObj (qnode d cs t qn)) s"
    have "qnode_append q qn s = Ret ?s'"
      using q f w a by (simp add: qnode_append_def upd_qnode_def)
    moreover have ad: "a \<noteq> d" "a \<notin> set (blocks ks)" "a \<noteq> qn" "a \<noteq> qb" "a \<noteq> q" "a \<in> set (blocks ns)"
      using dist new qbl snoc k by auto
    moreover have "qseg (heap ?s') ks a = qseg (heap s) ks a" by (rule qseg_cong) (use ad in auto)
    moreover have "node_ok (heap ?s') k qn" "node_ok (heap ?s') (qn, qb, bs, 0) 0"
      using nk new ad k by (auto simp: node_ok_def)
    moreover have "Q\<lparr>qh_list := first (ns @ [(qn, qb, bs, 0)])\<rparr> = Q" using q(3) n by simp
    ultimately show ?thesis using sk Q k snoc by (auto simp: qseg_append)
  qed
qed

lemma queue_at_tick [simp]:
  assumes "queue_at s M ms cs qs r q l p m ns"
  shows "queue_at (tick s) M ms cs qs r q l p m ns"
proof -
  have "q_ok (tick s) M ms cs qs"
    using assms table_keeps [of s M "queue_list s" QUEUE_NAME is_qhead qs "tick s"]
    by (auto simp: queue_at_def q_ok_def)
  then show ?thesis using assms by (simp add: queue_at_def chain_def)
qed

text \<open>A block outside the queue changes: a new one, one that is freed, one that is filled in.\<close>

lemma queue_at_other:
  assumes qa: "queue_at s M ms cs qs r q l p m ns" and a: "a \<noteq> q" "a \<notin> set (blocks ns)"
    and x: "\<And>x. heap s a = Some x \<Longrightarrow> plain x \<and> \<not> is_qhead x" and s': "s' = hput a y s \<or> s' = hdel a s"
  shows "queue_at s' M ms cs qs r q l p m ns"
proof (rule queue_at_fr [OF qa])
  show "fr {a} s s'" using s' by auto
  show "\<And>b x. b \<in> {a} \<Longrightarrow> heap s b = Some x \<Longrightarrow> b = q \<or> plain x \<and> \<not> is_qhead x" using x by auto
  have ch: "chain s q ns" using qa by (simp add: queue_at_def)
  have hp: "heap s' b = heap s b" if "b \<noteq> a" for b using s' that by auto
  have "qseg (heap s') ns 0 = qseg (heap s) ns 0" by (rule qseg_cong) (metis hp a(2))
  then show "chain s' q ns" using ch a hp [of q] by (auto simp: chain_def)
  show "same_head s s' q" using ch a hp [of q] by (auto simp: chain_def same_head_def)
qed

lemma queue_at_fresh:
  assumes "queue_at s M ms cs qs r q l p m ns" and "heap s a = None"
  shows "a \<noteq> q" "a \<notin> set (blocks ns)" "a \<noteq> p" "queue_at (hput a y s) M ms cs qs r q l p m ns"
proof -
  show ne: "a \<noteq> q" "a \<notin> set (blocks ns)" "a \<noteq> p"
    using assms qseg_dom [of "heap s" ns 0 a] by (auto simp: queue_at_def chain_def)
  show "queue_at (hput a y s) M ms cs qs r q l p m ns"
    by (rule queue_at_other [OF assms(1) ne(1,2)]) (use assms(2) in auto)
qed

text \<open>Linking the filled node in and counting its bytes.\<close>

lemma put_link:
  assumes qa: "queue_at s M ms cs qs r q l p m ns"
    and new: "node_ok (heap s) (qn, qb, bs, 0) 0" "qn \<noteq> qb" "qn \<notin> set (blocks ns)" "qb \<notin> set (blocks ns)"
      "qn \<noteq> q" "qb \<noteq> q"
  shows "\<exists>s'. obind (qnode_append q qn s) (upd_qhead q (\<lambda>q. q\<lparr>qh_current_size := qh_current_size q + of_nat (length bs)\<rparr>)) = Ret s'
     \<and> queue_at s' M ms cs qs r q l p m (ns @ [(qn, qb, bs, 0)]) \<and> fr (insert q (set (blocks ns))) s s'"
proof -
  let ?ns' = "ns @ [(qn, qb, bs, 0)]"
  have ch: "chain s q ns" using qa by (simp add: queue_at_def)
  then obtain Q where Q: "heap s q = Some (QHeadObj Q)" "qhead_rec Q ns" "q \<noteq> 0" "distinct (blocks ns)"
    by (auto simp: chain_def)
  obtain s1 where s1: "qnode_append q qn s = Ret s1" "fr (insert q (set (blocks ns))) s s1"
      "qseg (heap s1) ?ns' 0" "heap s1 q = Some (QHeadObj (Q\<lparr>qh_list := first ?ns'\<rparr>))"
    using qnode_append_chain [OF ch Q(1) new] by blast
  define Q2 where "Q2 = Q\<lparr>qh_list := first ?ns', qh_current_size := qh_current_size Q + of_nat (length bs)\<rparr>"
  let ?s2 = "hput q (QHeadObj Q2) s1"
  have run: "upd_qhead q (\<lambda>q. q\<lparr>qh_current_size := qh_current_size q + of_nat (length bs)\<rparr>) s1 = Ret ?s2"
    using s1(4) Q(3) by (simp add: upd_qhead_def load_def Q2_def)
  have qb: "q \<notin> set (blocks ?ns')" using chain_notin [OF ch] new by auto
  have "qseg (heap ?s2) ?ns' 0 = qseg (heap s1) ?ns' 0" by (rule qseg_cong) (use qb in auto)
  moreover have "qhead_rec Q2 ?ns'" using Q(2) by (simp add: qhead_rec_def Q2_def)
  moreover have "distinct (blocks ?ns')" using Q(4) new by auto
  ultimately have ch2: "chain ?s2 q ?ns'" using s1(3) Q(3) by (simp add: chain_def)
  have f: "fr (insert q (set (blocks ns))) s ?s2" by (rule fr_trans [OF s1(2)]) simp
  moreover have "same_head s ?s2 q" using Q(1) by (simp add: same_head_def Q2_def)
  ultimately have "queue_at ?s2 M ms cs qs r q l p m ?ns'"
    using queue_at_fr [OF qa _ queue_at_blocks [OF qa] ch2] by blast
  then show ?thesis using s1(1) run f by auto
qed

lemma os_qbuff_put_law:
  assumes E: "env_ok E" and qa: "queue_at s M ms cs qs r q l p m ns" and free: "mutex_free m" and r: "r \<noteq> 0"
    and N: "0 < N" "N < 2 ^ 31" "N \<le> length bytes"
  shows "\<exists>res s' ns'. os_qbuff_put E r (Some bytes) (of_nat N) s = Ret (res, s')
     \<and> queue_at s' M ms cs qs r q l p m ns'
     \<and> (res = ERROR \<and> content ns' = content ns \<and>
           (\<exists>n z h. n \<le> calls s + 1 \<and> e_region_alloc E n (os_sys_region s) z h = 0)
        \<or> res = OKAY \<and> content ns' = content ns @ take N bytes)
     \<and> qkeeps s s'"
proof -
  let ?s1 = "hput p (MutexObj (lock_rec m)) s"
  have ps: "heap s p = Some (MutexObj m)" using qa by (simp add: queue_at_def)
  have k1: "qk {p} s (tick ?s1)" by (intro qk_tick qk_hput_ex) simp_all
  have fin: "qkeeps s (hput p (MutexObj m) t)" if "qk {p} s t" for t
    by (rule qk_close [OF qk_hput_ex [OF that] ps]) simp_all
  note lk = queue_at_lock [OF qa free]
  have qa1: "queue_at ?s1 M ms cs qs r q l p (lock_rec m) ns" by (rule lk(2))
  have sz: "\<not> sint (of_nat N :: u32) \<le> 0" "unat (of_nat N :: u32) = N" "0 < (of_nat N :: u32)"
    using sint_small [OF N(2)] unat_small [OF N(2)] N(1) by (simp_all add: word_less_nat_alt)
  obtain Q where Q: "load the_qhead q s = Ret Q" "qh_lock Q = l" using queue_at_head(3) [OF qa] by blast
  note start = queue_at_head(1,2) [OF qa] Q lk(1) sz(1,2) r
  have mem_alloc: "os_qnode_mem_alloc E q k t = os_mem_alloc E k t" and mem_free: "os_qnode_mem_free q b t =
      obind (os_mem_free b t) (\<lambda>(r, s). Ret s)" if "queue_at t M ms cs qs r q l p m' ns" for m' k t b
    using queue_at_head(1,3) [OF that] by (auto simp: os_qnode_mem_alloc_def os_qnode_mem_free_def)
  note a1 = mem_alloc [OF qa1]
  have full: "\<exists>n z h. n \<le> calls s + 1 \<and> e_region_alloc E n (os_sys_region s) z h = 0"
    if "os_mem_alloc E k t = Ret (0, t')" "mem_ok t" "calls t \<le> calls s + 1" "os_sys_region t = os_sys_region s" for k t t'
    using that by (auto simp: os_mem_alloc_def mem_ok_def Let_def)
  show ?thesis
  proof (rule os_mem_alloc_cases [OF E queue_at_mem [OF qa1] sizes_ok_pos [OF E, of T_OS_QNODE]])
    assume n: "os_mem_alloc E (e_sizeof E T_OS_QNODE) ?s1 = Ret (0, tick ?s1)"
    note ul = queue_at_unlock [OF queue_at_tick [OF qa1] free]
    have "os_qbuff_put E r (Some bytes) (of_nat N) s = Ret (ERROR, hput p (MutexObj m) (tick ?s1))"
      using start n a1 ul(1) by (simp add: os_qbuff_put_def)
    then show ?thesis using ul(2) full [OF n queue_at_mem [OF qa1]] fin [OF k1] by (intro exI conjI) auto
  next
    fix qn assume b: "qn \<noteq> 0" "heap ?s1 qn = None"
      "os_mem_alloc E (e_sizeof E T_OS_QNODE) ?s1 = Ret (qn, hput qn (Zeroed (ucast (e_sizeof E T_OS_QNODE))) (tick ?s1))"
    let ?s2 = "hput qn (Zeroed (ucast (e_sizeof E T_OS_QNODE))) (tick ?s1)"
    have b': "heap (tick ?s1) qn = None" using b(2) by simp
    note fr1 = queue_at_fresh [OF queue_at_tick [OF qa1] b']
    have qns: "heap s qn = None" using b(2) by (simp split: if_splits)
    have k2: "qk {p} s (tick ?s2)" by (intro qk_tick qk_hput_new [OF k1 qns])
    have qa2: "queue_at ?s2 M ms cs qs r q l p (lock_rec m) ns" by (rule fr1(4))
    note a2 = mem_alloc [OF qa2]
    show ?thesis
    proof (rule os_mem_alloc_cases [OF E queue_at_mem [OF qa2] sz(3)])
      assume n: "os_mem_alloc E (of_nat N) ?s2 = Ret (0, tick ?s2)"
      note ul = queue_at_unlock [OF queue_at_tick [OF qa2] free]
      let ?s4 = "hput p (MutexObj m) (tick ?s2)"
      have "heap ?s4 qn = Some (Zeroed (ucast (e_sizeof E T_OS_QNODE)))" using fr1(3) by simp
      then have fre: "os_mem_free qn ?s4 = Ret (OKAY, hdel qn ?s4)"
        using queue_at_mem [OF ul(2)] b(1) by simp
      have "os_qbuff_put E r (Some bytes) (of_nat N) s = Ret (ERROR, hdel qn ?s4)"
        using start b n a1 a2 ul(1) mem_free [OF ul(2)] fre by (simp add: os_qbuff_put_def)
      moreover have "queue_at (hdel qn ?s4) M ms cs qs r q l p m ns"
        by (rule queue_at_other [OF ul(2) fr1(1,2)]) (use fr1(3) in \<open>auto simp: is_qhead_def\<close>)
      moreover have "qkeeps s (hdel qn ?s4)" by (rule qk_hdel_new [OF fin [OF k2] qns])
      ultimately show ?thesis using full [OF n queue_at_mem [OF qa2]] by (intro exI conjI) auto
    next
      fix qb assume c: "qb \<noteq> 0" "heap ?s2 qb = None"
        "os_mem_alloc E (of_nat N) ?s2 = Ret (qb, hput qb (Zeroed (ucast (of_nat N :: u32))) (tick ?s2))"
      let ?s3 = "hput qb (Zeroed (ucast (of_nat N :: u32))) (tick ?s2)"
      let ?bs = "take N bytes"
      let ?s4 = "hput qn (QNodeObj (qnode qb ?bs 0 0)) (hput qb (BytesObj ?bs) ?s3)"
      have c': "heap (tick ?s2) qb = None" using c(2) by simp
      note fr2 = queue_at_fresh [OF queue_at_tick [OF qa2] c']
      have nb: "qn \<noteq> qb" using c(2) by auto
      have qa3: "queue_at (hput qb (BytesObj ?bs) ?s3) M ms cs qs r q l p (lock_rec m) ns"
        by (rule queue_at_other [OF fr2(4) fr2(1,2)]) (auto simp: is_qhead_def)
      have qa4: "queue_at ?s4 M ms cs qs r q l p (lock_rec m) ns"
        by (rule queue_at_other [OF qa3 fr1(1,2)]) (use nb in \<open>auto simp: is_qhead_def\<close>)
      have len: "length ?bs = N" using N(3) by simp
      have "node_ok (heap ?s4) (qn, qb, ?bs, 0) 0" using b(1) c(1) nb N by (auto simp: node_ok_def)
      from put_link [OF qa4 this nb fr1(2) fr2(2) fr1(1) fr2(1)] obtain s5 where
        s5: "obind (qnode_append q qn ?s4) (upd_qhead q (\<lambda>q. q\<lparr>qh_current_size := qh_current_size q + of_nat N\<rparr>)) = Ret s5"
          "queue_at s5 M ms cs qs r q l p (lock_rec m) (ns @ [(qn, qb, ?bs, 0)])"
          "fr (insert q (set (blocks ns))) ?s4 s5"
        unfolding len by blast
      have qbs: "heap s qb = None" using c(2) nb by (simp split: if_splits)
      have "qk {p} s ?s4" by (intro qk_hput_new [OF _ qns] qk_hput_new [OF _ qbs] k2)
      from fin [OF qk_fr [OF this s5(3) queue_at_q_obj [OF qa]]] have k5: "qkeeps s (hput p (MutexObj m) s5)" .
      note ul = queue_at_unlock [OF s5(2) free]
      obtain s5' where s5': "qnode_append q qn ?s4 = Ret s5'"
          "upd_qhead q (\<lambda>q. q\<lparr>qh_current_size := qh_current_size q + of_nat N\<rparr>) s5' = Ret s5"
        using s5(1) by (auto simp: obind_eq_Ret)
      have "qnode qb ?bs 0 0 = \<lparr>qn_data = qb, qn_size = of_nat N, qn_tail = 0, qn_unused = 0, qn_next = 0\<rparr>"
        using len by (simp add: qnode_def)
      then have "os_qbuff_put E r (Some bytes) (of_nat N) s = Ret (OKAY, hput p (MutexObj m) s5)"
        using start b c a1 a2 s5' ul(1) N(3) by (simp add: os_qbuff_put_def Let_def)
      then show ?thesis using ul(2) k5 by (intro exI conjI) auto
    qed
  qed
qed

section \<open>Size, flush and sanity check\<close>

lemma os_qbuff_current_size_law:
  assumes qa: "queue_at s M ms cs qs r q l p m ns" and free: "mutex_free m"
  shows "os_qbuff_current_size r s = Ret (of_nat (length (content ns)), s)"
proof -
  let ?s1 = "hput p (MutexObj (lock_rec m)) s"
  note lk = queue_at_lock [OF qa free]
  have qa1: "queue_at ?s1 M ms cs qs r q l p (lock_rec m) ns" by (rule lk(2))
  note ul = queue_at_unlock [OF qa1 free]
  from qa obtain Q where Q: "load the_qhead q s = Ret Q" "qh_lock Q = l" "qh_current_size Q = of_nat (length (content ns))"
      "heap s p = Some (MutexObj m)" "heap s q = Some (QHeadObj Q)"
    by (auto simp: queue_at_def chain_def load_def qhead_rec_def)
  then have "p \<noteq> q" by auto
  then have "load the_qhead q ?s1 = Ret Q" using Q by simp
  then show ?thesis
    using queue_at_head(1,2) [OF qa] Q lk(1) ul(1) by (simp add: os_qbuff_current_size_def hput_same)
qed

lemma qflush_loop:
  assumes "mem_ok s" and "q \<noteq> 0" and "heap s q = Some (QHeadObj Q)" and "qh_pool Q = 0"
    and "qseg (heap s) ns 0" and "distinct (blocks ns)" and "q \<notin> set (blocks ns)"
  shows "\<exists>s'. while_o (\<lambda>(trace, s). trace \<noteq> 0) (flush_body E q 0) (first ns, s) = Ret (0, s')
     \<and> fr (set (blocks ns)) s s' \<and> (\<forall>a \<in> set (blocks ns). heap s' a = None)"
  using assms
proof (induction ns arbitrary: s)
  case (Cons n ns)
  obtain a d bs t where n: "n = (a, d, bs, t)" by (cases n)
  from Cons.prems n have nd: "a \<noteq> 0" "d \<noteq> 0" "heap s a = Some (QNodeObj (qnode d bs t (first ns)))"
      "heap s d = Some (BytesObj bs)" "qseg (heap s) ns 0" "a \<noteq> d" "q \<noteq> a" "q \<noteq> d"
      "a \<notin> set (blocks ns)" "d \<notin> set (blocks ns)" "q \<notin> set (blocks ns)"
    by (auto simp: node_ok_def first_def split: list.splits)
  let ?s1 = "hdel a (hdel d s)"
  have "flush_body E q 0 (a, s) = Ret (first ns, ?s1)"
    using delete_node_step [OF Cons.prems(1-4) nd(1,3) _ nd(2,4,6,8), of E] nd
    by (simp add: flush_body_def load_def)
  then have step: "while_o (\<lambda>(trace, s). trace \<noteq> 0) (flush_body E q 0) (a, s) =
      while_o (\<lambda>(trace, s). trace \<noteq> 0) (flush_body E q 0) (first ns, ?s1)"
    using nd(1) by (subst while_o_unfold) simp
  have "qseg (heap ?s1) ns 0 = qseg (heap s) ns 0" by (rule qseg_cong) (use nd in auto)
  then have sg1: "qseg (heap ?s1) ns 0" using nd(5) by blast
  have "\<exists>s'. while_o (\<lambda>(trace, s). trace \<noteq> 0) (flush_body E q 0) (first ns, ?s1) = Ret (0, s')
      \<and> fr (set (blocks ns)) ?s1 s' \<and> (\<forall>a \<in> set (blocks ns). heap s' a = None)"
    by (rule Cons.IH [OF _ Cons.prems(2) _ Cons.prems(4) sg1]) (use Cons.prems nd n in simp_all)
  then obtain s' where s': "while_o (\<lambda>(trace, s). trace \<noteq> 0) (flush_body E q 0) (first ns, ?s1) = Ret (0, s')"
      "fr (set (blocks ns)) ?s1 s'" "\<forall>a \<in> set (blocks ns). heap s' a = None" by blast
  have "fr (set (blocks (n # ns))) s ?s1" using n by (auto simp: fr_def hdel_def)
  moreover have "fr (set (blocks (n # ns))) ?s1 s'" by (rule fr_mono [OF s'(2)]) (auto simp: n)
  ultimately have "fr (set (blocks (n # ns))) s s'" by (rule fr_trans)
  moreover have "heap s' a = None" "heap s' d = None" using s'(2) nd by (auto simp: fr_def)
  ultimately show ?case using s'(1,3) step n by auto
qed auto

lemma os_qbuff_flush_law:
  assumes qa: "queue_at s M ms cs qs r q l p m ns" and free: "mutex_free m"
    and Q: "heap s q = Some (QHeadObj Q)" "qh_delfunc Q = 0"
  shows "\<exists>s'. os_qbuff_flush E r s = Ret (OKAY, s') \<and> queue_at s' M ms cs qs r q l p m []
     \<and> (\<forall>a \<in> set (blocks ns). heap s' a = None)"
proof (cases "ns = []")
  case True
  have ld: "load the_qhead q s = Ret Q" "qh_list Q = 0" using qa Q True by (auto simp: queue_at_def chain_def load_def qhead_rec_def)
  then have "os_qbuff_flush E r s = Ret (OKAY, s)"
    using queue_at_head(1,2) [OF qa] by (simp add: os_qbuff_flush_def)
  then show ?thesis using qa True by auto
next
  case False
  let ?s1 = "hput p (MutexObj (lock_rec m)) s"
  note lk = queue_at_lock [OF qa free]
  have qa1: "queue_at ?s1 M ms cs qs r q l p (lock_rec m) ns" by (rule lk(2))
  have pq: "p \<noteq> q" using qa Q by (auto simp: queue_at_def)
  have Q1: "heap ?s1 q = Some (QHeadObj Q)" "load the_qhead q ?s1 = Ret Q" "load the_qhead q s = Ret Q" "qh_lock Q = l"
      "qh_list Q = first ns" "qh_pool Q = 0" "qh_next Q = 0" "q \<noteq> 0"
    using qa Q pq by (auto simp: queue_at_def chain_def load_def qhead_rec_def)
  have ch: "chain ?s1 q ns" using qa1 by (simp add: queue_at_def)
  have ch1: "qseg (heap ?s1) ns 0" "distinct (blocks ns)" "q \<notin> set (blocks ns)"
    using ch chain_notin [OF ch] by (simp_all add: chain_def)
  have f0: "first ns \<noteq> 0" using qseg_first [OF ch1(1)] False by simp
  obtain s2 where s2: "while_o (\<lambda>(trace, s). trace \<noteq> 0) (flush_body E q 0) (first ns, ?s1) = Ret (0, s2)"
      "fr (set (blocks ns)) ?s1 s2" "\<forall>a \<in> set (blocks ns). heap s2 a = None"
    using qflush_loop [OF queue_at_mem [OF qa1] Q1(8,1,6) ch1] by blast
  let ?Q = "Q\<lparr>qh_list := 0, qh_current_size := 0\<rparr>" and ?s3 = "hput q (QHeadObj (Q\<lparr>qh_list := 0, qh_current_size := 0\<rparr>)) s2"
  have hq: "heap s2 q = Some (QHeadObj Q)" using s2(2) ch1(3) Q1(1) by (simp add: fr_def)
  have up: "upd_qhead q (\<lambda>q. q\<lparr>qh_list := 0, qh_current_size := 0\<rparr>) s2 = Ret ?s3"
    using hq Q1(8) by (simp add: upd_qhead_def load_def)
  have qa3: "queue_at ?s3 M ms cs qs r q l p (lock_rec m) []"
  proof (rule queue_at_fr [OF qa1 _ queue_at_blocks [OF qa1]])
    show "fr (insert q (set (blocks ns))) ?s1 ?s3" by (rule fr_trans [OF fr_mono [OF s2(2)]]) auto
    show "chain ?s3 q []" using Q1 by (simp add: chain_def qhead_rec_def)
    show "same_head ?s1 ?s3 q" using Q1 by (simp add: same_head_def)
  qed
  note ul = queue_at_unlock [OF qa3 free]
  have "os_qbuff_flush E r s = Ret (OKAY, hput p (MutexObj m) ?s3)"
    using queue_at_head(1,2) [OF qa] Q1 lk(1) f0 s2(1) up ul(1) Q(2) by (simp add: os_qbuff_flush_def)
  moreover have "\<forall>a \<in> set (blocks ns). heap (hput p (MutexObj m) ?s3) a = None"
  proof -
    have "p \<notin> set (blocks ns)" using qseg_dom [of "heap s" ns 0 p] qa by (auto simp: queue_at_def chain_def plain_def)
    then show ?thesis using s2(3) ch1(3) by auto
  qed
  ultimately show ?thesis using ul(2) by blast
qed

lemma sanity_count:
  assumes "qseg (heap s) ns 0"
  shows "\<exists>cnt'. while_o (\<lambda>(cnt, qn). qn \<noteq> 0) (sanity_count_body s) (cnt, first ns) = Ret (cnt', 0)"
  using assms
proof (induction ns arbitrary: cnt)
  case (Cons n ns)
  obtain a d bs t where n: "n = (a, d, bs, t)" by (cases n)
  with Cons.prems have a: "a \<noteq> 0" "load the_qnode a s = Ret (qnode d bs t (first ns))" "qseg (heap s) ns 0"
    by (auto simp: node_ok_def load_def first_def split: list.splits)
  have "while_o (\<lambda>(cnt, qn). qn \<noteq> 0) (sanity_count_body s) (cnt, a) =
      while_o (\<lambda>(cnt, qn). qn \<noteq> 0) (sanity_count_body s) (cnt + (of_nat (length bs) - of_nat t), first ns)"
    using a by (subst while_o_unfold) (simp add: sanity_count_body_def)
  then show ?case using Cons.IH [OF a(3)] n by simp
qed simp

lemma os_qbuff_sanity_check_law:
  assumes qa: "queue_at s M ms cs qs r q l p m ns" and free: "mutex_free m"
  shows "os_qbuff_sanity_check r s = Fault NullDeref"
proof -
  let ?s1 = "hput p (MutexObj (lock_rec m)) s"
  note lk = queue_at_lock [OF qa free]
  have qa1: "queue_at ?s1 M ms cs qs r q l p (lock_rec m) ns" by (rule lk(2))
  then obtain Q where Q: "load the_qhead q ?s1 = Ret Q" "qh_list Q = first ns" "qh_next Q = 0" "qseg (heap ?s1) ns 0"
    by (auto simp: queue_at_def chain_def load_def qhead_rec_def)
  obtain cnt where cnt: "while_o (\<lambda>(cnt, qn). qn \<noteq> 0) (sanity_count_body ?s1) (0, first ns) = Ret (cnt, 0)"
    using sanity_count [OF Q(4)] by blast
  have "sanity_head_body ?s1 (False, q) = Ret (cnt \<noteq> qh_current_size Q, 0)"
    using Q cnt by (simp add: sanity_head_body_def)
  then have "while_o (\<lambda>(crashed, qh). qh \<noteq> 0) (sanity_head_body ?s1) (False, q) = Ret (cnt \<noteq> qh_current_size Q, 0)"
    using queue_at_head(1) [OF qa] by (subst while_o_unfold) simp
  moreover obtain Q0 where "load the_qhead q s = Ret Q0" "qh_lock Q0 = l" using queue_at_head(3) [OF qa] by blast
  ultimately show ?thesis
    using queue_at_head(1,2) [OF qa] lk(1) by (simp add: os_qbuff_sanity_check_def)
qed

section \<open>Creating a queue\<close>

lemma q_ok_keeps:
  assumes ok: "q_ok s M ms cs qs" and k: "keeps s s'" and v: "var_ok s' M' ms' cs'"
    and M: "M' (queue_list s) = M (queue_list s)"
  shows "q_ok s' M' ms' cs' qs"
proof -
  have "table s' M (queue_list s) QUEUE_NAME is_qhead qs" by (rule table_keeps [OF q_okD(6) [OF ok] k])
  then have "table s' M' (queue_list s) QUEUE_NAME is_qhead qs" using M by (simp add: table_def)
  then show ?thesis using v q_okD(4,5) [OF ok] keeps_lists [OF k] by (simp add: q_ok_def)
qed

lemma q_ok_other:
  assumes ok: "q_ok s M ms cs qs" and x: "\<And>x. heap s a = Some x \<Longrightarrow> plain x"
    and s': "s' = hput a y s \<or> s' = hdel a s" and qh: "\<And>x. heap s a = Some x \<Longrightarrow> is_qhead x \<Longrightarrow> s' = hput a y s \<and> is_qhead y"
  shows "q_ok s' M ms cs qs"
proof (rule q_ok_fr [OF ok])
  show "fr {a} s s'" using s' by auto
qed (use x qh in auto)

lemma q_ok_tick: "q_ok s M ms cs qs \<Longrightarrow> q_ok (tick s) M ms cs qs"
  using q_ok_keeps [OF _ keeps_tick var_ok_tick [OF q_okD(1)]] by simp

definition new_qhead :: "u32 \<Rightarrow> fnptr \<Rightarrow> u32 \<Rightarrow> OS_QHEAD" where
  "new_qhead pool delf lock = \<lparr>qh_channel = 0, qh_current_size = 0, qh_list = 0, qh_lock = lock,
     qh_pool = pool, qh_delfunc = delf, qh_next = 0\<rparr>"

text \<open>When the insertion into the list of queues fails, the lock that was created stays behind.\<close>

lemma os_qbuff_create_law:
  assumes E: "env_ok E" and ok: "q_ok s M ms cs qs" and nm: "name_fits nm"
  shows "\<exists>r s'. os_qbuff_create E nm 0 delf s = Ret (r, s') \<and>
     (r = ERROR \<and> (\<exists>M' ms'. q_ok s' M' ms' cs qs)
      \<or> r \<noteq> 0 \<and> lookup qs r = None \<and>
        (\<exists>M' ms' qs' q l p. queue_at s' M' ms' cs qs' r q l p (new_mutex nm) [] \<and> heap s' q = Some (QHeadObj (new_qhead 0 delf l))
           \<and> (\<forall>k. lookup qs' k = (if k = r then Some q else lookup qs k))))"
proof (rule os_mem_alloc_cases [OF E q_okD(3) [OF ok] sizes_ok_pos [OF E, of T_OS_QHEAD]])
  assume "os_mem_alloc E (e_sizeof E T_OS_QHEAD) s = Ret (0, tick s)"
  then have "os_qbuff_create E nm 0 delf s = Ret (ERROR, tick s)" by (simp add: os_qbuff_create_def)
  then show ?thesis using q_ok_tick [OF ok] by blast
next
  fix q assume b: "q \<noteq> 0" "heap s q = None" "os_mem_alloc E (e_sizeof E T_OS_QHEAD) s =
      Ret (q, hput q (Zeroed (ucast (e_sizeof E T_OS_QHEAD))) (tick s))"
  let ?s1 = "hput q (QHeadObj (new_qhead 0 delf 0)) (tick s)"
  have ok1: "q_ok ?s1 M ms cs qs" by (rule q_ok_other [OF q_ok_tick [OF ok]]) (use b in auto)
  have qx: "q \<notin> set (datas qs)" by (rule new_block_not_data [OF q_okD(6) [OF ok] b(2)])
  have start: "os_qbuff_create E nm 0 delf s = obind (os_mutex_create E nm ?s1) (\<lambda>(lock, s).
     obind (upd_qhead q (\<lambda>q. q\<lparr>qh_lock := lock\<rparr>) s) (\<lambda>s.
     if lock = ERROR then obind (os_mem_free q s) (\<lambda>(r, s). Ret (ERROR, s))
     else obind (os_list_item_insert E (queue_list s) q s) (\<lambda>(res, s).
     if res = ERROR then obind (os_mem_free q s) (\<lambda>(r, s). Ret (ERROR, s))
     else Ret (res, s))))"
    using b by (simp add: os_qbuff_create_def new_qhead_def)
  have hd: "heap s2 q = Some (QHeadObj (new_qhead 0 delf 0))" if "keeps ?s1 s2" for s2
    by (rule keepsD [OF that]) simp_all
  have up: "upd_qhead q (\<lambda>q. q\<lparr>qh_lock := lock\<rparr>) s2 = Ret (hput q (QHeadObj (new_qhead 0 delf lock)) s2)"
    if "keeps ?s1 s2" for s2 lock
    using hd [OF that] b(1) by (simp add: upd_qhead_def load_def new_qhead_def)
  have fre: "os_mem_free q t = Ret (OKAY, hdel q t)" "q_ok (hdel q t) M' ms' cs qs"
    if "q_ok t M' ms' cs qs" "heap t q = Some (QHeadObj Q)" for t M' ms' Q
  proof -
    show "os_mem_free q t = Ret (OKAY, hdel q t)" using that q_okD(3) [OF that(1)] b(1) by simp
    have vo: "var_ok (hdel q t) M' ms' cs"
      by (rule var_ok_fr [OF q_okD(1) [OF that(1)], of "{q}"]) (use that(2) in auto)
    have "table (hdel q t) M' (queue_list t) QUEUE_NAME is_qhead qs"
      using q_okD(6) [OF that(1)] qx unfolding table_def by (auto simp: image_iff)
    then show "q_ok (hdel q t) M' ms' cs qs" using vo q_okD(4,5) [OF that(1)] by (simp add: q_ok_def)
  qed
  show ?thesis
  proof (rule os_mutex_create_cases [OF E q_okD(1) [OF ok1] nm])
    fix s2 assume f: "os_mutex_create E nm ?s1 = Ret (ERROR, s2)" "var_ok s2 M ms cs" "keeps ?s1 s2"
    let ?s3 = "hput q (QHeadObj (new_qhead 0 delf 0)) s2"
    have ok2: "q_ok s2 M ms cs qs" by (rule q_ok_keeps [OF ok1 f(3,2)]) simp
    have ok3: "q_ok ?s3 M ms cs qs" by (rule q_ok_other [OF ok2]) (use hd [OF f(3)] in auto)
    have "os_qbuff_create E nm 0 delf s = Ret (ERROR, hdel q ?s3)"
      using start f(1) up [OF f(3)] fre(1) [OF ok3] by simp
    then show ?thesis using fre(2) [OF ok3] by (simp, metis)
  next
    fix p d l s2 ms'
    assume c: "os_mutex_create E nm ?s1 = Ret (l, s2)" "l \<noteq> 0" "ms' = ms @ [(d, l, OS_LIST_NO_KEY, p)]" "lookup ms l = None"
      "var_ok s2 (M(mutex_list ?s1 \<mapsto> (MUTEX_NAME, ms'))) ms' cs" "keeps ?s1 s2"
      "mutex_of s2 ms' = (mutex_of ?s1 ms)(l \<mapsto> new_mutex nm)"
    let ?M' = "M(mutex_list s \<mapsto> (MUTEX_NAME, ms'))"
    let ?s3 = "hput q (QHeadObj (new_qhead 0 delf l)) s2"
    have ok2: "q_ok s2 ?M' ms' cs qs"
      by (rule q_ok_keeps [OF ok1 c(6)]) (use c(5) q_okD(4) [OF ok] in simp_all)
    have ok3: "q_ok ?s3 ?M' ms' cs qs" by (rule q_ok_other [OF ok2]) (use hd [OF c(6)] in auto)
    have ql: "queue_list s2 = queue_list s" using keeps_lists(4) [OF c(6)] by simp
    have run: "os_qbuff_create E nm 0 delf s = obind (os_list_item_insert E (queue_list s) q ?s3) (\<lambda>(res, s).
       if res = ERROR then obind (os_mem_free q s) (\<lambda>(r, s). Ret (ERROR, s)) else Ret (res, s))"
      using start c(1,2) up [OF c(6)] ql by simp
    have tb3: "table ?s3 ?M' (queue_list s) QUEUE_NAME is_qhead qs" using q_okD(6) [OF ok3] ql by simp
    have h3: "heap ?s3 q = Some (QHeadObj (new_qhead 0 delf l))" by simp
    show ?thesis
    proof (rule table_insert_cases [OF E q_okD(2) [OF ok3] tb3 b(1) h3 _ _ qx])
      fix s4 assume f: "os_list_item_insert E (queue_list s) q ?s3 = Ret (ERROR, s4)" "kit_ok s4 ?M'" "keeps ?s3 s4"
      have v4: "var_ok s4 ?M' ms' cs" by (rule var_ok_keeps [OF q_okD(1) [OF ok3] f(3,2)]) simp_all
      have ok4: "q_ok s4 ?M' ms' cs qs" by (rule q_ok_keeps [OF ok3 f(3) v4]) simp
      have h4: "heap s4 q = Some (QHeadObj (new_qhead 0 delf l))" by (rule keepsD [OF f(3) h3]) simp
      have "os_qbuff_create E nm 0 delf s = Ret (ERROR, hdel q s4)" using run f(1) fre(1) [OF ok4 h4] by simp
      then show ?thesis using fre(2) [OF ok4 h4] by (simp, metis)
    next
      fix d2 r s4 assume i: "os_list_item_insert E (queue_list s) q ?s3 = Ret (r, s4)" "r \<noteq> 0" "lookup qs r = None"
        "kit_ok s4 (?M'(queue_list s \<mapsto> (QUEUE_NAME, qs @ [(d2, r, OS_LIST_NO_KEY, q)])))" "keeps ?s3 s4"
        "table s4 (?M'(queue_list s \<mapsto> (QUEUE_NAME, qs @ [(d2, r, OS_LIST_NO_KEY, q)]))) (queue_list s) QUEUE_NAME is_qhead
           (qs @ [(d2, r, OS_LIST_NO_KEY, q)])"
      let ?qs' = "qs @ [(d2, r, OS_LIST_NO_KEY, q)]"
      let ?M2 = "?M'(queue_list s \<mapsto> (QUEUE_NAME, ?qs'))"
      have l3: "mutex_list ?s3 = mutex_list s" "cond_list ?s3 = cond_list s" using keeps_lists [OF c(6)] by simp_all
      have v4: "var_ok s4 ?M2 ms' cs"
        by (rule var_ok_keeps [OF q_okD(1) [OF ok3] i(5,4)]) (use q_okD(4,5) [OF ok] l3 in auto)
      have "q_ok s4 ?M2 ms' cs ?qs'"
        using v4 i(6) q_okD(4,5) [OF ok] keeps_lists [OF i(5)] l3 ql by (simp add: q_ok_def)
      moreover have h4: "heap s4 q = Some (QHeadObj (new_qhead 0 delf l))" by (rule keepsD [OF i(5) h3]) simp
      moreover have "lookup ms' l = Some p" using c(3,4) by (simp add: lookup_append lookup_Cons)
      moreover have "heap s4 p = Some (MutexObj (new_mutex nm))"
      proof -
        have "mutex_of s2 ms' l = Some (new_mutex nm)" using c(7) by simp
        then have "heap s2 p = Some (MutexObj (new_mutex nm))"
          using \<open>lookup ms' l = Some p\<close> by (simp add: mutex_of_Some)
        then have "heap ?s3 p = Some (MutexObj (new_mutex nm))" using hd [OF c(6)] by auto
        then show ?thesis by (rule keepsD [OF i(5)]) simp
      qed
      moreover have "lookup ?qs' k = (if k = r then Some q else lookup qs k)" for k
        using i(3) by (auto simp: lookup_append lookup_Cons split: option.splits)
      ultimately have "queue_at s4 ?M2 ms' cs ?qs' r q l p (new_mutex nm) []"
        using b(1) by (simp add: queue_at_def chain_def qhead_rec_def new_qhead_def)
      moreover have "os_qbuff_create E nm 0 delf s = Ret (r, s4)" using run i(1,2) by simp
      ultimately show ?thesis using i(2,3) h4 \<open>\<And>k. lookup ?qs' k = _\<close> by blast
    qed simp_all
  qed
qed

end
