(* ===== verification/Byte_Queue.thy ===== *)
theory Byte_Queue
  imports Qbuff_Laws
begin

text \<open>
  A byte queue as its users see it: bytes go in at the end and come out at the front. The locale states
  the interface and derives the law for every sequence of calls; the interpretation shows that src/qbuff.c
  implements it for queues in system memory, that is, without a buffer class (\<open>qh_pool\<close> is 0).
\<close>

datatype queue_cmd = Put "u8 list" | Get nat

fun queue_cmd_ok :: "queue_cmd \<Rightarrow> bool" where
  "queue_cmd_ok (Put x) \<longleftrightarrow> 0 < length x \<and> length x < 2 ^ 31"
| "queue_cmd_ok (Get n) \<longleftrightarrow> 0 < n \<and> n < 2 ^ 31"

text \<open>The answer of a put, and the count and the bytes of a get.\<close>

datatype queue_ans = Stored u32 | Got u32 "u8 list"

text \<open>
  The answers a queue of bytes may give: a put is refused or appends all its bytes; a get returns the
  first bytes of the queue, as many as were asked for or all when there are fewer, with their number.
\<close>

fun queue_trace :: "u8 list \<Rightarrow> queue_cmd list \<Rightarrow> queue_ans list \<Rightarrow> u8 list \<Rightarrow> bool" where
  "queue_trace bs [] [] rest \<longleftrightarrow> rest = bs"
| "queue_trace bs (Put x # cs) (Stored res # as) rest \<longleftrightarrow>
     res = ERROR \<and> queue_trace bs cs as rest \<or> res = OKAY \<and> queue_trace (bs @ x) cs as rest"
| "queue_trace bs (Get n # cs) (Got k y # as) rest \<longleftrightarrow>
     y = take n bs \<and> k = of_nat (min n (length bs)) \<and> queue_trace (drop n bs) cs as rest"
| "queue_trace bs _ _ rest = False"

fun stored :: "queue_cmd list \<Rightarrow> queue_ans list \<Rightarrow> u8 list" where
  "stored (Put x # cs) (Stored res # as) = (if res = OKAY then x else []) @ stored cs as"
| "stored (_ # cs) (_ # as) = stored cs as"
| "stored _ _ = []"

fun got :: "queue_ans list \<Rightarrow> u8 list" where
  "got [] = []"
| "got (Stored res # as) = got as"
| "got (Got k y # as) = y @ got as"

lemma queue_trace_fifo: "queue_trace bs cs as rest \<Longrightarrow> bs @ stored cs as = got as @ rest"
proof (induction bs cs as rest rule: queue_trace.induct)
  case (3 bs n cs k y as rest)
  then show ?case by simp (metis append.assoc append_take_drop_id)
qed auto

locale byte_queue =
  fixes rep :: "'s \<Rightarrow> u8 list \<Rightarrow> bool"
    and put :: "u8 list \<Rightarrow> 's \<Rightarrow> (u32 \<times> 's) outcome"
    and get :: "nat \<Rightarrow> 's \<Rightarrow> ((u32 \<times> u8 list) \<times> 's) outcome"
  assumes put_ok: "rep s bs \<Longrightarrow> 0 < length x \<Longrightarrow> length x < 2 ^ 31 \<Longrightarrow>
      \<exists>res s'. put x s = Ret (res, s') \<and> (res = ERROR \<and> rep s' bs \<or> res = OKAY \<and> rep s' (bs @ x))"
    and get_ok: "rep s bs \<Longrightarrow> 0 < n \<Longrightarrow> n < 2 ^ 31 \<Longrightarrow>
      \<exists>s'. get n s = Ret ((of_nat (min n (length bs)), take n bs), s') \<and> rep s' (drop n bs)"
begin

text \<open>Running commands: the answers, the state.\<close>

fun run :: "queue_cmd list \<Rightarrow> 's \<Rightarrow> (queue_ans list \<times> 's) outcome" where
  "run [] s = Ret ([], s)"
| "run (Put x # cs) s = obind (put x s) (\<lambda>(res, s).
     obind (run cs s) (\<lambda>(as, s). Ret (Stored res # as, s)))"
| "run (Get n # cs) s = obind (get n s) (\<lambda>((k, y), s).
     obind (run cs s) (\<lambda>(as, s). Ret (Got k y # as, s)))"

lemma run_trace:
  assumes "rep s bs" and "list_all queue_cmd_ok cs"
  shows "\<exists>as s' rest. run cs s = Ret (as, s') \<and> rep s' rest \<and> queue_trace bs cs as rest"
  using assms
proof (induction cs arbitrary: s bs)
  case Nil
  then show ?case by auto
next
  case (Cons c cs)
  show ?case
  proof (cases c)
    case (Put x)
    with put_ok [OF Cons.prems(1), of x] Cons.prems(2) obtain res t where t: "put x s = Ret (res, t)"
        "res = ERROR \<and> rep t bs \<or> res = OKAY \<and> rep t (bs @ x)" by auto
    let ?y = "if res = OKAY then x else []"
    have "rep t (bs @ ?y)" using t(2) by auto
    from Cons.IH [OF this] Cons.prems(2) obtain as s' rest where
      "run cs t = Ret (as, s')" "rep s' rest" "queue_trace (bs @ ?y) cs as rest" by auto
    with t Put show ?thesis by (intro exI [of _ "Stored res # as"]) auto
  next
    case (Get n)
    with get_ok [OF Cons.prems(1), of n] Cons.prems(2) obtain t where
        t: "get n s = Ret ((of_nat (min n (length bs)), take n bs), t)" "rep t (drop n bs)" by auto
    from Cons.IH [OF t(2)] Cons.prems(2) obtain as s' rest where
      "run cs t = Ret (as, s')" "rep s' rest" "queue_trace (drop n bs) cs as rest" by auto
    with t(1) Get show ?thesis by (intro exI [of _ "Got (of_nat (min n (length bs))) (take n bs) # as"]) auto
  qed
qed

lemma fifo:
  assumes "rep s bs" and "list_all queue_cmd_ok cs"
  shows "\<exists>as s' rest. run cs s = Ret (as, s') \<and> rep s' rest \<and> queue_trace bs cs as rest \<and> bs @ stored cs as = got as @ rest"
  using run_trace [OF assms] queue_trace_fifo by blast

end

section \<open>qbuff.c implements it\<close>

text \<open>A queue in system memory (\<open>queue_at\<close> asks for \<open>qh_pool\<close> 0) with these bytes, its lock free.\<close>

definition queue_rep :: "os_env \<Rightarrow> u32 \<Rightarrow> os_state \<Rightarrow> u8 list \<Rightarrow> bool" where
  "queue_rep E r s bs \<longleftrightarrow> env_ok E \<and> r \<noteq> 0 \<and>
     (\<exists>M ms cs qs q l p m ns. queue_at s M ms cs qs r q l p m ns \<and> mutex_free m \<and> content ns = bs)"

definition qbuff_put_all :: "os_env \<Rightarrow> u32 \<Rightarrow> u8 list \<Rightarrow> u32 os" where
  "qbuff_put_all E r x s = os_qbuff_put E r (Some x) (of_nat (length x)) s"

definition qbuff_get_bytes :: "os_env \<Rightarrow> u32 \<Rightarrow> nat \<Rightarrow> (u32 \<times> u8 list) os" where
  "qbuff_get_bytes E r n s = os_qbuff_get E r True (of_nat n) s"

lemma qbuff_put_rep:
  assumes "queue_rep E r s bs" and "0 < length x" and "length x < 2 ^ 31"
  shows "\<exists>res s'. qbuff_put_all E r x s = Ret (res, s') \<and>
     (res = ERROR \<and> queue_rep E r s' bs \<or> res = OKAY \<and> queue_rep E r s' (bs @ x))"
proof -
  from assms(1) obtain M ms cs qs q l p m ns where E: "env_ok E" "r \<noteq> 0"
      and qa: "queue_at s M ms cs qs r q l p m ns" "mutex_free m" "content ns = bs"
    by (auto simp: queue_rep_def)
  obtain res s' ns' where s': "os_qbuff_put E r (Some x) (of_nat (length x)) s = Ret (res, s')"
      "queue_at s' M ms cs qs r q l p m ns'" "res = ERROR \<and> content ns' = bs \<or> res = OKAY \<and> content ns' = bs @ x"
    using os_qbuff_put_law [OF E(1) qa(1,2) E(2) assms(2,3) order_refl] qa(3) by auto
  have "queue_rep E r s' (content ns')" unfolding queue_rep_def using E qa(2) s'(2) by blast
  then show ?thesis using s'(1,3) by (auto simp: qbuff_put_all_def)
qed

lemma qbuff_get_rep:
  assumes "queue_rep E r s bs" and "0 < n" and "n < 2 ^ 31"
  shows "\<exists>s'. qbuff_get_bytes E r n s = Ret ((of_nat (min n (length bs)), take n bs), s') \<and> queue_rep E r s' (drop n bs)"
proof -
  from assms(1) obtain M ms cs qs q l p m ns where E: "env_ok E" "r \<noteq> 0"
      and qa: "queue_at s M ms cs qs r q l p m ns" "mutex_free m" "content ns = bs"
    by (auto simp: queue_rep_def)
  obtain s' ns' where s': "os_qbuff_get E r True (of_nat n) s = Ret ((of_nat (min n (length bs)), take n bs), s')"
      "queue_at s' M ms cs qs r q l p m ns'" "content ns' = drop n bs"
    using os_qbuff_get_law [OF qa(1,2) assms(2,3), of E] qa(3) by auto
  have "queue_rep E r s' (content ns')" unfolding queue_rep_def using E qa(2) s'(2) by blast
  then show ?thesis using s'(1,3) by (simp add: qbuff_get_bytes_def)
qed

interpretation qbuff: byte_queue "queue_rep E r" "qbuff_put_all E r" "qbuff_get_bytes E r" for E r
  by unfold_locales (fact qbuff_put_rep, fact qbuff_get_rep)

end
