(* ===== verification/Msgq_Laws.thy ===== *)
theory Msgq_Laws
  imports Os_Msgq Byte_Queue
begin

text \<open>
  What src/msgq.c promises: the messages of a queue come out in the order they were sent. The message
  queue is a client of the byte queue: eight bytes go in per message and come out together. Receiving
  with a time limit takes a waiting message at once; receiving without one waits for a signal first,
  also when messages are waiting.
\<close>

definition is_mhead :: "obj \<Rightarrow> bool" where "is_mhead ob \<longleftrightarrow> the_mesg_head ob \<noteq> None"

lemma is_mhead_simps [simp]: "is_mhead (MesgHeadObj H)" "is_mhead ob \<Longrightarrow> \<not> list_obj ob"
  "is_mhead ob \<Longrightarrow> \<not> q_obj ob"
  by (cases ob; simp add: is_mhead_def)+

section \<open>Message queues in the store\<close>

definition msgq_at ::
    "os_state \<Rightarrow> ghost \<Rightarrow> nodes \<Rightarrow> nodes \<Rightarrow> nodes \<Rightarrow> nodes \<Rightarrow> u32 \<Rightarrow> addr \<Rightarrow> OS_MESG_HEAD \<Rightarrow> addr \<Rightarrow> u32 \<Rightarrow> addr
      \<Rightarrow> OS_MUTEX \<Rightarrow> qitems \<Rightarrow> addr \<Rightarrow> OS_COND \<Rightarrow> bool" where
  "msgq_at s M ms cs qs mqs r mh H q l p m ns cp C \<longleftrightarrow>
     queue_at s M ms cs qs (mh_qbuff H) q l p m ns \<and> mh_qbuff H \<noteq> 0
     \<and> table s M (msgq_list s) MSGQ_NAME is_mhead mqs \<and> lookup mqs r = Some mh
     \<and> heap s mh = Some (MesgHeadObj H)
     \<and> lookup cs (mh_cond H) = Some cp \<and> heap s cp = Some (CondObj C)"

lemma queue_at_cond:
  assumes qa: "queue_at s M ms cs qs r q l p m ns" and c: "heap s a = Some (CondObj C)"
  shows "queue_at (hput a (CondObj C') s) M ms cs qs r q l p m ns"
proof -
  note * = qa [unfolded queue_at_def]
  have v: "var_ok (hput a (CondObj C') s) M ms cs"
    by (rule var_ok_hput [OF q_okD(1)]) (use * c in auto)
  have "table (hput a (CondObj C') s) M (queue_list s) QUEUE_NAME is_qhead qs"
    by (rule table_frame [OF q_okD(6)]) (use * c in \<open>auto simp: is_qhead_def\<close>)
  then have q: "q_ok (hput a (CondObj C') s) M ms cs qs" using v * by (simp add: q_ok_def)
  have ne: "a \<noteq> q" "a \<noteq> p" "a \<notin> set (blocks ns)"
    using * c qseg_dom [of "heap s" ns 0 a] by (auto simp: chain_def plain_def)
  have "qseg (heap (hput a (CondObj C') s)) ns 0 = qseg (heap s) ns 0" by (rule qseg_cong) (use ne in auto)
  then show ?thesis using * q ne by (auto simp: queue_at_def chain_def)
qed

lemma msgq_find:
  assumes "msgq_at s M ms cs qs mqs r mh H q l p m ns cp C"
  shows "os_obj_find (msgq_list s) r s = Ret mh" "mh \<noteq> 0" "load the_mesg_head mh s = Ret H"
proof -
  note * = assms [unfolded msgq_at_def]
  have ok: "kit_ok s M" using * q_okD(2) by (auto simp: queue_at_def)
  show "mh \<noteq> 0" using * table_lookup(1) by blast
  with * show "load the_mesg_head mh s = Ret H" by (simp add: load_def)
  show "os_obj_find (msgq_list s) r s = Ret mh"
    unfolding os_obj_find_def using table_find [OF ok, of "msgq_list s" MSGQ_NAME is_mhead mqs r] * by simp
qed

lemma msgq_at_var: "msgq_at s M ms cs qs mqs r mh H q l p m ns cp C \<Longrightarrow> var_ok s M ms cs"
  using q_okD(1) by (auto simp: msgq_at_def queue_at_def)

text \<open>An operation on the byte queue.\<close>

lemma msgq_at_qkeeps:
  assumes mq: "msgq_at s M ms cs qs mqs r mh H q l p m ns cp C" and k: "qkeeps s s'"
    and qa: "queue_at s' M ms cs qs (mh_qbuff H) q l p m ns'"
  shows "msgq_at s' M ms cs qs mqs r mh H q l p m ns' cp C"
proof -
  note * = mq [unfolded msgq_at_def]
  have kp: "heap s' a = Some x" if "heap s a = Some x" "\<not> q_obj x" for a x
    using k that by (simp add: qk_def)
  have ml: "msgq_list s' = msgq_list s" using k same_statics_fields(5) by (auto simp: qk_def)
  have "table s' M (msgq_list s) MSGQ_NAME is_mhead mqs"
    by (rule table_frame [of s]) (use * kp in auto)
  then show ?thesis using * qa kp ml by (simp add: msgq_at_def)
qed

text \<open>An update of the condition variable or of the head of the message queue.\<close>

lemma msgq_at_cond:
  assumes mq: "msgq_at s M ms cs qs mqs r mh H q l p m ns cp C"
  shows "msgq_at (hput cp (CondObj C') s) M ms cs qs mqs r mh H q l p m ns cp C'"
proof -
  note * = mq [unfolded msgq_at_def]
  have "table (hput cp (CondObj C') s) M (msgq_list s) MSGQ_NAME is_mhead mqs"
    by (rule table_frame [of s]) (use * in \<open>auto simp: is_mhead_def\<close>)
  then show ?thesis using * queue_at_cond by (auto simp: msgq_at_def)
qed

lemma msgq_at_head:
  assumes mq: "msgq_at s M ms cs qs mqs r mh H q l p m ns cp C" and H': "mh_qbuff H' = mh_qbuff H" "mh_cond H' = mh_cond H"
  shows "msgq_at (hput mh (MesgHeadObj H') s) M ms cs qs mqs r mh H' q l p m ns cp C"
proof -
  note * = mq [unfolded msgq_at_def]
  have qa: "queue_at s M ms cs qs (mh_qbuff H) q l p m ns" using * by simp
  have ne: "mh \<noteq> q" "mh \<notin> set (blocks ns)"
    using * qseg_dom [of "heap s" ns 0 mh] queue_at_q_obj [OF qa, of mh] by auto
  have "queue_at (hput mh (MesgHeadObj H') s) M ms cs qs (mh_qbuff H) q l p m ns"
    by (rule queue_at_other [OF qa ne]) (use * in \<open>auto simp: is_qhead_def\<close>)
  moreover have "table (hput mh (MesgHeadObj H') s) M (msgq_list s) MSGQ_NAME is_mhead mqs"
    by (rule table_frame [of s]) (use * in auto)
  ultimately show ?thesis using * H' by (auto simp: msgq_at_def)
qed

lemma msgq_at_tick: "msgq_at s M ms cs qs mqs r mh H q l p m ns cp C \<Longrightarrow> msgq_at (tick s) M ms cs qs mqs r mh H q l p m ns cp C"
  using table_keeps [OF _ keeps_tick] by (fastforce simp: msgq_at_def)

section \<open>Sending\<close>

definition mesg_bytes :: "addr list \<Rightarrow> u8 list" where
  "mesg_bytes xs = concat (map ulong_bytes xs)"

lemma mesg_bytes_simps [simp]: "mesg_bytes [] = []" "mesg_bytes (x # xs) = ulong_bytes x @ mesg_bytes xs"
  "mesg_bytes (xs @ ys) = mesg_bytes xs @ mesg_bytes ys"
  by (simp_all add: mesg_bytes_def)

lemma length_mesg_bytes [simp]: "length (mesg_bytes xs) = 8 * length xs"
  by (induction xs) auto

lemma os_msgq_send_law:
  assumes E: "env_ok E" and mq: "msgq_at s M ms cs qs mqs r mh H q l p m ns cp C" and free: "mutex_free m" "\<not> cv_mutex C"
    and msg: "msg \<noteq> 0"
  shows "\<exists>res s' H' ns' C'. os_msgq_send E r msg s = Ret (res, s')
     \<and> msgq_at s' M ms cs qs mqs r mh H' q l p m ns' cp C' \<and> \<not> cv_mutex C'
     \<and> (res = ERROR \<and> content ns' = content ns \<and> (\<exists>n z h. n \<le> calls s + 1 \<and> e_region_alloc E n (os_sys_region s) z h = 0)
        \<or> res = OKAY \<and> content ns' = content ns @ ulong_bytes msg \<and> mh_counter H' = mh_counter H + 1)"
proof -
  note * = mq [unfolded msgq_at_def]
  have qa: "queue_at s M ms cs qs (mh_qbuff H) q l p m ns" and q0: "mh_qbuff H \<noteq> 0" using * by simp_all
  have n8: "0 < (8::nat)" "(8::nat) < 2 ^ 31" "8 \<le> length (ulong_bytes msg)" by simp_all
  obtain res s1 ns' where s1: "os_qbuff_put E (mh_qbuff H) (Some (ulong_bytes msg)) (of_nat 8) s = Ret (res, s1)"
      "queue_at s1 M ms cs qs (mh_qbuff H) q l p m ns'" "qkeeps s s1"
      "res = ERROR \<and> content ns' = content ns \<and> (\<exists>n z h. n \<le> calls s + 1 \<and> e_region_alloc E n (os_sys_region s) z h = 0)
        \<or> res = OKAY \<and> content ns' = content ns @ take 8 (ulong_bytes msg)"
    using os_qbuff_put_law [OF E qa free(1) q0 n8] by blast
  have mq1: "msgq_at s1 M ms cs qs mqs r mh H q l p m ns' cp C" by (rule msgq_at_qkeeps [OF mq s1(3,2)])
  note find = msgq_find [OF mq]
  show ?thesis
  proof (cases "res = ERROR")
    case True
    then have "os_msgq_send E r msg s = Ret (ERROR, s1)" using msg find s1(1) by (simp add: os_msgq_send_def)
    moreover have "content ns' = content ns \<and> (\<exists>n z h. n \<le> calls s + 1 \<and> e_region_alloc E n (os_sys_region s) z h = 0)"
      using True s1(4) by auto
    ultimately show ?thesis using mq1 free(2) by blast
  next
    case False
    then have res: "res = OKAY" "content ns' = content ns @ ulong_bytes msg" using s1(4) by auto
    let ?C = "C\<lparr>cv_sigtime := e_time E (calls s1)\<rparr>" and ?H = "H\<lparr>mh_counter := mh_counter H + 1\<rparr>"
    let ?s2 = "hput cp (CondObj ?C) (tick s1)"
    have sig: "os_cond_signal E (mh_cond H) s1 = Ret (OKAY, ?s2)"
      using cond_signal_step [OF msgq_at_var [OF mq1]] mq1 free(2) by (simp add: msgq_at_def)
    have mq2: "msgq_at ?s2 M ms cs qs mqs r mh H q l p m ns' cp ?C" by (rule msgq_at_cond [OF msgq_at_tick [OF mq1]])
    have mq3: "msgq_at (hput mh (MesgHeadObj ?H) ?s2) M ms cs qs mqs r mh ?H q l p m ns' cp ?C"
      by (rule msgq_at_head [OF mq2]) simp_all
    have "os_msgq_send E r msg s = Ret (OKAY, hput mh (MesgHeadObj ?H) ?s2)"
      using msg find s1(1) res(1) sig msgq_find(3) [OF mq2] by (simp add: os_msgq_send_def upd_mesg_head_def)
    moreover have "\<not> cv_mutex ?C" "mh_counter ?H = mh_counter H + 1" using free(2) by simp_all
    ultimately show ?thesis using mq3 res(2) by blast
  qed
qed

section \<open>Receiving\<close>

lemma recv_internal_law:
  assumes mq: "msgq_at s M ms cs qs mqs r mh H q l p m ns cp C" and free: "mutex_free m"
    and x: "content ns = ulong_bytes x @ rest" "x \<noteq> 0"
  shows "\<exists>s' ns'. os_msgq_recv_internal E mh s = Ret (x, s') \<and> msgq_at s' M ms cs qs mqs r mh H q l p m ns' cp C
     \<and> content ns' = rest"
proof -
  have qa: "queue_at s M ms cs qs (mh_qbuff H) q l p m ns" using mq by (simp add: msgq_at_def)
  obtain s' ns' where s': "os_qbuff_get E (mh_qbuff H) True (of_nat 8) s =
       Ret ((of_nat (min 8 (length (content ns))), take 8 (content ns)), s')"
      "queue_at s' M ms cs qs (mh_qbuff H) q l p m ns'" "content ns' = drop 8 (content ns)" "qkeeps s s'"
    using os_qbuff_get_law [OF qa free, of 8 E] by auto
  have "os_msgq_recv_internal E mh s = Ret (x, s')"
    using s'(1) x msgq_find(2,3) [OF mq] by (simp add: os_msgq_recv_internal_def bytes_ulong_bytes)
  then show ?thesis using msgq_at_qkeeps [OF mq s'(4,2)] s'(3) x by auto
qed

text \<open>Up to the release at the end: the message is taken, and nobody holds the mutex of the signal.\<close>

lemma os_msgq_recv_timeout_body:
  assumes mq: "msgq_at s M ms cs qs mqs r mh H q l p m ns cp C" and free: "mutex_free m" "\<not> cv_mutex C"
    and x: "content ns = ulong_bytes x @ rest" "x \<noteq> 0" and small: "length (content ns) < 2 ^ 32"
  shows "\<exists>s' H' ns'. os_msgq_recv_timeout E r tm s = obind (os_cond_release E (mh_cond H') s') (\<lambda>(r, s). Ret (x, s))
     \<and> msgq_at s' M ms cs qs mqs r mh H' q l p m ns' cp C \<and> content ns' = rest \<and> mh_counter H' = mh_counter H - 1"
proof -
  have qa: "queue_at s M ms cs qs (mh_qbuff H) q l p m ns" using mq by (simp add: msgq_at_def)
  have n0: "(of_nat (length (content ns)) :: u32) \<noteq> 0"
  proof -
    have "unat (of_nat (length (content ns)) :: u32) = length (content ns)" using small by (simp add: unat_of_nat)
    then show ?thesis using x by (metis add_is_0 length_append length_ulong_bytes unat_0 zero_neq_numeral)
  qed
  obtain s1 ns' where s1: "os_msgq_recv_internal E mh s = Ret (x, s1)"
      "msgq_at s1 M ms cs qs mqs r mh H q l p m ns' cp C" "content ns' = rest"
    using recv_internal_law [OF mq free(1) x] by blast
  let ?H = "H\<lparr>mh_counter := mh_counter H - 1\<rparr>"
  let ?s2 = "hput mh (MesgHeadObj ?H) s1"
  have mq2: "msgq_at ?s2 M ms cs qs mqs r mh ?H q l p m ns' cp C" by (rule msgq_at_head [OF s1(2)]) simp_all
  have "os_msgq_recv_timeout E r tm s = obind (os_cond_release E (mh_cond ?H) ?s2) (\<lambda>(r, s). Ret (x, s))"
    using msgq_find [OF mq] os_qbuff_current_size_law [OF qa free(1)] n0 s1(1) x(2) msgq_find(3) [OF s1(2)]
    by (simp add: os_msgq_recv_timeout_def upd_mesg_head_def)
  moreover have "mh_counter ?H = mh_counter H - 1" by simp
  ultimately show ?thesis using mq2 s1(3) by blast
qed

text \<open>On a platform where unlocking a free mutex has no effect the message is delivered; by the letter of
  POSIX the call runs into undefined behaviour.\<close>

lemma os_msgq_recv_timeout_law:
  assumes mq: "msgq_at s M ms cs qs mqs r mh H q l p m ns cp C" and free: "mutex_free m" "\<not> cv_mutex C"
    and x: "content ns = ulong_bytes x @ rest" "x \<noteq> 0" and small: "length (content ns) < 2 ^ 32"
    and E: "e_unlock_free E"
  shows "\<exists>s' H' ns'. os_msgq_recv_timeout E r tm s = Ret (x, s')
     \<and> msgq_at s' M ms cs qs mqs r mh H' q l p m ns' cp C \<and> content ns' = rest \<and> mh_counter H' = mh_counter H - 1"
proof -
  from os_msgq_recv_timeout_body [OF assms(1-6), of E tm] obtain s' H' ns' where
    b: "os_msgq_recv_timeout E r tm s = obind (os_cond_release E (mh_cond H') s') (\<lambda>(r, s). Ret (x, s))"
      "msgq_at s' M ms cs qs mqs r mh H' q l p m ns' cp C" "content ns' = rest" "mh_counter H' = mh_counter H - 1" by blast
  have "os_cond_release E (mh_cond H') s' = Ret (OKAY, s')"
    using cond_release_step [OF msgq_at_var [OF b(2)]] b(2) free(2) E by (simp add: msgq_at_def)
  then show ?thesis using b by auto
qed

lemma os_msgq_recv_timeout_strict:
  assumes mq: "msgq_at s M ms cs qs mqs r mh H q l p m ns cp C" and free: "mutex_free m" "\<not> cv_mutex C"
    and x: "content ns = ulong_bytes x @ rest" "x \<noteq> 0" and small: "length (content ns) < 2 ^ 32"
    and E: "\<not> e_unlock_free E"
  shows "os_msgq_recv_timeout E r tm s = Fault Bad_Unlock"
proof -
  from os_msgq_recv_timeout_body [OF assms(1-6), of E tm] obtain s' H' ns' where
    b: "os_msgq_recv_timeout E r tm s = obind (os_cond_release E (mh_cond H') s') (\<lambda>(r, s). Ret (x, s))"
      "msgq_at s' M ms cs qs mqs r mh H' q l p m ns' cp C" by blast
  have "os_cond_release E (mh_cond H') s' = Fault Bad_Unlock"
    using cond_release_step [OF msgq_at_var [OF b(2)]] b(2) free(2) E by (simp add: msgq_at_def)
  then show ?thesis using b(1) by simp
qed

text \<open>The receiver without a time limit takes the mutex, waits and gives the mutex back. A wait that is
  woken up, with the queue as it was, lets it take the message.\<close>

lemma os_msgq_recv_law:
  assumes mq: "msgq_at s M ms cs qs mqs r mh H q l p m ns cp C" and free: "mutex_free m" "\<not> cv_mutex C"
    and x: "content ns = ulong_bytes x @ rest" "x \<noteq> 0" and small: "length (content ns) < 2 ^ 32"
    and woken: "\<And>a t. e_cond_wait E a t = Ret ((), t)"
  shows "\<exists>s' H' ns' C'. os_msgq_recv E r bmode s = Ret (x, s')
     \<and> msgq_at s' M ms cs qs mqs r mh H' q l p m ns' cp C' \<and> \<not> cv_mutex C' \<and> content ns' = rest
     \<and> mh_counter H' = mh_counter H - 1"
proof -
  have qa: "queue_at s M ms cs qs (mh_qbuff H) q l p m ns" using mq by (simp add: msgq_at_def)
  have cp: "heap s cp = Some (CondObj C)" "lookup cs (mh_cond H) = Some cp" using mq by (simp_all add: msgq_at_def)
  have cp0: "cp \<noteq> 0" using table_lookup(1) [OF var_okD(4) [OF msgq_at_var [OF mq]] cp(2)] .
  have n0: "(of_nat (length (content ns)) :: u32) \<noteq> 0"
  proof -
    have "unat (of_nat (length (content ns)) :: u32) = length (content ns)" using small by (simp add: unat_of_nat)
    then show ?thesis using x by (metis add_is_0 length_append length_ulong_bytes unat_0 zero_neq_numeral)
  qed
  define C1 where "C1 = C\<lparr>cv_waittime := e_time E (calls s), cv_mutex := True\<rparr>"
  define C2 where "C2 = C1\<lparr>cv_waittime := e_time E (Suc (calls s)) - cv_waittime C1\<rparr>"
  define s1 where "s1 = hput cp (CondObj C2) (tick (hput cp (CondObj C1) (tick s)))"
  have acq: "os_cond_acquire E (mh_cond H) s = Ret (OKAY, s1)"
    using cond_acquire_step [OF msgq_at_var [OF mq] cp(2,1) free(2), of E] free(2) cp0
    by (simp add: woken cond_mutex_lock_def upd_cond_def load_def s1_def C1_def C2_def hput_def tick_def)
  have mq1: "msgq_at s1 M ms cs qs mqs r mh H q l p m ns cp C2"
    unfolding s1_def by (intro msgq_at_cond [where C = C1] msgq_at_tick msgq_at_cond [where C = C] mq)
  obtain s2 ns' where s2: "os_msgq_recv_internal E mh s1 = Ret (x, s2)"
      "msgq_at s2 M ms cs qs mqs r mh H q l p m ns' cp C2" "content ns' = rest"
    using recv_internal_law [OF mq1 free(1) x] by blast
  let ?H = "H\<lparr>mh_counter := mh_counter H - 1\<rparr>"
  let ?s3 = "hput mh (MesgHeadObj ?H) s2" and ?C = "C2\<lparr>cv_mutex := False\<rparr>"
  have mq3: "msgq_at ?s3 M ms cs qs mqs r mh ?H q l p m ns' cp C2" by (rule msgq_at_head [OF s2(2)]) simp_all
  have rel: "os_cond_release E (mh_cond H) ?s3 = Ret (OKAY, hput cp (CondObj ?C) ?s3)"
    using cond_release_step [OF msgq_at_var [OF mq3], of "mh_cond H" cp C2 E] mq3
    by (simp add: msgq_at_def C1_def C2_def)
  have "os_msgq_recv E r bmode s = Ret (x, hput cp (CondObj ?C) ?s3)"
    using msgq_find [OF mq] os_qbuff_current_size_law [OF qa free(1)] n0 acq s2(1) x(2) rel msgq_find(3) [OF s2(2)]
    by (simp add: os_msgq_recv_def upd_mesg_head_def)
  moreover have "msgq_at (hput cp (CondObj ?C) ?s3) M ms cs qs mqs r mh ?H q l p m ns' cp ?C" by (rule msgq_at_cond [OF mq3])
  moreover have "\<not> cv_mutex ?C" "mh_counter ?H = mh_counter H - 1" by simp_all
  ultimately show ?thesis using s2(3) by blast
qed

end
