(* ===== verification/Message_Queue.thy ===== *)
theory Message_Queue
  imports Msgq_Laws "HOL-Library.Sublist"
begin

text \<open>
  A message queue as its users see it: what is sent and accepted is received once and in order. The
  locale states what a sender and a receiver rely on, for queues of fewer than \<open>cap\<close> messages, and
  derives the law for whole runs; the interpretations show that src/msgq.c keeps it for queues in system
  memory, for the receiver with a time limit where unlocking a free mutex has no effect, and for the other
  one where its waits are woken up, with 2^29 messages as the bound: the byte count of the queue below is
  32 bits wide.
\<close>

locale message_queue =
  fixes rep :: "'s \<Rightarrow> addr list \<Rightarrow> bool"
    and send :: "addr \<Rightarrow> 's \<Rightarrow> (u32 \<times> 's) outcome"
    and recv :: "'s \<Rightarrow> (addr \<times> 's) outcome"
    and cap :: nat
  assumes send_ok: "rep s xs \<Longrightarrow> x \<noteq> 0 \<Longrightarrow>
      \<exists>res s'. send x s = Ret (res, s') \<and> (res = ERROR \<and> rep s' xs \<or> res = OKAY \<and> rep s' (xs @ [x]))"
    and recv_ok: "rep s (x # xs) \<Longrightarrow> length xs < cap \<Longrightarrow> \<exists>s'. recv s = Ret (x, s') \<and> rep s' xs"
begin

text \<open>Sending a list of messages, with the accepted ones as the result, and receiving \<open>n\<close> times.\<close>

fun send_all :: "addr list \<Rightarrow> 's \<Rightarrow> (addr list \<times> 's) outcome" where
  "send_all [] s = Ret ([], s)"
| "send_all (x # xs) s = obind (send x s) (\<lambda>(res, s).
     obind (send_all xs s) (\<lambda>(acc, s). Ret ((if res = OKAY then x # acc else acc), s)))"

fun recv_times :: "nat \<Rightarrow> 's \<Rightarrow> (addr list \<times> 's) outcome" where
  "recv_times 0 s = Ret ([], s)"
| "recv_times (Suc n) s = obind (recv s) (\<lambda>(x, s). obind (recv_times n s) (\<lambda>(xs, s). Ret (x # xs, s)))"

lemma send_all_accepted:
  assumes "rep s ys" and "0 \<notin> set xs"
  shows "\<exists>acc s'. send_all xs s = Ret (acc, s') \<and> subseq acc xs \<and> rep s' (ys @ acc)"
  using assms
proof (induction xs arbitrary: s ys)
  case (Cons x xs)
  from send_ok [OF Cons.prems(1), of x] Cons.prems(2) obtain res t where t: "send x s = Ret (res, t)"
      "rep t (ys @ (if res = OKAY then [x] else []))" by auto
  from Cons.IH [OF t(2)] Cons.prems(2) obtain acc s' where a: "send_all xs t = Ret (acc, s')" "subseq acc xs"
      "rep s' ((ys @ (if res = OKAY then [x] else [])) @ acc)" by auto
  show ?case by (cases "res = OKAY") (use t(1) a in auto)
qed auto

lemma recv_times_all:
  "rep s xs \<Longrightarrow> length xs \<le> cap \<Longrightarrow> \<exists>s'. recv_times (length xs) s = Ret (xs, s') \<and> rep s' []"
proof (induction xs arbitrary: s)
  case (Cons x xs)
  then obtain t where t: "recv s = Ret (x, t)" "rep t xs" using recv_ok [of s x xs] by auto
  from Cons.IH [OF t(2)] Cons.prems(2) obtain s' where "recv_times (length xs) t = Ret (xs, s')" "rep s' []" by auto
  with t(1) show ?case by auto
qed auto

lemma delivery:
  assumes "rep s ys" and "0 \<notin> set xs" and "length ys + length xs \<le> cap"
  shows "\<exists>acc s1 s2. send_all xs s = Ret (acc, s1) \<and> subseq acc xs
     \<and> recv_times (length ys + length acc) s1 = Ret (ys @ acc, s2) \<and> rep s2 []"
proof -
  from send_all_accepted [OF assms(1,2)] obtain acc s1 where a: "send_all xs s = Ret (acc, s1)" "subseq acc xs"
      "rep s1 (ys @ acc)" by blast
  have "length (ys @ acc) \<le> cap" using list_emb_length [OF a(2)] assms(3) by simp
  from recv_times_all [OF a(3) this] a(1,2) show ?thesis by (auto simp: add.commute)
qed

end

section \<open>msgq.c implements it\<close>

definition msgq_rep :: "os_env \<Rightarrow> u32 \<Rightarrow> os_state \<Rightarrow> addr list \<Rightarrow> bool" where
  "msgq_rep E r s xs \<longleftrightarrow> env_ok E \<and> 0 \<notin> set xs \<and>
     (\<exists>M ms cs qs mqs mh H q l p m ns cp C. msgq_at s M ms cs qs mqs r mh H q l p m ns cp C
        \<and> mutex_free m \<and> \<not> cv_mutex C \<and> content ns = mesg_bytes xs)"

lemma msgq_send_rep:
  assumes "msgq_rep E r s xs" and "x \<noteq> 0"
  shows "\<exists>res s'. os_msgq_send E r x s = Ret (res, s')
     \<and> (res = ERROR \<and> msgq_rep E r s' xs \<or> res = OKAY \<and> msgq_rep E r s' (xs @ [x]))"
proof -
  from assms(1) obtain M ms cs qs mqs mh H q l p m ns cp C where E: "env_ok E" "0 \<notin> set xs"
      and mq: "msgq_at s M ms cs qs mqs r mh H q l p m ns cp C" "mutex_free m" "\<not> cv_mutex C" "content ns = mesg_bytes xs"
    by (auto simp: msgq_rep_def)
  from os_msgq_send_law [OF E(1) mq(1-3) assms(2)] obtain res s' H' ns' C' where s': "os_msgq_send E r x s = Ret (res, s')"
      "msgq_at s' M ms cs qs mqs r mh H' q l p m ns' cp C'" "\<not> cv_mutex C'"
      "res = ERROR \<and> content ns' = content ns \<or> res = OKAY \<and> content ns' = content ns @ ulong_bytes x" by blast
  have rep: "msgq_rep E r s' zs" if "content ns' = mesg_bytes zs" "0 \<notin> set zs" for zs
    unfolding msgq_rep_def using E(1) that s'(2,3) mq(2) by blast
  from s'(4) show ?thesis
  proof (elim disjE conjE)
    assume "res = ERROR" "content ns' = content ns"
    then show ?thesis using rep [of xs] mq(4) E(2) s'(1) by auto
  next
    assume "res = OKAY" "content ns' = content ns @ ulong_bytes x"
    then show ?thesis using rep [of "xs @ [x]"] mq(4) E(2) assms(2) s'(1) by auto
  qed
qed

lemma msgq_recv_rep:
  assumes "msgq_rep E r s (x # xs)" and "length xs < 2 ^ 29 - 1" and "e_unlock_free E"
  shows "\<exists>s'. os_msgq_recv_timeout E r tm s = Ret (x, s') \<and> msgq_rep E r s' xs"
proof -
  from assms(1) obtain M ms cs qs mqs mh H q l p m ns cp C where E: "env_ok E" "0 \<notin> set xs" "x \<noteq> 0"
      and mq: "msgq_at s M ms cs qs mqs r mh H q l p m ns cp C" "mutex_free m" "\<not> cv_mutex C"
        "content ns = ulong_bytes x @ mesg_bytes xs"
    by (auto simp: msgq_rep_def)
  have "length (content ns) < 2 ^ 32" using assms(2) mq(4) by simp
  from os_msgq_recv_timeout_law [OF mq(1-4) E(3) this assms(3), of tm] obtain s' H' ns' where
      s': "os_msgq_recv_timeout E r tm s = Ret (x, s')" "msgq_at s' M ms cs qs mqs r mh H' q l p m ns' cp C"
      "content ns' = mesg_bytes xs" by blast
  have "msgq_rep E r s' xs" unfolding msgq_rep_def using E mq(2,3) s'(2,3) by blast
  then show ?thesis using s'(1) by blast
qed

text \<open>The receiver without a time limit, when its waits are woken up with the state as it was.\<close>

definition wakes :: "os_env \<Rightarrow> bool" where
  "wakes E \<longleftrightarrow> (\<forall>a t. e_cond_wait E a t = Ret ((), t))"

lemma msgq_wait_rep:
  assumes "msgq_rep E r s (x # xs)" and "length xs < 2 ^ 29 - 1" and "wakes E"
  shows "\<exists>s'. os_msgq_recv E r bmode s = Ret (x, s') \<and> msgq_rep E r s' xs"
proof -
  from assms(1) obtain M ms cs qs mqs mh H q l p m ns cp C where E: "env_ok E" "0 \<notin> set xs" "x \<noteq> 0"
      and mq: "msgq_at s M ms cs qs mqs r mh H q l p m ns cp C" "mutex_free m" "\<not> cv_mutex C"
        "content ns = ulong_bytes x @ mesg_bytes xs"
    by (auto simp: msgq_rep_def)
  have "length (content ns) < 2 ^ 32" using assms(2) mq(4) by simp
  from os_msgq_recv_law [OF mq(1-4) E(3) this, of E bmode] assms(3) obtain s' H' ns' C' where
      s': "os_msgq_recv E r bmode s = Ret (x, s')" "msgq_at s' M ms cs qs mqs r mh H' q l p m ns' cp C'"
      "\<not> cv_mutex C'" "content ns' = mesg_bytes xs" by (auto simp: wakes_def)
  have "msgq_rep E r s' xs" unfolding msgq_rep_def using E mq(2) s'(2-4) by blast
  then show ?thesis using s'(1) by blast
qed

lemma msgq_recv_strict:
  assumes "msgq_rep E r s (x # xs)" and "length xs < 2 ^ 29 - 1" and "\<not> e_unlock_free E"
  shows "os_msgq_recv_timeout E r tm s = Fault Bad_Unlock"
proof -
  from assms(1) obtain M ms cs qs mqs mh H q l p m ns cp C where E: "x \<noteq> 0"
      and mq: "msgq_at s M ms cs qs mqs r mh H q l p m ns cp C" "mutex_free m" "\<not> cv_mutex C"
        "content ns = ulong_bytes x @ mesg_bytes xs"
    by (auto simp: msgq_rep_def)
  have "length (content ns) < 2 ^ 32" using assms(2) mq(4) by simp
  from os_msgq_recv_timeout_strict [OF mq(1-4) E this assms(3)] show ?thesis .
qed

interpretation msgq: message_queue "\<lambda>s xs. e_unlock_free E \<and> msgq_rep E r s xs" "os_msgq_send E r"
    "os_msgq_recv_timeout E r tm" "2 ^ 29 - 1" for E r tm
  by unfold_locales (use msgq_send_rep msgq_recv_rep in blast)+

interpretation msgq_wait: message_queue "\<lambda>s xs. wakes E \<and> msgq_rep E r s xs" "os_msgq_send E r"
    "os_msgq_recv E r bmode" "2 ^ 29 - 1" for E r bmode
  by unfold_locales (use msgq_send_rep msgq_wait_rep in blast)+

end
