(* ===== verification/Queue_Demo.thy ===== *)
theory Queue_Demo
  imports Demo Message_Queue
begin

text \<open>
  The state of theory Demo with one byte queue and one message queue on top of it: a single message,
  the pointer 0x777, is waiting.
\<close>

definition demo_queues :: nodes where
  "demo_queues = [(0x500, 0x50000000, 1, 0xc00)]"

definition demo_msgqs :: nodes where
  "demo_msgqs = [(0x600, 0x60000000, 2, 0xd00)]"

definition demo_chain :: qitems where
  "demo_chain = [(0xe00, 0xe80, ulong_bytes 0x777, 0)]"

definition demo_qhead :: OS_QHEAD where
  "demo_qhead = \<lparr>qh_channel = 0, qh_current_size = 8, qh_list = 0xe00, qh_lock = 0x20000000,
     qh_pool = 0, qh_delfunc = 0, qh_next = 0\<rparr>"

definition demo_mhead :: OS_MESG_HEAD where
  "demo_mhead = \<lparr>mh_id = 0, mh_qbuff = 0x50000000, mh_cond = 0x30000000, mh_counter = 1\<rparr>"

definition queue_heap :: heap where
  "queue_heap = demo_heap(
     0x1a0 \<mapsto> ListObj (list_rec QUEUE_NAME False demo_queues),
     0x1c0 \<mapsto> ListObj (list_rec MSGQ_NAME False demo_msgqs),
     0x500 \<mapsto> DataObj (node (0x50000000, 1, 0xc00) 0 0),
     0x600 \<mapsto> DataObj (node (0x60000000, 2, 0xd00) 0 0),
     0xc00 \<mapsto> QHeadObj demo_qhead, 0xd00 \<mapsto> MesgHeadObj demo_mhead,
     0xe00 \<mapsto> QNodeObj (qnode 0xe80 (ulong_bytes 0x777) 0 0), 0xe80 \<mapsto> BytesObj (ulong_bytes 0x777))"

definition queue_state :: os_state where
  "queue_state = demo_state\<lparr>heap := queue_heap, os_res_pool := mark 5 0 (mark 4 0 (os_res_pool demo_state)),
     queue_list := 0x1a0, msgq_list := 0x1c0\<rparr>"

definition queue_ghost :: ghost where
  "queue_ghost = demo_ghost(0x1a0 \<mapsto> (QUEUE_NAME, demo_queues), 0x1c0 \<mapsto> (MSGQ_NAME, demo_msgqs))"

lemma queue_state_simps [simp]:
  "heap queue_state = queue_heap" "mutex_list queue_state = 0x100" "cond_list queue_state = 0x180"
  "queue_list queue_state = 0x1a0" "msgq_list queue_state = 0x1c0"
  by (simp_all add: queue_state_def)

lemma table_find_queues [simp]:
  "pool_find QUEUE_NAME os_res_pool_table 0 = Some 4" "pool_find MSGQ_NAME os_res_pool_table 0 = Some 5"
  by (simp_all add: os_res_pool_table_def mk_pool_def res_name_defs strncmp_eq_def)

lemma queue_pools [simp]: "pools_ok (os_res_pool queue_state)"
  by (simp add: queue_state_def demo_state_def pools_ok_mark)

lemma queue_ids:
  "ids_used MUTEX_NAME (os_res_pool queue_state) = {0x20000000, 0x20000001}"
  "ids_used COND_NAME (os_res_pool queue_state) = {0x30000000}"
  "ids_used QUEUE_NAME (os_res_pool queue_state) = {0x50000000}"
  "ids_used MSGQ_NAME (os_res_pool queue_state) = {0x60000000}"
proof -
  have len: "length (os_res_pool demo_state) = 20" by (simp add: demo_state_def)
  have b: "rp_base (os_res_pool demo_state ! 4) = 0x50000000" "rp_base (os_res_pool demo_state ! 5) = 0x60000000"
    by (simp_all add: demo_state_def mark_def os_res_pool_table_def mk_pool_def)
  have f: "pool_find nm (os_res_pool demo_state) 0 = pool_find nm os_res_pool_table 0" for nm
    by (simp add: demo_state_def)
  have b': "rp_base (mark 4 0 (os_res_pool demo_state) ! 5) = 0x60000000" using b(2) len
    by (simp add: mark_def set_usevec_def nth_list_update)
  have u: "ids_used QUEUE_NAME (os_res_pool demo_state) = {}" "ids_used MSGQ_NAME (os_res_pool demo_state) = {}"
    by (simp_all add: demo_state_def ids_mark pools_ok_mark, simp_all add: ids_used_def)
  show "ids_used MUTEX_NAME (os_res_pool queue_state) = {0x20000000, 0x20000001}"
    "ids_used COND_NAME (os_res_pool queue_state) = {0x30000000}"
    "ids_used QUEUE_NAME (os_res_pool queue_state) = {0x50000000}"
    "ids_used MSGQ_NAME (os_res_pool queue_state) = {0x60000000}"
    using b b' u f len by (simp_all add: queue_state_def ids_mark pools_ok_mark demo_ids cell_id_def)
qed

lemma demo_heap_out [simp]:
  "demo_heap 0x500 = None" "demo_heap 0x600 = None" "demo_heap 0x1a0 = None" "demo_heap 0x1c0 = None"
  by (simp_all add: demo_heap_def)

lemma queue_demo_ok [simp]: "kit_ok queue_state queue_ghost"
proof -
  have "list_at queue_state 0x100 MUTEX_NAME False demo_items"
    unfolding list_at_def queue_state_simps
    by (simp add: queue_heap_def demo_heap_def demo_items_def) (use queue_ids in simp)
  moreover have "list_at queue_state 0x180 COND_NAME False demo_conds"
    unfolding list_at_def queue_state_simps
    by (simp add: queue_heap_def demo_heap_def demo_conds_def) (use queue_ids in simp)
  moreover have "list_at queue_state 0x1a0 QUEUE_NAME False demo_queues"
    unfolding list_at_def queue_state_simps by (simp add: queue_heap_def demo_queues_def) (use queue_ids in simp)
  moreover have "list_at queue_state 0x1c0 MSGQ_NAME False demo_msgqs"
    unfolding list_at_def queue_state_simps by (simp add: queue_heap_def demo_msgqs_def) (use queue_ids in simp)
  ultimately have "lists_ok queue_state queue_ghost"
    by (auto simp: lists_ok_def queue_ghost_def demo_ghost_def sep_def demo_items_def demo_conds_def demo_queues_def
        demo_msgqs_def split: if_splits)
  then show ?thesis by (simp add: kit_ok_def) (simp add: queue_state_def demo_state_def mem_ok_def)
qed

lemma queue_demo_var_ok [simp]: "var_ok queue_state queue_ghost demo_items demo_conds"
proof -
  have "table queue_state queue_ghost 0x100 MUTEX_NAME is_mutex demo_items"
    by (simp add: table_def queue_ghost_def demo_items_def queue_heap_def demo_heap_def)
  moreover have "table queue_state queue_ghost 0x180 COND_NAME is_cond demo_conds"
    by (simp add: table_def queue_ghost_def demo_conds_def queue_heap_def demo_heap_def)
  ultimately show ?thesis by (simp add: var_ok_def)
qed

lemma queue_demo_q_ok [simp]: "q_ok queue_state queue_ghost demo_items demo_conds demo_queues"
proof -
  have "table queue_state queue_ghost 0x1a0 QUEUE_NAME is_qhead demo_queues"
    by (simp add: table_def queue_ghost_def demo_queues_def queue_heap_def)
  then show ?thesis by (simp add: q_ok_def)
qed

lemma queue_demo_at:
  "queue_at queue_state queue_ghost demo_items demo_conds demo_queues 0x50000000 0xc00 0x20000000 0x900
     (new_mutex ''one'') demo_chain"
proof -
  have "chain queue_state 0xc00 demo_chain"
    by (simp add: chain_def queue_heap_def demo_chain_def demo_qhead_def qhead_rec_def node_ok_def)
  moreover have "lookup demo_queues 0x50000000 = Some 0xc00" by (simp add: lookup_Cons demo_queues_def)
  ultimately show ?thesis
    by (simp add: queue_at_def demo_mutexes) (simp add: queue_heap_def demo_mutexes demo_qhead_def)
qed

lemma queue_demo_msgq_at:
  "msgq_at queue_state queue_ghost demo_items demo_conds demo_queues demo_msgqs 0x60000000 0xd00 demo_mhead 0xc00
     0x20000000 0x900 (new_mutex ''one'') demo_chain 0xb00 (new_cond ''one'')"
proof -
  have "table queue_state queue_ghost 0x1c0 MSGQ_NAME is_mhead demo_msgqs"
    by (simp add: table_def queue_ghost_def demo_msgqs_def queue_heap_def)
  moreover have "lookup demo_msgqs 0x60000000 = Some 0xd00" by (simp add: lookup_Cons demo_msgqs_def)
  ultimately show ?thesis
    by (simp add: msgq_at_def demo_mhead_def queue_demo_at demo_cond)
      (simp add: queue_heap_def demo_cond demo_mhead_def)
qed

lemma queue_demo_free [simp]: "mutex_free (new_mutex ''one'')" "\<not> cv_mutex (new_cond ''one'')"
  by (simp_all add: new_mutex_def new_cond_def mutex_free_def)

lemma queue_demo_content [simp]: "content demo_chain = ulong_bytes 0x777"
  by (simp add: demo_chain_def)

lemma queue_demo_rep: "queue_rep demo_env 0x50000000 queue_state (ulong_bytes 0x777)"
  unfolding queue_rep_def using queue_demo_at by (auto intro!: exI)

lemma queue_demo_msgq_rep: "msgq_rep demo_env 0x60000000 queue_state [0x777]"
  unfolding msgq_rep_def using queue_demo_msgq_at by (auto intro!: exI)

lemma queue_demo_strict_rep: "msgq_rep strict_env 0x60000000 queue_state [0x777]"
  unfolding msgq_rep_def using queue_demo_msgq_at by (auto intro!: exI)

end
