(* ===== verification/Queue_Props.thy ===== *)
theory Queue_Props
  imports Queue_Demo
begin

text \<open>
  The properties of src/qbuff.c and src/msgq.c: order and completeness of what the queues deliver, the
  accounting of their sizes and of their memory, and the error branches.
\<close>

section \<open>Byte queues\<close>

text \<open>C9. First in, first out, for queues in system memory (created with pool 0; queues whose nodes live in
  a buffer class are not covered): every sequence of \<open>os_qbuff_put\<close> and \<open>os_qbuff_get\<close> calls
  on a queue returns. A put is refused or all its bytes are appended; a get returns the first bytes of the
  queue, as many as were asked for or all when there are fewer, and their number as its result. So the
  bytes in the queue before, followed by the bytes of the puts that answered OKAY, are the bytes that came
  out followed by the bytes in the queue after, whatever the sizes of the pieces.\<close>

theorem qbuff_fifo:
  assumes "queue_rep E r s bs" and "list_all queue_cmd_ok cs"
  shows "\<exists>as s' rest. byte_queue.run (qbuff_put_all E r) (qbuff_get_bytes E r) cs s = Ret (as, s')
     \<and> queue_rep E r s' rest \<and> queue_trace bs cs as rest \<and> bs @ stored cs as = got as @ rest"
  by (rule qbuff.fifo [OF assms])

theorem qbuff_fifo_witness:
  "\<exists>as s' rest. byte_queue.run (qbuff_put_all demo_env 0x50000000) (qbuff_get_bytes demo_env 0x50000000)
        [Get 3, Put [1, 2, 3], Get 7] queue_state = Ret (as, s')
     \<and> queue_trace (ulong_bytes 0x777) [Get 3, Put [1, 2, 3], Get 7] as rest
     \<and> ulong_bytes 0x777 @ stored [Get 3, Put [1, 2, 3], Get 7] as = got as @ rest"
proof -
  have "list_all queue_cmd_ok [Get 3, Put [1, 2, 3], Get 7]" by simp
  from qbuff_fifo [OF queue_demo_rep this] show ?thesis by blast
qed

text \<open>\<open>os_qbuff_put\<close> of N bytes answers OKAY and has appended a copy of exactly the first N bytes
  of the buffer, or it answers ERROR, which happens only when an allocation fails, and the queue has its
  old bytes; either way the lock is free again, ids are as before and no block of another component is
  touched.\<close>

theorem os_qbuff_put_appends:
  assumes "env_ok E" and "queue_at s M ms cs qs r q l p m ns" and "mutex_free m" and "r \<noteq> 0"
    and "0 < N" and "N < 2 ^ 31" and "N \<le> length bytes"
  shows "\<exists>res s' ns'. os_qbuff_put E r (Some bytes) (of_nat N) s = Ret (res, s')
     \<and> queue_at s' M ms cs qs r q l p m ns'
     \<and> (res = ERROR \<and> content ns' = content ns \<and>
           (\<exists>n z h. n \<le> calls s + 1 \<and> e_region_alloc E n (os_sys_region s) z h = 0)
        \<or> res = OKAY \<and> content ns' = content ns @ take N bytes)
     \<and> qkeeps s s'"
  by (rule os_qbuff_put_law [OF assms])

theorem os_qbuff_put_witness:
  "\<exists>res s' ns'. os_qbuff_put demo_env 0x50000000 (Some [4, 5, 6]) (of_nat 2) queue_state = Ret (res, s')
     \<and> queue_at s' queue_ghost demo_items demo_conds demo_queues 0x50000000 0xc00 0x20000000 0x900
         (new_mutex ''one'') ns'"
proof -
  have "(0x50000000 :: u32) \<noteq> 0" "0 < (2::nat)" "(2::nat) < 2 ^ 31" "2 \<le> length [4, 5, 6 :: u8]" by simp_all
  from os_qbuff_put_appends [OF demo_env_ok(1) queue_demo_at queue_demo_free(1) this] show ?thesis by blast
qed

text \<open>\<open>os_qbuff_get\<close> of N bytes returns the first N bytes of the queue, or all when there are
  fewer, across the borders of the pieces that were put, with their number as its result; what is left
  is the rest, and the read pieces are unlinked.\<close>

theorem os_qbuff_get_takes:
  assumes "queue_at s M ms cs qs r q l p m ns" and "mutex_free m" and "0 < N" and "N < 2 ^ 31"
  shows "\<exists>s' ns'. os_qbuff_get E r True (of_nat N) s =
       Ret ((of_nat (min N (length (content ns))), take N (content ns)), s')
     \<and> queue_at s' M ms cs qs r q l p m ns' \<and> content ns' = drop N (content ns) \<and> qkeeps s s'"
  by (rule os_qbuff_get_law [OF assms])

theorem os_qbuff_get_witness:
  "\<exists>s'. os_qbuff_get demo_env 0x50000000 True (of_nat 2) queue_state = Ret ((2, [0x77, 0x07]), s')"
proof -
  have "0 < (2::nat)" "(2::nat) < 2 ^ 31" by simp_all
  moreover have "take 2 (ulong_bytes 0x777) = [0x77, 0x07]" by code_simp
  ultimately show ?thesis using os_qbuff_get_takes [OF queue_demo_at queue_demo_free(1), of 2 demo_env] by auto
qed

text \<open>\<open>os_qbuff_current_size\<close> returns the number of unread bytes and changes nothing.\<close>

theorem os_qbuff_current_size_counts:
  assumes "queue_at s M ms cs qs r q l p m ns" and "mutex_free m"
  shows "os_qbuff_current_size r s = Ret (of_nat (length (content ns)), s)"
  by (rule os_qbuff_current_size_law [OF assms])

theorem os_qbuff_current_size_witness: "os_qbuff_current_size 0x50000000 queue_state = Ret (8, queue_state)"
  using os_qbuff_current_size_counts [OF queue_demo_at queue_demo_free(1)] by simp

text \<open>\<open>os_qbuff_flush\<close> of a queue without a delete function empties it and releases every node
  and every buffer of it.\<close>

theorem os_qbuff_flush_empties:
  assumes "queue_at s M ms cs qs r q l p m ns" and "mutex_free m"
    and "heap s q = Some (QHeadObj Q)" and "qh_delfunc Q = 0"
  shows "\<exists>s'. os_qbuff_flush E r s = Ret (OKAY, s') \<and> queue_at s' M ms cs qs r q l p m []
     \<and> (\<forall>a \<in> set (blocks ns). heap s' a = None)"
  by (rule os_qbuff_flush_law [OF assms])

theorem os_qbuff_flush_witness:
  "\<exists>s'. os_qbuff_flush demo_env 0x50000000 queue_state = Ret (OKAY, s') \<and> heap s' 0xe00 = None \<and> heap s' 0xe80 = None"
proof -
  have "heap queue_state 0xc00 = Some (QHeadObj demo_qhead)" by (simp add: queue_heap_def)
  moreover have "qh_delfunc demo_qhead = 0" by (simp add: demo_qhead_def)
  moreover have "set (blocks demo_chain) = {0xe00, 0xe80}" by (simp add: demo_chain_def)
  ultimately show ?thesis
    using os_qbuff_flush_empties [OF queue_demo_at queue_demo_free(1), of demo_qhead demo_env] by auto
qed

text \<open>\<open>os_qbuff_create\<close> answers ERROR and leaves the queues as they are, or returns an id that no
  queue had, of an empty queue with a free lock of its own, next to the old queues.\<close>

theorem os_qbuff_create_adds:
  assumes "env_ok E" and "q_ok s M ms cs qs" and "name_fits nm"
  shows "\<exists>r s'. os_qbuff_create E nm 0 delf s = Ret (r, s') \<and>
     (r = ERROR \<and> (\<exists>M' ms'. q_ok s' M' ms' cs qs)
      \<or> r \<noteq> 0 \<and> lookup qs r = None \<and>
        (\<exists>M' ms' qs' q l p. queue_at s' M' ms' cs qs' r q l p (new_mutex nm) [] \<and> heap s' q = Some (QHeadObj (new_qhead 0 delf l))
           \<and> (\<forall>k. lookup qs' k = (if k = r then Some q else lookup qs k))))"
  by (rule os_qbuff_create_law [OF assms])

theorem os_qbuff_create_witness:
  "\<exists>r s'. os_qbuff_create demo_env ''abc'' 0 0 queue_state = Ret (r, s') \<and> (r = ERROR \<or> lookup demo_queues r = None)"
proof -
  have "name_fits ''abc''" by (simp add: name_fits_def STR_LEN_def)
  from os_qbuff_create_adds [OF demo_env_ok(1) queue_demo_q_ok this, of 0] show ?thesis by blast
qed

text \<open>\<open>os_qbuff_sanity_check\<close> of a queue never returns: the loop runs its head pointer to NULL and
  the unlock after it reads the lock of that pointer.\<close>

theorem os_qbuff_sanity_check_faults:
  assumes "queue_at s M ms cs qs r q l p m ns" and "mutex_free m"
  shows "os_qbuff_sanity_check r s = Fault NullDeref"
  by (rule os_qbuff_sanity_check_law [OF assms])

theorem os_qbuff_sanity_check_witness: "os_qbuff_sanity_check 0x50000000 queue_state = Fault NullDeref"
  by (rule os_qbuff_sanity_check_faults [OF queue_demo_at queue_demo_free(1)])

section \<open>Message queues\<close>





text \<open>C25. By the letter of POSIX, \<open>os_msgq_recv_timeout\<close> of a message that is waiting runs into
  undefined behaviour: it takes the message and then calls \<open>os_cond_release\<close> for a mutex that it has
  not locked, since it locks it only when the queue is empty.\<close>

theorem recv_timeout_unlocks_free_mutex:
  assumes "msgq_rep E r s (y # ys)" and "length ys < 2 ^ 29 - 1" and "\<not> e_unlock_free E"
  shows "os_msgq_recv_timeout E r tm s = Fault Bad_Unlock"
  by (rule msgq_recv_strict [OF assms])

theorem recv_timeout_unlock_witness: "os_msgq_recv_timeout strict_env 0x60000000 10 queue_state = Fault Bad_Unlock"
  by (rule recv_timeout_unlocks_free_mutex [OF queue_demo_strict_rep]) (simp_all add: strict_env_def)

text \<open>A send answers ERROR, only when an allocation fails, or appends the pointer and counts it.\<close>

theorem os_msgq_send_appends:
  assumes "env_ok E" and "msgq_at s M ms cs qs mqs r mh H q l p m ns cp C" and "mutex_free m" and "\<not> cv_mutex C"
    and "msg \<noteq> 0"
  shows "\<exists>res s' H' ns' C'. os_msgq_send E r msg s = Ret (res, s')
     \<and> msgq_at s' M ms cs qs mqs r mh H' q l p m ns' cp C' \<and> \<not> cv_mutex C'
     \<and> (res = ERROR \<and> content ns' = content ns \<and> (\<exists>n z h. n \<le> calls s + 1 \<and> e_region_alloc E n (os_sys_region s) z h = 0)
        \<or> res = OKAY \<and> content ns' = content ns @ ulong_bytes msg \<and> mh_counter H' = mh_counter H + 1)"
  by (rule os_msgq_send_law [OF assms])

theorem os_msgq_send_witness:
  "\<exists>res s'. os_msgq_send demo_env 0x60000000 0x888 queue_state = Ret (res, s')"
proof -
  have "(0x888 :: addr) \<noteq> 0" by simp
  from os_msgq_send_appends [OF demo_env_ok(1) queue_demo_msgq_at queue_demo_free this] show ?thesis by blast
qed

end
