(* ===== verification/Os_Thread.thy ===== *)
theory Os_Thread
  imports Os_Var
begin

text \<open>
  src/thread.c: threads. A thread is an OS_THREAD object in the thread list with two POSIX threads: a
  runner that calls the handler and a monitor that waits for the end of the runner, calls the delete
  function and either starts a new runner or removes the object. What the other threads do to the state
  while the calling thread waits in pthread_join, pthread_cancel or usleep is the environment \<open>T\<close>;
  \<open>te_thread_init\<close> is the address of the static object \<open>thread_init\<close>.
\<close>

record thr_env =
  te_join :: "u64 \<Rightarrow> unit os"
  te_stop :: "u64 \<Rightarrow> unit os"
  te_sleep :: "unit os"
  te_thread_init :: addr

definition upd_thread :: "addr \<Rightarrow> (OS_THREAD \<Rightarrow> OS_THREAD) \<Rightarrow> os_state \<Rightarrow> os_state outcome" where
  "upd_thread p f s = obind (load the_thread p s) (\<lambda>t. Ret (hput p (ThreadObj (f t)) s))"

section \<open>Initialisation\<close>

definition os_thread_init :: "os_env \<Rightarrow> thr_env \<Rightarrow> u32 os" where
  "os_thread_init E T s =
     obind (os_list_create E THREAD_NAME s) (\<lambda>(l, s).
     let s = s\<lparr>thread_list := l\<rparr>; newthr = te_thread_init T in
     if l = 0 then Ret (ERROR, s)
     else obind (strcpy_strncat THREAD_NAME ''init'' STR_LEN STR_LEN) (\<lambda>full.
     obind (upd_thread newthr (\<lambda>t. t\<lparr>th_name := full, th_func := 0, th_arg := 0, th_sig := 0, th_dfunc := 0,
        th_restartable := 0, th_restartcnt := 0, th_runthr := e_thread_self E\<rparr>) s) (\<lambda>s.
     obind (os_list_item_insert E (thread_list s) newthr s) (\<lambda>(res, s).
     if res = ERROR then Ret (ERROR, s)
     else obind (upd_thread newthr (\<lambda>t. t\<lparr>th_id := res\<rparr>) s) (\<lambda>s. Ret (OKAY, s))))))"

section \<open>Finding a thread\<close>

definition os_thread_find_with_resid :: "u32 \<Rightarrow> addr \<Rightarrow> os_state \<Rightarrow> u32 outcome" where
  "os_thread_find_with_resid rid d s =
     (if d = 0 then Ret ERROR
      else obind (load the_data d s) (\<lambda>n. Ret (if ld_resid n = rid then OKAY else ERROR)))"

text \<open>The ids of the POSIX threads are cut to their low 32 bits.\<close>

definition os_thread_find_with_child_id :: "u32 \<Rightarrow> addr \<Rightarrow> os_state \<Rightarrow> u32 outcome" where
  "os_thread_find_with_child_id tid d s =
     (if d = 0 then Ret ERROR
      else obind (load the_data d s) (\<lambda>n.
      if ld_data n = 0 then Ret ERROR
      else obind (load the_thread (ld_data n) s) (\<lambda>t. Ret (if (ucast (th_runthr t) :: u32) = tid then OKAY else ERROR))))"

definition thread_node :: "u32 \<Rightarrow> os_state \<Rightarrow> addr outcome" where
  "thread_node rid s = os_list_find (thread_list s) (os_thread_find_with_resid rid) s"

section \<open>Signals\<close>

definition os_thread_signal_send :: "u32 \<Rightarrow> u32 \<Rightarrow> u32 os" where
  "os_thread_signal_send rid sig s =
     obind (thread_node rid s) (\<lambda>d.
     if d = 0 then Ret (ERROR, s)
     else obind (load the_data d s) (\<lambda>n.
     obind (upd_thread (ld_data n) (\<lambda>t. t\<lparr>th_sig := sig\<rparr>) s) (\<lambda>s. Ret (OKAY, s))))"

text \<open>\<open>while (thr->sig == 0) os_thread_sleep(10);\<close>\<close>

definition signal_wait_body :: "thr_env \<Rightarrow> addr \<Rightarrow> u32 \<times> os_state \<Rightarrow> (u32 \<times> os_state) outcome" where
  "signal_wait_body T thr = (\<lambda>(sig, s).
     obind (te_sleep T s) (\<lambda>(u, s). obind (load the_thread thr s) (\<lambda>t. Ret (th_sig t, s))))"

definition os_thread_signal_recv :: "thr_env \<Rightarrow> u32 \<Rightarrow> u32 \<Rightarrow> u32 os" where
  "os_thread_signal_recv T rid mode s =
     obind (thread_node rid s) (\<lambda>d.
     if d = 0 then Ret (ERROR, s)
     else obind (load the_data d s) (\<lambda>n.
     let thr = ld_data n in
     obind (if mode \<noteq> 0
            then obind (load the_thread thr s) (\<lambda>t.
                 obind (while_o (\<lambda>(sig, s). sig = 0) (signal_wait_body T thr) (th_sig t, s)) (\<lambda>(sig, s). Ret s))
            else Ret s) (\<lambda>s.
     obind (load the_thread thr s) (\<lambda>t.
     obind (upd_thread thr (\<lambda>t. t\<lparr>th_sig := 0\<rparr>) s) (\<lambda>s. Ret (th_sig t, s))))))"

definition os_thread_self :: "os_env \<Rightarrow> u32 os" where
  "os_thread_self E s =
     obind (os_list_find (thread_list s) (os_thread_find_with_child_id (ucast (e_thread_self E))) s) (\<lambda>d.
     if d = 0 then Ret (ERROR, s) else obind (load the_data d s) (\<lambda>n. Ret (ld_resid n, s)))"

section \<open>Runner and monitor\<close>

definition os_thread_wrapper :: "os_env \<Rightarrow> addr \<Rightarrow> os_state \<Rightarrow> os_state outcome" where
  "os_thread_wrapper E thrp s =
     (if thrp = 0 then Ret s
      else obind (load the_thread thrp s) (\<lambda>t.
      if th_func t = 0 then Fault NullDeref
      else obind (e_call E (th_func t) (th_arg t) s) (\<lambda>(r, s). Ret s)))"

text \<open>\<open>pthread_create\<close> into a field of the object; the field is left alone on failure.\<close>

definition thread_spawn ::
    "os_env \<Rightarrow> addr \<Rightarrow> (u64 \<Rightarrow> OS_THREAD \<Rightarrow> OS_THREAD) \<Rightarrow> bool os" where
  "thread_spawn E p put s =
     (case e_thread_create E (calls s) of
        None \<Rightarrow> Ret (False, tick s)
      | Some h \<Rightarrow> obind (upd_thread p (put h) (tick s)) (\<lambda>s. Ret (True, s)))"

definition monitor_upcall :: "os_env \<Rightarrow> OS_THREAD \<Rightarrow> u32 os" where
  "monitor_upcall E t s = (if th_dfunc t \<noteq> 0 then e_call E (th_dfunc t) (th_arg t) s else Ret (OKAY, s))"

definition monitor_body :: "os_env \<Rightarrow> thr_env \<Rightarrow> addr \<Rightarrow> bool \<times> os_state \<Rightarrow> (bool \<times> os_state) outcome" where
  "monitor_body E T thrp = (\<lambda>(go, s).
     obind (load the_thread thrp s) (\<lambda>t.
     obind (os_thread_signal_send (th_id t) OS_THREAD_SIG_START s) (\<lambda>(r, s).
     obind (load the_thread thrp s) (\<lambda>t.
     obind (te_join T (th_runthr t) s) (\<lambda>(u, s).
     obind (load the_thread thrp s) (\<lambda>t.
     obind (monitor_upcall E t s) (\<lambda>(r, s).
     obind (load the_thread thrp s) (\<lambda>t.
     if th_restartable t = 0 then Ret (False, s)
     else obind (thread_spawn E thrp (\<lambda>h t. t\<lparr>th_runthr := h\<rparr>) s) (\<lambda>(ok, s).
     obind (upd_thread thrp (\<lambda>t. t\<lparr>th_restartcnt := th_restartcnt t + 1\<rparr>) s) (\<lambda>s. Ret (True, s)))))))))))"

definition os_monitor_thread :: "os_env \<Rightarrow> thr_env \<Rightarrow> addr \<Rightarrow> os_state \<Rightarrow> os_state outcome" where
  "os_monitor_thread E T thrp s =
     obind (while_o fst (monitor_body E T thrp) (True, s)) (\<lambda>(go, s).
     obind (load the_thread thrp s) (\<lambda>t.
     obind (os_list_item_delete (thread_list s) (th_id t) s) (\<lambda>(res, s).
     if res = ERROR then Ret s
     else obind (os_mem_free thrp s) (\<lambda>(r, s). Ret s))))"

section \<open>Creating and controlling threads\<close>

definition os_thread_create :: "os_env \<Rightarrow> string \<Rightarrow> fnptr \<Rightarrow> addr \<Rightarrow> fnptr \<Rightarrow> u32 \<Rightarrow> u32 os" where
  "os_thread_create E nm func arg dfunc restartable s =
     obind (os_mem_alloc E (e_sizeof E T_OS_THREAD) s) (\<lambda>(newthr, s).
     if newthr = 0 then Ret (ERROR, s)
     else obind (strcpy_strncat THREAD_NAME nm STR_LEN STR_LEN) (\<lambda>full.
     let s = hput newthr (ThreadObj \<lparr>th_name = full, th_func = func, th_dfunc = dfunc, th_runthr = 0, th_monthr = 0,
               th_arg = arg, th_sig = 0, th_restartable = restartable, th_restartcnt = 0, th_id = 0\<rparr>) s in
     obind (os_list_item_insert E (thread_list s) newthr s) (\<lambda>(res, s).
     if res = ERROR then obind (os_mem_free newthr s) (\<lambda>(r, s). Ret (ERROR, s))
     else obind (upd_thread newthr (\<lambda>t. t\<lparr>th_id := res\<rparr>) s) (\<lambda>s.
     obind (thread_spawn E newthr (\<lambda>h t. t\<lparr>th_runthr := h\<rparr>) s) (\<lambda>(ok, s).
     if \<not> ok then obind (os_mem_free newthr s) (\<lambda>(r, s). Ret (ERROR, s))
     else obind (thread_spawn E newthr (\<lambda>h t. t\<lparr>th_monthr := h\<rparr>) s) (\<lambda>(ok, s).
     if \<not> ok
     then obind (os_mem_free newthr s) (\<lambda>(r, s).
          obind (os_list_item_delete (thread_list s) res s) (\<lambda>(r, s). Ret (ERROR, s)))
     else obind (load the_thread newthr s) (\<lambda>t. Ret (th_id t, s))))))))"

definition os_thread_delete :: "thr_env \<Rightarrow> u32 \<Rightarrow> os_state \<Rightarrow> os_state outcome" where
  "os_thread_delete T rid s =
     obind (thread_node rid s) (\<lambda>d.
     if d = 0 then Ret s
     else obind (load the_data d s) (\<lambda>n.
     let thr = ld_data n in
     if thr = 0 then Ret s
     else obind (load the_thread thr s) (\<lambda>t.
     obind (te_stop T (th_runthr t) s) (\<lambda>(u, s).
     obind (load the_thread thr s) (\<lambda>t.
     if th_restartable t = 0 then obind (te_join T (th_monthr t) s) (\<lambda>(u, s). Ret s) else Ret s)))))"

definition os_thread_restart :: "thr_env \<Rightarrow> u32 \<Rightarrow> u32 os" where
  "os_thread_restart T rid s =
     obind (thread_node rid s) (\<lambda>d.
     if d = 0 then Ret (ERROR, s)
     else obind (load the_data d s) (\<lambda>n.
     if ld_data n = 0 then Ret (ERROR, s)
     else obind (upd_thread (ld_data n) (\<lambda>t. t\<lparr>th_restartable := 1, th_restartcnt := 0\<rparr>) s) (\<lambda>s.
     obind (os_thread_delete T rid s) (\<lambda>s. Ret (OKAY, s)))))"

definition os_thread_restartable :: "u32 \<Rightarrow> u32 \<Rightarrow> u32 os" where
  "os_thread_restartable rid flag s =
     obind (thread_node rid s) (\<lambda>d.
     if d = 0 then Ret (ERROR, s)
     else obind (load the_data d s) (\<lambda>n.
     if ld_data n = 0 then Ret (ERROR, s)
     else obind (upd_thread (ld_data n) (\<lambda>t. t\<lparr>th_restartable := flag\<rparr>) s) (\<lambda>s. Ret (OKAY, s))))"

text \<open>NULL, the result for an unknown id, is \<open>None\<close>.\<close>

definition os_thread_name :: "u32 \<Rightarrow> os_state \<Rightarrow> string option outcome" where
  "os_thread_name rid s =
     obind (thread_node rid s) (\<lambda>d.
     if d = 0 then Ret None
     else obind (load the_data d s) (\<lambda>n. obind (load the_thread (ld_data n) s) (\<lambda>t. Ret (Some (th_name t)))))"

fun os_thread_isalive :: "u32 list \<Rightarrow> nat \<Rightarrow> os_state \<Rightarrow> u32 outcome" where
  "os_thread_isalive c 0 s = Ret ERROR"
| "os_thread_isalive [] (Suc n) s = Fault OutOfBounds"
| "os_thread_isalive (x # c) (Suc n) s =
     obind (thread_node x s) (\<lambda>d. if d \<noteq> 0 then Ret OKAY else os_thread_isalive c n s)"

definition os_thread_sleep :: "thr_env \<Rightarrow> os_state \<Rightarrow> os_state outcome" where
  "os_thread_sleep T s = obind (te_sleep T s) (\<lambda>(u, s). Ret s)"

definition os_thread_verbose :: "os_state \<Rightarrow> os_state outcome" where
  "os_thread_verbose s =
     os_list_navigate (thread_list s) None
       (Some (\<lambda>d s. obind (load the_data d s) (\<lambda>n. obind (load the_thread (ld_data n) s) (\<lambda>t. Ret s)))) s"

end
