(* ===== verification/Thread_Laws.thy ===== *)
theory Thread_Laws
  imports Os_Thread Var_Laws
begin

text \<open>
  What src/thread.c promises: signals are delivered and cleared, a created thread is in the thread list
  under a new id, the monitor takes a finished thread out of the list and releases it, and starts a
  restartable one again.
\<close>

section \<open>The thread table\<close>

definition is_thread :: "obj \<Rightarrow> bool" where "is_thread ob \<longleftrightarrow> the_thread ob \<noteq> None"

lemma is_thread_simps [simp]: "is_thread (ThreadObj t)" "is_thread ob \<Longrightarrow> \<not> list_obj ob"
  by (cases ob; simp add: is_thread_def)+

lemma is_threadE: "is_thread ob \<Longrightarrow> \<exists>t. ob = ThreadObj t"
  by (cases ob) (simp_all add: is_thread_def)

definition thr_ok :: "os_state \<Rightarrow> ghost \<Rightarrow> nodes \<Rightarrow> bool" where
  "thr_ok s M ths \<longleftrightarrow> kit_ok s M \<and> table s M (thread_list s) THREAD_NAME is_thread ths"

definition thread_of :: "os_state \<Rightarrow> nodes \<Rightarrow> u32 \<Rightarrow> OS_THREAD option" where
  "thread_of s ths r = Option.bind (lookup ths r) (\<lambda>p. Option.bind (heap s p) the_thread)"

lemma thread_of_Some:
  "thread_of s ths r = Some t \<longleftrightarrow> (\<exists>p. lookup ths r = Some p \<and> heap s p = Some (ThreadObj t))"
  by (auto simp: thread_of_def Option.bind_eq_Some_conv)

lemma thr_okD:
  assumes "thr_ok s M ths"
  shows "kit_ok s M" "table s M (thread_list s) THREAD_NAME is_thread ths" "M (thread_list s) = Some (THREAD_NAME, ths)"
  using assms by (simp_all add: thr_ok_def table_def)

lemma thr_ok_hput:
  assumes v: "thr_ok s M ths" and x: "\<And>x. heap s p = Some x \<Longrightarrow> \<not> list_obj x \<and> (is_thread x \<longrightarrow> is_thread y)"
  shows "thr_ok (hput p y s) M ths"
proof -
  have "kit_ok (hput p y s) M" using x by (intro kit_ok_hput [OF thr_okD(1) [OF v]]) simp
  moreover have "table (hput p y s) M (thread_list s) THREAD_NAME is_thread ths"
    using x by (intro table_frame [OF thr_okD(2) [OF v]]) auto
  ultimately show ?thesis by (simp add: thr_ok_def)
qed

lemma thr_ok_tick [simp]: "thr_ok s M ths \<Longrightarrow> thr_ok (tick s) M ths"
  unfolding thr_ok_def by (auto intro: table_keeps)

lemma thread_of_hput:
  assumes v: "thr_ok s M ths" and p: "lookup ths r = Some p"
  shows "thread_of (hput p (ThreadObj t) s) ths = (thread_of s ths)(r \<mapsto> t)"
proof
  fix q show "thread_of (hput p (ThreadObj t) s) ths q = ((thread_of s ths)(r \<mapsto> t)) q"
    using p table_inj [OF thr_okD(2) [OF v] p, of q] by (cases "lookup ths q") (auto simp: thread_of_def)
qed

section \<open>Finding a thread\<close>

text \<open>The node found for an id, in any list: the objects need not be alive.\<close>

lemma thread_node_eq:
  assumes at: "list_at s (thread_list s) nm lk xs"
  shows "thread_node r s = Ret (case find (\<lambda>x. it_id (snd x) = r) xs of None \<Rightarrow> 0 | Some x \<Rightarrow> fst x)"
  unfolding thread_node_def
proof (rule os_list_find_eq [OF at])
  fix a it assume "(a, it) \<in> set xs"
  from list_node [OF at this] show "os_thread_find_with_resid r a s = Ret (if it_id it = r then OKAY else ERROR)"
    by (auto simp: os_thread_find_with_resid_def)
qed

lemma lookup_find: "lookup xs r = map_option (\<lambda>x. it_data (snd x)) (find (\<lambda>x. it_id (snd x) = r) xs)"
  by (induction xs) (auto simp: lookup_Cons)

lemma thread_node_some:
  assumes at: "list_at s (thread_list s) nm lk xs" and p: "lookup xs r = Some p"
  obtains d n where "thread_node r s = Ret d" "d \<noteq> 0" "load the_data d s = Ret n" "ld_data n = p"
proof -
  from p obtain x where x: "find (\<lambda>x. it_id (snd x) = r) xs = Some x" "it_data (snd x) = p" by (auto simp: lookup_find)
  then have "(fst x, snd x) \<in> set xs" by (auto simp: find_Some_iff)
  from list_node [OF at this] obtain nx pv where "load the_data (fst x) s = Ret (node (snd x) nx pv)" "fst x \<noteq> 0" by blast
  then show ?thesis using that thread_node_eq [OF at, of r] x by simp
qed

lemma thread_node_none:
  assumes at: "list_at s (thread_list s) nm lk xs" and r: "lookup xs r = None"
  shows "thread_node r s = Ret 0"
  using r thread_node_eq [OF at, of r] by (simp add: lookup_find)

lemma thr_ok_at: "thr_ok s M ths \<Longrightarrow> list_at s (thread_list s) THREAD_NAME False ths"
  using kit_okD(3) thr_okD by blast

section \<open>Signals\<close>

lemma signal_send_step:
  assumes v: "thr_ok s M ths" and p: "lookup ths r = Some p" "heap s p = Some (ThreadObj t)"
  shows "os_thread_signal_send r sig s = Ret (OKAY, hput p (ThreadObj (t\<lparr>th_sig := sig\<rparr>)) s)"
proof -
  have p0: "p \<noteq> 0" using table_lookup(1) [OF thr_okD(2) [OF v] p(1)] .
  from thread_node_some [OF thr_ok_at [OF v] p(1)] obtain d n where
    "thread_node r s = Ret d" "d \<noteq> 0" "load the_data d s = Ret n" "ld_data n = p" by blast
  then show ?thesis using p0 p(2) by (simp add: os_thread_signal_send_def upd_thread_def load_def)
qed

lemma signal_recv_step:
  assumes v: "thr_ok s M ths" and p: "lookup ths r = Some p" "heap s p = Some (ThreadObj t)"
    and mode: "mode = 0 \<or> th_sig t \<noteq> 0"
  shows "os_thread_signal_recv T r mode s = Ret (th_sig t, hput p (ThreadObj (t\<lparr>th_sig := 0\<rparr>)) s)"
proof -
  have p0: "p \<noteq> 0" using table_lookup(1) [OF thr_okD(2) [OF v] p(1)] .
  from thread_node_some [OF thr_ok_at [OF v] p(1)] obtain d n where
    "thread_node r s = Ret d" "d \<noteq> 0" "load the_data d s = Ret n" "ld_data n = p" by blast
  then show ?thesis using p0 p(2) mode by (auto simp: os_thread_signal_recv_def upd_thread_def load_def)
qed

text \<open>
  In blocking mode the receiver sleeps until a signal is there: after \<open>n\<close> sleeps during which the other
  threads bring the states \<open>f 1\<close>, \<open>f 2\<close> and so on, the first state with a signal ends the wait.
\<close>

lemma signal_wait_loop:
  assumes "\<And>i. i < n \<Longrightarrow> te_sleep T (f i) = Ret ((), f (Suc i))"
    and "\<And>i. i \<le> n \<Longrightarrow> heap (f i) p = Some (ThreadObj (g i))" and "p \<noteq> 0"
    and "\<And>i. i < n \<Longrightarrow> th_sig (g i) = 0" and "th_sig (g n) \<noteq> 0"
  shows "while_o (\<lambda>(sig, s). sig = 0) (signal_wait_body T p) (th_sig (g 0), f 0) = Ret (th_sig (g n), f n)"
  using assms
proof (induction n arbitrary: f g)
  case (Suc n)
  have step: "signal_wait_body T p (th_sig (g 0), f 0) = Ret (th_sig (g 1), f 1)"
    using Suc.prems(1) [of 0] Suc.prems(2) [of 1] Suc.prems(3) by (simp add: signal_wait_body_def load_def)
  have "while_o (\<lambda>(sig, s). sig = 0) (signal_wait_body T p) (th_sig (g 1), f 1) = Ret (th_sig (g (Suc n)), f (Suc n))"
    using Suc.IH [of "\<lambda>i. f (Suc i)" "\<lambda>i. g (Suc i)"] Suc.prems by auto
  then show ?case using step Suc.prems(4) [of 0] by (subst while_o_step) simp_all
qed simp

section \<open>The monitor\<close>

text \<open>
  One round of the monitor up to the decision: the start signal, the end of the runner (with whatever the
  other threads did meanwhile), the delete function.
\<close>

definition monitor_round ::
    "os_env \<Rightarrow> thr_env \<Rightarrow> u32 \<Rightarrow> addr \<Rightarrow> OS_THREAD \<Rightarrow> os_state \<Rightarrow> OS_THREAD \<Rightarrow> os_state \<Rightarrow> bool" where
  "monitor_round E T r p t s t3 s3 \<longleftrightarrow>
     (\<exists>s2 t2 x. te_join T (th_runthr t) (hput p (ThreadObj (t\<lparr>th_sig := OS_THREAD_SIG_START\<rparr>)) s) = Ret ((), s2)
        \<and> heap s2 p = Some (ThreadObj t2) \<and> monitor_upcall E t2 s2 = Ret (x, s3)
        \<and> heap s3 p = Some (ThreadObj t3) \<and> th_id t3 = r)"

lemma monitor_body_round:
  assumes v: "thr_ok s M ths" and p: "lookup ths r = Some p" "heap s p = Some (ThreadObj t)" "th_id t = r"
    and rd: "monitor_round E T r p t s t3 s3"
  shows "monitor_body E T p (True, s) =
     (if th_restartable t3 = 0 then Ret (False, s3)
      else obind (thread_spawn E p (\<lambda>h t. t\<lparr>th_runthr := h\<rparr>) s3) (\<lambda>(ok, s).
           obind (upd_thread p (\<lambda>t. t\<lparr>th_restartcnt := th_restartcnt t + 1\<rparr>) s) (\<lambda>s. Ret (True, s))))"
proof -
  have p0: "p \<noteq> 0" using table_lookup(1) [OF thr_okD(2) [OF v] p(1)] .
  from rd obtain s2 t2 x where r: "te_join T (th_runthr t) (hput p (ThreadObj (t\<lparr>th_sig := OS_THREAD_SIG_START\<rparr>)) s) = Ret ((), s2)"
      "heap s2 p = Some (ThreadObj t2)" "monitor_upcall E t2 s2 = Ret (x, s3)" "heap s3 p = Some (ThreadObj t3)"
    by (auto simp: monitor_round_def)
  have "load the_thread p s = Ret t" "load the_thread p s2 = Ret t2" "load the_thread p s3 = Ret t3"
    using p0 p(2) r(2,4) by (simp_all add: load_def)
  then show ?thesis
    using p0 p(3) r signal_send_step [OF v p(1,2), of OS_THREAD_SIG_START] by (simp add: monitor_body_def)
qed

lemma monitor_ends:
  assumes v: "thr_ok s M ths" and p: "lookup ths r = Some p" "heap s p = Some (ThreadObj t)" "th_id t = r"
    and rd: "monitor_round E T r p t s t3 s3" and stop: "th_restartable t3 = 0"
    and v3: "thr_ok s3 M3 ths3" "lookup ths3 r = Some p"
  shows "\<exists>s' M' ths'. os_monitor_thread E T p s = Ret s' \<and> thr_ok s' M' ths' \<and> heap s' p = None
     \<and> (\<forall>k. lookup ths' k = (if k = r then None else lookup ths3 k))"
proof -
  let ?M' = "M3(thread_list s3 \<mapsto> (THREAD_NAME, filter (\<lambda>x. it_id (snd x) \<noteq> r) ths3))" and ?ths' = "filter (\<lambda>x. it_id (snd x) \<noteq> r) ths3"
  have p0: "p \<noteq> 0" using table_lookup(1) [OF thr_okD(2) [OF v] p(1)] .
  have t3: "heap s3 p = Some (ThreadObj t3)" "th_id t3 = r" using rd by (auto simp: monitor_round_def)
  have "while_o fst (monitor_body E T p) (True, s) = Ret (False, s3)"
    using monitor_body_round [OF v p rd] stop by (simp add: while_o_step)
  moreover from table_delete_free [OF thr_okD(1,2) [OF v3(1)] v3(2)] obtain s' where
    s': "os_list_item_delete (thread_list s3) r s3 = Ret (OKAY, s')" "keeps s3 s'" "os_mem_free p s' = Ret (OKAY, hdel p s')"
      "kit_ok (hdel p s') ?M'" "table (hdel p s') ?M' (thread_list s3) THREAD_NAME is_thread ?ths'" by blast
  ultimately have "os_monitor_thread E T p s = Ret (hdel p s')"
    using p0 t3 by (simp add: os_monitor_thread_def load_def)
  moreover have "thr_ok (hdel p s') ?M' ?ths'"
    using s'(4,5) keeps_statics [OF s'(2)] same_statics_fields by (auto simp: thr_ok_def)
  moreover have "heap (hdel p s') p = None" by simp
  ultimately show ?thesis using lookup_filter [of r ths3] by blast
qed

lemma monitor_restarts:
  assumes v: "thr_ok s M ths" and p: "lookup ths r = Some p" "heap s p = Some (ThreadObj t)" "th_id t = r"
    and rd: "monitor_round E T r p t s t3 s3" and go: "th_restartable t3 \<noteq> 0"
    and h: "e_thread_create E (calls s3) = Some h"
  shows "monitor_body E T p (True, s) =
     Ret (True, hput p (ThreadObj (t3\<lparr>th_runthr := h, th_restartcnt := th_restartcnt t3 + 1\<rparr>)) (tick s3))"
proof -
  have p0: "p \<noteq> 0" using table_lookup(1) [OF thr_okD(2) [OF v] p(1)] .
  have "heap s3 p = Some (ThreadObj t3)" using rd by (auto simp: monitor_round_def)
  then have "thread_spawn E p (\<lambda>h t. t\<lparr>th_runthr := h\<rparr>) s3 = Ret (True, hput p (ThreadObj (t3\<lparr>th_runthr := h\<rparr>)) (tick s3))"
    using p0 h by (simp add: thread_spawn_def upd_thread_def load_def)
  then show ?thesis using monitor_body_round [OF v p rd] go p0 by (simp add: upd_thread_def)
qed

section \<open>Creating a thread\<close>

definition new_thread :: "string \<Rightarrow> fnptr \<Rightarrow> addr \<Rightarrow> fnptr \<Rightarrow> u32 \<Rightarrow> u32 \<Rightarrow> u64 \<Rightarrow> u64 \<Rightarrow> OS_THREAD" where
  "new_thread nm func arg dfunc rs r h1 h2 = \<lparr>th_name = THREAD_NAME @ nm, th_func = func, th_dfunc = dfunc, th_runthr = h1,
     th_monthr = h2, th_arg = arg, th_sig = 0, th_restartable = rs, th_restartcnt = 0, th_id = r\<rparr>"

lemma name_fits_thread [simp]: "name_fits nm \<Longrightarrow> strcpy_strncat THREAD_NAME nm STR_LEN STR_LEN = Ret (THREAD_NAME @ nm)"
  by (simp add: name_fits_def strcpy_strncat_def THREAD_NAME_def STR_LEN_def)

lemma thr_ok_keeps:
  assumes "thr_ok s M ths" and "keeps s s'" and "kit_ok s' M"
  shows "thr_ok s' M ths"
  using assms table_keeps [OF thr_okD(2) [OF assms(1)] assms(2)] keeps_statics [OF assms(2)] same_statics_fields
  by (auto simp: thr_ok_def)

text \<open>Up to the first pthread_create: no memory, no id, or the object is in the list.\<close>

lemma os_thread_create_entry:
  assumes E: "env_ok E" and v: "thr_ok s M ths" and nm: "name_fits nm"
  obtains (failed) s' where "os_thread_create E nm func arg dfunc rs s = Ret (ERROR, s')" "thr_ok s' M ths" "keeps s s'"
      "short E T_OS_THREAD THREAD_NAME s"
  | (entered) p d r s1 where "r \<noteq> 0" "lookup ths r = None" "p \<noteq> 0" "heap s p = None"
      "thr_ok s1 (M(thread_list s \<mapsto> (THREAD_NAME, ths @ [(d, r, OS_LIST_NO_KEY, p)]))) (ths @ [(d, r, OS_LIST_NO_KEY, p)])"
      "keeps s s1" "heap s1 p = Some (ThreadObj (new_thread nm func arg dfunc rs r 0 0))"
      "thread_list s1 = thread_list s"
      "os_thread_create E nm func arg dfunc rs s =
         obind (thread_spawn E p (\<lambda>h t. t\<lparr>th_runthr := h\<rparr>) s1) (\<lambda>(ok, s).
         if \<not> ok then obind (os_mem_free p s) (\<lambda>(x, s). Ret (ERROR, s))
         else obind (thread_spawn E p (\<lambda>h t. t\<lparr>th_monthr := h\<rparr>) s) (\<lambda>(ok, s).
         if \<not> ok
         then obind (os_mem_free p s) (\<lambda>(x, s). obind (os_list_item_delete (thread_list s) r s) (\<lambda>(x, s). Ret (ERROR, s)))
         else obind (load the_thread p s) (\<lambda>t. Ret (th_id t, s))))" "adds 2 s s1" "calls s1 = calls s + 2"
proof (rule obj_create_cases [OF E thr_okD(1,2) [OF v], of "ThreadObj (new_thread nm func arg dfunc rs 0 0 0)" T_OS_THREAD])
  show "is_thread (ThreadObj (new_thread nm func arg dfunc rs 0 0 0))" "\<not> list_obj (ThreadObj (new_thread nm func arg dfunc rs 0 0 0))"
    by simp_all
next
  assume "os_mem_alloc E (e_sizeof E T_OS_THREAD) s = Ret (0, tick s)" "short E T_OS_THREAD THREAD_NAME s"
  then show ?thesis using v by (intro failed [of "tick s"]) (simp_all add: os_thread_create_def)
next
  fix p s1 s2
  assume a: "os_mem_alloc E (e_sizeof E T_OS_THREAD) s = Ret (p, s1)" "p \<noteq> 0" "keeps s s1"
    "os_list_item_insert E (thread_list s) p (hput p (ThreadObj (new_thread nm func arg dfunc rs 0 0 0)) s1) = Ret (ERROR, s2)"
    "os_mem_free p s2 = Ret (OKAY, hdel p s2)" "kit_ok (hdel p s2) M" "keeps s (hdel p s2)"
    "short E T_OS_THREAD THREAD_NAME s"
  have "thread_list s1 = thread_list s" using keeps_statics [OF a(3)] same_statics_fields by blast
  then have "os_thread_create E nm func arg dfunc rs s = Ret (ERROR, hdel p s2)"
    using a nm by (simp add: os_thread_create_def Let_def new_thread_def)
  then show ?thesis using thr_ok_keeps [OF v a(7,6)] a(7,8) by (intro failed) simp_all
next
  fix p s1 d r s'
  assume a: "os_mem_alloc E (e_sizeof E T_OS_THREAD) s = Ret (p, s1)" "p \<noteq> 0" "heap s p = None" "keeps s s1"
      "os_list_item_insert E (thread_list s) p (hput p (ThreadObj (new_thread nm func arg dfunc rs 0 0 0)) s1) = Ret (r, s')" "r \<noteq> 0"
      "lookup ths r = None"
      "kit_ok s' (M(thread_list s \<mapsto> (THREAD_NAME, ths @ [(d, r, OS_LIST_NO_KEY, p)])))" "keeps s s'"
      "table s' (M(thread_list s \<mapsto> (THREAD_NAME, ths @ [(d, r, OS_LIST_NO_KEY, p)]))) (thread_list s) THREAD_NAME is_thread
         (ths @ [(d, r, OS_LIST_NO_KEY, p)])"
      "heap s' p = Some (ThreadObj (new_thread nm func arg dfunc rs 0 0 0))" "adds 2 s s'" "calls s' = calls s + 2"
  let ?ths' = "ths @ [(d, r, OS_LIST_NO_KEY, p)]" and ?t = "new_thread nm func arg dfunc rs r 0 0"
  let ?s1 = "hput p (ThreadObj ?t) s'"
  have l1: "thread_list s1 = thread_list s" and l2: "thread_list s' = thread_list s"
    using keeps_statics [OF a(4)] keeps_statics [OF a(9)] same_statics_fields by blast+
  have "upd_thread p (\<lambda>t. t\<lparr>th_id := r\<rparr>) s' = Ret ?s1"
    using a(2,11) by (simp add: upd_thread_def load_def new_thread_def)
  note up = this
  have ok: "thr_ok s' (M(thread_list s \<mapsto> (THREAD_NAME, ?ths'))) ?ths'" using a(8,10) l2 by (simp add: thr_ok_def)
  have ok': "thr_ok ?s1 (M(thread_list s \<mapsto> (THREAD_NAME, ?ths'))) ?ths'" by (rule thr_ok_hput [OF ok]) (use a(11) in auto)
  have k: "keeps s ?s1" using a(3,9) by (auto simp: keeps_def)
  show ?thesis
  proof (rule entered [OF a(6,7,2,3) ok' k])
    show "thread_list ?s1 = thread_list s" using l2 by simp
    show "calls ?s1 = calls s + 2" using a(13) by simp
    have "heap s' p \<noteq> None" using a(11) by simp
    then show "adds 2 s ?s1" using a(12) by (auto simp: adds_def insert_absorb domIff)
    show "os_thread_create E nm func arg dfunc rs s =
         obind (thread_spawn E p (\<lambda>h t. t\<lparr>th_runthr := h\<rparr>) ?s1) (\<lambda>(ok, s).
         if \<not> ok then obind (os_mem_free p s) (\<lambda>(x, s). Ret (ERROR, s))
         else obind (thread_spawn E p (\<lambda>h t. t\<lparr>th_monthr := h\<rparr>) s) (\<lambda>(ok, s).
         if \<not> ok
         then obind (os_mem_free p s) (\<lambda>(x, s). obind (os_list_item_delete (thread_list s) r s) (\<lambda>(x, s). Ret (ERROR, s)))
         else obind (load the_thread p s) (\<lambda>t. Ret (th_id t, s))))"
      using a nm l1 up by (simp add: os_thread_create_def Let_def new_thread_def)
  qed simp
qed

lemma thread_of_keeps:
  assumes v: "thr_ok s M ths" and k: "keeps s s'"
  shows "thread_of s' ths = thread_of s ths"
proof
  fix q show "thread_of s' ths q = thread_of s ths q"
  proof (cases "lookup ths q")
    case (Some p)
    obtain ob where "heap s p = Some ob" "\<not> list_obj ob" using table_lookup(2) [OF thr_okD(2) [OF v] Some] by blast
    then show ?thesis using keepsD [OF k, of p ob] Some by (simp add: thread_of_def)
  qed (simp add: thread_of_def)
qed

text \<open>Both threads are started.\<close>

lemma os_thread_create_started:
  assumes v: "thr_ok s M ths"
    and en: "r \<noteq> 0" "lookup ths r = None" "p \<noteq> 0" "heap s p = None"
      "thr_ok s1 (M(thread_list s \<mapsto> (THREAD_NAME, ths @ [(d, r, OS_LIST_NO_KEY, p)]))) (ths @ [(d, r, OS_LIST_NO_KEY, p)])"
      "keeps s s1" "heap s1 p = Some (ThreadObj (new_thread nm func arg dfunc rs r 0 0))"
    and h: "e_thread_create E (calls s1) = Some h1" "e_thread_create E (Suc (calls s1)) = Some h2"
  shows "\<exists>s'. obind (thread_spawn E p (\<lambda>h t. t\<lparr>th_runthr := h\<rparr>) s1) (\<lambda>(ok, s).
         if \<not> ok then obind (os_mem_free p s) (\<lambda>(x, s). Ret (ERROR, s))
         else obind (thread_spawn E p (\<lambda>h t. t\<lparr>th_monthr := h\<rparr>) s) (\<lambda>(ok, s).
         if \<not> ok
         then obind (os_mem_free p s) (\<lambda>(x, s). obind (os_list_item_delete (thread_list s) r s) (\<lambda>(x, s). Ret (ERROR, s)))
         else obind (load the_thread p s) (\<lambda>t. Ret (th_id t, s)))) = Ret (r, s') \<and> keeps s s' \<and> thread_of s ths r = None \<and>
     (\<exists>ths'. thr_ok s' (M(thread_list s \<mapsto> (THREAD_NAME, ths'))) ths'
         \<and> thread_of s' ths' = (thread_of s ths)(r \<mapsto> new_thread nm func arg dfunc rs r h1 h2))"
proof -
  let ?ths' = "ths @ [(d, r, OS_LIST_NO_KEY, p)]" and ?M' = "M(thread_list s \<mapsto> (THREAD_NAME, ths @ [(d, r, OS_LIST_NO_KEY, p)]))"
  let ?t = "new_thread nm func arg dfunc rs r h1 h2"
  let ?s' = "hput p (ThreadObj ?t) (tick (tick s1))"
  have e: "hput p (ThreadObj ?t) (tick (hput p (ThreadObj (new_thread nm func arg dfunc rs r h1 0)) (tick s1))) = ?s'"
    by (simp add: hput_def tick_def)
  have sp1: "thread_spawn E p (\<lambda>h t. t\<lparr>th_runthr := h\<rparr>) s1 = Ret (True, hput p (ThreadObj (new_thread nm func arg dfunc rs r h1 0)) (tick s1))"
    using en(3,7) h by (simp add: thread_spawn_def upd_thread_def load_def new_thread_def)
  have sp2: "thread_spawn E p (\<lambda>h t. t\<lparr>th_monthr := h\<rparr>) (hput p (ThreadObj (new_thread nm func arg dfunc rs r h1 0)) (tick s1)) = Ret (True, ?s')"
    using en(3) h e by (simp add: thread_spawn_def upd_thread_def load_def new_thread_def)
  have ld: "load the_thread p ?s' = Ret ?t" "th_id ?t = r" using en(3) by (simp_all add: load_def new_thread_def)
  have ok: "thr_ok ?s' ?M' ?ths'" by (rule thr_ok_hput) (use en(5,7) in auto)
  have k: "keeps s ?s'" using en(4,6) by (auto simp: keeps_def)
  have "thread_of ?s' ?ths' = (thread_of s ths)(r \<mapsto> ?t)"
  proof
    fix q show "thread_of ?s' ?ths' q = ((thread_of s ths)(r \<mapsto> ?t)) q"
      using en(2) fun_cong [OF thread_of_keeps [OF v k], of q]
      by (auto simp: thread_of_def lookup_append lookup_Cons split: option.splits)
  qed
  moreover have "thread_of s ths r = None" using en(2) by (simp add: thread_of_def)
  ultimately show ?thesis using ok k ld by (intro exI [of _ ?s']) (auto simp: sp1 sp2)
qed

text \<open>The runner cannot be started: the object is released, its entry stays in the list.\<close>

lemma os_thread_create_no_runner:
  assumes en: "r \<noteq> 0" "lookup ths r = None" "p \<noteq> 0" "heap s p = None"
      "thr_ok s1 (M(thread_list s \<mapsto> (THREAD_NAME, ths @ [(d, r, OS_LIST_NO_KEY, p)]))) (ths @ [(d, r, OS_LIST_NO_KEY, p)])"
      "keeps s s1" "heap s1 p = Some (ThreadObj (new_thread nm func arg dfunc rs r 0 0))" "thread_list s1 = thread_list s"
    and h: "e_thread_create E (calls s1) = None"
  shows "\<exists>s'. obind (thread_spawn E p (\<lambda>h t. t\<lparr>th_runthr := h\<rparr>) s1) (\<lambda>(ok, s).
         if \<not> ok then obind (os_mem_free p s) (\<lambda>(x, s). Ret (ERROR, s)) else F s) = Ret (ERROR, s') \<and> keeps s s'
     \<and> (\<forall>sig. os_thread_signal_send r sig s' = Fault BadPtr)"
proof -
  let ?ths' = "ths @ [(d, r, OS_LIST_NO_KEY, p)]"
  let ?s' = "hdel p (tick s1)"
  have ok1: "kit_ok (tick s1) (M(thread_list s \<mapsto> (THREAD_NAME, ?ths')))" using thr_okD(1) [OF en(5)] by simp
  have fre: "os_mem_free p (tick s1) = Ret (OKAY, ?s')" using kit_ok_mem [OF ok1] en(3,7) by simp
  have "kit_ok ?s' (M(thread_list s \<mapsto> (THREAD_NAME, ?ths')))" using en(7) by (intro kit_ok_hdel [OF ok1]) auto
  then have at: "list_at ?s' (thread_list ?s') THREAD_NAME False ?ths'" using kit_okD(3) en(8) by fastforce
  have "lookup ?ths' r = Some p" using en(2) by (simp add: lookup_append lookup_Cons)
  from thread_node_some [OF at this] obtain d n where "thread_node r ?s' = Ret d" "d \<noteq> 0"
      "load the_data d ?s' = Ret n" "ld_data n = p" by blast
  then have "os_thread_signal_send r sig ?s' = Fault BadPtr" for sig
    using en(3) by (simp add: os_thread_signal_send_def upd_thread_def load_def)
  moreover have "keeps s ?s'" by (rule keeps_hdel_new) (use en(4) keeps_trans [OF en(6) keeps_tick] in auto)
  ultimately show ?thesis using fre by (intro exI [of _ ?s']) (simp add: thread_spawn_def h)
qed

text \<open>The runner runs and its monitor cannot be started: object and entry are removed.\<close>

lemma os_thread_create_no_monitor:
  assumes v: "thr_ok s M ths"
    and en: "r \<noteq> 0" "lookup ths r = None" "p \<noteq> 0" "heap s p = None"
      "thr_ok s1 (M(thread_list s \<mapsto> (THREAD_NAME, ths @ [(d, r, OS_LIST_NO_KEY, p)]))) (ths @ [(d, r, OS_LIST_NO_KEY, p)])"
      "keeps s s1" "heap s1 p = Some (ThreadObj (new_thread nm func arg dfunc rs r 0 0))" "thread_list s1 = thread_list s"
    and h: "e_thread_create E (calls s1) = Some h1" "e_thread_create E (Suc (calls s1)) = None"
  shows "\<exists>s'. obind (thread_spawn E p (\<lambda>h t. t\<lparr>th_runthr := h\<rparr>) s1) (\<lambda>(ok, s).
         if \<not> ok then obind (os_mem_free p s) (\<lambda>(x, s). Ret (ERROR, s))
         else obind (thread_spawn E p (\<lambda>h t. t\<lparr>th_monthr := h\<rparr>) s) (\<lambda>(ok, s).
         if \<not> ok
         then obind (os_mem_free p s) (\<lambda>(x, s). obind (os_list_item_delete (thread_list s) r s) (\<lambda>(x, s). Ret (ERROR, s)))
         else obind (load the_thread p s) (\<lambda>t. Ret (th_id t, s)))) = Ret (ERROR, s') \<and> keeps s s' \<and> thr_ok s' M ths"
proof -
  let ?ths' = "ths @ [(d, r, OS_LIST_NO_KEY, p)]" and ?M' = "M(thread_list s \<mapsto> (THREAD_NAME, ths @ [(d, r, OS_LIST_NO_KEY, p)]))"
  let ?s2 = "tick (hput p (ThreadObj (new_thread nm func arg dfunc rs r h1 0)) (tick s1))"
  have sp1: "thread_spawn E p (\<lambda>h t. t\<lparr>th_runthr := h\<rparr>) s1 = Ret (True, hput p (ThreadObj (new_thread nm func arg dfunc rs r h1 0)) (tick s1))"
    using en(3,7) h by (simp add: thread_spawn_def upd_thread_def load_def new_thread_def)
  have sp2: "thread_spawn E p (\<lambda>h t. t\<lparr>th_monthr := h\<rparr>) (hput p (ThreadObj (new_thread nm func arg dfunc rs r h1 0)) (tick s1)) = Ret (False, ?s2)"
    using h by (simp add: thread_spawn_def)
  have t: "thr_ok (hput p (ThreadObj (new_thread nm func arg dfunc rs r h1 0)) (tick s1)) ?M' ?ths'" by (rule thr_ok_hput) (use en(5,7) in auto)
  have ok: "kit_ok ?s2 ?M'" by (rule kit_ok_tick [OF thr_okD(1) [OF t]])
  have tb: "table ?s2 ?M' (thread_list s) THREAD_NAME is_thread ?ths'"
    using table_keeps [OF thr_okD(2) [OF t] keeps_tick] en(8) by simp
  have "lookup ?ths' r = Some p" using en(2) by (simp add: lookup_append lookup_Cons)
  from table_delete [OF ok tb this] obtain s' where s': "os_list_item_delete (thread_list s) r (hdel p ?s2) = Ret (OKAY, s')"
      "keeps (hdel p ?s2) s'" "kit_ok s' (?M'(thread_list s \<mapsto> (THREAD_NAME, filter (\<lambda>x. it_id (snd x) \<noteq> r) ?ths')))"
      "table s' (?M'(thread_list s \<mapsto> (THREAD_NAME, filter (\<lambda>x. it_id (snd x) \<noteq> r) ?ths'))) (thread_list s) THREAD_NAME is_thread
         (filter (\<lambda>x. it_id (snd x) \<noteq> r) ?ths')" by blast
  have flt: "filter (\<lambda>x. it_id (snd x) \<noteq> r) ?ths' = ths" using en(2) by (auto simp: lookup_None filter_id_conv)
  have M: "M(thread_list s \<mapsto> (THREAD_NAME, ths)) = M" using thr_okD(3) [OF v] by (simp add: fun_upd_idem)
  have fre: "os_mem_free p ?s2 = Ret (OKAY, hdel p ?s2)" using kit_ok_mem [OF ok] en(3) by simp
  have "keeps s (hdel p ?s2)" using en(4,6) by (auto simp: keeps_def)
  then have k: "keeps s s'" by (rule keeps_trans [OF _ s'(2)])
  have "thread_list s' = thread_list s" using keeps_statics [OF k] same_statics_fields by blast
  then have "thr_ok s' M ths" using s'(3,4) by (simp only: flt fun_upd_upd M) (simp add: thr_ok_def)
  then show ?thesis using k fre s'(1) en(8) by (intro exI [of _ s']) (simp add: sp1 sp2)
qed

lemma os_thread_create_law:
  assumes E: "env_ok E" and v: "thr_ok s M ths" and nm: "name_fits nm"
  shows "\<exists>r s'. os_thread_create E nm func arg dfunc rs s = Ret (r, s') \<and> keeps s s' \<and>
     (short E T_OS_THREAD THREAD_NAME s \<and> r = ERROR \<and> thr_ok s' M ths \<or>
      (case (e_thread_create E (calls s + 2), e_thread_create E (calls s + 3)) of
         (None, _) \<Rightarrow> r = ERROR \<and> (\<exists>q. q \<noteq> 0 \<and> lookup ths q = None \<and> (\<forall>sig. os_thread_signal_send q sig s' = Fault BadPtr))
       | (Some h1, None) \<Rightarrow> r = ERROR \<and> thr_ok s' M ths
       | (Some h1, Some h2) \<Rightarrow> r \<noteq> 0 \<and> thread_of s ths r = None \<and>
           (\<exists>ths'. thr_ok s' (M(thread_list s \<mapsto> (THREAD_NAME, ths'))) ths'
              \<and> thread_of s' ths' = (thread_of s ths)(r \<mapsto> new_thread nm func arg dfunc rs r h1 h2))))"
  using E v nm
proof (cases rule: os_thread_create_entry [where func = func and arg = arg and dfunc = dfunc and rs = rs])
  case (failed s')
  then show ?thesis by blast
next
  case (entered p d r s1)
  let ?F = "\<lambda>s. obind (thread_spawn E p (\<lambda>h t. t\<lparr>th_monthr := h\<rparr>) s) (\<lambda>(ok, s).
         if \<not> ok
         then obind (os_mem_free p s) (\<lambda>(x, s). obind (os_list_item_delete (thread_list s) r s) (\<lambda>(x, s). Ret (ERROR, s)))
         else obind (load the_thread p s) (\<lambda>t. Ret (th_id t, s)))"
  note calls = entered(11) numeral_3_eq_3
  show ?thesis
  proof (cases "e_thread_create E (calls s1)")
    case None
    from os_thread_create_no_runner [OF entered(1-8) None, of ?F] obtain s' where
      "os_thread_create E nm func arg dfunc rs s = Ret (ERROR, s')" "keeps s s'"
      "\<forall>sig. os_thread_signal_send r sig s' = Fault BadPtr" unfolding entered(9) by blast
    then show ?thesis using None entered(1,2) by (intro exI [of _ ERROR] exI [of _ s']) (auto simp: calls)
  next
    case h1: (Some h1)
    show ?thesis
    proof (cases "e_thread_create E (Suc (calls s1))")
      case None
      from os_thread_create_no_monitor [OF v entered(1-8) h1 None] obtain s' where
        "os_thread_create E nm func arg dfunc rs s = Ret (ERROR, s')" "keeps s s'" "thr_ok s' M ths" unfolding entered(9) by blast
      then show ?thesis using h1 None by (intro exI [of _ ERROR] exI [of _ s']) (auto simp: calls)
    next
      case (Some h2)
      from os_thread_create_started [OF v entered(1-7) h1 Some] obtain s' ths' where
        "os_thread_create E nm func arg dfunc rs s = Ret (r, s')" "keeps s s'" "thread_of s ths r = None"
        "thr_ok s' (M(thread_list s \<mapsto> (THREAD_NAME, ths'))) ths'"
        "thread_of s' ths' = (thread_of s ths)(r \<mapsto> new_thread nm func arg dfunc rs r h1 h2)" unfolding entered(9) by blast
      then show ?thesis using h1 Some entered(1) by (intro exI [of _ r] exI [of _ s']) (auto simp: calls)
    qed
  qed
qed

section \<open>Who am I\<close>

text \<open>The comparison of \<open>os_thread_self\<close> sees the low 32 bits of the POSIX ids only.\<close>

lemma os_thread_self_eq:
  assumes v: "thr_ok s M ths"
  shows "os_thread_self E s = Ret (case find (\<lambda>x. \<exists>t. heap s (it_data (snd x)) = Some (ThreadObj t)
      \<and> (ucast (th_runthr t) :: u32) = ucast (e_thread_self E)) ths of None \<Rightarrow> ERROR | Some x \<Rightarrow> it_id (snd x), s)"
proof -
  let ?Q = "\<lambda>it. \<exists>t. heap s (it_data it) = Some (ThreadObj t) \<and> (ucast (th_runthr t) :: u32) = ucast (e_thread_self E)"
  have at: "list_at s (thread_list s) THREAD_NAME False ths" by (rule thr_ok_at [OF v])
  have cmp: "os_thread_find_with_child_id (ucast (e_thread_self E)) a s = Ret (if ?Q it then OKAY else ERROR)"
    if x: "(a, it) \<in> set ths" for a it
  proof -
    obtain t where t: "it_data it \<noteq> 0" "heap s (it_data it) = Some (ThreadObj t)"
      using x thr_okD(2) [OF v] is_threadE unfolding table_def by fastforce
    obtain nx pv where "load the_data a s = Ret (node it nx pv)" "a \<noteq> 0" using list_node [OF at x] by blast
    then show ?thesis using t by (simp add: os_thread_find_with_child_id_def load_def)
  qed
  have f: "os_list_find (thread_list s) (os_thread_find_with_child_id (ucast (e_thread_self E))) s =
      Ret (case find (\<lambda>x. ?Q (snd x)) ths of None \<Rightarrow> 0 | Some x \<Rightarrow> fst x)"
    by (rule os_list_find_eq [OF at]) (rule cmp)
  show ?thesis
  proof (cases "find (\<lambda>x. ?Q (snd x)) ths")
    case None
    then show ?thesis using f by (simp add: os_thread_self_def)
  next
    case (Some x)
    then have "(fst x, snd x) \<in> set ths" by (auto simp: find_Some_iff)
    from list_node [OF at this] Some f show ?thesis by (auto simp: os_thread_self_def)
  qed
qed

end
