(* ===== verification/Thread_Props.thy ===== *)
theory Thread_Props
  imports Thread_Laws Demo
begin

text \<open>
  The properties of src/thread.c, and a state with two threads to apply them to. The POSIX ids of the
  two threads agree in their low 32 bits.
\<close>

section \<open>Two threads\<close>

definition demo_threads :: nodes where
  "demo_threads = [(0x700, 0x10000000, 3, 0xf00), (0x780, 0x10000001, 4, 0xf80)]"

definition thread_one :: OS_THREAD where
  "thread_one = new_thread ''one'' 0x4000 0 0 0 0x10000000 0x100000001 0x100000002"

definition thread_two :: OS_THREAD where
  "thread_two = new_thread ''two'' 0x4000 0 0 1 0x10000001 0x000000001 0x000000002"

definition thread_heap :: heap where
  "thread_heap = [0x1e0 \<mapsto> ListObj (list_rec THREAD_NAME False demo_threads),
     0x700 \<mapsto> DataObj (node (0x10000000, 3, 0xf00) 0x780 0),
     0x780 \<mapsto> DataObj (node (0x10000001, 4, 0xf80) 0 0x700),
     0xf00 \<mapsto> ThreadObj thread_one, 0xf80 \<mapsto> ThreadObj thread_two]"

definition thread_state :: os_state where
  "thread_state = demo_state\<lparr>heap := thread_heap, os_res_pool := mark 0 1 (mark 0 0 os_res_pool_table),
     thread_list := 0x1e0\<rparr>"

definition thread_ghost :: ghost where
  "thread_ghost = [0x1e0 \<mapsto> (THREAD_NAME, demo_threads)]"

definition demo_thr :: thr_env where
  "demo_thr = \<lparr>te_join = (\<lambda>h s. Ret ((), s)), te_stop = (\<lambda>h s. Ret ((), s)), te_sleep = (\<lambda>s. Fault Blocked),
     te_thread_init = 0x40\<rparr>"

lemma thread_state_simps [simp]:
  "heap thread_state = thread_heap" "thread_list thread_state = 0x1e0" "calls thread_state = 0"
  by (simp_all add: thread_state_def demo_state_def)

lemma thread_pool_find [simp]: "pool_find THREAD_NAME os_res_pool_table 0 = Some 0"
  by (simp add: os_res_pool_table_def mk_pool_def res_name_defs strncmp_eq_def)

lemma thread_ids: "ids_used THREAD_NAME (os_res_pool thread_state) = {0x10000000, 0x10000001}"
proof -
  have b: "rp_base (os_res_pool_table ! 0) = 0x10000000" by (simp add: os_res_pool_table_def mk_pool_def)
  have b': "rp_base (mark 0 0 os_res_pool_table ! 0) = 0x10000000" using b by (simp add: mark_def)
  have u: "ids_used THREAD_NAME os_res_pool_table = {}" by (simp add: ids_used_def)
  show ?thesis using b b' u by (auto simp: thread_state_def ids_mark pools_ok_mark cell_id_def)
qed

lemma thread_demo_ok: "thr_ok thread_state thread_ghost demo_threads"
proof -
  have "list_at thread_state 0x1e0 THREAD_NAME False demo_threads"
    unfolding list_at_def thread_state_simps
    by (simp add: thread_heap_def demo_threads_def) (use thread_ids in simp)
  then have "lists_ok thread_state thread_ghost" by (auto simp: lists_ok_def thread_ghost_def split: if_splits)
  moreover have "mem_ok thread_state" by (simp add: thread_state_def demo_state_def mem_ok_def)
  moreover have "pools_ok (os_res_pool thread_state)" by (simp add: thread_state_def pools_ok_mark)
  ultimately have "kit_ok thread_state thread_ghost" by (simp add: kit_ok_def)
  moreover have "table thread_state thread_ghost 0x1e0 THREAD_NAME is_thread demo_threads"
    by (simp add: table_def thread_ghost_def demo_threads_def thread_heap_def)
  ultimately show ?thesis by (simp add: thr_ok_def)
qed

lemma thread_demo:
  "lookup demo_threads 0x10000000 = Some 0xf00" "thread_heap 0xf00 = Some (ThreadObj thread_one)"
  "lookup demo_threads 0x10000001 = Some 0xf80" "thread_heap 0xf80 = Some (ThreadObj thread_two)"
  "thread_of thread_state demo_threads 0x10000000 = Some thread_one"
  "th_id thread_one = 0x10000000" "th_restartable thread_one = 0" "th_dfunc thread_one = 0"
  by (simp_all add: thread_of_def lookup_Cons demo_threads_def thread_heap_def thread_one_def new_thread_def)

section \<open>Signals\<close>

text \<open>C18. A signal that is sent to a thread is received by it, in blocking and in non-blocking mode, and
  is gone then: the next receive finds none. No other thread is touched.\<close>

theorem thread_signal_roundtrip:
  assumes "thr_ok s M ths" and "thread_of s ths r = Some t" and "sig \<noteq> 0"
  shows "\<exists>s1 s2. os_thread_signal_send r sig s = Ret (OKAY, s1) \<and> os_thread_signal_recv T r mode s1 = Ret (sig, s2)
     \<and> os_thread_signal_recv T r 0 s2 = Ret (0, s2) \<and> thr_ok s2 M ths
     \<and> thread_of s2 ths = (thread_of s ths)(r \<mapsto> t\<lparr>th_sig := 0\<rparr>)"
proof -
  from assms(2) obtain p where p: "lookup ths r = Some p" "heap s p = Some (ThreadObj t)" by (auto simp: thread_of_Some)
  let ?s1 = "hput p (ThreadObj (t\<lparr>th_sig := sig\<rparr>)) s" and ?s2 = "hput p (ThreadObj (t\<lparr>th_sig := 0\<rparr>)) s"
  have v1: "thr_ok ?s1 M ths" and v2: "thr_ok ?s2 M ths" by (rule thr_ok_hput [OF assms(1)]; use p in auto)+
  have "os_thread_signal_recv T r mode ?s1 = Ret (sig, ?s2)"
    using signal_recv_step [OF v1 p(1), of "t\<lparr>th_sig := sig\<rparr>" mode T] assms(3) by simp
  moreover have "os_thread_signal_recv T r 0 ?s2 = Ret (0, ?s2)"
    using signal_recv_step [OF v2 p(1), of "t\<lparr>th_sig := 0\<rparr>" 0 T] by simp
  ultimately show ?thesis
    using signal_send_step [OF assms(1) p] v2 thread_of_hput [OF assms(1) p(1)] by blast
qed

theorem thread_signal_witness:
  "\<exists>s1 s2. os_thread_signal_send 0x10000000 7 thread_state = Ret (OKAY, s1)
     \<and> os_thread_signal_recv demo_thr 0x10000000 1 s1 = Ret (7, s2) \<and> os_thread_signal_recv demo_thr 0x10000000 0 s2 = Ret (0, s2)"
proof -
  have "(7 :: u32) \<noteq> 0" by simp
  from thread_signal_roundtrip [OF thread_demo_ok thread_demo(5) this] show ?thesis by blast
qed

section \<open>Life of a thread\<close>

text \<open>C26. What becomes of \<open>os_thread_create\<close> with a name that fits, in every case; the first POSIX
  thread is the runner, the second its monitor. Memory or ids have run out: ERROR, and the threads are as
  before. The runner cannot be started: ERROR, and although its object is released the entry stays in the
  list, so that there is a new id for which \<open>os_thread_signal_send\<close> writes into the released block.
  The runner is started and the monitor is not: ERROR, and the threads of the list are as before. Both are
  started: an id that no thread had, of a thread with the given handler and argument, the handles of the
  two and no signal, next to the old threads. Every other block is kept.\<close>

theorem os_thread_create_outcomes:
  assumes "env_ok E" and "thr_ok s M ths" and "name_fits nm"
  shows "\<exists>r s'. os_thread_create E nm func arg dfunc rs s = Ret (r, s') \<and> keeps s s' \<and>
     (short E T_OS_THREAD THREAD_NAME s \<and> r = ERROR \<and> thr_ok s' M ths \<or>
      (case (e_thread_create E (calls s + 2), e_thread_create E (calls s + 3)) of
         (None, _) \<Rightarrow> r = ERROR \<and> (\<exists>q. q \<noteq> 0 \<and> lookup ths q = None \<and> (\<forall>sig. os_thread_signal_send q sig s' = Fault BadPtr))
       | (Some h1, None) \<Rightarrow> r = ERROR \<and> thr_ok s' M ths
       | (Some h1, Some h2) \<Rightarrow> r \<noteq> 0 \<and> thread_of s ths r = None \<and>
           (\<exists>ths'. thr_ok s' (M(thread_list s \<mapsto> (THREAD_NAME, ths'))) ths'
              \<and> thread_of s' ths' = (thread_of s ths)(r \<mapsto> new_thread nm func arg dfunc rs r h1 h2))))"
  by (rule os_thread_create_law [OF assms])

definition no_thread_env :: os_env where
  "no_thread_env = gap_env\<lparr>e_thread_create := (\<lambda>n. None)\<rparr>"

lemma no_thread_env_ok: "env_ok no_thread_env"
  using gap_env_ok by (simp add: no_thread_env_def env_ok_def region_fresh_def malloc_fresh_def sizes_ok_def)

lemma thread_demo_room:
  assumes "e_region_alloc E = e_region_alloc gap_env" and "e_sizeof E = e_sizeof gap_env"
  shows "\<not> short E T_OS_THREAD THREAD_NAME thread_state"
proof (rule roomy_not_short [OF _ order_refl thread_pool_find])
  have p: "os_res_pool thread_state = mark 0 1 (mark 0 0 os_res_pool_table)" by (simp add: thread_state_def)
  have "used_cells (os_res_pool thread_state) = {(0, 1), (0, 0)}"
    unfolding p by (simp add: used_cells_mark pools_ok_mark)
  then have u: "card (used_cells (os_res_pool thread_state)) = 2" by simp
  have d: "card (dom (heap thread_state)) = 5" by (simp add: thread_heap_def)
  show "roomy E 2 thread_state"
    unfolding roomy_def u d using gap_alloc_finds [of "ucast (16 :: u32)"] assms
    by (simp add: p OS_MAX_RES_def) (simp add: gap_env_def demo_env_def)
qed

theorem os_thread_create_witness:
  "(\<exists>r s'. os_thread_create gap_env ''abc'' 0x5000 0 0 0 thread_state = Ret (r, s') \<and> r \<noteq> 0
      \<and> thread_of thread_state demo_threads r = None)
   \<and> (\<exists>s' q. os_thread_create no_thread_env ''abc'' 0x5000 0 0 0 thread_state = Ret (ERROR, s')
      \<and> lookup demo_threads q = None \<and> os_thread_signal_send q 1 s' = Fault BadPtr)"
proof
  have n: "name_fits ''abc''" by (simp add: name_fits_def STR_LEN_def)
  have g: "\<not> short gap_env T_OS_THREAD THREAD_NAME thread_state" "\<not> short no_thread_env T_OS_THREAD THREAD_NAME thread_state"
    by (rule thread_demo_room; simp add: no_thread_env_def)+
  have c: "e_thread_create gap_env k = Some (of_nat k + 1)" "e_thread_create no_thread_env k = None" for k
    by (simp_all add: gap_env_def demo_env_def no_thread_env_def)
  show "\<exists>r s'. os_thread_create gap_env ''abc'' 0x5000 0 0 0 thread_state = Ret (r, s') \<and> r \<noteq> 0
      \<and> thread_of thread_state demo_threads r = None"
    using os_thread_create_outcomes [OF gap_env_ok thread_demo_ok n, where func = "0x5000" and arg = 0 and dfunc = 0 and rs = 0] g(1) by (auto simp: c(1))
  show "\<exists>s' q. os_thread_create no_thread_env ''abc'' 0x5000 0 0 0 thread_state = Ret (ERROR, s')
      \<and> lookup demo_threads q = None \<and> os_thread_signal_send q 1 s' = Fault BadPtr"
    using os_thread_create_outcomes [OF no_thread_env_ok thread_demo_ok n, where func = "0x5000" and arg = 0 and dfunc = 0 and rs = 0] g(2) by (auto simp: c(2))
qed



section \<open>Errors\<close>

text \<open>\<open>os_thread_self\<close> returns the id of the first thread of the list whose POSIX id agrees with
  that of the caller in the low 32 bits, which may be another thread.\<close>

theorem os_thread_self_compares_low_bits:
  assumes "thr_ok s M ths"
  shows "os_thread_self E s = Ret (case find (\<lambda>x. \<exists>t. heap s (it_data (snd x)) = Some (ThreadObj t)
      \<and> (ucast (th_runthr t) :: u32) = ucast (e_thread_self E)) ths of None \<Rightarrow> ERROR | Some x \<Rightarrow> it_id (snd x), s)"
  by (rule os_thread_self_eq [OF assms])

theorem os_thread_self_witness:
  "os_thread_self demo_env thread_state = Ret (0x10000000, thread_state)
     \<and> th_runthr thread_two = e_thread_self demo_env \<and> th_runthr thread_one \<noteq> e_thread_self demo_env"
proof -
  have "(ucast (0x100000001 :: u64) :: u32) = ucast (1 :: u64)" by simp
  then show ?thesis
    using os_thread_self_compares_low_bits [OF thread_demo_ok, of demo_env]
    by (simp add: demo_threads_def thread_heap_def thread_one_def thread_two_def new_thread_def demo_env_def)
qed

end
