(* ===== verification/Net_Base.thy ===== *)
theory Net_Base
  imports Os_Msgq Os_Thread
begin

text \<open>
  The ground of the network module (inc/net.h, inc/error.h and parts of src/net.c): constants, byte
  order, addresses, the environment of sockets, the pool of ports and the error word of a port.
\<close>

section \<open>Constants\<close>

definition NET_MEM_CLASS :: u32 where "NET_MEM_CLASS = 0x20300001"
definition NET_MAX_PAYLOAD :: u32 where "NET_MAX_PAYLOAD = 512 * 1024"
definition NET_PACKET_NULL_TYPE :: u32 where "NET_PACKET_NULL_TYPE = 0xFFFFFFFF"
definition NET_PACKET_MESSAGE :: u32 where "NET_PACKET_MESSAGE = 0x5a3a2a1a"
definition NET_PORT_MAX_RETRY_COUNTER :: nat where "NET_PORT_MAX_RETRY_COUNTER = 5"
definition NET_PORT_MAX_RETRY_COUNTER_EX :: nat where "NET_PORT_MAX_RETRY_COUNTER_EX = 5000"
definition NET_PORT_TYPE_CLIENT :: u32 where "NET_PORT_TYPE_CLIENT = 1"
definition NET_PORT_TYPE_SERVER :: u32 where "NET_PORT_TYPE_SERVER = 2"
definition NET_PORT_STATUS_SOCKET :: u8 where "NET_PORT_STATUS_SOCKET = 0x01"
definition NET_PORT_STATUS_CONN :: u8 where "NET_PORT_STATUS_CONN = 0x02"
definition NET_PORT_STATUS_BIND :: u8 where "NET_PORT_STATUS_BIND = 0x04"
definition NET_PORT_STATUS_ACCEPT :: u8 where "NET_PORT_STATUS_ACCEPT = 0x08"
definition NET_PORT_STATUS_ACTIVE :: u8 where "NET_PORT_STATUS_ACTIVE = 0x10"
definition NET_PORT_STATUS_FULL_SERVER :: u8 where "NET_PORT_STATUS_FULL_SERVER = 0x1D"
definition NET_MESG_NEW_PORT :: u32 where "NET_MESG_NEW_PORT = 0x00110001"
definition NET_MESG_DEL_PORT :: u32 where "NET_MESG_DEL_PORT = 0x00110002"
definition NET_MESG_ACCEPT :: u32 where "NET_MESG_ACCEPT = 0x00110003"
definition NET_PORT_DISABLE :: u32 where "NET_PORT_DISABLE = 1"
definition NET_PORT_NONBLOCK_DISABLE :: u32 where "NET_PORT_NONBLOCK_DISABLE = 2"
definition NET_PORT_KEEPALIVE_DISABLE :: u32 where "NET_PORT_KEEPALIVE_DISABLE = 4"
definition NET_ANY_IP :: u32 where "NET_ANY_IP = 0xFFFFFFFF"
definition NET_PORT_PROTO_UDP :: u32 where "NET_PORT_PROTO_UDP = 0x0101"
definition NET_PORT_PROTO_TCP :: u32 where "NET_PORT_PROTO_TCP = 0x0202"
definition NET_PORT_FD_SET :: u32 where "NET_PORT_FD_SET = 0x10000001"
definition NET_PORT_AVAIL_SET :: u32 where "NET_PORT_AVAIL_SET = 0x10000002"
definition NET_PORT_BUFF_SET :: u32 where "NET_PORT_BUFF_SET = 0x10000003"

definition E_NOERROR :: u32 where "E_NOERROR = 0xFFFF0000"
definition E_NET_PORT_UNESTAB :: u32 where "E_NET_PORT_UNESTAB = E_NOERROR + 101"
definition E_NET_PORT_RX :: u32 where "E_NET_PORT_RX = E_NOERROR + 102"
definition E_NET_PORT_TX :: u32 where "E_NET_PORT_TX = E_NOERROR + 103"
definition E_NET_CANNOTCONN :: u32 where "E_NET_CANNOTCONN = E_NOERROR + 104"

text \<open>The Linux values of the socket constants the module uses.\<close>

definition AF_INET :: u16 where "AF_INET = 2"
definition SOCK_STREAM :: u32 where "SOCK_STREAM = 1"
definition SOCK_DGRAM :: u32 where "SOCK_DGRAM = 2"
definition SO_REUSEADDR :: u32 where "SO_REUSEADDR = 2"
definition SO_SNDBUF :: u32 where "SO_SNDBUF = 7"
definition SO_RCVBUF :: u32 where "SO_RCVBUF = 8"
definition SO_KEEPALIVE :: u32 where "SO_KEEPALIVE = 9"
definition SO_LINGER :: u32 where "SO_LINGER = 13"
definition O_NONBLOCK :: int where "O_NONBLOCK = 0x800"
definition EINTR :: u32 where "EINTR = 4"
definition EAGAIN :: u32 where "EAGAIN = 11"

section \<open>Byte order\<close>

text \<open>On the little-endian targets htonl and htons reverse the bytes, and so do their inverses.\<close>

definition le_bytes32 :: "u32 \<Rightarrow> u8 list" where
  "le_bytes32 w = [ucast w, ucast (drop_bit 8 w), ucast (drop_bit 16 w), ucast (drop_bit 24 w)]"

definition word_le32 :: "u8 \<Rightarrow> u8 \<Rightarrow> u8 \<Rightarrow> u8 \<Rightarrow> u32" where
  "word_le32 a b c d = ucast a OR push_bit 8 (ucast b) OR push_bit 16 (ucast c) OR push_bit 24 (ucast d)"

definition le_bytes16 :: "u16 \<Rightarrow> u8 list" where
  "le_bytes16 w = [ucast w, ucast (drop_bit 8 w)]"

definition word_le16 :: "u8 \<Rightarrow> u8 \<Rightarrow> u16" where
  "word_le16 a b = ucast a OR push_bit 8 (ucast b)"

definition htonl :: "u32 \<Rightarrow> u32" where
  "htonl w = word_le32 (ucast (drop_bit 24 w)) (ucast (drop_bit 16 w)) (ucast (drop_bit 8 w)) (ucast w)"

definition htons :: "u16 \<Rightarrow> u16" where
  "htons w = word_le16 (ucast (drop_bit 8 w)) (ucast w)"

abbreviation ntohl :: "u32 \<Rightarrow> u32" where "ntohl \<equiv> htonl"
abbreviation ntohs :: "u16 \<Rightarrow> u16" where "ntohs \<equiv> htons"

text \<open>The packed header: 32 bytes in memory and on the wire.\<close>

definition hdr_bytes :: "net_packet_hdr \<Rightarrow> u8 list" where
  "hdr_bytes h = hd_preamble h @ le_bytes32 (hd_type h) @ le_bytes32 (hd_size h) @ le_bytes16 (hd_vsport h)
     @ le_bytes16 (hd_vdport h) @ le_bytes32 (hd_option h) @ le_bytes32 (hd_checksum h)"

definition bytes_hdr :: "u8 list \<Rightarrow> net_packet_hdr" where
  "bytes_hdr b =
     \<lparr>hd_preamble = take 12 b,
      hd_type = word_le32 (b ! 12) (b ! 13) (b ! 14) (b ! 15),
      hd_size = word_le32 (b ! 16) (b ! 17) (b ! 18) (b ! 19),
      hd_vsport = word_le16 (b ! 20) (b ! 21),
      hd_vdport = word_le16 (b ! 22) (b ! 23),
      hd_option = word_le32 (b ! 24) (b ! 25) (b ! 26) (b ! 27),
      hd_checksum = word_le32 (b ! 28) (b ! 29) (b ! 30) (b ! 31)\<rparr>"

definition NET_PACKET_HDR_SIZE :: u32 where "NET_PACKET_HDR_SIZE = 32"

text \<open>\<open>"uNETPKT"\<close>, without the terminating NUL.\<close>

definition NET_PACKET_PREAMBLE :: "u8 list" where
  "NET_PACKET_PREAMBLE = [0x75, 0x4E, 0x45, 0x54, 0x50, 0x4B, 0x54]"

section \<open>The environment of sockets\<close>

text \<open>
  Results of the socket calls, indexed by the number of the call like every answer of the environment;
  \<open>ne_send\<close> and \<open>ne_recv\<close> give the amount (negative for an error) with errno or the bytes. What a
  block from a buffer class holds before it is written is \<open>ne_junk_*\<close>. The callbacks are the upcall and
  the packet function a user gives to a port; the number an upcall gets a pointer to (\<open>None\<close> for NULL)
  comes back as the upcall left it. \<open>ne_fn\<close> gives the addresses of the functions of the module.
\<close>

datatype net_fn = FN_listener | FN_server | FN_packet_handler | FN_port_delete_upcall | FN_channel_q_delete_upcall

record net_env =
  ne_socket :: "nat \<Rightarrow> u32 \<Rightarrow> int"
  ne_setsockopt :: "nat \<Rightarrow> u32 \<Rightarrow> u32 \<Rightarrow> u32 \<Rightarrow> int"
  ne_connect :: "nat \<Rightarrow> u32 \<Rightarrow> sockaddr_in \<Rightarrow> int"
  ne_bind :: "nat \<Rightarrow> u32 \<Rightarrow> sockaddr_in \<Rightarrow> int"
  ne_listen :: "nat \<Rightarrow> u32 \<Rightarrow> int"
  ne_accept :: "nat \<Rightarrow> u32 \<Rightarrow> int \<times> sockaddr_in \<times> u32"
  ne_send :: "nat \<Rightarrow> u32 \<Rightarrow> u8 list \<Rightarrow> sockaddr_in option \<Rightarrow> int \<times> u32"
  ne_recv :: "nat \<Rightarrow> u32 \<Rightarrow> nat \<Rightarrow> int \<times> u8 list \<times> sockaddr_in \<times> u32"
  ne_getsockname :: "nat \<Rightarrow> u32 \<Rightarrow> sockaddr_in \<times> u32"
  ne_getfl :: "nat \<Rightarrow> u32 \<Rightarrow> int"
  ne_setfl :: "nat \<Rightarrow> u32 \<Rightarrow> int \<Rightarrow> int"
  ne_upcall :: "fnptr \<Rightarrow> u32 \<Rightarrow> u32 \<Rightarrow> u32 option \<Rightarrow> u32 option os"
  ne_pktfunc :: "fnptr \<Rightarrow> addr \<Rightarrow> addr os"
  ne_junk_packet :: "nat \<Rightarrow> net_packet"
  ne_junk_chan :: "nat \<Rightarrow> net_channel_st"
  ne_junk_port :: "nat \<Rightarrow> net_port_st"
  ne_fn :: "net_fn \<Rightarrow> fnptr"

text \<open>
  The address block a protocol function works on: NULL, the one inside the port, or one of the caller;
  a function that fills it in returns it.
\<close>

datatype addr_ref = NullAddr | PortAddr | CallerAddr net_addrinfo_t

fun addr_get :: "addr_ref \<Rightarrow> net_port_st \<Rightarrow> net_addrinfo_t" where
  "addr_get (CallerAddr a) p = a"
| "addr_get _ p = np_addr p"

section \<open>Addresses\<close>

definition net_addrinfo_make :: "net_addrinfo_t option \<Rightarrow> u32 \<Rightarrow> u32 \<Rightarrow> u32 \<times> net_addrinfo_t option" where
  "net_addrinfo_make addr ip port =
     (case addr of None \<Rightarrow> (ERROR, None)
      | Some a \<Rightarrow> (OKAY, Some (a\<lparr>ai_ip := ip, ai_port := port,
          ai_addr := \<lparr>sin_family = AF_INET, sin_port = htons (ucast port),
                      sin_addr = if ip = NET_ANY_IP then 0 else htonl ip\<rparr>\<rparr>)))"

definition net_addrinfo_cleanup :: "net_addrinfo_t option \<Rightarrow> u32 \<times> net_addrinfo_t option" where
  "net_addrinfo_cleanup addr =
     (case addr of None \<Rightarrow> (ERROR, None)
      | Some a \<Rightarrow> (OKAY, Some \<lparr>ai_ip = 0, ai_port = 0,
          ai_addr = \<lparr>sin_family = 0, sin_port = 0, sin_addr = 0\<rparr>, ai_addrsize = 16\<rparr>))"

text \<open>The result with the updated block and the two numbers.\<close>

definition net_addrinfo_get :: "net_addrinfo_t option \<Rightarrow> (u32 \<times> net_addrinfo_t option \<times> u32 \<times> u32)" where
  "net_addrinfo_get addr =
     (case addr of None \<Rightarrow> (ERROR, None, 0, 0)
      | Some a \<Rightarrow> let ip = ntohl (sin_addr (ai_addr a)); port = ucast (ntohs (sin_port (ai_addr a))) in
          (OKAY, Some (a\<lparr>ai_ip := ip, ai_port := port\<rparr>), ip, port))"

section \<open>Ports\<close>

definition upd_port :: "addr \<Rightarrow> (net_port_st \<Rightarrow> net_port_st) \<Rightarrow> os_state \<Rightarrow> os_state outcome" where
  "upd_port p f s = obind (load the_port p s) (\<lambda>x. Ret (hput p (PortObj (f x)) s))"

definition net_port_search :: "u32 \<Rightarrow> os_state \<Rightarrow> addr outcome" where
  "net_port_search portid s = os_obj_find (net_port_pool s) portid s"

definition net_port_errno_set :: "u32 \<Rightarrow> u32 \<Rightarrow> os_state \<Rightarrow> os_state outcome" where
  "net_port_errno_set portid errcode s =
     obind (os_obj_find (net_port_pool s) portid s) (\<lambda>port.
     if port = 0 then Ret s
     else upd_port port (\<lambda>p. p\<lparr>np_port_errno := np_port_errno p OR errcode\<rparr>) s)"

definition net_port_errno_get :: "u32 \<Rightarrow> os_state \<Rightarrow> u32 outcome" where
  "net_port_errno_get portid s =
     obind (os_obj_find (net_port_pool s) portid s) (\<lambda>port.
     if port = 0 then Ret (- 1) else obind (load the_port port s) (\<lambda>p. Ret (np_port_errno p)))"

end
