(* ===== verification/Net_Proto.thy ===== *)
theory Net_Proto
  imports Net_Base
begin

text \<open>
  src/linux/proto.c: the UDP and the TCP protocol block. A C int result that is a descriptor or
  OKAY/ERROR is kept as an unsigned int, as the callers store it. The sending and receiving loops count
  in C int; the buffer of the caller is the list of its bytes.
\<close>

definition os_net_proto_select :: "u32 \<Rightarrow> net_protocol" where
  "os_net_proto_select ty =
     (if ty = NET_PORT_PROTO_UDP then UDP_PROTO else if ty = NET_PORT_PROTO_TCP then TCP_PROTO else NULL_PROTO)"

definition os_net_proto_identify :: "addr \<Rightarrow> os_state \<Rightarrow> u32 outcome" where
  "os_net_proto_identify port s =
     (if port = 0 then Ret ERROR
      else obind (load the_port port s) (\<lambda>p.
      case np_proto p of NULL_PROTO \<Rightarrow> Ret ERROR
      | UDP_PROTO \<Rightarrow> Ret NET_PORT_PROTO_UDP
      | TCP_PROTO \<Rightarrow> Ret NET_PORT_PROTO_TCP))"

definition net_port_proto_iscommunicatable :: "addr \<Rightarrow> os_state \<Rightarrow> u32 outcome" where
  "net_port_proto_iscommunicatable port s =
     (if port = 0 then Ret ERROR
      else obind (load the_port port s) (\<lambda>p.
      if np_type p = NET_PORT_TYPE_CLIENT
      then Ret (if np_status p AND NET_PORT_STATUS_CONN \<noteq> 0 then OKAY else ERROR)
      else if np_type p = NET_PORT_TYPE_SERVER
      then Ret (if np_status p AND NET_PORT_STATUS_BIND \<noteq> 0 then OKAY else ERROR)
      else Ret ERROR))"

section \<open>Opening\<close>

definition net_socket_call :: "net_env \<Rightarrow> u32 \<Rightarrow> addr \<Rightarrow> u32 os" where
  "net_socket_call N ty port s =
     (if port = 0 then Ret (ERROR, s)
      else obind (load the_port port s) (\<lambda>p.
      if np_status p AND NET_PORT_STATUS_SOCKET \<noteq> 0 then Ret (ERROR, s)
      else let fd = ne_socket N (calls s) ty; s = tick s in
      if fd < 0 then Ret (ERROR, s)
      else let r = ne_setsockopt N (calls s) (word_of_int fd) SO_RCVBUF (np_payload_size p); s = tick s in
      if r < 0 then Ret (ERROR, s)
      else let r = ne_setsockopt N (calls s) (word_of_int fd) SO_SNDBUF (np_payload_size p); s = tick s in
      if r < 0 then Ret (ERROR, s)
      else obind (upd_port port (\<lambda>p. p\<lparr>np_status := np_status p OR NET_PORT_STATUS_SOCKET\<rparr>) s) (\<lambda>s.
        Ret (word_of_int fd, s))))"

definition net_udp_socket :: "net_env \<Rightarrow> addr \<Rightarrow> u32 os" where
  "net_udp_socket N = net_socket_call N SOCK_DGRAM"

definition net_tcp_socket :: "net_env \<Rightarrow> addr \<Rightarrow> u32 os" where
  "net_tcp_socket N = net_socket_call N SOCK_STREAM"

definition net_udp_connect :: "net_env \<Rightarrow> addr \<Rightarrow> addr_ref \<Rightarrow> u32 os" where
  "net_udp_connect N port addr s =
     (if port = 0 then Ret (ERROR, s)
      else obind (load the_port port s) (\<lambda>p.
      if np_status p AND NET_PORT_STATUS_CONN \<noteq> 0 then Ret (ERROR, s)
      else if sint (np_fd p) \<le> 0 then Ret (ERROR, s)
      else if addr = NullAddr then Ret (ERROR, s)
      else let res = ne_connect N (calls s) (np_fd p) ((ai_addr (addr_get addr p))\<lparr>sin_family := AF_INET\<rparr>);
               s = tick s in
      if res < 0 then Ret (ERROR, s)
      else obind (upd_port port (\<lambda>p. p\<lparr>np_status := np_status p OR NET_PORT_STATUS_CONN\<rparr>) s) (\<lambda>s. Ret (OKAY, s))))"

definition net_tcp_connect :: "net_env \<Rightarrow> addr \<Rightarrow> addr_ref \<Rightarrow> u32 os" where
  "net_tcp_connect N port addr s =
     (if port = 0 then Ret (ERROR, s)
      else obind (load the_port port s) (\<lambda>p.
      if np_status p AND NET_PORT_STATUS_CONN \<noteq> 0 then Ret (ERROR, s)
      else if addr = NullAddr then Ret (ERROR, s)
      else if sint (np_fd p) \<le> 0 then Ret (ERROR, s)
      else let res = ne_connect N (calls s) (np_fd p) (ai_addr (addr_get addr p)); s = tick s in
      if res < 0 then obind (net_port_errno_set (np_id p) E_NET_CANNOTCONN s) (\<lambda>s. Ret (ERROR, s))
      else obind (upd_port port (\<lambda>p. p\<lparr>np_status := np_status p OR NET_PORT_STATUS_CONN\<rparr>) s) (\<lambda>s.
           obind (net_port_errno_set (np_id p) E_NOERROR s) (\<lambda>s. Ret (OKAY, s)))))"

text \<open>Both protocols bind alike, but for the order of two checks with the same result.\<close>

definition net_bind_call :: "net_env \<Rightarrow> addr \<Rightarrow> addr_ref \<Rightarrow> u32 os" where
  "net_bind_call N port addr s =
     (if port = 0 then Ret (ERROR, s)
      else obind (load the_port port s) (\<lambda>p.
      if np_status p AND NET_PORT_STATUS_BIND \<noteq> 0 then Ret (ERROR, s)
      else if sint (np_fd p) \<le> 0 then Ret (ERROR, s)
      else if addr = NullAddr then Ret (ERROR, s)
      else let r = ne_setsockopt N (calls s) (np_fd p) SO_REUSEADDR 1; s = tick s in
      if r < 0 then Ret (ERROR, s)
      else let res = ne_bind N (calls s) (np_fd p) (ai_addr (addr_get addr p)); s = tick s in
      if res < 0 then Ret (ERROR, s)
      else obind (upd_port port (\<lambda>p. p\<lparr>np_status := np_status p OR NET_PORT_STATUS_BIND\<rparr>) s) (\<lambda>s. Ret (OKAY, s))))"

definition net_udp_bind :: "net_env \<Rightarrow> addr \<Rightarrow> addr_ref \<Rightarrow> u32 os" where
  "net_udp_bind = net_bind_call"

definition net_tcp_bind :: "net_env \<Rightarrow> addr \<Rightarrow> addr_ref \<Rightarrow> u32 os" where
  "net_tcp_bind = net_bind_call"

definition net_udp_listen :: "addr \<Rightarrow> u32 os" where
  "net_udp_listen port s = Ret (OKAY, s)"

definition net_tcp_listen :: "net_env \<Rightarrow> addr \<Rightarrow> u32 os" where
  "net_tcp_listen N port s =
     (if port = 0 then Ret (ERROR, s)
      else obind (load the_port port s) (\<lambda>p.
      if sint (np_fd p) \<le> 0 then Ret (ERROR, s)
      else let res = ne_listen N (calls s) (np_fd p); s = tick s in
      if res < 0 then Ret (ERROR, s) else Ret (OKAY, s)))"

definition net_udp_accept :: "addr \<Rightarrow> addr_ref \<Rightarrow> (u32 \<times> addr_ref) os" where
  "net_udp_accept port addr s = Ret ((ERROR, addr), s)"

text \<open>Storing what the kernel returned into the address block.\<close>

fun addr_put :: "addr \<Rightarrow> addr_ref \<Rightarrow> sockaddr_in \<Rightarrow> u32 \<Rightarrow> os_state \<Rightarrow> (addr_ref \<times> os_state) outcome" where
  "addr_put port (CallerAddr a) sa sz s = Ret (CallerAddr (a\<lparr>ai_addr := sa, ai_addrsize := sz\<rparr>), s)"
| "addr_put port r sa sz s =
     obind (upd_port port (\<lambda>p. p\<lparr>np_addr := (np_addr p)\<lparr>ai_addr := sa, ai_addrsize := sz\<rparr>\<rparr>) s) (\<lambda>s. Ret (r, s))"

definition net_tcp_accept :: "net_env \<Rightarrow> addr \<Rightarrow> addr_ref \<Rightarrow> (u32 \<times> addr_ref) os" where
  "net_tcp_accept N port addr s =
     (if port = 0 then Ret ((ERROR, addr), s)
      else obind (load the_port port s) (\<lambda>p.
      if np_status p AND NET_PORT_STATUS_SOCKET = 0 then Ret ((ERROR, addr), s)
      else if addr = NullAddr then Ret ((ERROR, addr), s)
      else if sint (np_fd p) \<le> 0 then Ret ((ERROR, addr), s)
      else obind (addr_put port addr (ai_addr (addr_get addr p)) 16 s) (\<lambda>(addr, s).
        let (res, sa, sz) = ne_accept N (calls s) (np_fd p); s = tick s in
        if res < 0 then Ret ((ERROR, addr), s)
        else obind (addr_put port addr sa sz s) (\<lambda>(addr, s). Ret ((word_of_int res, addr), s)))))"

section \<open>Sending\<close>

text \<open>
  The variables of a sending loop: the result once it is decided, the count, the two retry counters.
  The bytes the kernel accepts are appended to what it has of the descriptor.
\<close>

type_synonym send_vars = "u32 option \<times> int \<times> nat \<times> nat \<times> os_state"

definition accept_out :: "u32 \<Rightarrow> u8 list \<Rightarrow> os_state \<Rightarrow> os_state" where
  "accept_out fd bs s = s\<lparr>net_out := (net_out s)(fd := net_out s fd @ bs)\<rparr>"

abbreviation chunk :: "u8 list \<Rightarrow> int \<Rightarrow> int \<Rightarrow> u8 list" where
  "chunk blk count want \<equiv> take (nat (want - count)) (drop (nat count) blk)"

definition udp_send_body ::
    "net_env \<Rightarrow> thr_env \<Rightarrow> net_port_st \<Rightarrow> sockaddr_in \<Rightarrow> u8 list \<Rightarrow> int \<Rightarrow> send_vars \<Rightarrow> send_vars outcome" where
  "udp_send_body N T p sa blk want = (\<lambda>(res, count, rt, rx, s).
     if np_type p \<noteq> NET_PORT_TYPE_CLIENT \<and> np_type p \<noteq> NET_PORT_TYPE_SERVER
     then Ret (Some ERROR, count, rt, rx, s)
     else let (amount, err) = ne_send N (calls s) (np_fd p) (chunk blk count want)
                (if np_type p = NET_PORT_TYPE_CLIENT then None else Some sa); s = tick s in
     if amount < 0
     then obind (net_port_errno_set (np_id p) E_NET_PORT_TX s) (\<lambda>s. Ret (Some ERROR, count, rt, rx, s))
     else if amount = 0
     then obind (os_thread_sleep T s) (\<lambda>s.
       if Suc rt = NET_PORT_MAX_RETRY_COUNTER
       then obind (net_port_errno_set (np_id p) E_NET_PORT_TX s) (\<lambda>s. Ret (Some ERROR, count, Suc rt, rx, s))
       else Ret (None, count, Suc rt, rx, s))
     else Ret (None, count + amount, 0, rx,
               accept_out (np_fd p) (take (nat amount) (chunk blk count want)) s))"

definition net_udp_send :: "net_env \<Rightarrow> thr_env \<Rightarrow> addr \<Rightarrow> u8 list \<Rightarrow> u32 \<Rightarrow> addr_ref \<Rightarrow> u32 os" where
  "net_udp_send N T port blk sz addr s =
     (if port = 0 then Ret (ERROR, s)
      else obind (net_port_proto_iscommunicatable port s) (\<lambda>ok.
      obind (load the_port port s) (\<lambda>p.
      if ok = ERROR then obind (net_port_errno_set (np_id p) E_NET_PORT_UNESTAB s) (\<lambda>s. Ret (ERROR, s))
      else if addr = NullAddr then Ret (ERROR, s)
      else if int (length blk) < sint sz then Fault OutOfBounds
      else obind (while_o (\<lambda>(res, count, rt, rx, s). res = None \<and> count < sint sz)
             (udp_send_body N T p (ai_addr (addr_get addr p)) blk (sint sz)) (None, 0, 0, 0, s))
             (\<lambda>(res, count, rt, rx, s). Ret (case res of None \<Rightarrow> OKAY | Some r \<Rightarrow> r, s)))))"

definition tcp_send_body ::
    "net_env \<Rightarrow> thr_env \<Rightarrow> net_port_st \<Rightarrow> u8 list \<Rightarrow> int \<Rightarrow> send_vars \<Rightarrow> send_vars outcome" where
  "tcp_send_body N T p blk want = (\<lambda>(res, count, rt, rx, s).
     let (amount, err) = ne_send N (calls s) (np_fd p) (chunk blk count want) None; s = tick s in
     if amount < 0
     then if err \<noteq> EAGAIN \<and> err \<noteq> EINTR then Ret (Some ERROR, count, rt, rx, s)
       else if Suc rx = NET_PORT_MAX_RETRY_COUNTER_EX then Ret (Some ERROR, count, rt, Suc rx, s)
       else obind (os_thread_sleep T s) (\<lambda>s. Ret (None, count, rt, Suc rx, s))
     else if amount = 0
     then obind (os_thread_sleep T s) (\<lambda>s.
       if Suc rt = NET_PORT_MAX_RETRY_COUNTER
       then obind (net_port_errno_set (np_id p) E_NET_PORT_TX s) (\<lambda>s. Ret (Some ERROR, count, Suc rt, rx, s))
       else Ret (None, count, Suc rt, rx, s))
     else Ret (None, count + amount, 0, rx,
               accept_out (np_fd p) (take (nat amount) (chunk blk count want)) s))"

definition net_tcp_send :: "net_env \<Rightarrow> thr_env \<Rightarrow> addr \<Rightarrow> u8 list \<Rightarrow> u32 \<Rightarrow> addr_ref \<Rightarrow> u32 os" where
  "net_tcp_send N T port blk sz addr s =
     (if port = 0 then Ret (ERROR, s)
      else obind (net_port_proto_iscommunicatable port s) (\<lambda>ok.
      obind (load the_port port s) (\<lambda>p.
      if ok = ERROR then obind (net_port_errno_set (np_id p) E_NET_PORT_UNESTAB s) (\<lambda>s. Ret (ERROR, s))
      else if int (length blk) < sint sz then Fault OutOfBounds
      else obind (while_o (\<lambda>(res, count, rt, rx, s). res = None \<and> count < sint sz)
             (tcp_send_body N T p blk (sint sz)) (None, 0, 0, 0, s))
             (\<lambda>(res, count, rt, rx, s). Ret (case res of None \<Rightarrow> OKAY | Some r \<Rightarrow> r, s)))))"

section \<open>Receiving\<close>

text \<open>
  The receiving loops are alike in both protocols; recvfrom also tells the sender of the last datagram.
  The received bytes are returned beside the result.
\<close>

type_synonym recv_vars = "u32 option \<times> int \<times> nat \<times> u8 list \<times> sockaddr_in \<times> u32 \<times> os_state"

definition recv_body ::
    "net_env \<Rightarrow> thr_env \<Rightarrow> net_port_st \<Rightarrow> int \<Rightarrow> recv_vars \<Rightarrow> recv_vars outcome" where
  "recv_body N T p want = (\<lambda>(res, count, rt, out, sa, asz, s).
     let (amount, bytes, sa', asz') = ne_recv N (calls s) (np_fd p) (nat (want - count)); s = tick s in
     if amount < 0
     then obind (net_port_errno_set (np_id p) E_NET_PORT_RX s) (\<lambda>s. Ret (Some ERROR, count, rt, out, sa, asz, s))
     else if amount = 0
     then obind (os_thread_sleep T s) (\<lambda>s.
       if Suc rt = NET_PORT_MAX_RETRY_COUNTER
       then obind (net_port_errno_set (np_id p) E_NET_PORT_RX s) (\<lambda>s. Ret (Some ERROR, count, Suc rt, out, sa', asz', s))
       else Ret (None, count, Suc rt, out, sa', asz', s))
     else Ret (None, count + amount, 0, out @ bytes, sa', asz', s))"

definition recv_loop ::
    "net_env \<Rightarrow> thr_env \<Rightarrow> net_port_st \<Rightarrow> int \<Rightarrow> sockaddr_in \<Rightarrow> os_state \<Rightarrow> recv_vars outcome" where
  "recv_loop N T p want sa s =
     while_o (\<lambda>(res, count, rt, out, sa, asz, s). res = None \<and> count < want) (recv_body N T p want)
       (None, 0, 0, [], sa, 16, s)"

definition net_udp_recv :: "net_env \<Rightarrow> thr_env \<Rightarrow> addr \<Rightarrow> u32 \<Rightarrow> addr_ref \<Rightarrow> (u32 \<times> u8 list \<times> addr_ref) os" where
  "net_udp_recv N T port sz addr s =
     (if port = 0 then Ret ((ERROR, [], addr), s)
      else obind (net_port_proto_iscommunicatable port s) (\<lambda>ok.
      obind (load the_port port s) (\<lambda>p.
      if ok = ERROR then obind (net_port_errno_set (np_id p) E_NET_PORT_UNESTAB s) (\<lambda>s. Ret ((ERROR, [], addr), s))
      else if addr = NullAddr then Ret ((ERROR, [], addr), s)
      else obind (recv_loop N T p (sint sz) (ai_addr (addr_get addr p)) s) (\<lambda>(res, count, rt, out, sa, asz, s).
        if res \<noteq> None then Ret ((ERROR, out, addr), s)
        else obind (addr_put port addr sa asz s) (\<lambda>(addr, s). Ret ((OKAY, out, addr), s))))))"

definition net_tcp_recv :: "net_env \<Rightarrow> thr_env \<Rightarrow> addr \<Rightarrow> u32 \<Rightarrow> addr_ref \<Rightarrow> (u32 \<times> u8 list \<times> addr_ref) os" where
  "net_tcp_recv N T port sz addr s =
     (if port = 0 then Ret ((ERROR, [], addr), s)
      else obind (net_port_proto_iscommunicatable port s) (\<lambda>ok.
      obind (load the_port port s) (\<lambda>p.
      if ok = ERROR then obind (net_port_errno_set (np_id p) E_NET_PORT_UNESTAB s) (\<lambda>s. Ret ((ERROR, [], addr), s))
      else obind (recv_loop N T p (sint sz) (ai_addr (np_addr p)) s) (\<lambda>(res, count, rt, out, sa, asz, s).
        Ret ((case res of None \<Rightarrow> OKAY | Some r \<Rightarrow> r, out, addr), s)))))"

section \<open>Closing and control\<close>

definition net_close_call :: "addr \<Rightarrow> u32 os" where
  "net_close_call port s =
     (if port = 0 then Ret (ERROR, s)
      else obind (load the_port port s) (\<lambda>p.
      if np_status p = 0 then Ret (ERROR, s)
      else obind (upd_port port (\<lambda>p. p\<lparr>np_status := 0\<rparr>) (tick s)) (\<lambda>s. Ret (OKAY, s))))"

definition net_udp_close :: "addr \<Rightarrow> u32 os" where
  "net_udp_close = net_close_call"

definition net_tcp_close :: "addr \<Rightarrow> u32 os" where
  "net_tcp_close = net_close_call"

definition NET_PORT_ENABLE_ACTION :: u32 where "NET_PORT_ENABLE_ACTION = 1"
definition NET_PORT_DISABLE_ACTION :: u32 where "NET_PORT_DISABLE_ACTION = 2"
definition NET_PORT_ENABLE_NONBLOCK :: u32 where "NET_PORT_ENABLE_NONBLOCK = 3"
definition NET_PORT_DISABLE_NONBLOCK :: u32 where "NET_PORT_DISABLE_NONBLOCK = 4"
definition NET_PORT_ENABLE_KEEPALIVE :: u32 where "NET_PORT_ENABLE_KEEPALIVE = 5"
definition NET_PORT_DISABLE_KEEPALIVE :: u32 where "NET_PORT_DISABLE_KEEPALIVE = 6"
definition NET_PORT_GET_ADDR_INFO :: u32 where "NET_PORT_GET_ADDR_INFO = 7"
definition NET_PORT_SET_ADDR_INFO :: u32 where "NET_PORT_SET_ADDR_INFO = 8"
definition NET_PORT_GET_SOCK_ADDR_INFO :: u32 where "NET_PORT_GET_SOCK_ADDR_INFO = 9"
definition NET_PORT_GET_PAYLOAD_SIZE :: u32 where "NET_PORT_GET_PAYLOAD_SIZE = 10"
definition NET_PORT_SET_PAYLOAD_SIZE :: u32 where "NET_PORT_SET_PAYLOAD_SIZE = 11"
definition NET_PORT_GET_DELAY_TIME :: u32 where "NET_PORT_GET_DELAY_TIME = 12"
definition NET_PORT_SET_DELAY_TIME :: u32 where "NET_PORT_SET_DELAY_TIME = 13"
definition NET_PORT_SO_LINGER :: u32 where "NET_PORT_SO_LINGER = 14"

text \<open>
  The argument of an option call is NULL, an address block or a number; address blocks are returned
  filled in.
\<close>

datatype ioctl_arg = NoArg | AddrArg net_addrinfo_t | NumArg u32

text \<open>src/linux/os_specific.c: switching a descriptor between blocking and non-blocking mode.\<close>

definition os_net_block_mode_set :: "net_env \<Rightarrow> u32 \<Rightarrow> u32 \<Rightarrow> u32 os" where
  "os_net_block_mode_set N fd mode s =
     (let fl = ne_getfl N (calls s) fd; s = tick s in
      if fl < 0 then Ret (ERROR, s)
      else let r = ne_setfl N (calls s) fd (if mode = 1 then fl OR O_NONBLOCK else fl AND NOT O_NONBLOCK); s = tick s in
      if r < 0 then Ret (ERROR, s) else Ret (OKAY, s))"

definition keepalive_call :: "net_env \<Rightarrow> u32 \<Rightarrow> addr \<Rightarrow> u32 os" where
  "keepalive_call N v port s =
     obind (load the_port port s) (\<lambda>p.
     let r = ne_setsockopt N (calls s) (np_fd p) SO_KEEPALIVE v; s = tick s in
     Ret (if r < 0 then ERROR else OKAY, s))"

definition net_proto_ioctl :: "net_env \<Rightarrow> addr \<Rightarrow> u32 \<Rightarrow> ioctl_arg \<Rightarrow> (u32 \<times> ioctl_arg) os" where
  "net_proto_ioctl N port command arg s =
     (if port = 0 then Ret ((ERROR, arg), s)
      else obind (load the_port port s) (\<lambda>p.
      let num = (\<lambda>m. obind m (\<lambda>(r, s). Ret ((r, arg), s))) in
      if command = NET_PORT_GET_ADDR_INFO
      then (if arg = NoArg then Fault NullDeref else Ret ((OKAY, AddrArg (np_addr p)), s))
      else if command = NET_PORT_SET_ADDR_INFO
      then (case arg of AddrArg a \<Rightarrow> obind (upd_port port (\<lambda>p. p\<lparr>np_addr := a\<rparr>) s) (\<lambda>s. Ret ((OKAY, arg), s))
            | _ \<Rightarrow> Fault NullDeref)
      else if command = NET_PORT_GET_SOCK_ADDR_INFO
      then (case arg of AddrArg a \<Rightarrow> let (sa, sz) = ne_getsockname N (calls s) (np_fd p) in
              Ret ((OKAY, AddrArg (a\<lparr>ai_addr := sa, ai_addrsize := sz\<rparr>)), tick s)
            | _ \<Rightarrow> Fault NullDeref)
      else if command = NET_PORT_ENABLE_NONBLOCK
      then obind (upd_port port (\<lambda>p. p\<lparr>np_block_mode := 1\<rparr>) s) (\<lambda>s.
           num (os_net_block_mode_set N (np_fd p) 1 s))
      else if command = NET_PORT_DISABLE_NONBLOCK
      then obind (upd_port port (\<lambda>p. p\<lparr>np_block_mode := 0\<rparr>) s) (\<lambda>s.
           num (os_net_block_mode_set N (np_fd p) 0 s))
      else if command = NET_PORT_ENABLE_KEEPALIVE then num (keepalive_call N 1 port s)
      else if command = NET_PORT_DISABLE_KEEPALIVE then num (keepalive_call N 0 port s)
      else if command = NET_PORT_SO_LINGER
      then let r = ne_setsockopt N (calls s) (np_fd p) SO_LINGER 1 in
           Ret ((if r \<noteq> 0 then ERROR else OKAY, arg), tick s)
      else Ret ((ERROR, arg), s)))"

definition os_net_proto_init :: "os_state \<Rightarrow> os_state" where
  "os_net_proto_init s = tick (s\<lparr>net_proto_ready := True\<rparr>)"

section \<open>The protocol blocks\<close>

text \<open>
  A call through the protocol block of a port. Before \<open>os_net_proto_init\<close> the function pointers of the
  static blocks are NULL.
\<close>

definition via_proto :: "net_protocol \<Rightarrow> 'a os \<Rightarrow> 'a os \<Rightarrow> 'a os" where
  "via_proto pr udp tcp s =
     (if \<not> net_proto_ready s then Fault NullDeref
      else case pr of NULL_PROTO \<Rightarrow> Fault NullDeref | UDP_PROTO \<Rightarrow> udp s | TCP_PROTO \<Rightarrow> tcp s)"

end
