(* ===== verification/Net_Calls.thy ===== *)
theory Net_Calls
  imports Net_Proto
begin

text \<open>
  src/net.c, the access functions to the protocol of a port: every \<open>net_port_proto_*\<close> function finds
  the port and its protocol block and goes through the block.
\<close>

text \<open>Finding the port and its protocol, with the two error exits.\<close>

definition with_proto :: "u32 \<Rightarrow> 'a \<Rightarrow> (addr \<Rightarrow> net_port_st \<Rightarrow> 'a os) \<Rightarrow> 'a os" where
  "with_proto portid err f s =
     obind (os_obj_find (net_port_pool s) portid s) (\<lambda>port.
     if port = 0 then Ret (err, s)
     else obind (load the_port port s) (\<lambda>p.
     if np_proto p = NULL_PROTO then Ret (err, s) else f port p s))"

definition addr_base :: "addr_ref \<Rightarrow> addr_ref" where
  "addr_base addr = (if addr = NullAddr then PortAddr else addr)"

definition net_port_proto_socket :: "net_env \<Rightarrow> u32 \<Rightarrow> u32 os" where
  "net_port_proto_socket N portid =
     with_proto portid ERROR (\<lambda>port p s.
     obind (via_proto (np_proto p) (net_udp_socket N port) (net_tcp_socket N port) s) (\<lambda>(fd, s).
     obind (upd_port port (\<lambda>p. p\<lparr>np_fd := fd\<rparr>) s) (\<lambda>s.
     if fd = ERROR then Ret (ERROR, s)
     else obind (upd_port port (\<lambda>p. p\<lparr>np_sig := 0\<rparr>) s) (\<lambda>s. Ret (OKAY, s)))))"

definition net_port_proto_close :: "u32 \<Rightarrow> u32 os" where
  "net_port_proto_close portid =
     with_proto portid ERROR (\<lambda>port p. via_proto (np_proto p) (net_udp_close port) (net_tcp_close port))"

definition net_port_proto_connect :: "net_env \<Rightarrow> u32 \<Rightarrow> addr_ref \<Rightarrow> u32 os" where
  "net_port_proto_connect N portid addr =
     with_proto portid ERROR (\<lambda>port p. via_proto (np_proto p)
       (net_udp_connect N port (addr_base addr)) (net_tcp_connect N port (addr_base addr)))"

definition net_port_proto_bind :: "net_env \<Rightarrow> u32 \<Rightarrow> addr_ref \<Rightarrow> u32 os" where
  "net_port_proto_bind N portid addr =
     with_proto portid ERROR (\<lambda>port p. via_proto (np_proto p)
       (net_udp_bind N port (addr_base addr)) (net_tcp_bind N port (addr_base addr)))"

definition net_port_proto_listen :: "net_env \<Rightarrow> u32 \<Rightarrow> u32 os" where
  "net_port_proto_listen N portid =
     with_proto portid ERROR (\<lambda>port p. via_proto (np_proto p) (net_udp_listen port) (net_tcp_listen N port))"

definition net_port_proto_accept :: "net_env \<Rightarrow> u32 \<Rightarrow> addr_ref \<Rightarrow> (u32 \<times> addr_ref) os" where
  "net_port_proto_accept N portid addr =
     with_proto portid (ERROR, addr) (\<lambda>port p. via_proto (np_proto p)
       (net_udp_accept port (addr_base addr)) (net_tcp_accept N port (addr_base addr)))"

text \<open>\<open>buff\<close> tells whether the buffer pointer is not NULL; the received bytes are returned.\<close>

definition net_port_proto_recv :: "net_env \<Rightarrow> thr_env \<Rightarrow> u32 \<Rightarrow> bool \<Rightarrow> u32 \<Rightarrow> addr_ref \<Rightarrow> (u32 \<times> u8 list \<times> addr_ref) os" where
  "net_port_proto_recv N T portid buff sz addr s =
     (if \<not> buff then Ret ((ERROR, [], addr), s)
      else with_proto portid (ERROR, [], addr) (\<lambda>port p s.
      obind (via_proto (np_proto p) (net_udp_recv N T port sz (addr_base addr)) (net_tcp_recv N T port sz (addr_base addr)) s)
        (\<lambda>((res, out, addr'), s). Ret ((if res \<noteq> OKAY then ERROR else OKAY, out, addr'), s))) s)"

definition net_port_proto_send :: "net_env \<Rightarrow> thr_env \<Rightarrow> u32 \<Rightarrow> u8 list option \<Rightarrow> u32 \<Rightarrow> addr_ref \<Rightarrow> u32 os" where
  "net_port_proto_send N T portid buff sz addr s =
     (case buff of None \<Rightarrow> Ret (ERROR, s)
      | Some blk \<Rightarrow> with_proto portid ERROR (\<lambda>port p s.
      obind (via_proto (np_proto p) (net_udp_send N T port blk sz (addr_base addr)) (net_tcp_send N T port blk sz (addr_base addr)) s)
        (\<lambda>(res, s). Ret (if res \<noteq> OKAY then ERROR else OKAY, s))) s)"

definition net_port_proto_isconnected :: "u32 \<Rightarrow> os_state \<Rightarrow> u32 outcome" where
  "net_port_proto_isconnected portid s =
     obind (os_obj_find (net_port_pool s) portid s) (\<lambda>port.
     if port = 0 then Ret ERROR else net_port_proto_iscommunicatable port s)"

definition net_port_proto_isblockmode :: "u32 \<Rightarrow> os_state \<Rightarrow> u32 outcome" where
  "net_port_proto_isblockmode portid s =
     obind (os_obj_find (net_port_pool s) portid s) (\<lambda>port.
     if port = 0 then Ret ERROR
     else obind (load the_port port s) (\<lambda>p. Ret (if np_block_mode p = 0 then 1 else 0)))"

text \<open>\<open>UPDATE_STATUS_FLAG_MACRO\<close>.\<close>

definition status_flag :: "u32 \<Rightarrow> u8 \<Rightarrow> net_port_st \<Rightarrow> net_port_st" where
  "status_flag v flg p = p\<lparr>np_status := if v = 0 then np_status p AND NOT flg else np_status p OR flg\<rparr>"

definition net_port_change :: "u32 \<Rightarrow> u32 \<Rightarrow> u32 \<Rightarrow> u32 os" where
  "net_port_change portid flag val s =
     obind (os_obj_find (net_port_pool s) portid s) (\<lambda>port.
     if port = 0 then Ret (ERROR, s)
     else if flag = NET_PORT_FD_SET
     then obind (upd_port port (\<lambda>p. p\<lparr>np_fd := val\<rparr>) s) (\<lambda>s. Ret (OKAY, s))
     else if flag = NET_PORT_AVAIL_SET
     then obind (upd_port port (status_flag val NET_PORT_STATUS_ACTIVE) s) (\<lambda>s.
          obind (load the_port port s) (\<lambda>p.
          if np_type p = NET_PORT_TYPE_CLIENT
          then obind (upd_port port (status_flag val NET_PORT_STATUS_CONN) s) (\<lambda>s. Ret (OKAY, s))
          else if np_type p = NET_PORT_TYPE_SERVER
          then obind (upd_port port (status_flag val NET_PORT_STATUS_BIND) s) (\<lambda>s. Ret (OKAY, s))
          else Ret (ERROR, s)))
     else if flag = NET_PORT_BUFF_SET then Ret (OKAY, s)
     else Ret (ERROR, s))"

text \<open>\<open>net_port_option_configure\<close>: the answers of the ioctl that are ignored, and those that are returned.\<close>

definition net_port_option_configure :: "net_env \<Rightarrow> u32 \<Rightarrow> u32 \<Rightarrow> ioctl_arg \<Rightarrow> (u32 \<times> ioctl_arg) os" where
  "net_port_option_configure N portid command arg =
     with_proto portid (ERROR, arg) (\<lambda>port p s.
     let ioctl = (\<lambda>a s. via_proto (np_proto p) (net_proto_ioctl N port command a) (net_proto_ioctl N port command a) s);
         quiet = (\<lambda>s. obind (ioctl NoArg s) (\<lambda>(r, s). Ret ((OKAY, arg), s)));
         clear = (\<lambda>fl. upd_port port (\<lambda>p. p\<lparr>np_option := np_option p AND NOT fl\<rparr>));
         raise = (\<lambda>fl. upd_port port (\<lambda>p. p\<lparr>np_option := np_option p OR fl\<rparr>));
         done = (\<lambda>s. Ret ((OKAY, arg), s)) in
     if command = NET_PORT_ENABLE_ACTION then obind (clear NET_PORT_DISABLE s) done
     else if command = NET_PORT_DISABLE_ACTION then obind (raise NET_PORT_DISABLE s) done
     else if command = NET_PORT_ENABLE_NONBLOCK then obind (clear NET_PORT_NONBLOCK_DISABLE s) quiet
     else if command = NET_PORT_DISABLE_NONBLOCK then obind (raise NET_PORT_NONBLOCK_DISABLE s) quiet
     else if command = NET_PORT_ENABLE_KEEPALIVE then obind (clear NET_PORT_KEEPALIVE_DISABLE s) quiet
     else if command = NET_PORT_DISABLE_KEEPALIVE then obind (raise NET_PORT_KEEPALIVE_DISABLE s) quiet
     else if command = NET_PORT_GET_ADDR_INFO then ioctl arg s
     else if command = NET_PORT_SET_ADDR_INFO then ioctl arg s
     else if command = NET_PORT_SO_LINGER then quiet s
     else if command = NET_PORT_SET_PAYLOAD_SIZE
     then (case arg of NumArg n \<Rightarrow>
             obind (upd_port port (\<lambda>p. p\<lparr>np_payload_size := n\<rparr>) s) (\<lambda>s. Ret ((n, arg), s))
           | _ \<Rightarrow> Ret ((np_payload_size p, arg), s))
     else if command = NET_PORT_GET_PAYLOAD_SIZE then Ret ((np_payload_size p, arg), s)
     else if command = NET_PORT_SET_DELAY_TIME
     then (case arg of NumArg n \<Rightarrow>
             obind (upd_port port (\<lambda>p. p\<lparr>np_catchup_delay := n\<rparr>) s) (\<lambda>s. Ret ((n, arg), s))
           | _ \<Rightarrow> Ret ((np_catchup_delay p, arg), s))
     else if command = NET_PORT_GET_DELAY_TIME then Ret ((np_catchup_delay p, arg), s)
     else if command = NET_PORT_GET_SOCK_ADDR_INFO then ioctl arg s
     else done s)"

end
