(* ===== verification/Net_Channel.thy ===== *)
theory Net_Channel
  imports Net_Calls
begin

text \<open>
  src/net.c, channels and packets: receiving a packet from a port, delivering it to the message queue of
  its channel, and the operations on channels and packets users call. A packet or a channel is a block of
  a buffer class; the bytes of a payload are an object of their own.
\<close>

definition upd_packet :: "addr \<Rightarrow> (net_packet \<Rightarrow> net_packet) \<Rightarrow> os_state \<Rightarrow> os_state outcome" where
  "upd_packet p f s = obind (load the_packet p s) (\<lambda>k. Ret (hput p (PacketObj (f k)) s))"

definition upd_chan :: "addr \<Rightarrow> (net_channel_st \<Rightarrow> net_channel_st) \<Rightarrow> os_state \<Rightarrow> os_state outcome" where
  "upd_chan p f s = obind (load the_chan p s) (\<lambda>c. Ret (hput p (ChanObj (f c)) s))"

section \<open>Receiving a packet\<close>

text \<open>Bytes written over a header, and over a block of a buffer class, whose size its guard words tell.\<close>

definition store_hdr :: "addr \<Rightarrow> u8 list \<Rightarrow> os_state \<Rightarrow> os_state outcome" where
  "store_hdr pkt out =
     upd_packet pkt (\<lambda>k. k\<lparr>pk_h := bytes_hdr (out @ drop (length out) (hdr_bytes (pk_h k)))\<rparr>)"

definition store_bytes :: "addr \<Rightarrow> u8 list \<Rightarrow> os_state \<Rightarrow> os_state outcome" where
  "store_bytes p out s =
     (if out = [] then Ret s
      else obind (load the_buff_hdr (p - BUFF_OFFSET_SIZE) s) (\<lambda>h.
      if unat (bb_size h) < length out then Fault OutOfBounds
      else Ret (hput p (BytesObj (out @ (case heap s p of Some (BytesObj old) \<Rightarrow> drop (length out) old | _ \<Rightarrow> []))) s)))"

definition host_order :: "net_packet_hdr \<Rightarrow> net_packet_hdr" where
  "host_order h = h\<lparr>hd_type := ntohl (hd_type h), hd_size := ntohl (hd_size h), hd_vsport := ntohs (hd_vsport h),
     hd_vdport := ntohs (hd_vdport h), hd_option := ntohl (hd_option h), hd_checksum := ntohl (hd_checksum h)\<rparr>"

text \<open>
  The end of \<open>net_port_packet_catchup\<close>: the header is checked and framed; a packet without the preamble
  is released, and the port keeps its pointer to it.
\<close>

definition packet_framing :: "net_env \<Rightarrow> net_port_st \<Rightarrow> addr \<Rightarrow> addr os" where
  "packet_framing N p pkt s =
     obind (load the_packet pkt s) (\<lambda>k.
     if take 7 (hd_preamble (pk_h k)) \<noteq> NET_PACKET_PREAMBLE
     then obind (buff_free_data NET_MEM_CLASS (pk_payload k) s) (\<lambda>(r, s).
          obind (buff_free_data NET_MEM_CLASS pkt s) (\<lambda>(r, s). Ret (0, s)))
     else obind (upd_packet pkt (\<lambda>k. k\<lparr>pk_h := host_order (pk_h k)\<rparr>) s) (\<lambda>s.
          obind (if np_pktfunc p \<noteq> 0 then ne_pktfunc N (np_pktfunc p) pkt s else Ret (0, s)) (\<lambda>(priv, s).
          obind (upd_packet pkt (\<lambda>k. k\<lparr>pk_priv := priv\<rparr>) s) (\<lambda>s. Ret (pkt, s)))))"

definition net_port_packet_catchup :: "net_env \<Rightarrow> thr_env \<Rightarrow> addr \<Rightarrow> addr os" where
  "net_port_packet_catchup N T pport s =
     obind (load the_port pport s) (\<lambda>p.
     if np_proto p = NULL_PROTO then Ret (0, s)
     else let pkt = np_interface_packet p in
     if pkt = 0 then Ret (0, s)
     else obind (load the_packet pkt s) (\<lambda>k.
     obind (net_port_proto_recv N T (np_id p) True NET_PACKET_HDR_SIZE NullAddr s) (\<lambda>((res, out, a), s).
     obind (store_hdr pkt out s) (\<lambda>s.
     if res = ERROR then Ret (0, s)
     else obind (load the_packet pkt s) (\<lambda>k.
     obind (load the_port pport s) (\<lambda>p.
     let payload_size = ntohl (hd_size (pk_h k)) in
     if np_payload_size p < payload_size then Ret (0, s)
     else obind (net_port_proto_recv N T (np_id p) (pk_payload k \<noteq> 0) payload_size NullAddr s) (\<lambda>((res, out, a), s).
     obind (store_bytes (pk_payload k) out s) (\<lambda>s.
     if res = ERROR then Ret (0, s)
     else packet_framing N p pkt s))))))))"

section \<open>Delivering a packet\<close>

definition net_channel_comparator :: "u32 \<Rightarrow> addr \<Rightarrow> os_state \<Rightarrow> u32 outcome" where
  "net_channel_comparator arg d s =
     (if d = 0 then Ret ERROR
      else obind (load the_data d s) (\<lambda>n.
      if ld_data n = 0 then Ret ERROR
      else obind (load the_chan (ld_data n) s) (\<lambda>c. Ret (if ch_cnum c = arg then OKAY else ERROR))))"

definition net_channel_find :: "addr \<Rightarrow> u32 \<Rightarrow> os_state \<Rightarrow> addr outcome" where
  "net_channel_find port chan s =
     obind (load the_port port s) (\<lambda>p.
     if np_chanlist p = 0 then Ret 0
     else obind (os_list_find (np_chanlist p) (net_channel_comparator chan) s) (\<lambda>d.
     if d = 0 then Ret 0 else obind (load the_data d s) (\<lambda>n. Ret (ld_data n))))"

text \<open>The message part of the delivery: allocated, filled in and sent; a refused message is not released.\<close>

definition deliver_message :: "os_env \<Rightarrow> u32 \<Rightarrow> addr \<Rightarrow> addr \<Rightarrow> u32 os" where
  "deliver_message E buffid pchan pkt s =
     obind (load the_chan pchan s) (\<lambda>c.
     let abort = (\<lambda>s. obind (load the_packet pkt s) (\<lambda>k.
           obind (buff_free_data buffid (pk_payload k) s) (\<lambda>(r, s).
           obind (buff_free_data buffid pkt s) (\<lambda>(r, s).
           obind (os_mutex_unlock (ch_lock c) s) (\<lambda>(r, s). Ret (ERROR, s)))))) in
     obind (buff_alloc_data E buffid (e_sizeof E T_OS_MESG) s) (\<lambda>(msg, s).
     if msg = 0 then abort s
     else obind (os_msgq_message msg NET_PACKET_MESSAGE pkt 0 s) (\<lambda>(res, s).
     if res = ERROR then abort s
     else obind (os_msgq_send E (ch_msgq c) msg s) (\<lambda>(res, s).
     if res = ERROR then abort s
     else obind (load the_packet pkt s) (\<lambda>k.
     obind (upd_chan pchan (\<lambda>c. c\<lparr>ch_packets := ch_packets c + 1, ch_total_bytes := ch_total_bytes c + hd_size (pk_h k)\<rparr>) s) (\<lambda>s.
     obind (os_mutex_unlock (ch_lock c) s) (\<lambda>(r, s). Ret (OKAY, s))))))))"

definition net_channel_packet_deliver :: "os_env \<Rightarrow> addr \<Rightarrow> addr \<Rightarrow> u32 os" where
  "net_channel_packet_deliver E pchan rpkt s =
     (if rpkt = 0 then Ret (ERROR, s)
      else if pchan = 0 then Ret (ERROR, s)
      else obind (load the_chan pchan s) (\<lambda>c.
      let buffid = ch_buff c in
      obind (os_mutex_lock (ch_lock c) 0 s) (\<lambda>(r, s).
      obind (buff_alloc_data E buffid (e_sizeof E T_net_packet) s) (\<lambda>(pkt, s).
      if pkt = 0 then obind (os_mutex_unlock (ch_lock c) s) (\<lambda>(r, s). Ret (ERROR, s))
      else obind (load the_packet rpkt s) (\<lambda>k.
      let sz = hd_size (pk_h k) in
      if 0 < sz
      then obind (buff_alloc_data E buffid sz s) (\<lambda>(payload, s).
           if payload = 0
           then obind (buff_free_data buffid pkt s) (\<lambda>(r, s).
                obind (os_mutex_unlock (ch_lock c) s) (\<lambda>(r, s). Ret (ERROR, s)))
           else obind (load the_bytes (pk_payload k) s) (\<lambda>bytes.
           if length bytes < unat sz then Fault OutOfBounds
           else deliver_message E buffid pchan pkt
                  (hput payload (BytesObj (take (unat sz) bytes)) (hput pkt (PacketObj (k\<lparr>pk_payload := payload\<rparr>)) s))))
      else deliver_message E buffid pchan pkt (hput pkt (PacketObj (k\<lparr>pk_payload := 0\<rparr>)) s))))))"

definition with_preamble :: "u8 list \<Rightarrow> u8 list" where
  "with_preamble old = NET_PACKET_PREAMBLE @ drop 7 old"

definition net_null_packet_push :: "os_env \<Rightarrow> net_env \<Rightarrow> addr \<Rightarrow> os_state \<Rightarrow> os_state outcome" where
  "net_null_packet_push E N d s =
     obind (load the_data d s) (\<lambda>n.
     let pchan = ld_data n in
     if pchan = 0 then Ret s
     else obind (load the_chan pchan s) (\<lambda>c.
     obind (buff_alloc_data E (ch_buff c) (e_sizeof E T_net_packet) s) (\<lambda>(pkt, s).
     if pkt = 0 then Ret s
     else let j = ne_junk_packet N (calls s);
              s = hput pkt (PacketObj (j\<lparr>pk_h := \<lparr>hd_preamble = with_preamble (hd_preamble (pk_h j)),
                    hd_type = htonl NET_PACKET_NULL_TYPE, hd_size = 0, hd_vsport = 0, hd_vdport = 0,
                    hd_option = 0, hd_checksum = 0\<rparr>, pk_payload := 0\<rparr>)) s in
     obind (net_channel_packet_deliver E pchan pkt s) (\<lambda>(res, s).
     obind (buff_free_data (ch_buff c) pkt s) (\<lambda>(r, s). Ret s)))))"

definition net_port_bcast_channel :: "os_env \<Rightarrow> net_env \<Rightarrow> addr \<Rightarrow> os_state \<Rightarrow> os_state outcome" where
  "net_port_bcast_channel E N port s =
     (if port = 0 then Ret s
      else obind (load the_port port s) (\<lambda>p.
        os_list_navigate (np_chanlist p) None (Some (net_null_packet_push E N)) s))"

section \<open>The packet handler\<close>

text \<open>\<open>while (pport->option & NET_PORT_DISABLE) os_thread_sleep(1000);\<close>\<close>

definition disabled_body :: "thr_env \<Rightarrow> addr \<Rightarrow> u32 \<times> os_state \<Rightarrow> (u32 \<times> os_state) outcome" where
  "disabled_body T pport = (\<lambda>(opt, s).
     obind (os_thread_sleep T s) (\<lambda>s. obind (load the_port pport s) (\<lambda>p. Ret (np_option p, s))))"

text \<open>One round of the handler; it goes on unless the port has an error.\<close>

definition packet_handler_body :: "os_env \<Rightarrow> net_env \<Rightarrow> thr_env \<Rightarrow> addr \<Rightarrow> bool \<times> os_state \<Rightarrow> (bool \<times> os_state) outcome" where
  "packet_handler_body E N T pport = (\<lambda>(go, s).
     let go_on = (\<lambda>s. Ret (True, s)); nap = (\<lambda>s. obind (os_thread_sleep T s) (\<lambda>s. Ret (True, s))) in
     obind (net_port_packet_catchup N T pport s) (\<lambda>(pkt, s).
     obind (load the_port pport s) (\<lambda>p.
     if pkt = 0
     then obind (net_port_errno_get (np_id p) s) (\<lambda>e. Ret (e = E_NOERROR, s))
     else obind (load the_packet pkt s) (\<lambda>k.
     if np_option p AND NET_PORT_DISABLE \<noteq> 0
     then obind (while_o (\<lambda>(opt, s). opt AND NET_PORT_DISABLE \<noteq> 0) (disabled_body T pport) (np_option p, s))
            (\<lambda>(opt, s). go_on s)
     else obind (net_channel_find pport (ucast (hd_vdport (pk_h k))) s) (\<lambda>pchan.
     if pchan = 0 then nap s
     else obind (net_channel_packet_deliver E pchan pkt s) (\<lambda>(res, s).
     if res = ERROR then nap s
     else obind (load the_port pport s) (\<lambda>p.
       if np_catchup_delay p \<noteq> 0 then nap s else go_on s)))))))"

definition net_port_packet_handler :: "os_env \<Rightarrow> net_env \<Rightarrow> thr_env \<Rightarrow> addr \<Rightarrow> u32 os" where
  "net_port_packet_handler E N T pport s =
     (if pport = 0 then Ret (ERROR, s)
      else obind (load the_port pport s) (\<lambda>p.
      obind (net_port_errno_set (np_id p) E_NOERROR s) (\<lambda>s.
      let loop = (\<lambda>s. obind (while_o fst (packet_handler_body E N T pport) (True, s)) (\<lambda>(go, s). Ret (ERROR, s))) in
      if np_interface_packet p \<noteq> 0 then loop s
      else obind (buff_alloc_data E NET_MEM_CLASS (e_sizeof E T_net_packet) s) (\<lambda>(pkt, s).
      obind (upd_port pport (\<lambda>p. p\<lparr>np_interface_packet := pkt\<rparr>) s) (\<lambda>s.
      if pkt = 0 then obind (buff_free_data NET_MEM_CLASS pport s) (\<lambda>(r, s). Ret (ERROR, s))
      else let s = hput pkt (PacketObj (ne_junk_packet N (calls s))) s in
      obind (buff_alloc_data E NET_MEM_CLASS (np_payload_size p) s) (\<lambda>(payload, s).
      obind (upd_packet pkt (\<lambda>k. k\<lparr>pk_payload := payload\<rparr>) s) (\<lambda>s.
      if payload = 0
      then obind (buff_free_data NET_MEM_CLASS pkt s) (\<lambda>(r, s).
           obind (buff_free_data NET_MEM_CLASS pport s) (\<lambda>(r, s). Ret (ERROR, s)))
      else loop s)))))))"

section \<open>Channels\<close>

text \<open>The delete function of the message queue of a channel: \<open>arg\<close> points to the queued pointer.\<close>

definition net_channel_q_delete_upcall :: "addr \<Rightarrow> u32 os" where
  "net_channel_q_delete_upcall arg s =
     (if arg = 0 then Ret (ERROR, s)
      else obind (load the_bytes arg s) (\<lambda>b.
      let m = bytes_ulong b in
      obind (buff_get_info BUFF_GET_ID m s) (\<lambda>mbuffid.
      obind (load the_mesg m s) (\<lambda>mg.
      let pkt = ms_data mg in
      if pkt = 0 then Ret (ERROR, s)
      else obind (load the_packet pkt s) (\<lambda>k.
      obind (buff_get_info BUFF_GET_ID pkt s) (\<lambda>buffid.
      if take 4 (hd_preamble (pk_h k)) \<noteq> take 4 NET_PACKET_PREAMBLE then Ret (ERROR, s)
      else obind (buff_free_data buffid (pk_payload k) s) (\<lambda>(r, s).
           obind (buff_free_data buffid pkt s) (\<lambda>(r, s).
           obind (buff_free_data mbuffid m s) (\<lambda>(r, s). Ret (OKAY, s))))))))))"

definition net_channel_create :: "os_env \<Rightarrow> net_env \<Rightarrow> u32 \<Rightarrow> u32 \<Rightarrow> u32 os" where
  "net_channel_create E N buff port s =
     obind (buff_alloc_data E NET_MEM_CLASS (e_sizeof E T_net_channel_st) s) (\<lambda>(pchan, s).
     if pchan = 0 then Ret (ERROR, s)
     else obind (sprintf_into (''CHAN'' @ fmt_08x port) STR_LEN) (\<lambda>tname.
     let s = hput pchan (ChanObj ((ne_junk_chan N (calls s))\<lparr>ch_name := strncpy tname STR_LEN, ch_buff := buff,
               ch_cnum := port, ch_total_bytes := 0, ch_packets := 0, ch_port := 0\<rparr>)) s in
     obind (sprintf_into (MSGQ_NAME @ ''chan'' @ fmt_08x port) STR_LEN) (\<lambda>tname.
     obind (os_msgq_create E tname NET_MEM_CLASS (ne_fn N FN_channel_q_delete_upcall) s) (\<lambda>(q, s).
     obind (upd_chan pchan (\<lambda>c. c\<lparr>ch_msgq := q\<rparr>) s) (\<lambda>s.
     if q = ERROR then obind (buff_free_data NET_MEM_CLASS pchan s) (\<lambda>(r, s). Ret (ERROR, s))
     else obind (sprintf_into (MUTEX_NAME @ ''chan'' @ fmt_08x port) STR_LEN) (\<lambda>tname.
     obind (os_mutex_create E tname s) (\<lambda>(lock, s).
     obind (upd_chan pchan (\<lambda>c. c\<lparr>ch_lock := lock\<rparr>) s) (\<lambda>s.
     let abort = (\<lambda>s. obind (buff_free_data NET_MEM_CLASS pchan s) (\<lambda>(r, s).
           obind (load the_chan pchan s) (\<lambda>c. obind (os_msgq_delete E (ch_msgq c) s) (\<lambda>(r, s). Ret (ERROR, s))))) in
     if lock = ERROR then abort s
     else obind (os_list_item_insert E (net_channel_pool s) pchan s) (\<lambda>(channelid, s).
     if channelid = ERROR then abort s else Ret (channelid, s))))))))))"

definition net_channel_register :: "os_env \<Rightarrow> u32 \<Rightarrow> u32 \<Rightarrow> u32 os" where
  "net_channel_register E portid chanid s =
     obind (os_obj_find (net_port_pool s) portid s) (\<lambda>port.
     if port = 0 then Ret (ERROR, s)
     else obind (os_obj_find (net_channel_pool s) chanid s) (\<lambda>pchan.
     if pchan = 0 then Ret (ERROR, s)
     else obind (load the_port port s) (\<lambda>p.
     obind (os_list_item_insert E (np_chanlist p) pchan s) (\<lambda>(res, s).
     if res = ERROR then Ret (ERROR, s)
     else obind (load the_chan pchan s) (\<lambda>c.
     obind (os_mutex_lock (ch_lock c) 0 s) (\<lambda>(r, s).
     obind (upd_chan pchan (\<lambda>c. c\<lparr>ch_port := port\<rparr>) s) (\<lambda>s.
     obind (os_mutex_unlock (ch_lock c) s) (\<lambda>(r, s). Ret (OKAY, s)))))))))"

definition net_channel_flush :: "os_env \<Rightarrow> u32 \<Rightarrow> u32 os" where
  "net_channel_flush E channelid s =
     obind (os_obj_find (net_channel_pool s) channelid s) (\<lambda>pchan.
     if pchan = 0 then Ret (ERROR, s)
     else obind (load the_chan pchan s) (\<lambda>c.
     obind (os_mutex_lock (ch_lock c) 0 s) (\<lambda>(r, s).
     obind (os_msgq_flush E (ch_msgq c) s) (\<lambda>(res, s).
     obind (os_mutex_unlock (ch_lock c) s) (\<lambda>(r, s). Ret (if res = ERROR then ERROR else OKAY, s))))))"

definition net_channel_delete :: "os_env \<Rightarrow> u32 \<Rightarrow> u32 os" where
  "net_channel_delete E channelid s =
     obind (os_obj_find (net_channel_pool s) channelid s) (\<lambda>pchan.
     if pchan = 0 then Ret (ERROR, s)
     else obind (load the_chan pchan s) (\<lambda>c.
     obind (os_msgq_flush E (ch_msgq c) s) (\<lambda>(res, s).
     if res = ERROR then Ret (ERROR, s)
     else obind (os_msgq_delete E (ch_msgq c) s) (\<lambda>(res, s).
     if res = ERROR then Ret (ERROR, s)
     else obind (os_mutex_delete (ch_lock c) s) (\<lambda>(res, s).
     if res = ERROR then Ret (ERROR, s)
     else obind (os_list_item_delete (net_channel_pool s) channelid s) (\<lambda>(res, s).
     if res = ERROR then Ret (ERROR, s)
     else obind (buff_free_data NET_MEM_CLASS pchan s) (\<lambda>(r, s). Ret (OKAY, s))))))))"

definition NET_CHANNEL_BUFFER :: u32 where "NET_CHANNEL_BUFFER = 1"
definition NET_CHANNEL_ENABLE :: u32 where "NET_CHANNEL_ENABLE = 2"
definition NET_CHANNEL_DISABLE :: u32 where "NET_CHANNEL_DISABLE = 3"

definition net_channel_status :: "u32 \<Rightarrow> u32 \<Rightarrow> u32 os" where
  "net_channel_status command channelid s =
     obind (os_obj_find (net_channel_pool s) channelid s) (\<lambda>pchan.
     if pchan = 0 then Ret (ERROR, s)
     else if command = NET_CHANNEL_BUFFER then obind (load the_chan pchan s) (\<lambda>c. Ret (ch_total_bytes c, s))
     else if command = NET_CHANNEL_ENABLE then obind (upd_chan pchan (\<lambda>c. c\<lparr>ch_disabled := 0\<rparr>) s) (\<lambda>s. Ret (OKAY, s))
     else if command = NET_CHANNEL_DISABLE then obind (upd_chan pchan (\<lambda>c. c\<lparr>ch_disabled := 1\<rparr>) s) (\<lambda>s. Ret (OKAY, s))
     else Ret (ERROR, s))"

section \<open>Packets\<close>

text \<open>
  The checksum: the loop runs to a quarter of the size in steps of four, and takes single bytes.
\<close>

function checksum_loop :: "u8 list \<Rightarrow> nat \<Rightarrow> nat \<Rightarrow> u32 \<Rightarrow> u32 outcome" where
  "checksum_loop p adj ix acc =
     (if ix < adj
      then if length p \<le> ix then Fault OutOfBounds
           else checksum_loop p adj (ix + 4) (acc XOR NOT (ucast (p ! ix)))
      else Ret acc)"
  by auto
termination by (relation "measure (\<lambda>(p, adj, ix, acc). adj - ix)") auto

declare checksum_loop.simps [simp del]

definition net_packet_calc_checksum :: "u8 list \<Rightarrow> u16 \<Rightarrow> u32 outcome" where
  "net_packet_calc_checksum p sz = checksum_loop p (unat sz div 4) 0 0"

definition net_packet_make :: "os_env \<Rightarrow> net_env \<Rightarrow> u32 \<Rightarrow> u16 \<Rightarrow> u32 \<Rightarrow> u16 \<Rightarrow> u32 \<Rightarrow> addr \<Rightarrow> addr os" where
  "net_packet_make E N schannelid dchannel ty sz option payload s =
     obind (os_obj_find (net_channel_pool s) schannelid s) (\<lambda>pchan.
     if pchan = 0 then Ret (0, s)
     else obind (load the_chan pchan s) (\<lambda>c.
     obind (buff_alloc_data E (ch_buff c) (e_sizeof E T_net_packet) s) (\<lambda>(tpkt, s).
     if tpkt = 0 then Ret (0, s)
     else obind (if unat sz < 4 then Ret 0
                 else obind (load the_bytes payload s) (\<lambda>bytes. net_packet_calc_checksum bytes sz)) (\<lambda>sum.
     let j = ne_junk_packet N (calls s) in
     Ret (tpkt, hput tpkt (PacketObj (j\<lparr>pk_h := \<lparr>hd_preamble = with_preamble (hd_preamble (pk_h j)),
        hd_type = htonl ty, hd_size = htonl (ucast sz), hd_vsport = htons (ucast (ch_cnum c)),
        hd_vdport = htons dchannel, hd_option = htonl option, hd_checksum = htonl sum\<rparr>,
        pk_payload := payload\<rparr>)) s)))))"

definition net_packet_free :: "u32 \<Rightarrow> addr \<Rightarrow> u32 os" where
  "net_packet_free schannelid pkt s =
     (if pkt = 0 then Ret (ERROR, s)
      else obind (load the_packet pkt s) (\<lambda>k.
      if pk_payload k = 0 then Ret (ERROR, s)
      else obind (os_obj_find (net_channel_pool s) schannelid s) (\<lambda>pchan.
      if pchan = 0 then Ret (ERROR, s)
      else obind (load the_chan pchan s) (\<lambda>c.
      obind (buff_free_data (ch_buff c) (pk_payload k) s) (\<lambda>(r, s).
      obind (buff_free_data (ch_buff c) pkt s) (\<lambda>(r, s). Ret (OKAY, s)))))))"

text \<open>The size check works on an unsigned short.\<close>

definition packet_actual_size :: "net_packet_hdr \<Rightarrow> u16" where
  "packet_actual_size h = ucast (NET_PACKET_HDR_SIZE + ntohl (hd_size h))"

definition net_packet_send :: "net_env \<Rightarrow> thr_env \<Rightarrow> u32 \<Rightarrow> addr \<Rightarrow> u32 os" where
  "net_packet_send N T channelid pkt s =
     (if pkt = 0 then Ret (ERROR, s)
      else obind (load the_packet pkt s) (\<lambda>k.
      if pk_payload k = 0 then Ret (ERROR, s)
      else obind (os_obj_find (net_channel_pool s) channelid s) (\<lambda>pchan.
      if pchan = 0 then Ret (ERROR, s)
      else obind (load the_chan pchan s) (\<lambda>c.
      let port = ch_port c in
      if port = 0 then Ret (ERROR, s)
      else obind (load the_port port s) (\<lambda>p.
      obind (os_mutex_lock (np_lock p) 0 s) (\<lambda>(r, s).
      let fail = (\<lambda>s. obind (os_mutex_unlock (np_lock p) s) (\<lambda>(r, s). Ret (ERROR, s))) in
      if np_proto p = NULL_PROTO then fail s
      else let payload_len = ntohl (hd_size (pk_h k)) in
      if np_payload_size p < ucast (packet_actual_size (pk_h k)) then fail s
      else obind (net_port_errno_set (np_id p) E_NOERROR s) (\<lambda>s.
      obind (net_port_proto_send N T (np_id p) (Some (hdr_bytes (pk_h k))) NET_PACKET_HDR_SIZE NullAddr s) (\<lambda>(res, s).
      if res \<noteq> OKAY then fail s
      else obind (net_port_errno_set (np_id p) E_NOERROR s) (\<lambda>s.
      obind (load the_bytes (pk_payload k) s) (\<lambda>bytes.
      obind (net_port_proto_send N T (np_id p) (Some bytes) payload_len NullAddr s) (\<lambda>(res, s).
      if res \<noteq> OKAY then fail s
      else obind (os_mutex_unlock (np_lock p) s) (\<lambda>(r, s). Ret (OKAY, s)))))))))))))"

definition net_packet_recv :: "os_env \<Rightarrow> u32 \<Rightarrow> u32 \<Rightarrow> addr os" where
  "net_packet_recv E channelid tm s =
     obind (os_obj_find (net_channel_pool s) channelid s) (\<lambda>pchan.
     if pchan = 0 then Ret (0, s)
     else obind (load the_chan pchan s) (\<lambda>c.
     let buff = ch_buff c in
     obind (if tm = 0 then os_msgq_recv E (ch_msgq c) 0 s else os_msgq_recv_timeout E (ch_msgq c) (ucast tm) s) (\<lambda>(mesg, s).
     if mesg = 0 then Ret (0, s)
     else obind (load the_mesg mesg s) (\<lambda>m.
     if ms_command m \<noteq> NET_PACKET_MESSAGE then Ret (0, s)
     else let pkt = ms_data m in
     if pkt = 0 then obind (buff_free_data buff mesg s) (\<lambda>(r, s). Ret (0, s))
     else obind (os_mutex_lock (ch_lock c) 0 s) (\<lambda>(r, s).
     obind (load the_packet pkt s) (\<lambda>k.
     obind (upd_chan pchan (\<lambda>c. c\<lparr>ch_total_bytes := ch_total_bytes c - hd_size (pk_h k), ch_packets := ch_packets c - 1\<rparr>) s) (\<lambda>s.
     obind (os_mutex_unlock (ch_lock c) s) (\<lambda>(r, s).
     obind (if pk_payload k = 0
            then obind (buff_free_data buff pkt s) (\<lambda>(r, s). Ret (0, s))
            else Ret (pkt, s)) (\<lambda>(pkt, s).
     obind (buff_free_data buff mesg s) (\<lambda>(r, s). Ret (pkt, s)))))))))))"

end
