(* ===== verification/Net_Sel.thy ===== *)
theory Net_Sel
  imports Net_Channel
begin

text \<open>
  src/sel.c: groups of ports to wait on. A descriptor set is the set of its descriptors, of which
  select() and the FD macros can handle those below FD_SETSIZE. A group is passed by value and returned
  (\<open>None\<close> for a NULL pointer); \<open>member\<close> is its array of 32 port ids.
\<close>

definition NET_SEL_MAX_SIZE :: nat where "NET_SEL_MAX_SIZE = 32"
definition NET_READ_SELECT :: u32 where "NET_READ_SELECT = 0x00FF0001"
definition NET_WRITE_SELECT :: u32 where "NET_WRITE_SELECT = 0x00FF0002"
definition NET_RW_SELECT :: u32 where "NET_RW_SELECT = 0x00FF0003"
definition FD_SETSIZE :: u32 where "FD_SETSIZE = 1024"

record net_sel_group =
  sg_rfds :: "u32 set"
  sg_wfds :: "u32 set"
  sg_res_rfds :: "u32 set"
  sg_res_wfds :: "u32 set"
  sg_maxfd :: u32
  sg_num :: u32
  sg_member :: "u32 list"

text \<open>The loop over the members up to \<open>num\<close> that looks for a port; it may run past the array.\<close>

definition sel_includes :: "net_sel_group \<Rightarrow> u32 \<Rightarrow> bool outcome" where
  "sel_includes g portid =
     (if length (sg_member g) < unat (sg_num g) then Fault OutOfBounds
      else Ret (portid \<in> set (take (unat (sg_num g)) (sg_member g))))"

definition fd_add :: "u32 \<Rightarrow> u32 set \<Rightarrow> u32 set outcome" where
  "fd_add fd fds = (if FD_SETSIZE \<le> fd then Fault OutOfBounds else Ret (insert fd fds))"

definition greater_than :: "u32 \<Rightarrow> u32 \<Rightarrow> u32" where
  "greater_than a b = (if b < a then a else b)"

text \<open>Storing a member at index \<open>num\<close>.\<close>

definition sel_append :: "u32 \<Rightarrow> net_sel_group \<Rightarrow> net_sel_group outcome" where
  "sel_append portid g =
     (if length (sg_member g) \<le> unat (sg_num g) then Fault OutOfBounds
      else Ret (g\<lparr>sg_member := (sg_member g)[unat (sg_num g) := portid], sg_num := sg_num g + 1\<rparr>))"

text \<open>The variable arguments, up to the terminating 0.\<close>

fun sel_group_loop :: "u32 list \<Rightarrow> nat \<Rightarrow> net_sel_group \<Rightarrow> os_state \<Rightarrow> (u32 \<times> net_sel_group) outcome" where
  "sel_group_loop [] counter g s = Fault OutOfBounds"
| "sel_group_loop (portid # args) counter g s =
     (if portid = 0 then Ret (OKAY, g)
      else obind (sel_includes g portid) (\<lambda>included.
      if included then sel_group_loop args counter g s
      else if Suc counter = NET_SEL_MAX_SIZE then Ret (OKAY, g)
      else obind (net_port_search portid s) (\<lambda>port.
      if port = 0 then Ret (ERROR, g)
      else obind (load the_port port s) (\<lambda>p.
      obind (fd_add (np_fd p) (sg_rfds g)) (\<lambda>rfds.
      obind (fd_add (np_fd p) (sg_wfds g)) (\<lambda>wfds.
      obind (sel_append portid (g\<lparr>sg_rfds := rfds, sg_wfds := wfds, sg_maxfd := greater_than (sg_maxfd g) (np_fd p)\<rparr>)) (\<lambda>g.
      sel_group_loop args (Suc counter) g s)))))))"

definition net_port_proto_select_group ::
    "net_sel_group option \<Rightarrow> u32 list \<Rightarrow> os_state \<Rightarrow> (u32 \<times> net_sel_group option) outcome" where
  "net_port_proto_select_group selg args s =
     (case selg of None \<Rightarrow> Ret (ERROR, None)
      | Some g \<Rightarrow> obind (sel_group_loop args 0 g s) (\<lambda>(res, g). Ret (res, Some g)))"

definition net_port_proto_select_cleanup :: "net_sel_group option \<Rightarrow> u32 \<times> net_sel_group option" where
  "net_port_proto_select_cleanup selg =
     (case selg of None \<Rightarrow> (ERROR, None)
      | Some g \<Rightarrow> (OKAY, Some (g\<lparr>sg_rfds := {}, sg_wfds := {}, sg_res_rfds := {}, sg_res_wfds := {}, sg_num := 0, sg_maxfd := 0\<rparr>)))"

text \<open>
  The loop of the deletion builds the copy: its sets, maximum, number and members, and the flag. The
  cells of the copy past its number are uninitialised in the code; they are zero here and never read.
\<close>

fun sel_delete_loop :: "u32 list \<Rightarrow> u32 \<Rightarrow> bool \<Rightarrow> net_sel_group \<Rightarrow> os_state \<Rightarrow> (bool \<times> net_sel_group) outcome" where
  "sel_delete_loop [] portid deleted c s = Ret (deleted, c)"
| "sel_delete_loop (i # rest) portid deleted c s =
     obind (net_port_search i s) (\<lambda>port.
     if port = 0 then sel_delete_loop rest portid deleted c s
     else if i = portid then sel_delete_loop rest portid True c s
     else obind (load the_port port s) (\<lambda>p.
     obind (fd_add (np_fd p) (sg_rfds c)) (\<lambda>rfds.
     obind (fd_add (np_fd p) (sg_wfds c)) (\<lambda>wfds.
     obind (sel_append i (c\<lparr>sg_rfds := rfds, sg_wfds := wfds, sg_maxfd := greater_than (sg_maxfd c) (np_fd p)\<rparr>)) (\<lambda>c.
     sel_delete_loop rest portid deleted c s)))))"

definition net_port_proto_select_delete ::
    "os_env \<Rightarrow> net_sel_group option \<Rightarrow> u32 \<Rightarrow> (u32 \<times> net_sel_group option) os" where
  "net_port_proto_select_delete E selg portid s =
     (case selg of None \<Rightarrow> Ret ((ERROR, None), s)
      | Some g \<Rightarrow>
      obind (buff_alloc_data E NET_MEM_CLASS (4 * of_nat NET_SEL_MAX_SIZE) s) (\<lambda>(copy_member, s).
      if copy_member = 0 then Ret ((ERROR, Some g), s)
      else if length (sg_member g) < unat (sg_num g) then Fault OutOfBounds
      else obind (sel_delete_loop (take (unat (sg_num g)) (sg_member g)) portid False
             \<lparr>sg_rfds = {}, sg_wfds = {}, sg_res_rfds = {}, sg_res_wfds = {}, sg_maxfd = 0, sg_num = 0,
              sg_member = replicate NET_SEL_MAX_SIZE 0\<rparr> s) (\<lambda>(deleted, c).
      obind (buff_free_data NET_MEM_CLASS copy_member s) (\<lambda>(r, s).
      if \<not> deleted then Ret ((ERROR, Some g), s) else Ret ((OKAY, Some c), s)))))"

text \<open>
  select() is the environment: the number of ready descriptors, or a negative number, and the two sets.
\<close>

type_synonym select_fn = "nat \<Rightarrow> u32 \<Rightarrow> u32 set \<Rightarrow> u32 set \<Rightarrow> u64 \<Rightarrow> int \<times> u32 set \<times> u32 set"

definition net_port_proto_select :: "select_fn \<Rightarrow> net_sel_group option \<Rightarrow> u32 \<Rightarrow> u64 \<Rightarrow> (int \<times> net_sel_group option) os" where
  "net_port_proto_select sel selg mode tm s =
     (case selg of None \<Rightarrow> Ret ((- 1, None), s)
      | Some g \<Rightarrow>
      if sg_num g = 0 then Ret ((- 1, Some g), s)
      else if mode = NET_READ_SELECT
      then let (res, r, w) = sel (calls s) (sg_maxfd g + 1) (sg_rfds g) {} tm in
           Ret ((res, Some (g\<lparr>sg_res_rfds := r\<rparr>)), tick s)
      else if mode = NET_WRITE_SELECT
      then let (res, r, w) = sel (calls s) (sg_maxfd g + 1) {} (sg_wfds g) tm in
           Ret ((res, Some (g\<lparr>sg_res_wfds := w\<rparr>)), tick s)
      else if mode = NET_RW_SELECT
      then let (res, r, w) = sel (calls s) (sg_maxfd g + 1) (sg_rfds g) (sg_wfds g) tm in
           Ret ((res, Some (g\<lparr>sg_res_rfds := r, sg_res_wfds := w\<rparr>)), tick s)
      else Ret ((- 1, Some g), s))"

definition net_port_proto_select_test :: "net_sel_group option \<Rightarrow> u32 \<Rightarrow> u32 \<Rightarrow> os_state \<Rightarrow> int outcome" where
  "net_port_proto_select_test selg mode portid s =
     (case selg of None \<Rightarrow> Ret (- 1)
      | Some g \<Rightarrow>
      obind (net_port_search portid s) (\<lambda>port.
      if port = 0 then Ret (- 1)
      else obind (sel_includes g portid) (\<lambda>included.
      if \<not> included then Ret (- 1)
      else obind (load the_port port s) (\<lambda>p.
      if mode = NET_READ_SELECT then Ret (if np_fd p \<in> sg_res_rfds g then 1 else 0)
      else if mode = NET_WRITE_SELECT then Ret (if np_fd p \<in> sg_res_wfds g then 1 else 0)
      else Ret (- 1)))))"

end
