(* ===== verification/Net_Laws.thy ===== *)
theory Net_Laws
  imports Net_Sel Obj_Table
begin

text \<open>
  Laws of the network module: the pool of ports, the loops that send and receive, the packet header on
  the wire, the checksum, and the groups of ports.
\<close>

section \<open>The pool of ports\<close>

definition is_port :: "obj \<Rightarrow> bool" where "is_port ob \<longleftrightarrow> the_port ob \<noteq> None"

lemma is_port_simps [simp]: "is_port (PortObj p)" "is_port ob \<Longrightarrow> \<not> list_obj ob"
  by (auto simp: is_port_def)

lemma is_portE: "is_port ob \<Longrightarrow> \<exists>p. ob = PortObj p"
  by (auto simp: is_port_def)

definition ports_ok :: "os_state \<Rightarrow> ghost \<Rightarrow> nodes \<Rightarrow> bool" where
  "ports_ok s M ps \<longleftrightarrow> kit_ok s M \<and> table s M (net_port_pool s) NET_PORT_CLASS_NAME is_port ps"

definition port_of :: "os_state \<Rightarrow> nodes \<Rightarrow> u32 \<Rightarrow> net_port_st option" where
  "port_of s ps r = Option.bind (lookup ps r) (\<lambda>p. Option.bind (heap s p) the_port)"

lemma port_of_Some: "port_of s ps r = Some p \<longleftrightarrow> (\<exists>a. lookup ps r = Some a \<and> heap s a = Some (PortObj p))"
  by (auto simp: port_of_def Option.bind_eq_Some_conv)

lemma ports_okD:
  assumes "ports_ok s M ps"
  shows "kit_ok s M" "table s M (net_port_pool s) NET_PORT_CLASS_NAME is_port ps"
  using assms by (simp_all add: ports_ok_def)

lemma ports_ok_hput:
  assumes v: "ports_ok s M ps" and x: "\<And>x. heap s a = Some x \<Longrightarrow> \<not> list_obj x \<and> (is_port x \<longrightarrow> is_port y)"
  shows "ports_ok (hput a y s) M ps"
proof -
  have "kit_ok (hput a y s) M" using x by (intro kit_ok_hput [OF ports_okD(1) [OF v]]) simp
  moreover have "table (hput a y s) M (net_port_pool s) NET_PORT_CLASS_NAME is_port ps"
    using x by (intro table_frame [OF ports_okD(2) [OF v]]) auto
  ultimately show ?thesis by (simp add: ports_ok_def)
qed

lemma ports_ok_tick [simp]: "ports_ok s M ps \<Longrightarrow> ports_ok (tick s) M ps"
  unfolding ports_ok_def by (auto intro: table_keeps)

lemma ports_ok_out [simp]: "ports_ok (s\<lparr>net_out := f\<rparr>) M ps = ports_ok s M ps"
  by (simp add: ports_ok_def kit_ok_def lists_ok_def list_at_def table_def mem_ok_def)

lemma ports_lookup:
  assumes "ports_ok s M ps" and "lookup ps r = Some a"
  obtains p where "a \<noteq> 0" "heap s a = Some (PortObj p)"
  using table_lookup [OF ports_okD(2) [OF assms(1)] assms(2)] is_portE by blast

lemma net_port_search_eq:
  assumes "ports_ok s M ps"
  shows "net_port_search r s = Ret (case lookup ps r of None \<Rightarrow> 0 | Some a \<Rightarrow> a)"
  unfolding net_port_search_def os_obj_find_def by (rule table_find [OF ports_okD [OF assms]])

lemma net_port_errno_set_returns:
  assumes v: "ports_ok s M ps"
  obtains s' where "net_port_errno_set r e s = Ret s'" "ports_ok s' M ps" "net_out s' = net_out s"
proof (cases "lookup ps r")
  case None
  then show thesis using that [of s] v net_port_search_eq [OF v, of r]
    by (simp add: net_port_errno_set_def net_port_search_def)
next
  case (Some a)
  from ports_lookup [OF v Some] obtain p where a: "a \<noteq> 0" "heap s a = Some (PortObj p)" by blast
  let ?s = "hput a (PortObj (p\<lparr>np_port_errno := np_port_errno p OR e\<rparr>)) s"
  have "net_port_errno_set r e s = Ret ?s"
    using a Some net_port_search_eq [OF v, of r]
    by (simp add: net_port_errno_set_def net_port_search_def upd_port_def load_def)
  moreover have "ports_ok ?s M ps" by (rule ports_ok_hput [OF v]) (use a in auto)
  ultimately show thesis using that by simp
qed

section \<open>Sending\<close>

text \<open>
  What the loops rely on: send() accepts at most what it is given; while a thread sleeps the others
  neither use the descriptor nor break the pool of ports.
\<close>

definition send_ok :: "net_env \<Rightarrow> bool" where
  "send_ok N \<longleftrightarrow> (\<forall>n fd bs a. fst (ne_send N n fd bs a) \<le> int (length bs))"

definition sleep_ok :: "thr_env \<Rightarrow> u32 \<Rightarrow> ghost \<Rightarrow> nodes \<Rightarrow> bool" where
  "sleep_ok T fd M ps \<longleftrightarrow> (\<forall>s. ports_ok s M ps \<longrightarrow>
     (\<exists>s'. te_sleep T s = Ret ((), s') \<and> ports_ok s' M ps \<and> net_out s' fd = net_out s fd))"

lemma sleep_run:
  assumes "sleep_ok T fd M ps" and "ports_ok s M ps"
  obtains s' where "os_thread_sleep T s = Ret s'" "ports_ok s' M ps" "net_out s' fd = net_out s fd"
  using assms unfolding sleep_ok_def os_thread_sleep_def by fastforce

text \<open>The measure of a sending loop: what is left, the retries that are left, the result that is open.\<close>

fun send_left :: "int \<Rightarrow> send_vars \<Rightarrow> nat" where
  "send_left want (res, count, rt, rx, s) =
     nat (want - count) * 10 + 10 * (NET_PORT_MAX_RETRY_COUNTER_EX - rx) + (NET_PORT_MAX_RETRY_COUNTER - rt)
       + (if res = None then 1 else 0)"

fun send_inv :: "u32 \<Rightarrow> u8 list \<Rightarrow> u8 list \<Rightarrow> int \<Rightarrow> ghost \<Rightarrow> nodes \<Rightarrow> send_vars \<Rightarrow> bool" where
  "send_inv fd old blk want M ps (res, count, rt, rx, s) \<longleftrightarrow>
     0 \<le> count \<and> count \<le> want \<and> rt \<le> NET_PORT_MAX_RETRY_COUNTER \<and> rx \<le> NET_PORT_MAX_RETRY_COUNTER_EX
     \<and> (res = None \<longrightarrow> rt < NET_PORT_MAX_RETRY_COUNTER \<and> rx < NET_PORT_MAX_RETRY_COUNTER_EX)
     \<and> (res = None \<or> res = Some ERROR \<and> count < want) \<and> ports_ok s M ps \<and> net_out s fd = old @ take (nat count) blk"

abbreviation send_open :: "int \<Rightarrow> send_vars \<Rightarrow> bool" where
  "send_open want \<equiv> \<lambda>(res, count, rt, rx, s). res = None \<and> count < want"

lemma retry_pos [simp]: "0 < NET_PORT_MAX_RETRY_COUNTER" "0 < NET_PORT_MAX_RETRY_COUNTER_EX"
  by (simp_all add: NET_PORT_MAX_RETRY_COUNTER_def NET_PORT_MAX_RETRY_COUNTER_EX_def)

lemma send_accepts:
  assumes I: "send_inv fd old blk want M ps (None, count, rt, rx, s)" and "count < want" and "want \<le> int (length blk)"
    and a: "0 < amount" "amount \<le> int (length (chunk blk count want))"
  shows "send_inv fd old blk want M ps (None, count + amount, 0, rx, accept_out fd (take (nat amount) (chunk blk count want)) s)"
    and "send_left want (None, count + amount, 0, rx, s') < send_left want (None, count, rt, rx, s'')"
proof -
  have c: "0 \<le> count" "net_out s fd = old @ take (nat count) blk" using I by simp_all
  have le: "nat amount \<le> nat (want - count)" "amount \<le> want - count" using a assms(2,3) c by (simp_all add: min_def split: if_splits)
  have "take (nat count) blk @ take (nat amount) (chunk blk count want) = take (nat count + nat amount) blk"
    using le by (simp add: take_add min_def)
  then show "send_inv fd old blk want M ps (None, count + amount, 0, rx, accept_out fd (take (nat amount) (chunk blk count want)) s)"
    using I a(1) le(2) c by (simp add: accept_out_def nat_add_distrib)
  have "nat (want - (count + amount)) + 1 \<le> nat (want - count)" using a(1) le(2) by linarith
  then show "send_left want (None, count + amount, 0, rx, s') < send_left want (None, count, rt, rx, s'')"
    by (simp add: NET_PORT_MAX_RETRY_COUNTER_def)
qed

lemma tcp_send_round:
  assumes sl: "sleep_ok T (np_fd p) M ps" and snd: "send_ok N" and len: "want \<le> int (length blk)"
    and I: "send_inv (np_fd p) old blk want M ps x" and b: "send_open want x"
  shows "\<exists>y. tcp_send_body N T p blk want x = Ret y \<and> send_inv (np_fd p) old blk want M ps y \<and> send_left want y < send_left want x"
proof -
  obtain count rt rx s where x: "x = (None, count, rt, rx, s)" and cw: "count < want"
    using b by (cases x) auto
  obtain amount err where sn: "ne_send N (calls s) (np_fd p) (chunk blk count want) None = (amount, err)" by fastforce
  have am: "amount \<le> int (length (chunk blk count want))"
    using snd unfolding send_ok_def by (metis fst_conv sn)
  have ok: "ports_ok (tick s) M ps" and out: "net_out (tick s) = net_out s" using I x by simp_all
  from sleep_run [OF sl ok] obtain t where t: "os_thread_sleep T (tick s) = Ret t" "ports_ok t M ps"
    "net_out t (np_fd p) = net_out s (np_fd p)" using out by metis
  from net_port_errno_set_returns [OF t(2)] obtain u where u: "net_port_errno_set (np_id p) E_NET_PORT_TX t = Ret u"
    "ports_ok u M ps" "net_out u = net_out t" by blast
  note run = tcp_send_body_def x sn Let_def
  consider (gone) "amount < 0" "err \<noteq> EAGAIN" "err \<noteq> EINTR" | (again) "amount < 0" "err = EAGAIN \<or> err = EINTR"
    | (zero) "amount = 0" | (some) "0 < amount" by linarith
  then show ?thesis
  proof cases
    case gone then show ?thesis using I x cw ok by (simp add: run)
  next
    case again then show ?thesis using I x cw ok t by (auto simp: run)
  next
    case zero then show ?thesis using I x cw t u by (auto simp: run)
  next
    case some
    have I': "send_inv (np_fd p) old blk want M ps (None, count, rt, rx, tick s)" using I x by simp
    show ?thesis using some send_accepts [OF I' cw len some am] by (simp add: run del: send_inv.simps send_left.simps)
  qed
qed

lemma net_tcp_send_total:
  assumes v: "ports_ok s M ps" and p: "a \<noteq> 0" "heap s a = Some (PortObj p)" and comm: "net_port_proto_iscommunicatable a s = Ret OKAY"
    and size: "0 \<le> sint sz" "sint sz \<le> int (length blk)" and env: "sleep_ok T (np_fd p) M ps" "send_ok N"
  shows "\<exists>r s' k. net_tcp_send N T a blk sz addr s = Ret (r, s') \<and> ports_ok s' M ps
     \<and> net_out s' (np_fd p) = net_out s (np_fd p) @ take k blk \<and> k \<le> nat (sint sz)
     \<and> (r = OKAY \<and> k = nat (sint sz) \<or> r = ERROR \<and> k < nat (sint sz))"
proof -
  let ?I = "send_inv (np_fd p) (net_out s (np_fd p)) blk (sint sz) M ps"
  have "?I (None, 0, 0, 0, s)" using v size by simp
  then obtain y where y: "while_o (send_open (sint sz)) (tcp_send_body N T p blk (sint sz)) (None, 0, 0, 0, s) = Ret y"
    "?I y" "\<not> send_open (sint sz) y"
    by (rule while_o_total [where m = "send_left (sint sz)"]) (rule tcp_send_round [OF env size(2)])
  obtain res count rt rx s' where e: "y = (res, count, rt, rx, s')" by (cases y) auto
  have run: "net_tcp_send N T a blk sz addr s = Ret (case res of None \<Rightarrow> OKAY | Some r \<Rightarrow> r, s')"
    using y(1) e p comm size(2) by (simp add: net_tcp_send_def load_def)
  have "ports_ok s' M ps" "net_out s' (np_fd p) = net_out s (np_fd p) @ take (nat count) blk" "nat count \<le> nat (sint sz)"
    using y(2) e by auto
  moreover have "res = None \<and> nat count = nat (sint sz) \<or> res = Some ERROR \<and> nat count < nat (sint sz)"
    using y(2,3) e by auto
  ultimately show ?thesis using run
    by (intro exI [of _ "case res of None \<Rightarrow> OKAY | Some r \<Rightarrow> r"] exI [of _ s'] exI [of _ "nat count"]) auto
qed

section \<open>Receiving\<close>

text \<open>recv() gives at most what it is asked for, and exactly as many bytes as it says.\<close>

definition recv_ok :: "net_env \<Rightarrow> bool" where
  "recv_ok N \<longleftrightarrow> (\<forall>n fd want amount bytes sa sz. ne_recv N n fd want = (amount, bytes, sa, sz) \<longrightarrow>
     amount \<le> int want \<and> (0 < amount \<longrightarrow> int (length bytes) = amount))"

fun recv_left :: "int \<Rightarrow> recv_vars \<Rightarrow> nat" where
  "recv_left want (res, count, rt, out, sa, asz, s) =
     nat (want - count) * 10 + (NET_PORT_MAX_RETRY_COUNTER - rt) + (if res = None then 1 else 0)"

fun recv_inv :: "int \<Rightarrow> ghost \<Rightarrow> nodes \<Rightarrow> recv_vars \<Rightarrow> bool" where
  "recv_inv want M ps (res, count, rt, out, sa, asz, s) \<longleftrightarrow>
     count \<le> want \<and> rt \<le> NET_PORT_MAX_RETRY_COUNTER \<and> (res = None \<longrightarrow> rt < NET_PORT_MAX_RETRY_COUNTER)
     \<and> (res = None \<or> res = Some ERROR \<and> count < want) \<and> ports_ok s M ps \<and> int (length out) = count"

abbreviation recv_open :: "int \<Rightarrow> recv_vars \<Rightarrow> bool" where
  "recv_open want \<equiv> \<lambda>(res, count, rt, out, sa, asz, s). res = None \<and> count < want"

lemma recv_round:
  assumes sl: "sleep_ok T fd M ps" and rcv: "recv_ok N" and I: "recv_inv want M ps x" and b: "recv_open want x"
  shows "\<exists>y. recv_body N T p want x = Ret y \<and> recv_inv want M ps y \<and> recv_left want y < recv_left want x"
proof -
  obtain count rt out sa asz s where x: "x = (None, count, rt, out, sa, asz, s)" and cw: "count < want"
    using b by (cases x) auto
  obtain amount bytes sa' asz' where r: "ne_recv N (calls s) (np_fd p) (nat (want - count)) = (amount, bytes, sa', asz')"
    by (cases "ne_recv N (calls s) (np_fd p) (nat (want - count))") auto
  have am: "amount \<le> want - count" "0 < amount \<longrightarrow> int (length bytes) = amount"
    using rcv r cw unfolding recv_ok_def by fastforce+
  have ok: "ports_ok (tick s) M ps" using I x by simp
  from sleep_run [OF sl ok] obtain t where t: "os_thread_sleep T (tick s) = Ret t" "ports_ok t M ps" by metis
  from net_port_errno_set_returns [OF t(2)] obtain u where u: "net_port_errno_set (np_id p) E_NET_PORT_RX t = Ret u"
    "ports_ok u M ps" by blast
  from net_port_errno_set_returns [OF ok] obtain w where w: "net_port_errno_set (np_id p) E_NET_PORT_RX (tick s) = Ret w"
    "ports_ok w M ps" by blast
  note run = recv_body_def x r Let_def
  consider "amount < 0" | "amount = 0" | (some) "0 < amount" by linarith
  then show ?thesis
  proof cases
    case 1 then show ?thesis using I x cw w by (auto simp: run)
  next
    case 2 then show ?thesis using I x cw t u by (auto simp: run)
  next
    case some
    have "nat (want - (count + amount)) + 1 \<le> nat (want - count)" using some am(1) by linarith
    then show ?thesis using some I x cw ok am by (auto simp: run NET_PORT_MAX_RETRY_COUNTER_def)
  qed
qed

lemma net_tcp_recv_total:
  assumes v: "ports_ok s M ps" and p: "a \<noteq> 0" "heap s a = Some (PortObj p)" and comm: "net_port_proto_iscommunicatable a s = Ret OKAY"
    and size: "0 \<le> sint sz" and env: "sleep_ok T fd M ps" "recv_ok N"
  shows "\<exists>r out s'. net_tcp_recv N T a sz addr s = Ret ((r, out, addr), s') \<and> ports_ok s' M ps
     \<and> length out \<le> nat (sint sz) \<and> (r = OKAY \<and> length out = nat (sint sz) \<or> r = ERROR \<and> length out < nat (sint sz))"
proof -
  have "recv_inv (sint sz) M ps (None, 0, 0, [], ai_addr (np_addr p), 16, s)" using v size by simp
  then obtain y where y: "while_o (recv_open (sint sz)) (recv_body N T p (sint sz))
      (None, 0, 0, [], ai_addr (np_addr p), 16, s) = Ret y" "recv_inv (sint sz) M ps y" "\<not> recv_open (sint sz) y"
    by (rule while_o_total [where m = "recv_left (sint sz)"]) (rule recv_round [OF env])
  obtain res count rt out sa asz s' where e: "y = (res, count, rt, out, sa, asz, s')" by (cases y) auto
  have run: "net_tcp_recv N T a sz addr s = Ret ((case res of None \<Rightarrow> OKAY | Some r \<Rightarrow> r, out, addr), s')"
    using y(1) e p comm by (simp add: net_tcp_recv_def load_def recv_loop_def)
  have "ports_ok s' M ps" "length out \<le> nat (sint sz)" using y(2) e by auto
  moreover have "res = None \<and> length out = nat (sint sz) \<or> res = Some ERROR \<and> length out < nat (sint sz)"
    using y(2,3) e by auto
  ultimately show ?thesis using run
    by (intro exI [of _ "case res of None \<Rightarrow> OKAY | Some r \<Rightarrow> r"] exI [of _ out] exI [of _ s']) auto
qed

end
