(* ===== verification/Sel_Laws.thy ===== *)
theory Sel_Laws
  imports Net_Laws
begin

text \<open>
  Groups of ports (src/sel.c): the invariant of a group, and how adding and removing ports keep it.
\<close>

definition members :: "net_sel_group \<Rightarrow> u32 list" where
  "members g = take (unat (sg_num g)) (sg_member g)"

definition fd_of :: "os_state \<Rightarrow> nodes \<Rightarrow> u32 \<Rightarrow> u32" where
  "fd_of s ps r = np_fd (the (port_of s ps r))"

definition selectable :: "os_state \<Rightarrow> nodes \<Rightarrow> u32 \<Rightarrow> bool" where
  "selectable s ps r \<longleftrightarrow> r \<noteq> 0 \<and> (\<exists>p. port_of s ps r = Some p \<and> np_fd p < FD_SETSIZE)"

definition sel_ok :: "os_state \<Rightarrow> nodes \<Rightarrow> net_sel_group \<Rightarrow> bool" where
  "sel_ok s ps g \<longleftrightarrow> length (sg_member g) = NET_SEL_MAX_SIZE \<and> unat (sg_num g) \<le> NET_SEL_MAX_SIZE
     \<and> distinct (members g) \<and> (\<forall>r \<in> set (members g). selectable s ps r)
     \<and> sg_rfds g = fd_of s ps ` set (members g) \<and> sg_wfds g = fd_of s ps ` set (members g)
     \<and> (\<forall>fd \<in> sg_rfds g. fd \<le> sg_maxfd g)"

lemma members_length: "sel_ok s ps g \<Longrightarrow> length (members g) = unat (sg_num g)"
  by (simp add: sel_ok_def members_def)

lemma sel_includes_eq: "sel_ok s ps g \<Longrightarrow> sel_includes g r = Ret (r \<in> set (members g))"
  by (simp add: sel_ok_def sel_includes_def members_def)

definition sel_added :: "u32 \<Rightarrow> u32 \<Rightarrow> net_sel_group \<Rightarrow> net_sel_group" where
  "sel_added r fd g = g\<lparr>sg_rfds := insert fd (sg_rfds g), sg_wfds := insert fd (sg_wfds g),
     sg_maxfd := greater_than (sg_maxfd g) fd, sg_member := (sg_member g)[unat (sg_num g) := r], sg_num := sg_num g + 1\<rparr>"

text \<open>One port more, while there is room.\<close>

lemma sel_added_ok:
  assumes ok: "sel_ok s ps g" and r: "selectable s ps r" "r \<notin> set (members g)" and room: "length (members g) < NET_SEL_MAX_SIZE"
  shows "sel_ok s ps (sel_added r (fd_of s ps r) g)" "members (sel_added r (fd_of s ps r) g) = members g @ [r]"
proof -
  have n: "unat (sg_num g) < 32" "length (sg_member g) = 32"
    using room ok by (simp_all add: members_length [OF ok] sel_ok_def NET_SEL_MAX_SIZE_def)
  have u: "unat (sg_num g + 1) = Suc (unat (sg_num g))" using n(1) by (simp add: unat_word_ariths)
  show m: "members (sel_added r (fd_of s ps r) g) = members g @ [r]"
    using n by (simp add: members_def sel_added_def u take_Suc_conv_app_nth)
  have gt: "a \<le> greater_than a b" "b \<le> greater_than a b" for a b by (auto simp: greater_than_def)
  have "\<forall>fd \<in> sg_rfds g. fd \<le> sg_maxfd g" using ok by (simp add: sel_ok_def)
  then have "fd \<le> greater_than (sg_maxfd g) (fd_of s ps r)" if "fd \<in> insert (fd_of s ps r) (sg_rfds g)" for fd
    using that gt(1) [of "sg_maxfd g" "fd_of s ps r"] gt(2) [of "fd_of s ps r" "sg_maxfd g"] by (blast intro: order_trans)
  then show "sel_ok s ps (sel_added r (fd_of s ps r) g)"
    using ok r n unfolding sel_ok_def m by (simp add: sel_added_def u NET_SEL_MAX_SIZE_def)
qed

lemma sel_insert:
  assumes v: "ports_ok s M ps" and ok: "sel_ok s ps g" and r: "selectable s ps r" and room: "length (members g) < NET_SEL_MAX_SIZE"
  obtains a p where "net_port_search r s = Ret a" "a \<noteq> 0" "load the_port a s = Ret p" "np_fd p = fd_of s ps r"
    "\<forall>fds. fd_add (np_fd p) fds = Ret (insert (np_fd p) fds)"
    "sel_append r (g\<lparr>sg_rfds := insert (np_fd p) (sg_rfds g), sg_wfds := insert (np_fd p) (sg_wfds g), sg_maxfd := greater_than (sg_maxfd g) (np_fd p)\<rparr>)
      = Ret (sel_added r (np_fd p) g)"
proof -
  from r obtain p where p: "port_of s ps r = Some p" "np_fd p < FD_SETSIZE" by (auto simp: selectable_def)
  then obtain a where a: "lookup ps r = Some a" "heap s a = Some (PortObj p)" by (auto simp: port_of_Some)
  have a0: "a \<noteq> 0" using table_lookup(1) [OF ports_okD(2) [OF v] a(1)] .
  have "sg_num g < 32"
    using room by (simp add: members_length [OF ok] NET_SEL_MAX_SIZE_def word_less_nat_alt)
  then show thesis using that [of a p] ok room a a0 p
    by (simp add: net_port_search_eq [OF v] load_def fd_of_def fd_add_def sel_append_def sel_added_def sel_ok_def
        members_length [OF ok] not_le)
qed

text \<open>Adding ports, as long as the group stays smaller than its array.\<close>

lemma sel_group_loop_adds:
  assumes "ports_ok s M ps" and "sel_ok s ps g" and "\<forall>r \<in> set rs. selectable s ps r"
    and "length (members g) + length rs < NET_SEL_MAX_SIZE" and "counter + length rs < NET_SEL_MAX_SIZE"
  shows "\<exists>g'. sel_group_loop (rs @ [0]) counter g s = Ret (OKAY, g') \<and> sel_ok s ps g'
     \<and> set (members g') = set (members g) \<union> set rs"
  using assms
proof (induction rs arbitrary: counter g)
  case Nil then show ?case by auto
next
  case (Cons r rs)
  have r: "selectable s ps r" "r \<noteq> 0" using Cons.prems(3) by (simp_all add: selectable_def)
  show ?case
  proof (cases "r \<in> set (members g)")
    case True
    from Cons.IH [OF Cons.prems(1,2), of counter] Cons.prems
    obtain g' where "sel_group_loop (rs @ [0]) counter g s = Ret (OKAY, g')" "sel_ok s ps g'"
      "set (members g') = set (members g) \<union> set rs" by auto
    then show ?thesis using True r(2) by (auto simp: sel_includes_eq [OF Cons.prems(2)])
  next
    case False
    have room: "length (members g) < NET_SEL_MAX_SIZE" using Cons.prems(4) by simp
    from sel_insert [OF Cons.prems(1,2) r(1) room] obtain a p where ap: "net_port_search r s = Ret a" "a \<noteq> 0"
      "load the_port a s = Ret p" "np_fd p = fd_of s ps r" "\<forall>fds. fd_add (np_fd p) fds = Ret (insert (np_fd p) fds)"
      "sel_append r (g\<lparr>sg_rfds := insert (np_fd p) (sg_rfds g), sg_wfds := insert (np_fd p) (sg_wfds g), sg_maxfd := greater_than (sg_maxfd g) (np_fd p)\<rparr>)
      = Ret (sel_added r (np_fd p) g)" by blast
    let ?g = "sel_added r (fd_of s ps r) g"
    note add = sel_added_ok [OF Cons.prems(2) r(1) False room]
    have "sel_group_loop ((r # rs) @ [0]) counter g s = sel_group_loop (rs @ [0]) (Suc counter) ?g s"
      using ap False r(2) Cons.prems(5) by (simp add: sel_includes_eq [OF Cons.prems(2)])
    moreover from Cons.IH [OF Cons.prems(1) add(1), of "Suc counter"] Cons.prems add(2)
    obtain g' where "sel_group_loop (rs @ [0]) (Suc counter) ?g s = Ret (OKAY, g')" "sel_ok s ps g'"
      "set (members g') = set (members ?g) \<union> set rs" by auto
    ultimately show ?thesis using add(2) by auto
  qed
qed

text \<open>A group that is full: the next new port is written behind the array.\<close>

lemma sel_group_overflows:
  assumes v: "ports_ok s M ps" and ok: "sel_ok s ps g" and r: "selectable s ps r" "r \<notin> set (members g)"
    and full: "length (members g) = NET_SEL_MAX_SIZE"
  shows "sel_group_loop (r # rs) 0 g s = Fault OutOfBounds"
proof -
  from r(1) obtain p where p: "port_of s ps r = Some p" "np_fd p < FD_SETSIZE" "r \<noteq> 0" by (auto simp: selectable_def)
  then obtain a where a: "lookup ps r = Some a" "heap s a = Some (PortObj p)" by (auto simp: port_of_Some)
  have a0: "a \<noteq> 0" using table_lookup(1) [OF ports_okD(2) [OF v] a(1)] .
  have "length (sg_member g) \<le> unat (sg_num g)" using full ok by (simp add: members_length [OF ok] sel_ok_def)
  then show ?thesis using a a0 p r(2)
    by (simp add: sel_includes_eq [OF ok] NET_SEL_MAX_SIZE_def net_port_search_eq [OF v] load_def fd_add_def sel_append_def not_le)
qed

text \<open>Removing a port: the other members are copied to an empty group.\<close>

definition sel_empty :: "net_sel_group" where
  "sel_empty = \<lparr>sg_rfds = {}, sg_wfds = {}, sg_res_rfds = {}, sg_res_wfds = {}, sg_maxfd = 0, sg_num = 0,
     sg_member = replicate NET_SEL_MAX_SIZE 0\<rparr>"

lemma sel_empty_ok: "sel_ok s ps sel_empty" "members sel_empty = []"
  by (simp_all add: sel_ok_def sel_empty_def members_def)

lemma sel_delete_loop_copies:
  assumes "ports_ok s M ps" and "sel_ok s ps c" and "\<forall>r \<in> set rs. selectable s ps r" and "distinct rs"
    and "set rs \<inter> set (members c) = {}" and "length (members c) + length rs \<le> NET_SEL_MAX_SIZE"
  shows "\<exists>c'. sel_delete_loop rs portid del c s = Ret (del \<or> portid \<in> set rs, c') \<and> sel_ok s ps c'
     \<and> members c' = members c @ filter (\<lambda>r. r \<noteq> portid) rs"
  using assms
proof (induction rs arbitrary: del c)
  case Nil then show ?case by simp
next
  case (Cons r rs)
  have r: "selectable s ps r" "r \<noteq> 0" "r \<notin> set (members c)" and room: "length (members c) < NET_SEL_MAX_SIZE"
    using Cons.prems(3,5,6) by (auto simp: selectable_def)
  from sel_insert [OF Cons.prems(1,2) r(1) room] obtain a p where ap: "net_port_search r s = Ret a" "a \<noteq> 0"
    "load the_port a s = Ret p" "np_fd p = fd_of s ps r" "\<forall>fds. fd_add (np_fd p) fds = Ret (insert (np_fd p) fds)"
    "sel_append r (c\<lparr>sg_rfds := insert (np_fd p) (sg_rfds c), sg_wfds := insert (np_fd p) (sg_wfds c), sg_maxfd := greater_than (sg_maxfd c) (np_fd p)\<rparr>)
      = Ret (sel_added r (np_fd p) c)" by blast
  show ?case
  proof (cases "r = portid")
    case True
    then show ?thesis using Cons.IH [OF Cons.prems(1,2), of True] Cons.prems ap by auto
  next
    case False
    let ?c = "sel_added r (fd_of s ps r) c"
    note add = sel_added_ok [OF Cons.prems(2) r(1,3) room]
    have "sel_delete_loop (r # rs) portid del c s = sel_delete_loop rs portid del ?c s" using ap False by simp
    moreover from Cons.IH [OF Cons.prems(1) add(1), of del] Cons.prems add(2)
    obtain c' where "sel_delete_loop rs portid del ?c s = Ret (del \<or> portid \<in> set rs, c')" "sel_ok s ps c'"
      "members c' = members ?c @ filter (\<lambda>r. r \<noteq> portid) rs" by auto
    ultimately show ?thesis using add(2) False by auto
  qed
qed

end
