(* ===== verification/Net_Wire.thy ===== *)
theory Net_Wire
  imports Net_Channel
begin

text \<open>
  The packet on the wire: the header as bytes and back, byte order, and what the checksum of a packet
  depends on.
\<close>

unbundle bit_operations_syntax

section \<open>Byte order\<close>

lemma word_le32_bytes:
  "(ucast (word_le32 a b c d) :: u8) = a" "(ucast (drop_bit 8 (word_le32 a b c d)) :: u8) = b"
  "(ucast (drop_bit 16 (word_le32 a b c d)) :: u8) = c" "(ucast (drop_bit 24 (word_le32 a b c d)) :: u8) = d"
  by (rule bit_word_eqI; auto simp: word_le32_def bit_simps dest: bit_imp_le_length)+

lemma bytes_word_le32:
  "word_le32 (ucast w) (ucast (drop_bit 8 w)) (ucast (drop_bit 16 w)) (ucast (drop_bit 24 w)) = w"
proof (rule bit_word_eqI)
  fix n assume "n < LENGTH(32)"
  then have "n < 32" by simp
  then consider "n < 8" | "8 \<le> n" "n < 16" | "16 \<le> n" "n < 24" | "24 \<le> n" "n < 32" by linarith
  then show "bit (word_le32 (ucast w) (ucast (drop_bit 8 w)) (ucast (drop_bit 16 w)) (ucast (drop_bit 24 w))) n = bit w n"
    by cases (auto simp: word_le32_def bit_simps)
qed

lemma word_le16_bytes: "(ucast (word_le16 a b) :: u8) = a" "(ucast (drop_bit 8 (word_le16 a b)) :: u8) = b"
  by (rule bit_word_eqI; auto simp: word_le16_def bit_simps dest: bit_imp_le_length)+

lemma bytes_word_le16: "word_le16 (ucast w) (ucast (drop_bit 8 w)) = w"
proof (rule bit_word_eqI)
  fix n assume "n < LENGTH(16)"
  then consider "n < 8" | "8 \<le> n" "n < 16" by simp linarith
  then show "bit (word_le16 (ucast w) (ucast (drop_bit 8 w))) n = bit w n"
    by cases (auto simp: word_le16_def bit_simps)
qed

lemma htonl_htonl [simp]: "htonl (htonl w) = w"
  by (simp add: htonl_def word_le32_bytes bytes_word_le32)

lemma htons_htons [simp]: "htons (htons w) = w"
  by (simp add: htons_def word_le16_bytes bytes_word_le16)

lemma htonl_eq_iff [simp]: "htonl v = htonl w \<longleftrightarrow> v = w"
  by (metis htonl_htonl)

lemma htonl_0 [simp]: "htonl 0 = 0"
  by (simp add: htonl_def word_le32_def)

section \<open>The header\<close>

lemma hdr_bytes_length: "length (hd_preamble h) = 12 \<Longrightarrow> length (hdr_bytes h) = 32"
  by (simp add: hdr_bytes_def le_bytes32_def le_bytes16_def)

lemma bytes_hdr_hdr_bytes:
  assumes "length (hd_preamble h) = 12"
  shows "bytes_hdr (hdr_bytes h) = h"
proof -
  have "hdr_bytes h ! (12 + i) = (le_bytes32 (hd_type h) @ le_bytes32 (hd_size h) @ le_bytes16 (hd_vsport h)
     @ le_bytes16 (hd_vdport h) @ le_bytes32 (hd_option h) @ le_bytes32 (hd_checksum h)) ! i" for i
    unfolding hdr_bytes_def using assms by (metis nth_append_length_plus)
  note nth = this [of 0] this [of 1] this [of 2] this [of 3] this [of 4] this [of 5] this [of 6] this [of 7]
    this [of 8] this [of 9] this [of 10] this [of 11] this [of 12] this [of 13] this [of 14] this [of 15]
    this [of 16] this [of 17] this [of 18] this [of 19]
  have "take 12 (hdr_bytes h) = hd_preamble h" using assms by (simp add: hdr_bytes_def)
  then show ?thesis using nth
    by (simp add: bytes_hdr_def le_bytes32_def le_bytes16_def bytes_word_le32 bytes_word_le16)
qed

text \<open>What \<open>net_packet_make\<close> leaves in the packet it returns, in network order.\<close>

lemma net_packet_make_packet:
  assumes made: "net_packet_make E N cid dch ty sz opt payload s = Ret (pkt, s1)" "pkt \<noteq> 0"
    and chan: "os_obj_find (net_channel_pool s) cid s = Ret c" "load the_chan c s = Ret ch" and other: "payload \<noteq> pkt"
  obtains tp sum j where "load the_packet pkt s1 = Ret tp" "pk_payload tp = payload"
    "pk_h tp = \<lparr>hd_preamble = with_preamble (hd_preamble (pk_h (ne_junk_packet N j))), hd_type = htonl ty, hd_size = htonl (ucast sz),
       hd_vsport = htons (ucast (ch_cnum ch)), hd_vdport = htons dch, hd_option = htonl opt, hd_checksum = htonl sum\<rparr>"
    "if unat sz < 4 then sum = 0 else \<exists>bytes. load the_bytes payload s1 = Ret bytes \<and> net_packet_calc_checksum bytes sz = Ret sum"
proof -
  have c0: "c \<noteq> 0" using chan(2) by (auto simp: load_def)
  from made chan c0 obtain s2 sum where al: "buff_alloc_data E (ch_buff ch) (e_sizeof E T_net_packet) s = Ret (pkt, s2)"
    and sum: "(if unat sz < 4 then Ret 0 else obind (load the_bytes payload s2) (\<lambda>bytes. net_packet_calc_checksum bytes sz)) = Ret sum"
    and s1: "s1 = hput pkt (PacketObj ((ne_junk_packet N (calls s2))\<lparr>pk_h := \<lparr>hd_preamble = with_preamble (hd_preamble (pk_h (ne_junk_packet N (calls s2)))),
        hd_type = htonl ty, hd_size = htonl (ucast sz), hd_vsport = htons (ucast (ch_cnum ch)),
        hd_vdport = htons dch, hd_option = htonl opt, hd_checksum = htonl sum\<rparr>, pk_payload := payload\<rparr>)) s2"
    by (auto simp: net_packet_make_def outcome_simps Let_def split: if_split_asm)
  let ?tp = "(ne_junk_packet N (calls s2))\<lparr>pk_h := \<lparr>hd_preamble = with_preamble (hd_preamble (pk_h (ne_junk_packet N (calls s2)))),
        hd_type = htonl ty, hd_size = htonl (ucast sz), hd_vsport = htons (ucast (ch_cnum ch)),
        hd_vdport = htons dch, hd_option = htonl opt, hd_checksum = htonl sum\<rparr>, pk_payload := payload\<rparr>"
  have "load the_packet pkt s1 = Ret ?tp" using made(2) by (simp add: s1 load_def)
  moreover have "load the_bytes payload s1 = load the_bytes payload s2" by (rule load_cong) (use other in \<open>simp add: s1\<close>)
  ultimately show thesis using sum by (intro that [of ?tp "calls s2" sum]) (auto simp: outcome_simps split: if_splits)
qed

text \<open>
  The receiver: the bytes of a header in network order that begins with the preamble, stored over the
  packet of the port and framed, give the header in host order.
\<close>

lemma header_framed:
  assumes h: "length (hd_preamble h) = 12" "take 7 (hd_preamble h) = NET_PACKET_PREAMBLE"
    and p: "rp \<noteq> 0" "heap t rp = Some (PacketObj k)" "np_pktfunc p = 0"
  shows "\<exists>t1. store_hdr rp (hdr_bytes h) t = Ret t1
     \<and> packet_framing N p rp t1 = Ret (rp, hput rp (PacketObj (k\<lparr>pk_h := host_order h, pk_priv := 0\<rparr>)) t)"
proof -
  let ?t1 = "hput rp (PacketObj (k\<lparr>pk_h := h\<rparr>)) t"
  have st: "store_hdr rp (hdr_bytes h) t = obind (load the_packet rp t) (\<lambda>k.
      Ret (hput rp (PacketObj (k\<lparr>pk_h := bytes_hdr (hdr_bytes h @ drop 32 (hdr_bytes (pk_h k)))\<rparr>)) t))"
    by (simp add: store_hdr_def upd_packet_def hdr_bytes_length [OF h(1)])
  have "bytes_hdr (hdr_bytes h @ xs) = bytes_hdr (hdr_bytes h)" for xs
    using hdr_bytes_length [OF h(1)] by (simp add: bytes_hdr_def nth_append)
  then have "store_hdr rp (hdr_bytes h) t = Ret ?t1"
    using p by (simp add: st load_def bytes_hdr_hdr_bytes [OF h(1)])
  moreover have "packet_framing N p rp ?t1 = Ret (rp, hput rp (PacketObj (k\<lparr>pk_h := host_order h, pk_priv := 0\<rparr>)) t)"
    using p h(2) by (simp add: packet_framing_def load_def upd_packet_def)
  ultimately show ?thesis by blast
qed

lemma with_preamble_take [simp]: "take 7 (with_preamble old) = NET_PACKET_PREAMBLE"
  "length old = 12 \<Longrightarrow> length (with_preamble old) = 12"
  by (simp_all add: with_preamble_def NET_PACKET_PREAMBLE_def)

section \<open>The checksum\<close>

text \<open>Every fourth byte of the first quarter, complemented as a 32-bit number.\<close>

definition sampled :: "u8 list \<Rightarrow> nat \<Rightarrow> u8 list" where
  "sampled p sz = map (\<lambda>i. p ! i) (filter (\<lambda>i. 4 dvd i) [0..<sz div 4])"

definition quarter_sum :: "u8 list \<Rightarrow> u32" where
  "quarter_sum bs = fold (\<lambda>b acc. acc XOR NOT (ucast b)) bs 0"

lemma filter_next:
  assumes "4 dvd ix"
  shows "filter (\<lambda>i. 4 dvd i) [Suc ix..<adj] = filter (\<lambda>i. 4 dvd i) [ix + 4..<adj]"
proof -
  have "\<not> 4 dvd Suc ix" "\<not> 4 dvd Suc (Suc ix)" "\<not> 4 dvd Suc (Suc (Suc ix))" using assms by presburger+
  then show ?thesis
    by (simp add: upt_rec [of "Suc ix"] upt_rec [of "Suc (Suc ix)"] upt_rec [of "Suc (Suc (Suc ix))"] numeral_eq_Suc)
qed

lemma checksum_loop_eq:
  assumes "adj \<le> length p" and "4 dvd ix"
  shows "checksum_loop p adj ix acc =
     Ret (fold (\<lambda>b acc. acc XOR NOT (ucast b)) (map (\<lambda>i. p ! i) (filter (\<lambda>i. 4 dvd i) [ix..<adj])) acc)"
  using assms
proof (induction p adj ix acc rule: checksum_loop.induct)
  case (1 p adj ix acc)
  show ?case
  proof (cases "ix < adj")
    case True
    then show ?thesis using 1 filter_next [of ix adj]
      by (simp add: checksum_loop.simps [of p adj ix] upt_conv_Cons)
  qed (simp add: checksum_loop.simps [of p adj ix])
qed

lemma net_packet_calc_checksum_eq:
  "unat sz div 4 \<le> length p \<Longrightarrow> net_packet_calc_checksum p sz = Ret (quarter_sum (sampled p (unat sz)))"
  by (simp add: net_packet_calc_checksum_def checksum_loop_eq quarter_sum_def sampled_def)

end
