(* ===== verification/Net_Props.thy ===== *)
theory Net_Props
  imports Sel_Laws Net_Wire Demo
begin

text \<open>
  The properties of the network module (src/net.c, src/linux/proto.c, src/sel.c), and a state with two
  TCP client ports to apply them to.
\<close>

section \<open>Two ports\<close>

definition demo_ports :: nodes where
  "demo_ports = [(0x700, 0x80000000, 3, 0x7000), (0x780, 0x80000001, 4, 0x7800)]"

definition demo_addr :: net_addrinfo_t where
  "demo_addr = \<lparr>ai_ip = 0x7F000001, ai_port = 80, ai_addr = \<lparr>sin_family = AF_INET, sin_port = htons 80, sin_addr = htonl 0x7F000001\<rparr>,
     ai_addrsize = 16\<rparr>"

definition client_port :: "u32 \<Rightarrow> u32 \<Rightarrow> net_port_st" where
  "client_port rid fd = \<lparr>np_id = rid, np_name = ''port'', np_type = NET_PORT_TYPE_CLIENT, np_addr = demo_addr,
     np_status = NET_PORT_STATUS_SOCKET OR NET_PORT_STATUS_CONN, np_fd = fd, np_chanlist = 0, np_copycount = 0, np_sig = 0, np_lock = 0,
     np_proto = TCP_PROTO, np_func = 0, np_pktfunc = 0, np_upcall = 0, np_option = 0, np_interface_packet = 0,
     np_port_errno = E_NOERROR, np_block_mode = 0, np_payload_size = 4096, np_catchup_delay = 0\<rparr>"

definition net_heap :: heap where
  "net_heap = [0x1e0 \<mapsto> ListObj (list_rec NET_PORT_CLASS_NAME False demo_ports),
     0x700 \<mapsto> DataObj (node (0x80000000, 3, 0x7000) 0x780 0),
     0x780 \<mapsto> DataObj (node (0x80000001, 4, 0x7800) 0 0x700),
     0x7000 \<mapsto> PortObj (client_port 0x80000000 5), 0x7800 \<mapsto> PortObj (client_port 0x80000001 9)]"

definition net_state :: os_state where
  "net_state = demo_state\<lparr>heap := net_heap, os_res_pool := mark 7 1 (mark 7 0 os_res_pool_table), net_port_pool := 0x1e0\<rparr>"

definition net_ghost :: ghost where
  "net_ghost = [0x1e0 \<mapsto> (NET_PORT_CLASS_NAME, demo_ports)]"

text \<open>A kernel that takes two bytes at a time and is now and then busy, and nobody else running.\<close>

definition demo_net :: net_env where
  "demo_net = \<lparr>ne_socket = (\<lambda>n ty. 5), ne_setsockopt = (\<lambda>n fd opt v. 0), ne_connect = (\<lambda>n fd sa. 0), ne_bind = (\<lambda>n fd sa. 0),
     ne_listen = (\<lambda>n fd. 0), ne_accept = (\<lambda>n fd. (6, \<lparr>sin_family = AF_INET, sin_port = 0, sin_addr = 0\<rparr>, 16)),
     ne_send = (\<lambda>n fd bs a. if n mod 3 = 0 then (- 1, EAGAIN) else (int (min 2 (length bs)), 0)),
     ne_recv = (\<lambda>n fd want. (int want, replicate want 7, \<lparr>sin_family = AF_INET, sin_port = 0, sin_addr = 0\<rparr>, 16)),
     ne_getsockname = (\<lambda>n fd. (\<lparr>sin_family = AF_INET, sin_port = 0, sin_addr = 0\<rparr>, 16)),
     ne_getfl = (\<lambda>n fd. 0), ne_setfl = (\<lambda>n fd fl. 0), ne_upcall = (\<lambda>f a b c s. Ret (c, s)), ne_pktfunc = (\<lambda>f p s. Ret (0, s)),
     ne_junk_packet = (\<lambda>n. \<lparr>pk_h = bytes_hdr (replicate 32 0), pk_payload = 0, pk_priv = 0\<rparr>),
     ne_junk_chan = (\<lambda>n. \<lparr>ch_name = '''', ch_buff = 0, ch_cnum = 0, ch_total_bytes = 0, ch_packets = 0, ch_msgq = 0, ch_lock = 0,
        ch_disabled = 0, ch_port = 0\<rparr>),
     ne_junk_port = (\<lambda>n. client_port 0 0), ne_fn = (\<lambda>f. 0x4000)\<rparr>"

definition quiet_thr :: thr_env where
  "quiet_thr = \<lparr>te_join = (\<lambda>h s. Ret ((), s)), te_stop = (\<lambda>h s. Ret ((), s)), te_sleep = (\<lambda>s. Ret ((), s)), te_thread_init = 0x40\<rparr>"

lemma net_state_simps [simp]: "heap net_state = net_heap" "net_port_pool net_state = 0x1e0" "net_out net_state = (\<lambda>fd. [])"
  by (simp_all add: net_state_def demo_state_def)

lemma net_pool_find [simp]: "pool_find NET_PORT_CLASS_NAME os_res_pool_table 0 = Some 7"
  by (simp add: os_res_pool_table_def mk_pool_def res_name_defs strncmp_eq_def)

lemma net_ids: "ids_used NET_PORT_CLASS_NAME (os_res_pool net_state) = {0x80000000, 0x80000001}"
proof -
  have b: "rp_base (os_res_pool_table ! 7) = 0x80000000" by (simp add: os_res_pool_table_def mk_pool_def)
  have b': "rp_base (mark 7 0 os_res_pool_table ! 7) = 0x80000000" using b by (simp add: mark_def)
  have u: "ids_used NET_PORT_CLASS_NAME os_res_pool_table = {}" by (simp add: ids_used_def)
  show ?thesis using b b' u by (auto simp: net_state_def ids_mark pools_ok_mark cell_id_def)
qed

lemma net_demo_ok: "ports_ok net_state net_ghost demo_ports"
proof -
  have "list_at net_state 0x1e0 NET_PORT_CLASS_NAME False demo_ports"
    unfolding list_at_def net_state_simps by (simp add: net_heap_def demo_ports_def) (use net_ids in simp)
  then have "lists_ok net_state net_ghost" by (auto simp: lists_ok_def net_ghost_def split: if_splits)
  moreover have "mem_ok net_state" by (simp add: net_state_def demo_state_def mem_ok_def)
  moreover have "pools_ok (os_res_pool net_state)" by (simp add: net_state_def pools_ok_mark)
  ultimately have "kit_ok net_state net_ghost" by (simp add: kit_ok_def)
  moreover have "table net_state net_ghost 0x1e0 NET_PORT_CLASS_NAME is_port demo_ports"
    by (simp add: table_def net_ghost_def demo_ports_def net_heap_def)
  ultimately show ?thesis by (simp add: ports_ok_def)
qed

lemma net_demo:
  "lookup demo_ports 0x80000000 = Some 0x7000" "lookup demo_ports 0x80000001 = Some 0x7800"
  "net_heap 0x7000 = Some (PortObj (client_port 0x80000000 5))" "net_heap 0x7800 = Some (PortObj (client_port 0x80000001 9))"
  by (simp_all add: lookup_Cons demo_ports_def net_heap_def)

lemma demo_net_ok: "send_ok demo_net" "sleep_ok quiet_thr fd M ps"
  by (auto simp: send_ok_def demo_net_def sleep_ok_def quiet_thr_def)

section \<open>Properties\<close>

text \<open>C11. Sending over TCP, whatever the kernel takes at a time and however often it is busy: the call
  returns after finitely many rounds; on OKAY exactly the bytes of the caller have been appended to what
  the kernel has of the descriptor, on ERROR a proper prefix of them; the ports stay sound.\<close>

theorem net_tcp_send_delivers:
  assumes "ports_ok s M ps" and "lookup ps r = Some a" and "heap s a = Some (PortObj p)"
    and "net_port_proto_iscommunicatable a s = Ret OKAY" and "0 \<le> sint sz" and "sint sz \<le> int (length blk)"
    and "sleep_ok T (np_fd p) M ps" and "send_ok N"
  shows "\<exists>res s' k. net_tcp_send N T a blk sz addr s = Ret (res, s') \<and> ports_ok s' M ps
     \<and> net_out s' (np_fd p) = net_out s (np_fd p) @ take k blk
     \<and> (res = OKAY \<and> k = nat (sint sz) \<or> res = ERROR \<and> k < nat (sint sz))"
  using net_tcp_send_total [OF assms(1) table_lookup(1) [OF ports_okD(2) [OF assms(1)] assms(2)] assms(3-8)] by blast

theorem net_tcp_send_witness:
  "\<exists>res s' k. net_tcp_send demo_net quiet_thr 0x7000 [1, 2, 3, 4, 5] 5 NullAddr net_state = Ret (res, s')
     \<and> net_out s' 5 = take k [1, 2, 3, 4, 5] \<and> (res = OKAY \<and> k = 5 \<or> res = ERROR \<and> k < 5)"
proof -
  have c: "net_port_proto_iscommunicatable 0x7000 net_state = Ret OKAY"
    by (simp add: net_port_proto_iscommunicatable_def load_def net_demo client_port_def NET_PORT_TYPE_CLIENT_def
        NET_PORT_STATUS_SOCKET_def NET_PORT_STATUS_CONN_def)
  have "np_fd (client_port 0x80000000 5) = 5" by (simp add: client_port_def)
  then show ?thesis
    using net_tcp_send_delivers [OF net_demo_ok net_demo(1), of "client_port 0x80000000 5" 5 "[1, 2, 3, 4, 5]" quiet_thr demo_net NullAddr]
      net_demo c demo_net_ok by simp blast
qed

text \<open>C28. Receiving over TCP returns after finitely many rounds, and OKAY means that exactly the number of
  bytes asked for has arrived; on ERROR it is fewer.\<close>

theorem net_tcp_recv_exact:
  assumes "ports_ok s M ps" and "lookup ps r = Some a" and "heap s a = Some (PortObj p)"
    and "net_port_proto_iscommunicatable a s = Ret OKAY" and "0 \<le> sint sz" and "sleep_ok T (np_fd p) M ps" and "recv_ok N"
  shows "\<exists>res out s'. net_tcp_recv N T a sz addr s = Ret ((res, out, addr), s') \<and> ports_ok s' M ps
     \<and> (res = OKAY \<and> length out = nat (sint sz) \<or> res = ERROR \<and> length out < nat (sint sz))"
  using net_tcp_recv_total [OF assms(1) table_lookup(1) [OF ports_okD(2) [OF assms(1)] assms(2)] assms(3-7)] by blast

theorem net_tcp_recv_witness:
  "\<exists>res out s'. net_tcp_recv demo_net quiet_thr 0x7000 4 NullAddr net_state = Ret ((res, out, NullAddr), s')
     \<and> (res = OKAY \<and> length out = 4 \<or> res = ERROR \<and> length out < 4)"
proof -
  have c: "net_port_proto_iscommunicatable 0x7000 net_state = Ret OKAY"
    by (simp add: net_port_proto_iscommunicatable_def load_def net_demo client_port_def NET_PORT_TYPE_CLIENT_def
        NET_PORT_STATUS_SOCKET_def NET_PORT_STATUS_CONN_def)
  have "recv_ok demo_net" by (simp add: recv_ok_def demo_net_def)
  then show ?thesis
    using net_tcp_recv_exact [OF net_demo_ok net_demo(1), of "client_port 0x80000000 5" 4 quiet_thr demo_net NullAddr]
      net_demo c demo_net_ok by simp blast
qed

text \<open>The checksum of a packet is the exclusive or over every fourth byte of the first quarter of the
  payload: changing any other byte leaves it as it is.\<close>

theorem checksum_samples:
  assumes "unat sz div 4 \<le> length p"
  shows "net_packet_calc_checksum p sz = Ret (quarter_sum (sampled p (unat sz)))
     \<and> (\<forall>i b. \<not> (4 dvd i \<and> i < unat sz div 4) \<longrightarrow> net_packet_calc_checksum (p[i := b]) sz = net_packet_calc_checksum p sz)"
proof -
  have "sampled (p[i := b]) (unat sz) = sampled p (unat sz)" if "\<not> (4 dvd i \<and> i < unat sz div 4)" for i b
  proof -
    have "p[i := b] ! x = p ! x" if "4 dvd x" "x < unat sz div 4" for x
      using that \<open>\<not> (4 dvd i \<and> i < unat sz div 4)\<close> by (cases "x = i") auto
    then show ?thesis by (auto simp: sampled_def)
  qed
  then show ?thesis using net_packet_calc_checksum_eq [OF assms] net_packet_calc_checksum_eq [of sz "p[_ := _]"] assms by simp
qed

theorem checksum_witness:
  "net_packet_calc_checksum (replicate 20 1) 20 = net_packet_calc_checksum ((replicate 20 1)[7 := 9]) 20"
  using checksum_samples [of 20 "replicate 20 1"] by simp

text \<open>C21. A group of ports to select on: as long as it stays smaller than its array, adding ports answers
  OKAY, the group then has exactly the old members and the new ports, each once, with their descriptors in
  both sets and below the maximum; a port more in a full group is written behind the array.\<close>

theorem select_group_invariant:
  assumes "ports_ok s M ps" and "sel_ok s ps g" and "\<forall>r \<in> set rs. selectable s ps r"
  shows "(length (members g) + length rs < NET_SEL_MAX_SIZE \<longrightarrow>
       (\<exists>g'. net_port_proto_select_group (Some g) (rs @ [0]) s = Ret (OKAY, Some g') \<and> sel_ok s ps g'
          \<and> set (members g') = set (members g) \<union> set rs))
     \<and> (length (members g) = NET_SEL_MAX_SIZE \<and> rs \<noteq> [] \<and> hd rs \<notin> set (members g) \<longrightarrow>
       net_port_proto_select_group (Some g) (rs @ [0]) s = Fault OutOfBounds)"
proof (intro conjI impI)
  assume room: "length (members g) + length rs < NET_SEL_MAX_SIZE"
  then show "\<exists>g'. net_port_proto_select_group (Some g) (rs @ [0]) s = Ret (OKAY, Some g') \<and> sel_ok s ps g'
          \<and> set (members g') = set (members g) \<union> set rs"
    using sel_group_loop_adds [OF assms room, of 0] by (auto simp: net_port_proto_select_group_def)
next
  assume full: "length (members g) = NET_SEL_MAX_SIZE \<and> rs \<noteq> [] \<and> hd rs \<notin> set (members g)"
  then obtain r rs' where "rs = r # rs'" by (cases rs) auto
  then show "net_port_proto_select_group (Some g) (rs @ [0]) s = Fault OutOfBounds"
    using sel_group_overflows [OF assms(1,2), of r "rs' @ [0]"] full assms(3) by (simp add: net_port_proto_select_group_def)
qed

theorem select_group_witness:
  "\<exists>g'. net_port_proto_select_group (Some sel_empty) [0x80000000, 0x80000001, 0] net_state = Ret (OKAY, Some g')
     \<and> set (members g') = {0x80000000, 0x80000001}"
proof -
  have "selectable net_state demo_ports r" if "r \<in> set [0x80000000, 0x80000001]" for r
    using that net_demo by (auto simp: selectable_def port_of_Some client_port_def FD_SETSIZE_def)
  then show ?thesis
    using select_group_invariant [OF net_demo_ok sel_empty_ok(1), of "[0x80000000, 0x80000001]"]
    by (simp add: sel_empty_ok NET_SEL_MAX_SIZE_def) blast
qed

end
