(* ===== verification/Buff_Laws.thy ===== *)
theory Buff_Laws
  imports Qbuff_Laws
begin

text \<open>
  Buffer classes (src/buff.c): the size of a block, the history chain of a class, the invariant of a
  class, and what allocation and release do to it.
\<close>

unbundle bit_operations_syntax

section \<open>The size of a block\<close>

lemma and_not_7: "x AND NOT 7 = push_bit 3 (drop_bit 3 x)" for x :: u64
proof -
  have "x AND NOT (mask 3) = push_bit 3 (drop_bit 3 x)"
    by (rule bit_word_eqI) (auto simp: bit_simps)
  then show ?thesis by (simp add: mask_eq_exp_minus_1)
qed
lemma unat_and_not_7: "unat (x AND - 8) = 8 * (unat x div 8)" for x :: u64
proof -
  have d: "unat (drop_bit 3 x) = unat x div 8" by (simp only: unat_drop_bit_eq) (simp add: drop_bit_eq_div)
  have "unat x < 2 ^ 64" using unsigned_less [of x, where ?'a = nat] by simp
  then have "8 * (unat x div 8) < 2 ^ 64" by simp
  then show ?thesis using and_not_7 [of x] by (simp add: push_bit_eq_mult unat_word_ariths d mult.commute)
qed

lemma MEM_ALIGN_8:
  assumes "unat x < 2 ^ 63"
  shows "unat (MEM_ALIGN x 8) = 8 * (unat x div 8) + 8"
  using assms by (simp add: MEM_ALIGN_def unat_word_ariths unat_and_not_7)

lemma CALC_ACTUAL_BUFF_SIZE_bounds:
  assumes "unat sz + 64 < 2 ^ 32"
  shows "unat sz + 56 < unat (CALC_ACTUAL_BUFF_SIZE sz)" "unat (CALC_ACTUAL_BUFF_SIZE sz) \<le> unat sz + 64"
    "8 dvd unat (CALC_ACTUAL_BUFF_SIZE sz)"
proof -
  have u: "unat (ucast sz + BUFF_OFFSET_SIZE + 32 :: u64) = unat sz + 56"
    using assms by (simp add: BUFF_OFFSET_SIZE_def unat_word_ariths unsigned_ucast_eq take_bit_nat_eq_self)
  have "unat (MEM_ALIGN (ucast sz + BUFF_OFFSET_SIZE + 32) 8) = 8 * ((unat sz + 56) div 8) + 8"
    using assms MEM_ALIGN_8 [of "ucast sz + BUFF_OFFSET_SIZE + 32"] by (simp add: u)
  then have "unat (CALC_ACTUAL_BUFF_SIZE sz) = 8 * ((unat sz + 56) div 8) + 8"
    using assms by (simp add: CALC_ACTUAL_BUFF_SIZE_def unsigned_ucast_eq take_bit_nat_eq_self)
  then show "unat sz + 56 < unat (CALC_ACTUAL_BUFF_SIZE sz)" "unat (CALC_ACTUAL_BUFF_SIZE sz) \<le> unat sz + 64"
    "8 dvd unat (CALC_ACTUAL_BUFF_SIZE sz)" by simp_all
qed

section \<open>The history chain\<close>

text \<open>A node of the history with the size and the block it stands for.\<close>

type_synonym hitem = "addr \<times> u32 \<times> addr"

definition hnode :: "u32 \<Rightarrow> addr \<Rightarrow> addr \<Rightarrow> buff_history_st" where
  "hnode sz b nx = \<lparr>bh_oname = '''', bh_size = sz, bh_data = b, bh_next = nx\<rparr>"

lemma hnode_sel [simp]:
  "bh_size (hnode sz b nx) = sz" "bh_data (hnode sz b nx) = b" "bh_next (hnode sz b nx) = nx"
  "(hnode sz b nx)\<lparr>bh_next := ny\<rparr> = hnode sz b ny"
  by (simp_all add: hnode_def)

lemma hnode_inject [simp]: "hnode sz b nx = hnode sz' b' nx' \<longleftrightarrow> sz = sz' \<and> b = b' \<and> nx = nx'"
  by (simp add: hnode_def)

fun hchain :: "heap \<Rightarrow> addr \<Rightarrow> hitem list \<Rightarrow> addr \<Rightarrow> bool" where
  "hchain h a [] e \<longleftrightarrow> a = e"
| "hchain h a ((x, sz, b) # hs) e \<longleftrightarrow> a = x \<and> x \<noteq> 0 \<and> (\<exists>nx. h x = Some (HistObj (hnode sz b nx)) \<and> hchain h nx hs e)"

abbreviation hnodes :: "hitem list \<Rightarrow> addr list" where "hnodes hs \<equiv> map fst hs"
abbreviation hblocks :: "hitem list \<Rightarrow> addr list" where "hblocks hs \<equiv> map (\<lambda>x. snd (snd x)) hs"

lemma hchain_append: "hchain h a (xs @ ys) e \<longleftrightarrow> (\<exists>m. hchain h a xs m \<and> hchain h m ys e)"
proof (induction xs arbitrary: a)
  case (Cons x xs) then show ?case by (cases x) auto
qed simp

lemma hchain_cong:
  "(\<And>x. x \<in> set (hnodes hs) \<Longrightarrow> h' x = h x) \<Longrightarrow> hchain h' a hs e = hchain h a hs e"
  by (induction hs arbitrary: a) auto

lemma hchain_node:
  assumes "hchain h a hs e" and "x \<in> set (hnodes hs)"
  shows "x \<noteq> 0" "\<exists>n. h x = Some (HistObj n)"
proof -
  have "x \<noteq> 0 \<and> (\<exists>n. h x = Some (HistObj n))"
    using assms
  proof (induction hs arbitrary: a)
    case (Cons y hs) then show ?case by (cases y; cases "x = fst y") auto
  qed simp
  then show "x \<noteq> 0" "\<exists>n. h x = Some (HistObj n)" by blast+
qed

lemma hchain_Nil0: "hchain h a hs 0 \<Longrightarrow> a = 0 \<longleftrightarrow> hs = []"
  by (cases hs) auto

text \<open>The walk to the last node.\<close>

lemma hist_last_walk:
  assumes "hchain (heap s) nx hs 0"
  shows "while_o (\<lambda>(pivot, nx). nx \<noteq> 0) (hist_last_body s) (pv, nx) = Ret (last (pv # hnodes hs), 0)"
  using assms
proof (induction hs arbitrary: pv nx)
  case (Cons x hs)
  obtain n sz b where x: "x = (n, sz, b)" by (cases x) auto
  with Cons.prems obtain ny where n: "nx = n" "n \<noteq> 0" "heap s n = Some (HistObj (hnode sz b ny))" "hchain (heap s) ny hs 0"
    by auto
  have "while_o (\<lambda>(pivot, nx). nx \<noteq> 0) (hist_last_body s) (pv, nx) = while_o (\<lambda>(pivot, nx). nx \<noteq> 0) (hist_last_body s) (n, ny)"
    by (rule while_o_Ret) (use n in \<open>simp_all add: hist_last_body_def load_def\<close>)
  then show ?case using Cons.IH [OF n(4), of n] x by simp
qed simp

text \<open>The search for a block.\<close>

lemma hist_search:
  assumes "hchain (heap s) a hs 0"
  obtains hst where "while_o (\<lambda>(found, hst). \<not> found \<and> hst \<noteq> 0) (hist_search_body s b) (False, a) = Ret (b \<in> set (hblocks hs), hst)"
  using assms
proof (induction hs arbitrary: a thesis)
  case (Cons x hs)
  obtain n sz c where x: "x = (n, sz, c)" by (cases x) auto
  with Cons.prems(2) obtain ny where n: "a = n" "n \<noteq> 0" "heap s n = Some (HistObj (hnode sz c ny))" "hchain (heap s) ny hs 0"
    by auto
  let ?y = "if c = b then (True, n) else (False, ny)"
  have "while_o (\<lambda>(found, hst). \<not> found \<and> hst \<noteq> 0) (hist_search_body s b) (False, a) =
      while_o (\<lambda>(found, hst). \<not> found \<and> hst \<noteq> 0) (hist_search_body s b) ?y"
    by (rule while_o_Ret) (use n in \<open>simp_all add: hist_search_body_def load_def\<close>)
  then show ?case using Cons.IH [OF _ n(4)] Cons.prems(1) x by (cases "c = b") auto
qed simp

text \<open>The walk to a node, which also remembers the node before it.\<close>

lemma hist_prev_walk:
  assumes "hchain (heap s) a xs hst" and "hst \<notin> set (hnodes xs)"
  shows "while_o (\<lambda>(prev, trace). trace \<noteq> hst \<and> trace \<noteq> 0) (hist_prev_body s) (pv, a) = Ret (last (pv # hnodes xs), hst)"
  using assms
proof (induction xs arbitrary: pv a)
  case (Cons x xs)
  obtain n sz b where x: "x = (n, sz, b)" by (cases x) auto
  with Cons.prems(1) obtain ny where n: "a = n" "n \<noteq> 0" "heap s n = Some (HistObj (hnode sz b ny))" "hchain (heap s) ny xs hst"
    by auto
  have "while_o (\<lambda>(prev, trace). trace \<noteq> hst \<and> trace \<noteq> 0) (hist_prev_body s) (pv, a) =
      while_o (\<lambda>(prev, trace). trace \<noteq> hst \<and> trace \<noteq> 0) (hist_prev_body s) (n, ny)"
    by (rule while_o_Ret) (use n x Cons.prems(2) in \<open>auto simp: hist_prev_body_def load_def\<close>)
  then show ?case using Cons.IH [OF n(4), of n] x Cons.prems(2) by simp
qed simp

text \<open>Relinking the last node of a part of the chain.\<close>

lemma hchain_relink:
  assumes "hchain h a (xs @ [(x, sz, b)]) e" and "distinct (hnodes (xs @ [(x, sz, b)]))"
  shows "hchain (h(x \<mapsto> HistObj (hnode sz b e'))) a (xs @ [(x, sz, b)]) e'"
proof -
  from assms(1) obtain m where m: "hchain h a xs m" "m = x" "x \<noteq> 0" by (auto simp: hchain_append)
  have "hchain (h(x \<mapsto> HistObj (hnode sz b e'))) a xs m"
    using m(1) assms(2) by (subst hchain_cong) auto
  then show ?thesis using m(2,3) by (auto simp: hchain_append)
qed

section \<open>A class and its locks\<close>

definition is_class :: "obj \<Rightarrow> bool" where "is_class ob \<longleftrightarrow> the_class ob \<noteq> None"

lemma is_class_simps [simp]: "is_class (ClassObj c)"
  "\<not> is_class (MutexObj m)" "\<not> is_class (HistObj n)" "\<not> is_class (BuffHdrObj bh)" "\<not> is_class (Uninit k)"
  by (auto simp: is_class_def)

lemma is_class_plain: "is_class ob \<Longrightarrow> \<not> list_obj ob \<and> plain ob"
  by (auto simp: is_class_def)

lemma is_classE: "is_class ob \<Longrightarrow> \<exists>c. ob = ClassObj c"
  by (auto simp: is_class_def)

text \<open>Objects that are neither part of a list, nor a lock, nor a class.\<close>

definition loose :: "obj \<Rightarrow> bool" where
  "loose x \<longleftrightarrow> plain x \<and> \<not> is_class x"

lemma loose_simps [simp]:
  "loose (HistObj n)" "loose (BuffHdrObj bh)" "loose (Uninit k)" "\<not> loose (MutexObj m)" "\<not> loose (ClassObj c)"
  by (simp_all add: loose_def plain_def is_mutex_def is_cond_def)

lemma looseD: "loose x \<Longrightarrow> \<not> list_obj x \<and> \<not> is_mutex x \<and> \<not> is_cond x \<and> \<not> is_class x \<and> plain x"
  by (simp add: loose_def plain_def)

definition same_class :: "buff_class_node \<Rightarrow> buff_class_node \<Rightarrow> bool" where
  "same_class C C' \<longleftrightarrow> bc_id C' = bc_id C \<and> bc_lock C' = bc_lock C \<and> bc_h_lock C' = bc_h_lock C \<and> bc_osize C' = bc_osize C
     \<and> bc_totsize C' = bc_totsize C \<and> bc_h_start C' = bc_h_start C \<and> bc_data C' = bc_data C"

text \<open>
  The class \<open>rid\<close> is the object \<open>p\<close> with contents \<open>C\<close>, registered among the classes \<open>bs\<close>; its locks are the
  mutexes at \<open>lp\<close> and \<open>hp\<close>; its history is on.
\<close>

definition class_env ::
    "os_state \<Rightarrow> ghost \<Rightarrow> nodes \<Rightarrow> nodes \<Rightarrow> nodes \<Rightarrow> u32 \<Rightarrow> addr \<Rightarrow> buff_class_node \<Rightarrow> addr \<Rightarrow> OS_MUTEX \<Rightarrow> addr \<Rightarrow> OS_MUTEX \<Rightarrow> bool" where
  "class_env s M ms cs bs rid p C lp m hp hm \<longleftrightarrow>
     var_ok s M ms cs \<and> table s M (buffer_class_list s) BUFFER_CLASS_NAME is_class bs
     \<and> (\<exists>x \<in> set bs. it_data (snd x) = p)
     \<and> (\<forall>x \<in> set bs. \<forall>C'. heap s (it_data (snd x)) = Some (ClassObj C') \<longrightarrow> (bc_id C' = rid \<longleftrightarrow> it_data (snd x) = p))
     \<and> heap s p = Some (ClassObj C) \<and> bc_h_start C \<noteq> 0 \<and> unat (bc_osize C) + 64 < 2 ^ 32
     \<and> lookup ms (bc_lock C) = Some lp \<and> heap s lp = Some (MutexObj m)
     \<and> lookup ms (bc_h_lock C) = Some hp \<and> heap s hp = Some (MutexObj hm) \<and> lp \<noteq> hp"

lemma class_envD:
  assumes "class_env s M ms cs bs rid p C lp m hp hm"
  shows "var_ok s M ms cs" "table s M (buffer_class_list s) BUFFER_CLASS_NAME is_class bs"
    "heap s p = Some (ClassObj C)" "p \<noteq> 0" "heap s lp = Some (MutexObj m)" "heap s hp = Some (MutexObj hm)" "lp \<noteq> hp"
    "bc_h_start C \<noteq> 0" "unat (bc_osize C) + 64 < 2 ^ 32" "bc_id C = rid"
  using assms by (auto simp: class_env_def table_def)

lemma class_env_frame:
  assumes ce: "class_env s M ms cs bs rid p C lp m hp hm" and v: "var_ok s' M ms cs"
    and keep: "\<And>a x. heap s a = Some x \<Longrightarrow> is_class x \<or> a = lp \<or> a = hp \<Longrightarrow> heap s' a = Some x"
    and st: "buffer_class_list s' = buffer_class_list s"
  shows "class_env s' M ms cs bs rid p C lp m hp hm"
proof -
  have tb: "table s' M (buffer_class_list s) BUFFER_CLASS_NAME is_class bs"
    using keep by (intro table_frame [OF class_envD(2) [OF ce]]) blast
  have "bc_id C' = rid \<longleftrightarrow> it_data (snd x) = p"
    if x: "x \<in> set bs" "heap s' (it_data (snd x)) = Some (ClassObj C')" for x C'
  proof -
    obtain ob where "heap s (it_data (snd x)) = Some ob" "is_class ob"
      using class_envD(2) [OF ce] x(1) unfolding table_def by blast
    with is_classE obtain C2 where C2: "heap s (it_data (snd x)) = Some (ClassObj C2)" by blast
    then have "C2 = C'" using keep [OF C2] x(2) by simp
    then show ?thesis using C2 x(1) ce unfolding class_env_def by blast
  qed
  moreover have "heap s' p = Some (ClassObj C)" "heap s' lp = Some (MutexObj m)" "heap s' hp = Some (MutexObj hm)"
    using keep class_envD(3,5,6) [OF ce] by simp_all
  ultimately show ?thesis using ce v tb st unfolding class_env_def by auto
qed

lemma class_env_tick: "class_env s M ms cs bs rid p C lp m hp hm \<Longrightarrow> class_env (tick s) M ms cs bs rid p C lp m hp hm"
  by (rule class_env_frame) (auto simp: class_env_def)

lemma class_env_put:
  assumes ce: "class_env s M ms cs bs rid p C lp m hp hm" and a: "\<And>x. heap s a = Some x \<Longrightarrow> loose x"
  shows "class_env (hput a y s) M ms cs bs rid p C lp m hp hm"
proof (rule class_env_frame [OF ce])
  show "var_ok (hput a y s) M ms cs"
    by (rule var_ok_hput [OF class_envD(1) [OF ce]]) (use a looseD in blast)
  fix b x assume b: "heap s b = Some x" "is_class x \<or> b = lp \<or> b = hp"
  have "\<not> loose x" using b class_envD(5,6) [OF ce] by (auto simp: loose_def plain_def)
  then have "a \<noteq> b" using a [of x] b(1) by auto
  then show "heap (hput a y s) b = Some x" using b(1) by simp
qed simp

lemma class_env_del:
  assumes ce: "class_env s M ms cs bs rid p C lp m hp hm" and a: "\<And>x. heap s a = Some x \<Longrightarrow> loose x"
  shows "class_env (hdel a s) M ms cs bs rid p C lp m hp hm"
proof (rule class_env_frame [OF ce])
  show "var_ok (hdel a s) M ms cs"
    by (rule var_ok_fr [OF class_envD(1) [OF ce], of "{a}"]) (use a looseD in auto)
  fix b x assume b: "heap s b = Some x" "is_class x \<or> b = lp \<or> b = hp"
  have "\<not> loose x" using b class_envD(5,6) [OF ce] by (auto simp: loose_def plain_def)
  then have "a \<noteq> b" using a [of x] b(1) by auto
  then show "heap (hdel a s) b = Some x" using b(1) by simp
qed simp

lemma class_env_class:
  assumes ce: "class_env s M ms cs bs rid p C lp m hp hm" and C': "same_class C C'"
  shows "class_env (hput p (ClassObj C') s) M ms cs bs rid p C' lp m hp hm"
proof -
  have p: "heap s p = Some (ClassObj C)" "p \<noteq> lp" "p \<noteq> hp" using class_envD [OF ce] by auto
  have v: "var_ok (hput p (ClassObj C') s) M ms cs"
    by (rule var_ok_hput [OF class_envD(1) [OF ce]]) (use p in \<open>auto simp: is_mutex_def is_cond_def\<close>)
  have "table (hput p (ClassObj C') s) M (buffer_class_list s) BUFFER_CLASS_NAME is_class bs"
    by (rule table_frame [OF class_envD(2) [OF ce]]) (use p in auto)
  then show ?thesis using ce v p C' by (auto simp: class_env_def same_class_def)
qed

lemma class_env_locks:
  assumes ce: "class_env s M ms cs bs rid p C lp m hp hm"
  shows "class_env (hput lp (MutexObj m') s) M ms cs bs rid p C lp m' hp hm"
    "class_env (hput hp (MutexObj hm') s) M ms cs bs rid p C lp m hp hm'"
proof -
  have *: "var_ok (hput a (MutexObj m') s) M ms cs" "table (hput a (MutexObj m') s) M (buffer_class_list s) BUFFER_CLASS_NAME is_class bs"
    if "heap s a = Some (MutexObj m'')" for a m' m''
    using that by (intro var_ok_hput [OF class_envD(1) [OF ce]] table_frame [OF class_envD(2) [OF ce]]; auto)+
  show "class_env (hput lp (MutexObj m') s) M ms cs bs rid p C lp m' hp hm"
    using ce * [OF class_envD(5) [OF ce], of m'] class_envD(3,5,7) [OF ce] by (auto simp: class_env_def)
  show "class_env (hput hp (MutexObj hm') s) M ms cs bs rid p C lp m hp hm'"
    using ce * [OF class_envD(6) [OF ce], of hm'] class_envD(3,6,7) [OF ce] by (auto simp: class_env_def)
qed

lemma class_lock:
  assumes ce: "class_env s M ms cs bs rid p C lp m hp hm"
  shows "mutex_free m \<Longrightarrow> os_mutex_lock (bc_lock C) 0 s = Ret (OKAY, hput lp (MutexObj (lock_rec m)) s)"
    "mutex_free hm \<Longrightarrow> os_mutex_lock (bc_h_lock C) 0 s = Ret (OKAY, hput hp (MutexObj (lock_rec hm)) s)"
  using ce mutex_lock_step [OF class_envD(1) [OF ce]] by (simp_all add: class_env_def)

lemma class_unlock:
  assumes ce: "class_env s M ms cs bs rid p C lp (lock_rec m) hp hm" and "mutex_free m"
  shows "os_mutex_unlock (bc_lock C) s = Ret (OKAY, hput lp (MutexObj m) s)"
proof -
  have "os_mutex_unlock (bc_lock C) s = Ret (OKAY, hput lp (MutexObj (unlock_rec (lock_rec m))) s)"
    by (rule mutex_unlock_step [OF class_envD(1) [OF ce]]) (use ce in \<open>simp_all add: class_env_def\<close>)
  then show ?thesis by (simp add: unlock_lock_rec [OF assms(2)])
qed

lemma class_h_unlock:
  assumes ce: "class_env s M ms cs bs rid p C lp m hp (lock_rec hm)" and "mutex_free hm"
  shows "os_mutex_unlock (bc_h_lock C) s = Ret (OKAY, hput hp (MutexObj hm) s)"
proof -
  have "os_mutex_unlock (bc_h_lock C) s = Ret (OKAY, hput hp (MutexObj (unlock_rec (lock_rec hm))) s)"
    by (rule mutex_unlock_step [OF class_envD(1) [OF ce]]) (use ce in \<open>simp_all add: class_env_def\<close>)
  then show ?thesis by (simp add: unlock_lock_rec [OF assms(2)])
qed

lemma class_find:
  assumes ce: "class_env s M ms cs bs rid p C lp m hp hm"
  shows "buff_class_find rid s = Ret p"
proof -
  note tb = class_envD(2) [OF ce]
  have at: "list_at s (buffer_class_list s) BUFFER_CLASS_NAME False bs"
    using kit_okD(3) [OF var_okD(1) [OF class_envD(1) [OF ce]]] tb by (simp add: table_def)
  have cmp: "buff_class_comparator rid a s = Ret (if it_data it = p then OKAY else ERROR)" if x: "(a, it) \<in> set bs" for a it
  proof -
    obtain ob where "heap s (it_data it) = Some ob" "is_class ob" "it_data it \<noteq> 0"
      using tb x unfolding table_def by fastforce
    then obtain C' where C': "heap s (it_data it) = Some (ClassObj C')" "it_data it \<noteq> 0" using is_classE by blast
    then have "bc_id C' = rid \<longleftrightarrow> it_data it = p" using ce x unfolding class_env_def by fastforce
    then show ?thesis using list_node [OF at x] C' by (auto simp: buff_class_comparator_def load_def)
  qed
  obtain x where x: "x \<in> set bs" "it_data (snd x) = p" using ce by (auto simp: class_env_def)
  obtain y where y: "find (\<lambda>x. it_data (snd x) = p) bs = Some y"
    using x by (metis (mono_tags, lifting) find_None_iff not_None_eq)
  then have yy: "(fst y, snd y) \<in> set bs" "it_data (snd y) = p" by (auto simp: find_Some_iff)
  from list_node [OF at yy(1)] obtain nx pv where "load the_data (fst y) s = Ret (node (snd y) nx pv)" "fst y \<noteq> 0" by blast
  then show ?thesis using os_list_find_eq [OF at, of "buff_class_comparator rid" "\<lambda>it. it_data it = p", OF cmp] y yy(2) by (simp add: buff_class_find_def)
qed

section \<open>The blocks of a class\<close>

definition bhdr :: "u32 \<Rightarrow> u32 \<Rightarrow> addr \<Rightarrow> buff_hdr" where
  "bhdr rid sz hloc = \<lparr>bb_magic = ucast BOUNDARY_MAGIC_NUM, bb_size = sz, bb_id = rid, bb_hloc = hloc, bb_end = BOUNDARY_MAGIC_NUM\<rparr>"

lemma bhdr_sel [simp]: "bb_size (bhdr rid sz x) = sz" "bb_hloc (bhdr rid sz x) = x" "(bhdr rid sz x)\<lparr>bb_hloc := y\<rparr> = bhdr rid sz y"
  by (simp_all add: bhdr_def)

text \<open>What a client may keep in a block.\<close>

definition payload :: "obj \<Rightarrow> bool" where
  "payload y \<longleftrightarrow> loose y \<and> the_hist y = None \<and> the_buff_hdr y = None"

lemma payload_simps [simp]: "payload (Uninit k)" "\<not> payload (HistObj n)" "\<not> payload (BuffHdrObj x)" "\<not> payload (ClassObj c)" "\<not> payload (MutexObj m)"
  by (simp_all add: payload_def)

definition block_at :: "heap \<Rightarrow> u32 \<Rightarrow> addr \<Rightarrow> u32 \<Rightarrow> addr \<Rightarrow> bool" where
  "block_at h rid x sz b \<longleftrightarrow> b + BUFF_OFFSET_SIZE \<noteq> 0 \<and> b \<noteq> 0 \<and> h b = Some (BuffHdrObj (bhdr rid sz x))
     \<and> (\<exists>y. h (b + BUFF_OFFSET_SIZE) = Some y \<and> payload y) \<and> unat sz + 64 < 2 ^ 32"

abbreviation cost :: "u32 \<Rightarrow> nat" where "cost sz \<equiv> unat (CALC_ACTUAL_BUFF_SIZE sz)"

definition class_rep :: "heap \<Rightarrow> u32 \<Rightarrow> buff_class_node \<Rightarrow> hitem list \<Rightarrow> (addr \<times> u32) list \<Rightarrow> bool" where
  "class_rep h rid C hs us \<longleftrightarrow> hchain h (bc_h C) hs 0 \<and> distinct (hnodes hs) \<and> distinct (hblocks hs @ map fst us)
     \<and> (\<forall>(x, sz, b) \<in> set hs. block_at h rid x sz b) \<and> (\<forall>(b, sz) \<in> set us. block_at h rid 0 sz b)
     \<and> unat (bc_availsize C) + (\<Sum>(x, sz, b)\<leftarrow>hs. cost sz) + (\<Sum>(b, sz)\<leftarrow>us. cost sz) = unat (bc_totsize C)"

lemma block_at_cong: "h' b = h b \<Longrightarrow> h' (b + BUFF_OFFSET_SIZE) = h (b + BUFF_OFFSET_SIZE) \<Longrightarrow> block_at h' rid x sz b = block_at h rid x sz b"
  by (simp add: block_at_def)

lemma hchain_other:
  assumes "hchain h a hs e" and "\<And>x n. h x = Some (HistObj n) \<Longrightarrow> h' x = h x"
  shows "hchain h' a hs e"
proof -
  have "hchain h' a hs e = hchain h a hs e"
    by (rule hchain_cong) (use assms(2) hchain_node(2) [OF assms(1)] in blast)
  with assms(1) show ?thesis by simp
qed

text \<open>Everything of the class but the nodes of the history stays in place.\<close>

definition blocks_kept :: "heap \<Rightarrow> heap \<Rightarrow> bool" where
  "blocks_kept h h' \<longleftrightarrow> (\<forall>a y. h a = Some y \<and> (payload y \<or> the_buff_hdr y \<noteq> None) \<longrightarrow> h' a = Some y)"

lemma blocks_keptD: "blocks_kept h h' \<Longrightarrow> h a = Some y \<Longrightarrow> payload y \<or> the_buff_hdr y \<noteq> None \<Longrightarrow> h' a = Some y"
  by (simp add: blocks_kept_def)

lemma block_obj: "payload y \<or> the_buff_hdr y \<noteq> None \<Longrightarrow> \<not> is_mutex y \<and> \<not> is_class y"
  by (auto simp: payload_def loose_def plain_def is_mutex_def is_class_def)

lemma hist_obj: "\<not> is_mutex (HistObj n) \<and> \<not> is_class (HistObj n)"
  by (simp add: is_mutex_def)

lemma block_at_kept: "blocks_kept h h' \<Longrightarrow> block_at h rid x sz b \<Longrightarrow> block_at h' rid x sz b"
  unfolding block_at_def blocks_kept_def by fastforce

lemma blocks_kept_trans: "blocks_kept h h' \<Longrightarrow> blocks_kept h' h'' \<Longrightarrow> blocks_kept h h''"
  unfolding blocks_kept_def by blast

lemma blocks_kept_put: "(\<And>y. h a = Some y \<Longrightarrow> \<not> payload y \<and> the_buff_hdr y = None) \<Longrightarrow> blocks_kept h (h(a \<mapsto> z))"
  unfolding blocks_kept_def by (metis fun_upd_other)

section \<open>Appending to the history\<close>

lemma hist_append_run:
  assumes ce: "class_env s M ms cs bs rid p C lp m hp hm" and ch: "hchain (heap s) (bc_h C) hs 0"
    and d: "distinct (hnodes hs)" and x: "heap s x = Some (HistObj (hnode sz b 0))" "x \<noteq> 0" "x \<notin> set (hnodes hs)"
  obtains s' C' where "hist_append p x s = Ret s'" "class_env s' M ms cs bs rid p C' lp m hp hm"
    "hchain (heap s') (bc_h C') (hs @ [(x, sz, b)]) 0" "C' = C\<lparr>bc_h := bc_h C'\<rparr>" "blocks_kept (heap s) (heap s')"
    "calls s' = calls s"
proof (cases hs rule: rev_cases)
  case Nil
  let ?C = "C\<lparr>bc_h := x\<rparr>"
  have p: "heap s p = Some (ClassObj C)" "p \<noteq> 0" using class_envD [OF ce] by auto
  have run: "hist_append p x s = Ret (hput p (ClassObj ?C) s)"
    using ch Nil p by (simp add: hist_append_def upd_class_def load_def)
  have "p \<noteq> x" using p x by auto
  then have "hchain (heap (hput p (ClassObj ?C) s)) (bc_h ?C) (hs @ [(x, sz, b)]) 0" using Nil x by auto
  moreover have "blocks_kept (heap s) (heap (hput p (ClassObj ?C) s))" using p by (auto intro: blocks_kept_put)
  moreover have "class_env (hput p (ClassObj ?C) s) M ms cs bs rid p ?C lp m hp hm"
    by (rule class_env_class [OF ce]) (simp add: same_class_def)
  ultimately show thesis using that [OF run] by simp
next
  case (snoc ys y)
  obtain n sy cy where y: "y = (n, sy, cy)" by (cases y) auto
  let ?s = "hput n (HistObj (hnode sy cy x)) s"
  have p: "heap s p = Some (ClassObj C)" "p \<noteq> 0" using class_envD [OF ce] by auto
  from ch snoc y obtain k where k: "hchain (heap s) (bc_h C) ys n" "n \<noteq> 0" "heap s n = Some (HistObj (hnode sy cy k))" "k = 0"
    by (auto simp: hchain_append)
  have c0: "bc_h C \<noteq> 0" using hchain_Nil0 [OF ch] snoc by simp
  obtain z zs where z: "hs = z # zs" using c0 ch by (cases hs) auto
  obtain f sf cf where f: "z = (f, sf, cf)" by (cases z) auto
  from ch z f obtain nx where nx: "bc_h C = f" "heap s f = Some (HistObj (hnode sf cf nx))" "hchain (heap s) nx zs 0" by auto
  have "last (hnodes hs) = n" using snoc y by simp
  moreover have "hnodes hs = f # hnodes zs" using z f by simp
  ultimately have "last (f # hnodes zs) = n" by simp
  then have run: "hist_append p x s = Ret ?s"
    using hist_last_walk [OF nx(3), of f] p k nx(1,2) c0 by (simp add: hist_append_def load_def)
  have "hchain (heap ?s) (bc_h C) hs x"
    using hchain_relink [of "heap s" "bc_h C" ys n sy cy 0 x] ch d snoc y by simp
  moreover have "x \<noteq> n" using x(3) snoc y by auto
  ultimately have "hchain (heap ?s) (bc_h C) (hs @ [(x, sz, b)]) 0" using x(1,2) by (auto simp: hchain_append)
  moreover have "blocks_kept (heap s) (heap ?s)" using k(3) by (auto intro: blocks_kept_put)
  moreover have "class_env ?s M ms cs bs rid p C lp m hp hm" by (rule class_env_put [OF ce]) (use k in auto)
  ultimately show thesis using that [OF run, of C] by simp
qed

end
