(* ===== verification/Buff_Pool.thy ===== *)
theory Buff_Pool
  imports Buff_Laws
begin

text \<open>
  Allocation and release of blocks of a buffer class on its invariant, and the contract of a pool of
  blocks that they implement.
\<close>

section \<open>Allocation\<close>

definition pool_at ::
    "os_state \<Rightarrow> ghost \<Rightarrow> nodes \<Rightarrow> nodes \<Rightarrow> nodes \<Rightarrow> u32 \<Rightarrow> addr \<Rightarrow> buff_class_node \<Rightarrow> addr \<Rightarrow> OS_MUTEX \<Rightarrow> addr \<Rightarrow> OS_MUTEX
      \<Rightarrow> hitem list \<Rightarrow> (addr \<times> u32) list \<Rightarrow> bool" where
  "pool_at s M ms cs bs rid p C lp m hp hm hs us \<longleftrightarrow>
     class_env s M ms cs bs rid p C lp m hp hm \<and> mutex_free m \<and> mutex_free hm \<and> class_rep (heap s) rid C hs us"

lemma pool_at_tick: "pool_at s M ms cs bs rid p C lp m hp hm hs us \<Longrightarrow> pool_at (tick s) M ms cs bs rid p C lp m hp hm hs us"
  by (simp add: pool_at_def class_env_tick)

lemma class_rep_other:
  assumes "class_rep h rid C hs us" and "blocks_kept h h'" and "\<And>x n. h x = Some (HistObj n) \<Longrightarrow> h' x = h x"
  shows "class_rep h' rid C hs us"
  using assms hchain_other [of h "bc_h C" hs 0 h'] block_at_kept [OF assms(2)]
  unfolding class_rep_def by blast

text \<open>The new block before it gets into the history: header, payload, counters.\<close>

definition carved :: "u32 \<Rightarrow> u32 \<Rightarrow> addr \<Rightarrow> addr \<Rightarrow> buff_class_node \<Rightarrow> os_state \<Rightarrow> os_state" where
  "carved rid sz b p C s = hput p (ClassObj C) (hput (b + BUFF_OFFSET_SIZE) (Uninit (ucast sz)) (hput b (BuffHdrObj (bhdr rid sz 0)) s))"

definition charged :: "u32 \<Rightarrow> buff_class_node \<Rightarrow> buff_class_node" where
  "charged sz C = C\<lparr>bc_availsize := bc_availsize C - CALC_ACTUAL_BUFF_SIZE sz, bc_numblocks := bc_numblocks C + 1\<rparr>"

lemma region_block:
  assumes E: "env_ok E" and b: "b = e_region_alloc E n r (ucast (CALC_ACTUAL_BUFF_SIZE sz)) h" "b \<noteq> 0" and sz: "unat sz + 64 < 2 ^ 32"
  shows "h b = None" "h (b + BUFF_OFFSET_SIZE) = None" "b + BUFF_OFFSET_SIZE \<noteq> 0" "b + BUFF_OFFSET_SIZE \<noteq> b"
proof -
  have len: "56 < unat (ucast (CALC_ACTUAL_BUFF_SIZE sz) :: u64)"
    using CALC_ACTUAL_BUFF_SIZE_bounds(1) [OF sz] by (simp add: unsigned_ucast_eq)
  have *: "b + of_nat i \<noteq> 0 \<and> h (b + of_nat i) = None" if "i < 57" for i
  proof -
    have "i < unat (ucast (CALC_ACTUAL_BUFF_SIZE sz) :: u64)" using len that by linarith
    then show ?thesis using E b by (simp add: env_ok_def region_fresh_def Let_def)
  qed
  show "h b = None" "h (b + BUFF_OFFSET_SIZE) = None" "b + BUFF_OFFSET_SIZE \<noteq> 0"
    using * [of 0] * [of 24] by (simp_all add: BUFF_OFFSET_SIZE_def)
  show "b + BUFF_OFFSET_SIZE \<noteq> b" by (simp add: BUFF_OFFSET_SIZE_def)
qed

lemma carved_env:
  assumes ce: "class_env s M ms cs bs rid p C lp m hp hm" and C': "same_class C C'"
    and b: "heap s b = None" "heap s (b + BUFF_OFFSET_SIZE) = None" "b + BUFF_OFFSET_SIZE \<noteq> b"
  shows "class_env (carved rid sz b p C' s) M ms cs bs rid p C' lp m hp hm"
    "heap (carved rid sz b p C' s) = (heap s)(b \<mapsto> BuffHdrObj (bhdr rid sz 0), b + BUFF_OFFSET_SIZE \<mapsto> Uninit (ucast sz), p \<mapsto> ClassObj C')"
    "calls (carved rid sz b p C' s) = calls s"
proof -
  let ?t = "hput b (BuffHdrObj (bhdr rid sz 0)) s"
  have "class_env ?t M ms cs bs rid p C lp m hp hm" by (rule class_env_put [OF ce]) (use b in simp)
  then have "class_env (hput (b + BUFF_OFFSET_SIZE) (Uninit (ucast sz)) ?t) M ms cs bs rid p C lp m hp hm"
    by (rule class_env_put) (use b in simp)
  then show "class_env (carved rid sz b p C' s) M ms cs bs rid p C' lp m hp hm"
    unfolding carved_def by (rule class_env_class [OF _ C'])
qed (simp_all add: carved_def)

lemma buff_refuses:
  assumes ce: "class_env s M ms cs bs rid p C lp m hp hm" and m: "mutex_free m"
  shows "os_mutex_unlock (bc_lock C) (hput lp (MutexObj (lock_rec m)) s) = Ret (OKAY, s)"
    "os_mutex_unlock (bc_lock C) (tick (hput lp (MutexObj (lock_rec m)) s)) = Ret (OKAY, tick s)"
proof -
  note l = class_env_locks(1) [OF ce, of "lock_rec m"]
  have "hput lp (MutexObj m) s = s" by (rule hput_same [OF class_envD(5) [OF ce]])
  then show "os_mutex_unlock (bc_lock C) (hput lp (MutexObj (lock_rec m)) s) = Ret (OKAY, s)"
    using class_unlock [OF l m] by simp
  have "hput lp (MutexObj m) (tick (hput lp (MutexObj (lock_rec m)) s)) = tick s"
    using class_envD(5) [OF ce] by (simp add: hput_def tick_def fun_upd_idem)
  then show "os_mutex_unlock (bc_lock C) (tick (hput lp (MutexObj (lock_rec m)) s)) = Ret (OKAY, tick s)"
    using class_unlock [OF class_env_tick [OF l] m] by simp
qed

text \<open>The charge for a block that fits.\<close>

lemma charged_sum:
  assumes "\<not> bc_availsize C \<le> CALC_ACTUAL_BUFF_SIZE sz"
  shows "unat (bc_availsize (charged sz C)) + cost sz = unat (bc_availsize C)"
  using assms by (simp add: charged_def unat_sub_if' word_le_nat_alt)

lemma same_class_charged: "same_class C (charged sz C)" "bc_h (charged sz C) = bc_h C"
  by (simp_all add: same_class_def charged_def)

text \<open>
  The end of an allocation whose history node is in place or could not be had: both locks are given back.
\<close>

lemma class_rep_new:
  assumes rep: "class_rep h rid C hs us" and kept: "blocks_kept h h'" and fresh: "h b = None"
    and blk: "block_at h' rid x sz b" and av: "\<not> bc_availsize C \<le> CALC_ACTUAL_BUFF_SIZE sz"
    and C': "bc_availsize C' = bc_availsize (charged sz C)" "bc_totsize C' = bc_totsize C \<and> bc_osize C' = bc_osize C"
  shows "x = 0 \<Longrightarrow> hchain h' (bc_h C') hs 0 \<Longrightarrow> class_rep h' rid C' hs (us @ [(b, sz)])"
    "h x = None \<Longrightarrow> hchain h' (bc_h C') (hs @ [(x, sz, b)]) 0 \<Longrightarrow> class_rep h' rid C' (hs @ [(x, sz, b)]) us"
proof -
  have old: "\<forall>(x, sz, b) \<in> set hs. block_at h rid x sz b" "\<forall>(b, sz) \<in> set us. block_at h rid 0 sz b"
    using rep by (simp_all add: class_rep_def)
  have bh: "b \<notin> set (hblocks hs)" "b \<notin> fst ` set us" using old fresh by (auto simp: block_at_def)
  have nodes: "x \<notin> set (hnodes hs)" if "h x = None"
    using that rep hchain_node(2) [of h "bc_h C" hs 0 x] by (auto simp: class_rep_def)
  have new: "\<forall>(x, sz, b) \<in> set hs. block_at h' rid x sz b" "\<forall>(b, sz) \<in> set us. block_at h' rid 0 sz b"
    using old block_at_kept [OF kept] by blast+
  note c = charged_sum [OF av] and r = rep [unfolded class_rep_def]
  show "class_rep h' rid C' hs (us @ [(b, sz)])" if "x = 0" "hchain h' (bc_h C') hs 0"
    unfolding class_rep_def using that r new bh blk c C' by (auto simp: algebra_simps)
  show "class_rep h' rid C' (hs @ [(x, sz, b)]) us" if "h x = None" "hchain h' (bc_h C') (hs @ [(x, sz, b)]) 0"
    unfolding class_rep_def using that r new bh blk c C' nodes by (auto simp: algebra_simps)
qed

text \<open>The common part of an allocation that is not refused: the block is carved out with the lock held.\<close>

lemma buff_alloc_carves:
  assumes E: "env_ok E" and ce: "class_env s M ms cs bs rid p C lp m hp hm" and m: "mutex_free m"
    and sz: "sz \<noteq> 0" "\<not> bc_osize C < sz" "\<not> bc_totsize C \<le> CALC_ACTUAL_BUFF_SIZE sz" "\<not> bc_availsize C \<le> CALC_ACTUAL_BUFF_SIZE sz"
    and b: "b = e_region_alloc E (calls s) (bc_data C) (ucast (CALC_ACTUAL_BUFF_SIZE sz)) (heap (hput lp (MutexObj (lock_rec m)) s))" "b \<noteq> 0"
  obtains t where "heap s b = None" "heap s (b + BUFF_OFFSET_SIZE) = None" "b + BUFF_OFFSET_SIZE \<noteq> 0" "b + BUFF_OFFSET_SIZE \<noteq> b" "unat sz + 64 < 2 ^ 32"
    "class_env t M ms cs bs rid p (charged sz C) lp (lock_rec m) hp hm"
    "heap t = (heap s)(lp \<mapsto> MutexObj (lock_rec m), b \<mapsto> BuffHdrObj (bhdr rid sz 0), b + BUFF_OFFSET_SIZE \<mapsto> Uninit (ucast sz), p \<mapsto> ClassObj (charged sz C))"
    "buff_alloc_data E rid sz s =
       obind (obind (os_malloc E (ucast (e_sizeof E T_buff_history_st)) t) (\<lambda>(h_temp, s).
                 if h_temp = 0 then set_hloc b 0 s
                 else let s = hput h_temp (HistObj (hnode sz b 0)) s in
                   obind (os_mutex_lock (bc_h_lock C) 0 s) (\<lambda>(r, s).
                   obind (hist_append p h_temp s) (\<lambda>s.
                   obind (set_hloc b h_temp s) (\<lambda>s.
                   obind (os_mutex_unlock (bc_h_lock C) s) (\<lambda>(r, s). Ret s))))))
         (\<lambda>s. obind (os_mutex_unlock (bc_lock C) s) (\<lambda>(r, s). Ret (b + BUFF_OFFSET_SIZE, s)))"
proof -
  let ?s1 = "hput lp (MutexObj (lock_rec m)) s"
  let ?t = "carved rid sz b p (charged sz C) (tick ?s1)"
  have s64: "unat sz + 64 < 2 ^ 32" using class_envD(9) [OF ce] sz(2) by (simp add: word_less_nat_alt)
  note blk = region_block [OF E b s64]
  have ce1: "class_env (tick ?s1) M ms cs bs rid p C lp (lock_rec m) hp hm" by (intro class_env_tick class_env_locks(1) [OF ce])
  have bl: "b \<noteq> lp" "b + BUFF_OFFSET_SIZE \<noteq> lp" using blk(1,2) by auto
  then have f: "heap s b = None" "heap s (b + BUFF_OFFSET_SIZE) = None" using blk(1,2) by simp_all
  have bp: "b \<noteq> p" "b + BUFF_OFFSET_SIZE \<noteq> p" using f class_envD(3) [OF ce] by auto
  have plp: "p \<noteq> lp" using class_envD(3,5) [OF ce] by auto
  have bb: "e_region_alloc E (calls s) (bc_data C) (ucast (CALC_ACTUAL_BUFF_SIZE sz)) ((heap s)(lp \<mapsto> MutexObj (lock_rec m))) = b"
    using b(1) by simp
  note ct = carved_env [OF ce1 same_class_charged(1) [of C sz], of b sz]
  have "buff_alloc_data E rid sz s =
       obind (obind (os_malloc E (ucast (e_sizeof E T_buff_history_st)) ?t) (\<lambda>(h_temp, s).
                 if h_temp = 0 then set_hloc b 0 s
                 else let s = hput h_temp (HistObj (hnode sz b 0)) s in
                   obind (os_mutex_lock (bc_h_lock C) 0 s) (\<lambda>(r, s).
                   obind (hist_append p h_temp s) (\<lambda>s.
                   obind (set_hloc b h_temp s) (\<lambda>s.
                   obind (os_mutex_unlock (bc_h_lock C) s) (\<lambda>(r, s). Ret s))))))
         (\<lambda>s. obind (os_mutex_unlock (bc_lock C) s) (\<lambda>(r, s). Ret (b + BUFF_OFFSET_SIZE, s)))"
    using sz b(2) bp plp class_envD(3,4,8) [OF ce] blk(4)
    by (simp add: bb buff_alloc_data_def class_find [OF ce] load_def class_lock(1) [OF ce m] Let_def upd_class_def
        carved_def bhdr_def charged_def hnode_def cong: if_cong)
  then show thesis
    using that [of ?t] f blk(3,4) s64 ct bl by simp
qed

lemma buff_alloc_unlisted:
  assumes P: "pool_at s M ms cs bs rid p C lp m hp hm hs us" and f: "heap s b = None" "heap s (b + BUFF_OFFSET_SIZE) = None"
      "b + BUFF_OFFSET_SIZE \<noteq> 0" "b + BUFF_OFFSET_SIZE \<noteq> b" "b \<noteq> 0" "unat sz + 64 < 2 ^ 32"
    and t: "class_env t M ms cs bs rid p (charged sz C) lp (lock_rec m) hp hm"
      "heap t = (heap s)(lp \<mapsto> MutexObj (lock_rec m), b \<mapsto> BuffHdrObj (bhdr rid sz 0), b + BUFF_OFFSET_SIZE \<mapsto> Uninit (ucast sz), p \<mapsto> ClassObj (charged sz C))"
    and av: "\<not> bc_availsize C \<le> CALC_ACTUAL_BUFF_SIZE sz"
  shows "set_hloc b 0 (tick t) = Ret (tick t)"
    "os_mutex_unlock (bc_lock C) (tick t) = Ret (OKAY, hput lp (MutexObj m) (tick t))"
    "pool_at (hput lp (MutexObj m) (tick t)) M ms cs bs rid p (charged sz C) lp m hp hm hs (us @ [(b, sz)])"
    "blocks_kept (heap s) (heap (hput lp (MutexObj m) (tick t)))"
proof -
  note * = P [unfolded pool_at_def]
  have ce: "class_env s M ms cs bs rid p C lp m hp hm" and fr: "mutex_free m" "mutex_free hm" and rep: "class_rep (heap s) rid C hs us"
    using * by simp_all
  let ?u = "hput lp (MutexObj m) (tick t)"
  have ne: "b \<noteq> p" "b + BUFF_OFFSET_SIZE \<noteq> p" "b \<noteq> lp" "b + BUFF_OFFSET_SIZE \<noteq> lp" "p \<noteq> lp"
    using f(1,2) class_envD(3,5) [OF ce] by auto
  have tb: "heap t b = Some (BuffHdrObj (bhdr rid sz 0))" using t(2) ne f(4) by simp
  show "set_hloc b 0 (tick t) = Ret (tick t)" using tb f(5) by (simp add: set_hloc_def load_def hput_same)
  show "os_mutex_unlock (bc_lock C) (tick t) = Ret (OKAY, ?u)"
    using class_unlock [OF class_env_tick [OF t(1)] fr(1)] same_class_charged(1) [of C sz] by (simp add: same_class_def)
  have same: "heap ?u a = Some y" if "heap s a = Some y" "\<not> is_mutex y" "\<not> is_class y" for a y
    using that t(2) f(1,2) class_envD(3,5) [OF ce] by (auto simp: fun_upd_def)
  show kept: "blocks_kept (heap s) (heap ?u)"
    unfolding blocks_kept_def using same block_obj by blast
  have "class_env ?u M ms cs bs rid p (charged sz C) lp m hp hm" by (rule class_env_locks(1) [OF class_env_tick [OF t(1)]])
  moreover have "class_rep (heap ?u) rid (charged sz C) hs (us @ [(b, sz)])"
  proof (rule class_rep_new(1) [OF rep kept f(1), of 0])
    show "block_at (heap ?u) rid 0 sz b" using t(2) ne f(3-6) by (simp add: block_at_def)
    show "hchain (heap ?u) (bc_h (charged sz C)) hs 0"
      unfolding same_class_charged(2) by (rule hchain_other [of "heap s"]) (use rep same hist_obj in \<open>auto simp: class_rep_def\<close>)
  qed (use av in \<open>simp_all add: charged_def\<close>)
  ultimately show "pool_at ?u M ms cs bs rid p (charged sz C) lp m hp hm hs (us @ [(b, sz)])"
    using fr by (simp add: pool_at_def)
qed

lemma buff_alloc_listed:
  assumes P: "pool_at s M ms cs bs rid p C lp m hp hm hs us" and f: "heap s b = None" "heap s (b + BUFF_OFFSET_SIZE) = None"
      "b + BUFF_OFFSET_SIZE \<noteq> 0" "b + BUFF_OFFSET_SIZE \<noteq> b" "b \<noteq> 0" "unat sz + 64 < 2 ^ 32"
    and t: "class_env t M ms cs bs rid p (charged sz C) lp (lock_rec m) hp hm"
      "heap t = (heap s)(lp \<mapsto> MutexObj (lock_rec m), b \<mapsto> BuffHdrObj (bhdr rid sz 0), b + BUFF_OFFSET_SIZE \<mapsto> Uninit (ucast sz), p \<mapsto> ClassObj (charged sz C))"
    and av: "\<not> bc_availsize C \<le> CALC_ACTUAL_BUFF_SIZE sz" and x: "x \<noteq> 0" "heap t x = None"
    and v: "v = hput x (HistObj (hnode sz b 0)) (hput x (Uninit k) (tick t))"
  obtains w w' C' where "os_mutex_lock (bc_h_lock C) 0 v = Ret (OKAY, hput hp (MutexObj (lock_rec hm)) v)"
    "hist_append p x (hput hp (MutexObj (lock_rec hm)) v) = Ret w" "set_hloc b x w = Ret (hput b (BuffHdrObj (bhdr rid sz x)) w)"
    "os_mutex_unlock (bc_h_lock C) (hput b (BuffHdrObj (bhdr rid sz x)) w) = Ret (OKAY, w')"
    "os_mutex_unlock (bc_lock C) w' = Ret (OKAY, hput lp (MutexObj m) w')"
    "pool_at (hput lp (MutexObj m) w') M ms cs bs rid p C' lp m hp hm (hs @ [(x, sz, b)]) us"
    "blocks_kept (heap s) (heap (hput lp (MutexObj m) w'))" "bc_totsize C' = bc_totsize C \<and> bc_osize C' = bc_osize C"
proof -
  note * = P [unfolded pool_at_def]
  have ce: "class_env s M ms cs bs rid p C lp m hp hm" and fr: "mutex_free m" "mutex_free hm" and rep: "class_rep (heap s) rid C hs us"
    using * by simp_all
  let ?C1 = "charged sz C" and ?v1 = "hput hp (MutexObj (lock_rec hm)) v"
  have lk: "bc_lock ?C1 = bc_lock C" "bc_h_lock ?C1 = bc_h_lock C" "bc_h ?C1 = bc_h C" by (simp_all add: charged_def)
  have ne: "b \<noteq> p" "b + BUFF_OFFSET_SIZE \<noteq> p" "b \<noteq> lp" "b + BUFF_OFFSET_SIZE \<noteq> lp" "p \<noteq> lp" "b \<noteq> hp" "b + BUFF_OFFSET_SIZE \<noteq> hp"
    using f(1,2) class_envD(3,5,6) [OF ce] by auto
  have xn: "x \<noteq> lp" "x \<noteq> b" "x \<noteq> b + BUFF_OFFSET_SIZE" "x \<noteq> p" "heap s x = None" using x(2) t(2) by (auto split: if_splits)
  have cv: "class_env v M ms cs bs rid p ?C1 lp (lock_rec m) hp hm"
    unfolding v by (intro class_env_put class_env_tick t(1)) (use x(2) in auto)
  have lock: "os_mutex_lock (bc_h_lock C) 0 v = Ret (OKAY, ?v1)" using class_lock(2) [OF cv fr(2)] lk by simp
  note cv1 = class_env_locks(2) [OF cv, of "lock_rec hm"]
  have hv: "heap ?v1 = (heap t)(x \<mapsto> HistObj (hnode sz b 0), hp \<mapsto> MutexObj (lock_rec hm))" using v by simp
  have xh: "x \<noteq> hp" using xn(5) class_envD(6) [OF ce] by auto
  have same: "heap ?v1 a = Some y" if "heap s a = Some y" "\<not> is_mutex y" "\<not> is_class y" for a y
  proof -
    have "a \<noteq> lp" "a \<noteq> hp" "a \<noteq> p" "a \<noteq> b" "a \<noteq> b + BUFF_OFFSET_SIZE" "a \<noteq> x"
      using that f(1,2) xn(5) class_envD(3,5,6) [OF ce] by auto
    then show ?thesis using that(1) unfolding hv t(2) by simp
  qed
  have "hchain (heap ?v1) (bc_h ?C1) hs 0"
    unfolding lk by (rule hchain_other [of "heap s"]) (use rep same hist_obj in \<open>auto simp: class_rep_def\<close>)
  moreover have "distinct (hnodes hs)" "x \<notin> set (hnodes hs)"
    using rep hchain_node(2) [of "heap s" "bc_h C" hs 0 x] xn(5) by (auto simp: class_rep_def)
  moreover have "heap ?v1 x = Some (HistObj (hnode sz b 0))" using hv xh by simp
  ultimately obtain w C' where w: "hist_append p x ?v1 = Ret w" "class_env w M ms cs bs rid p C' lp (lock_rec m) hp (lock_rec hm)"
    "hchain (heap w) (bc_h C') (hs @ [(x, sz, b)]) 0" "C' = ?C1\<lparr>bc_h := bc_h C'\<rparr>" "blocks_kept (heap ?v1) (heap w)"
    using x(1) hist_append_run [OF cv1, of hs x sz b] by metis
  have lk': "bc_lock C' = bc_lock C" "bc_h_lock C' = bc_h_lock C" "bc_availsize C' = bc_availsize ?C1" "bc_totsize C' = bc_totsize C \<and> bc_osize C' = bc_osize C"
    by (subst w(4), simp add: charged_def)+
  have vb: "heap ?v1 b = Some (BuffHdrObj (bhdr rid sz 0))" "heap ?v1 (b + BUFF_OFFSET_SIZE) = Some (Uninit (ucast sz))"
    unfolding hv t(2) using ne f(4) xn by simp_all
  have wb: "heap w b = Some (BuffHdrObj (bhdr rid sz 0))" "heap w (b + BUFF_OFFSET_SIZE) = Some (Uninit (ucast sz))"
    using blocks_keptD [OF w(5) vb(1)] blocks_keptD [OF w(5) vb(2)] by simp_all
  let ?w1 = "hput b (BuffHdrObj (bhdr rid sz x)) w"
  have hl: "set_hloc b x w = Ret ?w1" using wb(1) f(5) by (simp add: set_hloc_def load_def)
  have c1: "class_env ?w1 M ms cs bs rid p C' lp (lock_rec m) hp (lock_rec hm)" by (rule class_env_put [OF w(2)]) (use wb in auto)
  let ?w2 = "hput hp (MutexObj hm) ?w1" and ?w3 = "hput lp (MutexObj m) (hput hp (MutexObj hm) ?w1)"
  have u1: "os_mutex_unlock (bc_h_lock C) ?w1 = Ret (OKAY, ?w2)" using class_h_unlock [OF c1 fr(2)] lk' by simp
  note c2 = class_env_locks(2) [OF c1, of hm]
  have u2: "os_mutex_unlock (bc_lock C) ?w2 = Ret (OKAY, ?w3)" using class_unlock [OF c2 fr(1)] lk' by simp
  have kw: "heap w a = Some y \<Longrightarrow> a \<noteq> b \<Longrightarrow> \<not> is_mutex y \<Longrightarrow> heap ?w3 a = Some y" for a y
    using class_envD(5,6) [OF w(2)] by auto
  have kept: "blocks_kept (heap s) (heap ?w3)"
    unfolding blocks_kept_def
  proof (intro allI impI)
    fix a y assume y: "heap s a = Some y \<and> (payload y \<or> the_buff_hdr y \<noteq> None)"
    then have nm: "\<not> is_mutex y" "\<not> is_class y" using block_obj by blast+
    then have "heap w a = Some y" using blocks_keptD [OF w(5)] y same [of a y] by blast
    then show "heap ?w3 a = Some y" using kw [of a y] nm(1) y f(1) by auto
  qed
  have "class_rep (heap ?w3) rid C' (hs @ [(x, sz, b)]) us"
  proof (rule class_rep_new(2) [OF rep kept f(1) _ av])
    show "block_at (heap ?w3) rid x sz b" using wb(2) ne f(3-6) by (simp add: block_at_def)
    show "hchain (heap ?w3) (bc_h C') (hs @ [(x, sz, b)]) 0"
      by (rule hchain_other [OF w(3)]) (use wb(1) class_envD(5,6) [OF w(2)] in auto)
  qed (use lk' xn(5) in simp_all)
  moreover have "class_env ?w3 M ms cs bs rid p C' lp m hp hm" by (rule class_env_locks(1) [OF c2])
  ultimately have "pool_at ?w3 M ms cs bs rid p C' lp m hp hm (hs @ [(x, sz, b)]) us" using fr by (simp add: pool_at_def)
  then show thesis using that [OF lock w(1) hl u1 u2 _ kept lk'(4)] by simp
qed

lemma buff_alloc_cases:
  assumes E: "env_ok E" and P: "pool_at s M ms cs bs rid p C lp m hp hm hs us"
  obtains (refused) s' where "buff_alloc_data E rid sz s = Ret (0, s')" "s' = s \<or> s' = tick s"
  | (unlisted) b s' C' where "buff_alloc_data E rid sz s = Ret (b + BUFF_OFFSET_SIZE, s')" "b + BUFF_OFFSET_SIZE \<noteq> 0"
      "heap s b = None" "heap s (b + BUFF_OFFSET_SIZE) = None"
      "pool_at s' M ms cs bs rid p C' lp m hp hm hs (us @ [(b, sz)])" "blocks_kept (heap s) (heap s')" "bc_totsize C' = bc_totsize C \<and> bc_osize C' = bc_osize C"
  | (listed) b x s' C' where "buff_alloc_data E rid sz s = Ret (b + BUFF_OFFSET_SIZE, s')" "b + BUFF_OFFSET_SIZE \<noteq> 0"
      "heap s b = None" "heap s (b + BUFF_OFFSET_SIZE) = None"
      "pool_at s' M ms cs bs rid p C' lp m hp hm (hs @ [(x, sz, b)]) us" "blocks_kept (heap s) (heap s')" "bc_totsize C' = bc_totsize C \<and> bc_osize C' = bc_osize C"
proof -
  have ce: "class_env s M ms cs bs rid p C lp m hp hm" and m: "mutex_free m" using P by (simp_all add: pool_at_def)
  let ?R = "CALC_ACTUAL_BUFF_SIZE sz"
  define b where "b = e_region_alloc E (calls s) (bc_data C) (ucast ?R) (heap (hput lp (MutexObj (lock_rec m)) s))"
  note head = buff_alloc_data_def class_find [OF ce] load_def class_lock(1) [OF ce m] Let_def buff_refuses [OF ce m]
  consider (no) "sz = 0 \<or> bc_osize C < sz \<or> bc_totsize C \<le> ?R \<or> bc_availsize C \<le> ?R"
    | (out) "sz \<noteq> 0" "\<not> bc_osize C < sz" "\<not> bc_totsize C \<le> ?R" "\<not> bc_availsize C \<le> ?R" "b = 0"
    | (ok) "sz \<noteq> 0" "\<not> bc_osize C < sz" "\<not> bc_totsize C \<le> ?R" "\<not> bc_availsize C \<le> ?R" "b \<noteq> 0" by blast
  then show thesis
  proof cases
    case no
    have "buff_alloc_data E rid sz s = Ret (0, s)"
      using no class_envD(3,4) [OF ce] by (elim disjE) (simp_all add: head)
    then show thesis by (rule refused) simp
  next
    case out
    have "buff_alloc_data E rid sz s = Ret (0, tick s)"
      using out class_envD(3,4) [OF ce] by (simp add: b_def head)
    then show thesis by (rule refused) simp
  next
    case ok
    from buff_alloc_carves [OF E ce m ok(1-4) b_def ok(5)] obtain t where
      f: "heap s b = None" "heap s (b + BUFF_OFFSET_SIZE) = None" "b + BUFF_OFFSET_SIZE \<noteq> 0" "b + BUFF_OFFSET_SIZE \<noteq> b" "unat sz + 64 < 2 ^ 32"
      and t: "class_env t M ms cs bs rid p (charged sz C) lp (lock_rec m) hp hm"
      "heap t = (heap s)(lp \<mapsto> MutexObj (lock_rec m), b \<mapsto> BuffHdrObj (bhdr rid sz 0), b + BUFF_OFFSET_SIZE \<mapsto> Uninit (ucast sz), p \<mapsto> ClassObj (charged sz C))"
      and run: "buff_alloc_data E rid sz s =
       obind (obind (os_malloc E (ucast (e_sizeof E T_buff_history_st)) t) (\<lambda>(h_temp, s).
                 if h_temp = 0 then set_hloc b 0 s
                 else let s = hput h_temp (HistObj (hnode sz b 0)) s in
                   obind (os_mutex_lock (bc_h_lock C) 0 s) (\<lambda>(r, s).
                   obind (hist_append p h_temp s) (\<lambda>s.
                   obind (set_hloc b h_temp s) (\<lambda>s.
                   obind (os_mutex_unlock (bc_h_lock C) s) (\<lambda>(r, s). Ret s))))))
         (\<lambda>s. obind (os_mutex_unlock (bc_lock C) s) (\<lambda>(r, s). Ret (b + BUFF_OFFSET_SIZE, s)))" by blast
    define x where "x = e_malloc E (calls t) (ucast (e_sizeof E T_buff_history_st)) (heap t)"
    show thesis
    proof (cases "x = 0")
      case True
      note u = buff_alloc_unlisted [OF P f(1-4) ok(5) f(5) t ok(4)]
      show thesis
        by (rule unlisted [OF _ f(3,1,2) u(3,4)]) (use run True u(1,2) in \<open>simp_all add: os_malloc_def x_def [symmetric] Let_def charged_def\<close>)
    next
      case False
      let ?v = "hput x (HistObj (hnode sz b 0)) (hput x (Uninit (ucast (e_sizeof E T_buff_history_st))) (tick t))"
      have "0 < unat (ucast (e_sizeof E T_buff_history_st) :: u64)"
        using E by (simp add: env_ok_def sizes_ok_def unsigned_ucast_eq word_less_nat_alt)
      moreover have "\<forall>i < unat (ucast (e_sizeof E T_buff_history_st) :: u64). heap t (x + of_nat i) = None"
        using E False by (simp add: env_ok_def malloc_fresh_def x_def Let_def)
      ultimately have "heap t x = None" by fastforce
      from buff_alloc_listed [OF P f(1-4) ok(5) f(5) t ok(4) False this refl] obtain w w' C' where
        u: "os_mutex_lock (bc_h_lock C) 0 ?v = Ret (OKAY, hput hp (MutexObj (lock_rec hm)) ?v)"
        "hist_append p x (hput hp (MutexObj (lock_rec hm)) ?v) = Ret w" "set_hloc b x w = Ret (hput b (BuffHdrObj (bhdr rid sz x)) w)"
        "os_mutex_unlock (bc_h_lock C) (hput b (BuffHdrObj (bhdr rid sz x)) w) = Ret (OKAY, w')"
        "os_mutex_unlock (bc_lock C) w' = Ret (OKAY, hput lp (MutexObj m) w')"
        and pool: "pool_at (hput lp (MutexObj m) w') M ms cs bs rid p C' lp m hp hm (hs @ [(x, sz, b)]) us"
        "blocks_kept (heap s) (heap (hput lp (MutexObj m) w'))" "bc_totsize C' = bc_totsize C \<and> bc_osize C' = bc_osize C" by blast
      show thesis
        by (rule listed [OF _ f(3,1,2) pool]) (use run False u in \<open>simp add: os_malloc_def x_def [symmetric] Let_def\<close>)
    qed
  qed
qed

section \<open>Release\<close>

lemma hist_remove_run:
  assumes ce: "class_env s M ms cs bs rid p C lp m hp hm" and ch: "hchain (heap s) (bc_h C) (xs @ (x, sz, b) # ys) 0"
    and d: "distinct (hnodes (xs @ (x, sz, b) # ys))"
  obtains s' C' where "hist_remove p x sz b (Some True) s = Ret s'" "class_env s' M ms cs bs rid p C' lp m hp hm"
    "hchain (heap s') (bc_h C') (xs @ ys) 0" "C' = C\<lparr>bc_h := bc_h C'\<rparr>" "blocks_kept (heap s) (heap s')" "calls s' = calls s"
proof -
  have p: "heap s p = Some (ClassObj C)" "p \<noteq> 0" using class_envD [OF ce] by auto
  from ch obtain nx where c: "hchain (heap s) (bc_h C) xs x" "x \<noteq> 0" "heap s x = Some (HistObj (hnode sz b nx))" "hchain (heap s) nx ys 0"
    by (auto simp: hchain_append)
  have px: "p \<noteq> x" using p(1) c(3) by auto
  show thesis
  proof (cases xs rule: rev_cases)
    case Nil
    let ?C = "C\<lparr>bc_h := nx\<rparr>" and ?s = "hdel x (hput p (ClassObj (C\<lparr>bc_h := nx\<rparr>)) s)"
    have "bc_h C = x" using c(1) Nil by simp
    then have run: "hist_remove p x sz b (Some True) s = Ret ?s"
      using p c px by (simp add: hist_remove_def load_def upd_class_def os_free_def)
    have "class_env (hput p (ClassObj ?C) s) M ms cs bs rid p ?C lp m hp hm"
      by (rule class_env_class [OF ce]) (simp add: same_class_def)
    then have ce': "class_env ?s M ms cs bs rid p ?C lp m hp hm" by (rule class_env_del) (use c(3) px in auto)
    have py: "p \<notin> set (hnodes ys)" using hchain_node(2) [OF c(4), of p] p(1) by auto
    have xy: "x \<notin> set (hnodes ys)" using d by simp
    have "hchain (heap ?s) nx ys 0 = hchain (heap s) nx ys 0"
      by (rule hchain_cong) (use py xy in auto)
    moreover have "blocks_kept (heap s) (heap ?s)" using p(1) c(3) by (auto simp: blocks_kept_def)
    ultimately show thesis using that [OF run ce'] c(4) Nil by simp
  next
    case (snoc zs z)
    obtain n sn bn where z: "z = (n, sn, bn)" by (cases z) auto
    let ?s = "hdel x (hput n (HistObj (hnode sn bn nx)) s)"
    have nn: "n \<noteq> 0" "heap s n = Some (HistObj (hnode sn bn x))" using c(1) snoc z by (auto simp: hchain_append)
    have ne: "n \<noteq> x" "x \<notin> set (hnodes xs)" "x \<notin> set (hnodes ys)" "n \<notin> set (hnodes ys)" using d snoc z by auto
    have bx: "bc_h C \<noteq> x" using c(1) ne(1,2) snoc z by (cases zs) auto
    have "last (0 # hnodes xs) = n" using snoc z by simp
    then have run: "hist_remove p x sz b (Some True) s = Ret ?s"
      using hist_prev_walk [OF c(1) ne(2), of 0] p c nn ne(1) bx by (simp add: hist_remove_def load_def os_free_def)
    have "class_env (hput n (HistObj (hnode sn bn nx)) s) M ms cs bs rid p C lp m hp hm"
      by (rule class_env_put [OF ce]) (use nn(2) in auto)
    then have ce': "class_env ?s M ms cs bs rid p C lp m hp hm" by (rule class_env_del) (use c(3) ne(1) in auto)
    have "hchain (heap (hput n (HistObj (hnode sn bn nx)) s)) (bc_h C) xs nx"
      using hchain_relink [of "heap s" "bc_h C" zs n sn bn x nx] c(1) d snoc z by simp
    moreover have "hchain (heap ?s) (bc_h C) xs nx = hchain (heap (hput n (HistObj (hnode sn bn nx)) s)) (bc_h C) xs nx"
      by (rule hchain_cong) (use ne(2) in auto)
    moreover have "hchain (heap ?s) nx ys 0 = hchain (heap s) nx ys 0" by (rule hchain_cong) (use ne(3,4) in auto)
    ultimately have "hchain (heap ?s) (bc_h C) (xs @ ys) 0" using c(4) unfolding hchain_append by blast
    moreover have "blocks_kept (heap s) (heap ?s)" using nn(2) c(3) by (auto simp: blocks_kept_def)
    ultimately show thesis using that [OF run ce'] by simp
  qed
qed

definition refunded :: "u32 \<Rightarrow> buff_class_node \<Rightarrow> buff_class_node" where
  "refunded sz C = C\<lparr>bc_availsize := bc_availsize C + CALC_ACTUAL_BUFF_SIZE sz, bc_numblocks := bc_numblocks C - 1\<rparr>"

text \<open>A pointer that is not the start of a listed block is refused and nothing changes.\<close>

lemma class_h_roundtrip:
  assumes ce: "class_env s M ms cs bs rid p C lp m hp hm" and fr: "mutex_free hm"
  shows "os_mutex_unlock (bc_h_lock C) (hput hp (MutexObj (lock_rec hm)) s) = Ret (OKAY, s)"
  using class_h_unlock [OF class_env_locks(2) [OF ce, of "lock_rec hm"] fr] hput_same [OF class_envD(6) [OF ce]] by simp

lemma buff_free_search:
  assumes P: "pool_at s M ms cs bs rid p C lp m hp hm hs us" and s1: "s1 = hput lp (MutexObj (lock_rec m)) s"
  shows "class_env s1 M ms cs bs rid p C lp (lock_rec m) hp hm"
    "os_mutex_lock (bc_lock C) 0 s = Ret (OKAY, s1)" "os_mutex_lock (bc_h_lock C) 0 s1 = Ret (OKAY, hput hp (MutexObj (lock_rec hm)) s1)"
    "hchain (heap (hput hp (MutexObj (lock_rec hm)) s1)) (bc_h C) hs 0"
    "os_mutex_unlock (bc_h_lock C) (hput hp (MutexObj (lock_rec hm)) s1) = Ret (OKAY, s1)"
proof -
  have ce: "class_env s M ms cs bs rid p C lp m hp hm" and fr: "mutex_free m" "mutex_free hm" and rep: "class_rep (heap s) rid C hs us"
    using P by (simp_all add: pool_at_def)
  show ce1: "class_env s1 M ms cs bs rid p C lp (lock_rec m) hp hm" unfolding s1 by (rule class_env_locks(1) [OF ce])
  show "os_mutex_lock (bc_lock C) 0 s = Ret (OKAY, s1)" unfolding s1 by (rule class_lock(1) [OF ce fr(1)])
  show "os_mutex_lock (bc_h_lock C) 0 s1 = Ret (OKAY, hput hp (MutexObj (lock_rec hm)) s1)" by (rule class_lock(2) [OF ce1 fr(2)])
  show "hchain (heap (hput hp (MutexObj (lock_rec hm)) s1)) (bc_h C) hs 0"
    by (rule hchain_other [of "heap s"]) (use rep class_envD(5,6) [OF ce] s1 in \<open>auto simp: class_rep_def\<close>)
  show "os_mutex_unlock (bc_h_lock C) (hput hp (MutexObj (lock_rec hm)) s1) = Ret (OKAY, s1)" by (rule class_h_roundtrip [OF ce1 fr(2)])
qed

lemma buff_free_unknown:
  assumes P: "pool_at s M ms cs bs rid p C lp m hp hm hs us" and b: "buff - BUFF_OFFSET_SIZE \<notin> set (hblocks hs)"
  shows "buff_free_data rid buff s = Ret (ERROR, s)"
proof (cases "buff = 0")
  case False
  have ce: "class_env s M ms cs bs rid p C lp m hp hm" and fr: "mutex_free m" using P by (simp_all add: pool_at_def)
  note f = buff_free_search [OF P refl]
  from hist_search [OF f(4)] obtain hst where
    "while_o (\<lambda>(found, hst). \<not> found \<and> hst \<noteq> 0)
       (hist_search_body (hput hp (MutexObj (lock_rec hm)) (hput lp (MutexObj (lock_rec m)) s)) (buff - BUFF_OFFSET_SIZE)) (False, bc_h C)
     = Ret (buff - BUFF_OFFSET_SIZE \<in> set (hblocks hs), hst)" by blast
  then show ?thesis
    using False b f class_envD(3,4,8) [OF ce] buff_refuses(1) [OF ce fr]
    by (simp add: buff_free_data_def class_find [OF ce] load_def Let_def)
qed (simp add: buff_free_data_def)

lemma class_rep_freed:
  assumes rep: "class_rep h rid C (xs @ (x, sz, b) # ys) us"
    and kept: "\<And>a y. h a = Some y \<Longrightarrow> payload y \<or> the_buff_hdr y \<noteq> None \<Longrightarrow> a \<noteq> b \<Longrightarrow> a \<noteq> b + BUFF_OFFSET_SIZE \<Longrightarrow> h' a = Some y"
    and ch: "hchain h' (bc_h C') (xs @ ys) 0"
    and C': "bc_availsize C' = bc_availsize C + CALC_ACTUAL_BUFF_SIZE sz" "bc_totsize C' = bc_totsize C \<and> bc_osize C' = bc_osize C"
  shows "class_rep h' rid C' (xs @ ys) us"
proof -
  note r = rep [unfolded class_rep_def]
  have b: "block_at h rid x sz b" using r by auto
  have other: "block_at h' rid x' sz' b'" if o: "block_at h rid x' sz' b'" "b' \<noteq> b" for x' sz' b'
  proof -
    obtain y y' where y: "h (b' + BUFF_OFFSET_SIZE) = Some y" "payload y" "h (b + BUFF_OFFSET_SIZE) = Some y'" "payload y'"
      using o(1) b by (auto simp: block_at_def)
    have "b' + BUFF_OFFSET_SIZE \<noteq> b" "b' \<noteq> b + BUFF_OFFSET_SIZE" using o(1) b y by (auto simp: block_at_def)
    then have "h' b' = h b'" "h' (b' + BUFF_OFFSET_SIZE) = h (b' + BUFF_OFFSET_SIZE)"
      using o kept [of b'] kept [OF y(1)] y(1,2) by (auto simp: block_at_def)
    then show ?thesis using o(1) block_at_cong by blast
  qed
  have hsb: "\<forall>(x', sz', b') \<in> set (xs @ ys). block_at h' rid x' sz' b'"
    using r other by (fastforce dest: split_list)
  have usb: "\<forall>(b', sz') \<in> set us. block_at h' rid 0 sz' b'"
    using r other by (fastforce simp: image_iff)
  have "unat (bc_availsize C) + cost sz \<le> unat (bc_totsize C)" using r by simp
  then have "unat (bc_availsize C) + cost sz < 2 ^ 32" using unsigned_less [of "bc_totsize C", where ?'a = nat] by simp
  then have "unat (bc_availsize C') = unat (bc_availsize C) + cost sz" using C'(1) by (simp add: unat_word_ariths)
  then show ?thesis unfolding class_rep_def using r ch hsb usb C'(2) by auto
qed

lemma buff_free_listed:
  assumes P: "pool_at s M ms cs bs rid p C lp m hp hm (xs @ (x, sz, b) # ys) us"
  obtains s' C' where "buff_free_data rid (b + BUFF_OFFSET_SIZE) s = Ret (OKAY, s')"
    "pool_at s' M ms cs bs rid p C' lp m hp hm (xs @ ys) us"
    "heap s' b = None" "heap s' (b + BUFF_OFFSET_SIZE) = None" "bc_totsize C' = bc_totsize C \<and> bc_osize C' = bc_osize C"
    "\<And>a y. heap s a = Some y \<Longrightarrow> payload y \<or> the_buff_hdr y \<noteq> None \<Longrightarrow> a \<noteq> b \<Longrightarrow> a \<noteq> b + BUFF_OFFSET_SIZE \<Longrightarrow> heap s' a = Some y"
proof -
  let ?hs = "xs @ (x, sz, b) # ys"
  have ce: "class_env s M ms cs bs rid p C lp m hp hm" and fr: "mutex_free m" "mutex_free hm" and rep: "class_rep (heap s) rid C ?hs us"
    using P by (simp_all add: pool_at_def)
  define s1 where "s1 = hput lp (MutexObj (lock_rec m)) s"
  define s2 where "s2 = hput hp (MutexObj (lock_rec hm)) s1"
  note f = buff_free_search [OF P s1_def, folded s2_def]
  have blk: "b + BUFF_OFFSET_SIZE \<noteq> 0" "b \<noteq> 0" "heap s b = Some (BuffHdrObj (bhdr rid sz x))"
    and pay: "\<exists>y. heap s (b + BUFF_OFFSET_SIZE) = Some y \<and> payload y" using rep by (auto simp: class_rep_def block_at_def)
  then obtain y where y: "heap s (b + BUFF_OFFSET_SIZE) = Some y" "payload y" by blast
  have x0: "x \<noteq> 0" using hchain_node(1) [OF f(4), of x] by simp
  from hist_search [OF f(4), of b] obtain hst where
    srch: "while_o (\<lambda>(found, hst). \<not> found \<and> hst \<noteq> 0) (hist_search_body s2 b) (False, bc_h C) = Ret (True, hst)" by auto
  have ce2: "class_env s2 M ms cs bs rid p C lp (lock_rec m) hp (lock_rec hm)" unfolding s2_def by (rule class_env_locks(2) [OF f(1)])
  have "distinct (hnodes ?hs)" using rep by (simp add: class_rep_def)
  from hist_remove_run [OF ce2 f(4) this] obtain s3 C3 where s3: "hist_remove p x sz b (Some True) s2 = Ret s3"
    "class_env s3 M ms cs bs rid p C3 lp (lock_rec m) hp (lock_rec hm)" "hchain (heap s3) (bc_h C3) (xs @ ys) 0"
    "C3 = C\<lparr>bc_h := bc_h C3\<rparr>" "blocks_kept (heap s2) (heap s3)" by blast
  have C3: "bc_lock C3 = bc_lock C" "bc_h_lock C3 = bc_h_lock C" "bc_availsize C3 = bc_availsize C" "bc_totsize C3 = bc_totsize C" "bc_osize C3 = bc_osize C"
    by (subst s3(4), simp)+
  have k3: "heap s3 a = Some z" if "heap s a = Some z" "payload z \<or> the_buff_hdr z \<noteq> None" for a z
  proof (rule blocks_keptD [OF s3(5) _ that(2)])
    show "heap s2 a = Some z" using that block_obj [OF that(2)] class_envD(5,6) [OF ce] by (auto simp: s1_def s2_def)
  qed
  let ?s4 = "hput hp (MutexObj hm) s3" and ?C = "refunded sz C3"
  have u4: "os_mutex_unlock (bc_h_lock C) s3 = Ret (OKAY, ?s4)" using class_h_unlock [OF s3(2) fr(2)] C3 by simp
  note c4 = class_env_locks(2) [OF s3(2), of hm]
  have k4: "heap ?s4 a = Some z" if "heap s a = Some z" "payload z \<or> the_buff_hdr z \<noteq> None" for a z
    using k3 [OF that] block_obj [OF that(2)] class_envD(6) [OF s3(2)] by auto
  let ?s5 = "hdel (b + BUFF_OFFSET_SIZE) (hdel b ?s4)"
  have "class_env (hdel b ?s4) M ms cs bs rid p C3 lp (lock_rec m) hp hm"
    by (rule class_env_del [OF c4]) (use k4 [OF blk(3)] in simp)
  then have c5: "class_env ?s5 M ms cs bs rid p C3 lp (lock_rec m) hp hm"
    by (rule class_env_del) (use k4 [OF y(1)] y(2) in \<open>auto simp: payload_def split: if_splits\<close>)
  have "class_env (hput p (ClassObj ?C) ?s5) M ms cs bs rid p ?C lp (lock_rec m) hp hm"
    by (rule class_env_class [OF c5]) (simp add: same_class_def refunded_def)
  note c6 = this
  let ?s7 = "hput lp (MutexObj m) (hput p (ClassObj ?C) ?s5)"
  have u7: "os_mutex_unlock (bc_lock C) (hput p (ClassObj ?C) ?s5) = Ret (OKAY, ?s7)"
    using class_unlock [OF c6 fr(1)] C3 by (simp add: refunded_def)
  note c7 = class_env_locks(1) [OF c6, of m]
  have lb: "lp \<noteq> b" using blk(3) class_envD(5) [OF ce] by auto
  have s1b: "heap s1 b = Some (BuffHdrObj (bhdr rid sz x))" using blk(3) lb by (simp add: s1_def)
  have upd: "upd_class p (\<lambda>c. c\<lparr>bc_availsize := bc_availsize c + CALC_ACTUAL_BUFF_SIZE sz, bc_numblocks := bc_numblocks c - 1\<rparr>) ?s5
      = Ret (hput p (ClassObj ?C) ?s5)"
    unfolding upd_class_def load_def using class_envD(3,4) [OF c5] by (simp only:) (simp add: refunded_def)
  have run: "buff_free_data rid (b + BUFF_OFFSET_SIZE) s = Ret (OKAY, ?s7)"
    using blk(1,2) f(2,3,5) srch s3(1) u4 u7 upd class_envD(3,4,8) [OF ce] s1b x0
    by (simp add: buff_free_data_def class_find [OF ce] load_def Let_def)
  have kept: "heap ?s7 a = Some z"
    if "heap s a = Some z" "payload z \<or> the_buff_hdr z \<noteq> None" "a \<noteq> b" "a \<noteq> b + BUFF_OFFSET_SIZE" for a z
    using k4 [OF that(1,2)] that(3,4) block_obj [OF that(2)] class_envD(3,5) [OF c5] by (auto simp: hdel_def hput_def)
  have "hchain (heap ?s7) (bc_h ?C) (xs @ ys) 0"
  proof -
    have "heap ?s7 a = heap s3 a" if "heap s3 a = Some (HistObj n)" for a n
      using that class_envD(3,5,6) [OF s3(2)] k3 [OF blk(3)] k3 [OF y(1)] y(2) by (auto simp: hdel_def hput_def)
    then show ?thesis using hchain_other [OF s3(3)] by (simp add: refunded_def)
  qed
  then have "class_rep (heap ?s7) rid ?C (xs @ ys) us"
    using kept by (intro class_rep_freed [OF rep]) (simp_all add: refunded_def C3)
  then have pool: "pool_at ?s7 M ms cs bs rid p ?C lp m hp hm (xs @ ys) us" using c7 fr by (simp add: pool_at_def)
  have "p \<noteq> b" "p \<noteq> b + BUFF_OFFSET_SIZE" "lp \<noteq> b" "lp \<noteq> b + BUFF_OFFSET_SIZE" using class_envD(3,5) [OF ce] blk(3) y by auto
  then have gone: "heap ?s7 b = None" "heap ?s7 (b + BUFF_OFFSET_SIZE) = None" by simp_all
  show thesis by (rule that [OF run pool gone]) (simp add: refunded_def C3, rule kept)
qed

end
