(* ===== verification/Block_Pool.thy ===== *)
theory Block_Pool
  imports Buff_Pool
begin

text \<open>
  The contract of a pool of blocks: a block that is handed out is none of those in use, the prices of all
  blocks in use never exceed the capacity, a block can be given back once, and anything else is
  rejected. A client's sequence of calls is related to an abstract trace once, inside the locale; the
  buffer classes of src/buff.c are the instance.
\<close>

datatype pool_call = Take u32 | Give addr
datatype pool_result = Block addr | Status u32

fun pool_run :: "(u32 \<Rightarrow> 's \<Rightarrow> (addr \<times> 's) outcome) \<Rightarrow> (addr \<Rightarrow> 's \<Rightarrow> (u32 \<times> 's) outcome)
    \<Rightarrow> pool_call list \<Rightarrow> 's \<Rightarrow> (pool_result list \<times> 's) outcome" where
  "pool_run alloc release [] s = Ret ([], s)"
| "pool_run alloc release (Take sz # cs) s =
     obind (alloc sz s) (\<lambda>(a, s). obind (pool_run alloc release cs s) (\<lambda>(rs, s). Ret (Block a # rs, s)))"
| "pool_run alloc release (Give a # cs) s =
     obind (release a s) (\<lambda>(r, s). obind (pool_run alloc release cs s) (\<lambda>(rs, s). Ret (Status r # rs, s)))"

text \<open>
  The abstract pool: the blocks in use that can be given back (\<open>L\<close>) and those that cannot (\<open>U\<close>), each with
  its size.
\<close>

inductive pool_trace ::
    "(addr \<times> u32) list \<Rightarrow> (addr \<times> u32) list \<Rightarrow> pool_call list \<Rightarrow> pool_result list \<Rightarrow> (addr \<times> u32) list \<Rightarrow> (addr \<times> u32) list \<Rightarrow> bool" where
  stop: "pool_trace L U [] [] L U"
| refused: "pool_trace L U cs rs L' U' \<Longrightarrow> pool_trace L U (Take sz # cs) (Block 0 # rs) L' U'"
| taken: "a \<noteq> 0 \<Longrightarrow> a \<notin> fst ` set (L @ U) \<Longrightarrow> pool_trace (L @ [(a, sz)]) U cs rs L' U'
    \<Longrightarrow> pool_trace L U (Take sz # cs) (Block a # rs) L' U'"
| taken_for_good: "a \<noteq> 0 \<Longrightarrow> a \<notin> fst ` set (L @ U) \<Longrightarrow> pool_trace L (U @ [(a, sz)]) cs rs L' U'
    \<Longrightarrow> pool_trace L U (Take sz # cs) (Block a # rs) L' U'"
| given: "pool_trace (L1 @ L2) U cs rs L' U' \<Longrightarrow> pool_trace (L1 @ (a, sz) # L2) U (Give a # cs) (Status OKAY # rs) L' U'"
| rejected: "a \<notin> fst ` set L \<Longrightarrow> pool_trace L U cs rs L' U' \<Longrightarrow> pool_trace L U (Give a # cs) (Status ERROR # rs) L' U'"

locale block_pool =
  fixes rep :: "'s \<Rightarrow> (addr \<times> u32) list \<Rightarrow> (addr \<times> u32) list \<Rightarrow> bool"
    and alloc :: "u32 \<Rightarrow> 's \<Rightarrow> (addr \<times> 's) outcome"
    and release :: "addr \<Rightarrow> 's \<Rightarrow> (u32 \<times> 's) outcome"
    and price :: "u32 \<Rightarrow> nat"
    and capacity :: nat
  assumes rep_distinct: "rep s L U \<Longrightarrow> distinct (map fst (L @ U)) \<and> 0 \<notin> fst ` set (L @ U)"
    and rep_capacity: "rep s L U \<Longrightarrow> (\<Sum>x\<leftarrow>L @ U. price (snd x)) \<le> capacity"
    and alloc_total: "rep s L U \<Longrightarrow> \<exists>a s'. alloc sz s = Ret (a, s') \<and>
      (a = 0 \<and> rep s' L U \<or> rep s' (L @ [(a, sz)]) U \<or> rep s' L (U @ [(a, sz)]))"
    and release_listed: "rep s (L1 @ (a, sz) # L2) U \<Longrightarrow> \<exists>s'. release a s = Ret (OKAY, s') \<and> rep s' (L1 @ L2) U"
    and release_other: "rep s L U \<Longrightarrow> a \<notin> fst ` set L \<Longrightarrow> \<exists>s'. release a s = Ret (ERROR, s') \<and> rep s' L U"
begin

lemma take_step:
  assumes "rep s L U"
  obtains (refused) s' where "alloc sz s = Ret (0, s')" "rep s' L U"
  | (taken) a s' where "alloc sz s = Ret (a, s')" "a \<noteq> 0" "a \<notin> fst ` set (L @ U)" "rep s' (L @ [(a, sz)]) U"
  | (unlisted) a s' where "alloc sz s = Ret (a, s')" "a \<noteq> 0" "a \<notin> fst ` set (L @ U)" "rep s' L (U @ [(a, sz)])"
proof -
  from alloc_total [OF assms] obtain a s' where a: "alloc sz s = Ret (a, s')"
    "a = 0 \<and> rep s' L U \<or> rep s' (L @ [(a, sz)]) U \<or> rep s' L (U @ [(a, sz)])" by blast
  show thesis
    using a(2)
  proof (elim disjE conjE)
    assume r: "rep s' (L @ [(a, sz)]) U"
    show thesis by (rule taken [OF a(1) _ _ r]) (use rep_distinct [OF r] in auto)
  next
    assume r: "rep s' L (U @ [(a, sz)])"
    show thesis by (rule unlisted [OF a(1) _ _ r]) (use rep_distinct [OF r] in auto)
  qed (use a(1) refused in simp)
qed

theorem run_traces:
  assumes "rep s L U"
  shows "\<exists>rs s' L' U'. pool_run alloc release cs s = Ret (rs, s') \<and> rep s' L' U' \<and> pool_trace L U cs rs L' U'
     \<and> (\<Sum>x\<leftarrow>L' @ U'. price (snd x)) \<le> capacity"
  using assms
proof (induction cs arbitrary: s L U)
  case Nil
  then show ?case using rep_capacity [OF Nil] by (auto intro: pool_trace.stop)
next
  case (Cons c cs)
  show ?case
  proof (cases c)
    case (Take sz)
    from Cons.prems show ?thesis
    proof (cases rule: take_step [of s L U sz])
      case (refused s')
      from Cons.IH [OF refused(2)] obtain rs s2 L' U' where I: "pool_run alloc release cs s' = Ret (rs, s2)" "rep s2 L' U'"
        "pool_trace L U cs rs L' U'" "(\<Sum>x\<leftarrow>L' @ U'. price (snd x)) \<le> capacity" by blast
      have "pool_trace L U (c # cs) (Block 0 # rs) L' U'" unfolding Take by (rule pool_trace.refused [OF I(3)])
      then show ?thesis using I refused(1) Take by auto
    next
      case (taken a s')
      from Cons.IH [OF taken(4)] obtain rs s2 L' U' where I: "pool_run alloc release cs s' = Ret (rs, s2)" "rep s2 L' U'"
        "pool_trace (L @ [(a, sz)]) U cs rs L' U'" "(\<Sum>x\<leftarrow>L' @ U'. price (snd x)) \<le> capacity" by blast
      have "pool_trace L U (c # cs) (Block a # rs) L' U'" unfolding Take by (rule pool_trace.taken [OF taken(2,3) I(3)])
      then show ?thesis using I taken(1) Take by auto
    next
      case (unlisted a s')
      from Cons.IH [OF unlisted(4)] obtain rs s2 L' U' where I: "pool_run alloc release cs s' = Ret (rs, s2)" "rep s2 L' U'"
        "pool_trace L (U @ [(a, sz)]) cs rs L' U'" "(\<Sum>x\<leftarrow>L' @ U'. price (snd x)) \<le> capacity" by blast
      have "pool_trace L U (c # cs) (Block a # rs) L' U'" unfolding Take by (rule pool_trace.taken_for_good [OF unlisted(2,3) I(3)])
      then show ?thesis using I unlisted(1) Take by auto
    qed
  next
    case (Give a)
    show ?thesis
    proof (cases "a \<in> fst ` set L")
      case True
      then obtain sz L1 L2 where L: "L = L1 @ (a, sz) # L2" by (fastforce dest: split_list)
      with release_listed Cons.prems obtain s' where r: "release a s = Ret (OKAY, s')" "rep s' (L1 @ L2) U" by blast
      from Cons.IH [OF r(2)] obtain rs s2 L' U' where I: "pool_run alloc release cs s' = Ret (rs, s2)" "rep s2 L' U'"
        "pool_trace (L1 @ L2) U cs rs L' U'" "(\<Sum>x\<leftarrow>L' @ U'. price (snd x)) \<le> capacity" by blast
      have "pool_trace L U (c # cs) (Status OKAY # rs) L' U'" unfolding Give L by (rule pool_trace.given [OF I(3)])
      then show ?thesis using I r(1) Give by auto
    next
      case False
      with release_other Cons.prems obtain s' where r: "release a s = Ret (ERROR, s')" "rep s' L U" by blast
      from Cons.IH [OF r(2)] obtain rs s2 L' U' where I: "pool_run alloc release cs s' = Ret (rs, s2)" "rep s2 L' U'"
        "pool_trace L U cs rs L' U'" "(\<Sum>x\<leftarrow>L' @ U'. price (snd x)) \<le> capacity" by blast
      have "pool_trace L U (c # cs) (Status ERROR # rs) L' U'" unfolding Give by (rule pool_trace.rejected [OF False I(3)])
      then show ?thesis using I r(1) Give by auto
    qed
  qed
qed

end

section \<open>The buffer classes\<close>

definition buff_rep :: "u32 \<Rightarrow> nat \<Rightarrow> os_state \<Rightarrow> (addr \<times> u32) list \<Rightarrow> (addr \<times> u32) list \<Rightarrow> bool" where
  "buff_rep rid total_size s L U \<longleftrightarrow> (\<exists>M ms cs bs p C lp m hp hm hs us.
     pool_at s M ms cs bs rid p C lp m hp hm hs us \<and> unat (bc_totsize C) = total_size
     \<and> L = map (\<lambda>(x, sz, b). (b + BUFF_OFFSET_SIZE, sz)) hs \<and> U = map (\<lambda>(b, sz). (b + BUFF_OFFSET_SIZE, sz)) us)"

lemma buff_repE:
  assumes "buff_rep rid total_size s L U"
  obtains M ms cs bs p C lp m hp hm hs us where "pool_at s M ms cs bs rid p C lp m hp hm hs us" "unat (bc_totsize C) = total_size"
    "L = map (\<lambda>(x, sz, b). (b + BUFF_OFFSET_SIZE, sz)) hs" "U = map (\<lambda>(b, sz). (b + BUFF_OFFSET_SIZE, sz)) us"
  using assms unfolding buff_rep_def by blast

lemma buff_repI:
  assumes "pool_at s M ms cs bs rid p C lp m hp hm hs us" and "unat (bc_totsize C) = total_size"
    and "L = map (\<lambda>(x, sz, b). (b + BUFF_OFFSET_SIZE, sz)) hs" and "U = map (\<lambda>(b, sz). (b + BUFF_OFFSET_SIZE, sz)) us"
  shows "buff_rep rid total_size s L U"
  unfolding buff_rep_def using assms by blast

lemma listed_fst: "map fst (map (\<lambda>(x, sz, b). (b + BUFF_OFFSET_SIZE, sz)) hs) = map (\<lambda>b. b + BUFF_OFFSET_SIZE) (hblocks hs)"
  by (induction hs) auto

lemma unlisted_fst: "map fst (map (\<lambda>(b, sz). (b + BUFF_OFFSET_SIZE, sz)) us) = map (\<lambda>b. b + BUFF_OFFSET_SIZE) (map fst us)"
  by (induction us) auto

lemma listed_cost: "(\<Sum>x\<leftarrow>map (\<lambda>(x, sz, b). (b + BUFF_OFFSET_SIZE, sz)) hs. cost (snd x)) = (\<Sum>(x, sz, b)\<leftarrow>hs. cost sz)"
  by (induction hs) auto

lemma unlisted_cost: "(\<Sum>x\<leftarrow>map (\<lambda>(b, sz). (b + BUFF_OFFSET_SIZE, sz)) us. cost (snd x)) = (\<Sum>(b, sz)\<leftarrow>us. cost sz)"
  by (induction us) auto

lemma buff_rep_distinct:
  assumes "buff_rep rid total_size s L U"
  shows "distinct (map fst (L @ U)) \<and> 0 \<notin> fst ` set (L @ U)"
proof -
  from assms obtain M ms cs bs p C lp m hp hm hs us where P: "pool_at s M ms cs bs rid p C lp m hp hm hs us"
    and L: "L = map (\<lambda>(x, sz, b). (b + BUFF_OFFSET_SIZE, sz)) hs" and U: "U = map (\<lambda>(b, sz). (b + BUFF_OFFSET_SIZE, sz)) us"
    by (rule buff_repE)
  have r: "distinct (hblocks hs @ map fst us)" "\<forall>(x, sz, b) \<in> set hs. block_at (heap s) rid x sz b" "\<forall>(b, sz) \<in> set us. block_at (heap s) rid 0 sz b"
    using P by (simp_all add: pool_at_def class_rep_def)
  have f: "map fst (L @ U) = map (\<lambda>b. b + BUFF_OFFSET_SIZE) (hblocks hs @ map fst us)"
    unfolding L U map_append [of fst] listed_fst unlisted_fst by simp
  have "distinct (map fst (L @ U))" unfolding f by (rule distinct_map [THEN iffD2]) (use r(1) in \<open>simp add: inj_on_def\<close>)
  moreover have "0 \<notin> fst ` set (L @ U)" using r(2,3) unfolding L U by (auto simp: block_at_def)
  ultimately show ?thesis by blast
qed

lemma buff_rep_capacity:
  assumes "buff_rep rid total_size s L U"
  shows "(\<Sum>x\<leftarrow>L @ U. cost (snd x)) \<le> total_size"
proof -
  from assms obtain M ms cs bs p C lp m hp hm hs us where P: "pool_at s M ms cs bs rid p C lp m hp hm hs us" "unat (bc_totsize C) = total_size"
    and L: "L = map (\<lambda>(x, sz, b). (b + BUFF_OFFSET_SIZE, sz)) hs" and U: "U = map (\<lambda>(b, sz). (b + BUFF_OFFSET_SIZE, sz)) us"
    by (rule buff_repE)
  have "(\<Sum>(x, sz, b)\<leftarrow>hs. cost sz) + (\<Sum>(b, sz)\<leftarrow>us. cost sz) \<le> total_size" using P by (auto simp: pool_at_def class_rep_def)
  then show ?thesis unfolding L U map_append sum_list_append listed_cost unlisted_cost .
qed

lemma buff_rep_alloc:
  assumes E: "env_ok E" and "buff_rep rid total_size s L U"
  shows "\<exists>a s'. buff_alloc_data E rid sz s = Ret (a, s') \<and>
    (a = 0 \<and> buff_rep rid total_size s' L U \<or> buff_rep rid total_size s' (L @ [(a, sz)]) U \<or> buff_rep rid total_size s' L (U @ [(a, sz)]))"
proof -
  from assms(2) obtain M ms cs bs p C lp m hp hm hs us where P: "pool_at s M ms cs bs rid p C lp m hp hm hs us" "unat (bc_totsize C) = total_size"
    and L: "L = map (\<lambda>(x, sz, b). (b + BUFF_OFFSET_SIZE, sz)) hs" and U: "U = map (\<lambda>(b, sz). (b + BUFF_OFFSET_SIZE, sz)) us"
    by (rule buff_repE)
  from E P(1) show ?thesis
  proof (cases rule: buff_alloc_cases [where sz = sz])
    case (refused s')
    then have "buff_rep rid total_size s' L U" using buff_repI [OF _ P(2) L U] P(1) pool_at_tick [OF P(1)] by blast
    then show ?thesis using refused(1) by blast
  next
    case (unlisted b s' C')
    then have "buff_rep rid total_size s' L (U @ [(b + BUFF_OFFSET_SIZE, sz)])"
      by (intro buff_repI [OF unlisted(5)]) (use P(2) L U in simp_all)
    then show ?thesis using unlisted(1) by blast
  next
    case (listed b x s' C')
    then have "buff_rep rid total_size s' (L @ [(b + BUFF_OFFSET_SIZE, sz)]) U"
      by (intro buff_repI [OF listed(5)]) (use P(2) L U in simp_all)
    then show ?thesis using listed(1) by blast
  qed
qed

lemma buff_rep_free:
  assumes "buff_rep rid total_size s (L1 @ (a, sz) # L2) U"
  shows "\<exists>s'. buff_free_data rid a s = Ret (OKAY, s') \<and> buff_rep rid total_size s' (L1 @ L2) U"
proof -
  from assms obtain M ms cs bs p C lp m hp hm hs us where P: "pool_at s M ms cs bs rid p C lp m hp hm hs us" "unat (bc_totsize C) = total_size"
    and L: "L1 @ (a, sz) # L2 = map (\<lambda>(x, sz, b). (b + BUFF_OFFSET_SIZE, sz)) hs" and U: "U = map (\<lambda>(b, sz). (b + BUFF_OFFSET_SIZE, sz)) us"
    by (rule buff_repE)
  from L obtain xs x b ys where hs: "hs = xs @ (x, sz, b) # ys" "a = b + BUFF_OFFSET_SIZE"
    "L1 = map (\<lambda>(x, sz, b). (b + BUFF_OFFSET_SIZE, sz)) xs" "L2 = map (\<lambda>(x, sz, b). (b + BUFF_OFFSET_SIZE, sz)) ys"
    by (auto simp: append_eq_map_conv Cons_eq_map_conv)
  from P(1) [unfolded hs(1)] obtain s' C' where "buff_free_data rid (b + BUFF_OFFSET_SIZE) s = Ret (OKAY, s')"
    "pool_at s' M ms cs bs rid p C' lp m hp hm (xs @ ys) us" "bc_totsize C' = bc_totsize C \<and> bc_osize C' = bc_osize C" by (rule buff_free_listed)
  then show ?thesis using buff_repI [of s' M ms cs bs rid p C' lp m hp hm "xs @ ys" us total_size "L1 @ L2" U] P(2) U hs(2-4) by simp
qed

lemma buff_rep_reject:
  assumes "buff_rep rid total_size s L U" and "a \<notin> fst ` set L"
  shows "\<exists>s'. buff_free_data rid a s = Ret (ERROR, s') \<and> buff_rep rid total_size s' L U"
proof -
  from assms(1) obtain M ms cs bs p C lp m hp hm hs us where P: "pool_at s M ms cs bs rid p C lp m hp hm hs us"
    and L: "L = map (\<lambda>(x, sz, b). (b + BUFF_OFFSET_SIZE, sz)) hs" by (rule buff_repE)
  have "fst ` set L = (\<lambda>b. b + BUFF_OFFSET_SIZE) ` set (hblocks hs)" unfolding L by force
  then have "a - BUFF_OFFSET_SIZE \<notin> set (hblocks hs)" using assms(2) by force
  then show ?thesis using buff_free_unknown [OF P] assms(1) by blast
qed

text \<open>The instance: a buffer class on an allocator that keeps its promises.\<close>

definition checked_alloc :: "os_env \<Rightarrow> u32 \<Rightarrow> u32 \<Rightarrow> os_state \<Rightarrow> (addr \<times> os_state) outcome" where
  "checked_alloc E rid sz s = (if env_ok E then buff_alloc_data E rid sz s else Ret (0, s))"

interpretation buff: block_pool "buff_rep rid total_size" "checked_alloc E rid" "buff_free_data rid" cost total_size
  for E rid total_size
proof (unfold_locales, goal_cases distinct capacity alloc free reject)
  case (distinct s L U) then show ?case by (rule buff_rep_distinct)
next
  case (capacity s L U) then show ?case by (rule buff_rep_capacity)
next
  case (alloc s L U sz)
  show ?case using buff_rep_alloc [OF _ alloc] alloc by (cases "env_ok E") (auto simp: checked_alloc_def)
next
  case (free s L1 a sz L2 U) then show ?case by (rule buff_rep_free)
next
  case (reject s L U a) then show ?case by (rule buff_rep_reject)
qed

lemma buff_run_traces:
  assumes "env_ok E" and "buff_rep rid total_size s L U"
  shows "\<exists>rs s' L' U'. pool_run (buff_alloc_data E rid) (buff_free_data rid) cs s = Ret (rs, s') \<and> buff_rep rid total_size s' L' U'
     \<and> pool_trace L U cs rs L' U' \<and> (\<Sum>x\<leftarrow>L' @ U'. cost (snd x)) \<le> total_size"
proof -
  have "checked_alloc E rid = buff_alloc_data E rid" using assms(1) by (simp add: checked_alloc_def fun_eq_iff)
  with buff.run_traces [OF assms(2), of E cs] show ?thesis by simp
qed

end
