(* ===== verification/Net_Port.thy ===== *)
theory Net_Port
  imports Net_Channel
begin

text \<open>
  src/net.c, the life of a port: creation, duplication for an accepted connection, activation with its
  thread, the client and the server thread, and deletion.
\<close>

definition net_init :: "os_env \<Rightarrow> u32 os" where
  "net_init E s =
     (let s = os_net_proto_init s in
      obind (buff_create_class E NET_MEM_CLASS 0 (os_network_pool_size s) s) (\<lambda>(res, s).
      if res = ERROR then Ret (ERROR, s)
      else obind (os_list_create E NET_CHAN_CLASS_NAME s) (\<lambda>(l, s).
      let s = s\<lparr>net_channel_pool := l\<rparr> in
      if l = 0 then Ret (ERROR, s)
      else obind (os_list_create E NET_PORT_CLASS_NAME s) (\<lambda>(l, s).
      let s = s\<lparr>net_port_pool := l\<rparr> in
      if l = 0 then obind (os_list_delete (net_channel_pool s) s) (\<lambda>(r, s). Ret (ERROR, s))
      else Ret (OKAY, s)))))"

section \<open>Creation\<close>

text \<open>
  The common end of \<open>net_port_create\<close> and \<open>net_port_duplicate\<close>: name, lock, channel list, error word.
\<close>

definition port_finish :: "os_env \<Rightarrow> addr \<Rightarrow> u32 \<Rightarrow> u32 \<Rightarrow> u32 os" where
  "port_finish E pport portid number s =
     obind (sprintf_into (''nPORT'' @ fmt_08x number) STR_LEN) (\<lambda>tname.
     obind (upd_port pport (\<lambda>p. p\<lparr>np_name := strncpy tname STR_LEN\<rparr>) s) (\<lambda>s.
     obind (sprintf_into (''PORT'' @ fmt_08x portid) STR_LEN) (\<lambda>tname.
     obind (os_mutex_create E tname s) (\<lambda>(lock, s).
     obind (upd_port pport (\<lambda>p. p\<lparr>np_lock := lock\<rparr>) s) (\<lambda>s.
     if lock = ERROR
     then obind (buff_free_data NET_MEM_CLASS pport s) (\<lambda>(r, s).
          obind (os_list_item_delete (net_port_pool s) portid s) (\<lambda>(r, s). Ret (ERROR, s)))
     else obind (sprintf_into (NET_CHAN_NAME @ fmt_08x portid) STR_LEN) (\<lambda>tname.
     obind (os_list_create E tname s) (\<lambda>(l, s).
     obind (upd_port pport (\<lambda>p. p\<lparr>np_chanlist := l\<rparr>) s) (\<lambda>s.
     if l = 0
     then obind (os_mutex_delete lock s) (\<lambda>(r, s).
          obind (buff_free_data NET_MEM_CLASS pport s) (\<lambda>(r, s).
          obind (os_list_item_delete (net_port_pool s) portid s) (\<lambda>(r, s). Ret (ERROR, s))))
     else obind (load the_port pport s) (\<lambda>p.
     obind (net_port_errno_set (np_id p) E_NOERROR s) (\<lambda>s. Ret (portid, s)))))))))))"

definition net_port_create :: "os_env \<Rightarrow> net_env \<Rightarrow> u32 \<Rightarrow> u32 \<Rightarrow> net_addrinfo_t option \<Rightarrow> fnptr \<Rightarrow> fnptr \<Rightarrow> u32 os" where
  "net_port_create E N ty proto addr pktfunc upcall s =
     (case addr of None \<Rightarrow> Ret (ERROR, s)
      | Some a \<Rightarrow>
      obind (buff_alloc_data E NET_MEM_CLASS (e_sizeof E T_net_port_st) s) (\<lambda>(pport, s).
      if pport = 0 then Ret (ERROR, s)
      else let s = hput pport (PortObj ((ne_junk_port N (calls s))\<lparr>np_type := ty, np_status := 0, np_fd := 0, np_sig := 0,
                np_payload_size := NET_MAX_PAYLOAD, np_pktfunc := pktfunc, np_upcall := upcall, np_addr := a,
                np_interface_packet := 0, np_proto := os_net_proto_select proto\<rparr>)) s in
      if os_net_proto_select proto = NULL_PROTO
      then obind (buff_free_data NET_MEM_CLASS pport s) (\<lambda>(r, s). Ret (ERROR, s))
      else obind (os_list_item_insert E (net_port_pool s) pport s) (\<lambda>(portid, s).
      if portid = ERROR then obind (buff_free_data NET_MEM_CLASS pport s) (\<lambda>(r, s). Ret (ERROR, s))
      else obind (upd_port pport (\<lambda>p. p\<lparr>np_id := portid, np_option := 0, np_func := 0, np_block_mode := 0,
                np_copycount := 0, np_catchup_delay := 0\<rparr>) s) (\<lambda>s.
      port_finish E pport portid portid s))))"

definition net_port_duplicate :: "os_env \<Rightarrow> net_env \<Rightarrow> u32 \<Rightarrow> u32 \<Rightarrow> u32 \<Rightarrow> u32 os" where
  "net_port_duplicate E N oportid newsock newstatus s =
     obind (os_obj_find (net_port_pool s) oportid s) (\<lambda>oport.
     if oport = 0 then Ret (ERROR, s)
     else obind (buff_alloc_data E NET_MEM_CLASS (e_sizeof E T_net_port_st) s) (\<lambda>(pport, s).
     if pport = 0 then Ret (ERROR, s)
     else obind (load the_port oport s) (\<lambda>op.
     let count = np_copycount op + 1;
         s = hput pport (PortObj ((ne_junk_port N (calls s))\<lparr>np_type := np_type op, np_addr := np_addr op,
           np_status := if newsock \<noteq> 0 then ucast newstatus else 0, np_fd := if newsock \<noteq> 0 then newsock else 0,
           np_sig := 0, np_pktfunc := np_pktfunc op, np_upcall := np_upcall op, np_proto := np_proto op, np_func := 0,
           np_option := 0, np_block_mode := 0, np_catchup_delay := 0, np_payload_size := np_payload_size op,
           np_interface_packet := 0, np_copycount := count\<rparr>)) s in
     obind (upd_port oport (\<lambda>p. p\<lparr>np_copycount := count\<rparr>) s) (\<lambda>s.
     obind (os_list_item_insert E (net_port_pool s) pport s) (\<lambda>(portid, s).
     if portid = ERROR then obind (buff_free_data NET_MEM_CLASS pport s) (\<lambda>(r, s). Ret (ERROR, s))
     else obind (upd_port pport (\<lambda>p. p\<lparr>np_id := portid\<rparr>) s) (\<lambda>s.
     port_finish E pport portid (portid + (256 + count)) s))))))"

section \<open>Deletion\<close>

text \<open>An upcall with a pointer to the signal word of the port.\<close>

definition net_port_resource_cleanup :: "net_env \<Rightarrow> addr \<Rightarrow> u32 os" where
  "net_port_resource_cleanup N port s =
     (if port = 0 then Ret (ERROR, s)
      else obind (load the_port port s) (\<lambda>p.
      obind (if np_upcall p \<noteq> 0
             then obind (ne_upcall N (np_upcall p) (np_id p) NET_MESG_DEL_PORT (Some (np_sig p)) s) (\<lambda>(v, s).
                  upd_port port (\<lambda>p. p\<lparr>np_sig := case v of Some x \<Rightarrow> x | None \<Rightarrow> np_sig p\<rparr>) s)
             else Ret s) (\<lambda>s.
      obind (load the_port port s) (\<lambda>p.
      obind (os_mutex_lock (np_lock p) 0 s) (\<lambda>(r, s).
      obind (net_port_proto_close (np_id p) s) (\<lambda>(r, s).
      obind (os_list_item_delete (net_port_pool s) (np_id p) s) (\<lambda>(res, s).
      if res = ERROR then Ret (ERROR, s)
      else obind (os_list_delete (np_chanlist p) s) (\<lambda>(res, s).
      if res = ERROR then Ret (ERROR, s)
      else obind (os_mutex_delete (np_lock p) s) (\<lambda>(res, s).
      if res = ERROR then Ret (ERROR, s)
      else obind (if np_interface_packet p \<noteq> 0
                  then obind (load the_packet (np_interface_packet p) s) (\<lambda>k.
                       obind (buff_free_data NET_MEM_CLASS (pk_payload k) s) (\<lambda>(r, s).
                       obind (buff_free_data NET_MEM_CLASS (np_interface_packet p) s) (\<lambda>(r, s). Ret s)))
                  else Ret s) (\<lambda>s.
      obind (buff_free_data NET_MEM_CLASS port s) (\<lambda>(r, s). Ret (OKAY, s))))))))))))"

definition net_port_delete_upcall :: "net_env \<Rightarrow> addr \<Rightarrow> u32 os" where
  "net_port_delete_upcall N port s =
     (if port = 0 then Ret (ERROR, s)
      else obind (load the_port port s) (\<lambda>p.
      if np_proto p = NULL_PROTO then Ret (ERROR, s)
      else obind (net_port_resource_cleanup N port s) (\<lambda>(res, s).
      if res = ERROR then Ret (ERROR, s)
      else obind (load the_port port s) (\<lambda>p.
           obind (net_port_proto_close (np_id p) s) (\<lambda>(r, s). Ret (OKAY, s))))))"

definition net_port_delete :: "net_env \<Rightarrow> u32 \<Rightarrow> u32 os" where
  "net_port_delete N portid s =
     obind (os_obj_find (net_port_pool s) portid s) (\<lambda>port.
     if port = 0 then Ret (ERROR, s)
     else obind (load the_port port s) (\<lambda>p.
     obind (net_port_proto_close portid s) (\<lambda>(r, s).
     if np_func p = 0
     then obind (net_port_resource_cleanup N port s) (\<lambda>(res, s). Ret (if res = ERROR then ERROR else OKAY, s))
     else Ret (OKAY, s))))"

definition net_port_cleanup :: "net_env \<Rightarrow> u32 \<Rightarrow> u32 os" where
  "net_port_cleanup N portid s =
     obind (os_obj_find (net_port_pool s) portid s) (\<lambda>port.
     if port = 0 then Ret (ERROR, s)
     else obind (net_port_resource_cleanup N port s) (\<lambda>(res, s). Ret (if res = ERROR then ERROR else OKAY, s)))"

section \<open>Threads of a port\<close>

text \<open>\<open>%d\<close> of an unsigned int.\<close>

definition fmt_d :: "u32 \<Rightarrow> string" where
  "fmt_d w = (if sint w < 0 then ''-'' @ fmt_dec (nat (- sint w)) else fmt_dec (nat (sint w)))"

definition net_port_proto_packet_handler_start :: "os_env \<Rightarrow> net_env \<Rightarrow> u32 \<Rightarrow> u32 os" where
  "net_port_proto_packet_handler_start E N portid s =
     obind (os_obj_find (net_port_pool s) portid s) (\<lambda>port.
     if port = 0 then Ret (ERROR, s)
     else obind (load the_port port s) (\<lambda>p.
     if np_func p \<noteq> 0 then Ret (ERROR, s)
     else obind (net_port_change (np_id p) NET_PORT_AVAIL_SET 1 s) (\<lambda>(res, s).
     if res = ERROR then Ret (ERROR, s)
     else obind (sprintf_into (THREAD_NAME @ ''PORT'' @ fmt_d (portid + 1)) STR_LEN) (\<lambda>tname.
     obind (os_thread_create E tname (ne_fn N FN_packet_handler) port (ne_fn N FN_port_delete_upcall) 0 s) (\<lambda>(res, s).
     if res = ERROR then Ret (ERROR, s)
     else obind (upd_port port (\<lambda>p. p\<lparr>np_func := res\<rparr>) s) (\<lambda>s. Ret (OKAY, s)))))))"

definition net_port_listener :: "os_env \<Rightarrow> net_env \<Rightarrow> thr_env \<Rightarrow> addr \<Rightarrow> u32 os" where
  "net_port_listener E N T pport s =
     obind (load the_port pport s) (\<lambda>p.
     let portid = np_id p in
     if np_proto p = NULL_PROTO then obind (net_port_delete N portid s) (\<lambda>(r, s). Ret (ERROR, s))
     else obind (net_port_change portid NET_PORT_AVAIL_SET 1 s) (\<lambda>(res, s).
     if res = ERROR then obind (net_port_delete N portid s) (\<lambda>(r, s). Ret (ERROR, s))
     else obind (if np_upcall p \<noteq> 0 then ne_upcall N (np_upcall p) portid NET_MESG_NEW_PORT None s else Ret (None, s)) (\<lambda>(v, s).
     obind (net_port_packet_handler E N T pport s) (\<lambda>(r, s).
     obind (os_thread_self E s) (\<lambda>(me, s).
     obind (os_thread_delete T me s) (\<lambda>s. Ret (ERROR, s)))))))"

text \<open>
  One accepted connection of a TCP server. The result tells whether the server goes on. The upcall about
  the new port may change its number.
\<close>

definition server_upcall :: "net_env \<Rightarrow> net_port_st \<Rightarrow> u32 \<Rightarrow> u32 \<Rightarrow> u32 os" where
  "server_upcall N p msg nportid s =
     (if np_upcall p \<noteq> 0
      then obind (ne_upcall N (np_upcall p) (np_id p) msg (Some nportid) s) (\<lambda>(v, s).
           Ret (case v of Some x \<Rightarrow> x | None \<Rightarrow> nportid, s))
      else Ret (nportid, s))"

definition server_body :: "os_env \<Rightarrow> net_env \<Rightarrow> thr_env \<Rightarrow> u32 \<Rightarrow> addr \<Rightarrow> bool \<times> os_state \<Rightarrow> (bool \<times> os_state) outcome" where
  "server_body E N T portid pport = (\<lambda>(go, s).
     let retry = (\<lambda>s. Ret (True, s)); stop = (\<lambda>s. Ret (False, s));
         blank = \<lparr>ai_ip = 0, ai_port = 0, ai_addr = \<lparr>sin_family = 0, sin_port = 0, sin_addr = 0\<rparr>, ai_addrsize = 0\<rparr> in
     obind (net_port_proto_accept N portid
        (case snd (net_addrinfo_cleanup (Some blank)) of Some a \<Rightarrow> CallerAddr a | None \<Rightarrow> NullAddr) s) (\<lambda>((res, a), s).
     if res = ERROR then obind (net_port_delete N portid s) (\<lambda>(r, s). stop s)
     else obind (load the_port pport s) (\<lambda>p.
     if np_type p \<noteq> NET_PORT_TYPE_SERVER then stop s
     else obind (net_port_duplicate E N (np_id p) res (ucast NET_PORT_STATUS_FULL_SERVER) s) (\<lambda>(nportid, s).
     if nportid = ERROR
     then obind (load the_port pport s) (\<lambda>p. obind (net_port_delete N (np_id p) s) (\<lambda>(r, s). retry s))
     else obind (net_port_search nportid s) (\<lambda>nport.
     if nport = 0
     then obind (net_port_resource_cleanup N nport s) (\<lambda>(r, s).
          obind (load the_port pport s) (\<lambda>p. obind (net_port_delete N (np_id p) s) (\<lambda>(r, s). retry s)))
     else obind (load the_port pport s) (\<lambda>p.
     obind (server_upcall N p NET_MESG_ACCEPT nportid s) (\<lambda>(nportid, s).
     if nportid = 0xffffffff
     then obind (upd_port nport (\<lambda>p. p\<lparr>np_upcall := 0\<rparr>) s) (\<lambda>s.
          obind (net_port_resource_cleanup N nport s) (\<lambda>(r, s).
          obind (load the_port nport s) (\<lambda>np. obind (net_port_proto_close (np_fd np) s) (\<lambda>(r, s). retry s))))
     else obind (server_upcall N p NET_MESG_NEW_PORT nportid s) (\<lambda>(nportid, s).
     obind (net_port_proto_packet_handler_start E N nportid s) (\<lambda>(res, s).
     if res = ERROR
     then obind (net_port_resource_cleanup N nport s) (\<lambda>(r, s).
          obind (load the_port pport s) (\<lambda>p. obind (net_port_delete N (np_id p) s) (\<lambda>(r, s). stop s)))
     else retry s)))))))))"

definition net_port_server :: "os_env \<Rightarrow> net_env \<Rightarrow> thr_env \<Rightarrow> addr \<Rightarrow> u32 os" where
  "net_port_server E N T pport s =
     obind (load the_port pport s) (\<lambda>p.
     let portid = np_id p in
     if np_proto p = NULL_PROTO then obind (net_port_delete N portid s) (\<lambda>(r, s). Ret (ERROR, s))
     else obind (os_net_proto_identify pport s) (\<lambda>ptype.
     if ptype = ERROR then obind (net_port_delete N portid s) (\<lambda>(r, s). Ret (ERROR, s))
     else if ptype = NET_PORT_PROTO_UDP
     then obind (net_port_change portid NET_PORT_AVAIL_SET 1 s) (\<lambda>(res, s).
          if res = ERROR then obind (net_port_delete N portid s) (\<lambda>(r, s). Ret (ERROR, s))
          else obind (if np_upcall p \<noteq> 0 then ne_upcall N (np_upcall p) portid NET_MESG_NEW_PORT None s else Ret (None, s)) (\<lambda>(v, s).
               obind (net_port_packet_handler E N T pport s) (\<lambda>(r, s). Ret (ERROR, s))))
     else if ptype = NET_PORT_PROTO_TCP
     then obind (while_o fst (server_body E N T portid pport) (True, s)) (\<lambda>(go, s). Ret (ERROR, s))
     else Ret (ERROR, s)))"

section \<open>Activation\<close>

definition local_any :: net_addrinfo_t where
  "local_any = (case snd (net_addrinfo_make (Some \<lparr>ai_ip = 0, ai_port = 0,
       ai_addr = \<lparr>sin_family = 0, sin_port = 0, sin_addr = 0\<rparr>, ai_addrsize = 0\<rparr>) NET_ANY_IP 0) of Some a \<Rightarrow> a)"

text \<open>The set-up of a port that has no descriptor yet; an error ends in the clean-up of the port.\<close>

definition client_setup :: "net_env \<Rightarrow> u32 \<Rightarrow> u32 os" where
  "client_setup N portid s =
     obind (net_port_proto_socket N portid s) (\<lambda>(res, s).
     if res = ERROR then Ret (ERROR, s)
     else obind (net_port_proto_bind N portid (CallerAddr local_any) s) (\<lambda>(res, s).
     if res = ERROR then Ret (ERROR, s) else net_port_proto_connect N portid PortAddr s))"

definition server_setup :: "net_env \<Rightarrow> u32 \<Rightarrow> u32 os" where
  "server_setup N portid s =
     obind (net_port_proto_socket N portid s) (\<lambda>(res, s).
     if res = ERROR then Ret (ERROR, s)
     else obind (net_port_proto_bind N portid PortAddr s) (\<lambda>(res, s).
     if res = ERROR then Ret (ERROR, s) else net_port_proto_listen N portid s))"

definition net_port_activate :: "os_env \<Rightarrow> net_env \<Rightarrow> u32 \<Rightarrow> u32 os" where
  "net_port_activate E N portid s =
     obind (os_obj_find (net_port_pool s) portid s) (\<lambda>port.
     if port = 0 then Ret (ERROR, s)
     else obind (load the_port port s) (\<lambda>p.
     let fail = (\<lambda>s. obind (net_port_resource_cleanup N port s) (\<lambda>(r, s). Ret (ERROR, s))) in
     if np_type p \<noteq> NET_PORT_TYPE_CLIENT \<and> np_type p \<noteq> NET_PORT_TYPE_SERVER then Ret (ERROR, s)
     else obind (if np_fd p = 0
                 then if np_type p = NET_PORT_TYPE_CLIENT then client_setup N portid s else server_setup N portid s
                 else Ret (OKAY, s)) (\<lambda>(res, s).
     if res = ERROR then fail s
     else obind (sprintf_into (''portT'' @ fmt_08x portid) STR_LEN) (\<lambda>tname.
     obind (os_thread_create E tname
        (ne_fn N (if np_type p = NET_PORT_TYPE_CLIENT then FN_listener else FN_server)) port
        (ne_fn N FN_port_delete_upcall) 0 s) (\<lambda>(res, s).
     if res = ERROR then fail s
     else obind (upd_port port (\<lambda>p. p\<lparr>np_func := res\<rparr>) s) (\<lambda>s. Ret (OKAY, s)))))))"

end
