(* ===== verification/Os_Init.thy ===== *)
theory Os_Init
  imports Net_Port
begin

text \<open>
  src/dbg.c and src/init.c: the log buffer with its thread, and the start of the library. The statics
  of the two files are a record of their own; the console is what has been printed so far. The text a
  message is formatted to (vsprintf) is the argument of \<open>debug_print\<close>.
\<close>

section \<open>The statics\<close>

definition DEBUG_MEM_CLASS_SIZE :: u32 where "DEBUG_MEM_CLASS_SIZE = 8192"
definition DBG_BUF_LEN :: nat where "DBG_BUF_LEN = 8192"
definition DBG_BUFF_MIN_AMOUNT :: nat where "DBG_BUFF_MIN_AMOUNT = 1024"
definition ONE_SECOND :: u32 where "ONE_SECOND = 1000000"
definition OS_DBG_LVL_ERR :: u32 where "OS_DBG_LVL_ERR = 1"
definition OS_DBG_LVL_VER :: u32 where "OS_DBG_LVL_VER = 2"
definition NET_MEM_CLASS_SIZE :: u32 where "NET_MEM_CLASS_SIZE = 2048 * 1024"

record dbg_state =
  os_debug_pool_size :: u32
  dbg_mutex :: u32
  dbg_temp_buff :: "u8 list"
  dbg_log_amount :: u32
  dbg_clock_tick :: u32
  dbg_printf_flag :: u32
  console :: "u8 list"

definition dbg_statics :: dbg_state where
  "dbg_statics = \<lparr>os_debug_pool_size = DEBUG_MEM_CLASS_SIZE, dbg_mutex = 0, dbg_temp_buff = replicate DBG_BUF_LEN 0,
     dbg_log_amount = 0, dbg_clock_tick = ONE_SECOND, dbg_printf_flag = OS_DBG_LVL_ERR OR OS_DBG_LVL_VER, console = []\<rparr>"

type_synonym 'a kit = "dbg_state \<times> os_state \<Rightarrow> ('a \<times> dbg_state \<times> os_state) outcome"

definition on_os :: "'a os \<Rightarrow> 'a kit" where
  "on_os f = (\<lambda>(D, s). obind (f s) (\<lambda>(r, s). Ret (r, D, s)))"

section \<open>Formatting\<close>

definition str_bytes :: "string \<Rightarrow> u8 list" where
  "str_bytes str = map (\<lambda>c. of_nat (of_char c)) str"

text \<open>\<open>"%8ld - "\<close>\<close>

definition fmt_8ld :: "int \<Rightarrow> string" where
  "fmt_8ld i = (let d = fmt_ld i in replicate (8 - length d) CHR '' '' @ d)"

definition time_prefix :: "u64 \<Rightarrow> u8 list" where
  "time_prefix t = str_bytes (fmt_8ld (sint t) @ '' - '')"

text \<open>sprintf to the end of the log, with the terminating NUL, and the new amount.\<close>

definition log_write :: "u8 list \<Rightarrow> dbg_state \<Rightarrow> dbg_state outcome" where
  "log_write text D =
     (let off = unat (dbg_log_amount D); out = text @ [0] in
      if length (dbg_temp_buff D) < off + length out then Fault OutOfBounds
      else Ret (D\<lparr>dbg_temp_buff := take off (dbg_temp_buff D) @ out @ drop (off + length out) (dbg_temp_buff D),
                  dbg_log_amount := dbg_log_amount D + of_nat (length text)\<rparr>))"

text \<open>\<open>os_printf\<close> prints up to the first NUL.\<close>

definition os_printf :: "u8 list \<Rightarrow> dbg_state \<Rightarrow> dbg_state outcome" where
  "os_printf msg D =
     (if 0 \<notin> set msg then Fault OutOfBounds
      else Ret (D\<lparr>console := console D @ takeWhile (\<lambda>b. b \<noteq> 0) msg\<rparr>))"

section \<open>The log\<close>

definition debug_flush :: "dbg_state \<Rightarrow> (u32 \<times> dbg_state) outcome" where
  "debug_flush D = obind (os_printf (dbg_temp_buff D) D) (\<lambda>D. Ret (OKAY, D\<lparr>dbg_log_amount := 0\<rparr>))"

definition debug_print :: "os_env \<Rightarrow> u8 list \<Rightarrow> u32 kit" where
  "debug_print E text = (\<lambda>(D, s).
     obind (os_mutex_lock (dbg_mutex D) 0 s) (\<lambda>(r, s).
     obind (os_time_get E s) (\<lambda>(t, s).
     obind (log_write (time_prefix t) D) (\<lambda>D.
     obind (log_write text D) (\<lambda>D.
     let D = D\<lparr>dbg_clock_tick := ONE_SECOND\<rparr> in
     obind (if of_nat (DBG_BUF_LEN - DBG_BUFF_MIN_AMOUNT) \<le> dbg_log_amount D then debug_flush D else Ret (OKAY, D)) (\<lambda>(r, D).
     obind (os_mutex_unlock (dbg_mutex D) s) (\<lambda>(r, s). Ret (OKAY, D, s))))))))"

text \<open>
  One round of the logging thread. It tests the amount without the lock and only then takes it: the
  other threads run while it sleeps (\<open>slp\<close>) and once more between the test and what follows it
  (\<open>gap\<close>).
\<close>

definition dbg_act :: "bool \<Rightarrow> dbg_state \<times> os_state \<Rightarrow> (dbg_state \<times> os_state) outcome" where
  "dbg_act idle = (\<lambda>(D, s).
     if idle
     then Ret (if dbg_clock_tick D + ONE_SECOND < 60 * ONE_SECOND
               then D\<lparr>dbg_clock_tick := dbg_clock_tick D + ONE_SECOND\<rparr> else D, s)
     else obind (os_mutex_lock (dbg_mutex D) 0 s) (\<lambda>(r, s).
          obind (debug_flush D) (\<lambda>(r, D).
          obind (os_mutex_unlock (dbg_mutex D) s) (\<lambda>(r, s). Ret (D, s)))))"

type_synonym others = "dbg_state \<times> os_state \<Rightarrow> (dbg_state \<times> os_state) outcome"

definition dbg_round :: "others \<Rightarrow> others \<Rightarrow> dbg_state \<times> os_state \<Rightarrow> (dbg_state \<times> os_state) outcome" where
  "dbg_round slp gap st =
     obind (slp st) (\<lambda>(D, s).
     let idle = (dbg_log_amount D = 0) in
     obind (gap (D, s)) (dbg_act idle))"

text \<open>The thread up to its \<open>n\<close>-th round; it never returns once it got the start signal.\<close>

fun dbg_rounds :: "others \<Rightarrow> others \<Rightarrow> nat \<Rightarrow> dbg_state \<times> os_state \<Rightarrow> (dbg_state \<times> os_state) outcome" where
  "dbg_rounds slp gap 0 st = Ret st"
| "dbg_rounds slp gap (Suc n) st = obind (dbg_round slp gap st) (dbg_rounds slp gap n)"

definition dbg_thr ::
    "os_env \<Rightarrow> thr_env \<Rightarrow> others \<Rightarrow> others \<Rightarrow> nat \<Rightarrow> dbg_state \<times> os_state \<Rightarrow> (dbg_state \<times> os_state) outcome" where
  "dbg_thr E T slp gap n = (\<lambda>(D, s).
     obind (os_thread_self E s) (\<lambda>(self, s).
     obind (os_thread_signal_recv T self 1 s) (\<lambda>(sig, s).
     if sig \<noteq> OS_THREAD_SIG_START then Ret (D, s) else dbg_rounds slp gap n (D, s))))"

definition dbg_msgq_delete_upcall :: "dbg_state \<Rightarrow> u32 os" where
  "dbg_msgq_delete_upcall D = os_mutex_delete (dbg_mutex D)"

definition debug_init :: "os_env \<Rightarrow> fnptr \<Rightarrow> u32 kit" where
  "debug_init E dbg_thr_fn = (\<lambda>(D, s).
     obind (os_mutex_create E (os_res_make_name MUTEX_NAME 0x99) s) (\<lambda>(m, s).
     let D = D\<lparr>dbg_mutex := m\<rparr> in
     if m = ERROR then Ret (ERROR, D, s)
     else obind (os_thread_create E (os_res_make_name THREAD_NAME 0x99) dbg_thr_fn 0 0 0 s) (\<lambda>(res, s).
     if res = ERROR then Ret (ERROR, D, s) else Ret (OKAY, D, s))))"

section \<open>The start of the library\<close>

definition OS_INIT_MACRO :: "u32 kit \<Rightarrow> dbg_state \<times> os_state \<Rightarrow> (dbg_state \<times> os_state) outcome" where
  "OS_INIT_MACRO f st = obind (f st) (\<lambda>(r, st). if r = ERROR then Fault Exits else Ret st)"

definition os_init ::
    "os_env \<Rightarrow> thr_env \<Rightarrow> fnptr \<Rightarrow> dbg_state \<times> os_state \<Rightarrow> (dbg_state \<times> os_state) outcome" where
  "os_init E T dbg_thr_fn st =
     obind (OS_INIT_MACRO (on_os os_specific_init) st) (\<lambda>st.
     obind (OS_INIT_MACRO (on_os os_res_init) st) (\<lambda>st.
     obind (OS_INIT_MACRO (on_os (os_mem_init E)) st) (\<lambda>st.
     obind (OS_INIT_MACRO (on_os os_post_init) st) (\<lambda>st.
     obind (OS_INIT_MACRO (on_os os_time_init) st) (\<lambda>st.
     obind (OS_INIT_MACRO (on_os (os_var_init E)) st) (\<lambda>st.
     obind (OS_INIT_MACRO (on_os (os_qbuff_init E)) st) (\<lambda>st.
     obind (OS_INIT_MACRO (on_os (os_msgq_init E)) st) (\<lambda>st.
     obind (OS_INIT_MACRO (on_os (buff_init E)) st) (\<lambda>st.
     obind (OS_INIT_MACRO (on_os (os_thread_init E T)) st) (\<lambda>st.
     obind (OS_INIT_MACRO (debug_init E dbg_thr_fn) st) (\<lambda>st.
     OS_INIT_MACRO (on_os (net_init E)) st)))))))))))"

record OS_SYSPARAM =
  sp_system_pool_size :: u32
  sp_debug_pool_size :: u32
  sp_network_pool_size :: u32

definition os_reinit_sysparam :: "OS_SYSPARAM option \<Rightarrow> dbg_state \<times> os_state \<Rightarrow> dbg_state \<times> os_state" where
  "os_reinit_sysparam sysp = (\<lambda>(D, s).
     case sysp of None \<Rightarrow> (D, s)
     | Some p \<Rightarrow>
       (if DEBUG_MEM_CLASS_SIZE < sp_debug_pool_size p then D\<lparr>os_debug_pool_size := sp_debug_pool_size p\<rparr> else D,
        let s = (if OS_SYSMEM_SIZE < sp_system_pool_size p then s\<lparr>os_system_pool_size := sp_system_pool_size p\<rparr> else s) in
        if NET_MEM_CLASS_SIZE < sp_network_pool_size p then s\<lparr>os_network_pool_size := sp_network_pool_size p\<rparr> else s))"

definition os_set_debug_level :: "u32 \<Rightarrow> dbg_state \<Rightarrow> dbg_state" where
  "os_set_debug_level mode D =
     D\<lparr>dbg_printf_flag := (if mode = 1 then OS_DBG_LVL_ERR else OS_DBG_LVL_ERR OR OS_DBG_LVL_VER)\<rparr>"

end
