(* ===== verification/Log_Laws.thy ===== *)
theory Log_Laws
  imports Os_Init Var_Laws
begin

text \<open>
  The log of src/dbg.c: how a write and a flush change the buffer, the invariant of its statics, and the
  effect of a message and of a round of the logging thread on a free lock.
\<close>

section \<open>The buffer\<close>

definition pending :: "dbg_state \<Rightarrow> u8 list" where
  "pending D = take (unat (dbg_log_amount D)) (dbg_temp_buff D)"

definition log_text :: "dbg_state \<Rightarrow> bool" where
  "log_text D \<longleftrightarrow> length (dbg_temp_buff D) = DBG_BUF_LEN \<and> unat (dbg_log_amount D) < DBG_BUF_LEN
     \<and> 0 \<notin> set (pending D) \<and> (dbg_log_amount D \<noteq> 0 \<longrightarrow> dbg_temp_buff D ! unat (dbg_log_amount D) = 0)"

definition dbg_ok :: "dbg_state \<Rightarrow> bool" where
  "dbg_ok D \<longleftrightarrow> log_text D \<and> unat (dbg_log_amount D) < DBG_BUF_LEN - DBG_BUFF_MIN_AMOUNT
     \<and> ONE_SECOND \<le> dbg_clock_tick D \<and> dbg_clock_tick D < 60 * ONE_SECOND"

lemma dbg_statics_ok: "dbg_ok dbg_statics"
  by (simp add: dbg_ok_def log_text_def pending_def dbg_statics_def DBG_BUF_LEN_def DBG_BUFF_MIN_AMOUNT_def ONE_SECOND_def)

lemma log_write_fits:
  assumes t: "log_text D" and fit: "unat (dbg_log_amount D) + length text < DBG_BUF_LEN" and "0 \<notin> set text"
  obtains D' where "log_write text D = Ret D'" "log_text D'" "pending D' = pending D @ text"
    "unat (dbg_log_amount D') = unat (dbg_log_amount D) + length text"
    "dbg_temp_buff D' ! unat (dbg_log_amount D') = 0"
    "D' = D\<lparr>dbg_temp_buff := dbg_temp_buff D', dbg_log_amount := dbg_log_amount D'\<rparr>"
proof -
  let ?off = "unat (dbg_log_amount D)" and ?b = "dbg_temp_buff D"
  let ?new = "take ?off ?b @ (text @ [0]) @ drop (?off + length (text @ [0])) ?b"
  let ?D = "D\<lparr>dbg_temp_buff := ?new, dbg_log_amount := dbg_log_amount D + of_nat (length text)\<rparr>"
  have len: "length ?b = DBG_BUF_LEN" using t by (simp add: log_text_def)
  have amt: "unat (dbg_log_amount ?D) = ?off + length text"
    using fit by (simp add: unat_word_ariths unat_of_nat DBG_BUF_LEN_def)
  have pre: "length (take ?off ?b) = ?off" using len fit by simp
  have pend: "pending ?D = pending D @ text"
    unfolding pending_def amt using pre by (simp del: length_take)
  have nul: "dbg_temp_buff ?D ! unat (dbg_log_amount ?D) = 0"
    unfolding amt using pre by (simp add: nth_append del: length_take)
  have l: "length (dbg_temp_buff ?D) = DBG_BUF_LEN" using len fit by simp
  have "log_text ?D"
    unfolding log_text_def pend amt using t fit assms(3) l nul unfolding amt by (simp add: log_text_def del: length_append)
  moreover have "log_write text D = Ret ?D" using len fit by (simp add: log_write_def Let_def)
  ultimately show thesis using that pend amt nul by simp
qed

lemma log_write_overflows:
  assumes "log_text D" and "DBG_BUF_LEN \<le> unat (dbg_log_amount D) + length text"
  shows "log_write text D = Fault OutOfBounds"
  using assms by (simp add: log_write_def log_text_def Let_def)

lemma log_text_printed:
  assumes t: "log_text D" and nul: "dbg_temp_buff D ! unat (dbg_log_amount D) = 0"
  shows "0 \<in> set (dbg_temp_buff D)" "takeWhile (\<lambda>b. b \<noteq> 0) (dbg_temp_buff D) = pending D"
proof -
  let ?n = "unat (dbg_log_amount D)" and ?b = "dbg_temp_buff D"
  have n: "?n < length ?b" and z: "0 \<notin> set (take ?n ?b)" using t by (simp_all add: log_text_def pending_def)
  have b: "?b = take ?n ?b @ 0 # drop (Suc ?n) ?b" using n nul id_take_nth_drop [of ?n ?b] by simp
  show "0 \<in> set ?b" by (subst b) simp
  show "takeWhile (\<lambda>b. b \<noteq> 0) ?b = pending D"
    unfolding pending_def by (subst b) (use z in \<open>auto simp: takeWhile_append\<close>)
qed

lemma debug_flush_prints:
  assumes "log_text D" and "dbg_temp_buff D ! unat (dbg_log_amount D) = 0"
  shows "debug_flush D = Ret (OKAY, D\<lparr>console := console D @ pending D, dbg_log_amount := 0\<rparr>)"
  using log_text_printed [OF assms] by (simp add: debug_flush_def os_printf_def)

text \<open>A second flush prints the same text again: the flush sets the amount back and leaves the buffer.\<close>

lemma debug_flush_again:
  assumes "log_text D" and "dbg_temp_buff D ! unat (dbg_log_amount D) = 0"
  shows "debug_flush (D\<lparr>console := c, dbg_log_amount := 0\<rparr>) = Ret (OKAY, D\<lparr>console := c @ pending D, dbg_log_amount := 0\<rparr>)"
  using log_text_printed [OF assms] by (simp add: debug_flush_def os_printf_def)

lemma log_text_flushed: "log_text D \<Longrightarrow> log_text (D\<lparr>console := c, dbg_log_amount := 0\<rparr>)"
  by (simp add: log_text_def pending_def DBG_BUF_LEN_def)

section \<open>The time stamp\<close>

lemma fmt_dec_length: "n < 10 ^ Suc k \<Longrightarrow> length (fmt_dec n) \<le> Suc k"
proof (induction k arbitrary: n)
  case 0 then show ?case by (simp add: fmt_dec.simps)
next
  case (Suc k)
  have "n div 10 < 10 ^ Suc k" using Suc.prems by (simp add: div_less_iff_less_mult algebra_simps)
  from Suc.IH [OF this] show ?case by (simp add: fmt_dec.simps [of n])
qed

lemma fmt_dec_no_nul: "0 \<notin> set (str_bytes (fmt_dec n))"
proof (induction n rule: fmt_dec.induct)
  case (1 n)
  have "\<forall>c \<in> set ''0123456789abcdef''. (of_nat (of_char c) :: u8) \<noteq> 0" by simp
  then have "(of_nat (of_char (hex_digit d)) :: u8) \<noteq> 0" for d
    unfolding hex_digit.simps by (rule bspec) (rule nth_mem, simp)
  then show ?case using 1 by (auto simp: fmt_dec.simps [of n] str_bytes_def simp del: hex_digit.simps)
qed

lemma time_prefix_length: "length (time_prefix t) \<le> 23"
proof -
  have "length (fmt_dec (nat \<bar>sint t\<bar>)) \<le> Suc 18"
    by (rule fmt_dec_length) (use sint_range_size [of t] in \<open>simp add: word_size, arith\<close>)
  then have "length (fmt_ld (sint t)) \<le> 20" by (auto simp: fmt_ld_def)
  then show ?thesis by (simp add: time_prefix_def str_bytes_def fmt_8ld_def Let_def)
qed

lemma time_prefix_no_nul: "0 \<notin> set (time_prefix t)"
  using fmt_dec_no_nul by (auto simp: time_prefix_def str_bytes_def fmt_8ld_def fmt_ld_def Let_def)

section \<open>Messages and rounds on a free lock\<close>

definition log_lock :: "dbg_state \<Rightarrow> os_state \<Rightarrow> ghost \<Rightarrow> nodes \<Rightarrow> nodes \<Rightarrow> bool" where
  "log_lock D s M ms cs \<longleftrightarrow> var_ok s M ms cs \<and> (\<exists>m. mutex_of s ms (dbg_mutex D) = Some m \<and> mutex_free m)"

lemma log_lock_run:
  assumes "log_lock D s M ms cs"
  obtains t where "os_mutex_lock (dbg_mutex D) 0 s = Ret (OKAY, t)" "calls t = calls s"
    "os_mutex_unlock (dbg_mutex D) (tick t) = Ret (OKAY, tick s)" "os_mutex_unlock (dbg_mutex D) t = Ret (OKAY, s)"
proof -
  from assms obtain p m where p: "lookup ms (dbg_mutex D) = Some p" "heap s p = Some (MutexObj m)"
    and f: "mutex_free m" and v: "var_ok s M ms cs" by (auto simp: log_lock_def mutex_of_Some)
  let ?t = "hput p (MutexObj (lock_rec m)) s"
  have vt: "var_ok ?t M ms cs" by (rule var_ok_hput [OF v]) (use p in auto)
  have "os_mutex_unlock (dbg_mutex D) ?t = Ret (OKAY, hput p (MutexObj (unlock_rec (lock_rec m))) ?t)"
    by (rule mutex_unlock_step [OF vt p(1)]) simp_all
  moreover have "os_mutex_unlock (dbg_mutex D) (tick ?t) = Ret (OKAY, hput p (MutexObj (unlock_rec (lock_rec m))) (tick ?t))"
    by (rule mutex_unlock_step [OF var_ok_tick [OF vt] p(1)]) simp_all
  moreover have "hput p (MutexObj m) (tick ?t) = tick s" using p(2) by (simp add: hput_def tick_def fun_upd_idem)
  ultimately show thesis
    using that [of ?t] mutex_lock_step [OF v p f] p(2)
    by (simp add: unlock_lock_rec [OF f] hput_same)
qed

lemma log_lock_tick: "log_lock D s M ms cs \<Longrightarrow> log_lock D (tick s) M ms cs"
  by (auto simp: log_lock_def mutex_of_def)

definition log_line :: "os_env \<Rightarrow> nat \<Rightarrow> u8 list \<Rightarrow> u8 list" where
  "log_line E n text = time_prefix (e_time E n) @ text"

lemma debug_print_logs:
  assumes ok: "dbg_ok D" and l: "log_lock D s M ms cs" and len: "length text \<le> 1001" and nz: "0 \<notin> set text"
  obtains D' where "debug_print E text (D, s) = Ret (OKAY, D', tick s)" "dbg_ok D'" "dbg_mutex D' = dbg_mutex D"
    "console D' @ pending D' = console D @ pending D @ log_line E (calls s) text"
    "DBG_BUF_LEN - DBG_BUFF_MIN_AMOUNT \<le> length (pending D) + length (log_line E (calls s) text) \<Longrightarrow>
       console D' = console D @ pending D @ log_line E (calls s) text \<and> dbg_log_amount D' = 0
       \<and> debug_flush D' = Ret (OKAY, D'\<lparr>console := console D' @ pending D @ log_line E (calls s) text\<rparr>)"
proof -
  from log_lock_run [OF l] obtain t where t: "os_mutex_lock (dbg_mutex D) 0 s = Ret (OKAY, t)" "calls t = calls s"
    "os_mutex_unlock (dbg_mutex D) (tick t) = Ret (OKAY, tick s)" by metis
  let ?pre = "time_prefix (e_time E (calls s))"
  have o: "log_text D" "unat (dbg_log_amount D) < 7168" using ok by (simp_all add: dbg_ok_def DBG_BUF_LEN_def DBG_BUFF_MIN_AMOUNT_def)
  have fit: "unat (dbg_log_amount D) + length ?pre < DBG_BUF_LEN"
    using o(2) time_prefix_length [of "e_time E (calls s)"] by (simp add: DBG_BUF_LEN_def)
  from log_write_fits [OF o(1) fit time_prefix_no_nul] obtain D1 where D1: "log_write ?pre D = Ret D1" "log_text D1"
    "pending D1 = pending D @ ?pre" "unat (dbg_log_amount D1) = unat (dbg_log_amount D) + length ?pre"
    and E1: "D1 = D\<lparr>dbg_temp_buff := dbg_temp_buff D1, dbg_log_amount := dbg_log_amount D1\<rparr>" by metis
  have fit: "unat (dbg_log_amount D1) + length text < DBG_BUF_LEN"
    using o(2) len time_prefix_length [of "e_time E (calls s)"] by (simp add: D1(4) DBG_BUF_LEN_def)
  from log_write_fits [OF D1(2) fit nz] obtain D2 where D2: "log_write text D1 = Ret D2" "log_text D2"
    "pending D2 = pending D1 @ text" "dbg_temp_buff D2 ! unat (dbg_log_amount D2) = 0"
    "unat (dbg_log_amount D2) = unat (dbg_log_amount D1) + length text"
    and E2: "D2 = D1\<lparr>dbg_temp_buff := dbg_temp_buff D2, dbg_log_amount := dbg_log_amount D2\<rparr>" by metis
  have eq: "console D2 = console D" "dbg_mutex D2 = dbg_mutex D"
    by (subst E2, simp, subst E1, simp)+
  let ?D3 = "D2\<lparr>dbg_clock_tick := ONE_SECOND\<rparr>"
  have t3: "log_text ?D3" "pending ?D3 = pending D2" using D2(2) by (simp_all add: log_text_def pending_def)
  have run: "debug_print E text (D, s) =
     obind (if of_nat (DBG_BUF_LEN - DBG_BUFF_MIN_AMOUNT) \<le> dbg_log_amount ?D3 then debug_flush ?D3 else Ret (OKAY, ?D3))
       (\<lambda>(r, D). obind (os_mutex_unlock (dbg_mutex D) (tick t)) (\<lambda>(r, s). Ret (OKAY, D, s)))"
    using t D1(1) D2(1) by (simp add: debug_print_def os_time_get_def)
  show thesis
  proof (cases "of_nat (DBG_BUF_LEN - DBG_BUFF_MIN_AMOUNT) \<le> dbg_log_amount ?D3")
    case True
    have f: "debug_flush ?D3 = Ret (OKAY, ?D3\<lparr>console := console ?D3 @ pending ?D3, dbg_log_amount := 0\<rparr>)"
      by (rule debug_flush_prints [OF t3(1)]) (simp add: D2(4))
    have again: "debug_flush (?D3\<lparr>console := console ?D3 @ pending ?D3, dbg_log_amount := 0\<rparr>) =
        Ret (OKAY, ?D3\<lparr>console := (console ?D3 @ pending ?D3) @ pending ?D3, dbg_log_amount := 0\<rparr>)"
      by (rule debug_flush_again [OF t3(1)]) (simp add: D2(4))
    have "log_text (?D3\<lparr>console := console ?D3 @ pending ?D3, dbg_log_amount := 0\<rparr>)" by (rule log_text_flushed [OF t3(1)])
    then show thesis
      by (intro that [of "?D3\<lparr>console := console ?D3 @ pending ?D3, dbg_log_amount := 0\<rparr>"]) (use True run f again t(3) eq t3(2) D2(3) D1(3) in
        \<open>simp_all add: dbg_ok_def pending_def log_line_def ONE_SECOND_def DBG_BUF_LEN_def DBG_BUFF_MIN_AMOUNT_def\<close>)
  next
    case False
    then have "dbg_log_amount D2 < 7168" by (simp add: DBG_BUF_LEN_def DBG_BUFF_MIN_AMOUNT_def)
    then have less: "unat (dbg_log_amount D2) < 7168" using word_less_nat_alt [of "dbg_log_amount D2" 7168] by simp
    have "length (pending D) = unat (dbg_log_amount D)" using o by (simp add: pending_def log_text_def DBG_BUF_LEN_def)
    then have "\<not> DBG_BUF_LEN - DBG_BUFF_MIN_AMOUNT \<le> length (pending D) + length (log_line E (calls s) text)"
      using less D1(4) D2(5) by (simp add: log_line_def DBG_BUF_LEN_def DBG_BUFF_MIN_AMOUNT_def)
    with less show thesis
      by (intro that [of ?D3]) (use False run t(3) eq t3 D2(3) D1(3) in
        \<open>simp_all add: dbg_ok_def log_line_def ONE_SECOND_def DBG_BUF_LEN_def DBG_BUFF_MIN_AMOUNT_def\<close>)
  qed
qed

text \<open>What the logging thread does behind its test, when the test still tells the truth.\<close>

lemma dbg_act_flushes:
  assumes ok: "dbg_ok D" and l: "log_lock D s M ms cs" and ne: "dbg_log_amount D \<noteq> 0"
  obtains D' where "dbg_act False (D, s) = Ret (D', s)" "dbg_ok D'" "dbg_mutex D' = dbg_mutex D"
    "pending D' = []" "console D' = console D @ pending D"
proof -
  from log_lock_run [OF l] obtain t where t: "os_mutex_lock (dbg_mutex D) 0 s = Ret (OKAY, t)"
    "os_mutex_unlock (dbg_mutex D) t = Ret (OKAY, s)" by metis
  have o: "log_text D" using ok by (simp add: dbg_ok_def)
  have f: "debug_flush D = Ret (OKAY, D\<lparr>console := console D @ pending D, dbg_log_amount := 0\<rparr>)"
    by (rule debug_flush_prints [OF o]) (use o ne in \<open>simp add: log_text_def\<close>)
  have "dbg_ok (D\<lparr>console := console D @ pending D, dbg_log_amount := 0\<rparr>)"
    using ok log_text_flushed [OF o] by (simp add: dbg_ok_def DBG_BUF_LEN_def DBG_BUFF_MIN_AMOUNT_def)
  then show thesis by (intro that [of "D\<lparr>console := console D @ pending D, dbg_log_amount := 0\<rparr>"]) (use f t in \<open>simp_all add: dbg_act_def pending_def\<close>)
qed

lemma dbg_act_ticks:
  assumes ok: "dbg_ok D"
  obtains D' where "dbg_act True (D, s) = Ret (D', s)" "dbg_ok D'" "dbg_mutex D' = dbg_mutex D"
    "pending D' = pending D" "console D' = console D"
proof -
  let ?D = "if dbg_clock_tick D + ONE_SECOND < 60 * ONE_SECOND then D\<lparr>dbg_clock_tick := dbg_clock_tick D + ONE_SECOND\<rparr> else D"
  have "dbg_clock_tick D < 60 * ONE_SECOND" "ONE_SECOND \<le> dbg_clock_tick D" using ok by (simp_all add: dbg_ok_def)
  then have "ONE_SECOND \<le> dbg_clock_tick D + ONE_SECOND"
    by (simp add: ONE_SECOND_def word_le_nat_alt word_less_nat_alt unat_word_ariths)
  then have "dbg_ok ?D" using ok by (simp add: dbg_ok_def log_text_def pending_def)
  then show thesis by (intro that [of ?D]) (simp_all add: dbg_act_def pending_def)
qed

section \<open>Runs of the log\<close>

text \<open>
  Messages of any thread, one after the other as they get the lock, and rounds of the logging thread,
  each with the messages that come between its test and its lock.
\<close>

datatype log_event = Message "u8 list" | Log_Round "u8 list list"

fun log_messages :: "os_env \<Rightarrow> u8 list list \<Rightarrow> dbg_state \<times> os_state \<Rightarrow> (dbg_state \<times> os_state) outcome" where
  "log_messages E [] st = Ret st"
| "log_messages E (text # texts) st = obind (debug_print E text st) (\<lambda>(r, st). log_messages E texts st)"

fun log_step :: "os_env \<Rightarrow> log_event \<Rightarrow> dbg_state \<times> os_state \<Rightarrow> (dbg_state \<times> os_state) outcome" where
  "log_step E (Message text) st = log_messages E [text] st"
| "log_step E (Log_Round texts) st = dbg_round Ret (log_messages E texts) st"

fun log_run :: "os_env \<Rightarrow> log_event list \<Rightarrow> dbg_state \<times> os_state \<Rightarrow> (dbg_state \<times> os_state) outcome" where
  "log_run E [] st = Ret st"
| "log_run E (e # es) st = obind (log_step E e st) (log_run E es)"

fun event_texts :: "log_event \<Rightarrow> u8 list list" where
  "event_texts (Message text) = [text]"
| "event_texts (Log_Round texts) = texts"

text \<open>What should be read on the console: every message once, in order, with its time.\<close>

fun text_lines :: "os_env \<Rightarrow> nat \<Rightarrow> u8 list list \<Rightarrow> u8 list" where
  "text_lines E n [] = []"
| "text_lines E n (text # texts) = log_line E n text @ text_lines E (Suc n) texts"

definition log_lines :: "os_env \<Rightarrow> nat \<Rightarrow> log_event list \<Rightarrow> u8 list" where
  "log_lines E n es = text_lines E n (concat (map event_texts es))"

lemma text_lines_append: "text_lines E n (xs @ ys) = text_lines E n xs @ text_lines E (n + length xs) ys"
  by (induction xs arbitrary: n) simp_all

definition event_fits :: "log_event \<Rightarrow> bool" where
  "event_fits e = list_all (\<lambda>text. length text \<le> 1001 \<and> 0 \<notin> set text) (event_texts e)"

text \<open>No message empties the buffer between a test that found it filled and the lock.\<close>

fun calm :: "os_env \<Rightarrow> log_event list \<Rightarrow> dbg_state \<times> os_state \<Rightarrow> bool" where
  "calm E [] st = True"
| "calm E (e # es) st \<longleftrightarrow>
     (case log_messages E (event_texts e) st of
        Fault f \<Rightarrow> False
      | Ret st' \<Rightarrow> (case e of Message text \<Rightarrow> True
          | Log_Round texts \<Rightarrow> dbg_log_amount (fst st) \<noteq> 0 \<longrightarrow> dbg_log_amount (fst st') \<noteq> 0))
     \<and> (case log_step E e st of Fault f \<Rightarrow> False | Ret st' \<Rightarrow> calm E es st')"

lemma log_messages_complete:
  assumes "dbg_ok D" and "log_lock D s M ms cs" and "list_all (\<lambda>text. length text \<le> 1001 \<and> 0 \<notin> set text) texts"
  shows "\<exists>D' s'. log_messages E texts (D, s) = Ret (D', s') \<and> dbg_ok D' \<and> log_lock D' s' M ms cs
     \<and> calls s' = calls s + length texts \<and> console D' @ pending D' = console D @ pending D @ text_lines E (calls s) texts"
  using assms
proof (induction texts arbitrary: D s)
  case Nil then show ?case by simp
next
  case (Cons msg texts)
  have "length msg \<le> 1001" "0 \<notin> set msg" using Cons.prems(3) by simp_all
  from debug_print_logs [OF Cons.prems(1,2) this] obtain D1 where D1: "debug_print E msg (D, s) = Ret (OKAY, D1, tick s)"
    "dbg_ok D1" "dbg_mutex D1 = dbg_mutex D"
    "console D1 @ pending D1 = console D @ pending D @ log_line E (calls s) msg" by metis
  have l: "log_lock D1 (tick s) M ms cs" using log_lock_tick [OF Cons.prems(2)] D1(3) by (simp add: log_lock_def)
  have "list_all (\<lambda>text. length text \<le> 1001 \<and> 0 \<notin> set text) texts" using Cons.prems(3) by simp
  from Cons.IH [OF D1(2) l this] obtain D' s' where R: "log_messages E texts (D1, tick s) = Ret (D', s')" "dbg_ok D'"
    "log_lock D' s' M ms cs" "calls s' = Suc (calls s) + length texts"
    "console D' @ pending D' = console D1 @ pending D1 @ text_lines E (Suc (calls s)) texts" by auto
  have "console D' @ pending D' = console D @ pending D @ text_lines E (calls s) (msg # texts)"
    using R(5) D1(4) by (metis append.assoc text_lines.simps(2))
  then show ?case using R(1-4) D1(1) by auto
qed

lemma pending_empty: "dbg_ok D \<Longrightarrow> pending D = [] \<longleftrightarrow> dbg_log_amount D = 0"
  by (auto simp: dbg_ok_def log_text_def pending_def DBG_BUF_LEN_def unat_eq_zero)

text \<open>A round whose test is not overtaken prints what it found and what came after.\<close>

lemma log_round_flushes:
  assumes ok: "dbg_ok D" and l: "log_lock D s M ms cs" and fit: "event_fits (Log_Round texts)"
    and calm: "\<And>st'. log_messages E texts (D, s) = Ret st' \<Longrightarrow> dbg_log_amount D \<noteq> 0 \<Longrightarrow> dbg_log_amount (fst st') \<noteq> 0"
  shows "\<exists>D' s'. dbg_round Ret (log_messages E texts) (D, s) = Ret (D', s') \<and> dbg_ok D' \<and> log_lock D' s' M ms cs
     \<and> calls s' = calls s + length texts \<and> console D' @ pending D' = console D @ pending D @ text_lines E (calls s) texts
     \<and> (texts = [] \<longrightarrow> pending D' = [])"
proof -
  have "list_all (\<lambda>text. length text \<le> 1001 \<and> 0 \<notin> set text) texts" using fit by (simp add: event_fits_def)
  from log_messages_complete [OF ok l this, of E] obtain D1 s1 where m: "log_messages E texts (D, s) = Ret (D1, s1)" "dbg_ok D1"
    "log_lock D1 s1 M ms cs" "calls s1 = calls s + length texts"
    "console D1 @ pending D1 = console D @ pending D @ text_lines E (calls s) texts" by blast
  show ?thesis
  proof (cases "dbg_log_amount D = 0")
    case True
    from dbg_act_ticks [OF m(2)] obtain D2 where D2: "dbg_act True (D1, s1) = Ret (D2, s1)" "dbg_ok D2"
      "dbg_mutex D2 = dbg_mutex D1" "pending D2 = pending D1" "console D2 = console D1" by metis
    have "log_lock D2 s1 M ms cs" using m(3) D2(3) by (simp add: log_lock_def)
    moreover have "texts = [] \<longrightarrow> pending D2 = []" using m(1) D2(4) True pending_empty [OF ok] by auto
    ultimately show ?thesis using m D2 True by (intro exI [of _ D2] exI [of _ s1]) (simp add: dbg_round_def)
  next
    case False
    then have "dbg_log_amount D1 \<noteq> 0" using calm [OF m(1)] by simp
    from dbg_act_flushes [OF m(2,3) this] obtain D2 where D2: "dbg_act False (D1, s1) = Ret (D2, s1)" "dbg_ok D2"
      "dbg_mutex D2 = dbg_mutex D1" "pending D2 = []" "console D2 = console D1 @ pending D1" by metis
    have "log_lock D2 s1 M ms cs" using m(3) D2(3) by (simp add: log_lock_def)
    then show ?thesis using m D2 False by (intro exI [of _ D2] exI [of _ s1]) (simp add: dbg_round_def)
  qed
qed

lemma log_run_complete:
  assumes "dbg_ok D" and "log_lock D s M ms cs" and "list_all event_fits es" and "calm E es (D, s)"
  shows "\<exists>D' s'. log_run E es (D, s) = Ret (D', s') \<and> dbg_ok D' \<and> log_lock D' s' M ms cs
     \<and> console D' @ pending D' = console D @ pending D @ log_lines E (calls s) es"
  using assms
proof (induction es arbitrary: D s)
  case Nil then show ?case by (simp add: log_lines_def)
next
  case (Cons e es)
  have fits: "event_fits e" "list_all event_fits es" using Cons.prems(3) by simp_all
  have "\<exists>D1 s1. log_step E e (D, s) = Ret (D1, s1) \<and> dbg_ok D1 \<and> log_lock D1 s1 M ms cs
     \<and> calls s1 = calls s + length (event_texts e)
     \<and> console D1 @ pending D1 = console D @ pending D @ text_lines E (calls s) (event_texts e)"
  proof (cases e)
    case (Message msg)
    have "list_all (\<lambda>text. length text \<le> 1001 \<and> 0 \<notin> set text) [msg]" using fits(1) Message by (simp add: event_fits_def)
    from log_messages_complete [OF Cons.prems(1,2) this, of E] Message show ?thesis by (simp del: log_messages.simps)
  next
    case (Log_Round texts)
    have f: "event_fits (Log_Round texts)" using fits(1) Log_Round by simp
    have "dbg_log_amount (fst st') \<noteq> 0" if "log_messages E texts (D, s) = Ret st'" "dbg_log_amount D \<noteq> 0" for st'
      using Cons.prems(4) Log_Round that by simp
    then have "\<exists>D' s'. dbg_round Ret (log_messages E texts) (D, s) = Ret (D', s') \<and> dbg_ok D' \<and> log_lock D' s' M ms cs
       \<and> calls s' = calls s + length texts \<and> console D' @ pending D' = console D @ pending D @ text_lines E (calls s) texts
       \<and> (texts = [] \<longrightarrow> pending D' = [])"
      by (rule log_round_flushes [OF Cons.prems(1,2) f])
    then show ?thesis using Log_Round by auto
  qed
  then obtain D1 s1 where D1: "log_step E e (D, s) = Ret (D1, s1)" "dbg_ok D1" "log_lock D1 s1 M ms cs"
    "calls s1 = calls s + length (event_texts e)"
    "console D1 @ pending D1 = console D @ pending D @ text_lines E (calls s) (event_texts e)" by blast
  have "calm E es (D1, s1)" using Cons.prems(4) D1(1) by simp
  from Cons.IH [OF D1(2,3) fits(2) this] obtain D' s' where R: "log_run E es (D1, s1) = Ret (D', s')" "dbg_ok D'"
    "log_lock D' s' M ms cs" "console D' @ pending D' = console D1 @ pending D1 @ log_lines E (calls s1) es" by blast
  have "console D' @ pending D' = console D @ pending D @ log_lines E (calls s) (e # es)"
    unfolding R(4) log_lines_def using D1(4,5) by (simp add: text_lines_append)
  then show ?case using R(1-3) D1(1) by simp
qed

lemma log_run_append: "log_run E (es @ es') st = obind (log_run E es st) (log_run E es')"
  by (induction es arbitrary: st) (simp_all add: obind_assoc cong: obind_cong)

lemma log_run_flushed:
  assumes "dbg_ok D" and "log_lock D s M ms cs" and "list_all event_fits es" and "calm E es (D, s)"
  shows "\<exists>D' s'. log_run E (es @ [Log_Round []]) (D, s) = Ret (D', s') \<and> dbg_ok D' \<and> log_lock D' s' M ms cs
     \<and> pending D' = [] \<and> console D' = console D @ pending D @ log_lines E (calls s) es"
proof -
  from log_run_complete [OF assms] obtain D1 s1 where R: "log_run E es (D, s) = Ret (D1, s1)" "dbg_ok D1"
    "log_lock D1 s1 M ms cs" "console D1 @ pending D1 = console D @ pending D @ log_lines E (calls s) es" by blast
  have "event_fits (Log_Round [])" by (simp add: event_fits_def)
  from log_round_flushes [OF R(2,3) this, of E] obtain D' s' where "dbg_round Ret (log_messages E []) (D1, s1) = Ret (D', s')"
    "dbg_ok D'" "log_lock D' s' M ms cs" "console D' @ pending D' = console D1 @ pending D1" "pending D' = []" by auto
  then show ?thesis using R by (intro exI [of _ D'] exI [of _ s']) (simp add: log_run_append)
qed

section \<open>The test is overtaken\<close>

lemma dbg_round_overtaken:
  assumes ok: "dbg_ok D" and l: "log_lock D s M ms cs" and len: "length text \<le> 1001" and nz: "0 \<notin> set text"
    and ne: "dbg_log_amount D \<noteq> 0"
    and full: "DBG_BUF_LEN - DBG_BUFF_MIN_AMOUNT \<le> length (pending D) + length (log_line E (calls s) text)"
  shows "\<exists>D' s'. dbg_round Ret (log_messages E [text]) (D, s) = Ret (D', s')
     \<and> console D' = console D @ (pending D @ log_line E (calls s) text) @ (pending D @ log_line E (calls s) text)"
proof -
  from debug_print_logs [OF ok l len nz] full obtain D1 where D1: "debug_print E text (D, s) = Ret (OKAY, D1, tick s)"
    "dbg_mutex D1 = dbg_mutex D" "console D1 = console D @ pending D @ log_line E (calls s) text"
    "debug_flush D1 = Ret (OKAY, D1\<lparr>console := console D1 @ pending D @ log_line E (calls s) text\<rparr>)" by metis
  have "log_lock D1 (tick s) M ms cs" using log_lock_tick [OF l] D1(2) by (simp add: log_lock_def)
  from log_lock_run [OF this] obtain t where "os_mutex_lock (dbg_mutex D1) 0 (tick s) = Ret (OKAY, t)"
    "os_mutex_unlock (dbg_mutex D1) t = Ret (OKAY, tick s)" by metis
  then show ?thesis using D1 ne by (simp add: dbg_round_def dbg_act_def)
qed

end
