(* ===== verification/Init_Laws.thy ===== *)
theory Init_Laws
  imports Log_Laws Msgq_Laws Thread_Laws Buff_Laws
begin

text \<open>
  The start of the library: from the statics as the C program finds them, \<open>os_init\<close> brings up the
  components one after the other and with them the invariants the theorems on the components ask for.
\<close>

section \<open>Statics do not matter to the lists\<close>

lemma kit_ok_statics [simp]:
  "kit_ok (s\<lparr>mutex_list := l\<rparr>) M = kit_ok s M" "kit_ok (s\<lparr>cond_list := l\<rparr>) M = kit_ok s M"
  "kit_ok (s\<lparr>queue_list := l\<rparr>) M = kit_ok s M" "kit_ok (s\<lparr>msgq_list := l\<rparr>) M = kit_ok s M"
  "kit_ok (s\<lparr>buffer_class_list := l\<rparr>) M = kit_ok s M" "kit_ok (s\<lparr>thread_list := l\<rparr>) M = kit_ok s M"
  by (simp_all add: kit_ok_def lists_ok_def list_at_def mem_ok_def)

lemma table_statics [simp]:
  "table (s\<lparr>mutex_list := l\<rparr>) M hp nm K xs = table s M hp nm K xs" "table (s\<lparr>cond_list := l\<rparr>) M hp nm K xs = table s M hp nm K xs"
  "table (s\<lparr>queue_list := l\<rparr>) M hp nm K xs = table s M hp nm K xs" "table (s\<lparr>msgq_list := l\<rparr>) M hp nm K xs = table s M hp nm K xs"
  "table (s\<lparr>buffer_class_list := l\<rparr>) M hp nm K xs = table s M hp nm K xs" "table (s\<lparr>thread_list := l\<rparr>) M hp nm K xs = table s M hp nm K xs"
  by (simp_all add: table_def)

lemma table_Nil: "table s M hp nm K [] \<longleftrightarrow> M hp = Some (nm, [])"
  by (simp add: table_def)

text \<open>An initialisation of the form: create the list, keep its address, fail without it.\<close>

lemma roomy_back: "\<not> roomy E n s' \<Longrightarrow> adds k s s' \<Longrightarrow> n + k \<le> m \<Longrightarrow> \<not> roomy E m s"
  using roomy_adds [of E m s k s'] roomy_less [of E "m - k" s' n] by (auto simp: le_diff_conv2)

lemma adds_statics [simp]:
  "adds k s (s'\<lparr>mutex_list := l\<rparr>) = adds k s s'" "adds k s (s'\<lparr>cond_list := l\<rparr>) = adds k s s'"
  "adds k s (s'\<lparr>queue_list := l\<rparr>) = adds k s s'" "adds k s (s'\<lparr>msgq_list := l\<rparr>) = adds k s s'"
  "adds k s (s'\<lparr>buffer_class_list := l\<rparr>) = adds k s s'" "adds k s (s'\<lparr>thread_list := l\<rparr>) = adds k s s'"
  "adds k (s\<lparr>mutex_list := l\<rparr>) s' = adds k s s'" "adds k (s\<lparr>msgq_list := l\<rparr>) s' = adds k s s'"
  "adds k (s\<lparr>thread_list := l\<rparr>) s' = adds k s s'" "adds k (tick s) s' = adds k s s'"
  by (simp_all add: adds_def)

lemma list_init_cases:
  assumes E: "env_ok E" and ok: "kit_ok s M" and nm: "length nm \<le> STR_LEN"
  obtains (failed) "os_list_create E nm s = Ret (0, tick s)" "\<not> roomy E 1 s"
  | (created) l s' where "os_list_create E nm s = Ret (l, s')" "l \<noteq> 0" "M l = None" "kit_ok s' (M(l \<mapsto> (nm, [])))" "keeps s s'"
      "adds 1 s s'"
  using E ok by (cases rule: os_list_create_cases [where nm = nm]) (use nm that roomy_room [of E 1 s] in auto)

section \<open>The state after the start\<close>

text \<open>What holds once every component up to the log has been started.\<close>

definition kit_up :: "dbg_state \<Rightarrow> os_state \<Rightarrow> ghost \<Rightarrow> nodes \<Rightarrow> nodes \<Rightarrow> bool" where
  "kit_up D s M ms ths \<longleftrightarrow> q_ok s M ms [] [] \<and> table s M (msgq_list s) MSGQ_NAME is_mhead []
     \<and> table s M (buffer_class_list s) BUFFER_CLASS_NAME is_class [] \<and> thr_ok s M ths \<and> dbg_ok D \<and> log_lock D s M ms []"

text \<open>The statics as the program finds them: no list yet, and the object of the initial thread.\<close>

definition boot_ok :: "thr_env \<Rightarrow> os_state \<Rightarrow> bool" where
  "boot_ok T s \<longleftrightarrow> os_res_pool s = os_res_pool_table \<and> 0 < os_system_pool_size s \<and> te_thread_init T \<noteq> 0
     \<and> (\<exists>t. heap s (te_thread_init T) = Some (ThreadObj t))"

lemma res_init_table: "map (\<lambda>p. p\<lparr>rp_usevec := replicate OS_MAX_RES 0, rp_lock := False\<rparr>) os_res_pool_table = os_res_pool_table"
  by (simp add: os_res_pool_table_def mk_pool_def)

lemma pools_ok_boot: "pools_ok os_res_pool_table"
  by (auto simp: pools_ok_def pool_ok_def os_res_pool_table_def mk_pool_def)

text \<open>What the system has to provide: the memory of the pool, a region in it with room for sixteen
  structures, and threads.\<close>

definition provided :: "os_env \<Rightarrow> os_state \<Rightarrow> bool" where
  "provided E s \<longleftrightarrow> e_malloc E (calls s) (ucast (os_system_pool_size s)) (heap s) \<noteq> 0
     \<and> (\<forall>n p k. p \<noteq> 0 \<longrightarrow> e_region_create E n p k \<noteq> 0) \<and> roomy E 16 s \<and> (\<forall>n. e_thread_create E n \<noteq> None)"

lemma malloc_fresh_block:
  assumes "env_ok E" and "e_malloc E n sz h \<noteq> 0" and "0 < sz"
  shows "h (e_malloc E n sz h) = None"
proof -
  have "0 < unat sz" using assms(3) by (simp add: unat_gt_0)
  with assms(1,2) have "h (e_malloc E n sz h + of_nat 0) = None"
    unfolding env_ok_def malloc_fresh_def Let_def by blast
  then show ?thesis by simp
qed

lemma mem_init_cases:
  assumes E: "env_ok E" and boot: "boot_ok T s"
  obtains (failed) s' where "os_mem_init E s = Ret (ERROR, s')" "\<not> provided E s"
  | (up) s' where "os_mem_init E s = Ret (OKAY, s')" "kit_ok s' Map.empty" "\<And>a x. heap s a = Some x \<Longrightarrow> heap s' a = Some x" "adds 1 s s'"
proof -
  let ?n = "ucast (os_system_pool_size s) :: u64"
  let ?p = "e_malloc E (calls s) ?n (heap s)"
  let ?r = "e_region_create E (Suc (calls s)) ?p ?n"
  let ?s1 = "(hput ?p (Uninit ?n) (tick s))\<lparr>os_sys_space := ?p\<rparr>"
  let ?s2 = "(tick ?s1)\<lparr>os_sys_region := ?r\<rparr>"
  have n0: "0 < ?n" using boot unsigned_less [of "os_system_pool_size s", where 'a = nat]
    by (simp add: boot_ok_def word_less_nat_alt unsigned_ucast_eq take_bit_nat_eq_self)
  show thesis
  proof (cases "?p = 0")
    case True
    then show thesis using failed by (auto simp: os_mem_init_def os_malloc_def Let_def provided_def)
  next
    case p: False
    have run: "os_mem_init E s = (if ?r = 0 then obind (os_free_space ?p ?s2) (\<lambda>s. Ret (ERROR, s))
        else Ret (OKAY, ?s2\<lparr>os_mem_initialized := True, os_mem_lock := False\<rparr>))"
      using p by (simp add: os_mem_init_def os_malloc_def os_region_init_def Let_def hput_def tick_def)
    show thesis
    proof (cases "?r = 0")
      case True
      have "heap ?s2 ?p = Some (Uninit ?n)" by simp
      then obtain s' where "os_free_space ?p ?s2 = Ret s'" using p by (simp add: os_free_space_def)
      then show thesis using failed run True p by (auto simp: provided_def)
    next
      case False
      let ?s = "?s2\<lparr>os_mem_initialized := True, os_mem_lock := False\<rparr>"
      have fresh: "heap s ?p = None" by (rule malloc_fresh_block [OF E p n0])
      have "kit_ok ?s Map.empty" using boot pools_ok_boot by (simp add: kit_ok_def mem_ok_def lists_ok_def boot_ok_def)
      moreover have "heap ?s a = Some x" if "heap s a = Some x" for a x using that fresh by auto
      moreover have "adds 1 s ?s" using adds_one [of ?s ?p s] by auto
      ultimately show thesis using up run False by simp
    qed
  qed
qed

section \<open>The lists\<close>

lemma name_lengths [simp]:
  "length MUTEX_NAME \<le> STR_LEN" "length COND_NAME \<le> STR_LEN" "length QUEUE_NAME \<le> STR_LEN" "length MSGQ_NAME \<le> STR_LEN"
  "length BUFFER_CLASS_NAME \<le> STR_LEN" "length THREAD_NAME \<le> STR_LEN"
  by (simp_all add: res_name_defs STR_LEN_def)

lemma pool_names [simp]:
  "pool_find THREAD_NAME os_res_pool_table 0 = Some 0" "pool_find MUTEX_NAME os_res_pool_table 0 = Some 1"
  by (simp_all add: os_res_pool_table_def mk_pool_def res_name_defs strncmp_eq_def)

lemma var_init_cases:
  assumes E: "env_ok E" and ok: "kit_ok s Map.empty" and a: "heap s a = Some (ThreadObj t)"
  obtains (failed) s' where "os_var_init E s = Ret (ERROR, s')" "\<not> roomy E 2 s"
  | (up) s' M where "os_var_init E s = Ret (OKAY, s')" "var_ok s' M [] []" "heap s' a = Some (ThreadObj t)" "adds 2 s s'"
  using E ok name_lengths(1)
proof (cases rule: list_init_cases)
  case failed
  then show thesis using that(1) roomy_less [of E 2 s 1] by (auto simp: os_var_init_def)
next
  case (created l s1)
  let ?M = "[l \<mapsto> (MUTEX_NAME, [])]" and ?s1 = "s1\<lparr>mutex_list := l\<rparr>"
  have ok1: "kit_ok ?s1 ?M" and a1: "heap ?s1 a = Some (ThreadObj t)" using created keepsD [OF created(5) a] by simp_all
  from E ok1 name_lengths(2) show thesis
  proof (cases rule: list_init_cases)
    case failed
    have "kit_ok (tick ?s1\<lparr>cond_list := 0\<rparr>) ?M" using kit_ok_tick [OF ok1] by simp
    from os_list_delete_frees [OF this, of l] failed(1) created(1,2) obtain s' where "os_var_init E s = Ret (ERROR, s')"
      by (auto simp: os_var_init_def)
    moreover have "\<not> roomy E 2 s" using roomy_back [OF failed(2), of 1 s 2] created(6) by simp
    ultimately show thesis by (rule that(1))
  next
    case (created l2 s2)
    let ?M2 = "?M(l2 \<mapsto> (COND_NAME, []))" and ?s2 = "s2\<lparr>cond_list := l2\<rparr>"
    have "mutex_list s2 = l" using keeps_lists(1) [OF created(5)] by simp
    then have "var_ok ?s2 ?M2 [] []" using created by (auto simp: var_ok_def table_Nil)
    moreover have "heap ?s2 a = Some (ThreadObj t)" using keepsD [OF created(5) a1] by simp
    moreover have "os_var_init E s = Ret (OKAY, ?s2)"
      using created(1,2) \<open>os_list_create E MUTEX_NAME s = Ret (l, s1)\<close> \<open>l \<noteq> 0\<close> by (simp add: os_var_init_def)
    moreover have "adds 2 s ?s2"
      using adds_trans [OF \<open>adds 1 s s1\<close>, of 1 s2 2] created(6) by simp
    ultimately show thesis using that(2) by blast
  qed
qed

text \<open>The invariant on the way: the lists that exist so far, and the object of the initial thread.\<close>

lemma qbuff_init_cases:
  assumes E: "env_ok E" and ok: "var_ok s M [] []" and a: "heap s a = Some (ThreadObj t)"
  obtains (failed) s' where "os_qbuff_init E s = Ret (ERROR, s')" "\<not> roomy E 1 s"
  | (up) s' M where "os_qbuff_init E s = Ret (OKAY, s')" "q_ok s' M [] [] []" "heap s' a = Some (ThreadObj t)" "adds 1 s s'"
  using E var_okD(1) [OF ok] name_lengths(3)
proof (cases rule: list_init_cases)
  case failed
  then show thesis using that(1) by (simp add: os_qbuff_init_def)
next
  case (created l s1)
  have "M (mutex_list s) \<noteq> None" "M (cond_list s) \<noteq> None" using ok by (simp_all add: var_ok_def table_Nil)
  then have "q_ok (s1\<lparr>queue_list := l\<rparr>) (M(l \<mapsto> (QUEUE_NAME, []))) [] [] []"
    using created ok keeps_lists [OF created(5)] by (auto simp: q_ok_def var_ok_def table_Nil)
  then show thesis using that(2) created(1,2,6) keepsD [OF created(5) a] by (simp add: os_qbuff_init_def)
qed

definition lists_up :: "os_state \<Rightarrow> ghost \<Rightarrow> bool" where
  "lists_up s M \<longleftrightarrow> q_ok s M [] [] [] \<and> M (msgq_list s) = Some (MSGQ_NAME, []) \<and> M (buffer_class_list s) = Some (BUFFER_CLASS_NAME, [])"

lemma q_ok_Nil:
  "q_ok s M [] [] [] \<longleftrightarrow> kit_ok s M \<and> mutex_list s \<noteq> cond_list s \<and> queue_list s \<noteq> mutex_list s \<and> queue_list s \<noteq> cond_list s
     \<and> M (mutex_list s) = Some (MUTEX_NAME, []) \<and> M (cond_list s) = Some (COND_NAME, []) \<and> M (queue_list s) = Some (QUEUE_NAME, [])"
  by (auto simp: q_ok_def var_ok_def table_Nil)

lemma queues_buffers_init_cases:
  assumes E: "env_ok E" and ok: "q_ok s M [] [] []" and a: "heap s a = Some (ThreadObj t)"
  obtains (failed) s' where "os_msgq_init E s = Ret (ERROR, s')" "\<not> roomy E 2 s"
  | (failed_buff) s' s2 where "os_msgq_init E s = Ret (OKAY, s')" "buff_init E s' = Ret (ERROR, s2)" "\<not> roomy E 2 s"
  | (up) s' s2 M where "os_msgq_init E s = Ret (OKAY, s')" "buff_init E s' = Ret (OKAY, s2)" "lists_up s2 M" "heap s2 a = Some (ThreadObj t)"
      "adds 2 s s2"
  using E q_okD(2) [OF ok] name_lengths(4)
proof (cases rule: list_init_cases)
  case failed
  then show thesis using that(1) roomy_less [of E 2 s 1] by (auto simp: os_msgq_init_def)
next
  case (created l s1)
  let ?s1 = "s1\<lparr>msgq_list := l\<rparr>" and ?M = "M(l \<mapsto> (MSGQ_NAME, []))"
  have k: "kit_ok ?s1 ?M" and a1: "heap ?s1 a = Some (ThreadObj t)" using created keepsD [OF created(5) a] by simp_all
  have run: "os_msgq_init E s = Ret (OKAY, ?s1)" using created by (simp add: os_msgq_init_def)
  have q: "q_ok ?s1 ?M [] [] []" using created ok keeps_lists [OF created(5)] by (auto simp: q_ok_Nil)
  from E k name_lengths(5) show thesis
  proof (cases rule: list_init_cases)
    case failed
    moreover have "\<not> roomy E 2 s" using roomy_back [OF failed(2), of 1 s 2] created(6) by simp
    ultimately show thesis using that(2) [OF run] by (simp add: buff_init_def)
  next
    case (created l2 s2)
    have "lists_up (s2\<lparr>buffer_class_list := l2\<rparr>) (?M(l2 \<mapsto> (BUFFER_CLASS_NAME, [])))"
      using created q keeps_lists [OF created(5)] by (auto simp: lists_up_def q_ok_Nil)
    moreover have "adds 2 s (s2\<lparr>buffer_class_list := l2\<rparr>)"
      using adds_trans [OF \<open>adds 1 s s1\<close>, of 1 s2 2] created(6) by simp
    ultimately show thesis using that(3) [OF run] created(1,2) keepsD [OF created(5) a1] by (simp add: buff_init_def)
  qed
qed

section \<open>Threads and the log\<close>

lemma thread_init_cases:
  assumes E: "env_ok E" and ok: "lists_up s M" and a: "heap s (te_thread_init T) = Some (ThreadObj t)" "te_thread_init T \<noteq> 0"
  obtains (failed) s' where "os_thread_init E T s = Ret (ERROR, s')" "\<not> roomy E 2 s"
  | (up) s' M' ths where "os_thread_init E T s = Ret (OKAY, s')" "lists_up s' M'" "thr_ok s' M' ths" "adds 2 s s'"
  using E ok [unfolded lists_up_def q_ok_Nil, THEN conjunct1, THEN conjunct1] name_lengths(6)
proof (cases rule: list_init_cases)
  case failed
  then show thesis using that(1) roomy_less [of E 2 s 1] by (auto simp: os_thread_init_def)
next
  case (created l s1)
  let ?a = "te_thread_init T" and ?M = "M(l \<mapsto> (THREAD_NAME, []))" and ?s1 = "s1\<lparr>thread_list := l\<rparr>"
  let ?t = "t\<lparr>th_name := THREAD_NAME @ ''init'', th_func := 0, th_arg := 0, th_sig := 0, th_dfunc := 0,
        th_restartable := 0, th_restartcnt := 0, th_runthr := e_thread_self E\<rparr>"
  let ?s2 = "hput ?a (ThreadObj ?t) ?s1"
  have a1: "heap ?s1 ?a = Some (ThreadObj t)" using keepsD [OF created(5) a(1)] by simp
  have "name_fits ''init''" by (simp add: name_fits_def STR_LEN_def)
  then have upd: "obind (strcpy_strncat THREAD_NAME ''init'' STR_LEN STR_LEN) (\<lambda>full. upd_thread ?a (\<lambda>t. t\<lparr>th_name := full, th_func := 0, th_arg := 0, th_sig := 0, th_dfunc := 0,
        th_restartable := 0, th_restartcnt := 0, th_runthr := e_thread_self E\<rparr>) ?s1) = Ret ?s2"
    using a1 a(2) by (simp add: upd_thread_def load_def)
  have k2: "kit_ok ?s2 ?M" by (rule kit_ok_hput) (use created(4) a1 in auto)
  have l2: "lists_up ?s2 ?M" "?M l = Some (THREAD_NAME, [])"
    using ok created(3) k2 keeps_lists [OF created(5)] by (auto simp: lists_up_def q_ok_Nil)
  have tb: "table ?s2 ?M l THREAD_NAME is_thread []" using l2(2) by (simp add: table_Nil)
  have ad2: "adds 1 s ?s2" using created(6) a1 by (auto simp: adds_def insert_absorb domIff)
  have "heap ?s2 ?a = Some (ThreadObj ?t)" by simp
  note ins = table_insert_cases [OF E k2 tb a(2) this]
  show thesis
  proof (rule ins)
    fix s3 assume f: "os_list_item_insert E l ?a ?s2 = Ret (ERROR, s3)" "no_room E T_OS_LIST_DATA ?s2 \<or> out_of_ids THREAD_NAME ?s2"
    have "\<not> roomy E 1 ?s2" using f(2) roomy_room [of E 1 ?s2] roomy_ids [of E 1 ?s2 THREAD_NAME] by auto
    then have "\<not> roomy E 2 s" by (rule roomy_back [OF _ ad2]) simp
    then show thesis using that(1) created(1,2) upd f(1)
      by (cases "strcpy_strncat THREAD_NAME ''init'' STR_LEN STR_LEN") (simp_all add: os_thread_init_def Let_def)
  next
    fix d :: addr and r :: u32 and s3
    let ?ths = "[] @ [(d, r, OS_LIST_NO_KEY, ?a)]"
    assume i: "os_list_item_insert E l ?a ?s2 = Ret (r, s3)" "r \<noteq> 0" "kit_ok s3 (?M(l \<mapsto> (THREAD_NAME, ?ths)))" "keeps ?s2 s3"
      "table s3 (?M(l \<mapsto> (THREAD_NAME, ?ths))) l THREAD_NAME is_thread ?ths" "adds (Suc 0) ?s2 s3"
    let ?s4 = "hput ?a (ThreadObj (?t\<lparr>th_id := r\<rparr>)) s3" and ?M4 = "?M(l \<mapsto> (THREAD_NAME, ?ths))"
    have a3: "heap s3 ?a = Some (ThreadObj ?t)" by (rule keepsD [OF i(4)]) simp_all
    have run: "os_thread_init E T s = Ret (OKAY, ?s4)"
      using created(1,2) upd i(1,2) a3 a(2)
      by (cases "strcpy_strncat THREAD_NAME ''init'' STR_LEN STR_LEN") (simp_all add: os_thread_init_def Let_def upd_thread_def load_def)
    have tl: "thread_list s3 = l" using keeps_lists(3) [OF i(4)] by simp
    then have "thr_ok s3 ?M4 ?ths" using i(3,5) by (simp add: thr_ok_def)
    then have th: "thr_ok ?s4 ?M4 ?ths" by (rule thr_ok_hput) (use a3 in auto)
    have "lists_up ?s4 ?M4"
      using l2 th keeps_lists [OF i(4)] created(3) ok keeps_lists [OF created(5)] by (auto simp: lists_up_def q_ok_Nil thr_ok_def)
    moreover have "adds 2 s ?s4"
      using adds_trans [OF ad2 i(6), of 2] a3 by (auto simp: adds_def insert_absorb domIff)
    ultimately show thesis using that(2) [OF run _ th] by simp
  qed (use is_thread_def in auto)
qed

lemma list_names_differ:
  "THREAD_NAME \<noteq> MUTEX_NAME" "THREAD_NAME \<noteq> COND_NAME" "THREAD_NAME \<noteq> QUEUE_NAME" "THREAD_NAME \<noteq> MSGQ_NAME"
  "THREAD_NAME \<noteq> BUFFER_CLASS_NAME" "MUTEX_NAME \<noteq> MSGQ_NAME" "MUTEX_NAME \<noteq> BUFFER_CLASS_NAME"
  by (simp_all add: res_name_defs)

lemmas names_differ [simp] = list_names_differ list_names_differ [symmetric]

lemma debug_names [simp]: "name_fits (os_res_make_name MUTEX_NAME 0x99)" "name_fits (os_res_make_name THREAD_NAME 0x99)"
  by (simp_all add: name_fits_def os_res_make_name_def res_name_defs STR_LEN_def)

text \<open>Another list gets its entries: the lists that are still empty stay as they are.\<close>

lemma lists_up_mutex:
  assumes l: "lists_up s M" and v: "var_ok s' (M(mutex_list s \<mapsto> (MUTEX_NAME, ms))) ms []" and k: "keeps s s'"
  shows "q_ok s' (M(mutex_list s \<mapsto> (MUTEX_NAME, ms))) ms [] []"
    "(M(mutex_list s \<mapsto> (MUTEX_NAME, ms))) (msgq_list s) = Some (MSGQ_NAME, [])"
    "(M(mutex_list s \<mapsto> (MUTEX_NAME, ms))) (buffer_class_list s) = Some (BUFFER_CLASS_NAME, [])"
proof -
  have m: "M (mutex_list s) = Some (MUTEX_NAME, [])" "M (queue_list s) = Some (QUEUE_NAME, [])"
    "M (msgq_list s) = Some (MSGQ_NAME, [])" "M (buffer_class_list s) = Some (BUFFER_CLASS_NAME, [])"
    "queue_list s \<noteq> mutex_list s" "queue_list s \<noteq> cond_list s" using l by (simp_all add: lists_up_def q_ok_Nil)
  then show "q_ok s' (M(mutex_list s \<mapsto> (MUTEX_NAME, ms))) ms [] []"
    using v keeps_lists [OF k] by (simp add: q_ok_def table_Nil)
  show "(M(mutex_list s \<mapsto> (MUTEX_NAME, ms))) (msgq_list s) = Some (MSGQ_NAME, [])"
    "(M(mutex_list s \<mapsto> (MUTEX_NAME, ms))) (buffer_class_list s) = Some (BUFFER_CLASS_NAME, [])"
    using m by (cases "msgq_list s = mutex_list s"; cases "buffer_class_list s = mutex_list s"; simp)+
qed

lemma debug_init_cases:
  assumes E: "env_ok E" and D: "dbg_ok D" and l: "lists_up s M" and th: "thr_ok s M ths"
  obtains (failed) st where "debug_init E f (D, s) = Ret (ERROR, st)" "\<not> roomy E 4 s \<or> (\<exists>n. e_thread_create E n = None)"
  | (up) D' s' M' ms ths' where "debug_init E f (D, s) = Ret (OKAY, D', s')" "kit_up D' s' M' ms ths'"
proof -
  have v: "var_ok s M [] []" using l by (simp add: lists_up_def q_ok_def)
  from E v debug_names(1) show thesis
  proof (cases rule: os_mutex_create_cases)
    case (failed s')
    moreover have "\<not> roomy E 4 s" using failed(4) roomy_not_short [of E 4 s MUTEX_NAME] by auto
    ultimately show thesis using that(1) by (simp add: debug_init_def Let_def)
  next
    case (created p d r s1 ms)
    let ?M = "M(mutex_list s \<mapsto> (MUTEX_NAME, ms))" and ?D = "D\<lparr>dbg_mutex := r\<rparr>"
    note L = lists_up_mutex [OF l created(6,7)] and kl = keeps_lists [OF created(7)]
    have tl: "thread_list s \<noteq> mutex_list s" "M (thread_list s) = Some (THREAD_NAME, ths)"
      using l thr_okD(3) [OF th] by (auto simp: lists_up_def q_ok_Nil)
    have th1: "thr_ok s1 ?M ths"
      using table_ghost [OF table_keeps [OF thr_okD(2) [OF th] created(7)], of "mutex_list s"] tl(1) var_okD(1) [OF created(6)] kl
      by (auto simp: thr_ok_def)
    have short: "\<not> roomy E 4 s" if "short E T_OS_THREAD THREAD_NAME s1"
    proof -
      have "\<not> roomy E 2 s1" using that roomy_not_short [of E 2 s1 THREAD_NAME] by auto
      then show ?thesis by (rule roomy_back [OF _ created(9)]) simp
    qed
    have "\<exists>q s2. os_thread_create E (os_res_make_name THREAD_NAME 0x99) f 0 0 0 s1 = Ret (q, s2) \<and> keeps s1 s2 \<and>
      (q = ERROR \<and> (short E T_OS_THREAD THREAD_NAME s1 \<or> (\<exists>n. e_thread_create E n = None))
       \<or> q \<noteq> 0 \<and> (\<exists>ths'. thr_ok s2 (?M(thread_list s1 \<mapsto> (THREAD_NAME, ths'))) ths'))"
      using os_thread_create_law [OF E th1 debug_names(2), of f 0 0 0]
      by (cases "e_thread_create E (calls s1 + 2)"; cases "e_thread_create E (calls s1 + 3)"; simp; blast)
    with short obtain q s2 where
      q: "os_thread_create E (os_res_make_name THREAD_NAME 0x99) f 0 0 0 s1 = Ret (q, s2)" "keeps s1 s2"
      "q = ERROR \<and> (\<not> roomy E 4 s \<or> (\<exists>n. e_thread_create E n = None))
       \<or> q \<noteq> 0 \<and> (\<exists>ths'. thr_ok s2 (?M(thread_list s1 \<mapsto> (THREAD_NAME, ths'))) ths')" by blast
    show thesis
    proof (cases "q = 0")
      case True
      then show thesis using that(1) created(1,2) q(1,3) by (simp add: debug_init_def Let_def)
    next
      case False
      then obtain ths' where th2: "thr_ok s2 (?M(thread_list s1 \<mapsto> (THREAD_NAME, ths'))) ths'" using q(3) by blast
      let ?M2 = "?M(thread_list s1 \<mapsto> (THREAD_NAME, ths'))"
      note k2 = keeps_lists [OF q(2)]
      have other: "thread_list s1 \<noteq> mutex_list s1" "thread_list s1 \<noteq> cond_list s1" "thread_list s1 \<noteq> queue_list s1"
        "thread_list s1 \<noteq> msgq_list s1" "thread_list s1 \<noteq> buffer_class_list s1"
        using l tl kl by (auto simp: lists_up_def q_ok_Nil)
      have v2: "var_ok s2 ?M2 ms []"
        by (rule var_ok_keeps [OF created(6) q(2) thr_okD(1) [OF th2]]) (use other in auto)
      have "q_ok s2 ?M2 ms [] []" using L(1) v2 other k2 by (simp add: q_ok_def table_Nil)
      moreover have "table s2 ?M2 (msgq_list s2) MSGQ_NAME is_mhead []" "table s2 ?M2 (buffer_class_list s2) BUFFER_CLASS_NAME is_class []"
        using L(2,3) other k2 kl by (simp_all add: table_Nil)
      moreover have "mutex_of s2 ms r = Some (new_mutex (os_res_make_name MUTEX_NAME 0x99))"
        using created(8) mutex_of_keeps [OF created(6) q(2)] by simp
      moreover have "dbg_ok ?D" using D by (simp add: dbg_ok_def log_text_def pending_def)
      ultimately have "kit_up ?D s2 ?M2 ms ths'" using th2 v2 by (simp add: kit_up_def log_lock_def)
      then show thesis using that(2) [of ?D s2] False created(1,2) q(1) by (simp add: debug_init_def Let_def)
    qed
  qed
qed

section \<open>The whole start\<close>

lemma INIT_on_os: "OS_INIT_MACRO (on_os f) (D, s) = obind (f s) (\<lambda>(r, s). if r = ERROR then Fault Exits else Ret (D, s))"
  by (cases "f s") (auto simp: OS_INIT_MACRO_def on_os_def split: prod.splits)

lemma provided_back: "\<not> roomy E n s' \<Longrightarrow> adds k s s' \<Longrightarrow> n + k \<le> 16 \<Longrightarrow> \<not> provided E s"
  using roomy_back [of E n s' k s 16] by (auto simp: provided_def)

text \<open>The start comes through, or the process ends because something was not provided.\<close>

lemma os_init_reaches_net:
  assumes E: "env_ok E" and D: "dbg_ok D" and boot: "boot_ok T s"
  shows "os_init E T f (D, s) = Fault Exits \<and> \<not> provided E s \<or>
     (\<exists>D' s' M ms ths. kit_up D' s' M ms ths \<and> os_init E T f (D, s) = OS_INIT_MACRO (on_os (net_init E)) (D', s'))"
proof -
  have rs: "os_res_init s = Ret (OKAY, s)" using boot res_init_table by (simp add: os_res_init_def boot_ok_def)
  obtain t where a: "heap s (te_thread_init T) = Some (ThreadObj t)" "te_thread_init T \<noteq> 0" using boot by (auto simp: boot_ok_def)
  note chain = os_init_def INIT_on_os os_specific_init_def rs os_post_init_def os_time_init_def
  from E boot show ?thesis
  proof (cases rule: mem_init_cases)
    case (failed s') then show ?thesis by (simp add: chain)
  next
    case (up s1)
    have k1: "kit_ok (tick s1) Map.empty" and a1: "heap (tick s1) (te_thread_init T) = Some (ThreadObj t)" using up(2,3) a by simp_all
    have ad1: "adds 1 s (tick s1)" using up(4) by (simp add: adds_def)
    note c1 = chain up(1)
    from E k1 a1 show ?thesis
    proof (cases rule: var_init_cases)
      case (failed s') then show ?thesis using provided_back [OF failed(2) ad1] by (simp add: c1)
    next
      case (up s2 M2)
      have ad2: "adds 3 s s2" by (rule adds_trans [OF ad1 up(4)]) simp
      note c2 = c1 up(1)
      from E up(2,3) show ?thesis
      proof (cases rule: qbuff_init_cases)
        case (failed s') then show ?thesis using provided_back [OF failed(2) ad2] by (simp add: c2)
      next
        case (up s3 M3)
        have ad3: "adds 4 s s3" by (rule adds_trans [OF ad2 up(4)]) simp
        note c3 = c2 up(1)
        from E up(2,3) show ?thesis
        proof (cases rule: queues_buffers_init_cases)
          case (failed s') then show ?thesis using provided_back [OF failed(2) ad3] by (simp add: c3)
        next
          case (failed_buff s' s'') then show ?thesis using provided_back [OF failed_buff(3) ad3] by (simp add: c3)
        next
          case (up s4 s5 M5)
          have ad5: "adds 6 s s5" by (rule adds_trans [OF ad3 up(5)]) simp
          note c5 = c3 up(1,2)
          from E up(3,4) a(2) show ?thesis
          proof (cases rule: thread_init_cases)
            case (failed s') then show ?thesis using provided_back [OF failed(2) ad5] by (simp add: c5)
          next
            case (up s6 M6 ths)
            have ad6: "adds 8 s s6" by (rule adds_trans [OF ad5 up(4)]) simp
            note c6 = c5 up(1)
            from E D up(2,3) show ?thesis
            proof (cases rule: debug_init_cases [where f = f])
              case (failed st)
              then have "OS_INIT_MACRO (debug_init E f) (D, s6) = Fault Exits" by (simp add: OS_INIT_MACRO_def)
              moreover have "\<not> provided E s" using failed(2) provided_back [OF _ ad6, of E 4] by (auto simp: provided_def)
              ultimately show ?thesis by (simp add: c6)
            next
              case (up D' s7 M7 ms ths')
              then have "OS_INIT_MACRO (debug_init E f) (D, s6) = Ret (D', s7)" by (simp add: OS_INIT_MACRO_def)
              then have "os_init E T f (D, s) = OS_INIT_MACRO (on_os (net_init E)) (D', s7)" by (simp add: c6)
              then show ?thesis using up(2) by blast
            qed
          qed
        qed
      qed
    qed
  qed
qed

end
