(* ===== verification/Sys_Props.thy ===== *)
theory Sys_Props
  imports Block_Pool Init_Laws Demo
begin

text \<open>
  The properties of the buffer classes (src/buff.c), of the log (src/dbg.c) and of the start of the
  library (src/init.c), with a state that has one empty class to apply them to.
\<close>

section \<open>A class\<close>

definition demo_classes :: nodes where
  "demo_classes = [(0x500, 0x70000000, 1, 0xc00)]"

definition demo_class :: buff_class_node where
  "demo_class = \<lparr>bc_id = 7, bc_objectid = 0x70000000, bc_name = ''class'', bc_osize = 4096, bc_totsize = 8000, bc_availsize = 8000,
     bc_numblocks = 0, bc_lock = 0x20000000, bc_data = 0x9000, bc_base = 0x9000, bc_system_base = 0x9000, bc_fixedbase = 0,
     bc_h_start = 1, bc_h_lock = 0x20000001, bc_h = 0\<rparr>"

definition buff_heap :: heap where
  "buff_heap = [0x100 \<mapsto> ListObj (list_rec MUTEX_NAME False demo_items),
     0x180 \<mapsto> ListObj (list_rec COND_NAME False []),
     0x1a0 \<mapsto> ListObj (list_rec BUFFER_CLASS_NAME False demo_classes),
     0x200 \<mapsto> DataObj (node (0x20000000, 7, 0x900) 0x300 0),
     0x300 \<mapsto> DataObj (node (0x20000001, 9, 0xa00) 0 0x200),
     0x500 \<mapsto> DataObj (node (0x70000000, 1, 0xc00) 0 0),
     0x900 \<mapsto> MutexObj (new_mutex ''one''), 0xa00 \<mapsto> MutexObj (new_mutex ''two''), 0xc00 \<mapsto> ClassObj demo_class]"

definition buff_state :: os_state where
  "buff_state = demo_state\<lparr>heap := buff_heap, os_res_pool := mark 6 0 (mark 1 1 (mark 1 0 os_res_pool_table)), buffer_class_list := 0x1a0\<rparr>"

definition buff_ghost :: ghost where
  "buff_ghost = [0x100 \<mapsto> (MUTEX_NAME, demo_items), 0x180 \<mapsto> (COND_NAME, []), 0x1a0 \<mapsto> (BUFFER_CLASS_NAME, demo_classes)]"

text \<open>The statics before the start, with the object of the initial thread at 0x40.\<close>

definition boot_state :: os_state where
  "boot_state = demo_state\<lparr>heap := [0x40 \<mapsto> ThreadObj (new_thread '''' 0 0 0 0 0 0 0)], os_res_pool := os_res_pool_table,
     os_mem_initialized := False, mutex_list := 0, cond_list := 0\<rparr>"

definition boot_thr :: thr_env where
  "boot_thr = \<lparr>te_join = (\<lambda>h s. Ret ((), s)), te_stop = (\<lambda>h s. Ret ((), s)), te_sleep = (\<lambda>s. Ret ((), s)), te_thread_init = 0x40\<rparr>"

lemma buff_state_simps [simp]:
  "heap buff_state = buff_heap" "mutex_list buff_state = 0x100" "cond_list buff_state = 0x180" "buffer_class_list buff_state = 0x1a0"
  by (simp_all add: buff_state_def)

lemma class_pool_find [simp]: "pool_find BUFFER_CLASS_NAME os_res_pool_table 0 = Some 6"
  by (simp add: os_res_pool_table_def mk_pool_def res_name_defs strncmp_eq_def)

lemma buff_ids:
  "ids_used MUTEX_NAME (os_res_pool buff_state) = {0x20000000, 0x20000001}"
  "ids_used BUFFER_CLASS_NAME (os_res_pool buff_state) = {0x70000000}"
proof -
  have b: "rp_base (os_res_pool_table ! 1) = 0x20000000" "rp_base (os_res_pool_table ! 6) = 0x70000000"
    by (simp_all add: os_res_pool_table_def mk_pool_def)
  have b': "rp_base (mark (Suc 0) 0 os_res_pool_table ! 1) = 0x20000000"
    "rp_base (mark (Suc 0) (Suc 0) (mark (Suc 0) 0 os_res_pool_table) ! 6) = 0x70000000"
    using b by (simp_all add: mark_def)
  have u: "ids_used nm os_res_pool_table = {}" for nm by (simp add: ids_used_def)
  show "ids_used MUTEX_NAME (os_res_pool buff_state) = {0x20000000, 0x20000001}"
    "ids_used BUFFER_CLASS_NAME (os_res_pool buff_state) = {0x70000000}"
    using b b' u by (auto simp: buff_state_def ids_mark pools_ok_mark cell_id_def)
qed

lemma buff_demo_kit: "kit_ok buff_state buff_ghost"
proof -
  have "list_at buff_state 0x100 MUTEX_NAME False demo_items"
    unfolding list_at_def buff_state_simps by (simp add: buff_heap_def demo_items_def) (use buff_ids in simp)
  moreover have "list_at buff_state 0x180 COND_NAME False []"
    unfolding list_at_def buff_state_simps by (simp add: buff_heap_def)
  moreover have "list_at buff_state 0x1a0 BUFFER_CLASS_NAME False demo_classes"
    unfolding list_at_def buff_state_simps by (simp add: buff_heap_def demo_classes_def) (use buff_ids in simp)
  ultimately have "lists_ok buff_state buff_ghost"
    by (auto simp: lists_ok_def buff_ghost_def sep_def demo_items_def demo_classes_def split: if_splits)
  moreover have "mem_ok buff_state" by (simp add: buff_state_def demo_state_def mem_ok_def)
  moreover have "pools_ok (os_res_pool buff_state)" by (simp add: buff_state_def pools_ok_mark)
  ultimately show ?thesis by (simp add: kit_ok_def)
qed

lemma buff_demo_pool:
  "pool_at buff_state buff_ghost demo_items [] demo_classes 7 0xc00 demo_class 0x900 (new_mutex ''one'') 0xa00 (new_mutex ''two'') [] []"
proof -
  have "table buff_state buff_ghost 0x100 MUTEX_NAME is_mutex demo_items"
    by (simp add: table_def buff_ghost_def demo_items_def buff_heap_def)
  then have v: "var_ok buff_state buff_ghost demo_items []"
    using buff_demo_kit by (simp add: var_ok_def) (simp add: table_def buff_ghost_def)
  have "table buff_state buff_ghost 0x1a0 BUFFER_CLASS_NAME is_class demo_classes"
    by (simp add: table_def buff_ghost_def demo_classes_def buff_heap_def)
  then have "class_env buff_state buff_ghost demo_items [] demo_classes 7 0xc00 demo_class 0x900 (new_mutex ''one'') 0xa00 (new_mutex ''two'')"
    using v by (simp add: class_env_def) (simp add: demo_classes_def buff_heap_def demo_class_def demo_mutexes)
  moreover have "class_rep buff_heap 7 demo_class [] []" by (simp add: class_rep_def demo_class_def)
  ultimately show ?thesis by (simp add: pool_at_def)
qed

lemma buff_demo_rep: "buff_rep 7 8000 buff_state [] []"
  by (rule buff_repI [OF buff_demo_pool]) (simp_all add: demo_class_def)

section \<open>Buffers\<close>

text \<open>C2. Every sequence of allocations and releases on a buffer class returns and follows the abstract
  pool: a block that is handed out is none of those in use, a listed block is released once, any other
  pointer is rejected, and the blocks in use with their guards never exceed the size of the class.\<close>

theorem buff_calls_refine_pool:
  assumes "env_ok E" and "buff_rep rid total_size s L U"
  shows "\<exists>rs s' L' U'. pool_run (buff_alloc_data E rid) (buff_free_data rid) cs s = Ret (rs, s') \<and> buff_rep rid total_size s' L' U'
     \<and> pool_trace L U cs rs L' U' \<and> (\<Sum>x\<leftarrow>L' @ U'. cost (snd x)) \<le> total_size"
  by (rule buff_run_traces [OF assms])

theorem buff_calls_witness:
  "\<exists>rs s' L' U'. pool_run (buff_alloc_data demo_env 7) (buff_free_data 7) [Take 100, Take 5000, Give 0x1234, Take 20] buff_state = Ret (rs, s')
     \<and> pool_trace [] [] [Take 100, Take 5000, Give 0x1234, Take 20] rs L' U' \<and> (\<Sum>x\<leftarrow>L' @ U'. cost (snd x)) \<le> 8000"
  using buff_calls_refine_pool [OF demo_env_ok(1) buff_demo_rep, of "[Take 100, Take 5000, Give 0x1234, Take 20]"] by blast

text \<open>The size of a block: the bookkeeping bytes in front of the caller's bytes, the caller's bytes and
  the ending marker, four bytes at eight bytes before the end, lie one after the other within the block,
  which is a multiple of eight bytes and at most 64 bytes larger than the request.\<close>

theorem buff_block_layout:
  assumes "unat sz + 64 < 2 ^ 32"
  shows "unat BUFF_OFFSET_SIZE + unat sz < unat (CALC_ACTUAL_BUFF_SIZE sz) - 8
     \<and> unat (CALC_ACTUAL_BUFF_SIZE sz) \<le> unat sz + 64 \<and> 8 dvd unat (CALC_ACTUAL_BUFF_SIZE sz)"
  using CALC_ACTUAL_BUFF_SIZE_bounds [OF assms] by (simp add: BUFF_OFFSET_SIZE_def)

theorem buff_block_layout_witness: "unat (CALC_ACTUAL_BUFF_SIZE 100) \<le> 164 \<and> 8 dvd unat (CALC_ACTUAL_BUFF_SIZE 100)"
  using buff_block_layout [of 100] by simp

section \<open>The log\<close>


definition log_start :: dbg_state where
  "log_start = dbg_statics\<lparr>dbg_mutex := 0x20000000\<rparr>"

lemma log_start_ok: "dbg_ok log_start" "log_lock log_start demo_state demo_ghost demo_items demo_conds"
  "console log_start = []" "pending log_start = []" "dbg_log_amount log_start = 0" "calls demo_state = 0"
  using dbg_statics_ok demo_var_ok demo_mutexes(5)
  by (simp_all add: log_start_def dbg_ok_def log_text_def pending_def log_lock_def dbg_statics_def demo_state_def)


text \<open>C20. The logging thread tests the amount without the lock. When it finds text, and a message fills the
  buffer before it gets the lock, the message has flushed the buffer already: the thread prints the whole
  buffer again, and every message in it is on the console twice.\<close>

theorem dbg_round_prints_twice:
  assumes "dbg_ok D" and "log_lock D s M ms cs" and "length text \<le> 1001" and "0 \<notin> set text"
    and "dbg_log_amount D \<noteq> 0"
    and "DBG_BUF_LEN - DBG_BUFF_MIN_AMOUNT \<le> length (pending D) + length (log_line E (calls s) text)"
  shows "\<exists>D' s'. dbg_round Ret (log_messages E [text]) (D, s) = Ret (D', s')
     \<and> console D' = console D @ (pending D @ log_line E (calls s) text) @ (pending D @ log_line E (calls s) text)"
  by (rule dbg_round_overtaken [OF assms])

definition log_full :: dbg_state where
  "log_full = log_start\<lparr>dbg_temp_buff := replicate 7000 65 @ replicate 1192 0, dbg_log_amount := 7000\<rparr>"

theorem dbg_round_twice_witness:
  "\<exists>D' s' x. dbg_round Ret (log_messages demo_env [replicate 200 66]) (log_full, demo_state) = Ret (D', s')
     \<and> length x > 7000 \<and> console D' = x @ x"
proof -
  have p: "pending log_full = replicate 7000 65" "console log_full = []" "dbg_log_amount log_full = 7000"
    by (simp_all add: log_full_def pending_def log_start_def dbg_statics_def)
  have nul: "(replicate 7000 (65 :: u8) @ replicate 1192 0) ! 7000 = 0" by (simp add: nth_append)
  have "dbg_ok log_full"
    using p nul by (simp add: dbg_ok_def log_text_def log_full_def log_start_def dbg_statics_def ONE_SECOND_def DBG_BUF_LEN_def DBG_BUFF_MIN_AMOUNT_def)
  moreover have "log_lock log_full demo_state demo_ghost demo_items demo_conds"
    using log_start_ok(2) by (simp add: log_lock_def log_full_def)
  moreover have "length (replicate 200 (66 :: u8)) \<le> 1001" "0 \<notin> set (replicate 200 (66 :: u8))" by simp_all
  moreover have "dbg_log_amount log_full \<noteq> 0" using p by simp
  moreover have "DBG_BUF_LEN - DBG_BUFF_MIN_AMOUNT \<le> length (pending log_full) + length (log_line demo_env (calls demo_state) (replicate 200 66))"
    using p by (simp add: log_line_def DBG_BUF_LEN_def DBG_BUFF_MIN_AMOUNT_def)
  ultimately have "\<exists>D' s'. dbg_round Ret (log_messages demo_env [replicate 200 66]) (log_full, demo_state) = Ret (D', s')
     \<and> console D' = console log_full @ (pending log_full @ log_line demo_env (calls demo_state) (replicate 200 66))
         @ (pending log_full @ log_line demo_env (calls demo_state) (replicate 200 66))"
    by (rule dbg_round_prints_twice)
  moreover have "7000 < length (pending log_full @ log_line demo_env (calls demo_state) (replicate 200 66))"
    using p by (simp add: log_line_def)
  ultimately show ?thesis using p(2) by (metis append_Nil)
qed

section \<open>The start\<close>

text \<open>C22. From the statics of the program, \<open>os_init\<close> reaches the start of the network module with the
  invariants of all components before it: the lists of mutexes, condition variables, queues, message
  queues, buffer classes and threads are sound, and the log is empty with its lock free. It ends the
  process instead only when something was not provided: the memory of the pool, a region in it with room
  for sixteen structures and their ids, or the threads asked for.\<close>

theorem os_init_establishes:
  assumes "env_ok E" and "dbg_ok D" and "boot_ok T s"
  shows "os_init E T f (D, s) = Fault Exits \<and> \<not> provided E s \<or>
     (\<exists>D' s' M ms ths. kit_up D' s' M ms ths \<and> os_init E T f (D, s) = OS_INIT_MACRO (on_os (net_init E)) (D', s'))"
  by (rule os_init_reaches_net [OF assms])

lemma boot_provided: "provided gap_env boot_state"
proof -
  have d: "card (dom (heap boot_state)) = 1" "os_res_pool boot_state = os_res_pool_table"
    "os_system_pool_size boot_state = OS_SYSMEM_SIZE" by (simp_all add: boot_state_def demo_state_def)
  have "e_malloc gap_env n (ucast OS_SYSMEM_SIZE) (heap boot_state) \<noteq> 0" for n
    using gap_alloc_finds [of "ucast OS_SYSMEM_SIZE" "heap boot_state"] d by (simp add: gap_env_def OS_SYSMEM_SIZE_def)
  moreover have "roomy gap_env 16 boot_state"
    unfolding roomy_def d(1,2) using gap_alloc_finds [of "ucast (16 :: u32)"]
    by (simp add: OS_MAX_RES_def) (simp add: gap_env_def demo_env_def)
  ultimately show ?thesis by (simp add: provided_def d) (simp add: gap_env_def demo_env_def)
qed

theorem os_init_witness:
  "\<exists>D' s' M ms ths. kit_up D' s' M ms ths \<and>
     os_init gap_env boot_thr 0x4000 (dbg_statics, boot_state) = OS_INIT_MACRO (on_os (net_init gap_env)) (D', s')"
proof -
  have "boot_ok boot_thr boot_state" by (simp add: boot_ok_def boot_state_def boot_thr_def demo_state_def OS_SYSMEM_SIZE_def)
  from os_init_establishes [OF gap_env_ok dbg_statics_ok this] boot_provided show ?thesis by blast
qed

end
