(* ===== verification/Json_Base.thy ===== *)
theory Json_Base
  imports Prelude
begin

text \<open>
  The ground of the JSON library libs/lsjson: the nodes of a parse tree and the table of its levels
  (inc/json.h), the object store, the memory functions of kits/mem.c, and the functions of json/json.c
  that create, release and copy nodes. The allocator under kits/mem.c (kits/malloc.c, vendored) is the
  environment. Functions that start with two underscores in the source end in \<open>_i\<close> here where the
  name is also that of a public function.
\<close>

section \<open>Nodes, tables and the store\<close>

definition TOKEN :: u32 where "TOKEN = 0x02"
definition BLOCK :: u32 where "BLOCK = 0x04"
definition SET :: u32 where "SET = 0x08"
definition STMT :: u32 where "STMT = 0x10"
definition COMMA :: u32 where "COMMA = 0x20"

lemmas node_types = TOKEN_def BLOCK_def SET_def STMT_def COMMA_def

lemma node_types_neq [simp]:
  "SET \<noteq> BLOCK" "BLOCK \<noteq> SET" "STMT \<noteq> BLOCK" "BLOCK \<noteq> STMT" "TOKEN \<noteq> BLOCK" "BLOCK \<noteq> TOKEN"
  "STMT \<noteq> SET" "SET \<noteq> STMT" "TOKEN \<noteq> SET" "SET \<noteq> TOKEN" "TOKEN \<noteq> STMT" "STMT \<noteq> TOKEN"
  "COMMA \<noteq> SET" "COMMA \<noteq> BLOCK" "COMMA \<noteq> STMT" "COMMA \<noteq> TOKEN" "SET \<noteq> COMMA" "BLOCK \<noteq> COMMA" "STMT \<noteq> COMMA" "TOKEN \<noteq> COMMA"
  by (simp_all add: node_types)

definition F_COMMA :: u32 where "F_COMMA = 0x1"
definition F_DEL :: u32 where "F_DEL = 0x2"
definition F_SIDX_MASK :: u32 where "F_SIDX_MASK = 0xFC"
definition F_PRIO :: u32 where "F_PRIO = 0x4"
definition MAXL :: nat where "MAXL = 24"

record sjson_node_t =
  sn_type :: u32
  sn_symbol :: addr
  sn_lvl :: int
  sn_flag :: u32
  sn_value :: addr
  sn_bros :: addr
  sn_prev :: addr

record sjson_table_t =
  tb_lvl :: int
  tb_root :: "addr list"
  tb_last :: "addr list"

record sjson_pl_t =
  pl_path :: addr
  pl_flag :: u32
  pl_next :: addr

text \<open>A block holds a node, a C string, an entry of a path list, or bytes that are not yet written.\<close>

datatype jobj = NodeObj sjson_node_t | StrObj string | PathObj sjson_pl_t | RawObj u64

type_synonym jheap = "addr \<Rightarrow> jobj option"

record json_state =
  js_heap :: jheap
  js_calls :: nat
  js_memspc :: bool   \<comment> \<open>\<open>_memspc\<close> has been set up\<close>

type_synonym 'a js = "json_state \<Rightarrow> ('a \<times> json_state) outcome"

record json_env =
  je_alloc :: "nat \<Rightarrow> u64 \<Rightarrow> jheap \<Rightarrow> addr"   \<comment> \<open>mem_alloc: NULL when there is no room\<close>
  je_node_size :: u64                       \<comment> \<open>sizeof(sjson\_node\_t)\<close>
  je_path_size :: u64                       \<comment> \<open>sizeof(sjson\_pl\_t)\<close>

definition jput :: "addr \<Rightarrow> jobj \<Rightarrow> json_state \<Rightarrow> json_state" where
  "jput p ob s = s\<lparr>js_heap := (js_heap s)(p \<mapsto> ob)\<rparr>"

definition load_node :: "addr \<Rightarrow> json_state \<Rightarrow> sjson_node_t outcome" where
  "load_node p s =
     (if p = 0 then Fault NullDeref
      else case js_heap s p of Some (NodeObj n) \<Rightarrow> Ret n | _ \<Rightarrow> Fault BadPtr)"

definition load_str :: "addr \<Rightarrow> json_state \<Rightarrow> string outcome" where
  "load_str p s =
     (if p = 0 then Fault NullDeref
      else case js_heap s p of Some (StrObj x) \<Rightarrow> Ret x | _ \<Rightarrow> Fault BadPtr)"

definition load_path :: "addr \<Rightarrow> json_state \<Rightarrow> sjson_pl_t outcome" where
  "load_path p s =
     (if p = 0 then Fault NullDeref
      else case js_heap s p of Some (PathObj x) \<Rightarrow> Ret x | _ \<Rightarrow> Fault BadPtr)"

definition upd_node :: "addr \<Rightarrow> (sjson_node_t \<Rightarrow> sjson_node_t) \<Rightarrow> json_state \<Rightarrow> json_state outcome" where
  "upd_node p f s = obind (load_node p s) (\<lambda>n. Ret (jput p (NodeObj (f n)) s))"

section \<open>Memory (kits/mem.c)\<close>

definition aligned_size :: "u64 \<Rightarrow> u64" where
  "aligned_size sz = (sz + 16) AND NOT 15"

definition os_meminit :: "json_state \<Rightarrow> json_state" where
  "os_meminit s = (if js_memspc s then s else s\<lparr>js_memspc := True\<rparr>)"

text \<open>\<open>mem_alloc\<close> of the memory space: a block with nothing written to it, or NULL.\<close>

definition mem_alloc :: "json_env \<Rightarrow> u64 \<Rightarrow> addr js" where
  "mem_alloc E sz s =
     (let p = je_alloc E (js_calls s) sz (js_heap s); s = s\<lparr>js_calls := Suc (js_calls s)\<rparr> in
      Ret (p, if p = 0 then s else jput p (RawObj sz) s))"

definition jos_malloc :: "json_env \<Rightarrow> u64 \<Rightarrow> addr js" where
  "jos_malloc E sz s = mem_alloc E (aligned_size sz) (os_meminit s)"

text \<open>\<open>mem_strdup\<close> takes a block of the length of the string and copies it.\<close>

definition jos_strdup :: "json_env \<Rightarrow> string \<Rightarrow> addr js" where
  "jos_strdup E str s =
     obind (mem_alloc E (of_nat (length str + 1)) (os_meminit s)) (\<lambda>(p, s).
     Ret (p, if p = 0 then s else jput p (StrObj str) s))"

text \<open>Freeing what is not an allocated block is a fault.\<close>

definition jos_free :: "addr \<Rightarrow> json_state \<Rightarrow> json_state outcome" where
  "jos_free p s =
     (if p = 0 then Ret s
      else case js_heap s p of None \<Rightarrow> Fault BadPtr | Some _ \<Rightarrow> Ret (s\<lparr>js_heap := (js_heap s)(p := None)\<rparr>))"

section \<open>Nodes\<close>

definition multiple_node :: "sjson_node_t \<Rightarrow> bool" where
  "multiple_node n \<longleftrightarrow> sn_type n = BLOCK \<or> sn_type n = SET"

definition empty_node :: "sjson_node_t \<Rightarrow> bool" where
  "empty_node n \<longleftrightarrow> sn_value n = 0 \<and> sn_bros n = 0"

text \<open>\<open>symbol_name(x)\<close>: the text behind the symbol of a node, \<open>NULL\<close> for a NULL node.\<close>

definition symbol_name :: "addr \<Rightarrow> json_state \<Rightarrow> string outcome" where
  "symbol_name p s =
     (if p = 0 then Ret ''NULL'' else obind (load_node p s) (\<lambda>n. load_str (sn_symbol n) s))"

definition sjson_new_node :: "json_env \<Rightarrow> u32 \<Rightarrow> int \<Rightarrow> addr \<Rightarrow> addr js" where
  "sjson_new_node E ty lvl name s =
     obind (jos_malloc E (je_node_size E) s) (\<lambda>(temp, s).
     if temp = 0 then Ret (0, s)
     else Ret (temp, jput temp (NodeObj \<lparr>sn_type = ty, sn_symbol = name, sn_lvl = lvl, sn_flag = 0,
                                       sn_value = 0, sn_bros = 0, sn_prev = 0\<rparr>) s))"

definition sjson_free_node :: "addr \<Rightarrow> json_state \<Rightarrow> json_state outcome" where
  "sjson_free_node node s =
     (if node = 0 then Ret s
      else obind (load_node node s) (\<lambda>n.
      obind (if sn_symbol n \<noteq> 0 then jos_free (sn_symbol n) s else Ret s) (\<lambda>s.
      jos_free node s)))"

partial_function (option) sjson_free_rec :: "addr \<Rightarrow> json_state \<Rightarrow> json_state outcome option" where
  "sjson_free_rec node s =
     (if node = 0 then Some (Ret s)
      else rbind (Some (load_node node s)) (\<lambda>n.
      rbind (if sn_bros n \<noteq> 0
             then rbind (sjson_free_rec (sn_bros n) s) (\<lambda>s. Some (upd_node node (\<lambda>n. n\<lparr>sn_bros := 0\<rparr>) s))
             else Some (Ret s)) (\<lambda>s.
      rbind (Some (load_node node s)) (\<lambda>n.
      rbind (if sn_value n \<noteq> 0
             then rbind (sjson_free_rec (sn_value n) s) (\<lambda>s. Some (upd_node node (\<lambda>n. n\<lparr>sn_value := 0\<rparr>) s))
             else Some (Ret s)) (\<lambda>s. Some (sjson_free_node node s))))))"

declare sjson_free_rec.simps [code]

definition sjson_free_i :: "addr \<Rightarrow> json_state \<Rightarrow> json_state outcome" where
  "sjson_free_i node s = run_loop (sjson_free_rec node s)"

definition sjson_free :: "sjson_table_t option \<Rightarrow> (int \<times> sjson_table_t option) js" where
  "sjson_free tbl s =
     (case tbl of None \<Rightarrow> Ret ((0, None), s)
      | Some t \<Rightarrow>
        if tb_root t = [] \<or> tb_last t = [] then Fault OutOfBounds
        else obind (sjson_free_i (tb_root t ! 0) s) (\<lambda>s.
        let t = t\<lparr>tb_root := (tb_root t)[0 := 0], tb_last := (tb_last t)[0 := 0]\<rparr> in
        Ret ((if \<exists>p\<in>set (take MAXL (tb_root t)). p \<noteq> 0 then - 1 else 0, Some t), s)))"

text \<open>
  \<open>sjson_copy\<close> copies the siblings and the values of a node; the copy of the name comes before
  the node, and is lost when there is no room for the node.
\<close>

partial_function (option) sjson_copy_rec :: "json_env \<Rightarrow> addr \<Rightarrow> json_state \<Rightarrow> (addr \<times> json_state) outcome option" where
  "sjson_copy_rec E node s =
     (if node = 0 then Some (Ret (0, s))
      else rbind (Some (load_node node s)) (\<lambda>n.
      rbind (Some (symbol_name node s)) (\<lambda>nm.
      rbind (Some (jos_strdup E nm s)) (\<lambda>(y, s).
      rbind (Some (sjson_new_node E (sn_type n) (sn_lvl n) y s)) (\<lambda>(temp, s).
      if temp = 0 then Some (Ret (0, s))
      else rbind (Some (upd_node temp (\<lambda>m. m\<lparr>sn_flag := sn_flag n, sn_prev := 0\<rparr>) s)) (\<lambda>s.
      rbind (sjson_copy_rec E (sn_value n) s) (\<lambda>(v, s).
      rbind (Some (upd_node temp (\<lambda>m. m\<lparr>sn_value := v\<rparr>) s)) (\<lambda>s.
      rbind (sjson_copy_rec E (sn_bros n) s) (\<lambda>(b, s).
      rbind (Some (upd_node temp (\<lambda>m. m\<lparr>sn_bros := b\<rparr>) s)) (\<lambda>s. Some (Ret (temp, s))))))))))))"

declare sjson_copy_rec.simps [code]

definition sjson_copy :: "json_env \<Rightarrow> addr \<Rightarrow> addr js" where
  "sjson_copy E node s = run_loop (sjson_copy_rec E node s)"

end
