(* ===== verification/Json_Parse.thy ===== *)
theory Json_Parse
  imports Json_Base
begin

text \<open>
  The parser of json/json.c. Nodes of one nesting level form a chain of brothers; the table keeps the
  first and the last node of the chain of every level. A closing bracket makes the chain of the level
  above the value of a new node, a comma or a closing brace combines the last two nodes of a block to a
  statement. The input is a C string: the list of its characters before the terminating NUL.
\<close>

section \<open>Tables\<close>

definition cell_get :: "addr list \<Rightarrow> int \<Rightarrow> addr outcome" where
  "cell_get xs i = (if i < 0 \<or> int (length xs) \<le> i then Fault OutOfBounds else Ret (xs ! nat i))"

definition set_root :: "int \<Rightarrow> addr \<Rightarrow> sjson_table_t \<Rightarrow> sjson_table_t" where
  "set_root i p t = t\<lparr>tb_root := (tb_root t)[nat i := p]\<rparr>"

definition set_last :: "int \<Rightarrow> addr \<Rightarrow> sjson_table_t \<Rightarrow> sjson_table_t" where
  "set_last i p t = t\<lparr>tb_last := (tb_last t)[nat i := p]\<rparr>"

definition sjson_table_init :: sjson_table_t where
  "sjson_table_init = \<lparr>tb_lvl = - 1, tb_root = replicate MAXL 0, tb_last = replicate MAXL 0\<rparr>"

section \<open>Adding a node\<close>

text \<open>
  Combining the last two nodes of a level. The first component tells the node the function returns, 0
  when it is NULL. In a set nothing is combined: the new node is released and the last node gets the
  set as its predecessor.
\<close>

definition sjson_proc_stmt ::
    "sjson_table_t \<Rightarrow> addr \<Rightarrow> int \<Rightarrow> json_state \<Rightarrow> (addr \<times> sjson_table_t \<times> json_state) outcome" where
  "sjson_proc_stmt tbl temp lvl s =
     obind (cell_get (tb_root tbl) lvl) (\<lambda>v.
     obind (if v = 0 then Ret False else obind (load_node v s) (\<lambda>vn. Ret (sn_type vn = SET))) (\<lambda>set.
     if set
     then obind (cell_get (tb_last tbl) lvl) (\<lambda>ip.
          obind (sjson_free_node temp s) (\<lambda>s.
          obind (upd_node ip (\<lambda>n. n\<lparr>sn_prev := v\<rparr>) s) (\<lambda>s. Ret (0, tbl, s))))
     else
     obind (cell_get (tb_last tbl) lvl) (\<lambda>p.
     obind (load_node p s) (\<lambda>pn.
     let t = sn_prev pn in
     obind (upd_node t (\<lambda>n. n\<lparr>sn_bros := 0\<rparr>) s) (\<lambda>s.
     obind (upd_node p (\<lambda>n. n\<lparr>sn_bros := 0\<rparr>) s) (\<lambda>s.
     obind (load_node t s) (\<lambda>tn.
     obind (upd_node temp (\<lambda>n. n\<lparr>sn_value := t, sn_prev := sn_prev tn, sn_bros := 0\<rparr>) s) (\<lambda>s.
     obind (load_node t s) (\<lambda>tn'.
     if sn_value tn' \<noteq> 0 then Ret (0, tbl, s)
     else
     obind (upd_node t (\<lambda>n. n\<lparr>sn_value := p\<rparr>) s) (\<lambda>s.
     obind (upd_node p (\<lambda>n. n\<lparr>sn_prev := temp\<rparr>) s) (\<lambda>s.
     obind (upd_node t (\<lambda>n. n\<lparr>sn_prev := temp\<rparr>) s) (\<lambda>s.
     obind (if sn_prev tn \<noteq> 0 then upd_node (sn_prev tn) (\<lambda>n. n\<lparr>sn_bros := temp\<rparr>) s else Ret s) (\<lambda>s.
     let tbl = (if t = v then set_root lvl temp tbl else tbl) in
     Ret (temp, set_last lvl temp tbl, s))))))))))))))"

text \<open>The loop that goes down the values to the node a comma is noted at.\<close>

definition comma_node :: "addr \<Rightarrow> json_state \<Rightarrow> addr outcome" where
  "comma_node q s =
     obind (load_node q s) (\<lambda>qn.
     obind (while_o (\<lambda>(q, v). v \<noteq> 0) (\<lambda>(q, v). obind (load_node v s) (\<lambda>n. Ret (v, sn_value n))) (q, sn_value qn))
       (\<lambda>(q, v). Ret q))"

text \<open>
  The parts of \<open>__sjson_add_node\<close>, one per kind of node. The result tells whether the function goes on
  to note the level in the table, or has returned NULL before. The node of the level below that a new
  block reads first is not used.
\<close>

definition add_open :: "sjson_table_t \<Rightarrow> addr \<Rightarrow> int \<Rightarrow> json_state \<Rightarrow> (bool \<times> sjson_table_t \<times> json_state) outcome" where
  "add_open tbl temp lvl s =
     obind (cell_get (tb_root tbl) lvl) (\<lambda>r.
     if r \<noteq> 0
     then obind (cell_get (tb_last tbl) lvl) (\<lambda>p.
          obind (upd_node p (\<lambda>n. n\<lparr>sn_bros := temp\<rparr>) s) (\<lambda>s.
          obind (upd_node temp (\<lambda>n. n\<lparr>sn_prev := p\<rparr>) s) (\<lambda>s.
          Ret (True, set_last lvl temp tbl, s))))
     else Ret (True, set_last lvl temp (set_root lvl temp tbl), s))"

definition add_close :: "sjson_table_t \<Rightarrow> addr \<Rightarrow> int \<Rightarrow> json_state \<Rightarrow> (bool \<times> sjson_table_t \<times> json_state) outcome" where
  "add_close tbl temp lvl s =
     obind (cell_get (tb_last tbl) lvl) (\<lambda>p.
     if p = 0 then Ret (False, tbl, s)
     else obind (upd_node p (\<lambda>n. n\<lparr>sn_bros := temp\<rparr>) s) (\<lambda>s.
     obind (upd_node temp (\<lambda>n. n\<lparr>sn_prev := p\<rparr>) s) (\<lambda>s.
     let tbl = set_last lvl temp tbl in
     obind (cell_get (tb_root tbl) (lvl + 1)) (\<lambda>c.
     obind (upd_node temp (\<lambda>n. n\<lparr>sn_value := c\<rparr>) s) (\<lambda>s.
     obind (upd_node c (\<lambda>n. n\<lparr>sn_prev := temp\<rparr>) s) (\<lambda>s.
     Ret (True, set_last (lvl + 1) 0 (set_root (lvl + 1) 0 tbl), s)))))))"

definition add_stmt :: "sjson_table_t \<Rightarrow> addr \<Rightarrow> int \<Rightarrow> json_state \<Rightarrow> (bool \<times> sjson_table_t \<times> json_state) outcome" where
  "add_stmt tbl temp lvl s =
     obind (cell_get (tb_last tbl) lvl) (\<lambda>p.
     if p = 0 then Ret (False, tbl, s)
     else obind (load_node p s) (\<lambda>pn.
     if sn_prev pn = 0 then Ret (False, tbl, s)
     else obind (sjson_proc_stmt tbl temp lvl s) (\<lambda>(r, tbl, s). Ret (True, tbl, s))))"

definition add_comma :: "sjson_table_t \<Rightarrow> addr \<Rightarrow> int \<Rightarrow> json_state \<Rightarrow> (bool \<times> sjson_table_t \<times> json_state) outcome" where
  "add_comma tbl temp lvl s =
     obind (cell_get (tb_last tbl) lvl) (\<lambda>p.
     obind (if p = 0 then Ret s
            else obind (load_node p s) (\<lambda>pn.
            if sn_value pn = 0 then Ret s
            else obind (comma_node (sn_value pn) s) (\<lambda>q.
                 upd_node q (\<lambda>n. n\<lparr>sn_flag := sn_flag n OR F_COMMA\<rparr>) s))) (\<lambda>s.
     obind (sjson_free_node temp s) (\<lambda>s. Ret (True, tbl, s))))"

definition add_kind :: "u32 \<Rightarrow> sjson_table_t \<Rightarrow> addr \<Rightarrow> int \<Rightarrow> json_state \<Rightarrow> (bool \<times> sjson_table_t \<times> json_state) outcome" where
  "add_kind ty tbl temp lvl s =
     (if ty = SET \<or> ty = BLOCK
      then if tb_lvl tbl < lvl then add_open tbl temp lvl s else add_close tbl temp lvl s
      else if ty = TOKEN then add_open tbl temp lvl s
      else if ty = STMT then add_stmt tbl temp lvl s
      else if ty = COMMA then add_comma tbl temp lvl s
      else Ret (True, tbl, s))"

definition sjson_add_node ::
    "json_env \<Rightarrow> sjson_table_t \<Rightarrow> u32 \<Rightarrow> int \<Rightarrow> addr \<Rightarrow> json_state \<Rightarrow> (sjson_table_t \<times> json_state) outcome" where
  "sjson_add_node E tbl ty lvl name s =
     (if lvl < 0 then obind (if name \<noteq> 0 then jos_free name s else Ret s) (\<lambda>s. Ret (tbl, s))
      else obind (sjson_new_node E ty lvl name s) (\<lambda>(temp, s).
      if temp = 0 \<or> int MAXL \<le> lvl
      then obind (if name \<noteq> 0 then jos_free name s else Ret s) (\<lambda>s. Ret (tbl, s))
      else obind (add_kind ty tbl temp lvl s) (\<lambda>(go_on, tbl, s).
      Ret (if go_on then tbl\<lparr>tb_lvl := lvl\<rparr> else tbl, s))))"

section \<open>Scanning\<close>

definition STATEDEPTH :: int where "STATEDEPTH = 256"
definition TOKENSZ :: nat where "TOKENSZ = 256"

text \<open>A character is compared by its code.\<close>

abbreviation ccode :: "char \<Rightarrow> nat" where "ccode c \<equiv> of_char c"

definition is_digit :: "char \<Rightarrow> bool" where "is_digit c \<longleftrightarrow> 48 \<le> ccode c \<and> ccode c \<le> 57"

definition is_alpha :: "char \<Rightarrow> bool" where
  "is_alpha c \<longleftrightarrow> (97 \<le> ccode c \<and> ccode c \<le> 122) \<or> (65 \<le> ccode c \<and> ccode c \<le> 90)"

text \<open>
  What a scanning loop ends with: the characters of the token and the rest of the input, or the error
  exit of the parser. \<open>n\<close> is the number of characters stored so far.
\<close>

datatype scan = Token string string | TooLong

text \<open>Numbers and identifiers; the terminating NUL is written behind the token.\<close>

fun scan_word :: "string \<Rightarrow> string \<Rightarrow> scan outcome" where
  "scan_word tok [] = (if TOKENSZ \<le> length tok then Fault OutOfBounds else Ret (Token tok []))"
| "scan_word tok (c # cs) =
     (if is_digit c \<or> is_alpha c
      then if TOKENSZ \<le> length tok then Ret TooLong else scan_word (tok @ [c]) cs
      else if TOKENSZ \<le> length tok then Fault OutOfBounds else Ret (Token tok (c # cs)))"

text \<open>
  Strings in double quotes, from behind the opening quote. The loop does not look for the end of the
  input: it stores the terminating NUL and reads on behind it.
\<close>

fun scan_quoted :: "string \<Rightarrow> string \<Rightarrow> scan outcome" where
  "scan_quoted tok [] = (if TOKENSZ \<le> length tok then Ret TooLong else Fault OutOfBounds)"
| "scan_quoted tok (c # cs) =
     (if c = CHR 0x22 then if TOKENSZ \<le> length tok then Fault OutOfBounds else Ret (Token tok cs)
      else if c = CHR 0x5C
      then (case cs of
              [] \<Rightarrow> if TOKENSZ \<le> length tok then Ret TooLong else Fault OutOfBounds
            | d # ds \<Rightarrow> if TOKENSZ \<le> length tok then Ret TooLong else scan_quoted (tok @ [d]) ds)
      else if TOKENSZ \<le> length tok then Ret TooLong else scan_quoted (tok @ [c]) cs)"

lemma scan_word_length: "scan_word tok cs = Ret (Token w rest) \<Longrightarrow> length rest \<le> length cs"
  by (induction tok cs rule: scan_word.induct) (auto split: if_splits)

lemma scan_word_shorter:
  "scan_word tok (c # cs) = Ret (Token w rest) \<Longrightarrow> is_digit c \<Longrightarrow> length rest \<le> length cs"
  "scan_word tok (c # cs) = Ret (Token w rest) \<Longrightarrow> is_alpha c \<Longrightarrow> length rest \<le> length cs"
  by (auto dest: scan_word_length split: if_splits)

lemma scan_quoted_length: "scan_quoted tok cs = Ret (Token w rest) \<Longrightarrow> length rest \<le> length cs"
  by (induction tok cs rule: scan_quoted.induct) (auto split: if_splits list.splits)

section \<open>The parser\<close>

text \<open>The local variables: the depth of the state stack, and the numbers of the next names.\<close>

record parse_vars =
  pv_top :: int
  pv_blkn :: int
  pv_setn :: int
  pv_stmn :: int

type_synonym parser = "parse_vars \<times> sjson_table_t \<times> json_state"

text \<open>The names of blocks, sets and statements: a prefix and a number that is stepped.\<close>

definition snm_text :: "u32 \<Rightarrow> int \<Rightarrow> string" where
  "snm_text code num =
     (if code = BLOCK then ''BLK'' else if code = SET then ''SET'' else if code = STMT then ''SMT'' else ''XXX'') @ fmt_ld num"

definition sjson_snm :: "json_env \<Rightarrow> u32 \<Rightarrow> int \<Rightarrow> (addr \<times> int) js" where
  "sjson_snm E code num s = obind (jos_strdup E (snm_text code num) s) (\<lambda>(y, s). Ret ((y, num + 1), s))"

definition push_state :: "parse_vars \<Rightarrow> parse_vars outcome" where
  "push_state V =
     (if pv_top V + 1 < 0 \<or> STATEDEPTH \<le> pv_top V + 1 then Fault OutOfBounds else Ret (V\<lparr>pv_top := pv_top V + 1\<rparr>))"

definition pop_state :: "parse_vars \<Rightarrow> parse_vars" where
  "pop_state V = V\<lparr>pv_top := pv_top V - 1\<rparr>"

text \<open>A named node of a kind: a block, a set or a statement.\<close>

definition pv_num :: "u32 \<Rightarrow> parse_vars \<Rightarrow> int" where
  "pv_num ty V = (if ty = BLOCK then pv_blkn V else if ty = SET then pv_setn V else pv_stmn V)"

definition pv_step :: "u32 \<Rightarrow> int \<Rightarrow> parse_vars \<Rightarrow> parse_vars" where
  "pv_step ty k V =
     (if ty = BLOCK then V\<lparr>pv_blkn := k\<rparr> else if ty = SET then V\<lparr>pv_setn := k\<rparr> else V\<lparr>pv_stmn := k\<rparr>)"

definition new_named :: "json_env \<Rightarrow> u32 \<Rightarrow> parser \<Rightarrow> parser outcome" where
  "new_named E ty = (\<lambda>(V, tbl, s).
     obind (sjson_snm E ty (pv_num ty V) s) (\<lambda>((y, k), s).
     obind (sjson_add_node E tbl ty (pv_top V) y s) (\<lambda>(tbl, s). Ret (pv_step ty k V, tbl, s))))"

definition new_token :: "json_env \<Rightarrow> string \<Rightarrow> parser \<Rightarrow> parser outcome" where
  "new_token E tok = (\<lambda>(V, tbl, s).
     obind (jos_strdup E tok s) (\<lambda>(y, s).
     obind (sjson_add_node E tbl TOKEN (pv_top V) y s) (\<lambda>(tbl, s). Ret (V, tbl, s))))"

definition new_comma :: "json_env \<Rightarrow> parser \<Rightarrow> parser outcome" where
  "new_comma E = (\<lambda>(V, tbl, s).
     obind (sjson_add_node E tbl COMMA (pv_top V) 0 s) (\<lambda>(tbl, s). Ret (V, tbl, s)))"

definition open_level :: "json_env \<Rightarrow> u32 \<Rightarrow> parser \<Rightarrow> parser outcome" where
  "open_level E ty = (\<lambda>(V, tbl, s). obind (push_state V) (\<lambda>V. new_named E ty (V, tbl, s)))"

definition close_level :: "json_env \<Rightarrow> u32 \<Rightarrow> parser \<Rightarrow> parser outcome" where
  "close_level E ty P = obind (new_named E STMT P) (\<lambda>(V, tbl, s). new_named E ty (pop_state V, tbl, s))"

text \<open>The loop over the input: the result, 0 or -1, and the variables at the end.\<close>

function parse_loop :: "json_env \<Rightarrow> string \<Rightarrow> parser \<Rightarrow> (int \<times> parser) outcome" where
  "parse_loop E [] P = Ret (0, P)"
| "parse_loop E (c # cs) P =
     (if c = CHR ''{'' then obind (open_level E BLOCK P) (parse_loop E cs)
      else if c = CHR ''}'' then obind (close_level E BLOCK P) (parse_loop E cs)
      else if c = CHR ''['' then obind (open_level E SET P) (parse_loop E cs)
      else if c = CHR '']'' then obind (close_level E SET P) (parse_loop E cs)
      else if is_digit c \<or> is_alpha c
      then obind (scan_word [] (c # cs)) (\<lambda>r.
           case r of TooLong \<Rightarrow> Ret (- 1, P)
           | Token tok rest \<Rightarrow> obind (new_token E tok P) (parse_loop E rest))
      else if c = CHR 0x22
      then obind (scan_quoted [] cs) (\<lambda>r.
           case r of TooLong \<Rightarrow> Ret (- 1, P)
           | Token tok rest \<Rightarrow> obind (new_token E tok P) (parse_loop E rest))
      else if c = CHR '',''
      then obind (new_named E STMT P) (\<lambda>P. obind (new_comma E P) (parse_loop E cs))
      else parse_loop E cs P)"
  by pat_completeness auto
termination
  by (relation "measure (\<lambda>(E, cs, P). length cs)")
    (auto simp del: scan_word.simps scan_quoted.simps dest: scan_word_shorter scan_quoted_length simp: less_Suc_eq_le)

definition sjson_parse :: "json_env \<Rightarrow> string \<Rightarrow> json_state \<Rightarrow> (int \<times> sjson_table_t \<times> json_state) outcome" where
  "sjson_parse E mem s =
     obind (parse_loop E mem (\<lparr>pv_top = - 1, pv_blkn = 0, pv_setn = 0, pv_stmn = 0\<rparr>, sjson_table_init, s))
       (\<lambda>(r, V, tbl, s). Ret (r, tbl, s))"

end
