(* ===== verification/Json_Print.thy ===== *)
theory Json_Print
  imports Json_Parse
begin

text \<open>
  The printers of json/json.c: the JSON text, the XML text and the listing of the nodes of a tree. A
  printer writes its pieces with \<open>snprintf\<close> behind each other into the buffer of the caller. The buffer
  is the list of its bytes; \<open>off\<close> is the offset of the part of it a call works on, \<open>room\<close> is \<open>size\<close>, the bytes there,
  as in the source, and may be negative. The lengths stay below \<open>2\<^sup>3\<^sup>1\<close>.
\<close>

section \<open>Writing to a buffer\<close>

definition NUL :: char where "NUL = CHR 0x00"
definition NLC :: char where "NLC = CHR 0x0A"

text \<open>\<open>snprintf(buff + off, n, ...)\<close>; a negative \<open>n\<close> is a huge size.\<close>

definition snprintf_at :: "int \<Rightarrow> int \<Rightarrow> string \<Rightarrow> string \<Rightarrow> string outcome" where
  "snprintf_at off n txt buf =
     (if n = 0 then Ret buf
      else let t = (if n < 0 then txt else take (nat (n - 1)) txt) @ [NUL] in
           if off < 0 \<or> int (length buf) < off + int (length t) then Fault OutOfBounds
           else Ret (take (nat off) buf @ t @ drop (nat off + length t) buf))"

text \<open>The macro all printers use; \<open>len\<close> is the number of characters so far.\<close>

definition dbgp :: "int \<Rightarrow> int \<Rightarrow> string \<Rightarrow> string \<times> int \<Rightarrow> (string \<times> int) outcome" where
  "dbgp off room txt = (\<lambda>(buf, len).
     obind (snprintf_at (off + len) (if room < len then 0 else room - len) txt buf) (\<lambda>buf.
     Ret (buf, if txt = [] then room else len + int (length txt))))"

fun dbgp_n :: "nat \<Rightarrow> int \<Rightarrow> int \<Rightarrow> string \<times> int \<Rightarrow> (string \<times> int) outcome" where
  "dbgp_n 0 off room B = Ret B"
| "dbgp_n (Suc k) off room B = obind (dbgp off room ''  '' B) (dbgp_n k off room)"

section \<open>Looking around in the tree\<close>

fun lookback_steps :: "u32 list \<Rightarrow> addr \<Rightarrow> json_state \<Rightarrow> addr outcome" where
  "lookback_steps [] p s = Ret p"
| "lookback_steps (t # ts) p s =
     (if p = 0 then Ret 0
      else obind (load_node p s) (\<lambda>n. if sn_type n \<noteq> t then Ret 0 else lookback_steps ts (sn_prev n) s))"

definition sjson_json_lookback :: "addr \<Rightarrow> u32 list \<Rightarrow> json_state \<Rightarrow> addr outcome" where
  "sjson_json_lookback node step s =
     (if node = 0 then Ret 0 else obind (load_node node s) (\<lambda>n. lookback_steps step (sn_prev n) s))"

text \<open>
  Whether a node stands in a set, and the position of \<open>tnode\<close> behind it when it is asked for
  (\<open>want\<close>: \<open>nth\<close> and \<open>tnode\<close> are not NULL).
\<close>

definition sjson_set_member :: "addr \<Rightarrow> addr \<Rightarrow> bool \<Rightarrow> json_state \<Rightarrow> (bool \<times> int option) outcome" where
  "sjson_set_member node tnode want s =
     obind (load_node node s) (\<lambda>n.
     obind (if sn_prev n = 0 then Ret False else obind (load_node (sn_prev n) s) (\<lambda>p. Ret (sn_type p = SET))) (\<lambda>dset.
     if \<not> dset then Ret (False, None)
     else if want \<and> tnode \<noteq> 0
     then obind (while_o (\<lambda>(p, cnt). p \<noteq> 0 \<and> p \<noteq> tnode)
            (\<lambda>(p, cnt). obind (load_node p s) (\<lambda>pn. Ret (sn_bros pn, cnt + 1))) (sn_bros n, 0)) (\<lambda>(p, cnt).
          Ret (True, Some cnt))
     else Ret (True, None)))"

definition in_set :: "addr \<Rightarrow> json_state \<Rightarrow> bool outcome" where
  "in_set node s = obind (sjson_set_member node 0 False s) (\<lambda>(d, _). Ret d)"

text \<open>\<open>while (s && (s->bros != node)) s = s->bros;\<close> and \<open>while (q->bros) q = q->bros;\<close>\<close>

definition bros_before :: "addr \<Rightarrow> addr \<Rightarrow> json_state \<Rightarrow> addr outcome" where
  "bros_before node p s =
     obind (if p = 0 then Ret (0, 0) else obind (load_node p s) (\<lambda>n. Ret (p, sn_bros n))) (\<lambda>x.
     obind (while_o (\<lambda>(p, b). p \<noteq> 0 \<and> b \<noteq> node)
       (\<lambda>(p, b). if b = 0 then Ret (0, 0) else obind (load_node b s) (\<lambda>n. Ret (b, sn_bros n))) x) (\<lambda>(p, b). Ret p))"

definition bros_last :: "addr \<Rightarrow> json_state \<Rightarrow> addr outcome" where
  "bros_last q s =
     obind (load_node q s) (\<lambda>n.
     obind (while_o (\<lambda>(q, b). b \<noteq> 0) (\<lambda>(q, b). obind (load_node b s) (\<lambda>n. Ret (b, sn_bros n))) (q, sn_bros n))
       (\<lambda>(q, b). Ret q))"

section \<open>JSON\<close>

text \<open>What is written in front of the values and brothers of a node, by its type, and behind them.\<close>

definition json_head_block ::
    "addr \<Rightarrow> sjson_node_t \<Rightarrow> int \<Rightarrow> int \<Rightarrow> bool \<Rightarrow> json_state \<Rightarrow> string \<times> int \<Rightarrow> (string \<times> int) outcome" where
  "json_head_block node n off room space s B =
     obind (sjson_json_lookback node [BLOCK, STMT] s) (\<lambda>lb.
     obind (if lb = 0 then (if space then dbgp_n (nat (sn_lvl n)) off room B else Ret B) else dbgp off room '' '' B)
       (dbgp off room (''{'' @ [NLC])))"

definition json_head_set ::
    "addr \<Rightarrow> sjson_node_t \<Rightarrow> int \<Rightarrow> int \<Rightarrow> bool \<Rightarrow> json_state \<Rightarrow> string \<times> int \<Rightarrow> (string \<times> int) outcome" where
  "json_head_set node n off room space s B =
     obind (sjson_json_lookback node [SET, STMT] s) (\<lambda>lb.
     obind (if lb = 0 then (if space then dbgp_n (nat (sn_lvl n)) off room B else Ret B) else dbgp off room '' '' B) (\<lambda>B.
     obind (dbgp off room ''['' B) (\<lambda>B.
     if sn_bros n = 0 then Ret B
     else obind (load_node (sn_bros n) s) (\<lambda>p. if sn_type p \<noteq> TOKEN then dbgp off room [NLC] B else Ret B))))"

definition json_head_token ::
    "addr \<Rightarrow> sjson_node_t \<Rightarrow> int \<Rightarrow> int \<Rightarrow> bool \<Rightarrow> json_state \<Rightarrow> string \<times> int \<Rightarrow> (string \<times> int) outcome" where
  "json_head_token node n off room space s B =
     obind (if sn_value n \<noteq> 0 \<and> space then dbgp_n (nat (sn_lvl n)) off room B else Ret B) (\<lambda>B.
     obind (in_set node s) (\<lambda>d.
     obind (if \<not> d then Ret B
            else obind (bros_before node (sn_prev n) s) (\<lambda>p.
                 obind (load_node p s) (\<lambda>pn.
                 if sn_type pn \<noteq> TOKEN \<and> sn_type pn \<noteq> SET then dbgp_n (nat (sn_lvl n + 1)) off room B else Ret B))) (\<lambda>B.
     obind (if sn_symbol n = 0 then Ret B
            else obind (if sn_flag n AND F_DEL \<noteq> 0 then dbgp off room ''@'' B else Ret B) (\<lambda>B.
                 obind (load_str (sn_symbol n) s) (\<lambda>nm.
                 dbgp off room (CHR 0x22 # nm @ CHR 0x22 # (if sn_value n \<noteq> 0 then '': '' else [])) B))) (\<lambda>B.
     if d \<and> sn_bros n \<noteq> 0
     then obind (dbgp off room '', '' B) (\<lambda>B.
          obind (load_node (sn_bros n) s) (\<lambda>b. if sn_type b \<noteq> TOKEN then dbgp off room [NLC] B else Ret B))
     else Ret B))))"

definition json_head ::
    "addr \<Rightarrow> sjson_node_t \<Rightarrow> int \<Rightarrow> int \<Rightarrow> bool \<Rightarrow> json_state \<Rightarrow> string \<times> int \<Rightarrow> (string \<times> int) outcome" where
  "json_head node n off room space s B =
     (if multiple_node n \<and> sn_value n \<noteq> 0 then Ret B
      else if sn_type n = BLOCK then json_head_block node n off room space s B
      else if sn_type n = SET then json_head_set node n off room space s B
      else if sn_type n = STMT then Ret B
      else if sn_type n = TOKEN then json_head_token node n off room space s B
      else dbgp off room ''UNKNOWN'' B)"

definition json_tail ::
    "addr \<Rightarrow> sjson_node_t \<Rightarrow> int \<Rightarrow> int \<Rightarrow> bool \<Rightarrow> json_state \<Rightarrow> string \<times> int \<Rightarrow> (string \<times> int) outcome" where
  "json_tail node n off room space s B =
     (if multiple_node n \<and> sn_value n \<noteq> 0 then Ret B
      else if sn_type n = BLOCK
      then obind (if space then dbgp_n (nat (sn_lvl n)) off room B else Ret B) (\<lambda>B.
           obind (dbgp off room (if sn_flag n AND F_COMMA \<noteq> 0 then ''},'' else ''}'') B) (dbgp off room [NLC]))
      else if sn_type n = SET
      then obind (if sn_bros n = 0 then Ret B
                  else obind (bros_last (sn_bros n) s) (\<lambda>q. obind (load_node q s) (\<lambda>qn.
                       if sn_type qn \<noteq> TOKEN \<and> space then dbgp_n (nat (sn_lvl n)) off room B else Ret B)))
             (dbgp off room (if sn_flag n AND F_COMMA \<noteq> 0 then ''],'' @ [NLC] else '']'' @ [NLC]))
      else if sn_type n = TOKEN
      then obind (in_set node s) (\<lambda>d.
           if \<not> d \<and> sn_value n = 0 \<and> sn_bros n = 0
           then dbgp off room (if sn_flag n AND F_COMMA \<noteq> 0 then '','' @ [NLC] else [NLC]) B else Ret B)
      else Ret B)"

text \<open>The recursion: the number of characters it claims to have written, and the buffer.\<close>

partial_function (option) json_print_rec ::
    "addr \<Rightarrow> int \<Rightarrow> int \<Rightarrow> bool \<Rightarrow> json_state \<Rightarrow> string \<Rightarrow> (string \<times> int) outcome option" where
  "json_print_rec node off room space s buf =
     (if node = 0 then Some (Ret (buf, 0))
      else rbind (Some (load_node node s)) (\<lambda>n.
      rbind (Some (json_head node n off room space s (buf, 0))) (\<lambda>(buf, len).
      rbind (json_print_rec (sn_value n) (off + len) (room - len) True s buf) (\<lambda>(buf, l).
      let len = len + l in
      rbind (json_print_rec (sn_bros n) (off + len) (room - len) False s buf) (\<lambda>(buf, l).
      Some (json_tail node n off room space s (buf, len + l)))))))"

declare json_print_rec.simps [code]

definition sjson_json_print :: "addr \<Rightarrow> int \<Rightarrow> int \<Rightarrow> bool \<Rightarrow> json_state \<Rightarrow> string \<Rightarrow> (string \<times> int) outcome" where
  "sjson_json_print node off room space s buf = run_loop (json_print_rec node off room space s buf)"

text \<open>\<open>sjson_print_json\<close>: the buffer, \<open>None\<close> for NULL, and the length.\<close>

definition sjson_print_json :: "sjson_table_t \<Rightarrow> string option \<Rightarrow> int \<Rightarrow> json_state \<Rightarrow> (string option \<times> int) outcome" where
  "sjson_print_json tbl buff room s =
     (case buff of None \<Rightarrow> Ret (None, 0)
      | Some buf \<Rightarrow>
        if room \<le> 0 then Ret (Some buf, 0)
        else obind (cell_get (tb_root tbl) 0) (\<lambda>r.
             obind (sjson_json_print r 0 room True s buf) (\<lambda>(buf, len). Ret (Some buf, len))))"

end
