(* ===== verification/Json_Tree.thy ===== *)
theory Json_Tree
  imports Json_Parse "HOL-Library.Multiset"
begin

text \<open>
  Parse trees as the store holds them. A \<open>jnode\<close> is a node together with the addresses of its blocks
  and with the chain of its values; \<open>cells\<close> are the blocks a chain of nodes occupies, and \<open>holds F cs h\<close>
  says that the store consists of the blocks \<open>cs\<close> and, apart from them, of what was there before (\<open>F\<close>).
  Pointer assignments change single cells, so their effect is read off the cells.
\<close>

section \<open>Blocks in the store\<close>

type_synonym jcells = "(addr \<times> jobj) list"

definition holds :: "jheap \<Rightarrow> jcells \<Rightarrow> jheap \<Rightarrow> bool" where
  "holds F cs h \<longleftrightarrow> distinct (map fst cs) \<and> 0 \<notin> fst ` set cs \<and> (\<forall>a\<in>fst ` set cs. F a = None) \<and> h = F ++ map_of cs"

lemma holds_perm: "mset cs = mset cs' \<Longrightarrow> holds F cs h \<longleftrightarrow> holds F cs' h"
proof -
  assume m: "mset cs = mset cs'"
  have s: "set cs = set cs'" using m by (rule mset_eq_setD)
  have "mset (map fst cs) = mset (map fst cs')" by (simp add: m)
  then have d: "distinct (map fst cs) \<longleftrightarrow> distinct (map fst cs')" by (rule mset_eq_imp_distinct_iff)
  have "distinct (map fst cs) \<Longrightarrow> map_of cs = map_of cs'" using d s by (simp add: map_of_inject_set)
  then show ?thesis using s d by (auto simp: holds_def)
qed

lemma holds_Nil [simp]: "holds F [] h \<longleftrightarrow> h = F"
  by (auto simp: holds_def)

lemma holds_get:
  assumes "holds F cs h" "(a, ob) \<in> set cs"
  shows "h a = Some ob" "a \<noteq> 0" "F a = None"
  using assms by (force simp: holds_def map_add_Some_iff)+

lemma holds_replace:
  assumes "holds F (xs @ rs) h" "map fst xs' = map fst xs"
  shows "holds F (xs' @ rs) (h ++ map_of xs')"
proof -
  have f: "fst ` set xs' = fst ` set xs" using arg_cong [OF assms(2), of set] by simp
  have d: "distinct (map fst (xs @ rs))" using assms(1) by (simp add: holds_def)
  have "(F ++ map_of (xs @ rs)) ++ map_of xs' = F ++ map_of (xs' @ rs)"
  proof
    fix a
    show "((F ++ map_of (xs @ rs)) ++ map_of xs') a = (F ++ map_of (xs' @ rs)) a"
    proof (cases "a \<in> fst ` set xs")
      case True
      then have "map_of xs' a \<noteq> None" using f by (metis map_of_eq_None_iff)
      then show ?thesis by (auto simp: map_add_def split: option.splits)
    next
      case False
      then have "map_of xs' a = None" "map_of xs a = None" using f by (metis map_of_eq_None_iff)+
      then show ?thesis by (simp add: map_add_def split: option.splits)
    qed
  qed
  then show ?thesis using assms d f by (simp add: holds_def image_Un)
qed

lemma holds_put: "holds F ((a, ob) # cs) h \<Longrightarrow> holds F ((a, ob') # cs) (h(a \<mapsto> ob'))"
  using holds_replace [of F "[(a, ob)]" cs h "[(a, ob')]"] by simp

lemma holds_new:
  assumes "holds F cs h" "h a = None" "a \<noteq> 0"
  shows "holds F ((a, ob) # cs) (h(a \<mapsto> ob))"
proof -
  have h: "h = F ++ map_of cs" using assms(1) by (simp add: holds_def)
  then have "F a = None" "a \<notin> fst ` set cs" using assms(2) by (auto simp: map_of_eq_None_iff)
  then show ?thesis using assms(1,3) h by (auto simp: holds_def)
qed

lemma holds_del:
  assumes "holds F ((a, ob) # cs) h"
  shows "holds F cs (h(a := None))"
proof -
  have a: "a \<notin> fst ` set cs" "F a = None" using assms by (auto simp: holds_def)
  then have "map_of cs a = None" by (simp add: map_of_eq_None_iff)
  then have "(F ++ map_of ((a, ob) # cs))(a := None) = F ++ map_of cs"
    using a by (auto simp: map_add_def fun_eq_iff split: option.splits)
  then show ?thesis using assms by (simp add: holds_def)
qed

lemma holds_dom:
  assumes "holds F cs h" "finite (dom F)"
  shows "finite (dom h)" "card (dom h) = card (dom F) + length cs"
proof -
  have h: "dom h = dom F \<union> fst ` set cs"
    using assms(1) by (auto simp: holds_def dom_map_of_conv_image_fst)
  have "dom F \<inter> fst ` set cs = {}" using assms(1) by (auto simp: holds_def)
  moreover have "card (fst ` set cs) = length cs"
    using assms(1) by (metis distinct_card holds_def length_map set_map)
  ultimately show "finite (dom h)" "card (dom h) = card (dom F) + length cs"
    using h assms(2) by (simp_all add: card_Un_disjoint)
qed

section \<open>Nodes with their addresses\<close>

datatype jnode = JNode (j_addr: addr) (j_sym: addr) (j_type: u32) (j_name: string) (j_lvl: int)
  (j_flag: u32) (j_prev: addr) (j_val: "jnode list")

lemma size_j_val [termination_simp]: "size_list size (j_val n) < Suc (size n + k)"
  by (cases n) simp

fun headx :: "addr \<Rightarrow> jnode list \<Rightarrow> addr" where
  "headx e [] = e"
| "headx e (n # ns) = j_addr n"

definition node_obj :: "addr \<Rightarrow> jnode \<Rightarrow> sjson_node_t" where
  "node_obj b n = \<lparr>sn_type = j_type n, sn_symbol = j_sym n, sn_lvl = j_lvl n, sn_flag = j_flag n,
     sn_value = headx 0 (j_val n), sn_bros = b, sn_prev = j_prev n\<rparr>"

lemma node_obj_simps [simp]:
  "sn_type (node_obj b n) = j_type n" "sn_symbol (node_obj b n) = j_sym n" "sn_lvl (node_obj b n) = j_lvl n"
  "sn_flag (node_obj b n) = j_flag n" "sn_value (node_obj b n) = headx 0 (j_val n)" "sn_bros (node_obj b n) = b"
  "sn_prev (node_obj b n) = j_prev n" "(node_obj b n)\<lparr>sn_bros := b'\<rparr> = node_obj b' n"
  by (simp_all add: node_obj_def)

text \<open>The blocks of a chain whose last node has the brother \<open>e\<close>.\<close>

fun cells :: "addr \<Rightarrow> jnode list \<Rightarrow> jcells" where
  "cells e [] = []"
| "cells e (n # ns) =
     (j_addr n, NodeObj (node_obj (headx e ns) n)) # (j_sym n, StrObj (j_name n)) # cells 0 (j_val n) @ cells e ns"

lemma headx_append [simp]: "headx e (ns @ ms) = headx (headx e ms) ns"
  by (cases ns) auto

lemma cells_append [simp]: "cells e (ns @ ms) = cells (headx e ms) ns @ cells e ms"
  by (induction ns) auto

fun jsize :: "jnode list \<Rightarrow> nat" where
  "jsize [] = 0"
| "jsize (n # ns) = Suc (jsize (j_val n) + jsize ns)"

lemma length_cells [simp]: "length (cells e ns) = 2 * jsize ns"
  by (induction e ns rule: cells.induct) auto

lemma jsize_append [simp]: "jsize (ns @ ms) = jsize ns + jsize ms"
  by (induction ns) auto

section \<open>Releasing and copying a tree\<close>

lemma load_node_cell:
  "holds F cs (js_heap s) \<Longrightarrow> (a, NodeObj n) \<in> set cs \<Longrightarrow> load_node a s = Ret n"
  using holds_get [of F cs "js_heap s" a "NodeObj n"] by (simp add: load_node_def)

lemma load_str_cell:
  "holds F cs (js_heap s) \<Longrightarrow> (a, StrObj x) \<in> set cs \<Longrightarrow> load_str a s = Ret x"
  using holds_get [of F cs "js_heap s" a "StrObj x"] by (simp add: load_str_def)

lemma js_heap_jput [simp]: "js_heap (jput a ob s) = (js_heap s)(a \<mapsto> ob)"
  by (simp add: jput_def)

lemma upd_node_cell:
  assumes "holds F ((a, NodeObj n) # cs) (js_heap s)"
  shows "upd_node a f s = Ret (jput a (NodeObj (f n)) s)"
    and "holds F ((a, NodeObj (f n)) # cs) (js_heap (jput a (NodeObj (f n)) s))"
  using load_node_cell [OF assms, of a n] holds_put [OF assms] by (simp_all add: upd_node_def)

lemma free_node_cells:
  assumes "holds F ((a, NodeObj n) # (sn_symbol n, ob) # cs) (js_heap s)"
  shows "\<exists>s'. sjson_free_node a s = Ret s' \<and> holds F cs (js_heap s')"
proof -
  note g = holds_get [OF assms]
  have "holds F ((sn_symbol n, ob) # (a, NodeObj n) # cs) (js_heap s)"
    using assms holds_perm [of "(a, NodeObj n) # (sn_symbol n, ob) # cs" "(sn_symbol n, ob) # (a, NodeObj n) # cs"] by simp
  note d = holds_del [OF this]
  have ne: "sn_symbol n \<noteq> a" using assms by (auto simp: holds_def)
  show ?thesis
    using g(1,2) [of a "NodeObj n"] g(1,2) [of "sn_symbol n" ob] load_node_cell [OF assms, of a n] ne holds_del [OF d]
    by (auto simp: sjson_free_node_def jos_free_def)
qed

lemma headx_not_0: "holds F (cells e ns @ cs) h \<Longrightarrow> ns \<noteq> [] \<Longrightarrow> headx 0 ns \<noteq> 0"
  by (cases ns) (auto simp: holds_def)

lemma holds_rotate: "holds F (as @ bs @ cs) h \<longleftrightarrow> holds F (bs @ as @ cs) h"
  by (rule holds_perm) simp

text \<open>One of the two recursive calls: release the chain behind a pointer of a node, then clear the pointer.\<close>

lemma free_link:
  assumes IH: "\<And>cs s. holds F (cells 0 ns @ cs) (js_heap s)
      \<Longrightarrow> \<exists>s'. sjson_free_rec (headx 0 ns) s = Some (Ret s') \<and> holds F cs (js_heap s')"
    and h: "holds F ((a, NodeObj m) # cells 0 ns @ cs) (js_heap s)"
  obtains s1 where "(if headx 0 ns \<noteq> 0 then rbind (sjson_free_rec (headx 0 ns) s) (\<lambda>s. Some (upd_node a f s))
                     else Some (Ret s)) = Some (Ret s1)"
    and "holds F ((a, NodeObj (if ns = [] then m else f m)) # cs) (js_heap s1)"
proof (cases "ns = []")
  case True
  with h that [of s] show thesis by simp
next
  case False
  have p: "holds F (cells 0 ns @ (a, NodeObj m) # cs) (js_heap s)"
    using h by (subst holds_perm) (auto simp: ac_simps)
  from IH [OF p] obtain s1 where s1: "sjson_free_rec (headx 0 ns) s = Some (Ret s1)"
    "holds F ((a, NodeObj m) # cs) (js_heap s1)" by blast
  from upd_node_cell [OF s1(2), of f] s1(1) headx_not_0 [OF p False] False that show thesis by simp
qed

lemma sjson_free_rec_law:
  "holds F (cells 0 ns @ cs) (js_heap s)
     \<Longrightarrow> \<exists>s'. sjson_free_rec (headx 0 ns) s = Some (Ret s') \<and> holds F cs (js_heap s')"
proof (induction "0 :: addr" ns arbitrary: cs s rule: cells.induct)
  case 1
  then show ?case by (simp add: sjson_free_rec.simps [of 0])
next
  case (2 n ns)
  let ?a = "j_addr n" and ?y = "(j_sym n, StrObj (j_name n))" and ?m = "node_obj (headx 0 ns) n"
  let ?m' = "if j_val n = [] then node_obj 0 n else (node_obj 0 n)\<lparr>sn_value := 0\<rparr>"
  have h: "holds F ((?a, NodeObj ?m) # cells 0 ns @ ?y # cells 0 (j_val n) @ cs) (js_heap s)"
    using "2.prems" by (subst holds_perm) (auto simp: ac_simps)
  note l = load_node_cell [OF h, of ?a ?m, simplified]
  have a0: "?a \<noteq> 0" using holds_get(2) [OF h, of ?a "NodeObj ?m"] by simp
  from free_link [OF "2.hyps"(2) h, where f = "\<lambda>n. n\<lparr>sn_bros := 0\<rparr>"]
  obtain s1 where s1: "(if headx 0 ns \<noteq> 0 then rbind (sjson_free_rec (headx 0 ns) s) (\<lambda>s. Some (upd_node ?a (\<lambda>n. n\<lparr>sn_bros := 0\<rparr>) s))
                        else Some (Ret s)) = Some (Ret s1)"
    and "holds F ((?a, NodeObj (if ns = [] then ?m else ?m\<lparr>sn_bros := 0\<rparr>)) # ?y # cells 0 (j_val n) @ cs) (js_heap s1)"
    by blast
  then have h1: "holds F ((?a, NodeObj (node_obj 0 n)) # cells 0 (j_val n) @ ?y # cs) (js_heap s1)"
    by (subst holds_perm) (auto simp: ac_simps split: if_splits)
  note l1 = load_node_cell [OF h1, of ?a "node_obj 0 n", simplified]
  from free_link [OF "2.hyps"(1) h1, where f = "\<lambda>n. n\<lparr>sn_value := 0\<rparr>"]
  obtain s2 where s2: "(if headx 0 (j_val n) \<noteq> 0 then rbind (sjson_free_rec (headx 0 (j_val n)) s1) (\<lambda>s. Some (upd_node ?a (\<lambda>n. n\<lparr>sn_value := 0\<rparr>) s))
                        else Some (Ret s1)) = Some (Ret s2)"
    and h2: "holds F ((?a, NodeObj ?m') # ?y # cs) (js_heap s2)"
    by blast
  have "sn_symbol ?m' = j_sym n" by simp
  with free_node_cells [of F ?a ?m' "StrObj (j_name n)" cs s2] h2
  obtain s3 where "sjson_free_node ?a s2 = Ret s3" "holds F cs (js_heap s3)" by auto
  then show ?case using a0 l s1 l1 s2 by (simp add: sjson_free_rec.simps [of ?a] split del: if_split cong: if_cong)
qed

text \<open>Releasing a tree gives back exactly its blocks.\<close>

lemma sjson_free_i_law:
  assumes "holds F (cells 0 ns @ cs) (js_heap s)"
  obtains s' where "sjson_free_i (headx 0 ns) s = Ret s'" "holds F cs (js_heap s')"
  using sjson_free_rec_law [OF assms] by (auto simp: sjson_free_i_def)

section \<open>Allocation\<close>

text \<open>
  The memory space: an address that is handed out is not in use, and as long as fewer than \<open>cap\<close>
  blocks are in use there is one.
\<close>

definition json_env_ok :: "nat \<Rightarrow> json_env \<Rightarrow> bool" where
  "json_env_ok cap E \<longleftrightarrow> (\<forall>n sz h. (je_alloc E n sz h \<noteq> 0 \<longrightarrow> h (je_alloc E n sz h) = None)
     \<and> (finite (dom h) \<and> card (dom h) < cap \<longrightarrow> je_alloc E n sz h \<noteq> 0))"

lemma os_meminit_heap [simp]: "js_heap (os_meminit s) = js_heap s"
  by (simp add: os_meminit_def)

lemma mem_alloc_cell:
  assumes "json_env_ok cap E" "holds F cs (js_heap s)" "finite (dom F)" "card (dom F) + length cs < cap"
  obtains p s' where "mem_alloc E sz s = Ret (p, s')" "p \<noteq> 0" "holds F ((p, RawObj sz) # cs) (js_heap s')"
proof -
  let ?p = "je_alloc E (js_calls s) sz (js_heap s)"
  have p: "?p \<noteq> 0" "js_heap s ?p = None"
    using assms(1,4) holds_dom [OF assms(2,3)] by (auto simp: json_env_ok_def)
  from holds_new [OF assms(2) p(2,1)] p show thesis
    by (auto intro!: that simp: mem_alloc_def Let_def jput_def)
qed

lemma jos_strdup_cell:
  assumes "json_env_ok cap E" "holds F cs (js_heap s)" "finite (dom F)" "card (dom F) + length cs < cap"
  obtains p s' where "jos_strdup E x s = Ret (p, s')" "p \<noteq> 0" "holds F ((p, StrObj x) # cs) (js_heap s')"
proof -
  have h: "holds F cs (js_heap (os_meminit s))" using assms(2) by simp
  from mem_alloc_cell [OF assms(1) h assms(3,4)] obtain p s' where
    "mem_alloc E (of_nat (length x + 1)) (os_meminit s) = Ret (p, s')" "p \<noteq> 0"
    "holds F ((p, RawObj (of_nat (length x + 1))) # cs) (js_heap s')" by blast
  then show thesis by (auto intro!: that simp: jos_strdup_def dest: holds_put)
qed

lemma sjson_new_node_cell:
  assumes "json_env_ok cap E" "holds F cs (js_heap s)" "finite (dom F)" "card (dom F) + length cs < cap"
  obtains p s' where "sjson_new_node E ty l y s = Ret (p, s')" "p \<noteq> 0"
    "holds F ((p, NodeObj \<lparr>sn_type = ty, sn_symbol = y, sn_lvl = l, sn_flag = 0, sn_value = 0, sn_bros = 0, sn_prev = 0\<rparr>) # cs) (js_heap s')"
proof -
  have h: "holds F cs (js_heap (os_meminit s))" using assms(2) by simp
  from mem_alloc_cell [OF assms(1) h assms(3,4)] obtain p s' where
    "mem_alloc E (aligned_size (je_node_size E)) (os_meminit s) = Ret (p, s')" "p \<noteq> 0"
    "holds F ((p, RawObj (aligned_size (je_node_size E))) # cs) (js_heap s')" by blast
  then show thesis by (auto intro!: that simp: sjson_new_node_def jos_malloc_def dest: holds_put)
qed

text \<open>A name and a node for it.\<close>

lemma new_named_node:
  assumes "json_env_ok cap E" "holds F cs (js_heap s)" "finite (dom F)" "card (dom F) + length cs + 1 < cap"
  obtains y s1 q s2 where "jos_strdup E x s = Ret (y, s1)" "y \<noteq> 0" "sjson_new_node E ty l y s1 = Ret (q, s2)" "q \<noteq> 0"
    "holds F ((q, NodeObj (node_obj 0 (JNode q y ty x l 0 0 []))) # (y, StrObj x) # cs) (js_heap s2)"
    "holds F ((y, StrObj x) # cs) (js_heap s1)"
proof -
  have "card (dom F) + length cs < cap" using assms(4) by simp
  from jos_strdup_cell [OF assms(1-3) this, of x] obtain y s1 where
    s1: "jos_strdup E x s = Ret (y, s1)" "y \<noteq> 0" "holds F ((y, StrObj x) # cs) (js_heap s1)" by metis
  have "card (dom F) + length ((y, StrObj x) # cs) < cap" using assms(4) by simp
  from sjson_new_node_cell [OF assms(1) s1(3) assms(3) this, of ty l y] obtain q s2 where
    "sjson_new_node E ty l y s1 = Ret (q, s2)" "q \<noteq> 0"
    "holds F ((q, NodeObj (node_obj 0 (JNode q y ty x l 0 0 []))) # (y, StrObj x) # cs) (js_heap s2)"
    by (metis headx.simps(1) jnode.sel node_obj_def)
  then show thesis using s1 that by blast
qed

text \<open>The block \<open>os_malloc\<close> returns for a string has room for it.\<close>

lemma aligned_room:
  assumes "n < 2 ^ 32"
  shows "n < unat (aligned_size (of_nat (n + 1)))"
proof -
  let ?x = "word_of_nat (n + 17) :: u64"
  have m: "(15 :: u64) = mask 4" by (simp add: mask_eq_exp_minus_1)
  have u: "unat ?x = n + 17" using assms by (simp only: unsigned_of_nat) (simp add: take_bit_nat_eq_self)
  have "?x AND NOT (mask 4) = push_bit 4 (drop_bit 4 ?x)" by (rule bit_word_eqI) (auto simp: bit_simps)
  then have "unat (?x AND NOT 15) = take_bit 64 (push_bit 4 (drop_bit 4 (n + 17)))"
    using assms by (simp only: m unsigned_push_bit_eq unsigned_drop_bit_eq u) (simp add: take_bit_nat_eq_self)
  also have "\<dots> = (n + 17) div 16 * 16"
    using assms by (simp add: push_bit_eq_mult drop_bit_eq_div take_bit_nat_eq_self)
  finally have "unat (?x AND NOT 15) = (n + 17) div 16 * 16" .
  moreover have "word_of_nat (n + 1) + 16 = ?x" by simp
  ultimately show ?thesis by (simp only: aligned_size_def)
qed

text \<open>Blocks on top of blocks.\<close>

lemma holds_trans:
  assumes "holds F cs h" "holds h cs' h'"
  shows "holds F (cs' @ cs) h'"
proof -
  have h: "h = F ++ map_of cs" using assms(1) by (simp add: holds_def)
  have n: "F a = None" "a \<notin> fst ` set cs" if "a \<in> fst ` set cs'" for a
  proof -
    have "h a = None" using assms(2) that by (auto simp: holds_def)
    then show "F a = None" "a \<notin> fst ` set cs" by (auto simp: h map_add_def map_of_eq_None_iff split: option.splits)
  qed
  then show ?thesis using assms by (auto simp: holds_def h)
qed

section \<open>Copies\<close>

fun copy_of :: "jnode list \<Rightarrow> jnode list \<Rightarrow> bool" where
  "copy_of [] ms \<longleftrightarrow> ms = []"
| "copy_of (n # ns) ms \<longleftrightarrow> (case ms of [] \<Rightarrow> False
     | m # ms' \<Rightarrow> j_type m = j_type n \<and> j_name m = j_name n \<and> j_lvl m = j_lvl n \<and> j_flag m = j_flag n
         \<and> j_prev m = 0 \<and> copy_of (j_val n) (j_val m) \<and> copy_of ns ms')"

lemma copy_of_jsize: "copy_of ns ms \<Longrightarrow> jsize ms = jsize ns"
  by (induction ns ms rule: copy_of.induct) (auto split: list.splits)

lemma upd_node_perm:
  assumes "holds F cs (js_heap s)" "mset cs = mset ((a, NodeObj n) # rs)"
  shows "upd_node a f s = Ret (jput a (NodeObj (f n)) s)"
    and "holds F ((a, NodeObj (f n)) # rs) (js_heap (jput a (NodeObj (f n)) s))"
proof -
  have h: "holds F ((a, NodeObj n) # rs) (js_heap s)" using assms holds_perm by blast
  show "upd_node a f s = Ret (jput a (NodeObj (f n)) s)"
    and "holds F ((a, NodeObj (f n)) # rs) (js_heap (jput a (NodeObj (f n)) s))"
    by (rule upd_node_cell [OF h])+
qed

lemma sjson_copy_rec_law:
  assumes "json_env_ok cap E" "finite (dom F)"
  shows "holds F cs (js_heap s) \<Longrightarrow> set (cells 0 ns) \<subseteq> set cs \<Longrightarrow> card (dom F) + length cs + 2 * jsize ns \<le> cap
    \<Longrightarrow> \<exists>ms s'. sjson_copy_rec E (headx 0 ns) s = Some (Ret (headx 0 ms, s'))
         \<and> copy_of ns ms \<and> holds F (cells 0 ms @ cs) (js_heap s')"
proof (induction "0 :: addr" ns arbitrary: cs s rule: cells.induct)
  case 1
  then show ?case by (auto simp: sjson_copy_rec.simps [of E 0])
next
  case (2 n ns)
  let ?a = "j_addr n" and ?m = "node_obj (headx 0 ns) n"
  have in_cs: "(?a, NodeObj ?m) \<in> set cs" "(j_sym n, StrObj (j_name n)) \<in> set cs"
    using "2.prems"(2) by auto
  have a: "?a \<noteq> 0" "load_node ?a s = Ret ?m" "symbol_name ?a s = Ret (j_name n)"
    using holds_get(2) [OF "2.prems"(1) in_cs(1)] load_node_cell [OF "2.prems"(1) in_cs(1)]
      load_str_cell [OF "2.prems"(1) in_cs(2)] by (simp_all add: symbol_name_def)
  have "card (dom F) + length cs + 1 < cap" using "2.prems"(3) by simp
  from new_named_node [OF assms(1) "2.prems"(1) assms(2) this, of "j_name n" "j_type n" "j_lvl n"] obtain y s1 q s2 where
    s2: "jos_strdup E (j_name n) s = Ret (y, s1)" "sjson_new_node E (j_type n) (j_lvl n) y s1 = Ret (q, s2)" "q \<noteq> 0"
    "holds F ((q, NodeObj (node_obj 0 (JNode q y (j_type n) (j_name n) (j_lvl n) 0 0 []))) # (y, StrObj (j_name n)) # cs) (js_heap s2)"
    by metis
  let ?q = "\<lambda>b vs. node_obj b (JNode q y (j_type n) (j_name n) (j_lvl n) (j_flag n) 0 vs)"
  from upd_node_cell [OF s2(4), of "\<lambda>m. m\<lparr>sn_flag := j_flag n, sn_prev := 0\<rparr>"] obtain s3 where
    s3: "upd_node q (\<lambda>m. m\<lparr>sn_flag := j_flag n, sn_prev := 0\<rparr>) s2 = Ret s3"
    "holds F ((q, NodeObj (?q 0 [])) # (y, StrObj (j_name n)) # cs) (js_heap s3)"
    by (simp add: node_obj_def)
  have "set (cells 0 (j_val n)) \<subseteq> set ((q, NodeObj (?q 0 [])) # (y, StrObj (j_name n)) # cs)" using "2.prems"(2) by auto
  from "2.hyps"(1) [OF s3(2) this] "2.prems"(3) obtain vs s4 where
    s4: "sjson_copy_rec E (headx 0 (j_val n)) s3 = Some (Ret (headx 0 vs, s4))" "copy_of (j_val n) vs"
    "holds F (cells 0 vs @ (q, NodeObj (?q 0 [])) # (y, StrObj (j_name n)) # cs) (js_heap s4)" by auto
  have "mset (cells 0 vs @ (q, NodeObj (?q 0 [])) # (y, StrObj (j_name n)) # cs) =
      mset ((q, NodeObj (?q 0 [])) # cells 0 vs @ (y, StrObj (j_name n)) # cs)" by simp
  from upd_node_perm [OF s4(3) this, of "\<lambda>m. m\<lparr>sn_value := headx 0 vs\<rparr>"] obtain s5 where
    s5: "upd_node q (\<lambda>m. m\<lparr>sn_value := headx 0 vs\<rparr>) s4 = Ret s5"
    "holds F ((q, NodeObj (?q 0 vs)) # cells 0 vs @ (y, StrObj (j_name n)) # cs) (js_heap s5)"
    by (simp add: node_obj_def)
  have "set (cells 0 ns) \<subseteq> set ((q, NodeObj (?q 0 vs)) # cells 0 vs @ (y, StrObj (j_name n)) # cs)" using "2.prems"(2) by auto
  from "2.hyps"(2) [OF s5(2) this] "2.prems"(3) copy_of_jsize [OF s4(2)] obtain bs s6 where
    s6: "sjson_copy_rec E (headx 0 ns) s5 = Some (Ret (headx 0 bs, s6))" "copy_of ns bs"
    "holds F (cells 0 bs @ (q, NodeObj (?q 0 vs)) # cells 0 vs @ (y, StrObj (j_name n)) # cs) (js_heap s6)" by auto
  have "mset (cells 0 bs @ (q, NodeObj (?q 0 vs)) # cells 0 vs @ (y, StrObj (j_name n)) # cs) =
      mset ((q, NodeObj (?q 0 vs)) # (y, StrObj (j_name n)) # cells 0 vs @ cells 0 bs @ cs)" by simp
  from upd_node_perm [OF s6(3) this, of "\<lambda>m. m\<lparr>sn_bros := headx 0 bs\<rparr>"] obtain s7 where
    s7: "upd_node q (\<lambda>m. m\<lparr>sn_bros := headx 0 bs\<rparr>) s6 = Ret s7"
    "holds F ((q, NodeObj (?q (headx 0 bs) vs)) # (y, StrObj (j_name n)) # cells 0 vs @ cells 0 bs @ cs) (js_heap s7)"
    by (simp add: node_obj_def)
  let ?ms = "JNode q y (j_type n) (j_name n) (j_lvl n) (j_flag n) 0 vs # bs"
  have "sjson_copy_rec E ?a s = Some (Ret (q, s7))"
    using a s2(1-3) s3(1) s4(1) s5(1) s6(1) s7(1) by (simp add: sjson_copy_rec.simps [of E ?a])
  then show ?case using s4(2) s6(2) s7(2) by (intro exI [of _ ?ms] exI [of _ s7]) simp
qed

end
