(* ===== verification/Json_Parse_Laws.thy ===== *)
theory Json_Parse_Laws
  imports Json_Tree
begin

text \<open>
  The steps of the parser on the chains of its levels: appending a node, opening and closing a level,
  combining the last two nodes to a statement, noting a comma.
\<close>

section \<open>The table of levels\<close>

definition last_addr :: "jnode list \<Rightarrow> addr" where
  "last_addr ns = (if ns = [] then 0 else j_addr (last ns))"

definition tab :: "(jnode list \<Rightarrow> addr) \<Rightarrow> jnode list list \<Rightarrow> addr list" where
  "tab f L = map f L @ replicate (MAXL - length L) 0"

definition tables :: "jnode list list \<Rightarrow> sjson_table_t \<Rightarrow> bool" where
  "tables L tbl \<longleftrightarrow> tb_root tbl = tab (headx 0) L \<and> tb_last tbl = tab last_addr L \<and> length L \<le> MAXL \<and> [] \<notin> set L"

lemma last_addr_simps [simp]: "last_addr [n] = j_addr n" "last_addr (m # n # ns) = last_addr (n # ns)"
  "last_addr (ns @ n # ms) = last_addr (n # ms)"
  by (simp_all add: last_addr_def)

lemma length_tab [simp]: "length L \<le> MAXL \<Longrightarrow> length (tab f L) = MAXL"
  by (simp add: tab_def)

lemma tab_get: "length L < MAXL \<Longrightarrow> cell_get (tab f (L @ [ns])) (int (length L)) = Ret (f ns)"
  by (simp add: cell_get_def tab_def nth_append)

lemma tab_get_free: "length L < MAXL \<Longrightarrow> cell_get (tab f L) (int (length L)) = Ret 0"
  by (simp add: cell_get_def tab_def nth_append)

lemma tab_set: "length L < MAXL \<Longrightarrow> (tab f (L @ [ns]))[length L := f ns'] = tab f (L @ [ns'])"
  by (simp add: tab_def list_update_append)

lemma tab_push: "length L < MAXL \<Longrightarrow> (tab f L)[length L := f ns] = tab f (L @ [ns])"
  by (cases "MAXL - length L") (auto simp: tab_def list_update_append Suc_diff_Suc)

lemma tab_pop: "length L < MAXL \<Longrightarrow> (tab f (L @ [ns]))[length L := 0] = tab f L"
  by (cases "MAXL - length L") (auto simp: tab_def list_update_append)

lemmas tab_simps = tab_get tab_get_free tab_set tab_push tab_pop

lemma tables_get:
  assumes "tables (L @ [ns]) tbl"
  shows "cell_get (tb_root tbl) (int (length L)) = Ret (headx 0 ns)"
    and "cell_get (tb_last tbl) (int (length L)) = Ret (last_addr ns)"
  using assms by (simp_all add: tables_def tab_simps)

lemma tables_set:
  assumes "tables (L @ [ns]) tbl" "ns' \<noteq> []" "headx 0 ns' = headx 0 ns" "last_addr ns' = a"
  shows "tables (L @ [ns']) (set_last (int (length L)) a tbl)"
proof -
  have "tab (headx 0) (L @ [ns']) = tab (headx 0) (L @ [ns])" using assms(3) by (simp add: tab_def)
  then show ?thesis using assms by (simp add: tables_def set_last_def flip: assms(4)) (simp add: tab_simps)
qed

lemma tables_same:
  assumes "tables (L @ [ns]) tbl" "ns' \<noteq> []" "headx 0 ns' = headx 0 ns" "last_addr ns' = last_addr ns"
  shows "tables (L @ [ns']) tbl"
  using assms by (simp add: tables_def tab_def)

lemma tables_push:
  assumes "tables L tbl" "length L < MAXL"
  shows "tables (L @ [[n]]) (set_last (int (length L)) (j_addr n) (set_root (int (length L)) (j_addr n) tbl))"
  using assms tab_push [OF assms(2), of "headx 0" "[n]"] tab_push [OF assms(2), of last_addr "[n]"]
  by (simp add: tables_def set_last_def set_root_def last_addr_def)

lemma tables_pop:
  assumes "tables (L @ [ns]) tbl"
  shows "tables L (set_last (int (length L)) 0 (set_root (int (length L)) 0 tbl))"
  using assms by (simp add: tables_def set_last_def set_root_def tab_simps)

section \<open>Changing a node\<close>

fun set_prev :: "addr \<Rightarrow> jnode \<Rightarrow> jnode" where
  "set_prev pv (JNode a y ty nm l f _ vs) = JNode a y ty nm l f pv vs"

fun set_val :: "jnode list \<Rightarrow> jnode \<Rightarrow> jnode" where
  "set_val vs (JNode a y ty nm l f pv _) = JNode a y ty nm l f pv vs"

lemma set_prev_simps [simp]:
  "j_addr (set_prev pv n) = j_addr n" "j_sym (set_prev pv n) = j_sym n" "j_type (set_prev pv n) = j_type n"
  "j_name (set_prev pv n) = j_name n" "j_lvl (set_prev pv n) = j_lvl n" "j_flag (set_prev pv n) = j_flag n"
  "j_prev (set_prev pv n) = pv" "j_val (set_prev pv n) = j_val n"
  "(node_obj b n)\<lparr>sn_prev := pv\<rparr> = node_obj b (set_prev pv n)"
  by (cases n, simp add: node_obj_def)+

lemma set_val_simps [simp]:
  "j_addr (set_val vs n) = j_addr n" "j_sym (set_val vs n) = j_sym n" "j_type (set_val vs n) = j_type n"
  "j_name (set_val vs n) = j_name n" "j_lvl (set_val vs n) = j_lvl n" "j_flag (set_val vs n) = j_flag n"
  "j_prev (set_val vs n) = j_prev n" "j_val (set_val vs n) = vs"
  by (cases n, simp)+

lemma node_obj_set_val: "(node_obj b n)\<lparr>sn_value := headx 0 vs\<rparr> = node_obj b (set_val vs n)"
  by (simp add: node_obj_def)

section \<open>Appending a node\<close>

lemma append_node:
  assumes h: "holds F (cells 0 [n] @ C @ cells 0 (ms @ [p])) (js_heap s)" and n: "j_val n = []" and p': "p' = j_addr p"
  obtains s1 s2 where "upd_node p' (\<lambda>x. x\<lparr>sn_bros := j_addr n\<rparr>) s = Ret s1"
    "upd_node (j_addr n) (\<lambda>x. x\<lparr>sn_prev := p'\<rparr>) s1 = Ret s2"
    "holds F (C @ cells 0 (ms @ [p, set_prev p' n])) (js_heap s2)" "p' \<noteq> 0"
proof -
  have "mset (cells 0 [n] @ C @ cells 0 (ms @ [p])) = mset ((j_addr p, NodeObj (node_obj 0 p)) #
      (j_sym p, StrObj (j_name p)) # cells 0 (j_val p) @ cells (j_addr p) ms @ cells 0 [n] @ C)" by simp
  from upd_node_perm [OF h this, of "\<lambda>x. x\<lparr>sn_bros := j_addr n\<rparr>"] obtain s1 where
    s1: "upd_node p' (\<lambda>x. x\<lparr>sn_bros := j_addr n\<rparr>) s = Ret s1"
      "holds F ((j_addr p, NodeObj (node_obj (j_addr n) p)) # (j_sym p, StrObj (j_name p)) # cells 0 (j_val p)
        @ cells (j_addr p) ms @ cells 0 [n] @ C) (js_heap s1)" by (simp add: p')
  have "mset ((j_addr p, NodeObj (node_obj (j_addr n) p)) # (j_sym p, StrObj (j_name p)) # cells 0 (j_val p)
        @ cells (j_addr p) ms @ cells 0 [n] @ C) = mset ((j_addr n, NodeObj (node_obj 0 n)) # (j_sym n, StrObj (j_name n)) #
        C @ cells (j_addr p) ms @ cells (j_addr n) [p])" by (simp add: n)
  from upd_node_perm [OF s1(2) this, of "\<lambda>x. x\<lparr>sn_prev := p'\<rparr>"] obtain s2 where
    s2: "upd_node (j_addr n) (\<lambda>x. x\<lparr>sn_prev := p'\<rparr>) s1 = Ret s2"
      "holds F ((j_addr n, NodeObj (node_obj 0 (set_prev p' n))) # (j_sym n, StrObj (j_name n)) #
        C @ cells (j_addr p) ms @ cells (j_addr n) [p]) (js_heap s2)" by simp
  have "holds F (C @ cells 0 (ms @ [p, set_prev p' n])) (js_heap s2)"
    using s2(2) by (subst holds_perm) (auto simp: n ac_simps)
  moreover have "p' \<noteq> 0" using holds_get(2) [OF h, of "j_addr p" "NodeObj (node_obj 0 p)"] by (simp add: p')
  ultimately show thesis using that s1(1) s2(1) by blast
qed

lemma add_open_appends:
  assumes t: "tables (L @ [ns]) tbl" and n: "j_val n = []" "n' = set_prev (last_addr ns) n"
    and h: "holds F (cells 0 [n] @ C @ cells 0 ns) (js_heap s)"
  obtains tbl' s' where "add_open tbl (j_addr n) (int (length L)) s = Ret (True, tbl', s')"
    "tables (L @ [ns @ [n']]) tbl'" "tb_lvl tbl' = tb_lvl tbl" "holds F (C @ cells 0 (ns @ [n'])) (js_heap s')"
proof -
  have "ns \<noteq> []" using t by (auto simp: tables_def)
  then obtain ms p where ns: "ns = ms @ [p]" by (metis rev_exhaust)
  have "holds F (cells 0 ns @ cells 0 [n] @ C) (js_heap s)" using h by (subst holds_perm) (auto simp: ac_simps)
  from headx_not_0 [OF this] have r0: "headx 0 ns \<noteq> 0" by (simp add: ns)
  from append_node [OF h [unfolded ns] n(1) refl] obtain s1 s2 where
    s: "upd_node (j_addr p) (\<lambda>x. x\<lparr>sn_bros := j_addr n\<rparr>) s = Ret s1"
      "upd_node (j_addr n) (\<lambda>x. x\<lparr>sn_prev := j_addr p\<rparr>) s1 = Ret s2"
      and h2: "holds F (C @ cells 0 (ms @ [p, set_prev (j_addr p) n])) (js_heap s2)" by blast
  have "add_open tbl (j_addr n) (int (length L)) s = Ret (True, set_last (int (length L)) (j_addr n) tbl, s2)"
    using tables_get [OF t] r0 s(1,2) by (simp add: add_open_def ns)
  moreover have "tables (L @ [ns @ [n']]) (set_last (int (length L)) (j_addr n) tbl)"
    by (rule tables_set [OF t]) (simp_all add: ns n(2) last_addr_def)
  ultimately show thesis using h2 by (auto intro: that simp: set_last_def ns n(2))
qed

lemma add_open_first:
  assumes t: "tables L tbl" "length L < MAXL" "j_addr n = q"
  obtains tbl' where "add_open tbl q (int (length L)) s = Ret (True, tbl', s)"
    "tables (L @ [[n]]) tbl'" "tb_lvl tbl' = tb_lvl tbl"
  using tables_push [OF t(1,2), of n] t(1,2,3)
  by (auto intro!: that simp: add_open_def tables_def tab_simps set_last_def set_root_def)

section \<open>Closing a level\<close>

lemma add_close_wraps:
  assumes t: "tables (L @ [ns, m # ms]) tbl" and n: "j_val n = []"
    and h: "holds F (cells 0 [n] @ C @ cells 0 ns @ cells 0 (m # ms)) (js_heap s)"
    and w: "w = set_val (set_prev (j_addr n) m # ms) (set_prev (last_addr ns) n)"
  obtains tbl' s' where "add_close tbl (j_addr n) (int (length L)) s = Ret (True, tbl', s')"
    "tables (L @ [ns @ [w]]) tbl'" "tb_lvl tbl' = tb_lvl tbl" "holds F (C @ cells 0 (ns @ [w])) (js_heap s')"
proof -
  have "ns \<noteq> []" using t by (auto simp: tables_def)
  then obtain ks p where ns: "ns = ks @ [p]" by (metis rev_exhaust)
  have t1: "tables ((L @ [ns]) @ [m # ms]) tbl" using t by simp
  have g: "cell_get (tb_last tbl) (int (length L)) = Ret (j_addr p)"
    using t by (simp add: tables_def tab_def cell_get_def nth_append ns)
  have g1: "cell_get (tb_root tbl) (int (length L) + 1) = Ret (j_addr m)"
    using tables_get(1) [OF t1] by (simp add: ac_simps)
  have "holds F (cells 0 [n] @ (C @ cells 0 (m # ms)) @ cells 0 (ks @ [p])) (js_heap s)"
    using h by (subst holds_perm) (auto simp: ns ac_simps)
  from append_node [OF this n refl] obtain s1 s2 where
    s: "upd_node (j_addr p) (\<lambda>x. x\<lparr>sn_bros := j_addr n\<rparr>) s = Ret s1"
      "upd_node (j_addr n) (\<lambda>x. x\<lparr>sn_prev := j_addr p\<rparr>) s1 = Ret s2" "j_addr p \<noteq> 0"
      and h2: "holds F ((C @ cells 0 (m # ms)) @ cells 0 (ks @ [p, set_prev (j_addr p) n])) (js_heap s2)" by blast
  let ?n1 = "set_prev (j_addr p) n" and ?R = "(j_sym n, StrObj (j_name n)) # C @ cells (j_addr n) ns"
  have "mset ((C @ cells 0 (m # ms)) @ cells 0 (ks @ [p, ?n1])) = mset ((j_addr n, NodeObj (node_obj 0 ?n1)) # ?R @ cells 0 (m # ms))"
    by (simp add: ns n)
  note u = upd_node_perm [OF h2 this, of "\<lambda>x. x\<lparr>sn_value := headx 0 (m # ms)\<rparr>", unfolded node_obj_set_val]
  then obtain s3 where s3: "upd_node (j_addr n) (\<lambda>x. x\<lparr>sn_value := j_addr m\<rparr>) s2 = Ret s3"
      "holds F ((j_addr n, NodeObj (node_obj 0 (set_val (m # ms) ?n1))) # ?R @ cells 0 (m # ms)) (js_heap s3)" by auto
  have "mset ((j_addr n, NodeObj (node_obj 0 (set_val (m # ms) ?n1))) # ?R @ cells 0 (m # ms)) =
      mset ((j_addr m, NodeObj (node_obj (headx 0 ms) m)) # (j_addr n, NodeObj (node_obj 0 (set_val (m # ms) ?n1))) # ?R @
        (j_sym m, StrObj (j_name m)) # cells 0 (j_val m) @ cells 0 ms)" by simp
  from upd_node_perm [OF s3(2) this, of "\<lambda>x. x\<lparr>sn_prev := j_addr n\<rparr>"] obtain s4 where
    s4: "upd_node (j_addr m) (\<lambda>x. x\<lparr>sn_prev := j_addr n\<rparr>) s3 = Ret s4"
      "holds F ((j_addr m, NodeObj (node_obj (headx 0 ms) (set_prev (j_addr n) m))) # (j_addr n, NodeObj (node_obj 0 (set_val (m # ms) ?n1))) # ?R @
        (j_sym m, StrObj (j_name m)) # cells 0 (j_val m) @ cells 0 ms) (js_heap s4)" by simp
  have "node_obj 0 (set_val (m # ms) ?n1) = node_obj 0 w" by (simp add: w ns node_obj_def)
  with s4(2) have h4: "holds F (C @ cells 0 (ns @ [w])) (js_heap s4)"
    by (subst holds_perm) (auto simp: ns n w ac_simps)
  let ?t = "set_last (int (length L)) (j_addr n) (set_last (int (length (L @ [ns]))) 0 (set_root (int (length (L @ [ns]))) 0 tbl))"
  have "add_close tbl (j_addr n) (int (length L)) s = Ret (True, ?t, s4)"
    using g g1 s s3(1) s4(1)
    by (simp add: add_close_def Let_def set_last_def set_root_def ac_simps list_update_swap nat_add_distrib)
  moreover have "tables (L @ [ns @ [w]]) ?t"
    by (rule tables_set [OF tables_pop [OF t1]]) (simp_all add: ns n w last_addr_def)
  ultimately show thesis using h4 by (auto intro: that simp: set_last_def set_root_def)
qed

section \<open>Statements\<close>

lemma holds_distinct_keys: "holds F cs h \<Longrightarrow> distinct (map fst cs)" and holds_keys_not_0: "holds F cs h \<Longrightarrow> 0 \<notin> set (map fst cs)"
  by (simp_all add: holds_def)

text \<open>The assignments of the function on the four nodes it changes.\<close>

lemma proc_stmt_runs:
  assumes v: "load_node v s = Ret vn" "sn_type vn \<noteq> SET" "v \<noteq> 0" "v \<noteq> j_addr t"
    and g: "cell_get (tb_root tbl) lvl = Ret v" "cell_get (tb_last tbl) lvl = Ret (j_addr p)"
    and d: "distinct [j_addr b, j_addr t, j_addr p, j_addr n]" "0 \<notin> set [j_addr b, j_addr t, j_addr p, j_addr n]"
    and h: "js_heap s (j_addr b) = Some (NodeObj (node_obj (j_addr t) b))" "js_heap s (j_addr t) = Some (NodeObj (node_obj (j_addr p) t))"
      "js_heap s (j_addr p) = Some (NodeObj (node_obj 0 p))" "js_heap s (j_addr n) = Some (NodeObj (node_obj 0 n))"
    and pv: "j_prev t = j_addr b" "j_prev p = j_addr t" "j_val t = []"
  shows "\<exists>s'. sjson_proc_stmt tbl (j_addr n) lvl s = Ret (j_addr n, set_last lvl (j_addr n) tbl, s')
    \<and> js_heap s' = js_heap s ++ map_of
        [(j_addr b, NodeObj (node_obj (j_addr n) b)),
         (j_addr t, NodeObj (node_obj 0 (set_val [set_prev (j_addr n) p] (set_prev (j_addr n) t)))),
         (j_addr p, NodeObj (node_obj 0 (set_prev (j_addr n) p))),
         (j_addr n, NodeObj (node_obj 0 (set_val [set_val [set_prev (j_addr n) p] (set_prev (j_addr n) t)] (set_prev (j_addr b) n))))]"
  using v g d h pv
  by (auto simp: sjson_proc_stmt_def upd_node_def load_node_def Let_def fun_eq_iff node_obj_def)

lemma add_stmt_block:
  assumes t: "tables (L @ [ns @ [t, p]]) tbl" and n: "j_val n = []" and ns: "ns \<noteq> []" "j_type (hd ns) \<noteq> SET"
    and pv: "j_prev t = last_addr ns" "j_prev p = j_addr t" "j_val t = []"
    and h: "holds F (cells 0 [n] @ C @ cells 0 (ns @ [t, p])) (js_heap s)"
    and w: "w = set_val [set_val [set_prev (j_addr n) p] (set_prev (j_addr n) t)] (set_prev (last_addr ns) n)"
  obtains tbl' s' where "add_stmt tbl (j_addr n) (int (length L)) s = Ret (True, tbl', s')"
    "tables (L @ [ns @ [w]]) tbl'" "tb_lvl tbl' = tb_lvl tbl" "holds F (C @ cells 0 (ns @ [w])) (js_heap s')"
proof -
  from ns(1) obtain ks b where ks: "ns = ks @ [b]" by (metis rev_exhaust)
  let ?xs = "[(j_addr b, NodeObj (node_obj (j_addr t) b)), (j_addr t, NodeObj (node_obj (j_addr p) t)),
      (j_addr p, NodeObj (node_obj 0 p)), (j_addr n, NodeObj (node_obj 0 n))]"
  let ?rs = "C @ cells (j_addr b) ks @ (j_sym b, StrObj (j_name b)) # cells 0 (j_val b) @ (j_sym t, StrObj (j_name t)) #
      (j_sym p, StrObj (j_name p)) # cells 0 (j_val p) @ [(j_sym n, StrObj (j_name n))]"
  have h1: "holds F (?xs @ ?rs) (js_heap s)"
    using h by (subst holds_perm) (auto simp: ks n pv(3) ac_simps)
  note d = holds_distinct_keys [OF h1] holds_keys_not_0 [OF h1]
  have hd: "hd ns \<in> set ns" "headx 0 (ns @ [t, p]) = j_addr (hd ns)" using ns(1) by (cases ns, simp_all)+
  have "\<exists>c. (j_addr (hd ns), NodeObj (node_obj c (hd ns))) \<in> set (cells 0 (ns @ [t, p]))"
    using ns(1) by (cases ns) auto
  then obtain c where c: "(j_addr (hd ns), NodeObj (node_obj c (hd ns))) \<in> set (cells 0 [n] @ C @ cells 0 (ns @ [t, p]))" by auto
  have ht: "j_addr (hd ns) \<noteq> j_addr t" using d(1) by (cases ks) (auto simp: ks)
  have d4: "distinct [j_addr b, j_addr t, j_addr p, j_addr n]" "0 \<notin> set [j_addr b, j_addr t, j_addr p, j_addr n]"
    using d by simp_all
  have h4: "js_heap s (j_addr b) = Some (NodeObj (node_obj (j_addr t) b))" "js_heap s (j_addr t) = Some (NodeObj (node_obj (j_addr p) t))"
      "js_heap s (j_addr p) = Some (NodeObj (node_obj 0 p))" "js_heap s (j_addr n) = Some (NodeObj (node_obj 0 n))"
    by (rule holds_get(1) [OF h1], simp)+
  have g: "cell_get (tb_root tbl) (int (length L)) = Ret (j_addr (hd ns))" "cell_get (tb_last tbl) (int (length L)) = Ret (j_addr p)"
    "sn_type (node_obj c (hd ns)) \<noteq> SET" "j_prev t = j_addr b"
    using tables_get [OF t] hd(2) ns(2) pv(1) by (simp_all add: last_addr_def ks)
  from proc_stmt_runs [OF load_node_cell [OF h c] g(3) holds_get(2) [OF h c] ht g(1,2) d4 h4 g(4) pv(2,3)]
  obtain s' where s': "sjson_proc_stmt tbl (j_addr n) (int (length L)) s = Ret (j_addr n, set_last (int (length L)) (j_addr n) tbl, s')"
    and e: "js_heap s' = js_heap s ++ map_of
        [(j_addr b, NodeObj (node_obj (j_addr n) b)),
         (j_addr t, NodeObj (node_obj 0 (set_val [set_prev (j_addr n) p] (set_prev (j_addr n) t)))),
         (j_addr p, NodeObj (node_obj 0 (set_prev (j_addr n) p))), (j_addr n, NodeObj (node_obj 0 w))]"
    unfolding w ks last_addr_simps by blast
  have "holds F (C @ cells 0 (ns @ [w])) (js_heap s')"
    unfolding e by (rule iffD1 [OF holds_perm holds_replace [OF h1]]) (simp_all add: ks w pv n ac_simps)
  moreover have "tables (L @ [ns @ [w]]) (set_last (int (length L)) (j_addr n) tbl)"
    by (rule tables_set [OF t]) (simp_all add: ks w)
  moreover have "load_node (j_addr p) s = Ret (node_obj 0 p)" by (rule load_node_cell [OF h1]) simp
  ultimately show thesis
    using tables_get(2) [OF t] s' d(2) pv that by (simp add: add_stmt_def last_addr_def set_last_def)
qed

lemma add_stmt_set:
  assumes t: "tables (L @ [ns @ [p]]) tbl" and n: "j_val n = []" and ns: "ns \<noteq> []" "j_type (hd ns) = SET" and pv: "j_prev p \<noteq> 0"
    and h: "holds F (cells 0 [n] @ C @ cells 0 (ns @ [p])) (js_heap s)"
  obtains s' where "add_stmt tbl (j_addr n) (int (length L)) s = Ret (True, tbl, s')"
    "tables (L @ [ns @ [set_prev (headx 0 ns) p]]) tbl" "holds F (C @ cells 0 (ns @ [set_prev (headx 0 ns) p])) (js_heap s')"
proof -
  have hd: "headx 0 (ns @ [p]) = j_addr (hd ns)" "headx 0 ns = j_addr (hd ns)" using ns(1) by (cases ns, simp_all)+
  have "\<exists>c. (j_addr (hd ns), NodeObj (node_obj c (hd ns))) \<in> set (cells 0 (ns @ [p]))"
    using ns(1) by (cases ns) auto
  then obtain c where c: "(j_addr (hd ns), NodeObj (node_obj c (hd ns))) \<in> set (cells 0 [n] @ C @ cells 0 (ns @ [p]))" by auto
  have "load_node (j_addr p) s = Ret (node_obj 0 p)" "j_addr p \<noteq> 0"
    using load_node_cell [OF h, of "j_addr p" "node_obj 0 p"] holds_get(2) [OF h, of "j_addr p" "NodeObj (node_obj 0 p)"] by simp_all
  moreover have "holds F ((j_addr n, NodeObj (node_obj 0 n)) # (sn_symbol (node_obj 0 n), StrObj (j_name n)) # C @ cells 0 (ns @ [p])) (js_heap s)"
    using h by (simp add: n)
  from free_node_cells [OF this] obtain s1 where s1: "sjson_free_node (j_addr n) s = Ret s1" "holds F (C @ cells 0 (ns @ [p])) (js_heap s1)"
    by blast
  have "mset (C @ cells 0 (ns @ [p])) = mset ((j_addr p, NodeObj (node_obj 0 p)) # C @ cells (j_addr p) ns @ (j_sym p, StrObj (j_name p)) # cells 0 (j_val p))"
    by simp
  from upd_node_perm [OF s1(2) this, of "\<lambda>n. n\<lparr>sn_prev := headx 0 ns\<rparr>"] obtain s2 where
    s2: "upd_node (j_addr p) (\<lambda>n. n\<lparr>sn_prev := headx 0 ns\<rparr>) s1 = Ret s2"
      "holds F ((j_addr p, NodeObj (node_obj 0 (set_prev (headx 0 ns) p))) # C @ cells (j_addr p) ns @ (j_sym p, StrObj (j_name p)) # cells 0 (j_val p)) (js_heap s2)"
    by simp
  have "holds F (C @ cells 0 (ns @ [set_prev (headx 0 ns) p])) (js_heap s2)"
    using s2(2) by (subst holds_perm) (auto simp: ac_simps)
  moreover have "tables (L @ [ns @ [set_prev (headx 0 ns) p]]) tbl" by (rule tables_same [OF t]) simp_all
  ultimately show thesis
    using tables_get [OF t] holds_get(2) [OF h c] load_node_cell [OF h c] hd ns(2) s1(1) s2(1) pv that
    by (simp add: add_stmt_def sjson_proc_stmt_def)
qed

text \<open>On a level with nothing but its first node the new node is left behind.\<close>

lemma add_stmt_empty:
  assumes t: "tables (L @ [[p]]) tbl" and pv: "j_prev p = 0" and h: "holds F (C @ cells 0 [p]) (js_heap s)"
  shows "add_stmt tbl q (int (length L)) s = Ret (False, tbl, s)"
proof -
  have "load_node (j_addr p) s = Ret (node_obj 0 p)" by (rule load_node_cell [OF h]) simp
  then show ?thesis using tables_get(2) [OF t] pv by (simp add: add_stmt_def last_addr_def)
qed

section \<open>Commas\<close>

text \<open>The node a comma is noted at is the last one on the way down the first values.\<close>

fun deepest :: "jnode \<Rightarrow> addr" where
  "deepest (JNode a y ty nm l f pv []) = a"
| "deepest (JNode a y ty nm l f pv (v # vs)) = deepest v"

fun tag :: "jnode \<Rightarrow> jnode" where
  "tag (JNode a y ty nm l f pv []) = JNode a y ty nm l (f OR F_COMMA) pv []"
| "tag (JNode a y ty nm l f pv (v # vs)) = JNode a y ty nm l f pv (tag v # vs)"

lemma tag_simps [simp]: "j_addr (tag n) = j_addr n" "j_sym (tag n) = j_sym n" "j_type (tag n) = j_type n"
  "j_name (tag n) = j_name n" "j_lvl (tag n) = j_lvl n" "j_prev (tag n) = j_prev n"
  by (cases n rule: tag.cases, simp_all)+

lemma tag_val: "j_val (tag n) = (case j_val n of [] \<Rightarrow> [] | v # vs \<Rightarrow> tag v # vs)"
  "j_flag (tag n) = (if j_val n = [] then j_flag n OR F_COMMA else j_flag n)"
  by (cases n rule: tag.cases, simp_all)+

lemma jsize_tag [simp]: "jsize (tag n # ns) = jsize (n # ns)"
  by (induction n arbitrary: ns rule: tag.induct) auto

lemma comma_loop:
  assumes "holds F cs (js_heap s)"
  shows "set (cells e (n # ns)) \<subseteq> set cs \<Longrightarrow>
    while_o (\<lambda>(q, v). v \<noteq> 0) (\<lambda>(q, v). obind (load_node v s) (\<lambda>n. Ret (v, sn_value n))) (j_addr n, headx 0 (j_val n)) = Ret (deepest n, 0)"
proof (induction n arbitrary: e ns rule: deepest.induct)
  case (2 a y ty nm l f pv v vs)
  have c: "(j_addr v, NodeObj (node_obj (headx 0 vs) v)) \<in> set cs" "set (cells 0 (v # vs)) \<subseteq> set cs" using "2.prems" by auto
  from "2.IH" [OF c(2)] load_node_cell [OF assms c(1)] holds_get(2) [OF assms c(1)] show ?case
    by (simp add: while_o_step)
qed simp

lemma comma_node_deepest:
  assumes "holds F cs (js_heap s)" "set (cells e (n # ns)) \<subseteq> set cs"
  shows "comma_node (j_addr n) s = Ret (deepest n)"
  using comma_loop [OF assms] load_node_cell [OF assms(1), of "j_addr n" "node_obj (headx e ns) n"] assms(2)
  by (simp add: comma_node_def)

lemma tag_cells:
  "\<exists>m rs. mset (cells e (n # ns)) = mset ((deepest n, NodeObj m) # rs)
     \<and> mset (cells e (tag n # ns)) = mset ((deepest n, NodeObj (m\<lparr>sn_flag := sn_flag m OR F_COMMA\<rparr>)) # rs)"
proof (induction n arbitrary: e ns rule: tag.induct)
  case (1 a y ty nm l f pv)
  let ?m = "node_obj (headx e ns) (JNode a y ty nm l f pv [])"
  show ?case by (intro exI [of _ ?m] exI [of _ "(y, StrObj nm) # cells e ns"]) (simp add: node_obj_def)
next
  case (2 a y ty nm l f pv v vs)
  from "2.IH" [of 0 vs] obtain m rs where
    "mset (cells 0 (v # vs)) = mset ((deepest v, NodeObj m) # rs)"
    "mset (cells 0 (tag v # vs)) = mset ((deepest v, NodeObj (m\<lparr>sn_flag := sn_flag m OR F_COMMA\<rparr>)) # rs)" by blast
  note IH = this
  let ?X = "NodeObj (node_obj (headx e ns) (JNode a y ty nm l f pv (v # vs)))"
  have e: "cells e (JNode a y ty nm l f pv (v # vs) # ns) = (a, ?X) # (y, StrObj nm) # cells 0 (v # vs) @ cells e ns"
    "cells e (tag (JNode a y ty nm l f pv (v # vs)) # ns) = (a, ?X) # (y, StrObj nm) # cells 0 (tag v # vs) @ cells e ns"
    by (simp_all add: node_obj_def)
  show ?case unfolding e deepest.simps
    by (intro exI [of _ m] exI [of _ "(a, ?X) # (y, StrObj nm) # rs @ cells e ns"]) (simp add: IH del: cells.simps)
qed

lemma tag_head:
  assumes "holds F (C @ cells e (n # ns)) (js_heap s)"
  obtains s' where "obind (comma_node (j_addr n) s) (\<lambda>q. upd_node q (\<lambda>n. n\<lparr>sn_flag := sn_flag n OR F_COMMA\<rparr>) s) = Ret s'"
    "holds F (C @ cells e (tag n # ns)) (js_heap s')"
proof -
  from tag_cells [of e n ns] obtain m rs where m: "mset (cells e (n # ns)) = mset ((deepest n, NodeObj m) # rs)"
     "mset (cells e (tag n # ns)) = mset ((deepest n, NodeObj (m\<lparr>sn_flag := sn_flag m OR F_COMMA\<rparr>)) # rs)" by blast
  have "mset (C @ cells e (n # ns)) = mset ((deepest n, NodeObj m) # C @ rs)" using m(1) by simp
  note u = upd_node_perm [OF assms this, of "\<lambda>n. n\<lparr>sn_flag := sn_flag n OR F_COMMA\<rparr>"]
  have "mset ((deepest n, NodeObj (m\<lparr>sn_flag := sn_flag m OR F_COMMA\<rparr>)) # C @ rs) = mset (C @ cells e (tag n # ns))"
    using m(2) by simp
  moreover have "set (cells e (n # ns)) \<subseteq> set (C @ cells e (n # ns))" by auto
  ultimately show thesis
    using iffD1 [OF holds_perm u(2)] u(1) comma_node_deepest [OF assms, of e n ns]
    by (intro that [of "jput (deepest n) (NodeObj (m\<lparr>sn_flag := sn_flag m OR F_COMMA\<rparr>)) s"]) simp_all
qed

definition noted :: "jnode \<Rightarrow> jnode" where
  "noted p = (if j_val p = [] then p else tag p)"

lemma noted_simps [simp]: "j_addr (noted p) = j_addr p" "j_prev (noted p) = j_prev p" "j_type (noted p) = j_type p"
  "jsize (noted p # ns) = jsize (p # ns)"
  by (simp_all add: noted_def del: jsize.simps)

lemma add_comma_notes:
  assumes t: "tables (L @ [ns @ [p]]) tbl"
    and h: "holds F ((q, NodeObj m) # C @ cells 0 (ns @ [p])) (js_heap s)" and m: "sn_symbol m = 0"
  obtains s' where "add_comma tbl q (int (length L)) s = Ret (True, tbl, s')"
    "tables (L @ [ns @ [noted p]]) tbl" "holds F (C @ cells 0 (ns @ [noted p])) (js_heap s')"
proof -
  have "\<exists>s1. (if j_val p = [] then Ret s else obind (comma_node (headx 0 (j_val p)) s) (\<lambda>q.
                 upd_node q (\<lambda>n. n\<lparr>sn_flag := sn_flag n OR F_COMMA\<rparr>) s)) = Ret s1
      \<and> holds F ((q, NodeObj m) # C @ cells 0 (ns @ [noted p])) (js_heap s1)"
  proof (cases "j_val p")
    case (Cons v vs)
    let ?C = "(q, NodeObj m) # C @ cells (j_addr p) ns @ [(j_addr p, NodeObj (node_obj 0 p)), (j_sym p, StrObj (j_name p))]"
    have "holds F (?C @ cells 0 (v # vs)) (js_heap s)" using h by (simp add: Cons)
    from tag_head [OF this] obtain s1 where s1:
      "obind (comma_node (j_addr v) s) (\<lambda>q. upd_node q (\<lambda>n. n\<lparr>sn_flag := sn_flag n OR F_COMMA\<rparr>) s) = Ret s1"
      "holds F (?C @ cells 0 (tag v # vs)) (js_heap s1)" by blast
    have "node_obj 0 (tag p) = node_obj 0 p" by (simp add: node_obj_def tag_val Cons)
    note e = this
    show ?thesis using s1 by (simp add: noted_def tag_val Cons e)
  qed (use h in \<open>simp add: noted_def\<close>)
  then obtain s1 where s1: "(if j_val p = [] then Ret s else obind (comma_node (headx 0 (j_val p)) s) (\<lambda>q.
                 upd_node q (\<lambda>n. n\<lparr>sn_flag := sn_flag n OR F_COMMA\<rparr>) s)) = Ret s1"
    and h1: "holds F ((q, NodeObj m) # C @ cells 0 (ns @ [noted p])) (js_heap s1)" by blast
  have v0: "headx 0 (j_val p) = 0 \<longleftrightarrow> j_val p = []"
    using h by (cases "j_val p") (auto simp: holds_def)
  have q: "load_node q s1 = Ret m" "q \<noteq> 0" "js_heap s1 q = Some (NodeObj m)"
    using load_node_cell [OF h1, of q m] holds_get(1,2) [OF h1, of q "NodeObj m"] by simp_all
  have p: "load_node (j_addr p) s = Ret (node_obj 0 p)" "j_addr p \<noteq> 0"
    using load_node_cell [OF h, of "j_addr p" "node_obj 0 p"] holds_get(2) [OF h, of "j_addr p" "NodeObj (node_obj 0 p)"] by simp_all
  have "tables (L @ [ns @ [noted p]]) tbl" by (rule tables_same [OF t]) simp_all
  then show thesis
    using tables_get(2) [OF t] p q s1 v0 m holds_del [OF h1] that
    by (auto simp: add_comma_def sjson_free_node_def jos_free_def split: if_splits)
qed

end
