(* ===== verification/Json_Steps.thy ===== *)
theory Json_Steps
  imports Json_Parse_Laws
begin

text \<open>
  The calls of the parser on its levels. \<open>prep F K L P\<close> says that the
  store of the parser holds the chains \<open>L\<close> of the open levels, blocks \<open>K\<close> nobody refers to any more, and
  what was there before (\<open>F\<close>).
\<close>

section \<open>The state of the parser\<close>

definition prep :: "jheap \<Rightarrow> jcells \<Rightarrow> jnode list list \<Rightarrow> parser \<Rightarrow> bool" where
  "prep F K L = (\<lambda>(V, tbl, s). tables L tbl \<and> tb_lvl tbl = pv_top V \<and> pv_top V = int (length L) - 1
     \<and> holds F (K @ concat (map (cells 0) L)) (js_heap s))"

definition used :: "jheap \<Rightarrow> jcells \<Rightarrow> jnode list list \<Rightarrow> nat" where
  "used F K L = card (dom F) + length K + 2 * sum_list (map jsize L)"

lemma length_concat_cells [simp]: "length (concat (map (cells 0) L)) = 2 * sum_list (map jsize L)"
  by (induction L) auto

lemma pv_step_top [simp]: "pv_top (pv_step ty k V) = pv_top V"
  by (simp add: pv_step_def)

text \<open>The allocations of a named node, and what is left of \<open>__sjson_add_node\<close> then.\<close>

lemma new_named_runs:
  assumes "json_env_ok cap E" "finite (dom F)" "holds F C (js_heap s)" "card (dom F) + length C + 2 \<le> cap"
    and l: "pv_top V = int l" "l < MAXL"
  obtains q y x s2 k where "new_named E ty (V, tbl, s) = obind (add_kind ty tbl q (int l) s2)
      (\<lambda>(go, tbl, s). Ret (pv_step ty k V, if go then tbl\<lparr>tb_lvl := int l\<rparr> else tbl, s))"
    "holds F (cells 0 [JNode q y ty x (int l) 0 0 []] @ C) (js_heap s2)"
proof -
  let ?x = "snm_text ty (pv_num ty V)"
  have "card (dom F) + length C + 1 < cap" using assms(4) by simp
  then obtain y s1 q s2 where
    n: "jos_strdup E ?x s = Ret (y, s1)" "y \<noteq> 0" "sjson_new_node E ty (int l) y s1 = Ret (q, s2)" "q \<noteq> 0"
      "holds F ((q, NodeObj (node_obj 0 (JNode q y ty ?x (int l) 0 0 []))) # (y, StrObj ?x) # C) (js_heap s2)"
    by (rule new_named_node [OF assms(1,3,2)])
  have "new_named E ty (V, tbl, s) = obind (add_kind ty tbl q (int l) s2)
      (\<lambda>(go, tbl, s). Ret (pv_step ty (pv_num ty V + 1) V, if go then tbl\<lparr>tb_lvl := int l\<rparr> else tbl, s))"
    using n(1,3,4) l
    by (cases "add_kind ty tbl q (int l) s2")
      (simp_all add: new_named_def sjson_snm_def sjson_add_node_def split: prod.splits)
  then show thesis using n(5) by (intro that [of q s2 _ y ?x]) simp_all
qed

section \<open>The steps of the parser\<close>

lemma prep_snoc:
  "prep F K (L @ [ns]) (V, tbl, s) \<longleftrightarrow> tables (L @ [ns]) tbl \<and> tb_lvl tbl = int (length L) \<and> pv_top V = int (length L)
     \<and> holds F ((K @ concat (map (cells 0) L)) @ cells 0 ns) (js_heap s)"
  by (auto simp: prep_def)

lemma tables_lvl [simp]: "tables L (tbl\<lparr>tb_lvl := l\<rparr>) \<longleftrightarrow> tables L tbl"
  by (simp add: tables_def)

lemma tables_short: "tables (L @ [ns]) tbl \<Longrightarrow> length L < MAXL"
  by (simp add: tables_def)

definition fresh_as :: "jnode \<Rightarrow> u32 \<Rightarrow> int \<Rightarrow> addr \<Rightarrow> bool" where
  "fresh_as n ty l pv \<longleftrightarrow> j_type n = ty \<and> j_lvl n = l \<and> j_flag n = 0 \<and> j_prev n = pv \<and> j_val n = []"

lemma open_step:
  assumes env: "json_env_ok cap E" "finite (dom F)" and p: "prep F K L P" and l: "length L < MAXL"
    and u: "used F K L + 2 \<le> cap" and ty: "ty = BLOCK \<or> ty = SET"
  obtains P' b where "open_level E ty P = Ret P'" "prep F K (L @ [[b]]) P'" "fresh_as b ty (int (length L)) 0"
proof -
  obtain V tbl s where P: "P = (V, tbl, s)" by (cases P)
  let ?V = "V\<lparr>pv_top := int (length L)\<rparr>" and ?C = "K @ concat (map (cells 0) L)"
  have t: "tables L tbl" "tb_lvl tbl = int (length L) - 1" "pv_top V = int (length L) - 1" and h: "holds F ?C (js_heap s)"
    using p by (simp_all add: prep_def P)
  have push: "push_state V = Ret ?V" using t(3) l by (simp add: push_state_def STATEDEPTH_def MAXL_def)
  have "card (dom F) + length ?C + 2 \<le> cap" using u by (simp add: used_def)
  then obtain q y x s2 k where
    n: "new_named E ty (?V, tbl, s) = obind (add_kind ty tbl q (int (length L)) s2)
      (\<lambda>(go, tbl, s). Ret (pv_step ty k ?V, if go then tbl\<lparr>tb_lvl := int (length L)\<rparr> else tbl, s))"
      "holds F (cells 0 [JNode q y ty x (int (length L)) 0 0 []] @ ?C) (js_heap s2)"
    by (rule new_named_runs [OF env h, where V = ?V and l = "length L"]) (simp_all add: l)
  let ?b = "JNode q y ty x (int (length L)) 0 0 []"
  from add_open_first [OF t(1) l, of ?b q] obtain tbl' where
    a: "add_open tbl q (int (length L)) s2 = Ret (True, tbl', s2)" "tables (L @ [[?b]]) tbl'" by auto
  have "add_kind ty tbl q (int (length L)) s2 = Ret (True, tbl', s2)"
    using a(1) ty t(2) by (auto simp: add_kind_def)
  then have "open_level E ty P = Ret (pv_step ty k ?V, tbl'\<lparr>tb_lvl := int (length L)\<rparr>, s2)"
    using n(1) push by (simp add: open_level_def P)
  moreover have "holds F (?C @ cells 0 [?b]) (js_heap s2)" using n(2) by (subst holds_perm) (auto simp: ac_simps)
  ultimately show thesis using a(2) by (intro that [of "(pv_step ty k ?V, tbl'\<lparr>tb_lvl := int (length L)\<rparr>, s2)" ?b]) (simp_all add: prep_snoc fresh_as_def)
qed

lemma token_step:
  assumes env: "json_env_ok cap E" "finite (dom F)" and p: "prep F K (L @ [ns]) P"
    and u: "used F K (L @ [ns]) + 2 \<le> cap"
  obtains P' n where "new_token E w P = Ret P'" "prep F K (L @ [ns @ [n]]) P'"
    "fresh_as n TOKEN (int (length L)) (last_addr ns)" "j_name n = w"
proof -
  obtain V tbl s where P: "P = (V, tbl, s)" by (cases P)
  let ?C = "K @ concat (map (cells 0) L)"
  have t: "tables (L @ [ns]) tbl" "tb_lvl tbl = int (length L)" "pv_top V = int (length L)"
    and h: "holds F (?C @ cells 0 ns) (js_heap s)" using p by (simp_all add: prep_snoc P)
  have "card (dom F) + length (?C @ cells 0 ns) + 1 < cap" using u by (simp add: used_def)
  then obtain y s1 q s2 where
    n: "jos_strdup E w s = Ret (y, s1)" "y \<noteq> 0" "sjson_new_node E TOKEN (int (length L)) y s1 = Ret (q, s2)" "q \<noteq> 0"
      "holds F ((q, NodeObj (node_obj 0 (JNode q y TOKEN w (int (length L)) 0 0 []))) # (y, StrObj w) # ?C @ cells 0 ns) (js_heap s2)"
    by (rule new_named_node [OF env(1) h env(2)])
  let ?n = "JNode q y TOKEN w (int (length L)) 0 0 []"
  have "holds F (cells 0 [?n] @ ?C @ cells 0 ns) (js_heap s2)" "j_val ?n = []" using n(5) by simp_all
  then obtain tbl' s' where
    a: "add_open tbl (j_addr ?n) (int (length L)) s2 = Ret (True, tbl', s')" "tables (L @ [ns @ [set_prev (last_addr ns) ?n]]) tbl'"
      "tb_lvl tbl' = tb_lvl tbl" "holds F (?C @ cells 0 (ns @ [set_prev (last_addr ns) ?n])) (js_heap s')"
    using add_open_appends [OF t(1) _ refl] by blast
  have "add_kind TOKEN tbl q (int (length L)) s2 = Ret (True, tbl', s')"
    using a(1) by (simp add: add_kind_def node_types)
  then have "new_token E w P = Ret (V, tbl'\<lparr>tb_lvl := int (length L)\<rparr>, s')"
    using n(1,3,4) t(3) tables_short [OF t(1)] by (simp add: new_token_def sjson_add_node_def P)
  then show thesis using a(2,4) t(3)
    by (intro that [of "(V, tbl'\<lparr>tb_lvl := int (length L)\<rparr>, s')" "set_prev (last_addr ns) ?n"]) (simp_all add: prep_snoc fresh_as_def)
qed

text \<open>The node for a statement, in the three situations.\<close>

lemma stmt_node:
  assumes env: "json_env_ok cap E" "finite (dom F)" and p: "prep F K (L @ [ns]) (V, tbl, s)"
    and u: "used F K (L @ [ns]) + 2 \<le> cap"
  obtains q y x s2 k where "new_named E STMT (V, tbl, s) = obind (add_stmt tbl q (int (length L)) s2)
      (\<lambda>(go, tbl, s). Ret (pv_step STMT k V, if go then tbl\<lparr>tb_lvl := int (length L)\<rparr> else tbl, s))"
    "holds F (cells 0 [JNode q y STMT x (int (length L)) 0 0 []] @ (K @ concat (map (cells 0) L)) @ cells 0 ns) (js_heap s2)"
proof -
  let ?C = "(K @ concat (map (cells 0) L)) @ cells 0 ns"
  have t: "tables (L @ [ns]) tbl" "pv_top V = int (length L)" and h: "holds F ?C (js_heap s)"
    using p by (simp_all add: prep_snoc)
  have k: "add_kind STMT = add_stmt" by (simp add: add_kind_def fun_eq_iff node_types)
  have "card (dom F) + length ?C + 2 \<le> cap" using u by (simp add: used_def)
  then obtain q y x s2 k where "new_named E STMT (V, tbl, s) = obind (add_kind STMT tbl q (int (length L)) s2)
      (\<lambda>(go, tbl, s). Ret (pv_step STMT k V, if go then tbl\<lparr>tb_lvl := int (length L)\<rparr> else tbl, s))"
    "holds F (cells 0 [JNode q y STMT x (int (length L)) 0 0 []] @ ?C) (js_heap s2)"
    by (rule new_named_runs [OF env h _ t(2) tables_short [OF t(1)]])
  then show thesis unfolding k by (rule that)
qed

lemma stmt_block_step:
  assumes env: "json_env_ok cap E" "finite (dom F)" and p: "prep F K (L @ [ns @ [t, v]]) P"
    and u: "used F K (L @ [ns @ [t, v]]) + 2 \<le> cap"
    and ns: "ns \<noteq> []" "j_type (hd ns) \<noteq> SET" and pv: "j_prev t = last_addr ns" "j_prev v = j_addr t" "j_val t = []"
  obtains P' n where "new_named E STMT P = Ret P'"
    "prep F K (L @ [ns @ [set_val [set_val [set_prev (j_addr n) v] (set_prev (j_addr n) t)] n]]) P'"
    "fresh_as n STMT (int (length L)) (last_addr ns)"
proof -
  obtain V tbl s where P: "P = (V, tbl, s)" by (cases P)
  let ?C = "K @ concat (map (cells 0) L)"
  have tb: "tables (L @ [ns @ [t, v]]) tbl" "pv_top V = int (length L)" using p by (simp_all add: prep_snoc P)
  obtain q y x s2 k where
    n: "new_named E STMT (V, tbl, s) = obind (add_stmt tbl q (int (length L)) s2)
      (\<lambda>(go, tbl, s). Ret (pv_step STMT k V, if go then tbl\<lparr>tb_lvl := int (length L)\<rparr> else tbl, s))"
    "holds F (cells 0 [JNode q y STMT x (int (length L)) 0 0 []] @ ?C @ cells 0 (ns @ [t, v])) (js_heap s2)"
    by (rule stmt_node [OF env p [unfolded P] u])
  let ?n = "JNode q y STMT x (int (length L)) 0 0 []"
  let ?w = "set_val [set_val [set_prev (j_addr ?n) v] (set_prev (j_addr ?n) t)] (set_prev (last_addr ns) ?n)"
  have "j_val ?n = []" by simp
  then obtain tbl' s' where a: "add_stmt tbl (j_addr ?n) (int (length L)) s2 = Ret (True, tbl', s')"
    "tables (L @ [ns @ [?w]]) tbl'" "tb_lvl tbl' = tb_lvl tbl" "holds F (?C @ cells 0 (ns @ [?w])) (js_heap s')"
    by (rule add_stmt_block [OF tb(1) _ ns pv n(2) refl])
  show thesis using a n(1) tb(2)
    by (intro that [of "(pv_step STMT k V, tbl'\<lparr>tb_lvl := int (length L)\<rparr>, s')" "set_prev (last_addr ns) ?n"])
      (simp_all add: P prep_snoc fresh_as_def)
qed

lemma stmt_set_step:
  assumes env: "json_env_ok cap E" "finite (dom F)" and p: "prep F K (L @ [ns @ [v]]) P"
    and u: "used F K (L @ [ns @ [v]]) + 2 \<le> cap" and ns: "ns \<noteq> []" "j_type (hd ns) = SET" and pv: "j_prev v \<noteq> 0"
  obtains P' where "new_named E STMT P = Ret P'" "prep F K (L @ [ns @ [set_prev (headx 0 ns) v]]) P'"
proof -
  obtain V tbl s where P: "P = (V, tbl, s)" by (cases P)
  have tb: "tables (L @ [ns @ [v]]) tbl" "pv_top V = int (length L)" using p by (simp_all add: prep_snoc P)
  obtain q y x s2 k where
    n: "new_named E STMT (V, tbl, s) = obind (add_stmt tbl q (int (length L)) s2)
      (\<lambda>(go, tbl, s). Ret (pv_step STMT k V, if go then tbl\<lparr>tb_lvl := int (length L)\<rparr> else tbl, s))"
    "holds F (cells 0 [JNode q y STMT x (int (length L)) 0 0 []] @ (K @ concat (map (cells 0) L)) @ cells 0 (ns @ [v])) (js_heap s2)"
    by (rule stmt_node [OF env p [unfolded P] u])
  let ?n = "JNode q y STMT x (int (length L)) 0 0 []"
  have "j_val ?n = []" by simp
  then obtain s' where a: "add_stmt tbl (j_addr ?n) (int (length L)) s2 = Ret (True, tbl, s')"
    "tables (L @ [ns @ [set_prev (headx 0 ns) v]]) tbl"
    "holds F ((K @ concat (map (cells 0) L)) @ cells 0 (ns @ [set_prev (headx 0 ns) v])) (js_heap s')"
    by (rule add_stmt_set [OF tb(1) _ ns pv n(2)])
  show thesis using a n(1) tb(2)
    by (intro that [of "(pv_step STMT k V, tbl\<lparr>tb_lvl := int (length L)\<rparr>, s')"]) (simp_all add: P prep_snoc)
qed

lemma stmt_empty_step:
  assumes env: "json_env_ok cap E" "finite (dom F)" and p: "prep F K (L @ [[b]]) P"
    and u: "used F K (L @ [[b]]) + 2 \<le> cap" and pv: "j_prev b = 0"
  obtains P' K' where "new_named E STMT P = Ret P'" "prep F (K' @ K) (L @ [[b]]) P'" "length K' = 2"
proof -
  obtain V tbl s where P: "P = (V, tbl, s)" by (cases P)
  let ?C = "K @ concat (map (cells 0) L)"
  have tb: "tables (L @ [[b]]) tbl" "tb_lvl tbl = int (length L)" "pv_top V = int (length L)" using p by (simp_all add: prep_snoc P)
  obtain q y x s2 k where
    n: "new_named E STMT (V, tbl, s) = obind (add_stmt tbl q (int (length L)) s2)
      (\<lambda>(go, tbl, s). Ret (pv_step STMT k V, if go then tbl\<lparr>tb_lvl := int (length L)\<rparr> else tbl, s))"
    "holds F (cells 0 [JNode q y STMT x (int (length L)) 0 0 []] @ ?C @ cells 0 [b]) (js_heap s2)"
    by (rule stmt_node [OF env p [unfolded P] u])
  let ?n = "JNode q y STMT x (int (length L)) 0 0 []"
  have "holds F ((cells 0 [?n] @ ?C) @ cells 0 [b]) (js_heap s2)" using n(2) by simp
  from add_stmt_empty [OF tb(1) pv this] n tb show thesis
    by (intro that [of "(pv_step STMT k V, tbl, s2)" "cells 0 [?n]"]) (simp_all add: P prep_snoc)
qed

lemma comma_step:
  assumes env: "json_env_ok cap E" "finite (dom F)" and p: "prep F K (L @ [ns @ [v]]) P"
    and u: "used F K (L @ [ns @ [v]]) + 1 \<le> cap"
  obtains P' where "new_comma E P = Ret P'" "prep F K (L @ [ns @ [noted v]]) P'"
proof -
  obtain V tbl s where P: "P = (V, tbl, s)" by (cases P)
  let ?C = "K @ concat (map (cells 0) L)"
  have t: "tables (L @ [ns @ [v]]) tbl" "pv_top V = int (length L)" and h: "holds F (?C @ cells 0 (ns @ [v])) (js_heap s)"
    using p by (simp_all add: prep_snoc P)
  have "card (dom F) + length (?C @ cells 0 (ns @ [v])) < cap" using u by (simp add: used_def)
  then obtain q s1 where n: "sjson_new_node E COMMA (int (length L)) 0 s = Ret (q, s1)" "q \<noteq> 0"
    "holds F ((q, NodeObj \<lparr>sn_type = COMMA, sn_symbol = 0, sn_lvl = int (length L), sn_flag = 0, sn_value = 0, sn_bros = 0, sn_prev = 0\<rparr>)
       # ?C @ cells 0 (ns @ [v])) (js_heap s1)"
    by (rule sjson_new_node_cell [OF env(1) h env(2)])
  obtain s' where a: "add_comma tbl q (int (length L)) s1 = Ret (True, tbl, s')" "tables (L @ [ns @ [noted v]]) tbl"
    "holds F (?C @ cells 0 (ns @ [noted v])) (js_heap s')"
    by (rule add_comma_notes [OF t(1) n(3)]) simp_all
  have "add_kind COMMA tbl q (int (length L)) s1 = Ret (True, tbl, s')" using a(1) by (simp add: add_kind_def node_types)
  then show thesis using n(1,2) a(2,3) t(2) tables_short [OF t(1)]
    by (intro that [of "(V, tbl\<lparr>tb_lvl := int (length L)\<rparr>, s')"]) (simp_all add: P prep_snoc new_comma_def sjson_add_node_def)
qed

lemma close_step:
  assumes env: "json_env_ok cap E" "finite (dom F)" and p: "prep F K (L @ [ns, m # ms]) (V, tbl, s)"
    and u: "used F K (L @ [ns, m # ms]) + 2 \<le> cap" and ty: "ty = BLOCK \<or> ty = SET"
  obtains P' n where "new_named E ty (pop_state V, tbl, s) = Ret P'"
    "prep F K (L @ [ns @ [set_val (set_prev (j_addr n) m # ms) n]]) P'" "fresh_as n ty (int (length L)) (last_addr ns)"
proof -
  let ?C = "K @ concat (map (cells 0) L)"
  have t: "tables (L @ [ns, m # ms]) tbl" "tb_lvl tbl = int (length L) + 1" "pv_top (pop_state V) = int (length L)" "length L < MAXL"
    and h: "holds F (?C @ cells 0 ns @ cells 0 (m # ms)) (js_heap s)"
    using p by (auto simp: prep_def pop_state_def tables_def)
  have "card (dom F) + length (?C @ cells 0 ns @ cells 0 (m # ms)) + 2 \<le> cap" using u by (simp add: used_def)
  then obtain q y x s2 k where n: "new_named E ty (pop_state V, tbl, s) = obind (add_kind ty tbl q (int (length L)) s2)
      (\<lambda>(go, tbl, s). Ret (pv_step ty k (pop_state V), if go then tbl\<lparr>tb_lvl := int (length L)\<rparr> else tbl, s))"
    "holds F (cells 0 [JNode q y ty x (int (length L)) 0 0 []] @ ?C @ cells 0 ns @ cells 0 (m # ms)) (js_heap s2)"
    by (rule new_named_runs [OF env h _ t(3,4)])
  let ?n = "JNode q y ty x (int (length L)) 0 0 []"
  let ?w = "set_val (set_prev (j_addr ?n) m # ms) (set_prev (last_addr ns) ?n)"
  have "j_val ?n = []" by simp
  then obtain tbl' s' where a: "add_close tbl (j_addr ?n) (int (length L)) s2 = Ret (True, tbl', s')"
    "tables (L @ [ns @ [?w]]) tbl'" "tb_lvl tbl' = tb_lvl tbl" "holds F (?C @ cells 0 (ns @ [?w])) (js_heap s')"
    by (rule add_close_wraps [OF t(1) _ n(2) refl])
  have "add_kind ty tbl q (int (length L)) s2 = Ret (True, tbl', s')" using a(1) ty t(2) by (auto simp: add_kind_def)
  then show thesis using n(1) a(2,4) t(3)
    by (intro that [of "(pv_step ty k (pop_state V), tbl'\<lparr>tb_lvl := int (length L)\<rparr>, s')" "set_prev (last_addr ns) ?n"])
      (simp_all add: prep_snoc fresh_as_def)
qed

text \<open>Behind the outermost bracket there is no level to add a node to: its name is released at once.\<close>

lemma close_outer:
  assumes env: "json_env_ok cap E" "finite (dom F)" and p: "prep F K [ns] (V, tbl, s)" and u: "used F K [ns] + 1 \<le> cap"
  obtains V' s' where "new_named E ty (pop_state V, tbl, s) = Ret (V', tbl, s')" "holds F (K @ cells 0 ns) (js_heap s')"
proof -
  have t: "pv_top (pop_state V) = - 1" and h: "holds F (K @ cells 0 ns) (js_heap s)"
    using p by (auto simp: prep_def pop_state_def)
  have "card (dom F) + length (K @ cells 0 ns) < cap" using u by (simp add: used_def)
  then obtain y s1 where y: "jos_strdup E (snm_text ty (pv_num ty (pop_state V))) s = Ret (y, s1)" "y \<noteq> 0"
    "holds F ((y, StrObj (snm_text ty (pv_num ty (pop_state V)))) # K @ cells 0 ns) (js_heap s1)"
    by (rule jos_strdup_cell [OF env(1) h env(2)])
  have "js_heap s1 y = Some (StrObj (snm_text ty (pv_num ty (pop_state V))))" by (rule holds_get(1) [OF y(3)]) simp
  then show thesis using t y(1,2) holds_del [OF y(3)]
    by (auto intro!: that simp: new_named_def sjson_snm_def sjson_add_node_def jos_free_def)
qed

end
