(* ===== verification/Json_Docs.thy ===== *)
theory Json_Docs
  imports Json_Steps
begin

text \<open>
  Documents and the parse trees they stand for: the tokens of a document, the tree the parser has to
  build, and the proof that it builds it.
\<close>

section \<open>Documents\<close>

datatype json = is_Tok: Tok string | Obj "(string \<times> json) list" | Arr "json list"

text \<open>What the parser does at a bracket, a word or a comma.\<close>

datatype ev = Open u32 | Close u32 | Word string | Sep

fun run_ev :: "json_env \<Rightarrow> ev \<Rightarrow> parser \<Rightarrow> parser outcome" where
  "run_ev E (Open ty) P = open_level E ty P"
| "run_ev E (Close ty) P = close_level E ty P"
| "run_ev E (Word w) P = new_token E w P"
| "run_ev E Sep P = obind (new_named E STMT P) (new_comma E)"

fun run_evs :: "json_env \<Rightarrow> ev list \<Rightarrow> parser \<Rightarrow> parser outcome" where
  "run_evs E [] P = Ret P"
| "run_evs E (e # es) P = obind (run_ev E e P) (run_evs E es)"

lemma obind_Ret [simp]: "obind m Ret = m"
  by (cases m) simp_all

lemma run_evs_append: "run_evs E (es @ fs) P = obind (run_evs E es P) (run_evs E fs)"
  by (induction es arbitrary: P) (simp_all add: obind_assoc cong: obind_cong)

lemma run_evs_one [simp]: "run_evs E [e] P = run_ev E e P"
  by (cases "run_ev E e P") simp_all

fun evs :: "json \<Rightarrow> ev list" and pevs :: "(string \<times> json) list \<Rightarrow> ev list" and eevs :: "json list \<Rightarrow> ev list" where
  "evs (Tok w) = [Word w]"
| "evs (Obj ps) = Open BLOCK # pevs ps @ [Close BLOCK]"
| "evs (Arr vs) = Open SET # eevs vs @ [Close SET]"
| "pevs [] = []"
| "pevs ((k, v) # ps) = Word k # evs v @ (if ps = [] then [] else Sep # pevs ps)"
| "eevs [] = []"
| "eevs (v # vs) = evs v @ (if vs = [] then [] else Sep # eevs vs)"

text \<open>The nesting depth, and the number of empty objects and arrays.\<close>

fun depth :: "json \<Rightarrow> nat" and pdepth :: "(string \<times> json) list \<Rightarrow> nat" and edepth :: "json list \<Rightarrow> nat" where
  "depth (Tok w) = 0"
| "depth (Obj ps) = Suc (pdepth ps)"
| "depth (Arr vs) = Suc (edepth vs)"
| "pdepth [] = 0"
| "pdepth ((k, v) # ps) = max (depth v) (pdepth ps)"
| "edepth [] = 0"
| "edepth (v # vs) = max (depth v) (edepth vs)"

fun empties :: "json \<Rightarrow> nat" and pempties :: "(string \<times> json) list \<Rightarrow> nat" and eempties :: "json list \<Rightarrow> nat" where
  "empties (Tok w) = 0"
| "empties (Obj ps) = (if ps = [] then 1 else pempties ps)"
| "empties (Arr vs) = (if vs = [] then 1 else eempties vs)"
| "pempties [] = 0"
| "pempties ((k, v) # ps) = empties v + pempties ps"
| "eempties [] = 0"
| "eempties (v # vs) = empties v + eempties vs"

section \<open>The tree of a document\<close>

text \<open>
  A word is a token node. An object is a block node whose value is a chain: a second block node and a
  statement for every member; a statement has the key as its value, the key has the value of the member.
  Arrays are alike, with set nodes and without statements. A comma is noted at the token or at the
  inner node of the bracket in front of it, but not at a word in an array. \<open>f\<close> is the flag of that
  node, \<open>l\<close> the level; the back pointers are those the rest of the library relies on.
\<close>

definition inner_ok :: "jnode \<Rightarrow> u32 \<Rightarrow> int \<Rightarrow> u32 \<Rightarrow> bool" where
  "inner_ok b ty l f \<longleftrightarrow> j_type b = ty \<and> j_lvl b = l \<and> j_flag b = f \<and> j_val b = []"

fun val_ok :: "int \<Rightarrow> u32 \<Rightarrow> json \<Rightarrow> jnode \<Rightarrow> bool"
  and pairs_ok :: "int \<Rightarrow> addr \<Rightarrow> (string \<times> json) list \<Rightarrow> jnode list \<Rightarrow> bool"
  and elems_ok :: "int \<Rightarrow> addr \<Rightarrow> json list \<Rightarrow> jnode list \<Rightarrow> bool" where
  "val_ok l f (Tok w) n \<longleftrightarrow> j_type n = TOKEN \<and> j_name n = w \<and> j_lvl n = l \<and> j_flag n = f \<and> j_val n = []"
| "val_ok l f (Obj ps) n \<longleftrightarrow> j_type n = BLOCK \<and> j_lvl n = l \<and> j_flag n = 0 \<and>
     (case j_val n of [] \<Rightarrow> False
      | b # ms \<Rightarrow> inner_ok b BLOCK (l + 1) f \<and> j_prev b = j_addr n \<and> pairs_ok (l + 1) (j_addr b) ps ms)"
| "val_ok l f (Arr vs) n \<longleftrightarrow> j_type n = SET \<and> j_lvl n = l \<and> j_flag n = 0 \<and>
     (case j_val n of [] \<Rightarrow> False
      | b # ms \<Rightarrow> inner_ok b SET (l + 1) f \<and> j_prev b = j_addr n \<and> elems_ok (l + 1) (j_addr b) vs ms)"
| "pairs_ok l pv [] ns \<longleftrightarrow> ns = []"
| "pairs_ok l pv ((k, v) # ps) ns \<longleftrightarrow>
     (case ns of [] \<Rightarrow> False
      | n # ns' \<Rightarrow> j_type n = STMT \<and> j_lvl n = l \<and> j_flag n = 0 \<and> j_prev n = pv \<and>
          (case j_val n of
             [t] \<Rightarrow> j_type t = TOKEN \<and> j_name t = k \<and> j_lvl t = l \<and> j_flag t = 0 \<and> j_prev t = j_addr n \<and>
               (case j_val t of
                  [x] \<Rightarrow> j_prev x = j_addr n \<and> val_ok l (if ps = [] then 0 else F_COMMA) v x
                | _ \<Rightarrow> False)
           | _ \<Rightarrow> False) \<and> pairs_ok l (j_addr n) ps ns')"
| "elems_ok l st [] ns \<longleftrightarrow> ns = []"
| "elems_ok l st (v # vs) ns \<longleftrightarrow>
     (case ns of [] \<Rightarrow> False
      | n # ns' \<Rightarrow> j_prev n = st \<and> val_ok l (if vs = [] \<or> is_Tok v then 0 else F_COMMA) v n \<and> elems_ok l st vs ns')"

lemma val_ok_set_prev [simp]: "val_ok l f v (set_prev pv n) \<longleftrightarrow> val_ok l f v n"
  by (cases v) (simp_all cong: list.case_cong)

lemma tag_set_prev: "tag (set_prev pv n) = set_prev pv (tag n)"
  by (cases n rule: tag.cases) simp_all

lemma val_ok_tag: "val_ok l 0 v n \<Longrightarrow> val_ok l F_COMMA v (tag n)"
  by (cases v) (auto simp: tag_val inner_ok_def split: list.splits)

text \<open>The tree of a whole document: the chain of the outermost level.\<close>

definition doc_tree :: "json \<Rightarrow> jnode list \<Rightarrow> bool" where
  "doc_tree d ns = (case (d, ns) of
     (Obj ps, b # ms) \<Rightarrow> inner_ok b BLOCK 0 0 \<and> j_prev b = 0 \<and> pairs_ok 0 (j_addr b) ps ms
   | (Arr vs, b # ms) \<Rightarrow> inner_ok b SET 0 0 \<and> j_prev b = 0 \<and> elems_ok 0 (j_addr b) vs ms
   | _ \<Rightarrow> False)"

section \<open>The parser builds the tree\<close>

text \<open>
  What the calls for a value, for the members of an object and for the elements of an array do with the
  open levels: they append the nodes of the tree to the innermost one. The blocks \<open>K'\<close> are lost; there
  are two of them for every empty object or array, the statement of its closing bracket.
\<close>

definition builds :: "nat \<Rightarrow> json_env \<Rightarrow> jheap \<Rightarrow> json \<Rightarrow> bool" where
  "builds cap E F v \<longleftrightarrow> (\<forall>K L ns P. prep F K (L @ [ns]) P \<longrightarrow> length L + 1 + depth v \<le> MAXL
     \<longrightarrow> used F K (L @ [ns]) + 4 * length (evs v) \<le> cap
     \<longrightarrow> (\<exists>P' K' n. run_evs E (evs v) P = Ret P' \<and> prep F (K' @ K) (L @ [ns @ [n]]) P'
          \<and> val_ok (int (length L)) 0 v n \<and> j_prev n = last_addr ns
          \<and> length K' = 2 * empties v \<and> 2 * jsize [n] + length K' \<le> 4 * length (evs v)))"

definition builds_pairs :: "nat \<Rightarrow> json_env \<Rightarrow> jheap \<Rightarrow> (string \<times> json) list \<Rightarrow> bool" where
  "builds_pairs cap E F ps \<longleftrightarrow> ps \<noteq> [] \<longrightarrow> (\<forall>K L ns P. prep F K (L @ [ns]) P \<longrightarrow> j_type (hd ns) \<noteq> SET
     \<longrightarrow> length L + 1 + pdepth ps \<le> MAXL \<longrightarrow> used F K (L @ [ns]) + 4 * length (pevs ps) + 2 \<le> cap
     \<longrightarrow> (\<exists>P' K' ms. obind (run_evs E (pevs ps) P) (new_named E STMT) = Ret P' \<and> prep F (K' @ K) (L @ [ns @ ms]) P'
          \<and> pairs_ok (int (length L)) (last_addr ns) ps ms
          \<and> length K' = 2 * pempties ps \<and> 2 * jsize ms + length K' \<le> 4 * length (pevs ps) + 2))"

definition builds_elems :: "nat \<Rightarrow> json_env \<Rightarrow> jheap \<Rightarrow> json list \<Rightarrow> bool" where
  "builds_elems cap E F vs \<longleftrightarrow> vs \<noteq> [] \<longrightarrow> (\<forall>K L ns P. prep F K (L @ [ns]) P \<longrightarrow> j_type (hd ns) = SET
     \<longrightarrow> length L + 1 + edepth vs \<le> MAXL \<longrightarrow> used F K (L @ [ns]) + 4 * length (eevs vs) + 2 \<le> cap
     \<longrightarrow> (\<exists>P' K' ms. obind (run_evs E (eevs vs) P) (new_named E STMT) = Ret P' \<and> prep F (K' @ K) (L @ [ns @ ms]) P'
          \<and> elems_ok (int (length L)) (headx 0 ns) vs ms
          \<and> length K' = 2 * eempties vs \<and> 2 * jsize ms + length K' \<le> 4 * length (eevs vs) + 2))"

lemma buildsD:
  assumes "builds cap E F v" "prep F K (L @ [ns]) P" "length L + 1 + depth v \<le> MAXL"
    "used F K (L @ [ns]) + 4 * length (evs v) \<le> cap"
  obtains P' K' n where "run_evs E (evs v) P = Ret P'" "prep F (K' @ K) (L @ [ns @ [n]]) P'"
    "val_ok (int (length L)) 0 v n" "j_prev n = last_addr ns"
    "length K' = 2 * empties v" "2 * jsize [n] + length K' \<le> 4 * length (evs v)"
  using assms unfolding builds_def by metis

lemma builds_pairsD:
  assumes "builds_pairs cap E F ps" "ps \<noteq> []" "prep F K (L @ [ns]) P" "j_type (hd ns) \<noteq> SET" "length L + 1 + pdepth ps \<le> MAXL"
    "used F K (L @ [ns]) + 4 * length (pevs ps) + 2 \<le> cap"
  obtains P' K' ms where "obind (run_evs E (pevs ps) P) (new_named E STMT) = Ret P'" "prep F (K' @ K) (L @ [ns @ ms]) P'"
    "pairs_ok (int (length L)) (last_addr ns) ps ms"
    "length K' = 2 * pempties ps" "2 * jsize ms + length K' \<le> 4 * length (pevs ps) + 2"
  using assms unfolding builds_pairs_def by metis

lemma builds_elemsD:
  assumes "builds_elems cap E F vs" "vs \<noteq> []" "prep F K (L @ [ns]) P" "j_type (hd ns) = SET" "length L + 1 + edepth vs \<le> MAXL"
    "used F K (L @ [ns]) + 4 * length (eevs vs) + 2 \<le> cap"
  obtains P' K' ms where "obind (run_evs E (eevs vs) P) (new_named E STMT) = Ret P'" "prep F (K' @ K) (L @ [ns @ ms]) P'"
    "elems_ok (int (length L)) (headx 0 ns) vs ms"
    "length K' = 2 * eempties vs" "2 * jsize ms + length K' \<le> 4 * length (eevs vs) + 2"
  using assms unfolding builds_elems_def by metis

lemma used_app [simp]: "used F (K' @ K) (L @ [ns @ ms]) = used F K (L @ [ns]) + length K' + 2 * jsize ms"
  by (simp add: used_def)

lemma used_open [simp]: "used F K (L @ [ns, ms]) = used F K (L @ [ns]) + 2 * jsize ms"
  by (simp add: used_def)

lemma prep_nonempty: "prep F K (L @ [ns]) P \<Longrightarrow> ns \<noteq> []"
  by (auto simp: prep_def tables_def)

lemma prep_last_addr: "prep F K (L @ [ns]) P \<Longrightarrow> last_addr ns \<noteq> 0"
proof -
  assume p: "prep F K (L @ [ns]) P"
  obtain ks k where ns: "ns = ks @ [k]" using prep_nonempty [OF p] by (metis rev_exhaust)
  show ?thesis using p by (auto simp: prep_def ns holds_def)
qed

lemma builds_Tok:
  assumes env: "json_env_ok cap E" "finite (dom F)"
  shows "builds cap E F (Tok w)"
  unfolding builds_def
proof (intro allI impI)
  fix K L ns P
  assume p: "prep F K (L @ [ns]) P" and u: "used F K (L @ [ns]) + 4 * length (evs (Tok w)) \<le> cap"
  have "used F K (L @ [ns]) + 2 \<le> cap" using u by simp
  then obtain P' n where n: "new_token E w P = Ret P'" "prep F K (L @ [ns @ [n]]) P'"
    "fresh_as n TOKEN (int (length L)) (last_addr ns)" "j_name n = w"
    by (rule token_step [OF env p])
  then show "\<exists>P' K' n. run_evs E (evs (Tok w)) P = Ret P' \<and> prep F (K' @ K) (L @ [ns @ [n]]) P'
      \<and> val_ok (int (length L)) 0 (Tok w) n \<and> j_prev n = last_addr ns
      \<and> length K' = 2 * empties (Tok w) \<and> 2 * jsize [n] + length K' \<le> 4 * length (evs (Tok w))"
    by (intro exI [of _ P'] exI [of _ "[]"] exI [of _ n]) (simp add: fresh_as_def)
qed

text \<open>The statement of a member, and the note of the comma behind it.\<close>

definition pair_ok :: "int \<Rightarrow> u32 \<Rightarrow> addr \<Rightarrow> string \<Rightarrow> json \<Rightarrow> jnode \<Rightarrow> bool" where
  "pair_ok l f pv k v n \<longleftrightarrow> j_type n = STMT \<and> j_lvl n = l \<and> j_flag n = 0 \<and> j_prev n = pv \<and>
     (\<exists>t x. j_val n = [t] \<and> j_type t = TOKEN \<and> j_name t = k \<and> j_lvl t = l \<and> j_flag t = 0 \<and> j_prev t = j_addr n \<and>
        j_val t = [x] \<and> j_prev x = j_addr n \<and> val_ok l f v x)"

lemma pairs_ok_Cons:
  "pairs_ok l pv ((k, v) # ps) (n # ns) \<longleftrightarrow>
     pair_ok l (if ps = [] then 0 else F_COMMA) pv k v n \<and> pairs_ok l (j_addr n) ps ns"
  by (auto simp: pair_ok_def split: list.splits)

lemma pair_ok_noted: "pair_ok l 0 pv k v n \<Longrightarrow> pair_ok l F_COMMA pv k v (noted n)"
  by (auto simp: pair_ok_def noted_def tag_val val_ok_tag)

lemma member_step:
  assumes env: "json_env_ok cap E" "finite (dom F)" and v: "builds cap E F v" and p: "prep F K (L @ [ns]) P"
    and ns: "j_type (hd ns) \<noteq> SET" and d: "length L + 1 + depth v \<le> MAXL"
    and u: "used F K (L @ [ns]) + 4 * length (evs v) + 6 \<le> cap"
  obtains P' K' n where "obind (run_evs E (Word k # evs v) P) (new_named E STMT) = Ret P'" "prep F (K' @ K) (L @ [ns @ [n]]) P'"
    "pair_ok (int (length L)) 0 (last_addr ns) k v n" "length K' = 2 * empties v" "2 * jsize [n] + length K' \<le> 4 * length (evs v) + 4"
proof -
  have "used F K (L @ [ns]) + 2 \<le> cap" using u by simp
  then obtain P1 t where t: "new_token E k P = Ret P1" "prep F K (L @ [ns @ [t]]) P1"
    "fresh_as t TOKEN (int (length L)) (last_addr ns)" "j_name t = k"
    by (rule token_step [OF env p])
  have tv: "j_val t = []" using t(3) by (simp add: fresh_as_def)
  have u1: "used F K (L @ [ns @ [t]]) = used F K (L @ [ns]) + 2" using used_app [of F "[]" K L ns "[t]"] by (simp add: tv)
  have "used F K (L @ [ns @ [t]]) + 4 * length (evs v) \<le> cap" using u u1 by simp
  then obtain P2 K' x where x: "run_evs E (evs v) P1 = Ret P2" "prep F (K' @ K) (L @ [(ns @ [t]) @ [x]]) P2"
    "val_ok (int (length L)) 0 v x" "j_prev x = last_addr (ns @ [t])" "length K' = 2 * empties v" "2 * jsize [x] + length K' \<le> 4 * length (evs v)"
    by (rule buildsD [OF v t(2) d])
  have x2: "prep F (K' @ K) (L @ [ns @ [t, x]]) P2" using x(2) by simp
  have "used F (K' @ K) (L @ [ns @ [t, x]]) + 2 \<le> cap" using u x(6) by (simp add: tv)
  then obtain P3 n where n: "new_named E STMT P2 = Ret P3"
    "prep F (K' @ K) (L @ [ns @ [set_val [set_val [set_prev (j_addr n) x] (set_prev (j_addr n) t)] n]]) P3"
    "fresh_as n STMT (int (length L)) (last_addr ns)"
    using t(3) x(4) by (rule_tac stmt_block_step [OF env x2 _ prep_nonempty [OF p] ns]) (simp_all add: fresh_as_def)
  show thesis
  proof (rule that [OF _ n(2)])
    show "obind (run_evs E (Word k # evs v) P) (new_named E STMT) = Ret P3" using t(1) x(1) n(1) by simp
    show "pair_ok (int (length L)) 0 (last_addr ns) k v (set_val [set_val [set_prev (j_addr n) x] (set_prev (j_addr n) t)] n)"
      using t(3,4) x(3) n(3) by (simp add: pair_ok_def fresh_as_def)
  qed (use x(5,6) in simp_all)
qed

lemma builds_pairs_Cons:
  assumes env: "json_env_ok cap E" "finite (dom F)" and v: "builds cap E F v" and IH: "ps \<noteq> [] \<Longrightarrow> builds_pairs cap E F ps"
  shows "builds_pairs cap E F ((k, v) # ps)"
  unfolding builds_pairs_def
proof (intro allI impI)
  fix K L ns P
  assume p: "prep F K (L @ [ns]) P" and ns: "j_type (hd ns) \<noteq> SET" and d: "length L + 1 + pdepth ((k, v) # ps) \<le> MAXL"
    and u: "used F K (L @ [ns]) + 4 * length (pevs ((k, v) # ps)) + 2 \<le> cap"
  have "used F K (L @ [ns]) + 4 * length (evs v) + 6 \<le> cap" "length L + 1 + depth v \<le> MAXL" using u d by simp_all
  from member_step [OF env v p ns this(2,1)] obtain P1 K1 n where
    n: "obind (run_evs E (Word k # evs v) P) (new_named E STMT) = Ret P1" "prep F (K1 @ K) (L @ [ns @ [n]]) P1"
      "pair_ok (int (length L)) 0 (last_addr ns) k v n" "length K1 = 2 * empties v" "2 * jsize [n] + length K1 \<le> 4 * length (evs v) + 4"
    by metis
  show "\<exists>P' K' ms. obind (run_evs E (pevs ((k, v) # ps)) P) (new_named E STMT) = Ret P' \<and> prep F (K' @ K) (L @ [ns @ ms]) P'
          \<and> pairs_ok (int (length L)) (last_addr ns) ((k, v) # ps) ms
          \<and> length K' = 2 * pempties ((k, v) # ps) \<and> 2 * jsize ms + length K' \<le> 4 * length (pevs ((k, v) # ps)) + 2"
  proof (cases "ps = []")
    case True
    with n show ?thesis by (intro exI [of _ P1] exI [of _ K1] exI [of _ "[n]"]) (simp add: pairs_ok_Cons del: pairs_ok.simps(2))
  next
    case False
    have "used F (K1 @ K) (L @ [ns @ [n]]) + 1 \<le> cap" using u n(5) False by simp
    then obtain P2 where P2: "new_comma E P1 = Ret P2" "prep F (K1 @ K) (L @ [ns @ [noted n]]) P2"
      by (rule comma_step [OF env n(2)])
    have "j_type (hd (ns @ [noted n])) \<noteq> SET" using ns prep_nonempty [OF p] by simp
    moreover have "length L + 1 + pdepth ps \<le> MAXL" "used F (K1 @ K) (L @ [ns @ [noted n]]) + 4 * length (pevs ps) + 2 \<le> cap"
      using d u n(5) False by (simp_all del: jsize.simps)
    ultimately obtain P3 K3 ms where ms: "obind (run_evs E (pevs ps) P2) (new_named E STMT) = Ret P3"
      "prep F (K3 @ K1 @ K) (L @ [(ns @ [noted n]) @ ms]) P3" "pairs_ok (int (length L)) (last_addr (ns @ [noted n])) ps ms"
      "length K3 = 2 * pempties ps" "2 * jsize ms + length K3 \<le> 4 * length (pevs ps) + 2"
      by (rule builds_pairsD [OF IH [OF False] False P2(2)])
    have "run_evs E (pevs ((k, v) # ps)) P = obind (obind (run_evs E (Word k # evs v) P) (new_named E STMT))
        (\<lambda>P. obind (new_comma E P) (run_evs E (pevs ps)))"
      using False by (simp add: run_evs_append obind_assoc cong: obind_cong)
    then have "obind (run_evs E (pevs ((k, v) # ps)) P) (new_named E STMT) = Ret P3"
      using n(1) P2(1) ms(1) by (simp del: run_evs.simps)
    then show ?thesis using n(3-5) ms(2-5) False pair_ok_noted
      by (intro exI [of _ P3] exI [of _ "K3 @ K1"] exI [of _ "noted n # ms"])
        (simp add: pairs_ok_Cons del: pairs_ok.simps(2) jsize.simps(2) pevs.simps, simp add: pairs_ok_Cons)
  qed
qed

lemma elem_step:
  assumes env: "json_env_ok cap E" "finite (dom F)" and v: "builds cap E F v" and p: "prep F K (L @ [ns]) P"
    and ns: "j_type (hd ns) = SET" and d: "length L + 1 + depth v \<le> MAXL"
    and u: "used F K (L @ [ns]) + 4 * length (evs v) + 2 \<le> cap"
  obtains P' K' n where "obind (run_evs E (evs v) P) (new_named E STMT) = Ret P'" "prep F (K' @ K) (L @ [ns @ [n]]) P'"
    "val_ok (int (length L)) 0 v n" "j_prev n = headx 0 ns" "length K' = 2 * empties v" "2 * jsize [n] + length K' \<le> 4 * length (evs v)"
proof -
  have "used F K (L @ [ns]) + 4 * length (evs v) \<le> cap" using u by simp
  then obtain P1 K' x where x: "run_evs E (evs v) P = Ret P1" "prep F (K' @ K) (L @ [ns @ [x]]) P1"
    "val_ok (int (length L)) 0 v x" "j_prev x = last_addr ns" "length K' = 2 * empties v" "2 * jsize [x] + length K' \<le> 4 * length (evs v)"
    by (rule buildsD [OF v p d])
  have "used F (K' @ K) (L @ [ns @ [x]]) + 2 \<le> cap" "j_prev x \<noteq> 0" using u x(4,6) prep_last_addr [OF p] by simp_all
  then obtain P2 where P2: "new_named E STMT P1 = Ret P2" "prep F (K' @ K) (L @ [ns @ [set_prev (headx 0 ns) x]]) P2"
    by (rule stmt_set_step [OF env x(2) _ prep_nonempty [OF p] ns])
  show thesis
  proof (rule that [OF _ P2(2)])
    show "obind (run_evs E (evs v) P) (new_named E STMT) = Ret P2" using x(1) P2(1) by simp
  qed (use x(3,5,6) in simp_all)
qed

lemma val_ok_noted: "val_ok l 0 v n \<Longrightarrow> val_ok l (if is_Tok v then 0 else F_COMMA) v (noted n)"
  by (cases v) (auto simp: noted_def tag_val inner_ok_def split: list.splits)

lemma elems_ok_Cons:
  "elems_ok l st (v # vs) (n # ns) \<longleftrightarrow>
     j_prev n = st \<and> val_ok l (if vs = [] \<or> is_Tok v then 0 else F_COMMA) v n \<and> elems_ok l st vs ns"
  by simp

lemma headx_nonempty: "ns \<noteq> [] \<Longrightarrow> headx e ns = headx 0 ns"
  by (cases ns) simp_all

lemma builds_elems_Cons:
  assumes env: "json_env_ok cap E" "finite (dom F)" and v: "builds cap E F v" and IH: "vs \<noteq> [] \<Longrightarrow> builds_elems cap E F vs"
  shows "builds_elems cap E F (v # vs)"
  unfolding builds_elems_def
proof (intro allI impI)
  fix K L ns P
  assume p: "prep F K (L @ [ns]) P" and ns: "j_type (hd ns) = SET" and d: "length L + 1 + edepth (v # vs) \<le> MAXL"
    and u: "used F K (L @ [ns]) + 4 * length (eevs (v # vs)) + 2 \<le> cap"
  note ne = prep_nonempty [OF p]
  have "used F K (L @ [ns]) + 4 * length (evs v) + 2 \<le> cap" "length L + 1 + depth v \<le> MAXL" using u d by simp_all
  from elem_step [OF env v p ns this(2,1)] obtain P1 K1 n where
    n: "obind (run_evs E (evs v) P) (new_named E STMT) = Ret P1" "prep F (K1 @ K) (L @ [ns @ [n]]) P1"
      "val_ok (int (length L)) 0 v n" "j_prev n = headx 0 ns" "length K1 = 2 * empties v" "2 * jsize [n] + length K1 \<le> 4 * length (evs v)"
    by metis
  show "\<exists>P' K' ms. obind (run_evs E (eevs (v # vs)) P) (new_named E STMT) = Ret P' \<and> prep F (K' @ K) (L @ [ns @ ms]) P'
          \<and> elems_ok (int (length L)) (headx 0 ns) (v # vs) ms
          \<and> length K' = 2 * eempties (v # vs) \<and> 2 * jsize ms + length K' \<le> 4 * length (eevs (v # vs)) + 2"
  proof (cases "vs = []")
    case True
    with n show ?thesis by (intro exI [of _ P1] exI [of _ K1] exI [of _ "[n]"]) simp
  next
    case False
    have "used F (K1 @ K) (L @ [ns @ [n]]) + 1 \<le> cap" using u n(6) False by simp
    then obtain P2 where P2: "new_comma E P1 = Ret P2" "prep F (K1 @ K) (L @ [ns @ [noted n]]) P2"
      by (rule comma_step [OF env n(2)])
    have "j_type (hd (ns @ [noted n])) = SET" using ns ne by simp
    moreover have "length L + 1 + edepth vs \<le> MAXL" "used F (K1 @ K) (L @ [ns @ [noted n]]) + 4 * length (eevs vs) + 2 \<le> cap"
      using d u n(6) False by (simp_all del: jsize.simps)
    ultimately obtain P3 K3 ms where ms: "obind (run_evs E (eevs vs) P2) (new_named E STMT) = Ret P3"
      "prep F (K3 @ K1 @ K) (L @ [(ns @ [noted n]) @ ms]) P3" "elems_ok (int (length L)) (headx 0 (ns @ [noted n])) vs ms"
      "length K3 = 2 * eempties vs" "2 * jsize ms + length K3 \<le> 4 * length (eevs vs) + 2"
      by (rule builds_elemsD [OF IH [OF False] False P2(2)])
    have "run_evs E (eevs (v # vs)) P = obind (obind (run_evs E (evs v) P) (new_named E STMT))
        (\<lambda>P. obind (new_comma E P) (run_evs E (eevs vs)))"
      using False by (simp add: run_evs_append obind_assoc cong: obind_cong)
    then have "obind (run_evs E (eevs (v # vs)) P) (new_named E STMT) = Ret P3"
      using n(1) P2(1) ms(1) by (simp del: run_evs.simps)
    then show ?thesis using n(3-6) ms(2-5) False headx_nonempty [OF ne, of "j_addr n"] val_ok_noted [OF n(3)]
      by (intro exI [of _ P3] exI [of _ "K3 @ K1"] exI [of _ "noted n # ms"])
        (simp add: elems_ok_Cons del: elems_ok.simps(2) jsize.simps(2) eevs.simps, simp)
  qed
qed

text \<open>The brackets around the members or elements.\<close>

lemma bracket_builds:
  assumes env: "json_env_ok cap E" "finite (dom F)" and p: "prep F K (L @ [ns]) P" and ty: "ty = BLOCK \<or> ty = SET"
    and d: "length L + 1 < MAXL" and u: "used F K (L @ [ns]) + 4 * length es + 8 \<le> cap"
    and inner: "\<And>b P. prep F K ((L @ [ns]) @ [[b]]) P \<Longrightarrow> fresh_as b ty (int (length (L @ [ns]))) 0
      \<Longrightarrow> \<exists>P' K' ms. obind (run_evs E es P) (new_named E STMT) = Ret P' \<and> prep F (K' @ K) ((L @ [ns]) @ [[b] @ ms]) P'
            \<and> I b ms \<and> length K' = k \<and> 2 * jsize ms + length K' \<le> 4 * length es + 2"
  obtains P' K' n b ms where "run_evs E (Open ty # es @ [Close ty]) P = Ret P'" "prep F (K' @ K) (L @ [ns @ [n]]) P'"
    "j_type n = ty" "j_lvl n = int (length L)" "j_flag n = 0" "j_prev n = last_addr ns" "j_val n = b # ms"
    "inner_ok b ty (int (length L) + 1) 0" "j_prev b = j_addr n" "\<exists>b'. j_addr b' = j_addr b \<and> I b' ms"
    "length K' = k" "2 * jsize [n] + length K' \<le> 4 * length es + 8"
proof -
  have "length (L @ [ns]) < MAXL" "used F K (L @ [ns]) + 2 \<le> cap" using d u by simp_all
  then obtain P1 b where b: "open_level E ty P = Ret P1" "prep F K ((L @ [ns]) @ [[b]]) P1" "fresh_as b ty (int (length (L @ [ns]))) 0"
    by (rule open_step [OF env p _ _ ty])
  from inner [OF b(2,3)] obtain P2 K' ms where ms: "obind (run_evs E es P1) (new_named E STMT) = Ret P2"
    "prep F (K' @ K) ((L @ [ns]) @ [[b] @ ms]) P2" "I b ms" "length K' = k" "2 * jsize ms + length K' \<le> 4 * length es + 2" by blast
  obtain V tbl s where P2: "P2 = (V, tbl, s)" by (cases P2)
  have bv: "j_val b = []" using b(3) by (simp add: fresh_as_def)
  have p2: "prep F (K' @ K) (L @ [ns, b # ms]) (V, tbl, s)" using ms(2) by (simp add: P2)
  have "used F (K' @ K) (L @ [ns, b # ms]) + 2 \<le> cap" using u ms(5) by (simp add: used_def bv)
  then obtain P3 n where n: "new_named E ty (pop_state V, tbl, s) = Ret P3"
    "prep F (K' @ K) (L @ [ns @ [set_val (set_prev (j_addr n) b # ms) n]]) P3" "fresh_as n ty (int (length L)) (last_addr ns)"
    by (rule close_step [OF env p2 _ ty])
  show thesis
  proof (rule that [OF _ n(2)])
    have "run_evs E (Open ty # es @ [Close ty]) P = obind (obind (run_evs E es P1) (new_named E STMT)) (\<lambda>(V, tbl, s). new_named E ty (pop_state V, tbl, s))"
      using b(1) by (simp add: run_evs_append close_level_def obind_assoc del: run_evs.simps(2)) (simp add: run_evs_append close_level_def obind_assoc cong: obind_cong)
    then show "run_evs E (Open ty # es @ [Close ty]) P = Ret P3" using ms(1) n(1) by (simp add: P2)
    show "\<exists>b'. j_addr b' = j_addr (set_prev (j_addr n) b) \<and> I b' ms" using ms(3) by auto
  qed (use b(3) n(3) ms(4,5) bv in \<open>simp_all add: fresh_as_def inner_ok_def\<close>)
qed

lemma builds_Obj:
  assumes env: "json_env_ok cap E" "finite (dom F)" and IH: "builds_pairs cap E F ps"
  shows "builds cap E F (Obj ps)"
  unfolding builds_def
proof (intro allI impI)
  fix K L ns P
  assume p: "prep F K (L @ [ns]) P" and d: "length L + 1 + depth (Obj ps) \<le> MAXL"
    and u: "used F K (L @ [ns]) + 4 * length (evs (Obj ps)) \<le> cap"
  let ?l = "int (length (L @ [ns]))"
  have inner: "\<exists>P' K' ms. obind (run_evs E (pevs ps) P) (new_named E STMT) = Ret P' \<and> prep F (K' @ K) ((L @ [ns]) @ [[b] @ ms]) P'
      \<and> pairs_ok ?l (j_addr b) ps ms \<and> length K' = 2 * empties (Obj ps) \<and> 2 * jsize ms + length K' \<le> 4 * length (pevs ps) + 2"
    if b: "prep F K ((L @ [ns]) @ [[b]]) P" "fresh_as b BLOCK ?l 0" for b P
  proof (cases "ps = []")
    case True
    have "used F K ((L @ [ns]) @ [[b]]) + 2 \<le> cap" "j_prev b = 0" using u b(2) by (simp_all add: fresh_as_def used_def)
    then obtain P' K' where "new_named E STMT P = Ret P'" "prep F (K' @ K) ((L @ [ns]) @ [[b]]) P'" "length K' = 2"
      by (rule stmt_empty_step [OF env b(1)])
    with True show ?thesis by (intro exI [of _ P'] exI [of _ K'] exI [of _ "[]"]) simp
  next
    case False
    have "j_type (hd [b]) \<noteq> SET" "length (L @ [ns]) + 1 + pdepth ps \<le> MAXL"
      "used F K ((L @ [ns]) @ [[b]]) + 4 * length (pevs ps) + 2 \<le> cap"
      using b(2) d u by (simp_all add: fresh_as_def node_types used_def)
    then obtain P' K' ms where "obind (run_evs E (pevs ps) P) (new_named E STMT) = Ret P'" "prep F (K' @ K) ((L @ [ns]) @ [[b] @ ms]) P'"
      "pairs_ok ?l (last_addr [b]) ps ms" "length K' = 2 * pempties ps" "2 * jsize ms + length K' \<le> 4 * length (pevs ps) + 2"
      by (rule builds_pairsD [OF IH False b(1)])
    with False show ?thesis by (intro exI [of _ P'] exI [of _ K'] exI [of _ ms]) simp
  qed
  have "length L + 1 < MAXL" "used F K (L @ [ns]) + 4 * length (pevs ps) + 8 \<le> cap" using d u by simp_all
  then obtain P' K' n b ms where "run_evs E (Open BLOCK # pevs ps @ [Close BLOCK]) P = Ret P'" "prep F (K' @ K) (L @ [ns @ [n]]) P'"
    "j_type n = BLOCK" "j_lvl n = int (length L)" "j_flag n = 0" "j_prev n = last_addr ns" "j_val n = b # ms"
    "inner_ok b BLOCK (int (length L) + 1) 0" "j_prev b = j_addr n" "\<exists>b'. j_addr b' = j_addr b \<and> pairs_ok ?l (j_addr b') ps ms"
    "length K' = 2 * empties (Obj ps)" "2 * jsize [n] + length K' \<le> 4 * length (pevs ps) + 8"
    by (rule bracket_builds [OF env p disjI1 [OF refl] _ _ inner])
  then show "\<exists>P' K' n. run_evs E (evs (Obj ps)) P = Ret P' \<and> prep F (K' @ K) (L @ [ns @ [n]]) P'
      \<and> val_ok (int (length L)) 0 (Obj ps) n \<and> j_prev n = last_addr ns
      \<and> length K' = 2 * empties (Obj ps) \<and> 2 * jsize [n] + length K' \<le> 4 * length (evs (Obj ps))"
    by (intro exI [of _ P'] exI [of _ K'] exI [of _ n]) (auto simp: add.commute)
qed

lemma builds_Arr:
  assumes env: "json_env_ok cap E" "finite (dom F)" and IH: "builds_elems cap E F vs"
  shows "builds cap E F (Arr vs)"
  unfolding builds_def
proof (intro allI impI)
  fix K L ns P
  assume p: "prep F K (L @ [ns]) P" and d: "length L + 1 + depth (Arr vs) \<le> MAXL"
    and u: "used F K (L @ [ns]) + 4 * length (evs (Arr vs)) \<le> cap"
  let ?l = "int (length (L @ [ns]))"
  have inner: "\<exists>P' K' ms. obind (run_evs E (eevs vs) P) (new_named E STMT) = Ret P' \<and> prep F (K' @ K) ((L @ [ns]) @ [[b] @ ms]) P'
      \<and> elems_ok ?l (j_addr b) vs ms \<and> length K' = 2 * empties (Arr vs) \<and> 2 * jsize ms + length K' \<le> 4 * length (eevs vs) + 2"
    if b: "prep F K ((L @ [ns]) @ [[b]]) P" "fresh_as b SET ?l 0" for b P
  proof (cases "vs = []")
    case True
    have "used F K ((L @ [ns]) @ [[b]]) + 2 \<le> cap" "j_prev b = 0" using u b(2) by (simp_all add: fresh_as_def used_def)
    then obtain P' K' where "new_named E STMT P = Ret P'" "prep F (K' @ K) ((L @ [ns]) @ [[b]]) P'" "length K' = 2"
      by (rule stmt_empty_step [OF env b(1)])
    with True show ?thesis by (intro exI [of _ P'] exI [of _ K'] exI [of _ "[]"]) simp
  next
    case False
    have "j_type (hd [b]) = SET" "length (L @ [ns]) + 1 + edepth vs \<le> MAXL"
      "used F K ((L @ [ns]) @ [[b]]) + 4 * length (eevs vs) + 2 \<le> cap"
      using b(2) d u by (simp_all add: fresh_as_def node_types used_def)
    then obtain P' K' ms where "obind (run_evs E (eevs vs) P) (new_named E STMT) = Ret P'" "prep F (K' @ K) ((L @ [ns]) @ [[b] @ ms]) P'"
      "elems_ok ?l (headx 0 [b]) vs ms" "length K' = 2 * eempties vs" "2 * jsize ms + length K' \<le> 4 * length (eevs vs) + 2"
      by (rule builds_elemsD [OF IH False b(1)])
    with False show ?thesis by (intro exI [of _ P'] exI [of _ K'] exI [of _ ms]) simp
  qed
  have "length L + 1 < MAXL" "used F K (L @ [ns]) + 4 * length (eevs vs) + 8 \<le> cap" using d u by simp_all
  then obtain P' K' n b ms where "run_evs E (Open SET # eevs vs @ [Close SET]) P = Ret P'" "prep F (K' @ K) (L @ [ns @ [n]]) P'"
    "j_type n = SET" "j_lvl n = int (length L)" "j_flag n = 0" "j_prev n = last_addr ns" "j_val n = b # ms"
    "inner_ok b SET (int (length L) + 1) 0" "j_prev b = j_addr n" "\<exists>b'. j_addr b' = j_addr b \<and> elems_ok ?l (j_addr b') vs ms"
    "length K' = 2 * empties (Arr vs)" "2 * jsize [n] + length K' \<le> 4 * length (eevs vs) + 8"
    by (rule bracket_builds [OF env p disjI2 [OF refl] _ _ inner])
  then show "\<exists>P' K' n. run_evs E (evs (Arr vs)) P = Ret P' \<and> prep F (K' @ K) (L @ [ns @ [n]]) P'
      \<and> val_ok (int (length L)) 0 (Arr vs) n \<and> j_prev n = last_addr ns
      \<and> length K' = 2 * empties (Arr vs) \<and> 2 * jsize [n] + length K' \<le> 4 * length (evs (Arr vs))"
    by (intro exI [of _ P'] exI [of _ K'] exI [of _ n]) (auto simp: add.commute)
qed

lemma builds_all:
  assumes env: "json_env_ok cap E" "finite (dom F)"
  shows "builds cap E F v" and "builds_pairs cap E F ps" and "builds_elems cap E F vs"
proof (induction v and ps and vs rule: evs_pevs_eevs.induct)
  case (5 k v ps)
  then show ?case by (rule builds_pairs_Cons [OF env])
next
  case (7 v vs)
  then show ?case by (rule builds_elems_Cons [OF env])
qed (simp_all add: builds_Tok [OF env] builds_Obj [OF env] builds_Arr [OF env] builds_pairs_def builds_elems_def)

end
