(* ===== verification/Json_Lex.thy ===== *)
theory Json_Lex
  imports Json_Docs
begin

text \<open>
  The text of a document: a reference lexer, the proof that the loop of \<open>sjson_parse\<close> makes the calls
  of the tokens the lexer finds, and a text for every document.
\<close>

section \<open>A reference lexer\<close>

definition wordc :: "char \<Rightarrow> bool" where "wordc c \<longleftrightarrow> is_digit c \<or> is_alpha c"

text \<open>The string up to the next double quote; a backslash takes the next character as it is.\<close>

fun unquote :: "string \<Rightarrow> (string \<times> string) option" where
  "unquote [] = None"
| "unquote (c # cs) =
     (if c = CHR 0x22 then Some ([], cs)
      else if c = CHR 0x5C then (case cs of [] \<Rightarrow> None | d # ds \<Rightarrow> map_option (apfst (Cons d)) (unquote ds))
      else map_option (apfst (Cons c)) (unquote cs))"

lemma unquote_length: "unquote cs = Some (w, rest) \<Longrightarrow> length rest < length cs"
  by (induction cs arbitrary: w rest rule: unquote.induct) (auto split: if_splits list.splits, fastforce)

function jlex :: "string \<Rightarrow> ev list option" where
  "jlex [] = Some []"
| "jlex (c # cs) =
     (if c = CHR ''{'' then map_option (Cons (Open BLOCK)) (jlex cs)
      else if c = CHR ''}'' then map_option (Cons (Close BLOCK)) (jlex cs)
      else if c = CHR ''['' then map_option (Cons (Open SET)) (jlex cs)
      else if c = CHR '']'' then map_option (Cons (Close SET)) (jlex cs)
      else if wordc c
      then if length (takeWhile wordc (c # cs)) < TOKENSZ
           then map_option (Cons (Word (takeWhile wordc (c # cs)))) (jlex (dropWhile wordc cs)) else None
      else if c = CHR 0x22
      then (case unquote cs of None \<Rightarrow> None
            | Some (w, rest) \<Rightarrow> if length w < TOKENSZ then map_option (Cons (Word w)) (jlex rest) else None)
      else if c = CHR '','' then map_option (Cons Sep) (jlex cs)
      else jlex cs)"
  by pat_completeness auto
termination
  by (relation "measure length") (auto dest: unquote_length simp: length_dropWhile_le less_Suc_eq_le)

section \<open>The scanning loops\<close>

lemma scan_word_takeWhile:
  "length tok + length (takeWhile wordc cs) < TOKENSZ
     \<Longrightarrow> scan_word tok cs = Ret (Token (tok @ takeWhile wordc cs) (dropWhile wordc cs))"
  by (induction tok cs rule: scan_word.induct) (auto simp: wordc_def)

lemma scan_quoted_unquote:
  "unquote cs = Some (w, rest) \<Longrightarrow> length tok + length w < TOKENSZ \<Longrightarrow> scan_quoted tok cs = Ret (Token (tok @ w) rest)"
  by (induction tok cs arbitrary: w rule: scan_quoted.induct) (auto split: if_splits list.splits)

section \<open>The loop of the parser\<close>

lemma parse_loop_word:
  assumes "wordc c" "length (takeWhile wordc (c # cs)) < TOKENSZ"
  shows "parse_loop E (c # cs) P = obind (new_token E (takeWhile wordc (c # cs)) P) (parse_loop E (dropWhile wordc cs))"
proof -
  have "c \<noteq> CHR ''{''" "c \<noteq> CHR ''}''" "c \<noteq> CHR ''[''" "c \<noteq> CHR '']''"
    using assms(1) by (auto simp: wordc_def is_digit_def is_alpha_def)
  then show ?thesis using assms scan_word_takeWhile [of "[]" "c # cs"] by (simp add: wordc_def)
qed

lemma parse_loop_quoted:
  assumes "unquote cs = Some (w, rest)" "length w < TOKENSZ"
  shows "parse_loop E (CHR 0x22 # cs) P = obind (new_token E w P) (parse_loop E rest)"
  using scan_quoted_unquote [OF assms(1), of "[]"] assms(2) by (simp add: is_digit_def is_alpha_def)

lemma parse_loop_char:
  "parse_loop E (CHR ''{'' # cs) P = obind (open_level E BLOCK P) (parse_loop E cs)"
  "parse_loop E (CHR ''}'' # cs) P = obind (close_level E BLOCK P) (parse_loop E cs)"
  "parse_loop E (CHR ''['' # cs) P = obind (open_level E SET P) (parse_loop E cs)"
  "parse_loop E (CHR '']'' # cs) P = obind (close_level E SET P) (parse_loop E cs)"
  "parse_loop E (CHR '','' # cs) P = obind (run_ev E Sep P) (parse_loop E cs)"
  by (simp_all add: is_digit_def is_alpha_def obind_assoc)

lemma parse_loop_skip:
  "\<not> wordc c \<Longrightarrow> c \<notin> {CHR ''{'', CHR ''}'', CHR ''['', CHR '']'', CHR '','', CHR 0x22} \<Longrightarrow> parse_loop E (c # cs) P = parse_loop E cs P"
  by (simp add: wordc_def)

lemma not_wordc [simp]: "\<not> wordc (CHR ''{'')" "\<not> wordc (CHR ''}'')" "\<not> wordc (CHR ''['')" "\<not> wordc (CHR '']'')"
  "\<not> wordc (CHR '','')" "\<not> wordc (CHR 0x22)"
  by (simp_all add: wordc_def is_digit_def is_alpha_def)

lemma lex_char:
  "jlex (CHR ''{'' # cs) = map_option (Cons (Open BLOCK)) (jlex cs)"
  "jlex (CHR ''}'' # cs) = map_option (Cons (Close BLOCK)) (jlex cs)"
  "jlex (CHR ''['' # cs) = map_option (Cons (Open SET)) (jlex cs)"
  "jlex (CHR '']'' # cs) = map_option (Cons (Close SET)) (jlex cs)"
  "jlex (CHR '','' # cs) = map_option (Cons Sep) (jlex cs)"
  "jlex (CHR 0x22 # cs) = (case unquote cs of None \<Rightarrow> None
     | Some (w, rest) \<Rightarrow> if length w < TOKENSZ then map_option (Cons (Word w)) (jlex rest) else None)"
  by simp_all

lemma lex_skip:
  "\<not> wordc c \<Longrightarrow> c \<notin> {CHR ''{'', CHR ''}'', CHR ''['', CHR '']'', CHR '','', CHR 0x22} \<Longrightarrow> jlex (c # cs) = jlex cs"
  by simp

lemma lex_word:
  assumes "wordc c"
  shows "jlex (c # cs) = (if length (takeWhile wordc (c # cs)) < TOKENSZ
           then map_option (Cons (Word (takeWhile wordc (c # cs)))) (jlex (dropWhile wordc cs)) else None)"
proof -
  have "c \<noteq> CHR ''{''" "c \<noteq> CHR ''}''" "c \<noteq> CHR ''[''" "c \<noteq> CHR '']''" using assms by auto
  then show ?thesis using assms by simp
qed

declare jlex.simps(2) [simp del] parse_loop.simps(2) [simp del]

lemma parse_loop_lex: "jlex cs = Some es \<Longrightarrow> parse_loop E cs P = obind (run_evs E es P) (\<lambda>P. Ret (0, P))"
proof (induction cs arbitrary: es P rule: measure_induct_rule [of length])
  case (less cs)
  have IH: "obind m (parse_loop E cs') = obind m (\<lambda>P. obind (run_evs E es' P) (\<lambda>P. Ret (0, P)))"
    if "length cs' < length cs" "jlex cs' = Some es'" for m :: "parser outcome" and cs' es'
    using less.IH [OF that] by (intro obind_cong) simp_all
  show ?case
  proof (cases cs)
    case (Cons c ds)
    consider "wordc c" | "c \<in> {CHR ''{'', CHR ''}'', CHR ''['', CHR '']'', CHR '',''}" | "c = CHR 0x22"
      | "\<not> wordc c" "c \<notin> {CHR ''{'', CHR ''}'', CHR ''['', CHR '']'', CHR '','', CHR 0x22}" by blast
    then show ?thesis
    proof cases
      case 1
      then obtain es' where w: "length (takeWhile wordc (c # ds)) < TOKENSZ" "jlex (dropWhile wordc ds) = Some es'"
        "es = Word (takeWhile wordc (c # ds)) # es'"
        using less.prems by (auto simp: Cons lex_word simp del: takeWhile.simps split: if_splits)
      have "length (dropWhile wordc ds) < length cs" by (simp add: Cons length_dropWhile_le less_Suc_eq_le)
      then show ?thesis using IH w(2) parse_loop_word [OF 1 w(1)] by (simp add: Cons w(3) obind_assoc del: takeWhile.simps)
    next
      case 2
      then show ?thesis using less.prems IH [of ds]
        by (elim insertE emptyE) (auto simp: Cons lex_char parse_loop_char obind_assoc simp del: run_ev.simps(4))
    next
      case 3
      then obtain w rest es' where w: "unquote ds = Some (w, rest)" "length w < TOKENSZ" "jlex rest = Some es'" "es = Word w # es'"
        using less.prems by (auto simp: Cons lex_char split: option.splits if_splits)
      have "length rest < length cs" using unquote_length [OF w(1)] by (simp add: Cons)
      then show ?thesis using IH w(3) parse_loop_quoted [OF w(1,2)] by (simp add: Cons 3 w(4) obind_assoc)
    next
      case 4
      then show ?thesis using less.prems less.IH [of ds] by (simp add: Cons lex_skip parse_loop_skip)
    qed
  qed (use less.prems in simp)
qed

section \<open>A text for every document\<close>

fun quote_chars :: "string \<Rightarrow> string" where
  "quote_chars [] = []"
| "quote_chars (c # cs) = (if c = CHR 0x22 \<or> c = CHR 0x5C then CHR 0x5C # c # quote_chars cs else c # quote_chars cs)"

definition quoted :: "string \<Rightarrow> string" where
  "quoted w = CHR 0x22 # quote_chars w @ [CHR 0x22]"

fun render :: "json \<Rightarrow> string" and prender :: "(string \<times> json) list \<Rightarrow> string" and erender :: "json list \<Rightarrow> string" where
  "render (Tok w) = quoted w"
| "render (Obj ps) = ''{'' @ prender ps @ ''}''"
| "render (Arr vs) = ''['' @ erender vs @ '']''"
| "prender [] = []"
| "prender ((k, v) # ps) = quoted k @ '': '' @ render v @ (if ps = [] then [] else '', '' @ prender ps)"
| "erender [] = []"
| "erender (v # vs) = render v @ (if vs = [] then [] else '', '' @ erender vs)"

text \<open>Every word fits into the token buffer.\<close>

fun words_fit :: "json \<Rightarrow> bool" and pwords_fit :: "(string \<times> json) list \<Rightarrow> bool" and ewords_fit :: "json list \<Rightarrow> bool" where
  "words_fit (Tok w) \<longleftrightarrow> length w < TOKENSZ"
| "words_fit (Obj ps) \<longleftrightarrow> pwords_fit ps"
| "words_fit (Arr vs) \<longleftrightarrow> ewords_fit vs"
| "pwords_fit [] \<longleftrightarrow> True"
| "pwords_fit ((k, v) # ps) \<longleftrightarrow> length k < TOKENSZ \<and> words_fit v \<and> pwords_fit ps"
| "ewords_fit [] \<longleftrightarrow> True"
| "ewords_fit (v # vs) \<longleftrightarrow> words_fit v \<and> ewords_fit vs"

lemma unquote_quote: "unquote (quote_chars w @ CHR 0x22 # rest) = Some (w, rest)"
  by (induction w) auto

lemma lex_quoted: "length w < TOKENSZ \<Longrightarrow> jlex (quoted w @ rest) = map_option (Cons (Word w)) (jlex rest)"
  by (simp add: quoted_def lex_char unquote_quote)

lemma lex_gap [simp]: "jlex (CHR '':'' # cs) = jlex cs" "jlex (CHR '' '' # cs) = jlex cs"
  by (simp_all add: lex_skip wordc_def is_digit_def is_alpha_def)

lemma lex_render:
  "words_fit v \<Longrightarrow> jlex (render v @ rest) = map_option (\<lambda>x. evs v @ x) (jlex rest)"
  "pwords_fit ps \<Longrightarrow> jlex (prender ps @ rest) = map_option (\<lambda>x. pevs ps @ x) (jlex rest)"
  "ewords_fit vs \<Longrightarrow> jlex (erender vs @ rest) = map_option (\<lambda>x. eevs vs @ x) (jlex rest)"
  by (induction v and ps and vs arbitrary: rest and rest and rest rule: evs_pevs_eevs.induct)
    (auto simp: lex_quoted lex_char map_option_case split: option.splits)

lemma lex_render_all: "words_fit v \<Longrightarrow> jlex (render v) = Some (evs v)"
  using lex_render(1) [of v "[]"] by simp

end
