(* ===== verification/Json_Parsed.thy ===== *)
theory Json_Parsed
  imports Json_Lex
begin

text \<open>What \<open>sjson_parse\<close> leaves in the store for the text of a document.\<close>

section \<open>The outermost level\<close>

text \<open>The opening bracket, the members or elements, the closing bracket.\<close>

lemma outer_bracket:
  assumes env: "json_env_ok cap E" "finite (dom F)" and p: "prep F [] [] P" and ty: "ty = BLOCK \<or> ty = SET"
    and u: "used F [] [] + 4 * length es + 8 \<le> cap"
    and inner: "\<And>b P. prep F [] ([] @ [[b]]) P \<Longrightarrow> fresh_as b ty 0 0
      \<Longrightarrow> \<exists>P' K' ms. obind (run_evs E es P) (new_named E STMT) = Ret P' \<and> prep F (K' @ []) ([] @ [[b] @ ms]) P'
            \<and> I b ms \<and> length K' = k \<and> 2 * jsize ms + length K' \<le> 4 * length es + 2"
  obtains V tbl s K' b ms where "run_evs E (Open ty # es @ [Close ty]) P = Ret (V, tbl, s)" "holds F (K' @ cells 0 (b # ms)) (js_heap s)"
    "tables [b # ms] tbl" "tb_lvl tbl = 0" "fresh_as b ty 0 0" "I b ms" "length K' = k" "2 * jsize (b # ms) + length K' \<le> 4 * length es + 4"
proof -
  have "length ([] :: jnode list list) < MAXL" "used F [] [] + 2 \<le> cap" using u by (simp_all add: MAXL_def)
  then obtain P1 b where b: "open_level E ty P = Ret P1" "prep F [] ([] @ [[b]]) P1" "fresh_as b ty (int (length ([] :: jnode list list))) 0"
    by (rule open_step [OF env p _ _ ty])
  from inner [OF b(2)] b(3) obtain P2 K' ms where ms: "obind (run_evs E es P1) (new_named E STMT) = Ret P2"
    "prep F (K' @ []) ([] @ [[b] @ ms]) P2" "I b ms" "length K' = k" "2 * jsize ms + length K' \<le> 4 * length es + 2" by auto
  obtain V tbl s where P2: "P2 = (V, tbl, s)" by (cases P2)
  have p2: "prep F K' [b # ms] (V, tbl, s)" using ms(2) by (simp add: P2)
  have "used F K' [b # ms] + 1 \<le> cap" using u ms(5) b(3) by (simp add: used_def fresh_as_def)
  then obtain V' s' where n: "new_named E ty (pop_state V, tbl, s) = Ret (V', tbl, s')" "holds F (K' @ cells 0 (b # ms)) (js_heap s')"
    by (rule close_outer [OF env p2])
  have "run_evs E (Open ty # es @ [Close ty]) P = obind (obind (run_evs E es P1) (new_named E STMT)) (\<lambda>(V, tbl, s). new_named E ty (pop_state V, tbl, s))"
    using b(1) by (simp add: run_evs_append close_level_def obind_assoc cong: obind_cong)
  then have "run_evs E (Open ty # es @ [Close ty]) P = Ret (V', tbl, s')" using ms(1) n(1) by (simp add: P2)
  moreover have "2 * jsize (b # ms) + length K' \<le> 4 * length es + 4" using ms(5) b(3) by (simp add: fresh_as_def)
  ultimately show thesis using n(2) p2 b(3) ms(3,4) by (rule_tac that) (auto simp: prep_def)
qed

text \<open>Members and elements behind the first node of the level.\<close>

lemma inner_pairs:
  assumes env: "json_env_ok cap E" "finite (dom F)" and b: "prep F [] ([] @ [[b]]) P" "fresh_as b BLOCK 0 0"
    and d: "Suc (pdepth ps) \<le> MAXL" and u: "card (dom F) + 4 * length (pevs ps) + 8 \<le> cap"
  shows "\<exists>P' K' ms. obind (run_evs E (pevs ps) P) (new_named E STMT) = Ret P' \<and> prep F (K' @ []) ([] @ [[b] @ ms]) P'
      \<and> pairs_ok 0 (j_addr b) ps ms \<and> length K' = 2 * empties (Obj ps) \<and> 2 * jsize ms + length K' \<le> 4 * length (pevs ps) + 2"
proof (cases "ps = []")
  case True
  have "used F [] ([] @ [[b]]) + 2 \<le> cap" "j_prev b = 0" using u b(2) by (simp_all add: fresh_as_def used_def)
  then obtain P' K' where "new_named E STMT P = Ret P'" "prep F (K' @ []) ([] @ [[b]]) P'" "length K' = 2"
    by (rule stmt_empty_step [OF env b(1)])
  with True show ?thesis by (intro exI [of _ P'] exI [of _ K'] exI [of _ "[]"]) simp
next
  case False
  have "j_type (hd [b]) \<noteq> SET" "length ([] :: jnode list list) + 1 + pdepth ps \<le> MAXL"
    "used F [] ([] @ [[b]]) + 4 * length (pevs ps) + 2 \<le> cap"
    using b(2) d u by (simp_all add: fresh_as_def node_types used_def)
  then obtain P' K' ms where "obind (run_evs E (pevs ps) P) (new_named E STMT) = Ret P'" "prep F (K' @ []) ([] @ [[b] @ ms]) P'"
    "pairs_ok (int (length ([] :: jnode list list))) (last_addr [b]) ps ms" "length K' = 2 * pempties ps" "2 * jsize ms + length K' \<le> 4 * length (pevs ps) + 2"
    by (rule builds_pairsD [OF builds_all(2) [OF env] False b(1)])
  with False show ?thesis by (intro exI [of _ P'] exI [of _ K'] exI [of _ ms]) simp
qed

lemma inner_elems:
  assumes env: "json_env_ok cap E" "finite (dom F)" and b: "prep F [] ([] @ [[b]]) P" "fresh_as b SET 0 0"
    and d: "Suc (edepth vs) \<le> MAXL" and u: "card (dom F) + 4 * length (eevs vs) + 8 \<le> cap"
  shows "\<exists>P' K' ms. obind (run_evs E (eevs vs) P) (new_named E STMT) = Ret P' \<and> prep F (K' @ []) ([] @ [[b] @ ms]) P'
      \<and> elems_ok 0 (j_addr b) vs ms \<and> length K' = 2 * empties (Arr vs) \<and> 2 * jsize ms + length K' \<le> 4 * length (eevs vs) + 2"
proof (cases "vs = []")
  case True
  have "used F [] ([] @ [[b]]) + 2 \<le> cap" "j_prev b = 0" using u b(2) by (simp_all add: fresh_as_def used_def)
  then obtain P' K' where "new_named E STMT P = Ret P'" "prep F (K' @ []) ([] @ [[b]]) P'" "length K' = 2"
    by (rule stmt_empty_step [OF env b(1)])
  with True show ?thesis by (intro exI [of _ P'] exI [of _ K'] exI [of _ "[]"]) simp
next
  case False
  have "j_type (hd [b]) = SET" "length ([] :: jnode list list) + 1 + edepth vs \<le> MAXL"
    "used F [] ([] @ [[b]]) + 4 * length (eevs vs) + 2 \<le> cap"
    using b(2) d u by (simp_all add: fresh_as_def node_types used_def)
  then obtain P' K' ms where "obind (run_evs E (eevs vs) P) (new_named E STMT) = Ret P'" "prep F (K' @ []) ([] @ [[b] @ ms]) P'"
    "elems_ok (int (length ([] :: jnode list list))) (headx 0 [b]) vs ms" "length K' = 2 * eempties vs" "2 * jsize ms + length K' \<le> 4 * length (eevs vs) + 2"
    by (rule builds_elemsD [OF builds_all(3) [OF env] False b(1)])
  with False show ?thesis by (intro exI [of _ P'] exI [of _ K'] exI [of _ ms]) simp
qed

section \<open>The parse of a document\<close>

lemma run_document:
  assumes env: "json_env_ok cap E" "finite (dom F)" and p: "prep F [] [] P" and v: "\<not> is_Tok v" "depth v \<le> MAXL"
    and u: "card (dom F) + 4 * length (evs v) \<le> cap"
  obtains V tbl s K ns where "run_evs E (evs v) P = Ret (V, tbl, s)" "holds F (K @ cells 0 ns) (js_heap s)"
    "tables [ns] tbl" "tb_lvl tbl = 0" "doc_tree v ns" "length K = 2 * empties v" "2 * jsize ns + length K \<le> 4 * length (evs v)"
proof (cases v)
  case (Obj ps)
  have d: "Suc (pdepth ps) \<le> MAXL" and u8: "card (dom F) + 4 * length (pevs ps) + 8 \<le> cap" using v u by (simp_all add: Obj)
  have "used F [] [] + 4 * length (pevs ps) + 8 \<le> cap" using u8 by (simp add: used_def)
  then obtain V tbl s K' b ms where "run_evs E (Open BLOCK # pevs ps @ [Close BLOCK]) P = Ret (V, tbl, s)" "holds F (K' @ cells 0 (b # ms)) (js_heap s)"
    "tables [b # ms] tbl" "tb_lvl tbl = 0" "fresh_as b BLOCK 0 0" "pairs_ok 0 (j_addr b) ps ms" "length K' = 2 * empties (Obj ps)"
    "2 * jsize (b # ms) + length K' \<le> 4 * length (pevs ps) + 4"
    by (rule outer_bracket [OF env p disjI1 [OF refl] _ inner_pairs [OF env _ _ d u8]])
  then show thesis by (intro that [of V tbl s K' "b # ms"]) (simp_all add: Obj doc_tree_def fresh_as_def inner_ok_def)
next
  case (Arr vs)
  have d: "Suc (edepth vs) \<le> MAXL" and u8: "card (dom F) + 4 * length (eevs vs) + 8 \<le> cap" using v u by (simp_all add: Arr)
  have "used F [] [] + 4 * length (eevs vs) + 8 \<le> cap" using u8 by (simp add: used_def)
  then obtain V tbl s K' b ms where "run_evs E (Open SET # eevs vs @ [Close SET]) P = Ret (V, tbl, s)" "holds F (K' @ cells 0 (b # ms)) (js_heap s)"
    "tables [b # ms] tbl" "tb_lvl tbl = 0" "fresh_as b SET 0 0" "elems_ok 0 (j_addr b) vs ms" "length K' = 2 * empties (Arr vs)"
    "2 * jsize (b # ms) + length K' \<le> 4 * length (eevs vs) + 4"
    by (rule outer_bracket [OF env p disjI2 [OF refl] _ inner_elems [OF env _ _ d u8]])
  then show thesis by (intro that [of V tbl s K' "b # ms"]) (simp_all add: Arr doc_tree_def fresh_as_def inner_ok_def)
qed (use v in simp)

lemma tables_init: "tables [] sjson_table_init"
  by (simp add: tables_def sjson_table_init_def tab_def)

lemma sjson_parse_document_size:
  assumes env: "json_env_ok cap E" "finite (dom (js_heap s))" and v: "\<not> is_Tok v" "depth v \<le> MAXL"
    and u: "card (dom (js_heap s)) + 4 * length (evs v) \<le> cap" and l: "jlex cs = Some (evs v)"
  obtains tbl s' K ns where "sjson_parse E cs s = Ret (0, tbl, s')" "holds (js_heap s) (K @ cells 0 ns) (js_heap s')"
    "tables [ns] tbl" "tb_lvl tbl = 0" "doc_tree v ns" "length K = 2 * empties v" "2 * jsize ns + length K \<le> 4 * length (evs v)"
proof -
  let ?P = "(\<lparr>pv_top = - 1, pv_blkn = 0, pv_setn = 0, pv_stmn = 0\<rparr>, sjson_table_init, s)"
  have "prep (js_heap s) [] [] ?P" using tables_init by (simp add: prep_def sjson_table_init_def)
  from run_document [OF env this v u] obtain V tbl s' K ns where r: "run_evs E (evs v) ?P = Ret (V, tbl, s')"
    "holds (js_heap s) (K @ cells 0 ns) (js_heap s')" "tables [ns] tbl" "tb_lvl tbl = 0" "doc_tree v ns" "length K = 2 * empties v"
    "2 * jsize ns + length K \<le> 4 * length (evs v)" by metis
  show thesis by (rule that [OF _ r(2-7)]) (simp add: sjson_parse_def parse_loop_lex [OF l] r(1))
qed

lemma sjson_parse_document:
  assumes "json_env_ok cap E" "finite (dom (js_heap s))" "\<not> is_Tok v" "depth v \<le> MAXL"
    "card (dom (js_heap s)) + 4 * length (evs v) \<le> cap" "jlex cs = Some (evs v)"
  obtains tbl s' K ns where "sjson_parse E cs s = Ret (0, tbl, s')" "holds (js_heap s) (K @ cells 0 ns) (js_heap s')"
    "tables [ns] tbl" "tb_lvl tbl = 0" "doc_tree v ns" "length K = 2 * empties v"
  by (rule sjson_parse_document_size [OF assms]) (rule that)

text \<open>Releasing the tree of a table leaves the lost blocks only.\<close>

lemma tables_doc:
  "tables [ns] tbl \<Longrightarrow> tb_root tbl = headx 0 ns # replicate 23 0 \<and> tb_last tbl = last_addr ns # replicate 23 0"
  by (simp add: tables_def tab_def MAXL_def)

lemma sjson_free_document:
  assumes "tables [ns] tbl" "holds F (K @ cells 0 ns) (js_heap s)"
  obtains s' where "sjson_free (Some tbl) s = Ret ((0, Some (tbl\<lparr>tb_root := replicate MAXL 0, tb_last := replicate MAXL 0\<rparr>)), s')"
    "holds F K (js_heap s')"
proof -
  have "holds F (cells 0 ns @ K) (js_heap s)" using assms(2) by (subst holds_perm) auto
  then obtain s' where s': "sjson_free_i (headx 0 ns) s = Ret s'" "holds F K (js_heap s')" by (rule sjson_free_i_law)
  have e: "0 # replicate 23 0 = replicate MAXL (0 :: addr)" by (simp add: MAXL_def numeral_eq_Suc)
  show thesis using tables_doc [OF assms(1)] s' by (intro that) (simp_all add: sjson_free_def Let_def e)
qed

end
