(* ===== verification/Json_Print_Laws.thy ===== *)
theory Json_Print_Laws
  imports Json_Print Json_Parsed
begin

text \<open>
  The printers write one text. However small the buffer is, the pieces a printer writes amount to a
  single \<open>snprintf\<close> of the concatenated text (\<open>overlay\<close>), and for the tree of a document that text has the
  tokens of the document again.
\<close>

section \<open>Buffers\<close>

definition overlay :: "string \<Rightarrow> int \<Rightarrow> int \<Rightarrow> string \<Rightarrow> string" where
  "overlay b off room txt =
     (if room \<le> 0 \<or> txt = [] then b
      else let t = take (nat (room - 1)) txt @ [NUL] in take (nat off) b @ t @ drop (nat off + length t) b)"

lemma length_overlay [simp]: "0 \<le> off \<Longrightarrow> off + room \<le> int (length b) \<Longrightarrow> length (overlay b off room txt) = length b"
  by (auto simp: overlay_def Let_def)

lemma overlay_Nil [simp]: "overlay b off room [] = b"
  by (simp add: overlay_def)

lemma overlay_append:
  assumes "0 \<le> off" "off + room \<le> int (length b)"
  shows "overlay (overlay b off room xs) (off + int (length xs)) (room - int (length xs)) ys = overlay b off room (xs @ ys)"
proof (cases "room \<le> 0 \<or> xs = [] \<or> ys = []")
  case True
  then show ?thesis by (auto simp: overlay_def)
next
  case False
  show ?thesis
  proof (cases "room \<le> int (length xs)")
    case True
    then show ?thesis using False by (simp add: overlay_def Let_def)
  next
    case short: False
    have t: "take (nat (room - 1)) xs = xs" using short by simp
    have n: "nat (off + int (length xs)) = nat off + length xs" "nat (room - int (length xs) - 1) = nat (room - 1) - length xs"
      using assms(1) by simp_all
    have o: "nat off \<le> length b" using assms False by linarith
    show ?thesis using False short o assms(1) by (simp add: overlay_def Let_def t n min_def ac_simps)
  qed
qed

lemma snprintf_overlay:
  assumes "0 \<le> off" "off + room \<le> int (length b)" "txt \<noteq> []"
  shows "snprintf_at off (if room < 0 then 0 else room) txt b = Ret (overlay b off room txt)"
  using assms by (auto simp: snprintf_at_def overlay_def Let_def)

text \<open>The buffer and the length after a text.\<close>

definition out :: "string \<Rightarrow> int \<Rightarrow> int \<Rightarrow> string \<Rightarrow> string \<times> int" where
  "out b off room txt = (overlay b off room txt, int (length txt))"

definition emits :: "(int \<Rightarrow> int \<Rightarrow> string \<times> int \<Rightarrow> (string \<times> int) outcome) \<Rightarrow> string \<Rightarrow> bool" where
  "emits f txt \<longleftrightarrow> (\<forall>b off room pre. 0 \<le> off \<longrightarrow> off + room \<le> int (length b)
     \<longrightarrow> f off room (out b off room pre) = Ret (out b off room (pre @ txt)))"

lemma emits_skip [simp]: "emits (\<lambda>off room. Ret) []"
  by (simp add: emits_def)

lemma emits_seq:
  "emits f xs \<Longrightarrow> emits g ys \<Longrightarrow> emits (\<lambda>off room B. obind (f off room B) (g off room)) (xs @ ys)"
  by (simp add: emits_def)

lemma emits_dbgp: "txt \<noteq> [] \<Longrightarrow> emits (\<lambda>off room. dbgp off room txt) txt"
  unfolding emits_def
proof (intro allI impI)
  fix b pre :: string and off room :: int
  assume t: "txt \<noteq> []" and o: "0 \<le> off" "off + room \<le> int (length b)"
  have "(if room < int (length pre) then 0 else room - int (length pre)) = (if room - int (length pre) < 0 then 0 else room - int (length pre))" by simp
  then show "dbgp off room txt (out b off room pre) = Ret (out b off room (pre @ txt))"
    using snprintf_overlay [of "off + int (length pre)" "room - int (length pre)" "overlay b off room pre" "txt"] t o
    by (simp add: dbgp_def out_def overlay_append)
qed

lemma emits_dbgp_n: "emits (\<lambda>off room. dbgp_n k off room) (concat (replicate k ''  ''))"
proof (induction k)
  case (Suc k)
  have "emits (\<lambda>off room B. obind (dbgp off room ''  '' B) (dbgp_n k off room)) (''  '' @ concat (replicate k ''  ''))"
    by (rule emits_seq [OF emits_dbgp Suc.IH]) simp
  then show ?case by (simp add: emits_def)
qed (simp add: emits_def)

section \<open>The recursion\<close>

definition prints :: "json_state \<Rightarrow> addr \<Rightarrow> bool \<Rightarrow> string \<Rightarrow> bool" where
  "prints s a sp txt \<longleftrightarrow> (\<forall>b off room. 0 \<le> off \<longrightarrow> off + room \<le> int (length b)
     \<longrightarrow> json_print_rec a off room sp s b = Some (Ret (out b off room txt)))"

lemma prints_NULL [simp]: "prints s 0 sp []"
  by (simp add: prints_def json_print_rec.simps [of 0] out_def)

lemma emitsD: "emits f txt \<Longrightarrow> 0 \<le> off \<Longrightarrow> off + room \<le> int (length b)
    \<Longrightarrow> f off room (overlay b off room pre, int (length pre)) = Ret (overlay b off room (pre @ txt), int (length (pre @ txt)))"
  by (simp add: emits_def out_def)

lemma printsD: "prints s a sp txt \<Longrightarrow> 0 \<le> off \<Longrightarrow> off + room \<le> int (length b)
    \<Longrightarrow> json_print_rec a (off + int (length pre)) (room - int (length pre)) sp s (overlay b off room pre)
        = Some (Ret (overlay b off room (pre @ txt), int (length txt)))"
  by (simp add: prints_def out_def overlay_append)

lemma prints_node:
  assumes n: "load_node a s = Ret n" "a \<noteq> 0"
    and hd: "emits (\<lambda>off room. json_head a n off room sp s) t1" and v: "prints s (sn_value n) True t2"
    and b: "prints s (sn_bros n) False t3" and tl: "emits (\<lambda>off room. json_tail a n off room sp s) t4"
  shows "prints s a sp (t1 @ t2 @ t3 @ t4)"
  unfolding prints_def
proof (intro allI impI)
  fix buf :: string and off room :: int
  assume o: "0 \<le> off" "off + room \<le> int (length buf)"
  have h1: "json_head a n off room sp s (buf, 0) = Ret (overlay buf off room t1, int (length t1))"
    using emitsD [OF hd o, of "[]"] by simp
  have h4: "json_tail a n off room sp s (overlay buf off room (t1 @ t2 @ t3), int (length (t1 @ t2 @ t3))) = Ret (out buf off room (t1 @ t2 @ t3 @ t4))"
    using emitsD [OF tl o, of "t1 @ t2 @ t3"] by (simp add: out_def)
  show "json_print_rec a off room sp s buf = Some (Ret (out buf off room (t1 @ t2 @ t3 @ t4)))"
    using n h1 h4 printsD [OF v o, of t1] printsD [OF b o, of "t1 @ t2"]
    by (simp add: json_print_rec.simps [of a] Let_def algebra_simps)
qed

section \<open>Texts and their tokens\<close>

definition lexes :: "string \<Rightarrow> ev list \<Rightarrow> bool" where
  "lexes txt es \<longleftrightarrow> (\<forall>rest. jlex (txt @ rest) = map_option (\<lambda>x. es @ x) (jlex rest))"

lemma lexes_Nil [simp]: "lexes [] []"
  by (simp add: lexes_def option.map_ident)

lemma lexes_append: "lexes xs es \<Longrightarrow> lexes ys fs \<Longrightarrow> lexes (xs @ ys) (es @ fs)"
  by (simp add: lexes_def option.map_comp comp_def)

lemma lexes_char [simp]:
  assumes "lexes xs es"
  shows "lexes (CHR ''{'' # xs) (Open BLOCK # es)" "lexes (CHR ''['' # xs) (Open SET # es)"
    "lexes (CHR ''}'' # xs) (Close BLOCK # es)" "lexes (CHR '']'' # xs) (Close SET # es)" "lexes (CHR '','' # xs) (Sep # es)"
  using assms by (simp_all add: lexes_def lex_char option.map_comp comp_def)

lemma lexes_blank [simp]: "lexes (CHR '' '' # xs) es \<longleftrightarrow> lexes xs es" "lexes (NLC # xs) es \<longleftrightarrow> lexes xs es" "lexes (CHR '':'' # xs) es \<longleftrightarrow> lexes xs es"
  by (simp_all add: lexes_def NLC_def lex_skip wordc_def is_digit_def is_alpha_def)

lemma lexes_spaces [simp]: "lexes (concat (replicate k ''  '')) []"
  by (induction k) simp_all

text \<open>The printers do not escape: a name may not hold quotes or backslashes.\<close>

definition plain :: "string \<Rightarrow> bool" where
  "plain w \<longleftrightarrow> length w < TOKENSZ \<and> CHR 0x22 \<notin> set w \<and> CHR 0x5C \<notin> set w"

lemma unquote_plain: "CHR 0x22 \<notin> set w \<Longrightarrow> CHR 0x5C \<notin> set w \<Longrightarrow> unquote (w @ CHR 0x22 # rest) = Some (w, rest)"
  by (induction w) auto

lemma lexes_word:
  assumes "plain w" "lexes xs es"
  shows "lexes (CHR 0x22 # w @ CHR 0x22 # xs) (Word w # es)"
  using assms by (simp add: plain_def lexes_def lex_char unquote_plain option.map_comp comp_def)

end
