(* ===== verification/Json_Reprint.thy ===== *)
theory Json_Reprint
  imports Json_Print_Laws
begin

text \<open>The text that \<open>sjson_print_json\<close> writes for the tree of a document has the tokens of the document.\<close>

section \<open>Walks along a chain\<close>

lemma walk_before:
  assumes "holds F cs (js_heap s)"
  shows "set (cells e (c # pre @ n # post)) \<subseteq> set cs \<Longrightarrow> \<exists>m\<in>set (c # pre). \<exists>r.
    while_o (\<lambda>(p, b). p \<noteq> 0 \<and> b \<noteq> j_addr n) (\<lambda>(p, b). if b = 0 then Ret (0, 0) else obind (load_node b s) (\<lambda>n. Ret (b, sn_bros n)))
      (j_addr c, headx e (pre @ n # post)) = Ret (j_addr m, r)"
proof (induction pre arbitrary: c)
  case (Cons d pre)
  let ?W = "while_o (\<lambda>(p, b). p \<noteq> 0 \<and> b \<noteq> j_addr n) (\<lambda>(p, b). if b = 0 then Ret (0, 0) else obind (load_node b s) (\<lambda>n. Ret (b, sn_bros n)))"
  have c: "(j_addr c, NodeObj (node_obj (j_addr d) c)) \<in> set cs" "(j_addr d, NodeObj (node_obj (headx e (pre @ n # post)) d)) \<in> set cs"
    "set (cells e (d # pre @ n # post)) \<subseteq> set cs" using Cons.prems by auto
  from Cons.IH [OF c(3)] obtain m r where m: "m \<in> set (d # pre)" "?W (j_addr d, headx e (pre @ n # post)) = Ret (j_addr m, r)" by blast
  show ?case
  proof (cases "j_addr d = j_addr n")
    case False
    then have "?W (j_addr c, j_addr d) = Ret (j_addr m, r)"
      using m(2) load_node_cell [OF assms c(2)] holds_get(2) [OF assms c(1)] holds_get(2) [OF assms c(2)] by (simp add: while_o_step)
    then show ?thesis using m(1) by auto
  qed auto
qed simp

lemma bros_before_chain:
  assumes "holds F cs (js_heap s)" "set (cells e (c # pre @ n # post)) \<subseteq> set cs"
  obtains m k where "bros_before (j_addr n) (j_addr c) s = Ret m" "load_node m s = Ret k"
proof -
  have c: "(j_addr c, NodeObj (node_obj (headx e (pre @ n # post)) c)) \<in> set cs" using assms(2) by auto
  from walk_before [OF assms] obtain m r where m: "m \<in> set (c # pre)"
    "while_o (\<lambda>(p, b). p \<noteq> 0 \<and> b \<noteq> j_addr n) (\<lambda>(p, b). if b = 0 then Ret (0, 0) else obind (load_node b s) (\<lambda>n. Ret (b, sn_bros n)))
      (j_addr c, headx e (pre @ n # post)) = Ret (j_addr m, r)" by blast
  from m(1) have "\<exists>k. (j_addr m, NodeObj k) \<in> set (cells e (c # pre @ n # post))" by (induction pre arbitrary: c) auto
  then obtain k where "load_node (j_addr m) s = Ret k" using load_node_cell [OF assms(1)] assms(2) by blast
  then show thesis
    using that [of "j_addr m" k] m(2) load_node_cell [OF assms(1) c] holds_get(2) [OF assms(1) c]
    by (simp add: bros_before_def del: headx_append)
qed

lemma bros_last_chain:
  assumes "holds F cs (js_heap s)"
  shows "set (cells 0 (q # post)) \<subseteq> set cs \<Longrightarrow> \<exists>m k. bros_last (j_addr q) s = Ret m \<and> load_node m s = Ret k"
proof (induction post arbitrary: q)
  case Nil
  then show ?case using load_node_cell [OF assms, of "j_addr q" "node_obj 0 q"] by (auto simp: bros_last_def)
next
  case (Cons p post)
  have c: "(j_addr q, NodeObj (node_obj (j_addr p) q)) \<in> set cs" "(j_addr p, NodeObj (node_obj (headx 0 post) p)) \<in> set cs"
    "set (cells 0 (p # post)) \<subseteq> set cs" using Cons.prems by auto
  from Cons.IH [OF c(3)] show ?case
    using load_node_cell [OF assms c(1)] load_node_cell [OF assms c(2)] holds_get(2) [OF assms c(2)]
    by (auto simp: bros_last_def while_o_step)
qed

section \<open>The pieces of a node\<close>

definition sep :: "u32 \<Rightarrow> ev list" where
  "sep f = (if f AND F_COMMA \<noteq> 0 then [Sep] else [])"

lemma sep_simps [simp]: "sep 0 = []" "sep F_COMMA = [Sep]"
  by (simp_all add: sep_def F_COMMA_def)

text \<open>A piece of output that has the tokens \<open>es\<close>; white space has none.\<close>

definition says :: "(int \<Rightarrow> int \<Rightarrow> string \<times> int \<Rightarrow> (string \<times> int) outcome) \<Rightarrow> ev list \<Rightarrow> bool" where
  "says f es \<longleftrightarrow> (\<exists>t. emits f t \<and> lexes t es)"

lemma says_skip [simp]: "says (\<lambda>off room. Ret) []"
  using emits_skip lexes_Nil unfolding says_def by blast

lemma says_seq: "says f es \<Longrightarrow> says g fs \<Longrightarrow> says (\<lambda>off room B. obind (f off room B) (g off room)) (es @ fs)"
  unfolding says_def using emits_seq lexes_append by blast

lemma says_dbgp: "lexes t es \<Longrightarrow> t \<noteq> [] \<Longrightarrow> says (\<lambda>off room. dbgp off room t) es"
  unfolding says_def using emits_dbgp by blast

lemma says_dbgp_n [simp]: "says (\<lambda>off room. dbgp_n k off room) []"
  unfolding says_def using emits_dbgp_n lexes_spaces by blast

lemma says_if: "(c \<Longrightarrow> says f es) \<Longrightarrow> (\<not> c \<Longrightarrow> says g es) \<Longrightarrow> says (\<lambda>off room B. if c then f off room B else g off room B) es"
  by (cases c) simp_all

lemma says_eq: "says f es \<Longrightarrow> (\<And>off room B. g off room B = f off room B) \<Longrightarrow> says g es"
proof -
  assume f: "says f es" "\<And>off room B. g off room B = f off room B"
  have "g = f" using f(2) by (intro ext)
  then show ?thesis using f(1) by simp
qed

lemma says_space: "says (\<lambda>off room B. if c then (if d then dbgp_n k off room B else Ret B) else dbgp off room '' '' B) []"
  by (intro says_if says_dbgp_n says_dbgp) simp_all

lemma says_pre: "says f [] \<Longrightarrow> says g es \<Longrightarrow> says (\<lambda>off room B. obind (f off room B) (g off room)) es"
  using says_seq [of f "[]" g es] by simp

lemma says_post: "says f es \<Longrightarrow> says g [] \<Longrightarrow> says (\<lambda>off room B. obind (f off room B) (g off room)) es"
  using says_seq [of f es g "[]"] by simp

lemma head_block:
  assumes "sn_type n = BLOCK" "sn_value n = 0" "sjson_json_lookback a [BLOCK, STMT] s = Ret r"
  shows "says (\<lambda>off room. json_head a n off room sp s) [Open BLOCK]"
proof -
  have "says (\<lambda>off room B. obind (if r = 0 then (if sp then dbgp_n (nat (sn_lvl n)) off room B else Ret B) else dbgp off room '' '' B)
      (dbgp off room (''{'' @ [NLC]))) [Open BLOCK]"
    by (rule says_pre [OF says_space says_dbgp]) simp_all
  then show ?thesis by (rule says_eq) (simp add: json_head_def json_head_block_def assms)
qed

lemma head_set:
  assumes "sn_type n = SET" "sn_value n = 0" "sjson_json_lookback a [SET, STMT] s = Ret r"
    and "sn_bros n \<noteq> 0 \<Longrightarrow> load_node (sn_bros n) s = Ret p"
  shows "says (\<lambda>off room. json_head a n off room sp s) [Open SET]"
proof -
  let ?c = "sn_bros n \<noteq> 0 \<and> sn_type p \<noteq> TOKEN"
  have "says (\<lambda>off room B. obind (dbgp off room ''['' B) (\<lambda>B. if ?c then dbgp off room [NLC] B else Ret B)) [Open SET]"
    by (rule says_post [OF says_dbgp says_if]) (simp_all add: says_dbgp)
  from says_pre [OF says_space [where c = "r = 0" and d = sp and k = "nat (sn_lvl n)"] this] show ?thesis
    by (rule says_eq) (use assms(4) in \<open>auto simp: json_head_def json_head_set_def assms(1-3) intro!: obind_cong\<close>)
qed

lemma head_token:
  assumes "sn_type n = TOKEN" "sn_symbol n \<noteq> 0" "load_str (sn_symbol n) s = Ret nm" "plain nm" "sn_flag n AND F_DEL = 0"
    and d: "in_set a s = Ret d" and b: "d \<Longrightarrow> bros_before a (sn_prev n) s = Ret m \<and> load_node m s = Ret k"
    and q: "sn_bros n \<noteq> 0 \<Longrightarrow> load_node (sn_bros n) s = Ret q"
  shows "says (\<lambda>off room. json_head a n off room sp s) (Word nm # (if d \<and> sn_bros n \<noteq> 0 then [Sep] else []))"
proof -
  let ?c1 = "sn_value n \<noteq> 0 \<and> sp" and ?c2 = "d \<and> sn_type k \<noteq> TOKEN \<and> sn_type k \<noteq> SET"
  let ?t = "CHR 0x22 # nm @ CHR 0x22 # (if sn_value n \<noteq> 0 then '': '' else [])"
  have 1: "says (\<lambda>off room B. if ?c1 then dbgp_n (nat (sn_lvl n)) off room B else Ret B) []" by (intro says_if) simp_all
  have 2: "says (\<lambda>off room B. if ?c2 then dbgp_n (nat (sn_lvl n + 1)) off room B else Ret B) []" by (intro says_if) simp_all
  have 3: "says (\<lambda>off room. dbgp off room ?t) [Word nm]" by (rule says_dbgp [OF lexes_word [OF assms(4)]]) simp_all
  have 5: "says (\<lambda>off room B. if sn_type q \<noteq> TOKEN then dbgp off room [NLC] B else Ret B) []" by (intro says_if says_dbgp) simp_all
  have c: "says (\<lambda>off room. dbgp off room '', '') [Sep]" by (rule says_dbgp) simp_all
  have 4: "says (\<lambda>off room B. if d \<and> sn_bros n \<noteq> 0
      then obind (dbgp off room '', '' B) (\<lambda>B. if sn_type q \<noteq> TOKEN then dbgp off room [NLC] B else Ret B) else Ret B)
     (if d \<and> sn_bros n \<noteq> 0 then [Sep] else [])"
    using says_post [OF c 5] by (cases "d \<and> sn_bros n \<noteq> 0") auto
  from says_pre [OF 1 says_pre [OF 2 says_seq [OF 3 4]]] show ?thesis unfolding append_Cons append_Nil
    by (rule says_eq) (use b q in \<open>auto simp: json_head_def json_head_token_def multiple_node_def node_types assms(1-3,5) d obind_assoc intro!: obind_cong\<close>)
qed

lemma tail_block:
  assumes "sn_type n = BLOCK" "sn_value n = 0"
  shows "says (\<lambda>off room. json_tail a n off room sp s) (Close BLOCK # sep (sn_flag n))"
proof -
  let ?c = "sn_flag n AND F_COMMA \<noteq> 0"
  have 1: "says (\<lambda>off room B. if sp then dbgp_n (nat (sn_lvl n)) off room B else Ret B) []" by (intro says_if) simp_all
  have 2: "says (\<lambda>off room. dbgp off room (if ?c then ''},'' else ''}'')) (Close BLOCK # sep (sn_flag n))"
    by (rule says_dbgp) (simp_all add: sep_def)
  have 3: "says (\<lambda>off room. dbgp off room [NLC]) []" by (rule says_dbgp) simp_all
  from says_pre [OF 1 says_post [OF 2 3]] show ?thesis by (rule says_eq) (simp add: json_tail_def assms)
qed

lemma tail_set:
  assumes "sn_type n = SET" "sn_value n = 0" "sn_bros n \<noteq> 0 \<Longrightarrow> bros_last (sn_bros n) s = Ret q \<and> load_node q s = Ret k"
  shows "says (\<lambda>off room. json_tail a n off room sp s) (Close SET # sep (sn_flag n))"
proof -
  let ?c = "sn_flag n AND F_COMMA \<noteq> 0" and ?d = "sn_bros n \<noteq> 0 \<and> sn_type k \<noteq> TOKEN \<and> sp"
  have 1: "says (\<lambda>off room B. if ?d then dbgp_n (nat (sn_lvl n)) off room B else Ret B) []" by (intro says_if) simp_all
  have 2: "says (\<lambda>off room. dbgp off room (if ?c then ''],'' @ [NLC] else '']'' @ [NLC])) (Close SET # sep (sn_flag n))"
    by (rule says_dbgp) (simp_all add: sep_def)
  from says_pre [OF 1 2] show ?thesis by (rule says_eq) (use assms(3) in \<open>auto simp: json_tail_def assms(1,2) node_types\<close>)
qed

lemma tail_token:
  assumes "sn_type n = TOKEN" "in_set a s = Ret d"
  shows "says (\<lambda>off room. json_tail a n off room sp s) (if \<not> d \<and> sn_value n = 0 \<and> sn_bros n = 0 then sep (sn_flag n) else [])"
proof -
  let ?c = "sn_flag n AND F_COMMA \<noteq> 0" and ?d = "\<not> d \<and> sn_value n = 0 \<and> sn_bros n = 0"
  have "says (\<lambda>off room B. if ?d then dbgp off room (if ?c then '','' @ [NLC] else [NLC]) B else Ret B) (if ?d then sep (sn_flag n) else [])"
    by (cases ?d) (auto intro!: says_dbgp simp: sep_def)
  then show ?thesis by (rule says_eq) (simp add: json_tail_def multiple_node_def node_types assms)
qed

section \<open>The whole tree\<close>

definition spells :: "json_state \<Rightarrow> addr \<Rightarrow> bool \<Rightarrow> ev list \<Rightarrow> bool" where
  "spells s a sp es \<longleftrightarrow> (\<exists>t. prints s a sp t \<and> lexes t es)"

lemma spells_NULL [simp]: "spells s 0 sp []"
  using prints_NULL lexes_Nil unfolding spells_def by blast

lemma spells_node:
  assumes "load_node a s = Ret n" "a \<noteq> 0" "says (\<lambda>off room. json_head a n off room sp s) e1" "spells s (sn_value n) True e2"
    "spells s (sn_bros n) False e3" "says (\<lambda>off room. json_tail a n off room sp s) e4" "es = e1 @ e2 @ e3 @ e4"
  shows "spells s a sp es"
proof -
  obtain t1 t2 t3 t4 where "emits (\<lambda>off room. json_head a n off room sp s) t1" "lexes t1 e1" "prints s (sn_value n) True t2" "lexes t2 e2"
    "prints s (sn_bros n) False t3" "lexes t3 e3" "emits (\<lambda>off room. json_tail a n off room sp s) t4" "lexes t4 e4"
    using assms(3-6) by (auto simp: says_def spells_def)
  then show ?thesis unfolding spells_def assms(7)
    using prints_node [OF assms(1,2)] lexes_append by metis
qed

lemma spells_leaf:
  assumes "load_node a s = Ret n" "a \<noteq> 0" "sn_value n = 0" "says (\<lambda>off room. json_head a n off room sp s) e1"
    "spells s (sn_bros n) False e3" "says (\<lambda>off room. json_tail a n off room sp s) e4" "es = e1 @ e3 @ e4"
  shows "spells s a sp es"
  by (rule spells_node [OF assms(1,2,4) _ assms(5,6), of "[]"]) (simp_all add: assms(3,7))

lemma node_cell:
  assumes "holds F cs (js_heap s)" "set (cells e (n # ns)) \<subseteq> set cs"
  shows "load_node (j_addr n) s = Ret (node_obj (headx e ns) n)" "j_addr n \<noteq> 0" "j_sym n \<noteq> 0" "load_str (j_sym n) s = Ret (j_name n)"
    "set (cells 0 (j_val n)) \<subseteq> set cs" "set (cells e ns) \<subseteq> set cs"
proof -
  have c: "(j_addr n, NodeObj (node_obj (headx e ns) n)) \<in> set cs" "(j_sym n, StrObj (j_name n)) \<in> set cs" using assms(2) by auto
  show "load_node (j_addr n) s = Ret (node_obj (headx e ns) n)" "load_str (j_sym n) s = Ret (j_name n)" "j_addr n \<noteq> 0" "j_sym n \<noteq> 0"
    using load_node_cell [OF assms(1) c(1)] load_str_cell [OF assms(1) c(2)] holds_get(2) [OF assms(1) c(1)] holds_get(2) [OF assms(1) c(2)] by simp_all
  show "set (cells 0 (j_val n)) \<subseteq> set cs" "set (cells e ns) \<subseteq> set cs" using assms(2) by auto
qed

lemma head_cell:
  assumes "holds F cs (js_heap s)" "set (cells 0 ns) \<subseteq> set cs" "headx 0 ns \<noteq> 0"
  shows "load_node (headx 0 ns) s = Ret (node_obj (headx 0 (tl ns)) (hd ns))"
  using node_cell(1) [OF assms(1), of 0 "hd ns" "tl ns"] assms(2,3) by (cases ns) simp_all

lemma lookback_ok:
  assumes "load_node a s = Ret n" "a \<noteq> 0" "sn_prev n \<noteq> 0 \<Longrightarrow> load_node (sn_prev n) s = Ret m"
    "sn_prev n \<noteq> 0 \<Longrightarrow> sn_prev m \<noteq> 0 \<Longrightarrow> load_node (sn_prev m) s = Ret k"
  shows "\<exists>r. sjson_json_lookback a [ty, STMT] s = Ret r"
  using assms by (cases "sn_prev n = 0"; cases "sn_type m = ty"; cases "sn_prev m = 0") (simp_all add: sjson_json_lookback_def)

lemma block_spells:
  assumes h: "holds F cs (js_heap s)" "set (cells 0 (b # ms)) \<subseteq> set cs" and b: "inner_ok b BLOCK l f"
    and lb: "sjson_json_lookback (j_addr b) [BLOCK, STMT] s = Ret r" and ms: "spells s (headx 0 ms) False es"
  shows "spells s (j_addr b) sp (Open BLOCK # es @ Close BLOCK # sep f)"
proof -
  have v: "j_val b = []" "j_type b = BLOCK" "j_flag b = f" using b by (simp_all add: inner_ok_def)
  show ?thesis
    by (rule spells_leaf [OF node_cell(1,2) [OF h] _ head_block [OF _ _ lb] _ tail_block]) (use v ms in simp_all)
qed

lemma set_spells:
  assumes h: "holds F cs (js_heap s)" "set (cells 0 (b # ms)) \<subseteq> set cs" and b: "inner_ok b SET l f"
    and lb: "sjson_json_lookback (j_addr b) [SET, STMT] s = Ret r" and ms: "spells s (headx 0 ms) False es"
  shows "spells s (j_addr b) sp (Open SET # es @ Close SET # sep f)"
proof -
  have v: "j_val b = []" "j_type b = SET" "j_flag b = f" using b by (simp_all add: inner_ok_def)
  note c = node_cell [OF h]
  have "\<exists>q k. headx 0 ms \<noteq> 0 \<longrightarrow> bros_last (headx 0 ms) s = Ret q \<and> load_node q s = Ret k"
    using bros_last_chain [OF h(1)] c(6) by (cases ms) auto
  then obtain q k where q: "headx 0 ms \<noteq> 0 \<Longrightarrow> bros_last (headx 0 ms) s = Ret q \<and> load_node q s = Ret k" by blast
  let ?n = "node_obj (headx 0 ms) b"
  have hd: "says (\<lambda>off room. json_head (j_addr b) ?n off room sp s) [Open SET]"
    by (rule head_set [OF _ _ lb]) (use v head_cell [OF h(1) c(6)] in simp_all)
  have tl: "says (\<lambda>off room. json_tail (j_addr b) ?n off room sp s) (Close SET # sep (sn_flag ?n))"
    by (rule tail_set [where q = q and k = k]) (use v q in simp_all)
  show ?thesis by (rule spells_leaf [OF c(1,2) _ hd _ tl]) (use v ms in simp_all)
qed

text \<open>A node around a bracket writes nothing itself.\<close>

lemma wrapper_spells:
  assumes h: "holds F cs (js_heap s)" "set (cells 0 (n # ns)) \<subseteq> set cs" and n: "j_type n = BLOCK \<or> j_type n = SET" "j_val n \<noteq> []"
    and v: "spells s (headx 0 (j_val n)) True es" and b: "spells s (headx 0 ns) False fs"
  shows "spells s (j_addr n) sp (es @ fs)"
proof -
  note c = node_cell [OF h]
  have "headx 0 (j_val n) \<noteq> 0" using n(2) node_cell(2) [OF h(1), of 0 "hd (j_val n)" "tl (j_val n)"] c(5) by (cases "j_val n") auto
  then have "multiple_node (node_obj (headx 0 ns) n) \<and> sn_value (node_obj (headx 0 ns) n) \<noteq> 0" using n(1) by (simp add: multiple_node_def)
  then have w: "says (\<lambda>off room. json_head (j_addr n) (node_obj (headx 0 ns) n) off room sp s) []"
    "says (\<lambda>off room. json_tail (j_addr n) (node_obj (headx 0 ns) n) off room sp s) []"
    by (auto intro!: says_eq [OF says_skip] simp: json_head_def json_tail_def)
  show ?thesis by (rule spells_node [OF c(1,2) w(1) _ _ w(2)]) (use v b in simp_all)
qed

lemma in_set_prev:
  assumes "load_node a s = Ret n" "sn_prev n \<noteq> 0" "load_node (sn_prev n) s = Ret m"
  shows "in_set a s = Ret (sn_type m = SET)"
  using assms by (simp add: in_set_def sjson_set_member_def)

text \<open>A token: a key with its value, a value, or an element of a set.\<close>

lemma key_spells:
  assumes h: "holds F cs (js_heap s)" "set (cells 0 [t]) \<subseteq> set cs" and t: "j_type t = TOKEN" "j_flag t = 0" "plain (j_name t)" "j_val t \<noteq> []"
    and p: "j_prev t \<noteq> 0" "load_node (j_prev t) s = Ret m" "sn_type m \<noteq> SET" and v: "spells s (headx 0 (j_val t)) True es"
  shows "spells s (j_addr t) sp (Word (j_name t) # es)"
proof -
  note c = node_cell [OF h]
  have d: "in_set (j_addr t) s = Ret False" using in_set_prev [OF c(1)] p by simp
  have v0: "headx 0 (j_val t) \<noteq> 0" using t(4) node_cell(2) [OF h(1), of 0 "hd (j_val t)" "tl (j_val t)"] c(5) by (cases "j_val t") auto
  have hd: "says (\<lambda>off room. json_head (j_addr t) (node_obj 0 t) off room sp s) [Word (j_name t)]"
    using head_token [of "node_obj 0 t" s "j_name t" "j_addr t" False] t c d by simp
  have tl: "says (\<lambda>off room. json_tail (j_addr t) (node_obj 0 t) off room sp s) []"
    using tail_token [of "node_obj 0 t" "j_addr t" s False] t(1) d v0 by simp
  have n: "load_node (j_addr t) s = Ret (node_obj 0 t)" using c(1) by simp
  show ?thesis by (rule spells_node [OF n c(2) hd _ _ tl, of es "[]"]) (use v in simp_all)
qed

lemma value_spells:
  assumes h: "holds F cs (js_heap s)" "set (cells 0 [t]) \<subseteq> set cs" and t: "val_ok l f (Tok w) t" "f AND F_DEL = 0" "plain w"
    and p: "j_prev t \<noteq> 0" "load_node (j_prev t) s = Ret m" "sn_type m \<noteq> SET"
  shows "spells s (j_addr t) sp (Word w # sep f)"
proof -
  note c = node_cell [OF h]
  have d: "in_set (j_addr t) s = Ret False" using in_set_prev [OF c(1)] p by simp
  have hd: "says (\<lambda>off room. json_head (j_addr t) (node_obj 0 t) off room sp s) [Word w]"
    using head_token [of "node_obj 0 t" s w "j_addr t" False] t c d by simp
  have tl: "says (\<lambda>off room. json_tail (j_addr t) (node_obj 0 t) off room sp s) (sep f)"
    using tail_token [of "node_obj 0 t" "j_addr t" s False] t(1) d by simp
  have n: "load_node (j_addr t) s = Ret (node_obj 0 t)" using c(1) by simp
  show ?thesis by (rule spells_leaf [OF n c(2) _ hd _ tl, of "[]"]) (use t in simp_all)
qed

lemma elem_spells:
  assumes h: "holds F cs (js_heap s)" "set (cells 0 (b # pre @ t # post)) \<subseteq> set cs" and t: "val_ok l 0 (Tok w) t" "plain w"
    and b: "j_prev t = j_addr b" "j_type b = SET" and v: "spells s (headx 0 post) False es"
  shows "spells s (j_addr t) sp (Word w # (if post = [] then [] else [Sep]) @ es)"
proof -
  have cb: "set (cells (j_addr t) (b # pre)) \<subseteq> set cs" "set (cells 0 (t # post)) \<subseteq> set cs" using h(2) by auto
  note c = node_cell [OF h(1) cb(2)] and cb = node_cell [OF h(1) cb(1)]
  have d: "in_set (j_addr t) s = Ret True" using in_set_prev [OF c(1)] b cb(1,2) by simp
  obtain m k where m: "bros_before (j_addr t) (j_addr b) s = Ret m" "load_node m s = Ret k" by (rule bros_before_chain [OF h])
  have p: "headx 0 post = 0 \<longleftrightarrow> post = []" using node_cell(2) [OF h(1), of 0 "hd post" "tl post"] c(6) by (cases post) auto
  let ?n = "node_obj (headx 0 post) t"
  have hd: "says (\<lambda>off room. json_head (j_addr t) ?n off room sp s) (Word w # (if True \<and> sn_bros ?n \<noteq> 0 then [Sep] else []))"
    by (rule head_token [where m = m and k = k and q = "node_obj (headx 0 (tl post)) (hd post)"])
      (use t c d m b head_cell [OF h(1) c(6)] in simp_all)
  have tl: "says (\<lambda>off room. json_tail (j_addr t) ?n off room sp s) []"
    using tail_token [of ?n "j_addr t" s True] t(1) d by simp
  show ?thesis by (rule spells_leaf [OF c(1,2) _ hd _ tl, of es]) (use t v p in simp_all)
qed

fun json_plain :: "json \<Rightarrow> bool" and pairs_plain :: "(string \<times> json) list \<Rightarrow> bool" and elems_plain :: "json list \<Rightarrow> bool" where
  "json_plain (Tok w) \<longleftrightarrow> plain w"
| "json_plain (Obj ps) \<longleftrightarrow> pairs_plain ps"
| "json_plain (Arr vs) \<longleftrightarrow> elems_plain vs"
| "pairs_plain [] \<longleftrightarrow> True"
| "pairs_plain ((k, v) # ps) \<longleftrightarrow> plain k \<and> json_plain v \<and> pairs_plain ps"
| "elems_plain [] \<longleftrightarrow> True"
| "elems_plain (v # vs) \<longleftrightarrow> json_plain v \<and> elems_plain vs"

text \<open>The three parts of the induction: the chain inside a bracket, the members, the elements.\<close>

definition inner_spells :: "jcells \<Rightarrow> json_state \<Rightarrow> json \<Rightarrow> bool" where
  "inner_spells cs s v \<longleftrightarrow> (\<forall>l f x ns m. val_ok l f v x \<longrightarrow> \<not> is_Tok v \<longrightarrow> json_plain v \<longrightarrow> set (cells 0 (x # ns)) \<subseteq> set cs
     \<longrightarrow> load_node (j_prev x) s = Ret m \<longrightarrow> spells s (headx 0 (j_val x)) True (evs v @ sep f))"

definition pairs_spells :: "jcells \<Rightarrow> json_state \<Rightarrow> (string \<times> json) list \<Rightarrow> bool" where
  "pairs_spells cs s ps \<longleftrightarrow> (\<forall>l pv ns. pairs_ok l pv ps ns \<longrightarrow> pairs_plain ps \<longrightarrow> set (cells 0 ns) \<subseteq> set cs
     \<longrightarrow> spells s (headx 0 ns) False (pevs ps))"

definition elems_spells :: "jcells \<Rightarrow> json_state \<Rightarrow> json list \<Rightarrow> bool" where
  "elems_spells cs s vs \<longleftrightarrow> (\<forall>l b pre ns. elems_ok l (j_addr b) vs ns \<longrightarrow> elems_plain vs \<longrightarrow> j_type b = SET
     \<longrightarrow> set (cells 0 (b # pre @ ns)) \<subseteq> set cs \<longrightarrow> spells s (headx 0 ns) False (eevs vs))"

lemma nested_spells:
  assumes h: "holds F cs (js_heap s)" "set (cells 0 (x # ns)) \<subseteq> set cs" and x: "val_ok l f v x" "\<not> is_Tok v" "json_plain v"
    and p: "load_node (j_prev x) s = Ret m" and v: "inner_spells cs s v" and ns: "spells s (headx 0 ns) False fs"
  shows "spells s (j_addr x) sp (evs v @ sep f @ fs)"
proof -
  have "spells s (headx 0 (j_val x)) True (evs v @ sep f)" using v x h(2) p unfolding inner_spells_def by blast
  moreover have "j_type x = BLOCK \<or> j_type x = SET" "j_val x \<noteq> []" using x(1,2) by (cases v, auto)+
  ultimately show ?thesis using wrapper_spells [OF h _ _ _ ns, of "evs v @ sep f" sp] by simp
qed

lemma pairs_spellsD: "pairs_spells cs s ps \<Longrightarrow> pairs_ok l pv ps ns \<Longrightarrow> pairs_plain ps \<Longrightarrow> set (cells 0 ns) \<subseteq> set cs
    \<Longrightarrow> spells s (headx 0 ns) False (pevs ps)"
  unfolding pairs_spells_def by blast

lemma elems_spellsD: "elems_spells cs s vs \<Longrightarrow> elems_ok l (j_addr b) vs ns \<Longrightarrow> elems_plain vs \<Longrightarrow> j_type b = SET
    \<Longrightarrow> set (cells 0 (b # pre @ ns)) \<subseteq> set cs \<Longrightarrow> spells s (headx 0 ns) False (eevs vs)"
  unfolding elems_spells_def by blast

lemma elems_ok_Nil_iff: "elems_ok l st vs ms \<Longrightarrow> ms = [] \<longleftrightarrow> vs = []"
  by (cases vs) (auto split: list.splits)

lemma member_spells:
  assumes h: "holds F cs (js_heap s)" "set (cells 0 (n # ns)) \<subseteq> set cs" and n: "pair_ok l f pv k v n" "f = 0 \<or> f = F_COMMA"
    and pl: "plain k" "json_plain v" and v: "inner_spells cs s v"
  shows "spells s (headx 0 (j_val n)) True (Word k # evs v @ sep f)"
proof -
  obtain t x where t: "j_val n = [t]" "j_type t = TOKEN" "j_name t = k" "j_flag t = 0" "j_prev t = j_addr n" "j_val t = [x]"
    "j_prev x = j_addr n" "val_ok l f v x" "j_type n = STMT" using n(1) by (auto simp: pair_ok_def)
  note c = node_cell [OF h]
  have ct: "set (cells 0 [t]) \<subseteq> set cs" using c(5) t(1) by simp
  have cx: "set (cells 0 [x]) \<subseteq> set cs" using node_cell(5) [OF h(1) ct] t(6) by simp
  have fd: "f AND F_DEL = 0" using n(2) by (auto simp: F_COMMA_def F_DEL_def)
  have "spells s (j_addr x) True (evs v @ sep f)"
  proof (cases "is_Tok v")
    case True
    then obtain w where w: "v = Tok w" by (cases v) simp_all
    have "spells s (j_addr x) True (Word w # sep f)"
      by (rule value_spells [OF h(1) cx _ fd, where m = "node_obj (headx 0 ns) n"]) (use t c pl(2) w in simp_all)
    then show ?thesis by (simp add: w)
  next
    case False
    then show ?thesis using nested_spells [OF h(1) cx t(8) _ pl(2) _ v, of _ "[]"] c(1) t(7) by simp
  qed
  then have "spells s (j_addr t) True (Word (j_name t) # evs v @ sep f)"
    using t c(1,2) pl(1) by (intro key_spells [OF h(1) ct, where m = "node_obj (headx 0 ns) n"]) simp_all
  then show ?thesis by (simp add: t)
qed

lemma pairs_spells_Cons:
  assumes h: "holds F cs (js_heap s)" and v: "inner_spells cs s v" and IH: "ps \<noteq> [] \<Longrightarrow> pairs_spells cs s ps"
  shows "pairs_spells cs s ((k, v) # ps)"
  unfolding pairs_spells_def
proof (intro allI impI)
  fix l pv ns
  assume ok: "pairs_ok l pv ((k, v) # ps) ns" and pl: "pairs_plain ((k, v) # ps)" and ns: "set (cells 0 ns) \<subseteq> set cs"
  from ok obtain n ms where n: "ns = n # ms" by (auto split: list.splits)
  let ?f = "if ps = [] then 0 else F_COMMA"
  have p: "pair_ok l ?f pv k v n" "pairs_ok l (j_addr n) ps ms" using ok unfolding n pairs_ok_Cons by simp_all
  note c = node_cell [OF h ns [unfolded n]]
  have ms: "spells s (headx 0 ms) False (pevs ps)"
    using IH p(2) pl c(6) unfolding pairs_spells_def by (cases "ps = []") auto
  have val: "spells s (headx 0 (j_val n)) True (Word k # evs v @ sep ?f)"
    by (rule member_spells [OF h ns [unfolded n] p(1) _ _ _ v]) (use pl in simp_all)
  have ty: "j_type n = STMT" using p(1) by (simp add: pair_ok_def)
  have w: "says (\<lambda>off room. json_head (j_addr n) (node_obj (headx 0 ms) n) off room False s) []"
    "says (\<lambda>off room. json_tail (j_addr n) (node_obj (headx 0 ms) n) off room False s) []"
    by (auto intro!: says_eq [OF says_skip] simp: json_head_def json_tail_def multiple_node_def ty)
  show "spells s (headx 0 ns) False (pevs ((k, v) # ps))" unfolding n headx.simps
    by (rule spells_node [OF c(1,2) w(1) _ _ w(2)]) (use val ms in \<open>auto split: if_splits\<close>)
qed

lemma elems_spells_Cons:
  assumes h: "holds F cs (js_heap s)" and v: "inner_spells cs s v" and IH: "vs \<noteq> [] \<Longrightarrow> elems_spells cs s vs"
  shows "elems_spells cs s (v # vs)"
  unfolding elems_spells_def
proof (intro allI impI)
  fix l b pre ns
  assume ok: "elems_ok l (j_addr b) (v # vs) ns" and pl: "elems_plain (v # vs)" and b: "j_type b = SET"
    and ns: "set (cells 0 (b # pre @ ns)) \<subseteq> set cs"
  from ok obtain n ms where n: "ns = n # ms" by (auto split: list.splits)
  let ?f = "if vs = [] \<or> is_Tok v then 0 else F_COMMA"
  have e: "j_prev n = j_addr b" "val_ok l ?f v n" "elems_ok l (j_addr b) vs ms" using ok unfolding n elems_ok_Cons by simp_all
  have cn: "set (cells 0 (n # ms)) \<subseteq> set cs" "set (cells 0 (b # (pre @ [n]) @ ms)) \<subseteq> set cs" "set (cells (headx 0 ns) (b # pre)) \<subseteq> set cs"
    using ns by (auto simp: n)
  note c = node_cell [OF h cn(1)] and cb = node_cell [OF h cn(3)]
  have ms: "spells s (headx 0 ms) False (eevs vs)" "ms = [] \<longleftrightarrow> vs = []"
    using elems_spellsD [OF IH e(3) _ b cn(2)] pl elems_ok_Nil_iff [OF e(3)] by (cases "vs = []", simp_all)
  show "spells s (headx 0 ns) False (eevs (v # vs))"
  proof (cases "is_Tok v")
    case True
    then obtain w where w: "v = Tok w" by (cases v) simp_all
    have "spells s (j_addr n) False (Word w # (if ms = [] then [] else [Sep]) @ eevs vs)"
      by (rule elem_spells [OF h ns [unfolded n]]) (use e pl b ms(1) w in simp_all)
    then show ?thesis by (auto simp: n w ms(2))
  next
    case False
    have "spells s (j_addr n) False (evs v @ sep ?f @ eevs vs)"
      using nested_spells [OF h cn(1) e(2) False _ _ v ms(1)] cb(1) e(1) pl by simp
    then show ?thesis using False by (auto simp: n)
  qed
qed

lemma spells_all:
  assumes h: "holds F cs (js_heap s)"
  shows "inner_spells cs s v" and "pairs_spells cs s ps" and "elems_spells cs s vs"
proof (induction v and ps and vs rule: evs_pevs_eevs.induct)
  case (1 w)
  then show ?case by (simp add: inner_spells_def)
next
  case (2 ps)
  show ?case unfolding inner_spells_def
  proof (intro allI impI)
    fix l f x ns m
    assume x: "val_ok l f (Obj ps) x" "json_plain (Obj ps)" "set (cells 0 (x # ns)) \<subseteq> set cs" "load_node (j_prev x) s = Ret m"
    note c = node_cell [OF h x(3)]
    from x(1) obtain b ms where b: "j_val x = b # ms" "inner_ok b BLOCK (l + 1) f" "j_prev b = j_addr x" "pairs_ok (l + 1) (j_addr b) ps ms"
      by (auto split: list.splits)
    note cb = node_cell [OF h c(5) [unfolded b(1)]]
    from lookback_ok [OF cb(1,2)] c(1) b(3) x(4) obtain r where r: "sjson_json_lookback (j_addr b) [BLOCK, STMT] s = Ret r" by fastforce
    have "spells s (headx 0 ms) False (pevs ps)" using pairs_spellsD [OF 2 b(4) _ cb(6)] x(2) by simp
    from block_spells [OF h c(5) [unfolded b(1)] b(2) r this] show "spells s (headx 0 (j_val x)) True (evs (Obj ps) @ sep f)" by (simp add: b(1))
  qed
next
  case (3 vs)
  show ?case unfolding inner_spells_def
  proof (intro allI impI)
    fix l f x ns m
    assume x: "val_ok l f (Arr vs) x" "json_plain (Arr vs)" "set (cells 0 (x # ns)) \<subseteq> set cs" "load_node (j_prev x) s = Ret m"
    note c = node_cell [OF h x(3)]
    from x(1) obtain b ms where b: "j_val x = b # ms" "inner_ok b SET (l + 1) f" "j_prev b = j_addr x" "elems_ok (l + 1) (j_addr b) vs ms"
      by (auto split: list.splits)
    note cb = node_cell [OF h c(5) [unfolded b(1)]]
    from lookback_ok [OF cb(1,2)] c(1) b(3) x(4) obtain r where r: "sjson_json_lookback (j_addr b) [SET, STMT] s = Ret r" by fastforce
    have "spells s (headx 0 ms) False (eevs vs)"
      using elems_spellsD [OF 3 b(4), where pre = "[]"] x(2) b(2) c(5) by (simp add: b(1) inner_ok_def)
    from set_spells [OF h c(5) [unfolded b(1)] b(2) r this] show "spells s (headx 0 (j_val x)) True (evs (Arr vs) @ sep f)" by (simp add: b(1))
  qed
next
  case (5 k v ps)
  then show ?case by (rule pairs_spells_Cons [OF h])
next
  case (7 v vs)
  then show ?case by (rule elems_spells_Cons [OF h])
qed (simp_all add: pairs_spells_def elems_spells_def)

lemma document_spells:
  assumes h: "holds F (K @ cells 0 ns) (js_heap s)" and d: "doc_tree v ns" and pl: "json_plain v"
  shows "spells s (headx 0 ns) sp (evs v)"
proof -
  obtain b ms where ns: "ns = b # ms" using d by (cases ns) (auto simp: doc_tree_def split: json.splits)
  have cs: "set (cells 0 (b # ms)) \<subseteq> set (K @ cells 0 ns)" by (auto simp: ns)
  note c = node_cell [OF h cs]
  have pv: "j_prev b = 0" using d by (auto simp: doc_tree_def ns split: json.splits)
  have r: "sjson_json_lookback (j_addr b) [ty, STMT] s = Ret 0" for ty
    using c(1,2) pv by (simp add: sjson_json_lookback_def)
  show ?thesis
  proof (cases v)
    case (Obj ps)
    have b: "inner_ok b BLOCK 0 0" "pairs_ok 0 (j_addr b) ps ms" using d by (simp_all add: doc_tree_def ns Obj)
    have "spells s (headx 0 ms) False (pevs ps)" using pairs_spellsD [OF spells_all(2) [OF h] b(2) _ c(6)] pl by (simp add: Obj)
    from block_spells [OF h cs b(1) r this] show ?thesis by (simp add: ns Obj)
  next
    case (Arr vs)
    have b: "inner_ok b SET 0 0" "elems_ok 0 (j_addr b) vs ms" using d by (simp_all add: doc_tree_def ns Arr)
    have "spells s (headx 0 ms) False (eevs vs)"
      using elems_spellsD [OF spells_all(3) [OF h] b(2), where pre = "[]"] pl b(1) cs by (simp add: Arr inner_ok_def)
    from set_spells [OF h cs b(1) r this] show ?thesis by (simp add: ns Arr)
  qed (use d in \<open>simp add: doc_tree_def ns\<close>)
qed

text \<open>What the call writes: the text, as far as it fits, and the length of the whole text.\<close>

lemma sjson_print_document:
  assumes h: "holds F (K @ cells 0 ns) (js_heap s)" and t: "tables [ns] tbl" and d: "doc_tree v ns" "json_plain v"
  obtains t where "jlex t = Some (evs v)" "\<And>buf room. 0 < room \<Longrightarrow> room \<le> int (length buf) \<Longrightarrow>
      sjson_print_json tbl (Some buf) room s = Ret (Some (overlay buf 0 room t), int (length t))"
proof -
  from document_spells [OF h d, of True] obtain t where t1: "prints s (headx 0 ns) True t" "lexes t (evs v)" by (auto simp: spells_def)
  have r: "cell_get (tb_root tbl) 0 = Ret (headx 0 ns)" using tables_doc [OF t] by (simp add: cell_get_def)
  have "jlex t = Some (evs v)" using t1(2) unfolding lexes_def by (metis append_Nil2 jlex.simps(1) option.simps(9))
  moreover have "sjson_print_json tbl (Some buf) room s = Ret (Some (overlay buf 0 room t), int (length t))"
    if "0 < room" "room \<le> int (length buf)" for buf room
    using t1(1) that r by (simp add: sjson_print_json_def sjson_json_print_def prints_def out_def)
  ultimately show thesis by (rule that)
qed

end
