(* ===== verification/Json_Props.thy ===== *)
theory Json_Props
  imports Json_Reprint
begin

text \<open>
  The properties of the JSON library: parsing, releasing, copying and printing of documents. The
  witnesses run on a memory space of 199 blocks.
\<close>

section \<open>A memory space for the witnesses\<close>

definition demo_blocks :: "addr list" where
  "demo_blocks = map word_of_nat [1..<200]"

definition demo_alloc :: "nat \<Rightarrow> u64 \<Rightarrow> jheap \<Rightarrow> addr" where
  "demo_alloc n sz h = (case find (\<lambda>a. h a = None) demo_blocks of None \<Rightarrow> 0 | Some a \<Rightarrow> a)"

definition demo_json_env :: json_env where
  "demo_json_env = \<lparr>je_alloc = demo_alloc, je_node_size = 56, je_path_size = 24\<rparr>"

definition demo_json_state :: json_state where
  "demo_json_state = \<lparr>js_heap = Map.empty, js_calls = 0, js_memspc = False\<rparr>"

lemma demo_blocks_props: "distinct demo_blocks" "length demo_blocks = 199" "0 \<notin> set demo_blocks"
proof -
  have "inj_on (word_of_nat :: nat \<Rightarrow> addr) (set [1..<200])"
    by (rule inj_onI) (auto simp: word_of_nat_eq_iff take_bit_nat_eq_self)
  then show "distinct demo_blocks" by (simp add: demo_blocks_def distinct_map)
  show "0 \<notin> set demo_blocks" by (auto simp: demo_blocks_def word_of_nat_eq_0_iff dest!: dvd_imp_le)
qed (simp add: demo_blocks_def)

lemma demo_json_env_ok: "json_env_ok 199 demo_json_env"
  unfolding json_env_ok_def
proof (intro allI conjI impI)
  fix n sz and h :: jheap
  let ?a = "je_alloc demo_json_env n sz h"
  show "h ?a = None" if "?a \<noteq> 0"
  proof (cases "find (\<lambda>a. h a = None) demo_blocks")
    case (Some a)
    then have "h a = None" by (auto simp: find_Some_iff)
    then show ?thesis by (simp add: demo_json_env_def demo_alloc_def Some)
  qed (use that in \<open>simp add: demo_json_env_def demo_alloc_def\<close>)
  assume h: "finite (dom h) \<and> card (dom h) < 199"
  have "\<not> set demo_blocks \<subseteq> dom h"
    using h card_mono [of "dom h" "set demo_blocks"] distinct_card [OF demo_blocks_props(1)] demo_blocks_props(2) by auto
  then have ex: "\<exists>a\<in>set demo_blocks. h a = None" by auto
  show "?a \<noteq> 0"
  proof (cases "find (\<lambda>a. h a = None) demo_blocks")
    case (Some a)
    then have "a \<in> set demo_blocks" by (auto simp: find_Some_iff)
    then show ?thesis using demo_blocks_props(3) by (auto simp: demo_json_env_def demo_alloc_def Some)
  qed (use ex in \<open>auto simp: find_None_iff\<close>)
qed

definition demo_doc :: json where
  "demo_doc = Obj [(''a'', Tok ''b''), (''c'', Arr [Tok ''d'', Obj [(''e'', Tok ''f'')], Tok ''7''])]"

definition demo_text :: string where
  "demo_text = ''{ a : b, c: [d, {e: f}, 7] }''"

lemma demo_lex: "jlex demo_text = Some (evs demo_doc)"
  by code_simp

lemma demo_doc_simps [simp]: "\<not> is_Tok demo_doc" "depth demo_doc \<le> MAXL" "4 * length (evs demo_doc) \<le> 199" "empties demo_doc = 0"
    "json_plain demo_doc"
  by (simp_all add: demo_doc_def MAXL_def plain_def TOKENSZ_def)

lemma demo_json_state_simps [simp]: "js_heap demo_json_state = Map.empty"
  by (simp add: demo_json_state_def)

section \<open>Limits of the token buffer\<close>

lemma scan_word_limits:
  "\<forall>c\<in>set w. wordc c \<Longrightarrow> length tok \<le> TOKENSZ \<Longrightarrow> scan_word tok w =
     (if length tok + length w < TOKENSZ then Ret (Token (tok @ w) []) else if length tok + length w = TOKENSZ then Fault OutOfBounds else Ret TooLong)"
  by (induction tok w rule: scan_word.induct) (auto simp: wordc_def)

lemma scan_quoted_open:
  "\<forall>c\<in>set w. c \<noteq> CHR 0x22 \<and> c \<noteq> CHR 0x5C \<Longrightarrow> length tok \<le> TOKENSZ \<Longrightarrow> scan_quoted tok w =
     (if length tok + length w < TOKENSZ then Fault OutOfBounds else Ret TooLong)"
  by (induction tok w rule: scan_quoted.induct) auto

lemma holds_map_le: "holds F cs h \<Longrightarrow> F \<subseteq>\<^sub>m h"
  by (auto simp: holds_def map_le_def map_add_def map_of_eq_None_iff split: option.splits dest: map_of_SomeD)

section \<open>Parsing\<close>

text \<open>C4. Whenever the tokens of the input are those of a document of at most 24 nested levels and the
  memory space has room, \<open>sjson_parse\<close> returns 0 and leaves the tree of the document in the store: the
  chain behind \<open>root[0]\<close> has the nodes, names, levels, comma notes and back pointers of the document, and
  nothing else in the store has changed, apart from two lost blocks for every empty object or array.\<close>

theorem sjson_parse_builds_tree:
  assumes "json_env_ok cap E" "finite (dom (js_heap s))" "\<not> is_Tok d" "depth d \<le> MAXL"
    "card (dom (js_heap s)) + 4 * length (evs d) \<le> cap" "jlex mem = Some (evs d)"
  shows "\<exists>tbl s' K ns. sjson_parse E mem s = Ret (0, tbl, s') \<and> doc_tree d ns
    \<and> tb_root tbl = headx 0 ns # replicate 23 0 \<and> tb_last tbl = last_addr ns # replicate 23 0
    \<and> holds (js_heap s) (K @ cells 0 ns) (js_heap s') \<and> length K = 2 * empties d"
proof -
  obtain tbl s' K ns where r: "sjson_parse E mem s = Ret (0, tbl, s')" "holds (js_heap s) (K @ cells 0 ns) (js_heap s')"
    "tables [ns] tbl" "tb_lvl tbl = 0" "doc_tree d ns" "length K = 2 * empties d"
    by (rule sjson_parse_document [OF assms])
  show ?thesis using r tables_doc [OF r(3)] by (intro exI [of _ tbl] exI [of _ s'] exI [of _ K] exI [of _ ns]) simp
qed

theorem sjson_parse_builds_tree_witness:
  "\<exists>tbl s' K ns. sjson_parse demo_json_env demo_text demo_json_state = Ret (0, tbl, s') \<and> doc_tree demo_doc ns
    \<and> tb_root tbl = headx 0 ns # replicate 23 0 \<and> tb_last tbl = last_addr ns # replicate 23 0
    \<and> holds (js_heap demo_json_state) (K @ cells 0 ns) (js_heap s') \<and> length K = 2 * empties demo_doc"
  by (rule sjson_parse_builds_tree [OF demo_json_env_ok _ _ _ _ demo_lex]) simp_all

text \<open>C31. The layout of the text does not matter: two texts with the same tokens, below the limit of the
  token buffer, have the same outcome of \<open>sjson_parse\<close>, on any state of the store.\<close>

theorem sjson_parse_ignores_layout:
  assumes "jlex a = Some es" "jlex b = Some es"
  shows "sjson_parse E a s = sjson_parse E b s"
  by (simp add: sjson_parse_def parse_loop_lex [OF assms(1)] parse_loop_lex [OF assms(2)])

theorem sjson_parse_ignores_layout_witness:
  "sjson_parse demo_json_env demo_text demo_json_state = sjson_parse demo_json_env (render demo_doc) demo_json_state"
proof (rule sjson_parse_ignores_layout [OF demo_lex])
  show "jlex (render demo_doc) = Some (evs demo_doc)"
    by (rule lex_render_all) (simp add: demo_doc_def TOKENSZ_def)
qed

text \<open>C32. The token buffer has 256 bytes. A word of up to 255 characters is a token; a word of 256
  characters passes the check and the terminating NUL is written behind the buffer; a longer one ends the
  parse with -1. A string in quotes that is not closed is read past the end of the input, unless it is
  too long before.\<close>

theorem token_buffer_limits:
  assumes "\<forall>c\<in>set w. wordc c" "w \<noteq> []"
  shows "parse_loop E w P = (if length w < 256 then obind (new_token E w P) (\<lambda>P. Ret (0, P))
           else if length w = 256 then Fault OutOfBounds else Ret (- 1, P))
    \<and> parse_loop E (CHR 0x22 # w) P = (if length w < 256 then Fault OutOfBounds else Ret (- 1, P))"
proof (intro conjI)
  obtain c cs where w: "w = c # cs" using assms(2) by (cases w) auto
  have c: "is_digit c \<or> is_alpha c" "c \<notin> {CHR ''{'', CHR ''}'', CHR ''['', CHR '']''}"
    using assms(1) by (auto simp: w wordc_def is_digit_def is_alpha_def)
  show "parse_loop E w P = (if length w < 256 then obind (new_token E w P) (\<lambda>P. Ret (0, P))
           else if length w = 256 then Fault OutOfBounds else Ret (- 1, P))"
    using c scan_word_limits [OF assms(1), of "[]"] by (auto simp: w parse_loop.simps(2) TOKENSZ_def cong: obind_cong)
  have "\<forall>c\<in>set w. c \<noteq> CHR 0x22 \<and> c \<noteq> CHR 0x5C" using assms(1) by (auto simp: wordc_def is_digit_def is_alpha_def)
  from scan_quoted_open [OF this, of "[]"]
  show "parse_loop E (CHR 0x22 # w) P = (if length w < 256 then Fault OutOfBounds else Ret (- 1, P))"
    by (simp add: parse_loop.simps(2) is_digit_def is_alpha_def TOKENSZ_def)
qed

theorem token_buffer_limits_witness:
  "\<forall>P. parse_loop demo_json_env (replicate 256 (CHR ''x'')) P = Fault OutOfBounds \<and> parse_loop demo_json_env (CHR 0x22 # ''x'') P = Fault OutOfBounds"
proof
  fix P
  show "parse_loop demo_json_env (replicate 256 (CHR ''x'')) P = Fault OutOfBounds \<and> parse_loop demo_json_env (CHR 0x22 # ''x'') P = Fault OutOfBounds"
    using token_buffer_limits [of "replicate 256 (CHR ''x'')" demo_json_env P] token_buffer_limits [of "''x''" demo_json_env P]
    by (simp add: wordc_def is_digit_def is_alpha_def)
qed

section \<open>Releasing and copying\<close>

text \<open>C12. Parsing a document and releasing its tree with \<open>sjson_free\<close> gives back every block of the store,
  except for two blocks of every empty object or array; without those the store is the one before.\<close>

theorem parse_free_releases:
  assumes "json_env_ok cap E" "finite (dom (js_heap s))" "\<not> is_Tok d" "depth d \<le> MAXL"
    "card (dom (js_heap s)) + 4 * length (evs d) \<le> cap" "jlex mem = Some (evs d)"
  shows "\<exists>tbl s1 tbl' s2. sjson_parse E mem s = Ret (0, tbl, s1) \<and> sjson_free (Some tbl) s1 = Ret ((0, Some tbl'), s2)
    \<and> tb_root tbl' = replicate MAXL 0 \<and> js_heap s \<subseteq>\<^sub>m js_heap s2
    \<and> card (dom (js_heap s2)) = card (dom (js_heap s)) + 2 * empties d \<and> (empties d = 0 \<longrightarrow> js_heap s2 = js_heap s)"
proof -
  obtain tbl s1 K ns where r: "sjson_parse E mem s = Ret (0, tbl, s1)" "holds (js_heap s) (K @ cells 0 ns) (js_heap s1)"
    "tables [ns] tbl" "tb_lvl tbl = 0" "doc_tree d ns" "length K = 2 * empties d"
    by (rule sjson_parse_document [OF assms])
  obtain s2 where s2: "sjson_free (Some tbl) s1 = Ret ((0, Some (tbl\<lparr>tb_root := replicate MAXL 0, tb_last := replicate MAXL 0\<rparr>)), s2)"
    "holds (js_heap s) K (js_heap s2)"
    by (rule sjson_free_document [OF r(3,2)])
  have "js_heap s \<subseteq>\<^sub>m js_heap s2" by (rule holds_map_le [OF s2(2)])
  then show ?thesis using r(1,6) s2 holds_dom(2) [OF s2(2) assms(2)]
    by (intro exI [of _ tbl] exI [of _ s1] exI [of _ "tbl\<lparr>tb_root := replicate MAXL 0, tb_last := replicate MAXL 0\<rparr>"] exI [of _ s2]) auto
qed

theorem parse_free_releases_witness:
  "\<exists>tbl s1 tbl' s2. sjson_parse demo_json_env demo_text demo_json_state = Ret (0, tbl, s1) \<and> sjson_free (Some tbl) s1 = Ret ((0, Some tbl'), s2)
    \<and> js_heap s2 = Map.empty"
  using parse_free_releases [OF demo_json_env_ok _ _ _ _ demo_lex, of demo_json_state] by fastforce

text \<open>\<open>sjson_copy\<close> of a tree in the store returns the root of a second tree with the same names, types,
  levels, notes and structure in blocks of its own; the first tree and the rest of the store stay as they
  are, and releasing the first tree leaves the copy alone.\<close>

theorem sjson_copy_disjoint:
  assumes "json_env_ok cap E" "finite (dom F)" "holds F (cells 0 ns) (js_heap s)" "card (dom F) + 4 * jsize ns \<le> cap"
  shows "\<exists>ms s1 s2. sjson_copy E (headx 0 ns) s = Ret (headx 0 ms, s1) \<and> copy_of ns ms
    \<and> holds F (cells 0 ms @ cells 0 ns) (js_heap s1)
    \<and> sjson_free_i (headx 0 ns) s1 = Ret s2 \<and> holds F (cells 0 ms) (js_heap s2)"
proof -
  have "card (dom F) + length (cells 0 ns) + 2 * jsize ns \<le> cap" using assms(4) by simp
  from sjson_copy_rec_law [OF assms(1,2,3) order_refl this] obtain ms s1 where
    c: "sjson_copy_rec E (headx 0 ns) s = Some (Ret (headx 0 ms, s1))" "copy_of ns ms" "holds F (cells 0 ms @ cells 0 ns) (js_heap s1)"
    by blast
  have "holds F (cells 0 ns @ cells 0 ms) (js_heap s1)" using c(3) by (subst holds_perm) auto
  then obtain s2 where "sjson_free_i (headx 0 ns) s1 = Ret s2" "holds F (cells 0 ms) (js_heap s2)" by (rule sjson_free_i_law)
  then show ?thesis using c by (auto simp: sjson_copy_def)
qed

definition demo_tree :: "jnode list" where
  "demo_tree = [JNode 1 2 BLOCK ''BLK0'' 0 0 0 [], JNode 3 4 TOKEN ''a'' 0 0 1 [JNode 5 6 TOKEN ''b'' 0 1 3 []]]"

definition demo_tree_state :: json_state where
  "demo_tree_state = demo_json_state\<lparr>js_heap := map_of (cells 0 demo_tree)\<rparr>"

theorem sjson_copy_disjoint_witness:
  "\<exists>ms s1 s2. sjson_copy demo_json_env (headx 0 demo_tree) demo_tree_state = Ret (headx 0 ms, s1) \<and> copy_of demo_tree ms
    \<and> holds Map.empty (cells 0 ms @ cells 0 demo_tree) (js_heap s1)
    \<and> sjson_free_i (headx 0 demo_tree) s1 = Ret s2 \<and> holds Map.empty (cells 0 ms) (js_heap s2)"
  by (rule sjson_copy_disjoint [OF demo_json_env_ok]) (simp_all add: demo_tree_def demo_tree_state_def holds_def)

section \<open>Printing\<close>

text \<open>C5. Printing a parsed document and parsing the text again gives the document again: if the words hold
  no quotes or backslashes, \<open>sjson_print_json\<close> puts a text into a buffer that is large enough, returns its
  length, and \<open>sjson_parse\<close> of this text builds the tree of the same document, in any store with room.\<close>

theorem print_parse_roundtrip:
  assumes "json_env_ok cap E" "finite (dom (js_heap s))" "\<not> is_Tok d" "depth d \<le> MAXL"
    "card (dom (js_heap s)) + 4 * length (evs d) \<le> cap" "jlex mem = Some (evs d)" "json_plain d"
  shows "\<exists>tbl s1 t. sjson_parse E mem s = Ret (0, tbl, s1)
    \<and> (\<forall>buf room. int (length t) < room \<longrightarrow> room \<le> int (length buf) \<longrightarrow> (\<exists>buf'. sjson_print_json tbl (Some buf) room s1 = Ret (Some buf', int (length t))
         \<and> take (length t) buf' = t \<and> buf' ! length t = NUL))
    \<and> (\<forall>s2. finite (dom (js_heap s2)) \<longrightarrow> card (dom (js_heap s2)) + 4 * length (evs d) \<le> cap \<longrightarrow>
         (\<exists>tbl2 s3 K ns. sjson_parse E t s2 = Ret (0, tbl2, s3) \<and> doc_tree d ns \<and> tb_root tbl2 = headx 0 ns # replicate 23 0
            \<and> holds (js_heap s2) (K @ cells 0 ns) (js_heap s3)))"
proof -
  obtain tbl s1 K ns where r: "sjson_parse E mem s = Ret (0, tbl, s1)" "holds (js_heap s) (K @ cells 0 ns) (js_heap s1)"
    "tables [ns] tbl" "tb_lvl tbl = 0" "doc_tree d ns" "length K = 2 * empties d"
    by (rule sjson_parse_document [OF assms(1-6)])
  obtain t where t: "jlex t = Some (evs d)" "\<And>buf room. 0 < room \<Longrightarrow> room \<le> int (length buf) \<Longrightarrow>
      sjson_print_json tbl (Some buf) room s1 = Ret (Some (overlay buf 0 room t), int (length t))"
    using sjson_print_document [OF r(2,3,5) assms(7)] by metis
  have "t \<noteq> []" using t(1) assms(3) by (cases d) auto
  then have o: "take (length t) (overlay buf 0 room t) = t \<and> overlay buf 0 room t ! length t = NUL" if "int (length t) < room" for buf room
    using that by (simp add: overlay_def Let_def nth_append)
  have "\<exists>tbl2 s3 K ns. sjson_parse E t s2 = Ret (0, tbl2, s3) \<and> doc_tree d ns \<and> tb_root tbl2 = headx 0 ns # replicate 23 0
      \<and> holds (js_heap s2) (K @ cells 0 ns) (js_heap s3)"
    if "finite (dom (js_heap s2))" "card (dom (js_heap s2)) + 4 * length (evs d) \<le> cap" for s2
    using sjson_parse_document [OF assms(1) that(1) assms(3,4) that(2) t(1)] tables_doc by metis
  then show ?thesis using r(1) t(2) o by (intro exI [of _ tbl] exI [of _ s1] exI [of _ t]) force
qed

theorem print_parse_roundtrip_witness:
  "\<exists>tbl s1 t tbl2 s3 K ns. sjson_parse demo_json_env demo_text demo_json_state = Ret (0, tbl, s1)
    \<and> sjson_parse demo_json_env t demo_json_state = Ret (0, tbl2, s3) \<and> doc_tree demo_doc ns \<and> holds Map.empty (K @ cells 0 ns) (js_heap s3)"
proof -
  have c: "finite (dom (js_heap demo_json_state))" "card (dom (js_heap demo_json_state)) + 4 * length (evs demo_doc) \<le> 199" by simp_all
  note t = print_parse_roundtrip [OF demo_json_env_ok c(1) demo_doc_simps(1,2) c(2) demo_lex demo_doc_simps(5)]
  then obtain tbl s1 t where r: "sjson_parse demo_json_env demo_text demo_json_state = Ret (0, tbl, s1)"
    "\<exists>tbl2 s3 K ns. sjson_parse demo_json_env t demo_json_state = Ret (0, tbl2, s3) \<and> doc_tree demo_doc ns \<and> tb_root tbl2 = headx 0 ns # replicate 23 0
            \<and> holds (js_heap demo_json_state) (K @ cells 0 ns) (js_heap s3)" using c by blast
  then show ?thesis unfolding demo_json_state_simps by blast
qed

text \<open>C30. \<open>sjson_print_json\<close> never writes outside the room it is given: for a parsed document there is one
  text such that, for every buffer and every positive size within it, the call returns the length of the
  text and leaves the text, cut off behind size - 1 characters, with a NUL; the bytes behind stay as they
  were.\<close>

theorem print_json_stays_in_buffer:
  assumes "json_env_ok cap E" "finite (dom (js_heap s))" "\<not> is_Tok d" "depth d \<le> MAXL"
    "card (dom (js_heap s)) + 4 * length (evs d) \<le> cap" "jlex mem = Some (evs d)" "json_plain d"
  shows "\<exists>tbl s1 t. sjson_parse E mem s = Ret (0, tbl, s1)
    \<and> (\<forall>buf room. 0 < room \<longrightarrow> room \<le> int (length buf) \<longrightarrow>
         sjson_print_json tbl (Some buf) room s1 = Ret (Some (take (nat room - 1) t @ NUL # drop (min (length t) (nat room - 1) + 1) buf), int (length t)))"
proof -
  obtain tbl s1 K ns where r: "sjson_parse E mem s = Ret (0, tbl, s1)" "holds (js_heap s) (K @ cells 0 ns) (js_heap s1)"
    "tables [ns] tbl" "tb_lvl tbl = 0" "doc_tree d ns" "length K = 2 * empties d"
    by (rule sjson_parse_document [OF assms(1-6)])
  obtain t where t: "jlex t = Some (evs d)" "\<And>buf room. 0 < room \<Longrightarrow> room \<le> int (length buf) \<Longrightarrow>
      sjson_print_json tbl (Some buf) room s1 = Ret (Some (overlay buf 0 room t), int (length t))"
    using sjson_print_document [OF r(2,3,5) assms(7)] by metis
  have "t \<noteq> []" using t(1) assms(3) by (cases d) auto
  then have "overlay buf 0 room t = take (nat room - 1) t @ NUL # drop (min (length t) (nat room - 1) + 1) buf" if "0 < room" for buf room
    using that by (simp add: overlay_def Let_def nat_diff_distrib)
  then show ?thesis using r(1) t(2) by (intro exI [of _ tbl] exI [of _ s1] exI [of _ t]) simp
qed

theorem print_json_stays_in_buffer_witness:
  "\<exists>tbl s1 t. sjson_parse demo_json_env demo_text demo_json_state = Ret (0, tbl, s1)
    \<and> sjson_print_json tbl (Some (replicate 10 (CHR ''#''))) 5 s1 = Ret (Some (take 4 t @ NUL # drop (min (length t) 4 + 1) (replicate 10 (CHR ''#''))), int (length t))"
proof -
  have c: "finite (dom (js_heap demo_json_state))" "card (dom (js_heap demo_json_state)) + 4 * length (evs demo_doc) \<le> 199" by simp_all
  have b: "(5 :: int) \<le> int (length (replicate 10 (CHR ''#'')))" "0 < (5 :: int)" "nat 5 - 1 = 4" by simp_all
  from print_json_stays_in_buffer [OF demo_json_env_ok c(1) demo_doc_simps(1,2) c(2) demo_lex demo_doc_simps(5)] b
  show ?thesis by metis
qed

end
