(* ===== verification/Json_Edit.thy ===== *)
theory Json_Edit
  imports Json_Print
begin

text \<open>
  Walks over a tree that change it (json/json.c): back pointers, comma notes, levels, numbers of set
  members, marking and removing of subtrees.
\<close>

definition upd_flag :: "addr \<Rightarrow> (u32 \<Rightarrow> u32) \<Rightarrow> json_state \<Rightarrow> json_state outcome" where
  "upd_flag p f s = upd_node p (\<lambda>n. n\<lparr>sn_flag := f (sn_flag n)\<rparr>) s"

definition set_bros :: "addr \<Rightarrow> addr \<Rightarrow> json_state \<Rightarrow> json_state outcome" where
  "set_bros p b s = upd_node p (\<lambda>n. n\<lparr>sn_bros := b\<rparr>) s"

definition set_prevp :: "addr \<Rightarrow> addr \<Rightarrow> json_state \<Rightarrow> json_state outcome" where
  "set_prevp p b s = upd_node p (\<lambda>n. n\<lparr>sn_prev := b\<rparr>) s"

definition set_valuep :: "addr \<Rightarrow> addr \<Rightarrow> json_state \<Rightarrow> json_state outcome" where
  "set_valuep p b s = upd_node p (\<lambda>n. n\<lparr>sn_value := b\<rparr>) s"

section \<open>Back pointers\<close>

definition rechain_bros :: "addr \<Rightarrow> u32 \<Rightarrow> addr \<Rightarrow> json_state \<Rightarrow> json_state outcome" where
  "rechain_bros node ty b s =
     obind (while_o (\<lambda>(p, t, s). t \<noteq> 0)
       (\<lambda>(p, t, s). obind (set_prevp t (if ty = SET then node else p) s) (\<lambda>s.
          obind (load_node t s) (\<lambda>tn. Ret (t, sn_bros tn, s)))) (node, b, s)) (\<lambda>(p, t, s). Ret s)"

definition rechain_node :: "addr \<Rightarrow> json_state \<Rightarrow> json_state outcome" where
  "rechain_node node s =
     obind (load_node node s) (\<lambda>n.
     if multiple_node n
     then obind (if sn_bros n = 0
                 then if sn_value n \<noteq> 0 then set_prevp (sn_value n) node s else Ret s
                 else rechain_bros node (sn_type n) (sn_bros n) s) (\<lambda>s.
          if sn_type n = BLOCK \<and> sn_value n \<noteq> 0 then set_prevp (sn_value n) node s else Ret s)
     else if sn_type n = STMT
     then if sn_value n = 0 then Ret s
          else obind (set_prevp (sn_value n) node s) (\<lambda>s.
               obind (load_node (sn_value n) s) (\<lambda>t.
               if sn_value t \<noteq> 0 then set_prevp (sn_value t) node s else Ret s))
     else Ret s)"

partial_function (option) rechain_rec :: "addr \<Rightarrow> json_state \<Rightarrow> json_state outcome option" where
  "rechain_rec node s =
     (if node = 0 then Some (Ret s)
      else rbind (Some (load_node node s)) (\<lambda>n.
      rbind (rechain_rec (sn_bros n) s) (\<lambda>s.
      rbind (Some (load_node node s)) (\<lambda>n.
      rbind (rechain_rec (sn_value n) s) (\<lambda>s. Some (rechain_node node s))))))"

declare rechain_rec.simps [code]

definition sjson_backward_rechain :: "addr \<Rightarrow> json_state \<Rightarrow> json_state outcome" where
  "sjson_backward_rechain node s = run_loop (rechain_rec node s)"

section \<open>Commas\<close>

definition sjson_clear_comma :: "addr \<Rightarrow> json_state \<Rightarrow> json_state outcome" where
  "sjson_clear_comma node s =
     (if node = 0 then Ret s
      else obind (load_node node s) (\<lambda>n.
      obind (while_o (\<lambda>(p, s). p \<noteq> 0) (\<lambda>(p, s).
        obind (load_node p s) (\<lambda>pn.
        if \<not> multiple_node pn
        then obind (load_node node s) (\<lambda>n.
             if sn_prev n = 0 then Ret (0, s)
             else obind (load_node (sn_prev n) s) (\<lambda>pb.
                  obind (if sn_bros pb = 0 then upd_flag p (\<lambda>f. f AND NOT F_COMMA) s else Ret s) (\<lambda>s. Ret (0, s))))
        else obind (load_node node s) (\<lambda>n.
             obind (if sn_flag pn AND F_COMMA \<noteq> 0 \<and> sn_bros n = 0 then upd_flag p (\<lambda>f. f AND NOT F_COMMA) s else Ret s) (\<lambda>s.
             Ret (sn_value pn, s))))) (sn_value n, s)) (\<lambda>(p, s). Ret s)))"

definition sjson_search_ll_node :: "addr \<Rightarrow> json_state \<Rightarrow> addr outcome" where
  "sjson_search_ll_node node s =
     (if node = 0 then Ret 0
      else obind (load_node node s) (\<lambda>n.
      if sn_value n = 0 then Ret 0
      else obind (load_node (sn_value n) s) (\<lambda>p.
      obind (while_o (\<lambda>(p, v, stop). v \<noteq> 0 \<and> \<not> stop)
        (\<lambda>(p, v, stop). obind (load_node v s) (\<lambda>vn. Ret (v, sn_value vn, \<not> multiple_node vn))) (sn_value n, sn_value p, False)) (\<lambda>(p, v, stop).
      Ret p))))"

definition sjson_add_comma :: "addr \<Rightarrow> json_state \<Rightarrow> json_state outcome" where
  "sjson_add_comma node s =
     obind (sjson_search_ll_node node s) (\<lambda>p.
     if p = 0 then Ret s
     else obind (load_node p s) (\<lambda>n. if sn_flag n AND F_COMMA \<noteq> 0 then Ret s else upd_flag p (\<lambda>f. f OR F_COMMA) s))"

section \<open>Levels and numbers of members\<close>

partial_function (option) level_assign_rec :: "addr \<Rightarrow> int \<Rightarrow> json_state \<Rightarrow> json_state outcome option" where
  "level_assign_rec node lvl s =
     (if node = 0 then Some (Ret s)
      else rbind (Some (load_node node s)) (\<lambda>n.
      rbind (Some (if multiple_node n \<and> sn_value n \<noteq> 0
                   then obind (load_node (sn_value n) s) (\<lambda>v. Ret (if multiple_node v then lvl + 1 else lvl)) else Ret lvl)) (\<lambda>nlvl.
      rbind (Some (upd_node node (\<lambda>n. n\<lparr>sn_lvl := lvl\<rparr>) s)) (\<lambda>s.
      rbind (level_assign_rec (sn_value n) nlvl s) (\<lambda>s.
      rbind (Some (load_node node s)) (\<lambda>n. level_assign_rec (sn_bros n) lvl s))))))"

declare level_assign_rec.simps [code]

definition sjson_level_assign :: "addr \<Rightarrow> int \<Rightarrow> json_state \<Rightarrow> json_state outcome" where
  "sjson_level_assign node lvl s = run_loop (level_assign_rec node lvl s)"

text \<open>The number of members is kept in six bits of the flags.\<close>

definition sjson_set_setcount :: "int \<Rightarrow> u32" where
  "sjson_set_setcount a = push_bit 2 (word_of_int a AND 0x3F)"

definition sjson_get_setcount :: "sjson_node_t \<Rightarrow> int" where
  "sjson_get_setcount n = uint (drop_bit 2 (sn_flag n AND F_SIDX_MASK))"

definition bros_count :: "addr \<Rightarrow> json_state \<Rightarrow> int outcome" where
  "bros_count p s =
     obind (while_o (\<lambda>(p, k). p \<noteq> 0) (\<lambda>(p, k). obind (load_node p s) (\<lambda>n. Ret (sn_bros n, k + 1))) (p, 0)) (\<lambda>(p, k). Ret k)"

partial_function (option) precalc_setindex_rec :: "addr \<Rightarrow> json_state \<Rightarrow> json_state outcome option" where
  "precalc_setindex_rec node s =
     (if node = 0 then Some (Ret s)
      else rbind (Some (load_node node s)) (\<lambda>n.
      rbind (Some (if sn_type n = SET \<and> sn_value n = 0 \<and> sn_bros n \<noteq> 0
                   then obind (bros_count (sn_bros n) s) (\<lambda>k.
                        if 0 < k then upd_flag node (\<lambda>f. (f AND NOT F_SIDX_MASK) OR (sjson_set_setcount k AND F_SIDX_MASK)) s else Ret s)
                   else Ret s)) (\<lambda>s.
      rbind (precalc_setindex_rec (sn_value n) s) (\<lambda>s.
      rbind (Some (load_node node s)) (\<lambda>n. precalc_setindex_rec (sn_bros n) s)))))"

declare precalc_setindex_rec.simps [code]

definition sjson_precalc_setmember :: "sjson_table_t \<Rightarrow> json_state \<Rightarrow> (int \<times> json_state) outcome" where
  "sjson_precalc_setmember tbl s =
     obind (cell_get (tb_root tbl) 0) (\<lambda>r. obind (run_loop (precalc_setindex_rec r s)) (\<lambda>s. Ret (0, s)))"

section \<open>Removing what is marked\<close>

partial_function (option) count_visible_rec :: "addr \<Rightarrow> json_state \<Rightarrow> int outcome option" where
  "count_visible_rec p s =
     (if p = 0 then Some (Ret 0)
      else rbind (Some (load_node p s)) (\<lambda>n.
      rbind (count_visible_rec (sn_bros n) s) (\<lambda>b.
      rbind (count_visible_rec (sn_value n) s) (\<lambda>v.
      Some (Ret ((if sn_type n = TOKEN then (if sn_flag n AND F_DEL = 0 then 1 else 0)
                  else if sn_type n = STMT \<and> (sn_value n \<noteq> 0 \<or> sn_bros n \<noteq> 0) then 1 else 0) + b + v))))))"

declare count_visible_rec.simps [code]

definition sjson_count_visible_nodes :: "addr \<Rightarrow> json_state \<Rightarrow> int outcome" where
  "sjson_count_visible_nodes p s = run_loop (count_visible_rec p s)"

definition sjson_set_has_tokens :: "addr \<Rightarrow> json_state \<Rightarrow> bool outcome" where
  "sjson_set_has_tokens node s =
     obind (while_o (\<lambda>(t, ok). t \<noteq> 0 \<and> ok)
       (\<lambda>(t, ok). obind (load_node t s) (\<lambda>n.
          Ret (if sn_type n = TOKEN \<and> sn_value n = 0 then (sn_bros n, True) else (t, False)))) (node, True)) (\<lambda>(t, ok). Ret ok)"

text \<open>The loop over a set of words: from the set node itself, marked nodes are unlinked and released.\<close>

definition purge_set :: "addr \<Rightarrow> json_state \<Rightarrow> (int \<times> json_state) outcome" where
  "purge_set r s =
     obind (while_o (\<lambda>(t, prev, cnt, s). t \<noteq> 0)
       (\<lambda>(t, prev, cnt, s). obind (load_node t s) (\<lambda>n.
          if sn_flag n AND F_DEL \<noteq> 0
          then obind (set_bros prev (sn_bros n) s) (\<lambda>s.
               obind (load_node t s) (\<lambda>n.
               obind (sjson_free_node t s) (\<lambda>s. Ret (sn_bros n, prev, cnt + 1, s))))
          else Ret (sn_bros n, t, cnt, s))) (r, r, 0, s)) (\<lambda>(t, prev, cnt, s). Ret (cnt, s))"

definition purge_block :: "addr \<Rightarrow> sjson_node_t \<Rightarrow> json_state \<Rightarrow> (int \<times> json_state) outcome" where
  "purge_block r n s =
     (let p = sn_bros n in
      obind (load_node p s) (\<lambda>pn.
      if sn_value pn = 0 then Ret (0, s)
      else obind (sjson_count_visible_nodes (sn_value pn) s) (\<lambda>k.
      if k \<noteq> 0 then Ret (0, s)
      else obind (set_bros r (sn_bros pn) s) (\<lambda>s.
           obind (set_bros p 0 s) (\<lambda>s.
           obind (sjson_clear_comma r s) (\<lambda>s.
           obind (sjson_free_i p s) (\<lambda>s. Ret (1, s))))))))"

definition purge_stmt :: "addr \<Rightarrow> sjson_node_t \<Rightarrow> json_state \<Rightarrow> (int \<times> json_state) outcome" where
  "purge_stmt r n s =
     (if sn_value n = 0 then Ret (0, s)
      else obind (load_node (sn_value n) s) (\<lambda>v.
      if sn_type v \<noteq> TOKEN then Ret (0, s)
      else obind (load_node (sn_value v) s) (\<lambda>w.
      if \<not> multiple_node w then Ret (0, s)
      else obind (sjson_count_visible_nodes (sn_value v) s) (\<lambda>k.
      if k \<noteq> 0 then Ret (0, s)
      else obind (sjson_free_i (sn_value n) s) (\<lambda>s.
           obind (set_valuep r 0 s) (\<lambda>s. Ret (1, s)))))))"

definition purge_bros :: "addr \<Rightarrow> json_state \<Rightarrow> (int \<times> json_state) outcome" where
  "purge_bros r s =
     obind (load_node r s) (\<lambda>n.
     if sn_bros n = 0 then Ret (0, s)
     else obind (sjson_count_visible_nodes (sn_bros n) s) (\<lambda>k.
     if k \<noteq> 0 then Ret (0, s)
     else obind (sjson_free_i (sn_bros n) s) (\<lambda>s.
          obind (set_bros r 0 s) (\<lambda>s. Ret (1, s)))))"

definition purge_node :: "addr \<Rightarrow> json_state \<Rightarrow> (int \<times> json_state) outcome" where
  "purge_node r s =
     obind (load_node r s) (\<lambda>n.
     if sn_type n = SET
     then if sn_bros n = 0 then Ret (0, s)
          else obind (sjson_set_has_tokens (sn_bros n) s) (\<lambda>all. if all then purge_set r s else Ret (0, s))
     else if sn_type n = BLOCK then if sn_bros n = 0 then Ret (0, s) else purge_block r n s
     else if sn_type n = STMT
     then obind (purge_stmt r n s) (\<lambda>(c, s). obind (purge_bros r s) (\<lambda>(d, s). Ret (c + d, s)))
     else if sn_type n = TOKEN then purge_bros r s
     else Ret (0, s))"

text \<open>The brothers are purged before the values.\<close>

partial_function (option) purge_rec :: "addr \<Rightarrow> json_state \<Rightarrow> (int \<times> json_state) outcome option" where
  "purge_rec r s =
     (if r = 0 then Some (Ret (0, s))
      else rbind (Some (purge_node r s)) (\<lambda>(c, s).
      rbind (Some (load_node r s)) (\<lambda>n.
      rbind (purge_rec (sn_bros n) s) (\<lambda>(b, s).
      rbind (Some (load_node r s)) (\<lambda>n.
      rbind (purge_rec (sn_value n) s) (\<lambda>(v, s). Some (Ret (c + b + v, s))))))))"

declare purge_rec.simps [code]

definition sjson_purge_json :: "addr \<Rightarrow> json_state \<Rightarrow> (int \<times> json_state) outcome" where
  "sjson_purge_json r s = run_loop (purge_rec r s)"

section \<open>Deleting a subtree\<close>

text \<open>A word in a set is only marked.\<close>

definition delete_set_member :: "addr \<Rightarrow> addr \<Rightarrow> json_state \<Rightarrow> (int \<times> json_state) outcome" where
  "delete_set_member cst n s =
     obind (while_o (\<lambda>p. p \<noteq> 0 \<and> p \<noteq> n) (\<lambda>p. obind (load_node p s) (\<lambda>x. Ret (sn_bros x))) cst) (\<lambda>p.
     if p = 0 then Ret (0, s) else obind (upd_flag p (\<lambda>f. f OR F_DEL) s) (\<lambda>s. Ret (0, s)))"

text \<open>The first statement of a block; the block itself is marked when it has become empty and is the element of a set.\<close>

definition mark_empty_block :: "addr \<Rightarrow> json_state \<Rightarrow> ((int + addr) \<times> json_state) outcome" where
  "mark_empty_block p s =
     obind (load_node p s) (\<lambda>pn.
     if sn_prev pn = 0 then Ret (Inl (- 1), s)
     else obind (load_node (sn_prev pn) s) (\<lambda>tn.
     if sn_value tn \<noteq> p then Ret (Inr (sn_prev pn), s)
     else if sn_prev tn = 0 then Ret (Inl (- 1), s)
     else obind (load_node (sn_prev tn) s) (\<lambda>un.
          obind (while_o (\<lambda>(t, b). t \<noteq> 0 \<and> b \<noteq> sn_prev pn)
            (\<lambda>(t, b). if b = 0 then Ret (0, 0) else obind (load_node b s) (\<lambda>x. Ret (b, sn_bros x))) (sn_prev tn, sn_bros un)) (\<lambda>(t, b).
          if t = 0 then Ret (Inl (- 1), s)
          else obind (upd_flag (sn_prev pn) (\<lambda>f. f OR F_DEL) s) (\<lambda>s. Ret (Inr t, s))))))"

definition delete_first_stmt :: "addr \<Rightarrow> addr \<Rightarrow> json_state \<Rightarrow> (int \<times> json_state) outcome" where
  "delete_first_stmt p cst s =
     obind (load_node cst s) (\<lambda>cn.
     obind (set_bros p (sn_bros cn) s) (\<lambda>s.
     obind (if sn_bros cn \<noteq> 0 then set_prevp (sn_bros cn) p s else Ret s) (\<lambda>s.
     obind (set_bros cst 0 s) (\<lambda>s.
     obind (sjson_free_i cst s) (\<lambda>s.
     obind (load_node p s) (\<lambda>pn.
     obind (if empty_node pn then mark_empty_block p s else Ret (Inr p, s)) (\<lambda>(r, s).
     case r of Inl e \<Rightarrow> Ret (e, s) | Inr p \<Rightarrow> obind (sjson_clear_comma p s) (\<lambda>s. Ret (0, s)))))))))"

definition delete_next_stmt :: "addr \<Rightarrow> addr \<Rightarrow> json_state \<Rightarrow> (int \<times> json_state) outcome" where
  "delete_next_stmt p cst s =
     obind (load_node cst s) (\<lambda>cn.
     obind (set_bros p (sn_bros cn) s) (\<lambda>s.
     obind (if sn_bros cn \<noteq> 0 then set_prevp (sn_bros cn) p s else Ret s) (\<lambda>s.
     obind (load_node p s) (\<lambda>pn.
     obind (set_bros cst 0 s) (\<lambda>s.
     obind (load_node (sn_value pn) s) (\<lambda>vn.
     if sn_prev vn = 0 then Ret (0, s)
     else obind (load_node (sn_prev vn) s) (\<lambda>tn.
          obind (if sn_bros tn = 0 then sjson_clear_comma (sn_value pn) s else Ret s) (\<lambda>s.
          obind (sjson_free_i cst s) (\<lambda>s. Ret (0, s))))))))))"

definition sjson_delete_json_subtree :: "addr \<Rightarrow> json_state \<Rightarrow> (int \<times> json_state) outcome" where
  "sjson_delete_json_subtree n s =
     obind (load_node n s) (\<lambda>nn.
     let cst = sn_prev nn in
     if cst = 0 then Ret (- 1, s)
     else obind (load_node cst s) (\<lambda>cn.
     if sn_value cn \<noteq> n
     then if sn_type cn = SET \<and> sn_type nn = TOKEN then delete_set_member cst n s else Ret (0, s)
     else if sn_prev cn = 0 then Ret (0, s)
     else obind (load_node (sn_prev cn) s) (\<lambda>p.
     if sn_type p = BLOCK then delete_first_stmt (sn_prev cn) cst s else delete_next_stmt (sn_prev cn) cst s)))"

end
