(* ===== verification/Json_Path.thy ===== *)
theory Json_Path
  imports Json_Edit
begin

text \<open>
  Paths (json/json.c): the dotted name of a node, the comparisons of names with and without indices, the
  list of all paths, and the search of a node by its path. Names live in blocks of the memory space;
  \<open>mem_alloc\<close> clears a block, so that a copied prefix ends with a NUL.
\<close>

section \<open>Strings in the memory space\<close>

definition STRROOM :: nat where "STRROOM = 4"

text \<open>A block of \<open>os_malloc(sz)\<close> with a text in it, which has to fit the rounded size.\<close>

definition str_block :: "json_env \<Rightarrow> nat \<Rightarrow> string \<Rightarrow> addr js" where
  "str_block E sz str s =
     obind (jos_malloc E (of_nat sz) s) (\<lambda>(p, s).
     if p = 0 then Ret (0, s)
     else if unat (aligned_size (of_nat sz)) \<le> length str then Fault OutOfBounds
     else Ret (p, jput p (StrObj str) s))"

text \<open>The text in front of the last \<open>c\<close>, when there is one (\<open>strrchr\<close>).\<close>

definition cut_last :: "char \<Rightarrow> string \<Rightarrow> string option" where
  "cut_last c t = (if c \<in> set t then Some (rev (tl (dropWhile (\<lambda>d. d \<noteq> c) (rev t)))) else None)"

definition index_text :: "int \<Rightarrow> string" where
  "index_text k = ''['' @ fmt_ld k @ '']''"

section \<open>The name of a node\<close>

text \<open>The addresses of all nodes with a name, combined with a bitwise or.\<close>

partial_function (option) scan_node_rec :: "addr \<Rightarrow> string \<Rightarrow> json_state \<Rightarrow> addr outcome option" where
  "scan_node_rec node sn s =
     (if node = 0 then Some (Ret 0)
      else rbind (Some (load_node node s)) (\<lambda>n.
      rbind (Some (if sn_type n = TOKEN then obind (symbol_name node s) (\<lambda>nm. Ret (if nm = sn then node else 0)) else Ret 0)) (\<lambda>found.
      rbind (scan_node_rec (sn_value n) sn s) (\<lambda>v.
      rbind (scan_node_rec (sn_bros n) sn s) (\<lambda>b. Some (Ret (v OR b OR found)))))))"

declare scan_node_rec.simps [code]

definition sjson_scan_node :: "addr \<Rightarrow> string \<Rightarrow> json_state \<Rightarrow> addr outcome" where
  "sjson_scan_node node sn s = run_loop (scan_node_rec node sn s)"

definition find_set :: "addr \<Rightarrow> json_state \<Rightarrow> addr outcome" where
  "find_set t s =
     obind (while_o (\<lambda>(t, stop). t \<noteq> 0 \<and> \<not> stop)
       (\<lambda>(t, stop). obind (load_node t s) (\<lambda>n. Ret (if sn_type n = SET \<and> sn_value n = 0 then (t, True) else (sn_value n, False))))
       (t, False)) (\<lambda>(t, stop). Ret t)"

definition value_last :: "addr \<Rightarrow> json_state \<Rightarrow> addr outcome" where
  "value_last v s =
     obind (load_node v s) (\<lambda>n.
     obind (while_o (\<lambda>(q, w). w \<noteq> 0) (\<lambda>(q, w). obind (load_node w s) (\<lambda>n. Ret (w, sn_value n))) (v, sn_value n)) (\<lambda>(q, w). Ret q))"

text \<open>Whether a statement behind \<open>x\<close> has the key \<open>k\<close>.\<close>

definition stmt_with_key :: "addr \<Rightarrow> addr \<Rightarrow> json_state \<Rightarrow> bool outcome" where
  "stmt_with_key x k s =
     obind (while_o (\<lambda>(x, n, hit). x \<noteq> 0 \<and> \<not> hit)
       (\<lambda>(x, n, hit). obind (load_node x s) (\<lambda>xn.
          let n = (if sn_type xn = STMT then sn_value xn else n) in
          Ret (if n \<noteq> 0 \<and> n = k then (x, n, True) else (sn_bros xn, n, False)))) (x, 0, False)) (\<lambda>(x, n, hit). Ret hit)"

definition sjson_calc_set_order :: "addr \<Rightarrow> addr \<Rightarrow> json_state \<Rightarrow> int outcome" where
  "sjson_calc_set_order stmt tok s =
     (if tok = 0 then Ret (- 1)
      else obind (load_node tok s) (\<lambda>tn.
      if sn_value tn = 0 then Ret (- 1)
      else obind (load_node stmt s) (\<lambda>sn.
      obind (find_set (sn_value sn) s) (\<lambda>t.
      if t = 0 then Ret (- 1)
      else obind (load_node t s) (\<lambda>n.
      obind (while_o (\<lambda>(t, cnt, hit). t \<noteq> 0 \<and> \<not> hit)
        (\<lambda>(t, cnt, hit). obind (load_node t s) (\<lambda>n.
           if sn_value n = 0 then Ret (sn_bros n, cnt + 1, False)
           else obind (load_node (sn_value n) s) (\<lambda>v.
                obind (if sn_type v \<noteq> BLOCK then Ret False
                       else obind (value_last (sn_value n) s) (\<lambda>q. obind (load_node q s) (\<lambda>qn. stmt_with_key (sn_bros qn) (sn_value tn) s))) (\<lambda>hit.
                Ret (if hit then (t, cnt, True) else (sn_bros n, cnt + 1, False)))))) (sn_bros n, 0, False)) (\<lambda>(t, cnt, hit).
      Ret (if hit then cnt else - 1)))))))"

definition trim_index :: "string \<Rightarrow> string" where
  "trim_index path = takeWhile (\<lambda>c. c \<noteq> CHR ''.'') (case cut_last (CHR ''['') path of None \<Rightarrow> path | Some t \<Rightarrow> t)"

definition sjson_path_trim_index :: "json_env \<Rightarrow> string \<Rightarrow> addr js" where
  "sjson_path_trim_index E path s = str_block E (length path + 1) (trim_index path) s"

definition climb_to_multiple :: "addr \<Rightarrow> json_state \<Rightarrow> addr outcome" where
  "climb_to_multiple p s =
     obind (while_o (\<lambda>(p, m). p \<noteq> 0 \<and> \<not> m)
       (\<lambda>(p, m). obind (load_node p s) (\<lambda>n. Ret (if multiple_node n then (p, True) else (sn_prev n, False)))) (p, False)) (\<lambda>(p, m). Ret p)"

definition climb_over_multiple :: "addr \<Rightarrow> json_state \<Rightarrow> (addr \<times> bool) outcome" where
  "climb_over_multiple p s =
     obind (while_o (\<lambda>(p, incset, stop). p \<noteq> 0 \<and> \<not> stop)
       (\<lambda>(p, incset, stop). obind (load_node p s) (\<lambda>n.
          Ret (if multiple_node n then (sn_prev n, incset \<or> sn_type n = SET, False) else (p, incset, True)))) (p, False, False)) (\<lambda>(p, incset, stop).
     Ret (p, incset))"

text \<open>
  A step on the way up at the statement \<open>p\<close>: its key in front of the path so far. The result is 0 when the
  function returns NULL because there is no memory.
\<close>

definition path_first :: "json_env \<Rightarrow> addr \<Rightarrow> addr \<Rightarrow> bool \<Rightarrow> json_state \<Rightarrow> (addr \<times> json_state) outcome" where
  "path_first E p tnode incset s =
     obind (load_node p s) (\<lambda>pn.
     obind (symbol_name (sn_value pn) s) (\<lambda>nm.
     obind (str_block E (length nm + STRROOM) nm s) (\<lambda>(path, s).
     if path = 0 then Ret (0, s)
     else obind (if incset then sjson_calc_set_order p tnode s else Ret (- 1)) (\<lambda>slvl.
          let txt = nm @ (if 0 \<le> slvl then index_text slvl else []) in
          if unat (aligned_size (of_nat (length nm + STRROOM))) \<le> length txt then Fault OutOfBounds
          else Ret (path, jput path (StrObj txt) s)))))"

definition path_more :: "json_env \<Rightarrow> addr \<Rightarrow> addr \<Rightarrow> bool \<Rightarrow> json_state \<Rightarrow> (addr \<times> json_state) outcome" where
  "path_more E p path incset s =
     obind (load_node p s) (\<lambda>pn.
     obind (symbol_name (sn_value pn) s) (\<lambda>nm.
     obind (load_str path s) (\<lambda>old.
     obind (str_block E (length old + STRROOM + length nm + STRROOM) nm s) (\<lambda>(temp, s).
     if temp = 0 then Ret (0, s)
     else
     obind (if \<not> incset then Ret (Some (- 1), s)
            else obind (sjson_path_trim_index E old s) (\<lambda>(xpath, s).
                 if xpath = 0 then obind (jos_free temp s) (\<lambda>s. Ret (None, s))
                 else obind (load_str xpath s) (\<lambda>x.
                      obind (sjson_scan_node p x s) (\<lambda>m.
                      obind (if m = 0 then Ret (- 1) else obind (load_node m s) (\<lambda>mn. sjson_calc_set_order p (sn_prev mn) s)) (\<lambda>slvl.
                      obind (jos_free xpath s) (\<lambda>s. Ret (Some slvl, s))))))) (\<lambda>(r, s).
     case r of None \<Rightarrow> Ret (0, s)
     | Some slvl \<Rightarrow>
       let txt = nm @ (if 0 \<le> slvl then index_text slvl else []) @ ''.'' @ old in
       if unat (aligned_size (of_nat (length old + STRROOM + length nm + STRROOM))) \<le> length txt then Fault OutOfBounds
       else obind (jos_free path (jput temp (StrObj txt) s)) (\<lambda>s. Ret (temp, s)))))))"

text \<open>One round of the loop over \<open>p\<close>; the last component tells that the function has returned NULL.\<close>

definition path_round :: "json_env \<Rightarrow> addr \<Rightarrow> addr \<times> addr \<times> bool \<times> json_state \<times> bool
    \<Rightarrow> (addr \<times> addr \<times> bool \<times> json_state \<times> bool) outcome" where
  "path_round E tnode = (\<lambda>(p, path, dset, s, fail).
     obind (if dset then Ret (p, False)
            else obind (climb_to_multiple p s) (\<lambda>p. if p = 0 then Ret (0, False) else climb_over_multiple p s)) (\<lambda>(p, incset).
     if p = 0 then Ret (0, path, dset, s, False)
     else obind (load_node p s) (\<lambda>pn.
     if sn_type pn \<noteq> STMT then Ret (sn_prev pn, path, False, s, False)
     else obind (if path = 0 then path_first E p tnode incset s else path_more E p path incset s) (\<lambda>(q, s).
          if q = 0 then Ret (0, 0, False, s, True)
          else obind (load_node p s) (\<lambda>pn. Ret (sn_prev pn, q, False, s, False))))))"

definition sjson_path_name_internal :: "json_env \<Rightarrow> addr \<Rightarrow> bool \<Rightarrow> addr js" where
  "sjson_path_name_internal E tnode dset s =
     (if tnode = 0 then Ret (0, s)
      else obind (while_o (\<lambda>(p, path, dset, s, fail). p \<noteq> 0) (path_round E tnode) (tnode, 0, dset, s, False)) (\<lambda>(p, path, dset, s, fail).
      Ret (if fail then 0 else path, s)))"

text \<open>In two branches the result is the name of the node itself and not a copy.\<close>

definition sjson_path_name :: "json_env \<Rightarrow> addr \<Rightarrow> addr js" where
  "sjson_path_name E tnode s =
     (if tnode = 0 then Ret (0, s)
      else obind (load_node tnode s) (\<lambda>tn.
      if sn_prev tn = 0 then Ret (sn_symbol tn, s)
      else obind (sjson_set_member (sn_prev tn) tnode True s) (\<lambda>(dset, nth).
      obind (while_o (\<lambda>(p, m). m) (\<lambda>(p, m). obind (load_node p s) (\<lambda>n. Ret (if multiple_node n then (sn_prev n, True) else (p, False)))) (sn_prev tn, True)) (\<lambda>(p, m).
      obind (load_node p s) (\<lambda>pn.
      if sn_type pn \<noteq> STMT then Ret (sn_symbol tn, s)
      else obind (sjson_path_name_internal E p dset s) (\<lambda>(path, s).
      obind (symbol_name tnode s) (\<lambda>nm.
      if path = 0 then jos_strdup E nm s
      else obind (load_str path s) (\<lambda>old.
           obind (str_block E (length old + STRROOM + length nm + STRROOM)
             (old @ (case nth of Some k \<Rightarrow> index_text k | None \<Rightarrow> ''.'' @ nm)) s) (\<lambda>(temp, s).
           if temp = 0 then Ret (0, s) else obind (jos_free path s) (\<lambda>s. Ret (temp, s)))))))))))"

section \<open>Comparing paths\<close>

text \<open>The text without indices; with \<open>keep\<close> (\<open>set_element\<close>) the last index stays.\<close>

fun nonindex :: "bool \<Rightarrow> bool \<Rightarrow> string \<Rightarrow> string" where
  "nonindex keep insub [] = []"
| "nonindex keep insub (c # cs) =
     (if c = CHR ''[''
      then if keep \<and> CHR ''.'' \<notin> set (c # cs) then c # nonindex keep insub cs else nonindex keep True cs
      else if c = CHR '']'' then (if insub then [] else [c]) @ nonindex keep False cs
      else if insub then nonindex keep insub cs
      else c # nonindex keep insub cs)"

definition nonindex_string :: "json_env \<Rightarrow> string \<Rightarrow> bool \<Rightarrow> addr js" where
  "nonindex_string E t keep s = str_block E (length t + 1) (nonindex keep False t) s"

definition indexed_cmp :: "json_env \<Rightarrow> bool \<Rightarrow> string \<Rightarrow> string \<Rightarrow> bool js" where
  "indexed_cmp E keep path t s =
     obind (nonindex_string E path keep s) (\<lambda>(p, s).
     obind (nonindex_string E t keep s) (\<lambda>(x, s).
     obind (load_str p s) (\<lambda>a. obind (load_str x s) (\<lambda>b.
     obind (jos_free p s) (\<lambda>s. obind (jos_free x s) (\<lambda>s. Ret (a = b, s)))))))"

text \<open>Whether the path is the end of the other text; a path that is longer is read in front of the block.\<close>

definition subpath_strcmp :: "json_env \<Rightarrow> string \<Rightarrow> string \<Rightarrow> bool js" where
  "subpath_strcmp E path t s =
     obind (jos_strdup E path s) (\<lambda>(p, s).
     obind (jos_strdup E t s) (\<lambda>(x, s).
     obind (load_str p s) (\<lambda>a. obind (load_str x s) (\<lambda>b.
     if length b < length a then Fault OutOfBounds
     else obind (jos_free p s) (\<lambda>s. obind (jos_free x s) (\<lambda>s. Ret (drop (length b - length a) b = a, s)))))))"

datatype compare = Normal | Indexed | Indexed2 | Setindex | Subpath

fun compare_call :: "json_env \<Rightarrow> compare \<Rightarrow> string \<Rightarrow> string \<Rightarrow> bool js" where
  "compare_call E Normal path t s = Ret (path = t, s)"
| "compare_call E Indexed path t s = indexed_cmp E False path t s"
| "compare_call E Indexed2 path t s = indexed_cmp E True path t s"
| "compare_call E Setindex path t s = indexed_cmp E True path t s"
| "compare_call E Subpath path t s = subpath_strcmp E path t s"

section \<open>The list of paths\<close>

definition prio_path :: "addr \<Rightarrow> json_state \<Rightarrow> bool outcome" where
  "prio_path node s =
     obind (in_set node s) (\<lambda>d.
     if d then Ret True
     else obind (load_node node s) (\<lambda>n.
     if sn_value n = 0 then Ret False else obind (load_node (sn_value n) s) (\<lambda>v. Ret (empty_node v))))"

text \<open>A token that is neither a key nor the element of a set has no path.\<close>

definition has_path :: "addr \<Rightarrow> sjson_node_t \<Rightarrow> json_state \<Rightarrow> bool outcome" where
  "has_path node n s = (if sn_value n \<noteq> 0 then Ret True else in_set node s)"

definition upd_path :: "addr \<Rightarrow> (sjson_pl_t \<Rightarrow> sjson_pl_t) \<Rightarrow> json_state \<Rightarrow> json_state outcome" where
  "upd_path p f s = obind (load_path p s) (\<lambda>x. Ret (jput p (PathObj (f x)) s))"

definition path_last :: "addr \<Rightarrow> json_state \<Rightarrow> addr outcome" where
  "path_last p s =
     obind (load_path p s) (\<lambda>x.
     obind (while_o (\<lambda>(p, q). q \<noteq> 0) (\<lambda>(p, q). obind (load_path q s) (\<lambda>x. Ret (q, pl_next x))) (p, pl_next x)) (\<lambda>(p, q). Ret p))"

text \<open>The entry of a token at the end of the list: the new list and the length of the path; \<open>None\<close> where the function returns 0.\<close>

definition list_entry :: "json_env \<Rightarrow> addr \<Rightarrow> sjson_node_t \<Rightarrow> addr \<Rightarrow> ((addr \<times> int) option) js" where
  "list_entry E node n root s =
     obind (has_path node n s) (\<lambda>h.
     if \<not> h then Ret (None, s)
     else obind (sjson_path_name E node s) (\<lambda>(p, s).
     if p = 0 then Ret (None, s)
     else obind (load_str p s) (\<lambda>t.
     obind (jos_malloc E (je_path_size E) s) (\<lambda>(temp, s).
     if temp = 0 then obind (jos_free p s) (\<lambda>s. Ret (None, s))
     else obind (jos_strdup E t s) (\<lambda>(y, s).
     obind (prio_path node s) (\<lambda>pr.
     let s = jput temp (PathObj \<lparr>pl_path = y, pl_flag = (if sn_flag n AND F_DEL \<noteq> 0 then F_DEL else 0) OR (if pr then F_PRIO else 0), pl_next = 0\<rparr>) s in
     obind (jos_free p s) (\<lambda>s.
     if root = 0 then Ret (Some (temp, int (length t)), s)
     else obind (path_last root s) (\<lambda>l.
          obind (upd_path l (\<lambda>x. x\<lparr>pl_next := temp\<rparr>) s) (\<lambda>s. Ret (Some (root, int (length t)), s))))))))))"

partial_function (option) list_path_rec :: "json_env \<Rightarrow> addr \<Rightarrow> addr \<Rightarrow> json_state \<Rightarrow> ((addr \<times> int) \<times> json_state) outcome option" where
  "list_path_rec E node root s =
     (if node = 0 then Some (Ret ((root, 0), s))
      else rbind (Some (load_node node s)) (\<lambda>n.
      rbind (Some (if sn_type n = TOKEN then list_entry E node n root s else Ret (Some (root, 0), s))) (\<lambda>(r, s).
      case r of None \<Rightarrow> Some (Ret ((root, 0), s))
      | Some (root, xlen) \<Rightarrow>
        rbind (list_path_rec E (sn_value n) root s) (\<lambda>((root, v), s).
        rbind (list_path_rec E (sn_bros n) root s) (\<lambda>((root, b), s). Some (Ret ((root, v + b + xlen), s)))))))"

declare list_path_rec.simps [code]

definition sjson_path :: "json_env \<Rightarrow> sjson_table_t \<Rightarrow> addr js" where
  "sjson_path E tbl s =
     obind (cell_get (tb_root tbl) 0) (\<lambda>r. obind (run_loop (list_path_rec E r 0 s)) (\<lambda>((root, l), s). Ret (root, s)))"

definition sjson_path_next :: "addr \<Rightarrow> bool \<Rightarrow> json_state \<Rightarrow> addr outcome" where
  "sjson_path_next node prio s =
     (if node = 0 then Ret 0
      else obind (load_path node s) (\<lambda>x.
      if \<not> prio then Ret (pl_next x)
      else obind (while_o (\<lambda>(t, hit). t \<noteq> 0 \<and> \<not> hit)
             (\<lambda>(t, hit). obind (load_path t s) (\<lambda>x. Ret (if pl_flag x AND F_PRIO \<noteq> 0 then (t, True) else (pl_next x, False)))) (pl_next x, False)) (\<lambda>(t, hit).
           Ret t)))"

definition sjson_path_delete :: "addr \<Rightarrow> json_state \<Rightarrow> json_state outcome" where
  "sjson_path_delete p s =
     obind (while_o (\<lambda>(p, s). p \<noteq> 0)
       (\<lambda>(p, s). obind (load_path p s) (\<lambda>x.
          obind (jos_free (pl_path x) s) (\<lambda>s. obind (jos_free p s) (\<lambda>s. Ret (pl_next x, s))))) (p, s)) (\<lambda>(p, s). Ret s)"

section \<open>Searching\<close>

definition search_token :: "json_env \<Rightarrow> addr \<Rightarrow> sjson_node_t \<Rightarrow> string \<Rightarrow> compare \<Rightarrow> addr \<Rightarrow> (addr \<times> addr) js" where
  "search_token E node n path cmp root s =
     obind (has_path node n s) (\<lambda>h.
     if \<not> h then Ret ((0, root), s)
     else obind (sjson_path_name E node s) (\<lambda>(p, s).
     if p = 0 then Ret ((0, root), s)
     else obind (load_str p s) (\<lambda>t.
     obind (compare_call E cmp path t s) (\<lambda>(eq, s).
     if \<not> eq then obind (jos_free p s) (\<lambda>s. Ret ((0, root), s))
     else obind (jos_malloc E (je_path_size E) s) (\<lambda>(temp, s).
          if temp = 0 then Ret ((node, root), s)
          else obind (jos_strdup E t s) (\<lambda>(y, s).
               let s = jput temp (PathObj \<lparr>pl_path = y, pl_flag = 0, pl_next = root\<rparr>) s in
               obind (jos_free p s) (\<lambda>s. Ret ((node, temp), s))))))))"

text \<open>The values are searched before the brothers; the addresses found are combined with a bitwise or.\<close>

partial_function (option) search_subtree_rec ::
    "json_env \<Rightarrow> addr \<Rightarrow> string \<Rightarrow> compare \<Rightarrow> addr \<Rightarrow> json_state \<Rightarrow> ((addr \<times> addr) \<times> json_state) outcome option" where
  "search_subtree_rec E node path cmp root s =
     (if node = 0 then Some (Ret ((0, root), s))
      else rbind (Some (load_node node s)) (\<lambda>n.
      rbind (Some (if sn_type n = TOKEN then search_token E node n path cmp root s else Ret ((0, root), s))) (\<lambda>((x, root), s).
      rbind (search_subtree_rec E (sn_value n) path cmp root s) (\<lambda>((v, root), s).
      rbind (search_subtree_rec E (sn_bros n) path cmp root s) (\<lambda>((b, root), s). Some (Ret ((x OR v OR b, root), s)))))))"

declare search_subtree_rec.simps [code]

definition search_subtree :: "json_env \<Rightarrow> addr \<Rightarrow> string \<Rightarrow> compare \<Rightarrow> (addr \<times> addr) js" where
  "search_subtree E node path cmp s = run_loop (search_subtree_rec E node path cmp 0 s)"

text \<open>The shortest path of a list, the first one of its length.\<close>

definition shortest_path :: "addr \<Rightarrow> json_state \<Rightarrow> addr outcome" where
  "shortest_path p s =
     obind (while_o (\<lambda>(p, sel, clen). p \<noteq> 0)
       (\<lambda>(p, sel, clen). obind (load_path p s) (\<lambda>x. obind (load_str (pl_path x) s) (\<lambda>t.
          Ret (if int (length t) < clen then (pl_next x, p, int (length t)) else (pl_next x, sel, clen))))) (p, 0, 10000)) (\<lambda>(p, sel, clen).
     Ret sel)"

definition sjson_get_subtree :: "json_env \<Rightarrow> addr \<Rightarrow> string \<Rightarrow> compare \<Rightarrow> addr js" where
  "sjson_get_subtree E node path cmp s =
     obind (search_subtree E node path cmp s) (\<lambda>((res, pnode), s).
     if pnode = 0 then Ret (0, s)
     else obind (load_path pnode s) (\<lambda>x.
     if pl_next x = 0 then obind (sjson_path_delete pnode s) (\<lambda>s. Ret (res, s))
     else obind (shortest_path pnode s) (\<lambda>sel.
     if sel = 0 then obind (sjson_path_delete pnode s) (\<lambda>s. Ret (0, s))
     else obind (load_path sel s) (\<lambda>sx. obind (load_str (pl_path sx) s) (\<lambda>t.
          obind (search_subtree E node t Normal s) (\<lambda>((res, rpnode), s).
          obind (load_path rpnode s) (\<lambda>_.
          obind (sjson_path_delete rpnode s) (\<lambda>s.
          obind (sjson_path_delete pnode s) (\<lambda>s. Ret (res, s))))))))))"

text \<open>
  The longest proper prefix of a path that names a node, or with \<open>setindex\<close> the whole path. The do loop
  writes through the pointer \<open>strrchr\<close> has returned, without a test.
\<close>

definition subroot_round :: "json_env \<Rightarrow> addr \<Rightarrow> compare \<Rightarrow> addr \<Rightarrow> addr \<times> json_state \<times> bool \<Rightarrow> (addr \<times> json_state \<times> bool) outcome" where
  "subroot_round E node cmp spath = (\<lambda>(t, s, more).
     obind (load_str spath s) (\<lambda>x.
     case cut_last (CHR ''.'') x of None \<Rightarrow> Fault NullDeref
     | Some y \<Rightarrow>
       obind (sjson_get_subtree E node y cmp (jput spath (StrObj y) s)) (\<lambda>(t, s).
       Ret (t, s, t = 0 \<and> CHR ''.'' \<in> set y))))"

definition sjson_find_subroot :: "json_env \<Rightarrow> addr \<Rightarrow> string \<Rightarrow> compare \<Rightarrow> int \<Rightarrow> (addr \<times> addr) js" where
  "sjson_find_subroot E node path cmp setindex s =
     obind (str_block E (length path + 1) path s) (\<lambda>(spath, s).
     if spath = 0 then Ret ((0, 0), s)
     else obind (if setindex \<noteq> - 1 then sjson_get_subtree E node path Setindex s else Ret (0, s)) (\<lambda>(t, s).
     if t \<noteq> 0 then Ret ((t, spath), s)
     else obind (while_o (\<lambda>(t, s, more). more) (subroot_round E node cmp spath) (0, s, True)) (\<lambda>(t, s, more).
     Ret ((t, spath), s))))"

end
