(* ===== verification/Json_Merge.thy ===== *)
theory Json_Merge
  imports Json_Path
begin

text \<open>
  Finding, deleting and adding subtrees by their paths (json/json.c): \<open>sjson_find_json\<close>,
  \<open>sjson_delete_json\<close> and \<open>sjson_add_json\<close> with their helpers.
\<close>

section \<open>Finding\<close>

definition new_str_node :: "json_env \<Rightarrow> u32 \<Rightarrow> int \<Rightarrow> string \<Rightarrow> addr js" where
  "new_str_node E ty lvl nm s = obind (jos_strdup E nm s) (\<lambda>(y, s). sjson_new_node E ty lvl y s)"

text \<open>A copy of the nodes above a key, up to the root. A round of the loop; \<open>None\<close> where the function returns NULL.\<close>

definition uptree_node :: "json_env \<Rightarrow> addr \<Rightarrow> addr \<Rightarrow> int \<Rightarrow> addr \<Rightarrow> (addr option) js" where
  "uptree_node E p tok lvl nroot s =
     obind (load_node p s) (\<lambda>pn.
     obind (symbol_name p s) (\<lambda>nm.
     obind (new_str_node E (sn_type pn) (sn_lvl pn) nm s) (\<lambda>(n, s).
     if n = 0 then Ret (None, s)
     else obind (if multiple_node pn
                 then if lvl \<noteq> sn_lvl pn then set_valuep n nroot s else set_bros n nroot s
                 else if sn_type pn = STMT \<and> tok \<noteq> 0
                 then obind (set_valuep n tok s) (\<lambda>s. set_valuep tok nroot s)
                 else Ret s) (\<lambda>s. Ret (Some n, s)))))"

definition uptree_round :: "json_env \<Rightarrow> addr \<times> addr \<times> int \<times> addr \<times> json_state \<Rightarrow> (addr \<times> addr \<times> int \<times> addr \<times> json_state) outcome" where
  "uptree_round E = (\<lambda>(p, pp, lvl, nroot, s).
     obind (load_node p s) (\<lambda>pn.
     obind (load_node pp s) (\<lambda>ppn.
     if sn_type pn = STMT \<and> \<not> (multiple_node ppn \<and> sn_value pn \<noteq> pp) then Ret (sn_prev pn, pp, lvl, nroot, s)
     else obind (if sn_type pn = STMT
                 then obind (load_node (sn_value pn) s) (\<lambda>v.
                      obind (symbol_name (sn_value pn) s) (\<lambda>nm. new_str_node E (sn_type v) (sn_lvl v) nm s))
                 else Ret (0, s)) (\<lambda>(tok, s).
          if sn_type pn = STMT \<and> tok = 0 then Ret (0, pp, lvl, 0, s)
          else obind (uptree_node E p tok lvl nroot s) (\<lambda>(r, s).
               case r of None \<Rightarrow> Ret (0, pp, lvl, 0, s)
               | Some n \<Rightarrow> obind (load_node p s) (\<lambda>pn. Ret (sn_prev pn, p, sn_lvl pn, n, s)))))))"

definition sjson_get_uptree :: "json_env \<Rightarrow> addr \<Rightarrow> addr js" where
  "sjson_get_uptree E node s =
     (if node = 0 then Ret (0, s)
      else obind (load_node node s) (\<lambda>n.
      obind (while_o (\<lambda>(p, pp, lvl, nroot, s). p \<noteq> 0) (uptree_round E) (sn_prev n, sn_prev n, sn_lvl n, 0, s)) (\<lambda>(p, pp, lvl, nroot, s).
      Ret (nroot, s))))"

text \<open>For an element of a set: the key of the set instead, and a copy of the name of the element.\<close>

definition find_pin :: "json_env \<Rightarrow> addr \<Rightarrow> ((addr \<times> addr) option) js" where
  "find_pin E f s =
     obind (load_node f s) (\<lambda>fn.
     obind (while_o (\<lambda>(x, hit). x \<noteq> 0 \<and> \<not> hit)
       (\<lambda>(x, hit). obind (load_node x s) (\<lambda>xn. Ret (if sn_type xn = STMT then (x, True) else (sn_prev xn, False)))) (sn_prev fn, False)) (\<lambda>(x, hit).
     if x = 0 then Ret (None, s)
     else obind (load_node x s) (\<lambda>xn.
     obind (load_node (sn_value xn) s) (\<lambda>v.
     if sn_type v \<noteq> TOKEN then Ret (None, s)
     else obind (symbol_name f s) (\<lambda>nm.
     obind (jos_strdup E nm s) (\<lambda>(pin, s).
     if pin = 0 then Ret (None, s) else Ret (Some (sn_value xn, pin), s)))))))"

text \<open>The copy of the set keeps only a new node for that element. \<open>None\<close> where the function returns NULL.\<close>

definition pin_copy :: "json_env \<Rightarrow> addr \<Rightarrow> addr \<Rightarrow> (bool) js" where
  "pin_copy E n pin s =
     obind (load_node n s) (\<lambda>nn.
     if sn_value nn = 0 then obind (sjson_free_i n s) (\<lambda>s. Ret (False, s))
     else obind (while_o (\<lambda>(h, stop). \<not> stop)
            (\<lambda>(h, stop). obind (load_node h s) (\<lambda>hn. Ret (if sn_type hn = SET \<and> sn_value hn \<noteq> 0 then (sn_value hn, False) else (h, True)))) (sn_value nn, False)) (\<lambda>(h, stop).
     obind (load_node h s) (\<lambda>hn.
     obind (sjson_new_node E TOKEN 0 pin s) (\<lambda>(nt, s).
     if nt = 0 then obind (jos_free pin s) (\<lambda>s. obind (sjson_free_i n s) (\<lambda>s. Ret (False, s)))
     else obind (load_node (sn_bros hn) s) (\<lambda>w.
          obind (upd_node nt (\<lambda>x. x\<lparr>sn_lvl := sn_lvl w\<rparr>) s) (\<lambda>s.
          obind (set_bros h nt s) (\<lambda>s.
          obind (sjson_free_i (sn_bros hn) s) (\<lambda>s. Ret (True, s)))))))))"

definition tree_bottom :: "addr \<Rightarrow> json_state \<Rightarrow> addr outcome" where
  "tree_bottom h s =
     obind (while_o (\<lambda>(h, stop). \<not> stop)
       (\<lambda>(h, stop). obind (load_node h s) (\<lambda>hn.
          if sn_value hn = 0 \<and> sn_bros hn = 0 then Ret (h, True)
          else let h = (if sn_value hn \<noteq> 0 then sn_value hn else h) in
               obind (load_node h s) (\<lambda>hn. Ret (if sn_bros hn \<noteq> 0 then sn_bros hn else h, False)))) (h, False)) (\<lambda>(h, stop). Ret h)"

definition find_attach :: "json_env \<Rightarrow> addr \<Rightarrow> addr \<Rightarrow> addr js" where
  "find_attach E ptree n s =
     obind (new_str_node E STMT 0 ''STM0'' s) (\<lambda>(x, s).
     if x = 0 then Ret (0, s)
     else obind (tree_bottom ptree s) (\<lambda>h.
          obind (set_bros h x s) (\<lambda>s.
          obind (load_node h s) (\<lambda>hn.
          obind (upd_node x (\<lambda>m. m\<lparr>sn_lvl := sn_lvl hn, sn_value := n\<rparr>) s) (\<lambda>s. Ret (ptree, s))))))"

text \<open>
  Without a parent tree the copy gets a block and a statement as its head. In the error branch of the
  statement the tree is released and then its first node once more.
\<close>

definition find_head :: "json_env \<Rightarrow> addr \<Rightarrow> addr js" where
  "find_head E n s =
     obind (new_str_node E BLOCK 0 ''BLK0'' s) (\<lambda>(b, s).
     if b = 0 then obind (sjson_free_i n s) (\<lambda>s. Ret (0, s))
     else obind (new_str_node E STMT 0 ''STM0'' s) (\<lambda>(h, s).
     if h = 0 then obind (sjson_free_i n s) (\<lambda>s. obind (sjson_free_node n s) (\<lambda>s. Ret (0, s)))
     else obind (set_bros b h s) (\<lambda>s.
          obind (set_valuep h n s) (\<lambda>s. Ret (b, s)))))"

definition find_finish :: "addr \<Rightarrow> addr \<Rightarrow> addr js" where
  "find_finish b n s =
     obind (sjson_backward_rechain b s) (\<lambda>s.
     obind (sjson_clear_comma n s) (\<lambda>s.
     obind (sjson_level_assign b 0 s) (\<lambda>s. Ret (b, s))))"

text \<open>\<open>mode\<close> 0 keeps the path above the subtree.\<close>

definition sjson_find_json :: "json_env \<Rightarrow> addr \<Rightarrow> string option \<Rightarrow> int \<Rightarrow> addr js" where
  "sjson_find_json E r path mode s =
     (case path of None \<Rightarrow> Ret (0, s)
      | Some path \<Rightarrow>
        if r = 0 then Ret (0, s)
        else
        obind (sjson_get_subtree E r path Normal s) (\<lambda>(x, s).
        if x = 0 then Ret (0, s)
        else
        obind (load_node x s) (\<lambda>xn.
        obind (if sn_value xn = 0 then find_pin E x s else Ret (Some (x, 0), s)) (\<lambda>(r, s).
        case r of None \<Rightarrow> Ret (0, s)
        | Some (x, pin) \<Rightarrow>
          obind (if mode = 0 then sjson_get_uptree E x s else Ret (0, s)) (\<lambda>(ptree, s).
          if mode = 0 \<and> ptree = 0 then Ret (0, s)
          else
          obind (sjson_copy E x s) (\<lambda>(n, s).
          if n = 0 then obind (if ptree \<noteq> 0 then sjson_free_i ptree s else Ret s) (\<lambda>s. Ret (0, s))
          else
          obind (if pin \<noteq> 0 then pin_copy E n pin s else Ret (True, s)) (\<lambda>(ok, s).
          if \<not> ok then Ret (0, s)
          else
          obind (if ptree \<noteq> 0 then find_attach E ptree n s else find_head E n s) (\<lambda>(b, s).
          if b = 0 then Ret (0, s) else find_finish b n s))))))))"

section \<open>Deleting\<close>

definition sjson_delete_json :: "json_env \<Rightarrow> addr \<Rightarrow> string option \<Rightarrow> int \<Rightarrow> addr js" where
  "sjson_delete_json E r path mode s =
     (case path of None \<Rightarrow> Ret (0, s)
      | Some path \<Rightarrow>
        if r = 0 \<or> (mode \<noteq> 0 \<and> mode \<noteq> 1) then Ret (0, s)
        else obind (sjson_get_subtree E r path (if mode = 0 then Normal else Indexed) s) (\<lambda>(n, s).
             if n = 0 then Ret (0, s)
             else obind (sjson_delete_json_subtree n s) (\<lambda>(_, s). Ret (r, s))))"

section \<open>Adding\<close>

text \<open>
  The number in the last brackets of a path, \<open>- 1\<close> without brackets, and the path with the brackets cut
  off. The digits are read from the right but weighted as if they were read from the left.
\<close>

fun set_block_scan :: "nat \<Rightarrow> int \<Rightarrow> string \<Rightarrow> (int \<times> nat option) outcome" where
  "set_block_scan 0 num t = Fault OutOfBounds"
| "set_block_scan (Suc i) num t =
     (let c = t ! i in
      if c = CHR ''['' \<or> i = 0 \<or> c = CHR ''.'' then Ret (num, if c = CHR ''['' then Some i else None)
      else if \<not> is_digit c then Ret (num, None)
      else set_block_scan i (num * 10 + int (of_char c) - 48) t)"

definition make_set_block_path :: "string \<Rightarrow> bool \<Rightarrow> (int \<times> string) outcome" where
  "make_set_block_path t chk =
     (if t = [] then Fault OutOfBounds
      else if last t \<noteq> CHR '']'' then Ret (- 1, t)
      else obind (set_block_scan (length t - 1) 0 t) (\<lambda>(num, e).
           Ret (num, case e of Some i \<Rightarrow> if chk then t else take i t | None \<Rightarrow> t)))"

text \<open>The addresses of all words below a node, added up.\<close>

partial_function (option) get_set_value_rec :: "addr \<Rightarrow> json_state \<Rightarrow> addr outcome option" where
  "get_set_value_rec p s =
     (if p = 0 then Some (Ret 0)
      else rbind (Some (load_node p s)) (\<lambda>n.
      rbind (get_set_value_rec (sn_value n) s) (\<lambda>v.
      rbind (get_set_value_rec (sn_bros n) s) (\<lambda>b.
      Some (Ret ((if sn_type n = TOKEN \<and> empty_node n then p else 0) + v + b))))))"

declare get_set_value_rec.simps [code]

text \<open>The statement of the subtree that belongs to the end of the path: one statement up for every component.\<close>

definition climb_to_stmt :: "addr \<Rightarrow> addr \<Rightarrow> json_state \<Rightarrow> addr outcome" where
  "climb_to_stmt t prev s =
     obind (while_o (\<lambda>(t, stop). \<not> stop)
       (\<lambda>(t, stop). obind (load_node t s) (\<lambda>tn.
          if sn_type tn = STMT then Ret (t, True)
          else obind (load_node (sn_prev tn) s) (\<lambda>un.
               if sn_type un \<noteq> STMT then Ret (sn_prev tn, False)
               else if sn_bros un = prev then Ret (sn_prev un, False)
               else obind (load_node prev s) (\<lambda>pn. Ret (if sn_prev un = sn_prev pn then sn_prev un else sn_prev tn, False))))) (t, False)) (\<lambda>(t, stop).
     Ret t)"

definition partial_round :: "json_state \<Rightarrow> addr \<times> addr \<times> string \<times> bool \<Rightarrow> (addr \<times> addr \<times> string \<times> bool) outcome" where
  "partial_round s = (\<lambda>(t, prev, buf, done).
     let done = (CHR ''.'' \<notin> set buf); buf = (case cut_last (CHR ''.'') buf of None \<Rightarrow> buf | Some x \<Rightarrow> x) in
     obind (climb_to_stmt t prev s) (\<lambda>t.
     if done then Ret (t, t, buf, True) else obind (load_node t s) (\<lambda>tn. Ret (sn_prev tn, t, buf, False))))"

definition sjson_find_partial_root :: "json_env \<Rightarrow> addr \<Rightarrow> string \<Rightarrow> addr js" where
  "sjson_find_partial_root E cu path s =
     (if cu = 0 then Ret (0, s)
      else obind (str_block E (length path + 1) path s) (\<lambda>(buff, s).
      if buff = 0 then Ret (0, s)
      else obind (while_o (\<lambda>(t, prev, buf, done). \<not> done \<and> t \<noteq> 0) (partial_round s) (cu, cu, path, False)) (\<lambda>(t, prev, buf, done).
           obind (jos_free buff s) (\<lambda>s. Ret (t, s)))))"

text \<open>Appending a word to the set behind a key. The tree is returned in any case.\<close>

definition add_set_elem :: "json_env \<Rightarrow> addr \<Rightarrow> addr \<Rightarrow> addr \<Rightarrow> json_state \<Rightarrow> json_state outcome" where
  "add_set_elem E parent child path s =
     obind (sjson_copy E child s) (\<lambda>(pchild, s).
     obind (load_node parent s) (\<lambda>pn.
     obind (if sn_value pn = 0 then Ret 0 else obind (load_node (sn_value pn) s) (\<lambda>v. Ret (sn_value v))) (\<lambda>v.
     obind (if v = 0 then Ret 0 else obind (load_node v s) (\<lambda>vn. Ret (sn_bros vn))) (\<lambda>v.
     obind (if v = 0 then sjson_free_i pchild s
            else obind (bros_last v s) (\<lambda>l.
                 obind (set_bros l pchild s) (\<lambda>s.
                 obind (load_node l s) (\<lambda>ln.
                 obind (upd_node pchild (\<lambda>n. n\<lparr>sn_prev := sn_prev ln, sn_value := 0\<rparr>) s) (\<lambda>s.
                 sjson_add_comma parent s))))) (\<lambda>s. jos_free path s)))))"

text \<open>A key with a single word: the word becomes the first element of a new set. \<open>False\<close> where the function returns.\<close>

definition add_wrap_set :: "json_env \<Rightarrow> addr \<Rightarrow> addr \<Rightarrow> bool js" where
  "add_wrap_set E prev trace s =
     obind (new_str_node E SET 0 ''SETX0'' s) (\<lambda>(set0, s).
     if set0 = 0 then Ret (False, s)
     else obind (new_str_node E SET 0 ''SETI0'' s) (\<lambda>(set1, s).
     if set1 = 0 then obind (sjson_free_node set0 s) (\<lambda>s. Ret (False, s))
     else obind (load_node prev s) (\<lambda>pn. obind (load_node trace s) (\<lambda>tn.
     obind (upd_node set0 (\<lambda>n. n\<lparr>sn_value := set1, sn_bros := 0, sn_prev := sn_prev pn, sn_lvl := sn_lvl pn\<rparr>) s) (\<lambda>s.
     obind (upd_node set1 (\<lambda>n. n\<lparr>sn_value := 0, sn_bros := trace, sn_prev := set0, sn_flag := sn_flag tn, sn_lvl := sn_lvl pn + 1\<rparr>) s) (\<lambda>s.
     obind (upd_node trace (\<lambda>n. n\<lparr>sn_prev := set1, sn_bros := 0, sn_lvl := sn_lvl pn + 1\<rparr>) s) (\<lambda>s.
     obind (set_valuep prev set0 s) (\<lambda>s. Ret (True, s)))))))))"

text \<open>
  The scan of a level for a statement with the key of the child. What it ends with: the end of the level,
  a level further down to go on with, or a word that was replaced; the statement of that word is released
  together with all its brothers.
\<close>

datatype scan_end = At_End addr int | Rescan addr addr addr | Replaced addr addr int | Lost addr addr int

definition scan_hit :: "addr \<Rightarrow> addr \<Rightarrow> addr \<Rightarrow> int \<Rightarrow> scan_end js" where
  "scan_hit trace prev child cnt s =
     obind (load_node trace s) (\<lambda>tn.
     let key = sn_value tn in
     obind (sjson_search_ll_node key s) (\<lambda>parent.
     obind (sjson_search_ll_node child s) (\<lambda>pchild.
     obind (load_node parent s) (\<lambda>pn.
     obind (if sn_type pn = TOKEN then obind (load_node pchild s) (\<lambda>cn. Ret (sn_type cn = TOKEN)) else Ret False) (\<lambda>both.
     if both
     then obind (load_node key s) (\<lambda>kn. obind (sjson_free_i (sn_prev kn) s) (\<lambda>s. Ret (Replaced prev parent cnt, s)))
     else if pchild = 0 then Ret (Lost key parent cnt, s)
     else obind (load_node pchild s) (\<lambda>cn.
          Ret (Rescan key parent (if sn_bros cn \<noteq> 0 then sn_bros cn else pchild), s)))))))"

partial_function (option) level_scan :: "addr \<Rightarrow> addr \<Rightarrow> addr \<Rightarrow> int \<Rightarrow> json_state \<Rightarrow> (scan_end \<times> json_state) outcome option" where
  "level_scan trace prev child cnt s =
     (if trace = 0 then Some (Ret (At_End prev cnt, s))
      else rbind (Some (load_node trace s)) (\<lambda>tn.
      rbind (Some (if sn_type tn \<noteq> STMT then Ret False
                   else obind (symbol_name (sn_value tn) s) (\<lambda>a. obind (load_node child s) (\<lambda>cn. obind (symbol_name (sn_value cn) s) (\<lambda>b. Ret (a = b)))))) (\<lambda>hit.
      if hit then Some (scan_hit trace prev child cnt s)
      else level_scan (sn_bros tn) trace child (if sn_bros tn \<noteq> 0 then cnt + 1 else cnt) s)))"

declare level_scan.simps [code]

text \<open>The do loop in front of the scan: down the blocks and sets.\<close>

definition descend :: "addr \<Rightarrow> json_state \<Rightarrow> (addr \<times> addr) outcome" where
  "descend trace s =
     obind (while_o (\<lambda>(prev, t, go). go)
       (\<lambda>(prev, t, go). obind (load_node t s) (\<lambda>tn.
          obind (load_node (sn_value tn) s) (\<lambda>vn.
          Ret (t, sn_value tn, sn_value vn \<noteq> 0 \<and> multiple_node vn)))) (0, trace, True)) (\<lambda>(prev, t, go). Ret (prev, t))"

text \<open>
  The search of the place for the child: the node to append to, the parent, the child, the number of
  nodes on the level and the number of members. \<open>None\<close> where the function returns.
\<close>

partial_function (option) add_place :: "json_env \<Rightarrow> addr \<Rightarrow> addr \<Rightarrow> addr \<Rightarrow> json_state
    \<Rightarrow> (((addr \<times> addr \<times> addr \<times> int \<times> int) option) \<times> json_state) outcome option" where
  "add_place E trace parent child s =
     rbind (Some (descend trace s)) (\<lambda>(prev, t).
     rbind (Some (load_node t s)) (\<lambda>tn.
     rbind (Some (if sn_bros tn = 0 then add_wrap_set E prev t s else Ret (True, s))) (\<lambda>(ok, s).
     if \<not> ok then Some (Ret (None, s))
     else rbind (Some (load_node t s)) (\<lambda>tn.
     let pre = sjson_get_setcount tn in
     rbind (level_scan t prev child 0 s) (\<lambda>(e, s).
     case e of
       At_End t cnt \<Rightarrow> Some (Ret (Some (t, parent, child, cnt, pre), s))
     | Replaced t parent cnt \<Rightarrow> Some (Ret (Some (t, parent, child, cnt, pre), s))
     | Lost t parent cnt \<Rightarrow> Some (Ret (Some (t, parent, child, cnt, pre), s))
     | Rescan t parent child \<Rightarrow> add_place E t parent child s)))))"

declare add_place.simps [code]

text \<open>The block around the child when it becomes the element of a set: the place, the two nodes and the child.\<close>

definition add_block :: "json_env \<Rightarrow> addr \<Rightarrow> addr \<Rightarrow> bool \<Rightarrow> ((addr \<times> addr \<times> addr \<times> addr) option) js" where
  "add_block E trace child mismatch s =
     obind (load_node trace s) (\<lambda>tn.
     obind (if multiple_node tn then Ret True else in_set trace s) (\<lambda>inside.
     if \<not> inside then Ret (Some (trace, 0, 0, child), s)
     else if mismatch
     then obind (if sn_value tn = 0 then Ret 0
                 else obind (load_node (sn_value tn) s) (\<lambda>v.
                      if sn_bros v = 0 then Ret 0 else obind (load_node (sn_bros v) s) (\<lambda>b. Ret (if sn_type b = STMT then sn_bros v else 0)))) (\<lambda>v.
          Ret (Some (if v \<noteq> 0 then v else trace, 0, 0, child), s))
     else obind (new_str_node E BLOCK 0 ''BLKX0'' s) (\<lambda>(x, s).
          if x = 0 then Ret (None, s)
          else obind (new_str_node E BLOCK 0 ''BLKI0'' s) (\<lambda>(i, s).
          if i = 0 then obind (sjson_free_node x s) (\<lambda>s. Ret (None, s))
          else obind (upd_node x (\<lambda>n. n\<lparr>sn_lvl := sn_lvl tn, sn_value := i\<rparr>) s) (\<lambda>s.
               obind (upd_node i (\<lambda>n. n\<lparr>sn_lvl := sn_lvl tn + 1, sn_bros := child\<rparr>) s) (\<lambda>s.
               Ret (Some (trace, x, i, x), s)))))))"

definition add_finish :: "addr \<Rightarrow> addr \<Rightarrow> addr \<Rightarrow> addr js" where
  "add_finish n parent trace s =
     obind (sjson_backward_rechain parent s) (\<lambda>s.
     obind (sjson_add_comma trace s) (\<lambda>s.
     obind (sjson_level_assign n 0 s) (\<lambda>s. Ret (n, s))))"

definition add_at_root :: "json_env \<Rightarrow> addr \<Rightarrow> addr \<Rightarrow> addr js" where
  "add_at_root E n child s =
     obind (bros_last n s) (\<lambda>trace.
     obind (load_node child s) (\<lambda>cn.
     obind (sjson_copy E (sn_bros cn) s) (\<lambda>(c, s).
     obind (set_bros trace c s) (\<lambda>s.
     obind (upd_node c (\<lambda>x. x\<lparr>sn_prev := trace, sn_lvl := 0\<rparr>) s) (\<lambda>s.
     add_finish n n trace s)))))"

definition add_below :: "json_env \<Rightarrow> addr \<Rightarrow> addr \<Rightarrow> addr \<Rightarrow> int \<Rightarrow> addr js" where
  "add_below E n parent child xindex s =
     obind (run_loop (add_place E parent parent child s)) (\<lambda>(r, s).
     case r of None \<Rightarrow> Ret (n, s)
     | Some (trace, parent, child, cnt, pre) \<Rightarrow>
       obind (add_block E trace child (xindex \<noteq> - 1 \<and> xindex + pre \<noteq> cnt) s) (\<lambda>(r, s).
       case r of None \<Rightarrow> Ret (n, s)
       | Some (trace, x, i, child) \<Rightarrow>
         obind (sjson_copy E child s) (\<lambda>(c, s).
         obind (set_bros trace c s) (\<lambda>s.
         obind (set_prevp c trace s) (\<lambda>s.
         obind (sjson_free_node x s) (\<lambda>s.
         obind (sjson_free_node i s) (\<lambda>s.
         add_finish n parent trace s)))))))"

text \<open>
  With a node of the tree that a prefix of the path names: the child, or \<open>None\<close> when the function has
  already returned.
\<close>

definition add_child :: "json_env \<Rightarrow> addr \<Rightarrow> addr \<Rightarrow> addr \<Rightarrow> string \<Rightarrow> ((addr \<times> int) option) js" where
  "add_child E a parent path spath s =
     obind (load_str path s) (\<lambda>pt.
     if length spath < length pt + 1 then Fault OutOfBounds
     else
     let nsub = drop (length pt + 1) spath in
     obind (make_set_block_path pt True) (\<lambda>(xindex, _).
     obind (sjson_get_subtree E a nsub Subpath s) (\<lambda>(child, s).
     if child \<noteq> 0
     then obind (sjson_find_partial_root E child nsub s) (\<lambda>(c, s).
          obind (jos_free path s) (\<lambda>s. Ret (Some (c, xindex), s)))
     else obind (sjson_get_subtree E a pt Indexed2 s) (\<lambda>(elem, s).
          if elem = 0 then obind (jos_free path s) (\<lambda>s. Ret (None, s))
          else obind (run_loop (get_set_value_rec elem s)) (\<lambda>c.
               if c = 0 then obind (jos_free path s) (\<lambda>s. Ret (None, s))
               else obind (add_set_elem E parent c path s) (\<lambda>s. Ret (None, s)))))))"

definition sjson_add_json :: "json_env \<Rightarrow> addr \<Rightarrow> addr \<Rightarrow> string \<Rightarrow> addr js" where
  "sjson_add_json E n a spath s =
     (if n = 0 \<or> a = 0 then Ret (0, s)
      else obind (jos_strdup E spath s) (\<lambda>(bp, s).
      obind (load_str bp s) (\<lambda>t.
      obind (make_set_block_path t False) (\<lambda>(index, bpath).
      let s = jput bp (StrObj bpath) s in
      obind (if index = - 1 then jos_free bp s else Ret s) (\<lambda>s.
      obind (sjson_find_subroot E n bpath Indexed index s) (\<lambda>((parent, path), s).
      if parent = 0
      then obind (jos_free path s) (\<lambda>s. add_at_root E n a s)
      else if path = 0 then Ret (n, s)
      else obind (add_child E a parent path spath s) (\<lambda>(r, s).
           case r of None \<Rightarrow> Ret (n, s)
           | Some (child, xindex) \<Rightarrow>
             if parent = n then add_at_root E n child s else add_below E n parent child xindex s)))))))"

end
