(* ===== verification/Json_Rechain.thy ===== *)
theory Json_Rechain
  imports Json_Edit Json_Parsed
begin

text \<open>
  What \<open>__sjson_backward_rechain\<close> does to a tree, as a function on trees, and that it completes a copy of
  a parsed document to a tree of the document again.
\<close>

section \<open>The effect on trees\<close>

definition head_prev :: "addr \<Rightarrow> jnode list \<Rightarrow> jnode list" where
  "head_prev a ns = (case ns of [] \<Rightarrow> [] | n # ms \<Rightarrow> set_prev a n # ms)"

fun relink :: "addr \<Rightarrow> jnode list \<Rightarrow> jnode list" where
  "relink p [] = []"
| "relink p (n # ns) = set_prev p n # relink (j_addr n) ns"

definition rc_bros :: "jnode \<Rightarrow> jnode list \<Rightarrow> jnode list" where
  "rc_bros n ns = (if j_type n = SET then map (set_prev (j_addr n)) ns else relink (j_addr n) ns)"

definition rc_stmt :: "addr \<Rightarrow> jnode list \<Rightarrow> jnode list" where
  "rc_stmt a vs = (case vs of [] \<Rightarrow> [] | t # ts \<Rightarrow> set_val (head_prev a (j_val t)) (set_prev a t) # ts)"

definition rc_node :: "jnode \<Rightarrow> jnode list \<Rightarrow> jnode list \<Rightarrow> jnode list" where
  "rc_node n vs ns =
     (if j_type n = BLOCK \<or> j_type n = SET
      then set_val (if ns = [] \<or> j_type n = BLOCK then head_prev (j_addr n) vs else vs) n # rc_bros n ns
      else if j_type n = STMT then set_val (rc_stmt (j_addr n) vs) n # ns
      else set_val vs n # ns)"

fun rc :: "jnode list \<Rightarrow> jnode list" where
  "rc [] = []"
| "rc (n # ns) = rc_node n (rc (j_val n)) (rc ns)"

lemma headx_head_prev [simp]: "headx e (head_prev a ns) = headx e ns"
  by (cases ns) (simp_all add: head_prev_def)

lemma headx_rc [simp]: "headx e (rc ns) = headx e ns"
  by (cases ns) (simp_all add: rc_node_def)

lemma rc_Nil_iff [simp]: "rc ns = [] \<longleftrightarrow> ns = []"
  by (cases ns) (simp_all add: rc_node_def)

lemma set_prev_set_prev [simp]: "set_prev a (set_prev b n) = set_prev a n"
  by (cases n) simp

lemma map_set_prev_relink [simp]: "map (set_prev a) (relink p ns) = map (set_prev a) ns"
  by (induction ns arbitrary: p) simp_all

section \<open>The loops\<close>

lemma set_prevp_head:
  assumes "holds F (cells e (n # ns) @ C) (js_heap s)"
  obtains s' where "set_prevp (j_addr n) a s = Ret s'" "holds F (cells e (set_prev a n # ns) @ C) (js_heap s')"
proof -
  have "mset (cells e (n # ns) @ C) = mset ((j_addr n, NodeObj (node_obj (headx e ns) n)) # (j_sym n, StrObj (j_name n)) # cells 0 (j_val n) @ cells e ns @ C)"
    by simp
  from upd_node_perm [OF assms this, of "\<lambda>x. x\<lparr>sn_prev := a\<rparr>"] show thesis
    by (intro that [of "jput (j_addr n) (NodeObj (node_obj (headx e ns) (set_prev a n))) s"]) (simp_all add: set_prevp_def)
qed

lemma rechain_loop:
  "holds F (cells 0 ts @ C) (js_heap s) \<Longrightarrow> \<exists>p' s'.
     while_o (\<lambda>(p, t, s). t \<noteq> 0) (\<lambda>(p, t, s). obind (set_prevp t (if ty = SET then node else p) s) (\<lambda>s.
          obind (load_node t s) (\<lambda>tn. Ret (t, sn_bros tn, s)))) (p, headx 0 ts, s) = Ret (p', 0, s')
     \<and> holds F (cells 0 (if ty = SET then map (set_prev node) ts else relink p ts) @ C) (js_heap s')"
proof (induction ts arbitrary: p C s)
  case (Cons t us)
  let ?b = "\<lambda>(p, t, s). t \<noteq> (0 :: addr)" and ?c = "\<lambda>(p, t, s). obind (set_prevp t (if ty = SET then node else p) s) (\<lambda>s.
          obind (load_node t s) (\<lambda>tn. Ret (t, sn_bros tn, s)))"
  obtain s1 where s1: "set_prevp (j_addr t) (if ty = SET then node else p) s = Ret s1"
    "holds F (cells 0 (set_prev (if ty = SET then node else p) t # us) @ C) (js_heap s1)"
    by (rule set_prevp_head [OF Cons.prems])
  let ?t = "set_prev (if ty = SET then node else p) t"
  have l: "load_node (j_addr t) s1 = Ret (node_obj (headx 0 us) ?t)" "j_addr t \<noteq> 0"
    using load_node_cell [OF s1(2), of "j_addr ?t"] holds_get(2) [OF s1(2), of "j_addr ?t" "NodeObj (node_obj (headx 0 us) ?t)"] by simp_all
  have "holds F (cells 0 us @ cells (headx 0 us) [?t] @ C) (js_heap s1)" using s1(2) by (subst holds_perm) (auto simp: ac_simps)
  from Cons.IH [OF this, of "j_addr t"] obtain p' s' where
    IH: "while_o ?b ?c (j_addr t, headx 0 us, s1) = Ret (p', 0, s')"
      "holds F (cells 0 (if ty = SET then map (set_prev node) us else relink (j_addr t) us) @ cells (headx 0 us) [?t] @ C) (js_heap s')" by blast
  have hx: "headx 0 (if ty = SET then map (set_prev node) us else relink (j_addr t) us) = headx 0 us" by (cases us) simp_all
  have "while_o ?b ?c (p, j_addr t, s) = Ret (p', 0, s')" using l s1(1) IH(1) by (simp add: while_o_step)
  moreover have "holds F (cells 0 (if ty = SET then map (set_prev node) (t # us) else relink p (t # us)) @ C) (js_heap s')"
    using IH(2) hx by (subst holds_perm) (auto simp: ac_simps)
  ultimately show ?case by auto
qed auto

lemma rechain_bros_law:
  assumes "holds F (cells 0 ns @ C) (js_heap s)"
  obtains s' where "rechain_bros (j_addr n) (j_type n) (headx 0 ns) s = Ret s'" "holds F (cells 0 (rc_bros n ns) @ C) (js_heap s')"
  using rechain_loop [OF assms, of "j_type n" "j_addr n" "j_addr n"] by (auto simp: rechain_bros_def rc_bros_def)

text \<open>The back pointer of the first value.\<close>

lemma set_prevp_value:
  assumes "holds F (cells 0 vs @ C) (js_heap s)"
  obtains s' where "(if headx 0 vs \<noteq> 0 then set_prevp (headx 0 vs) a s else Ret s) = Ret s'" "holds F (cells 0 (head_prev a vs) @ C) (js_heap s')"
proof (cases vs)
  case Nil
  then show thesis using that [of s] assms by (simp add: head_prev_def)
next
  case (Cons v us)
  obtain s' where "set_prevp (j_addr v) a s = Ret s'" "holds F (cells 0 (set_prev a v # us) @ C) (js_heap s')"
    by (rule set_prevp_head [OF assms [unfolded Cons]])
  then show thesis using that [of s'] headx_not_0 [OF assms] by (simp add: Cons head_prev_def)
qed

lemma rechain_node_multiple:
  assumes h: "holds F (cells 0 (n # ns) @ C) (js_heap s)" and n: "j_type n = BLOCK \<or> j_type n = SET"
  obtains s' where "rechain_node (j_addr n) s = Ret s'" "holds F (cells 0 (rc_node n (j_val n) ns) @ C) (js_heap s')"
proof -
  let ?n = "node_obj (headx 0 ns) n" and ?a = "j_addr n" and ?y = "(j_sym n, StrObj (j_name n))"
  let ?v = "if ns = [] \<or> j_type n = BLOCK then head_prev ?a (j_val n) else j_val n"
  have l: "load_node ?a s = Ret ?n" using load_node_cell [OF h, of ?a ?n] by simp
  have hx: "headx 0 (rc_bros n ns) = headx 0 ns" by (cases ns) (simp_all add: rc_bros_def)
  have cell: "cells 0 (rc_node n (j_val n) ns) = (?a, NodeObj ?n) # ?y # cells 0 ?v @ cells 0 (rc_bros n ns)"
    using n by (simp add: rc_node_def hx node_obj_def)
  have n0: "headx 0 ns = 0 \<longleftrightarrow> ns = []"
    using headx_not_0 [of F 0 ns "(?a, NodeObj ?n) # ?y # cells 0 (j_val n) @ C" "js_heap s"] h by (cases ns) (auto simp: holds_def)
  have m: "multiple_node ?n" using n by (simp add: multiple_node_def)
  have hv: "holds F (cells 0 (j_val n) @ (?a, NodeObj ?n) # ?y # cells 0 ns @ C) (js_heap s)" using h by (subst holds_perm) (auto simp: ac_simps)
  show thesis
  proof (cases "ns = []")
    case True
    obtain s1 where s1: "(if headx 0 (j_val n) \<noteq> 0 then set_prevp (headx 0 (j_val n)) ?a s else Ret s) = Ret s1"
      "holds F (cells 0 (head_prev ?a (j_val n)) @ (?a, NodeObj ?n) # ?y # cells 0 ns @ C) (js_heap s1)"
      by (rule set_prevp_value [OF hv])
    obtain s2 where s2: "(if headx 0 (head_prev ?a (j_val n)) \<noteq> 0 then set_prevp (headx 0 (head_prev ?a (j_val n))) ?a s1 else Ret s1) = Ret s2"
      "holds F (cells 0 (head_prev ?a (head_prev ?a (j_val n))) @ (?a, NodeObj ?n) # ?y # cells 0 ns @ C) (js_heap s2)"
      by (rule set_prevp_value [OF s1(2)])
    have hh: "head_prev ?a (head_prev ?a (j_val n)) = head_prev ?a (j_val n)" by (cases "j_val n") (simp_all add: head_prev_def)
    have f: "holds F (cells 0 (rc_node n (j_val n) ns) @ C) (js_heap t)"
      if "holds F (cells 0 (head_prev ?a (j_val n)) @ (?a, NodeObj ?n) # ?y # cells 0 ns @ C) (js_heap t)" for t
      using that unfolding cell by (subst holds_perm) (auto simp: True rc_bros_def ac_simps)
    have "rechain_node ?a s = Ret (if j_type n = BLOCK then s2 else s1)"
      using l m s1(1) s2(1) True by (auto simp: rechain_node_def split: if_splits)
    moreover have "holds F (cells 0 (rc_node n (j_val n) ns) @ C) (js_heap (if j_type n = BLOCK then s2 else s1))"
      using f [OF s1(2)] f [of s2] s2(2) hh by simp
    ultimately show thesis by (rule that)
  next
    case False
    have hn: "holds F (cells 0 ns @ (?a, NodeObj ?n) # ?y # cells 0 (j_val n) @ C) (js_heap s)" using h by (subst holds_perm) (auto simp: ac_simps)
    obtain s1 where s1: "rechain_bros ?a (j_type n) (headx 0 ns) s = Ret s1"
      "holds F (cells 0 (rc_bros n ns) @ (?a, NodeObj ?n) # ?y # cells 0 (j_val n) @ C) (js_heap s1)"
      by (rule rechain_bros_law [OF hn])
    have hv1: "holds F (cells 0 (j_val n) @ (?a, NodeObj ?n) # ?y # cells 0 (rc_bros n ns) @ C) (js_heap s1)"
      using s1(2) by (subst holds_perm) (auto simp: ac_simps)
    obtain s2 where s2: "(if headx 0 (j_val n) \<noteq> 0 then set_prevp (headx 0 (j_val n)) ?a s1 else Ret s1) = Ret s2"
      "holds F (cells 0 (head_prev ?a (j_val n)) @ (?a, NodeObj ?n) # ?y # cells 0 (rc_bros n ns) @ C) (js_heap s2)"
      by (rule set_prevp_value [OF hv1])
    have "rechain_node ?a s = Ret (if j_type n = BLOCK then s2 else s1)"
      using l m s1(1) s2(1) False n0 by (auto simp: rechain_node_def split: if_splits)
    moreover have "holds F (cells 0 (rc_node n (j_val n) ns) @ C) (js_heap (if j_type n = BLOCK then s2 else s1))"
    proof (cases "j_type n = BLOCK")
      case True
      then show ?thesis using s2(2) unfolding cell by (subst holds_perm) (auto simp: ac_simps)
    next
      case blk: False
      then show ?thesis using hv1 False unfolding cell by (subst holds_perm) (auto simp: ac_simps)
    qed
    ultimately show thesis by (rule that)
  qed
qed

lemma rechain_node_stmt:
  assumes h: "holds F (cells 0 (n # ns) @ C) (js_heap s)" and n: "j_type n = STMT"
  obtains s' where "rechain_node (j_addr n) s = Ret s'" "holds F (cells 0 (rc_node n (j_val n) ns) @ C) (js_heap s')"
proof -
  let ?n = "node_obj (headx 0 ns) n" and ?a = "j_addr n" and ?y = "(j_sym n, StrObj (j_name n))"
  have l: "load_node ?a s = Ret ?n" using load_node_cell [OF h, of ?a ?n] by simp
  have m: "\<not> multiple_node ?n" using n by (simp add: multiple_node_def node_types)
  have t: "STMT \<noteq> BLOCK" "STMT \<noteq> SET" by (simp_all add: node_types)
  show thesis
  proof (cases "j_val n")
    case Nil
    have "rechain_node ?a s = Ret s" using l m n Nil by (simp add: rechain_node_def)
    moreover have "rc_node n (j_val n) ns = n # ns" using n t Nil by (cases n) (simp add: rc_node_def rc_stmt_def)
    ultimately show thesis using h that by simp
  next
    case (Cons v vs)
    let ?R = "(?a, NodeObj ?n) # ?y # cells 0 ns @ C"
    have hv: "holds F (cells 0 (v # vs) @ ?R) (js_heap s)" using h Cons by (subst holds_perm) (auto simp: ac_simps)
    obtain s1 where s1: "set_prevp (j_addr v) ?a s = Ret s1" "holds F (cells 0 (set_prev ?a v # vs) @ ?R) (js_heap s1)"
      by (rule set_prevp_head [OF hv])
    have hw: "holds F (cells 0 (j_val v) @ (j_addr v, NodeObj (node_obj (headx 0 vs) (set_prev ?a v))) # (j_sym v, StrObj (j_name v)) # cells 0 vs @ ?R) (js_heap s1)"
      using s1(2) by (subst holds_perm) (auto simp: ac_simps)
    obtain s2 where s2: "(if headx 0 (j_val v) \<noteq> 0 then set_prevp (headx 0 (j_val v)) ?a s1 else Ret s1) = Ret s2"
      "holds F (cells 0 (head_prev ?a (j_val v)) @ (j_addr v, NodeObj (node_obj (headx 0 vs) (set_prev ?a v))) # (j_sym v, StrObj (j_name v)) # cells 0 vs @ ?R) (js_heap s2)"
      by (rule set_prevp_value [OF hw])
    have l2: "load_node (j_addr v) s1 = Ret (node_obj (headx 0 vs) (set_prev ?a v))" "j_addr v \<noteq> 0"
      using load_node_cell [OF s1(2), of "j_addr v" "node_obj (headx 0 vs) (set_prev ?a v)"] holds_get(2) [OF hv, of "j_addr v" "NodeObj (node_obj (headx 0 vs) v)"] by simp_all
    have "rechain_node ?a s = Ret s2" using l m n Cons s1(1) l2 s2(1) by (auto simp: rechain_node_def split: if_splits)
    moreover have "holds F (cells 0 (rc_node n (j_val n) ns) @ C) (js_heap s2)"
      using s2(2) n t Cons by (subst holds_perm) (auto simp: rc_node_def rc_stmt_def node_obj_def ac_simps)
    ultimately show thesis by (rule that)
  qed
qed

lemma rechain_node_law:
  assumes "holds F (cells 0 (n # ns) @ C) (js_heap s)"
  obtains s' where "rechain_node (j_addr n) s = Ret s'" "holds F (cells 0 (rc_node n (j_val n) ns) @ C) (js_heap s')"
proof (cases "j_type n = BLOCK \<or> j_type n = SET \<or> j_type n = STMT")
  case True
  then show thesis using rechain_node_multiple [OF assms] rechain_node_stmt [OF assms] that by blast
next
  case False
  have "load_node (j_addr n) s = Ret (node_obj (headx 0 ns) n)" using load_node_cell [OF assms, of "j_addr n"] by simp
  then have "rechain_node (j_addr n) s = Ret s" using False by (simp add: rechain_node_def multiple_node_def)
  moreover have "rc_node n (j_val n) ns = n # ns" using False by (cases n) (simp add: rc_node_def)
  ultimately show thesis using assms that by simp
qed

lemma rc_node_set_val [simp]: "rc_node (set_val ws n) vs ns = rc_node n vs ns"
  by (cases n) (simp add: rc_node_def rc_bros_def)

lemma rechain_rec_law:
  "holds F (cells 0 ns @ C) (js_heap s)
     \<Longrightarrow> \<exists>s'. rechain_rec (headx 0 ns) s = Some (Ret s') \<and> holds F (cells 0 (rc ns) @ C) (js_heap s')"
proof (induction ns arbitrary: C s rule: rc.induct)
  case 1
  then show ?case by (auto simp: rechain_rec.simps [of 0])
next
  case (2 n ns)
  let ?a = "j_addr n" and ?y = "(j_sym n, StrObj (j_name n))"
  have l: "load_node ?a s = Ret (node_obj (headx 0 ns) n)" "?a \<noteq> 0"
    using load_node_cell [OF "2.prems", of ?a] headx_not_0 [OF "2.prems"] by simp_all
  have "holds F (cells 0 ns @ (?a, NodeObj (node_obj (headx 0 ns) n)) # ?y # cells 0 (j_val n) @ C) (js_heap s)"
    using "2.prems" by (subst holds_perm) (auto simp: ac_simps)
  from "2.IH"(2) [OF this] obtain s1 where s1: "rechain_rec (headx 0 ns) s = Some (Ret s1)"
    "holds F (cells 0 (rc ns) @ (?a, NodeObj (node_obj (headx 0 ns) n)) # ?y # cells 0 (j_val n) @ C) (js_heap s1)" by blast
  have l1: "load_node ?a s1 = Ret (node_obj (headx 0 ns) n)" using load_node_cell [OF s1(2), of ?a] by simp
  have "holds F (cells 0 (j_val n) @ (?a, NodeObj (node_obj (headx 0 ns) n)) # ?y # cells 0 (rc ns) @ C) (js_heap s1)"
    using s1(2) by (subst holds_perm) (auto simp: ac_simps)
  from "2.IH"(1) [OF this] obtain s2 where s2: "rechain_rec (headx 0 (j_val n)) s1 = Some (Ret s2)"
    "holds F (cells 0 (rc (j_val n)) @ (?a, NodeObj (node_obj (headx 0 ns) n)) # ?y # cells 0 (rc ns) @ C) (js_heap s2)" by blast
  have "holds F (cells 0 (set_val (rc (j_val n)) n # rc ns) @ C) (js_heap s2)"
    using s2(2) by (subst holds_perm) (auto simp: node_obj_def ac_simps)
  then obtain s3 where s3: "rechain_node ?a s2 = Ret s3" "holds F (cells 0 (rc (n # ns)) @ C) (js_heap s3)"
    by (rule rechain_node_law) simp
  then show ?case using l l1 s1(1) s2(1) by (simp add: rechain_rec.simps [of ?a])
qed

lemma sjson_backward_rechain_law:
  assumes "holds F (cells 0 ns @ C) (js_heap s)"
  obtains s' where "sjson_backward_rechain (headx 0 ns) s = Ret s'" "holds F (cells 0 (rc ns) @ C) (js_heap s')"
  using rechain_rec_law [OF assms] that by (auto simp: sjson_backward_rechain_def)

section \<open>Copies of documents\<close>

text \<open>
  A copy has no back pointers. The walk restores them, except that it skips the inner node of an array
  that has a sibling: so arrays have to be the last elements of the arrays around them.
\<close>

fun arrays_last :: "json \<Rightarrow> bool" and parrays_last :: "(string \<times> json) list \<Rightarrow> bool" and earrays_last :: "json list \<Rightarrow> bool" where
  "arrays_last (Tok w) \<longleftrightarrow> True"
| "arrays_last (Obj ps) \<longleftrightarrow> parrays_last ps"
| "arrays_last (Arr vs) \<longleftrightarrow> earrays_last vs"
| "parrays_last [] \<longleftrightarrow> True"
| "parrays_last ((k, v) # ps) \<longleftrightarrow> arrays_last v \<and> parrays_last ps"
| "earrays_last [] \<longleftrightarrow> True"
| "earrays_last (v # vs) \<longleftrightarrow> arrays_last v \<and> earrays_last vs \<and> (case v of Arr us \<Rightarrow> vs = [] | _ \<Rightarrow> True)"

lemma map_set_prev_rc:
  "map (set_prev a) (rc (m # ms)) = set_prev a (hd (rc (m # ms))) # map (set_prev a) (rc ms)"
  by (simp add: rc_node_def rc_bros_def o_def)

lemma rc_single: "rc [m] = [hd (rc [m])]"
  by (simp add: rc_node_def rc_bros_def)

lemma rc_tokens: "j_type m = TOKEN \<Longrightarrow> rc (m # ms) = set_val (rc (j_val m)) m # rc ms"
  by (simp add: rc_node_def node_types)

lemma rc_stmts: "j_type m = STMT \<Longrightarrow> rc (m # ms) = set_val (rc_stmt (j_addr m) (rc (j_val m))) m # rc ms"
  by (simp add: rc_node_def node_types)

lemma set_val_same [simp]: "set_val (j_val n) n = n"
  by (cases n) simp

text \<open>The inner node of a bracket and its chain.\<close>

lemma rc_inner:
  assumes "j_val b = []" "j_type b = BLOCK \<or> j_type b = SET"
  shows "rc (b # ms) = b # rc_bros b (rc ms)"
  using assms by (cases b) (auto simp: rc_node_def head_prev_def)

lemma hd_rc_bracket:
  assumes "j_type m = BLOCK \<or> j_type m = SET" "ns = [] \<or> j_type m \<noteq> SET" "j_val m = b # bs" "j_val b = []" "j_type b = j_type m"
  shows "hd (rc (m # ns)) = set_val (set_prev (j_addr m) b # rc_bros b (rc bs)) m"
  using assms rc_inner [of b bs] by (auto simp: rc_node_def head_prev_def)

lemma copy_of_ConsE:
  assumes "copy_of (n # ns) ms"
  obtains m ms' where "ms = m # ms'" "copy_of [n] [m]" "copy_of ns ms'"
  using assms by (cases ms) auto

lemma copy_of_val: "copy_of [n] [m] \<Longrightarrow> copy_of (j_val n) (j_val m)"
  by simp

lemma val_ok_type: "val_ok l f v n \<Longrightarrow> j_type n = (case v of Tok w \<Rightarrow> TOKEN | Obj ps \<Rightarrow> BLOCK | Arr vs \<Rightarrow> SET)"
  by (cases v) simp_all

lemma rc_restores:
  "val_ok l f v n \<Longrightarrow> copy_of [n] [m] \<Longrightarrow> arrays_last v \<Longrightarrow> ns = [] \<or> j_type m \<noteq> SET \<Longrightarrow> val_ok l f v (hd (rc (m # ns)))"
  "pairs_ok l pv ps ns' \<Longrightarrow> copy_of ns' ms \<Longrightarrow> parrays_last ps \<Longrightarrow> pairs_ok l pv' ps (relink pv' (rc ms))"
  "elems_ok l st vs ns' \<Longrightarrow> copy_of ns' ms \<Longrightarrow> earrays_last vs \<Longrightarrow> elems_ok l st' vs (map (set_prev st') (rc ms))"
proof (induction v and ps and vs arbitrary: l f n m ns and l pv pv' ns' ms and l st st' ns' ms rule: depth_pdepth_edepth.induct)
  case (1 w)
  then show ?case by (cases m) (auto simp: rc_node_def node_types)
next
  case (2 ps)
  obtain b bs where b: "j_val n = b # bs" "inner_ok b BLOCK (l + 1) f" "pairs_ok (l + 1) (j_addr b) ps bs"
    using "2.prems"(1) by (auto split: list.splits)
  obtain c cs where c: "j_val m = c # cs" "copy_of [b] [c]" "copy_of bs cs"
    by (rule copy_of_ConsE [OF copy_of_val [OF "2.prems"(2), unfolded b(1)]])
  have i: "j_val c = []" "j_type c = BLOCK" "j_type m = BLOCK" using b(2) c(2) "2.prems"(1,2) by (auto simp: inner_ok_def)
  have "hd (rc (m # ns)) = set_val (set_prev (j_addr m) c # rc_bros c (rc cs)) m"
    by (rule hd_rc_bracket) (use i c(1) "2.prems"(4) in auto)
  moreover have "pairs_ok (l + 1) (j_addr c) ps (relink (j_addr c) (rc cs))"
    using "2.IH" [OF b(3) c(3)] "2.prems"(3) by simp
  ultimately show ?case using i b(2) c(2) "2.prems"(1,2) by (simp add: rc_bros_def inner_ok_def node_types)
next
  case (3 vs)
  obtain b bs where b: "j_val n = b # bs" "inner_ok b SET (l + 1) f" "elems_ok (l + 1) (j_addr b) vs bs"
    using "3.prems"(1) by (auto split: list.splits)
  obtain c cs where c: "j_val m = c # cs" "copy_of [b] [c]" "copy_of bs cs"
    by (rule copy_of_ConsE [OF copy_of_val [OF "3.prems"(2), unfolded b(1)]])
  have i: "j_val c = []" "j_type c = SET" "j_type m = SET" using b(2) c(2) "3.prems"(1,2) by (auto simp: inner_ok_def)
  have "hd (rc (m # ns)) = set_val (set_prev (j_addr m) c # rc_bros c (rc cs)) m"
    by (rule hd_rc_bracket) (use i c(1) "3.prems"(4) in auto)
  moreover have "elems_ok (l + 1) (j_addr c) vs (map (set_prev (j_addr c)) (rc cs))"
    using "3.IH" [OF b(3) c(3)] "3.prems"(3) by simp
  ultimately show ?case using i b(2) c(2) "3.prems"(1,2) by (simp add: rc_bros_def inner_ok_def)
next
  case 4
  then show ?case by simp
next
  case (5 k v ps)
  obtain n ns t x where n: "ns' = n # ns" "j_type n = STMT" "j_lvl n = l" "j_flag n = 0" "j_val n = [t]" "j_type t = TOKEN" "j_name t = k"
    "j_lvl t = l" "j_flag t = 0" "j_val t = [x]" "val_ok l (if ps = [] then 0 else F_COMMA) v x" "pairs_ok l (j_addr n) ps ns"
    using "5.prems"(1) by (auto split: list.splits)
  obtain m ms' where m: "ms = m # ms'" "copy_of [n] [m]" "copy_of ns ms'" by (rule copy_of_ConsE [OF "5.prems"(2) [unfolded n(1)]])
  obtain u where u: "j_val m = [u]" "copy_of [t] [u]" by (rule copy_of_ConsE [OF copy_of_val [OF m(2), unfolded n(5)]]) simp
  obtain y where y: "j_val u = [y]" "copy_of [x] [y]" by (rule copy_of_ConsE [OF copy_of_val [OF u(2), unfolded n(10)]]) simp
  have T: "j_type m = STMT" "j_type u = TOKEN" using m(2) u(2) n by simp_all
  obtain z where z: "rc [y] = [z]" using rc_single by blast
  have "val_ok l (if ps = [] then 0 else F_COMMA) v z" using "5.IH"(1) [OF n(11) y(2), of "[]"] "5.prems"(3) z by simp
  moreover have "pairs_ok l (j_addr m) ps (relink (j_addr m) (rc ms'))" using "5.IH"(2) [OF n(12) m(3)] "5.prems"(3) by simp
  moreover have "rc ms = set_val (rc_stmt (j_addr m) [set_val [z] u]) m # rc ms'"
    using T u(1) y(1) z by (simp only: m(1) rc_stmts rc_tokens rc.simps(1))
  ultimately show ?case using T m(2) u(2) n by (simp add: rc_stmt_def head_prev_def)
next
  case 6
  then show ?case by simp
next
  case (7 v vs)
  obtain n ns where n: "ns' = n # ns" "val_ok l (if vs = [] \<or> is_Tok v then 0 else F_COMMA) v n" "elems_ok l st vs ns"
    using "7.prems"(1) by (auto split: list.splits)
  obtain m ms' where m: "ms = m # ms'" "copy_of [n] [m]" "copy_of ns ms'" by (rule copy_of_ConsE [OF "7.prems"(2) [unfolded n(1)]])
  have "j_type m = j_type n" using m(2) by simp
  then have "ms' = [] \<or> j_type m \<noteq> SET"
    using val_ok_type [OF n(2)] n(3) m(3) "7.prems"(3) by (auto simp: node_types split: json.splits)
  then have "val_ok l (if vs = [] \<or> is_Tok v then 0 else F_COMMA) v (hd (rc ms))"
    using "7.IH"(1) [OF n(2) m(2)] "7.prems"(3) by (simp add: m(1))
  moreover have "elems_ok l st' vs (map (set_prev st') (rc ms'))" using "7.IH"(2) [OF n(3) m(3)] "7.prems"(3) by simp
  ultimately show ?case by (simp only: m(1) map_set_prev_rc elems_ok.simps list.case set_prev_simps val_ok_set_prev simp_thms)
qed

lemma rc_restores_document:
  assumes "doc_tree v ns" "copy_of ns ms" "arrays_last v"
  shows "doc_tree v (rc ms)"
proof -
  obtain b bs where b: "ns = b # bs" using assms(1) by (cases ns) (auto simp: doc_tree_def split: json.splits)
  obtain c cs where c: "ms = c # cs" "copy_of [b] [c]" "copy_of bs cs" by (rule copy_of_ConsE [OF assms(2) [unfolded b]])
  have i: "j_val c = []" "j_type c = BLOCK \<or> j_type c = SET" using assms(1) c(2) by (auto simp: b doc_tree_def inner_ok_def split: json.splits)
  show ?thesis
    using assms(1,3) c(2) rc_restores(2) [OF _ c(3), of 0 "j_addr b" _ "j_addr c"] rc_restores(3) [OF _ c(3), of 0 "j_addr b" _ "j_addr c"]
    unfolding b c(1) rc_inner [OF i] by (auto simp: doc_tree_def inner_ok_def rc_bros_def node_types split: json.splits)
qed

end
