(* ===== verification/Json_Delete.thy ===== *)
theory Json_Delete
  imports Json_Rechain
begin

text \<open>
  Removal of a member of an object: the effect of \<open>__sjson_delete_json_subtree_internal\<close> on the chain of an
  object that has at least one more member.
\<close>

section \<open>The note of the comma\<close>

fun set_flag :: "u32 \<Rightarrow> jnode \<Rightarrow> jnode" where
  "set_flag f (JNode a y ty nm l _ pv vs) = JNode a y ty nm l f pv vs"

lemma set_flag_simps [simp]:
  "j_addr (set_flag f n) = j_addr n" "j_sym (set_flag f n) = j_sym n" "j_type (set_flag f n) = j_type n"
  "j_name (set_flag f n) = j_name n" "j_lvl (set_flag f n) = j_lvl n" "j_flag (set_flag f n) = f"
  "j_prev (set_flag f n) = j_prev n" "j_val (set_flag f n) = j_val n"
  "(node_obj b n)\<lparr>sn_flag := f\<rparr> = node_obj b (set_flag f n)"
  by (cases n, simp add: node_obj_def)+

definition clr :: "jnode \<Rightarrow> jnode" where
  "clr x = (case j_val x of [] \<Rightarrow> set_flag 0 x | b # bs \<Rightarrow> set_val (set_flag 0 b # bs) x)"

definition unnoted :: "jnode \<Rightarrow> jnode" where
  "unnoted n = (case j_val n of t # ts \<Rightarrow> (case j_val t of x # xs \<Rightarrow> set_val (set_val (clr x # xs) t # ts) n | [] \<Rightarrow> n) | [] \<Rightarrow> n)"

lemma clr_simps [simp]: "j_addr (clr x) = j_addr x" "j_prev (clr x) = j_prev x"
  by (simp_all add: clr_def split: list.splits)

lemma unnoted_addr [simp]: "j_addr (unnoted n) = j_addr n"
  by (simp add: unnoted_def split: list.splits)

lemma val_ok_clr: "val_ok l f v x \<Longrightarrow> val_ok l 0 v (clr x)"
  by (cases v) (auto simp: clr_def inner_ok_def split: list.splits)

lemma pair_ok_unnoted: "pair_ok l f pv k v n \<Longrightarrow> pair_ok l 0 pv k v (unnoted n)"
  by (auto simp: pair_ok_def unnoted_def val_ok_clr)

lemma pair_okE:
  assumes "pair_ok l f pv k v n"
  obtains t x where "j_type n = STMT" "j_prev n = pv" "j_val n = [t]" "j_type t = TOKEN" "j_prev t = j_addr n" "j_val t = [x]"
    "j_prev x = j_addr n" "val_ok l f v x"
  using assms by (auto simp: pair_ok_def)

lemma upd_flag_law:
  assumes "holds F (cells e (n # ns) @ C) (js_heap s)"
  obtains s' where "upd_flag (j_addr n) g s = Ret s'" "holds F (cells e (set_flag (g (j_flag n)) n # ns) @ C) (js_heap s')"
proof -
  have "mset (cells e (n # ns) @ C) = mset ((j_addr n, NodeObj (node_obj (headx e ns) n)) # (j_sym n, StrObj (j_name n)) # cells 0 (j_val n) @ cells e ns @ C)"
    by simp
  from upd_node_perm [OF assms this, of "\<lambda>x. x\<lparr>sn_flag := g (sn_flag x)\<rparr>"] show thesis
    by (intro that [of "jput (j_addr n) (NodeObj (node_obj (headx e ns) (set_flag (g (j_flag n)) n))) s"]) (simp_all add: upd_flag_def)
qed

lemma upd_flag_head:
  assumes "holds F (cells e (n # ns) @ C) (js_heap s)" "j_flag n AND NOT F_COMMA = f"
  obtains s' where "upd_flag (j_addr n) (\<lambda>f. f AND NOT F_COMMA) s = Ret s'" "holds F (cells e (set_flag f n # ns) @ C) (js_heap s')"
  by (rule upd_flag_law [OF assms(1), of "\<lambda>f. f AND NOT F_COMMA"]) (simp add: assms(2))

lemma F_COMMA_bits [simp]: "F_COMMA AND NOT F_COMMA = 0" "F_COMMA AND F_COMMA \<noteq> 0"
  by (simp_all add: F_COMMA_def)

lemma clear_comma_word:
  assumes h: "holds F (cells 0 [n] @ C) (js_heap s)" and n: "j_val n = [t]" "j_prev t = j_addr n" "j_val t = [x]"
    and x: "j_type x = TOKEN" "j_val x = []" "f = 0 \<or> f = F_COMMA" "j_flag x = f"
  obtains s' where "sjson_clear_comma (j_addr t) s = Ret s'" "holds F (cells 0 [unnoted n] @ C) (js_heap s')"
proof -
  let ?R = "[(j_addr n, NodeObj (node_obj 0 n)), (j_sym n, StrObj (j_name n)), (j_addr t, NodeObj (node_obj 0 t)), (j_sym t, StrObj (j_name t))] @ C"
  have hx: "holds F (cells 0 [x] @ ?R) (js_heap s)" using h n by (subst holds_perm) (auto simp: ac_simps)
  have f0: "j_flag x AND NOT F_COMMA = 0" using x(3,4) by auto
  obtain s' where s': "upd_flag (j_addr x) (\<lambda>f. f AND NOT F_COMMA) s = Ret s'" "holds F (cells 0 [set_flag 0 x] @ ?R) (js_heap s')"
    by (rule upd_flag_head [OF hx f0])
  have l: "load_node (j_addr n) s = Ret (node_obj 0 n)" "load_node (j_addr t) s = Ret (node_obj 0 t)" "load_node (j_addr x) s = Ret (node_obj 0 x)"
    by (rule load_node_cell [OF hx]; simp)+
  have z: "j_addr n \<noteq> 0" "j_addr t \<noteq> 0" "j_addr x \<noteq> 0"
    using holds_get(2) [OF hx, of "j_addr n" "NodeObj (node_obj 0 n)"] holds_get(2) [OF hx, of "j_addr t" "NodeObj (node_obj 0 t)"]
      holds_get(2) [OF hx, of "j_addr x" "NodeObj (node_obj 0 x)"] by simp_all
  have "sjson_clear_comma (j_addr t) s = Ret s'"
    using l z n x(1) s'(1) by (simp add: sjson_clear_comma_def while_o_step multiple_node_def node_types)
  moreover have "holds F (cells 0 [unnoted n] @ C) (js_heap s')"
    using s'(2) n x(2) by (subst holds_perm) (auto simp: unnoted_def clr_def node_obj_def ac_simps)
  ultimately show thesis by (rule that)
qed

lemma clear_comma_bracket:
  assumes h: "holds F (cells 0 [n] @ C) (js_heap s)" and n: "j_val n = [t]" "j_prev t = j_addr n" "j_val t = [x]"
    and x: "j_type x = BLOCK \<or> j_type x = SET" "j_flag x = 0" "j_val x = b # bs"
    and b: "j_type b = j_type x" "j_val b = []" "f = 0 \<or> f = F_COMMA" "j_flag b = f"
  obtains s' where "sjson_clear_comma (j_addr t) s = Ret s'" "holds F (cells 0 [unnoted n] @ C) (js_heap s')"
proof -
  let ?R = "[(j_addr n, NodeObj (node_obj 0 n)), (j_sym n, StrObj (j_name n)), (j_addr t, NodeObj (node_obj 0 t)), (j_sym t, StrObj (j_name t)),
      (j_addr x, NodeObj (node_obj 0 x)), (j_sym x, StrObj (j_name x))] @ C"
  have hb: "holds F (cells 0 (b # bs) @ ?R) (js_heap s)" using h n x(3) by (subst holds_perm) (auto simp: ac_simps)
  have f0: "j_flag b AND NOT F_COMMA = 0" using b(3,4) by auto
  obtain s1 where s1: "upd_flag (j_addr b) (\<lambda>f. f AND NOT F_COMMA) s = Ret s1" "holds F (cells 0 (set_flag 0 b # bs) @ ?R) (js_heap s1)"
    by (rule upd_flag_head [OF hb f0])
  have l: "load_node (j_addr t) s = Ret (node_obj 0 t)" "load_node (j_addr x) s = Ret (node_obj 0 x)" "load_node (j_addr b) s = Ret (node_obj (headx 0 bs) b)"
    by (rule load_node_cell [OF hb]; simp)+
  have z: "j_addr t \<noteq> 0" "j_addr x \<noteq> 0" "j_addr b \<noteq> 0"
    using holds_get(2) [OF hb, of "j_addr x" "NodeObj (node_obj 0 x)"] holds_get(2) [OF hb, of "j_addr t" "NodeObj (node_obj 0 t)"]
      headx_not_0 [OF hb] by simp_all
  have c: "sjson_clear_comma (j_addr t) s = (if f = 0 then Ret s else Ret s1)"
    using l z n x b s1(1) by (auto simp: sjson_clear_comma_def while_o_step multiple_node_def node_types)
  have u: "holds F (cells 0 [unnoted n] @ C) (js_heap s')" if "holds F (cells 0 (set_flag 0 b # bs) @ ?R) (js_heap s')" for s'
    using that n x(3) by (subst holds_perm) (auto simp: unnoted_def clr_def node_obj_def ac_simps)
  have "set_flag 0 b = b" if "f = 0" using that b(4) by (cases b) simp
  then have "holds F (cells 0 [unnoted n] @ C) (js_heap (if f = 0 then s else s1))" using u [OF s1(2)] u [of s] hb by auto
  then show thesis using c that [of "if f = 0 then s else s1"] by simp
qed

lemma clear_comma_law:
  assumes h: "holds F (cells 0 [n] @ C) (js_heap s)" and n: "pair_ok l f pv k v n" "f = 0 \<or> f = F_COMMA" "j_val n = [t]"
  obtains s' where "sjson_clear_comma (j_addr t) s = Ret s'" "holds F (cells 0 [unnoted n] @ C) (js_heap s')"
proof -
  obtain x where x: "j_prev t = j_addr n" "j_val t = [x]" "val_ok l f v x" by (rule pair_okE [OF n(1)]) (simp add: n(3))
  show thesis
  proof (cases v)
    case (Tok w)
    then have "j_type x = TOKEN" "j_val x = []" "j_flag x = f" using x(3) by simp_all
    then show thesis using clear_comma_word [OF h n(3) x(1,2) _ _ n(2)] that by metis
  next
    case (Obj ps)
    then obtain b bs where "j_type x = BLOCK" "j_flag x = 0" "j_val x = b # bs" "j_type b = BLOCK" "j_val b = []" "j_flag b = f"
      using x(3) by (auto simp: inner_ok_def split: list.splits)
    then show thesis using clear_comma_bracket [OF h n(3) x(1,2) _ _ _ _ _ n(2)] that by metis
  next
    case (Arr vs)
    then obtain b bs where "j_type x = SET" "j_flag x = 0" "j_val x = b # bs" "j_type b = SET" "j_val b = []" "j_flag b = f"
      using x(3) by (auto simp: inner_ok_def split: list.splits)
    then show thesis using clear_comma_bracket [OF h n(3) x(1,2) _ _ _ _ _ n(2)] that by metis
  qed
qed

section \<open>Unlinking a statement\<close>

lemma set_bros_head:
  assumes "holds F (cells e [n] @ C) (js_heap s)"
  obtains s' where "set_bros (j_addr n) b s = Ret s'" "holds F (cells b [n] @ C) (js_heap s')"
proof -
  have "mset (cells e [n] @ C) = mset ((j_addr n, NodeObj (node_obj e n)) # (j_sym n, StrObj (j_name n)) # cells 0 (j_val n) @ C)"
    by simp
  from upd_node_perm [OF assms this, of "\<lambda>x. x\<lparr>sn_bros := b\<rparr>"] show thesis
    by (intro that [of "jput (j_addr n) (NodeObj (node_obj b n)) s"]) (simp_all add: set_bros_def)
qed

lemma unlink_law:
  assumes h: "holds F (cells 0 (p # n # rs) @ C) (js_heap s)"
  obtains s1 s2 s3 where "set_bros (j_addr p) (headx 0 rs) s = Ret s1"
    "(if headx 0 rs \<noteq> 0 then set_prevp (headx 0 rs) (j_addr p) s1 else Ret s1) = Ret s2"
    "load_node (j_addr p) s2 = Ret (node_obj (headx 0 rs) p)" "set_bros (j_addr n) 0 s2 = Ret s3"
    "holds F (cells 0 (p # head_prev (j_addr p) rs) @ cells 0 [n] @ C) (js_heap s3)"
proof -
  let ?r = "headx 0 rs"
  have "holds F (cells (j_addr n) [p] @ cells ?r [n] @ cells 0 rs @ C) (js_heap s)" using h by (subst holds_perm) (auto simp: ac_simps)
  then obtain s1 where s1: "set_bros (j_addr p) ?r s = Ret s1" "holds F (cells ?r [p] @ cells ?r [n] @ cells 0 rs @ C) (js_heap s1)"
    by (rule set_bros_head)
  have "holds F (cells 0 rs @ cells ?r [p] @ cells ?r [n] @ C) (js_heap s1)" using s1(2) by (subst holds_perm) (auto simp: ac_simps)
  then obtain s2 where s2: "(if ?r \<noteq> 0 then set_prevp ?r (j_addr p) s1 else Ret s1) = Ret s2"
    "holds F (cells 0 (head_prev (j_addr p) rs) @ cells ?r [p] @ cells ?r [n] @ C) (js_heap s2)" by (rule set_prevp_value)
  have "holds F (cells ?r [n] @ cells 0 (head_prev (j_addr p) rs) @ cells ?r [p] @ C) (js_heap s2)" using s2(2) by (subst holds_perm) (auto simp: ac_simps)
  then obtain s3 where s3: "set_bros (j_addr n) 0 s2 = Ret s3" "holds F (cells 0 [n] @ cells 0 (head_prev (j_addr p) rs) @ cells ?r [p] @ C) (js_heap s3)"
    by (rule set_bros_head)
  have "load_node (j_addr p) s2 = Ret (node_obj ?r p)" by (rule load_node_cell [OF s2(2)]) simp
  moreover have "holds F (cells 0 (p # head_prev (j_addr p) rs) @ cells 0 [n] @ C) (js_heap s3)"
    using s3(2) by (subst holds_perm) (auto simp: ac_simps)
  ultimately show thesis using that s1(1) s2(1) s3(1) by blast
qed

lemma delete_first_law:
  assumes h: "holds F (cells 0 (b # n # rs) @ C) (js_heap s)" and b: "j_val b = []" and rs: "rs \<noteq> []"
  obtains s' where "delete_first_stmt (j_addr b) (j_addr n) s = Ret (0, s')" "holds F (cells 0 (b # head_prev (j_addr b) rs) @ C) (js_heap s')"
proof -
  obtain s1 s2 s3 where s: "set_bros (j_addr b) (headx 0 rs) s = Ret s1"
    "(if headx 0 rs \<noteq> 0 then set_prevp (headx 0 rs) (j_addr b) s1 else Ret s1) = Ret s2"
    "load_node (j_addr b) s2 = Ret (node_obj (headx 0 rs) b)" "set_bros (j_addr n) 0 s2 = Ret s3"
    "holds F (cells 0 (b # head_prev (j_addr b) rs) @ cells 0 [n] @ C) (js_heap s3)" by (rule unlink_law [OF h])
  have "holds F (cells 0 [n] @ cells 0 (b # head_prev (j_addr b) rs) @ C) (js_heap s3)" using s(5) by (subst holds_perm) (auto simp: ac_simps)
  then obtain s4 where s4: "sjson_free_i (j_addr n) s3 = Ret s4" "holds F (cells 0 (b # head_prev (j_addr b) rs) @ C) (js_heap s4)"
    by (rule sjson_free_i_law) simp
  have l: "load_node (j_addr n) s = Ret (node_obj (headx 0 rs) n)" by (rule load_node_cell [OF h]) simp
  have l4: "load_node (j_addr b) s4 = Ret (node_obj (headx 0 rs) b)" by (rule load_node_cell [OF s4(2)]) simp
  have "holds F (cells 0 rs @ cells (headx 0 rs) [b, n] @ C) (js_heap s)" using h by (subst holds_perm) (auto simp: ac_simps)
  then have r: "headx 0 rs \<noteq> 0" using rs by (rule headx_not_0)
  have "sjson_clear_comma (j_addr b) s4 = Ret s4" using l4 b by (simp add: sjson_clear_comma_def)
  then have "delete_first_stmt (j_addr b) (j_addr n) s = Ret (0, s4)"
    using l l4 s s4 r by (simp add: delete_first_stmt_def empty_node_def)
  then show thesis using s4(2) that by blast
qed

lemma delete_next_law:
  assumes h: "holds F (cells 0 (p # n # rs) @ C) (js_heap s)" and p: "pair_ok l f pv k v p" "f = 0 \<or> f = F_COMMA"
  obtains s' where "delete_next_stmt (j_addr p) (j_addr n) s = Ret (0, s')"
    "holds F (cells 0 ((if rs = [] then unnoted p else p) # head_prev (j_addr p) rs) @ C) (js_heap s')"
proof -
  obtain t x where t: "j_val p = [t]" "j_prev t = j_addr p" by (rule pair_okE [OF p(1)])
  obtain s1 s2 s3 where s: "set_bros (j_addr p) (headx 0 rs) s = Ret s1"
    "(if headx 0 rs \<noteq> 0 then set_prevp (headx 0 rs) (j_addr p) s1 else Ret s1) = Ret s2"
    "load_node (j_addr p) s2 = Ret (node_obj (headx 0 rs) p)" "set_bros (j_addr n) 0 s2 = Ret s3"
    "holds F (cells 0 (p # head_prev (j_addr p) rs) @ cells 0 [n] @ C) (js_heap s3)" by (rule unlink_law [OF h])
  let ?p = "if rs = [] then unnoted p else p"
  have l: "load_node (j_addr n) s = Ret (node_obj (headx 0 rs) n)" by (rule load_node_cell [OF h]) simp
  have l3: "load_node (j_addr t) s3 = Ret (node_obj 0 t)" "load_node (j_addr p) s3 = Ret (node_obj (headx 0 rs) p)"
    by (rule load_node_cell [OF s(5)]; simp add: t)+
  have z: "j_addr p \<noteq> 0" using headx_not_0 [OF s(5)] by simp
  have "holds F (cells 0 rs @ cells (headx 0 rs) [p, n] @ C) (js_heap s)" using h by (subst holds_perm) (auto simp: ac_simps)
  then have r: "headx 0 rs = 0 \<longleftrightarrow> rs = []" using headx_not_0 [of F 0 rs] by fastforce
  obtain s4 where s4: "(if headx 0 rs = 0 then sjson_clear_comma (j_addr t) s3 else Ret s3) = Ret s4"
    "holds F (cells 0 (?p # head_prev (j_addr p) rs) @ cells 0 [n] @ C) (js_heap s4)"
  proof (cases "rs = []")
    case True
    have "holds F (cells 0 [p] @ cells 0 [n] @ C) (js_heap s3)" using s(5) by (simp add: True head_prev_def)
    then obtain s4 where "sjson_clear_comma (j_addr t) s3 = Ret s4" "holds F (cells 0 [unnoted p] @ cells 0 [n] @ C) (js_heap s4)"
      by (rule clear_comma_law [OF _ p t(1)])
    then show thesis using that [of s4] by (simp add: True head_prev_def)
  next
    case False
    then show thesis using that [of s3] s(5) r by simp
  qed
  have "holds F (cells 0 [n] @ cells 0 (?p # head_prev (j_addr p) rs) @ C) (js_heap s4)" using s4(2) by (subst holds_perm) (auto simp: ac_simps)
  then obtain s5 where s5: "sjson_free_i (j_addr n) s4 = Ret s5" "holds F (cells 0 (?p # head_prev (j_addr p) rs) @ C) (js_heap s5)"
    by (rule sjson_free_i_law) simp
  have "delete_next_stmt (j_addr p) (j_addr n) s = Ret (0, s5)"
    using l l3 s(1-4) s4(1) s5(1) z t by (cases "headx 0 rs = 0") (simp_all add: delete_next_stmt_def)
  then show thesis using s5(2) that by blast
qed

section \<open>Members of an object\<close>

text \<open>The members in front of a member all have a comma.\<close>

fun front_ok :: "int \<Rightarrow> addr \<Rightarrow> (string \<times> json) list \<Rightarrow> jnode list \<Rightarrow> bool" where
  "front_ok l pv [] ns \<longleftrightarrow> ns = []"
| "front_ok l pv ((k, v) # ps) ns \<longleftrightarrow>
     (case ns of [] \<Rightarrow> False | n # ns' \<Rightarrow> pair_ok l F_COMMA pv k v n \<and> front_ok l (j_addr n) ps ns')"

fun chain_end :: "addr \<Rightarrow> jnode list \<Rightarrow> addr" where
  "chain_end pv [] = pv"
| "chain_end pv (n # ns) = chain_end (j_addr n) ns"

lemma pairs_ok_ConsE:
  assumes "pairs_ok l pv ((k, v) # ps) ms"
  obtains n ns where "ms = n # ns" "pair_ok l (if ps = [] then 0 else F_COMMA) pv k v n" "pairs_ok l (j_addr n) ps ns"
  using assms by (cases ms) (simp, metis pairs_ok_Cons)

lemma pairs_ok_append:
  "qs \<noteq> [] \<Longrightarrow> pairs_ok l pv (ps @ qs) ms \<longleftrightarrow> (\<exists>ms1 ms2. ms = ms1 @ ms2 \<and> front_ok l pv ps ms1 \<and> pairs_ok l (chain_end pv ms1) qs ms2)"
proof (induction ps arbitrary: pv ms)
  case (Cons kv ps)
  obtain k v where kv: "kv = (k, v)" by (cases kv)
  show ?case
  proof
    assume "pairs_ok l pv ((kv # ps) @ qs) ms"
    then have "pairs_ok l pv ((k, v) # ps @ qs) ms" by (simp only: kv append_Cons)
    then obtain n ns where n: "ms = n # ns" "pair_ok l F_COMMA pv k v n" "pairs_ok l (j_addr n) (ps @ qs) ns"
      by (rule pairs_ok_ConsE) (simp add: Cons.prems)
    from n(3) obtain ms1 ms2 where "ns = ms1 @ ms2" "front_ok l (j_addr n) ps ms1" "pairs_ok l (chain_end (j_addr n) ms1) qs ms2"
      using Cons.IH [OF Cons.prems] by blast
    then show "\<exists>ms1 ms2. ms = ms1 @ ms2 \<and> front_ok l pv (kv # ps) ms1 \<and> pairs_ok l (chain_end pv ms1) qs ms2"
      using n by (intro exI [of _ "n # ms1"] exI [of _ ms2]) (simp add: kv)
  next
    assume "\<exists>ms1 ms2. ms = ms1 @ ms2 \<and> front_ok l pv (kv # ps) ms1 \<and> pairs_ok l (chain_end pv ms1) qs ms2"
    then obtain ms1 ms2 where m: "ms = ms1 @ ms2" "front_ok l pv ((k, v) # ps) ms1" "pairs_ok l (chain_end pv ms1) qs ms2" by (auto simp: kv)
    then obtain n ns1 where n: "ms = n # ns1 @ ms2" "pair_ok l F_COMMA pv k v n" "front_ok l (j_addr n) ps ns1"
      "pairs_ok l (chain_end (j_addr n) ns1) qs ms2" by (cases ms1) auto
    then have "pairs_ok l (j_addr n) (ps @ qs) (ns1 @ ms2)" using Cons.IH [OF Cons.prems] by blast
    then show "pairs_ok l pv ((kv # ps) @ qs) ms" using n(2) Cons.prems by (simp only: n(1) kv append_Cons pairs_ok_Cons) simp
  qed
qed auto

lemma pair_ok_set_prev: "pair_ok l f pv k v n \<Longrightarrow> pair_ok l f pv' k v (set_prev pv' n)"
  by (auto simp: pair_ok_def)

lemma pairs_ok_head_prev: "pairs_ok l pv ps ms \<Longrightarrow> pairs_ok l pv' ps (head_prev pv' ms)"
proof (cases ps)
  case (Cons kv qs)
  obtain k v where kv: "kv = (k, v)" by (cases kv)
  assume "pairs_ok l pv ps ms"
  then obtain n ns where "ms = n # ns" "pair_ok l (if qs = [] then 0 else F_COMMA) pv k v n" "pairs_ok l (j_addr n) qs ns"
    unfolding Cons kv by (rule pairs_ok_ConsE)
  then show ?thesis using pair_ok_set_prev by (simp only: Cons kv head_prev_def list.case pairs_ok_Cons set_prev_simps simp_thms)
qed (auto simp: head_prev_def)

text \<open>The call on the key of a statement behind the node \<open>p\<close>.\<close>

lemma delete_call:
  assumes h: "holds F (cells 0 (p # n # rs) @ C) (js_heap s)" and n: "pair_ok l f (j_addr p) k v n" and p: "j_type p = BLOCK \<or> j_type p = STMT"
  shows "sjson_delete_json_subtree (j_addr (hd (j_val n))) s
    = (if j_type p = BLOCK then delete_first_stmt else delete_next_stmt) (j_addr p) (j_addr n) s"
proof -
  obtain t where t: "j_val n = [t]" "j_prev t = j_addr n" "j_prev n = j_addr p" by (rule pair_okE [OF n])
  have "load_node (j_addr t) s = Ret (node_obj 0 t)" "load_node (j_addr n) s = Ret (node_obj (headx 0 rs) n)"
    "load_node (j_addr p) s = Ret (node_obj (j_addr n) p)" by (rule load_node_cell [OF h]; simp add: t)+
  moreover have "j_addr p \<noteq> 0" "j_addr n \<noteq> 0"
    using headx_not_0 [OF h] holds_get(2) [OF h, of "j_addr n" "NodeObj (node_obj (headx 0 rs) n)"] by simp_all
  ultimately show ?thesis using t by (simp add: sjson_delete_json_subtree_def Let_def)
qed

lemma delete_first_member:
  assumes h: "holds F (cells 0 (b # ms) @ C) (js_heap s)" and b: "inner_ok b BLOCK l f" and ms: "pairs_ok l (j_addr b) ((k, v) # ps) ms" "ps \<noteq> []"
  obtains ms' s' where "sjson_delete_json_subtree (j_addr (hd (j_val (hd ms)))) s = Ret (0, s')"
    "holds F (cells 0 (b # ms') @ C) (js_heap s')" "pairs_ok l (j_addr b) ps ms'"
proof -
  obtain n ns where n: "ms = n # ns" "pair_ok l F_COMMA (j_addr b) k v n" "pairs_ok l (j_addr n) ps ns"
    by (rule pairs_ok_ConsE [OF ms(1)]) (simp add: ms(2))
  have ne: "ns \<noteq> []" using n(3) ms(2) by (cases ps) auto
  have h': "holds F (cells 0 (b # n # ns) @ C) (js_heap s)" using h by (simp add: n(1))
  have b': "j_type b = BLOCK" "j_val b = []" using b by (simp_all add: inner_ok_def)
  obtain s' where "delete_first_stmt (j_addr b) (j_addr n) s = Ret (0, s')" "holds F (cells 0 (b # head_prev (j_addr b) ns) @ C) (js_heap s')"
    by (rule delete_first_law [OF h' b'(2) ne])
  then show thesis using that [of s'] delete_call [OF h' n(2)] b' pairs_ok_head_prev [OF n(3)] by (simp add: n(1) del: cells.simps)
qed

lemma delete_later_member:
  assumes h: "holds F (cells 0 (b # ms) @ C) (js_heap s)" and ms: "pairs_ok l pv (ps1 @ (k1, v1) # (k, v) # ps2) ms"
  obtains ms' s' where "sjson_delete_json_subtree (j_addr (hd (j_val (ms ! Suc (length ps1))))) s = Ret (0, s')"
    "holds F (cells 0 (b # ms') @ C) (js_heap s')" "pairs_ok l pv (ps1 @ (k1, v1) # ps2) ms'"
proof -
  obtain ms1 ms2 where m: "ms = ms1 @ ms2" "front_ok l pv ps1 ms1" "pairs_ok l (chain_end pv ms1) ((k1, v1) # (k, v) # ps2) ms2"
    using ms by (auto simp: pairs_ok_append simp del: pairs_ok.simps)
  obtain p ns where p: "ms2 = p # ns" "pair_ok l F_COMMA (chain_end pv ms1) k1 v1 p" "pairs_ok l (j_addr p) ((k, v) # ps2) ns"
    by (rule pairs_ok_ConsE [OF m(3)]) simp
  obtain n rs where n: "ns = n # rs" "pair_ok l (if ps2 = [] then 0 else F_COMMA) (j_addr p) k v n" "pairs_ok l (j_addr n) ps2 rs"
    by (rule pairs_ok_ConsE [OF p(3)])
  have len: "length ms1 = length ps1" using m(2) by (induction l pv ps1 ms1 rule: front_ok.induct) (auto split: list.splits)
  have e: "rs = [] \<longleftrightarrow> ps2 = []" using n(3) by (cases ps2) (auto split: list.splits)
  have h': "holds F (cells 0 (p # n # rs) @ cells (j_addr p) (b # ms1) @ C) (js_heap s)"
    using h by (subst holds_perm) (auto simp: m(1) p(1) n(1) ac_simps)
  let ?p = "if rs = [] then unnoted p else p"
  obtain s' where s': "delete_next_stmt (j_addr p) (j_addr n) s = Ret (0, s')"
    "holds F (cells 0 (?p # head_prev (j_addr p) rs) @ cells (j_addr p) (b # ms1) @ C) (js_heap s')"
    by (rule delete_next_law [OF h' p(2)]) simp
  have ty: "j_type p = STMT" by (rule pair_okE [OF p(2)])
  have a: "j_addr ?p = j_addr p" by simp
  have "pairs_ok l (chain_end pv ms1) ((k1, v1) # ps2) (?p # head_prev (j_addr p) rs)"
    using p(2) pair_ok_unnoted [OF p(2)] pairs_ok_head_prev [OF n(3), of "j_addr p"] e
    by (simp only: pairs_ok_Cons a) (auto simp: head_prev_def)
  then have "pairs_ok l pv (ps1 @ (k1, v1) # ps2) (ms1 @ ?p # head_prev (j_addr p) rs)"
    using m(2) by (subst pairs_ok_append) blast+
  moreover have "holds F (cells 0 (b # ms1 @ ?p # head_prev (j_addr p) rs) @ C) (js_heap s')"
    using holds_rotate [of F "cells 0 (?p # head_prev (j_addr p) rs)" "cells (j_addr p) (b # ms1)" C] s'(2)
      cells_append [of 0 "b # ms1" "?p # head_prev (j_addr p) rs"] a by (simp del: cells.simps cells_append)
  moreover have "ms ! Suc (length ps1) = n" by (simp add: m(1) p(1) n(1) nth_append len)
  ultimately show thesis using that delete_call [OF h' n(2)] ty s'(1) by (simp add: node_types del: cells.simps pairs_ok.simps)
qed

end
