(* ===== verification/Json_Purge.thy ===== *)
theory Json_Purge
  imports Json_Delete
begin

text \<open>
  Removal of the words of an array: \<open>sjson_delete_json\<close> only marks a word, \<open>sjson_purge_json\<close> unlinks and
  releases what is marked. The numbers of members \<open>sjson_precalc_setmember\<close> notes in six bits of the flags.
\<close>

section \<open>Marked words\<close>

definition marked :: "jnode \<Rightarrow> bool" where
  "marked n \<longleftrightarrow> j_flag n AND F_DEL \<noteq> 0"

definition word_node :: "jnode \<Rightarrow> bool" where
  "word_node n \<longleftrightarrow> j_type n = TOKEN \<and> j_val n = []"

lemma purge_loop:
  "holds F (cells 0 (p # ts) @ C) (js_heap s) \<Longrightarrow> \<forall>t\<in>set ts. word_node t \<Longrightarrow> \<exists>p' s'.
     while_o (\<lambda>(t, prev, cnt, s). t \<noteq> 0)
       (\<lambda>(t, prev, cnt, s). obind (load_node t s) (\<lambda>n.
          if sn_flag n AND F_DEL \<noteq> 0
          then obind (set_bros prev (sn_bros n) s) (\<lambda>s.
               obind (load_node t s) (\<lambda>n.
               obind (sjson_free_node t s) (\<lambda>s. Ret (sn_bros n, prev, cnt + 1, s))))
          else Ret (sn_bros n, t, cnt, s))) (headx 0 ts, j_addr p, cnt, s) = Ret (0, p', cnt + int (length (filter marked ts)), s')
     \<and> holds F (cells 0 (p # filter (\<lambda>t. \<not> marked t) ts) @ C) (js_heap s')"
proof (induction ts arbitrary: p cnt C s)
  case (Cons t us)
  let ?b = "\<lambda>(t, prev, cnt, s). t \<noteq> (0 :: addr)" and ?c = "\<lambda>(t, prev, cnt, s). obind (load_node t s) (\<lambda>n.
          if sn_flag n AND F_DEL \<noteq> 0
          then obind (set_bros prev (sn_bros n) s) (\<lambda>s.
               obind (load_node t s) (\<lambda>n.
               obind (sjson_free_node t s) (\<lambda>s. Ret (sn_bros n, prev, cnt + 1, s))))
          else Ret (sn_bros n, t, cnt, s))"
  have w: "word_node t" "\<forall>u\<in>set us. word_node u" using Cons.prems(2) by simp_all
  have l: "load_node (j_addr t) s = Ret (node_obj (headx 0 us) t)" "j_addr t \<noteq> 0"
    using load_node_cell [OF Cons.prems(1), of "j_addr t"] holds_get(2) [OF Cons.prems(1), of "j_addr t" "NodeObj (node_obj (headx 0 us) t)"] by simp_all
  show ?case
  proof (cases "marked t")
    case True
    have "holds F (cells (j_addr t) [p] @ cells 0 (t # us) @ C) (js_heap s)" using Cons.prems(1) by (subst holds_perm) (auto simp: ac_simps)
    then obtain s1 where s1: "set_bros (j_addr p) (headx 0 us) s = Ret s1" "holds F (cells (headx 0 us) [p] @ cells 0 (t # us) @ C) (js_heap s1)"
      by (rule set_bros_head)
    have l1: "load_node (j_addr t) s1 = Ret (node_obj (headx 0 us) t)" by (rule load_node_cell [OF s1(2)]) simp
    have "holds F ((j_addr t, NodeObj (node_obj (headx 0 us) t)) # (sn_symbol (node_obj (headx 0 us) t), StrObj (j_name t)) # cells 0 (p # us) @ C) (js_heap s1)"
      using s1(2) w(1) by (subst holds_perm) (auto simp: word_node_def ac_simps)
    from free_node_cells [OF this] obtain s2 where s2: "sjson_free_node (j_addr t) s1 = Ret s2" "holds F (cells 0 (p # us) @ C) (js_heap s2)" by blast
    from Cons.IH [OF s2(2) w(2), of "cnt + 1"] obtain p' s' where
      IH: "while_o ?b ?c (headx 0 us, j_addr p, cnt + 1, s2) = Ret (0, p', cnt + 1 + int (length (filter marked us)), s')"
        "holds F (cells 0 (p # filter (\<lambda>t. \<not> marked t) us) @ C) (js_heap s')" by blast
    have "while_o ?b ?c (j_addr t, j_addr p, cnt, s) = while_o ?b ?c (headx 0 us, j_addr p, cnt + 1, s2)"
      using l True s1(1) l1 s2(1) by (simp add: while_o_step marked_def)
    moreover have "cnt + 1 + int (length (filter marked us)) = cnt + int (length (filter marked (t # us)))" using True by simp
    ultimately have "while_o ?b ?c (headx 0 (t # us), j_addr p, cnt, s) = Ret (0, p', cnt + int (length (filter marked (t # us))), s')"
      using IH(1) by (simp only: headx.simps)
    moreover have "holds F (cells 0 (p # filter (\<lambda>t. \<not> marked t) (t # us)) @ C) (js_heap s')" using IH(2) True by simp
    ultimately show ?thesis by blast
  next
    case False
    have "holds F (cells 0 (t # us) @ cells (j_addr t) [p] @ C) (js_heap s)" using Cons.prems(1) by (subst holds_perm) (auto simp: ac_simps)
    from Cons.IH [OF this w(2), of cnt] obtain p' s' where
      IH: "while_o ?b ?c (headx 0 us, j_addr t, cnt, s) = Ret (0, p', cnt + int (length (filter marked us)), s')"
        "holds F (cells 0 (t # filter (\<lambda>t. \<not> marked t) us) @ cells (j_addr t) [p] @ C) (js_heap s')" by blast
    have "while_o ?b ?c (j_addr t, j_addr p, cnt, s) = while_o ?b ?c (headx 0 us, j_addr t, cnt, s)"
      using l False by (simp add: while_o_step marked_def)
    moreover have "int (length (filter marked us)) = int (length (filter marked (t # us)))" using False by simp
    ultimately have "while_o ?b ?c (headx 0 (t # us), j_addr p, cnt, s) = Ret (0, p', cnt + int (length (filter marked (t # us))), s')"
      using IH(1) by (simp only: headx.simps)
    moreover have "holds F (cells 0 (p # filter (\<lambda>t. \<not> marked t) (t # us)) @ C) (js_heap s')"
      using IH(2) False by (subst holds_perm) (auto simp: ac_simps)
    ultimately show ?thesis by blast
  qed
qed auto

lemma purge_set_law:
  assumes h: "holds F (cells 0 (b # ts) @ C) (js_heap s)" and b: "\<not> marked b" and ts: "\<forall>t\<in>set ts. word_node t"
  obtains s' where "purge_set (j_addr b) s = Ret (int (length (filter marked ts)), s')" "holds F (cells 0 (b # filter (\<lambda>t. \<not> marked t) ts) @ C) (js_heap s')"
proof -
  have "load_node (j_addr b) s = Ret (node_obj (headx 0 ts) b)" "j_addr b \<noteq> 0"
    using load_node_cell [OF h, of "j_addr b"] headx_not_0 [OF h] by simp_all
  with purge_loop [OF h ts, of 0] b that show thesis by (auto simp: purge_set_def while_o_step marked_def)
qed

section \<open>What stays is not touched\<close>

lemma visible_words:
  assumes "holds F cs (js_heap s)"
  shows "set (cells 0 ts) \<subseteq> set cs \<Longrightarrow> \<forall>t\<in>set ts. word_node t \<and> \<not> marked t \<Longrightarrow> count_visible_rec (headx 0 ts) s = Some (Ret (int (length ts)))"
proof (induction ts)
  case (Cons t us)
  have "load_node (j_addr t) s = Ret (node_obj (headx 0 us) t)" "j_addr t \<noteq> 0"
    using load_node_cell [OF assms, of "j_addr t"] holds_get(2) [OF assms, of "j_addr t" "NodeObj (node_obj (headx 0 us) t)"] Cons.prems(1) by auto
  moreover have "count_visible_rec 0 s = Some (Ret 0)" by (simp add: count_visible_rec.simps)
  ultimately show ?case using Cons by (auto simp: count_visible_rec.simps [of "j_addr t"] word_node_def marked_def)
qed (simp add: count_visible_rec.simps)

lemma purge_words:
  assumes "holds F cs (js_heap s)"
  shows "set (cells 0 ts) \<subseteq> set cs \<Longrightarrow> \<forall>t\<in>set ts. word_node t \<and> \<not> marked t \<Longrightarrow> purge_rec (headx 0 ts) s = Some (Ret (0, s))"
proof (induction ts)
  case (Cons t us)
  have l: "load_node (j_addr t) s = Ret (node_obj (headx 0 us) t)" "j_addr t \<noteq> 0"
    using load_node_cell [OF assms, of "j_addr t"] holds_get(2) [OF assms, of "j_addr t" "NodeObj (node_obj (headx 0 us) t)"] Cons.prems(1) by auto
  have v: "count_visible_rec (headx 0 us) s = Some (Ret (int (length us)))" using visible_words [OF assms, of us] Cons.prems by auto
  have h0: "headx 0 us \<noteq> 0 \<Longrightarrow> us \<noteq> []" by auto
  have "purge_node (j_addr t) s = Ret (0, s)"
    using l v h0 Cons.prems(2) by (auto simp: purge_node_def purge_bros_def sjson_count_visible_nodes_def word_node_def node_types)
  moreover have "purge_rec 0 s = Some (Ret (0, s))" by (simp add: purge_rec.simps)
  moreover have "purge_rec (headx 0 us) s = Some (Ret (0, s))" using Cons by auto
  ultimately show ?case using l Cons.prems(2) by (simp add: purge_rec.simps [of "j_addr t"] word_node_def)
qed (simp add: purge_rec.simps)

lemma set_has_tokens_words:
  assumes "holds F cs (js_heap s)"
  shows "set (cells 0 ts) \<subseteq> set cs \<Longrightarrow> \<forall>t\<in>set ts. word_node t \<Longrightarrow> sjson_set_has_tokens (headx 0 ts) s = Ret True"
proof (induction ts)
  case (Cons t us)
  have "load_node (j_addr t) s = Ret (node_obj (headx 0 us) t)" "j_addr t \<noteq> 0"
    using load_node_cell [OF assms, of "j_addr t"] holds_get(2) [OF assms, of "j_addr t" "NodeObj (node_obj (headx 0 us) t)"] Cons.prems(1) by auto
  then show ?case using Cons by (simp add: sjson_set_has_tokens_def while_o_step word_node_def)
qed (simp add: sjson_set_has_tokens_def)

lemma purge_array:
  assumes h: "holds F (cells 0 (b # ts) @ C) (js_heap s)" and b: "\<not> marked b" "j_type b = SET" "j_val b = []" and ts: "\<forall>t\<in>set ts. word_node t"
  obtains s' where "sjson_purge_json (j_addr b) s = Ret (int (length (filter marked ts)), s')"
    "holds F (cells 0 (b # filter (\<lambda>t. \<not> marked t) ts) @ C) (js_heap s')"
proof -
  let ?us = "filter (\<lambda>t. \<not> marked t) ts"
  have l: "load_node (j_addr b) s = Ret (node_obj (headx 0 ts) b)" "j_addr b \<noteq> 0"
    using load_node_cell [OF h, of "j_addr b"] headx_not_0 [OF h] by simp_all
  obtain s' where s': "purge_set (j_addr b) s = Ret (int (length (filter marked ts)), s')" "holds F (cells 0 (b # ?us) @ C) (js_heap s')"
    by (rule purge_set_law [OF h b(1) ts])
  have "sjson_set_has_tokens (headx 0 ts) s = Ret True" by (rule set_has_tokens_words [OF h _ ts]) auto
  moreover have "ts = []" if "headx 0 ts = 0" using that headx_not_0 [of F 0 ts "cells (headx 0 ts) [b] @ C" "js_heap s"] h
    by (cases ts) (auto simp: holds_def)
  moreover have "purge_set (j_addr b) s = Ret (0, s)" "s' = s" if "ts = []"
    using l that s'(1) b(1) by (simp_all add: purge_set_def while_o_step marked_def)
  ultimately have n: "purge_node (j_addr b) s = Ret (int (length (filter marked ts)), s')"
    using l s'(1) b(2) by (auto simp: purge_node_def)
  have l': "load_node (j_addr b) s' = Ret (node_obj (headx 0 ?us) b)" by (rule load_node_cell [OF s'(2)]) simp
  have "purge_rec (headx 0 ?us) s' = Some (Ret (0, s'))" by (rule purge_words [OF s'(2)]) (use ts in auto)
  moreover have "purge_rec 0 s' = Some (Ret (0, s'))" by (simp add: purge_rec.simps)
  ultimately have "sjson_purge_json (j_addr b) s = Ret (int (length (filter marked ts)), s')"
    using l n l' b(3) by (simp add: sjson_purge_json_def purge_rec.simps [of "j_addr b"])
  then show thesis using s'(2) that by blast
qed

section \<open>Marking a word\<close>

lemma member_walk:
  "holds F (cells 0 (as @ n # ns) @ C) (js_heap s) \<Longrightarrow>
     while_o (\<lambda>p. p \<noteq> 0 \<and> p \<noteq> j_addr n) (\<lambda>p. obind (load_node p s) (\<lambda>x. Ret (sn_bros x))) (headx 0 (as @ n # ns)) = Ret (j_addr n)"
proof (induction as arbitrary: C)
  case (Cons a as)
  have "holds F (cells 0 (as @ n # ns) @ cells (headx 0 (as @ n # ns)) [a] @ C) (js_heap s)" using Cons.prems by (subst holds_perm) (auto simp: ac_simps)
  note IH = Cons.IH [OF this]
  have "load_node (j_addr a) s = Ret (node_obj (headx 0 (as @ n # ns)) a)" "j_addr a \<noteq> 0"
    using load_node_cell [OF Cons.prems, of "j_addr a"] headx_not_0 [OF Cons.prems] by simp_all
  then show ?case using IH by (cases "j_addr a = j_addr n") (simp_all add: while_o_step)
qed simp

lemma mark_word:
  assumes h: "holds F (cells 0 (b # ms @ n # ns) @ C) (js_heap s)" and b: "j_type b = SET" "j_val b = []" and n: "word_node n" "j_prev n = j_addr b"
  obtains s' where "sjson_delete_json_subtree (j_addr n) s = Ret (0, s')"
    "holds F (cells 0 (b # ms @ set_flag (j_flag n OR F_DEL) n # ns) @ C) (js_heap s')"
proof -
  have l: "load_node (j_addr n) s = Ret (node_obj (headx 0 ns) n)" "load_node (j_addr b) s = Ret (node_obj (headx 0 (ms @ n # ns)) b)"
    by (rule load_node_cell [OF h]; simp)+
  have z: "j_addr b \<noteq> 0" "j_addr n \<noteq> 0"
    using headx_not_0 [OF h] holds_get(2) [OF h, of "j_addr n" "NodeObj (node_obj (headx 0 ns) n)"] by simp_all
  have w: "while_o (\<lambda>p. p \<noteq> 0 \<and> p \<noteq> j_addr n) (\<lambda>p. obind (load_node p s) (\<lambda>x. Ret (sn_bros x))) (j_addr b) = Ret (j_addr n)"
    using member_walk [of F "b # ms" n ns C s] h by simp
  have "holds F (cells 0 (n # ns) @ cells (j_addr n) (b # ms) @ C) (js_heap s)" using h by (subst holds_perm) (auto simp: ac_simps)
  then obtain s' where s': "upd_flag (j_addr n) (\<lambda>f. f OR F_DEL) s = Ret s'"
    "holds F (cells 0 (set_flag (j_flag n OR F_DEL) n # ns) @ cells (j_addr n) (b # ms) @ C) (js_heap s')"
    by (rule upd_flag_law [where g = "\<lambda>f. f OR F_DEL"])
  have "sjson_delete_json_subtree (j_addr n) s = Ret (0, s')"
    using l z w b n s'(1) by (simp add: sjson_delete_json_subtree_def Let_def delete_set_member_def word_node_def)
  moreover have "holds F (cells 0 (b # ms @ set_flag (j_flag n OR F_DEL) n # ns) @ C) (js_heap s')"
    using s'(2) by (subst holds_perm) (auto simp: ac_simps)
  ultimately show thesis by (rule that)
qed

lemma elems_ok_append:
  "\<forall>v\<in>set us. is_Tok v \<Longrightarrow> elems_ok l st (us @ vs) ms \<longleftrightarrow> elems_ok l st us (take (length us) ms) \<and> elems_ok l st vs (drop (length us) ms)"
proof (induction us arbitrary: ms)
  case (Cons u us)
  then show ?case by (cases ms) auto
qed simp

lemma elems_ok_length: "elems_ok l st vs ms \<Longrightarrow> length ms = length vs"
  by (induction vs arbitrary: ms) (auto split: list.splits)

lemma elems_ok_words:
  "elems_ok l st vs ms \<Longrightarrow> \<forall>v\<in>set vs. is_Tok v \<Longrightarrow> \<forall>m\<in>set ms. word_node m \<and> \<not> marked m \<and> j_prev m = st"
proof (induction vs arbitrary: ms)
  case (Cons v vs)
  then show ?case by (cases ms; cases v) (auto simp: word_node_def marked_def)
qed simp

lemma delete_purge_word:
  assumes h: "holds F (cells 0 (b # ms) @ C) (js_heap s)" and b: "inner_ok b SET l f" "f = 0 \<or> f = F_COMMA"
    and ms: "elems_ok l (j_addr b) (us @ v # vs) ms" "\<forall>v\<in>set (us @ v # vs). is_Tok v"
  obtains ms' s1 s2 where "sjson_delete_json_subtree (j_addr (ms ! length us)) s = Ret (0, s1)"
    "sjson_purge_json (j_addr b) s1 = Ret (1, s2)" "holds F (cells 0 (b # ms') @ C) (js_heap s2)" "elems_ok l (j_addr b) (us @ vs) ms'"
proof -
  define ms1 ms2 where ms12: "ms1 = take (length us) ms" "ms2 = drop (length us) ms"
  have m: "ms = ms1 @ ms2" "length ms1 = length us" "elems_ok l (j_addr b) us ms1" "elems_ok l (j_addr b) (v # vs) ms2"
    using ms elems_ok_append [of us l "j_addr b" "v # vs" ms] elems_ok_length [OF ms(1)] by (simp_all add: ms12 del: elems_ok.simps)
  then obtain n ns where n: "ms2 = n # ns" "elems_ok l (j_addr b) vs ns" by (auto split: list.splits)
  have wn: "\<forall>m\<in>set (ms1 @ n # ns). word_node m \<and> \<not> marked m \<and> j_prev m = j_addr b" using elems_ok_words [OF ms] by (simp add: m(1) n(1))
  have b': "j_type b = SET" "j_val b = []" "\<not> marked b" using b by (auto simp: inner_ok_def marked_def F_DEL_def F_COMMA_def)
  have h': "holds F (cells 0 (b # ms1 @ n # ns) @ C) (js_heap s)" using h by (simp add: m(1) n(1))
  let ?n = "set_flag (j_flag n OR F_DEL) n"
  obtain s1 where s1: "sjson_delete_json_subtree (j_addr n) s = Ret (0, s1)" "holds F (cells 0 (b # ms1 @ ?n # ns) @ C) (js_heap s1)"
    by (rule mark_word [OF h' b'(1,2)]) (use wn in auto)
  have mk: "marked ?n" by (simp add: marked_def bit.conj_disj_distrib2 F_DEL_def)
  have ft: "filter marked (ms1 @ ?n # ns) = [?n]" "filter (\<lambda>t. \<not> marked t) (ms1 @ ?n # ns) = ms1 @ ns"
    using wn mk by (simp_all add: filter_empty_conv)
  have tw: "\<forall>t\<in>set (ms1 @ ?n # ns). word_node t" using wn by (auto simp: word_node_def)
  obtain s2 where "sjson_purge_json (j_addr b) s1 = Ret (int (length (filter marked (ms1 @ ?n # ns))), s2)"
    "holds F (cells 0 (b # filter (\<lambda>t. \<not> marked t) (ms1 @ ?n # ns)) @ C) (js_heap s2)"
    by (rule purge_array [OF s1(2) b'(3,1,2) tw])
  then have s2: "sjson_purge_json (j_addr b) s1 = Ret (1, s2)" "holds F (cells 0 (b # ms1 @ ns) @ C) (js_heap s2)" by (simp_all only: ft) simp
  have "elems_ok l (j_addr b) (us @ vs) (ms1 @ ns)" using ms(2) m(2,3) n(2) by (subst elems_ok_append) auto
  moreover have "ms ! length us = n" by (simp add: m(1) n(1) nth_append flip: m(2))
  ultimately show thesis using that s1(1) s2 by blast
qed

section \<open>The number of members\<close>

definition count_flag :: "nat \<Rightarrow> jnode \<Rightarrow> jnode" where
  "count_flag k n = (if j_type n = SET \<and> j_val n = [] \<and> k \<noteq> 0
     then set_flag ((j_flag n AND NOT F_SIDX_MASK) OR (sjson_set_setcount (int k) AND F_SIDX_MASK)) n else n)"

fun counted :: "jnode list \<Rightarrow> jnode list" where
  "counted [] = []"
| "counted (n # ns) = set_val (counted (j_val n)) (count_flag (length ns) n) # counted ns"

lemma count_flag_simps [simp]: "j_addr (count_flag k n) = j_addr n" "j_sym (count_flag k n) = j_sym n" "j_name (count_flag k n) = j_name n"
  "j_type (count_flag k n) = j_type n" "j_val (count_flag k n) = j_val n"
  by (simp_all add: count_flag_def)

lemma headx_counted [simp]: "headx e (counted ns) = headx e ns"
  by (cases ns) simp_all

lemma bros_count_law: "holds F (cells 0 ns @ C) (js_heap s) \<Longrightarrow> bros_count (headx 0 ns) s = Ret (int (length ns))"
proof -
  have "holds F (cells 0 ns @ C) (js_heap s) \<Longrightarrow>
    while_o (\<lambda>(p, k). p \<noteq> 0) (\<lambda>(p, k). obind (load_node p s) (\<lambda>n. Ret (sn_bros n, k + 1))) (headx 0 ns, k) = Ret (0, k + int (length ns))" for k :: int
  proof (induction ns arbitrary: k C)
    case (Cons n ns)
    have "holds F (cells 0 ns @ cells (headx 0 ns) [n] @ C) (js_heap s)" using Cons.prems by (subst holds_perm) (auto simp: ac_simps)
    note IH = Cons.IH [OF this, of "k + 1"]
    have "load_node (j_addr n) s = Ret (node_obj (headx 0 ns) n)" "j_addr n \<noteq> 0"
      using load_node_cell [OF Cons.prems, of "j_addr n"] headx_not_0 [OF Cons.prems] by simp_all
    then show ?case using IH by (simp add: while_o_step)
  qed simp
  then show "holds F (cells 0 ns @ C) (js_heap s) \<Longrightarrow> ?thesis" by (simp add: bros_count_def)
qed

lemma precalc_node:
  assumes h: "holds F (cells 0 (n # ns) @ C) (js_heap s)"
  obtains s' where "(if j_type n = SET \<and> headx 0 (j_val n) = 0 \<and> headx 0 ns \<noteq> 0
       then obind (bros_count (headx 0 ns) s) (\<lambda>k.
            if 0 < k then upd_flag (j_addr n) (\<lambda>f. (f AND NOT F_SIDX_MASK) OR (sjson_set_setcount k AND F_SIDX_MASK)) s else Ret s)
       else Ret s) = Ret s'" "holds F (cells 0 (count_flag (length ns) n # ns) @ C) (js_heap s')"
proof -
  have "holds F (cells 0 ns @ cells (headx 0 ns) [n] @ C) (js_heap s)" "holds F (cells 0 (j_val n) @ (j_addr n, NodeObj (node_obj (headx 0 ns) n)) # (j_sym n, StrObj (j_name n)) # cells 0 ns @ C) (js_heap s)"
    using h by (subst holds_perm, auto simp: ac_simps)+
  then have z: "headx 0 ns = 0 \<longleftrightarrow> ns = []" "headx 0 (j_val n) = 0 \<longleftrightarrow> j_val n = []" and c: "bros_count (headx 0 ns) s = Ret (int (length ns))"
    using headx_not_0 [of F 0 ns] headx_not_0 [of F 0 "j_val n"] bros_count_law by fastforce+
  obtain s1 where "upd_flag (j_addr n) (\<lambda>f. (f AND NOT F_SIDX_MASK) OR (sjson_set_setcount (int (length ns)) AND F_SIDX_MASK)) s = Ret s1"
    "holds F (cells 0 (set_flag ((j_flag n AND NOT F_SIDX_MASK) OR (sjson_set_setcount (int (length ns)) AND F_SIDX_MASK)) n # ns) @ C) (js_heap s1)"
    by (rule upd_flag_law [OF h])
  then show thesis using z c h that [of s1] that [of s] by (cases "j_type n = SET \<and> j_val n = [] \<and> ns \<noteq> []") (auto simp: count_flag_def)
qed

lemma precalc_rec_law:
  "holds F (cells 0 ns @ C) (js_heap s)
     \<Longrightarrow> \<exists>s'. precalc_setindex_rec (headx 0 ns) s = Some (Ret s') \<and> holds F (cells 0 (counted ns) @ C) (js_heap s')"
proof (induction ns arbitrary: C s rule: counted.induct)
  case 1
  then show ?case by (auto simp: precalc_setindex_rec.simps [of 0])
next
  case (2 n ns)
  let ?a = "j_addr n" and ?n = "count_flag (length ns) n" and ?y = "(j_sym n, StrObj (j_name n))"
  have l: "load_node ?a s = Ret (node_obj (headx 0 ns) n)" "?a \<noteq> 0"
    using load_node_cell [OF "2.prems", of ?a] headx_not_0 [OF "2.prems"] by simp_all
  obtain s1 where s1: "(if j_type n = SET \<and> headx 0 (j_val n) = 0 \<and> headx 0 ns \<noteq> 0
       then obind (bros_count (headx 0 ns) s) (\<lambda>k.
            if 0 < k then upd_flag ?a (\<lambda>f. (f AND NOT F_SIDX_MASK) OR (sjson_set_setcount k AND F_SIDX_MASK)) s else Ret s)
       else Ret s) = Ret s1" "holds F (cells 0 (?n # ns) @ C) (js_heap s1)" by (rule precalc_node [OF "2.prems"])
  have "holds F (cells 0 (j_val n) @ (?a, NodeObj (node_obj (headx 0 ns) ?n)) # ?y # cells 0 ns @ C) (js_heap s1)"
    using s1(2) by (subst holds_perm) (auto simp: ac_simps)
  from "2.IH"(1) [OF this] obtain s2 where s2: "precalc_setindex_rec (headx 0 (j_val n)) s1 = Some (Ret s2)"
    "holds F (cells 0 (counted (j_val n)) @ (?a, NodeObj (node_obj (headx 0 ns) ?n)) # ?y # cells 0 ns @ C) (js_heap s2)" by blast
  have l2: "load_node ?a s2 = Ret (node_obj (headx 0 ns) ?n)" by (rule load_node_cell [OF s2(2)]) simp
  have "holds F (cells 0 ns @ (?a, NodeObj (node_obj (headx 0 ns) ?n)) # ?y # cells 0 (counted (j_val n)) @ C) (js_heap s2)"
    using s2(2) by (subst holds_perm) (auto simp: ac_simps)
  from "2.IH"(2) [OF this] obtain s3 where s3: "precalc_setindex_rec (headx 0 ns) s2 = Some (Ret s3)"
    "holds F (cells 0 (counted ns) @ (?a, NodeObj (node_obj (headx 0 ns) ?n)) # ?y # cells 0 (counted (j_val n)) @ C) (js_heap s3)" by blast
  have "precalc_setindex_rec ?a s = Some (Ret s3)"
    using l s1(1) s2(1) l2 s3(1)
    by (cases "j_type n = SET \<and> headx 0 (j_val n) = 0 \<and> headx 0 ns \<noteq> 0") (auto simp: precalc_setindex_rec.simps [of ?a])
  moreover have "holds F (cells 0 (counted (n # ns)) @ C) (js_heap s3)"
    using s3(2) by (subst holds_perm) (auto simp: node_obj_def ac_simps)
  ultimately show ?case by simp
qed

text \<open>The number is kept modulo 64; the notes of commas and deletions stay.\<close>

lemma setcount_mod:
  assumes "j_type n = SET" "j_val n = []" "k \<noteq> 0"
  shows "sjson_get_setcount (node_obj e (count_flag k n)) = int k mod 64" "j_flag (count_flag k n) AND 3 = j_flag n AND 3"
proof -
  let ?f = "(j_flag n AND NOT F_SIDX_MASK) OR (sjson_set_setcount (int k) AND F_SIDX_MASK)"
  have m: "F_SIDX_MASK = push_bit 2 (mask 6)" "(3 :: u32) = mask 2" "(0x3F :: u32) = mask 6" by (simp_all add: F_SIDX_MASK_def mask_eq_exp_minus_1)
  have "drop_bit 2 (?f AND F_SIDX_MASK) = take_bit 6 (word_of_int (int k) :: u32)"
    by (rule bit_word_eqI) (auto simp: m sjson_set_setcount_def bit_simps)
  moreover have "uint (take_bit 6 (word_of_int (int k) :: u32)) = int k mod 64"
    by (simp only: unsigned_take_bit_eq uint_word_of_int take_bit_take_bit) (simp add: take_bit_eq_mod mod_mod_cancel)
  ultimately show "sjson_get_setcount (node_obj e (count_flag k n)) = int k mod 64"
    using assms by (simp add: sjson_get_setcount_def count_flag_def)
  have "?f AND mask 2 = j_flag n AND mask 2" by (rule bit_word_eqI) (auto simp: m(1,3) sjson_set_setcount_def bit_simps)
  then show "j_flag (count_flag k n) AND 3 = j_flag n AND 3" using assms by (simp add: count_flag_def m(2))
qed

end
