(* ===== verification/Json_Xml.thy ===== *)
theory Json_Xml
  imports Json_Print
begin

text \<open>
  The XML printer and the listing of the nodes of a tree (json/json.c). Both keep static variables
  between calls: the number and the depth of the elements of sets, and the largest depth that was ever
  seen, which is never reset.
\<close>

record print_vars =
  json_xml_setelm :: int
  json_xml_setlvl :: int
  mlvl :: int

section \<open>XML\<close>

text \<open>The node below the set that a node is part of, NULL when there is none.\<close>

definition sjson_xml_set_included :: "addr \<Rightarrow> json_state \<Rightarrow> addr outcome" where
  "sjson_xml_set_included node s =
     obind (while_o (\<lambda>(p, lb, found). p \<noteq> 0 \<and> \<not> found)
       (\<lambda>(p, lb, found). obind (load_node p s) (\<lambda>n.
          Ret (if sn_type n = SET then (p, lb, True) else (sn_prev n, p, False)))) (node, node, False)) (\<lambda>(p, lb, found).
     Ret (if found then lb else 0))"

definition xml_elem :: "string \<Rightarrow> int \<Rightarrow> string" where
  "xml_elem br k = br @ ''elem'' @ fmt_ld k @ ''>''"

definition xml_head_block ::
    "addr \<Rightarrow> sjson_node_t \<Rightarrow> int \<Rightarrow> int \<Rightarrow> json_state \<Rightarrow> print_vars \<Rightarrow> string \<times> int \<Rightarrow> (string \<times> int) outcome" where
  "xml_head_block node n off room s G B =
     obind (sjson_xml_set_included node s) (\<lambda>i.
     if i = 0 then Ret B
     else obind (dbgp_n (nat (sn_lvl n + json_xml_setlvl G)) off room B)
            (dbgp off room (xml_elem ''<'' (json_xml_setelm G) @ [NLC])))"

definition xml_head_token ::
    "sjson_node_t \<Rightarrow> int \<Rightarrow> int \<Rightarrow> bool \<Rightarrow> json_state \<Rightarrow> print_vars \<Rightarrow> string \<times> int \<Rightarrow> ((string \<times> int) \<times> print_vars) outcome" where
  "xml_head_token n off room space s G B =
     (if sn_symbol n = 0 then Ret (B, G)
      else obind (if sn_value n \<noteq> 0 \<and> space then dbgp_n (nat (sn_lvl n + 1 + json_xml_setlvl G)) off room B else Ret B) (\<lambda>B.
      obind (if sn_prev n = 0 then Ret False else obind (load_node (sn_prev n) s) (\<lambda>p. Ret (sn_type p = SET))) (\<lambda>set_parent.
      obind (load_str (sn_symbol n) s) (\<lambda>nm.
      if set_parent
      then obind (dbgp_n (nat (sn_lvl n + 1 + json_xml_setlvl G)) off room B) (\<lambda>B.
           obind (dbgp off room (xml_elem ''<'' (json_xml_setelm G) @ nm @ xml_elem ''</'' (json_xml_setelm G) @ [NLC]) B) (\<lambda>B.
           Ret (B, G\<lparr>json_xml_setelm := json_xml_setelm G + 1\<rparr>)))
      else if sn_value n \<noteq> 0
      then obind (dbgp off room (''<'' @ nm @ ''>'') B) (\<lambda>B.
           obind (load_node (sn_value n) s) (\<lambda>v.
           obind (if sn_type v \<noteq> TOKEN then dbgp off room [NLC] B else Ret B) (\<lambda>B. Ret (B, G))))
      else obind (dbgp off room nm B) (\<lambda>B. Ret (B, G))))))"

definition xml_head ::
    "addr \<Rightarrow> sjson_node_t \<Rightarrow> int \<Rightarrow> int \<Rightarrow> bool \<Rightarrow> json_state \<Rightarrow> print_vars \<Rightarrow> string \<times> int \<Rightarrow> ((string \<times> int) \<times> print_vars) outcome" where
  "xml_head node n off room space s G B =
     (if multiple_node n \<and> sn_value n \<noteq> 0 then Ret (B, G)
      else if sn_type n = BLOCK then obind (xml_head_block node n off room s G B) (\<lambda>B. Ret (B, G))
      else if sn_type n = SET then Ret (B, G\<lparr>json_xml_setelm := 0, json_xml_setlvl := json_xml_setlvl G + 1\<rparr>)
      else if sn_type n = STMT then Ret (B, G)
      else if sn_type n = TOKEN then xml_head_token n off room space s G B
      else obind (dbgp off room ''UNKNOWN'' B) (\<lambda>B. Ret (B, G)))"

definition xml_tail ::
    "addr \<Rightarrow> sjson_node_t \<Rightarrow> int \<Rightarrow> int \<Rightarrow> bool \<Rightarrow> json_state \<Rightarrow> print_vars \<Rightarrow> string \<times> int \<Rightarrow> ((string \<times> int) \<times> print_vars) outcome" where
  "xml_tail node n off room space s G B =
     (if multiple_node n \<and> sn_value n \<noteq> 0 then Ret (B, G)
      else if sn_type n = TOKEN
      then if sn_value n = 0 then Ret (B, G)
           else obind (load_node (sn_value n) s) (\<lambda>v.
                obind (if multiple_node v \<and> space then dbgp_n (nat (sn_lvl n + 1 + json_xml_setlvl G)) off room B else Ret B) (\<lambda>B.
                obind (symbol_name node s) (\<lambda>nm.
                obind (dbgp off room (''</'' @ nm @ ''>'' @ [NLC]) B) (\<lambda>B. Ret (B, G)))))
      else if sn_type n = SET then Ret (B, G\<lparr>json_xml_setlvl := json_xml_setlvl G - 1\<rparr>)
      else if sn_type n = BLOCK
      then obind (sjson_xml_set_included node s) (\<lambda>i.
           if i = 0 then Ret (B, G)
           else obind (dbgp_n (nat (sn_lvl n + json_xml_setlvl G)) off room B) (\<lambda>B.
                obind (dbgp off room (xml_elem ''</'' (json_xml_setelm G) @ [NLC]) B) (\<lambda>B.
                Ret (B, G\<lparr>json_xml_setelm := json_xml_setelm G + 1\<rparr>))))
      else Ret (B, G))"

partial_function (option) xml_print_rec ::
    "addr \<Rightarrow> int \<Rightarrow> int \<Rightarrow> bool \<Rightarrow> json_state \<Rightarrow> string \<times> print_vars \<Rightarrow> ((string \<times> int) \<times> print_vars) outcome option" where
  "xml_print_rec node off room space s X =
     (if node = 0 then Some (Ret ((fst X, 0), snd X))
      else rbind (Some (load_node node s)) (\<lambda>n.
      rbind (Some (xml_head node n off room space s (snd X) (fst X, 0))) (\<lambda>((buf, len), G).
      rbind (xml_print_rec (sn_value n) (off + len) (room - len) True s (buf, G)) (\<lambda>((buf, l), G).
      let len = len + l in
      rbind (xml_print_rec (sn_bros n) (off + len) (room - len) False s (buf, G)) (\<lambda>((buf, l), G).
      Some (xml_tail node n off room space s G (buf, len + l)))))))"

declare xml_print_rec.simps [code]

definition xml_decl :: string where
  "xml_decl = ''<?xml version='' @ CHR 0x22 # ''1.0.0.0'' @ CHR 0x22 # '' encoding='' @ CHR 0x22 # ''utf-8'' @ CHR 0x22 # ''?>'' @ [NLC]"

text \<open>
  \<open>sjson_print_xml\<close>: the room left is computed from the lengths the texts would have, and may become
  negative. The result is the length of the text between the root tags.
\<close>

definition sjson_print_xml ::
    "sjson_table_t \<Rightarrow> string option \<Rightarrow> int \<Rightarrow> json_state \<Rightarrow> print_vars \<Rightarrow> (string option \<times> int \<times> print_vars) outcome" where
  "sjson_print_xml tbl buff room s G =
     (case buff of None \<Rightarrow> Ret (None, 0, G)
      | Some buf \<Rightarrow>
        if room \<le> 0 then Ret (Some buf, 0, G)
        else
        let G = G\<lparr>json_xml_setelm := 0, json_xml_setlvl := 0\<rparr>; tlen = int (length xml_decl) in
        obind (snprintf_at 0 room xml_decl buf) (\<lambda>buf.
        obind (snprintf_at tlen (room - tlen) (''<root>'' @ [NLC]) buf) (\<lambda>buf.
        let tlen = tlen + 7 in
        obind (cell_get (tb_root tbl) 0) (\<lambda>r.
        obind (run_loop (xml_print_rec r tlen (room - tlen) False s (buf, G))) (\<lambda>((buf, len), G).
        obind (snprintf_at (len + tlen) (room - (len + tlen)) (''</root>'' @ [NLC]) buf) (\<lambda>buf.
        Ret (Some buf, len, G)))))))"

section \<open>The listing of a tree\<close>

definition node_name :: "sjson_node_t \<Rightarrow> string" where
  "node_name n = (if sn_type n = BLOCK then ''BLK '' else if sn_type n = SET then ''SET '' else if sn_type n = TOKEN then ''TOKN''
     else if sn_type n = STMT then ''STMT'' else ''UNKN'')"

definition pad :: "nat \<Rightarrow> string \<Rightarrow> string" where
  "pad k t = t @ replicate (k - length t) (CHR '' '')"

partial_function (option) max_depth_rec :: "addr \<Rightarrow> int \<Rightarrow> json_state \<Rightarrow> int \<Rightarrow> (int \<times> int) outcome option" where
  "max_depth_rec node level s m =
     (if node = 0 then Some (Ret (0, m))
      else rbind (Some (load_node node s)) (\<lambda>n.
      rbind (max_depth_rec (sn_value n) (level + 1) s m) (\<lambda>(_, m).
      rbind (max_depth_rec (sn_bros n) level s m) (\<lambda>(_, m).
      let m = (if m < level then level else m) in Some (Ret (m, m))))))"

declare max_depth_rec.simps [code]

text \<open>The name of a neighbour, a blank for NULL.\<close>

definition near :: "addr \<Rightarrow> json_state \<Rightarrow> string outcome" where
  "near p s = (if p = 0 then Ret '' '' else symbol_name p s)"

definition tree_line :: "addr \<Rightarrow> int \<Rightarrow> int \<Rightarrow> int \<Rightarrow> int \<Rightarrow> json_state \<Rightarrow> string \<Rightarrow> (string \<times> int) outcome" where
  "tree_line node lvl maxlvl off room s buf =
     obind (load_node node s) (\<lambda>n.
     obind (dbgp off room (CHR 0x09 # ''P '' @ pad 3 (fmt_ld lvl) @ ''   '' @ pad 3 (fmt_ld (sn_lvl n)) @ ''  '') (buf, 0)) (\<lambda>B.
     obind (dbgp_n (nat (sn_lvl n)) off room B) (\<lambda>B.
     obind (symbol_name node s) (\<lambda>nm.
     obind (dbgp off room (''<'' @ pad 5 (node_name n) @ ''> '' @ pad 20 nm) B) (\<lambda>B.
     obind (dbgp_n (nat (maxlvl - sn_lvl n)) off room B) (\<lambda>B.
     obind (near (sn_value n) s) (\<lambda>v. obind (near (sn_bros n) s) (\<lambda>b. obind (near (sn_prev n) s) (\<lambda>p.
     dbgp off room ((if sn_flag n AND F_COMMA \<noteq> 0 then ''1 '' else ''0 '') @ (if sn_flag n AND F_DEL \<noteq> 0 then ''* <'' else ''  <'')
       @ pad 20 v @ ''> <'' @ pad 20 b @ ''> <'' @ pad 20 p @ ''>'' @ [NLC]) B)))))))))"

text \<open>The error flag is that of the last piece, which is never empty: the result is the length.\<close>

partial_function (option) tree_print_rec ::
    "addr \<Rightarrow> int \<Rightarrow> int \<Rightarrow> int \<Rightarrow> int \<Rightarrow> json_state \<Rightarrow> string \<Rightarrow> (string \<times> int) outcome option" where
  "tree_print_rec node lvl maxlvl off room s buf =
     (if node = 0 \<or> room \<le> 0 then Some (Ret (buf, 0))
      else rbind (Some (load_node node s)) (\<lambda>n.
      rbind (Some (tree_line node lvl maxlvl off room s buf)) (\<lambda>(buf, len).
      rbind (tree_print_rec (sn_value n) (lvl + 1) maxlvl (off + len) (room - len) s buf) (\<lambda>(buf, l).
      let len = len + l in
      rbind (tree_print_rec (sn_bros n) lvl maxlvl (off + len) (room - len) s buf) (\<lambda>(buf, l).
      Some (Ret (buf, len + l)))))))"

declare tree_print_rec.simps [code]

definition sjson_print_tree ::
    "sjson_table_t option \<Rightarrow> string option \<Rightarrow> int \<Rightarrow> json_state \<Rightarrow> print_vars \<Rightarrow> (string option \<times> int \<times> print_vars) outcome" where
  "sjson_print_tree tbl buff room s G =
     (case tbl of None \<Rightarrow> Ret (buff, 0, G)
      | Some t \<Rightarrow>
        obind (cell_get (tb_root t) 0) (\<lambda>r.
        if r = 0 then Ret (buff, 0, G)
        else obind (run_loop (max_depth_rec r 0 s (mlvl G))) (\<lambda>(d, m).
        let G = G\<lparr>mlvl := m\<rparr> in
        case buff of None \<Rightarrow> Ret (None, 0, G)
        | Some buf \<Rightarrow> obind (run_loop (tree_print_rec r 0 d 0 room s buf)) (\<lambda>(buf, len). Ret (Some buf, len, G)))))"

end
