(* ===== verification/Json_Edit_Props.thy ===== *)
theory Json_Edit_Props
  imports Json_Merge Json_Purge Json_Xml Json_Props
begin

text \<open>
  The properties of the editing operations of the JSON library: completing copies, removing members and
  elements, counting, and the limits of the XML printer and of the merge.
\<close>

section \<open>Trees for the witnesses\<close>

definition demo_obj :: "jnode list" where
  "demo_obj = [JNode 1 2 BLOCK ''BLK0'' 0 0 0 [],
     JNode 3 4 STMT ''STM0'' 0 0 1 [JNode 5 6 TOKEN ''a'' 0 0 3 [JNode 7 8 TOKEN ''b'' 0 F_COMMA 3 []]],
     JNode 9 10 STMT ''STM1'' 0 0 3 [JNode 11 12 TOKEN ''c'' 0 0 9 [JNode 13 14 TOKEN ''d'' 0 0 9 []]]]"

definition demo_arr :: "jnode list" where
  "demo_arr = [JNode 1 2 SET ''SET0'' 0 0 0 [], JNode 3 4 TOKEN ''a'' 0 0 1 [], JNode 5 6 TOKEN ''b'' 0 0 1 []]"

definition store_of :: "jnode list \<Rightarrow> json_state" where
  "store_of ns = demo_json_state\<lparr>js_heap := map_of (cells 0 ns)\<rparr>"

lemma store_of_heap [simp]: "js_heap (store_of ns) = map_of (cells 0 ns)"
  by (simp add: store_of_def)

lemma demo_obj_holds: "holds Map.empty (cells 0 demo_obj @ []) (js_heap (store_of demo_obj))"
  by (simp add: holds_def demo_obj_def)

lemma demo_arr_holds: "holds Map.empty (cells 0 demo_arr @ []) (js_heap (store_of demo_arr))"
  by (simp add: holds_def demo_arr_def)

section \<open>Copies\<close>

text \<open>C13. A copy of the tree of a document followed by \<open>__sjson_backward_rechain\<close> is a tree of the same document
  again, back pointers included, in blocks of its own; the first tree stays as it is. Arrays have to be
  the last elements of the arrays around them, since the walk skips the inner node of an array that has a
  brother.\<close>

theorem copy_rechain_restores:
  assumes "json_env_ok cap E" "finite (dom F)" "doc_tree d ns" "arrays_last d"
    "holds F (cells 0 ns @ C) (js_heap s)" "card (dom F) + length C + 4 * jsize ns \<le> cap"
  shows "\<exists>q s1 ms s2. sjson_copy E (headx 0 ns) s = Ret (q, s1) \<and> sjson_backward_rechain q s1 = Ret s2
    \<and> q = headx 0 ms \<and> doc_tree d ms \<and> holds F (cells 0 ms @ cells 0 ns @ C) (js_heap s2)"
proof -
  have "card (dom F) + length (cells 0 ns @ C) + 2 * jsize ns \<le> cap" "set (cells 0 ns) \<subseteq> set (cells 0 ns @ C)" using assms(6) by simp_all
  from sjson_copy_rec_law [OF assms(1,2,5) this(2,1)] obtain ms s1 where
    c: "sjson_copy_rec E (headx 0 ns) s = Some (Ret (headx 0 ms, s1))" "copy_of ns ms" "holds F (cells 0 ms @ cells 0 ns @ C) (js_heap s1)"
    by blast
  obtain s2 where s2: "sjson_backward_rechain (headx 0 ms) s1 = Ret s2" "holds F (cells 0 (rc ms) @ cells 0 ns @ C) (js_heap s2)"
    by (rule sjson_backward_rechain_law [OF c(3)])
  show ?thesis using c(1) s2 rc_restores_document [OF assms(3) c(2) assms(4)]
    by (intro exI [of _ "headx 0 ms"] exI [of _ s1] exI [of _ "rc ms"] exI [of _ s2]) (simp add: sjson_copy_def)
qed

theorem copy_rechain_restores_witness:
  "\<exists>q s1 ms s2. sjson_copy demo_json_env 1 (store_of demo_obj) = Ret (q, s1) \<and> sjson_backward_rechain q s1 = Ret s2
    \<and> q = headx 0 ms \<and> doc_tree (Obj [(''a'', Tok ''b''), (''c'', Tok ''d'')]) ms"
  using copy_rechain_restores [OF demo_json_env_ok _ _ _ demo_obj_holds, of "Obj [(''a'', Tok ''b''), (''c'', Tok ''d'')]"]
  by (simp add: demo_obj_def doc_tree_def inner_ok_def) blast

section \<open>Removing\<close>

text \<open>C14. Deleting the key of a member of an object with at least two members returns 0 and leaves the chain of
  the object without that member: its blocks and those of its value are released, the neighbours are
  linked again in both directions, and when the last member goes the note of the comma goes with it. The
  rest of the store stays as it is.\<close>

theorem delete_member_removes:
  assumes "holds F (cells 0 (b # ms) @ C) (js_heap s)" "inner_ok b BLOCK l f" "pairs_ok l (j_addr b) ps ms"
    "i < length ps" "2 \<le> length ps"
  shows "\<exists>ms' s'. sjson_delete_json_subtree (j_addr (hd (j_val (ms ! i)))) s = Ret (0, s')
    \<and> holds F (cells 0 (b # ms') @ C) (js_heap s') \<and> pairs_ok l (j_addr b) (take i ps @ drop (Suc i) ps) ms'"
proof (cases i)
  case 0
  obtain k v qs where ps: "ps = (k, v) # qs" "qs \<noteq> []" using assms(5) by (cases ps rule: list.exhaust) (auto simp: Suc_le_eq)
  have "ms \<noteq> []" using assms(3) by (auto simp: ps(1))
  then have "ms ! i = hd ms" using 0 by (cases ms) simp_all
  moreover obtain ms' s' where "sjson_delete_json_subtree (j_addr (hd (j_val (hd ms)))) s = Ret (0, s')"
    "holds F (cells 0 (b # ms') @ C) (js_heap s')" "pairs_ok l (j_addr b) qs ms'"
    by (rule delete_first_member [OF assms(1,2) assms(3) [unfolded ps(1)] ps(2)])
  ultimately show ?thesis using 0 ps(1) by (intro exI [of _ ms'] exI [of _ s']) (simp del: cells.simps)
next
  case (Suc j)
  obtain k1 v1 k v where kv: "ps ! j = (k1, v1)" "ps ! i = (k, v)" by fastforce
  have e: "ps = take j ps @ (k1, v1) # (k, v) # drop (Suc i) ps" "take i ps @ drop (Suc i) ps = take j ps @ (k1, v1) # drop (Suc i) ps"
    using assms(4) Suc kv by (simp_all add: Cons_nth_drop_Suc take_Suc_conv_app_nth flip: kv)
  have len: "length (take j ps) = j" using assms(4) Suc by simp
  obtain ms' s' where "sjson_delete_json_subtree (j_addr (hd (j_val (ms ! Suc (length (take j ps)))))) s = Ret (0, s')"
    "holds F (cells 0 (b # ms') @ C) (js_heap s')" "pairs_ok l (j_addr b) (take j ps @ (k1, v1) # drop (Suc i) ps) ms'"
    by (rule delete_later_member [OF assms(1), of l "j_addr b" "take j ps" k1 v1 k v "drop (Suc i) ps"]) (use assms(3) e(1) in auto)
  then show ?thesis unfolding Suc len e(2) [unfolded Suc] by blast
qed

theorem delete_member_removes_witness:
  "\<exists>ms' s'. sjson_delete_json_subtree 11 (store_of demo_obj) = Ret (0, s')
    \<and> holds Map.empty (cells 0 (hd demo_obj # ms') @ []) (js_heap s') \<and> pairs_ok 0 1 [(''a'', Tok ''b'')] ms'"
  using delete_member_removes [of Map.empty "hd demo_obj" "tl demo_obj" "[]" "store_of demo_obj" 0 0 "[(''a'', Tok ''b''), (''c'', Tok ''d'')]" 1]
    demo_obj_holds by (simp add: demo_obj_def inner_ok_def)

text \<open>C33. Deleting a word of an array of words only marks it; \<open>sjson_purge_json\<close> on the array then unlinks and
  releases exactly this word and returns 1, and what is left is the array without it.\<close>

theorem delete_purge_element:
  assumes "holds F (cells 0 (b # ms) @ C) (js_heap s)" "inner_ok b SET l f" "f = 0 \<or> f = F_COMMA"
    "elems_ok l (j_addr b) vs ms" "\<forall>v\<in>set vs. is_Tok v" "i < length vs"
  shows "\<exists>ms' s1 s2. sjson_delete_json_subtree (j_addr (ms ! i)) s = Ret (0, s1) \<and> sjson_purge_json (j_addr b) s1 = Ret (1, s2)
    \<and> holds F (cells 0 (b # ms') @ C) (js_heap s2) \<and> elems_ok l (j_addr b) (take i vs @ drop (Suc i) vs) ms'"
proof -
  have vs: "take i vs @ vs ! i # drop (Suc i) vs = vs" "length (take i vs) = i" using assms(6) by (simp_all add: Cons_nth_drop_Suc)
  have ok: "elems_ok l (j_addr b) (take i vs @ vs ! i # drop (Suc i) vs) ms" "\<forall>v\<in>set (take i vs @ vs ! i # drop (Suc i) vs). is_Tok v"
    using assms(4,5) by (simp_all only: vs(1))
  obtain ms' s1 s2 where "sjson_delete_json_subtree (j_addr (ms ! length (take i vs))) s = Ret (0, s1)" "sjson_purge_json (j_addr b) s1 = Ret (1, s2)"
    "holds F (cells 0 (b # ms') @ C) (js_heap s2)" "elems_ok l (j_addr b) (take i vs @ drop (Suc i) vs) ms'"
    by (rule delete_purge_word [OF assms(1-3) ok])
  then show ?thesis unfolding vs(2) by blast
qed

theorem delete_purge_element_witness:
  "\<exists>ms' s1 s2. sjson_delete_json_subtree 3 (store_of demo_arr) = Ret (0, s1) \<and> sjson_purge_json 1 s1 = Ret (1, s2)
    \<and> holds Map.empty (cells 0 (hd demo_arr # ms') @ []) (js_heap s2) \<and> elems_ok 0 1 [Tok ''b''] ms'"
  using delete_purge_element [of Map.empty "hd demo_arr" "tl demo_arr" "[]" "store_of demo_arr" 0 0 "[Tok ''a'', Tok ''b'']" 0]
    demo_arr_holds by (simp add: demo_arr_def inner_ok_def)

text \<open>C34. \<open>sjson_precalc_setmember\<close> notes at the inner node of every non-empty array how many elements follow, and
  changes nothing else. The number has six bits: \<open>__sjson_get_setcount\<close> reads it modulo 64, so an array of
  64 elements counts as empty.\<close>

theorem precalc_counts_members:
  assumes "holds F (cells 0 ns @ C) (js_heap s)" "tb_root tbl = headx 0 ns # rs"
  shows "(\<exists>s'. sjson_precalc_setmember tbl s = Ret (0, s') \<and> holds F (cells 0 (counted ns) @ C) (js_heap s'))
    \<and> (\<forall>n k e. j_type n = SET \<longrightarrow> j_val n = [] \<longrightarrow> 0 < k \<longrightarrow> sjson_get_setcount (node_obj e (count_flag k n)) = int k mod 64
         \<and> j_flag (count_flag k n) AND 3 = j_flag n AND 3)"
proof -
  from precalc_rec_law [OF assms(1)] obtain s' where "precalc_setindex_rec (headx 0 ns) s = Some (Ret s')" "holds F (cells 0 (counted ns) @ C) (js_heap s')"
    by blast
  then have "\<exists>s'. sjson_precalc_setmember tbl s = Ret (0, s') \<and> holds F (cells 0 (counted ns) @ C) (js_heap s')"
    by (simp add: sjson_precalc_setmember_def assms(2) cell_get_def)
  then show ?thesis using setcount_mod by simp
qed

theorem precalc_counts_members_witness:
  "(\<exists>s'. sjson_precalc_setmember (sjson_table_init\<lparr>tb_root := [1]\<rparr>) (store_of demo_arr) = Ret (0, s') \<and> holds Map.empty (cells 0 (counted demo_arr) @ []) (js_heap s'))
    \<and> sjson_get_setcount (node_obj 3 (count_flag 64 (hd demo_arr))) = 0"
  using precalc_counts_members [OF demo_arr_holds, of "sjson_table_init\<lparr>tb_root := [1]\<rparr>" "[]"]
  by (simp add: demo_arr_def)

section \<open>Limits\<close>

text \<open>\<open>sjson_print_xml\<close> with a buffer smaller than the XML declaration writes behind it: the room left
  is negative and becomes a huge size.\<close>

theorem print_xml_overruns:
  assumes "0 < length buf" "length buf < length xml_decl"
  shows "sjson_print_xml tbl (Some buf) (int (length buf)) s G = Fault OutOfBounds"
proof -
  let ?t = "take (nat (int (length buf) - 1)) xml_decl @ [NUL]"
  have "length ?t = length buf" using assms by (simp add: nat_diff_distrib Suc_le_eq)
  then have "snprintf_at 0 (int (length buf)) xml_decl buf = Ret ?t" using assms(1) by (simp add: snprintf_at_def Let_def)
  moreover have "snprintf_at (int (length xml_decl)) (int (length buf) - int (length xml_decl)) (''<root>'' @ [NLC]) ?t = Fault OutOfBounds"
    using assms by (simp add: snprintf_at_def Let_def)
  ultimately show ?thesis using assms(1) by (simp add: sjson_print_xml_def Let_def)
qed

theorem print_xml_overruns_witness:
  "\<forall>s. sjson_print_xml sjson_table_init (Some ''0123456789'') 10 s \<lparr>json_xml_setelm = 0, json_xml_setlvl = 0, mlvl = 0\<rparr> = Fault OutOfBounds"
  using print_xml_overruns [of "''0123456789''" sjson_table_init _ "\<lparr>json_xml_setelm = 0, json_xml_setlvl = 0, mlvl = 0\<rparr>"]
  by (simp add: xml_decl_def)

lemma str_block_cell:
  assumes "json_env_ok cap E" "holds F cs (js_heap s)" "finite (dom F)" "card (dom F) + length cs < cap" "length x < 2 ^ 32"
  obtains p s' where "str_block E (length x + 1) x s = Ret (p, s')" "p \<noteq> 0" "holds F ((p, StrObj x) # cs) (js_heap s')"
proof -
  let ?z = "aligned_size (of_nat (length x + 1))"
  have "holds F cs (js_heap (os_meminit s))" using assms(2) by simp
  then obtain p s1 where p: "mem_alloc E ?z (os_meminit s) = Ret (p, s1)" "p \<noteq> 0" "holds F ((p, RawObj ?z) # cs) (js_heap s1)"
    by (rule mem_alloc_cell [OF assms(1) _ assms(3,4)])
  have "str_block E (length x + 1) x s = Ret (p, jput p (StrObj x) s1)"
    using p(1,2) aligned_room [OF assms(5)] by (simp add: str_block_def jos_malloc_def not_le [symmetric] del: of_nat_add of_nat_Suc) 
  then show thesis using p(2) holds_put [OF p(3), of "StrObj x"] by (rule_tac that) auto
qed

text \<open>C35. \<open>sjson_add_json\<close> dereferences a NULL pointer for every path without a dot that is not the
  element of an array, in whatever trees: \<open>__sjson_find_subroot\<close> writes through the result of \<open>strrchr\<close>
  before it looks at it.\<close>

theorem add_json_needs_a_dot:
  assumes "json_env_ok cap E" "finite (dom (js_heap s))" "card (dom (js_heap s)) + 1 < cap" "n \<noteq> 0" "a \<noteq> 0"
    "spath \<noteq> []" "CHR ''.'' \<notin> set spath" "last spath \<noteq> CHR '']''" "length spath < 2 ^ 32"
  shows "sjson_add_json E n a spath s = Fault NullDeref"
proof -
  have h0: "holds (js_heap s) [] (js_heap s)" "card (dom (js_heap s)) + length ([] :: jcells) < cap" using assms(3) by simp_all
  obtain bp s1 where b: "jos_strdup E spath s = Ret (bp, s1)" "bp \<noteq> 0" "holds (js_heap s) [(bp, StrObj spath)] (js_heap s1)"
    by (rule jos_strdup_cell [OF assms(1) h0(1) assms(2) h0(2)])
  let ?s2 = "jput bp (StrObj spath) s1"
  have h2: "holds (js_heap s) [(bp, StrObj spath)] (js_heap ?s2)" using holds_put [OF b(3), of "StrObj spath"] by simp
  obtain s3 where f: "jos_free bp ?s2 = Ret s3" "holds (js_heap s) [] (js_heap s3)"
    using holds_del [OF h2] b(2) by (auto simp: jos_free_def)
  obtain p s4 where p: "str_block E (length spath + 1) spath s3 = Ret (p, s4)" "p \<noteq> 0" "holds (js_heap s) [(p, StrObj spath)] (js_heap s4)"
    by (rule str_block_cell [OF assms(1) f(2) assms(2) h0(2) assms(9)])
  have "cut_last (CHR ''.'') spath = None" using assms(7) by (simp add: cut_last_def)
  then have r: "subroot_round E n Indexed p (0, s4, True) = Fault NullDeref"
    using load_str_cell [OF p(3), of p spath] by (simp add: subroot_round_def)
  have "sjson_find_subroot E n spath Indexed (- 1) s3 = Fault NullDeref"
    using p r by (simp add: sjson_find_subroot_def while_o_step)
  moreover have "load_str bp s1 = Ret spath" by (rule load_str_cell [OF b(3)]) simp
  ultimately show ?thesis using assms b f(1) by (simp add: sjson_add_json_def make_set_block_path_def Let_def)
qed

theorem add_json_needs_a_dot_witness:
  "sjson_add_json demo_json_env 1 5 ''name'' (store_of demo_obj) = Fault NullDeref"
  by (rule add_json_needs_a_dot [OF demo_json_env_ok]) (simp_all add: demo_obj_def dom_map_of_conv_image_fst)

end
