(* ===== verification/Json_Main.thy ===== *)
theory Json_Main
  imports Json_Merge Json_Xml
begin

text \<open>
  The command line tool of the JSON library (src/json_main.c): sixteen tables of trees, and commands that
  load, print, search, delete, purge and merge them. What the tool calls outside the library is the
  argument \<open>main_env\<close>: sizes and contents of files, whether a file can be opened or a block be had, and
  the output of the memory space. Standard output is a string of the state, the error stream is left out.
\<close>

section \<open>Tables\<close>

definition MAXTREE :: nat where "MAXTREE = 16"

record jtbl_info_t =
  ji_used :: bool
  ji_tbl :: sjson_table_t

record shell =
  sh_info :: "jtbl_info_t list"
  sh_js :: json_state
  sh_vars :: print_vars
  sh_json_dbg :: int
  sh_mem_dbg :: int
  sh_out :: string
  sh_files :: "(string \<times> string) list"

record main_env =
  me_lstat :: "string \<Rightarrow> nat option"
  me_open :: "string \<Rightarrow> bool"
  me_read :: "string \<Rightarrow> nat \<Rightarrow> nat \<Rightarrow> string option"
  me_create :: "string \<Rightarrow> bool"
  me_malloc :: "nat \<Rightarrow> bool"
  me_memspc :: "json_state \<Rightarrow> int"
  me_memblks :: "json_state \<Rightarrow> string"
  me_script :: "string \<Rightarrow> string option"

definition emit :: "string \<Rightarrow> shell \<Rightarrow> shell" where
  "emit t st = st\<lparr>sh_out := sh_out st @ t\<rparr>"

definition set_js :: "json_state \<Rightarrow> shell \<Rightarrow> shell" where
  "set_js s st = st\<lparr>sh_js := s\<rparr>"

definition jtbl_find_avail :: "shell \<Rightarrow> int" where
  "jtbl_find_avail st = (case find (\<lambda>i. \<not> ji_used (sh_info st ! i)) [0..<MAXTREE] of None \<Rightarrow> - 1 | Some i \<Rightarrow> int i)"

definition put_table :: "nat \<Rightarrow> jtbl_info_t \<Rightarrow> shell \<Rightarrow> shell" where
  "put_table i t st = st\<lparr>sh_info := (sh_info st)[i := t]\<rparr>"

definition jtbl_alloc :: "nat \<Rightarrow> shell \<Rightarrow> shell option" where
  "jtbl_alloc i st = (if ji_used (sh_info st ! i) then None else Some (put_table i ((sh_info st ! i)\<lparr>ji_used := True\<rparr>) st))"

definition jtbl_free :: "nat \<Rightarrow> shell \<Rightarrow> int \<times> shell" where
  "jtbl_free i st = (if \<not> ji_used (sh_info st ! i) then (- 1, st) else (0, put_table i ((sh_info st ! i)\<lparr>ji_used := False\<rparr>) st))"

section \<open>Command lines\<close>

definition INPUTLEN :: nat where "INPUTLEN = 1024"
definition MAXARGS :: nat where "MAXARGS = 16"

text \<open>
  \<open>parse_cmd\<close> puts a NUL behind every word, so that an argument is the word it points to. The words so far
  are counted by \<open>nth\<close>; the sixteenth one, and blanks at the end of the line, make it fail.
\<close>

function parse_words :: "nat \<Rightarrow> string \<Rightarrow> int \<times> string list" where
  "parse_words k cs =
     (if cs = [] then (if k = 0 then - 1 else 0, [])
      else let ds = dropWhile (\<lambda>c. c = CHR '' '') cs in
      if ds = [] then (- 1, [])
      else let w = takeWhile (\<lambda>c. c \<noteq> CHR '' '' \<and> c \<noteq> NLC) ds in
      if MAXARGS \<le> Suc k then (- 1, [w])
      else let (r, ws) = parse_words (Suc k) (drop (Suc (length w)) ds) in (r, w # ws))"
  by pat_completeness auto
termination
proof (relation "measure (\<lambda>(k, cs). length cs)", goal_cases)
  case (2 k cs ds w)
  have "length ds \<le> length cs" "0 < length cs" by (simp_all add: 2 length_dropWhile_le)
  then have "length ds - Suc (length w) < length cs" by linarith
  then show ?case by simp
qed simp

declare parse_words.simps [simp del]

definition parse_cmd :: "string \<Rightarrow> int \<times> string list" where
  "parse_cmd cmds = parse_words 0 cmds"

definition lower :: "char \<Rightarrow> char" where
  "lower c = (if (65 :: nat) \<le> of_char c \<and> of_char c \<le> (90 :: nat) then char_of (of_char c + 32 :: nat) else c)"

definition same_word :: "string \<Rightarrow> string \<Rightarrow> bool" where
  "same_word a b \<longleftrightarrow> map lower a = map lower b"

text \<open>\<open>strtol(t, &eptr, 10)\<close> stored in an \<open>int\<close>, and whether there were digits.\<close>

definition is_blank :: "char \<Rightarrow> bool" where
  "is_blank c \<longleftrightarrow> c \<in> {CHR '' '', CHR 0x09, CHR 0x0A, CHR 0x0B, CHR 0x0C, CHR 0x0D}"

definition strtol_int :: "string \<Rightarrow> int \<times> bool" where
  "strtol_int t =
     (let u = dropWhile is_blank t; neg = (u \<noteq> [] \<and> hd u = CHR ''-'');
          d = takeWhile is_digit (if u \<noteq> [] \<and> (hd u = CHR ''-'' \<or> hd u = CHR ''+'') then tl u else u);
          v = foldl (\<lambda>n c. 10 * n + int (of_char c) - 48) 0 d;
          l = max (- (2 ^ 63)) (min (2 ^ 63 - 1) (if neg then - v else v)) in
      (sint (word_of_int l :: 32 word), d \<noteq> []))"

definition index_arg :: "string \<Rightarrow> nat option" where
  "index_arg t = (case strtol_int t of (i, ok) \<Rightarrow> if 0 \<le> i \<and> i < int MAXTREE \<and> ok then Some (nat i) else None)"

definition used_index :: "string \<Rightarrow> shell \<Rightarrow> nat option" where
  "used_index t st = (case index_arg t of None \<Rightarrow> None | Some i \<Rightarrow> if ji_used (sh_info st ! i) then Some i else None)"

definition cstr :: "string \<Rightarrow> string" where
  "cstr buf = takeWhile (\<lambda>c. c \<noteq> NUL) buf"

section \<open>Commands\<close>

definition DSIZE :: nat where "DSIZE = 8192"

definition xbuff :: string where
  "xbuff = replicate DSIZE NUL"

definition cmd_help :: "shell \<Rightarrow> shell" where
  "cmd_help st = emit (concat (map (\<lambda>l. CHR 0x09 # l @ [NLC])
     [''LOAD   <json file name >'', ''PRINT  <INDEX>  [XML/FILE] [FILE NAME] '', ''PATH   <INDEX>  '', ''FIND   <INDEX>  <PATH>  [PARTIAL] '',
      ''DELETE <INDEX>  [PATH]  '', ''ADD    <INDEX>  <INDEX> '', ''TREE   <INDEX>  [AMOUNT]'', ''RUN    <file> '', ''DBG    '', ''MDBG   '', ''STATUS ''])) st"

text \<open>
  The loop that reads the file into the block; \<open>None\<close> after an error. A file that has become shorter than
  its size makes it loop for ever.
\<close>

definition load_file :: "main_env \<Rightarrow> string \<Rightarrow> nat \<Rightarrow> nat \<Rightarrow> (string option) outcome" where
  "load_file M fn fsize room =
     obind (while_o (\<lambda>(data, fail, more). more)
       (\<lambda>(data, fail, more).
          case me_read M fn (length data) (fsize - length data) of None \<Rightarrow> Ret (data, True, False)
          | Some x \<Rightarrow>
            let data = data @ take (fsize - length data) x in
            if room < length data then Fault OutOfBounds else Ret (data, False, length data < fsize)) ([], False, True)) (\<lambda>(data, fail, more).
     Ret (if fail then None else Some data))"

definition load_parse :: "json_env \<Rightarrow> string \<Rightarrow> addr \<Rightarrow> shell \<Rightarrow> shell outcome" where
  "load_parse E mem space st =
     (let index = jtbl_find_avail st in
      if index = - 1 then Ret st
      else case jtbl_alloc (nat index) st of None \<Rightarrow> Fault NullDeref
      | Some st \<Rightarrow>
        obind (sjson_parse E mem (sh_js st)) (\<lambda>(res, tbl, s).
        obind (jos_free space s) (\<lambda>s.
        Ret (emit (if res \<noteq> 0 then ''Failed'' @ [NLC] else ''Succeeded '' @ fmt_ld index @ [NLC])
               (set_js s (put_table (nat index) ((sh_info st ! nat index)\<lparr>ji_tbl := tbl\<rparr>) st))))))"

definition cmd_load :: "json_env \<Rightarrow> main_env \<Rightarrow> string list \<Rightarrow> shell \<Rightarrow> shell outcome" where
  "cmd_load E M argv st =
     (if length argv < 2 then Ret st
      else case me_lstat M (argv ! 1) of None \<Rightarrow> Ret st
      | Some sz \<Rightarrow>
        let fsize = sz mod 2 ^ 32; bsize = (fsize + 4) mod 2 ^ 32 in
        obind (jos_malloc E (of_nat bsize) (sh_js st)) (\<lambda>(space, s).
        if space = 0 then Ret (set_js s st)
        else if \<not> me_open M (argv ! 1) then obind (jos_free space s) (\<lambda>s. Ret (set_js s st))
        else obind (load_file M (argv ! 1) fsize (unat (aligned_size (of_nat bsize)))) (\<lambda>d.
             case d of None \<Rightarrow> obind (jos_free space s) (\<lambda>s. Ret (set_js s st))
             | Some data \<Rightarrow> load_parse E (cstr data) space (set_js s st))))"

definition cmd_find :: "json_env \<Rightarrow> string list \<Rightarrow> shell \<Rightarrow> shell outcome" where
  "cmd_find E argv st =
     (if length argv < 3 then Ret st
      else case used_index (argv ! 1) st of None \<Rightarrow> Ret st
      | Some i \<Rightarrow>
        let mode = (if 4 \<le> length argv \<and> same_word (argv ! 3) ''PARTIAL'' then 1 else 0) in
        obind (cell_get (tb_root (ji_tbl (sh_info st ! i))) 0) (\<lambda>r.
        obind (sjson_find_json E r (Some (argv ! 2)) mode (sh_js st)) (\<lambda>(ntree, s).
        let st = set_js s st; nindex = jtbl_find_avail st in
        if ntree = 0 \<or> nindex = - 1 then Ret st
        else case jtbl_alloc (nat nindex) st of None \<Rightarrow> Fault NullDeref
        | Some st \<Rightarrow> Ret (emit (''Succeeded '' @ fmt_ld nindex @ [NLC])
            (put_table (nat nindex) ((sh_info st ! nat nindex)\<lparr>ji_tbl := sjson_table_init\<lparr>tb_root := (tb_root sjson_table_init)[0 := ntree]\<rparr>\<rparr>) st)))))"

text \<open>A file is written from the buffer, with the length the printer has returned.\<close>

definition write_out :: "main_env \<Rightarrow> string \<Rightarrow> string \<Rightarrow> int \<Rightarrow> shell \<Rightarrow> shell outcome" where
  "write_out M fn buf len st =
     (if \<not> me_create M fn then Ret st
      else if int (length buf) < len then Fault OutOfBounds
      else Ret (st\<lparr>sh_files := sh_files st @ [(fn, take (nat len) buf)]\<rparr>))"

definition done_line :: "int \<Rightarrow> nat \<Rightarrow> shell \<Rightarrow> shell" where
  "done_line res i st = emit (if res = 0 then ''Failed'' @ [NLC] else ''Succeeded '' @ fmt_ld (int i) @ [NLC]) st"

definition print_text :: "string list \<Rightarrow> nat \<Rightarrow> shell \<Rightarrow> ((string \<times> int) \<times> shell) outcome" where
  "print_text argv i st =
     (let tbl = ji_tbl (sh_info st ! i) in
      if 3 \<le> length argv \<and> same_word (argv ! 2) ''XML''
      then obind (sjson_print_xml tbl (Some xbuff) (int DSIZE) (sh_js st) (sh_vars st)) (\<lambda>(b, res, G).
           Ret ((the b, res), st\<lparr>sh_vars := G\<rparr>))
      else obind (sjson_print_json tbl (Some xbuff) (int DSIZE) (sh_js st)) (\<lambda>(b, res). Ret ((the b, res), st)))"

definition cmd_print :: "main_env \<Rightarrow> string list \<Rightarrow> shell \<Rightarrow> shell outcome" where
  "cmd_print M argv st =
     (if length argv < 2 then Ret st
      else case used_index (argv ! 1) st of None \<Rightarrow> Ret st
      | Some i \<Rightarrow>
        obind (print_text argv i st) (\<lambda>((buf, res), st).
        obind (if 4 \<le> length argv then write_out M (argv ! 3) buf res st else Ret (emit (NLC # cstr buf @ [NLC]) st)) (\<lambda>st.
        Ret (done_line res i st))))"

definition path_line :: "sjson_pl_t \<Rightarrow> string \<Rightarrow> string" where
  "path_line x t = (if pl_flag x AND F_DEL = F_DEL then '' D'' else ''  '') @ (if pl_flag x AND F_PRIO = F_PRIO then '' T'' else ''  '')
     @ '' '' @ pad 40 t @ [NLC]"

definition cmd_path :: "json_env \<Rightarrow> string list \<Rightarrow> shell \<Rightarrow> shell outcome" where
  "cmd_path E argv st =
     (if length argv < 2 then Ret st
      else case used_index (argv ! 1) st of None \<Rightarrow> Ret st
      | Some i \<Rightarrow>
        obind (sjson_path E (ji_tbl (sh_info st ! i)) (sh_js st)) (\<lambda>(p, s).
        obind (while_o (\<lambda>(l, out). l \<noteq> 0)
          (\<lambda>(l, out). obind (load_path l s) (\<lambda>x. obind (load_str (pl_path x) s) (\<lambda>t.
             obind (sjson_path_next l False s) (\<lambda>l. Ret (l, out @ path_line x t))))) (p, [])) (\<lambda>(_, out).
        obind (sjson_path_delete p s) (\<lambda>s. Ret (done_line 1 i (emit out (set_js s st)))))))"

text \<open>With an index the paths of the other table are deleted; the result is not set when it has none.\<close>

definition delete_paths :: "json_env \<Rightarrow> addr \<Rightarrow> addr \<Rightarrow> int \<Rightarrow> json_state \<Rightarrow> json_state outcome" where
  "delete_paths E proot r mode s =
     obind (while_o (\<lambda>(p, s). p \<noteq> 0)
       (\<lambda>(p, s). obind (load_path p s) (\<lambda>x.
          obind (if pl_flag x AND F_PRIO = F_PRIO
                 then obind (load_str (pl_path x) s) (\<lambda>t. obind (sjson_delete_json E r (Some t) mode s) (\<lambda>(_, s). Ret s)) else Ret s) (\<lambda>s.
          obind (sjson_path_next p True s) (\<lambda>p. Ret (p, s))))) (proot, s)) (\<lambda>(p, s).
     sjson_path_delete proot s)"

definition cmd_delete :: "json_env \<Rightarrow> string list \<Rightarrow> shell \<Rightarrow> shell outcome" where
  "cmd_delete E argv st =
     (if length argv < 2 then Ret st
      else case used_index (argv ! 1) st of None \<Rightarrow> Ret st
      | Some i \<Rightarrow>
        let tbl = ji_tbl (sh_info st ! i) in
        obind (if 3 \<le> length argv
               then let mode = (if 4 \<le> length argv \<and> same_word (argv ! 3) ''LOOSE'' then 1 else 0) in
                    obind (cell_get (tb_root tbl) 0) (\<lambda>r.
                    case index_arg (argv ! 2) of
                      None \<Rightarrow> obind (sjson_delete_json E r (Some (argv ! 2)) mode (sh_js st)) (\<lambda>(n, s). Ret (if n \<noteq> 0 then 0 else 1, set_js s st))
                    | Some x \<Rightarrow>
                      obind (sjson_path E (ji_tbl (sh_info st ! x)) (sh_js st)) (\<lambda>(proot, s).
                      if proot = 0 then Fault Uninit_Read
                      else obind (delete_paths E proot r mode s) (\<lambda>s. Ret (0, set_js s st))))
               else obind (sjson_free (Some tbl) (sh_js st)) (\<lambda>((_, t), s).
                    Ret (jtbl_free i (put_table i ((sh_info st ! i)\<lparr>ji_tbl := the t\<rparr>) (set_js s st))))) (\<lambda>(res, st).
        Ret (emit (if res \<noteq> 0 then ''Failed'' @ [NLC] else ''Succeeded '' @ fmt_ld (int i) @ [NLC]) st)))"

text \<open>At most six rounds, until one removes nothing.\<close>

fun purge_rounds :: "nat \<Rightarrow> addr \<Rightarrow> int \<Rightarrow> json_state \<Rightarrow> (int \<times> json_state) outcome" where
  "purge_rounds 0 r tcnt s = Ret (tcnt, s)"
| "purge_rounds (Suc k) r tcnt s =
     obind (sjson_purge_json r s) (\<lambda>(count, s). if count = 0 then Ret (tcnt, s) else purge_rounds k r (tcnt + count) s)"

definition cmd_purge :: "string list \<Rightarrow> shell \<Rightarrow> shell outcome" where
  "cmd_purge argv st =
     (if length argv < 2 then Ret st
      else case used_index (argv ! 1) st of None \<Rightarrow> Ret st
      | Some i \<Rightarrow>
        obind (cell_get (tb_root (ji_tbl (sh_info st ! i))) 0) (\<lambda>r.
        obind (purge_rounds 6 r 0 (sh_js st)) (\<lambda>(tcnt, s).
        Ret (emit (fmt_ld tcnt @ '' blocks purged'' @ [NLC] @ '' '' @ fmt_ld (int i) @ [NLC]) (set_js s st)))))"

text \<open>
  The merge: for every path of the second tree that ends in a word the subtree of the path is cut out,
  added and released. The check of the second index compares with the first argument, so that an argument
  without digits is taken as 0.
\<close>

definition add_path :: "json_env \<Rightarrow> addr \<Rightarrow> addr \<Rightarrow> string \<Rightarrow> json_state \<Rightarrow> ((addr option) \<times> json_state) outcome" where
  "add_path E n a path s =
     obind (sjson_find_json E a (Some path) 0 s) (\<lambda>(tree, s).
     if tree = 0 then Ret (None, s)
     else obind (sjson_add_json E n tree path s) (\<lambda>(n, s).
          obind (sjson_free (Some (sjson_table_init\<lparr>tb_root := (tb_root sjson_table_init)[0 := tree]\<rparr>)) s) (\<lambda>(_, s). Ret (Some n, s))))"

definition add_paths :: "json_env \<Rightarrow> addr \<Rightarrow> addr \<Rightarrow> addr \<Rightarrow> json_state \<Rightarrow> (string \<times> json_state) outcome" where
  "add_paths E proot n a s =
     obind (while_o (\<lambda>(p, n, out, s). p \<noteq> 0)
       (\<lambda>(p, n, out, s). obind (load_path p s) (\<lambda>x.
          if pl_flag x AND F_PRIO = F_PRIO
          then obind (load_str (pl_path x) s) (\<lambda>t.
               obind (add_path E n a t s) (\<lambda>(r, s).
               case r of None \<Rightarrow> Ret (0, n, out @ ''ERR:'' @ t @ '' cannot build up tree'' @ [NLC], s)
               | Some n \<Rightarrow> obind (sjson_path_next p True s) (\<lambda>p. Ret (p, n, out, s))))
          else obind (sjson_path_next p True s) (\<lambda>p. Ret (p, n, out, s)))) (proot, n, [], s)) (\<lambda>(p, n, out, s).
     obind (sjson_path_delete proot s) (\<lambda>s. Ret (out, s)))"

definition cmd_add :: "json_env \<Rightarrow> string list \<Rightarrow> shell \<Rightarrow> shell outcome" where
  "cmd_add E argv st =
     (if length argv < 3 then Ret st
      else case used_index (argv ! 1) st of None \<Rightarrow> Ret st
      | Some oi \<Rightarrow>
        let k = fst (strtol_int (argv ! 2)) in
        if \<not> (0 \<le> k \<and> k < int MAXTREE) \<or> \<not> ji_used (sh_info st ! nat k) then Ret st
        else let otbl = ji_tbl (sh_info st ! oi); atbl = ji_tbl (sh_info st ! nat k) in
        obind (cell_get (tb_root otbl) 0) (\<lambda>n.
        obind (cell_get (tb_root atbl) 0) (\<lambda>a.
        if n = 0 \<or> a = 0 then Ret st
        else obind (sjson_precalc_setmember otbl (sh_js st)) (\<lambda>(_, s).
        obind (sjson_path E atbl s) (\<lambda>(proot, s).
        if proot = 0 then Ret (set_js s st)
        else obind (add_paths E proot n a s) (\<lambda>(out, s).
             Ret (emit (out @ ''Succeeded '' @ fmt_ld (int oi) @ '' <- '' @ fmt_ld k @ [NLC]) (set_js s st))))))))"

definition cmd_status :: "main_env \<Rightarrow> string list \<Rightarrow> shell \<Rightarrow> shell" where
  "cmd_status M argv st =
     (let st = emit (''[ '' @ concat (map (\<lambda>i. fmt_ld (int i) @ '' '') (filter (\<lambda>i. ji_used (sh_info st ! i)) [0..<MAXTREE]))
                 @ '']  '' @ fmt_ld (me_memspc M (sh_js st)) @ '' bytes'' @ [NLC]) st in
      if 2 \<le> length argv \<and> strtol_int (argv ! 1) = (1, True) then emit (me_memblks M (sh_js st)) st else st)"

text \<open>With a file name, the uninitialised buffer of the function is written instead of the listing.\<close>

definition cmd_tree :: "main_env \<Rightarrow> string list \<Rightarrow> shell \<Rightarrow> shell outcome" where
  "cmd_tree M argv st =
     (if length argv < 2 then Ret st
      else case used_index (argv ! 1) st of None \<Rightarrow> Ret st
      | Some i \<Rightarrow>
        let (a, ok) = (if 3 \<le> length argv then strtol_int (argv ! 2) else (1, True)) in
        if \<not> (1 \<le> a \<and> a \<le> 64 \<and> ok) then Ret st
        else let tsize = nat a * 65536 in
        if \<not> me_malloc M tsize then Ret st
        else obind (sjson_print_tree (Some (ji_tbl (sh_info st ! i))) (Some (replicate tsize NUL)) (int tsize - 32) (sh_js st) (sh_vars st)) (\<lambda>(b, res, G).
        let st = st\<lparr>sh_vars := G\<rparr> in
        if res < 0 then Ret (emit (''not enough buffer '' @ [NLC]) st)
        else if res = 0 then Ret st
        else if 4 \<le> length argv then if me_create M (argv ! 3) then Fault Uninit_Read else Ret st
        else Ret (emit (cstr (the b) @ [NLC]) st)))"

definition toggle :: "int \<Rightarrow> int" where
  "toggle d = (if d = 1 then 0 else 1)"

definition cmd_dbg :: "string list \<Rightarrow> shell \<Rightarrow> shell" where
  "cmd_dbg argv st =
     (let (k, ok) = (if length argv = 2 then strtol_int (argv ! 1) else (0, True)) in
      if \<not> (0 \<le> k \<and> k \<le> 2 \<and> ok) then st
      else let st = (if k = 0 then st\<lparr>sh_json_dbg := toggle (sh_json_dbg st)\<rparr>
                     else if k = 1 then st\<lparr>sh_mem_dbg := toggle (sh_mem_dbg st)\<rparr>
                     else st\<lparr>sh_json_dbg := toggle (sh_json_dbg st), sh_mem_dbg := toggle (sh_mem_dbg st)\<rparr>) in
           emit (fmt_ld (sh_json_dbg st) @ '' '' @ fmt_ld (sh_mem_dbg st) @ [NLC]) st)"

section \<open>The interpreter\<close>

text \<open>All commands but RUN. The result 0 goes on, -1 ends the tool.\<close>

definition process_one :: "json_env \<Rightarrow> main_env \<Rightarrow> string list \<Rightarrow> shell \<Rightarrow> (int \<times> shell) outcome" where
  "process_one E M argv st =
     (let c = argv ! 0; go = (\<lambda>m. obind m (\<lambda>st. Ret (0, st))) in
      if same_word c ''HELP'' then go (Ret (cmd_help st))
      else if same_word c ''LOAD'' then go (cmd_load E M argv st)
      else if same_word c ''FIND'' then go (cmd_find E argv st)
      else if same_word c ''PRINT'' then go (cmd_print M argv st)
      else if same_word c ''PATH'' then go (cmd_path E argv st)
      else if same_word c ''DELETE'' then go (cmd_delete E argv st)
      else if same_word c ''PURGE'' then go (cmd_purge argv st)
      else if same_word c ''ADD'' then go (cmd_add E argv st)
      else if same_word c ''STATUS'' then go (Ret (cmd_status M argv st))
      else if same_word c ''TREE'' then go (cmd_tree M argv st)
      else if same_word c ''DBG'' then go (Ret (cmd_dbg argv st))
      else if same_word c ''QUIT'' \<or> same_word c ''EXIT'' then Ret (- 1, st)
      else Ret (0, st))"

text \<open>\<open>fgets\<close>: the next line of a text, newline included, or as much of it as fits; and the rest.\<close>

definition fgets :: "nat \<Rightarrow> string \<Rightarrow> string \<times> string" where
  "fgets len t =
     (let w = takeWhile (\<lambda>c. c \<noteq> NLC) t; k = min (len - 1) (if length w < length t then Suc (length w) else length w) in
      (take k t, drop k t))"

lemma fgets_shorter: "(l, rest) = fgets len t \<Longrightarrow> t \<noteq> [] \<Longrightarrow> 2 \<le> len \<Longrightarrow> length rest < length t"
  by (cases t) (auto simp: fgets_def Let_def)

text \<open>
  The lines of a script. A line that starts with a NUL has no last character to cut off; another RUN ends
  the script.
\<close>

function run_script :: "json_env \<Rightarrow> main_env \<Rightarrow> string \<Rightarrow> shell \<Rightarrow> shell outcome" where
  "run_script E M t st =
     (if t = [] then Ret st
      else let (l, rest) = fgets INPUTLEN t; cmd = cstr l in
      if cmd = [] then Fault OutOfBounds
      else case parse_cmd cmd of (r, args) \<Rightarrow>
      if r \<noteq> 0 \<or> hd cmd = CHR ''#'' then run_script E M rest st
      else if same_word (args ! 0) ''RUN'' then Ret st
      else case process_one E M args (emit ([NLC] @ ''CMD: <'' @ butlast cmd @ ''>'' @ [NLC]) st) of
        Fault f \<Rightarrow> Fault f
      | Ret (done, st) \<Rightarrow> if done \<noteq> 0 then Ret st else run_script E M rest st)"
  by pat_completeness auto
termination
  by (relation "measure (\<lambda>(E, M, t, st). length t)") (auto simp: INPUTLEN_def dest: fgets_shorter)

declare run_script.simps [simp del]

definition process_commands :: "json_env \<Rightarrow> main_env \<Rightarrow> string list \<Rightarrow> shell \<Rightarrow> (int \<times> shell) outcome" where
  "process_commands E M argv st =
     (if same_word (argv ! 0) ''RUN''
      then if length argv < 2 then Ret (0, st)
           else case me_script M (argv ! 1) of None \<Rightarrow> Ret (0, st)
           | Some t \<Rightarrow> obind (run_script E M t st) (\<lambda>st. Ret (0, st))
      else process_one E M argv st)"

text \<open>The arguments of the program: the counter is stepped twice, so that every other one is left out.\<close>

fun main_args :: "json_env \<Rightarrow> main_env \<Rightarrow> string list \<Rightarrow> shell \<Rightarrow> shell outcome" where
  "main_args E M [] st = Ret st"
| "main_args E M [f] st = obind (process_commands E M [''run'', f] st) (\<lambda>(_, st). Ret st)"
| "main_args E M (f # g # fs) st = obind (process_commands E M [''run'', f] st) (\<lambda>(_, st). main_args E M fs st)"

text \<open>The prompt. At the end of the input \<open>fgets\<close> fails for ever.\<close>

function main_loop :: "json_env \<Rightarrow> main_env \<Rightarrow> string \<Rightarrow> shell \<Rightarrow> shell outcome" where
  "main_loop E M t st =
     (if t = [] then Fault Diverges
      else let (l, rest) = fgets (INPUTLEN - 1) t; st = emit ''[JSON] '' st in
      case parse_cmd (cstr l) of (r, args) \<Rightarrow>
      if r \<noteq> 0 then main_loop E M rest st
      else case process_commands E M args st of
        Fault f \<Rightarrow> Fault f
      | Ret (done, st) \<Rightarrow> if done \<noteq> 0 then Ret st else main_loop E M rest st)"
  by pat_completeness auto
termination
  by (relation "measure (\<lambda>(E, M, t, st). length t)") (auto simp: INPUTLEN_def dest: fgets_shorter)

declare main_loop.simps [simp del]

definition json_main :: "json_env \<Rightarrow> main_env \<Rightarrow> string list \<Rightarrow> string \<Rightarrow> shell \<Rightarrow> shell outcome" where
  "json_main E M argv input st =
     (let st = st\<lparr>sh_js := os_meminit (sh_js st), sh_info := map (\<lambda>x. x\<lparr>ji_used := False\<rparr>) (sh_info st)\<rparr> in
      obind (main_args E M argv st) (main_loop E M input))"

end
