(* ===== verification/Json_Shell.thy ===== *)
theory Json_Shell
  imports Json_Main Json_Reprint
begin

text \<open>
  Sessions of the JSON tool: a specification of the tables as documents, and the proof that the commands
  LOAD, PRINT and DELETE implement it.
\<close>

section \<open>The specification\<close>

datatype jcmd = Load string | Print nat | Delete nat

definition done_text :: "nat \<Rightarrow> string" where
  "done_text i = ''Succeeded '' @ fmt_ld (int i) @ [NLC]"

text \<open>
  What a command does with the documents and what it prints; \<open>D\<close> are the documents of the files. PRINT
  shows at most 8191 characters of a text that has the tokens of the document.
\<close>

inductive spec_step :: "(string \<Rightarrow> json) \<Rightarrow> json option list \<Rightarrow> jcmd \<Rightarrow> json option list \<Rightarrow> string \<Rightarrow> bool" for D where
  Load: "i < MAXTREE \<Longrightarrow> docs ! i = None \<Longrightarrow> \<forall>j<i. docs ! j \<noteq> None \<Longrightarrow>
    spec_step D docs (Load fn) (docs[i := Some (D fn)]) (done_text i)"
| Load_Full: "\<forall>i<MAXTREE. docs ! i \<noteq> None \<Longrightarrow> spec_step D docs (Load fn) docs []"
| Print: "docs ! i = Some d \<Longrightarrow> jlex t = Some (evs d) \<Longrightarrow> spec_step D docs (Print i) docs (NLC # cstr (take (DSIZE - 1) t) @ NLC # done_text i)"
| Print_None: "docs ! i = None \<Longrightarrow> spec_step D docs (Print i) docs []"
| Delete: "docs ! i = Some d \<Longrightarrow> spec_step D docs (Delete i) (docs[i := None]) (done_text i)"
| Delete_None: "docs ! i = None \<Longrightarrow> spec_step D docs (Delete i) docs []"

inductive spec_run :: "(string \<Rightarrow> json) \<Rightarrow> json option list \<Rightarrow> jcmd list \<Rightarrow> json option list \<Rightarrow> string \<Rightarrow> bool" for D where
  Nil: "spec_run D docs [] docs []"
| Cons: "spec_step D docs c docs' x \<Longrightarrow> spec_run D docs' cs docs'' y \<Longrightarrow> spec_run D docs (c # cs) docs'' (''[JSON] '' @ x @ y)"

section \<open>The files\<close>

text \<open>A file is read in pieces of any size; its text has the tokens of its document.\<close>

definition file_ok :: "main_env \<Rightarrow> string \<Rightarrow> string \<Rightarrow> bool" where
  "file_ok M fn data \<longleftrightarrow> me_lstat M fn = Some (length data) \<and> me_open M fn \<and> data \<noteq> [] \<and> length data + 4 < 2 ^ 32
     \<and> (\<forall>k<length data. \<exists>j>0. me_read M fn k (length data - k) = Some (take j (drop k data)))"

definition file_doc :: "main_env \<Rightarrow> (string \<Rightarrow> json) \<Rightarrow> string \<Rightarrow> bool" where
  "file_doc M D fn \<longleftrightarrow> (\<exists>data. file_ok M fn data \<and> jlex (cstr data) = Some (evs (D fn)))
     \<and> \<not> is_Tok (D fn) \<and> depth (D fn) \<le> MAXL \<and> json_plain (D fn)"

lemma load_loop:
  assumes f: "file_ok M fn data" and r: "length data \<le> room"
  shows "k < length data \<Longrightarrow> while_o (\<lambda>(data, fail, more). more)
       (\<lambda>(dt, fail, more).
          case me_read M fn (length dt) (length data - length dt) of None \<Rightarrow> Ret (dt, True, False)
          | Some x \<Rightarrow>
            let dt = dt @ take (length data - length dt) x in
            if room < length dt then Fault OutOfBounds else Ret (dt, False, length dt < length data)) (take k data, False, True)
     = Ret (data, False, False)"
proof (induction "length data - k" arbitrary: k rule: less_induct)
  case less
  obtain j where j: "0 < j" "me_read M fn k (length data - k) = Some (take j (drop k data))"
    using f less.prems by (auto simp: file_ok_def)
  define k' where "k' = min (length data) (k + j)"
  have t: "take k data @ take (length data - k) (take j (drop k data)) = take k' data"
    using less.prems by (simp add: k'_def min_def take_add [symmetric] flip: take_take)
  have l: "length (take k data) = k" "length (take k' data) = k'" "k' \<le> length data" using less.prems by (simp_all add: k'_def)
  show ?case
  proof (cases "k' < length data")
    case True
    have "length data - k' < length data - k" using True less.prems j(1) by (simp add: k'_def)
    from less.hyps [OF this True] show ?thesis using j(2) t l r True by (simp add: while_o_step Let_def)
  next
    case False
    then have "k' = length data" using l(3) by simp
    then show ?thesis using j(2) t l r by (simp add: while_o_step Let_def)
  qed
qed

lemma load_file_ok:
  assumes "file_ok M fn data" "length data \<le> room"
  shows "load_file M fn (length data) room = Ret (Some data)"
  using load_loop [OF assms, of 0] assms(1) by (simp add: load_file_def file_ok_def)

section \<open>Indices\<close>

lemma small_index: "i < MAXTREE \<Longrightarrow> strtol_int (fmt_ld (int i)) = (int i, True)"
proof -
  have "\<forall>i\<in>set [0..<16]. strtol_int (fmt_ld (int i)) = (int i, True)" by code_simp
  then show "i < MAXTREE \<Longrightarrow> ?thesis" by (simp add: MAXTREE_def)
qed

lemma used_index_small: "i < MAXTREE \<Longrightarrow> used_index (fmt_ld (int i)) st = (if ji_used (sh_info st ! i) then Some i else None)"
  by (simp add: used_index_def index_arg_def small_index)

section \<open>The invariant\<close>

text \<open>
  A table in use holds the tree of its document; the store consists of the trees of all tables, of blocks
  that are lost, and of what was there before.
\<close>

fun slot_ok :: "json option \<Rightarrow> jtbl_info_t \<Rightarrow> jnode list \<Rightarrow> bool" where
  "slot_ok None t ns \<longleftrightarrow> \<not> ji_used t \<and> ns = []"
| "slot_ok (Some d) t ns \<longleftrightarrow> ji_used t \<and> tables [ns] (ji_tbl t) \<and> doc_tree d ns \<and> json_plain d"

abbreviation all_cells :: "jnode list list \<Rightarrow> jcells" where
  "all_cells ts \<equiv> concat (map (cells 0) ts)"

definition shell_ok :: "jheap \<Rightarrow> json option list \<Rightarrow> shell \<Rightarrow> bool" where
  "shell_ok F docs st \<longleftrightarrow> length docs = MAXTREE \<and> length (sh_info st) = MAXTREE \<and>
     (\<exists>ts K. length ts = MAXTREE \<and> (\<forall>i<MAXTREE. slot_ok (docs ! i) (sh_info st ! i) (ts ! i)) \<and> holds F (K @ all_cells ts) (js_heap (sh_js st)))"

lemma all_cells_update: "i < length ts \<Longrightarrow> mset (all_cells (ts[i := ns])) = mset (cells 0 ns) + mset (all_cells (ts[i := []]))"
proof (induction ts arbitrary: i)
  case (Cons t ts)
  then show ?case by (cases i) (simp_all add: ac_simps)
qed simp

lemma all_cells_split: "i < length ts \<Longrightarrow> mset (all_cells ts) = mset (cells 0 (ts ! i)) + mset (all_cells (ts[i := []]))"
  using all_cells_update [of i ts "ts ! i"] by simp

lemma slot_used: "slot_ok d t ns \<Longrightarrow> ji_used t \<longleftrightarrow> d \<noteq> None"
  by (cases d) simp_all

lemma shell_simps [simp]:
  "sh_info (emit x st) = sh_info st" "sh_js (emit x st) = sh_js st" "sh_out (emit x st) = sh_out st @ x"
  "sh_info (set_js s st) = sh_info st" "sh_js (set_js s st) = s" "sh_out (set_js s st) = sh_out st"
  "sh_info (put_table i t st) = (sh_info st)[i := t]" "sh_js (put_table i t st) = sh_js st" "sh_out (put_table i t st) = sh_out st"
  by (simp_all add: emit_def set_js_def put_table_def)

lemma find_avail:
  assumes "shell_ok F docs st"
  shows "i < MAXTREE \<Longrightarrow> docs ! i = None \<Longrightarrow> \<forall>j<i. docs ! j \<noteq> None \<Longrightarrow> jtbl_find_avail st = int i"
    and "\<forall>i<MAXTREE. docs ! i \<noteq> None \<Longrightarrow> jtbl_find_avail st = - 1"
proof -
  have u: "ji_used (sh_info st ! i) \<longleftrightarrow> docs ! i \<noteq> None" if "i < MAXTREE" for i
    using assms slot_used that by (auto simp: shell_ok_def)
  show "jtbl_find_avail st = int i" if "i < MAXTREE" "docs ! i = None" "\<forall>j<i. docs ! j \<noteq> None"
  proof -
    have "find (\<lambda>i. \<not> ji_used (sh_info st ! i)) [0..<MAXTREE] = Some i" using u that by (auto simp: find_Some_iff intro!: exI [of _ i])
    then show ?thesis by (simp add: jtbl_find_avail_def)
  qed
  show "jtbl_find_avail st = - 1" if "\<forall>i<MAXTREE. docs ! i \<noteq> None"
  proof -
    have "find (\<lambda>i. \<not> ji_used (sh_info st ! i)) [0..<MAXTREE] = None" using u that by (auto simp: find_None_iff)
    then show ?thesis by (simp add: jtbl_find_avail_def)
  qed
qed

lemma first_free: "(\<forall>i<k. docs ! i \<noteq> None) \<or> (\<exists>i<k. docs ! i = None \<and> (\<forall>j<i. docs ! j \<noteq> None))"
proof (cases "\<exists>i<k. docs ! i = None")
  case True
  then obtain i where i: "i < k" "docs ! i = None" by blast
  from exists_least_iff [of "\<lambda>i. docs ! i = None"] i(2) obtain m where m: "docs ! m = None" "\<forall>j<m. docs ! j \<noteq> None" by auto
  then have "m \<le> i" using i(2) by (meson not_le)
  with i(1) m show ?thesis by (intro disjI2 exI [of _ m]) auto
qed auto

lemma slots_update:
  assumes "\<forall>j<n. slot_ok (docs ! j) (info ! j) (ts ! j)" "slot_ok d t x" "length docs = n" "length info = n" "length ts = n"
  shows "\<forall>j<n. slot_ok (docs[i := d] ! j) (info[i := t] ! j) (ts[i := x] ! j)"
proof (intro allI impI)
  fix j assume "j < n"
  then show "slot_ok (docs[i := d] ! j) (info[i := t] ! j) (ts[i := x] ! j)" using assms by (cases "j = i") simp_all
qed

lemma cstr_cut: "cstr (x @ NUL # y) = cstr x"
  by (induction x) (simp_all add: cstr_def)

section \<open>The commands\<close>

lemma same_words [simp]:
  "same_word ''load'' ''LOAD''" "\<not> same_word ''load'' ''HELP''" "\<not> same_word ''load'' ''RUN''"
  "same_word ''print'' ''PRINT''" "\<not> same_word ''print'' ''HELP''" "\<not> same_word ''print'' ''RUN''" "\<not> same_word ''print'' ''LOAD''" "\<not> same_word ''print'' ''FIND''"
  "same_word ''delete'' ''DELETE''" "\<not> same_word ''delete'' ''HELP''" "\<not> same_word ''delete'' ''RUN''" "\<not> same_word ''delete'' ''LOAD''"
  "\<not> same_word ''delete'' ''FIND''" "\<not> same_word ''delete'' ''PRINT''" "\<not> same_word ''delete'' ''PATH''"
  by code_simp+

fun argv_of :: "jcmd \<Rightarrow> string list" where
  "argv_of (Load fn) = [''load'', fn]"
| "argv_of (Print i) = [''print'', fmt_ld (int i)]"
| "argv_of (Delete i) = [''delete'', fmt_ld (int i)]"

fun cost :: "(string \<Rightarrow> json) \<Rightarrow> jcmd \<Rightarrow> nat" where
  "cost D (Load fn) = 4 * length (evs (D fn)) + 1"
| "cost D (Print i) = 0"
| "cost D (Delete i) = 0"

definition steps_to :: "nat \<Rightarrow> jheap \<Rightarrow> (string \<Rightarrow> json) \<Rightarrow> json option list \<Rightarrow> jcmd \<Rightarrow> shell \<Rightarrow> (int \<times> shell) outcome \<Rightarrow> bool" where
  "steps_to c0 F D docs c st r \<longleftrightarrow> (\<exists>docs' x st'. r = Ret (0, st') \<and> spec_step D docs c docs' x \<and> sh_out st' = sh_out st @ x
     \<and> shell_ok F docs' st' \<and> card (dom (js_heap (sh_js st'))) \<le> c0)"

lemma print_step:
  assumes ok: "shell_ok F docs st" and i: "i < MAXTREE"
  shows "steps_to (card (dom (js_heap (sh_js st)))) F D docs (Print i) st (process_commands E M (argv_of (Print i)) st)"
proof -
  obtain ts K where t: "length ts = MAXTREE" "\<forall>i<MAXTREE. slot_ok (docs ! i) (sh_info st ! i) (ts ! i)"
    "holds F (K @ all_cells ts) (js_heap (sh_js st))" using ok by (auto simp: shell_ok_def)
  show ?thesis
  proof (cases "docs ! i")
    case None
    then have "process_commands E M (argv_of (Print i)) st = Ret (0, st)"
      using t(2) i by (auto simp: process_commands_def process_one_def cmd_print_def used_index_small)
    then show ?thesis using ok None spec_step.Print_None [of docs i D] unfolding steps_to_def by (metis append_Nil2 order_refl)
  next
    case (Some d)
    then have s: "ji_used (sh_info st ! i)" "tables [ts ! i] (ji_tbl (sh_info st ! i))" "doc_tree d (ts ! i)" "json_plain d" using t(2) i by auto
    have "holds F ((K @ all_cells (ts[i := []])) @ cells 0 (ts ! i)) (js_heap (sh_js st))"
      using t(3) all_cells_split [of i ts] i t(1) by (subst holds_perm) auto
    then obtain x where x: "jlex x = Some (evs d)" "\<And>buf room. 0 < room \<Longrightarrow> room \<le> int (length buf) \<Longrightarrow>
        sjson_print_json (ji_tbl (sh_info st ! i)) (Some buf) room (sh_js st) = Ret (Some (overlay buf 0 room x), int (length x))"
      by (rule sjson_print_document [OF _ s(2-4)]) blast
    have "\<not> is_Tok d" using s(3) by (cases d) (auto simp: doc_tree_def)
    then have ne: "x \<noteq> []" using x(1) by (cases d) auto
    have "overlay xbuff 0 (int DSIZE) x = take (DSIZE - 1) x @ NUL # drop (min (length x) (DSIZE - 1) + 1) xbuff"
      using ne by (simp add: overlay_def Let_def DSIZE_def nat_diff_distrib)
    then have "cstr (overlay xbuff 0 (int DSIZE) x) = cstr (take (DSIZE - 1) x)" by (simp only: cstr_cut)
    moreover have "sjson_print_json (ji_tbl (sh_info st ! i)) (Some xbuff) (int DSIZE) (sh_js st) = Ret (Some (overlay xbuff 0 (int DSIZE) x), int (length x))"
      by (rule x(2)) (simp_all add: xbuff_def DSIZE_def)
    ultimately have "process_commands E M (argv_of (Print i)) st = Ret (0, emit (done_text i) (emit (NLC # cstr (take (DSIZE - 1) x) @ [NLC]) st))"
      using s(1) ne by (simp add: process_commands_def process_one_def cmd_print_def used_index_small [OF i] print_text_def done_line_def done_text_def Let_def)
    moreover have "shell_ok F docs (emit (done_text i) (emit (NLC # cstr (take (DSIZE - 1) x) @ [NLC]) st))" using ok by (simp add: shell_ok_def)
    ultimately show ?thesis using spec_step.Print [of docs i d x D] Some x(1) unfolding steps_to_def by fastforce
  qed
qed

lemma delete_step:
  assumes ok: "shell_ok F docs st" and i: "i < MAXTREE" and fin: "finite (dom F)"
  shows "steps_to (card (dom (js_heap (sh_js st)))) F D docs (Delete i) st (process_commands E M (argv_of (Delete i)) st)"
proof -
  obtain ts K where t: "length ts = MAXTREE" "\<forall>i<MAXTREE. slot_ok (docs ! i) (sh_info st ! i) (ts ! i)"
    "holds F (K @ all_cells ts) (js_heap (sh_js st))" and len: "length docs = MAXTREE" "length (sh_info st) = MAXTREE"
    using ok by (auto simp: shell_ok_def)
  show ?thesis
  proof (cases "docs ! i")
    case None
    then have "process_commands E M (argv_of (Delete i)) st = Ret (0, st)"
      using t(2) i by (auto simp: process_commands_def process_one_def cmd_delete_def used_index_small)
    then show ?thesis using ok None spec_step.Delete_None [of docs i D] unfolding steps_to_def by (metis append_Nil2 order_refl)
  next
    case (Some d)
    then have s: "ji_used (sh_info st ! i)" "tables [ts ! i] (ji_tbl (sh_info st ! i))" using t(2) i by auto
    let ?tb = "ji_tbl (sh_info st ! i)"
    let ?tb' = "?tb\<lparr>tb_root := replicate MAXL 0, tb_last := replicate MAXL 0\<rparr>" and ?t = "sh_info st ! i"
    have "holds F ((K @ all_cells (ts[i := []])) @ cells 0 (ts ! i)) (js_heap (sh_js st))"
      using t(3) all_cells_split [of i ts] i t(1) by (subst holds_perm) auto
    then obtain s' where s': "sjson_free (Some ?tb) (sh_js st) = Ret ((0, Some ?tb'), s')" "holds F (K @ all_cells (ts[i := []])) (js_heap s')"
      by (rule sjson_free_document [OF s(2)])
    define st' where "st' = emit (done_text i) (put_table i (?t\<lparr>ji_tbl := ?tb', ji_used := False\<rparr>) (put_table i (?t\<lparr>ji_tbl := ?tb'\<rparr>) (set_js s' st)))"
    have "process_commands E M (argv_of (Delete i)) st = Ret (0, st')"
      using s s'(1) i len by (simp add: process_commands_def process_one_def cmd_delete_def used_index_small [OF i] jtbl_free_def done_text_def st'_def Let_def)
    moreover have "shell_ok F (docs[i := None]) st'"
      using t(1) len s'(2) slots_update [OF t(2) _ len t(1), of None] by (auto simp: shell_ok_def st'_def intro!: exI [of _ "ts[i := []]"])
    moreover have "card (dom (js_heap (sh_js st'))) \<le> card (dom (js_heap (sh_js st)))"
      using holds_dom(2) [OF s'(2) fin] holds_dom(2) [OF t(3) fin] all_cells_split [of i ts] i t(1)
      by (simp add: st'_def flip: size_mset)
    ultimately show ?thesis using spec_step.Delete [of docs i d D] Some unfolding steps_to_def
      by (intro exI [of _ "docs[i := None]"] exI [of _ "done_text i"] exI [of _ st']) (simp add: st'_def)
  qed
qed

lemma load_read:
  assumes env: "json_env_ok cap E" and fin: "finite (dom (js_heap (sh_js st)))" and c: "card (dom (js_heap (sh_js st))) < cap" and f: "file_ok M fn data"
  obtains space s1 z where "space \<noteq> 0" "holds (js_heap (sh_js st)) [(space, RawObj z)] (js_heap s1)"
    "cmd_load E M [''load'', fn] st = load_parse E (cstr data) space (set_js s1 st)"
proof -
  let ?n = "length data" and ?z = "aligned_size (of_nat (length data + 4))"
  have h: "holds (js_heap (sh_js st)) [] (js_heap (os_meminit (sh_js st)))" "card (dom (js_heap (sh_js st))) + length ([] :: jcells) < cap" using c by simp_all
  obtain space s1 where s1: "mem_alloc E ?z (os_meminit (sh_js st)) = Ret (space, s1)" "space \<noteq> 0" "holds (js_heap (sh_js st)) [(space, RawObj ?z)] (js_heap s1)"
    by (rule mem_alloc_cell [OF env h(1) fin h(2)])
  have n: "?n + 4 < 2 ^ 32" using f by (simp add: file_ok_def)
  have e: "?n + 3 + 1 = ?n + 4" "?n + 3 < 2 ^ 32" using n by simp_all
  have "?n \<le> unat ?z" using aligned_room [OF e(2), unfolded e(1)] by linarith
  note l = load_file_ok [OF f this]
  have "cmd_load E M [''load'', fn] st = load_parse E (cstr data) space (set_js s1 st)"
    using f n s1(1,2) l by (simp add: cmd_load_def file_ok_def jos_malloc_def Let_def del: of_nat_add)
  then show thesis using s1(2,3) that by blast
qed

lemma load_step:
  assumes env: "json_env_ok cap E" and ok: "shell_ok F docs st" and fin: "finite (dom F)"
    and c: "card (dom (js_heap (sh_js st))) + cost D (Load fn) \<le> cap" and d: "file_doc M D fn"
  shows "steps_to (card (dom (js_heap (sh_js st))) + cost D (Load fn)) F D docs (Load fn) st (process_commands E M (argv_of (Load fn)) st)"
proof -
  let ?d = "D fn"
  obtain data where data: "file_ok M fn data" "jlex (cstr data) = Some (evs ?d)" and dd: "\<not> is_Tok ?d" "depth ?d \<le> MAXL" "json_plain ?d"
    using d by (auto simp: file_doc_def)
  obtain ts K where t: "length ts = MAXTREE" "\<forall>i<MAXTREE. slot_ok (docs ! i) (sh_info st ! i) (ts ! i)"
    "holds F (K @ all_cells ts) (js_heap (sh_js st))" and len: "length docs = MAXTREE" "length (sh_info st) = MAXTREE"
    using ok by (auto simp: shell_ok_def)
  note fin0 = holds_dom(1) [OF t(3) fin]
  have c0: "card (dom (js_heap (sh_js st))) < cap" using c by simp
  obtain space s1 z where s1: "space \<noteq> 0" "holds (js_heap (sh_js st)) [(space, RawObj z)] (js_heap s1)"
    "cmd_load E M [''load'', fn] st = load_parse E (cstr data) space (set_js s1 st)"
    by (rule load_read [OF env fin0 c0 data(1)])
  have p: "process_commands E M (argv_of (Load fn)) st = obind (load_parse E (cstr data) space (set_js s1 st)) (\<lambda>st. Ret (0, st))"
    using s1(3) by (simp add: process_commands_def process_one_def Let_def)
  have ok1: "shell_ok F docs (set_js s1 st)"
    using t len holds_trans [OF t(3) s1(2)] by (auto simp: shell_ok_def intro!: exI [of _ ts] exI [of _ "(space, RawObj z) # K"])
  note card1 = holds_dom [OF s1(2) fin0]
  show ?thesis
  proof (rule disjE [OF first_free [of MAXTREE docs]])
    assume full: "\<forall>i<MAXTREE. docs ! i \<noteq> None"
    have "process_commands E M (argv_of (Load fn)) st = Ret (0, set_js s1 st)"
      using p find_avail(2) [OF ok1 full] by (simp add: load_parse_def)
    then show ?thesis using ok1 spec_step.Load_Full [OF full, of D fn] card1(2) unfolding steps_to_def
      by (intro exI [of _ docs] exI [of _ "[]"] exI [of _ "set_js s1 st"]) simp
  next
    assume "\<exists>i<MAXTREE. docs ! i = None \<and> (\<forall>j<i. docs ! j \<noteq> None)"
    then obtain i where i: "i < MAXTREE" "docs ! i = None" "\<forall>j<i. docs ! j \<noteq> None" by blast
    have "card (dom (js_heap s1)) + 4 * length (evs ?d) \<le> cap" using c card1(2) by simp
    then obtain tbl s2 K2 ns where r: "sjson_parse E (cstr data) s1 = Ret (0, tbl, s2)" "holds (js_heap s1) (K2 @ cells 0 ns) (js_heap s2)"
      "tables [ns] tbl" "tb_lvl tbl = 0" "doc_tree ?d ns" "length K2 = 2 * empties ?d" "2 * jsize ns + length K2 \<le> 4 * length (evs ?d)"
      by (rule sjson_parse_document_size [OF env card1(1) dd(1,2) _ data(2)])
    have h2: "holds F ((space, RawObj z) # (K2 @ K) @ cells 0 ns @ all_cells ts) (js_heap s2)"
      using holds_trans [OF t(3) holds_trans [OF s1(2) r(2)]] by (subst holds_perm) (auto simp: ac_simps)
    define s3 where "s3 = s2\<lparr>js_heap := (js_heap s2)(space := None)\<rparr>"
    have f: "jos_free space s2 = Ret s3" using s1(1) holds_get(1) [OF h2, of space "RawObj z"] by (simp add: jos_free_def s3_def)
    have h3: "holds F ((K2 @ K) @ cells 0 ns @ all_cells ts) (js_heap s3)" using holds_del [OF h2] by (simp add: s3_def)
    let ?t = "(sh_info st ! i)\<lparr>ji_used := True\<rparr>"
    define st' where "st' = emit (done_text i) (set_js s3 (put_table i (?t\<lparr>ji_tbl := tbl\<rparr>) (put_table i ?t (set_js s1 st))))"
    have "\<not> ji_used (sh_info st ! i)" using t(2) i by (metis slot_ok.simps(1))
    then have pr: "process_commands E M (argv_of (Load fn)) st = Ret (0, st')"
      using p find_avail(1) [OF ok1 i] r(1) f i(1) len by (simp add: load_parse_def jtbl_alloc_def Let_def done_text_def st'_def)
    have ti: "ts[i := []] = ts" using t(1,2) i(1,2) by (metis list_update_id slot_ok.simps(1))
    have "holds F ((K2 @ K) @ all_cells (ts[i := ns])) (js_heap s3)"
      using h3 all_cells_update [of i ts ns] i(1) t(1) ti by (subst holds_perm) (auto simp: ac_simps)
    then have ok': "shell_ok F (docs[i := Some ?d]) st'"
      using t(1) len r(3,5) dd(3) slots_update [OF t(2) _ len t(1), of "Some ?d" "?t\<lparr>ji_tbl := tbl\<rparr>" ns i] unfolding shell_ok_def
      by (intro conjI exI [of _ "ts[i := ns]"] exI [of _ "K2 @ K"]) (auto simp: st'_def)
    have "card (dom (js_heap s3)) \<le> card (dom (js_heap (sh_js st))) + cost D (Load fn)"
      using holds_dom(2) [OF h3 fin] holds_dom(2) [OF t(3) fin] r(7) by simp
    then show ?thesis using pr ok' spec_step.Load [OF i, of D fn] unfolding steps_to_def
      by (intro exI [of _ "docs[i := Some ?d]"] exI [of _ "done_text i"] exI [of _ st']) (simp add: st'_def)
  qed
qed

section \<open>Lines\<close>

definition line_of :: "jcmd \<Rightarrow> string" where
  "line_of c = hd (argv_of c) @ '' '' @ last (argv_of c) @ [NLC]"

definition wordy :: "string \<Rightarrow> bool" where
  "wordy w \<longleftrightarrow> w \<noteq> [] \<and> (\<forall>c\<in>set w. c \<noteq> CHR '' '' \<and> c \<noteq> NLC \<and> c \<noteq> NUL)"

lemma wordy_take: "wordy w \<Longrightarrow> c = CHR '' '' \<or> c = NLC \<Longrightarrow> takeWhile (\<lambda>c. c \<noteq> CHR '' '' \<and> c \<noteq> NLC) (w @ c # cs) = w"
  by (auto simp: wordy_def takeWhile_append)

lemma wordy_drop: "wordy w \<Longrightarrow> dropWhile (\<lambda>c. c = CHR '' '') (w @ cs) = w @ cs"
  by (cases w) (auto simp: wordy_def)

lemma parse_words_Nil: "parse_words k [] = (if k = 0 then - 1 else 0, [])"
  by (simp add: parse_words.simps [of k "[]"])

lemma parse_words_word:
  assumes "wordy w" "c = CHR '' '' \<or> c = NLC" "Suc k < MAXARGS"
  shows "parse_words k (w @ c # cs) = (let (r, ws) = parse_words (Suc k) cs in (r, w # ws))"
  using assms by (subst parse_words.simps) (simp add: wordy_take wordy_drop Let_def not_le)

lemma parse_two_words:
  assumes "wordy a" "wordy b"
  shows "parse_cmd (a @ '' '' @ b @ [NLC]) = (0, [a, b])"
  using assms by (simp add: parse_cmd_def parse_words_word parse_words_Nil MAXARGS_def)

lemma fgets_line:
  assumes "NLC \<notin> set w" "Suc (length w) < len"
  shows "fgets len (w @ NLC # rest) = (w @ [NLC], rest)"
proof -
  have "takeWhile (\<lambda>c. c \<noteq> NLC) (w @ NLC # rest) = w" using assms(1) by (auto simp: takeWhile_append)
  moreover have "min (len - 1) (Suc (length w)) = Suc (length w)" using assms(2) by simp
  ultimately show ?thesis by (simp add: fgets_def Let_def)
qed

fun cmd_ok :: "main_env \<Rightarrow> (string \<Rightarrow> json) \<Rightarrow> jcmd \<Rightarrow> bool" where
  "cmd_ok M D (Load fn) \<longleftrightarrow> file_doc M D fn \<and> wordy fn \<and> length fn < 1000"
| "cmd_ok M D (Print i) \<longleftrightarrow> i < MAXTREE"
| "cmd_ok M D (Delete i) \<longleftrightarrow> i < MAXTREE"

lemma wordy_index: "i < MAXTREE \<Longrightarrow> wordy (fmt_ld (int i)) \<and> length (fmt_ld (int i)) < 1000"
proof -
  have "\<forall>i\<in>set [0..<16]. wordy (fmt_ld (int i)) \<and> length (fmt_ld (int i)) < 1000" by code_simp
  then show "i < MAXTREE \<Longrightarrow> ?thesis" by (simp add: MAXTREE_def)
qed

lemma argv_words: "cmd_ok M D c \<Longrightarrow> \<exists>a b. argv_of c = [a, b] \<and> wordy a \<and> wordy b \<and> length a < 10 \<and> length b < 1000"
  using wordy_index by (cases c) (auto simp: wordy_def NLC_def NUL_def)

lemma read_line:
  assumes "cmd_ok M D c"
  shows "fgets (INPUTLEN - 1) (line_of c @ rest) = (line_of c, rest)" "cstr (line_of c) = line_of c" "parse_cmd (line_of c) = (0, argv_of c)" "line_of c \<noteq> []"
proof -
  obtain a b where ab: "argv_of c = [a, b]" "wordy a" "wordy b" "length a < 10" "length b < 1000" using argv_words [OF assms] by blast
  have l: "line_of c = (a @ '' '' @ b) @ [NLC]" by (simp add: line_of_def ab(1))
  have "NLC \<notin> set (a @ '' '' @ b)" using ab(2,3) by (auto simp: wordy_def NLC_def)
  then show "fgets (INPUTLEN - 1) (line_of c @ rest) = (line_of c, rest)"
    using fgets_line [of "a @ '' '' @ b" "INPUTLEN - 1" rest] ab(4,5) by (simp add: l INPUTLEN_def)
  show "cstr (line_of c) = line_of c" using ab(2,3) by (auto simp: l cstr_def takeWhile_eq_all_conv wordy_def NLC_def NUL_def)
  show "parse_cmd (line_of c) = (0, argv_of c)" using parse_two_words [OF ab(2,3)] by (simp add: l ab(1))
  show "line_of c \<noteq> []" by (simp add: l)
qed

section \<open>Sessions\<close>

lemma shell_step:
  assumes "json_env_ok cap E" "shell_ok F docs st" "finite (dom F)" "card (dom (js_heap (sh_js st))) + cost D c \<le> cap" "cmd_ok M D c"
  shows "steps_to (card (dom (js_heap (sh_js st))) + cost D c) F D docs c st (process_commands E M (argv_of c) st)"
proof (cases c)
  case (Load fn)
  have "card (dom (js_heap (sh_js st))) + cost D (Load fn) \<le> cap" "file_doc M D fn" using assms(4,5) by (simp_all add: Load)
  then show ?thesis unfolding Load by (rule load_step [OF assms(1-3)])
next
  case (Print i)
  then show ?thesis using print_step [OF assms(2)] assms(5) by simp
next
  case (Delete i)
  then show ?thesis using delete_step [OF assms(2) _ assms(3)] assms(5) by simp
qed

abbreviation quit_line :: string where
  "quit_line \<equiv> ''quit'' @ [NLC]"

lemma main_loop_line:
  assumes "cmd_ok M D c" "process_commands E M (argv_of c) (emit ''[JSON] '' st) = Ret (0, st')"
  shows "main_loop E M (line_of c @ rest) st = main_loop E M rest st'"
  using read_line [OF assms(1)] assms(2) by (subst main_loop.simps) (simp add: Let_def)

lemma quit_words: "same_word ''quit'' ''QUIT''"
  "\<forall>w\<in>{''HELP'', ''LOAD'', ''FIND'', ''PRINT'', ''PATH'', ''DELETE'', ''PURGE'', ''ADD'', ''STATUS'', ''TREE'', ''DBG'', ''RUN''}. \<not> same_word ''quit'' w"
  by code_simp+

lemma main_loop_quit: "main_loop E M quit_line st = Ret (emit ''[JSON] '' st)"
proof -
  have "fgets (INPUTLEN - 1) quit_line = (quit_line, [])" "parse_cmd (cstr quit_line) = (0, [''quit''])" by code_simp+
  moreover have "process_commands E M [''quit''] (emit ''[JSON] '' st) = Ret (- 1, emit ''[JSON] '' st)"
    by (simp add: process_commands_def process_one_def quit_words Let_def)
  ultimately show ?thesis by (subst main_loop.simps) (simp add: Let_def)
qed

lemma session:
  assumes "json_env_ok cap E" "finite (dom F)"
  shows "shell_ok F docs st \<Longrightarrow> \<forall>c\<in>set cmds. cmd_ok M D c \<Longrightarrow> card (dom (js_heap (sh_js st))) + sum_list (map (cost D) cmds) \<le> cap
    \<Longrightarrow> \<exists>docs' x st'. main_loop E M (concat (map line_of cmds) @ quit_line) st = Ret st' \<and> spec_run D docs cmds docs' x
       \<and> sh_out st' = sh_out st @ x @ ''[JSON] '' \<and> shell_ok F docs' st'"
proof (induction cmds arbitrary: docs st)
  case Nil
  have "shell_ok F docs (emit ''[JSON] '' st)" using Nil.prems(1) by (simp add: shell_ok_def)
  then show ?case using main_loop_quit [of E M st] spec_run.Nil [of D docs]
    by (intro exI [of _ docs] exI [of _ "[]"] exI [of _ "emit ''[JSON] '' st"]) simp
next
  case (Cons c cs)
  let ?st = "emit ''[JSON] '' st" and ?n = "card (dom (js_heap (sh_js st)))"
  have ok: "shell_ok F docs ?st" "cmd_ok M D c" using Cons.prems(1,2) by (simp_all add: shell_ok_def)
  have "card (dom (js_heap (sh_js ?st))) + cost D c \<le> cap" using Cons.prems(3) by simp
  from shell_step [OF assms(1) ok(1) assms(2) this ok(2)] obtain docs1 x st1 where
    s: "process_commands E M (argv_of c) ?st = Ret (0, st1)" "spec_step D docs c docs1 x" "sh_out st1 = sh_out ?st @ x"
      "shell_ok F docs1 st1" "card (dom (js_heap (sh_js st1))) \<le> ?n + cost D c" by (auto simp: steps_to_def)
  have "card (dom (js_heap (sh_js st1))) + sum_list (map (cost D) cs) \<le> cap" using s(5) Cons.prems(3) by simp
  with Cons.IH [OF s(4)] Cons.prems(2) obtain docs' y st' where
    IH: "main_loop E M (concat (map line_of cs) @ quit_line) st1 = Ret st'" "spec_run D docs1 cs docs' y"
      "sh_out st' = sh_out st1 @ y @ ''[JSON] ''" "shell_ok F docs' st'" by auto
  have "main_loop E M (concat (map line_of (c # cs)) @ quit_line) st = Ret st'"
    using main_loop_line [OF ok(2) s(1), of "concat (map line_of cs) @ quit_line"] IH(1) by simp
  then show ?case using spec_run.Cons [OF s(2) IH(2)] IH(3,4) s(3)
    by (intro exI [of _ docs'] exI [of _ "''[JSON] '' @ x @ y"] exI [of _ st']) simp
qed

lemma all_cells_empty: "all_cells (replicate n []) = []"
  by (induction n) simp_all

lemma json_main_session:
  assumes "json_env_ok cap E" "finite (dom (js_heap (sh_js st)))" "length (sh_info st) = MAXTREE" "\<forall>c\<in>set cmds. cmd_ok M D c"
    "card (dom (js_heap (sh_js st))) + sum_list (map (cost D) cmds) \<le> cap"
  shows "\<exists>docs x st'. json_main E M [] (concat (map line_of cmds) @ quit_line) st = Ret st' \<and> spec_run D (replicate MAXTREE None) cmds docs x
       \<and> sh_out st' = sh_out st @ x @ ''[JSON] '' \<and> shell_ok (js_heap (sh_js st)) docs st'"
proof -
  define st0 where "st0 = st\<lparr>sh_js := os_meminit (sh_js st), sh_info := map (\<lambda>x. x\<lparr>ji_used := False\<rparr>) (sh_info st)\<rparr>"
  have "shell_ok (js_heap (sh_js st)) (replicate MAXTREE None) st0" unfolding shell_ok_def
    using assms(3) by (intro conjI exI [of _ "replicate MAXTREE []"] exI [of _ "[]"]) (simp_all add: st0_def all_cells_empty)
  then show ?thesis using session [OF assms(1,2) _ assms(4), of "replicate MAXTREE None" st0] assms(5)
    by (simp add: json_main_def st0_def Let_def)
qed

end
