(* ===== verification/Json_Shell_Props.thy ===== *)
theory Json_Shell_Props
  imports Json_Shell Json_Props
begin

text \<open>The property of sessions of the JSON tool, with an environment for its witness.\<close>

definition demo_main_env :: main_env where
  "demo_main_env = \<lparr>me_lstat = (\<lambda>f. Some (length demo_text)), me_open = (\<lambda>f. True), me_read = (\<lambda>f k n. Some (take 7 (drop k demo_text))),
     me_create = (\<lambda>f. True), me_malloc = (\<lambda>n. True), me_memspc = (\<lambda>s. 0), me_memblks = (\<lambda>s. []), me_script = (\<lambda>f. None)\<rparr>"

definition demo_shell :: shell where
  "demo_shell = \<lparr>sh_info = replicate MAXTREE \<lparr>ji_used = False, ji_tbl = sjson_table_init\<rparr>, sh_js = demo_json_state,
     sh_vars = \<lparr>json_xml_setelm = 0, json_xml_setlvl = 0, mlvl = 0\<rparr>, sh_json_dbg = 0, sh_mem_dbg = 0, sh_out = [], sh_files = []\<rparr>"

text \<open>C6. The tool refines a table of sixteen documents: for every list of LOAD, PRINT and DELETE commands, as
  lines of its input followed by quit, \<open>main\<close> returns; LOAD puts the document of the file, read in pieces
  of any size, into the first free table, PRINT shows (at most 8191 characters of) a text with the tokens
  of the document, DELETE empties the table; what is printed is what the specification prints, and in the
  end the store holds the trees of the documents that are left and nothing of the others but lost
  blocks.\<close>

theorem json_sessions_refine_documents:
  assumes "json_env_ok cap E" "finite (dom (js_heap (sh_js st)))" "length (sh_info st) = MAXTREE" "\<forall>c\<in>set cmds. cmd_ok M D c"
    "card (dom (js_heap (sh_js st))) + sum_list (map (cost D) cmds) \<le> cap"
  shows "\<exists>docs x st'. json_main E M [] (concat (map line_of cmds) @ ''quit'' @ [NLC]) st = Ret st' \<and> spec_run D (replicate MAXTREE None) cmds docs x
    \<and> sh_out st' = sh_out st @ x @ ''[JSON] '' \<and> shell_ok (js_heap (sh_js st)) docs st'"
  by (rule json_main_session [OF assms])

theorem json_sessions_refine_documents_witness:
  "\<exists>docs x st'. json_main demo_json_env demo_main_env [] (''load a.json'' @ [NLC] @ ''print 0'' @ [NLC] @ ''quit'' @ [NLC]) demo_shell = Ret st'
    \<and> spec_run (\<lambda>f. demo_doc) (replicate MAXTREE None) [Load ''a.json'', Print 0] docs x \<and> sh_out st' = x @ ''[JSON] ''"
proof -
  have "\<forall>k<length demo_text. \<exists>j>0. me_read demo_main_env ''a.json'' k (length demo_text - k) = Some (take j (drop k demo_text))"
    by (intro allI impI exI [of _ 7]) (simp add: demo_main_env_def)
  then have "file_ok demo_main_env ''a.json'' demo_text" by (simp add: file_ok_def) (simp add: demo_main_env_def demo_text_def)
  moreover have "cstr demo_text = demo_text" by code_simp
  ultimately have f: "file_doc demo_main_env (\<lambda>f. demo_doc) ''a.json''" using demo_lex by (auto simp: file_doc_def)
  have w: "wordy ''a.json''" "line_of (Load ''a.json'') = ''load a.json'' @ [NLC]" "line_of (Print 0) = ''print 0'' @ [NLC]" by code_simp+
  have "\<forall>c\<in>set [Load ''a.json'', Print 0]. cmd_ok demo_main_env (\<lambda>f. demo_doc) c" using f w(1) by (simp add: MAXTREE_def)
  moreover have "card (dom (js_heap (sh_js demo_shell))) + sum_list (map (cost (\<lambda>f. demo_doc)) [Load ''a.json'', Print 0]) \<le> 199"
    by (simp add: demo_shell_def demo_doc_def)
  ultimately show ?thesis
    using json_sessions_refine_documents [OF demo_json_env_ok, of demo_shell "[Load ''a.json'', Print 0]" demo_main_env "\<lambda>f. demo_doc"] w(2,3)
    by (auto simp: demo_shell_def)
qed

end
