(* ===== verification/Mem_Space.thy ===== *)
theory Mem_Space
  imports Prelude
begin

text \<open>
  The memory space of the JSON library (the functions mem_* at the end of kits/malloc.c, inc/malloc.h): a
  layer over the vendored allocator that puts a header in front of every block, keeps the headers in a
  doubly linked list and counts the bytes that are left. The allocator itself is the argument \<open>ms_env\<close>:
  what \<open>malloc\<close>, \<open>create_mspace_with_base\<close> and \<open>mspace_malloc\<close> return. A block is the address of its header;
  the pointers of the list are those addresses too, since the links lie at a fixed place in the header.
\<close>

section \<open>State\<close>

definition MEMBLOCK_MAGIC :: u32 where "MEMBLOCK_MAGIC = 0xbab0d00d"
definition MEMHEADER_MAGIC :: u32 where "MEMHEADER_MAGIC = 0xabcdd00d"

record memheader =
  mh_magic :: u32
  mh_sz :: u32
  mh_next :: addr
  mh_prev :: addr
  mh_data :: "u8 list"

record memspace =
  sp_magic :: u32
  sp_sz :: u64
  sp_rsz :: u64
  sp_free :: u64
  sp_first :: addr
  sp_last :: addr

record ms_state =
  ms_space :: "memspace option"
  ms_heap :: "addr \<rightharpoonup> memheader"
  ms_calls :: nat

record ms_env =
  mse_hsize :: u64
  mse_space :: "u64 \<Rightarrow> bool"
  mse_alloc :: "nat \<Rightarrow> u64 \<Rightarrow> (addr \<rightharpoonup> memheader) \<Rightarrow> addr"

section \<open>Operations\<close>

text \<open>\<open>mem_init\<close> leaves 1024 bytes more than the size it is asked for, and counts them as free.\<close>

definition mem_init :: "ms_env \<Rightarrow> u64 \<Rightarrow> memspace option" where
  "mem_init E sz =
     (if mse_space E sz
      then Some \<lparr>sp_magic = MEMBLOCK_MAGIC, sp_sz = sz, sp_rsz = sz + 1024, sp_free = sz + 1024, sp_first = 0, sp_last = 0\<rparr> else None)"

definition mem_deinit :: "ms_state \<Rightarrow> int \<times> ms_state" where
  "mem_deinit s = (case ms_space s of None \<Rightarrow> (1, s)
     | Some b \<Rightarrow> if sp_magic b \<noteq> MEMBLOCK_MAGIC then (1, s) else (0, s\<lparr>ms_space := None, ms_heap := Map.empty\<rparr>))"

definition load_mh :: "addr \<Rightarrow> ms_state \<Rightarrow> memheader outcome" where
  "load_mh p s = (if p = 0 then Fault NullDeref else case ms_heap s p of None \<Rightarrow> Fault BadPtr | Some m \<Rightarrow> Ret m)"

definition upd_mh :: "addr \<Rightarrow> (memheader \<Rightarrow> memheader) \<Rightarrow> ms_state \<Rightarrow> ms_state outcome" where
  "upd_mh p f s = obind (load_mh p s) (\<lambda>m. Ret (s\<lparr>ms_heap := (ms_heap s)(p \<mapsto> f m)\<rparr>))"

definition upd_space :: "(memspace \<Rightarrow> memspace) \<Rightarrow> ms_state \<Rightarrow> ms_state" where
  "upd_space f s = s\<lparr>ms_space := map_option f (ms_space s)\<rparr>"

text \<open>The new header goes to the end of the list.\<close>

definition mem_link :: "addr \<Rightarrow> ms_state \<Rightarrow> ms_state outcome" where
  "mem_link cur s =
     (case ms_space s of None \<Rightarrow> Fault NullDeref
      | Some b \<Rightarrow>
        let t = sp_last b in
        obind (if t \<noteq> 0 then upd_mh t (\<lambda>m. m\<lparr>mh_next := cur\<rparr>) s else Ret (upd_space (\<lambda>b. b\<lparr>sp_first := cur\<rparr>) s)) (\<lambda>s.
        obind (upd_mh cur (\<lambda>m. m\<lparr>mh_next := 0, mh_prev := t\<rparr>) s) (\<lambda>s.
        Ret (upd_space (\<lambda>b. b\<lparr>sp_last := cur\<rparr>) s))))"

definition mem_alloc_blk :: "ms_env \<Rightarrow> u64 \<Rightarrow> ms_state \<Rightarrow> (addr \<times> ms_state) outcome" where
  "mem_alloc_blk E sz s =
     (case ms_space s of None \<Rightarrow> Ret (0, s)
      | Some b \<Rightarrow>
        let xsz = sz + mse_hsize E in
        if sp_magic b \<noteq> MEMBLOCK_MAGIC \<or> sp_free b < xsz then Ret (0, s)
        else let nb = mse_alloc E (ms_calls s) xsz (ms_heap s); s = s\<lparr>ms_calls := Suc (ms_calls s)\<rparr> in
        if nb = 0 then Ret (0, s)
        else if xsz < mse_hsize E then Fault OutOfBounds
        else let m = \<lparr>mh_magic = MEMHEADER_MAGIC, mh_sz = ucast xsz, mh_next = 0, mh_prev = 0, mh_data = replicate (unat sz) 0\<rparr>;
                 s = upd_space (\<lambda>b. b\<lparr>sp_free := sp_free b - xsz\<rparr>) (s\<lparr>ms_heap := (ms_heap s)(nb \<mapsto> m)\<rparr>) in
             obind (mem_link nb s) (\<lambda>s. Ret (nb, s)))"

definition mem_calloc :: "ms_env \<Rightarrow> u64 \<Rightarrow> u64 \<Rightarrow> ms_state \<Rightarrow> (addr \<times> ms_state) outcome" where
  "mem_calloc E nmemb sz s = mem_alloc_blk E (nmemb * sz) s"

definition mem_unlink :: "addr \<Rightarrow> ms_state \<Rightarrow> ms_state outcome" where
  "mem_unlink cur s =
     obind (load_mh cur s) (\<lambda>m.
     obind (if mh_prev m = 0 then Ret (upd_space (\<lambda>b. b\<lparr>sp_first := mh_next m\<rparr>) s)
            else upd_mh (mh_prev m) (\<lambda>x. x\<lparr>mh_next := mh_next m\<rparr>) s) (\<lambda>s.
     obind (if mh_next m = 0 then Ret (upd_space (\<lambda>b. b\<lparr>sp_last := mh_prev m\<rparr>) s)
            else upd_mh (mh_next m) (\<lambda>x. x\<lparr>mh_prev := mh_prev m\<rparr>) s) (\<lambda>s.
     upd_mh cur (\<lambda>m. m\<lparr>mh_prev := 0, mh_next := 0\<rparr>) s)))"

text \<open>\<open>mem_free\<close> reads the header in front of the pointer, whatever it is: of a block that is not in use it is a fault.\<close>

definition mem_free :: "addr \<Rightarrow> ms_state \<Rightarrow> (int \<times> ms_state) outcome" where
  "mem_free mb s =
     (case ms_space s of None \<Rightarrow> Ret (1, s)
      | Some b \<Rightarrow>
        if sp_magic b \<noteq> MEMBLOCK_MAGIC then Ret (1, s)
        else obind (load_mh mb s) (\<lambda>m.
        if mh_magic m \<noteq> MEMHEADER_MAGIC then Ret (1, s)
        else obind (mem_unlink mb s) (\<lambda>s.
             Ret (0, upd_space (\<lambda>b. b\<lparr>sp_free := sp_free b + ucast (mh_sz m)\<rparr>) (s\<lparr>ms_heap := (ms_heap s)(mb := None)\<rparr>)))))"

text \<open>
  \<open>mem_realloc\<close> copies as many bytes as the smaller of the new size and the size in the header, which
  includes the header: more than the old block has.
\<close>

definition mem_realloc :: "ms_env \<Rightarrow> addr \<Rightarrow> u64 \<Rightarrow> ms_state \<Rightarrow> (addr \<times> ms_state) outcome" where
  "mem_realloc E ptr sz s =
     (case ms_space s of None \<Rightarrow> Ret (0, s)
      | Some b \<Rightarrow>
        if sp_magic b \<noteq> MEMBLOCK_MAGIC \<or> (ptr = 0 \<and> sz = 0) then Ret (0, s)
        else if ptr = 0 then mem_alloc_blk E sz s
        else if sz = 0 then obind (mem_free ptr s) (\<lambda>(_, s). Ret (0, s))
        else obind (mem_alloc_blk E sz s) (\<lambda>(nmem, s).
        if nmem = 0 then Ret (0, s)
        else obind (load_mh ptr s) (\<lambda>m.
        let n = (if sz < ucast (mh_sz m) then unat sz else unat (mh_sz m)) in
        if length (mh_data m) < n then Fault OutOfBounds
        else obind (upd_mh nmem (\<lambda>x. x\<lparr>mh_data := take n (mh_data m) @ drop n (mh_data x)\<rparr>) s) (\<lambda>s.
             obind (mem_free ptr s) (\<lambda>(_, s). Ret (nmem, s))))))"

definition mem_strdup :: "ms_env \<Rightarrow> u8 list \<Rightarrow> ms_state \<Rightarrow> (addr \<times> ms_state) outcome" where
  "mem_strdup E str s =
     (case ms_space s of None \<Rightarrow> Ret (0, s)
      | Some b \<Rightarrow>
        if sp_magic b \<noteq> MEMBLOCK_MAGIC then Ret (0, s)
        else obind (mem_alloc_blk E (of_nat (length str + 1)) s) (\<lambda>(ns, s).
        if ns = 0 then Ret (0, s) else obind (upd_mh ns (\<lambda>x. x\<lparr>mh_data := str @ drop (length str) (mh_data x)\<rparr>) s) (\<lambda>s. Ret (ns, s))))"

text \<open>\<open>mem_navigate\<close>: the blocks it prints, with their sizes.\<close>

definition mem_navigate :: "ms_state \<Rightarrow> ((addr \<times> u32) list) outcome" where
  "mem_navigate s =
     (case ms_space s of None \<Rightarrow> Fault NullDeref
      | Some b \<Rightarrow>
        obind (while_o (\<lambda>(p, xs). p \<noteq> 0) (\<lambda>(p, xs). obind (load_mh p s) (\<lambda>m. Ret (mh_next m, xs @ [(p, mh_sz m)]))) (sp_first b, []))
          (\<lambda>(p, xs). Ret xs))"

section \<open>The list of headers\<close>

fun hd0 :: "addr list \<Rightarrow> addr \<Rightarrow> addr" where
  "hd0 [] n = n"
| "hd0 (x # xs) n = x"

fun last0 :: "addr list \<Rightarrow> addr \<Rightarrow> addr" where
  "last0 [] p = p"
| "last0 (x # xs) p = last0 xs x"

fun dll :: "(addr \<rightharpoonup> memheader) \<Rightarrow> addr \<Rightarrow> addr list \<Rightarrow> addr \<Rightarrow> bool" where
  "dll h p [] n \<longleftrightarrow> True"
| "dll h p (x # xs) n \<longleftrightarrow> x \<noteq> 0 \<and> (\<exists>m. h x = Some m \<and> mh_magic m = MEMHEADER_MAGIC \<and> mh_prev m = p \<and> mh_next m = hd0 xs n) \<and> dll h x xs n"

lemma hd0_append [simp]: "hd0 (xs @ ys) n = hd0 xs (hd0 ys n)"
  by (cases xs) simp_all

lemma last0_append [simp]: "last0 (xs @ ys) p = last0 ys (last0 xs p)"
  by (induction xs arbitrary: p) simp_all

lemma dll_append: "dll h p (xs @ ys) n \<longleftrightarrow> dll h p xs (hd0 ys n) \<and> dll h (last0 xs p) ys n"
  by (induction xs arbitrary: p) auto

lemma dll_cong: "(\<And>x. x \<in> set xs \<Longrightarrow> h' x = h x) \<Longrightarrow> dll h' p xs n \<longleftrightarrow> dll h p xs n"
  by (induction xs arbitrary: p) auto

lemma dll_in: "dll h p xs n \<Longrightarrow> x \<in> set xs \<Longrightarrow> x \<noteq> 0 \<and> (\<exists>m. h x = Some m \<and> mh_magic m = MEMHEADER_MAGIC)"
  by (induction xs arbitrary: p) auto

text \<open>Another successor of the last node, another predecessor of the first one.\<close>

lemma dll_upd_out:
  assumes "t \<notin> set xs"
  shows "dll (h(t := y)) p xs n \<longleftrightarrow> dll h p xs n"
  by (rule dll_cong) (use assms in auto)

lemma dll_set_next:
  assumes "dll h p (xs @ [t]) n" "distinct (xs @ [t])" "h t = Some m"
  shows "dll (h(t \<mapsto> m\<lparr>mh_next := n'\<rparr>)) p (xs @ [t]) n'"
  using assms by (auto simp: dll_append dll_upd_out)

lemma dll_set_prev:
  assumes "dll h p (t # xs) n" "distinct (t # xs)" "h t = Some m"
  shows "dll (h(t \<mapsto> m\<lparr>mh_prev := p'\<rparr>)) p' (t # xs) n"
  using assms by (auto simp: dll_upd_out)

section \<open>The invariant\<close>

text \<open>
  \<open>ms_ok E bl s\<close>: the blocks in use are those of \<open>bl\<close>, oldest first, each with its full size; they are the
  list of headers and the whole heap, and their sizes and the free bytes make up the size of the space,
  which the 32 bits of a header's size can count.
\<close>

definition ms_ok :: "ms_env \<Rightarrow> (addr \<times> nat) list \<Rightarrow> ms_state \<Rightarrow> bool" where
  "ms_ok E bl s \<longleftrightarrow>
     (\<exists>b. ms_space s = Some b \<and> sp_magic b = MEMBLOCK_MAGIC \<and> unat (sp_rsz b) < 2 ^ 32 \<and>
          unat (sp_free b) + sum_list (map snd bl) = unat (sp_rsz b) \<and>
          sp_first b = hd0 (map fst bl) 0 \<and> sp_last b = last0 (map fst bl) 0) \<and>
     distinct (map fst bl) \<and> dll (ms_heap s) 0 (map fst bl) 0 \<and> dom (ms_heap s) = fst ` set bl \<and>
     (\<forall>(p, k) \<in> set bl. \<exists>m. ms_heap s p = Some m \<and> unat (mh_sz m) = k \<and> unat (mse_hsize E) + length (mh_data m) = k)"

text \<open>What the allocator promises: a block it hands out is none of those in use.\<close>

definition alloc_fresh :: "ms_env \<Rightarrow> bool" where
  "alloc_fresh E \<longleftrightarrow> (\<forall>n k h. mse_alloc E n k h = 0 \<or> h (mse_alloc E n k h) = None)"

lemma mem_init_ok:
  assumes "mem_init E sz = Some b" "unat sz + 1024 < 2 ^ 32"
  shows "ms_ok E [] \<lparr>ms_space = Some b, ms_heap = Map.empty, ms_calls = n\<rparr>"
proof -
  have "unat (sz + 1024) = unat sz + 1024"
    using assms(2) by (subst unat_add_lem [THEN iffD1]) simp_all
  then show ?thesis using assms by (auto simp: ms_ok_def mem_init_def split: if_splits)
qed

lemma last0_rev_cases:
  obtains "xs = []" "last0 xs p = p" | ys t where "xs = ys @ [t]" "last0 xs p = t"
  by (cases xs rule: rev_cases) auto

text \<open>Linking a fresh header appends it.\<close>

lemma mem_link_appends:
  assumes "ms_space s = Some b" "sp_first b = hd0 xs 0" "sp_last b = last0 xs 0"
    and "dll (ms_heap s) 0 xs 0" "distinct xs" "cur \<notin> set xs" "cur \<noteq> 0"
    and "ms_heap s cur = Some m" "mh_magic m = MEMHEADER_MAGIC"
  obtains h where
    "mem_link cur s = Ret (s\<lparr>ms_space := Some (b\<lparr>sp_first := hd0 (xs @ [cur]) 0, sp_last := cur\<rparr>), ms_heap := h\<rparr>)"
    "dll h 0 (xs @ [cur]) 0" "dom h = dom (ms_heap s)"
    "\<And>x y. ms_heap s x = Some y \<Longrightarrow> \<exists>z. h x = Some z \<and> mh_sz z = mh_sz y \<and> mh_data z = mh_data y"
proof (cases xs rule: rev_cases)
  case Nil
  show thesis
    by (rule that [of "(ms_heap s)(cur \<mapsto> m\<lparr>mh_next := 0, mh_prev := 0\<rparr>)"])
       (use assms Nil in \<open>auto simp: mem_link_def upd_mh_def load_mh_def upd_space_def Let_def\<close>)
next
  case (snoc ys t)
  then obtain n where n: "ms_heap s t = Some n" "t \<noteq> 0" "t \<noteq> cur" using assms dll_in [of "ms_heap s" 0 xs 0 t] by auto
  let ?h = "(ms_heap s)(t \<mapsto> n\<lparr>mh_next := cur\<rparr>)"
  have t: "dll ?h 0 (ys @ [t]) cur" by (rule dll_set_next) (use assms snoc n in auto)
  have d: "dll (?h(cur := y)) 0 (ys @ [t]) cur" for y by (subst dll_upd_out) (use assms snoc t in auto)
  have b: "b\<lparr>sp_last := cur\<rparr> = b\<lparr>sp_first := hd0 (xs @ [cur]) 0, sp_last := cur\<rparr>"
    using assms(2) snoc by (cases ys) auto
  show thesis
    by (rule that [of "?h(cur \<mapsto> m\<lparr>mh_next := 0, mh_prev := t\<rparr>)"])
       (use assms snoc n d b in \<open>auto simp: mem_link_def upd_mh_def load_mh_def upd_space_def Let_def dll_append\<close>)
qed

text \<open>
  Unlinking a header: its predecessor, or the head of the list, takes over its successor, and its
  successor, or the tail of the list, its predecessor. \<open>same_blocks\<close>: only links differ.
\<close>

definition same_blocks :: "(addr \<rightharpoonup> memheader) \<Rightarrow> (addr \<rightharpoonup> memheader) \<Rightarrow> bool" where
  "same_blocks h h' \<longleftrightarrow> dom h' = dom h \<and>
     (\<forall>x y. h x = Some y \<longrightarrow> (\<exists>z. h' x = Some z \<and> mh_magic z = mh_magic y \<and> mh_sz z = mh_sz y \<and> mh_data z = mh_data y))"

lemma same_blocks_refl [simp]: "same_blocks h h"
  by (simp add: same_blocks_def)

lemma same_blocks_trans: "same_blocks h h' \<Longrightarrow> same_blocks h' h'' \<Longrightarrow> same_blocks h h''"
  unfolding same_blocks_def by metis

lemma same_blocks_upd:
  assumes "h t = Some m" "mh_magic m' = mh_magic m" "mh_sz m' = mh_sz m" "mh_data m' = mh_data m"
  shows "same_blocks h (h(t \<mapsto> m'))"
  using assms by (auto simp: same_blocks_def)

lemma unlink_prev:
  assumes "ms_space s = Some b" "sp_first b = hd0 as cur" "dll (ms_heap s) 0 as cur" "distinct as"
  obtains h where
    "(if last0 as 0 = 0 then Ret (upd_space (\<lambda>b. b\<lparr>sp_first := n\<rparr>) s) else upd_mh (last0 as 0) (\<lambda>x. x\<lparr>mh_next := n\<rparr>) s) =
       Ret (s\<lparr>ms_space := Some (b\<lparr>sp_first := hd0 as n\<rparr>), ms_heap := h\<rparr>)"
    "dll h 0 as n" "same_blocks (ms_heap s) h" "\<And>x. x \<notin> set as \<Longrightarrow> h x = ms_heap s x"
proof (cases as rule: rev_cases)
  case Nil
  show thesis by (rule that [of "ms_heap s"]) (use assms Nil in \<open>auto simp: upd_space_def\<close>)
next
  case (snoc ys t)
  then obtain m where m: "ms_heap s t = Some m" "t \<noteq> 0" using assms dll_in [of "ms_heap s" 0 as cur t] by auto
  have d: "dll ((ms_heap s)(t \<mapsto> m\<lparr>mh_next := n\<rparr>)) 0 (ys @ [t]) n" by (rule dll_set_next) (use assms snoc m in auto)
  have b: "hd0 as n = sp_first b" using assms(2) snoc by (cases ys) auto
  show thesis
    by (rule that [of "(ms_heap s)(t \<mapsto> m\<lparr>mh_next := n\<rparr>)"])
       (use assms snoc m d b in \<open>auto simp: upd_mh_def load_mh_def same_blocks_upd\<close>)
qed

lemma unlink_next:
  assumes "ms_space s = Some b" "sp_last b = last0 bs cur" "dll (ms_heap s) cur bs 0" "distinct bs"
  obtains h where
    "(if hd0 bs 0 = 0 then Ret (upd_space (\<lambda>b. b\<lparr>sp_last := p\<rparr>) s) else upd_mh (hd0 bs 0) (\<lambda>x. x\<lparr>mh_prev := p\<rparr>) s) =
       Ret (s\<lparr>ms_space := Some (b\<lparr>sp_last := last0 bs p\<rparr>), ms_heap := h\<rparr>)"
    "dll h p bs 0" "same_blocks (ms_heap s) h" "\<And>x. x \<notin> set bs \<Longrightarrow> h x = ms_heap s x"
proof (cases bs)
  case Nil
  show thesis by (rule that [of "ms_heap s"]) (use assms Nil in \<open>auto simp: upd_space_def\<close>)
next
  case (Cons t ys)
  then obtain m where m: "ms_heap s t = Some m" "t \<noteq> 0" using assms by auto
  have d: "dll ((ms_heap s)(t \<mapsto> m\<lparr>mh_prev := p\<rparr>)) p (t # ys) 0" by (rule dll_set_prev) (use assms Cons m in auto)
  show thesis
    by (rule that [of "(ms_heap s)(t \<mapsto> m\<lparr>mh_prev := p\<rparr>)"])
       (use assms Cons m d in \<open>auto simp: upd_mh_def load_mh_def same_blocks_upd\<close>)
qed

lemma mem_unlink_removes:
  assumes "ms_space s = Some b" "sp_first b = hd0 (as @ cur # bs) 0" "sp_last b = last0 (as @ cur # bs) 0"
    and "dll (ms_heap s) 0 (as @ cur # bs) 0" "distinct (as @ cur # bs)"
  obtains h where
    "mem_unlink cur s = Ret (s\<lparr>ms_space := Some (b\<lparr>sp_first := hd0 (as @ bs) 0, sp_last := last0 (as @ bs) 0\<rparr>), ms_heap := h\<rparr>)"
    "dll h 0 (as @ bs) 0" "same_blocks (ms_heap s) h"
proof -
  obtain m where m: "cur \<noteq> 0" "ms_heap s cur = Some m" "mh_prev m = last0 as 0" "mh_next m = hd0 bs 0"
    and d: "dll (ms_heap s) 0 as cur" "dll (ms_heap s) cur bs 0"
    using assms(4) by (auto simp: dll_append)
  have ab: "distinct as" "distinct bs" "set as \<inter> set bs = {}" "cur \<notin> set as" "cur \<notin> set bs" using assms(5) by auto
  obtain h1 where h1: "(if last0 as 0 = 0 then Ret (upd_space (\<lambda>b. b\<lparr>sp_first := hd0 bs 0\<rparr>) s) else upd_mh (last0 as 0) (\<lambda>x. x\<lparr>mh_next := hd0 bs 0\<rparr>) s) =
       Ret (s\<lparr>ms_space := Some (b\<lparr>sp_first := hd0 as (hd0 bs 0)\<rparr>), ms_heap := h1\<rparr>)"
    "dll h1 0 as (hd0 bs 0)" "same_blocks (ms_heap s) h1" "\<And>x. x \<notin> set as \<Longrightarrow> h1 x = ms_heap s x"
    by (rule unlink_prev [of s b as cur "hd0 bs 0"]) (use assms(1,2) d ab in auto)
  let ?s = "s\<lparr>ms_space := Some (b\<lparr>sp_first := hd0 as (hd0 bs 0)\<rparr>), ms_heap := h1\<rparr>"
  have e: "dll h1 cur bs 0 = dll (ms_heap s) cur bs 0" by (rule dll_cong) (use h1(4) ab in auto)
  obtain h2 where h2: "(if hd0 bs 0 = 0 then Ret (upd_space (\<lambda>b. b\<lparr>sp_last := last0 as 0\<rparr>) ?s) else upd_mh (hd0 bs 0) (\<lambda>x. x\<lparr>mh_prev := last0 as 0\<rparr>) ?s) =
       Ret (?s\<lparr>ms_space := Some (b\<lparr>sp_first := hd0 as (hd0 bs 0), sp_last := last0 bs (last0 as 0)\<rparr>), ms_heap := h2\<rparr>)"
    "dll h2 (last0 as 0) bs 0" "same_blocks h1 h2" "\<And>x. x \<notin> set bs \<Longrightarrow> h2 x = h1 x"
    by (rule unlink_next [of ?s "b\<lparr>sp_first := hd0 as (hd0 bs 0)\<rparr>" bs cur "last0 as 0"]) (use assms(3) d e ab in auto)
  have c: "h2 cur = Some m" using h1(4) h2(4) ab m by simp
  let ?h = "h2(cur \<mapsto> m\<lparr>mh_prev := 0, mh_next := 0\<rparr>)"
  have a2: "dll h2 0 as (hd0 bs 0) = dll h1 0 as (hd0 bs 0)" by (rule dll_cong) (use h2(4) ab in auto)
  have sb: "same_blocks (ms_heap s) ?h"
    using h1(3) h2(3) same_blocks_upd [of h2 cur m "m\<lparr>mh_prev := 0, mh_next := 0\<rparr>"] c same_blocks_trans by force
  have "load_mh cur s = Ret m" using m by (simp add: load_mh_def)
  then have e: "mem_unlink cur s = upd_mh cur (\<lambda>m. m\<lparr>mh_prev := 0, mh_next := 0\<rparr>)
      (?s\<lparr>ms_space := Some (b\<lparr>sp_first := hd0 as (hd0 bs 0), sp_last := last0 bs (last0 as 0)\<rparr>), ms_heap := h2\<rparr>)"
    by (simp only: mem_unlink_def obind.simps m(3,4) h1(1) h2(1))
  show thesis
  proof (rule that [of ?h])
    show "dll ?h 0 (as @ bs) 0" using h1(2) h2(2) a2 ab by (simp add: dll_append dll_upd_out)
  qed (use m(1) c sb e in \<open>simp_all add: load_mh_def upd_mh_def\<close>)
qed

text \<open>
  An allocation gives up, or appends a zeroed block of the size asked for; freeing a block in use removes it.
\<close>

lemma mem_alloc_blk_ok:
  assumes ok: "ms_ok E bl s" and fresh: "alloc_fresh E" and small: "unat sz + unat (mse_hsize E) < 2 ^ 64"
  obtains s' where "mem_alloc_blk E sz s = Ret (0, s')" "ms_ok E bl s'"
  | p s' m where "mem_alloc_blk E sz s = Ret (p, s')" "p \<noteq> 0" "ms_ok E (bl @ [(p, unat sz + unat (mse_hsize E))]) s'"
      "ms_heap s' p = Some m" "mh_data m = replicate (unat sz) 0" "p \<notin> fst ` set bl"
proof -
  obtain b where b: "ms_space s = Some b" "sp_magic b = MEMBLOCK_MAGIC" "unat (sp_rsz b) < 2 ^ 32"
      "unat (sp_free b) + sum_list (map snd bl) = unat (sp_rsz b)" "sp_first b = hd0 (map fst bl) 0" "sp_last b = last0 (map fst bl) 0"
    and h: "distinct (map fst bl)" "dll (ms_heap s) 0 (map fst bl) 0" "dom (ms_heap s) = fst ` set bl"
      "\<forall>(p, k) \<in> set bl. \<exists>m. ms_heap s p = Some m \<and> unat (mh_sz m) = k \<and> unat (mse_hsize E) + length (mh_data m) = k"
    using ok by (auto simp: ms_ok_def)
  define xsz where "xsz = sz + mse_hsize E"
  have xsz: "unat xsz = unat sz + unat (mse_hsize E)"
    unfolding xsz_def using small by (subst unat_add_lem [THEN iffD1]) simp_all
  then have ge: "\<not> xsz < mse_hsize E" by (simp add: word_less_nat_alt)
  define p where "p = mse_alloc E (ms_calls s) xsz (ms_heap s)"
  define s1 where "s1 = s\<lparr>ms_calls := Suc (ms_calls s)\<rparr>"
  have ok1: "ms_ok E bl s1" using ok by (simp add: ms_ok_def s1_def)
  show thesis
  proof (cases "sp_free b < xsz \<or> p = 0")
    case True
    then consider "sp_free b < xsz" | "\<not> sp_free b < xsz" "p = 0" by blast
    then show thesis
    proof cases
      case 1
      show thesis by (rule that(1) [of s]) (use 1 ok b in \<open>simp_all add: mem_alloc_blk_def xsz_def Let_def\<close>)
    next
      case 2
      show thesis by (rule that(1) [of s1]) (use 2 ok1 b in \<open>simp_all add: mem_alloc_blk_def xsz_def p_def s1_def Let_def\<close>)
    qed
  next
    case False
    then have "p \<noteq> 0" "ms_heap s p = None" using fresh unfolding alloc_fresh_def p_def by blast+
    then have p: "p \<noteq> 0" "p \<notin> fst ` set bl" using h(3) by (metis, metis domIff)
    let ?m = "\<lparr>mh_magic = MEMHEADER_MAGIC, mh_sz = ucast xsz, mh_next = 0, mh_prev = 0, mh_data = replicate (unat sz) 0\<rparr>"
    let ?b = "b\<lparr>sp_free := sp_free b - xsz\<rparr>"
    let ?s = "s1\<lparr>ms_heap := (ms_heap s)(p \<mapsto> ?m), ms_space := Some ?b\<rparr>"
    have free: "unat (sp_free b - xsz) = unat (sp_free b) - unat xsz" "unat xsz \<le> unat (sp_free b)"
      using False by (auto simp: unat_sub word_le_nat_alt not_less)
    then have sz: "unat (ucast xsz :: u32) = unat xsz" using b(3,4) by (simp add: unsigned_ucast_eq take_bit_nat_eq_self)
    obtain h' where l: "mem_link p ?s = Ret (?s\<lparr>ms_space := Some (?b\<lparr>sp_first := hd0 (map fst bl @ [p]) 0, sp_last := p\<rparr>), ms_heap := h'\<rparr>)"
      "dll h' 0 (map fst bl @ [p]) 0" "dom h' = dom (ms_heap ?s)"
      "\<And>x y. ms_heap ?s x = Some y \<Longrightarrow> \<exists>z. h' x = Some z \<and> mh_sz z = mh_sz y \<and> mh_data z = mh_data y"
      by (rule mem_link_appends [of ?s ?b "map fst bl" p ?m]) (use b h p in \<open>auto simp: dll_upd_out\<close>)
    obtain m where m: "h' p = Some m" "mh_sz m = ucast xsz" "mh_data m = replicate (unat sz) 0" using l(4) [of p ?m] by auto
    have old: "\<exists>m. h' q = Some m \<and> unat (mh_sz m) = k \<and> unat (mse_hsize E) + length (mh_data m) = k" if a: "(q, k) \<in> set bl" for q k
    proof -
      have "q \<noteq> p" using a p(2) by force
      obtain y where y: "ms_heap s q = Some y" "unat (mh_sz y) = k" "unat (mse_hsize E) + length (mh_data y) = k" using bspec [OF h(4) a] by auto
      have "ms_heap ?s q = Some y" using y(1) \<open>q \<noteq> p\<close> by simp
      from l(4) [OF this] y show ?thesis by force
    qed
    show thesis
    proof (rule that(2) [of p "?s\<lparr>ms_space := Some (?b\<lparr>sp_first := hd0 (map fst bl @ [p]) 0, sp_last := p\<rparr>), ms_heap := h'\<rparr>" m])
      show "mem_alloc_blk E sz s = Ret (p, ?s\<lparr>ms_space := Some (?b\<lparr>sp_first := hd0 (map fst bl @ [p]) 0, sp_last := p\<rparr>), ms_heap := h'\<rparr>)"
        using b False ge l(1) by (simp add: mem_alloc_blk_def Let_def upd_space_def p_def s1_def xsz_def)
      show "ms_ok E (bl @ [(p, unat sz + unat (mse_hsize E))]) (?s\<lparr>ms_space := Some (?b\<lparr>sp_first := hd0 (map fst bl @ [p]) 0, sp_last := p\<rparr>), ms_heap := h'\<rparr>)"
        using b h(1) h(3) l(2,3) p free xsz sz m old by (auto simp: ms_ok_def)
    qed (use p m in auto)
  qed
qed

lemma mem_free_ok:
  assumes ok: "ms_ok E (as @ (p, k) # bs) s"
  obtains s' where "mem_free p s = Ret (0, s')" "ms_ok E (as @ bs) s'"
    "\<And>q m. ms_heap s q = Some m \<Longrightarrow> q \<noteq> p \<Longrightarrow> \<exists>m'. ms_heap s' q = Some m' \<and> mh_data m' = mh_data m"
proof -
  obtain b where b: "ms_space s = Some b" "sp_magic b = MEMBLOCK_MAGIC" "unat (sp_rsz b) < 2 ^ 32"
      "unat (sp_free b) + sum_list (map snd (as @ (p, k) # bs)) = unat (sp_rsz b)"
      "sp_first b = hd0 (map fst as @ p # map fst bs) 0" "sp_last b = last0 (map fst as @ p # map fst bs) 0"
    and h: "distinct (map fst as @ p # map fst bs)" "dll (ms_heap s) 0 (map fst as @ p # map fst bs) 0"
      "dom (ms_heap s) = fst ` set (as @ (p, k) # bs)"
      "\<forall>(p, k) \<in> set (as @ (p, k) # bs). \<exists>m. ms_heap s p = Some m \<and> unat (mh_sz m) = k \<and> unat (mse_hsize E) + length (mh_data m) = k"
    using ok by (auto simp: ms_ok_def)
  obtain m where m: "p \<noteq> 0" "ms_heap s p = Some m" "mh_magic m = MEMHEADER_MAGIC" "unat (mh_sz m) = k"
    using dll_in [OF h(2), of p] h(4) by auto
  obtain h' where u: "mem_unlink p s = Ret (s\<lparr>ms_space := Some (b\<lparr>sp_first := hd0 (map fst as @ map fst bs) 0, sp_last := last0 (map fst as @ map fst bs) 0\<rparr>), ms_heap := h'\<rparr>)"
    "dll h' 0 (map fst as @ map fst bs) 0" "same_blocks (ms_heap s) h'"
    by (rule mem_unlink_removes [OF b(1,5,6) h(2,1)])
  have "unat (ucast (mh_sz m) :: u64) = k" using m(4) unsigned_less [of "mh_sz m"] by (simp add: unsigned_ucast_eq take_bit_nat_eq_self)
  then have free: "unat (sp_free b + ucast (mh_sz m)) = unat (sp_free b) + k"
    using b(3,4) by (subst unat_add_lem [THEN iffD1]) simp_all
  have np: "p \<notin> set (map fst as @ map fst bs)" using h(1) by auto
  have d: "dll (h'(p := None)) 0 (map fst as @ map fst bs) 0" using u(2) dll_upd_out [OF np] by blast
  have old: "\<exists>m. (h'(p := None)) q = Some m \<and> unat (mh_sz m) = j \<and> unat (mse_hsize E) + length (mh_data m) = j"
    if a: "(q, j) \<in> set as \<union> set bs" for q j
  proof -
    have "q \<noteq> p" using a np by force
    obtain y where "ms_heap s q = Some y" "unat (mh_sz y) = j" "unat (mse_hsize E) + length (mh_data y) = j"
      using bspec [OF h(4), of "(q, j)"] a by auto
    then show ?thesis using u(3) \<open>q \<noteq> p\<close> unfolding same_blocks_def by force
  qed
  have dm: "dom (h'(p := None)) = fst ` set (as @ bs)" using u(3) h(3) np by (auto simp: same_blocks_def)
  let ?s = "s\<lparr>ms_space := Some (b\<lparr>sp_first := hd0 (map fst as @ map fst bs) 0, sp_last := last0 (map fst as @ map fst bs) 0, sp_free := sp_free b + ucast (mh_sz m)\<rparr>), ms_heap := h'(p := None)\<rparr>"
  show thesis
  proof (rule that [of ?s])
    show "mem_free p s = Ret (0, ?s)" using b m u(1) by (simp add: mem_free_def load_mh_def upd_space_def)
    show "ms_ok E (as @ bs) ?s" using b h(1) d dm old free by (auto simp: ms_ok_def)
    show "\<exists>m'. ms_heap ?s q = Some m' \<and> mh_data m' = mh_data m" if "ms_heap s q = Some m" "q \<noteq> p" for q m
      using u(3) that unfolding same_blocks_def by force
  qed
qed

lemma mem_navigate_walks:
  assumes "dll (ms_heap s) p xs 0" "\<And>x. x \<in> set xs \<Longrightarrow> \<exists>m. ms_heap s x = Some m \<and> mh_sz m = f x"
  shows "while_o (\<lambda>(p, xs). p \<noteq> 0) (\<lambda>(p, xs). obind (load_mh p s) (\<lambda>m. Ret (mh_next m, xs @ [(p, mh_sz m)]))) (hd0 xs 0, ys) =
     Ret (0, ys @ map (\<lambda>x. (x, f x)) xs)"
  using assms
proof (induction xs arbitrary: p ys)
  case (Cons x xs)
  then obtain m where m: "x \<noteq> 0" "ms_heap s x = Some m" "mh_next m = hd0 xs 0" "mh_sz m = f x" by force
  have "dll (ms_heap s) x xs 0" using Cons.prems(1) by simp
  note ih = Cons.IH [OF this Cons.prems(2), of "ys @ [(x, f x)]"]
  show ?case
    by (subst while_o_Ret [where y = "(hd0 xs 0, ys @ [(x, f x)])"])
       (use m ih in \<open>simp_all add: load_mh_def\<close>)
qed simp

lemma mem_navigate_ok:
  assumes "ms_ok E bl s"
  shows "mem_navigate s = Ret (map (\<lambda>(p, k). (p, of_nat k)) bl)"
proof -
  obtain b where b: "ms_space s = Some b" "sp_first b = hd0 (map fst bl) 0" using assms by (auto simp: ms_ok_def)
  let ?f = "\<lambda>x. mh_sz (the (ms_heap s x))"
  have "map (\<lambda>x. (x, ?f x)) (map fst bl) = map (\<lambda>(p, k). (p, of_nat k)) bl"
    using assms by (force simp: ms_ok_def)
  moreover have "dll (ms_heap s) 0 (map fst bl) 0" "\<And>x. x \<in> set (map fst bl) \<Longrightarrow> \<exists>m. ms_heap s x = Some m \<and> mh_sz m = ?f x"
    using assms by (force simp: ms_ok_def)+
  ultimately show ?thesis using mem_navigate_walks [of s 0 "map fst bl" ?f "[]"] b by (simp add: mem_navigate_def)
qed

text \<open>Writing into a block in use keeps the invariant.\<close>

lemma ms_ok_write:
  assumes ok: "ms_ok E bl s" and p: "ms_heap s p = Some m" "length d = length (mh_data m)"
  shows "ms_ok E bl (s\<lparr>ms_heap := (ms_heap s)(p \<mapsto> m\<lparr>mh_data := d\<rparr>)\<rparr>)"
proof -
  have "dll ((ms_heap s)(p \<mapsto> m\<lparr>mh_data := d\<rparr>)) q xs n = dll (ms_heap s) q xs n" for q xs n
    using p(1) by (induction xs arbitrary: q) auto
  moreover have "\<exists>m'. ((ms_heap s)(p \<mapsto> m\<lparr>mh_data := d\<rparr>)) q = Some m' \<and> unat (mh_sz m') = k \<and> unat (mse_hsize E) + length (mh_data m') = k"
    if "(q, k) \<in> set bl" for q k
    using that ok p by (force simp: ms_ok_def)
  moreover have "p \<in> fst ` set bl" using ok p(1) by (auto simp: ms_ok_def)
  ultimately show ?thesis using ok by (auto simp: ms_ok_def)
qed

lemma mem_strdup_ok:
  assumes ok: "ms_ok E bl s" and fresh: "alloc_fresh E" and small: "length str + 1 + unat (mse_hsize E) < 2 ^ 64"
  obtains s' where "mem_strdup E str s = Ret (0, s')" "ms_ok E bl s'"
  | p s' m where "mem_strdup E str s = Ret (p, s')" "p \<noteq> 0" "ms_ok E (bl @ [(p, length str + 1 + unat (mse_hsize E))]) s'"
      "ms_heap s' p = Some m" "mh_data m = str @ [0]"
proof -
  let ?sz = "of_nat (length str + 1) :: u64"
  have sz: "unat ?sz = length str + 1" using small by (simp only: unat_of_nat) simp
  have sp: "\<exists>b. ms_space s = Some b \<and> sp_magic b = MEMBLOCK_MAGIC" using ok by (auto simp: ms_ok_def)
  have "unat ?sz + unat (mse_hsize E) < 2 ^ 64" using small sz by simp
  from ok fresh this show thesis
  proof (cases rule: mem_alloc_blk_ok)
    case (1 s')
    show thesis by (rule that(1) [of s']) (use 1 sp in \<open>auto simp: mem_strdup_def\<close>)
  next
    case (2 p s' m)
    let ?d = "str @ drop (length str) (mh_data m)"
    have m: "mh_data m = replicate (length str + 1) 0" using 2(5) by (simp only: sz)
    have "drop (length str) (mh_data m) = [0]" unfolding m by (simp only: drop_replicate) simp
    then have d: "?d = str @ [0]" "length ?d = length (mh_data m)" using m by simp_all
    show thesis
    proof (rule that(2) [of p "s'\<lparr>ms_heap := (ms_heap s')(p \<mapsto> m\<lparr>mh_data := ?d\<rparr>)\<rparr>" "m\<lparr>mh_data := ?d\<rparr>"])
      show "mem_strdup E str s = Ret (p, s'\<lparr>ms_heap := (ms_heap s')(p \<mapsto> m\<lparr>mh_data := ?d\<rparr>)\<rparr>)"
        using 2 sp by (auto simp: mem_strdup_def upd_mh_def load_mh_def)
      show "ms_ok E (bl @ [(p, length str + 1 + unat (mse_hsize E))]) (s'\<lparr>ms_heap := (ms_heap s')(p \<mapsto> m\<lparr>mh_data := ?d\<rparr>)\<rparr>)"
        using ms_ok_write [OF 2(3,4) d(2)] sz by simp
    qed (use 2(2) d in simp_all)
  qed
qed

section \<open>Sessions\<close>

text \<open>
  A client of the space: it keeps the pointers it got and frees them by their position. The requests are
  those whose size with the header is a \<open>size_t\<close>.
\<close>

datatype ms_call = MAlloc u64 | MCalloc u64 u64 | MStrdup "u8 list" | MFree nat

fun ms_small :: "ms_env \<Rightarrow> ms_call \<Rightarrow> bool" where
  "ms_small E (MAlloc sz) \<longleftrightarrow> unat sz + unat (mse_hsize E) < 2 ^ 64"
| "ms_small E (MCalloc n sz) \<longleftrightarrow> unat (n * sz) + unat (mse_hsize E) < 2 ^ 64"
| "ms_small E (MStrdup str) \<longleftrightarrow> length str + 1 + unat (mse_hsize E) < 2 ^ 64"
| "ms_small E (MFree i) \<longleftrightarrow> True"

definition ms_keep :: "addr list \<Rightarrow> (addr \<times> ms_state) outcome \<Rightarrow> (addr list \<times> ms_state) outcome" where
  "ms_keep ps r = obind r (\<lambda>(p, s). Ret (if p = 0 then ps else ps @ [p], s))"

fun ms_step :: "ms_env \<Rightarrow> ms_call \<Rightarrow> addr list \<times> ms_state \<Rightarrow> (addr list \<times> ms_state) outcome" where
  "ms_step E (MAlloc sz) (ps, s) = ms_keep ps (mem_alloc_blk E sz s)"
| "ms_step E (MCalloc n sz) (ps, s) = ms_keep ps (mem_calloc E n sz s)"
| "ms_step E (MStrdup str) (ps, s) = ms_keep ps (mem_strdup E str s)"
| "ms_step E (MFree i) (ps, s) =
     (if i < length ps then obind (mem_free (ps ! i) s) (\<lambda>(r, s). Ret (take i ps @ drop (Suc i) ps, s)) else Ret (ps, s))"

fun ms_session :: "ms_env \<Rightarrow> ms_call list \<Rightarrow> addr list \<times> ms_state \<Rightarrow> (addr list \<times> ms_state) outcome" where
  "ms_session E [] x = Ret x"
| "ms_session E (c # cs) x = obind (ms_step E c x) (ms_session E cs)"

lemma ms_step_ok:
  assumes ok: "ms_ok E bl s" and fresh: "alloc_fresh E" and small: "ms_small E c"
  obtains (ms) bl' s' where "ms_step E c (map fst bl, s) = Ret (map fst bl', s')" "ms_ok E bl' s'"
proof -
  have keep: thesis if r: "ms_step E c (map fst bl, s) = ms_keep (map fst bl) (mem_alloc_blk E sz s)" "unat sz + unat (mse_hsize E) < 2 ^ 64" for sz
    using ok fresh r(2)
  proof (cases rule: mem_alloc_blk_ok)
    case (1 s')
    then show thesis using r(1) by (intro ms [where bl' = bl and s' = s']) (simp_all add: ms_keep_def)
  next
    case (2 p s' m)
    then show thesis using r(1) by (intro ms [of "bl @ [(p, unat sz + unat (mse_hsize E))]" s']) (simp_all add: ms_keep_def)
  qed
  show thesis
  proof (cases c)
    case (MAlloc sz) then show thesis using small by (intro keep [of sz]) simp_all
  next
    case (MCalloc n sz) then show thesis using small by (intro keep [of "n * sz"]) (simp_all add: mem_calloc_def)
  next
    case (MStrdup str)
    with small have "length str + 1 + unat (mse_hsize E) < 2 ^ 64" by simp
    from ok fresh this show thesis
    proof (cases rule: mem_strdup_ok)
      case (1 s') then show thesis using MStrdup by (intro ms [where bl' = bl and s' = s']) (simp_all add: ms_keep_def)
    next
      case (2 p s' m)
      then show thesis using MStrdup by (intro ms [of "bl @ [(p, length str + 1 + unat (mse_hsize E))]" s']) (simp_all add: ms_keep_def)
    qed
  next
    case (MFree i)
    show thesis
    proof (cases "i < length bl")
      case True
      then have bl: "bl = take i bl @ (fst (bl ! i), snd (bl ! i)) # drop (Suc i) bl" by (simp add: id_take_nth_drop)
      obtain s' where "mem_free (fst (bl ! i)) s = Ret (0, s')" "ms_ok E (take i bl @ drop (Suc i) bl) s'"
        by (rule mem_free_ok [where E = E and as = "take i bl" and p = "fst (bl ! i)" and k = "snd (bl ! i)" and bs = "drop (Suc i) bl" and s = s]) (use ok bl in auto)
      then show thesis using True MFree by (intro ms [of "take i bl @ drop (Suc i) bl" s']) (simp_all add: take_map drop_map)
    next
      case False then show thesis using MFree ok by (intro ms [of bl s]) simp_all
    qed
  qed
qed

lemma ms_session_ok:
  assumes "ms_ok E bl s" "alloc_fresh E" "\<forall>c \<in> set cs. ms_small E c"
  shows "\<exists>bl' s'. ms_session E cs (map fst bl, s) = Ret (map fst bl', s') \<and> ms_ok E bl' s'"
  using assms
proof (induction cs arbitrary: bl s)
  case (Cons c cs)
  obtain bl1 s1 where "ms_step E c (map fst bl, s) = Ret (map fst bl1, s1)" "ms_ok E bl1 s1"
    by (rule ms_step_ok [OF Cons.prems(1,2), of c]) (use Cons.prems in auto)
  then show ?case using Cons.IH [of bl1 s1] Cons.prems by auto
qed auto

section \<open>Reallocation\<close>

lemma ms_ok_block:
  assumes "ms_ok E bl s" "(p, k) \<in> set bl"
  obtains m where "p \<noteq> 0" "ms_heap s p = Some m" "mh_magic m = MEMHEADER_MAGIC" "unat (mh_sz m) = k" "unat (mse_hsize E) + length (mh_data m) = k"
proof -
  have d: "dll (ms_heap s) 0 (map fst bl) 0"
    and b: "\<forall>(p, k) \<in> set bl. \<exists>m. ms_heap s p = Some m \<and> unat (mh_sz m) = k \<and> unat (mse_hsize E) + length (mh_data m) = k"
    using assms(1) by (auto simp: ms_ok_def)
  have "p \<in> set (map fst bl)" using assms(2) by force
  from dll_in [OF d this] bspec [OF b assms(2)] show thesis using that by auto
qed

text \<open>
  A block is moved to a smaller place with its bytes; for any size above that of its own data the copy
  reads behind the block, since the size in the header counts the header too.
\<close>

lemma mem_realloc_outcome:
  assumes ok: "ms_ok E bl s" "alloc_fresh E" and p: "(p, k) \<in> set bl" "ms_heap s p = Some m"
    and sz: "sz \<noteq> 0" "unat sz + unat (mse_hsize E) < 2 ^ 64"
    and got: "mem_alloc_blk E sz s = Ret (q, s1)" "q \<noteq> 0" "ms_heap s1 p = Some m1"
  shows "mem_realloc E p sz s =
    (if length (mh_data m1) < min (unat sz) (unat (mh_sz m1)) then Fault OutOfBounds
     else let n = min (unat sz) (unat (mh_sz m1)) in
       obind (upd_mh q (\<lambda>x. x\<lparr>mh_data := take n (mh_data m1) @ drop n (mh_data x)\<rparr>) s1) (\<lambda>s.
       obind (mem_free p s) (\<lambda>(_, s). Ret (q, s))))"
proof -
  obtain b where b: "ms_space s = Some b" "sp_magic b = MEMBLOCK_MAGIC" using ok(1) by (auto simp: ms_ok_def)
  have "p \<noteq> 0" using ok(1) p(1) by (rule ms_ok_block)
  moreover have "(if sz < ucast (mh_sz m1) then unat sz else unat (mh_sz m1)) = min (unat sz) (unat (mh_sz m1))"
    by (simp add: word_less_nat_alt min_def)
  ultimately show ?thesis using b sz(1) got by (simp add: mem_realloc_def load_mh_def Let_def)
qed

lemma mem_realloc_moves:
  assumes ok: "ms_ok E (as @ (p, k) # bs) s" "alloc_fresh E" and sz: "sz \<noteq> 0" "unat sz + unat (mse_hsize E) < 2 ^ 64"
    and got: "mem_alloc_blk E sz s = Ret (q, s1)" "q \<noteq> 0" and m: "ms_heap s1 p = Some m"
  shows "unat sz + unat (mse_hsize E) \<le> k \<Longrightarrow>
      \<exists>s' m'. mem_realloc E p sz s = Ret (q, s') \<and> ms_ok E (as @ bs @ [(q, unat sz + unat (mse_hsize E))]) s' \<and>
        ms_heap s' q = Some m' \<and> mh_data m' = take (unat sz) (mh_data m)"
    and "mse_hsize E \<noteq> 0 \<Longrightarrow> k < unat sz + unat (mse_hsize E) \<Longrightarrow> mem_realloc E p sz s = Fault OutOfBounds"
proof -
  let ?bl = "as @ (p, k) # bs" and ?n = "unat sz + unat (mse_hsize E)"
  obtain m0 where q: "ms_ok E (?bl @ [(q, ?n)]) s1" "ms_heap s1 q = Some m0" "mh_data m0 = replicate (unat sz) 0" "q \<notin> fst ` set ?bl"
    using ok(1) ok(2) sz(2)
  proof (cases rule: mem_alloc_blk_ok)
    case (1 s') then show thesis using got by simp
  next
    case (2 a s' m') then show thesis using got that by auto
  qed
  obtain mp where mp: "ms_heap s p = Some mp" by (rule ms_ok_block [OF ok(1), of p k]) auto
  have mk: "unat (mh_sz m) = k" "unat (mse_hsize E) + length (mh_data m) = k"
    by (rule ms_ok_block [OF q(1), of p k]; use m in auto)+
  note out = mem_realloc_outcome [OF ok(1,2) _ mp sz got m, of k, simplified]
  show "mem_realloc E p sz s = Fault OutOfBounds" if "mse_hsize E \<noteq> 0" "k < unat sz + unat (mse_hsize E)"
  proof -
    have "0 < unat (mse_hsize E)" using that(1) by (simp add: unat_gt_0)
    then have "length (mh_data m) < min (unat sz) (unat (mh_sz m))" using that mk by linarith
    then show ?thesis using out by simp
  qed
  show "\<exists>s' m'. mem_realloc E p sz s = Ret (q, s') \<and> ms_ok E (as @ bs @ [(q, unat sz + unat (mse_hsize E))]) s' \<and>
        ms_heap s' q = Some m' \<and> mh_data m' = take (unat sz) (mh_data m)" if le: "unat sz + unat (mse_hsize E) \<le> k"
  proof -
    have n: "min (unat sz) (unat (mh_sz m)) = unat sz" "\<not> length (mh_data m) < unat sz" using le mk by auto
    let ?d = "take (unat sz) (mh_data m) @ drop (unat sz) (mh_data m0)"
    have d: "length ?d = length (mh_data m0)" "?d = take (unat sz) (mh_data m)" using n(2) q(3) by auto
    have pq: "p \<noteq> q" using q(4) by auto
    have q0: "load_mh q s1 = Ret m0" using got(2) q(2) by (simp add: load_mh_def)
    let ?s2 = "s1\<lparr>ms_heap := (ms_heap s1)(q \<mapsto> m0\<lparr>mh_data := ?d\<rparr>)\<rparr>"
    have "ms_ok E (as @ (p, k) # (bs @ [(q, ?n)])) ?s2" using ms_ok_write [OF q(1,2) d(1)] by simp
    then obtain s3 where s3: "mem_free p ?s2 = Ret (0, s3)" "ms_ok E (as @ bs @ [(q, ?n)]) s3"
      "\<And>q m. ms_heap ?s2 q = Some m \<Longrightarrow> q \<noteq> p \<Longrightarrow> \<exists>m'. ms_heap s3 q = Some m' \<and> mh_data m' = mh_data m" by (rule mem_free_ok) (rule that)
    have "\<exists>m'. ms_heap s3 q = Some m' \<and> mh_data m' = ?d" using s3(3) [of q "m0\<lparr>mh_data := ?d\<rparr>"] pq by simp
    then show ?thesis using out n q0 s3 d(2) by (auto simp: upd_mh_def)
  qed
qed

text \<open>The old block after the allocation, and the size of the space, which no call changes.\<close>

lemma mem_alloc_blk_data:
  assumes "ms_ok E (as @ (p, k) # bs) s" "alloc_fresh E" "unat sz + unat (mse_hsize E) < 2 ^ 64"
    and "mem_alloc_blk E sz s = Ret (q, s1)" "q \<noteq> 0" "ms_heap s1 p = Some m"
  shows "unat (mse_hsize E) + length (mh_data m) = k"
  using assms(1-3)
proof (cases rule: mem_alloc_blk_ok)
  case (2 a s' m')
  show ?thesis by (rule ms_ok_block [OF 2(3), of p k]) (use 2 assms in auto)
qed (use assms in simp)

definition ms_rsz :: "ms_state \<Rightarrow> u64 option" where
  "ms_rsz s = map_option sp_rsz (ms_space s)"

lemma upd_space_rsz: "(\<And>b. sp_rsz (f b) = sp_rsz b) \<Longrightarrow> ms_rsz (upd_space f s) = ms_rsz s"
  by (cases "ms_space s") (simp_all add: ms_rsz_def upd_space_def)

lemma upd_mh_rsz: "upd_mh p f s = Ret s' \<Longrightarrow> ms_rsz s' = ms_rsz s"
  by (auto simp: upd_mh_def outcome_simps ms_rsz_def)

lemma mem_link_rsz: "mem_link cur s = Ret s' \<Longrightarrow> ms_rsz s' = ms_rsz s"
  by (auto simp: mem_link_def Let_def outcome_simps upd_space_rsz dest!: upd_mh_rsz split: option.splits if_splits)

lemma mem_alloc_blk_rsz: "mem_alloc_blk E sz s = Ret (p, s') \<Longrightarrow> ms_rsz s' = ms_rsz s"
  by (auto simp: mem_alloc_blk_def Let_def outcome_simps dest!: mem_link_rsz split: option.splits if_splits)
     (auto simp: ms_rsz_def upd_space_def)

lemma mem_unlink_rsz: "mem_unlink cur s = Ret s' \<Longrightarrow> ms_rsz s' = ms_rsz s"
  by (auto simp: mem_unlink_def outcome_simps upd_space_rsz dest!: upd_mh_rsz split: if_splits)

lemma mem_free_rsz: "mem_free p s = Ret (r, s') \<Longrightarrow> ms_rsz s' = ms_rsz s"
  by (auto simp: mem_free_def outcome_simps upd_space_rsz dest!: mem_unlink_rsz split: option.splits if_splits)
     (auto simp: ms_rsz_def upd_space_def)

lemma mem_strdup_rsz: "mem_strdup E str s = Ret (p, s') \<Longrightarrow> ms_rsz s' = ms_rsz s"
  by (auto simp: mem_strdup_def outcome_simps dest!: mem_alloc_blk_rsz upd_mh_rsz split: option.splits if_splits)

lemma ms_step_rsz: "ms_step E c x = Ret y \<Longrightarrow> ms_rsz (snd y) = ms_rsz (snd x)"
  by (cases "(E, c, x)" rule: ms_step.cases)
     (auto simp: ms_keep_def mem_calloc_def outcome_simps dest!: mem_alloc_blk_rsz mem_strdup_rsz mem_free_rsz split: if_splits)

lemma ms_session_rsz: "ms_session E cs (ps, s) = Ret (qs, s') \<Longrightarrow> ms_rsz s' = ms_rsz s"
proof (induction cs arbitrary: ps s)
  case (Cons c cs)
  then show ?case by (auto simp: outcome_simps dest!: ms_step_rsz)
qed simp

section \<open>An allocator for the witnesses\<close>

definition demo_space_env :: ms_env where
  "demo_space_env = \<lparr>mse_hsize = 32, mse_space = (\<lambda>_. True),
     mse_alloc = (\<lambda>n k h. let a = 4096 * (of_nat n + 1) in if h a = None then a else 0)\<rparr>"

lemma demo_space_env_fresh: "alloc_fresh demo_space_env"
  by (simp add: alloc_fresh_def demo_space_env_def Let_def)

definition demo_space :: memspace where
  "demo_space = \<lparr>sp_magic = MEMBLOCK_MAGIC, sp_sz = 1000, sp_rsz = 2024, sp_free = 2024, sp_first = 0, sp_last = 0\<rparr>"

lemma demo_space_init: "mem_init demo_space_env 1000 = Some demo_space"
  by (simp add: mem_init_def demo_space_env_def demo_space_def)

definition demo_ms :: ms_state where
  "demo_ms = \<lparr>ms_space = Some demo_space, ms_heap = Map.empty, ms_calls = 0\<rparr>"

section \<open>Sessions\<close>

text \<open>C17. A session on a memory space: after any sequence of \<open>mem_alloc\<close>, \<open>mem_calloc\<close>, \<open>mem_strdup\<close> and
  \<open>mem_free\<close> of pointers that are in use, started on the space \<open>mem_init\<close> returns, every call has returned, the
  pointers held are distinct, \<open>mem_navigate\<close> lists exactly their blocks in the order of their allocation, and the
  bytes counted as free and the sizes of the blocks with their headers add up to the size of the space.\<close>

theorem memory_space_accounts:
  assumes "mem_init E sz = Some b" "unat sz + 1024 < 2 ^ 32" "alloc_fresh E" "\<forall>c \<in> set cs. ms_small E c"
  shows "\<exists>bl s b'. ms_session E cs ([], \<lparr>ms_space = Some b, ms_heap = Map.empty, ms_calls = 0\<rparr>) = Ret (map fst bl, s)
    \<and> distinct (map fst bl) \<and> mem_navigate s = Ret (map (\<lambda>(p, k). (p, of_nat k)) bl)
    \<and> ms_space s = Some b' \<and> unat (sp_free b') + sum_list (map snd bl) = unat sz + 1024"
proof -
  let ?s = "\<lparr>ms_space = Some b, ms_heap = Map.empty, ms_calls = 0\<rparr>"
  obtain bl s where s: "ms_session E cs ([], ?s) = Ret (map fst bl, s)" "ms_ok E bl s"
    using ms_session_ok [OF mem_init_ok [OF assms(1,2)] assms(3,4), of 0] by auto
  have "unat (sz + 1024) = unat sz + 1024" using assms(2) by (subst unat_add_lem [THEN iffD1]) simp_all
  then have r: "unat (sp_rsz b) = unat sz + 1024" using assms(1) by (auto simp: mem_init_def split: if_splits)
  have "ms_rsz s = ms_rsz ?s" using s(1) by (rule ms_session_rsz)
  then show ?thesis using s mem_navigate_ok [OF s(2)] r by (auto simp: ms_ok_def ms_rsz_def)
qed

theorem memory_space_accounts_witness:
  "\<exists>bl s b'. ms_session demo_space_env [MAlloc 10, MStrdup [1, 2], MFree 0] ([], demo_ms) = Ret (map fst bl, s)
    \<and> distinct (map fst bl) \<and> mem_navigate s = Ret (map (\<lambda>(p, k). (p, of_nat k)) bl)
    \<and> ms_space s = Some b' \<and> unat (sp_free b') + sum_list (map snd bl) = 2024"
proof -
  have "\<forall>c \<in> set [MAlloc 10, MStrdup [1, 2], MFree 0]. ms_small demo_space_env c" by (simp add: demo_space_env_def)
  from memory_space_accounts [OF demo_space_init _ demo_space_env_fresh this] show ?thesis by (simp add: demo_ms_def)
qed

section \<open>Reallocation\<close>

text \<open>C36. \<open>mem_realloc\<close> of a block in use to a size for which there is memory: if the new size is at most that of
  the old data, the new block holds its first bytes and the old one is gone; for every larger size the copy
  reads behind the old block, since it takes the size in the header, which includes the header itself.\<close>

theorem mem_realloc_shrinks_or_overreads:
  assumes "ms_ok E (as @ (p, k) # bs) s" "alloc_fresh E" "mse_hsize E \<noteq> 0" "sz \<noteq> 0" "unat sz + unat (mse_hsize E) < 2 ^ 64"
    and "mem_alloc_blk E sz s = Ret (q, s1)" "q \<noteq> 0" "ms_heap s1 p = Some m"
  shows "if unat sz \<le> length (mh_data m)
    then \<exists>s' m'. mem_realloc E p sz s = Ret (q, s') \<and> ms_ok E (as @ bs @ [(q, unat sz + unat (mse_hsize E))]) s'
      \<and> ms_heap s' q = Some m' \<and> mh_data m' = take (unat sz) (mh_data m)
    else mem_realloc E p sz s = Fault OutOfBounds"
proof -
  have "unat (mse_hsize E) + length (mh_data m) = k" by (rule mem_alloc_blk_data [OF assms(1,2,5-8)])
  then show ?thesis using mem_realloc_moves [OF assms(1,2,4-8)] assms(3) by auto
qed

theorem mem_realloc_shrinks_or_overreads_witness:
  "case mem_alloc_blk demo_space_env 8 demo_ms of Ret (p, s) \<Rightarrow> mem_realloc demo_space_env p 9 s = Fault OutOfBounds | Fault e \<Rightarrow> False"
proof -
  let ?s = "demo_ms\<lparr>ms_calls := 1, ms_heap := [4096 \<mapsto> \<lparr>mh_magic = MEMHEADER_MAGIC, mh_sz = 40, mh_next = 0, mh_prev = 0, mh_data = replicate 8 0\<rparr>],
    ms_space := Some (demo_space\<lparr>sp_free := 1984, sp_first := 4096, sp_last := 4096\<rparr>)\<rparr>"
  have a: "mem_alloc_blk demo_space_env 8 demo_ms = Ret (4096, ?s)"
    by (simp add: mem_alloc_blk_def demo_ms_def demo_space_def demo_space_env_def mem_link_def upd_space_def upd_mh_def load_mh_def Let_def)
  have ok: "ms_ok demo_space_env ([] @ (4096, 40) # []) ?s"
    by (simp add: ms_ok_def demo_space_def demo_ms_def demo_space_env_def)
  obtain q s1 m where b: "mem_alloc_blk demo_space_env 9 ?s = Ret (q, s1)" "q \<noteq> 0" "ms_heap s1 4096 = Some m" "mh_data m = replicate 8 0"
    by (simp add: mem_alloc_blk_def demo_ms_def demo_space_def demo_space_env_def mem_link_def upd_space_def upd_mh_def load_mh_def Let_def)
  show ?thesis
    using mem_realloc_shrinks_or_overreads [OF ok demo_space_env_fresh _ _ _ b(1-3)] b(4)
    by (simp add: a) (simp add: demo_space_env_def)
qed

end
