(* ===== verification/Db_Result.thy ===== *)
theory Db_Result
  imports Net_Base
begin

text \<open>
  exts/sqlwrap: the data of lib/inc/dblib.h and the operations on result lists of lib/src/dblib_net.c. The
  blocks of a result come from a buffer class of libs/sos; what such a block holds is kept beside the
  object store of the process, in \<open>d_objs\<close>, and can be read as long as the block is in use. The debug
  messages of the functions are left out (Db_Server has the log itself).
\<close>

unbundle bit_operations_syntax

section \<open>Data\<close>

definition DB_TYPE_INTEGER :: u32 where "DB_TYPE_INTEGER = 1"
definition DB_TYPE_STRING :: u32 where "DB_TYPE_STRING = 2"
definition ERR_MSG_LEN :: nat where "ERR_MSG_LEN = 64"
definition DB_NORES :: u32 where "DB_NORES = 0x100"
definition DB_CMD_COMMAND :: u32 where "DB_CMD_COMMAND = 0x00aa00fc"
definition DB_CMD_STOP :: u32 where "DB_CMD_STOP = 0x00aa00fd"

record db_result_list_item =
  di_type :: u32
  di_intval :: u32
  di_strval :: addr
  di_lenstr :: u32

record db_result_list_column =
  dc_count :: u32
  dc_items :: addr
  dc_next :: addr

record db_result_list =
  dl_ret :: u32
  dl_errmsg :: addr
  dl_count :: u32
  dl_items :: addr

text \<open>A result function: NULL, the one of this file, or one of the caller.\<close>

datatype res_fn = NullFn | GenericFn | UserFn fnptr

record db_cmd_t =
  cm_res :: u32
  cm_xid :: u32
  cm_cmd :: addr
  cm_len :: u32
  cm_res_f :: res_fn
  cm_result_list :: addr
  cm_sig :: u32

record db_client_t =
  cl_addr :: net_addrinfo_t
  cl_channel :: u32
  cl_port :: u32
  cl_thread :: u32

record db_t =
  dt_name :: string
  dt_db :: addr
  dt_cmd_bcls :: u32
  dt_socket_port :: u32
  dt_addr :: net_addrinfo_t
  dt_serv_port :: u32
  dt_payload :: u32

text \<open>The sizes of the structures on the LP64 targets, where \<open>aligned\<close> means 16 bytes.\<close>

definition SZ_item :: u32 where "SZ_item = 32"
definition SZ_column :: u32 where "SZ_column = 32"
definition SZ_list :: u32 where "SZ_list = 32"
definition SZ_cmd :: u32 where "SZ_cmd = 48"
definition SZ_client :: u32 where "SZ_client = 56"
definition SZ_db :: u64 where "SZ_db = 208"

datatype db_obj =
    DList db_result_list
  | DCol db_result_list_column
  | DItems "db_result_list_item list"
  | DText "u8 list"
  | DCmd db_cmd_t
  | DClient db_client_t
  | DDb db_t

fun the_dlist :: "db_obj \<Rightarrow> db_result_list option" where "the_dlist (DList x) = Some x" | "the_dlist _ = None"
fun the_dcol :: "db_obj \<Rightarrow> db_result_list_column option" where "the_dcol (DCol x) = Some x" | "the_dcol _ = None"
fun the_ditems :: "db_obj \<Rightarrow> db_result_list_item list option" where "the_ditems (DItems x) = Some x" | "the_ditems _ = None"
fun the_dtext :: "db_obj \<Rightarrow> u8 list option" where "the_dtext (DText x) = Some x" | "the_dtext _ = None"
fun the_dcmd :: "db_obj \<Rightarrow> db_cmd_t option" where "the_dcmd (DCmd x) = Some x" | "the_dcmd _ = None"
fun the_dclient :: "db_obj \<Rightarrow> db_client_t option" where "the_dclient (DClient x) = Some x" | "the_dclient _ = None"
fun the_ddb :: "db_obj \<Rightarrow> db_t option" where "the_ddb (DDb x) = Some x" | "the_ddb _ = None"

text \<open>
  The static variables: an entry of \<open>dbman_current_channel_port_set\<close>, and the state of the process with those of
  dblib_net.c and dbprintf.c.
\<close>

record chan_port =
  cp_portid :: u32
  cp_channelid :: u32
  cp_exec_continue :: u32
  cp_thr :: u32
  cp_avail :: u32

record db_state =
  d_os :: os_state
  d_objs :: "addr \<rightharpoonup> db_obj"
  d_steps :: nat            \<comment> \<open>calls made to sqlite so far\<close>
  db :: addr
  db_inited :: u32
  db_buffer_id :: u32
  port_set_lock :: bool
  port_set :: "chan_port list"
  dbman_dbg_level :: u8
  dbman_dbg_file_fp :: bool
  dbman_dbg_file_open :: bool
  dbman_dbg_printf_initted :: u32
  dbman_dbg_print_lock :: u32
  dbman_log :: "(bool \<times> string) list"  \<comment> \<open>what was written, to the file or to the console\<close>

type_synonym 'a dbm = "db_state \<Rightarrow> ('a \<times> db_state) outcome"

text \<open>
  The environment: that of the library below, what blocks hold before they are written, the result functions of
  a caller, the addresses of the two functions that are handed to libs/sos, the log file, and sqlite, whose
  answers may depend on everything it was asked before.
\<close>

record db_env =
  de_os :: os_env
  de_net :: net_env
  de_thr :: thr_env
  de_junk_item :: "nat \<Rightarrow> nat \<Rightarrow> db_result_list_item"
  de_junk_subtype :: "nat \<Rightarrow> u8"
  de_junk_byte :: "nat \<Rightarrow> nat \<Rightarrow> u8"
  de_result_f :: "fnptr \<Rightarrow> u32 \<Rightarrow> addr \<Rightarrow> int dbm"
  de_client_server :: fnptr
  de_port_callback :: fnptr
  de_fopen :: "string \<Rightarrow> bool"
  sq_open :: "nat \<Rightarrow> string \<Rightarrow> u32 \<times> addr"
  sq_close :: "nat \<Rightarrow> addr \<Rightarrow> u32"
  sq_prepare :: "nat \<Rightarrow> addr \<Rightarrow> u8 list \<Rightarrow> u32 \<times> addr"
  sq_step :: "nat \<Rightarrow> addr \<Rightarrow> u32"
  sq_finalize :: "nat \<Rightarrow> addr \<Rightarrow> u32"
  sq_column_count :: "nat \<Rightarrow> addr \<Rightarrow> u32"
  sq_column_type :: "nat \<Rightarrow> addr \<Rightarrow> nat \<Rightarrow> u32"
  sq_column_int :: "nat \<Rightarrow> addr \<Rightarrow> nat \<Rightarrow> u32"
  sq_column_text :: "nat \<Rightarrow> addr \<Rightarrow> nat \<Rightarrow> u8 list"
  sq_errmsg :: "nat \<Rightarrow> addr \<Rightarrow> u8 list"

section \<open>Memory\<close>

definition dload :: "(db_obj \<Rightarrow> 'a option) \<Rightarrow> addr \<Rightarrow> db_state \<Rightarrow> 'a outcome" where
  "dload sel p s =
     (if p = 0 then Fault NullDeref
      else if heap (d_os s) p = None then Fault BadPtr
      else case d_objs s p of None \<Rightarrow> Fault Uninit_Read
      | Some x \<Rightarrow> (case sel x of None \<Rightarrow> Fault BadPtr | Some v \<Rightarrow> Ret v))"

definition dput :: "addr \<Rightarrow> db_obj \<Rightarrow> db_state \<Rightarrow> db_state" where
  "dput p x s = s\<lparr>d_objs := (d_objs s)(p \<mapsto> x)\<rparr>"

text \<open>A call of the library below.\<close>

definition db_os :: "'a os \<Rightarrow> 'a dbm" where
  "db_os f s = obind (f (d_os s)) (\<lambda>(r, o'). Ret (r, s\<lparr>d_os := o'\<rparr>))"

definition db_mem_alloc :: "db_env \<Rightarrow> u32 \<Rightarrow> addr dbm" where
  "db_mem_alloc E sz s =
     obind (db_os (buff_alloc_data (de_os E) (db_buffer_id s) sz) s) (\<lambda>(p, s).
     Ret (p, s\<lparr>d_objs := (d_objs s)(p := None)\<rparr>))"

definition db_mem_free :: "addr \<Rightarrow> u32 dbm" where
  "db_mem_free p s = db_os (buff_free_data (db_buffer_id s) p) s"

text \<open>A pointer to an item is its array and its index.\<close>

definition load_item :: "addr \<Rightarrow> nat \<Rightarrow> db_state \<Rightarrow> db_result_list_item outcome" where
  "load_item a i s = obind (dload the_ditems a s) (\<lambda>xs. if i < length xs then Ret (xs ! i) else Fault OutOfBounds)"

definition upd_item :: "addr \<Rightarrow> nat \<Rightarrow> (db_result_list_item \<Rightarrow> db_result_list_item) \<Rightarrow> db_state \<Rightarrow> db_state outcome" where
  "upd_item a i f s =
     obind (dload the_ditems a s) (\<lambda>xs. if i < length xs then Ret (dput a (DItems (xs[i := f (xs ! i)])) s) else Fault OutOfBounds)"

definition null_item :: "addr \<Rightarrow> nat \<Rightarrow> bool" where
  "null_item a i \<longleftrightarrow> a + ucast SZ_item * of_nat i = 0"

section \<open>Reading a result\<close>

definition dbman_result_error :: "addr \<Rightarrow> db_state \<Rightarrow> u32 outcome" where
  "dbman_result_error rlist s = (if rlist = 0 then Ret 0 else obind (dload the_dlist rlist s) (\<lambda>l. Ret (dl_ret l)))"

definition dbman_result_errmsg :: "addr \<Rightarrow> db_state \<Rightarrow> (string + addr) outcome" where
  "dbman_result_errmsg rlist s =
     (if rlist = 0 then Ret (Inl ''NULL'') else obind (dload the_dlist rlist s) (\<lambda>l. Ret (Inr (dl_errmsg l))))"

definition dbman_result_list_size :: "addr \<Rightarrow> db_state \<Rightarrow> u32 outcome" where
  "dbman_result_list_size rlist s = (if rlist = 0 then Ret 0 else obind (dload the_dlist rlist s) (\<lambda>l. Ret (dl_count l)))"

definition dbman_result_column_size :: "addr \<Rightarrow> db_state \<Rightarrow> u32 outcome" where
  "dbman_result_column_size rcol s = (if rcol = 0 then Ret 0 else obind (dload the_dcol rcol s) (\<lambda>c. Ret (dc_count c)))"

fun fetch_loop :: "nat \<Rightarrow> addr \<Rightarrow> db_state \<Rightarrow> addr outcome" where
  "fetch_loop 0 col s = Ret col"
| "fetch_loop (Suc n) col s =
     obind (dload the_dcol col s) (\<lambda>c. if dc_next c = 0 then Ret 0 else fetch_loop n (dc_next c) s)"

definition dbman_fetch_column :: "addr \<Rightarrow> u32 \<Rightarrow> db_state \<Rightarrow> addr outcome" where
  "dbman_fetch_column rlist index s =
     (if rlist = 0 then Ret 0
      else obind (dload the_dlist rlist s) (\<lambda>l.
      if dl_count l < index then Ret 0 else fetch_loop (nat (sint index)) (dl_items l) s))"

definition dbman_fetch_item :: "addr \<Rightarrow> u32 \<Rightarrow> db_state \<Rightarrow> (addr \<times> nat) option outcome" where
  "dbman_fetch_item rcol index s =
     (if rcol = 0 then Ret None
      else obind (dload the_dcol rcol s) (\<lambda>c.
      if dc_count c < index then Ret None
      else Ret (if null_item (dc_items c) (unat index) then None else Some (dc_items c, unat index))))"

text \<open>Traversal: what the function of the caller gets, in order. \<open>func\<close> tells whether it is given.\<close>

datatype visit = VisitInt nat nat u32 | VisitStr nat nat addr u32

definition visit_item :: "bool \<Rightarrow> nat \<Rightarrow> nat \<Rightarrow> db_result_list_item \<Rightarrow> visit list" where
  "visit_item func ix iy it =
     (if \<not> func then []
      else if di_type it = DB_TYPE_INTEGER then [VisitInt ix iy (di_intval it)]
      else if di_type it = DB_TYPE_STRING then [VisitStr ix iy (di_strval it) (di_lenstr it)] else [])"

fun traverse_items :: "bool \<Rightarrow> nat \<Rightarrow> nat \<Rightarrow> nat \<Rightarrow> addr \<Rightarrow> db_state \<Rightarrow> (int \<times> visit list) outcome" where
  "traverse_items func ix 0 iy line s = Ret (0, [])"
| "traverse_items func ix (Suc n) iy line s =
     obind (dbman_fetch_item line (of_nat iy) s) (\<lambda>p.
     case p of None \<Rightarrow> Ret (-1, [])
     | Some (a, i) \<Rightarrow> obind (load_item a i s) (\<lambda>it.
       obind (traverse_items func ix n (Suc iy) line s) (\<lambda>(r, vs). Ret (r, visit_item func ix iy it @ vs))))"

fun traverse_rows :: "bool \<Rightarrow> nat \<Rightarrow> nat \<Rightarrow> addr \<Rightarrow> db_state \<Rightarrow> (int \<times> visit list) outcome" where
  "traverse_rows func 0 ix result s = Ret (0, [])"
| "traverse_rows func (Suc n) ix result s =
     obind (dbman_fetch_column result (of_nat ix) s) (\<lambda>line.
     if line = 0 then Ret (-1, [])
     else obind (dbman_result_column_size line s) (\<lambda>column.
     obind (traverse_items func ix (unat column) 0 line s) (\<lambda>(r, vs).
     if r \<noteq> 0 then Ret (r, vs)
     else obind (traverse_rows func n (Suc ix) result s) (\<lambda>(r, ws). Ret (r, vs @ ws)))))"

definition dbman_result_traverse :: "bool \<Rightarrow> addr \<Rightarrow> db_state \<Rightarrow> (int \<times> visit list) outcome" where
  "dbman_result_traverse func result s =
     (if result = 0 then Ret (-1, [])
      else obind (dbman_result_list_size result s) (\<lambda>row. traverse_rows func (unat row) 0 result s))"

section \<open>Releasing a result\<close>

fun free_strings :: "nat \<Rightarrow> nat \<Rightarrow> addr \<Rightarrow> db_state \<Rightarrow> db_state outcome" where
  "free_strings 0 ix a s = Ret s"
| "free_strings (Suc n) ix a s =
     (if null_item a ix then Ret s
      else obind (load_item a ix s) (\<lambda>it.
      obind (if di_type it = DB_TYPE_STRING then db_mem_free (di_strval it) s else Ret (OKAY, s)) (\<lambda>(r, s).
      free_strings n (Suc ix) a s)))"

definition free_column :: "addr \<times> db_state \<Rightarrow> (addr \<times> db_state) outcome" where
  "free_column = (\<lambda>(rcol, s).
     obind (dload the_dcol rcol s) (\<lambda>c.
     obind (if dc_count c \<noteq> 0
            then obind (free_strings (unat (dc_count c)) 0 (dc_items c) s) (\<lambda>s.
                 obind (db_mem_free (dc_items c) s) (\<lambda>(r, s). Ret s))
            else Ret s) (\<lambda>s.
     obind (dload the_dcol rcol s) (\<lambda>c.
     obind (db_mem_free rcol s) (\<lambda>(r, s). Ret (dc_next c, s))))))"

definition dbman_result_free :: "addr \<Rightarrow> int dbm" where
  "dbman_result_free rlist s =
     (if rlist = 0 then Ret (-1, s)
      else obind (dload the_dlist rlist s) (\<lambda>l.
      obind (if dl_errmsg l \<noteq> 0 then db_mem_free (dl_errmsg l) s else Ret (OKAY, s)) (\<lambda>(r, s).
      obind (dload the_dlist rlist s) (\<lambda>l.
      obind (while_o (\<lambda>(rcol, s). rcol \<noteq> 0) free_column (dl_items l, s)) (\<lambda>(rcol, s).
      obind (db_mem_free rlist s) (\<lambda>(r, s). Ret (0, s)))))))"

end
