(* ===== verification/Db_Pstor.thy ===== *)
theory Db_Pstor
  imports Db_Result
begin

text \<open>
  exts/sqlwrap/lib/src/pstor.c: a result list as bytes and back. The space is the list of the bytes behind
  the pointer, up to the end of the block it points into; reading or writing behind them is a fault.
  A \<open>goto\<close> to the end of a function is the value \<open>None\<close>.
\<close>

section \<open>Constants and headers\<close>

definition DB_SPACE_COLUMN_DELIMITER :: u32 where "DB_SPACE_COLUMN_DELIMITER = 0x5a5a9821"
definition DBMAN_ERRMSG_LEN :: nat where "DBMAN_ERRMSG_LEN = 64"
definition DB_SPACE_TYPE_ITEM :: u8 where "DB_SPACE_TYPE_ITEM = 1"
definition DB_SPACE_TYPE_COLUMN :: u8 where "DB_SPACE_TYPE_COLUMN = 2"
definition DB_SPACE_TYPE_HEADER :: u8 where "DB_SPACE_TYPE_HEADER = 3"
definition DB_SPACE_TYPE_RESULT_HEADER :: u8 where "DB_SPACE_TYPE_RESULT_HEADER = 4"
definition DB_SPACE_TYPE_ITEM_INTEGER :: u8 where "DB_SPACE_TYPE_ITEM_INTEGER = 0xE1"
definition DB_SPACE_TYPE_ITEM_STRING :: u8 where "DB_SPACE_TYPE_ITEM_STRING = 0xE2"

record dbman_item_header_t =
  ih_type :: u8
  ih_subtype :: u8
  ih_row :: u32
  ih_col :: u32

text \<open>The structures are packed: 10 and 68 bytes.\<close>

definition SZ_item_header :: u32 where "SZ_item_header = 10"
definition SZ_result_header :: u32 where "SZ_result_header = 68"

definition header_bytes :: "dbman_item_header_t \<Rightarrow> u8 list" where
  "header_bytes h = [ih_type h, ih_subtype h] @ le_bytes32 (ih_row h) @ le_bytes32 (ih_col h)"

section \<open>Access to the space\<close>

definition rd8 :: "u8 list \<Rightarrow> nat \<Rightarrow> u8 outcome" where
  "rd8 sp i = (if i < length sp then Ret (sp ! i) else Fault OutOfBounds)"

definition rd32 :: "u8 list \<Rightarrow> nat \<Rightarrow> u32 outcome" where
  "rd32 sp i = (if i + 4 \<le> length sp then Ret (word_le32 (sp ! i) (sp ! (i + 1)) (sp ! (i + 2)) (sp ! (i + 3))) else Fault OutOfBounds)"

definition rdn :: "u8 list \<Rightarrow> nat \<Rightarrow> nat \<Rightarrow> u8 list outcome" where
  "rdn sp i n = (if i + n \<le> length sp then Ret (take n (drop i sp)) else Fault OutOfBounds)"

definition wrn :: "u8 list \<Rightarrow> nat \<Rightarrow> u8 list \<Rightarrow> u8 list outcome" where
  "wrn sp i bs = (if i + length bs \<le> length sp then Ret (take i sp @ bs @ drop (i + length bs) sp) else Fault OutOfBounds)"

section \<open>Reading\<close>

text \<open>One item: its header, and the node of the array it fills.\<close>

definition decode_value :: "db_env \<Rightarrow> u8 list \<Rightarrow> u8 \<Rightarrow> addr \<Rightarrow> nat \<Rightarrow> u32 \<Rightarrow> u32 option dbm" where
  "decode_value E sp subtype a iy off s =
     (if subtype = DB_SPACE_TYPE_ITEM_INTEGER
      then obind (rd32 sp (unat off)) (\<lambda>v.
           obind (upd_item a iy (\<lambda>it. it\<lparr>di_type := DB_TYPE_INTEGER, di_intval := ntohl v\<rparr>) s) (\<lambda>s.
           Ret (Some (off + 4), s)))
      else if subtype = DB_SPACE_TYPE_ITEM_STRING
      then obind (rd32 sp (unat off)) (\<lambda>v.
           obind (upd_item a iy (\<lambda>it. it\<lparr>di_type := DB_TYPE_STRING, di_lenstr := ntohl v\<rparr>) s) (\<lambda>s.
           obind (db_mem_alloc E (ntohl v) s) (\<lambda>(p, s).
           obind (upd_item a iy (\<lambda>it. it\<lparr>di_strval := p\<rparr>) s) (\<lambda>s.
           if p = 0 then Ret (None, s)
           else obind (rdn sp (unat (off + 4)) (unat (ntohl v))) (\<lambda>bs.
           Ret (Some (off + 4 + ntohl v), dput p (DText bs) s))))))
      else Ret (Some off, s))"

definition decode_item :: "db_env \<Rightarrow> u8 list \<Rightarrow> nat \<Rightarrow> nat \<Rightarrow> addr \<Rightarrow> u32 \<Rightarrow> u32 option dbm" where
  "decode_item E sp ix iy a off s =
     obind (rd8 sp (unat off)) (\<lambda>ty.
     if ty \<noteq> DB_SPACE_TYPE_ITEM then Ret (None, s)
     else obind (rd32 sp (unat off + 2)) (\<lambda>row.
     obind (rd32 sp (unat off + 6)) (\<lambda>col.
     if ntohl row \<noteq> of_nat ix \<or> ntohl col \<noteq> of_nat iy then Ret (None, s)
     else obind (rd8 sp (unat off + 1)) (\<lambda>subtype.
     decode_value E sp subtype a iy (off + SZ_item_header) s))))"

fun decode_items :: "db_env \<Rightarrow> u8 list \<Rightarrow> nat \<Rightarrow> nat \<Rightarrow> nat \<Rightarrow> addr \<Rightarrow> u32 \<Rightarrow> u32 option dbm" where
  "decode_items E sp ix 0 iy a off s = Ret (Some off, s)"
| "decode_items E sp ix (Suc n) iy a off s =
     obind (decode_item E sp ix iy a off s) (\<lambda>(r, s).
     case r of None \<Rightarrow> Ret (None, s) | Some off \<Rightarrow> decode_items E sp ix n (Suc iy) a off s)"

text \<open>
  One row. A column structure is made for it and put at the end of the list: the new offset and the new last
  column, or \<open>None\<close>.
\<close>

definition link_line :: "addr \<Rightarrow> addr \<Rightarrow> addr \<Rightarrow> db_state \<Rightarrow> (addr \<times> db_state) outcome" where
  "link_line root cur line s =
     (if root = 0 then Ret (line, s)
      else obind (dload the_dcol cur s) (\<lambda>c. Ret (root, dput cur (DCol (c\<lparr>dc_next := line\<rparr>)) s)))"

definition decode_row :: "db_env \<Rightarrow> u8 list \<Rightarrow> u32 \<Rightarrow> nat \<Rightarrow> addr \<Rightarrow> addr \<Rightarrow> u32 \<Rightarrow> (addr \<times> (addr \<times> u32) option) dbm" where
  "decode_row E sp col ix root cur off s =
     obind (rd32 sp (unat off)) (\<lambda>delim.
     if ntohl delim \<noteq> DB_SPACE_COLUMN_DELIMITER then Ret ((root, None), s)
     else obind (db_mem_alloc E (SZ_item * col) s) (\<lambda>(a, s).
     if a = 0 then Ret ((root, None), s)
     else let s = dput a (DItems (map (de_junk_item E (calls (d_os s))) [0..<unat (SZ_item * col) div unat SZ_item])) s in
     obind (decode_items E sp ix (nat (sint col)) 0 a (off + 4) s) (\<lambda>(r, s).
     case r of None \<Rightarrow> Ret ((root, None), s)
     | Some off \<Rightarrow>
       obind (db_mem_alloc E SZ_column s) (\<lambda>(line, s).
       if line = 0 then Ret ((root, None), s)
       else let s = dput line (DCol \<lparr>dc_count = col, dc_items = a, dc_next = 0\<rparr>) s in
       obind (link_line root cur line s) (\<lambda>(root, s). Ret ((root, Some (line, off)), s))))))"

fun decode_rows :: "db_env \<Rightarrow> u8 list \<Rightarrow> u32 \<Rightarrow> nat \<Rightarrow> nat \<Rightarrow> addr \<Rightarrow> addr \<Rightarrow> u32 \<Rightarrow> (addr \<times> bool) dbm" where
  "decode_rows E sp col 0 ix root cur off s = Ret ((root, True), s)"
| "decode_rows E sp col (Suc n) ix root cur off s =
     obind (decode_row E sp col ix root cur off s) (\<lambda>((root, r), s).
     case r of None \<Rightarrow> Ret ((root, False), s) | Some (cur, off) \<Rightarrow> decode_rows E sp col n (Suc ix) root cur off s)"

text \<open>
  The end after a failure. The variable \<open>result\<close> is tested there; on every way but those behind its
  allocation it was never set (\<open>None\<close>). The arrays of the items are not released.
\<close>

definition cleanup_line :: "addr \<times> db_state \<Rightarrow> (addr \<times> db_state) outcome" where
  "cleanup_line = (\<lambda>(line, s).
     obind (dload the_dcol line s) (\<lambda>c.
     obind (free_strings (unat (dc_count c)) 0 (dc_items c) s) (\<lambda>s.
     obind (db_mem_free line s) (\<lambda>(r, s). Ret (dc_next c, s)))))"

definition fail_decrypt :: "addr option \<Rightarrow> addr \<Rightarrow> addr dbm" where
  "fail_decrypt result root s =
     (case result of None \<Rightarrow> Fault Uninit_Read
      | Some p \<Rightarrow>
        obind (if p \<noteq> 0 then db_mem_free p s else Ret (OKAY, s)) (\<lambda>(r, s).
        obind (while_o (\<lambda>(line, s). line \<noteq> 0) cleanup_line (root, s)) (\<lambda>(line, s). Ret (0, s))))"

definition decode_message :: "db_env \<Rightarrow> u8 list \<Rightarrow> addr \<Rightarrow> addr \<Rightarrow> u32 \<Rightarrow> addr dbm" where
  "decode_message E sp result root row s =
     obind (rd32 sp (unat SZ_item_header)) (\<lambda>ret.
     if ret = 0 then Ret (result, dput result (DList \<lparr>dl_ret = 0, dl_errmsg = 0, dl_count = row, dl_items = root\<rparr>) s)
     else obind (db_mem_alloc E (of_nat DBMAN_ERRMSG_LEN) s) (\<lambda>(p, s).
       let s = dput result (DList \<lparr>dl_ret = ntohl ret, dl_errmsg = p, dl_count = row, dl_items = root\<rparr>) s in
       if p = 0 then fail_decrypt (Some result) root s
       else obind (rdn sp (unat SZ_item_header + 4) DBMAN_ERRMSG_LEN) (\<lambda>bs. Ret (result, dput p (DText bs) s))))"

definition dbman_sql_decrypt_result :: "db_env \<Rightarrow> u8 list option \<Rightarrow> u32 \<Rightarrow> addr dbm" where
  "dbman_sql_decrypt_result E space space_sz s =
     (case space of None \<Rightarrow> Ret (0, s)
      | Some sp \<Rightarrow>
        if space_sz = 0 then Ret (0, s)
        else obind (rd8 sp 0) (\<lambda>ty.
        if ty \<noteq> DB_SPACE_TYPE_HEADER then Ret (0, s)
        else obind (rd32 sp 2) (\<lambda>r. obind (rd32 sp 6) (\<lambda>c.
        let row = ntohl r; col = ntohl c in
        if sint row < 0 \<or> sint col < 0 then Ret (0, s)
        else obind (decode_rows E sp col (unat row) 0 0 0 (SZ_item_header + SZ_result_header) s) (\<lambda>((root, ok), s).
        if \<not> ok then fail_decrypt None root s
        else obind (db_mem_alloc E SZ_list s) (\<lambda>(result, s).
        if result = 0 then fail_decrypt (Some 0) root s
        else decode_message E sp result root row s))))))"

section \<open>Writing\<close>

text \<open>What the data pointer of \<open>dbman_sql_insert_header\<close> points to.\<close>

datatype ins_data = NoData | LineData addr | ItemData addr nat | ResultData addr

text \<open>The number of bytes, computed with 64 bits and stored in 32; \<open>None\<close> for an unknown type.\<close>

definition insert_amount :: "u8 \<Rightarrow> ins_data \<Rightarrow> db_state \<Rightarrow> u32 option outcome" where
  "insert_amount ty data s =
     (if ty = DB_SPACE_TYPE_COLUMN then Ret (Some 4)
      else if ty = DB_SPACE_TYPE_ITEM
      then (case data of ItemData a i \<Rightarrow>
             obind (load_item a i s) (\<lambda>it.
             Ret (if di_type it = DB_TYPE_INTEGER then Some (SZ_item_header + 4)
                  else if di_type it = DB_TYPE_STRING then Some (SZ_item_header + di_lenstr it + 4) else None))
            | _ \<Rightarrow> Fault BadPtr)
      else if ty = DB_SPACE_TYPE_HEADER then Ret (Some SZ_item_header)
      else if ty = DB_SPACE_TYPE_RESULT_HEADER then Ret (Some SZ_result_header)
      else Ret None)"

definition insert_item :: "u8 list \<Rightarrow> dbman_item_header_t \<Rightarrow> u32 \<Rightarrow> db_result_list_item \<Rightarrow> db_state \<Rightarrow> (u8 list \<times> dbman_item_header_t) outcome" where
  "insert_item sp hdr off it s =
     (let hdr = hdr\<lparr>ih_col := htonl (ih_col hdr), ih_row := htonl (ih_row hdr), ih_type := DB_SPACE_TYPE_ITEM,
            ih_subtype := if di_type it = DB_TYPE_INTEGER then DB_SPACE_TYPE_ITEM_INTEGER else DB_SPACE_TYPE_ITEM_STRING\<rparr> in
      obind (wrn sp (unat off) (header_bytes hdr)) (\<lambda>sp.
      if di_type it = DB_TYPE_INTEGER
      then obind (wrn sp (unat off + 10) (le_bytes32 (htonl (di_intval it)))) (\<lambda>sp. Ret (sp, hdr))
      else obind (wrn sp (unat off + 10) (le_bytes32 (htonl (di_lenstr it)))) (\<lambda>sp.
           obind (if di_lenstr it = 0 then Ret []
                  else obind (dload the_dtext (di_strval it) s) (\<lambda>bs. rdn bs 0 (unat (di_lenstr it)))) (\<lambda>bs.
           obind (wrn sp (unat off + 14) bs) (\<lambda>sp. Ret (sp, hdr))))))"

definition insert_result :: "u8 list \<Rightarrow> u32 \<Rightarrow> db_result_list \<Rightarrow> db_state \<Rightarrow> u8 list outcome" where
  "insert_result sp off l s =
     obind (wrn sp (unat off + 4) (replicate DBMAN_ERRMSG_LEN 0)) (\<lambda>sp.
     obind (if dl_errmsg l \<noteq> 0
            then obind (dload the_dtext (dl_errmsg l) s) (\<lambda>t. obind (rdn t 0 DBMAN_ERRMSG_LEN) (wrn sp (unat off + 4)))
            else Ret sp) (\<lambda>sp.
     wrn sp (unat off) (le_bytes32 (htonl (dl_ret l)))))"

definition dbman_sql_insert_header ::
    "u8 list \<Rightarrow> u32 \<Rightarrow> dbman_item_header_t option \<Rightarrow> u8 \<Rightarrow> u32 \<Rightarrow> ins_data \<Rightarrow> db_state
      \<Rightarrow> (u32 \<times> u8 list \<times> dbman_item_header_t option) outcome" where
  "dbman_sql_insert_header sp space_sz hdr ty off data s =
     (if data = NoData then Ret (0, sp, hdr)
      else obind (insert_amount ty data s) (\<lambda>amount.
      case amount of None \<Rightarrow> Ret (0, sp, hdr)
      | Some n \<Rightarrow>
        if space_sz < n + off then Ret (0, sp, hdr)
        else if ty = DB_SPACE_TYPE_COLUMN
        then obind (wrn sp (unat off) (le_bytes32 (htonl DB_SPACE_COLUMN_DELIMITER))) (\<lambda>sp. Ret (off + n, sp, hdr))
        else if ty = DB_SPACE_TYPE_ITEM
        then (case (data, hdr) of
               (ItemData a i, Some h) \<Rightarrow>
                 obind (load_item a i s) (\<lambda>it. obind (insert_item sp h off it s) (\<lambda>(sp, h). Ret (off + n, sp, Some h)))
             | (ItemData a i, None) \<Rightarrow> Fault NullDeref
             | _ \<Rightarrow> Fault BadPtr)
        else if ty = DB_SPACE_TYPE_HEADER
        then (case hdr of None \<Rightarrow> Fault NullDeref
              | Some h \<Rightarrow>
                let h = h\<lparr>ih_col := htonl (ih_col h), ih_row := htonl (ih_row h), ih_type := ty\<rparr> in
                obind (wrn sp (unat off) (header_bytes h)) (\<lambda>sp. Ret (off + n, sp, Some h)))
        else (case data of
               ResultData p \<Rightarrow> obind (dload the_dlist p s) (\<lambda>l. obind (insert_result sp off l s) (\<lambda>sp. Ret (off + n, sp, hdr)))
             | _ \<Rightarrow> Fault BadPtr)))"

text \<open>
  The items of a row and the rows. The offset is the result of the last insertion, 0 after one that found no
  room; behind a delimiter it is tested only in the next round.
\<close>

definition encode_item :: "u8 list \<Rightarrow> u32 \<Rightarrow> dbman_item_header_t \<Rightarrow> nat \<Rightarrow> nat \<Rightarrow> addr \<Rightarrow> u32 \<Rightarrow> db_state
    \<Rightarrow> (u8 list \<times> dbman_item_header_t \<times> u32 option) outcome" where
  "encode_item sp sz hdr ix iy line off s =
     obind (dbman_fetch_item line (of_nat iy) s) (\<lambda>p.
     case p of None \<Rightarrow> Ret (sp, hdr, None)
     | Some (a, i) \<Rightarrow>
       obind (load_item a i s) (\<lambda>it.
       if di_type it = DB_TYPE_INTEGER \<or> di_type it = DB_TYPE_STRING
       then obind (dbman_sql_insert_header sp sz (Some (hdr\<lparr>ih_row := of_nat ix, ih_col := of_nat iy\<rparr>)) DB_SPACE_TYPE_ITEM off (ItemData a i) s)
              (\<lambda>(off, sp, h). Ret (sp, the h, if off = 0 then None else Some off))
       else Ret (sp, hdr, Some off)))"

fun encode_items :: "u8 list \<Rightarrow> u32 \<Rightarrow> dbman_item_header_t \<Rightarrow> nat \<Rightarrow> nat \<Rightarrow> nat \<Rightarrow> addr \<Rightarrow> u32 \<Rightarrow> db_state
    \<Rightarrow> (u8 list \<times> dbman_item_header_t \<times> u32 option) outcome" where
  "encode_items sp sz hdr ix 0 iy line off s = Ret (sp, hdr, Some off)"
| "encode_items sp sz hdr ix (Suc n) iy line off s =
     obind (encode_item sp sz hdr ix iy line off s) (\<lambda>(sp, hdr, r).
     case r of None \<Rightarrow> Ret (sp, hdr, None) | Some off \<Rightarrow> encode_items sp sz hdr ix n (Suc iy) line off s)"

definition encode_row :: "u8 list \<Rightarrow> u32 \<Rightarrow> dbman_item_header_t \<Rightarrow> nat \<Rightarrow> addr \<Rightarrow> u32 \<Rightarrow> db_state
    \<Rightarrow> (u8 list \<times> dbman_item_header_t \<times> (u32 \<times> u32) option) outcome" where
  "encode_row sp sz hdr ix result off s =
     obind (dbman_fetch_column result (of_nat ix) s) (\<lambda>line.
     if line = 0 \<or> off = 0 then Ret (sp, hdr, None)
     else obind (dbman_result_column_size line s) (\<lambda>csz.
     obind (dbman_sql_insert_header sp sz (Some (hdr\<lparr>ih_row := of_nat ix, ih_col := csz\<rparr>)) DB_SPACE_TYPE_COLUMN off (LineData line) s)
       (\<lambda>(off, sp, h).
     obind (encode_items sp sz (the h) ix (nat (sint csz)) 0 line off s) (\<lambda>(sp, hdr, r).
     Ret (sp, hdr, map_option (\<lambda>off. (csz, off)) r)))))"

fun encode_rows :: "u8 list \<Rightarrow> u32 \<Rightarrow> dbman_item_header_t \<Rightarrow> nat \<Rightarrow> nat \<Rightarrow> addr \<Rightarrow> u32 \<Rightarrow> u32 \<Rightarrow> db_state
    \<Rightarrow> (u8 list \<times> dbman_item_header_t \<times> u32 option) outcome" where
  "encode_rows sp sz hdr 0 ix result csz off s = Ret (sp, hdr, Some csz)"
| "encode_rows sp sz hdr (Suc n) ix result csz off s =
     obind (encode_row sp sz hdr ix result off s) (\<lambda>(sp, hdr, r).
     case r of None \<Rightarrow> Ret (sp, hdr, None) | Some (csz, off) \<Rightarrow> encode_rows sp sz hdr n (Suc ix) result csz off s)"

definition encode_heads :: "u8 list \<Rightarrow> u32 \<Rightarrow> dbman_item_header_t \<Rightarrow> u32 \<Rightarrow> u32 \<Rightarrow> addr \<Rightarrow> db_state \<Rightarrow> (int \<times> u8 list) outcome" where
  "encode_heads sp sz hdr rows csz result s =
     obind (dbman_sql_insert_header sp sz (Some (hdr\<lparr>ih_row := rows, ih_col := csz\<rparr>)) DB_SPACE_TYPE_HEADER 0 (ResultData result) s) (\<lambda>(off, sp, h).
     if off = 0 then Ret (-1, sp)
     else obind (dbman_sql_insert_header sp sz None DB_SPACE_TYPE_RESULT_HEADER SZ_item_header (ResultData result) s) (\<lambda>(off, sp, h).
     Ret (if off = 0 then -1 else 0, sp)))"

definition dbman_sql_encrypt_result :: "db_env \<Rightarrow> u8 list option \<Rightarrow> u32 \<Rightarrow> addr \<Rightarrow> (int \<times> u8 list option) dbm" where
  "dbman_sql_encrypt_result E space sz result s =
     (if result = 0 then Ret ((-1, space), s)
      else case space of None \<Rightarrow> Ret ((-1, None), s)
      | Some sp \<Rightarrow>
        obind (db_mem_alloc E SZ_item_header s) (\<lambda>(p, s).
        if p = 0 then Ret ((-1, Some sp), s)
        else let hdr = \<lparr>ih_type = 0, ih_subtype = de_junk_subtype E (calls (d_os s)), ih_row = 0, ih_col = 0\<rparr> in
        obind (dbman_result_list_size result s) (\<lambda>rows.
        obind (encode_rows sp sz hdr (nat (sint rows)) 0 result 0 (SZ_item_header + SZ_result_header) s) (\<lambda>(sp, hdr, r).
        obind (case r of None \<Rightarrow> Ret (-1, sp) | Some csz \<Rightarrow> encode_heads sp sz hdr rows csz result s) (\<lambda>(ret, sp).
        obind (db_mem_free p s) (\<lambda>(r, s). Ret ((ret, Some sp), s)))))))"

end
