(* ===== verification/Db_Codec.thy ===== *)
theory Db_Codec
  imports Db_Pstor Net_Wire
begin

text \<open>
  Result lists as values: the table a result list stands for, the blocks it occupies, the bytes of a table,
  and what the writing functions of pstor.c do to a space.
\<close>

section \<open>Tables\<close>

datatype dbval = DbInt u32 | DbStr "u8 list"

record table =
  tb_ret :: u32
  tb_msg :: "u8 list"
  tb_rows :: "dbval list list"

text \<open>
  The items of a row, the columns of a result and the result itself in the blocks \<open>B\<close>, in the order in which
  they are met.
\<close>

fun items_at :: "(addr \<rightharpoonup> db_obj) \<Rightarrow> db_result_list_item list \<Rightarrow> dbval list \<Rightarrow> addr list \<Rightarrow> bool" where
  "items_at H [] [] B \<longleftrightarrow> B = []"
| "items_at H (it # its) (DbInt n # vs) B \<longleftrightarrow> di_type it = DB_TYPE_INTEGER \<and> di_intval it = n \<and> items_at H its vs B"
| "items_at H (it # its) (DbStr bs # vs) B \<longleftrightarrow>
     di_type it = DB_TYPE_STRING \<and> bs \<noteq> [] \<and> length bs < 2 ^ 31 \<and> di_lenstr it = of_nat (length bs)
     \<and> H (di_strval it) = Some (DText bs) \<and> (\<exists>B'. B = di_strval it # B' \<and> items_at H its vs B')"
| "items_at H _ _ B \<longleftrightarrow> False"

fun cols_at :: "(addr \<rightharpoonup> db_obj) \<Rightarrow> addr \<Rightarrow> dbval list list \<Rightarrow> addr list \<Rightarrow> bool" where
  "cols_at H p [] B \<longleftrightarrow> p = 0 \<and> B = []"
| "cols_at H p (r # rs) B \<longleftrightarrow>
     (\<exists>a its nx Bi B'. B = p # a # Bi @ B' \<and> H p = Some (DCol \<lparr>dc_count = of_nat (length r), dc_items = a, dc_next = nx\<rparr>)
        \<and> H a = Some (DItems its) \<and> items_at H its r Bi \<and> (\<forall>i < length r. \<not> null_item a i) \<and> cols_at H nx rs B')"

definition result_at :: "(addr \<rightharpoonup> db_obj) \<Rightarrow> addr \<Rightarrow> table \<Rightarrow> addr list \<Rightarrow> bool" where
  "result_at H p T B \<longleftrightarrow>
     (\<exists>m hd B'. H p = Some (DList \<lparr>dl_ret = tb_ret T, dl_errmsg = m, dl_count = of_nat (length (tb_rows T)), dl_items = hd\<rparr>)
        \<and> cols_at H hd (tb_rows T) B'
        \<and> (if tb_ret T = 0 then m = 0 \<and> tb_msg T = [] \<and> B = p # B'
           else H m = Some (DText (tb_msg T)) \<and> length (tb_msg T) = DBMAN_ERRMSG_LEN \<and> B = p # m # B'))"

text \<open>Tables that can be sent: as many values in every row, and numbers of rows and columns that are C integers.\<close>

definition table_ok :: "table \<Rightarrow> bool" where
  "table_ok T \<longleftrightarrow> length (tb_rows T) < 2 ^ 31 \<and>
     (\<exists>c. \<forall>r \<in> set (tb_rows T). length r = c \<and> 0 < c \<and> c < 2 ^ 26)"

lemma items_at_length: "items_at H its vs B \<Longrightarrow> length its = length vs"
  by (induction H its vs B rule: items_at.induct) auto

lemma items_at_keep: "items_at H its vs B \<Longrightarrow> (\<And>p. p \<in> set B \<Longrightarrow> H' p = H p) \<Longrightarrow> items_at H' its vs B"
proof (induction H its vs B rule: items_at.induct)
  case (3 H it its bs vs B)
  then obtain B' where B: "B = di_strval it # B'" "items_at H its vs B'" by auto
  then have "items_at H' its vs B'" using 3 by auto
  then show ?case using 3(2,3) B(1) by simp
qed auto

lemma cols_at_keep: "cols_at H p rs B \<Longrightarrow> (\<And>q. q \<in> set B \<Longrightarrow> H' q = H q) \<Longrightarrow> cols_at H' p rs B"
proof (induction rs arbitrary: p B)
  case (Cons r rs)
  then obtain a its nx Bi B' where B: "B = p # a # Bi @ B'" "H p = Some (DCol \<lparr>dc_count = of_nat (length r), dc_items = a, dc_next = nx\<rparr>)"
    "H a = Some (DItems its)" "items_at H its r Bi" "\<forall>i < length r. \<not> null_item a i" "cols_at H nx rs B'" by auto
  have "items_at H' its r Bi" by (rule items_at_keep [OF B(4)]) (use B(1) Cons.prems in auto)
  moreover have "cols_at H' nx rs B'" by (rule Cons.IH [OF B(6)]) (use B(1) Cons.prems in auto)
  moreover have "H' p = H p" "H' a = H a" using B(1) Cons.prems by auto
  ultimately show ?case using B unfolding cols_at.simps by metis
qed simp

lemma result_atE:
  assumes "result_at H p T B"
  obtains m hd B' where "H p = Some (DList \<lparr>dl_ret = tb_ret T, dl_errmsg = m, dl_count = of_nat (length (tb_rows T)), dl_items = hd\<rparr>)"
    "cols_at H hd (tb_rows T) B'"
    "if tb_ret T = 0 then m = 0 \<and> tb_msg T = [] \<and> B = p # B' else H m = Some (DText (tb_msg T)) \<and> length (tb_msg T) = DBMAN_ERRMSG_LEN \<and> B = p # m # B'"
  using assms unfolding result_at_def by blast

lemma result_at_keep:
  assumes "result_at H p T B" and "\<And>q. q \<in> set B \<Longrightarrow> H' q = H q"
  shows "result_at H' p T B"
proof -
  from assms(1) obtain m hd B' where r: "H p = Some (DList \<lparr>dl_ret = tb_ret T, dl_errmsg = m, dl_count = of_nat (length (tb_rows T)), dl_items = hd\<rparr>)"
    "cols_at H hd (tb_rows T) B'"
    "if tb_ret T = 0 then m = 0 \<and> tb_msg T = [] \<and> B = p # B' else H m = Some (DText (tb_msg T)) \<and> length (tb_msg T) = DBMAN_ERRMSG_LEN \<and> B = p # m # B'"
    by (rule result_atE)
  have "p \<in> set B" "set B' \<subseteq> set B" "tb_ret T \<noteq> 0 \<longrightarrow> m \<in> set B" using r(3) by (auto split: if_splits)
  moreover have "cols_at H' hd (tb_rows T) B'" by (rule cols_at_keep [OF r(2)]) (use assms(2) calculation(2) in auto)
  ultimately show ?thesis using r assms(2) unfolding result_at_def by (intro exI [of _ m] exI [of _ hd] exI [of _ B']) auto
qed

section \<open>The bytes of a table\<close>

abbreviation be32 :: "u32 \<Rightarrow> u8 list" where "be32 w \<equiv> le_bytes32 (htonl w)"

fun val_bytes :: "dbval \<Rightarrow> u8 list" where
  "val_bytes (DbInt n) = be32 n"
| "val_bytes (DbStr bs) = be32 (of_nat (length bs)) @ bs"

fun val_subtype :: "dbval \<Rightarrow> u8" where
  "val_subtype (DbInt n) = DB_SPACE_TYPE_ITEM_INTEGER"
| "val_subtype (DbStr bs) = DB_SPACE_TYPE_ITEM_STRING"

definition item_bytes :: "nat \<Rightarrow> nat \<Rightarrow> dbval \<Rightarrow> u8 list" where
  "item_bytes ix iy v = [DB_SPACE_TYPE_ITEM, val_subtype v] @ be32 (of_nat ix) @ be32 (of_nat iy) @ val_bytes v"

fun items_bytes :: "nat \<Rightarrow> nat \<Rightarrow> dbval list \<Rightarrow> u8 list" where
  "items_bytes ix iy [] = []"
| "items_bytes ix iy (v # vs) = item_bytes ix iy v @ items_bytes ix (Suc iy) vs"

fun rows_bytes :: "nat \<Rightarrow> dbval list list \<Rightarrow> u8 list" where
  "rows_bytes ix [] = []"
| "rows_bytes ix (r # rs) = be32 DB_SPACE_COLUMN_DELIMITER @ items_bytes ix 0 r @ rows_bytes (Suc ix) rs"

definition tb_cols :: "table \<Rightarrow> nat" where
  "tb_cols T = (if tb_rows T = [] then 0 else length (last (tb_rows T)))"

text \<open>The heads in front of the rows; the subtype of the first one is left to chance.\<close>

definition head_bytes :: "u8 \<Rightarrow> table \<Rightarrow> u8 list" where
  "head_bytes st T = [DB_SPACE_TYPE_HEADER, st] @ be32 (of_nat (length (tb_rows T))) @ be32 (of_nat (tb_cols T))
     @ be32 (tb_ret T) @ (if tb_ret T = 0 then replicate DBMAN_ERRMSG_LEN 0 else tb_msg T)"

definition table_bytes :: "u8 \<Rightarrow> table \<Rightarrow> u8 list" where
  "table_bytes st T = head_bytes st T @ rows_bytes 0 (tb_rows T)"

definition table_size :: "table \<Rightarrow> nat" where
  "table_size T = 78 + length (rows_bytes 0 (tb_rows T))"

lemma length_be32 [simp]: "length (be32 w) = 4"
  by (simp add: le_bytes32_def)

section \<open>Writing over a space\<close>

definition overwrite :: "u8 list \<Rightarrow> nat \<Rightarrow> u8 list \<Rightarrow> u8 list" where
  "overwrite sp i bs = take i sp @ bs @ drop (i + length bs) sp"

lemma wrn_overwrite: "i + length bs \<le> length sp \<Longrightarrow> wrn sp i bs = Ret (overwrite sp i bs)"
  by (simp add: wrn_def overwrite_def)

lemma length_overwrite [simp]: "i + length bs \<le> length sp \<Longrightarrow> length (overwrite sp i bs) = length sp"
  by (simp add: overwrite_def)

lemma overwrite_Nil [simp]: "overwrite sp i [] = sp"
  by (simp add: overwrite_def)

lemma overwrite_append:
  assumes "i + length a + length b \<le> length sp" "j = i + length a"
  shows "overwrite (overwrite sp i a) j b = overwrite sp i (a @ b)"
  using assms by (simp add: overwrite_def ac_simps)

lemma overwrite_at: "i + length bs \<le> length sp \<Longrightarrow> take (length bs) (drop i (overwrite sp i bs)) = bs"
  by (simp add: overwrite_def)

lemma overwrite_before:
  "i + length bs \<le> length sp \<Longrightarrow> j + n \<le> i \<Longrightarrow> take n (drop j (overwrite sp i bs)) = take n (drop j sp)"
  by (simp add: overwrite_def take_drop min_def)

end
