(* ===== verification/Db_Encode.thy ===== *)
theory Db_Encode
  imports Db_Codec
begin

text \<open>What the writing functions of pstor.c put into a space for a result list that stands for a table.\<close>

section \<open>Reading live blocks\<close>

definition live :: "db_state \<Rightarrow> addr list \<Rightarrow> bool" where
  "live s B \<longleftrightarrow> (\<forall>p \<in> set B. p \<noteq> 0 \<and> heap (d_os s) p \<noteq> None)"

lemma dload_live: "live s B \<Longrightarrow> p \<in> set B \<Longrightarrow> d_objs s p = Some x \<Longrightarrow> sel x = Some v \<Longrightarrow> dload sel p s = Ret v"
  by (auto simp: dload_def live_def)

lemma live_append [simp]: "live s (B @ B') \<longleftrightarrow> live s B \<and> live s B'"
  by (auto simp: live_def)

lemma live_Cons [simp]: "live s (p # B) \<longleftrightarrow> p \<noteq> 0 \<and> heap (d_os s) p \<noteq> None \<and> live s B"
  by (auto simp: live_def)

lemma live_Nil [simp]: "live s []"
  by (simp add: live_def)

text \<open>One value of a row.\<close>

fun val_at :: "(addr \<rightharpoonup> db_obj) \<Rightarrow> addr list \<Rightarrow> db_result_list_item \<Rightarrow> dbval \<Rightarrow> bool" where
  "val_at H B it (DbInt n) \<longleftrightarrow> di_type it = DB_TYPE_INTEGER \<and> di_intval it = n"
| "val_at H B it (DbStr bs) \<longleftrightarrow> di_type it = DB_TYPE_STRING \<and> bs \<noteq> [] \<and> length bs < 2 ^ 31 \<and> di_lenstr it = of_nat (length bs)
     \<and> H (di_strval it) = Some (DText bs) \<and> di_strval it \<in> set B"

lemma val_at_mono: "val_at H B it v \<Longrightarrow> set B \<subseteq> set B' \<Longrightarrow> val_at H B' it v"
  by (cases v) auto

lemma items_at_nth: "items_at H its vs B \<Longrightarrow> i < length vs \<Longrightarrow> val_at H B (its ! i) (vs ! i)"
proof (induction H its vs B arbitrary: i rule: items_at.induct)
  case (2 H it its n vs B)
  then show ?case by (cases i) auto
next
  case (3 H it its bs vs B)
  then obtain B' where B: "B = di_strval it # B'" "items_at H its vs B'" by auto
  show ?case
  proof (cases i)
    case 0 then show ?thesis using 3(2) by auto
  next
    case (Suc j)
    then show ?thesis using 3(1) [OF B(2), of j] 3(3) B(1) val_at_mono [of H B' _ _ B] by auto
  qed
qed auto

section \<open>Words\<close>

lemma unat_of_nat_u32 [simp]: "n < 2 ^ 31 \<Longrightarrow> unat (of_nat n :: u32) = n"
  by (simp add: unat_of_nat take_bit_nat_eq_self)

lemma sint_of_nat_u32: "n < 2 ^ 31 \<Longrightarrow> sint (of_nat n :: u32) = int n"
  by (simp add: signed_of_nat signed_take_bit_int_eq_self)

lemma unat_add_fits: "unat (x :: u32) + n \<le> unat (z :: u32) \<Longrightarrow> unat (x + of_nat n) = unat x + n"
proof -
  assume a: "unat x + n \<le> unat z"
  have z: "unat z < 2 ^ 32" using unsigned_less [of z, where 'a = nat] by simp
  then have n: "unat (of_nat n :: u32) = n" using a by (simp add: unat_of_nat take_bit_nat_eq_self)
  show ?thesis using a z n by (subst unat_add_lem [THEN iffD1]) simp_all
qed

text \<open>The test for room: an amount that fits is accepted.\<close>

lemma room_test: "unat off + n \<le> unat sz \<Longrightarrow> \<not> sz < of_nat n + (off :: u32)"
  using unat_add_fits [of off n sz] by (simp add: word_less_nat_alt add.commute)

lemma next_offset: "unat off + n \<le> unat (sz :: u32) \<Longrightarrow> 0 < n \<Longrightarrow> off + of_nat n \<noteq> (0 :: u32)"
  using unat_add_fits [of off n sz] by (metis add_gr_0 less_numeral_extra(3) unsigned_0)

section \<open>Items\<close>

lemma length_val_bytes: "length (val_bytes v) = (case v of DbInt n \<Rightarrow> 4 | DbStr bs \<Rightarrow> 4 + length bs)"
  by (cases v) simp_all

lemma length_item_bytes: "length (item_bytes ix iy v) = 10 + length (val_bytes v)"
  by (simp add: item_bytes_def)

lemma header_item_bytes:
  "header_bytes (h\<lparr>ih_col := htonl c, ih_row := htonl r, ih_type := DB_SPACE_TYPE_ITEM, ih_subtype := st\<rparr>) =
     [DB_SPACE_TYPE_ITEM, st] @ be32 r @ be32 c"
  by (simp add: header_bytes_def)

lemma type_consts [simp]: "DB_TYPE_STRING \<noteq> DB_TYPE_INTEGER" "DB_TYPE_INTEGER \<noteq> DB_TYPE_STRING"
  "DB_SPACE_TYPE_ITEM \<noteq> DB_SPACE_TYPE_COLUMN" "DB_SPACE_TYPE_HEADER \<noteq> DB_SPACE_TYPE_COLUMN" "DB_SPACE_TYPE_HEADER \<noteq> DB_SPACE_TYPE_ITEM"
  "DB_SPACE_TYPE_RESULT_HEADER \<noteq> DB_SPACE_TYPE_COLUMN" "DB_SPACE_TYPE_RESULT_HEADER \<noteq> DB_SPACE_TYPE_ITEM" "DB_SPACE_TYPE_RESULT_HEADER \<noteq> DB_SPACE_TYPE_HEADER"
  "DB_SPACE_TYPE_ITEM_STRING \<noteq> DB_SPACE_TYPE_ITEM_INTEGER" "DB_SPACE_TYPE_ITEM_INTEGER \<noteq> DB_SPACE_TYPE_ITEM_STRING"
  by (simp_all add: DB_TYPE_STRING_def DB_TYPE_INTEGER_def DB_SPACE_TYPE_ITEM_def DB_SPACE_TYPE_COLUMN_def DB_SPACE_TYPE_HEADER_def
      DB_SPACE_TYPE_RESULT_HEADER_def DB_SPACE_TYPE_ITEM_STRING_def DB_SPACE_TYPE_ITEM_INTEGER_def)

lemma insert_item_law:
  assumes v: "val_at (d_objs s) B it v" "live s B" and room: "unat off + length (item_bytes ix iy v) \<le> length sp"
  shows "\<exists>h'. insert_item sp (h\<lparr>ih_row := of_nat ix, ih_col := of_nat iy\<rparr>) off it s = Ret (overwrite sp (unat off) (item_bytes ix iy v), h')"
proof (cases v)
  case (DbInt n)
  then have it: "di_type it = DB_TYPE_INTEGER" "di_intval it = n" using v by simp_all
  let ?h = "[DB_SPACE_TYPE_ITEM, DB_SPACE_TYPE_ITEM_INTEGER] @ be32 (of_nat ix) @ be32 (of_nat iy)"
  have b: "item_bytes ix iy v = ?h @ be32 n" using DbInt by (simp add: item_bytes_def)
  have l: "length ?h = 10" by simp
  have r: "unat off + 14 \<le> length sp" using room DbInt by (simp add: length_item_bytes)
  have 1: "wrn sp (unat off) ?h = Ret (overwrite sp (unat off) ?h)" by (rule wrn_overwrite) (use r in simp)
  have 2: "wrn (overwrite sp (unat off) ?h) (unat off + 10) (be32 n) = Ret (overwrite (overwrite sp (unat off) ?h) (unat off + 10) (be32 n))"
    by (rule wrn_overwrite) (use r in simp)
  have 3: "overwrite (overwrite sp (unat off) ?h) (unat off + 10) (be32 n) = overwrite sp (unat off) (?h @ be32 n)"
    by (rule overwrite_append) (use r in simp_all)
  show ?thesis
    unfolding insert_item_def Let_def using it 1 2 3 b by (simp add: header_bytes_def)
next
  case (DbStr bs)
  then have it: "di_type it = DB_TYPE_STRING" "di_lenstr it = of_nat (length bs)" "bs \<noteq> []" "length bs < 2 ^ 31"
    "d_objs s (di_strval it) = Some (DText bs)" "di_strval it \<in> set B" using v by simp_all
  then have t: "dload the_dtext (di_strval it) s = Ret bs" by (intro dload_live [OF v(2), where x = "DText bs"]) simp_all
  let ?h = "[DB_SPACE_TYPE_ITEM, DB_SPACE_TYPE_ITEM_STRING] @ be32 (of_nat ix) @ be32 (of_nat iy)" and ?n = "be32 (of_nat (length bs))"
  have b: "item_bytes ix iy v = (?h @ ?n) @ bs" using DbStr by (simp add: item_bytes_def)
  have r: "unat off + 14 + length bs \<le> length sp" using room DbStr by (simp add: length_item_bytes)
  have 1: "wrn sp (unat off) ?h = Ret (overwrite sp (unat off) ?h)" by (rule wrn_overwrite) (use r in simp)
  have 2: "wrn (overwrite sp (unat off) ?h) (unat off + 10) ?n = Ret (overwrite sp (unat off) (?h @ ?n))"
    by (subst wrn_overwrite) (use r in \<open>simp_all add: overwrite_append\<close>)
  have 3: "wrn (overwrite sp (unat off) (?h @ ?n)) (unat off + 14) bs = Ret (overwrite sp (unat off) ((?h @ ?n) @ bs))"
    by (subst wrn_overwrite) (use r in \<open>simp_all add: overwrite_append\<close>)
  have n0: "di_lenstr it \<noteq> 0" using it unat_of_nat_u32 [of "length bs"] by (metis length_0_conv unsigned_0)
  have 4: "rdn bs 0 (unat (di_lenstr it)) = Ret bs" using it by (simp add: rdn_def)
  show ?thesis
    unfolding insert_item_def Let_def using it(1,2) n0 t 1 2 3 4 b by (simp add: header_bytes_def)
qed

text \<open>An item of a line, all items of a line, and all lines.\<close>

lemma insert_amount_item:
  assumes "val_at (d_objs s) B it v" "load_item a i s = Ret it"
  shows "insert_amount DB_SPACE_TYPE_ITEM (ItemData a i) s = Ret (Some (of_nat (length (item_bytes ix iy v))))"
  using assms by (cases v) (simp_all add: insert_amount_def length_item_bytes SZ_item_header_def)

definition line_at :: "db_state \<Rightarrow> addr \<Rightarrow> dbval list \<Rightarrow> addr list \<Rightarrow> bool" where
  "line_at s p r B \<longleftrightarrow>
     (\<exists>a its nx Bi. d_objs s p = Some (DCol \<lparr>dc_count = of_nat (length r), dc_items = a, dc_next = nx\<rparr>)
        \<and> d_objs s a = Some (DItems its) \<and> items_at (d_objs s) its r Bi \<and> (\<forall>i < length r. \<not> null_item a i)
        \<and> live s (p # a # Bi)) \<and> length r < 2 ^ 26"

lemma line_fetch:
  assumes l: "line_at s p r B" and iy: "iy < length r"
  obtains a it Bi where "dbman_fetch_item p (of_nat iy) s = Ret (Some (a, iy))" "load_item a iy s = Ret it"
    "val_at (d_objs s) Bi it (r ! iy)" "live s Bi"
proof -
  from l obtain a its nx Bi where a: "d_objs s p = Some (DCol \<lparr>dc_count = of_nat (length r), dc_items = a, dc_next = nx\<rparr>)"
    "d_objs s a = Some (DItems its)" "items_at (d_objs s) its r Bi" "\<forall>i < length r. \<not> null_item a i" "live s (p # a # Bi)" "length r < 2 ^ 26"
    by (auto simp: line_at_def)
  have c: "dload the_dcol p s = Ret \<lparr>dc_count = of_nat (length r), dc_items = a, dc_next = nx\<rparr>" by (rule dload_live [OF a(5) _ a(1)]) simp_all
  have "p \<noteq> 0" using a(5) by simp
  have u: "unat (of_nat iy :: u32) = iy" "unat (of_nat (length r) :: u32) = length r" using iy a(6) by simp_all
  then have lt: "\<not> (of_nat (length r) :: u32) < of_nat iy" using iy by (simp add: word_less_nat_alt)
  have f: "dbman_fetch_item p (of_nat iy) s = Ret (Some (a, iy))" using \<open>p \<noteq> 0\<close> c lt u a(4) iy by (simp add: dbman_fetch_item_def)
  have "dload the_ditems a s = Ret its" by (rule dload_live [OF a(5) _ a(2)]) simp_all
  then have "load_item a iy s = Ret (its ! iy)" using iy items_at_length [OF a(3)] by (simp add: load_item_def)
  then show thesis using that [OF f _ items_at_nth [OF a(3) iy]] a(5) by simp
qed

lemma encode_item_law:
  assumes l: "line_at s p r B" and iy: "iy < length r"
    and room: "unat off + length (item_bytes ix iy (r ! iy)) \<le> unat sz" "unat sz \<le> length sp"
  shows "\<exists>h'. encode_item sp sz h ix iy p off s =
    Ret (overwrite sp (unat off) (item_bytes ix iy (r ! iy)), h', Some (off + of_nat (length (item_bytes ix iy (r ! iy)))))"
proof -
  let ?n = "length (item_bytes ix iy (r ! iy))"
  from line_fetch [OF l iy] obtain a it Bi where f: "dbman_fetch_item p (of_nat iy) s = Ret (Some (a, iy))" and i: "load_item a iy s = Ret it"
    and v: "val_at (d_objs s) Bi it (r ! iy)" "live s Bi" by blast
  have ty: "di_type it = DB_TYPE_INTEGER \<or> di_type it = DB_TYPE_STRING" using v(1) by (cases "r ! iy") simp_all
  from insert_item_law [OF v, of off ix iy sp h] room obtain h' where
    w: "insert_item sp (h\<lparr>ih_row := of_nat ix, ih_col := of_nat iy\<rparr>) off it s = Ret (overwrite sp (unat off) (item_bytes ix iy (r ! iy)), h')" by auto
  have z: "off + of_nat ?n \<noteq> 0" by (rule next_offset [OF room(1)]) (simp add: length_item_bytes)
  have "dbman_sql_insert_header sp sz (Some (h\<lparr>ih_row := of_nat ix, ih_col := of_nat iy\<rparr>)) DB_SPACE_TYPE_ITEM off (ItemData a iy) s =
      Ret (off + of_nat ?n, overwrite sp (unat off) (item_bytes ix iy (r ! iy)), Some h')"
    using insert_amount_item [OF v(1) i, of ix iy] room_test [OF room(1)] i w by (simp add: dbman_sql_insert_header_def)
  then show ?thesis using f i ty z by (simp add: encode_item_def)
qed

lemma encode_items_law:
  assumes "line_at s p r B" "iy + n = length r" "unat off + length (items_bytes ix iy (drop iy r)) \<le> unat sz" "unat sz \<le> length sp"
  shows "\<exists>h'. encode_items sp sz h ix n iy p off s =
    Ret (overwrite sp (unat off) (items_bytes ix iy (drop iy r)), h', Some (off + of_nat (length (items_bytes ix iy (drop iy r)))))"
  using assms
proof (induction n arbitrary: iy sp off h)
  case (Suc n)
  have iy: "iy < length r" using Suc.prems(2) by simp
  have d: "drop iy r = r ! iy # drop (Suc iy) r" using iy by (simp add: Cons_nth_drop_Suc)
  let ?b = "item_bytes ix iy (r ! iy)" and ?bs = "items_bytes ix (Suc iy) (drop (Suc iy) r)"
  have r: "unat off + length ?b + length ?bs \<le> unat sz" using Suc.prems(3) d by simp
  have r1: "unat off + length ?b \<le> unat sz" using r by simp
  from encode_item_law [OF Suc.prems(1) iy r1 Suc.prems(4), of h] obtain h1 where
    1: "encode_item sp sz h ix iy p off s = Ret (overwrite sp (unat off) ?b, h1, Some (off + of_nat (length ?b)))" by blast
  note o = unat_add_fits [OF r1]
  have "\<exists>h'. encode_items (overwrite sp (unat off) ?b) sz h1 ix n (Suc iy) p (off + of_nat (length ?b)) s =
      Ret (overwrite (overwrite sp (unat off) ?b) (unat (off + of_nat (length ?b))) ?bs, h', Some (off + of_nat (length ?b) + of_nat (length ?bs)))"
    by (rule Suc.IH [OF Suc.prems(1)]) (use Suc.prems r o in simp_all)
  then show ?case using 1 o d r Suc.prems(4) by (simp add: overwrite_append add.assoc)
qed simp

lemma insert_column_law:
  assumes "unat off + 4 \<le> unat sz" "unat sz \<le> length sp"
  shows "dbman_sql_insert_header sp sz h DB_SPACE_TYPE_COLUMN off (LineData p) s =
    Ret (off + 4, overwrite sp (unat off) (be32 DB_SPACE_COLUMN_DELIMITER), h)"
proof -
  have "\<not> sz < 4 + off" using room_test [of off 4 sz] assms(1) by simp
  moreover have "wrn sp (unat off) (be32 DB_SPACE_COLUMN_DELIMITER) = Ret (overwrite sp (unat off) (be32 DB_SPACE_COLUMN_DELIMITER))"
    by (rule wrn_overwrite) (use assms in simp)
  ultimately show ?thesis by (simp add: dbman_sql_insert_header_def insert_amount_def)
qed

lemma fetch_loop_walk:
  assumes "cols_at (d_objs s) p (xs @ r # rs) B" "live s B"
  obtains q B' where "fetch_loop (length xs) p s = Ret q" "q \<noteq> 0" "cols_at (d_objs s) q (r # rs) B'" "live s B'"
  using assms
proof (induction xs arbitrary: p B thesis)
  case Nil
  have "p \<noteq> 0" using Nil.prems(2,3) by auto
  then show ?case using Nil.prems(2,3) by (intro Nil.prems(1) [of p B]) simp_all
next
  case (Cons x xs)
  from Cons.prems(2) obtain a its nx Bi B' where B: "B = p # a # Bi @ B'"
    "d_objs s p = Some (DCol \<lparr>dc_count = of_nat (length x), dc_items = a, dc_next = nx\<rparr>)" "cols_at (d_objs s) nx (xs @ r # rs) B'" by auto
  have l: "live s B'" "live s B" using Cons.prems(3) B(1) by simp_all
  obtain q B2 where q: "fetch_loop (length xs) nx s = Ret q" "q \<noteq> 0" "cols_at (d_objs s) q (r # rs) B2" "live s B2"
    by (rule Cons.IH [OF _ B(3) l(1)])
  have "nx \<noteq> 0" using B(3) l(1) by (cases xs) auto
  moreover have "dload the_dcol p s = Ret \<lparr>dc_count = of_nat (length x), dc_items = a, dc_next = nx\<rparr>"
    by (rule dload_live [OF l(2) _ B(2)]) (simp_all add: B(1))
  ultimately show ?case using q by (intro Cons.prems(1) [of q B2]) simp_all
qed

lemma line_at_first:
  assumes "cols_at (d_objs s) q (r # rs) B" "live s B" "length r < 2 ^ 26"
  shows "line_at s q r B"
  using assms unfolding line_at_def by fastforce

text \<open>A result list and its rows.\<close>

lemma fetch_row:
  assumes l: "d_objs s p = Some (DList l)" "dl_count l = of_nat (length rows)" "p \<noteq> 0" "heap (d_os s) p \<noteq> None"
    and c: "cols_at (d_objs s) (dl_items l) rows B" "live s B" and n: "ix < length rows" "length rows < 2 ^ 31"
    and w: "length (rows ! ix) < 2 ^ 26"
  obtains q where "dbman_fetch_column p (of_nat ix) s = Ret q" "q \<noteq> 0" "line_at s q (rows ! ix) B"
    "dbman_result_column_size q s = Ret (of_nat (length (rows ! ix)))"
proof -
  have "cols_at (d_objs s) (dl_items l) (take ix rows @ rows ! ix # drop (Suc ix) rows) B" using c(1) n(1) by (simp add: Cons_nth_drop_Suc)
  from fetch_loop_walk [OF this c(2)] obtain q B' where q: "fetch_loop (length (take ix rows)) (dl_items l) s = Ret q" "q \<noteq> 0"
    "cols_at (d_objs s) q (rows ! ix # drop (Suc ix) rows) B'" "live s B'" by blast
  have "line_at s q (rows ! ix) B'" by (rule line_at_first [OF q(3,4) w])
  then have la: "line_at s q (rows ! ix) B" by (simp add: line_at_def)
  have "dload the_dlist p s = Ret l" using l by (simp add: dload_def)
  moreover have "\<not> (of_nat (length rows) :: u32) < of_nat ix" using n by (simp add: word_less_nat_alt)
  moreover have "nat (sint (of_nat ix :: u32)) = ix" using n by (simp add: sint_of_nat_u32)
  ultimately have f: "dbman_fetch_column p (of_nat ix) s = Ret q" using q(1) n l by (simp add: dbman_fetch_column_def)
  have "dbman_result_column_size q s = Ret (of_nat (length (rows ! ix)))"
    using la by (auto simp: dbman_result_column_size_def line_at_def dload_def)
  then show thesis by (intro that [OF f q(2) la])
qed

lemma encode_row_law:
  assumes l: "d_objs s p = Some (DList l)" "dl_count l = of_nat (length rows)" "p \<noteq> 0" "heap (d_os s) p \<noteq> None"
    and c: "cols_at (d_objs s) (dl_items l) rows B" "live s B" and n: "ix < length rows" "length rows < 2 ^ 31"
    and w: "length (rows ! ix) < 2 ^ 26" and off: "off \<noteq> 0"
    and room: "unat off + (4 + length (items_bytes ix 0 (rows ! ix))) \<le> unat sz" "unat sz \<le> length sp"
  shows "\<exists>h'. encode_row sp sz h ix p off s =
    Ret (overwrite sp (unat off) (be32 DB_SPACE_COLUMN_DELIMITER @ items_bytes ix 0 (rows ! ix)), h',
         Some (of_nat (length (rows ! ix)), off + of_nat (4 + length (items_bytes ix 0 (rows ! ix)))))"
proof -
  from fetch_row [OF l c n w] obtain q where q: "dbman_fetch_column p (of_nat ix) s = Ret q" "q \<noteq> 0" "line_at s q (rows ! ix) B"
    "dbman_result_column_size q s = Ret (of_nat (length (rows ! ix)))" by blast
  let ?d = "be32 DB_SPACE_COLUMN_DELIMITER" and ?b = "items_bytes ix 0 (rows ! ix)"
  have r4: "unat off + 4 \<le> unat sz" using room by simp
  have o: "unat (off + 4) = unat off + 4" using unat_add_fits [of off 4 sz] r4 by simp
  have s: "nat (sint (of_nat (length (rows ! ix)) :: u32)) = length (rows ! ix)" using w by (simp add: sint_of_nat_u32)
  from encode_items_law [OF q(3), of 0 "length (rows ! ix)" "off + 4" ix sz "overwrite sp (unat off) ?d" "h\<lparr>ih_row := of_nat ix, ih_col := of_nat (length (rows ! ix))\<rparr>"] room o
  obtain h' where e: "encode_items (overwrite sp (unat off) ?d) sz (h\<lparr>ih_row := of_nat ix, ih_col := of_nat (length (rows ! ix))\<rparr>) ix (length (rows ! ix)) 0 q (off + 4) s =
      Ret (overwrite (overwrite sp (unat off) ?d) (unat (off + 4)) ?b, h', Some (off + 4 + of_nat (length ?b)))" by auto
  have "overwrite (overwrite sp (unat off) ?d) (unat (off + 4)) ?b = overwrite sp (unat off) (?d @ ?b)"
    by (rule overwrite_append) (use room o in simp_all)
  then show ?thesis using q off s e insert_column_law [OF r4 room(2), of _ q s]
    by (simp add: encode_row_def add.assoc)
qed

lemma encode_rows_law:
  assumes l: "d_objs s p = Some (DList l)" "dl_count l = of_nat (length rows)" "p \<noteq> 0" "heap (d_os s) p \<noteq> None"
    and c: "cols_at (d_objs s) (dl_items l) rows B" "live s B" and n: "ix + n = length rows" "length rows < 2 ^ 31"
    and w: "\<forall>r \<in> set rows. length r < 2 ^ 26" and off: "off \<noteq> 0"
    and room: "unat off + length (rows_bytes ix (drop ix rows)) \<le> unat sz" "unat sz \<le> length sp"
  shows "\<exists>h'. encode_rows sp sz h n ix p csz off s =
    Ret (overwrite sp (unat off) (rows_bytes ix (drop ix rows)), h', Some (if n = 0 then csz else of_nat (length (last rows))))"
  using n off room
proof (induction n arbitrary: ix sp off h csz)
  case (Suc n)
  have ix: "ix < length rows" using Suc.prems(1) by simp
  have d: "drop ix rows = rows ! ix # drop (Suc ix) rows" using ix by (simp add: Cons_nth_drop_Suc)
  let ?b = "be32 DB_SPACE_COLUMN_DELIMITER @ items_bytes ix 0 (rows ! ix)" and ?bs = "rows_bytes (Suc ix) (drop (Suc ix) rows)"
  have r: "unat off + length ?b + length ?bs \<le> unat sz" using Suc.prems(4) d by simp
  have r1: "unat off + (4 + length (items_bytes ix 0 (rows ! ix))) \<le> unat sz" using r by simp
  have lb: "length ?b = 4 + length (items_bytes ix 0 (rows ! ix))" by simp
  from encode_row_law [OF l c ix Suc.prems(2) _ Suc.prems(3) r1 Suc.prems(5), of h] w ix obtain h1 where
    1: "encode_row sp sz h ix p off s = Ret (overwrite sp (unat off) ?b, h1, Some (of_nat (length (rows ! ix)), off + of_nat (length ?b)))"
    unfolding lb by auto
  note o = unat_add_fits [OF r1, folded lb]
  have z: "off + of_nat (length ?b) \<noteq> 0" by (rule next_offset [of off _ sz]) (use r1 in simp_all)
  have "\<exists>h'. encode_rows (overwrite sp (unat off) ?b) sz h1 n (Suc ix) p (of_nat (length (rows ! ix))) (off + of_nat (length ?b)) s =
      Ret (overwrite (overwrite sp (unat off) ?b) (unat (off + of_nat (length ?b))) ?bs, h',
        Some (if n = 0 then of_nat (length (rows ! ix)) else of_nat (length (last rows))))"
    by (rule Suc.IH) (use Suc.prems r o z in simp_all)
  moreover have "overwrite (overwrite sp (unat off) ?b) (unat (off + of_nat (length ?b))) ?bs = overwrite sp (unat off) (?b @ ?bs)"
    by (rule overwrite_append) (use r o Suc.prems(5) in simp_all)
  moreover have "rows ! ix = last rows" if "n = 0" using that Suc.prems(1) ix by (metis One_nat_def add_diff_cancel_right' last_conv_nth list.size(3) not_less_zero)
  ultimately show ?case using 1 d by auto
qed simp

text \<open>The rows when the delimiter of the last one does not fit.\<close>

lemma encode_row_overflow:
  assumes l: "d_objs s p = Some (DList l)" "dl_count l = of_nat (length rows)" "p \<noteq> 0" "heap (d_os s) p \<noteq> None"
    and c: "cols_at (d_objs s) (dl_items l) rows B" "live s B" and n: "ix < length rows" "length rows < 2 ^ 31"
    and w: "length (rows ! ix) < 2 ^ 26" and off: "off \<noteq> 0" "unat sz < unat off + 4" "unat off < 2 ^ 31"
    and room: "length (items_bytes ix 0 (rows ! ix)) \<le> unat sz" "unat sz \<le> length sp"
  shows "\<exists>h'. encode_row sp sz h ix p off s =
    Ret (overwrite sp 0 (items_bytes ix 0 (rows ! ix)), h', Some (of_nat (length (rows ! ix)), of_nat (length (items_bytes ix 0 (rows ! ix)))))"
proof -
  from fetch_row [OF l c n w] obtain q where q: "dbman_fetch_column p (of_nat ix) s = Ret q" "q \<noteq> 0" "line_at s q (rows ! ix) B"
    "dbman_result_column_size q s = Ret (of_nat (length (rows ! ix)))" by blast
  have "unat (4 + off) = 4 + unat off" using off(3) by (subst unat_add_lem [THEN iffD1]) simp_all
  then have "sz < 4 + off" using off(2) by (simp add: word_less_nat_alt)
  then have d: "dbman_sql_insert_header sp sz h' DB_SPACE_TYPE_COLUMN off (LineData q) s = Ret (0, sp, h')" for h'
    by (simp add: dbman_sql_insert_header_def insert_amount_def)
  have ns: "nat (sint (of_nat (length (rows ! ix)) :: u32)) = length (rows ! ix)" using w by (simp add: sint_of_nat_u32)
  from encode_items_law [OF q(3), of 0 "length (rows ! ix)" 0 ix sz sp "h\<lparr>ih_row := of_nat ix, ih_col := of_nat (length (rows ! ix))\<rparr>"] room
  show ?thesis unfolding encode_row_def using q off(1) d ns by auto
qed

lemma encode_rows_overflow:
  assumes l: "d_objs s p = Some (DList l)" "dl_count l = of_nat (length rows)" "p \<noteq> 0" "heap (d_os s) p \<noteq> None"
    and c: "cols_at (d_objs s) (dl_items l) rows B" "live s B" and n: "ix + Suc n = length rows" "length rows < 2 ^ 31"
    and w: "\<forall>r \<in> set rows. length r < 2 ^ 26" and off: "off \<noteq> 0"
    and room: "unat off + length (rows_bytes ix (butlast (drop ix rows))) \<le> unat sz" "unat sz < unat off + length (rows_bytes ix (butlast (drop ix rows))) + 4"
      "unat sz \<le> length sp" "unat sz < 2 ^ 31"
    and lst: "length (items_bytes (length rows - 1) 0 (last rows)) \<le> unat sz"
  shows "\<exists>h'. encode_rows sp sz h (Suc n) ix p csz off s =
    Ret (overwrite (overwrite sp (unat off) (rows_bytes ix (butlast (drop ix rows)))) 0 (items_bytes (length rows - 1) 0 (last rows)), h',
      Some (of_nat (length (last rows))))"
  using n(1) off room
proof (induction n arbitrary: ix sp off h csz)
  case 0
  have ix: "ix < length rows" "ix = length rows - 1" using 0(1) by simp_all
  have d2: "rows ! ix = last rows" using ix last_conv_nth [of rows] by fastforce
  then have d: "drop ix rows = [last rows]" "rows ! ix = last rows" using ix(1) 0(1) Cons_nth_drop_Suc [OF ix(1)] by simp_all
  have wi: "length (rows ! ix) < 2 ^ 26" using w ix(1) by simp
  from encode_row_overflow [OF l c ix(1) n(2) wi 0(2), of sz sp h] 0 d ix lst show ?case by auto
next
  case (Suc n)
  have ix: "ix < length rows" using Suc.prems(1) by simp
  have d: "drop ix rows = rows ! ix # drop (Suc ix) rows" using ix by (simp add: Cons_nth_drop_Suc)
  have ne: "drop (Suc ix) rows \<noteq> []" using Suc.prems(1) by simp
  let ?b = "be32 DB_SPACE_COLUMN_DELIMITER @ items_bytes ix 0 (rows ! ix)" and ?bs = "rows_bytes (Suc ix) (butlast (drop (Suc ix) rows))"
  have bl: "rows_bytes ix (butlast (drop ix rows)) = ?b @ ?bs" using d ne by simp
  have wi: "length (rows ! ix) < 2 ^ 26" using w ix by simp
  have r1: "unat off + (4 + length (items_bytes ix 0 (rows ! ix))) \<le> unat sz" using Suc.prems(3) bl by simp
  from encode_row_law [OF l c ix n(2) wi Suc.prems(2) r1 Suc.prems(5), of h] obtain h1 where
    1: "encode_row sp sz h ix p off s = Ret (overwrite sp (unat off) ?b, h1, Some (of_nat (length (rows ! ix)), off + of_nat (4 + length (items_bytes ix 0 (rows ! ix)))))"
    by blast
  let ?off = "off + of_nat (4 + length (items_bytes ix 0 (rows ! ix)))"
  have u: "unat ?off = unat off + length ?b" using unat_add_fits [OF r1] by simp
  have z: "?off \<noteq> 0" by (rule next_offset [OF r1]) simp
  have "\<exists>h'. encode_rows (overwrite sp (unat off) ?b) sz h1 (Suc n) (Suc ix) p (of_nat (length (rows ! ix))) ?off s =
    Ret (overwrite (overwrite (overwrite sp (unat off) ?b) (unat ?off) ?bs) 0 (items_bytes (length rows - 1) 0 (last rows)), h', Some (of_nat (length (last rows))))"
    by (rule Suc.IH [OF _ z]) (use Suc.prems u bl in simp_all)
  moreover have "overwrite (overwrite sp (unat off) ?b) (unat ?off) ?bs = overwrite sp (unat off) (?b @ ?bs)"
    by (rule overwrite_append) (use Suc.prems bl u in simp_all)
  ultimately show ?case using 1 bl by (subst encode_rows.simps) simp
qed

text \<open>The result list as the writing functions find it.\<close>

lemma result_at_list:
  assumes "result_at (d_objs s) p T B" "live s B"
  obtains l B' where "d_objs s p = Some (DList l)" "dl_count l = of_nat (length (tb_rows T))" "p \<noteq> 0" "heap (d_os s) p \<noteq> None"
    "cols_at (d_objs s) (dl_items l) (tb_rows T) B'" "live s B'"
proof -
  from assms(1) obtain m q0 B' where l: "d_objs s p = Some (DList \<lparr>dl_ret = tb_ret T, dl_errmsg = m, dl_count = of_nat (length (tb_rows T)), dl_items = q0\<rparr>)"
    "cols_at (d_objs s) q0 (tb_rows T) B'"
    "if tb_ret T = 0 then m = 0 \<and> tb_msg T = [] \<and> B = p # B' else d_objs s m = Some (DText (tb_msg T)) \<and> length (tb_msg T) = DBMAN_ERRMSG_LEN \<and> B = p # m # B'"
    by (rule result_atE)
  have "p \<noteq> 0" "heap (d_os s) p \<noteq> None" "live s B'" using l(3) assms(2) by (auto split: if_splits)
  then show thesis using l(1,2)
    by (intro that [of "\<lparr>dl_ret = tb_ret T, dl_errmsg = m, dl_count = of_nat (length (tb_rows T)), dl_items = q0\<rparr>" B']) simp_all
qed

end
