(* ===== verification/Db_Room.thy ===== *)
theory Db_Room
  imports Db_Encode Block_Pool
begin

text \<open>
  The memory of the database library: the contract its proofs rely on (a locale), and the buffer classes of
  libs/sos as the instance. The allocator below the classes gives memory as long as the process has at most a
  million objects and a request is at most a megabyte.
\<close>

section \<open>What holds when a call returns\<close>

definition post :: "('a \<Rightarrow> bool) \<Rightarrow> 'a outcome \<Rightarrow> bool" where
  "post P m \<longleftrightarrow> (\<forall>x. m = Ret x \<longrightarrow> P x)"

lemma postD: "post P m \<Longrightarrow> m = Ret x \<Longrightarrow> P x"
  by (simp add: post_def)

lemma post_Ret: "P x \<Longrightarrow> post P (Ret x)"
  by (simp add: post_def)

lemma post_Fault: "post P (Fault e)"
  by (simp add: post_def)

lemma post_bind: "(\<And>x. m = Ret x \<Longrightarrow> post P (f x)) \<Longrightarrow> post P (obind m f)"
  by (cases m) (simp_all add: post_def)

lemma post_if: "(c \<Longrightarrow> post P a) \<Longrightarrow> (\<not> c \<Longrightarrow> post P b) \<Longrightarrow> post P (if c then a else b)"
  by simp

lemma post_prod: "(\<And>a b. x = (a, b) \<Longrightarrow> post P (f a b)) \<Longrightarrow> post P (case x of (a, b) \<Rightarrow> f a b)"
  by (cases x) simp

lemmas post_steps = post_Ret post_Fault post_bind post_if post_prod

section \<open>The objects of the process\<close>

definition objects :: "os_state \<Rightarrow> addr set" where
  "objects s = dom (heap s)"

lemma objects_hput [simp]: "objects (hput p x s) = insert p (objects s)"
  by (auto simp: objects_def hput_def)

lemma objects_hdel [simp]: "objects (hdel p s) = objects s - {p}"
  by (auto simp: objects_def hdel_def)

lemma objects_tick [simp]: "objects (tick s) = objects s"
  by (simp add: objects_def tick_def)

lemma objects_load: "load sel p s = Ret v \<Longrightarrow> p \<in> objects s"
  by (auto simp: load_eq_Ret objects_def)

lemma upd_mutex_objects: "upd_mutex p f s = Ret s' \<Longrightarrow> objects s' = objects s"
  by (auto simp: upd_mutex_def outcome_simps insert_absorb dest: objects_load)

lemma upd_class_objects: "upd_class p f s = Ret s' \<Longrightarrow> objects s' = objects s"
  by (auto simp: upd_class_def outcome_simps insert_absorb dest: objects_load)

lemma set_hloc_objects: "set_hloc b v s = Ret s' \<Longrightarrow> objects s' = objects s"
  by (auto simp: set_hloc_def outcome_simps insert_absorb dest: objects_load)

lemma os_mutex_lock_objects: "post (\<lambda>(x, s'). objects s' = objects s) (os_mutex_lock r t s)"
  unfolding os_mutex_lock_def
  by (intro post_steps) (auto simp: insert_absorb dest!: upd_mutex_objects dest: objects_load split: if_split_asm)

lemma os_mutex_unlock_objects: "post (\<lambda>(x, s'). objects s' = objects s) (os_mutex_unlock r s)"
  unfolding os_mutex_unlock_def by (intro post_steps) (auto dest!: upd_mutex_objects)

lemma hist_append_objects: "hist_append p h s = Ret s' \<Longrightarrow> objects s' = objects s"
  by (auto simp: hist_append_def outcome_simps insert_absorb dest: objects_load upd_class_objects split: if_split_asm)

lemma os_free_objects: "os_free p s = Ret s' \<Longrightarrow> objects s' \<subseteq> objects s"
  by (auto simp: os_free_def split: if_splits)

lemma hist_remove_objects:
  assumes "hist_remove p h sz b f s = Ret s'"
  shows "objects s' \<subseteq> objects s"
  using assms
  by (auto simp: hist_remove_def outcome_simps insert_absorb dest!: os_free_objects dest: objects_load upd_class_objects split: if_split_asm)
     (fastforce dest: objects_load)+

lemmas lock_objects = os_mutex_lock_objects [THEN postD, simplified] os_mutex_unlock_objects [THEN postD, simplified]

text \<open>An allocation makes at most three objects, a release makes none.\<close>

lemma buff_free_data_objects: "post (\<lambda>(r, s'). objects s' \<subseteq> objects s) (buff_free_data rid p s)"
  unfolding buff_free_data_def Let_def
  by (intro post_steps) (auto simp: outcome_simps dest!: lock_objects upd_class_objects hist_remove_objects split: if_split_asm)

lemma buff_alloc_data_keeps: "post (\<lambda>(p, s'). objects s \<subseteq> objects s') (buff_alloc_data E rid sz s)"
  unfolding buff_alloc_data_def Let_def os_malloc_def
  by (intro post_steps)
     (auto simp: outcome_simps dest!: lock_objects upd_class_objects hist_append_objects set_hloc_objects split: if_split_asm)

lemma card_insert_1: "card (insert a A) \<le> Suc (card A)" for A :: "addr set"
  by (simp add: card_insert_if)

lemma card_insert_3:
  "card (insert a A) \<le> card A + 3" "card (insert a (insert b A)) \<le> card A + 3" "card (insert a (insert b (insert c A))) \<le> card A + 3"
  for A :: "addr set"
  using card_insert_1 [of a A] card_insert_1 [of b A] card_insert_1 [of a "insert b A"] card_insert_1 [of c A]
    card_insert_1 [of b "insert c A"] card_insert_1 [of a "insert b (insert c A)"] by simp_all

lemma buff_alloc_data_objects: "post (\<lambda>(p, s'). card (objects s') \<le> card (objects s) + 3) (buff_alloc_data E rid sz s)"
  unfolding buff_alloc_data_def Let_def os_malloc_def
  by (intro post_steps)
     (auto simp: outcome_simps card_insert_3 dest!: lock_objects upd_class_objects hist_append_objects set_hloc_objects split: if_split_asm)

section \<open>The contract\<close>

text \<open>
  \<open>minv s A n\<close>: the library may use the blocks \<open>A\<close>, and blocks of together less than \<open>n\<close> bytes more can be had.
\<close>

locale db_room =
  fixes E :: db_env and minv :: "db_state \<Rightarrow> addr set \<Rightarrow> nat \<Rightarrow> bool"
  assumes minv_live: "minv s A n \<Longrightarrow> p \<in> A \<Longrightarrow> p \<noteq> 0 \<and> heap (d_os s) p \<noteq> None"
    and minv_objs: "minv s A n \<Longrightarrow> minv (s\<lparr>d_objs := H\<rparr>) A n"
    and minv_steps: "minv s A n \<Longrightarrow> minv (s\<lparr>d_steps := k\<rparr>) A n"
    and minv_less: "minv s A n \<Longrightarrow> m \<le> n \<Longrightarrow> minv s A m"
    and alloc_gives: "minv s A n \<Longrightarrow> sz \<noteq> 0 \<Longrightarrow> unat sz < 2 ^ 31 \<Longrightarrow> cost sz < n \<Longrightarrow>
      \<exists>p s'. db_mem_alloc E sz s = Ret (p, s') \<and> p \<notin> A \<and> d_objs s' = (d_objs s)(p := None)
        \<and> minv s' (insert p A) (n - cost sz) \<and> (\<forall>i < unat sz. p + of_nat i \<noteq> 0) \<and> heap (d_os s) p = None"
    and alloc_none: "minv s A n \<Longrightarrow> db_mem_alloc E 0 s = Ret (0, s\<lparr>d_objs := (d_objs s)(0 := None)\<rparr>)"
    and free_takes: "minv s A n \<Longrightarrow> p \<in> A \<Longrightarrow>
      \<exists>s'. db_mem_free p s = Ret (OKAY, s') \<and> d_objs s' = d_objs s \<and> minv s' (A - {p}) n"
begin

lemma minv_dput: "minv s A n \<Longrightarrow> minv (dput p x s) A n"
  using minv_objs by (simp add: dput_def)

lemma minv_liveB: "minv s A n \<Longrightarrow> set B \<subseteq> A \<Longrightarrow> live s B"
  unfolding live_def using minv_live by blast

lemma alloc_step:
  assumes "minv s A n" "sz \<noteq> 0" "unat sz < 2 ^ 31" "cost sz < n"
  obtains p s' where "db_mem_alloc E sz s = Ret (p, s')" "p \<notin> A" "p \<noteq> 0" "d_objs s' = (d_objs s)(p := None)"
    "minv s' (insert p A) (n - cost sz)" "\<forall>i < unat sz. p + of_nat i \<noteq> 0" "heap (d_os s') p \<noteq> None" "heap (d_os s) p = None"
  using alloc_gives [OF assms] minv_live by (metis insertI1)

end

section \<open>The instance\<close>

definition generous :: "os_env \<Rightarrow> bool" where
  "generous E \<longleftrightarrow>
     (\<forall>n r k h. unat k \<le> 2 ^ 20 \<and> card (dom h) \<le> 2 ^ 20 \<longrightarrow> e_region_alloc E n r k h \<noteq> 0) \<and>
     (\<forall>n k h. unat k \<le> 2 ^ 20 \<and> card (dom h) \<le> 2 ^ 20 \<longrightarrow> e_malloc E n k h \<noteq> 0) \<and>
     unat (e_sizeof E T_buff_history_st) \<le> 2 ^ 20"

definition db_minv :: "db_env \<Rightarrow> db_state \<Rightarrow> addr set \<Rightarrow> nat \<Rightarrow> bool" where
  "db_minv E s A n \<longleftrightarrow> env_ok (de_os E) \<and> generous (de_os E) \<and> card (objects (d_os s)) + n \<le> 2 ^ 20 \<and>
     (\<exists>M ms cs bs p C lp m hp hm hs. pool_at (d_os s) M ms cs bs (db_buffer_id s) p C lp m hp hm hs []
        \<and> A = (\<lambda>(x, sz, b). b + BUFF_OFFSET_SIZE) ` set hs \<and> n \<le> unat (bc_availsize C) \<and> n \<le> unat (bc_osize C))"

lemma db_minvI:
  assumes "env_ok (de_os E)" "generous (de_os E)" "card (objects (d_os s)) + n \<le> 2 ^ 20"
    and "pool_at (d_os s) M ms cs bs (db_buffer_id s) p C lp m hp hm hs []"
    and "A = (\<lambda>(x, sz, b). b + BUFF_OFFSET_SIZE) ` set hs" "n \<le> unat (bc_availsize C)" "n \<le> unat (bc_osize C)"
  shows "db_minv E s A n"
  unfolding db_minv_def using assms by blast

lemma db_minv_live:
  assumes "db_minv E s A n" "p \<in> A"
  shows "p \<noteq> 0 \<and> heap (d_os s) p \<noteq> None"
proof -
  from assms obtain M ms cs bs q C lp m hp hm hs x sz b where "pool_at (d_os s) M ms cs bs (db_buffer_id s) q C lp m hp hm hs []"
    "(x, sz, b) \<in> set hs" "p = b + BUFF_OFFSET_SIZE" by (auto simp: db_minv_def)
  then show ?thesis by (auto simp: pool_at_def class_rep_def block_at_def)
qed

lemma buff_alloc_room:
  assumes E: "env_ok E" "generous E" and P: "pool_at s M ms cs bs rid p C lp m hp hm hs []"
    and sz: "sz \<noteq> 0" "unat sz < 2 ^ 31" and n: "cost sz < unat (bc_availsize C)" "unat sz \<le> unat (bc_osize C)" "card (objects s) + cost sz \<le> 2 ^ 20"
  obtains b x s' C' where "buff_alloc_data E rid sz s = Ret (b + BUFF_OFFSET_SIZE, s')" "heap s (b + BUFF_OFFSET_SIZE) = None"
    "pool_at s' M ms cs bs rid p C' lp m hp hm (hs @ [(x, sz, b)]) []" "bc_totsize C' = bc_totsize C" "bc_osize C' = bc_osize C"
    "\<forall>i < unat sz. b + BUFF_OFFSET_SIZE + of_nat i \<noteq> 0"
proof -
  have ce: "class_env s M ms cs bs rid p C lp m hp hm" and m: "mutex_free m" and rep: "class_rep (heap s) rid C hs []"
    using P by (simp_all add: pool_at_def)
  let ?R = "CALC_ACTUAL_BUFF_SIZE sz"
  have s64: "unat sz + 64 < 2 ^ 32" using sz(2) by simp
  note R = CALC_ACTUAL_BUFF_SIZE_bounds [OF s64]
  have fits: "\<not> bc_osize C < sz" "\<not> bc_totsize C \<le> ?R" "\<not> bc_availsize C \<le> ?R"
    using n rep by (auto simp: word_less_nat_alt word_le_nat_alt class_rep_def)
  define b where "b = e_region_alloc E (calls s) (bc_data C) (ucast ?R) (heap (hput lp (MutexObj (lock_rec m)) s))"
  have "lp \<in> objects s" using class_envD(5) [OF ce] by (simp add: objects_def domI)
  then have "dom (heap (hput lp (MutexObj (lock_rec m)) s)) = objects s" using objects_hput [of lp _ s] by (simp add: objects_def insert_absorb)
  then have b0: "b \<noteq> 0" using E(2) n(3) unfolding generous_def b_def by (simp add: unat_ucast_u64)
  from buff_alloc_carves [OF E(1) ce m sz(1) fits b_def b0] obtain t where
    f: "heap s b = None" "heap s (b + BUFF_OFFSET_SIZE) = None" "b + BUFF_OFFSET_SIZE \<noteq> 0" "b + BUFF_OFFSET_SIZE \<noteq> b"
    and t: "class_env t M ms cs bs rid p (charged sz C) lp (lock_rec m) hp hm"
    "heap t = (heap s)(lp \<mapsto> MutexObj (lock_rec m), b \<mapsto> BuffHdrObj (bhdr rid sz 0), b + BUFF_OFFSET_SIZE \<mapsto> Uninit (ucast sz), p \<mapsto> ClassObj (charged sz C))"
    and run: "buff_alloc_data E rid sz s =
       obind (obind (os_malloc E (ucast (e_sizeof E T_buff_history_st)) t) (\<lambda>(h_temp, s).
                 if h_temp = 0 then set_hloc b 0 s
                 else let s = hput h_temp (HistObj (hnode sz b 0)) s in
                   obind (os_mutex_lock (bc_h_lock C) 0 s) (\<lambda>(r, s).
                   obind (hist_append p h_temp s) (\<lambda>s.
                   obind (set_hloc b h_temp s) (\<lambda>s.
                   obind (os_mutex_unlock (bc_h_lock C) s) (\<lambda>(r, s). Ret s))))))
         (\<lambda>s. obind (os_mutex_unlock (bc_lock C) s) (\<lambda>(r, s). Ret (b + BUFF_OFFSET_SIZE, s)))" by blast
  define x where "x = e_malloc E (calls t) (ucast (e_sizeof E T_buff_history_st)) (heap t)"
  have "dom (heap t) = insert b (insert (b + BUFF_OFFSET_SIZE) (objects s))"
    using t(2) class_envD(3,5) [OF ce] by (auto simp: objects_def)
  then have "card (dom (heap t)) \<le> 2 ^ 20" using n(3) R(1) card_insert_3(2) [of b "b + BUFF_OFFSET_SIZE" "objects s"] by simp
  then have x0: "x \<noteq> 0" using E(2) unfolding generous_def x_def by (simp add: unat_ucast_u64)
  let ?v = "hput x (HistObj (hnode sz b 0)) (hput x (Uninit (ucast (e_sizeof E T_buff_history_st))) (tick t))"
  have "0 < unat (ucast (e_sizeof E T_buff_history_st) :: u64)"
    using E(1) by (simp add: env_ok_def sizes_ok_def word_less_nat_alt)
  moreover have "\<forall>i < unat (ucast (e_sizeof E T_buff_history_st) :: u64). heap t (x + of_nat i) = None"
    using E(1) x0 by (simp add: env_ok_def malloc_fresh_def x_def Let_def)
  ultimately have "heap t x = None" by fastforce
  from buff_alloc_listed [OF P f(1-4) b0 s64 t fits(3) x0 this refl] obtain w w' C' where
    u: "os_mutex_lock (bc_h_lock C) 0 ?v = Ret (OKAY, hput hp (MutexObj (lock_rec hm)) ?v)"
    "hist_append p x (hput hp (MutexObj (lock_rec hm)) ?v) = Ret w" "set_hloc b x w = Ret (hput b (BuffHdrObj (bhdr rid sz x)) w)"
    "os_mutex_unlock (bc_h_lock C) (hput b (BuffHdrObj (bhdr rid sz x)) w) = Ret (OKAY, w')"
    "os_mutex_unlock (bc_lock C) w' = Ret (OKAY, hput lp (MutexObj m) w')"
    and pool: "pool_at (hput lp (MutexObj m) w') M ms cs bs rid p C' lp m hp hm (hs @ [(x, sz, b)]) []"
    "bc_totsize C' = bc_totsize C \<and> bc_osize C' = bc_osize C" by blast
  have run': "buff_alloc_data E rid sz s = Ret (b + BUFF_OFFSET_SIZE, hput lp (MutexObj m) w')"
    using run x0 u by (simp add: os_malloc_def x_def [symmetric] Let_def)
  have "b + BUFF_OFFSET_SIZE + of_nat i \<noteq> 0" if "i < unat sz" for i
  proof -
    have "24 + i < unat (ucast ?R :: u64)" using that R(1) by simp
    then have "b + of_nat (24 + i) \<noteq> 0" using E(1) b0 unfolding env_ok_def region_fresh_def b_def Let_def by blast
    then show ?thesis by (simp add: BUFF_OFFSET_SIZE_def add.assoc)
  qed
  then show thesis using that [OF run' f(2) pool(1)] pool(2) by blast
qed

lemma db_minv_alloc:
  assumes "db_minv E s A n" "sz \<noteq> 0" "unat sz < 2 ^ 31" "cost sz < n"
  shows "\<exists>p s'. db_mem_alloc E sz s = Ret (p, s') \<and> p \<notin> A \<and> d_objs s' = (d_objs s)(p := None)
    \<and> db_minv E s' (insert p A) (n - cost sz) \<and> (\<forall>i < unat sz. p + of_nat i \<noteq> 0) \<and> heap (d_os s) p = None"
proof -
  from assms(1) obtain M ms cs bs q C lp m hp hm hs where e: "env_ok (de_os E)" "generous (de_os E)"
    and P: "pool_at (d_os s) M ms cs bs (db_buffer_id s) q C lp m hp hm hs []"
    and A: "A = (\<lambda>(x, sz, b). b + BUFF_OFFSET_SIZE) ` set hs"
    and n: "card (objects (d_os s)) + n \<le> 2 ^ 20" "n \<le> unat (bc_availsize C)" "n \<le> unat (bc_osize C)" by (auto simp: db_minv_def)
  have R: "unat sz + 56 < cost sz" by (rule CALC_ACTUAL_BUFF_SIZE_bounds) (use assms(3) in simp)
  obtain b x o' C' where al: "buff_alloc_data (de_os E) (db_buffer_id s) sz (d_os s) = Ret (b + BUFF_OFFSET_SIZE, o')"
    "heap (d_os s) (b + BUFF_OFFSET_SIZE) = None"
    "pool_at o' M ms cs bs (db_buffer_id s) q C' lp m hp hm (hs @ [(x, sz, b)]) []" "bc_totsize C' = bc_totsize C" "bc_osize C' = bc_osize C"
    "\<forall>i < unat sz. b + BUFF_OFFSET_SIZE + of_nat i \<noteq> 0"
    by (rule buff_alloc_room [OF e P assms(2,3)]) (use assms(4) n R in auto)
  have c: "card (objects o') \<le> card (objects (d_os s)) + 3" using postD [OF buff_alloc_data_objects al(1)] by simp
  have av: "unat (bc_availsize C') + cost sz = unat (bc_availsize C)"
    using P al(3,4) by (auto simp: pool_at_def class_rep_def)
  let ?s = "s\<lparr>d_os := o', d_objs := (d_objs s)(b + BUFF_OFFSET_SIZE := None)\<rparr>"
  have "db_mem_alloc E sz s = Ret (b + BUFF_OFFSET_SIZE, ?s)" using al(1) by (simp add: db_mem_alloc_def db_os_def)
  moreover have "b + BUFF_OFFSET_SIZE \<notin> A" using db_minv_live [OF assms(1)] al(2) by blast
  moreover have "db_minv E ?s (insert (b + BUFF_OFFSET_SIZE) A) (n - cost sz)"
    by (rule db_minvI [OF e, where hs = "hs @ [(x, sz, b)]" and C = C'])
       (use al(3,5) A n av c R assms(4) in simp_all)
  ultimately show ?thesis using al(2,6) by auto
qed

lemma db_minv_free:
  assumes "db_minv E s A n" "p \<in> A"
  shows "\<exists>s'. db_mem_free p s = Ret (OKAY, s') \<and> d_objs s' = d_objs s \<and> db_minv E s' (A - {p}) n"
proof -
  from assms(1) obtain M ms cs bs q C lp m hp hm hs where e: "env_ok (de_os E)" "generous (de_os E)"
    and P: "pool_at (d_os s) M ms cs bs (db_buffer_id s) q C lp m hp hm hs []"
    and A: "A = (\<lambda>(x, sz, b). b + BUFF_OFFSET_SIZE) ` set hs"
    and n: "card (objects (d_os s)) + n \<le> 2 ^ 20" "n \<le> unat (bc_availsize C)" "n \<le> unat (bc_osize C)" by (auto simp: db_minv_def)
  from assms(2) A obtain x sz b where "(x, sz, b) \<in> set hs" and p: "p = b + BUFF_OFFSET_SIZE" by auto
  then obtain xs ys where hs: "hs = xs @ (x, sz, b) # ys" by (meson split_list)
  obtain o' C' where f: "buff_free_data (db_buffer_id s) (b + BUFF_OFFSET_SIZE) (d_os s) = Ret (OKAY, o')"
    "pool_at o' M ms cs bs (db_buffer_id s) q C' lp m hp hm (xs @ ys) []" "bc_totsize C' = bc_totsize C \<and> bc_osize C' = bc_osize C"
    by (rule buff_free_listed [OF P [unfolded hs]])
  have sub: "objects o' \<subseteq> objects (d_os s)" using postD [OF buff_free_data_objects f(1)] by simp
  have c: "card (objects o') \<le> card (objects (d_os s))" by (rule card_mono [OF _ sub]) simp
  have av: "unat (bc_availsize C') = unat (bc_availsize C) + cost sz"
    using P f(2,3) hs by (auto simp: pool_at_def class_rep_def)
  have "distinct (map (\<lambda>x. snd (snd x)) hs)" using P by (auto simp: pool_at_def class_rep_def)
  then have "A - {p} = (\<lambda>(x, sz, b). b + BUFF_OFFSET_SIZE) ` set (xs @ ys)" unfolding A p hs by (auto simp: image_iff) force+
  then have "db_minv E (s\<lparr>d_os := o'\<rparr>) (A - {p}) n"
    using f(2,3) n av c by (intro db_minvI [OF e, where hs = "xs @ ys" and C = C']) simp_all
  then show ?thesis using f(1) p by (simp add: db_mem_free_def db_os_def)
qed

interpretation room: db_room E "db_minv E" for E
proof (unfold_locales, goal_cases live objs steps less alloc none free)
  case (live s A n p) then show ?case by (rule db_minv_live)
next
  case (objs s A n H) then show ?case by (simp add: db_minv_def)
next
  case (steps s A n k) then show ?case by (simp add: db_minv_def)
next
  case (less s A n m)
  then obtain M ms cs bs p C lp k hp hm hs where "env_ok (de_os E)" "generous (de_os E)" "card (objects (d_os s)) + n \<le> 2 ^ 20"
    "pool_at (d_os s) M ms cs bs (db_buffer_id s) p C lp k hp hm hs []" "A = (\<lambda>(x, sz, b). b + BUFF_OFFSET_SIZE) ` set hs"
    "n \<le> unat (bc_availsize C)" "n \<le> unat (bc_osize C)" by (auto simp: db_minv_def)
  then show ?case using less(2) by (intro db_minvI [where C = C and hs = hs]) auto
next
  case (alloc s A n sz) then show ?case by (rule db_minv_alloc)
next
  case (none s A n)
  then obtain M ms cs bs p C lp k hp hm where "class_env (d_os s) M ms cs bs (db_buffer_id s) p C lp k hp hm" by (auto simp: db_minv_def pool_at_def)
  from class_find [OF this] show ?case by (simp add: db_mem_alloc_def db_os_def buff_alloc_data_def)
next
  case (free s A n p) then show ?case by (rule db_minv_free)
qed

end
