(* ===== verification/Db_Decode.thy ===== *)
theory Db_Decode
  imports Db_Room
begin

text \<open>
  What dbman_sql_encrypt_result writes and what dbman_sql_decrypt_result builds from it, on any memory that
  keeps the contract of Db_Room; then the release and the traversal of a result list that stands for a table.
\<close>

section \<open>The heads\<close>

lemma overwrite_same: "length a = length b \<Longrightarrow> i + length a \<le> length sp \<Longrightarrow> overwrite (overwrite sp i a) i b = overwrite sp i b"
  by (simp add: overwrite_def)

lemma overwrite_front:
  assumes "j = i + length a" "j + length b \<le> length sp"
  shows "overwrite (overwrite sp j b) i a = overwrite sp i (a @ b)"
  using assms by (simp add: overwrite_def min_def ac_simps)

definition msg_bytes :: "table \<Rightarrow> u8 list" where
  "msg_bytes T = (if tb_ret T = 0 then replicate DBMAN_ERRMSG_LEN 0 else tb_msg T)"

lemma insert_result_law:
  assumes m: "if tb_ret T = 0 then m = 0 else m \<noteq> 0 \<and> dload the_dtext m s = Ret (tb_msg T) \<and> length (tb_msg T) = DBMAN_ERRMSG_LEN"
    and room: "78 \<le> length sp"
  shows "insert_result sp 10 \<lparr>dl_ret = tb_ret T, dl_errmsg = m, dl_count = k, dl_items = q0\<rparr> s = Ret (overwrite sp 10 (be32 (tb_ret T) @ msg_bytes T))"
proof -
  let ?z = "replicate DBMAN_ERRMSG_LEN 0 :: u8 list"
  have l: "length ?z = 64" "length (msg_bytes T) = 64" using m by (auto simp: msg_bytes_def DBMAN_ERRMSG_LEN_def split: if_splits)
  have w: "wrn sp' i bs = Ret (overwrite sp' i bs)" if "length sp' = length sp" "i + length bs \<le> 78" for sp' i bs
    by (rule wrn_overwrite) (use that room in simp)
  have 1: "wrn sp 14 ?z = Ret (overwrite sp 14 ?z)" by (rule w) (use l in simp_all)
  have 2: "(if m \<noteq> 0 then obind (dload the_dtext m s) (\<lambda>t. obind (rdn t 0 DBMAN_ERRMSG_LEN) (wrn (overwrite sp 14 ?z) 14)) else Ret (overwrite sp 14 ?z))
      = Ret (overwrite sp 14 (msg_bytes T))"
  proof (cases "tb_ret T = 0")
    case True then show ?thesis using m by (simp add: msg_bytes_def)
  next
    case False
    then have "rdn (tb_msg T) 0 DBMAN_ERRMSG_LEN = Ret (tb_msg T)" using m by (simp add: rdn_def)
    moreover have "wrn (overwrite sp 14 ?z) 14 (tb_msg T) = Ret (overwrite (overwrite sp 14 ?z) 14 (tb_msg T))"
      by (rule w) (use m False l room in \<open>simp_all add: msg_bytes_def\<close>)
    ultimately show ?thesis using m False room l overwrite_same [of ?z "tb_msg T" 14 sp] by (simp add: msg_bytes_def)
  qed
  have 3: "wrn (overwrite sp 14 (msg_bytes T)) 10 (be32 (tb_ret T)) = Ret (overwrite (overwrite sp 14 (msg_bytes T)) 10 (be32 (tb_ret T)))"
    by (rule w) (use l room in simp_all)
  have 4: "overwrite (overwrite sp 14 (msg_bytes T)) 10 (be32 (tb_ret T)) = overwrite sp 10 (be32 (tb_ret T) @ msg_bytes T)"
    by (rule overwrite_front) (use l room in simp_all)
  show ?thesis using 1 2 3 4 by (cases "m = 0") (simp_all add: insert_result_def)
qed

lemma encode_heads_law:
  assumes p: "dload the_dlist p s = Ret \<lparr>dl_ret = tb_ret T, dl_errmsg = m, dl_count = k, dl_items = q0\<rparr>"
    and m: "if tb_ret T = 0 then m = 0 else m \<noteq> 0 \<and> dload the_dtext m s = Ret (tb_msg T) \<and> length (tb_msg T) = DBMAN_ERRMSG_LEN"
    and room: "78 \<le> unat sz" "unat sz \<le> length sp" and csz: "csz = of_nat (tb_cols T)"
  shows "encode_heads sp sz h (of_nat (length (tb_rows T))) csz p s = Ret (0, overwrite sp 0 (head_bytes (ih_subtype h) T))"
proof -
  let ?h = "h\<lparr>ih_row := of_nat (length (tb_rows T)), ih_col := csz\<rparr>"
  let ?A = "[DB_SPACE_TYPE_HEADER, ih_subtype h] @ be32 (of_nat (length (tb_rows T))) @ be32 csz"
  have lt: "\<not> sz < 10" "\<not> sz < 78" using room(1) by (simp_all add: word_less_nat_alt)
  have w: "wrn sp 0 ?A = Ret (overwrite sp 0 ?A)" by (rule wrn_overwrite) (use room in simp)
  have 1: "dbman_sql_insert_header sp sz (Some ?h) DB_SPACE_TYPE_HEADER 0 (ResultData p) s =
      Ret (10, overwrite sp 0 ?A, Some (?h\<lparr>ih_col := htonl csz, ih_row := htonl (of_nat (length (tb_rows T))), ih_type := DB_SPACE_TYPE_HEADER\<rparr>))"
    using lt w by (simp add: dbman_sql_insert_header_def insert_amount_def SZ_item_header_def Let_def header_bytes_def)
  have 2: "dbman_sql_insert_header (overwrite sp 0 ?A) sz None DB_SPACE_TYPE_RESULT_HEADER SZ_item_header (ResultData p) s =
      Ret (78, overwrite (overwrite sp 0 ?A) 10 (be32 (tb_ret T) @ msg_bytes T), None)"
    using lt p insert_result_law [OF m, of "overwrite sp 0 ?A" k q0] room
    by (simp add: dbman_sql_insert_header_def insert_amount_def SZ_item_header_def SZ_result_header_def)
  have l: "length (msg_bytes T) = 64" using m by (auto simp: msg_bytes_def DBMAN_ERRMSG_LEN_def split: if_splits)
  have 3: "overwrite (overwrite sp 0 ?A) 10 (be32 (tb_ret T) @ msg_bytes T) = overwrite sp 0 (?A @ be32 (tb_ret T) @ msg_bytes T)"
    by (rule overwrite_append) (use l room in simp_all)
  have 4: "?A @ be32 (tb_ret T) @ msg_bytes T = head_bytes (ih_subtype h) T" by (simp add: head_bytes_def msg_bytes_def csz)
  show ?thesis unfolding encode_heads_def using 1 2 3 4 by simp
qed

section \<open>Writing a result\<close>

lemma length_head_bytes:
  "(tb_ret T \<noteq> 0 \<Longrightarrow> length (tb_msg T) = DBMAN_ERRMSG_LEN) \<Longrightarrow> length (head_bytes st T) = 78"
  by (simp add: head_bytes_def DBMAN_ERRMSG_LEN_def)

context db_room
begin

text \<open>The writing function around the loop over the rows.\<close>

lemma encrypt_frame:
  assumes T: "length (tb_rows T) < 2 ^ 31" and inv: "minv s A n" "cost SZ_item_header < n"
    and r: "result_at (d_objs s) p T B" "set B \<subseteq> A" and room: "78 \<le> unat sz" "unat sz \<le> length sp1"
    and rows: "\<And>t h. result_at (d_objs t) p T B \<Longrightarrow> live t B \<Longrightarrow>
      \<exists>h'. encode_rows sp sz h (length (tb_rows T)) 0 p 0 (SZ_item_header + SZ_result_header) t = Ret (sp1, h', Some (of_nat (tb_cols T)))"
  obtains st s' where "dbman_sql_encrypt_result E (Some sp) sz p s = Ret ((0, Some (overwrite sp1 0 (head_bytes st T))), s')"
    "length (head_bytes st T) = 78" "minv s' A (n - cost SZ_item_header)" "\<And>q. q \<in> A \<Longrightarrow> d_objs s' q = d_objs s q"
proof -
  have z: "SZ_item_header \<noteq> 0" "unat SZ_item_header < 2 ^ 31" by (simp_all add: SZ_item_header_def)
  obtain q s1 where al: "db_mem_alloc E SZ_item_header s = Ret (q, s1)" "q \<notin> A" "q \<noteq> 0" "d_objs s1 = (d_objs s)(q := None)"
    "minv s1 (insert q A) (n - cost SZ_item_header)" by (rule alloc_step [OF inv(1) z inv(2)])
  have r1: "result_at (d_objs s1) p T B" by (rule result_at_keep [OF r(1)]) (use r(2) al(2,4) in auto)
  then obtain m q0 B' where l: "d_objs s1 p = Some (DList \<lparr>dl_ret = tb_ret T, dl_errmsg = m, dl_count = of_nat (length (tb_rows T)), dl_items = q0\<rparr>)"
    and m: "if tb_ret T = 0 then m = 0 \<and> tb_msg T = [] \<and> B = p # B' else d_objs s1 m = Some (DText (tb_msg T)) \<and> length (tb_msg T) = DBMAN_ERRMSG_LEN \<and> B = p # m # B'"
    by (rule result_atE)
  have lv: "live s1 B" by (rule minv_liveB [OF al(5)]) (use r(2) in auto)
  then have p: "p \<noteq> 0" "heap (d_os s1) p \<noteq> None" using m by (auto split: if_splits)
  have dl: "dload the_dlist p s1 = Ret \<lparr>dl_ret = tb_ret T, dl_errmsg = m, dl_count = of_nat (length (tb_rows T)), dl_items = q0\<rparr>"
    using l p by (simp add: dload_def)
  have m': "if tb_ret T = 0 then m = 0 else m \<noteq> 0 \<and> dload the_dtext m s1 = Ret (tb_msg T) \<and> length (tb_msg T) = DBMAN_ERRMSG_LEN"
    using m lv by (auto simp: dload_def split: if_splits)
  let ?h = "\<lparr>ih_type = 0, ih_subtype = de_junk_subtype E (calls (d_os s1)), ih_row = 0, ih_col = 0\<rparr>"
  from rows [OF r1 lv, of ?h] obtain h' where
    er: "encode_rows sp sz ?h (length (tb_rows T)) 0 p 0 (SZ_item_header + SZ_result_header) s1 = Ret (sp1, h', Some (of_nat (tb_cols T)))" by blast
  have eh: "encode_heads sp1 sz h' (of_nat (length (tb_rows T))) (of_nat (tb_cols T)) p s1 = Ret (0, overwrite sp1 0 (head_bytes (ih_subtype h') T))"
    by (rule encode_heads_law [OF dl m' room]) simp
  have hl: "length (head_bytes (ih_subtype h') T) = 78" by (rule length_head_bytes) (use m' in auto)
  obtain s2 where f: "db_mem_free q s1 = Ret (OKAY, s2)" "d_objs s2 = d_objs s1" "minv s2 (insert q A - {q}) (n - cost SZ_item_header)"
    using free_takes [OF al(5), of q] by auto
  have "insert q A - {q} = A" using al(2) by simp
  then have f3: "minv s2 A (n - cost SZ_item_header)" using f(3) by simp
  have ls: "dbman_result_list_size p s1 = Ret (of_nat (length (tb_rows T)))" using dl p by (simp add: dbman_result_list_size_def)
  have ns: "nat (sint (of_nat (length (tb_rows T)) :: u32)) = length (tb_rows T)" using T by (simp add: sint_of_nat_u32)
  have "dbman_sql_encrypt_result E (Some sp) sz p s = Ret ((0, Some (overwrite sp1 0 (head_bytes (ih_subtype h') T))), s2)"
    unfolding dbman_sql_encrypt_result_def using p(1) al(1,3) ls ns er eh f(1) by (simp add: Let_def)
  then show thesis by (rule that [OF _ hl f3]) (use f(2) al(2,4) in auto)
qed

lemma encrypt_law:
  assumes T: "table_ok T" and inv: "minv s A n" "cost SZ_item_header < n"
    and r: "result_at (d_objs s) p T B" "set B \<subseteq> A" and room: "table_size T \<le> unat sz" "unat sz \<le> length sp"
  obtains st s' where "dbman_sql_encrypt_result E (Some sp) sz p s = Ret ((0, Some (overwrite sp 0 (table_bytes st T))), s')"
    "minv s' A (n - cost SZ_item_header)" "\<And>q. q \<in> A \<Longrightarrow> d_objs s' q = d_objs s q"
proof -
  let ?rb = "rows_bytes 0 (tb_rows T)"
  have w: "length (tb_rows T) < 2 ^ 31" "\<forall>r \<in> set (tb_rows T). length r < 2 ^ 26" using T by (auto simp: table_ok_def)
  have z: "78 \<le> unat sz" "unat sz \<le> length (overwrite sp 78 ?rb)" using room by (simp_all add: table_size_def)
  have rows: "\<exists>h'. encode_rows sp sz h (length (tb_rows T)) 0 p 0 (SZ_item_header + SZ_result_header) t = Ret (overwrite sp 78 ?rb, h', Some (of_nat (tb_cols T)))"
    if a: "result_at (d_objs t) p T B" "live t B" for t h
  proof -
    obtain l B' where l: "d_objs t p = Some (DList l)" "dl_count l = of_nat (length (tb_rows T))" "p \<noteq> 0" "heap (d_os t) p \<noteq> None"
      "cols_at (d_objs t) (dl_items l) (tb_rows T) B'" "live t B'" by (rule result_at_list [OF a])
    show ?thesis using encode_rows_law [OF l, of 0 "length (tb_rows T)" "SZ_item_header + SZ_result_header" sz sp h 0] w room
      by (auto simp: table_size_def tb_cols_def SZ_item_header_def SZ_result_header_def)
  qed
  obtain st s' where e: "dbman_sql_encrypt_result E (Some sp) sz p s = Ret ((0, Some (overwrite (overwrite sp 78 ?rb) 0 (head_bytes st T))), s')"
    "length (head_bytes st T) = 78" "minv s' A (n - cost SZ_item_header)" "\<And>q. q \<in> A \<Longrightarrow> d_objs s' q = d_objs s q"
    by (rule encrypt_frame [OF w(1) inv r z]) (erule (1) rows, rule that)
  have "overwrite (overwrite sp 78 ?rb) 0 (head_bytes st T) = overwrite sp 0 (table_bytes st T)"
    unfolding table_bytes_def by (rule overwrite_front) (use e(2) room in \<open>simp_all add: table_size_def\<close>)
  then show thesis using e by (intro that [of st s']) auto
qed

text \<open>
  The last row when its delimiter does not fit any more: the offset becomes 0, the items go over the heads, and
  the heads are written over them.
\<close>

lemma encrypt_overflow_law:
  assumes T: "table_ok T" "tb_rows T \<noteq> []" and inv: "minv s A n" "cost SZ_item_header < n"
    and r: "result_at (d_objs s) p T B" "set B \<subseteq> A"
    and room: "78 + length (rows_bytes 0 (butlast (tb_rows T))) \<le> unat sz" "unat sz < 82 + length (rows_bytes 0 (butlast (tb_rows T)))"
      "unat sz \<le> length sp" "unat sz < 2 ^ 31"
    and last: "length (items_bytes (length (tb_rows T) - 1) 0 (last (tb_rows T))) \<le> 78"
  obtains st s' where "dbman_sql_encrypt_result E (Some sp) sz p s =
      Ret ((0, Some (overwrite sp 0 (head_bytes st T @ rows_bytes 0 (butlast (tb_rows T))))), s')"
proof -
  let ?rb = "rows_bytes 0 (butlast (tb_rows T))" and ?it = "items_bytes (length (tb_rows T) - 1) 0 (last (tb_rows T))"
  let ?sp1 = "overwrite (overwrite sp 78 ?rb) 0 ?it"
  have w: "length (tb_rows T) < 2 ^ 31" "\<forall>r \<in> set (tb_rows T). 0 < length r \<and> length r < 2 ^ 26" using T by (auto simp: table_ok_def)
  have z: "78 \<le> unat sz" "unat sz \<le> length ?sp1" using room last by simp_all
  have rows: "\<exists>h'. encode_rows sp sz h (length (tb_rows T)) 0 p 0 (SZ_item_header + SZ_result_header) t = Ret (?sp1, h', Some (of_nat (tb_cols T)))"
    if a: "result_at (d_objs t) p T B" "live t B" for t h
  proof -
    obtain l B' where l: "d_objs t p = Some (DList l)" "dl_count l = of_nat (length (tb_rows T))" "p \<noteq> 0" "heap (d_os t) p \<noteq> None"
      "cols_at (d_objs t) (dl_items l) (tb_rows T) B'" "live t B'" by (rule result_at_list [OF a])
    obtain k where k: "length (tb_rows T) = Suc k" using T(2) by (cases "tb_rows T") auto
    show ?thesis using encode_rows_overflow [OF l, of 0 k "SZ_item_header + SZ_result_header" sz sp h 0] w room k last T(2)
      by (simp add: tb_cols_def SZ_item_header_def SZ_result_header_def)
  qed
  obtain st s' where e: "dbman_sql_encrypt_result E (Some sp) sz p s = Ret ((0, Some (overwrite ?sp1 0 (head_bytes st T))), s')"
    "length (head_bytes st T) = 78" by (rule encrypt_frame [OF w(1) inv r z]) (erule (1) rows, rule that)
  have "overwrite ?sp1 0 (head_bytes st T) = overwrite (overwrite sp 78 ?rb) 0 (head_bytes st T)"
    using last room e(2) by (simp add: overwrite_def)
  also have "\<dots> = overwrite sp 0 (head_bytes st T @ ?rb)" by (rule overwrite_front) (use e(2) room in simp_all)
  finally show thesis using e(1) that by simp
qed

end

section \<open>Reading\<close>

text \<open>Bytes at a place of a space.\<close>

definition bytes_at :: "u8 list \<Rightarrow> nat \<Rightarrow> u8 list \<Rightarrow> bool" where
  "bytes_at sp i bs \<longleftrightarrow> i + length bs \<le> length sp \<and> take (length bs) (drop i sp) = bs"

lemma bytes_at_append: "bytes_at sp i (a @ b) \<longleftrightarrow> bytes_at sp i a \<and> bytes_at sp (i + length a) b"
proof
  assume "bytes_at sp i (a @ b)"
  then have l: "i + length a + length b \<le> length sp" and t: "take (length a + length b) (drop i sp) = a @ b" by (simp_all add: bytes_at_def)
  have "take (length a) (drop i sp) = a" using arg_cong [OF t, of "take (length a)"] by simp
  moreover have "take (length b) (drop (i + length a) sp) = b" using arg_cong [OF t, of "drop (length a)"] by (simp add: drop_take add.commute)
  ultimately show "bytes_at sp i a \<and> bytes_at sp (i + length a) b" using l by (simp add: bytes_at_def)
next
  assume "bytes_at sp i a \<and> bytes_at sp (i + length a) b"
  then show "bytes_at sp i (a @ b)" by (simp add: bytes_at_def take_add add.commute)
qed

lemma bytes_at_overwrite: "i + length bs \<le> length sp \<Longrightarrow> bytes_at (overwrite sp i bs) i bs"
  by (simp add: bytes_at_def overwrite_at)

lemma bytes_at_nth: "bytes_at sp i bs \<Longrightarrow> j < length bs \<Longrightarrow> sp ! (i + j) = bs ! j"
proof -
  assume a: "bytes_at sp i bs" "j < length bs"
  then have "bs ! j = take (length bs) (drop i sp) ! j" by (simp add: bytes_at_def)
  then show ?thesis using a by (simp add: bytes_at_def)
qed

lemma rd8_at: "bytes_at sp i [b] \<Longrightarrow> rd8 sp i = Ret b"
  using bytes_at_nth [of sp i "[b]" 0] by (simp add: rd8_def bytes_at_def)

lemma rd32_at: "bytes_at sp i (be32 w) \<Longrightarrow> rd32 sp i = Ret (htonl w)"
proof -
  assume a: "bytes_at sp i (be32 w)"
  note n = bytes_at_nth [OF a, of 0] bytes_at_nth [OF a, of 1] bytes_at_nth [OF a, of 2] bytes_at_nth [OF a, of 3]
  have "i + 4 \<le> length sp" using a by (simp add: bytes_at_def)
  then show ?thesis using n by (simp add: rd32_def le_bytes32_def bytes_word_le32)
qed

lemma rdn_at: "bytes_at sp i bs \<Longrightarrow> rdn sp i (length bs) = Ret bs"
  by (simp add: rdn_def bytes_at_def)

text \<open>The memory a table takes.\<close>

fun val_ok :: "dbval \<Rightarrow> bool" where
  "val_ok (DbInt n) \<longleftrightarrow> True"
| "val_ok (DbStr bs) \<longleftrightarrow> bs \<noteq> [] \<and> length bs < 2 ^ 31"

fun val_price :: "dbval \<Rightarrow> nat" where
  "val_price (DbInt n) = 0"
| "val_price (DbStr bs) = cost (of_nat (length bs))"

definition row_price :: "dbval list \<Rightarrow> nat" where
  "row_price r = cost (SZ_item * of_nat (length r)) + sum_list (map val_price r) + cost SZ_column"

definition table_price :: "table \<Rightarrow> nat" where
  "table_price T = sum_list (map row_price (tb_rows T)) + cost SZ_list + (if tb_ret T = 0 then 0 else cost (of_nat DBMAN_ERRMSG_LEN))"

lemma items_at_ok: "items_at H its vs B \<Longrightarrow> list_all val_ok vs"
  by (induction H its vs B rule: items_at.induct) auto

lemma cols_at_ok: "cols_at H p rs B \<Longrightarrow> list_all (list_all val_ok) rs"
  by (induction rs arbitrary: p B) (auto dest: items_at_ok)

lemma offset_add: "unat (off :: u32) + n < 2 ^ 32 \<Longrightarrow> unat (off + of_nat n) = unat off + n"
proof -
  assume a: "unat off + n < 2 ^ 32"
  then have "unat (of_nat n :: u32) = n" by (simp add: unat_of_nat take_bit_nat_eq_self)
  then show ?thesis using a by (subst unat_add_lem [THEN iffD1]) simp_all
qed

text \<open>The heads of a table, and the reading function behind them.\<close>

lemma table_width:
  assumes "table_ok T"
  obtains c where "\<forall>r \<in> set (tb_rows T). length r = c" "0 < c" "c < 2 ^ 26" "tb_rows T \<noteq> [] \<Longrightarrow> tb_cols T = c"
proof -
  from assms obtain c where "\<forall>r \<in> set (tb_rows T). length r = c \<and> 0 < c \<and> c < 2 ^ 26" by (auto simp: table_ok_def)
  then have *: "length r = c" "0 < c" "c < 2 ^ 26" if "r \<in> set (tb_rows T)" for r using that by blast+
  show thesis
  proof (cases "tb_rows T = []")
    case True then show thesis using that [of 1] by simp
  next
    case False
    then have "last (tb_rows T) \<in> set (tb_rows T)" by simp
    then show thesis using * [of "last (tb_rows T)"] *(1) False by (intro that [of c]) (auto simp: tb_cols_def)
  qed
qed

lemma decrypt_heads:
  assumes T: "table_ok T" and m: "if tb_ret T = 0 then tb_msg T = [] else length (tb_msg T) = DBMAN_ERRMSG_LEN"
    and b: "bytes_at sp 0 (table_bytes st T)" "sz \<noteq> 0"
  shows "bytes_at sp 10 (be32 (tb_ret T))" "bytes_at sp 14 (msg_bytes T)" "bytes_at sp 78 (rows_bytes 0 (tb_rows T))"
    "dbman_sql_decrypt_result E (Some sp) sz s =
       obind (decode_rows E sp (of_nat (tb_cols T)) (length (tb_rows T)) 0 0 0 (SZ_item_header + SZ_result_header) s) (\<lambda>((root, ok), s).
         if \<not> ok then fail_decrypt None root s
         else obind (db_mem_alloc E SZ_list s) (\<lambda>(result, s).
         if result = 0 then fail_decrypt (Some 0) root s else decode_message E sp result root (of_nat (length (tb_rows T))) s))"
proof -
  let ?rs = "tb_rows T" and ?R = "of_nat (length (tb_rows T)) :: u32" and ?C = "of_nat (tb_cols T) :: u32"
  obtain c where c: "0 < c" "c < 2 ^ 26" "?rs \<noteq> [] \<Longrightarrow> tb_cols T = c" by (rule table_width [OF T]) (rule that)
  have tc: "length ?rs < 2 ^ 31" "tb_cols T < 2 ^ 31" using T c by (simp add: table_ok_def) (use c in \<open>cases "?rs = []"; simp add: tb_cols_def\<close>)
  have ml: "length (msg_bytes T) = 64" using m by (auto simp: msg_bytes_def DBMAN_ERRMSG_LEN_def split: if_splits)
  have tb: "table_bytes st T = [DB_SPACE_TYPE_HEADER] @ [st] @ be32 ?R @ be32 ?C @ be32 (tb_ret T) @ msg_bytes T @ rows_bytes 0 ?rs"
    by (simp add: table_bytes_def head_bytes_def msg_bytes_def)
  from b(1) [unfolded tb bytes_at_append] ml have h: "bytes_at sp 0 [DB_SPACE_TYPE_HEADER]" "bytes_at sp 2 (be32 ?R)" "bytes_at sp 6 (be32 ?C)"
    "bytes_at sp 10 (be32 (tb_ret T))" "bytes_at sp 14 (msg_bytes T)" "bytes_at sp 78 (rows_bytes 0 ?rs)" by (simp_all add: numeral_2_eq_2)
  have rd: "rd8 sp 0 = Ret DB_SPACE_TYPE_HEADER" "rd32 sp 2 = Ret (htonl ?R)" "rd32 sp 6 = Ret (htonl ?C)"
    by (rule rd8_at [OF h(1)] rd32_at [OF h(2)] rd32_at [OF h(3)])+
  have sg: "\<not> sint ?R < 0" "\<not> sint ?C < 0" "unat ?R = length ?rs" using tc by (simp_all add: sint_of_nat_u32)
  show "bytes_at sp 10 (be32 (tb_ret T))" "bytes_at sp 14 (msg_bytes T)" "bytes_at sp 78 (rows_bytes 0 ?rs)" by (fact h)+
  show "dbman_sql_decrypt_result E (Some sp) sz s =
       obind (decode_rows E sp ?C (length ?rs) 0 0 0 (SZ_item_header + SZ_result_header) s) (\<lambda>((root, ok), s).
         if \<not> ok then fail_decrypt None root s
         else obind (db_mem_alloc E SZ_list s) (\<lambda>(result, s).
         if result = 0 then fail_decrypt (Some 0) root s else decode_message E sp result root ?R s))"
    using b(2) rd sg by (simp add: dbman_sql_decrypt_result_def Let_def cong del: if_weak_cong prod.case_cong_weak)
qed

context db_room
begin

lemma minv_load: "minv s A n \<Longrightarrow> p \<in> A \<Longrightarrow> d_objs s p = Some x \<Longrightarrow> sel x = Some v \<Longrightarrow> dload sel p s = Ret v"
  using minv_live by (fastforce simp: dload_def)

lemma upd_item_law:
  assumes "minv s A n" "a \<in> A" "d_objs s a = Some (DItems its)" "i < length its"
  shows "upd_item a i f s = Ret (dput a (DItems (its[i := f (its ! i)])) s)"
  using minv_load [OF assms(1-3), of the_ditems] assms(4) by (simp add: upd_item_def)

lemma d_objs_dput [simp]: "d_objs (dput p x s) = (d_objs s)(p \<mapsto> x)"
  by (simp add: dput_def)

lemma decode_value_law:
  assumes inv: "minv s A n" "a \<in> A" "d_objs s a = Some (DItems its)" "iy < length its" and v: "val_ok v" "val_price v < n"
    and b: "bytes_at sp (unat off) (val_bytes v)" "length sp < 2 ^ 32"
  shows "\<exists>s' it B. decode_value E sp (val_subtype v) a iy off s = Ret (Some (off + of_nat (length (val_bytes v))), s')
    \<and> minv s' (A \<union> set B) (n - val_price v) \<and> set B \<inter> A = {} \<and> distinct B \<and> (\<forall>p \<in> A - {a}. d_objs s' p = d_objs s p)
    \<and> d_objs s' a = Some (DItems (its[iy := it])) \<and> items_at (d_objs s') [it] [v] B"
proof (cases v)
  case (DbInt k)
  let ?f = "\<lambda>it. it\<lparr>di_type := DB_TYPE_INTEGER, di_intval := k\<rparr>"
  have "rd32 sp (unat off) = Ret (htonl k)" using b(1) DbInt by (simp add: rd32_at)
  then have "decode_value E sp (val_subtype v) a iy off s = Ret (Some (off + 4), dput a (DItems (its[iy := ?f (its ! iy)])) s)"
    using upd_item_law [OF inv] DbInt by (simp add: decode_value_def)
  then show ?thesis using DbInt minv_dput [OF inv(1)]
    by (intro exI [of _ "dput a (DItems (its[iy := ?f (its ! iy)])) s"] exI [of _ "?f (its ! iy)"] exI [of _ "[]"]) simp
next
  case (DbStr bs)
  let ?k = "of_nat (length bs) :: u32"
  have k: "unat ?k = length bs" "bs \<noteq> []" "length bs < 2 ^ 31" using v(1) DbStr by simp_all
  then have k0: "?k \<noteq> 0" by (metis length_0_conv unsigned_0)
  have b1: "bytes_at sp (unat off) (be32 ?k)" and b2: "bytes_at sp (unat off + 4) bs" using b(1) DbStr by (simp_all add: bytes_at_append)
  have o4: "unat (off + 4) = unat off + 4" using offset_add [of off 4] b2 b(2) by (simp add: bytes_at_def)
  let ?f = "\<lambda>it. it\<lparr>di_type := DB_TYPE_STRING, di_lenstr := ?k\<rparr>"
  let ?its1 = "its[iy := ?f (its ! iy)]"
  let ?s1 = "dput a (DItems ?its1) s"
  have u1: "upd_item a iy ?f s = Ret ?s1" by (rule upd_item_law [OF inv])
  obtain p s2 where al: "db_mem_alloc E ?k ?s1 = Ret (p, s2)" "p \<notin> A" "p \<noteq> 0" "d_objs s2 = (d_objs ?s1)(p := None)"
    "minv s2 (insert p A) (n - cost ?k)"
    by (rule alloc_step [OF minv_dput [OF inv(1)] k0]) (use k v(2) DbStr in auto)
  have pa: "p \<noteq> a" using al(2) inv(2) by auto
  let ?it = "(?f (its ! iy))\<lparr>di_strval := p\<rparr>"
  let ?s3 = "dput a (DItems (its[iy := ?it])) s2"
  have "d_objs s2 a = Some (DItems ?its1)" using al(4) pa by simp
  then have u2: "upd_item a iy (\<lambda>it. it\<lparr>di_strval := p\<rparr>) s2 = Ret ?s3"
    using upd_item_law [OF al(5) _ _ , of a ?its1 iy] inv(2,4) by simp
  let ?s4 = "dput p (DText bs) ?s3"
  have "decode_value E sp (val_subtype v) a iy off s = Ret (Some (off + 4 + ?k), ?s4)"
    using DbStr rd32_at [OF b1] u1 al(1,3) u2 rdn_at [OF b2] k(1) o4 by (simp add: decode_value_def)
  moreover have "minv ?s4 (A \<union> set [p]) (n - val_price v)" using minv_dput [OF minv_dput [OF al(5)]] DbStr by simp
  moreover have "items_at (d_objs ?s4) [?it] [v] [p]" using DbStr k by simp
  moreover have "d_objs ?s4 a = Some (DItems (its[iy := ?it]))" using pa by simp
  moreover have "\<forall>q \<in> A - {a}. d_objs ?s4 q = d_objs s q" using al(2,4) by auto
  moreover have "off + 4 + ?k = off + of_nat (length (val_bytes v))" using DbStr by simp
  ultimately show ?thesis using al(2)
    by (intro exI [of _ ?s4] exI [of _ ?it] exI [of _ "[p]"]) simp
qed

lemma decode_item_law:
  assumes inv: "minv s A n" "a \<in> A" "d_objs s a = Some (DItems its)" "iy < length its" and v: "val_ok v" "val_price v < n"
    and b: "bytes_at sp (unat off) (item_bytes ix iy v)" "length sp < 2 ^ 32"
  shows "\<exists>s' it B. decode_item E sp ix iy a off s = Ret (Some (off + of_nat (length (item_bytes ix iy v))), s')
    \<and> minv s' (A \<union> set B) (n - val_price v) \<and> set B \<inter> A = {} \<and> distinct B \<and> (\<forall>p \<in> A - {a}. d_objs s' p = d_objs s p)
    \<and> d_objs s' a = Some (DItems (its[iy := it])) \<and> items_at (d_objs s') [it] [v] B"
proof -
  have "item_bytes ix iy v = [DB_SPACE_TYPE_ITEM] @ [val_subtype v] @ be32 (of_nat ix) @ be32 (of_nat iy) @ val_bytes v" by (simp add: item_bytes_def)
  from b(1) [unfolded this bytes_at_append] have h: "bytes_at sp (unat off) [DB_SPACE_TYPE_ITEM]" "bytes_at sp (unat off + 1) [val_subtype v]"
    "bytes_at sp (unat off + 2) (be32 (of_nat ix))" "bytes_at sp (unat off + 6) (be32 (of_nat iy))" "bytes_at sp (unat off + 10) (val_bytes v)"
    by (simp_all add: ac_simps)
  have o: "unat (off + SZ_item_header) = unat off + 10" using offset_add [of off 10] h(5) b(2) by (simp add: bytes_at_def SZ_item_header_def)
  have l: "off + SZ_item_header + of_nat (length (val_bytes v)) = off + of_nat (length (item_bytes ix iy v))"
    by (simp add: length_item_bytes SZ_item_header_def add.assoc)
  have "decode_item E sp ix iy a off s = decode_value E sp (val_subtype v) a iy (off + SZ_item_header) s"
    using rd8_at [OF h(1)] rd8_at [OF h(2)] rd32_at [OF h(3)] rd32_at [OF h(4)] by (simp add: decode_item_def)
  then show ?thesis using decode_value_law [OF inv v, of sp "off + SZ_item_header"] h(5) b(2) unfolding o l by simp
qed

lemma items_at_append1:
  assumes "items_at H [it] [v] B" "items_at H its vs B'"
  shows "items_at H (it # its) (v # vs) (B @ B')"
  using assms by (cases v) auto

lemma decode_items_law:
  assumes "minv s A n" "a \<in> A" "d_objs s a = Some (DItems its)" "iy + length vs = length its"
    and "list_all val_ok vs" "sum_list (map val_price vs) < n"
    and "bytes_at sp (unat off) (items_bytes ix iy vs)" "length sp < 2 ^ 32"
  shows "\<exists>s' its' B. decode_items E sp ix (length vs) iy a off s = Ret (Some (off + of_nat (length (items_bytes ix iy vs))), s')
    \<and> minv s' (A \<union> set B) (n - sum_list (map val_price vs)) \<and> set B \<inter> A = {} \<and> distinct B \<and> (\<forall>p \<in> A - {a}. d_objs s' p = d_objs s p)
    \<and> d_objs s' a = Some (DItems (take iy its @ its')) \<and> items_at (d_objs s') its' vs B"
  using assms
proof (induction vs arbitrary: s A n its iy off)
  case Nil
  then show ?case by (intro exI [of _ s] exI [of _ "[]"] exI [of _ "[]"]) simp
next
  case (Cons v vs)
  have iy: "iy < length its" using Cons.prems(4) by simp
  have b: "bytes_at sp (unat off) (item_bytes ix iy v)" "bytes_at sp (unat off + length (item_bytes ix iy v)) (items_bytes ix (Suc iy) vs)"
    using Cons.prems(7) by (simp_all add: bytes_at_append)
  have pr: "val_price v < n" "sum_list (map val_price vs) < n - val_price v" "val_ok v" using Cons.prems(5,6) by auto
  from decode_item_law [OF Cons.prems(1-3) iy pr(3,1) b(1) Cons.prems(8)] obtain s1 it B1 where
    1: "decode_item E sp ix iy a off s = Ret (Some (off + of_nat (length (item_bytes ix iy v))), s1)"
    "minv s1 (A \<union> set B1) (n - val_price v)" "set B1 \<inter> A = {}" "distinct B1" "\<forall>p \<in> A - {a}. d_objs s1 p = d_objs s p"
    "d_objs s1 a = Some (DItems (its[iy := it]))" "items_at (d_objs s1) [it] [v] B1" by blast
  let ?off = "off + of_nat (length (item_bytes ix iy v))"
  have o: "unat ?off = unat off + length (item_bytes ix iy v)" by (rule offset_add) (use b(1) Cons.prems(8) in \<open>auto simp: bytes_at_def\<close>)
  from Cons.IH [OF 1(2) _ 1(6), of "Suc iy" ?off] Cons.prems(2,4,5,8) pr(2) b(2) o obtain s2 its' B2 where
    2: "decode_items E sp ix (length vs) (Suc iy) a ?off s1 = Ret (Some (?off + of_nat (length (items_bytes ix (Suc iy) vs))), s2)"
    "minv s2 (A \<union> set B1 \<union> set B2) (n - val_price v - sum_list (map val_price vs))" "set B2 \<inter> (A \<union> set B1) = {}" "distinct B2"
    "\<forall>p \<in> A \<union> set B1 - {a}. d_objs s2 p = d_objs s1 p" "d_objs s2 a = Some (DItems (take (Suc iy) (its[iy := it]) @ its'))"
    "items_at (d_objs s2) its' vs B2" by auto
  have "items_at (d_objs s2) [it] [v] B1" by (rule items_at_keep [OF 1(7)]) (use 1(3) 2(5) Cons.prems(2) in auto)
  then have it: "items_at (d_objs s2) (it # its') (v # vs) (B1 @ B2)" by (rule items_at_append1 [OF _ 2(7)])
  have tk: "take (Suc iy) (its[iy := it]) @ its' = take iy its @ it # its'" using iy by (simp add: take_Suc_conv_app_nth)
  have "minv s2 (A \<union> set (B1 @ B2)) (n - sum_list (map val_price (v # vs)))" using 2(2) by (simp add: Un_assoc)
  moreover have "\<forall>p \<in> A - {a}. d_objs s2 p = d_objs s p" using 1(5) 2(5) by auto
  moreover have "decode_items E sp ix (length (v # vs)) iy a off s = Ret (Some (off + of_nat (length (items_bytes ix iy (v # vs)))), s2)"
    using 1(1) 2(1) by (simp add: add.assoc)
  ultimately show ?case using it 2(3,4,6) 1(3,4) tk
    by (intro exI [of _ s2] exI [of _ "it # its'"] exI [of _ "B1 @ B2"]) auto
qed

lemma decode_row_law:
  assumes inv: "minv s A n" and r: "0 < length r" "length r < 2 ^ 26" "list_all val_ok r" "row_price r < n"
    and b: "bytes_at sp (unat off) (be32 DB_SPACE_COLUMN_DELIMITER @ items_bytes ix 0 r)" "length sp < 2 ^ 32"
    and cur: "root \<noteq> 0 \<Longrightarrow> cur \<in> A \<and> d_objs s cur = Some (DCol cc)"
  shows "\<exists>s' line a its B. decode_row E sp (of_nat (length r)) ix root cur off s =
      Ret ((if root = 0 then line else root, Some (line, off + of_nat (4 + length (items_bytes ix 0 r)))), s')
    \<and> line \<noteq> 0 \<and> minv s' (A \<union> set (line # a # B)) (n - row_price r) \<and> set (line # a # B) \<inter> A = {} \<and> distinct (line # a # B)
    \<and> d_objs s' line = Some (DCol \<lparr>dc_count = of_nat (length r), dc_items = a, dc_next = 0\<rparr>)
    \<and> d_objs s' a = Some (DItems its) \<and> items_at (d_objs s') its r B \<and> (\<forall>i < length r. \<not> null_item a i)
    \<and> (\<forall>p \<in> A. p \<noteq> cur \<or> root = 0 \<longrightarrow> d_objs s' p = d_objs s p) \<and> (root \<noteq> 0 \<longrightarrow> d_objs s' cur = Some (DCol (cc\<lparr>dc_next := line\<rparr>)))"
proof -
  let ?c = "length r" and ?z = "SZ_item * of_nat (length r)"
  have z: "unat ?z = 32 * ?c" using r(2) by (simp add: SZ_item_def unat_word_ariths)
  then have z0: "?z \<noteq> 0" "unat ?z < 2 ^ 31" using r(1,2) by (auto simp: unat_eq_0 [symmetric])
  have pr: "cost ?z < n" "sum_list (map val_price r) < n - cost ?z" "cost SZ_column < n - cost ?z - sum_list (map val_price r)"
    using r(4) by (auto simp: row_price_def)
  have bd: "bytes_at sp (unat off) (be32 DB_SPACE_COLUMN_DELIMITER)" "bytes_at sp (unat off + 4) (items_bytes ix 0 r)"
    using b(1) by (simp_all add: bytes_at_append)
  have o4: "unat (off + 4) = unat off + 4" using offset_add [of off 4] bd(2) b(2) bd(1) by (simp add: bytes_at_def)
  obtain a s1 where a: "db_mem_alloc E ?z s = Ret (a, s1)" "a \<notin> A" "a \<noteq> 0" "d_objs s1 = (d_objs s)(a := None)" "minv s1 (insert a A) (n - cost ?z)"
    "\<forall>i < unat ?z. a + of_nat i \<noteq> 0" by (rule alloc_step [OF inv z0 pr(1)])
  let ?j = "map (de_junk_item E (calls (d_os s1))) [0..<unat ?z div unat SZ_item]"
  have lj: "length ?j = ?c" using z by (simp add: SZ_item_def)
  let ?s1 = "dput a (DItems ?j) s1"
  from decode_items_law [where s = ?s1 and A = "insert a A" and n = "n - cost ?z" and a = a and its = ?j and iy = 0 and vs = r and sp = sp and off = "off + 4" and ix = ix]
    minv_dput [OF a(5), of a "DItems ?j"] lj r(3) pr(2) bd(2) b(2) o4
  obtain s2 its B where i: "decode_items E sp ix ?c 0 a (off + 4) ?s1 = Ret (Some (off + 4 + of_nat (length (items_bytes ix 0 r))), s2)"
    "minv s2 (insert a A \<union> set B) (n - cost ?z - sum_list (map val_price r))" "set B \<inter> insert a A = {}" "distinct B"
    "\<forall>p \<in> insert a A - {a}. d_objs s2 p = d_objs ?s1 p" "d_objs s2 a = Some (DItems its)" "items_at (d_objs s2) its r B" by auto
  have zc: "SZ_column \<noteq> 0" "unat SZ_column < 2 ^ 31" by (simp_all add: SZ_column_def)
  obtain line s3 where l: "db_mem_alloc E SZ_column s2 = Ret (line, s3)" "line \<notin> insert a A \<union> set B" "line \<noteq> 0" "d_objs s3 = (d_objs s2)(line := None)"
    "minv s3 (insert line (insert a A \<union> set B)) (n - cost ?z - sum_list (map val_price r) - cost SZ_column)" by (rule alloc_step [OF i(2) zc pr(3)])
  let ?col = "DCol \<lparr>dc_count = of_nat ?c, dc_items = a, dc_next = 0\<rparr>"
  let ?s3 = "dput line ?col s3"
  have ns: "nat (sint (of_nat ?c :: u32)) = ?c" using r(2) by (simp add: sint_of_nat_u32)
  define s4 where "s4 = (if root = 0 then ?s3 else dput cur (DCol (cc\<lparr>dc_next := line\<rparr>)) ?s3)"
  have ln: "line \<noteq> cur \<and> cur \<noteq> a \<and> cur \<notin> set B" if "root \<noteq> 0" using cur [OF that] l(2) a(2) i(3) by auto
  have lk: "link_line root cur line ?s3 = Ret (if root = 0 then line else root, s4)"
  proof (cases "root = 0")
    case False
    have cA: "cur \<in> A" using cur [OF False] by simp
    have "d_objs ?s3 cur = Some (DCol cc)" using cur [OF False] ln [OF False] l(4) i(5) a(4) by auto
    then have "dload the_dcol cur ?s3 = Ret cc" by (intro minv_load [OF minv_dput [OF l(5)]]) (use cA in auto)
    then show ?thesis using False by (simp add: link_line_def s4_def)
  qed (simp add: link_line_def s4_def)
  have run: "decode_row E sp (of_nat ?c) ix root cur off s =
      Ret ((if root = 0 then line else root, Some (line, off + of_nat (4 + length (items_bytes ix 0 r)))), s4)"
    using rd32_at [OF bd(1)] a(1,3) i(1) ns l(1,3) lk by (simp add: decode_row_def Let_def add.assoc)
  have fr: "d_objs s4 q = d_objs s2 q" if "q \<in> insert a A \<union> set B" "root = 0 \<or> q \<noteq> cur" for q
    using that l(2,4) by (auto simp: s4_def)
  have m: "minv s4 (A \<union> set (line # a # B)) (n - row_price r)"
  proof -
    have "insert line (insert a A \<union> set B) = A \<union> set (line # a # B)" by auto
    moreover have "n - cost ?z - sum_list (map val_price r) - cost SZ_column = n - row_price r" by (simp add: row_price_def)
    ultimately show ?thesis using minv_dput [OF l(5)] minv_dput [OF minv_dput [OF l(5)]] by (simp add: s4_def)
  qed
  have it: "items_at (d_objs s4) its r B" by (rule items_at_keep [OF i(7)]) (use fr ln in blast)
  have r1: "d_objs s4 line = Some ?col" using ln by (auto simp: s4_def)
  have r2: "d_objs s4 a = Some (DItems its)" using fr [of a] ln i(6) by auto
  have r3: "\<forall>k < ?c. \<not> null_item a k"
  proof (intro allI impI)
    fix k assume "k < ?c"
    then have "32 * k < unat ?z" using z by simp
    with a(6) have "a + of_nat (32 * k) \<noteq> 0" by blast
    then show "\<not> null_item a k" by (simp add: null_item_def SZ_item_def)
  qed
  have r4: "\<forall>q \<in> A. q \<noteq> cur \<or> root = 0 \<longrightarrow> d_objs s4 q = d_objs s q"
  proof (intro ballI impI)
    fix q assume q: "q \<in> A" "q \<noteq> cur \<or> root = 0"
    then have "d_objs s4 q = d_objs s2 q" "q \<noteq> a" using a(2) by (auto intro!: fr)
    then show "d_objs s4 q = d_objs s q" using q(1) i(5) a(4) by simp
  qed
  have r5: "root \<noteq> 0 \<longrightarrow> d_objs s4 cur = Some (DCol (cc\<lparr>dc_next := line\<rparr>))" by (simp add: s4_def)
  have r6: "set (line # a # B) \<inter> A = {}" "distinct (line # a # B)" using l(2) a(2) i(3,4) by auto
  show ?thesis
    by (intro exI [of _ s4] exI [of _ line] exI [of _ a] exI [of _ its] exI [of _ B] conjI)
       (fact run l(3) m r6 r1 r2 it r3 r4 r5)+
qed

lemma decode_rows_law:
  assumes "minv s A n" "\<forall>r \<in> set rs. length r = c" "0 < c" "c < 2 ^ 26" "list_all (list_all val_ok) rs" "sum_list (map row_price rs) < n"
    and "bytes_at sp (unat off) (rows_bytes ix rs)" "length sp < 2 ^ 32"
    and "root \<noteq> 0 \<Longrightarrow> cur \<in> A \<and> d_objs s cur = Some (DCol cc) \<and> dc_next cc = 0"
  shows "\<exists>s' p B. decode_rows E sp (of_nat c) (length rs) ix root cur off s = Ret ((if root = 0 then p else root, True), s')
    \<and> cols_at (d_objs s') p rs B \<and> minv s' (A \<union> set B) (n - sum_list (map row_price rs)) \<and> set B \<inter> A = {} \<and> distinct B
    \<and> (\<forall>q \<in> A. q \<noteq> cur \<or> root = 0 \<longrightarrow> d_objs s' q = d_objs s q) \<and> (root \<noteq> 0 \<longrightarrow> d_objs s' cur = Some (DCol (cc\<lparr>dc_next := p\<rparr>)))"
  using assms
proof (induction rs arbitrary: s A n ix root cur off cc)
  case Nil
  then show ?case by (intro exI [of _ s] exI [of _ 0] exI [of _ "[]"]) auto
next
  case (Cons r rs)
  have c: "length r = c" using Cons.prems(2) by simp
  have b: "bytes_at sp (unat off) (be32 DB_SPACE_COLUMN_DELIMITER @ items_bytes ix 0 r)"
    "bytes_at sp (unat off + (4 + length (items_bytes ix 0 r))) (rows_bytes (Suc ix) rs)"
    using Cons.prems(7) bytes_at_append [of sp "unat off" "be32 DB_SPACE_COLUMN_DELIMITER @ items_bytes ix 0 r" "rows_bytes (Suc ix) rs"] by simp_all
  let ?n = "4 + length (items_bytes ix 0 r)"
  have o: "unat (off + of_nat ?n) = unat off + ?n" by (rule offset_add) (use b(1) Cons.prems(8) in \<open>auto simp: bytes_at_def\<close>)
  have pr: "row_price r < n" "sum_list (map row_price rs) < n - row_price r" using Cons.prems(6) by auto
  have "\<exists>s1 line a its B1. decode_row E sp (of_nat (length r)) ix root cur off s = Ret ((if root = 0 then line else root, Some (line, off + of_nat ?n)), s1)
    \<and> line \<noteq> 0 \<and> minv s1 (A \<union> set (line # a # B1)) (n - row_price r) \<and> set (line # a # B1) \<inter> A = {} \<and> distinct (line # a # B1)
    \<and> d_objs s1 line = Some (DCol \<lparr>dc_count = of_nat (length r), dc_items = a, dc_next = 0\<rparr>)
    \<and> d_objs s1 a = Some (DItems its) \<and> items_at (d_objs s1) its r B1 \<and> (\<forall>i < length r. \<not> null_item a i)
    \<and> (\<forall>p \<in> A. p \<noteq> cur \<or> root = 0 \<longrightarrow> d_objs s1 p = d_objs s p) \<and> (root \<noteq> 0 \<longrightarrow> d_objs s1 cur = Some (DCol (cc\<lparr>dc_next := line\<rparr>)))"
    by (rule decode_row_law [OF Cons.prems(1) _ _ _ pr(1) b(1) Cons.prems(8)]) (use c Cons.prems(3,4,5,9) in auto)
  then obtain s1 line a its B1 where
    1: "decode_row E sp (of_nat c) ix root cur off s = Ret ((if root = 0 then line else root, Some (line, off + of_nat ?n)), s1)" "line \<noteq> 0"
    "minv s1 (A \<union> set (line # a # B1)) (n - row_price r)" "set (line # a # B1) \<inter> A = {}" "distinct (line # a # B1)"
    "d_objs s1 line = Some (DCol \<lparr>dc_count = of_nat (length r), dc_items = a, dc_next = 0\<rparr>)" "d_objs s1 a = Some (DItems its)"
    "items_at (d_objs s1) its r B1" "\<forall>i < length r. \<not> null_item a i"
    "\<forall>p \<in> A. p \<noteq> cur \<or> root = 0 \<longrightarrow> d_objs s1 p = d_objs s p" "root \<noteq> 0 \<longrightarrow> d_objs s1 cur = Some (DCol (cc\<lparr>dc_next := line\<rparr>))"
    unfolding c by blast
  let ?A = "A \<union> set (line # a # B1)" and ?root = "if root = 0 then line else root"
  have root: "?root \<noteq> 0" using 1(2) by simp
  from Cons.IH [OF 1(3) _ Cons.prems(3,4) _ pr(2) _ Cons.prems(8), of "off + of_nat ?n" "Suc ix" ?root line "\<lparr>dc_count = of_nat (length r), dc_items = a, dc_next = 0\<rparr>"]
    Cons.prems(2,5) b(2) o 1(6) root
  obtain s2 p B2 where 2: "decode_rows E sp (of_nat c) (length rs) (Suc ix) ?root line (off + of_nat ?n) s1 = Ret ((?root, True), s2)"
    "cols_at (d_objs s2) p rs B2" "minv s2 (?A \<union> set B2) (n - row_price r - sum_list (map row_price rs))" "set B2 \<inter> ?A = {}" "distinct B2"
    "\<forall>q \<in> ?A. q \<noteq> line \<longrightarrow> d_objs s2 q = d_objs s1 q" "d_objs s2 line = Some (DCol \<lparr>dc_count = of_nat (length r), dc_items = a, dc_next = p\<rparr>)"
    by (auto split: if_splits)
  have na: "a \<noteq> line" "line \<notin> set B1" "line \<notin> A" "a \<notin> A" using 1(4,5) by auto
  have "items_at (d_objs s2) its r B1" by (rule items_at_keep [OF 1(8)]) (use 2(6) na in auto)
  moreover have "d_objs s2 a = Some (DItems its)" using 2(6) 1(7) na by auto
  ultimately have co: "cols_at (d_objs s2) line (r # rs) (line # a # B1 @ B2)" using 2(2,7) 1(9) by auto
  have m: "minv s2 (A \<union> set (line # a # B1 @ B2)) (n - sum_list (map row_price (r # rs)))"
  proof -
    have "?A \<union> set B2 = A \<union> set (line # a # B1 @ B2)" by auto
    then show ?thesis using 2(3) by simp
  qed
  have "decode_rows E sp (of_nat c) (length (r # rs)) ix root cur off s = Ret ((?root, True), s2)" using 1(1) 2(1) by simp
  moreover have "\<forall>q \<in> A. q \<noteq> cur \<or> root = 0 \<longrightarrow> d_objs s2 q = d_objs s q" using 1(10) 2(6) na by auto
  moreover have "root \<noteq> 0 \<longrightarrow> d_objs s2 cur = Some (DCol (cc\<lparr>dc_next := line\<rparr>))" using 1(11) 2(6) na Cons.prems(9) by auto
  moreover have "set (line # a # B1 @ B2) \<inter> A = {}" "distinct (line # a # B1 @ B2)" using 1(4,5) 2(4,5) by auto
  ultimately show ?case using co m by (intro exI [of _ s2] exI [of _ line] exI [of _ "line # a # B1 @ B2"]) blast
qed

lemma decrypt_law:
  assumes T: "table_ok T" "list_all (list_all val_ok) (tb_rows T)" and inv: "minv s A n" "table_price T < n"
    and m: "if tb_ret T = 0 then tb_msg T = [] else length (tb_msg T) = DBMAN_ERRMSG_LEN"
    and b: "bytes_at sp 0 (table_bytes st T)" "length sp < 2 ^ 32" "sz \<noteq> 0"
  obtains p s' B where "dbman_sql_decrypt_result E (Some sp) sz s = Ret (p, s')" "result_at (d_objs s') p T B" "p \<noteq> 0"
    "minv s' (A \<union> set B) (n - table_price T)" "set B \<inter> A = {}" "distinct B" "\<And>q. q \<in> A \<Longrightarrow> d_objs s' q = d_objs s q"
proof -
  let ?rs = "tb_rows T" and ?R = "of_nat (length (tb_rows T)) :: u32" and ?C = "of_nat (tb_cols T) :: u32"
  obtain c where c: "\<forall>r \<in> set ?rs. length r = c" "0 < c" "c < 2 ^ 26" "?rs \<noteq> [] \<Longrightarrow> tb_cols T = c" by (rule table_width [OF T(1)]) (rule that)
  note h = decrypt_heads [OF T(1) m b(1,3)]
  have o: "unat (SZ_item_header + SZ_result_header) = 78" by (simp add: SZ_item_header_def SZ_result_header_def)
  have pr: "sum_list (map row_price ?rs) < n" using inv(2) by (simp add: table_price_def split: if_splits)
  obtain s1 root B1 where d: "decode_rows E sp ?C (length ?rs) 0 0 0 (SZ_item_header + SZ_result_header) s = Ret ((root, True), s1)"
    "cols_at (d_objs s1) root ?rs B1" "minv s1 (A \<union> set B1) (n - sum_list (map row_price ?rs))" "set B1 \<inter> A = {}" "distinct B1"
    "\<forall>q \<in> A. d_objs s1 q = d_objs s q"
  proof (cases "?rs = []")
    case True then show thesis using that [of 0 s "[]"] inv(1) by simp
  next
    case False
    from decode_rows_law [OF inv(1) c(1-3) T(2) pr, of sp "SZ_item_header + SZ_result_header" 0 0] h(3) o b(2) c(4) [OF False] show thesis
      using that by fastforce
  qed
  have zl: "SZ_list \<noteq> 0" "unat SZ_list < 2 ^ 31" "cost SZ_list < n - sum_list (map row_price ?rs)"
    using inv(2) by (auto simp: SZ_list_def table_price_def split: if_splits)
  obtain p s2 where p: "db_mem_alloc E SZ_list s1 = Ret (p, s2)" "p \<notin> A \<union> set B1" "p \<noteq> 0" "d_objs s2 = (d_objs s1)(p := None)"
    "minv s2 (insert p (A \<union> set B1)) (n - sum_list (map row_price ?rs) - cost SZ_list)" by (rule alloc_step [OF d(3) zl])
  have rd: "rd32 sp 10 = Ret (htonl (tb_ret T))" by (rule rd32_at [OF h(1)])
  have run: "dbman_sql_decrypt_result E (Some sp) sz s = decode_message E sp p root ?R s2" using h(4) d(1) p(1,3) by simp
  have si: "unat SZ_item_header = 10" by (simp add: SZ_item_header_def)
  have co: "cols_at H root ?rs B1" if "\<And>q. q \<in> set B1 \<Longrightarrow> H q = d_objs s1 q" for H by (rule cols_at_keep [OF d(2) that])
  show thesis
  proof (cases "tb_ret T = 0")
    case True
    let ?l = "DList \<lparr>dl_ret = 0, dl_errmsg = 0, dl_count = ?R, dl_items = root\<rparr>"
    have "dbman_sql_decrypt_result E (Some sp) sz s = Ret (p, dput p ?l s2)" using run True rd si by (simp add: decode_message_def)
    moreover have "cols_at (d_objs (dput p ?l s2)) root ?rs B1" by (rule co) (use p(2,4) in auto)
    then have "result_at (d_objs (dput p ?l s2)) p T (p # B1)" using True m by (auto simp: result_at_def)
    moreover have "minv (dput p ?l s2) (A \<union> set (p # B1)) (n - table_price T)"
      using minv_dput [OF p(5)] True by (simp add: table_price_def insert_commute)
    ultimately show thesis using d(4-6) p(2-4) by (intro that [of p "dput p ?l s2" "p # B1"]) auto
  next
    case False
    let ?z = "of_nat DBMAN_ERRMSG_LEN :: u32"
    have z: "?z \<noteq> 0" "unat ?z < 2 ^ 31" by (simp_all add: DBMAN_ERRMSG_LEN_def)
    have "cost ?z < n - sum_list (map row_price ?rs) - cost SZ_list" using inv(2) False by (simp add: table_price_def)
    from alloc_step [OF p(5) z this] obtain q s3 where q: "db_mem_alloc E ?z s2 = Ret (q, s3)" "q \<notin> insert p (A \<union> set B1)" "q \<noteq> 0"
      "d_objs s3 = (d_objs s2)(q := None)" "minv s3 (insert q (insert p (A \<union> set B1))) (n - sum_list (map row_price ?rs) - cost SZ_list - cost ?z)"
      by (metis (no_types, lifting))
    let ?l = "DList \<lparr>dl_ret = tb_ret T, dl_errmsg = q, dl_count = ?R, dl_items = root\<rparr>"
    let ?s = "dput q (DText (tb_msg T)) (dput p ?l s3)"
    have "rdn sp 14 DBMAN_ERRMSG_LEN = Ret (tb_msg T)" using rdn_at [OF h(2)] m False by (simp add: msg_bytes_def)
    then have "dbman_sql_decrypt_result E (Some sp) sz s = Ret (p, ?s)"
      using run False rd si q(1,3) htonl_eq_iff [of "tb_ret T" 0] by (simp add: decode_message_def Let_def)
    moreover have "cols_at (d_objs ?s) root ?rs B1" by (rule co) (use p(2,4) q(2,4) in auto)
    then have "result_at (d_objs ?s) p T (p # q # B1)" using False m q(2) by (auto simp: result_at_def)
    moreover have "minv ?s (A \<union> set (p # q # B1)) (n - table_price T)"
    proof -
      have "insert q (insert p (A \<union> set B1)) = A \<union> set (p # q # B1)" by auto
      then show ?thesis using minv_dput [OF minv_dput [OF q(5)]] False by (simp add: table_price_def)
    qed
    ultimately show thesis using d(4-6) p(2-4) q(2,4) by (intro that [of p ?s "p # q # B1"]) auto
  qed
qed

text \<open>
  An empty string: no memory is to be had for it, and the way out tests a pointer that was never set.
\<close>

lemma decode_empty_string:
  assumes inv: "minv s A n" "cost (SZ_item * of_nat c) < n" and c: "0 < c" "c < 2 ^ 26"
    and b: "bytes_at sp (unat off) (be32 DB_SPACE_COLUMN_DELIMITER @ item_bytes ix 0 (DbStr []))" "length sp < 2 ^ 32"
  shows "\<exists>s'. decode_row E sp (of_nat c) ix root cur off s = Ret ((root, None), s')"
proof -
  let ?z = "SZ_item * of_nat c :: u32"
  have z: "unat ?z = 32 * c" using c(2) by (simp add: SZ_item_def unat_word_ariths)
  then have z0: "?z \<noteq> 0" "unat ?z < 2 ^ 31" using c by (auto simp: unat_eq_0 [symmetric])
  have bd: "bytes_at sp (unat off) (be32 DB_SPACE_COLUMN_DELIMITER)" "bytes_at sp (unat off + 4) (item_bytes ix 0 (DbStr []))"
    using b(1) by (simp_all add: bytes_at_append)
  have o4: "unat (off + 4) = unat off + 4" using offset_add [of off 4] bd b(2) by (simp add: bytes_at_def)
  have o14: "unat (off + 4 + SZ_item_header) = unat off + 14"
    using offset_add [of off 14] bd(2) b(2) by (simp add: bytes_at_def SZ_item_header_def length_item_bytes add.commute)
  have ib: "item_bytes ix 0 (DbStr []) = [DB_SPACE_TYPE_ITEM] @ [DB_SPACE_TYPE_ITEM_STRING] @ be32 (of_nat ix) @ be32 0 @ be32 0" by (simp add: item_bytes_def)
  from bd(2) [unfolded ib bytes_at_append] have h: "bytes_at sp (unat off + 4) [DB_SPACE_TYPE_ITEM]" "bytes_at sp (unat off + 5) [DB_SPACE_TYPE_ITEM_STRING]"
    "bytes_at sp (unat off + 6) (be32 (of_nat ix))" "bytes_at sp (unat off + 10) (be32 0)" "bytes_at sp (unat off + 14) (be32 0)"
    by (simp_all add: ac_simps le_bytes32_def)
  obtain a s1 where a: "db_mem_alloc E ?z s = Ret (a, s1)" "a \<notin> A" "a \<noteq> 0" "minv s1 (insert a A) (n - cost ?z)" by (rule alloc_step [OF inv(1) z0 inv(2)])
  let ?j = "map (de_junk_item E (calls (d_os s1))) [0..<unat ?z div unat SZ_item]"
  have lj: "length ?j = c" using z by (simp add: SZ_item_def)
  let ?f = "\<lambda>it. it\<lparr>di_type := DB_TYPE_STRING, di_lenstr := 0\<rparr>"
  let ?s2 = "dput a (DItems (?j[0 := ?f (?j ! 0)])) (dput a (DItems ?j) s1)"
  have u: "upd_item a 0 ?f (dput a (DItems ?j) s1) = Ret ?s2" by (rule upd_item_law [OF minv_dput [OF a(4)]]) (use lj c(1) in simp_all)
  have m2: "minv ?s2 (insert a A) (n - cost ?z)" by (rule minv_dput [OF minv_dput [OF a(4)]])
  let ?s3 = "?s2\<lparr>d_objs := (d_objs ?s2)(0 := None)\<rparr>"
  have m3: "minv ?s3 (insert a A) (n - cost ?z)" by (rule minv_objs [OF m2])
  have ex: "\<exists>s'. upd_item a 0 (\<lambda>it. it\<lparr>di_strval := 0\<rparr>) ?s3 = Ret s'"
    using upd_item_law [OF m3 insertI1, of "?j[0 := ?f (?j ! 0)]" 0] lj c(1) a(3) by simp
  then have dv: "\<exists>s'. decode_value E sp DB_SPACE_TYPE_ITEM_STRING a 0 (off + 4 + SZ_item_header) (dput a (DItems ?j) s1) = Ret (None, s')"
    using o14 rd32_at [OF h(5)] u alloc_none [OF m2] by (auto simp: decode_value_def)
  have ns: "nat (sint (of_nat c :: u32)) = Suc (c - 1)" using c by (simp add: sint_of_nat_u32)
  have "\<exists>s'. decode_item E sp ix 0 a (off + 4) (dput a (DItems ?j) s1) = Ret (None, s')"
    using dv o4 rd8_at [OF h(1)] rd8_at [OF h(2)] rd32_at [OF h(3)] rd32_at [OF h(4)] by (auto simp: decode_item_def ac_simps)
  then show ?thesis using rd32_at [OF bd(1)] a(1,3) ns by (auto simp: decode_row_def Let_def)
qed

lemma decrypt_empty_string:
  assumes T: "table_ok T" "tb_rows T = (DbStr [] # vs) # rs" and inv: "minv s A n" "cost (SZ_item * of_nat (length (DbStr [] # vs))) < n"
    and m: "if tb_ret T = 0 then tb_msg T = [] else length (tb_msg T) = DBMAN_ERRMSG_LEN"
    and b: "bytes_at sp 0 (table_bytes st T)" "length sp < 2 ^ 32" "sz \<noteq> 0"
  shows "dbman_sql_decrypt_result E (Some sp) sz s = Fault Uninit_Read"
proof -
  note h = decrypt_heads [OF T(1) m b(1,3)]
  obtain c where c: "\<forall>r \<in> set (tb_rows T). length r = c" "0 < c" "c < 2 ^ 26" "tb_rows T \<noteq> [] \<Longrightarrow> tb_cols T = c" by (rule table_width [OF T(1)]) (rule that)
  have cc: "c = length (DbStr [] # vs)" "tb_cols T = c" using c(1,4) T(2) by auto
  have o: "unat (SZ_item_header + SZ_result_header) = 78" by (simp add: SZ_item_header_def SZ_result_header_def)
  have "bytes_at sp 78 (be32 DB_SPACE_COLUMN_DELIMITER @ item_bytes 0 0 (DbStr []))"
    using h(3) T(2) bytes_at_append [of sp 78 "be32 DB_SPACE_COLUMN_DELIMITER @ item_bytes 0 0 (DbStr [])" "items_bytes 0 (Suc 0) vs @ rows_bytes (Suc 0) rs"] by simp
  then have "\<exists>s'. decode_row E sp (of_nat c) 0 0 0 (SZ_item_header + SZ_result_header) s = Ret ((0, None), s')"
    using decode_empty_string [OF inv(1) _ c(2,3), of sp "SZ_item_header + SZ_result_header" 0 0 0] inv(2) cc o b(2) by simp
  then show ?thesis using h(4) T(2) cc(2) by (auto simp: fail_decrypt_def)
qed

end

section \<open>Releasing\<close>

context db_room
begin

lemma free_strings_law:
  assumes "minv s A n" "a \<in> A" "d_objs s a = Some (DItems its)" "ix + length vs = length its"
    and "items_at (d_objs s) (drop ix its) vs B" "set B \<subseteq> A - {a}" "distinct B" "\<forall>i < length its. \<not> null_item a i"
  shows "\<exists>s'. free_strings (length vs) ix a s = Ret s' \<and> minv s' (A - set B) n \<and> d_objs s' = d_objs s"
  using assms
proof (induction vs arbitrary: s A ix B)
  case Nil
  then show ?case by simp
next
  case (Cons v vs)
  have ix: "ix < length its" using Cons.prems(4) by simp
  have d: "drop ix its = its ! ix # drop (Suc ix) its" using ix by (simp add: Cons_nth_drop_Suc)
  have l: "load_item a ix s = Ret (its ! ix)" "\<not> null_item a ix"
    using minv_load [OF Cons.prems(1-3), of the_ditems] ix Cons.prems(8) by (simp_all add: load_item_def)
  show ?case
  proof (cases v)
    case (DbInt k)
    then have it: "di_type (its ! ix) = DB_TYPE_INTEGER" "items_at (d_objs s) (drop (Suc ix) its) vs B" using Cons.prems(5) d by simp_all
    from Cons.IH [OF Cons.prems(1-3) _ it(2) Cons.prems(6-8)] Cons.prems(4) show ?thesis using l it(1) by auto
  next
    case (DbStr bs)
    then obtain B' where it: "di_type (its ! ix) = DB_TYPE_STRING" "B = di_strval (its ! ix) # B'" "items_at (d_objs s) (drop (Suc ix) its) vs B'"
      using Cons.prems(5) d by auto
    let ?p = "di_strval (its ! ix)"
    have "?p \<in> A" using it(2) Cons.prems(6) by auto
    from free_takes [OF Cons.prems(1) this] obtain s1 where
      f: "db_mem_free ?p s = Ret (OKAY, s1)" "d_objs s1 = d_objs s" "minv s1 (A - {?p}) n" by blast
    have "a \<in> A - {?p}" using Cons.prems(2,6) it(2) by auto
    from Cons.IH [OF f(3) this, of "Suc ix" B'] f(2) Cons.prems(3,4,6-8) it(2,3)
    obtain s2 where "free_strings (length vs) (Suc ix) a s1 = Ret s2" "minv s2 (A - {?p} - set B') n" "d_objs s2 = d_objs s1" by auto
    moreover have "A - {?p} - set B' = A - set B" using it(2) by auto
    ultimately show ?thesis using l it(1) f(1,2) by simp
  qed
qed

lemma free_column_law:
  assumes inv: "minv s A n" and c: "cols_at (d_objs s) p (r # rs) B" "0 < length r" "length r < 2 ^ 26" and B: "set B \<subseteq> A" "distinct B"
  obtains nx B1 B2 s' where "free_column (p, s) = Ret (nx, s')" "B = B1 @ B2" "cols_at (d_objs s') nx rs B2" "minv s' (A - set B1) n"
    "d_objs s' = d_objs s"
proof -
  from c(1) obtain a its nx Bi B' where col: "B = p # a # Bi @ B'"
    "d_objs s p = Some (DCol \<lparr>dc_count = of_nat (length r), dc_items = a, dc_next = nx\<rparr>)" "d_objs s a = Some (DItems its)"
    "items_at (d_objs s) its r Bi" "\<forall>i < length r. \<not> null_item a i" "cols_at (d_objs s) nx rs B'" by auto
  have li: "length its = length r" by (rule items_at_length [OF col(4)])
  have mem: "p \<in> A" "a \<in> A" "set Bi \<subseteq> A - {a}" "distinct Bi" "p \<notin> set Bi" "p \<noteq> a" using B col(1) by auto
  have ld: "dload the_dcol p s = Ret \<lparr>dc_count = of_nat (length r), dc_items = a, dc_next = nx\<rparr>" by (rule minv_load [OF inv mem(1) col(2)]) simp
  have u: "unat (of_nat (length r) :: u32) = length r" using c(3) by simp
  then have n0: "(of_nat (length r) :: u32) \<noteq> 0" using c(2) by (metis less_numeral_extra(3) unsigned_0)
  from free_strings_law [OF inv mem(2) col(3), of 0 r Bi] li col(4,5) mem(3,4) obtain s1 where
    1: "free_strings (length r) 0 a s = Ret s1" "minv s1 (A - set Bi) n" "d_objs s1 = d_objs s" by auto
  have "a \<in> A - set Bi" using mem by auto
  from free_takes [OF 1(2) this] obtain s2 where 2: "db_mem_free a s1 = Ret (OKAY, s2)" "d_objs s2 = d_objs s1" "minv s2 (A - set Bi - {a}) n" by blast
  have p2: "p \<in> A - set Bi - {a}" using mem by auto
  have ld2: "dload the_dcol p s2 = Ret \<lparr>dc_count = of_nat (length r), dc_items = a, dc_next = nx\<rparr>"
    by (rule minv_load [OF 2(3) p2, where x = "DCol \<lparr>dc_count = of_nat (length r), dc_items = a, dc_next = nx\<rparr>"]) (use col(2) 1(3) 2(2) in simp_all)
  from free_takes [OF 2(3) p2] obtain s3 where 3: "db_mem_free p s2 = Ret (OKAY, s3)" "d_objs s3 = d_objs s2" "minv s3 (A - set Bi - {a} - {p}) n" by blast
  have "free_column (p, s) = Ret (nx, s3)" using ld n0 u 1(1) 2(1) ld2 3(1) by (simp add: free_column_def)
  moreover have "A - set Bi - {a} - {p} = A - set (p # a # Bi)" by auto
  ultimately show thesis using col(1,6) 1(3) 2(2) 3(2,3) by (intro that [of nx s3 "p # a # Bi" B']) simp_all
qed

lemma free_columns_law:
  assumes "minv s A n" "cols_at (d_objs s) p rs B" "\<forall>r \<in> set rs. 0 < length r \<and> length r < 2 ^ 26" "set B \<subseteq> A" "distinct B"
  shows "\<exists>s'. while_o (\<lambda>(rcol, s). rcol \<noteq> 0) free_column (p, s) = Ret (0, s') \<and> minv s' (A - set B) n \<and> d_objs s' = d_objs s"
  using assms
proof (induction rs arbitrary: s A p B)
  case (Cons r rs)
  have p0: "p \<noteq> 0"
  proof -
    have "p \<in> set B" using Cons.prems(2) by auto
    then show ?thesis using Cons.prems(4) minv_live [OF Cons.prems(1)] by blast
  qed
  obtain nx B1 B2 s1 where c: "free_column (p, s) = Ret (nx, s1)" "B = B1 @ B2" "cols_at (d_objs s1) nx rs B2" "minv s1 (A - set B1) n"
    "d_objs s1 = d_objs s" by (rule free_column_law [OF Cons.prems(1,2) _ _ Cons.prems(4,5)]) (use Cons.prems(3) in auto)
  have "set B2 \<subseteq> A - set B1" "distinct B2" using Cons.prems(4,5) c(2) by auto
  from Cons.IH [OF c(4,3) _ this] Cons.prems(3) obtain s2 where
    2: "while_o (\<lambda>(rcol, s). rcol \<noteq> 0) free_column (nx, s1) = Ret (0, s2)" "minv s2 (A - set B1 - set B2) n" "d_objs s2 = d_objs s1" by auto
  have "while_o (\<lambda>(rcol, s). rcol \<noteq> 0) free_column (p, s) = while_o (\<lambda>(rcol, s). rcol \<noteq> 0) free_column (nx, s1)"
    by (rule while_o_Ret) (use p0 c(1) in simp_all)
  moreover have "A - set B1 - set B2 = A - set B" using c(2) by auto
  ultimately show ?case using 2 c(5) by simp
qed simp

lemma result_free_law:
  assumes inv: "minv s A n" and r: "result_at (d_objs s) p T B" and w: "\<forall>r \<in> set (tb_rows T). 0 < length r \<and> length r < 2 ^ 26"
    and B: "set B \<subseteq> A" "distinct B"
  shows "\<exists>s'. dbman_result_free p s = Ret (0, s') \<and> minv s' (A - set B) n"
proof -
  from r obtain m q0 B' where l: "d_objs s p = Some (DList \<lparr>dl_ret = tb_ret T, dl_errmsg = m, dl_count = of_nat (length (tb_rows T)), dl_items = q0\<rparr>)"
    "cols_at (d_objs s) q0 (tb_rows T) B'"
    "if tb_ret T = 0 then m = 0 \<and> tb_msg T = [] \<and> B = p # B' else d_objs s m = Some (DText (tb_msg T)) \<and> length (tb_msg T) = DBMAN_ERRMSG_LEN \<and> B = p # m # B'"
    by (rule result_atE)
  let ?l = "\<lparr>dl_ret = tb_ret T, dl_errmsg = m, dl_count = of_nat (length (tb_rows T)), dl_items = q0\<rparr>"
  have pA: "p \<in> A" "p \<noteq> 0" using l(3) B(1) minv_live [OF inv] by (auto split: if_splits)
  have ld: "dload the_dlist p s = Ret ?l" by (rule minv_load [OF inv pA(1) l(1)]) simp
  let ?M = "if tb_ret T = 0 then {} else {m}"
  have M: "m \<noteq> 0 \<longleftrightarrow> tb_ret T \<noteq> 0" using l(3) B(1) minv_live [OF inv] by (auto split: if_splits)
  obtain s1 where 1: "(if m \<noteq> 0 then db_mem_free m s else Ret (OKAY, s)) = Ret (OKAY, s1)" "d_objs s1 = d_objs s" "minv s1 (A - ?M) n"
  proof (cases "tb_ret T = 0")
    case True then show thesis using that [of s] inv M by simp
  next
    case False
    then have "m \<in> A" using l(3) B(1) by auto
    from free_takes [OF inv this] show thesis using that False M by auto
  qed
  have p1: "p \<in> A - ?M" using pA(1) l(3) B(2) by (auto split: if_splits)
  have ld1: "dload the_dlist p s1 = Ret ?l" by (rule minv_load [OF 1(3) p1, where x = "DList ?l"]) (use l(1) 1(2) in simp_all)
  have B': "set B' \<subseteq> A - ?M" "distinct B'" "p \<notin> set B'" using l(3) B by (auto split: if_splits)
  from free_columns_law [OF 1(3) _ w B'(1,2), of q0] l(2) 1(2) obtain s2 where
    2: "while_o (\<lambda>(rcol, s). rcol \<noteq> 0) free_column (q0, s1) = Ret (0, s2)" "minv s2 (A - ?M - set B') n" by auto
  have "p \<in> A - ?M - set B'" using p1 B'(3) by auto
  from free_takes [OF 2(2) this] obtain s3 where 3: "db_mem_free p s2 = Ret (OKAY, s3)" "minv s3 (A - ?M - set B' - {p}) n" by blast
  have "A - ?M - set B' - {p} = A - set B" using l(3) by (auto split: if_splits)
  then show ?thesis using pA(2) ld 1(1) ld1 2(1) 3 by (cases "m = 0") (simp_all add: dbman_result_free_def)
qed

end

section \<open>Traversing\<close>

text \<open>The value a call of the traversal function is about, and the calls expected for a table.\<close>

fun visit_val :: "(addr \<rightharpoonup> db_obj) \<Rightarrow> visit \<Rightarrow> nat \<times> nat \<times> dbval option" where
  "visit_val H (VisitInt ix iy n) = (ix, iy, Some (DbInt n))"
| "visit_val H (VisitStr ix iy p len) =
     (ix, iy, case H p of Some (DText bs) \<Rightarrow> if unat len = length bs then Some (DbStr bs) else None | _ \<Rightarrow> None)"

fun row_visits :: "nat \<Rightarrow> nat \<Rightarrow> dbval list \<Rightarrow> (nat \<times> nat \<times> dbval option) list" where
  "row_visits ix iy [] = []"
| "row_visits ix iy (v # vs) = (ix, iy, Some v) # row_visits ix (Suc iy) vs"

fun rows_visits :: "nat \<Rightarrow> dbval list list \<Rightarrow> (nat \<times> nat \<times> dbval option) list" where
  "rows_visits ix [] = []"
| "rows_visits ix (r # rs) = row_visits ix 0 r @ rows_visits (Suc ix) rs"

lemma visit_item_val: "val_at H B it v \<Longrightarrow> map (visit_val H) (visit_item True ix iy it) = [(ix, iy, Some v)]"
  by (cases v) (simp_all add: visit_item_def)

lemma traverse_items_law:
  assumes "line_at s p r B" "iy + n = length r"
  shows "\<exists>vs. traverse_items True ix n iy p s = Ret (0, vs) \<and> map (visit_val (d_objs s)) vs = row_visits ix iy (drop iy r)"
  using assms(2)
proof (induction n arbitrary: iy)
  case (Suc n)
  have iy: "iy < length r" using Suc.prems by simp
  from line_fetch [OF assms(1) iy] obtain a it Bi where f: "dbman_fetch_item p (of_nat iy) s = Ret (Some (a, iy))" "load_item a iy s = Ret it"
    "val_at (d_objs s) Bi it (r ! iy)" by blast
  from Suc.IH [of "Suc iy"] Suc.prems obtain vs where
    vs: "traverse_items True ix n (Suc iy) p s = Ret (0, vs)" "map (visit_val (d_objs s)) vs = row_visits ix (Suc iy) (drop (Suc iy) r)" by auto
  have "drop iy r = r ! iy # drop (Suc iy) r" using iy by (simp add: Cons_nth_drop_Suc)
  then show ?case using f vs visit_item_val [OF f(3), of ix iy] by simp
qed simp

lemma traverse_rows_law:
  assumes l: "d_objs s p = Some (DList l)" "dl_count l = of_nat (length rows)" "p \<noteq> 0" "heap (d_os s) p \<noteq> None"
    and c: "cols_at (d_objs s) (dl_items l) rows B" "live s B" and n: "ix + n = length rows" "length rows < 2 ^ 31"
    and w: "\<forall>r \<in> set rows. length r < 2 ^ 26"
  shows "\<exists>vs. traverse_rows True n ix p s = Ret (0, vs) \<and> map (visit_val (d_objs s)) vs = rows_visits ix (drop ix rows)"
  using n(1)
proof (induction n arbitrary: ix)
  case (Suc n)
  have ix: "ix < length rows" using Suc.prems by simp
  have wi: "length (rows ! ix) < 2 ^ 26" using w ix by simp
  from fetch_row [OF l c ix n(2) wi] obtain q where q: "dbman_fetch_column p (of_nat ix) s = Ret q" "q \<noteq> 0" "line_at s q (rows ! ix) B"
    "dbman_result_column_size q s = Ret (of_nat (length (rows ! ix)))" by blast
  from traverse_items_law [OF q(3), of 0 "length (rows ! ix)" ix] obtain vs where
    vs: "traverse_items True ix (length (rows ! ix)) 0 q s = Ret (0, vs)" "map (visit_val (d_objs s)) vs = row_visits ix 0 (rows ! ix)" by auto
  from Suc.IH [of "Suc ix"] Suc.prems obtain ws where
    ws: "traverse_rows True n (Suc ix) p s = Ret (0, ws)" "map (visit_val (d_objs s)) ws = rows_visits (Suc ix) (drop (Suc ix) rows)" by auto
  have "drop ix rows = rows ! ix # drop (Suc ix) rows" using ix by (simp add: Cons_nth_drop_Suc)
  then show ?case using q vs ws wi by simp
qed simp

lemma traverse_law:
  assumes T: "table_ok T" and r: "result_at (d_objs s) p T B" "live s B"
  shows "\<exists>vs. dbman_result_traverse True p s = Ret (0, vs) \<and> map (visit_val (d_objs s)) vs = rows_visits 0 (tb_rows T)"
proof -
  from r(1) obtain m q0 B' where l: "d_objs s p = Some (DList \<lparr>dl_ret = tb_ret T, dl_errmsg = m, dl_count = of_nat (length (tb_rows T)), dl_items = q0\<rparr>)"
    "cols_at (d_objs s) q0 (tb_rows T) B'"
    "if tb_ret T = 0 then m = 0 \<and> tb_msg T = [] \<and> B = p # B' else d_objs s m = Some (DText (tb_msg T)) \<and> length (tb_msg T) = DBMAN_ERRMSG_LEN \<and> B = p # m # B'"
    by (rule result_atE)
  have p: "p \<noteq> 0" "heap (d_os s) p \<noteq> None" "live s B'" using l(3) r(2) by (auto split: if_splits)
  have w: "length (tb_rows T) < 2 ^ 31" "\<forall>r \<in> set (tb_rows T). length r < 2 ^ 26" using T by (auto simp: table_ok_def)
  have "dbman_result_list_size p s = Ret (of_nat (length (tb_rows T)))" using l(1) p by (simp add: dbman_result_list_size_def dload_def)
  then show ?thesis using traverse_rows_law [OF l(1) _ p(1,2) _ p(3), of "tb_rows T" 0 "length (tb_rows T)"] l(2) w p(1)
    by (simp add: dbman_result_traverse_def)
qed

end
