(* ===== verification/Db_Props.thy ===== *)
theory Db_Props
  imports Db_Decode Sys_Props Net_Props
begin

text \<open>
  The properties of the result lists of exts/sqlwrap (lib/src/pstor.c and the result functions of
  lib/src/dblib_net.c), with an allocator that always finds room and a process to apply them to.
\<close>

section \<open>A process\<close>

lemma gap_generous: "generous gap_env"
  using gap_alloc_finds by (simp add: generous_def gap_env_def) (simp add: demo_env_def)

definition db_demo_env :: db_env where
  "db_demo_env = \<lparr>de_os = gap_env, de_net = demo_net, de_thr = quiet_thr,
     de_junk_item = (\<lambda>n i. \<lparr>di_type = 0, di_intval = 0, di_strval = 0, di_lenstr = 0\<rparr>), de_junk_subtype = (\<lambda>n. 0),
     de_junk_byte = (\<lambda>n i. 0), de_result_f = (\<lambda>f x p s. Ret (0, s)), de_client_server = 1, de_port_callback = 2, de_fopen = (\<lambda>f. True),
     sq_open = (\<lambda>n f. (0, 1)), sq_close = (\<lambda>n d. 0), sq_prepare = (\<lambda>n d c. (0, 1)), sq_step = (\<lambda>n st. 101), sq_finalize = (\<lambda>n st. 0),
     sq_column_count = (\<lambda>n st. 0), sq_column_type = (\<lambda>n st i. 5), sq_column_int = (\<lambda>n st i. 0), sq_column_text = (\<lambda>n st i. []),
     sq_errmsg = (\<lambda>n d. [])\<rparr>"

definition db_demo :: db_state where
  "db_demo = \<lparr>d_os = buff_state, d_objs = (\<lambda>_. None), d_steps = 0, db = 0, db_inited = 0, db_buffer_id = 7, port_set_lock = False,
     port_set = replicate 5 \<lparr>cp_portid = 0, cp_channelid = 0, cp_exec_continue = 0, cp_thr = 0, cp_avail = 0\<rparr>, dbman_dbg_level = 2,
     dbman_dbg_file_fp = False, dbman_dbg_file_open = False, dbman_dbg_printf_initted = 0, dbman_dbg_print_lock = 0, dbman_log = []\<rparr>"

definition demo_table :: table where
  "demo_table = \<lparr>tb_ret = 0, tb_msg = [], tb_rows = [[DbInt 7, DbStr [104, 105]], [DbInt 8, DbStr [33]]]\<rparr>"

lemma db_demo_minv: "db_minv db_demo_env db_demo {} 4096"
proof (rule db_minvI)
  have "objects buff_state = {0x100, 0x180, 0x1a0, 0x200, 0x300, 0x500, 0x900, 0xa00, 0xc00}"
    by (auto simp: objects_def buff_heap_def)
  then have "card (objects buff_state) \<le> 9" using card_insert_le_m1 by (simp add: card_insert_if)
  then show "card (objects (d_os db_demo)) + 4096 \<le> 2 ^ 20" by (simp add: db_demo_def)
  show "pool_at (d_os db_demo) buff_ghost demo_items [] demo_classes (db_buffer_id db_demo) 0xc00 demo_class 0x900 (new_mutex ''one'') 0xa00 (new_mutex ''two'') [] []"
    using buff_demo_pool by (simp add: db_demo_def)
qed (simp_all add: db_demo_env_def gap_env_ok gap_generous demo_class_def)

lemma demo_table_ok: "table_ok demo_table" "list_all (list_all val_ok) (tb_rows demo_table)" "table_size demo_table = 145"
  by (auto simp: table_ok_def demo_table_def table_size_def item_bytes_def le_bytes32_def)

lemma demo_table_price: "table_price demo_table < 1500"
  using CALC_ACTUAL_BUFF_SIZE_bounds [of 64] CALC_ACTUAL_BUFF_SIZE_bounds [of 32] CALC_ACTUAL_BUFF_SIZE_bounds [of 1] CALC_ACTUAL_BUFF_SIZE_bounds [of 2]
  by (simp add: demo_table_def table_price_def row_price_def SZ_item_def SZ_column_def SZ_list_def)

text \<open>The process that has read the table from its bytes.\<close>

lemma demo_result:
  obtains p s B where "result_at (d_objs s) p demo_table B" "distinct B" "db_minv db_demo_env s (set B) 2000" "p \<noteq> 0"
proof -
  let ?sp = "table_bytes 0 demo_table"
  have m: "if tb_ret demo_table = 0 then tb_msg demo_table = [] else length (tb_msg demo_table) = DBMAN_ERRMSG_LEN" by (simp add: demo_table_def)
  have h: "length (head_bytes 0 demo_table) = 78" by (rule length_head_bytes) (simp add: demo_table_def)
  then have l: "length ?sp = 145" using demo_table_ok(3) by (simp add: table_bytes_def table_size_def)
  have b: "bytes_at ?sp 0 ?sp" by (simp add: bytes_at_def)
  have n: "table_price demo_table < 4096" using demo_table_price by simp
  obtain p s B where "result_at (d_objs s) p demo_table B" "p \<noteq> 0" "distinct B" "db_minv db_demo_env s ({} \<union> set B) (4096 - table_price demo_table)"
    by (rule room.decrypt_law [OF demo_table_ok(1,2) db_demo_minv n m b, of 145]) (use l in \<open>auto intro: that\<close>)
  moreover have "2000 \<le> 4096 - table_price demo_table" using demo_table_price by simp
  ultimately show thesis using room.minv_less [of db_demo_env s "set B" "4096 - table_price demo_table" 2000] that by simp
qed

section \<open>A packet\<close>

text \<open>The process with the class, and with a channel whose packets are blocks of the class.\<close>

definition demo_chans :: nodes where
  "demo_chans = [(0x600, 0x90000000, 3, 0xd00)]"

definition demo_chan :: net_channel_st where
  "demo_chan = \<lparr>ch_name = ''chan'', ch_buff = 7, ch_cnum = 0x1234, ch_total_bytes = 0, ch_packets = 0, ch_msgq = 0, ch_lock = 0, ch_disabled = 0, ch_port = 0\<rparr>"

definition chan_state :: os_state where
  "chan_state = buff_state\<lparr>heap := buff_heap(0x1c0 \<mapsto> ListObj (list_rec NET_CHAN_CLASS_NAME False demo_chans),
       0x600 \<mapsto> DataObj (node (0x90000000, 3, 0xd00) 0 0), 0xd00 \<mapsto> ChanObj demo_chan, 0xe00 \<mapsto> BytesObj [1, 2, 3, 4, 5, 6, 7, 8]),
     os_res_pool := mark 8 0 (os_res_pool buff_state), net_channel_pool := 0x1c0\<rparr>"

definition chan_ghost :: ghost where
  "chan_ghost = buff_ghost(0x1c0 \<mapsto> (NET_CHAN_CLASS_NAME, demo_chans))"

lemma chan_pools: "pools_ok (os_res_pool buff_state)" "length (os_res_pool buff_state) = 20"
  "pool_find nm (os_res_pool buff_state) 0 = pool_find nm os_res_pool_table 0"
proof -
  have "map rp_name (os_res_pool buff_state) = map rp_name os_res_pool_table" by (simp add: buff_state_def)
  from pool_find_names [OF this] map_eq_imp_length_eq [OF this]
  show "pool_find nm (os_res_pool buff_state) 0 = pool_find nm os_res_pool_table 0" "length (os_res_pool buff_state) = 20" by simp_all
qed (rule kit_ok_pools [OF buff_demo_kit])

lemma chan_pool_find [simp]: "pool_find NET_CHAN_CLASS_NAME os_res_pool_table 0 = Some 8"
  by (simp add: os_res_pool_table_def mk_pool_def res_name_defs strncmp_eq_def)

lemma chan_ids:
  "ids_used MUTEX_NAME (os_res_pool chan_state) = {0x20000000, 0x20000001}"
  "ids_used BUFFER_CLASS_NAME (os_res_pool chan_state) = {0x70000000}"
  "0x90000000 \<in> ids_used NET_CHAN_CLASS_NAME (os_res_pool chan_state)"
proof -
  have "rp_base (os_res_pool buff_state ! 8) = 0x90000000"
    by (simp add: buff_state_def mark_def set_usevec_def os_res_pool_table_def mk_pool_def)
  then show "0x90000000 \<in> ids_used NET_CHAN_CLASS_NAME (os_res_pool chan_state)"
    "ids_used MUTEX_NAME (os_res_pool chan_state) = {0x20000000, 0x20000001}"
    "ids_used BUFFER_CLASS_NAME (os_res_pool chan_state) = {0x70000000}"
    using chan_pools buff_ids by (auto simp: chan_state_def ids_mark cell_id_def)
qed

lemma chan_state_simps [simp]:
  "mutex_list chan_state = 0x100" "cond_list chan_state = 0x180" "buffer_class_list chan_state = 0x1a0" "net_channel_pool chan_state = 0x1c0"
  by (simp_all add: chan_state_def)

lemma chan_demo_kit: "kit_ok chan_state chan_ghost"
proof -
  have "list_at chan_state 0x100 MUTEX_NAME False demo_items"
    unfolding list_at_def by (simp add: chan_state_def buff_heap_def demo_items_def) (use chan_ids in \<open>simp add: chan_state_def\<close>)
  moreover have "list_at chan_state 0x180 COND_NAME False []"
    unfolding list_at_def by (simp add: chan_state_def buff_heap_def)
  moreover have "list_at chan_state 0x1a0 BUFFER_CLASS_NAME False demo_classes"
    unfolding list_at_def by (simp add: chan_state_def buff_heap_def demo_classes_def) (use chan_ids in \<open>simp add: chan_state_def\<close>)
  moreover have "list_at chan_state 0x1c0 NET_CHAN_CLASS_NAME False demo_chans"
    unfolding list_at_def by (simp add: chan_state_def demo_chans_def) (use chan_ids in \<open>simp add: chan_state_def\<close>)
  ultimately have "lists_ok chan_state chan_ghost"
    by (auto simp: lists_ok_def chan_ghost_def buff_ghost_def sep_def demo_items_def demo_classes_def demo_chans_def split: if_splits)
  moreover have "mem_ok chan_state" by (simp add: chan_state_def buff_state_def demo_state_def mem_ok_def)
  moreover have "pools_ok (os_res_pool chan_state)" using chan_pools by (simp add: chan_state_def pools_ok_mark)
  ultimately show ?thesis by (simp add: kit_ok_def)
qed

lemma chan_demo_pool:
  "pool_at chan_state chan_ghost demo_items [] demo_classes 7 0xc00 demo_class 0x900 (new_mutex ''one'') 0xa00 (new_mutex ''two'') [] []"
proof -
  have h: "heap chan_state a = buff_heap a" if "a \<in> {0x900, 0xa00, 0xc00}" for a using that by (auto simp: chan_state_def)
  have "table chan_state chan_ghost 0x100 MUTEX_NAME is_mutex demo_items"
    by (simp add: table_def chan_ghost_def buff_ghost_def demo_items_def h buff_heap_def)
  then have v: "var_ok chan_state chan_ghost demo_items []"
    using chan_demo_kit by (simp add: var_ok_def) (simp add: table_def chan_ghost_def buff_ghost_def)
  have "table chan_state chan_ghost 0x1a0 BUFFER_CLASS_NAME is_class demo_classes"
    by (simp add: table_def chan_ghost_def buff_ghost_def demo_classes_def h buff_heap_def)
  then have "class_env chan_state chan_ghost demo_items [] demo_classes 7 0xc00 demo_class 0x900 (new_mutex ''one'') 0xa00 (new_mutex ''two'')"
    using v by (simp add: class_env_def) (simp add: demo_classes_def h buff_heap_def demo_class_def demo_mutexes)
  moreover have "class_rep (heap chan_state) 7 demo_class [] []" by (simp add: class_rep_def demo_class_def)
  ultimately show ?thesis by (simp add: pool_at_def)
qed

lemma chan_demo_find: "os_obj_find 0x1c0 0x90000000 chan_state = Ret 0xd00" "load the_chan 0xd00 chan_state = Ret demo_chan"
proof -
  have "table chan_state chan_ghost 0x1c0 NET_CHAN_CLASS_NAME (\<lambda>x. the_chan x \<noteq> None) demo_chans"
    by (simp add: table_def chan_ghost_def demo_chans_def chan_state_def)
  from table_find [OF chan_demo_kit this, of "0x90000000"] show "os_obj_find 0x1c0 0x90000000 chan_state = Ret 0xd00"
    by (simp add: os_obj_find_def demo_chans_def lookup_Cons)
  show "load the_chan 0xd00 chan_state = Ret demo_chan" by (simp add: load_def chan_state_def)
qed

lemma chan_demo_make:
  obtains pkt s1 where "net_packet_make gap_env demo_net 0x90000000 9 5 8 77 0xe00 chan_state = Ret (pkt, s1)" "pkt \<noteq> 0" "0xe00 \<noteq> pkt"
proof -
  have sz: "e_sizeof gap_env T_net_packet = 16" by (simp add: gap_env_def demo_env_def)
  have "objects chan_state = {0x1c0, 0x600, 0xd00, 0xe00, 0x100, 0x180, 0x1a0, 0x200, 0x300, 0x500, 0x900, 0xa00, 0xc00}"
    by (auto simp: objects_def chan_state_def buff_heap_def)
  then have c: "card (objects chan_state) \<le> 13" by (simp add: card_insert_if)
  have R: "cost (16 :: u32) \<le> 80" using CALC_ACTUAL_BUFF_SIZE_bounds [of 16] by simp
  obtain b x s' C' where a: "buff_alloc_data gap_env 7 16 chan_state = Ret (b + BUFF_OFFSET_SIZE, s')" "heap chan_state (b + BUFF_OFFSET_SIZE) = None"
    "\<forall>i < unat (16 :: u32). b + BUFF_OFFSET_SIZE + of_nat i \<noteq> 0"
    by (rule buff_alloc_room [OF gap_env_ok gap_generous chan_demo_pool, of 16]) (use c R in \<open>auto simp: demo_class_def\<close>)
  have n0: "b + BUFF_OFFSET_SIZE \<noteq> 0" using a(3) [rule_format, of 0] by simp
  have kept: "blocks_kept (heap chan_state) (heap s')"
    by (rule buff_alloc_cases [OF gap_env_ok chan_demo_pool, of 16]) (use a(1) n0 in auto)
  have e: "heap chan_state 0xe00 = Some (BytesObj [1, 2, 3, 4, 5, 6, 7, 8])" by (simp add: chan_state_def)
  have "heap s' 0xe00 = Some (BytesObj [1, 2, 3, 4, 5, 6, 7, 8])" by (rule blocks_keptD [OF kept e]) (simp add: payload_def loose_def is_class_def)
  then have "load the_bytes 0xe00 s' = Ret [1, 2, 3, 4, 5, 6, 7, 8]" by (simp add: load_def)
  then obtain s1 where "net_packet_make gap_env demo_net 0x90000000 9 5 8 77 0xe00 chan_state = Ret (b + BUFF_OFFSET_SIZE, s1)"
    using a(1) n0 chan_demo_find sz net_packet_calc_checksum_eq [of 8 "[1, 2, 3, 4, 5, 6, 7, 8]"]
    by (simp add: net_packet_make_def demo_chan_def Let_def)
  moreover have "0xe00 \<noteq> b + BUFF_OFFSET_SIZE" using a(2) e by auto
  ultimately show thesis using that n0 by blast
qed

text \<open>C29. From the sender of a packet to its receiver: the header that \<open>net_packet_make\<close> has built takes
  32 bytes in memory; these bytes, stored over the packet of a port and framed by the receiver, are accepted
  and give the type, the payload size, the number of the source channel, the destination channel, the option
  and the checksum the sender was called with or computed, in the order of the host.\<close>

theorem packet_header_transfer:
  assumes "net_packet_make E N cid dch ty sz opt pl s = Ret (pkt, s1)" and "pkt \<noteq> 0" and "pl \<noteq> pkt"
    and "os_obj_find (net_channel_pool s) cid s = Ret c" and "load the_chan c s = Ret ch"
    and "\<And>n. length (hd_preamble (pk_h (ne_junk_packet N n))) = 12"
    and "rp \<noteq> 0" and "heap t rp = Some (PacketObj k)" and "np_pktfunc p = 0"
  shows "\<exists>tp t1 h. load the_packet pkt s1 = Ret tp \<and> pk_payload tp = pl
     \<and> length (hdr_bytes (pk_h tp)) = unat NET_PACKET_HDR_SIZE \<and> store_hdr rp (hdr_bytes (pk_h tp)) t = Ret t1
     \<and> packet_framing N' p rp t1 = Ret (rp, hput rp (PacketObj (k\<lparr>pk_h := h, pk_priv := 0\<rparr>)) t)
     \<and> hd_type h = ty \<and> hd_size h = ucast sz \<and> hd_vsport h = ucast (ch_cnum ch) \<and> hd_vdport h = dch \<and> hd_option h = opt
     \<and> (if unat sz < 4 then hd_checksum h = 0
        else \<exists>bytes. load the_bytes pl s1 = Ret bytes \<and> net_packet_calc_checksum bytes sz = Ret (hd_checksum h))"
proof -
  from net_packet_make_packet [OF assms(1,2,4,5,3)] obtain tp sum j where tp: "load the_packet pkt s1 = Ret tp" "pk_payload tp = pl"
    "pk_h tp = \<lparr>hd_preamble = with_preamble (hd_preamble (pk_h (ne_junk_packet N j))), hd_type = htonl ty, hd_size = htonl (ucast sz),
       hd_vsport = htons (ucast (ch_cnum ch)), hd_vdport = htons dch, hd_option = htonl opt, hd_checksum = htonl sum\<rparr>"
    "if unat sz < 4 then sum = 0 else \<exists>bytes. load the_bytes pl s1 = Ret bytes \<and> net_packet_calc_checksum bytes sz = Ret sum" .
  have h: "length (hd_preamble (pk_h tp)) = 12" "take 7 (hd_preamble (pk_h tp)) = NET_PACKET_PREAMBLE" using tp(3) assms(6) by simp_all
  from header_framed [OF h assms(7-9), of N'] obtain t1 where "store_hdr rp (hdr_bytes (pk_h tp)) t = Ret t1"
    "packet_framing N' p rp t1 = Ret (rp, hput rp (PacketObj (k\<lparr>pk_h := host_order (pk_h tp), pk_priv := 0\<rparr>)) t)" by blast
  then show ?thesis
    using tp(1,2,4) hdr_bytes_length [OF h(1)]
    by (intro exI [of _ tp] exI [of _ t1] exI [of _ "host_order (pk_h tp)"]) (simp add: tp(3) host_order_def NET_PACKET_HDR_SIZE_def)
qed

theorem packet_header_transfer_witness:
  "\<exists>pkt s1 tp t1 t2 k. net_packet_make gap_env demo_net 0x90000000 9 5 8 77 0xe00 chan_state = Ret (pkt, s1) \<and> load the_packet pkt s1 = Ret tp
     \<and> store_hdr 0xf00 (hdr_bytes (pk_h tp)) (hput 0xf00 (PacketObj (ne_junk_packet demo_net 0)) buff_state) = Ret t1
     \<and> packet_framing demo_net (client_port 0x80000000 5) 0xf00 t1 = Ret (0xf00, t2) \<and> heap t2 0xf00 = Some (PacketObj k)
     \<and> hd_type (pk_h k) = 5 \<and> hd_size (pk_h k) = 8 \<and> hd_vsport (pk_h k) = 0x1234 \<and> hd_vdport (pk_h k) = 9 \<and> hd_option (pk_h k) = 77"
proof -
  obtain pkt s1 where m: "net_packet_make gap_env demo_net 0x90000000 9 5 8 77 0xe00 chan_state = Ret (pkt, s1)" "pkt \<noteq> 0" "0xe00 \<noteq> pkt"
    by (rule chan_demo_make)
  have f: "os_obj_find (net_channel_pool chan_state) 0x90000000 chan_state = Ret 0xd00" using chan_demo_find by simp
  have j: "length (hd_preamble (pk_h (ne_junk_packet demo_net n))) = 12" for n by (simp add: demo_net_def bytes_hdr_def)
  let ?t = "hput 0xf00 (PacketObj (ne_junk_packet demo_net 0)) buff_state"
  have r: "(0xf00 :: addr) \<noteq> 0" "heap ?t 0xf00 = Some (PacketObj (ne_junk_packet demo_net 0))" "np_pktfunc (client_port 0x80000000 5) = 0"
    by (simp_all add: client_port_def)
  from packet_header_transfer [OF m f chan_demo_find(2) j r, of demo_net] m(1) show ?thesis
    by (auto simp: demo_chan_def)
qed

section \<open>Result lists\<close>

text \<open>From one process to the other, with what the client may do with the list.\<close>

lemma table_transfer:
  assumes "table_ok T" "result_at (d_objs s1) p T B" "set B \<subseteq> A1" "db_minv E1 s1 A1 n1" "cost SZ_item_header < n1"
    and "table_size T \<le> unat sz" "unat sz \<le> length sp" "length sp < 2 ^ 32"
    and "db_minv E2 s2 A2 n2" "table_price T < n2"
  shows "\<exists>sp' s1' q s2' B'. dbman_sql_encrypt_result E1 (Some sp) sz p s1 = Ret ((0, Some sp'), s1') \<and> length sp' = length sp
    \<and> dbman_sql_decrypt_result E2 (Some sp') sz s2 = Ret (q, s2') \<and> result_at (d_objs s2') q T B'
    \<and> set B' \<inter> A2 = {} \<and> distinct B' \<and> db_minv E2 s2' (A2 \<union> set B') (n2 - table_price T)"
proof -
  obtain st s1' where e: "dbman_sql_encrypt_result E1 (Some sp) sz p s1 = Ret ((0, Some (overwrite sp 0 (table_bytes st T))), s1')"
    by (rule room.encrypt_law [OF assms(1,4,5,2,3,6,7)])
  have m: "if tb_ret T = 0 then tb_msg T = [] else length (tb_msg T) = DBMAN_ERRMSG_LEN" and ok: "list_all (list_all val_ok) (tb_rows T)"
    using assms(2) by (auto simp: result_at_def dest: cols_at_ok split: if_splits)
  have "length (head_bytes st T) = 78" by (rule length_head_bytes) (use m in auto)
  then have l: "length (table_bytes st T) \<le> length sp" using assms(6,7) by (simp add: table_bytes_def table_size_def)
  have z: "sz \<noteq> 0" using assms(6) by (auto simp: table_size_def)
  have b: "bytes_at (overwrite sp 0 (table_bytes st T)) 0 (table_bytes st T)" by (rule bytes_at_overwrite) (use l in simp)
  have l2: "length (overwrite sp 0 (table_bytes st T)) < 2 ^ 32" using l assms(8) by simp
  obtain q s2' B' where "dbman_sql_decrypt_result E2 (Some (overwrite sp 0 (table_bytes st T))) sz s2 = Ret (q, s2')" "result_at (d_objs s2') q T B'"
    "db_minv E2 s2' (A2 \<union> set B') (n2 - table_price T)" "set B' \<inter> A2 = {}" "distinct B'"
    by (rule room.decrypt_law [OF assms(1) ok assms(9,10) m b l2 z])
  then show ?thesis using e l by (intro exI conjI) (assumption | simp)+
qed

text \<open>C8. A result list sent by the server is read back by the client as the same result: the table of the
  rows, the return value and the message. The writing function returns 0 and the bytes in the space; the
  reading function makes a new list of blocks that were not in use. The client needs memory for
  \<open>table_price\<close> bytes, the server for one header.\<close>

theorem result_list_roundtrip:
  assumes "table_ok T" "result_at (d_objs s1) p T B" "set B \<subseteq> A1" "db_minv E1 s1 A1 n1" "cost SZ_item_header < n1"
    and "table_size T \<le> unat sz" "unat sz \<le> length sp" "length sp < 2 ^ 32"
    and "db_minv E2 s2 A2 n2" "table_price T < n2"
  shows "\<exists>sp' s1' q s2' B'. dbman_sql_encrypt_result E1 (Some sp) sz p s1 = Ret ((0, Some sp'), s1') \<and> length sp' = length sp
    \<and> dbman_sql_decrypt_result E2 (Some sp') sz s2 = Ret (q, s2') \<and> result_at (d_objs s2') q T B'
    \<and> set B' \<inter> A2 = {} \<and> distinct B' \<and> db_minv E2 s2' (A2 \<union> set B') (n2 - table_price T)"
  by (rule table_transfer [OF assms])

theorem result_list_roundtrip_witness:
  "\<exists>s1 p sp' s1' q s2' B'. dbman_sql_encrypt_result db_demo_env (Some (replicate 8128 0)) 8128 p s1 = Ret ((0, Some sp'), s1')
    \<and> dbman_sql_decrypt_result db_demo_env (Some sp') 8128 db_demo = Ret (q, s2') \<and> result_at (d_objs s2') q demo_table B'"
proof -
  obtain p s B where r: "result_at (d_objs s) p demo_table B" "distinct B" "db_minv db_demo_env s (set B) 2000" by (rule demo_result)
  have c: "cost SZ_item_header < 2000" using CALC_ACTUAL_BUFF_SIZE_bounds [of SZ_item_header] by (simp add: SZ_item_header_def)
  have n: "table_price demo_table < 4096" using demo_table_price by simp
  show ?thesis
    using result_list_roundtrip [OF demo_table_ok(1) r(1) subset_refl r(3) c _ _ _ db_demo_minv n, of 8128 "replicate 8128 0"] demo_table_ok(3)
    by simp blast
qed

text \<open>C15. A result list is released as a whole: every block of it goes back to the buffer class, no other
  block is touched, and the call returns 0.\<close>

theorem result_free_releases:
  assumes "db_minv E s A n" "result_at (d_objs s) p T B" "table_ok T" "set B \<subseteq> A" "distinct B"
  shows "\<exists>s'. dbman_result_free p s = Ret (0, s') \<and> db_minv E s' (A - set B) n"
proof -
  have "\<forall>r \<in> set (tb_rows T). 0 < length r \<and> length r < 2 ^ 26" using assms(3) by (auto simp: table_ok_def)
  from room.result_free_law [OF assms(1,2) this assms(4,5)] show ?thesis .
qed

theorem result_free_releases_witness:
  "\<exists>s p s'. dbman_result_free p s = Ret (0, s') \<and> db_minv db_demo_env s' {} 2000"
proof -
  obtain p s B where r: "result_at (d_objs s) p demo_table B" "distinct B" "db_minv db_demo_env s (set B) 2000" by (rule demo_result)
  show ?thesis using result_free_releases [OF r(3,1) demo_table_ok(1) subset_refl r(2)] by auto
qed

text \<open>The traversal hands every value of the table to the function of the caller once, row by row, each
  with its row and its column.\<close>

theorem traverse_visits_table:
  assumes "db_minv E s A n" "result_at (d_objs s) p T B" "table_ok T" "set B \<subseteq> A"
  shows "\<exists>vs. dbman_result_traverse True p s = Ret (0, vs) \<and> map (visit_val (d_objs s)) vs = rows_visits 0 (tb_rows T)"
  using traverse_law [OF assms(3,2) room.minv_liveB [OF assms(1,4)]] .

theorem traverse_visits_table_witness:
  "\<exists>s p vs. dbman_result_traverse True p s = Ret (0, vs)
    \<and> map (visit_val (d_objs s)) vs = [(0, 0, Some (DbInt 7)), (0, 1, Some (DbStr [104, 105])), (1, 0, Some (DbInt 8)), (1, 1, Some (DbStr [33]))]"
proof -
  obtain p s B where r: "result_at (d_objs s) p demo_table B" "distinct B" "db_minv db_demo_env s (set B) 2000" by (rule demo_result)
  have "rows_visits 0 (tb_rows demo_table) = [(0, 0, Some (DbInt 7)), (0, 1, Some (DbStr [104, 105])), (1, 0, Some (DbInt 8)), (1, 1, Some (DbStr [33]))]"
    by (simp add: demo_table_def)
  then show ?thesis using traverse_visits_table [OF r(3,1) demo_table_ok(1) subset_refl] by metis
qed

text \<open>C39. A result whose last row does not fit because not even its delimiter does is reported as sent: the
  offset of the failed insertion, 0, is taken for the place of the items, the heads are written over them, and
  the function returns 0 although the bytes announce a row that is not there.\<close>

theorem encrypt_hides_overflow:
  assumes "table_ok T" "tb_rows T \<noteq> []" "db_minv E s A n" "cost SZ_item_header < n" "result_at (d_objs s) p T B" "set B \<subseteq> A"
    and "78 + length (rows_bytes 0 (butlast (tb_rows T))) \<le> unat sz" "unat sz < 82 + length (rows_bytes 0 (butlast (tb_rows T)))"
    and "unat sz \<le> length sp" "unat sz < 2 ^ 31" "length (items_bytes (length (tb_rows T) - 1) 0 (last (tb_rows T))) \<le> 78"
  shows "\<exists>st s'. dbman_sql_encrypt_result E (Some sp) sz p s =
    Ret ((0, Some (overwrite sp 0 (head_bytes st T @ rows_bytes 0 (butlast (tb_rows T))))), s')"
  by (rule room.encrypt_overflow_law [OF assms]) blast

theorem encrypt_hides_overflow_witness:
  "\<exists>s p st s'. dbman_sql_encrypt_result db_demo_env (Some (replicate 113 0)) 113 p s =
     Ret ((0, Some (overwrite (replicate 113 0) 0 (head_bytes st demo_table @ rows_bytes 0 [[DbInt 7, DbStr [104, 105]]]))), s')"
proof -
  obtain p s B where r: "result_at (d_objs s) p demo_table B" "distinct B" "db_minv db_demo_env s (set B) 2000" by (rule demo_result)
  have c: "cost SZ_item_header < 2000" using CALC_ACTUAL_BUFF_SIZE_bounds [of SZ_item_header] by (simp add: SZ_item_header_def)
  have d: "tb_rows demo_table \<noteq> []" "butlast (tb_rows demo_table) = [[DbInt 7, DbStr [104, 105]]]"
    "length (items_bytes (length (tb_rows demo_table) - 1) 0 (last (tb_rows demo_table))) \<le> 78" "length (rows_bytes 0 [[DbInt 7, DbStr [104, 105]]]) = 34"
    by (simp_all add: demo_table_def item_bytes_def le_bytes32_def)
  show ?thesis using encrypt_hides_overflow [OF demo_table_ok(1) d(1) r(3) c r(1) subset_refl _ _ _ _ d(3), of 113 "replicate 113 0"] d
    by simp blast
qed

text \<open>C40. An empty string cannot be read back: asking the buffer class for no bytes gives NULL, and the way
  out of the reading function tests the variable \<open>result\<close>, which was never set (here for a table that begins
  with such a string; the bytes are those the writing function would leave).\<close>

theorem decrypt_empty_string_faults:
  assumes "table_ok T" "tb_rows T = (DbStr [] # vs) # rs" "db_minv E s A n" "cost (SZ_item * of_nat (length (DbStr [] # vs))) < n"
    and "if tb_ret T = 0 then tb_msg T = [] else length (tb_msg T) = DBMAN_ERRMSG_LEN"
    and "bytes_at sp 0 (table_bytes st T)" "length sp < 2 ^ 32" "sz \<noteq> 0"
  shows "dbman_sql_decrypt_result E (Some sp) sz s = Fault Uninit_Read"
  by (rule room.decrypt_empty_string [OF assms])

theorem decrypt_empty_string_faults_witness:
  "dbman_sql_decrypt_result db_demo_env (Some (table_bytes 0 \<lparr>tb_ret = 0, tb_msg = [], tb_rows = [[DbStr []]]\<rparr>)) 8128 db_demo = Fault Uninit_Read"
proof -
  let ?T = "\<lparr>tb_ret = 0, tb_msg = [], tb_rows = [[DbStr []]]\<rparr> :: table"
  have c: "cost (SZ_item * of_nat (length (DbStr [] # []))) < 4096" using CALC_ACTUAL_BUFF_SIZE_bounds [of 32] by (simp add: SZ_item_def)
  have "table_ok ?T" by (simp add: table_ok_def)
  moreover have "length (table_bytes 0 ?T) < 2 ^ 32"
    by (simp add: table_bytes_def head_bytes_def item_bytes_def le_bytes32_def DBMAN_ERRMSG_LEN_def)
  ultimately show ?thesis
    using decrypt_empty_string_faults [OF _ _ db_demo_minv c, of ?T "[]" "table_bytes 0 ?T" 0 8128] by (simp add: bytes_at_def)
qed

end
