(* ===== verification/Db_Server.thy ===== *)
theory Db_Server
  imports Db_Pstor Var_Laws Net_Port
begin

text \<open>
  exts/sqlwrap/lib/src/dblib_net.c: the database server and its client, on the network module of libs/sos. The
  debug messages are left out, except for one behind the end of the log. Bytes that go over the network lie in
  the object store of the process. The library is built with SQLITE_SINGLE and without SQLITE_LAZY_PROC.
  The upcall of the server port runs again inside itself when it deletes a port (\<open>nested_net\<close>); where a client's
  thread or the shutdown deletes a port, the upcall is the network environment's and its work on the table is not seen.
\<close>

section \<open>The log\<close>

text \<open>
  exts/sqlwrap/lib/src/dbprintf.c: the log of the database library. A message goes to the log file when there
  is one and to the console otherwise; what was written is kept in \<open>dbman_log\<close>. A message is given here as
  the text its format and arguments make.
\<close>

definition MINUS1 :: u32 where "MINUS1 = 0xFFFFFFFF"
definition DBMAN_DBG_LVL_ERR :: int where "DBMAN_DBG_LVL_ERR = 1"
definition DBMAN_DBG_LVL_MSG :: int where "DBMAN_DBG_LVL_MSG = 2"
definition DBMAN_PRINT_BUFF :: nat where "DBMAN_PRINT_BUFF = 2048"

definition dbman_printf_init :: "db_env \<Rightarrow> string option \<Rightarrow> u32 dbm" where
  "dbman_printf_init E file_name s =
     (if dbman_dbg_printf_initted s \<noteq> 0 then Ret (MINUS1, s)
      else let fp = (case file_name of None \<Rightarrow> False | Some f \<Rightarrow> de_fopen E f);
               s = s\<lparr>dbman_dbg_file_fp := fp, dbman_dbg_file_open := fp\<rparr> in
      obind (db_os (os_mutex_create (de_os E) ''DBdbgPrintfLock'') s) (\<lambda>(lock, s).
      let s = s\<lparr>dbman_dbg_print_lock := lock\<rparr> in
      if lock = ERROR then Ret (MINUS1, s) else Ret (0, s\<lparr>dbman_dbg_printf_initted := 1\<rparr>)))"

definition dbman_printf_shutdown :: "u32 dbm" where
  "dbman_printf_shutdown s =
     (if dbman_dbg_printf_initted s = 0 then Ret (MINUS1, s)
      else if dbman_dbg_file_fp s \<and> \<not> dbman_dbg_file_open s then Fault BadPtr
      else let s = s\<lparr>dbman_dbg_file_open := False\<rparr> in
      obind (db_os (os_mutex_delete (dbman_dbg_print_lock s)) s) (\<lambda>(r, s).
      Ret (0, s\<lparr>dbman_dbg_printf_initted := 0\<rparr>)))"

definition dbman_printf_level :: "int \<Rightarrow> db_state \<Rightarrow> db_state" where
  "dbman_printf_level lvl s = s\<lparr>dbman_dbg_level := of_int lvl\<rparr>"

text \<open>The text behind a tag of seven bytes, cut to what fits in the buffer with its terminator.\<close>

definition log_text :: "string \<Rightarrow> string \<Rightarrow> string" where
  "log_text tag msg = tag @ take (DBMAN_PRINT_BUFF - length tag - 1) msg"

definition log_write :: "string \<Rightarrow> db_state \<Rightarrow> db_state outcome" where
  "log_write t s =
     (if dbman_dbg_file_fp s \<and> \<not> dbman_dbg_file_open s then Fault BadPtr
      else Ret (s\<lparr>dbman_log := dbman_log s @ [(dbman_dbg_file_fp s, t)]\<rparr>))"

definition dbman_printf :: "int \<Rightarrow> string \<Rightarrow> u32 dbm" where
  "dbman_printf lvl msg s =
     (if lvl \<le> int (unat (dbman_dbg_level s))
      then if dbman_dbg_printf_initted s = 0
           then obind (log_write (log_text ''(sySBD)'' msg) s) (\<lambda>s. Ret (1, s))
           else obind (db_os (os_mutex_lock (dbman_dbg_print_lock s) 0) s) (\<lambda>(r, s).
                obind (log_write (log_text ''(DBSys)'' msg) s) (\<lambda>s.
                obind (db_os (os_mutex_unlock (dbman_dbg_print_lock s)) s) (\<lambda>(r, s). Ret (1, s))))
      else Ret (1, s))"

section \<open>Constants\<close>

definition DB_SERVER_CHANNEL_NUMBER :: u32 where "DB_SERVER_CHANNEL_NUMBER = 4405"
definition DB_CLIENT_CHANNEL_NUMBER :: u32 where "DB_CLIENT_CHANNEL_NUMBER = 4406"
definition DB_MAX_NETWORK_PAYLOAD :: u32 where "DB_MAX_NETWORK_PAYLOAD = 8 * 1024"
definition DB_PACKET_PAYLOAD_SZ :: u32 where "DB_PACKET_PAYLOAD_SZ = DB_MAX_NETWORK_PAYLOAD - 64"
definition FILENAME_LEN :: nat where "FILENAME_LEN = 128"
definition DATABASE_FILENAME :: string where "DATABASE_FILENAME = ''/tmp/test.dbf''"
definition DBSVR_BUFF_CLASS_ID :: u32 where "DBSVR_BUFF_CLASS_ID = 0x39392341"
definition DBCLI_BUFF_CLASS_ID :: u32 where "DBCLI_BUFF_CLASS_ID = 0x39392342"
definition DBSVR_BUFF_CLASS_SIZE :: u32 where "DBSVR_BUFF_CLASS_SIZE = 256 * 1024"
definition DBMAN_CLIENT_CMD_SQL :: u32 where "DBMAN_CLIENT_CMD_SQL = 0x00aac001"
definition DBMAN_CLIENT_CMD_STOP :: u32 where "DBMAN_CLIENT_CMD_STOP = 0x00aac002"
definition DBMAN_MAX_CLIENTS :: nat where "DBMAN_MAX_CLIENTS = 5"

definition SQLITE_OK :: u32 where "SQLITE_OK = 0"
definition SQLITE_ROW :: u32 where "SQLITE_ROW = 100"
definition SQLITE_DONE :: u32 where "SQLITE_DONE = 101"
definition SQLITE_INTEGER :: u32 where "SQLITE_INTEGER = 1"
definition SQLITE_TEXT :: u32 where "SQLITE_TEXT = 3"

text \<open>A \<open>db_net_packet_t\<close>: three words, the payload and, behind it, a pointer and a word that are never set.\<close>

definition SZ_net_packet :: nat where "SZ_net_packet = 8152"

definition net_packet_bytes :: "db_env \<Rightarrow> nat \<Rightarrow> u32 \<Rightarrow> u32 \<Rightarrow> u32 \<Rightarrow> u8 list \<Rightarrow> u8 list" where
  "net_packet_bytes E n cmd xid len payload =
     le_bytes32 (htonl cmd) @ le_bytes32 (htonl xid) @ le_bytes32 (htonl len)
     @ payload @ replicate (unat DB_PACKET_PAYLOAD_SZ - length payload) 0 @ map (de_junk_byte E n) [0..<12]"

text \<open>The C string that begins at the head of some bytes.\<close>

definition c_string :: "u8 list \<Rightarrow> u8 list outcome" where
  "c_string bs = (if 0 \<in> set bs then Ret (takeWhile (\<lambda>b. b \<noteq> 0) bs) else Fault OutOfBounds)"

definition put_bytes :: "addr \<Rightarrow> u8 list \<Rightarrow> db_state \<Rightarrow> db_state" where
  "put_bytes p bs s = s\<lparr>d_os := hput p (BytesObj bs) (d_os s)\<rparr>"

text \<open>A call of sqlite that changes its state.\<close>

definition sq_call :: "(nat \<Rightarrow> 'a) \<Rightarrow> db_state \<Rightarrow> 'a \<times> db_state" where
  "sq_call f s = (f (d_steps s), s\<lparr>d_steps := Suc (d_steps s)\<rparr>)"

definition upd_list :: "addr \<Rightarrow> (db_result_list \<Rightarrow> db_result_list) \<Rightarrow> db_state \<Rightarrow> db_state outcome" where
  "upd_list p f s = obind (dload the_dlist p s) (\<lambda>l. Ret (dput p (DList (f l)) s))"

definition upd_col :: "addr \<Rightarrow> (db_result_list_column \<Rightarrow> db_result_list_column) \<Rightarrow> db_state \<Rightarrow> db_state outcome" where
  "upd_col p f s = obind (dload the_dcol p s) (\<lambda>c. Ret (dput p (DCol (f c)) s))"

definition upd_cmd :: "addr \<Rightarrow> (db_cmd_t \<Rightarrow> db_cmd_t) \<Rightarrow> db_state \<Rightarrow> db_state outcome" where
  "upd_cmd p f s = obind (dload the_dcmd p s) (\<lambda>c. Ret (dput p (DCmd (f c)) s))"

section \<open>From sqlite to a result list\<close>

definition dbman_generic_result_callback :: "u32 \<Rightarrow> addr \<Rightarrow> int dbm" where
  "dbman_generic_result_callback xid res s =
     (if res \<noteq> 0 then obind (dload the_dlist res s) (\<lambda>l. obind (dbman_result_free res s) (\<lambda>(r, s). Ret (1, s))) else Ret (1, s))"

text \<open>One column of the row: values of other types leave the item as it was.\<close>

definition produce_item :: "db_env \<Rightarrow> addr \<Rightarrow> addr \<Rightarrow> nat \<Rightarrow> db_state \<Rightarrow> db_state outcome" where
  "produce_item E stmt a ix s =
     (let ty = sq_column_type E (d_steps s) stmt ix in
      if ty = SQLITE_INTEGER
      then upd_item a ix (\<lambda>it. it\<lparr>di_type := DB_TYPE_INTEGER, di_intval := sq_column_int E (d_steps s) stmt ix\<rparr>) s
      else if ty = SQLITE_TEXT
      then let bs = sq_column_text E (d_steps s) stmt ix; n = of_nat (length bs) in
           obind (upd_item a ix (\<lambda>it. it\<lparr>di_type := DB_TYPE_STRING, di_lenstr := n\<rparr>) s) (\<lambda>s.
           if 0 < n
           then obind (db_mem_alloc E n s) (\<lambda>(p, s).
                obind (upd_item a ix (\<lambda>it. it\<lparr>di_strval := p\<rparr>) s) (\<lambda>s.
                if p = 0 then Fault NullDeref else Ret (dput p (DText (take (unat n) bs)) s)))
           else upd_item a ix (\<lambda>it. it\<lparr>di_strval := 0\<rparr>) s)
      else Ret s)"

fun produce_items :: "db_env \<Rightarrow> addr \<Rightarrow> addr \<Rightarrow> nat \<Rightarrow> nat \<Rightarrow> db_state \<Rightarrow> db_state outcome" where
  "produce_items E stmt a 0 ix s = Ret s"
| "produce_items E stmt a (Suc n) ix s = obind (produce_item E stmt a ix s) (produce_items E stmt a n (Suc ix))"

text \<open>The scan goes on, ended with an answer of \<open>sqlite3_step\<close>, or was given up.\<close>

datatype scan = Scanning | Stopped u32 | Given_up

definition give_up :: "addr \<Rightarrow> addr \<Rightarrow> u32 \<Rightarrow> db_state \<Rightarrow> ((addr \<times> u32 \<times> scan) \<times> db_state) outcome" where
  "give_up l prev row s = obind (dbman_result_free l s) (\<lambda>(r, s). Ret ((prev, row, Given_up), s))"

definition link_column :: "addr \<Rightarrow> addr \<Rightarrow> addr \<Rightarrow> db_state \<Rightarrow> db_state outcome" where
  "link_column l prev col s =
     (if prev = 0 then upd_list l (\<lambda>x. x\<lparr>dl_items := col\<rparr>) s else upd_col prev (\<lambda>c. c\<lparr>dc_next := col\<rparr>) s)"

definition produce_row :: "db_env \<Rightarrow> addr \<Rightarrow> addr \<Rightarrow> (addr \<times> u32 \<times> scan) \<times> db_state \<Rightarrow> ((addr \<times> u32 \<times> scan) \<times> db_state) outcome" where
  "produce_row E stmt l = (\<lambda>((prev, row, sc), s).
     let (res, s) = sq_call (\<lambda>n. sq_step E n stmt) s in
     if res \<noteq> SQLITE_ROW then Ret ((prev, row, Stopped res), s)
     else let row = row + 1 in
     obind (db_mem_alloc E SZ_column s) (\<lambda>(col, s).
     if col = 0 then give_up l prev row s
     else let cnt = sq_column_count E (d_steps s) stmt; s = dput col (DCol \<lparr>dc_count = cnt, dc_items = 0, dc_next = 0\<rparr>) s in
     if cnt = 0 then give_up l prev row s
     else obind (db_mem_alloc E (SZ_item * cnt) s) (\<lambda>(a, s).
     obind (upd_col col (\<lambda>c. c\<lparr>dc_items := a\<rparr>) s) (\<lambda>s.
     if a = 0 then give_up l prev row s
     else let s = dput a (DItems (map (de_junk_item E (calls (d_os s))) [0..<unat (SZ_item * cnt) div unat SZ_item])) s in
     obind (produce_items E stmt a (unat cnt) 0 s) (\<lambda>s.
     obind (link_column l prev col s) (\<lambda>s. Ret ((col, row, Scanning), s)))))))"

text \<open>\<open>strncpy\<close> of the message of sqlite.\<close>

definition errmsg_text :: "u8 list \<Rightarrow> u8 list" where
  "errmsg_text bs = take ERR_MSG_LEN (takeWhile (\<lambda>b. b \<noteq> 0) bs @ replicate ERR_MSG_LEN 0)"

definition produce_end :: "db_env \<Rightarrow> addr \<Rightarrow> u32 \<Rightarrow> u32 \<Rightarrow> addr dbm" where
  "produce_end E l row res s =
     (let ret = if res = SQLITE_DONE then SQLITE_OK else res in
      obind (upd_list l (\<lambda>x. x\<lparr>dl_ret := ret\<rparr>) s) (\<lambda>s.
      if ret \<noteq> SQLITE_OK
      then obind (db_mem_alloc E (of_nat ERR_MSG_LEN) s) (\<lambda>(m, s).
           obind (upd_list l (\<lambda>x. x\<lparr>dl_errmsg := m\<rparr>) s) (\<lambda>s.
           if m = 0 then obind (dbman_result_free l s) (\<lambda>(r, s). Ret (0, s))
           else obind (dload the_ddb (db s) s) (\<lambda>d.
                let s = dput m (DText (errmsg_text (sq_errmsg E (d_steps s) (dt_db d)))) s in
                obind (upd_list l (\<lambda>x. x\<lparr>dl_count := row\<rparr>) s) (\<lambda>s. Ret (l, s)))))
      else obind (upd_list l (\<lambda>x. x\<lparr>dl_errmsg := 0, dl_count := row\<rparr>) s) (\<lambda>s. Ret (l, s))))"

definition dbman_execute_produce_result_list :: "db_env \<Rightarrow> addr \<Rightarrow> addr dbm" where
  "dbman_execute_produce_result_list E stmt s =
     obind (db_mem_alloc E SZ_list s) (\<lambda>(l, s).
     if l = 0 then Ret (0, s)
     else let s = dput l (DList \<lparr>dl_ret = 0, dl_errmsg = 0, dl_count = 0, dl_items = 0\<rparr>) s in
     obind (while_o (\<lambda>((prev, row, sc), s). sc = Scanning) (produce_row E stmt l) ((0, 0, Scanning), s)) (\<lambda>((prev, row, sc), s).
     case sc of Stopped res \<Rightarrow> produce_end E l row res s | _ \<Rightarrow> Ret (0, s)))"

text \<open>The command processor; a result that could not be made ends the process.\<close>

definition run_result_f :: "db_env \<Rightarrow> res_fn \<Rightarrow> u32 \<Rightarrow> addr \<Rightarrow> int dbm" where
  "run_result_f E f xid res s =
     (case f of NullFn \<Rightarrow> Ret (0, s) | GenericFn \<Rightarrow> dbman_generic_result_callback xid res s | UserFn g \<Rightarrow> de_result_f E g xid res s)"

definition dbman_proc :: "db_env \<Rightarrow> u32 \<Rightarrow> addr \<Rightarrow> int dbm" where
  "dbman_proc E ty cmd s =
     (if cmd = 0 then Ret (-1, s)
      else if ty = DB_CMD_COMMAND
      then obind (dload the_ddb (db s) s) (\<lambda>d.
           obind (dload the_dcmd cmd s) (\<lambda>c.
           obind (dload the_dtext (cm_cmd c) s) (\<lambda>bs.
           obind (c_string bs) (\<lambda>sql.
           let ((res, stmt), s) = sq_call (\<lambda>n. sq_prepare E n (dt_db d) sql) s in
           obind (dbman_execute_produce_result_list E stmt s) (\<lambda>(rl, s).
           if rl = 0 then Fault Exits
           else obind (dload the_dlist rl s) (\<lambda>l.
           let (res, s) = if dl_ret l = SQLITE_OK then sq_call (\<lambda>n. sq_finalize E n stmt) s else (0, s) in
           obind (upd_cmd cmd (\<lambda>c. c\<lparr>cm_res := dl_ret l, cm_result_list := rl\<rparr>) s) (\<lambda>s.
           obind (dload the_dcmd cmd s) (\<lambda>c.
           obind (run_result_f E (cm_res_f c) (cm_xid c) rl s) (\<lambda>(r, s). Ret (0, s))))))))))
      else Ret (0, s))"

definition dbman_q_callback :: "addr \<Rightarrow> db_state \<Rightarrow> db_state outcome" where
  "dbman_q_callback obj s =
     obind (load the_bytes obj (d_os s)) (\<lambda>b.
     let msg = bytes_ulong b in
     if msg = 0 then Ret s
     else obind (load the_mesg msg (d_os s)) (\<lambda>m.
     let cmd = ms_data m in
     if cmd = 0 then obind (db_mem_free msg s) (\<lambda>(r, s). Ret s)
     else obind (dload the_dcmd cmd s) (\<lambda>c.
     obind (db_os (os_cond_delete (cm_sig c)) s) (\<lambda>(r, s).
     obind (db_mem_free (cm_cmd c) s) (\<lambda>(r, s).
     obind (db_mem_free cmd s) (\<lambda>(r, s).
     obind (db_mem_free msg s) (\<lambda>(r, s). Ret s)))))))"

section \<open>The table of channels\<close>

fun first_slot :: "(chan_port \<Rightarrow> bool) \<Rightarrow> chan_port list \<Rightarrow> nat option" where
  "first_slot P [] = None"
| "first_slot P (x # xs) = (if P x then Some 0 else map_option Suc (first_slot P xs))"

definition upd_slot :: "nat \<Rightarrow> (chan_port \<Rightarrow> chan_port) \<Rightarrow> db_state \<Rightarrow> db_state" where
  "upd_slot i f s = s\<lparr>port_set := (port_set s)[i := f (port_set s ! i)]\<rparr>"

definition used_by :: "u32 \<Rightarrow> chan_port \<Rightarrow> bool" where
  "used_by port x \<longleftrightarrow> cp_avail x = 1 \<and> cp_portid x = port"

definition dbman_new_comm_channel_insert :: "u32 \<Rightarrow> u32 \<Rightarrow> db_state \<Rightarrow> u32 \<times> db_state" where
  "dbman_new_comm_channel_insert port channel s =
     (case first_slot (\<lambda>x. cp_avail x = 0) (port_set s) of
        Some i \<Rightarrow> (1, upd_slot i (\<lambda>x. x\<lparr>cp_portid := port, cp_channelid := channel, cp_avail := 1\<rparr>) s)
      | None \<Rightarrow> (0, s))"

definition dbman_new_comm_channel_search :: "u32 \<Rightarrow> db_state \<Rightarrow> u32" where
  "dbman_new_comm_channel_search port s =
     (case first_slot (used_by port) (port_set s) of Some i \<Rightarrow> of_nat (i + 1) | None \<Rightarrow> 0)"

definition dbman_new_comm_channel_delete :: "db_env \<Rightarrow> u32 \<Rightarrow> u32 dbm" where
  "dbman_new_comm_channel_delete E port s =
     (case first_slot (used_by port) (port_set s) of
        Some i \<Rightarrow> obind (db_os (net_channel_flush (de_os E) (cp_channelid (port_set s ! i))) s) (\<lambda>(r, s).
                  Ret (1, upd_slot i (\<lambda>x. x\<lparr>cp_avail := 0\<rparr>) s))
      | None \<Rightarrow> Ret (0, s))"

section \<open>Executing a command\<close>

text \<open>
  The command block with a copy of the command; the copy has 32 zero bytes more. \<open>None\<close> when there is no memory.
\<close>

definition make_cmd :: "db_env \<Rightarrow> u32 \<Rightarrow> u8 list \<Rightarrow> res_fn \<Rightarrow> addr option dbm" where
  "make_cmd E xid sqlcmd f s =
     (let len = of_nat (length sqlcmd) in
      obind (db_mem_alloc E SZ_cmd s) (\<lambda>(cmd, s).
      if cmd = 0 then Ret (None, s)
      else obind (db_mem_alloc E (len + 32) s) (\<lambda>(p, s).
      if p = 0 then obind (db_mem_free cmd s) (\<lambda>(r, s). Ret (None, s))
      else let s = dput p (DText (sqlcmd @ replicate 32 0)) s in
      Ret (Some cmd, dput cmd (DCmd \<lparr>cm_res = 0, cm_xid = xid, cm_cmd = p, cm_len = len, cm_res_f = f, cm_result_list = 0, cm_sig = 0\<rparr>) s))))"

definition free_cmd :: "addr \<Rightarrow> db_state \<Rightarrow> db_state outcome" where
  "free_cmd cmd s =
     obind (dload the_dcmd cmd s) (\<lambda>c.
     obind (db_mem_free (cm_cmd c) s) (\<lambda>(r, s).
     obind (db_mem_free cmd s) (\<lambda>(r, s). Ret s)))"

definition dbman_callback_execute :: "db_env \<Rightarrow> u32 \<Rightarrow> u8 list \<Rightarrow> res_fn \<Rightarrow> int dbm" where
  "dbman_callback_execute E transid sqlcmd result_f s =
     (if db_inited s = 0 then Ret (-1, s)
      else if sqlcmd = [] then Ret (-1, s)
      else obind (make_cmd E transid sqlcmd (if result_f = NullFn then GenericFn else result_f) s) (\<lambda>(c, s).
      case c of None \<Rightarrow> Ret (-1, s)
      | Some cmd \<Rightarrow>
        obind (dbman_proc E DB_CMD_COMMAND cmd s) (\<lambda>(r, s).
        if r \<noteq> 0 then obind (free_cmd cmd s) (\<lambda>s. Ret (-1, s))
        else obind (dload the_dcmd cmd s) (\<lambda>c.
             obind (free_cmd cmd s) (\<lambda>s. Ret (sint (cm_res c), s))))))"

definition dbman_sql_execute :: "db_env \<Rightarrow> u8 list \<Rightarrow> addr dbm" where
  "dbman_sql_execute E sqlcmd s =
     (if db_inited s = 0 then Ret (0, s)
      else if sqlcmd = [] then Ret (0, s)
      else obind (make_cmd E 0 sqlcmd NullFn s) (\<lambda>(c, s).
      case c of None \<Rightarrow> Ret (0, s)
      | Some cmd \<Rightarrow>
        obind (dbman_proc E DB_CMD_COMMAND cmd s) (\<lambda>(r, s).
        if r \<noteq> 0 then obind (free_cmd cmd s) (\<lambda>s. Ret (0, s))
        else obind (dload the_dcmd cmd s) (\<lambda>c.
             obind (free_cmd cmd s) (\<lambda>s. Ret (cm_result_list c, s))))))"

section \<open>The server of one client\<close>

text \<open>
  The reply to a command is made from the payload of the packet that was received, after that packet was given
  back. The number of bytes is the size of the whole structure, counted from the payload in it.
\<close>

definition send_reply :: "db_env \<Rightarrow> u32 \<Rightarrow> addr \<Rightarrow> db_state \<Rightarrow> db_state outcome" where
  "send_reply E channel payload s =
     obind (db_os (net_packet_make (de_os E) (de_net E) channel (ucast DB_CLIENT_CHANNEL_NUMBER) 0 (of_nat SZ_net_packet) 0 payload) s) (\<lambda>(pkt, s).
     if pkt = 0 then Ret s
     else obind (db_os (net_packet_send (de_net E) (de_thr E) channel pkt) s) (\<lambda>(r, s).
          obind (db_mem_free pkt s) (\<lambda>(r, s). Ret s)))"

definition serve_sql :: "db_env \<Rightarrow> u32 \<Rightarrow> addr \<Rightarrow> addr \<Rightarrow> db_state \<Rightarrow> db_state outcome" where
  "serve_sql E channel pkt payload s =
     obind (load the_bytes payload (d_os s)) (\<lambda>bs.
     obind (c_string (drop 12 bs)) (\<lambda>sql.
     obind (dbman_sql_execute E sql s) (\<lambda>(db_result, s).
     obind (dbman_sql_encrypt_result E (Some (drop 12 bs)) DB_PACKET_PAYLOAD_SZ db_result s) (\<lambda>((r, sp), s).
     let s = put_bytes payload (take 12 bs @ the sp) s in
     obind (if db_result \<noteq> 0 then dbman_result_free db_result s else Ret (0, s)) (\<lambda>(f, s).
     if r \<noteq> 0 then Ret s
     else obind (db_os (net_packet_free channel pkt) s) (\<lambda>(r, s).
          if r = ERROR then Ret s else send_reply E channel (payload + 12) s))))))"

definition serve_stop :: "db_env \<Rightarrow> nat \<Rightarrow> u32 \<Rightarrow> addr \<Rightarrow> addr \<Rightarrow> db_state \<Rightarrow> db_state outcome" where
  "serve_stop E slot channel pkt payload s =
     obind (db_os (net_packet_free channel pkt) s) (\<lambda>(r, s).
     obind (load the_bytes payload (d_os s)) (\<lambda>bs.
     obind (wrn bs 12 [79, 75, 0]) (\<lambda>bs.
     let s = put_bytes payload bs s in
     obind (db_os (net_packet_make (de_os E) (de_net E) channel (ucast DB_CLIENT_CHANNEL_NUMBER) 0 (of_nat SZ_net_packet) 0 (payload + 12)) s) (\<lambda>(pkt, s).
     if pkt = 0 then Ret s
     else obind (db_os (net_packet_send (de_net E) (de_thr E) channel pkt) s) (\<lambda>(r, s).
          obind (db_mem_free pkt s) (\<lambda>(r, s).
          Ret (upd_slot slot (\<lambda>x. x\<lparr>cp_exec_continue := 0\<rparr>) s)))))))"

definition client_round :: "db_env \<Rightarrow> nat \<Rightarrow> u32 \<Rightarrow> db_state \<Rightarrow> db_state outcome" where
  "client_round E slot channel s =
     obind (db_os (net_packet_recv (de_os E) channel 0) s) (\<lambda>(pkt, s).
     if pkt = 0 then Ret (upd_slot slot (\<lambda>x. x\<lparr>cp_exec_continue := 0\<rparr>) s)
     else obind (load the_packet pkt (d_os s)) (\<lambda>k.
     let payload = pk_payload k in
     if payload = 0 then obind (db_os (net_packet_free channel pkt) s) (\<lambda>(r, s). Ret s)
     else obind (load the_bytes payload (d_os s)) (\<lambda>bs.
     obind (rd32 bs 0) (\<lambda>cmd.
     if ntohl cmd = DBMAN_CLIENT_CMD_SQL then serve_sql E channel pkt payload s
     else if ntohl cmd = DBMAN_CLIENT_CMD_STOP then serve_stop E slot channel pkt payload s
     else obind (db_os (net_packet_free channel pkt) s) (\<lambda>(r, s). Ret s)))))"

text \<open>The thread of a client; its argument is an entry of the table.\<close>

definition dbman_client_server :: "db_env \<Rightarrow> nat option \<Rightarrow> db_state \<Rightarrow> db_state outcome" where
  "dbman_client_server E arg s =
     (case arg of None \<Rightarrow> Ret s
      | Some slot \<Rightarrow>
        if length (port_set s) \<le> slot then Fault BadPtr
        else let channel = cp_channelid (port_set s ! slot); port = cp_portid (port_set s ! slot) in
        obind (while_o (\<lambda>s. cp_exec_continue (port_set s ! slot) \<noteq> 0) (client_round E slot channel) s) (\<lambda>s.
        obind (db_os (net_port_cleanup (de_net E) port) s) (\<lambda>(r, s). Ret s)))"

section \<open>The upcall of the server port\<close>

text \<open>The lock of the table: a second lock waits for ever, since nobody else runs while it is held.\<close>

definition lock_ports :: "db_state \<Rightarrow> db_state outcome" where
  "lock_ports s = (if port_set_lock s then Fault Blocked else Ret (s\<lparr>port_set_lock := True\<rparr>))"

definition unlock_ports :: "db_state \<Rightarrow> db_state" where
  "unlock_ports s = s\<lparr>port_set_lock := False\<rparr>"

definition accept_port :: "db_env \<Rightarrow> u32 \<Rightarrow> db_state \<Rightarrow> db_state outcome" where
  "accept_port E newportid s =
     obind (db_os (net_channel_create (de_os E) (de_net E) DBSVR_BUFF_CLASS_ID DB_SERVER_CHANNEL_NUMBER) s) (\<lambda>(chan, s).
     if chan = ERROR then Ret s
     else obind (db_os (net_channel_register (de_os E) newportid chan) s) (\<lambda>(r, s).
     if r = ERROR then obind (db_os (net_channel_delete (de_os E) chan) s) (\<lambda>(r, s). Ret s)
     else obind (lock_ports s) (\<lambda>s.
          let (ok, s) = dbman_new_comm_channel_insert newportid chan s in
          obind (if ok = 0 then db_os (net_channel_delete (de_os E) chan) s else Ret (0, s)) (\<lambda>(r, s).
          Ret (unlock_ports s)))))"

definition drop_port :: "db_env \<Rightarrow> u32 \<Rightarrow> db_state \<Rightarrow> db_state outcome" where
  "drop_port E portid s =
     obind (lock_ports s) (\<lambda>s.
     let index = dbman_new_comm_channel_search portid s in
     if index = 0 then Ret (unlock_ports s)
     else let i = unat (index - 1); s = upd_slot i (\<lambda>x. x\<lparr>cp_exec_continue := 0\<rparr>) s in
     obind (net_port_search portid (d_os s)) (\<lambda>port.
     obind (net_port_bcast_channel (de_os E) (de_net E) port (d_os s)) (\<lambda>o'.
     let s = s\<lparr>d_os := o'\<rparr> in
     obind (db_os (net_channel_delete (de_os E) (cp_channelid (port_set s ! i))) s) (\<lambda>(r, s).
     obind (dbman_new_comm_channel_delete E portid s) (\<lambda>(r, s).
     Ret (unlock_ports s))))))"

text \<open>
  The network library as the upcall meets it: deleting a port whose upcall is this one calls it again, with
  \<open>NET_MESG_DEL_PORT\<close>, in the state the call is made from.
\<close>

definition nested_net :: "db_env \<Rightarrow> db_state \<Rightarrow> net_env" where
  "nested_net E s = (de_net E)\<lparr>ne_upcall := (\<lambda>f portid command arg o'.
     if f = de_port_callback E \<and> command = NET_MESG_DEL_PORT
     then obind (drop_port E portid (s\<lparr>d_os := o'\<rparr>)) (\<lambda>s'. Ret (arg, d_os s'))
     else ne_upcall (de_net E) f portid command arg o')\<rparr>"

text \<open>The argument of the thread is the address of the entry; \<open>slot_addr\<close> is that of the table.\<close>

definition start_port :: "db_env \<Rightarrow> addr \<Rightarrow> u32 \<Rightarrow> db_state \<Rightarrow> db_state outcome" where
  "start_port E slot_addr newportid s =
     obind (lock_ports s) (\<lambda>s.
     let index = dbman_new_comm_channel_search newportid s in
     if index = 0 then Ret (unlock_ports s)
     else let i = unat (index - 1); chan = cp_channelid (port_set s ! i); s = upd_slot i (\<lambda>x. x\<lparr>cp_exec_continue := 1\<rparr>) s in
     obind (db_os (os_thread_create (de_os E) ''DBchanSrvc'' (de_client_server E) (slot_addr + 32 * of_nat i) 0 0) s) (\<lambda>(thr, s).
     let s = upd_slot i (\<lambda>x. x\<lparr>cp_thr := thr\<rparr>) s in
     if thr = ERROR
     then obind (db_os (net_channel_delete (de_os E) chan) s) (\<lambda>(r, s).
          obind (db_os (net_port_delete (nested_net E s) newportid) s) (\<lambda>(r, s).
          obind (dbman_new_comm_channel_delete E newportid s) (\<lambda>(r, s).
          Ret (unlock_ports s))))
     else Ret (unlock_ports s)))"

definition dbman_server_port_callback :: "db_env \<Rightarrow> addr \<Rightarrow> u32 \<Rightarrow> u32 \<Rightarrow> u32 option \<Rightarrow> db_state \<Rightarrow> db_state outcome" where
  "dbman_server_port_callback E slot_addr portid command arg s =
     (if command = NET_MESG_ACCEPT
      then (case arg of None \<Rightarrow> Fault NullDeref | Some newportid \<Rightarrow> accept_port E newportid s)
      else if command = NET_MESG_NEW_PORT
      then (case arg of None \<Rightarrow> Fault NullDeref | Some newportid \<Rightarrow> start_port E slot_addr newportid s)
      else if command = NET_MESG_DEL_PORT then drop_port E portid s
      else Ret s)"

section \<open>The service\<close>

definition upd_db :: "(db_t \<Rightarrow> db_t) \<Rightarrow> db_state \<Rightarrow> db_state outcome" where
  "upd_db f s = obind (dload the_ddb (db s) s) (\<lambda>d. Ret (dput (db s) (DDb (f d)) s))"

definition free_db :: "db_state \<Rightarrow> db_state outcome" where
  "free_db s = obind (os_free (db s) (d_os s)) (\<lambda>o'. Ret (s\<lparr>d_os := o'\<rparr>))"

definition dbman_service_shutdown :: "db_env \<Rightarrow> int dbm" where
  "dbman_service_shutdown E s =
     (if db_inited s = 0 then Ret (-1, s)
      else obind (dbman_proc E DB_CMD_STOP 0 s) (\<lambda>(r, s).
      if r \<noteq> 0 then Ret (-1, s)
      else obind (dload the_ddb (db s) s) (\<lambda>d.
      obind (db_os (net_port_delete (de_net E) (dt_serv_port d)) s) (\<lambda>(r, s).
      let (res, s) = sq_call (\<lambda>n. sq_close E n (dt_db d)) s in
      if res \<noteq> 0 then Ret (-1, s)
      else obind (db_os (buff_delete_class DBSVR_BUFF_CLASS_ID) s) (\<lambda>(r, s).
      if r = ERROR then Ret (-1, s)
      else obind (dbman_printf_shutdown (s\<lparr>db_buffer_id := 0\<rparr>)) (\<lambda>(r, s).
      obind (free_db s) (\<lambda>s. Ret (0, s\<lparr>db_inited := 0\<rparr>))))))))"

text \<open>The ways out of the initialisation: the log is closed, the structure released and, later, the class deleted.\<close>

definition init_fail :: "int dbm" where
  "init_fail s = obind (dbman_printf_shutdown s) (\<lambda>(r, s). obind (free_db s) (\<lambda>s. Ret (-1, s)))"

definition init_fail_class :: "int dbm" where
  "init_fail_class s = obind (init_fail s) (\<lambda>(x, s). obind (db_os (buff_delete_class DBSVR_BUFF_CLASS_ID) s) (\<lambda>(r, s). Ret (x, s)))"

definition init_fail_port :: "db_env \<Rightarrow> u32 \<Rightarrow> int dbm" where
  "init_fail_port E port s =
     obind (dbman_printf_shutdown s) (\<lambda>(r, s).
     obind (db_os (net_port_delete (de_net E) port) s) (\<lambda>(r, s).
     obind (free_db s) (\<lambda>s.
     obind (db_os (buff_delete_class DBSVR_BUFF_CLASS_ID) s) (\<lambda>(r, s). Ret (-1, s)))))"

text \<open>The network part: the service port, its payload size and its activation; the last failure is not returned.\<close>

definition init_network :: "db_env \<Rightarrow> u32 \<Rightarrow> int dbm" where
  "init_network E netport s =
     obind (dload the_ddb (db s) s) (\<lambda>d.
     obind (case snd (net_addrinfo_make (Some (dt_addr d)) NET_ANY_IP netport) of None \<Rightarrow> Fault NullDeref | Some a \<Rightarrow> Ret a) (\<lambda>a.
     obind (upd_db (\<lambda>d. d\<lparr>dt_addr := a, dt_socket_port := netport\<rparr>) s) (\<lambda>s.
     obind (db_os (net_port_create (de_os E) (de_net E) NET_PORT_TYPE_SERVER NET_PORT_PROTO_TCP (Some a) 0 (de_port_callback E)) s) (\<lambda>(port, s).
     obind (upd_db (\<lambda>d. d\<lparr>dt_serv_port := port\<rparr>) s) (\<lambda>s.
     if port = ERROR then init_fail_class s
     else obind (upd_db (\<lambda>d. d\<lparr>dt_payload := DB_MAX_NETWORK_PAYLOAD\<rparr>) s) (\<lambda>s.
     obind (db_os (net_port_option_configure (de_net E) port NET_PORT_SET_PAYLOAD_SIZE (NumArg DB_MAX_NETWORK_PAYLOAD)) s) (\<lambda>((r, arg), s).
     if r = ERROR then init_fail_port E port s
     else obind (db_os (net_port_activate (de_os E) (de_net E) port) s) (\<lambda>(r, s).
     obind (if r = ERROR then init_fail_port E port s else Ret (0, s)) (\<lambda>(x, s).
     Ret (0, s\<lparr>db_inited := 1\<rparr>))))))))))"

definition dbman_service_initialize :: "db_env \<Rightarrow> u32 \<Rightarrow> string option \<Rightarrow> string option \<Rightarrow> int dbm" where
  "dbman_service_initialize E netport dbfname logfile s =
     (if db_inited s \<noteq> 0 then Ret (-1, s)
      else obind (dbman_printf_init E logfile s) (\<lambda>(r, s).
      obind (db_os (os_malloc (de_os E) SZ_db) s) (\<lambda>(p, s).
      let s = s\<lparr>db := p\<rparr> in
      if p = 0 then obind (dbman_printf_shutdown s) (\<lambda>(r, s). Ret (-1, s))
      else let s = s\<lparr>port_set_lock := False\<rparr>; nm = (case dbfname of Some f \<Rightarrow> f | None \<Rightarrow> DATABASE_FILENAME) in
      if FILENAME_LEN \<le> length nm then Fault OutOfBounds
      else let s = dput p (DDb \<lparr>dt_name = nm, dt_db = 0, dt_cmd_bcls = 0, dt_socket_port = 0,
             dt_addr = \<lparr>ai_ip = 0, ai_port = 0, ai_addr = \<lparr>sin_family = 0, sin_port = 0, sin_addr = 0\<rparr>, ai_addrsize = 0\<rparr>,
             dt_serv_port = 0, dt_payload = 0\<rparr>) s in
      obind (db_os (buff_create_class (de_os E) DBSVR_BUFF_CLASS_ID 0 DBSVR_BUFF_CLASS_SIZE) s) (\<lambda>(cls, s).
      obind (upd_db (\<lambda>d. d\<lparr>dt_cmd_bcls := cls\<rparr>) s) (\<lambda>s.
      if cls = ERROR then init_fail s
      else if db_buffer_id s \<noteq> 0 then init_fail s
      else let s = s\<lparr>db_buffer_id := DBSVR_BUFF_CLASS_ID\<rparr>; ((res, h), s) = sq_call (\<lambda>n. sq_open E n nm) s in
      obind (upd_db (\<lambda>d. d\<lparr>dt_db := h\<rparr>) s) (\<lambda>s.
      if res \<noteq> SQLITE_OK then init_fail_class s else init_network E netport s))))))"

section \<open>The client\<close>

definition upd_client :: "addr \<Rightarrow> (db_client_t \<Rightarrow> db_client_t) \<Rightarrow> db_state \<Rightarrow> db_state outcome" where
  "upd_client p f s = obind (dload the_dclient p s) (\<lambda>c. Ret (dput p (DClient (f c)) s))"

text \<open>The way out behind the allocation of the client: the channel, the client, the class and the log.\<close>

definition connect_fail :: "db_env \<Rightarrow> u32 option \<Rightarrow> addr \<Rightarrow> addr dbm" where
  "connect_fail E chan cl s =
     obind (case chan of None \<Rightarrow> Ret (OKAY, s) | Some ch \<Rightarrow> db_os (net_channel_delete (de_os E) ch) s) (\<lambda>(r, s).
     obind (db_mem_free cl s) (\<lambda>(r, s).
     obind (db_os (buff_delete_class DBCLI_BUFF_CLASS_ID) s) (\<lambda>(r, s).
     obind (dbman_printf_shutdown s) (\<lambda>(r, s). Ret (0, s)))))"

text \<open>Socket, connection and packet handler of the port. The registration of the channel is not checked.\<close>

definition connect_port :: "db_env \<Rightarrow> addr \<Rightarrow> u32 \<Rightarrow> u32 \<Rightarrow> addr dbm" where
  "connect_port E cl chan port s =
     obind (db_os (net_port_option_configure (de_net E) port NET_PORT_SET_PAYLOAD_SIZE (NumArg DB_MAX_NETWORK_PAYLOAD)) s) (\<lambda>((r, arg), s).
     if r = ERROR then connect_fail E (Some chan) cl s
     else obind (db_os (net_port_proto_socket (de_net E) port) s) (\<lambda>(r, s).
     if r = ERROR then connect_fail E (Some chan) cl s
     else obind (db_os (net_port_proto_connect (de_net E) port NullAddr) s) (\<lambda>(r, s).
     if r = ERROR then connect_fail E (Some chan) cl s
     else obind (db_os (net_channel_register (de_os E) port chan) s) (\<lambda>(r, s).
     obind (db_os (net_port_proto_packet_handler_start (de_os E) (de_net E) port) s) (\<lambda>(r, s).
     if r = ERROR
     then obind (db_os (net_port_delete (de_net E) port) s) (\<lambda>(r, s). connect_fail E (Some chan) cl s)
     else Ret (cl, s))))))"

definition dbman_connect_service :: "db_env \<Rightarrow> u32 \<Rightarrow> u32 \<Rightarrow> string option \<Rightarrow> addr dbm" where
  "dbman_connect_service E ip port logfile s =
     obind (db_os (buff_create_class (de_os E) DBCLI_BUFF_CLASS_ID 0 DBSVR_BUFF_CLASS_SIZE) s) (\<lambda>(r, s).
     if r = ERROR then Ret (0, s)
     else obind (dbman_printf_init E logfile (s\<lparr>db_buffer_id := DBCLI_BUFF_CLASS_ID\<rparr>)) (\<lambda>(r, s).
     obind (db_mem_alloc E SZ_client s) (\<lambda>(cl, s).
     if cl = 0
     then obind (db_os (buff_delete_class DBCLI_BUFF_CLASS_ID) s) (\<lambda>(r, s).
          obind (dbman_printf_shutdown s) (\<lambda>(r, s). Ret (0, s)))
     else let blank = \<lparr>ai_ip = 0, ai_port = 0, ai_addr = \<lparr>sin_family = 0, sin_port = 0, sin_addr = 0\<rparr>, ai_addrsize = 0\<rparr> in
     obind (case snd (net_addrinfo_make (Some blank) ip port) of None \<Rightarrow> Fault NullDeref | Some a \<Rightarrow> Ret a) (\<lambda>a.
     let s = dput cl (DClient \<lparr>cl_addr = a, cl_channel = 0, cl_port = 0, cl_thread = 0\<rparr>) s in
     obind (db_os (net_channel_create (de_os E) (de_net E) DBCLI_BUFF_CLASS_ID DB_CLIENT_CHANNEL_NUMBER) s) (\<lambda>(chan, s).
     obind (upd_client cl (\<lambda>c. c\<lparr>cl_channel := chan\<rparr>) s) (\<lambda>s.
     if chan = ERROR then connect_fail E None cl s
     else obind (db_os (net_port_create (de_os E) (de_net E) NET_PORT_TYPE_CLIENT NET_PORT_PROTO_TCP (Some a) 0 0) s) (\<lambda>(pid, s).
     obind (upd_client cl (\<lambda>c. c\<lparr>cl_port := pid\<rparr>) s) (\<lambda>s.
     if pid = ERROR then connect_fail E (Some chan) cl s
     else connect_port E cl chan pid s))))))))"

text \<open>
  A request: the packet is made, sent and released. \<open>False\<close> when it fails; a packet that no network packet
  could be made for is released, one that could not be sent with its network packet.
\<close>

definition send_request :: "db_env \<Rightarrow> u32 \<Rightarrow> u32 \<Rightarrow> u32 \<Rightarrow> u8 list \<Rightarrow> bool dbm" where
  "send_request E channel cmd xid payload s =
     obind (db_mem_alloc E (of_nat SZ_net_packet) s) (\<lambda>(p, s).
     if p = 0 then Ret (False, s)
     else let s = put_bytes p (net_packet_bytes E (calls (d_os s)) cmd xid (of_nat (length payload)) payload) s in
     obind (db_os (net_packet_make (de_os E) (de_net E) channel (ucast DB_SERVER_CHANNEL_NUMBER) 0 (of_nat SZ_net_packet) 0 p) s) (\<lambda>(pkt, s).
     if pkt = 0 then obind (db_mem_free p s) (\<lambda>(r, s). Ret (False, s))
     else obind (db_os (net_packet_send (de_net E) (de_thr E) channel pkt) s) (\<lambda>(r, s).
     if r = ERROR then obind (db_os (net_packet_free channel pkt) s) (\<lambda>(r, s). Ret (False, s))
     else obind (db_os (net_packet_free channel pkt) s) (\<lambda>(r, s). Ret (r \<noteq> ERROR, s)))))"

definition disconnect_end :: "db_env \<Rightarrow> addr \<Rightarrow> db_client_t \<Rightarrow> int dbm" where
  "disconnect_end E cl c s =
     obind (db_os (net_channel_flush (de_os E) (cl_channel c)) s) (\<lambda>(r, s).
     obind (db_os (net_channel_delete (de_os E) (cl_channel c)) s) (\<lambda>(r, s).
     obind (db_os (net_port_delete (de_net E) (cl_port c)) s) (\<lambda>(r, s).
     obind (db_os (net_port_cleanup (de_net E) (cl_port c)) s) (\<lambda>(r, s).
     obind (db_mem_free cl s) (\<lambda>(r, s).
     obind (db_os (buff_delete_class DBCLI_BUFF_CLASS_ID) s) (\<lambda>(r, s).
     obind (dbman_printf_shutdown (s\<lparr>db_buffer_id := 0\<rparr>)) (\<lambda>(r, s).
     obind (dbman_printf DBMAN_DBG_LVL_MSG (''dbman_disconnect_service::done'' @ [CHR 0x0A]) s) (\<lambda>(r, s). Ret (0, s)))))))))"

definition dbman_disconnect_service :: "db_env \<Rightarrow> addr \<Rightarrow> int dbm" where
  "dbman_disconnect_service E client s =
     (if client = 0 then Ret (-1, s)
      else obind (dload the_dclient client s) (\<lambda>c.
      obind (send_request E (cl_channel c) DBMAN_CLIENT_CMD_STOP 0 [] s) (\<lambda>(ok, s).
      if \<not> ok then Ret (-1, s)
      else obind (db_os (net_packet_recv (de_os E) (cl_channel c) 0) s) (\<lambda>(pkt, s).
      obind (load the_packet pkt (d_os s)) (\<lambda>k.
      obind (if pk_payload k = 0 then db_mem_free pkt s else Ret (OKAY, s)) (\<lambda>(r, s).
      obind (db_os (net_packet_free (cl_channel c) pkt) s) (\<lambda>(r, s). disconnect_end E client c s)))))))"

text \<open>The command and the reply; \<open>sqlcmd\<close> is \<open>None\<close> for NULL.\<close>

definition dbman_run_sql_command :: "db_env \<Rightarrow> addr \<Rightarrow> u32 \<Rightarrow> u8 list option \<Rightarrow> addr dbm" where
  "dbman_run_sql_command E client xid sqlcmd s =
     (case sqlcmd of None \<Rightarrow> Ret (0, s)
      | Some sql \<Rightarrow>
        if client = 0 then Ret (0, s)
        else if unat DB_PACKET_PAYLOAD_SZ < length sql then Ret (0, s)
        else obind (dload the_dclient client s) (\<lambda>c.
        obind (send_request E (cl_channel c) DBMAN_CLIENT_CMD_SQL xid sql s) (\<lambda>(ok, s).
        if \<not> ok then Ret (0, s)
        else obind (db_os (net_packet_recv (de_os E) (cl_channel c) 0) s) (\<lambda>(pkt, s).
        if pkt = 0 then Ret (0, s)
        else obind (load the_packet pkt (d_os s)) (\<lambda>k.
        if pk_payload k = 0 then obind (db_mem_free pkt s) (\<lambda>(r, s). Ret (0, s))
        else obind (load the_bytes (pk_payload k) (d_os s)) (\<lambda>bs.
        obind (dbman_sql_decrypt_result E (Some bs) DB_PACKET_PAYLOAD_SZ s) (\<lambda>(result, s).
        obind (db_os (net_packet_free (cl_channel c) pkt) s) (\<lambda>(r, s).
        Ret (if result = 0 \<or> r = ERROR then 0 else result, s)))))))))"

end
