(* ===== verification/Db_Exec.thy ===== *)
theory Db_Exec
  imports Db_Server Db_Decode
begin

text \<open>
  From the rows of sqlite to a result list: \<open>dbman_execute_produce_result_list\<close>, \<open>dbman_proc\<close> and
  \<open>dbman_sql_execute\<close> of lib/src/dblib_net.c on the memory contract of Db_Room.
\<close>

section \<open>What sqlite answers\<close>

fun col_is :: "db_env \<Rightarrow> nat \<Rightarrow> addr \<Rightarrow> nat \<Rightarrow> dbval \<Rightarrow> bool" where
  "col_is E k st ix (DbInt m) \<longleftrightarrow> sq_column_type E k st ix = SQLITE_INTEGER \<and> sq_column_int E k st ix = m"
| "col_is E k st ix (DbStr bs) \<longleftrightarrow> sq_column_type E k st ix = SQLITE_TEXT \<and> sq_column_text E k st ix = bs"

fun cols_are :: "db_env \<Rightarrow> nat \<Rightarrow> addr \<Rightarrow> nat \<Rightarrow> dbval list \<Rightarrow> bool" where
  "cols_are E k st ix [] \<longleftrightarrow> True"
| "cols_are E k st ix (v # vs) \<longleftrightarrow> col_is E k st ix v \<and> cols_are E k st (Suc ix) vs"

text \<open>From its call number \<open>k\<close> on, sqlite steps through these rows and ends with \<open>res\<close>.\<close>

fun sqlite_yields :: "db_env \<Rightarrow> nat \<Rightarrow> addr \<Rightarrow> dbval list list \<Rightarrow> u32 \<Rightarrow> bool" where
  "sqlite_yields E k st [] res \<longleftrightarrow> sq_step E k st = res \<and> res \<noteq> SQLITE_ROW"
| "sqlite_yields E k st (r # rs) res \<longleftrightarrow>
     sq_step E k st = SQLITE_ROW \<and> sq_column_count E (Suc k) st = of_nat (length r) \<and> cols_are E (Suc k) st 0 r
     \<and> sqlite_yields E (Suc k) st rs res"

text \<open>The table that a run of sqlite stands for.\<close>

definition answer :: "db_env \<Rightarrow> nat \<Rightarrow> db_t \<Rightarrow> dbval list list \<Rightarrow> u32 \<Rightarrow> table" where
  "answer E k D rs res =
     \<lparr>tb_ret = if res = SQLITE_DONE then 0 else res,
      tb_msg = if res = SQLITE_DONE \<or> res = 0 then [] else errmsg_text (sq_errmsg E (Suc (k + length rs)) (dt_db D)), tb_rows = rs\<rparr>"

lemma answer_simps:
  "tb_rows (answer E k D rs res) = rs" "tb_ret (answer E k D rs res) = (if res = SQLITE_DONE then 0 else res)"
  "tb_msg (answer E k D rs res) = (if tb_ret (answer E k D rs res) = 0 then [] else errmsg_text (sq_errmsg E (Suc (k + length rs)) (dt_db D)))"
  by (simp_all add: answer_def)

lemma db_mem_alloc_frame:
  assumes "db_mem_alloc E sz s = Ret (p, s')"
  shows "db s' = db s" "d_steps s' = d_steps s" "db_inited s' = db_inited s" "heap (d_os s) q \<noteq> None \<Longrightarrow> heap (d_os s') q \<noteq> None"
proof -
  from assms obtain o' where o: "buff_alloc_data (de_os E) (db_buffer_id s) sz (d_os s) = Ret (p, o')" "d_os s' = o'"
    "db s' = db s" "d_steps s' = d_steps s" "db_inited s' = db_inited s"
    by (auto simp: db_mem_alloc_def db_os_def outcome_simps)
  then show "db s' = db s" "d_steps s' = d_steps s" "db_inited s' = db_inited s" by simp_all
  show "heap (d_os s') q \<noteq> None" if "heap (d_os s) q \<noteq> None"
    using postD [OF buff_alloc_data_keeps o(1)] that o(2) by (auto simp: objects_def)
qed

context db_room
begin

text \<open>The memory and, beside it, the database: its structure is none of the blocks.\<close>

definition dinv :: "db_t \<Rightarrow> nat \<Rightarrow> db_state \<Rightarrow> addr set \<Rightarrow> nat \<Rightarrow> bool" where
  "dinv D k s A n \<longleftrightarrow> minv s A n \<and> dload the_ddb (db s) s = Ret D \<and> db s \<notin> A \<and> d_steps s = k \<and> db_inited s \<noteq> 0"

lemma d_os_dput [simp]: "d_os (dput p x s) = d_os s"
  by (simp add: dput_def)

lemma dinvD: "dinv D k s A n \<Longrightarrow> minv s A n"
  by (simp add: dinv_def)

lemma dload_ddb: "dload the_ddb p s = Ret D \<longleftrightarrow> p \<noteq> 0 \<and> heap (d_os s) p \<noteq> None \<and> d_objs s p = Some (DDb D)"
proof (cases "d_objs s p")
  case (Some x) then show ?thesis by (cases x) (simp_all add: dload_def)
qed (simp add: dload_def)

lemma dinv_dput: "dinv D k s A n \<Longrightarrow> p \<in> A \<Longrightarrow> dinv D k (dput p x s) A n"
  unfolding dinv_def dload_ddb using minv_dput [of s A n p x] by (auto simp: dput_def)

lemma dinv_steps: "dinv D k s A n \<Longrightarrow> dinv D m (s\<lparr>d_steps := m\<rparr>) A n"
  unfolding dinv_def dload_ddb using minv_steps [of s A n m] by auto

lemma dinv_alloc:
  assumes "dinv D k s A n" "sz \<noteq> 0" "unat sz < 2 ^ 31" "cost sz < n"
  obtains p s' where "db_mem_alloc E sz s = Ret (p, s')" "p \<notin> A" "p \<noteq> 0" "d_objs s' = (d_objs s)(p := None)"
    "dinv D k s' (insert p A) (n - cost sz)" "\<forall>i < unat sz. p + of_nat i \<noteq> 0"
proof -
  obtain p s' where a: "db_mem_alloc E sz s = Ret (p, s')" "p \<notin> A" "p \<noteq> 0" "d_objs s' = (d_objs s)(p := None)"
    "minv s' (insert p A) (n - cost sz)" "\<forall>i < unat sz. p + of_nat i \<noteq> 0" "heap (d_os s) p = None" by (rule alloc_step [OF dinvD [OF assms(1)] assms(2-4)])
  note fr = db_mem_alloc_frame [OF a(1)]
  have "dinv D k s' (insert p A) (n - cost sz)" using assms(1) a(4,5,7) fr by (auto simp: dinv_def dload_ddb)
  then show thesis using a that by blast
qed

section \<open>The items of a row\<close>

lemma produce_item_law:
  assumes inv: "dinv D k s A n" "a \<in> A" "d_objs s a = Some (DItems its)" "ix < length its" and v: "val_ok v" "val_price v < n" "col_is E k st ix v"
  shows "\<exists>s' it B. produce_item E st a ix s = Ret s'
    \<and> dinv D k s' (A \<union> set B) (n - val_price v) \<and> set B \<inter> A = {} \<and> distinct B \<and> (\<forall>p \<in> A - {a}. d_objs s' p = d_objs s p)
    \<and> d_objs s' a = Some (DItems (its[ix := it])) \<and> items_at (d_objs s') [it] [v] B"
proof -
  note u = upd_item_law [OF dinvD [OF inv(1)] inv(2-4)]
  have k: "d_steps s = k" using inv(1) by (simp add: dinv_def)
  show ?thesis
  proof (cases v)
    case (DbInt m)
    let ?f = "\<lambda>it. it\<lparr>di_type := DB_TYPE_INTEGER, di_intval := m\<rparr>"
    have "produce_item E st a ix s = Ret (dput a (DItems (its[ix := ?f (its ! ix)])) s)"
      using u v(3) DbInt k by (simp add: produce_item_def Let_def)
    then show ?thesis using DbInt dinv_dput [OF inv(1,2)]
      by (intro exI [of _ "dput a (DItems (its[ix := ?f (its ! ix)])) s"] exI [of _ "?f (its ! ix)"] exI [of _ "[]"]) simp
  next
    case (DbStr bs)
    let ?k = "of_nat (length bs) :: u32"
    have l: "unat ?k = length bs" "bs \<noteq> []" "length bs < 2 ^ 31" using v(1) DbStr by simp_all
    then have k0: "?k \<noteq> 0" by (metis length_0_conv unsigned_0)
    have ty: "sq_column_type E k st ix = SQLITE_TEXT" "sq_column_text E k st ix = bs" using v(3) DbStr by simp_all
    let ?f = "\<lambda>it. it\<lparr>di_type := DB_TYPE_STRING, di_lenstr := ?k\<rparr>"
    let ?its1 = "its[ix := ?f (its ! ix)]"
    let ?s1 = "dput a (DItems ?its1) s"
    obtain p s2 where al: "db_mem_alloc E ?k ?s1 = Ret (p, s2)" "p \<notin> A" "p \<noteq> 0" "d_objs s2 = (d_objs ?s1)(p := None)"
      "dinv D k s2 (insert p A) (n - cost ?k)"
      by (rule dinv_alloc [OF dinv_dput [OF inv(1,2)] k0]) (use l v(2) DbStr in auto)
    have pa: "p \<noteq> a" using al(2) inv(2) by auto
    let ?it = "(?f (its ! ix))\<lparr>di_strval := p\<rparr>"
    let ?s3 = "dput a (DItems (its[ix := ?it])) s2"
    have "d_objs s2 a = Some (DItems ?its1)" using al(4) pa by simp
    then have u2: "upd_item a ix (\<lambda>it. it\<lparr>di_strval := p\<rparr>) s2 = Ret ?s3"
      using upd_item_law [OF dinvD [OF al(5)], of a ?its1 ix] inv(2,4) by simp
    let ?s4 = "dput p (DText bs) ?s3"
    have "SQLITE_TEXT \<noteq> SQLITE_INTEGER" by (simp add: SQLITE_TEXT_def SQLITE_INTEGER_def)
    then have "produce_item E st a ix s = Ret ?s4"
      using ty k u [of ?f] al(1,3) u2 k0 l(1) by (simp add: produce_item_def Let_def word_gt_0)
    moreover have "dinv D k ?s4 (A \<union> set [p]) (n - val_price v)"
      using dinv_dput [OF dinv_dput [OF al(5), of a "DItems (its[ix := ?it])"], of p "DText bs"] inv(2) DbStr by simp
    moreover have "items_at (d_objs ?s4) [?it] [v] [p]" using DbStr l by simp
    moreover have "d_objs ?s4 a = Some (DItems (its[ix := ?it]))" using pa by simp
    moreover have "\<forall>q \<in> A - {a}. d_objs ?s4 q = d_objs s q" using al(2,4) by auto
    ultimately show ?thesis using al(2) by (intro exI [of _ ?s4] exI [of _ ?it] exI [of _ "[p]"]) simp
  qed
qed

lemma produce_items_law:
  assumes "dinv D k s A n" "a \<in> A" "d_objs s a = Some (DItems its)" "ix + length vs = length its"
    and "list_all val_ok vs" "sum_list (map val_price vs) < n" "cols_are E k st ix vs"
  shows "\<exists>s' its' B. produce_items E st a (length vs) ix s = Ret s'
    \<and> dinv D k s' (A \<union> set B) (n - sum_list (map val_price vs)) \<and> set B \<inter> A = {} \<and> distinct B \<and> (\<forall>p \<in> A - {a}. d_objs s' p = d_objs s p)
    \<and> d_objs s' a = Some (DItems (take ix its @ its')) \<and> items_at (d_objs s') its' vs B"
  using assms
proof (induction vs arbitrary: s A n its ix)
  case Nil
  then show ?case by (intro exI [of _ s] exI [of _ "[]"] exI [of _ "[]"]) simp
next
  case (Cons v vs)
  have ix: "ix < length its" using Cons.prems(4) by simp
  have pr: "val_price v < n" "sum_list (map val_price vs) < n - val_price v" "val_ok v" "col_is E k st ix v" "cols_are E k st (Suc ix) vs"
    using Cons.prems(5-7) by auto
  from produce_item_law [OF Cons.prems(1-3) ix pr(3,1,4)] obtain s1 it B1 where
    1: "produce_item E st a ix s = Ret s1"
    "dinv D k s1 (A \<union> set B1) (n - val_price v)" "set B1 \<inter> A = {}" "distinct B1" "\<forall>p \<in> A - {a}. d_objs s1 p = d_objs s p"
    "d_objs s1 a = Some (DItems (its[ix := it]))" "items_at (d_objs s1) [it] [v] B1" by blast
  from Cons.IH [OF 1(2) _ 1(6), of "Suc ix"] Cons.prems(2,4,5) pr(2,5) obtain s2 its' B2 where
    2: "produce_items E st a (length vs) (Suc ix) s1 = Ret s2"
    "dinv D k s2 (A \<union> set B1 \<union> set B2) (n - val_price v - sum_list (map val_price vs))" "set B2 \<inter> (A \<union> set B1) = {}" "distinct B2"
    "\<forall>p \<in> A \<union> set B1 - {a}. d_objs s2 p = d_objs s1 p" "d_objs s2 a = Some (DItems (take (Suc ix) (its[ix := it]) @ its'))"
    "items_at (d_objs s2) its' vs B2" by auto
  have "items_at (d_objs s2) [it] [v] B1" by (rule items_at_keep [OF 1(7)]) (use 1(3) 2(5) Cons.prems(2) in auto)
  then have it: "items_at (d_objs s2) (it # its') (v # vs) (B1 @ B2)" by (rule items_at_append1 [OF _ 2(7)])
  have tk: "take (Suc ix) (its[ix := it]) @ its' = take ix its @ it # its'" using ix by (simp add: take_Suc_conv_app_nth)
  have "dinv D k s2 (A \<union> set (B1 @ B2)) (n - sum_list (map val_price (v # vs)))" using 2(2) by (simp add: Un_assoc)
  moreover have "\<forall>p \<in> A - {a}. d_objs s2 p = d_objs s p" using 1(5) 2(5) by auto
  ultimately show ?case using 1(1) 2(1) it 2(3,4,6) 1(3,4) tk
    by (intro exI [of _ s2] exI [of _ "it # its'"] exI [of _ "B1 @ B2"]) auto
qed

section \<open>The rows\<close>

text \<open>
  The place where the next column is hung in: the list while there is none, then the last column. \<open>X q\<close> is
  what lies there when \<open>q\<close> is hung in.
\<close>

definition tail_at :: "addr \<Rightarrow> addr \<Rightarrow> addr \<Rightarrow> (addr \<Rightarrow> db_obj) \<Rightarrow> bool" where
  "tail_at l prev t X \<longleftrightarrow>
     (if prev = 0 then t = l \<and> (\<exists>L. X = (\<lambda>q. DList (L\<lparr>dl_items := q\<rparr>))) else t = prev \<and> (\<exists>c. X = (\<lambda>q. DCol (c\<lparr>dc_next := q\<rparr>))))"

lemma link_column_law:
  assumes "tail_at l prev t X" "minv s A n" "t \<in> A" "d_objs s t = Some (X q)"
  shows "link_column l prev col s = Ret (dput t (X col) s)"
proof (cases "prev = 0")
  case True
  then obtain L where "t = l" and X: "X = (\<lambda>q. DList (L\<lparr>dl_items := q\<rparr>))" using assms(1) by (auto simp: tail_at_def)
  moreover have "dload the_dlist t s = Ret (L\<lparr>dl_items := q\<rparr>)" by (rule minv_load [OF assms(2,3), where x = "X q"]) (use assms(4) X in simp_all)
  ultimately show ?thesis using True by (simp add: link_column_def upd_list_def)
next
  case False
  then obtain c where "t = prev" and X: "X = (\<lambda>q. DCol (c\<lparr>dc_next := q\<rparr>))" using assms(1) by (auto simp: tail_at_def)
  moreover have "dload the_dcol t s = Ret (c\<lparr>dc_next := q\<rparr>)" by (rule minv_load [OF assms(2,3), where x = "X q"]) (use assms(4) X in simp_all)
  ultimately show ?thesis using False by (simp add: link_column_def upd_col_def)
qed

lemma array_not_null:
  assumes "unat (SZ_item * of_nat c) = 32 * c" "\<forall>i < unat (SZ_item * of_nat c). a + of_nat i \<noteq> 0"
  shows "\<forall>k < c. \<not> null_item a k"
proof (intro allI impI)
  fix k assume "k < c"
  then have "32 * k < unat (SZ_item * of_nat c)" using assms(1) by simp
  with assms(2) have "a + of_nat (32 * k) \<noteq> 0" by blast
  then show "\<not> null_item a k" by (simp add: null_item_def SZ_item_def)
qed

lemma produce_row_law:
  assumes inv: "dinv D k s A n" and r: "0 < length r" "length r < 2 ^ 26" "list_all val_ok r" "row_price r < n"
    and sq: "sq_step E k st = SQLITE_ROW" "sq_column_count E (Suc k) st = of_nat (length r)" "cols_are E (Suc k) st 0 r"
    and t: "tail_at l prev t X" "t \<in> A" "d_objs s t = Some (X 0)"
  shows "\<exists>s' col a its B. produce_row E st l ((prev, row, sc), s) = Ret ((col, row + 1, Scanning), s')
    \<and> col \<noteq> 0 \<and> dinv D (Suc k) s' (A \<union> set (col # a # B)) (n - row_price r) \<and> set (col # a # B) \<inter> A = {} \<and> distinct (col # a # B)
    \<and> d_objs s' col = Some (DCol \<lparr>dc_count = of_nat (length r), dc_items = a, dc_next = 0\<rparr>)
    \<and> d_objs s' a = Some (DItems its) \<and> items_at (d_objs s') its r B \<and> (\<forall>i < length r. \<not> null_item a i)
    \<and> (\<forall>q \<in> A - {t}. d_objs s' q = d_objs s q) \<and> d_objs s' t = Some (X col)"
proof -
  let ?c = "length r" and ?z = "SZ_item * of_nat (length r)" and ?s0 = "s\<lparr>d_steps := Suc k\<rparr>"
  have z: "unat ?z = 32 * ?c" using r(2) by (simp add: SZ_item_def unat_word_ariths)
  then have z0: "?z \<noteq> 0" "unat ?z < 2 ^ 31" using r(1,2) by (auto simp: unat_eq_0 [symmetric])
  have c0: "(of_nat ?c :: u32) \<noteq> 0" "unat (of_nat ?c :: u32) = ?c" using r(1,2) by (auto simp: unat_eq_0 [symmetric])
  have pr: "cost SZ_column < n" "cost ?z < n - cost SZ_column" "sum_list (map val_price r) < n - cost SZ_column - cost ?z"
    using r(4) by (auto simp: row_price_def)
  have zc: "SZ_column \<noteq> 0" "unat SZ_column < 2 ^ 31" by (simp_all add: SZ_column_def)
  have k: "d_steps s = k" using inv by (simp add: dinv_def)
  obtain col s1 where 1: "db_mem_alloc E SZ_column ?s0 = Ret (col, s1)" "col \<notin> A" "col \<noteq> 0" "d_objs s1 = (d_objs s)(col := None)"
    "dinv D (Suc k) s1 (insert col A) (n - cost SZ_column)" by (rule dinv_alloc [OF dinv_steps [OF inv] zc pr(1)]) simp
  have k1: "d_steps s1 = Suc k" using 1(5) by (simp add: dinv_def)
  let ?s1 = "dput col (DCol \<lparr>dc_count = of_nat ?c, dc_items = 0, dc_next = 0\<rparr>) s1"
  have i1: "dinv D (Suc k) ?s1 (insert col A) (n - cost SZ_column)" by (rule dinv_dput [OF 1(5)]) simp
  obtain a s2 where 2: "db_mem_alloc E ?z ?s1 = Ret (a, s2)" "a \<notin> insert col A" "a \<noteq> 0" "d_objs s2 = (d_objs ?s1)(a := None)"
    "dinv D (Suc k) s2 (insert a (insert col A)) (n - cost SZ_column - cost ?z)" "\<forall>i < unat ?z. a + of_nat i \<noteq> 0" by (rule dinv_alloc [OF i1 z0 pr(2)])
  let ?col = "DCol \<lparr>dc_count = of_nat ?c, dc_items = a, dc_next = 0\<rparr>" and ?j = "map (de_junk_item E (calls (d_os s2))) [0..<unat ?z div unat SZ_item]"
  let ?s2 = "dput col ?col s2" let ?s3 = "dput a (DItems ?j) ?s2"
  have "dload the_dcol col s2 = Ret \<lparr>dc_count = of_nat ?c, dc_items = 0, dc_next = 0\<rparr>"
    by (rule minv_load [OF dinvD [OF 2(5)], where x = "DCol \<lparr>dc_count = of_nat ?c, dc_items = 0, dc_next = 0\<rparr>"]) (use 2(2,4) in auto)
  then have uc: "upd_col col (\<lambda>c. c\<lparr>dc_items := a\<rparr>) s2 = Ret ?s2" by (simp add: upd_col_def)
  have i3: "dinv D (Suc k) ?s3 (insert a (insert col A)) (n - cost SZ_column - cost ?z)" by (intro dinv_dput 2(5)) simp_all
  have lj: "length ?j = ?c" using z by (simp add: SZ_item_def)
  from produce_items_law [OF i3, of a ?j 0 r st] lj r(3) pr(3) sq(3) obtain s4 its B where
    4: "produce_items E st a ?c 0 ?s3 = Ret s4" "dinv D (Suc k) s4 (insert a (insert col A) \<union> set B) (n - row_price r)"
    "set B \<inter> insert a (insert col A) = {}" "distinct B" "\<forall>p \<in> insert a (insert col A) - {a}. d_objs s4 p = d_objs ?s3 p"
    "d_objs s4 a = Some (DItems its)" "items_at (d_objs s4) its r B" by (auto simp: row_price_def ac_simps)
  have t4: "d_objs s4 t = Some (X 0)" "t \<noteq> col" "t \<noteq> a" "t \<notin> set B" using t(2,3) 4(3,5) 1(2,4) 2(2,4) by auto
  have lk: "link_column l prev col s4 = Ret (dput t (X col) s4)" by (rule link_column_law [OF t(1) dinvD [OF 4(2)] _ t4(1)]) (use t(2) in simp)
  have run: "produce_row E st l ((prev, row, sc), s) = Ret ((col, row + 1, Scanning), dput t (X col) s4)"
    using sq(1,2) k k1 1(1,3) c0 2(1,3) uc 4(1) lk by (simp add: produce_row_def sq_call_def Let_def)
  let ?s = "dput t (X col) s4"
  have m: "dinv D (Suc k) ?s (A \<union> set (col # a # B)) (n - row_price r)"
  proof -
    have "insert a (insert col A) \<union> set B = A \<union> set (col # a # B)" by auto
    then show ?thesis using dinv_dput [OF 4(2)] t(2) by simp
  qed
  have it: "items_at (d_objs ?s) its r B" by (rule items_at_keep [OF 4(7)]) (use t4 in auto)
  have r1: "d_objs ?s col = Some ?col" using t4 4(5) 2(2) by auto
  have r2: "d_objs ?s a = Some (DItems its)" using t4 4(6) by auto
  have r4: "\<forall>q \<in> A - {t}. d_objs ?s q = d_objs s q" using 4(5) 1(2,4) 2(2,4) by auto
  have r5: "d_objs ?s t = Some (X col)" by simp
  have r6: "set (col # a # B) \<inter> A = {}" "distinct (col # a # B)" using 1(2) 2(2) 4(3,4) by auto
  show ?thesis
    by (intro exI [of _ ?s] exI [of _ col] exI [of _ a] exI [of _ its] exI [of _ B] conjI)
       (fact run 1(3) m r6 r1 r2 it array_not_null [OF z 2(6)] r4 r5)+
qed

lemma produce_rows_law:
  assumes "dinv D k s A n" "\<forall>r \<in> set rs. 0 < length r \<and> length r < 2 ^ 26" "list_all (list_all val_ok) rs" "sum_list (map row_price rs) < n"
    and "sqlite_yields E k st rs res" "tail_at l prev t X" "t \<in> A" "d_objs s t = Some (X 0)"
  shows "\<exists>s' p last B. while_o (\<lambda>((prev, row, sc), s). sc = Scanning) (produce_row E st l) ((prev, row, Scanning), s)
      = Ret ((last, row + of_nat (length rs), Stopped res), s')
    \<and> cols_at (d_objs s') p rs B \<and> dinv D (Suc (k + length rs)) s' (A \<union> set B) (n - sum_list (map row_price rs)) \<and> set B \<inter> A = {} \<and> distinct B
    \<and> (\<forall>q \<in> A - {t}. d_objs s' q = d_objs s q) \<and> d_objs s' t = Some (X p)"
  using assms
proof (induction rs arbitrary: s A n k prev t X row)
  case Nil
  have k: "d_steps s = k" using Nil.prems(1) by (simp add: dinv_def)
  have "while_o (\<lambda>((prev, row, sc), s). sc = Scanning) (produce_row E st l) ((prev, row, Scanning), s) = Ret ((prev, row, Stopped res), s\<lparr>d_steps := Suc k\<rparr>)"
    using Nil.prems(5) k by (subst while_o_Ret [where y = "((prev, row, Stopped res), s\<lparr>d_steps := Suc k\<rparr>)"]) (simp_all add: produce_row_def sq_call_def)
  then show ?case using Nil.prems(8) dinv_steps [OF Nil.prems(1)]
    by (intro exI [of _ "s\<lparr>d_steps := Suc k\<rparr>"] exI [of _ 0] exI [of _ prev] exI [of _ "[]"]) simp
next
  case (Cons r rs)
  have pr: "row_price r < n" "sum_list (map row_price rs) < n - row_price r" using Cons.prems(4) by auto
  have r: "0 < length r" "length r < 2 ^ 26" "list_all val_ok r" and sq: "sq_step E k st = SQLITE_ROW" "sq_column_count E (Suc k) st = of_nat (length r)"
    "cols_are E (Suc k) st 0 r" "sqlite_yields E (Suc k) st rs res" using Cons.prems(2,3,5) by auto
  from produce_row_law [OF Cons.prems(1) r pr(1) sq(1-3) Cons.prems(6-8), of row Scanning] obtain s1 col a its B1 where
    1: "produce_row E st l ((prev, row, Scanning), s) = Ret ((col, row + 1, Scanning), s1)" "col \<noteq> 0"
    "dinv D (Suc k) s1 (A \<union> set (col # a # B1)) (n - row_price r)" "set (col # a # B1) \<inter> A = {}" "distinct (col # a # B1)"
    "d_objs s1 col = Some (DCol \<lparr>dc_count = of_nat (length r), dc_items = a, dc_next = 0\<rparr>)" "d_objs s1 a = Some (DItems its)"
    "items_at (d_objs s1) its r B1" "\<forall>i < length r. \<not> null_item a i" "\<forall>q \<in> A - {t}. d_objs s1 q = d_objs s q" "d_objs s1 t = Some (X col)" by blast
  let ?A = "A \<union> set (col # a # B1)" and ?Y = "\<lambda>q. DCol (\<lparr>dc_count = of_nat (length r), dc_items = a, dc_next = 0\<rparr>\<lparr>dc_next := q\<rparr>)"
  have tl: "tail_at l col col ?Y" unfolding tail_at_def using 1(2) by simp (rule exI [of _ "\<lparr>dc_count = of_nat (length r), dc_items = a, dc_next = 0\<rparr>"], simp)
  from Cons.IH [OF 1(3) _ _ pr(2) sq(4) tl, of "row + 1"] Cons.prems(2,3) 1(6) obtain s2 p last B2 where
    2: "while_o (\<lambda>((prev, row, sc), s). sc = Scanning) (produce_row E st l) ((col, row + 1, Scanning), s1) = Ret ((last, row + 1 + of_nat (length rs), Stopped res), s2)"
    "cols_at (d_objs s2) p rs B2" "dinv D (Suc (Suc k + length rs)) s2 (?A \<union> set B2) (n - row_price r - sum_list (map row_price rs))" "set B2 \<inter> ?A = {}" "distinct B2"
    "\<forall>q \<in> ?A - {col}. d_objs s2 q = d_objs s1 q" "d_objs s2 col = Some (?Y p)" by auto
  have na: "a \<noteq> col" "col \<notin> set B1" "col \<notin> A" "a \<notin> A" "t \<noteq> col" using 1(4,5) Cons.prems(7) by auto
  have "items_at (d_objs s2) its r B1" by (rule items_at_keep [OF 1(8)]) (use 2(6) na in auto)
  moreover have "d_objs s2 a = Some (DItems its)" using 2(6) 1(7) na by auto
  ultimately have co: "cols_at (d_objs s2) col (r # rs) (col # a # B1 @ B2)" using 2(2,7) 1(9) by auto
  have m: "dinv D (Suc (k + length (r # rs))) s2 (A \<union> set (col # a # B1 @ B2)) (n - sum_list (map row_price (r # rs)))"
  proof -
    have "?A \<union> set B2 = A \<union> set (col # a # B1 @ B2)" by auto
    then show ?thesis using 2(3) by simp
  qed
  have run: "while_o (\<lambda>((prev, row, sc), s). sc = Scanning) (produce_row E st l) ((prev, row, Scanning), s) = Ret ((last, row + of_nat (length (r # rs)), Stopped res), s2)"
    using while_o_Ret [where b = "\<lambda>((prev, row, sc), s). sc = Scanning" and c = "produce_row E st l" and x = "((prev, row, Scanning), s)", OF _ 1(1)] 2(1) by (simp add: add.assoc)
  have fr: "\<forall>q \<in> A - {t}. d_objs s2 q = d_objs s q" "d_objs s2 t = Some (X col)" using 1(10,11) 2(6) na Cons.prems(7) by auto
  have ds: "set (col # a # B1 @ B2) \<inter> A = {}" "distinct (col # a # B1 @ B2)" using 1(4,5) 2(4,5) by auto
  show ?case by (intro exI [of _ s2] exI [of _ col] exI [of _ last] exI [of _ "col # a # B1 @ B2"] conjI) (fact run co m ds fr)+
qed

section \<open>The result list\<close>

lemma upd_list_law:
  assumes "minv s A n" "l \<in> A" "d_objs s l = Some (DList L)"
  shows "upd_list l f s = Ret (dput l (DList (f L)) s)"
  using minv_load [OF assms, of the_dlist] by (simp add: upd_list_def)

lemma produce_end_law:
  assumes inv: "dinv D k s A n" and l: "l \<in> A" "d_objs s l = Some (DList L)" "dl_errmsg L = 0"
    and T: "tb_ret T = (if res = SQLITE_DONE then 0 else res)" "tb_msg T = (if tb_ret T = 0 then [] else errmsg_text (sq_errmsg E k (dt_db D)))"
      "row = of_nat (length (tb_rows T))"
    and c: "cols_at (d_objs s) (dl_items L) (tb_rows T) B" "l \<notin> set B" "set B \<subseteq> A"
    and n: "(if tb_ret T = 0 then 0 else cost (of_nat DBMAN_ERRMSG_LEN)) < n"
  shows "\<exists>s' M. produce_end E l row res s = Ret (l, s') \<and> result_at (d_objs s') l T (l # M @ B)
    \<and> dinv D k s' (A \<union> set M) (n - (if tb_ret T = 0 then 0 else cost (of_nat DBMAN_ERRMSG_LEN)))
    \<and> set M \<inter> A = {} \<and> distinct M \<and> (\<forall>q \<in> A - {l}. d_objs s' q = d_objs s q)"
proof (cases "tb_ret T = 0")
  case True
  let ?L1 = "L\<lparr>dl_ret := 0\<rparr>" and ?L = "L\<lparr>dl_ret := 0, dl_errmsg := 0, dl_count := row\<rparr>"
  let ?s = "dput l (DList ?L) (dput l (DList ?L1) s)"
  have ret: "(if res = SQLITE_DONE then SQLITE_OK else res) = 0" using T(1) True by (simp add: SQLITE_OK_def split: if_splits)
  have i1: "dinv D k (dput l (DList ?L1) s) A n" by (rule dinv_dput [OF inv l(1)])
  have "produce_end E l row res s = Ret (l, ?s)"
    unfolding produce_end_def Let_def ret using upd_list_law [OF dinvD [OF inv] l(1,2)] upd_list_law [OF dinvD [OF i1] l(1), of ?L1] by (simp add: SQLITE_OK_def)
  moreover have "cols_at (d_objs ?s) (dl_items L) (tb_rows T) B" by (rule cols_at_keep [OF c(1)]) (use c(2) in auto)
  then have "result_at (d_objs ?s) l T (l # [] @ B)" using True T(2,3) by (cases L) (auto simp: result_at_def)
  moreover have "dinv D k ?s A n" by (rule dinv_dput [OF i1 l(1)])
  ultimately show ?thesis using True by (intro exI [of _ ?s] exI [of _ "[]"]) auto
next
  case False
  let ?z = "of_nat ERR_MSG_LEN :: u32"
  have ret: "(if res = SQLITE_DONE then SQLITE_OK else res) = tb_ret T" using T(1) by (simp add: SQLITE_OK_def)
  have z: "?z \<noteq> 0" "unat ?z < 2 ^ 31" "ERR_MSG_LEN = DBMAN_ERRMSG_LEN" by (simp_all add: ERR_MSG_LEN_def DBMAN_ERRMSG_LEN_def)
  let ?L1 = "L\<lparr>dl_ret := tb_ret T\<rparr>"
  let ?s1 = "dput l (DList ?L1) s"
  have i1: "dinv D k ?s1 A n" by (rule dinv_dput [OF inv l(1)])
  obtain m s2 where m: "db_mem_alloc E ?z ?s1 = Ret (m, s2)" "m \<notin> A" "m \<noteq> 0" "d_objs s2 = (d_objs ?s1)(m := None)" "dinv D k s2 (insert m A) (n - cost ?z)"
    by (rule dinv_alloc [OF i1 z(1,2)]) (use n False z(3) in auto)
  have lm: "l \<noteq> m" using m(2) l(1) by auto
  let ?L2 = "?L1\<lparr>dl_errmsg := m\<rparr>" let ?s2 = "dput l (DList ?L2) s2" let ?s3 = "dput m (DText (tb_msg T)) ?s2"
  let ?L3 = "?L2\<lparr>dl_count := row\<rparr>" let ?s = "dput l (DList ?L3) ?s3"
  have i2: "dinv D k ?s2 (insert m A) (n - cost ?z)" by (rule dinv_dput [OF m(5)]) (use l(1) in simp)
  have i3: "dinv D k ?s3 (insert m A) (n - cost ?z)" by (rule dinv_dput [OF i2]) simp
  have u1: "upd_list l (\<lambda>x. x\<lparr>dl_ret := tb_ret T\<rparr>) s = Ret ?s1" by (rule upd_list_law [OF dinvD [OF inv] l(1,2)])
  have u2: "upd_list l (\<lambda>x. x\<lparr>dl_errmsg := m\<rparr>) s2 = Ret ?s2" by (rule upd_list_law [OF dinvD [OF m(5)]]) (use l(1) m(4) lm in simp_all)
  have u3: "upd_list l (\<lambda>x. x\<lparr>dl_count := row\<rparr>) ?s3 = Ret ?s" by (rule upd_list_law [OF dinvD [OF i3]]) (use l(1) lm in simp_all)
  have d: "dload the_ddb (db ?s2) ?s2 = Ret D" "d_steps ?s2 = k" using i2 by (simp_all add: dinv_def)
  have "produce_end E l row res s = Ret (l, ?s)"
    unfolding produce_end_def Let_def ret using u1 False m(1,3) u2 d u3 T(2) by (simp add: SQLITE_OK_def)
  moreover have "cols_at (d_objs ?s) (dl_items L) (tb_rows T) B" by (rule cols_at_keep [OF c(1)]) (use c(2,3) m(2,4) in auto)
  moreover have "length (tb_msg T) = DBMAN_ERRMSG_LEN" using T(2) False z(3) by (simp add: errmsg_text_def)
  ultimately have "produce_end E l row res s = Ret (l, ?s)" "result_at (d_objs ?s) l T (l # [m] @ B)" using False T(3) lm by (cases L; auto simp: result_at_def)+
  moreover have "dinv D k ?s (A \<union> set [m]) (n - cost ?z)" using dinv_dput [OF i3] l(1) by simp
  moreover have "\<forall>q \<in> A - {l}. d_objs ?s q = d_objs s q" using m(2,4) by auto
  ultimately show ?thesis using False m(2) z(3) by (intro exI [of _ ?s] exI [of _ "[m]"]) simp
qed

lemma produce_list_law:
  assumes inv: "dinv D k s A n" and sq: "sqlite_yields E k st rs res" and ok: "table_ok (answer E k D rs res)" "list_all (list_all val_ok) rs"
    and n: "table_price (answer E k D rs res) < n"
  shows "\<exists>p s' B. dbman_execute_produce_result_list E st s = Ret (p, s') \<and> p \<noteq> 0 \<and> result_at (d_objs s') p (answer E k D rs res) B
    \<and> dinv D (Suc (k + length rs)) s' (A \<union> set B) (n - table_price (answer E k D rs res)) \<and> set B \<inter> A = {} \<and> distinct B
    \<and> (\<forall>q \<in> A. d_objs s' q = d_objs s q)"
proof -
  let ?T = "answer E k D rs res"
  let ?e = "if tb_ret ?T = 0 then 0 else cost (of_nat DBMAN_ERRMSG_LEN)"
  have price: "table_price ?T = sum_list (map row_price rs) + cost SZ_list + ?e" by (simp add: table_price_def answer_simps)
  have w: "\<forall>r \<in> set rs. 0 < length r \<and> length r < 2 ^ 26" using ok(1) by (auto simp: table_ok_def answer_simps)
  have zl: "SZ_list \<noteq> 0" "unat SZ_list < 2 ^ 31" by (simp_all add: SZ_list_def)
  have pr: "cost SZ_list < n" "sum_list (map row_price rs) < n - cost SZ_list" "?e < n - cost SZ_list - sum_list (map row_price rs)" using n price by auto
  obtain l s1 where 1: "db_mem_alloc E SZ_list s = Ret (l, s1)" "l \<notin> A" "l \<noteq> 0" "d_objs s1 = (d_objs s)(l := None)" "dinv D k s1 (insert l A) (n - cost SZ_list)"
    by (rule dinv_alloc [OF inv zl pr(1)])
  let ?L = "\<lparr>dl_ret = 0, dl_errmsg = 0, dl_count = 0, dl_items = 0\<rparr> :: db_result_list"
  let ?X = "\<lambda>q. DList (?L\<lparr>dl_items := q\<rparr>)" let ?s1 = "dput l (DList ?L) s1"
  have i1: "dinv D k ?s1 (insert l A) (n - cost SZ_list)" by (rule dinv_dput [OF 1(5)]) simp
  have tl: "tail_at l 0 l ?X" unfolding tail_at_def by simp (rule exI [of _ ?L], simp)
  from produce_rows_law [OF i1 w ok(2) pr(2) sq tl, of 0] obtain s2 p last B where
    2: "while_o (\<lambda>((prev, row, sc), s). sc = Scanning) (produce_row E st l) ((0, 0, Scanning), ?s1) = Ret ((last, of_nat (length rs), Stopped res), s2)"
    "cols_at (d_objs s2) p rs B" "dinv D (Suc (k + length rs)) s2 (insert l A \<union> set B) (n - cost SZ_list - sum_list (map row_price rs))"
    "set B \<inter> insert l A = {}" "distinct B" "\<forall>q \<in> insert l A - {l}. d_objs s2 q = d_objs ?s1 q" "d_objs s2 l = Some (?X p)" by auto
  from produce_end_law [OF 2(3) _ 2(7), of ?T res "of_nat (length rs)" B] 2(2,4) pr(3) answer_simps [of E k D rs res] obtain s3 M where
    3: "produce_end E l (of_nat (length rs)) res s2 = Ret (l, s3)" "result_at (d_objs s3) l ?T (l # M @ B)"
    "dinv D (Suc (k + length rs)) s3 (insert l A \<union> set B \<union> set M) (n - cost SZ_list - sum_list (map row_price rs) - ?e)"
    "set M \<inter> (insert l A \<union> set B) = {}" "distinct M" "\<forall>q \<in> insert l A \<union> set B - {l}. d_objs s3 q = d_objs s2 q" by auto
  have "dbman_execute_produce_result_list E st s = Ret (l, s3)" using 1(1,3) 2(1) 3(1) by (simp add: dbman_execute_produce_result_list_def Let_def)
  moreover have "dinv D (Suc (k + length rs)) s3 (A \<union> set (l # M @ B)) (n - table_price ?T)"
  proof -
    have "insert l A \<union> set B \<union> set M = A \<union> set (l # M @ B)" by auto
    moreover have "n - cost SZ_list - sum_list (map row_price rs) - ?e = n - table_price ?T" using price by simp
    ultimately show ?thesis using 3(3) by simp
  qed
  moreover have "set (l # M @ B) \<inter> A = {}" "distinct (l # M @ B)" using 1(2) 2(4,5) 3(4,5) by auto
  moreover have "\<forall>q \<in> A. d_objs s3 q = d_objs s q"
  proof
    fix q assume q: "q \<in> A"
    then have "q \<noteq> l" using 1(2) by auto
    then show "d_objs s3 q = d_objs s q" using q 3(6) 2(6) 1(4) by simp
  qed
  ultimately show ?thesis using 1(3) 3(2) by (intro exI [of _ l] exI [of _ s3] exI [of _ "l # M @ B"]) simp
qed

section \<open>A command\<close>

lemma make_cmd_law:
  assumes inv: "dinv D k s A n" and len: "length sql < 2 ^ 30" and n: "cost SZ_cmd + cost (of_nat (length sql) + 32) < n"
  obtains cmd p s' where "make_cmd E xid sql f s = Ret (Some cmd, s')" "cmd \<noteq> p" "cmd \<notin> A" "p \<notin> A" "cmd \<noteq> 0"
    "dinv D k s' (insert p (insert cmd A)) (n - cost SZ_cmd - cost (of_nat (length sql) + 32))"
    "d_objs s' p = Some (DText (sql @ replicate 32 0))"
    "d_objs s' cmd = Some (DCmd \<lparr>cm_res = 0, cm_xid = xid, cm_cmd = p, cm_len = of_nat (length sql), cm_res_f = f, cm_result_list = 0, cm_sig = 0\<rparr>)"
    "\<forall>q \<in> A. d_objs s' q = d_objs s q"
proof -
  let ?z = "of_nat (length sql) + 32 :: u32"
  have "unat ?z = length sql + 32" using offset_add [of "of_nat (length sql)" 32] len by simp
  then have z: "?z \<noteq> 0" "unat ?z < 2 ^ 31" using len by (auto simp: unat_eq_0 [symmetric])
  have zc: "SZ_cmd \<noteq> 0" "unat SZ_cmd < 2 ^ 31" by (simp_all add: SZ_cmd_def)
  obtain cmd s1 where 1: "db_mem_alloc E SZ_cmd s = Ret (cmd, s1)" "cmd \<notin> A" "cmd \<noteq> 0" "d_objs s1 = (d_objs s)(cmd := None)" "dinv D k s1 (insert cmd A) (n - cost SZ_cmd)"
    by (rule dinv_alloc [OF inv zc]) (use n in auto)
  obtain p s2 where 2: "db_mem_alloc E ?z s1 = Ret (p, s2)" "p \<notin> insert cmd A" "p \<noteq> 0" "d_objs s2 = (d_objs s1)(p := None)"
    "dinv D k s2 (insert p (insert cmd A)) (n - cost SZ_cmd - cost ?z)" by (rule dinv_alloc [OF 1(5) z]) (use n in auto)
  let ?c = "DCmd \<lparr>cm_res = 0, cm_xid = xid, cm_cmd = p, cm_len = of_nat (length sql), cm_res_f = f, cm_result_list = 0, cm_sig = 0\<rparr>"
  let ?s = "dput cmd ?c (dput p (DText (sql @ replicate 32 0)) s2)"
  have "make_cmd E xid sql f s = Ret (Some cmd, ?s)" using 1(1,3) 2(1,3) by (simp add: make_cmd_def Let_def)
  moreover have "dinv D k ?s (insert p (insert cmd A)) (n - cost SZ_cmd - cost ?z)" by (intro dinv_dput 2(5)) simp_all
  ultimately show thesis using 1(2,3,4) 2(2,4) by (intro that [of cmd ?s p]) auto
qed

lemma free_cmd_law:
  assumes inv: "minv s A n" and c: "cmd \<in> A" "d_objs s cmd = Some (DCmd c)" "cm_cmd c \<in> A" "cm_cmd c \<noteq> cmd"
  shows "\<exists>s'. free_cmd cmd s = Ret s' \<and> minv s' (A - {cmd, cm_cmd c}) n \<and> d_objs s' = d_objs s"
proof -
  have l: "dload the_dcmd cmd s = Ret c" by (rule minv_load [OF inv c(1,2)]) simp
  from free_takes [OF inv c(3)] obtain s1 where 1: "db_mem_free (cm_cmd c) s = Ret (OKAY, s1)" "d_objs s1 = d_objs s" "minv s1 (A - {cm_cmd c}) n" by blast
  from free_takes [OF 1(3), of cmd] c(1,4) obtain s2 where 2: "db_mem_free cmd s1 = Ret (OKAY, s2)" "d_objs s2 = d_objs s1" "minv s2 (A - {cm_cmd c} - {cmd}) n" by auto
  have "A - {cm_cmd c} - {cmd} = A - {cmd, cm_cmd c}" by auto
  then show ?thesis using l 1 2 by (simp add: free_cmd_def)
qed

text \<open>The command processor without a result function: the result list is left in the command.\<close>

lemma c_string_padded: "0 \<notin> set sql \<Longrightarrow> c_string (sql @ replicate 32 0) = Ret sql"
  by (simp add: c_string_def takeWhile_append2) (simp add: takeWhile_append)

lemma proc_law:
  assumes inv: "dinv D k s A n" and c: "cmd \<in> A" "cmd \<noteq> 0" "d_objs s cmd = Some (DCmd c)" "cm_cmd c \<in> A" "cm_cmd c \<noteq> cmd" "cm_res_f c = NullFn"
      "d_objs s (cm_cmd c) = Some (DText (sql @ replicate 32 0))" "0 \<notin> set sql"
    and sq: "sq_prepare E k (dt_db D) sql = (r, st)" "sqlite_yields E (Suc k) st rs res"
    and ok: "table_ok (answer E (Suc k) D rs res)" "list_all (list_all val_ok) rs" and n: "table_price (answer E (Suc k) D rs res) < n"
  shows "\<exists>p s' B. dbman_proc E DB_CMD_COMMAND cmd s = Ret (0, s') \<and> p \<noteq> 0 \<and> result_at (d_objs s') p (answer E (Suc k) D rs res) B
    \<and> minv s' (A \<union> set B) (n - table_price (answer E (Suc k) D rs res)) \<and> set B \<inter> A = {} \<and> distinct B
    \<and> d_objs s' cmd = Some (DCmd (c\<lparr>cm_res := tb_ret (answer E (Suc k) D rs res), cm_result_list := p\<rparr>))
    \<and> (\<forall>q \<in> A - {cmd}. d_objs s' q = d_objs s q)"
proof -
  let ?T = "answer E (Suc k) D rs res"
  have k: "d_steps s = k" and d: "dload the_ddb (db s) s = Ret D" using inv by (simp_all add: dinv_def)
  have l: "dload the_dcmd cmd s = Ret c" by (rule minv_load [OF dinvD [OF inv] c(1,3)]) simp
  have lt: "dload the_dtext (cm_cmd c) s = Ret (sql @ replicate 32 0)" by (rule minv_load [OF dinvD [OF inv] c(4,7)]) simp
  from produce_list_law [OF dinv_steps [OF inv, of "Suc k"] sq(2) ok n] obtain p s1 B where
    1: "dbman_execute_produce_result_list E st (s\<lparr>d_steps := Suc k\<rparr>) = Ret (p, s1)" "p \<noteq> 0" "result_at (d_objs s1) p ?T B"
    "dinv D (Suc (Suc k + length rs)) s1 (A \<union> set B) (n - table_price ?T)" "set B \<inter> A = {}" "distinct B" "\<forall>q \<in> A. d_objs s1 q = d_objs s q" by auto
  from 1(3) obtain m q0 B' where rl: "d_objs s1 p = Some (DList \<lparr>dl_ret = tb_ret ?T, dl_errmsg = m, dl_count = of_nat (length (tb_rows ?T)), dl_items = q0\<rparr>)" "p \<in> set B"
    by (elim result_atE) (auto split: if_splits)
  let ?l = "\<lparr>dl_ret = tb_ret ?T, dl_errmsg = m, dl_count = of_nat (length (tb_rows ?T)), dl_items = q0\<rparr>"
  have ll: "dload the_dlist p s1 = Ret ?l" by (rule minv_load [OF dinvD [OF 1(4)], where x = "DList ?l"]) (use rl in simp_all)
  define s2 where "s2 = (if tb_ret ?T = SQLITE_OK then s1\<lparr>d_steps := Suc (d_steps s1)\<rparr> else s1)"
  have m2: "minv s2 (A \<union> set B) (n - table_price ?T)" "d_objs s2 = d_objs s1" using dinvD [OF 1(4)] minv_steps by (auto simp: s2_def)
  let ?c = "c\<lparr>cm_res := tb_ret ?T, cm_result_list := p\<rparr>" let ?s = "dput cmd (DCmd ?c) s2"
  have l2: "dload the_dcmd cmd s2 = Ret c" by (rule minv_load [OF m2(1), where x = "DCmd c"]) (use c(1,3) m2(2) 1(7) in simp_all)
  have m3: "minv ?s (A \<union> set B) (n - table_price ?T)" by (rule minv_dput [OF m2(1)])
  have l3: "dload the_dcmd cmd ?s = Ret ?c" by (rule minv_load [OF m3, where x = "DCmd ?c"]) (use c(1) in simp_all)
  have pr: "sq_call (\<lambda>n. sq_prepare E n (dt_db D) sql) s = ((r, st), s\<lparr>d_steps := Suc k\<rparr>)" using k sq(1) by (simp add: sq_call_def)
  obtain r' where fin: "(if tb_ret ?T = SQLITE_OK then sq_call (\<lambda>n. sq_finalize E n st) s1 else (0, s1)) = (r', s2)"
    by (cases "tb_ret ?T = SQLITE_OK") (simp_all add: sq_call_def s2_def)
  have "dbman_proc E DB_CMD_COMMAND cmd s = Ret (0, ?s)"
    using c(2,6,8) d l lt pr 1(1,2) ll fin l2 l3 by (simp add: dbman_proc_def Let_def upd_cmd_def run_result_f_def c_string_padded)
  moreover have "result_at (d_objs ?s) p ?T B" by (rule result_at_keep [OF 1(3)]) (use m2(2) c(1) 1(5) in auto)
  ultimately show ?thesis using 1(2,5,6,7) m3 m2(2) by (intro exI [of _ p] exI [of _ ?s] exI [of _ B]) simp
qed

lemma sql_execute_law:
  assumes inv: "dinv D k s A n" and sql: "sql \<noteq> []" "0 \<notin> set sql" "length sql < 2 ^ 30"
    and sq: "sq_prepare E k (dt_db D) sql = (r, st)" "sqlite_yields E (Suc k) st rs res"
    and ok: "table_ok (answer E (Suc k) D rs res)" "list_all (list_all val_ok) rs"
    and n: "cost SZ_cmd + cost (of_nat (length sql) + 32) + table_price (answer E (Suc k) D rs res) < n"
  shows "\<exists>p s' B. dbman_sql_execute E sql s = Ret (p, s') \<and> p \<noteq> 0 \<and> result_at (d_objs s') p (answer E (Suc k) D rs res) B
    \<and> minv s' (A \<union> set B) (n - cost SZ_cmd - cost (of_nat (length sql) + 32) - table_price (answer E (Suc k) D rs res)) \<and> set B \<inter> A = {} \<and> distinct B"
proof -
  let ?T = "answer E (Suc k) D rs res" and ?n = "n - cost SZ_cmd - cost (of_nat (length sql) + 32)"
  obtain cmd t s1 where 1: "make_cmd E 0 sql NullFn s = Ret (Some cmd, s1)" "cmd \<noteq> t" "cmd \<notin> A" "t \<notin> A" "cmd \<noteq> 0"
    "dinv D k s1 (insert t (insert cmd A)) ?n" "d_objs s1 t = Some (DText (sql @ replicate 32 0))"
    "d_objs s1 cmd = Some (DCmd \<lparr>cm_res = 0, cm_xid = 0, cm_cmd = t, cm_len = of_nat (length sql), cm_res_f = NullFn, cm_result_list = 0, cm_sig = 0\<rparr>)"
    by (rule make_cmd_law [OF inv sql(3)]) (use n in auto)
  let ?A = "insert t (insert cmd A)" and ?c = "\<lparr>cm_res = 0, cm_xid = 0, cm_cmd = t, cm_len = of_nat (length sql), cm_res_f = NullFn, cm_result_list = 0, cm_sig = 0\<rparr>"
  have nn: "table_price ?T < ?n" using n by simp
  from proc_law [OF 1(6) _ 1(5,8) _ _ _ _ sql(2) sq ok nn] 1(2,7) obtain p s2 B where
    2: "dbman_proc E DB_CMD_COMMAND cmd s1 = Ret (0, s2)" "p \<noteq> 0" "result_at (d_objs s2) p ?T B" "minv s2 (?A \<union> set B) (?n - table_price ?T)" "set B \<inter> ?A = {}" "distinct B"
    "d_objs s2 cmd = Some (DCmd (?c\<lparr>cm_res := tb_ret ?T, cm_result_list := p\<rparr>))" by auto
  let ?d = "?c\<lparr>cm_res := tb_ret ?T, cm_result_list := p\<rparr>"
  have l: "dload the_dcmd cmd s2 = Ret ?d" by (rule minv_load [OF 2(4) _ 2(7)]) simp_all
  from free_cmd_law [OF 2(4) _ 2(7)] 1(2) obtain s3 where 3: "free_cmd cmd s2 = Ret s3" "minv s3 (?A \<union> set B - {cmd, t}) (?n - table_price ?T)" "d_objs s3 = d_objs s2" by auto
  have "?A \<union> set B - {cmd, t} = A \<union> set B" using 1(3,4) 2(5) by auto
  then have m: "minv s3 (A \<union> set B) (?n - table_price ?T)" using 3(2) by simp
  have "db_inited s \<noteq> 0" using inv by (simp add: dinv_def)
  then have "dbman_sql_execute E sql s = Ret (p, s3)" using sql(1) 1(1) 2(1) l 3(1) by (simp add: dbman_sql_execute_def)
  then show ?thesis using 2(2,3,5,6) 3(3) m by (intro exI [of _ p] exI [of _ s3] exI [of _ B]) simp
qed

end

end
