(* ===== verification/Db_Chan.thy ===== *)
theory Db_Chan
  imports Db_Server
begin

text \<open>
  The table of channels of the database server (\<open>dbman_current_channel_port_set\<close> in lib/src/dblib_net.c) as a
  map from ports to channels with room for five entries, and the upcall of the server port as steps of that map.
\<close>

section \<open>The map\<close>

definition in_use :: "chan_port list \<Rightarrow> chan_port list" where
  "in_use ps = filter (\<lambda>x. cp_avail x = 1) ps"

definition chan_map :: "chan_port list \<Rightarrow> u32 \<rightharpoonup> u32" where
  "chan_map ps = map_of (map (\<lambda>x. (cp_portid x, cp_channelid x)) (in_use ps))"

text \<open>The type of the table: its five entries are free or in use, and no port is in use twice.\<close>

definition slots_ok :: "chan_port list \<Rightarrow> bool" where
  "slots_ok ps \<longleftrightarrow> length ps = DBMAN_MAX_CLIENTS \<and> (\<forall>x \<in> set ps. cp_avail x = 0 \<or> cp_avail x = 1) \<and> distinct (map cp_portid (in_use ps))"

lemma first_slot_Some: "first_slot P xs = Some i \<longleftrightarrow> i < length xs \<and> P (xs ! i) \<and> (\<forall>j < i. \<not> P (xs ! j))"
proof (induction xs arbitrary: i)
  case (Cons x xs)
  then show ?case by (cases i) (auto simp: nth_Cons split: nat.splits)
qed simp

lemma first_slot_None: "first_slot P xs = None \<longleftrightarrow> (\<forall>x \<in> set xs. \<not> P x)"
  by (induction xs) auto

lemma chan_map_slot: "chan_map ps port = map_option (\<lambda>i. cp_channelid (ps ! i)) (first_slot (used_by port) ps)"
  by (induction ps) (auto simp: chan_map_def in_use_def used_by_def option.map_comp comp_def)

lemma dom_chan_map: "dom (chan_map ps) = set (map cp_portid (in_use ps))"
  by (simp add: chan_map_def dom_map_of_conv_image_fst image_image)

lemma card_chan_map: "slots_ok ps \<Longrightarrow> card (dom (chan_map ps)) = length (in_use ps)"
  unfolding dom_chan_map slots_ok_def using distinct_card [of "map cp_portid (in_use ps)"] by simp

lemma all_in_use: "length (in_use ps) = length ps \<longleftrightarrow> (\<forall>x \<in> set ps. cp_avail x = 1)"
proof (induction ps)
  case (Cons x ps)
  have "length (in_use ps) \<le> length ps" by (simp add: in_use_def)
  then have "length (in_use ps) \<noteq> Suc (length ps)" by simp
  then show ?case using Cons by (cases "cp_avail x = 1") (simp_all add: in_use_def)
qed (simp add: in_use_def)

lemma room_iff:
  assumes "slots_ok ps"
  shows "first_slot (\<lambda>x. cp_avail x = 0) ps = None \<longleftrightarrow> card (dom (chan_map ps)) = DBMAN_MAX_CLIENTS"
proof -
  have l: "length ps = DBMAN_MAX_CLIENTS" and a: "\<forall>x \<in> set ps. cp_avail x = 0 \<or> cp_avail x = 1" using assms by (auto simp: slots_ok_def)
  have "first_slot (\<lambda>x. cp_avail x = 0) ps = None \<longleftrightarrow> (\<forall>x \<in> set ps. cp_avail x = 1)" unfolding first_slot_None using a by fastforce
  also have "\<dots> \<longleftrightarrow> length (in_use ps) = length ps" by (simp only: all_in_use)
  finally show ?thesis using l card_chan_map [OF assms] by simp
qed

lemma room_bound: "slots_ok ps \<Longrightarrow> card (dom (chan_map ps)) \<le> DBMAN_MAX_CLIENTS"
  using length_filter_le [of "\<lambda>x. cp_avail x = 1" ps] by (simp add: card_chan_map in_use_def slots_ok_def [of ps])

text \<open>One entry taken, one entry freed.\<close>

lemma take_slot:
  assumes ok: "slots_ok ps" and i: "i < length ps" "cp_avail (ps ! i) = 0" and port: "port \<notin> dom (chan_map ps)"
    and x: "cp_portid x = port" "cp_channelid x = channel" "cp_avail x = 1"
  shows "slots_ok (ps[i := x])" "chan_map (ps[i := x]) = (chan_map ps)(port \<mapsto> channel)"
proof -
  obtain us vs where ps: "ps = us @ ps ! i # vs" "length us = i" using i(1) by (metis id_take_nth_drop length_take min.absorb4)
  let ?y = "ps ! i"
  have up: "ps[i := x] = us @ x # vs" using ps by (metis list_update_length)
  have u: "in_use ps = in_use us @ in_use vs" by (subst ps(1)) (simp add: in_use_def i(2))
  have v: "in_use (ps[i := x]) = in_use us @ x # in_use vs" unfolding up by (simp add: in_use_def x(3))
  have np: "port \<notin> cp_portid ` set (in_use us)" "port \<notin> cp_portid ` set (in_use vs)" using port unfolding dom_chan_map u by auto
  have "\<forall>y \<in> set (ps[i := x]). cp_avail y = 0 \<or> cp_avail y = 1" using ok x(3) set_update_subset_insert [of ps i x] by (auto simp: slots_ok_def)
  then show "slots_ok (ps[i := x])" using ok np x(1) unfolding slots_ok_def u v by auto
  have "map_of (map (\<lambda>x. (cp_portid x, cp_channelid x)) (in_use us)) port = None" using np(1) by (auto simp: map_of_eq_None_iff)
  then show "chan_map (ps[i := x]) = (chan_map ps)(port \<mapsto> channel)" unfolding chan_map_def u v using x by (auto simp: map_add_def fun_eq_iff split: option.split)
qed

lemma free_slot:
  assumes ok: "slots_ok ps" and i: "i < length ps" "used_by port (ps ! i)" and x: "cp_avail x = 0"
  shows "slots_ok (ps[i := x])" "chan_map (ps[i := x]) = (chan_map ps)(port := None)"
proof -
  obtain us vs where ps: "ps = us @ ps ! i # vs" "length us = i" using i(1) by (metis id_take_nth_drop length_take min.absorb4)
  have up: "ps[i := x] = us @ x # vs" using ps by (metis list_update_length)
  have u: "in_use ps = in_use us @ ps ! i # in_use vs" using i(2) by (subst ps(1)) (simp add: in_use_def used_by_def)
  have v: "in_use (ps[i := x]) = in_use us @ in_use vs" unfolding up by (simp add: in_use_def x)
  have np: "port \<notin> cp_portid ` set (in_use us)" "port \<notin> cp_portid ` set (in_use vs)" using ok i(2) unfolding slots_ok_def u used_by_def by auto
  have "\<forall>y \<in> set (ps[i := x]). cp_avail y = 0 \<or> cp_avail y = 1" using ok x set_update_subset_insert [of ps i x] by (auto simp: slots_ok_def)
  then show "slots_ok (ps[i := x])" using ok unfolding slots_ok_def u v by auto
  have "map_of (map (\<lambda>x. (cp_portid x, cp_channelid x)) (in_use us)) port = None" "map_of (map (\<lambda>x. (cp_portid x, cp_channelid x)) (in_use vs)) port = None"
    using np by (auto simp: map_of_eq_None_iff)
  then show "chan_map (ps[i := x]) = (chan_map ps)(port := None)" unfolding chan_map_def u v using i(2)
    by (auto simp: map_add_def fun_eq_iff used_by_def split: option.split)
qed

section \<open>The operations\<close>

lemma channel_insert_law:
  assumes "slots_ok (port_set s)" "port \<notin> dom (chan_map (port_set s))"
  shows "if card (dom (chan_map (port_set s))) < DBMAN_MAX_CLIENTS
    then \<exists>s'. dbman_new_comm_channel_insert port channel s = (1, s') \<and> slots_ok (port_set s')
      \<and> chan_map (port_set s') = (chan_map (port_set s))(port \<mapsto> channel) \<and> d_os s' = d_os s
    else dbman_new_comm_channel_insert port channel s = (0, s)"
proof (cases "first_slot (\<lambda>x. cp_avail x = 0) (port_set s)")
  case None
  then show ?thesis using room_iff [OF assms(1)] by (simp add: dbman_new_comm_channel_insert_def)
next
  case (Some i)
  then have i: "i < length (port_set s)" "cp_avail (port_set s ! i) = 0" by (auto simp: first_slot_Some)
  have "card (dom (chan_map (port_set s))) < DBMAN_MAX_CLIENTS" using Some room_iff [OF assms(1)] room_bound [OF assms(1)] by simp
  then show ?thesis
    using Some take_slot [OF assms(1) i assms(2), where channel = channel and x = "(port_set s ! i)\<lparr>cp_portid := port, cp_channelid := channel, cp_avail := 1\<rparr>"]
    by (simp add: dbman_new_comm_channel_insert_def upd_slot_def)
qed

text \<open>What the upcall does with the index it gets from a search.\<close>

definition found_channel :: "u32 \<Rightarrow> db_state \<Rightarrow> u32 option" where
  "found_channel port s =
     (let index = dbman_new_comm_channel_search port s in
      if index = 0 then None else Some (cp_channelid (port_set s ! unat (index - 1))))"

lemma channel_search_law:
  assumes "slots_ok (port_set s)"
  shows "found_channel port s = chan_map (port_set s) port" "unat (dbman_new_comm_channel_search port s) \<le> DBMAN_MAX_CLIENTS"
proof -
  have i: "unat (of_nat (i + 1) :: u32) = i + 1 \<and> unat (of_nat (i + 1) - 1 :: u32) = i" if "i < 5" for i
  proof -
    from that consider "i = 0" | "i = 1" | "i = 2" | "i = 3" | "i = 4" by linarith
    then show ?thesis by cases simp_all
  qed
  have b: "first_slot (used_by port) (port_set s) = Some i \<Longrightarrow> i < 5" for i
    using assms by (auto simp: first_slot_Some slots_ok_def DBMAN_MAX_CLIENTS_def)
  show "found_channel port s = chan_map (port_set s) port"
  proof (cases "first_slot (used_by port) (port_set s)")
    case (Some j)
    then have "(of_nat (j + 1) :: u32) \<noteq> 0" using i [OF b [OF Some]] by (metis add_is_0 one_neq_zero unsigned_0)
    then show ?thesis using Some i [OF b [OF Some]] by (simp add: found_channel_def dbman_new_comm_channel_search_def chan_map_slot Let_def)
  qed (simp add: found_channel_def dbman_new_comm_channel_search_def chan_map_slot)
  show "unat (dbman_new_comm_channel_search port s) \<le> DBMAN_MAX_CLIENTS"
    using b i by (auto simp: dbman_new_comm_channel_search_def DBMAN_MAX_CLIENTS_def Suc_le_eq split: option.split)
qed

text \<open>States of the library below on which the flush of a channel returns.\<close>

definition flushes :: "db_env \<Rightarrow> (os_state \<Rightarrow> bool) \<Rightarrow> bool" where
  "flushes E G \<longleftrightarrow> (\<forall>c o1. G o1 \<longrightarrow> (\<exists>r o2. net_channel_flush (de_os E) c o1 = Ret (r, o2) \<and> G o2))"

lemma channel_delete_law:
  assumes "slots_ok (port_set s)" "flushes E G" "G (d_os s)"
  shows "\<exists>s'. dbman_new_comm_channel_delete E port s = Ret (if port \<in> dom (chan_map (port_set s)) then 1 else 0, s') \<and> slots_ok (port_set s')
    \<and> chan_map (port_set s') = (chan_map (port_set s))(port := None) \<and> G (d_os s')"
proof (cases "first_slot (used_by port) (port_set s)")
  case None
  then have "chan_map (port_set s) port = None" by (simp add: chan_map_slot)
  then have "chan_map (port_set s) = (chan_map (port_set s))(port := None)" "port \<notin> dom (chan_map (port_set s))" by auto
  then show ?thesis using None assms(1,3) by (intro exI [of _ s]) (simp add: dbman_new_comm_channel_delete_def)
next
  case (Some i)
  then have i: "i < length (port_set s)" "used_by port (port_set s ! i)" by (auto simp: first_slot_Some)
  have d: "port \<in> dom (chan_map (port_set s))" using Some by (simp add: domIff chan_map_slot)
  obtain r o2 where f: "net_channel_flush (de_os E) (cp_channelid (port_set s ! i)) (d_os s) = Ret (r, o2)" "G o2" using assms(2,3) unfolding flushes_def by blast
  let ?s = "upd_slot i (\<lambda>x. x\<lparr>cp_avail := 0\<rparr>) (s\<lparr>d_os := o2\<rparr>)"
  have "dbman_new_comm_channel_delete E port s = Ret (1, ?s)" using Some f(1) by (simp add: dbman_new_comm_channel_delete_def db_os_def)
  then show ?thesis using d f(2) free_slot [OF assms(1) i, of "(port_set s ! i)\<lparr>cp_avail := 0\<rparr>"] by (intro exI [of _ ?s]) (simp add: upd_slot_def)
qed

section \<open>Sequences\<close>

datatype chan_op = ChanAdd u32 u32 | ChanFind u32 | ChanDrop u32

fun chan_step :: "db_env \<Rightarrow> chan_op \<Rightarrow> u32 option dbm" where
  "chan_step E (ChanAdd port channel) s = (case dbman_new_comm_channel_insert port channel s of (r, s) \<Rightarrow> Ret (Some r, s))"
| "chan_step E (ChanFind port) s = Ret (found_channel port s, s)"
| "chan_step E (ChanDrop port) s = obind (dbman_new_comm_channel_delete E port s) (\<lambda>(r, s). Ret (Some r, s))"

fun chan_run :: "db_env \<Rightarrow> chan_op list \<Rightarrow> u32 option list dbm" where
  "chan_run E [] s = Ret ([], s)"
| "chan_run E (x # xs) s = obind (chan_step E x s) (\<lambda>(r, s). obind (chan_run E xs s) (\<lambda>(rs, s). Ret (r # rs, s)))"

fun spec_step :: "chan_op \<Rightarrow> (u32 \<rightharpoonup> u32) \<Rightarrow> u32 option \<times> (u32 \<rightharpoonup> u32)" where
  "spec_step (ChanAdd port channel) m = (if card (dom m) < DBMAN_MAX_CLIENTS then (Some 1, m(port \<mapsto> channel)) else (Some 0, m))"
| "spec_step (ChanFind port) m = (m port, m)"
| "spec_step (ChanDrop port) m = (Some (if port \<in> dom m then 1 else 0), m(port := None))"

fun spec_run :: "chan_op list \<Rightarrow> (u32 \<rightharpoonup> u32) \<Rightarrow> u32 option list \<times> (u32 \<rightharpoonup> u32)" where
  "spec_run [] m = ([], m)"
| "spec_run (x # xs) m = (case spec_step x m of (r, m) \<Rightarrow> case spec_run xs m of (rs, m) \<Rightarrow> (r # rs, m))"

text \<open>The network library names a port once while it is open.\<close>

fun adds_new :: "chan_op list \<Rightarrow> (u32 \<rightharpoonup> u32) \<Rightarrow> bool" where
  "adds_new [] m \<longleftrightarrow> True"
| "adds_new (x # xs) m \<longleftrightarrow> (case x of ChanAdd port channel \<Rightarrow> port \<notin> dom m | _ \<Rightarrow> True) \<and> adds_new xs (snd (spec_step x m))"

lemma chan_step_law:
  assumes "slots_ok (port_set s)" "flushes E G" "G (d_os s)" "adds_new [x] (chan_map (port_set s))"
  shows "\<exists>r s'. chan_step E x s = Ret (r, s') \<and> slots_ok (port_set s') \<and> G (d_os s') \<and> spec_step x (chan_map (port_set s)) = (r, chan_map (port_set s'))"
proof (cases x)
  case (ChanAdd port channel)
  then have "port \<notin> dom (chan_map (port_set s))" using assms(4) by simp
  from channel_insert_law [OF assms(1) this, of channel] show ?thesis using ChanAdd assms(1,3)
    by (cases "card (dom (chan_map (port_set s))) < DBMAN_MAX_CLIENTS") auto
next
  case (ChanFind port)
  then show ?thesis using channel_search_law(1) [OF assms(1)] assms(1,3) by simp
next
  case (ChanDrop port)
  from channel_delete_law [OF assms(1-3), of port] obtain s' where
    "dbman_new_comm_channel_delete E port s = Ret (if port \<in> dom (chan_map (port_set s)) then 1 else 0, s')" "slots_ok (port_set s')"
    "chan_map (port_set s') = (chan_map (port_set s))(port := None)" "G (d_os s')" by blast
  then show ?thesis using ChanDrop by simp
qed

lemma chan_run_law:
  assumes "slots_ok (port_set s)" "flushes E G" "G (d_os s)" "adds_new xs (chan_map (port_set s))"
  shows "\<exists>rs s'. chan_run E xs s = Ret (rs, s') \<and> slots_ok (port_set s') \<and> spec_run xs (chan_map (port_set s)) = (rs, chan_map (port_set s'))"
  using assms
proof (induction xs arbitrary: s)
  case (Cons x xs)
  from chan_step_law [OF Cons.prems(1-3), of x] Cons.prems(4) obtain r s1 where
    1: "chan_step E x s = Ret (r, s1)" "slots_ok (port_set s1)" "G (d_os s1)" "spec_step x (chan_map (port_set s)) = (r, chan_map (port_set s1))" by auto
  from Cons.IH [OF 1(2) Cons.prems(2) 1(3)] Cons.prems(4) 1(4) obtain rs s2 where
    "chan_run E xs s1 = Ret (rs, s2)" "slots_ok (port_set s2)" "spec_run xs (chan_map (port_set s1)) = (rs, chan_map (port_set s2))" by auto
  then show ?case using 1 by simp
qed simp

section \<open>The upcall of the server port\<close>

text \<open>Calls of the library below that return, and stay, on the states \<open>G\<close>; the calls the upcall makes.\<close>

definition returns :: "(os_state \<Rightarrow> bool) \<Rightarrow> 'a os \<Rightarrow> bool" where
  "returns G f \<longleftrightarrow> (\<forall>o1. G o1 \<longrightarrow> (\<exists>r o2. f o1 = Ret (r, o2) \<and> G o2))"

definition lib_returns :: "db_env \<Rightarrow> (os_state \<Rightarrow> bool) \<Rightarrow> bool" where
  "lib_returns E G \<longleftrightarrow> flushes E G
     \<and> returns G (net_channel_create (de_os E) (de_net E) DBSVR_BUFF_CLASS_ID DB_SERVER_CHANNEL_NUMBER)
     \<and> (\<forall>port chan. returns G (net_channel_register (de_os E) port chan))
     \<and> (\<forall>chan. returns G (net_channel_delete (de_os E) chan))
     \<and> (\<forall>a. returns G (os_thread_create (de_os E) ''DBchanSrvc'' (de_client_server E) a 0 0))
     \<and> (\<forall>port o1. G o1 \<longrightarrow> (\<exists>p o2. net_port_search port o1 = Ret p \<and> net_port_bcast_channel (de_os E) (de_net E) p o1 = Ret o2 \<and> G o2))"

text \<open>What the library says to the upcall: the channel of an accepted port, the thread of a new one.\<close>

definition accepted :: "db_env \<Rightarrow> u32 \<Rightarrow> os_state \<Rightarrow> u32 option" where
  "accepted E port o1 =
     (case net_channel_create (de_os E) (de_net E) DBSVR_BUFF_CLASS_ID DB_SERVER_CHANNEL_NUMBER o1 of
        Ret (chan, o2) \<Rightarrow>
          if chan = ERROR then None
          else (case net_channel_register (de_os E) port chan o2 of Ret (r, o3) \<Rightarrow> if r = ERROR then None else Some chan | Fault _ \<Rightarrow> None)
      | Fault _ \<Rightarrow> None)"

definition runner :: "db_env \<Rightarrow> addr \<Rightarrow> u32 \<Rightarrow> db_state \<Rightarrow> u32 option" where
  "runner E slot_addr port s =
     (case first_slot (used_by port) (port_set s) of
        None \<Rightarrow> None
      | Some i \<Rightarrow> (case os_thread_create (de_os E) ''DBchanSrvc'' (de_client_server E) (slot_addr + 32 * of_nat i) 0 0 (d_os s) of
                    Ret (thr, o2) \<Rightarrow> Some thr | Fault _ \<Rightarrow> None))"

text \<open>The map after an upcall.\<close>

definition upcall_map :: "db_env \<Rightarrow> addr \<Rightarrow> u32 \<Rightarrow> u32 \<Rightarrow> u32 \<Rightarrow> db_state \<Rightarrow> u32 \<rightharpoonup> u32" where
  "upcall_map E slot_addr portid command new s =
     (let m = chan_map (port_set s) in
      if command = NET_MESG_ACCEPT
      then (case accepted E new (d_os s) of Some chan \<Rightarrow> if card (dom m) < DBMAN_MAX_CLIENTS then m(new \<mapsto> chan) else m | None \<Rightarrow> m)
      else if command = NET_MESG_NEW_PORT then (if runner E slot_addr new s = Some ERROR then m(new := None) else m)
      else if command = NET_MESG_DEL_PORT then m(portid := None)
      else m)"

definition served :: "u32 \<Rightarrow> u32 \<Rightarrow> db_state \<Rightarrow> bool" where
  "served port thr s \<longleftrightarrow> (\<exists>x \<in> set (port_set s). used_by port x \<and> cp_exec_continue x = 1 \<and> cp_thr x = thr)"

text \<open>A state as the upcall leaves it.\<close>

definition upcall_done :: "(os_state \<Rightarrow> bool) \<Rightarrow> (u32 \<rightharpoonup> u32) \<Rightarrow> db_state \<Rightarrow> bool" where
  "upcall_done G m s \<longleftrightarrow> \<not> port_set_lock s \<and> slots_ok (port_set s) \<and> chan_map (port_set s) = m \<and> G (d_os s)"

lemma db_os_returns:
  "returns G f \<Longrightarrow> G (d_os s) \<Longrightarrow> \<exists>r o2. f (d_os s) = Ret (r, o2) \<and> db_os f s = Ret (r, s\<lparr>d_os := o2\<rparr>) \<and> G o2"
  by (force simp: returns_def db_os_def)

lemma db_os_at: "returns G f \<Longrightarrow> G o1 \<Longrightarrow> \<exists>r o2. f o1 = Ret (r, o2) \<and> (\<forall>t. d_os t = o1 \<longrightarrow> db_os f t = Ret (r, t\<lparr>d_os := o2\<rparr>)) \<and> G o2"
  by (force simp: returns_def db_os_def)

lemma lib_returnsD:
  assumes "lib_returns E G"
  shows "flushes E G" "returns G (net_channel_create (de_os E) (de_net E) DBSVR_BUFF_CLASS_ID DB_SERVER_CHANNEL_NUMBER)"
    "returns G (net_channel_register (de_os E) port chan)" "returns G (net_channel_delete (de_os E) chan)"
    "returns G (os_thread_create (de_os E) ''DBchanSrvc'' (de_client_server E) a 0 0)"
    "G o1 \<Longrightarrow> \<exists>p o2. net_port_search port o1 = Ret p \<and> net_port_bcast_channel (de_os E) (de_net E) p o1 = Ret o2 \<and> G o2"
  using assms by (simp_all add: lib_returns_def)

lemma search_index:
  assumes "slots_ok (port_set s)"
  shows "first_slot (used_by port) (port_set s) = None \<Longrightarrow> dbman_new_comm_channel_search port s = 0"
    and "first_slot (used_by port) (port_set s) = Some i \<Longrightarrow>
      dbman_new_comm_channel_search port s \<noteq> 0 \<and> unat (dbman_new_comm_channel_search port s - 1) = i \<and> i < length (port_set s)"
proof -
  assume i: "first_slot (used_by port) (port_set s) = Some i"
  then have l: "i < length (port_set s)" by (simp add: first_slot_Some)
  then have "i < 5" using assms by (simp add: slots_ok_def DBMAN_MAX_CLIENTS_def)
  then consider "i = 0" | "i = 1" | "i = 2" | "i = 3" | "i = 4" by linarith
  then have "(of_nat (i + 1) :: u32) \<noteq> 0 \<and> unat (of_nat (i + 1) - 1 :: u32) = i" by cases simp_all
  moreover have "dbman_new_comm_channel_search port s = of_nat (i + 1)" by (simp only: dbman_new_comm_channel_search_def i option.case)
  ultimately show "dbman_new_comm_channel_search port s \<noteq> 0 \<and> unat (dbman_new_comm_channel_search port s - 1) = i \<and> i < length (port_set s)"
    using l by (simp only: simp_thms)
qed (simp add: dbman_new_comm_channel_search_def)

text \<open>Changes of the flag and of the thread of an entry are not seen by the map.\<close>

lemma in_use_update:
  assumes "\<And>x. cp_avail (f x) = cp_avail x \<and> cp_portid (f x) = cp_portid x \<and> cp_channelid (f x) = cp_channelid x"
  shows "map (\<lambda>x. (cp_portid x, cp_channelid x)) (in_use (ps[i := f (ps ! i)])) = map (\<lambda>x. (cp_portid x, cp_channelid x)) (in_use ps)"
proof (induction ps arbitrary: i)
  case (Cons x ps)
  then show ?case using assms by (cases i) (simp_all add: in_use_def)
qed (simp add: in_use_def)

lemma upd_slot_map:
  assumes "\<And>x. cp_avail (f x) = cp_avail x \<and> cp_portid (f x) = cp_portid x \<and> cp_channelid (f x) = cp_channelid x"
  shows "chan_map (port_set (upd_slot i f s)) = chan_map (port_set s)" "slots_ok (port_set s) \<Longrightarrow> slots_ok (port_set (upd_slot i f s))"
proof -
  have m: "map (\<lambda>x. (cp_portid x, cp_channelid x)) (in_use (port_set (upd_slot i f s))) = map (\<lambda>x. (cp_portid x, cp_channelid x)) (in_use (port_set s))"
    by (simp add: upd_slot_def in_use_update assms)
  then show "chan_map (port_set (upd_slot i f s)) = chan_map (port_set s)" by (simp add: chan_map_def)
  have "map cp_portid (in_use (port_set (upd_slot i f s))) = map cp_portid (in_use (port_set s))"
    using arg_cong [OF m, of "map fst"] by (simp add: comp_def)
  moreover have "\<forall>x \<in> set (port_set (upd_slot i f s)). cp_avail x = 0 \<or> cp_avail x = 1" if "\<forall>x \<in> set (port_set s). cp_avail x = 0 \<or> cp_avail x = 1"
  proof (cases "i < length (port_set s)")
    case True
    then have "cp_avail (f (port_set s ! i)) = 0 \<or> cp_avail (f (port_set s ! i)) = 1" using that assms by simp
    then show ?thesis using that set_update_subset_insert [of "port_set s" i "f (port_set s ! i)"] by (auto simp: upd_slot_def)
  next
    case False
    then have "(port_set s)[i := f (port_set s ! i)] = port_set s" by (intro list_update_beyond) simp
    then show ?thesis using that by (simp add: upd_slot_def)
  qed
  ultimately show "slots_ok (port_set s) \<Longrightarrow> slots_ok (port_set (upd_slot i f s))" by (simp add: slots_ok_def upd_slot_def)
qed

lemma upd_slot_used:
  "(\<And>x. cp_avail (f x) = cp_avail x \<and> cp_portid (f x) = cp_portid x \<and> cp_channelid (f x) = cp_channelid x) \<Longrightarrow>
   first_slot (used_by port) (port_set (upd_slot i f s)) = first_slot (used_by port) (port_set s)"
proof -
  assume f: "\<And>x. cp_avail (f x) = cp_avail x \<and> cp_portid (f x) = cp_portid x \<and> cp_channelid (f x) = cp_channelid x"
  have "first_slot (used_by port) (ps[i := f (ps ! i)]) = first_slot (used_by port) ps" for ps
    by (induction ps arbitrary: i) (auto simp: f used_by_def nth_Cons split: nat.splits)
  then show ?thesis by (simp add: upd_slot_def)
qed

lemma upd_slot_simps [simp]:
  "port_set_lock (upd_slot i f s) = port_set_lock s" "d_os (upd_slot i f s) = d_os s" "length (port_set (upd_slot i f s)) = length (port_set s)"
  "port_set (unlock_ports s) = port_set s" "d_os (unlock_ports s) = d_os s" "\<not> port_set_lock (unlock_ports s)"
  by (simp_all add: upd_slot_def unlock_ports_def)

lemma unlock_done: "upcall_done G m (unlock_ports s) \<longleftrightarrow> slots_ok (port_set s) \<and> chan_map (port_set s) = m \<and> G (d_os s)"
  by (simp add: upcall_done_def)

lemma accept_port_law:
  assumes "slots_ok (port_set s)" "\<not> port_set_lock s" "lib_returns E G" "G (d_os s)" "new \<notin> dom (chan_map (port_set s))"
  shows "\<exists>s'. accept_port E new s = Ret s' \<and> upcall_done G
    (case accepted E new (d_os s) of
       Some chan \<Rightarrow> if card (dom (chan_map (port_set s))) < DBMAN_MAX_CLIENTS then (chan_map (port_set s))(new \<mapsto> chan) else chan_map (port_set s)
     | None \<Rightarrow> chan_map (port_set s)) s'"
proof -
  note R = lib_returnsD [OF assms(3)]
  obtain chan o1 where c: "net_channel_create (de_os E) (de_net E) DBSVR_BUFF_CLASS_ID DB_SERVER_CHANNEL_NUMBER (d_os s) = Ret (chan, o1)"
    "db_os (net_channel_create (de_os E) (de_net E) DBSVR_BUFF_CLASS_ID DB_SERVER_CHANNEL_NUMBER) s = Ret (chan, s\<lparr>d_os := o1\<rparr>)" "G o1"
    using db_os_returns [OF R(2) assms(4)] by blast
  obtain r o2 where g: "net_channel_register (de_os E) new chan o1 = Ret (r, o2)"
    "db_os (net_channel_register (de_os E) new chan) (s\<lparr>d_os := o1\<rparr>) = Ret (r, s\<lparr>d_os := o2\<rparr>)" "G o2"
    using db_os_returns [OF R(3), of "s\<lparr>d_os := o1\<rparr>" new chan] c(3) by auto
  obtain r2 o3 where d: "\<And>t. d_os t = o2 \<Longrightarrow> db_os (net_channel_delete (de_os E) chan) t = Ret (r2, t\<lparr>d_os := o3\<rparr>)" "G o3"
    using db_os_at [OF R(4) g(3), of chan] by blast
  let ?t = "s\<lparr>d_os := o2, port_set_lock := True\<rparr>"
  have i: "if card (dom (chan_map (port_set s))) < DBMAN_MAX_CLIENTS
    then \<exists>s'. dbman_new_comm_channel_insert new chan ?t = (1, s') \<and> slots_ok (port_set s')
      \<and> chan_map (port_set s') = (chan_map (port_set s))(new \<mapsto> chan) \<and> d_os s' = o2
    else dbman_new_comm_channel_insert new chan ?t = (0, ?t)"
    using channel_insert_law [of ?t new chan] assms(1,5) by (simp cong: if_cong)
  consider "chan = ERROR" | "chan \<noteq> ERROR" "r = ERROR" | "chan \<noteq> ERROR" "r \<noteq> ERROR" "card (dom (chan_map (port_set s))) < DBMAN_MAX_CLIENTS"
    | "chan \<noteq> ERROR" "r \<noteq> ERROR" "\<not> card (dom (chan_map (port_set s))) < DBMAN_MAX_CLIENTS" by blast
  then show ?thesis
  proof cases
    case 1
    then show ?thesis using c assms(1,2) by (simp add: accept_port_def accepted_def upcall_done_def)
  next
    case 2
    then show ?thesis using c g d assms(1,2) by (simp add: accept_port_def accepted_def upcall_done_def)
  next
    case 3
    then obtain s' where "dbman_new_comm_channel_insert new chan ?t = (1, s')" "slots_ok (port_set s')"
      "chan_map (port_set s') = (chan_map (port_set s))(new \<mapsto> chan)" "d_os s' = o2" using i by auto
    then show ?thesis using 3 c g assms(2) by (simp add: accept_port_def accepted_def lock_ports_def unlock_done)
  next
    case 4
    then have "dbman_new_comm_channel_insert new chan ?t = (0, ?t)" using i by simp
    then show ?thesis using 4 c g d assms(1,2) by (simp add: accept_port_def accepted_def lock_ports_def unlock_done)
  qed
qed

text \<open>A table that is locked blocks the deletion of a port, from wherever it is called.\<close>

lemma drop_port_locked: "port_set_lock s \<Longrightarrow> drop_port E port s = Fault Blocked"
  by (simp add: drop_port_def lock_ports_def)

lemma drop_port_law:
  assumes "slots_ok (port_set s)" "\<not> port_set_lock s" "lib_returns E G" "G (d_os s)"
  shows "\<exists>s'. drop_port E port s = Ret s' \<and> upcall_done G ((chan_map (port_set s))(port := None)) s'"
proof (cases "first_slot (used_by port) (port_set s)")
  case None
  then have "chan_map (port_set s) port = None" by (simp add: chan_map_slot)
  then have m: "(chan_map (port_set s))(port := None) = chan_map (port_set s)" by auto
  have "dbman_new_comm_channel_search port (s\<lparr>port_set_lock := True\<rparr>) = 0" using search_index(1) [of "s\<lparr>port_set_lock := True\<rparr>" port] assms(1) None by simp
  then show ?thesis using assms m by (simp add: drop_port_def lock_ports_def unlock_done)
next
  case (Some i)
  note R = lib_returnsD [OF assms(3)]
  let ?l = "s\<lparr>port_set_lock := True\<rparr>" and ?f = "\<lambda>x. x\<lparr>cp_exec_continue := 0\<rparr>"
  let ?t = "upd_slot i ?f ?l"
  have ix: "dbman_new_comm_channel_search port ?l \<noteq> 0" "unat (dbman_new_comm_channel_search port ?l - 1) = i"
    using search_index(2) [of ?l port i] assms(1) Some by simp_all
  obtain p o1 where b: "net_port_search port (d_os s) = Ret p" "net_port_bcast_channel (de_os E) (de_net E) p (d_os s) = Ret o1" "G o1"
    using R(6) [OF assms(4)] by blast
  obtain r o2 where d: "db_os (net_channel_delete (de_os E) (cp_channelid (port_set ?t ! i))) (?t\<lparr>d_os := o1\<rparr>) = Ret (r, ?t\<lparr>d_os := o2\<rparr>)" "G o2"
    using db_os_returns [OF R(4), of "?t\<lparr>d_os := o1\<rparr>" "cp_channelid (port_set ?t ! i)"] b(3) by auto
  obtain r' s' where e: "dbman_new_comm_channel_delete E port (?t\<lparr>d_os := o2\<rparr>) = Ret (r', s')" "slots_ok (port_set s')"
    "chan_map (port_set s') = (chan_map (port_set ?t))(port := None)" "G (d_os s')"
    using channel_delete_law [of "?t\<lparr>d_os := o2\<rparr>" E G port] R(1) d(2) upd_slot_map(2) [of ?f ?l i] assms(1) by auto
  have "chan_map (port_set ?t) = chan_map (port_set s)" using upd_slot_map(1) [of ?f i ?l] by simp
  then show ?thesis using assms(2) ix b d(1) e by (simp add: drop_port_def lock_ports_def Let_def unlock_done)
qed

lemma start_port_law:
  assumes "slots_ok (port_set s)" "\<not> port_set_lock s" "lib_returns E G" "G (d_os s)"
    and "runner E slot_addr new s = Some ERROR \<Longrightarrow> \<forall>t. port_set_lock t \<longrightarrow> returns G (net_port_delete (nested_net E t) new)"
  shows "\<exists>s'. start_port E slot_addr new s = Ret s'
    \<and> upcall_done G (if runner E slot_addr new s = Some ERROR then (chan_map (port_set s))(new := None) else chan_map (port_set s)) s'
    \<and> (\<forall>thr. runner E slot_addr new s = Some thr \<and> thr \<noteq> ERROR \<longrightarrow> served new thr s')"
proof (cases "first_slot (used_by new) (port_set s)")
  case None
  then have "dbman_new_comm_channel_search new (s\<lparr>port_set_lock := True\<rparr>) = 0" using search_index(1) [of "s\<lparr>port_set_lock := True\<rparr>" new] assms(1) by simp
  then show ?thesis using assms None by (simp add: start_port_def lock_ports_def unlock_done runner_def)
next
  case (Some i)
  note R = lib_returnsD [OF assms(3)]
  let ?l = "s\<lparr>port_set_lock := True\<rparr>" and ?f = "\<lambda>x. x\<lparr>cp_exec_continue := 1\<rparr>"
  let ?t = "upd_slot i ?f ?l" and ?c = "cp_channelid (port_set s ! i)"
  have ix: "dbman_new_comm_channel_search new ?l \<noteq> 0" "unat (dbman_new_comm_channel_search new ?l - 1) = i" "i < length (port_set s)"
    using search_index(2) [of ?l new i] assms(1) Some by simp_all
  obtain thr o1 where c: "os_thread_create (de_os E) ''DBchanSrvc'' (de_client_server E) (slot_addr + 32 * of_nat i) 0 0 (d_os s) = Ret (thr, o1)"
    "db_os (os_thread_create (de_os E) ''DBchanSrvc'' (de_client_server E) (slot_addr + 32 * of_nat i) 0 0) ?t = Ret (thr, ?t\<lparr>d_os := o1\<rparr>)" "G o1"
    using db_os_returns [OF R(5), of ?t "slot_addr + 32 * of_nat i"] assms(4) by auto
  have run: "runner E slot_addr new s = Some thr" using Some c(1) by (simp add: runner_def)
  let ?g = "\<lambda>x. x\<lparr>cp_thr := thr\<rparr>"
  let ?u = "upd_slot i ?g (?t\<lparr>d_os := o1\<rparr>)"
  have ok: "slots_ok (port_set ?u)" "chan_map (port_set ?u) = chan_map (port_set s)"
    using upd_slot_map(1) [of ?f i ?l] upd_slot_map(1) [of ?g i "?t\<lparr>d_os := o1\<rparr>"]
      upd_slot_map(2) [of ?f ?l i] upd_slot_map(2) [of ?g "?t\<lparr>d_os := o1\<rparr>" i] assms(1) by simp_all
  show ?thesis
  proof (cases "thr = ERROR")
    case True
    obtain r o2 where d: "db_os (net_channel_delete (de_os E) ?c) ?u = Ret (r, ?u\<lparr>d_os := o2\<rparr>)" "G o2"
      using db_os_returns [OF R(4), of ?u ?c] c(3) by auto
    have "returns G (net_port_delete (nested_net E (?u\<lparr>d_os := o2\<rparr>)) new)" using assms(5) run True by simp
    from db_os_returns [OF this, of "?u\<lparr>d_os := o2\<rparr>"] d(2) obtain r2 o3 where
      p: "db_os (net_port_delete (nested_net E (?u\<lparr>d_os := o2\<rparr>)) new) (?u\<lparr>d_os := o2\<rparr>) = Ret (r2, ?u\<lparr>d_os := o3\<rparr>)" "G o3" by auto
    obtain r' s' where e: "dbman_new_comm_channel_delete E new (?u\<lparr>d_os := o3\<rparr>) = Ret (r', s')" "slots_ok (port_set s')"
      "chan_map (port_set s') = (chan_map (port_set ?u))(new := None)" "G (d_os s')"
      using channel_delete_law [of "?u\<lparr>d_os := o3\<rparr>" E G new] R(1) p(2) ok(1) by auto
    show ?thesis using assms(2) ix(1,2) c(2) d(1) p(1) e ok(2) True run by (simp add: start_port_def lock_ports_def Let_def unlock_done)
  next
    case False
    have "used_by new (port_set s ! i)" using Some by (simp add: first_slot_Some)
    then have "used_by new (port_set ?u ! i) \<and> cp_exec_continue (port_set ?u ! i) = 1 \<and> cp_thr (port_set ?u ! i) = thr"
      using ix(3) by (simp add: upd_slot_def used_by_def)
    then have "served new thr (unlock_ports ?u)" unfolding served_def using ix(3) nth_mem [of i "port_set ?u"] by auto
    then show ?thesis using assms(2) ix(1,2) c(2,3) ok False run by (simp add: start_port_def lock_ports_def Let_def unlock_done)
  qed
qed

text \<open>
  A port as the network library hands it to the upcall: it has a protocol and this upcall, and its packet handler is
  not started yet. Its deletion calls the upcall again.
\<close>

definition awaits_handler :: "db_env \<Rightarrow> u32 \<Rightarrow> os_state \<Rightarrow> bool" where
  "awaits_handler E port o1 \<longleftrightarrow> net_proto_ready o1 \<and> (\<exists>a p. os_obj_find (net_port_pool o1) port o1 = Ret a \<and> a \<noteq> 0
     \<and> load the_port a o1 = Ret p \<and> np_func p = 0 \<and> np_upcall p = de_port_callback E \<and> np_proto p \<noteq> NULL_PROTO)"

lemma nested_delete_blocks:
  assumes "awaits_handler E new o1" "port_set_lock t" "de_port_callback E \<noteq> 0"
  shows "net_port_delete (nested_net E t) new o1 = Fault Blocked"
proof -
  obtain a p where p: "net_proto_ready o1" "os_obj_find (net_port_pool o1) new o1 = Ret a" "a \<noteq> 0" "load the_port a o1 = Ret p"
    "np_func p = 0" "np_upcall p = de_port_callback E" "np_proto p \<noteq> NULL_PROTO" using assms(1) by (auto simp: awaits_handler_def)
  have "via_proto (np_proto p) (net_udp_close a) (net_tcp_close a) o1 = net_close_call a o1"
    using p by (auto simp: via_proto_def net_udp_close_def net_tcp_close_def split: net_protocol.split)
  moreover have "\<exists>r o2 q. net_close_call a o1 = Ret (r, o2) \<and> load the_port a o2 = Ret q \<and> np_upcall q = np_upcall p"
    using p(3,4) by (cases "np_status p = 0") (auto simp: net_close_call_def upd_port_def load_def tick_def split: option.splits)
  ultimately obtain r o2 q where "net_port_proto_close new o1 = Ret (r, o2)" "load the_port a o2 = Ret q" "np_upcall q = de_port_callback E"
    using p by (auto simp: net_port_proto_close_def with_proto_def)
  then show ?thesis using p assms(2,3) by (simp add: net_port_delete_def net_port_resource_cleanup_def nested_net_def drop_port_locked)
qed

lemma start_port_blocks:
  assumes "slots_ok (port_set s)" "\<not> port_set_lock s" "runner E slot_addr new s = Some ERROR" "G (d_os s)" "de_port_callback E \<noteq> 0"
    and "\<And>a. returns G (os_thread_create (de_os E) ''DBchanSrvc'' (de_client_server E) a 0 0)" "\<And>chan. returns G (net_channel_delete (de_os E) chan)"
    and "\<And>o1. G o1 \<Longrightarrow> awaits_handler E new o1"
  shows "start_port E slot_addr new s = Fault Blocked"
proof -
  obtain i where i: "first_slot (used_by new) (port_set s) = Some i" using assms(3) by (auto simp: runner_def split: option.splits)
  let ?l = "s\<lparr>port_set_lock := True\<rparr>"
  let ?t = "upd_slot i (\<lambda>x. x\<lparr>cp_exec_continue := 1\<rparr>) ?l"
  have ix: "dbman_new_comm_channel_search new ?l \<noteq> 0" "unat (dbman_new_comm_channel_search new ?l - 1) = i"
    using search_index(2) [of ?l new i] assms(1) i by simp_all
  obtain thr o1 where c: "os_thread_create (de_os E) ''DBchanSrvc'' (de_client_server E) (slot_addr + 32 * of_nat i) 0 0 (d_os s) = Ret (thr, o1)"
    "db_os (os_thread_create (de_os E) ''DBchanSrvc'' (de_client_server E) (slot_addr + 32 * of_nat i) 0 0) ?t = Ret (thr, ?t\<lparr>d_os := o1\<rparr>)" "G o1"
    using db_os_returns [OF assms(6), of ?t "slot_addr + 32 * of_nat i"] assms(4) by auto
  have thr: "thr = ERROR" using assms(3) i c(1) by (simp add: runner_def)
  let ?u = "upd_slot i (\<lambda>x. x\<lparr>cp_thr := ERROR\<rparr>) (?t\<lparr>d_os := o1\<rparr>)"
  obtain r o2 where d: "db_os (net_channel_delete (de_os E) (cp_channelid (port_set s ! i))) ?u = Ret (r, ?u\<lparr>d_os := o2\<rparr>)" "G o2"
    using db_os_returns [OF assms(7), of ?u "cp_channelid (port_set s ! i)"] c(3) by auto
  have "net_port_delete (nested_net E (?u\<lparr>d_os := o2\<rparr>)) new o2 = Fault Blocked"
    by (rule nested_delete_blocks) (use assms(5,8) d(2) in simp_all)
  then have "db_os (net_port_delete (nested_net E (?u\<lparr>d_os := o2\<rparr>)) new) (?u\<lparr>d_os := o2\<rparr>) = Fault Blocked" by (simp add: db_os_def)
  then show ?thesis using assms(2) ix c(2) d(1) thr by (simp add: start_port_def lock_ports_def Let_def)
qed

end
