(* ===== verification/Db_Server_Props.thy ===== *)
theory Db_Server_Props
  imports Db_Props Db_Exec Db_Chan
begin

text \<open>
  The properties of the database server of exts/sqlwrap (lib/src/dblib_net.c): from a command to the values the
  client is handed, the table of channels, and what the server cannot do.
\<close>

section \<open>A server with a database\<close>

text \<open>A sqlite that has one row of two columns for whatever it is asked.\<close>

definition row_env :: db_env where
  "row_env = db_demo_env\<lparr>sq_step := (\<lambda>n st. if n = 1 then SQLITE_ROW else SQLITE_DONE), sq_column_count := (\<lambda>n st. 2),
     sq_column_type := (\<lambda>n st i. if i = 0 then SQLITE_INTEGER else SQLITE_TEXT), sq_column_int := (\<lambda>n st i. 7),
     sq_column_text := (\<lambda>n st i. [104, 105])\<rparr>"

definition demo_db :: db_t where
  "demo_db = \<lparr>dt_name = DATABASE_FILENAME, dt_db = 1, dt_cmd_bcls = 7, dt_socket_port = 1092,
     dt_addr = \<lparr>ai_ip = 0, ai_port = 0, ai_addr = \<lparr>sin_family = 0, sin_port = 0, sin_addr = 0\<rparr>, ai_addrsize = 0\<rparr>,
     dt_serv_port = 0, dt_payload = DB_MAX_NETWORK_PAYLOAD\<rparr>"

definition server_demo :: db_state where
  "server_demo = db_demo\<lparr>d_os := hput 0x7000 (Uninit SZ_db) buff_state, d_objs := [0x7000 \<mapsto> DDb demo_db], db := 0x7000, db_inited := 1\<rparr>"

lemma server_demo_minv: "db_minv row_env server_demo {} 4096"
proof (rule db_minvI)
  have "objects (d_os server_demo) = {0x7000, 0x100, 0x180, 0x1a0, 0x200, 0x300, 0x500, 0x900, 0xa00, 0xc00}"
    by (auto simp: server_demo_def objects_def buff_heap_def)
  then have "card (objects (d_os server_demo)) \<le> 10" by (simp add: card_insert_if)
  then show "card (objects (d_os server_demo)) + 4096 \<le> 2 ^ 20" by simp
  have "class_env (hput 0x7000 (Uninit SZ_db) buff_state) buff_ghost demo_items [] demo_classes 7 0xc00 demo_class 0x900 (new_mutex ''one'') 0xa00 (new_mutex ''two'')"
    by (rule class_env_put) (use buff_demo_pool in \<open>auto simp: pool_at_def buff_heap_def\<close>)
  then show "pool_at (d_os server_demo) buff_ghost demo_items [] demo_classes (db_buffer_id server_demo) 0xc00 demo_class 0x900 (new_mutex ''one'') 0xa00 (new_mutex ''two'') [] []"
    using buff_demo_pool by (simp add: server_demo_def db_demo_def pool_at_def class_rep_def)
qed (simp_all add: row_env_def db_demo_env_def gap_env_ok gap_generous demo_class_def)

section \<open>From the command to the client\<close>

text \<open>C7. A command from the server to the client: whatever sqlite has to say - rows of numbers and non-empty
  texts of one width, and the code it ends with - is what the client is handed. \<open>dbman_sql_execute\<close> makes a
  result list, it is written to the payload of a packet, read by the client from there, its return value is the
  code of sqlite (0 for the end of the rows), and the traversal visits every value of every row once and in order.\<close>

theorem select_reaches_client:
  assumes "db_minv E1 s1 A1 n1" "dload the_ddb (db s1) s1 = Ret D" "db s1 \<notin> A1" "db_inited s1 \<noteq> 0"
    and "sql \<noteq> []" "0 \<notin> set sql" "length sql < 2 ^ 30"
    and "sq_prepare E1 (d_steps s1) (dt_db D) sql = (r, st)" "sqlite_yields E1 (Suc (d_steps s1)) st rs res"
    and "table_ok (answer E1 (Suc (d_steps s1)) D rs res)" "list_all (list_all val_ok) rs"
    and "cost SZ_cmd + cost (of_nat (length sql) + 32) + table_price (answer E1 (Suc (d_steps s1)) D rs res) + cost SZ_item_header < n1"
    and "table_size (answer E1 (Suc (d_steps s1)) D rs res) \<le> unat DB_PACKET_PAYLOAD_SZ" "length sp = unat DB_PACKET_PAYLOAD_SZ"
    and "db_minv E2 s2 A2 n2" "table_price (answer E1 (Suc (d_steps s1)) D rs res) < n2"
  shows "\<exists>p t1 sp' t2 q t3 vs. dbman_sql_execute E1 sql s1 = Ret (p, t1)
    \<and> dbman_sql_encrypt_result E1 (Some sp) DB_PACKET_PAYLOAD_SZ p t1 = Ret ((0, Some sp'), t2)
    \<and> dbman_sql_decrypt_result E2 (Some sp') DB_PACKET_PAYLOAD_SZ s2 = Ret (q, t3)
    \<and> dbman_result_error q t3 = Ret (if res = SQLITE_DONE then 0 else res)
    \<and> dbman_result_traverse True q t3 = Ret (0, vs) \<and> map (visit_val (d_objs t3)) vs = rows_visits 0 rs"
proof -
  let ?T = "answer E1 (Suc (d_steps s1)) D rs res" and ?n = "n1 - cost SZ_cmd - cost (of_nat (length sql) + 32)"
  have "room.dinv E1 D (d_steps s1) s1 A1 n1" using assms(1-4) by (simp add: room.dinv_def)
  from room.sql_execute_law [OF this assms(5-11)] assms(12) obtain p t1 B where
    1: "dbman_sql_execute E1 sql s1 = Ret (p, t1)" "result_at (d_objs t1) p ?T B" "db_minv E1 t1 (A1 \<union> set B) (?n - table_price ?T)" by auto
  have c: "cost SZ_item_header < ?n - table_price ?T" using assms(12) by simp
  have z: "length sp < 2 ^ 32" "unat DB_PACKET_PAYLOAD_SZ \<le> length sp" using assms(14) by (simp_all add: DB_PACKET_PAYLOAD_SZ_def DB_MAX_NETWORK_PAYLOAD_def)
  from table_transfer [OF assms(10) 1(2) _ 1(3) c assms(13) z(2,1) assms(15,16)] obtain sp' t2 q t3 B' where
    2: "dbman_sql_encrypt_result E1 (Some sp) DB_PACKET_PAYLOAD_SZ p t1 = Ret ((0, Some sp'), t2)"
    "dbman_sql_decrypt_result E2 (Some sp') DB_PACKET_PAYLOAD_SZ s2 = Ret (q, t3)" "result_at (d_objs t3) q ?T B'"
    "db_minv E2 t3 (A2 \<union> set B') (n2 - table_price ?T)" by auto
  have lv: "live t3 B'" by (rule room.minv_liveB [OF 2(4)]) simp
  from traverse_law [OF assms(10) 2(3) lv] obtain vs where
    3: "dbman_result_traverse True q t3 = Ret (0, vs)" "map (visit_val (d_objs t3)) vs = rows_visits 0 rs" by (auto simp: answer_simps)
  from 2(3) obtain m h B0 where l: "d_objs t3 q = Some (DList \<lparr>dl_ret = tb_ret ?T, dl_errmsg = m, dl_count = of_nat (length (tb_rows ?T)), dl_items = h\<rparr>)" "q \<in> set B'"
    by (elim result_atE) (auto split: if_splits)
  have "dbman_result_error q t3 = Ret (tb_ret ?T)" using l lv by (auto simp: dbman_result_error_def dload_def live_def)
  then show ?thesis using 1(1) 2(1,2) 3 by (auto simp: answer_simps)
qed

theorem select_reaches_client_witness:
  "\<exists>p t1 sp' t2 q t3 vs. dbman_sql_execute row_env [115] server_demo = Ret (p, t1)
    \<and> dbman_sql_encrypt_result row_env (Some (replicate 8128 0)) DB_PACKET_PAYLOAD_SZ p t1 = Ret ((0, Some sp'), t2)
    \<and> dbman_sql_decrypt_result db_demo_env (Some sp') DB_PACKET_PAYLOAD_SZ db_demo = Ret (q, t3) \<and> dbman_result_error q t3 = Ret 0
    \<and> dbman_result_traverse True q t3 = Ret (0, vs) \<and> map (visit_val (d_objs t3)) vs = [(0, 0, Some (DbInt 7)), (0, 1, Some (DbStr [104, 105]))]"
proof -
  let ?rs = "[[DbInt 7, DbStr [104, 105]]]"
  let ?T = "answer row_env (Suc (d_steps server_demo)) demo_db ?rs SQLITE_DONE"
  have k: "d_steps server_demo = 0" by (simp add: server_demo_def db_demo_def)
  have d: "dload the_ddb (db server_demo) server_demo = Ret demo_db" by (simp add: server_demo_def dload_def)
  have sq: "sq_prepare row_env (d_steps server_demo) (dt_db demo_db) [115] = (0, 1)" by (simp add: row_env_def db_demo_env_def)
  have yl: "sqlite_yields row_env (Suc (d_steps server_demo)) 1 ?rs SQLITE_DONE"
    unfolding k by (simp add: row_env_def SQLITE_ROW_def SQLITE_DONE_def)
  have ok: "table_ok ?T" by (simp add: table_ok_def answer_simps)
  have price: "table_price ?T < 1000" "cost SZ_cmd < 200" "cost 33 < 200" "cost SZ_item_header < 200"
    using CALC_ACTUAL_BUFF_SIZE_bounds [of 64] CALC_ACTUAL_BUFF_SIZE_bounds [of 32] CALC_ACTUAL_BUFF_SIZE_bounds [of 2] CALC_ACTUAL_BUFF_SIZE_bounds [of 48]
      CALC_ACTUAL_BUFF_SIZE_bounds [of 33] CALC_ACTUAL_BUFF_SIZE_bounds [of 10]
    by (simp_all add: answer_simps table_price_def row_price_def SZ_item_def SZ_column_def SZ_list_def SZ_cmd_def SZ_item_header_def)
  have sz: "table_size ?T = 112" "unat DB_PACKET_PAYLOAD_SZ = 8128"
    by (simp_all add: table_size_def answer_simps item_bytes_def le_bytes32_def DB_PACKET_PAYLOAD_SZ_def DB_MAX_NETWORK_PAYLOAD_def)
  have "table_price ?T < 4096" using price(1) by simp
  from select_reaches_client [OF server_demo_minv d _ _ _ _ _ sq yl ok _ _ _ _ db_demo_minv this, of "replicate 8128 0"] price sz
  show ?thesis by (simp add: server_demo_def)
qed

section \<open>The table of channels\<close>

text \<open>C16. The table of channels is a map from ports to channels with room for five: in every sequence of
  insertions, searches and deletions every call returns, an insertion is refused exactly when five ports are
  registered, a search finds exactly the registered ports, with the channel of the port, and a deletion removes
  the port and nothing else (ports are registered once while they are open; \<open>G\<close> are the states of the library
  below on which the flush of a channel returns).\<close>

theorem channel_table_follows_map:
  assumes "slots_ok (port_set s)" "flushes E G" "G (d_os s)" "adds_new xs (chan_map (port_set s))"
  shows "\<exists>rs s'. chan_run E xs s = Ret (rs, s') \<and> slots_ok (port_set s') \<and> spec_run xs (chan_map (port_set s)) = (rs, chan_map (port_set s'))"
  by (rule chan_run_law [OF assms])

definition no_channels :: "os_state \<Rightarrow> bool" where
  "no_channels o1 \<longleftrightarrow> (\<exists>l. load the_list (net_channel_pool o1) o1 = Ret l \<and> ol_data l = 0)"

definition chan_demo :: db_state where
  "chan_demo = db_demo\<lparr>d_os := hput 0x7100 (ListObj (list_rec ''CHAN'' False [])) (buff_state\<lparr>net_channel_pool := 0x7100\<rparr>)\<rparr>"

lemma no_channels_flush: "flushes E no_channels"
proof -
  have "net_channel_flush (de_os E) c o1 = Ret (ERROR, o1)" if "no_channels o1" for c o1
    using that by (auto simp: no_channels_def net_channel_flush_def os_obj_find_def os_list_find_def)
  then show ?thesis by (simp add: flushes_def)
qed

theorem channel_table_follows_map_witness:
  "\<exists>s'. chan_run db_demo_env [ChanAdd 11 21, ChanAdd 12 22, ChanFind 12, ChanDrop 11, ChanFind 11] chan_demo
     = Ret ([Some 1, Some 1, Some 22, Some 1, None], s')"
proof -
  let ?xs = "[ChanAdd 11 21, ChanAdd 12 22, ChanFind 12, ChanDrop 11, ChanFind 11]"
  have ok: "slots_ok (port_set chan_demo)" and m: "chan_map (port_set chan_demo) = Map.empty" and g: "no_channels (d_os chan_demo)"
    by (simp_all add: chan_demo_def db_demo_def slots_ok_def DBMAN_MAX_CLIENTS_def in_use_def chan_map_def no_channels_def load_def list_rec_def)
  have sp: "fst (spec_run ?xs Map.empty) = [Some 1, Some 1, Some 22, Some 1, None]" and ad: "adds_new ?xs Map.empty"
    by (simp_all add: DBMAN_MAX_CLIENTS_def)
  from channel_table_follows_map [OF ok no_channels_flush g, of ?xs db_demo_env] m ad obtain rs s' where
    "chan_run db_demo_env ?xs chan_demo = Ret (rs, s')" "spec_run ?xs Map.empty = (rs, chan_map (port_set s'))" by auto
  then show ?thesis using sp by (metis fst_conv)
qed


text \<open>A library without memory, classes, ports and channels: every call of the upcall returns and changes nothing.\<close>

definition empty_list :: "addr \<Rightarrow> os_state \<Rightarrow> bool" where
  "empty_list h o1 \<longleftrightarrow> (\<exists>l. load the_list h o1 = Ret l \<and> ol_data l = 0)"

definition bare :: "os_state \<Rightarrow> bool" where
  "bare o1 \<longleftrightarrow> \<not> os_mem_initialized o1 \<and> empty_list (net_channel_pool o1) o1 \<and> empty_list (net_port_pool o1) o1 \<and> empty_list (buffer_class_list o1) o1"

lemma empty_list_find: "empty_list h o1 \<Longrightarrow> os_list_find h f o1 = Ret 0" "empty_list h o1 \<Longrightarrow> os_obj_find h rid o1 = Ret 0"
  by (auto simp: empty_list_def os_obj_find_def os_list_find_def)



text \<open>One port in the table.\<close>

definition bare_demo :: db_state where
  "bare_demo = db_demo\<lparr>d_os := hput 0x7100 (ListObj (list_rec ''CHAN'' False []))
       (buff_state\<lparr>os_mem_initialized := False, net_channel_pool := 0x7100, net_port_pool := 0x7100, buffer_class_list := 0x7100\<rparr>),
     port_set := \<lparr>cp_portid = 11, cp_channelid = 21, cp_exec_continue = 0, cp_thr = 0, cp_avail = 1\<rparr>
       # replicate 4 \<lparr>cp_portid = 0, cp_channelid = 0, cp_exec_continue = 0, cp_thr = 0, cp_avail = 0\<rparr>\<rparr>"

lemma bare_demo_ok:
  "slots_ok (port_set bare_demo)" "\<not> port_set_lock bare_demo" "bare (d_os bare_demo)" "chan_map (port_set bare_demo) = [11 \<mapsto> 21]"
  by (simp_all add: bare_demo_def db_demo_def slots_ok_def DBMAN_MAX_CLIENTS_def in_use_def chan_map_def bare_def empty_list_def load_def list_rec_def)


text \<open>C38. When the thread for a new port cannot be started, the upcall deletes the port while it holds the lock of
  the table; a port that was just accepted has this upcall and no handler yet, so its deletion calls the upcall again,
  which waits for the lock its caller holds: the server never returns. (On the states \<open>G\<close> the creation of a thread and
  the deletion of a channel return and leave the new port as it is.)\<close>

theorem new_port_failure_deadlocks:
  assumes "slots_ok (port_set s)" "\<not> port_set_lock s" "runner E slot_addr new s = Some ERROR" "G (d_os s)" "de_port_callback E \<noteq> 0"
    and "\<And>a. returns G (os_thread_create (de_os E) ''DBchanSrvc'' (de_client_server E) a 0 0)" "\<And>chan. returns G (net_channel_delete (de_os E) chan)"
    and "\<And>o1. G o1 \<Longrightarrow> awaits_handler E new o1"
  shows "dbman_server_port_callback E slot_addr portid NET_MESG_NEW_PORT (Some new) s = Fault Blocked"
  using start_port_blocks [of s E slot_addr new G] assms by (simp add: dbman_server_port_callback_def NET_MESG_ACCEPT_def NET_MESG_NEW_PORT_def)

text \<open>A server that has accepted port 11 and has no memory left for a thread.\<close>

definition dead_os :: os_state where
  "dead_os = (d_os bare_demo)\<lparr>net_port_pool := 0x7200,
     heap := [0x7100 \<mapsto> ListObj (list_rec ''CHAN'' False []), 0x7200 \<mapsto> ListObj (list_rec NET_PORT_CLASS_NAME False [(0x7300, 11, 3, 0x7400)]),
       0x7300 \<mapsto> DataObj (node (11, 3, 0x7400) 0 0), 0x7400 \<mapsto> PortObj ((client_port 11 6)\<lparr>np_upcall := 2\<rparr>)]\<rparr>"

lemma dead_os_port: "awaits_handler db_demo_env 11 dead_os"
proof -
  have n: "load the_data 0x7300 dead_os = Ret (node (11, 3, 0x7400) 0 0)" by (simp add: load_def dead_os_def)
  have "os_list_find 0x7200 (os_obj_find_with_id 11) dead_os = Ret 0x7300"
    unfolding os_list_find_def using n
    by (simp add: while_o_step list_find_body_def os_obj_find_with_id_def load_def dead_os_def node_def)
  then have "os_obj_find (net_port_pool dead_os) 11 dead_os = Ret 0x7400" using n by (simp add: os_obj_find_def node_def) (simp add: dead_os_def)
  then show ?thesis by (simp add: awaits_handler_def) (simp add: dead_os_def load_def client_port_def db_demo_env_def bare_demo_def db_demo_def buff_state_def demo_state_def)
qed

theorem new_port_failure_deadlocks_witness:
  "dbman_server_port_callback db_demo_env 0x8000 5 NET_MESG_NEW_PORT (Some 11) (bare_demo\<lparr>d_os := dead_os\<rparr>) = Fault Blocked"
proof (rule new_port_failure_deadlocks [where G = "\<lambda>o1. o1 = dead_os"])
  have t: "os_thread_create E n f a d r dead_os = Ret (ERROR, dead_os)" for E n f a d r
    by (simp add: os_thread_create_def os_mem_alloc_def dead_os_def bare_demo_def)
  have "empty_list (net_channel_pool dead_os) dead_os" by (simp add: empty_list_def load_def dead_os_def bare_demo_def)
  then have c: "net_channel_delete E chan dead_os = Ret (ERROR, dead_os)" for E chan by (simp add: net_channel_delete_def empty_list_find)
  show "runner db_demo_env 0x8000 11 (bare_demo\<lparr>d_os := dead_os\<rparr>) = Some ERROR"
    using t by (simp add: runner_def) (simp add: bare_demo_def db_demo_def used_by_def)
  show "returns (\<lambda>o1. o1 = dead_os) (os_thread_create (de_os db_demo_env) ''DBchanSrvc'' (de_client_server db_demo_env) a 0 0)" for a
    using t by (simp add: returns_def)
  show "returns (\<lambda>o1. o1 = dead_os) (net_channel_delete (de_os db_demo_env) chan)" for chan using c by (simp add: returns_def)
qed (use bare_demo_ok dead_os_port in \<open>simp_all add: db_demo_env_def\<close>)

section \<open>What the server cannot do\<close>

text \<open>The service is never shut down: the command that would stop it is refused for the NULL it is given.\<close>

lemma shutdown_refused: "dbman_service_shutdown E s = Ret (-1, s)"
  by (simp add: dbman_service_shutdown_def dbman_proc_def)

end
