(* ===== verification/Spec2Isabelle.thy ===== *)
theory Spec2Isabelle
  imports List_Props Var_Props Queue_Props Thread_Props Net_Props Sys_Props Json_Props Json_Edit_Props Json_Shell_Props Mem_Space Db_Server_Props
begin

text \<open>
  Verification of three C libraries of this repository: the operating system kit under
  src/libs/sos/source/sos, the JSON library under src/libs/lsjson/source/lsjson and the SQL wrapper under
  src/exts/sqlwrap/source/sqlwrap/lib (file names below are relative to these directories).

  \<^bold>\<open>The kit.\<close> The kit gives its users numbered objects: threads, mutexes, condition variables,
  buffer classes, byte queues, message queues, network ports and channels, groups of ports. Every kind of
  object has a pool of resource ids (src/res.c), its objects lie in one memory region (src/mem.c) or in a
  buffer class (src/buff.c), and a doubly linked list (src/list.c) maps ids to objects. The layers call
  each other downwards: a message queue (src/msgq.c) is a byte queue (src/qbuff.c) with a condition
  variable (src/var.c); a port (src/net.c) has a protocol block (src/linux/proto.c), a thread
  (src/thread.c), a mutex, and delivers the packets it receives to the message queue of a channel; a group
  (src/sel.c) waits on several ports; the log (src/dbg.c) has a mutex and a thread; src/init.c starts all
  of it in order.

  \<^bold>\<open>The JSON library\<close> (json/json.c, inc/json.h, kits/mem.c, src/json\_main.c) parses a text into a tree of nodes, prints the
  tree as JSON, as XML and as a listing, lists and searches the paths of a tree, copies, deletes, purges and
  counts subtrees and merges a tree into another one. A node has a type, a name, a level, flags and three
  pointers: its first value, its next brother and a back pointer. All nodes, names and path lists are
  blocks of one memory space, an accounting layer (kits/malloc.c from line 6304, inc/malloc.h) behind a
  vendored allocator: every block has a header, and all headers are in a list.

  \<^bold>\<open>The SQL wrapper\<close> (inc/dblib.h, src/dblib\_net.c, src/pstor.c, src/dbprintf.c) runs SQL commands of clients
  in a server process. It uses the kit: a TCP port of the server accepts clients, an upcall gives each of
  them a channel, a thread and an entry in a table of five, and the thread executes the commands it
  receives. The rows of sqlite become a result list, which is encoded into the payload of a packet and
  decoded into a result list again by the client. All blocks are of one buffer class of the process.

  \<^bold>\<open>The model.\<close> Machine integers are words of their C width; an address is a 64 bit word and 0 is
  NULL. The store is a map from addresses to objects, one constructor per C structure, and a record
  \<open>os_state\<close> holds the store together with the static variables of the source files. A C function
  is a HOL function from the state to \<open>Ret (value, state)\<close> or \<open>Fault f\<close>: a null or stale
  pointer, a write past an array, reading an uninitialised variable, blocking for ever and leaving the
  process and, where the platform does not allow it, unlocking a POSIX mutex that nobody holds are all
  \<open>Fault\<close>s, so a theorem that ends in \<open>Ret\<close> says that the call returns. Loops
  with a structural bound are recursive functions; the others use \<open>while_o\<close> (theory Prelude), which
  is \<open>Fault\<close> when the loop does not end, with \<open>while_o_total\<close> as the rule for total
  correctness. No fuel is used. What the kit calls outside itself are arguments: \<open>os_env\<close> (the region
  allocator of the vendored src/malloc.c, malloc, the clock, sizes of structures, callbacks, what other
  threads do while the caller waits, whether a POSIX mutex that is free may be unlocked), \<open>thr_env\<close> (join, cancel, sleep) and \<open>net_env\<close> (the socket
  calls and the contents of new blocks). What is relied on is named: \<open>env_ok\<close> and
  \<open>class_env\<close> say that a block that is handed out overlaps no block in use.

  \<^bold>\<open>Theories of the model\<close>, in the order of the layers:
  \<^item> Prelude, Kit\_Types: words, outcomes, strings, loops; constants, structures and state
    (inc/const.h, inc/error.h, inc/os.h and the other headers).
  \<^item> Os\_Res (src/res.c), Os\_Mem (src/mem.c, src/errno.c, src/time.c), Os\_List (src/list.c),
    Os\_Var (src/var.c), Os\_Buff (src/buff.c), Os\_Qbuff (src/qbuff.c), Os\_Msgq (src/msgq.c),
    Os\_Thread (src/thread.c).
  \<^item> Net\_Base, Net\_Proto (src/linux/proto.c), Net\_Calls, Net\_Channel, Net\_Port (src/net.c),
    Net\_Sel (src/sel.c), Os\_Init (src/dbg.c and src/init.c).
  \<^item> For the JSON library Json\_Base (nodes, memory, release, copy), Json\_Parse (\<open>sjson_parse\<close> and the table
    of open levels), Json\_Print (\<open>sjson_print_json\<close>), Json\_Xml (\<open>sjson_print_xml\<close>, \<open>sjson_print_tree\<close>), Json\_Edit
    (back pointers, comma notes, levels, counting, deleting, purging), Json\_Path (names of nodes, path
    lists, search), Json\_Merge (\<open>sjson_find_json\<close>, \<open>sjson_delete_json\<close>, \<open>sjson_add_json\<close>),
    Json\_Main (src/json\_main.c, the command line tool: tables, command lines, all commands, scripts). Its store is a map
    from addresses to nodes, strings and path entries; the allocator is the argument \<open>json_env\<close>, and
    \<open>json_env_ok cap\<close> says that it hands out only blocks that are not in use and does so while less than
    \<open>cap\<close> blocks are. Printers return the buffer, so a write behind it is a \<open>Fault\<close>.
  \<^item> Mem\_Space (the memory space of the JSON library; the allocator is the argument \<open>ms_env\<close>).
  \<^item> For the SQL wrapper Db\_Result (data of dblib.h, state, memory, result lists: fetching, traversing,
    releasing), Db\_Pstor (src/pstor.c), Db\_Server (src/dbprintf.c and the rest of src/dblib\_net.c). The state
    \<open>db_state\<close> has the state of the kit as a part and the structures of the wrapper in a store of
    their own, which can be read only while the kit has the block; the calls into the kit are the functions of
    the theories above. The environment \<open>db_env\<close> has that of the kit, sqlite (\<open>sq_open\<close>, \<open>sq_step\<close> and the
    others, whose answers may depend on the number of the call), the log file and the contents of new blocks.
  A definition has the name of the C function it translates; helper definitions are loop bodies and the
  parts of long functions.

  \<^bold>\<open>Theories of the proofs.\<close>
  \<^item> Os\_List\_Ref relates a header and its nodes to an association list of ids and data pointers by a
    ghost map from headers to contents, and proves the pointer operations on it; the invariant
    \<open>kit_ok\<close> says that lists, id pools and the data of clients are consistent. Os\_List\_Laws is the
    contract of every list operation; Registry states it as a locale, proves what holds for every sequence
    of calls, and interprets it on list.c. Obj\_Table does finding, creating and deleting of objects once
    for all kinds.
  \<^item> Var\_Laws (\<open>var_ok\<close>), Qbuff\_Laws (\<open>queue_at\<close>), Msgq\_Laws (\<open>msgq_at\<close>), Thread\_Laws
    (\<open>thr_ok\<close>), Buff\_Laws and Buff\_Pool (\<open>class_rep\<close>, \<open>pool_at\<close>), Net\_Laws (\<open>ports_ok\<close>),
    Sel\_Laws (\<open>sel_ok\<close>), Log\_Laws (\<open>dbg_ok\<close>), Init\_Laws (\<open>boot_ok\<close>, \<open>kit_up\<close>): the invariant of each
    component and what each operation does on each branch.
  \<^item> Locales with their interpretations on the model: Registry (list.c), Byte\_Queue (qbuff.c: first in,
    first out), Message\_Queue (msgq.c: what is accepted is delivered once and in order), Block\_Pool (buff.c:
    blocks are disjoint, bounded in total, released once).
  \<^item> Mutex\_Threads: the interleaving machine of several threads on one mutex, with one step per access,
    its invariant, and that the functions of var.c are runs of it.
  \<^item> Net\_Wire: the packet header as bytes, the header the sender makes and the one the receiver frames, and what
    the checksum depends on.
  \<^item> Demo and Queue\_Demo: concrete states and environments, on which every property is applied.
  \<^item> Json\_Tree describes trees in the store by the cells they occupy (\<open>cells\<close>, \<open>holds\<close>) and proves release
    and copy; Json\_Parse\_Laws and Json\_Steps are the effect of the calls of the parser on the open levels;
    Json\_Docs has documents (\<open>json\<close>), their tokens and the tree they stand for (\<open>doc_tree\<close>), Json\_Lex the
    reference lexer \<open>jlex\<close>, and Json\_Parsed joins them to the parse of a whole text. Json\_Print\_Laws and
    Json\_Reprint show that the printed text has the tokens of the document. Json\_Rechain (the back pointers
    of copies), Json\_Delete (members of objects) and Json\_Purge (words of arrays, counting) are about editing.
    Json\_Shell specifies sessions of the tool on documents and proves that its commands implement them.
  \<^item> Db\_Codec has tables of values, the result list that holds a table (\<open>result_at\<close>) and its bytes; Db\_Encode
    and Db\_Decode relate pstor.c, the release and the traversal to them. Db\_Room states what the wrapper
    needs of its memory as the locale \<open>db_room\<close> and interprets it on buff.c; decoding, releasing
    and Db\_Exec (from the rows of sqlite to the result list) are proved in it. Db\_Chan relates the table of
    channels to a map and the upcall of the server port to steps of the map.
  \<^item> List\_Props, Var\_Props, Queue\_Props, Thread\_Props, Net\_Props, Sys\_Props, Json\_Props, Json\_Edit\_Props,
    Json\_Shell\_Props, Db\_Props, Db\_Server\_Props and the end of Mem\_Space: the properties.

  \<^bold>\<open>What is shown.\<close> Any sequence of insertions, deletions and searches on a list behaves as a registry;
  ids in use are never handed out twice; at most one thread is inside a mutex and some thread can always
  go on; byte queues and message queues in system memory (pool 0) deliver in order and completely, through
  \<open>os_msgq_recv_timeout\<close> where a free POSIX mutex may be unlocked and through \<open>os_msgq_recv\<close> where waits are woken up;
  blocks of a class never overlap and their sizes never exceed the class; a TCP send returns and OKAY means
  all bytes were handed to the kernel; the header a sender makes is the header its receiver frames; a group of
  ports keeps its invariant while it has room; every log message is on the console once and in order after a
  last round of the logging thread, unless one of them empties the buffer between the unlocked test of a
  round and its lock; \<open>os_init\<close> establishes the invariants of all components it has started before
  \<open>net_init\<close> and ends the process only when memory or threads are not provided; \<open>os_thread_create\<close> is
  described for every failure of its two threads. The error branches are stated as the code has them, also
  where they are wrong: a full group is overrun, unlocking a free mutex makes it unusable, the reception of a
  waiting message unlocks a mutex it has not locked, an overtaken round of the log prints its text twice, a
  thread whose runner cannot be created stays in the list after its release.

  For the JSON library: the text of every document of at most 24 levels is parsed into its tree, with
  levels, comma notes and back pointers, and nothing but two blocks per empty bracket is lost; printing and
  parsing again gives the same document; the printer stays in its buffer; releasing gives back all blocks; a
  copy with its back pointers rebuilt is a tree of the same document; deleting a member of an object or a
  word of an array leaves the tree of the rest; a session of the tool refines a table of documents. The limits are stated as well: the token buffer, the six
  bits of the element count, the XML printer in a small buffer, the merge under a path without a dot.
  The list and the byte count of a memory space are exact after any session of allocations and releases;
  a growing \<open>mem_realloc\<close> reads behind its block.

  For the SQL wrapper: what sqlite yields for a command is what the traversal at the client visits, through
  execution, encoding and decoding; decoding inverts encoding; the release of a result list gives back
  exactly its blocks; the table of channels behaves as a map of at most five ports, and the upcall of the port
  returns, gives the lock of the table back and moves the map as its command says, as far as the calls of the kit
  return. They do not when the thread of an accepted port cannot be started: the deletion of the port comes back to
  the upcall, which waits for its own lock. A result whose last row has no room for its delimiter is reported as sent, an empty
  text cannot be received, and the shutdown of the service is always refused.

  \<^bold>\<open>Bounds.\<close> A resource pool has 4000 cells and 20 kinds; a group has 32 members; the sending
  loop gives up after its retry counter and the receiving loop after its own (both are part of the code);
  a log message has at most 1001 bytes in the theorem on the log, the largest that the code leaves room
  for; a message queue below 2\^29 messages keeps the 32 bit byte count of its byte queue from wrapping; the
  bookkeeping of a block is 24 bytes in front and 8 behind within the 64 bytes of overhead. The parser has
  24 levels (MAXL) and a token buffer of 256 bytes; four blocks per token are enough memory for a parse.
  The payload of a packet of the wrapper has 8128 bytes, which bounds the table that is sent; a result list needs
  \<open>table_price\<close> bytes of the buffer class; the allocator below the class is relied on (\<open>generous\<close>) for
  requests of up to 1 MiB while there are at most 2\^20 objects.

  \<^bold>\<open>Not modelled.\<close> src/malloc.c is a vendored allocator, of which only the empty \<open>os_region_init\<close> is
  translated. The model of the queues covers queues whose nodes live in a buffer class, the theorems on queues do
  not: their representation has pool 0. Functions that only print (the bodies of the
  \<open>verbose\<close> walks, os\_errno\_printf) have no effect on the state. The text vsprintf formats is an
  argument. Bytes of a payload and the structure before them are separate objects of the store, so a
  write of a client that runs out of its own block is not expressed. In the JSON library the debug output
  and the lock around the allocator are left out; where C leaves the order of two calls open, the model
  fixes one and says so. In the SQL wrapper the debug messages are left out, except for one behind the end of
  the log; its test programs only call the library; the upcalls of a port run within the environment of the
  network model, except where the upcall of the server deletes a port and is called again, so the theorems are about the functions of the wrapper and not about a whole exchange over a
  socket. The remaining parts of the repository are none of the three libraries: the
  web interface is a candidate for an extension; the configuration daemon and the process file system
  are C++ around vendored libraries; the rest are build files.
\<close>

end
